(* ===== verification/Agent_Prelude.thy ===== *)
theory Agent_Prelude
  imports Main "HOL-Library.Word" "HOL-Library.AList" "HOL-Library.Char_ord"
    "HOL-Library.List_Lexorder"
begin

text \<open>
  Shared vocabulary of the development: byte strings, results of fallible Go functions,
  the string helpers of package strings that the Agent uses, facts on association lists
  (the model of Go maps that are iterated over), and the interface locales that several
  components instantiate: codecs, step machines with an invariant, and receivers that
  accept numbered messages in order.
\<close>

named_theorems go_simps \<open>unfolding of the result combinators and string helpers\<close>

section \<open>Types\<close>

type_synonym byte = "8 word"
type_synonym bytes = "8 word list"
type_synonym u64 = "64 word"
type_synonym ('e, 'a) res = "'e + 'a"
type_synonym 'v smap = "(string \<times> 'v) list"

text \<open>A Go conversion \<open>[]byte(s)\<close>: a string is already a sequence of bytes.\<close>

definition bytes_of :: "string \<Rightarrow> bytes" where
  "bytes_of s = map (\<lambda>c. word_of_nat (of_char c)) s"

section \<open>Results\<close>

text \<open>The Go idiom \<open>x, err := f(); if err != nil { return err }\<close>.\<close>

definition bind_res :: "('e, 'a) res \<Rightarrow> ('a \<Rightarrow> ('e, 'b) res) \<Rightarrow> ('e, 'b) res" where
  "bind_res r f = (case r of Inl e \<Rightarrow> Inl e | Inr x \<Rightarrow> f x)"

definition guard_res :: "bool \<Rightarrow> 'e \<Rightarrow> ('e, 'b) res \<Rightarrow> ('e, 'b) res" where
  "guard_res bad e k = (if bad then Inl e else k)"

definition of_option :: "'e \<Rightarrow> 'a option \<Rightarrow> ('e, 'a) res" where
  "of_option e r = (case r of None \<Rightarrow> Inl e | Some x \<Rightarrow> Inr x)"

fun is_ok :: "('e, 'a) res \<Rightarrow> bool" where
  "is_ok (Inl e) = False"
| "is_ok (Inr x) = True"

section \<open>Strings\<close>

definition contains_any :: "string \<Rightarrow> string \<Rightarrow> bool" where
  "contains_any s cs = list_ex (\<lambda>c. c \<in> set cs) s"

fun has_prefix :: "string \<Rightarrow> string \<Rightarrow> bool" where
  "has_prefix s [] = True"
| "has_prefix [] (p # ps) = False"
| "has_prefix (c # s) (p # ps) = (c = p \<and> has_prefix s ps)"

definition newline :: char where
  "newline = char_of (10 :: nat)"

definition carriage_return :: char where
  "carriage_return = char_of (13 :: nat)"

definition tab :: char where
  "tab = char_of (9 :: nat)"

text \<open>
  \<open>strings.TrimSpace\<close>, \<open>strings.ToLower\<close> and \<open>strings.EqualFold\<close> on ASCII text, which is what
  the Agent applies them to (checksums, versions, host names, keywords).
\<close>

definition is_space :: "char \<Rightarrow> bool" where
  "is_space c = (c = CHR '' '' \<or> (9 \<le> (of_char c :: nat) \<and> (of_char c :: nat) \<le> 13))"

definition trim_space :: "string \<Rightarrow> string" where
  "trim_space s = rev (dropWhile is_space (rev (dropWhile is_space s)))"

definition lower_char :: "char \<Rightarrow> char" where
  "lower_char c = (let n = of_char c :: nat in if 65 \<le> n \<and> n \<le> 90 then char_of (n + 32) else c)"

definition to_lower :: "string \<Rightarrow> string" where
  "to_lower s = map lower_char s"

definition equal_fold :: "string \<Rightarrow> string \<Rightarrow> bool" where
  "equal_fold s t = (to_lower s = to_lower t)"

definition is_digit :: "char \<Rightarrow> bool" where
  "is_digit c = (48 \<le> (of_char c :: nat) \<and> (of_char c :: nat) \<le> 57)"

definition is_letter :: "char \<Rightarrow> bool" where
  "is_letter c = (65 \<le> (of_char c :: nat) \<and> (of_char c :: nat) \<le> 90 \<or>
     97 \<le> (of_char c :: nat) \<and> (of_char c :: nat) \<le> 122)"

section \<open>Result lemmas\<close>

lemma bind_res_simps [simp, go_simps]:
  "bind_res (Inl e) f = Inl e"
  "bind_res (Inr x) f = f x"
  by (simp_all add: bind_res_def)

lemma bind_res_Inr [go_simps]:
  "bind_res r f = Inr y \<longleftrightarrow> (\<exists>x. r = Inr x \<and> f x = Inr y)"
  by (cases r) auto

lemma guard_res_Inr [simp, go_simps]:
  "guard_res bad e k = Inr y \<longleftrightarrow> \<not> bad \<and> k = Inr y"
  by (simp add: guard_res_def)

lemma guard_res_simps [simp]:
  "guard_res True e k = Inl e"
  "guard_res False e k = k"
  by (simp_all add: guard_res_def)

lemma of_option_Inr [simp, go_simps]:
  "of_option e r = Inr x \<longleftrightarrow> r = Some x"
  by (cases r) (simp_all add: of_option_def)

lemma of_option_simps [simp]:
  "of_option e (Some x) = Inr x"
  "of_option e None = Inl e"
  by (simp_all add: of_option_def)

lemma is_ok_iff: "is_ok r \<longleftrightarrow> (\<exists>x. r = Inr x)"
  by (cases r) auto

section \<open>String and byte lemmas\<close>

lemma length_bytes_of [simp]: "length (bytes_of s) = length s"
  by (simp add: bytes_of_def)

lemma bytes_of_append [simp]: "bytes_of (s @ t) = bytes_of s @ bytes_of t"
  by (simp add: bytes_of_def)

lemma byte_of_char_inject:
  "(word_of_nat (of_char c) :: byte) = word_of_nat (of_char d) \<longleftrightarrow> c = d"
proof
  assume "(word_of_nat (of_char c) :: byte) = word_of_nat (of_char d)"
  then have "unat (word_of_nat (of_char c) :: byte) = unat (word_of_nat (of_char d) :: byte)"
    by simp
  then have "(of_char c :: nat) = of_char d"
    by (simp add: unat_of_nat)
  then show "c = d"
    by simp
qed simp

lemma bytes_of_inject [simp]: "bytes_of s = bytes_of t \<longleftrightarrow> s = t"
  unfolding bytes_of_def
  by (rule inj_map_eq_map) (simp add: inj_def byte_of_char_inject)

lemma has_prefix_iff: "has_prefix s p \<longleftrightarrow> (\<exists>t. s = p @ t)"
  by (induction s p rule: has_prefix.induct) auto

lemma contains_any_iff: "contains_any s cs \<longleftrightarrow> set s \<inter> set cs \<noteq> {}"
  by (auto simp: contains_any_def list_ex_iff)

section \<open>Association lists\<close>

lemma map_of_filter_key:
  "map_of (filter (\<lambda>kv. P (fst kv)) kvs) k = (if P k then map_of kvs k else None)"
  by (induction kvs) auto

lemma map_of_map_value:
  "map_of (map (\<lambda>(k, v). (k, f k v)) kvs) k = map_option (f k) (map_of kvs k)"
  by (induction kvs) auto

lemma fst_map_value [simp]:
  "map fst (map (\<lambda>(k, v). (k, f k v)) kvs) = map fst kvs"
  by (induction kvs) auto

lemma distinct_fst_filter: "distinct (map fst kvs) \<Longrightarrow> distinct (map fst (filter P kvs))"
  by (induction kvs) auto

lemma count_filter_delete:
  assumes "distinct (map fst kvs)" and "map_of kvs k = Some v"
  shows "length (filter (\<lambda>kv. Q (snd kv)) kvs) =
    length (filter (\<lambda>kv. Q (snd kv)) (AList.delete k kvs)) + (if Q v then 1 else 0)"
  using assms
proof (induction kvs)
  case (Cons kv kvs)
  show ?case
  proof (cases "fst kv = k")
    case True
    with Cons.prems have "k \<notin> set (map fst kvs)" and "snd kv = v" by auto
    then have "AList.delete k kvs = kvs"
      by simp
    with True \<open>snd kv = v\<close> show ?thesis by (cases kv) simp
  next
    case False
    with Cons show ?thesis by (cases kv) auto
  qed
qed simp

section \<open>Interfaces\<close>

text \<open>A codec: decoding undoes encoding on the values it is meant for.\<close>

locale codec =
  fixes enc :: "'a \<Rightarrow> 'b"
    and dec :: "'b \<Rightarrow> 'a option"
    and valid :: "'a \<Rightarrow> bool"
  assumes dec_enc: "valid x \<Longrightarrow> dec (enc x) = Some x"
begin

lemma enc_inject: "valid x \<Longrightarrow> valid y \<Longrightarrow> enc x = enc y \<longleftrightarrow> x = y"
  by (metis dec_enc option.inject)

lemma dec_some: "valid x \<Longrightarrow> dec (enc x) = Some y \<longleftrightarrow> x = y"
  by (simp add: dec_enc)

end

text \<open>A machine whose steps on allowed events keep an invariant; runs are left folds of the step.\<close>

locale guarded_machine =
  fixes step :: "'s \<Rightarrow> 'e \<Rightarrow> 's"
    and inv :: "'s \<Rightarrow> bool"
    and allowed :: "'e \<Rightarrow> bool"
  assumes guarded_step: "inv s \<Longrightarrow> allowed e \<Longrightarrow> inv (step s e)"
begin

lemma guarded_run: "inv s \<Longrightarrow> list_all allowed es \<Longrightarrow> inv (foldl step s es)"
  by (induction es arbitrary: s) (auto intro: guarded_step)

end

text \<open>The case in which every event is allowed.\<close>

locale machine =
  fixes step :: "'s \<Rightarrow> 'e \<Rightarrow> 's"
    and inv :: "'s \<Rightarrow> bool"
  assumes step_inv: "inv s \<Longrightarrow> inv (step s e)"

sublocale machine \<subseteq> guarded_machine step inv "\<lambda>_. True"
  by unfold_locales (rule step_inv)

context machine
begin

lemma run_inv: "inv s \<Longrightarrow> inv (foldl step s es)"
  by (rule guarded_run) (simp_all add: list_all_iff)

end

text \<open>
  A machine with a budget of steps: its invariant is only kept while a counter of fixed width
  has not been exhausted, so it is indexed by the number of steps taken.
\<close>

locale bounded_machine =
  fixes step :: "'s \<Rightarrow> 'e \<Rightarrow> 's"
    and inv :: "nat \<Rightarrow> 's \<Rightarrow> bool"
    and limit :: nat
  assumes step_inv: "inv n s \<Longrightarrow> n < limit \<Longrightarrow> inv (Suc n) (step s e)"
begin

lemma run_inv: "inv n s \<Longrightarrow> n + length es \<le> limit \<Longrightarrow> inv (n + length es) (foldl step s es)"
proof (induction es arbitrary: s n)
  case (Cons e es)
  have "inv (Suc n) (step s e)"
    using Cons.prems by (intro step_inv) auto
  then have "inv (Suc n + length es) (foldl step (step s e) es)"
    using Cons.prems by (intro Cons.IH) auto
  then show ?case by simp
qed simp

end

text \<open>
  A machine that also keeps a number which no step decreases: a revision, a sequence
  counter, a generation.
\<close>

locale monotone_machine = machine step inv
  for step :: "'s \<Rightarrow> 'e \<Rightarrow> 's" and inv :: "'s \<Rightarrow> bool" +
  fixes level :: "'s \<Rightarrow> nat"
  assumes step_level: "inv s \<Longrightarrow> level s \<le> level (step s e)"
begin

lemma run_level: "inv s \<Longrightarrow> level s \<le> level (foldl step s es)"
proof (induction es arbitrary: s)
  case (Cons e es)
  have "level s \<le> level (step s e)"
    using Cons.prems by (rule step_level)
  also have "\<dots> \<le> level (foldl step (step s e) es)"
    using Cons.prems by (intro Cons.IH step_inv)
  finally show ?case by simp
qed simp

end

text \<open>
  A receiver that accepts a message only when it carries the number after the last one
  accepted. A rejected message leaves the receiver as it was.
\<close>

fun accepted :: "('s \<Rightarrow> 'p \<Rightarrow> 's option) \<Rightarrow> 's \<Rightarrow> 'p list \<Rightarrow> 'p list" where
  "accepted acc s [] = []"
| "accepted acc s (p # ps) =
     (case acc s p of None \<Rightarrow> accepted acc s ps | Some s' \<Rightarrow> p # accepted acc s' ps)"

locale ordered_receiver =
  fixes acc :: "'s \<Rightarrow> 'p \<Rightarrow> 's option"
    and number :: "'p \<Rightarrow> nat"
    and newest :: "'s \<Rightarrow> nat"
  assumes accept_next: "acc s p = Some s' \<Longrightarrow> number p = Suc (newest s)"
    and accept_moves: "acc s p = Some s' \<Longrightarrow> newest s' = number p"
begin

lemma accepted_consecutive:
  "map number (accepted acc s ps) =
     [Suc (newest s) ..< Suc (newest s) + length (accepted acc s ps)]"
proof (induction ps arbitrary: s)
  case (Cons p ps)
  show ?case
  proof (cases "acc s p")
    case None
    with Cons show ?thesis by simp
  next
    case (Some s')
    have "number p = Suc (newest s)" and "newest s' = Suc (newest s)"
      using accept_next [OF Some] accept_moves [OF Some] by auto
    with Some Cons.IH [of s'] show ?thesis
      by (simp add: upt_conv_Cons del: upt_Suc)
  qed
qed simp

lemma accepted_numbers_distinct: "distinct (map number (accepted acc s ps))"
  by (simp add: accepted_consecutive)

lemma accepted_no_replay: "distinct (accepted acc s ps)"
  using accepted_numbers_distinct by (rule distinct_map [THEN iffD1, THEN conjunct1])

end

end
