(* ===== verification/Go_Encoding.thy ===== *)
theory Go_Encoding
  imports Agent_Prelude
begin

text \<open>
  The encodings of the Go standard library that the Agent's wire formats rest on:
  unpadded URL-safe base64 (encoding/base64, RawURLEncoding), lower-case hexadecimal
  (encoding/hex) and big-endian 64-bit integers (encoding/binary). The decoders follow
  the library: base64 skips carriage returns and newlines and ignores the unused bits
  of the last character, hexadecimal accepts both cases.
\<close>

section \<open>Base64, URL alphabet, no padding\<close>

definition b64_alphabet :: string where
  "b64_alphabet = ''ABCDEFGHIJKLMNOPQRSTUVWXYZabcdefghijklmnopqrstuvwxyz0123456789-_''"

definition b64_char :: "nat \<Rightarrow> char" where
  "b64_char n = b64_alphabet ! n"

fun index_of :: "'a \<Rightarrow> 'a list \<Rightarrow> nat option" where
  "index_of x [] = None"
| "index_of x (y # ys) = (if x = y then Some 0 else map_option Suc (index_of x ys))"

definition b64_value :: "char \<Rightarrow> nat option" where
  "b64_value c = index_of c b64_alphabet"

fun b64_encode :: "bytes \<Rightarrow> string" where
  "b64_encode (a # b # c # rest) =
     (let n = unat a * 65536 + unat b * 256 + unat c in
      b64_char (n div 262144) # b64_char (n div 4096 mod 64) #
      b64_char (n div 64 mod 64) # b64_char (n mod 64) # b64_encode rest)"
| "b64_encode [a, b] =
     (let n = unat a * 65536 + unat b * 256 in
      [b64_char (n div 262144), b64_char (n div 4096 mod 64), b64_char (n div 64 mod 64)])"
| "b64_encode [a] =
     (let n = unat a * 65536 in [b64_char (n div 262144), b64_char (n div 4096 mod 64)])"
| "b64_encode [] = []"

fun b64_bytes :: "nat list \<Rightarrow> bytes option" where
  "b64_bytes (d0 # d1 # d2 # d3 # rest) =
     (let n = d0 * 262144 + d1 * 4096 + d2 * 64 + d3 in
      map_option (\<lambda>bs. word_of_nat (n div 65536) # word_of_nat (n div 256 mod 256) #
        word_of_nat (n mod 256) # bs) (b64_bytes rest))"
| "b64_bytes [d0, d1, d2] =
     (let n = d0 * 262144 + d1 * 4096 + d2 * 64 in
      Some [word_of_nat (n div 65536), word_of_nat (n div 256 mod 256)])"
| "b64_bytes [d0, d1] =
     (let n = d0 * 262144 + d1 * 4096 in Some [word_of_nat (n div 65536)])"
| "b64_bytes [d0] = None"
| "b64_bytes [] = Some []"

fun traverse_opt :: "('a \<Rightarrow> 'b option) \<Rightarrow> 'a list \<Rightarrow> 'b list option" where
  "traverse_opt f [] = Some []"
| "traverse_opt f (x # xs) =
     (case f x of None \<Rightarrow> None | Some y \<Rightarrow> map_option (\<lambda>ys. y # ys) (traverse_opt f xs))"

definition b64_decode :: "string \<Rightarrow> bytes option" where
  "b64_decode s = Option.bind
     (traverse_opt b64_value (filter (\<lambda>c. c \<noteq> newline \<and> c \<noteq> carriage_return) s)) b64_bytes"

section \<open>Hexadecimal\<close>

definition hex_char :: "nat \<Rightarrow> char" where
  "hex_char n = ''0123456789abcdef'' ! n"

definition hex_value :: "char \<Rightarrow> nat option" where
  "hex_value c = (case index_of c ''0123456789abcdef'' of Some n \<Rightarrow> Some n
     | None \<Rightarrow> map_option (\<lambda>n. n + 10) (index_of c ''ABCDEF''))"

definition hex_encode :: "bytes \<Rightarrow> string" where
  "hex_encode bs = concat (map (\<lambda>b. [hex_char (unat b div 16), hex_char (unat b mod 16)]) bs)"

fun hex_decode :: "string \<Rightarrow> bytes option" where
  "hex_decode [] = Some []"
| "hex_decode [c] = None"
| "hex_decode (c # d # rest) =
     (case (hex_value c, hex_value d) of
        (Some h, Some l) \<Rightarrow> map_option (\<lambda>bs. word_of_nat (h * 16 + l) # bs) (hex_decode rest)
      | _ \<Rightarrow> None)"

section \<open>Big-endian 64-bit integers\<close>

definition put_uint64 :: "u64 \<Rightarrow> bytes" where
  "put_uint64 w = map (\<lambda>i. word_of_nat (unat w div 256 ^ i mod 256)) [7, 6, 5, 4, 3, 2, 1, 0]"

definition get_uint64 :: "bytes \<Rightarrow> u64" where
  "get_uint64 bs = word_of_nat (foldl (\<lambda>n b. n * 256 + unat b) 0 bs)"

section \<open>Base64 lemmas\<close>

lemma index_of_nth: "distinct xs \<Longrightarrow> n < length xs \<Longrightarrow> index_of (xs ! n) xs = Some n"
proof (induction xs arbitrary: n)
  case (Cons x xs)
  then show ?case
    by (cases n) auto
qed simp

lemma index_of_less: "index_of x xs = Some n \<Longrightarrow> n < length xs \<and> xs ! n = x"
  by (induction xs arbitrary: n) (auto split: if_splits)

lemma length_b64_alphabet: "length b64_alphabet = 64"
  by (simp add: b64_alphabet_def)

lemma distinct_b64_alphabet: "distinct b64_alphabet"
  by (simp add: b64_alphabet_def)

lemma b64_value_char [simp]: "n < 64 \<Longrightarrow> b64_value (b64_char n) = Some n"
  unfolding b64_value_def b64_char_def
  by (rule index_of_nth) (simp_all add: length_b64_alphabet distinct_b64_alphabet)

lemma newline_not_in_b64: "newline \<notin> set b64_alphabet" "carriage_return \<notin> set b64_alphabet"
  by (simp_all add: b64_alphabet_def newline_def carriage_return_def char_of_def)

lemma b64_char_in_alphabet: "n < 64 \<Longrightarrow> b64_char n \<in> set b64_alphabet"
  by (simp add: b64_char_def length_b64_alphabet)

lemma b64_char_printable [simp]:
  "n < 64 \<Longrightarrow> b64_char n \<noteq> newline" "n < 64 \<Longrightarrow> b64_char n \<noteq> carriage_return"
  using b64_char_in_alphabet newline_not_in_b64 by metis+

lemma unat_byte_less [simp]: "unat (b :: byte) < 256"
  using unsigned_less [where ?'a = nat, of b] by simp

lemma four_sextets:
  fixes x :: nat
  assumes "x = y1 * 64 + r0" "y1 = y2 * 64 + r1" "y2 = y3 * 64 + r2"
  shows "y3 * 262144 + r2 * 4096 + r1 * 64 + r0 = x"
  unfolding assms by simp

lemma b64_digits:
  fixes x :: nat
  shows "x div 262144 * 262144 + x div 4096 mod 64 * 4096 + x div 64 mod 64 * 64 + x mod 64 = x"
proof -
  have "x div 4096 = x div 64 div 64" and "x div 262144 = x div 64 div 64 div 64"
    by (simp_all flip: div_mult2_eq)
  then show ?thesis
    by (simp only:) (rule four_sextets; rule div_mult_mod_eq [symmetric])
qed

lemma three_bytes:
  fixes a b c :: nat
  assumes "b < 256" "c < 256"
  shows "(a * 65536 + b * 256 + c) div 65536 = a"
    and "(a * 65536 + b * 256 + c) div 256 mod 256 = b"
    and "(a * 65536 + b * 256 + c) mod 256 = c"
proof -
  have "a * 65536 + b * 256 + c = (a * 256 + b) * 256 + c" by simp
  then have mid: "(a * 65536 + b * 256 + c) div 256 = a * 256 + b"
    and low: "(a * 65536 + b * 256 + c) mod 256 = c"
    using assms by (simp_all only: div_mult_self3 mod_mult_self3 div_less mod_less add_0_right)
  have "(a * 65536 + b * 256 + c) div 65536 = (a * 65536 + b * 256 + c) div 256 div 256"
    by (simp flip: div_mult2_eq)
  then show "(a * 65536 + b * 256 + c) div 65536 = a"
    using assms by (simp add: mid)
  show "(a * 65536 + b * 256 + c) div 256 mod 256 = b"
    using assms by (simp add: mid)
  show "(a * 65536 + b * 256 + c) mod 256 = c"
    by (rule low)
qed

lemma b64_top_less: "a < 256 \<Longrightarrow> b < 256 \<Longrightarrow> c < (256 :: nat) \<Longrightarrow>
  (a * 65536 + b * 256 + c) div 262144 < 64"
  by (rule less_mult_imp_div_less) simp

lemma b64_low_zero:
  "((a :: nat) * 65536 + b * 256) mod 64 = 0"
  "(a * 65536) div 64 mod 64 = 0"
proof -
  have "a * 65536 + b * 256 = 64 * (a * 1024 + b * 4)" by simp
  then show "(a * 65536 + b * 256) mod 64 = 0" by (simp only: mod_mult_self1_is_0)
  have "a * 65536 = 64 * (64 * (a * 16))" by simp
  then show "(a * 65536) div 64 mod 64 = 0"
    by (simp only: nonzero_mult_div_cancel_left mod_mult_self1_is_0 zero_neq_numeral
        not_False_eq_True)
qed

text \<open>The sextets of an encoded block, and what decoding makes of them.\<close>

fun b64_sextets :: "bytes \<Rightarrow> nat list" where
  "b64_sextets (a # b # c # rest) =
     (let n = unat a * 65536 + unat b * 256 + unat c in
      (n div 262144) # (n div 4096 mod 64) # (n div 64 mod 64) # (n mod 64) # b64_sextets rest)"
| "b64_sextets [a, b] =
     (let n = unat a * 65536 + unat b * 256 in
      [n div 262144, n div 4096 mod 64, n div 64 mod 64])"
| "b64_sextets [a] = (let n = unat a * 65536 in [n div 262144, n div 4096 mod 64])"
| "b64_sextets [] = []"

lemma b64_encode_sextets: "b64_encode bs = map b64_char (b64_sextets bs)"
  by (induction bs rule: b64_encode.induct) (simp_all add: Let_def)

lemma b64_sextets_less: "d \<in> set (b64_sextets bs) \<Longrightarrow> d < 64"
proof (induction bs rule: b64_sextets.induct)
  case (1 a b c rest)
  then show ?case
    using b64_top_less [of "unat a" "unat b" "unat c"] by (auto simp: Let_def)
next
  case (2 a b)
  then show ?case
    using b64_top_less [of "unat a" "unat b" 0] by (auto simp: Let_def)
next
  case (3 a)
  then show ?case
    using b64_top_less [of "unat a" 0 0] by (auto simp: Let_def)
qed simp

lemma b64_bytes_sextets: "b64_bytes (b64_sextets bs) = Some bs"
proof (induction bs rule: b64_sextets.induct)
  case (1 a b c rest)
  then show ?case
    by (simp add: Let_def b64_digits three_bytes)
next
  case (2 a b)
  let ?n = "unat a * 65536 + unat b * 256"
  have "?n div 262144 * 262144 + ?n div 4096 mod 64 * 4096 + ?n div 64 mod 64 * 64 = ?n"
    using b64_digits [of ?n] b64_low_zero(1) by (metis add.right_neutral)
  then show ?case
    using three_bytes [of "unat b" 0 "unat a"] by (simp add: Let_def)
next
  case (3 a)
  let ?n = "unat a * 65536"
  have "?n div 262144 * 262144 + ?n div 4096 mod 64 * 4096 = ?n"
    using b64_digits [of ?n] b64_low_zero(1) [of "unat a" 0] b64_low_zero(2) [of "unat a"] by simp
  then show ?case
    using three_bytes [of 0 0 "unat a"] by (simp add: Let_def)
qed simp

lemma traverse_opt_map:
  "(\<And>x. x \<in> set xs \<Longrightarrow> f (g x) = Some x) \<Longrightarrow> traverse_opt f (map g xs) = Some xs"
  by (induction xs) auto

lemma traverse_opt_None: "x \<in> set xs \<Longrightarrow> f x = None \<Longrightarrow> traverse_opt f xs = None"
  by (induction xs) (auto split: option.splits)

lemma b64_decode_encode: "b64_decode (b64_encode bs) = Some bs"
proof -
  have keep: "filter (\<lambda>c. c \<noteq> newline \<and> c \<noteq> carriage_return) (b64_encode bs) = b64_encode bs"
    by (auto simp: b64_encode_sextets filter_id_conv dest: b64_sextets_less)
  have "traverse_opt b64_value (b64_encode bs) = Some (b64_sextets bs)"
    unfolding b64_encode_sextets
    by (rule traverse_opt_map) (simp add: b64_sextets_less)
  then show ?thesis
    by (simp add: b64_decode_def keep b64_bytes_sextets)
qed

interpretation b64: codec b64_encode b64_decode "\<lambda>_. True"
  by unfold_locales (rule b64_decode_encode)

lemma length_b64_encode: "length (b64_encode bs) = (length bs * 4 + 2) div 3"
  by (induction bs rule: b64_encode.induct) (simp_all add: Let_def)

section \<open>Hexadecimal lemmas\<close>

lemma hex_value_char [simp]: "n < 16 \<Longrightarrow> hex_value (hex_char n) = Some n"
  using index_of_nth [of "''0123456789abcdef''" n] by (simp add: hex_value_def hex_char_def)

lemma hex_decode_encode: "hex_decode (hex_encode bs) = Some bs"
proof (induction bs)
  case (Cons b bs)
  have "unat b div 16 < 16"
    by (rule less_mult_imp_div_less) simp
  moreover have "unat b div 16 * 16 + unat b mod 16 = unat b" by simp
  ultimately show ?case
    using Cons by (simp add: hex_encode_def del: div_mult_mod_eq)
qed (simp add: hex_encode_def)

interpretation hex: codec hex_encode hex_decode "\<lambda>_. True"
  by unfold_locales (rule hex_decode_encode)

lemma length_hex_encode: "length (hex_encode bs) = 2 * length bs"
  by (induction bs) (simp_all add: hex_encode_def)

section \<open>Big-endian lemmas\<close>

lemma length_put_uint64 [simp]: "length (put_uint64 w) = 8"
  by (simp add: put_uint64_def)

lemma unat_word_of_nat_byte: "unat (word_of_nat n :: byte) = n mod 256"
  by (simp add: unat_of_nat)

lemma base256_step:
  fixes x :: nat
  shows "x div 256 ^ Suc i * 256 + x div 256 ^ i mod 256 = x div 256 ^ i"
proof -
  have "x div 256 ^ Suc i = x div 256 ^ i div 256"
    by (simp add: mult.commute [of 256] div_mult2_eq)
  then show ?thesis by simp
qed

lemma foldl_base256:
  "foldl (\<lambda>n b. n * 256 + unat b) (x div 256 ^ k)
     (map (\<lambda>i. word_of_nat (x div 256 ^ i mod 256) :: byte) (rev [0..<k])) = x"
proof (induction k)
  case (Suc k)
  then show ?case
    by (simp add: unat_word_of_nat_byte base256_step del: power_Suc)
qed simp

lemma get_put_uint64: "get_uint64 (put_uint64 w) = w"
proof -
  have "unat w div 256 ^ 8 = 0"
    using unsigned_less [where ?'a = nat, of w] by (intro div_less) simp
  then have "foldl (\<lambda>n b. n * 256 + unat b) 0
      (map (\<lambda>i. word_of_nat (unat w div 256 ^ i mod 256) :: byte) (rev [0..<8])) = unat w"
    using foldl_base256 [of "unat w" 8] by (simp only:)
  moreover have "rev [0..<8] = [7, 6, 5, 4, 3, 2, 1, 0 :: nat]"
    by (simp add: upt_rec)
  ultimately show ?thesis
    by (simp only: get_uint64_def put_uint64_def) simp
qed

interpretation be64: codec put_uint64 "\<lambda>bs. Some (get_uint64 bs)" "\<lambda>_. True"
  by unfold_locales (simp add: get_put_uint64)

lemma put_uint64_inject [simp]: "put_uint64 v = put_uint64 w \<longleftrightarrow> v = w"
  using be64.enc_inject by simp

end
