(* ===== verification/Go_Text.thy ===== *)
theory Go_Text
  imports Go_Encoding
begin

text \<open>
  Text functions of the Go standard library that the Agent's configuration and networking code
  uses, on the Unix side: \<open>strings.Split\<close>, \<open>strings.Trim\<close>, \<open>strconv.Atoi\<close>, \<open>filepath.Clean\<close> with
  \<open>Join\<close>, \<open>Dir\<close> and \<open>Abs\<close>, \<open>net.SplitHostPort\<close> and the padded and unpadded standard base64
  decoders.
\<close>

section \<open>Splitting and trimming\<close>

fun split_on :: "char \<Rightarrow> string \<Rightarrow> string list" where
  "split_on c [] = [[]]"
| "split_on c (d # s) =
     (if d = c then [] # split_on c s
      else case split_on c s of [] \<Rightarrow> [[d]] | w # ws \<Rightarrow> (d # w) # ws)"

fun join_with :: "char \<Rightarrow> string list \<Rightarrow> string" where
  "join_with c [] = []"
| "join_with c [w] = w"
| "join_with c (w # ws) = w @ c # join_with c ws"

definition trim_right :: "char \<Rightarrow> string \<Rightarrow> string" where
  "trim_right c s = rev (dropWhile (\<lambda>d. d = c) (rev s))"

definition trim_char :: "char \<Rightarrow> string \<Rightarrow> string" where
  "trim_char c s = trim_right c (dropWhile (\<lambda>d. d = c) s)"

section \<open>Numbers\<close>

definition digit_value :: "char \<Rightarrow> nat option" where
  "digit_value c = index_of c ''0123456789''"

definition parse_nat :: "string \<Rightarrow> nat option" where
  "parse_nat s = (if s = [] then None
     else map_option (foldl (\<lambda>n d. n * 10 + d) 0) (traverse_opt digit_value s))"

text \<open>
  \<open>strconv.Atoi\<close> returns a value and whether there was no error: 0 for a text that is not a
  number, the nearest 64-bit value for one that is out of range.
\<close>

definition Atoi :: "string \<Rightarrow> int \<times> bool" where
  "Atoi s =
     (let (neg, ds) = (case s of [] \<Rightarrow> (False, s)
            | c # cs \<Rightarrow> if c = CHR ''-'' then (True, cs) else if c = CHR ''+'' then (False, cs) else (False, s)) in
      case parse_nat ds of
        None \<Rightarrow> (0, False)
      | Some k \<Rightarrow>
          let n = int k in
          if neg then (if n > 9223372036854775808 then (- 9223372036854775808, False) else (- n, True))
          else (if n > 9223372036854775807 then (9223372036854775807, False) else (n, True)))"

fun nat_digits :: "nat \<Rightarrow> string" where
  "nat_digits n = (if n < 10 then [''0123456789'' ! n]
     else nat_digits (n div 10) @ [''0123456789'' ! (n mod 10)])"

declare nat_digits.simps [simp del]

definition itoa :: "int \<Rightarrow> string" where
  "itoa n = (if n < 0 then CHR ''-'' # nat_digits (nat (- n)) else nat_digits (nat n))"

section \<open>Paths\<close>

fun clean_parts :: "bool \<Rightarrow> string list \<Rightarrow> string list \<Rightarrow> string list" where
  "clean_parts rooted acc [] = rev acc"
| "clean_parts rooted acc (w # ws) =
     (if w = [] \<or> w = ''.'' then clean_parts rooted acc ws
      else if w = ''..'' then
        (case acc of
           [] \<Rightarrow> clean_parts rooted (if rooted then [] else [w]) ws
         | a # as \<Rightarrow> clean_parts rooted (if a = ''..'' then w # acc else as) ws)
      else clean_parts rooted (w # acc) ws)"

definition is_abs :: "string \<Rightarrow> bool" where
  "is_abs p = has_prefix p ''/''"

definition clean_path :: "string \<Rightarrow> string" where
  "clean_path p =
     (let parts = clean_parts (is_abs p) [] (split_on CHR ''/'' p) in
      if is_abs p then CHR ''/'' # join_with CHR ''/'' parts
      else if parts = [] then ''.'' else join_with CHR ''/'' parts)"

definition join_path :: "string list \<Rightarrow> string" where
  "join_path ws = (case filter (\<lambda>w. w \<noteq> []) ws of [] \<Rightarrow> [] | vs \<Rightarrow> clean_path (join_with CHR ''/'' vs))"

definition dir_path :: "string \<Rightarrow> string" where
  "dir_path p = clean_path (rev (dropWhile (\<lambda>c. c \<noteq> CHR ''/'') (rev p)))"

text \<open>\<open>filepath.Abs\<close> with the working directory, \<open>None\<close> when it cannot be found.\<close>

definition abs_path :: "string option \<Rightarrow> string \<Rightarrow> string option" where
  "abs_path wd p = (if is_abs p then Some (clean_path p) else map_option (\<lambda>d. join_path [d, p]) wd)"

section \<open>Host and port\<close>

definition after_last_colon :: "string \<Rightarrow> string" where
  "after_last_colon s = rev (takeWhile (\<lambda>c. c \<noteq> CHR '':'') (rev s))"

definition before_last_colon :: "string \<Rightarrow> string" where
  "before_last_colon s = rev (drop 1 (dropWhile (\<lambda>c. c \<noteq> CHR '':'') (rev s)))"

definition SplitHostPort :: "string \<Rightarrow> (string \<times> string) option" where
  "SplitHostPort s =
     (if CHR '':'' \<notin> set s then None
      else case s of
        c # cs \<Rightarrow>
          if c = CHR ''['' then
            (if CHR '']'' \<notin> set cs then None
             else let host = takeWhile (\<lambda>d. d \<noteq> CHR '']'') cs; rest = drop (Suc (length host)) cs in
               (case rest of
                  [] \<Rightarrow> None
                | d # port \<Rightarrow>
                    if d \<noteq> CHR '':'' \<or> CHR '':'' \<in> set port then None
                    else if CHR ''['' \<in> set cs \<or> CHR '']'' \<in> set port then None
                    else Some (host, port)))
          else if CHR '':'' \<in> set (before_last_colon s) then None
          else if CHR ''['' \<in> set s \<or> CHR '']'' \<in> set s then None
          else Some (before_last_colon s, after_last_colon s)
      | [] \<Rightarrow> None)"

definition JoinHostPort :: "string \<Rightarrow> string \<Rightarrow> string" where
  "JoinHostPort host port = (if CHR '':'' \<in> set host then ''['' @ host @ '']:'' @ port else host @ '':'' @ port)"

section \<open>Addresses of web resources\<close>

text \<open>What the Agent reads of a parsed URL; parsing itself (net/url) is a parameter where it is used.\<close>

record parsed_url =
  u_scheme :: string
  u_host :: string
  u_user :: "string option"
  u_fragment :: string
  u_hostname :: string
  u_loopback :: bool
  u_path :: string
  u_query :: string

section \<open>Standard base64\<close>

definition std_to_url :: "char \<Rightarrow> char" where
  "std_to_url c = (if c = CHR ''+'' then CHR ''-'' else if c = CHR ''/'' then CHR ''_''
     else if c = CHR ''-'' \<or> c = CHR ''_'' then CHR ''!'' else c)"

definition raw_std_decode :: "string \<Rightarrow> bytes option" where
  "raw_std_decode s = b64_decode (map std_to_url s)"

definition std_decode :: "string \<Rightarrow> bytes option" where
  "std_decode s =
     (let t = filter (\<lambda>c. c \<noteq> newline \<and> c \<noteq> carriage_return) s in
      if length t mod 4 \<noteq> 0 then None
      else if has_prefix (rev t) ''=='' then raw_std_decode (butlast (butlast t))
      else if has_prefix (rev t) ''='' then raw_std_decode (butlast t)
      else raw_std_decode t)"

section \<open>Lemmas\<close>

lemma split_on_nonempty [simp]: "split_on c s \<noteq> []"
  by (induction c s rule: split_on.induct) (auto split: list.splits)

lemma split_on_append: "split_on c (a @ c # b) = split_on c a @ split_on c b"
  by (induction c a rule: split_on.induct) (auto split: list.splits)

lemma split_on_plain: "c \<notin> set a \<Longrightarrow> split_on c a = [a]"
  by (induction c a rule: split_on.induct) auto

lemma join_split: "join_with c (split_on c s) = s"
proof (induction c s rule: split_on.induct)
  case (2 c d s)
  then show ?case
    by (cases "split_on c s"; cases "tl (split_on c s)") (auto split: list.splits)
qed simp

lemma is_abs_clean: "is_abs p \<Longrightarrow> is_abs (clean_path p)"
  by (simp add: clean_path_def is_abs_def Let_def)

lemma abs_path_is_abs:
  assumes "abs_path wd p = Some q" and "\<And>d. wd = Some d \<Longrightarrow> is_abs d"
  shows "is_abs q"
proof (cases "is_abs p")
  case True
  then show ?thesis using assms(1) is_abs_clean by (auto simp: abs_path_def)
next
  case False
  then obtain d where d: "wd = Some d" "q = join_path [d, p]" using assms(1) by (auto simp: abs_path_def)
  then have "is_abs d" using assms(2) by simp
  then obtain e where e: "d = CHR ''/'' # e" by (auto simp: is_abs_def has_prefix_iff)
  have "is_abs (join_with CHR ''/'' (d # ws))" for ws by (cases ws) (simp_all add: e is_abs_def)
  then show ?thesis
    unfolding d(2) join_path_def by (auto simp: e is_abs_def intro!: is_abs_clean [unfolded is_abs_def])
qed

section \<open>Printed numbers\<close>

lemma nat_digits_char: "d < 10 \<Longrightarrow> digit_value (''0123456789'' ! d) = Some d"
  unfolding digit_value_def by (rule index_of_nth) simp_all

lemma traverse_opt_append:
  "traverse_opt f (xs @ ys) = (case traverse_opt f xs of None \<Rightarrow> None
     | Some a \<Rightarrow> map_option (\<lambda>b. a @ b) (traverse_opt f ys))"
  by (induction xs) (cases "traverse_opt f ys"; auto split: option.splits)+

lemma nat_digits_parse:
  "\<exists>ds. traverse_opt digit_value (nat_digits n) = Some ds \<and> foldl (\<lambda>n d. n * 10 + d) 0 ds = n"
proof (induction n rule: nat_digits.induct)
  case (1 n)
  show ?case
  proof (cases "n < 10")
    case True
    then show ?thesis by (simp add: nat_digits.simps [of n] nat_digits_char)
  next
    case False
    then obtain ds where "traverse_opt digit_value (nat_digits (n div 10)) = Some ds"
      "foldl (\<lambda>n d. n * 10 + d) 0 ds = n div 10"
      using 1 by blast
    then show ?thesis
      using False nat_digits_char [of "n mod 10"]
      by (simp add: nat_digits.simps [of n] traverse_opt_append)
  qed
qed

lemma nat_digits_set: "c \<in> set (nat_digits n) \<Longrightarrow> is_digit c"
proof (induction n rule: nat_digits.induct)
  case (1 n)
  have "list_all is_digit ''0123456789''"
    by (simp add: is_digit_def)
  then have "is_digit (''0123456789'' ! (m mod 10))" for m :: nat
    by (simp only: list_all_length) simp
  from this [of n] show ?case
    using 1 by (cases "n < 10") (auto simp: nat_digits.simps [of n] simp del: nth_Cons_numeral)
qed

lemma nat_digits_nonempty: "nat_digits n \<noteq> []"
  by (subst nat_digits.simps) simp

lemma parse_nat_digits: "parse_nat (nat_digits n) = Some n"
  using nat_digits_parse [of n] nat_digits_nonempty [of n] by (auto simp: parse_nat_def)

lemma nat_digits_plain:
  "takeWhile (\<lambda>c. c \<noteq> CHR ''.'') (nat_digits n) = nat_digits n" "dropWhile (\<lambda>c. c \<noteq> CHR ''.'') (nat_digits n) = []"
  "c = CHR ''-'' \<Longrightarrow> c \<notin> set (nat_digits n)"
proof -
  have "\<not> is_digit CHR ''.''" "\<not> is_digit CHR ''-''" by (simp_all add: is_digit_def)
  then have dots: "c \<noteq> CHR ''.''" "c \<noteq> CHR ''-''" if "c \<in> set (nat_digits n)" for c
    using nat_digits_set [OF that] by metis+
  show "takeWhile (\<lambda>c. c \<noteq> CHR ''.'') (nat_digits n) = nat_digits n"
    using dots by (subst takeWhile_eq_all_conv) blast
  show "dropWhile (\<lambda>c. c \<noteq> CHR ''.'') (nat_digits n) = []"
    using dots by (subst dropWhile_eq_Nil_conv) blast
  show "c = CHR ''-'' \<Longrightarrow> c \<notin> set (nat_digits n)"
    using dots by blast
qed

lemma nat_digits_head: "\<exists>c cs. nat_digits n = c # cs \<and> c \<noteq> CHR ''-'' \<and> c \<noteq> CHR ''+''"
proof -
  obtain c cs where c: "nat_digits n = c # cs" using nat_digits_nonempty by (cases "nat_digits n") auto
  then have "is_digit c" using nat_digits_set [of c n] by simp
  then show ?thesis using c by (auto simp: is_digit_def)
qed

lemma Atoi_itoa: "- 9223372036854775808 \<le> n \<Longrightarrow> n \<le> 9223372036854775807 \<Longrightarrow> Atoi (itoa n) = (n, True)"
proof (cases "n < 0")
  case True
  then show "- 9223372036854775808 \<le> n \<Longrightarrow> ?thesis" by (simp add: Atoi_def itoa_def parse_nat_digits)
next
  case False
  obtain c cs where "nat_digits (nat n) = c # cs" "c \<noteq> CHR ''-''" "c \<noteq> CHR ''+''" using nat_digits_head by blast
  then show "n \<le> 9223372036854775807 \<Longrightarrow> ?thesis"
    using False parse_nat_digits [of "nat n"] by (simp add: Atoi_def itoa_def)
qed

end
