(* ===== verification/Artifact_Fetch.thy ===== *)
theory Artifact_Fetch
  imports Go_Text
begin

text \<open>
  Pinned release artifacts (internal/artifact/artifact.go): the check of the pin, verification of
  a file against its SHA-256 and version, and the download that stages a verified file. The hash,
  the output of running a file with \<open>-version\<close>, the URL parser and the server are parameters.
\<close>

section \<open>Pins\<close>

datatype artifact_error = BadChecksum | BadVersion | Missing | NotRegular | ShaDiffers | NoVersion
  | VersionDiffers | BadURL | NotAbsolute | DestinationExists | DownloadFailed | BadRedirect | BadStatus
  | TooLarge | FileError

definition MaxBytes :: nat where
  "MaxBytes = 268435456"

text \<open>The expression \<open>^v?[0-9]+\.[0-9]+\.[0-9]+(?:[-+][A-Za-z0-9.-]+)?$\<close>.\<close>

definition digits :: "string \<Rightarrow> (string \<times> string) option" where
  "digits s = (let ds = takeWhile is_digit s in
     if ds = [] then None else Some (ds, dropWhile is_digit s))"

definition dotted :: "string \<Rightarrow> string option" where
  "dotted s = (case digits s of Some (_, c # rest) \<Rightarrow> if c = CHR ''.'' then Some rest else None | _ \<Rightarrow> None)"

definition version_suffix :: "string \<Rightarrow> bool" where
  "version_suffix s = (case s of [] \<Rightarrow> True
     | c # cs \<Rightarrow> (c = CHR ''-'' \<or> c = CHR ''+'') \<and> cs \<noteq> [] \<and>
         list_all (\<lambda>d. is_letter d \<or> is_digit d \<or> d = CHR ''.'' \<or> d = CHR ''-'') cs)"

definition exactVersion :: "string \<Rightarrow> bool" where
  "exactVersion s = (let t = (case s of c # cs \<Rightarrow> if c = CHR ''v'' then cs else s | [] \<Rightarrow> []) in
     case Option.bind (dotted t) dotted of
       None \<Rightarrow> False
     | Some u \<Rightarrow> (case digits u of None \<Rightarrow> False | Some (_, rest) \<Rightarrow> version_suffix rest))"

definition validatePin :: "string \<Rightarrow> string \<Rightarrow> (artifact_error, unit) res" where
  "validatePin checksum version =
     (case hex_decode checksum of
        None \<Rightarrow> Inl BadChecksum
      | Some b \<Rightarrow> if length b \<noteq> 32 then Inl BadChecksum
          else if \<not> exactVersion version then Inl BadVersion else Inr ())"

section \<open>Verification\<close>

datatype file_node = Regular bytes | Special

record tools =
  sha256 :: "bytes \<Rightarrow> bytes"
  version_output :: "bytes \<Rightarrow> string option"

definition Verify ::
  "tools \<Rightarrow> file_node option \<Rightarrow> string \<Rightarrow> string \<Rightarrow> (artifact_error, unit) res" where
  "Verify t path checksum version =
     bind_res (validatePin checksum version) (\<lambda>_.
     (case path of
        None \<Rightarrow> Inl Missing
      | Some Special \<Rightarrow> Inl NotRegular
      | Some (Regular content) \<Rightarrow>
          if length content > MaxBytes then Inl NotRegular
          else if \<not> equal_fold (hex_encode (sha256 t content)) checksum then Inl ShaDiffers
          else case version_output t content of
            None \<Rightarrow> Inl NoVersion
          | Some out \<Rightarrow> if trim_space out \<noteq> version then Inl VersionDiffers else Inr ()))"

section \<open>Download\<close>

definition artifactURL :: "(string \<Rightarrow> parsed_url option) \<Rightarrow> string \<Rightarrow> bool" where
  "artifactURL parse_url link =
     (case parse_url link of
        None \<Rightarrow> False
      | Some u \<Rightarrow>
          if u_host u = [] \<or> u_user u \<noteq> None \<or> u_fragment u \<noteq> [] then False
          else if u_scheme u = ''https'' then True
          else u_scheme u = ''http'' \<and> (equal_fold (u_hostname u) ''localhost'' \<or> u_loopback u))"

datatype http_reply = Redirect string | Response nat bytes | NoReply

text \<open>
  \<open>client.Do\<close> with the given \<open>CheckRedirect\<close>: \<open>via\<close> counts the requests made so far. The result
  lists the addresses that were requested.
\<close>

function do_request ::
  "(string \<Rightarrow> parsed_url option) \<Rightarrow> (nat \<Rightarrow> string \<Rightarrow> http_reply) \<Rightarrow> nat \<Rightarrow> string \<Rightarrow>
     (artifact_error, nat \<times> bytes) res \<times> string list" where
  "do_request parse_url http via url =
     (case http via url of
        NoReply \<Rightarrow> (Inl DownloadFailed, [url])
      | Response status body \<Rightarrow> (Inr (status, body), [url])
      | Redirect location \<Rightarrow>
          if Suc via > 5 \<or> \<not> artifactURL parse_url location then (Inl DownloadFailed, [url])
          else case do_request parse_url http (Suc via) location of (r, urls) \<Rightarrow> (r, url # urls))"
  by pat_completeness auto
termination
  by (relation "measure (\<lambda>(parse_url, http, via, url). 6 - via)") auto

declare do_request.simps [simp del]

text \<open>
  \<open>Fetch\<close> works on the node at the destination. The limit reader reads at most one byte more
  than the maximum; the temporary file is removed on every path and is not part of the state.
  \<open>file_ok\<close> is whether creating, writing, syncing and renaming the temporary file succeed.
\<close>

definition Fetch ::
  "(string \<Rightarrow> parsed_url option) \<Rightarrow> (nat \<Rightarrow> string \<Rightarrow> http_reply) \<Rightarrow> tools \<Rightarrow> bool \<Rightarrow> string \<Rightarrow> bool \<Rightarrow>
     file_node option \<Rightarrow> string \<Rightarrow> string \<Rightarrow> (artifact_error, unit) res \<times> file_node option" where
  "Fetch parse_url http t file_ok link absolute destination checksum version =
     (case validatePin checksum version of
        Inl e \<Rightarrow> (Inl e, destination)
      | Inr _ \<Rightarrow>
          if \<not> artifactURL parse_url link then (Inl BadURL, destination)
          else if \<not> absolute then (Inl NotAbsolute, destination)
          else if destination \<noteq> None then (Inl DestinationExists, destination)
          else case fst (do_request parse_url http 0 link) of
            Inl e \<Rightarrow> (Inl e, destination)
          | Inr (status, body) \<Rightarrow>
              if status \<noteq> 200 then (Inl BadStatus, destination)
              else let content = take (MaxBytes + 1) body in
                if \<not> file_ok then (Inl FileError, destination)
                else if length content > MaxBytes then (Inl TooLarge, destination)
                else case Verify t (Some (Regular content)) checksum version of
                  Inl e \<Rightarrow> (Inl e, destination)
                | Inr _ \<Rightarrow> (Inr (), Some (Regular content)))"

section \<open>Lemmas\<close>

lemma Verify_ok:
  "Verify t path checksum version = Inr () \<longleftrightarrow>
     validatePin checksum version = Inr () \<and>
     (\<exists>content out. path = Some (Regular content) \<and> length content \<le> MaxBytes \<and>
        equal_fold (hex_encode (sha256 t content)) checksum \<and>
        version_output t content = Some out \<and> trim_space out = version)"
  by (auto simp: Verify_def bind_res_Inr split: option.splits file_node.splits if_splits)

lemma do_request_urls:
  assumes "via \<le> 5" and "artifactURL parse_url url"
  shows "(\<forall>u \<in> set (snd (do_request parse_url http via url)). artifactURL parse_url u) \<and>
    via + length (snd (do_request parse_url http via url)) \<le> 6"
  using assms
proof (induction parse_url http via url rule: do_request.induct)
  case (1 parse_url http via url)
  show ?case
  proof (cases "http via url")
    case (Redirect location)
    show ?thesis
    proof (cases "Suc via > 5 \<or> \<not> artifactURL parse_url location")
      case True
      then show ?thesis
        using Redirect "1.prems" by (subst (1 2) do_request.simps) auto
    next
      case False
      then show ?thesis
        using "1.IH" [OF Redirect False] Redirect "1.prems"
        by (subst (1 2) do_request.simps) (auto split: prod.splits)
    qed
  qed (use "1.prems" in \<open>simp_all add: do_request.simps [of _ _ _ url]\<close>)
qed

section \<open>Properties\<close>



end
