(* ===== verification/Agent_Updater.thy ===== *)
theory Agent_Updater
  imports Artifact_Fetch
begin

text \<open>
  Self update (internal/updater): the persistent update state, staging and acknowledgement by the
  worker (updater.go), and the supervisor that promotes a staged binary, watches it for 90 seconds
  and rolls back (supervisor_linux.go). Every system call may fail, as told by a list of faults,
  and every intermediate content of the update directory is recorded, so that a crash between any
  two calls is a state of the model. Times are seconds; the time stamp of the state is left out.
\<close>

section \<open>The update directory\<close>

record update_state =
  TaskID :: string
  Status :: string
  Version :: string
  SHA256 :: string
  Reason :: string

datatype state_file = NoState | Corrupt | Stored update_state

record disk =
  current :: "file_node option"
  previous :: "file_node option"
  next_file :: "file_node option"
  state_json :: state_file

datatype update_error = NotExist | Unreadable | NotSupervised | InProgress | ArtifactFailed artifact_error
  | CallFailed | Locked | NotRegularFile | StartFailed | WorkerExited

definition zero_state :: update_state where
  "zero_state = \<lparr>TaskID = [], Status = [], Version = [], SHA256 = [], Reason = []\<rparr>"

definition read_state :: "disk \<Rightarrow> (update_error, update_state) res" where
  "read_state d = (case state_json d of NoState \<Rightarrow> Inl NotExist | Corrupt \<Rightarrow> Inl Unreadable | Stored s \<Rightarrow> Inr s)"

text \<open>
  The world of a process: the directory, the contents it has had since the process began its
  present action, and the faults of the calls to come. \<open>call\<close> is one system call: it fails when
  the next fault says so or when the operation does not apply.
\<close>

record world =
  disk_of :: disk
  visited :: "disk list"
  faults :: "bool list"

definition take_fault :: "world \<Rightarrow> bool \<times> world" where
  "take_fault w = (case faults w of [] \<Rightarrow> (False, w) | f # fs \<Rightarrow> (f, w\<lparr>faults := fs\<rparr>))"

definition call :: "(disk \<Rightarrow> disk option) \<Rightarrow> world \<Rightarrow> bool \<times> world" where
  "call oper w = (case take_fault w of (f, w') \<Rightarrow>
     if f then (False, w')
     else case oper (disk_of w') of
       None \<Rightarrow> (False, w')
     | Some d \<Rightarrow> (True, w'\<lparr>disk_of := d, visited := d # visited w'\<rparr>))"

definition world_of :: "disk \<Rightarrow> bool list \<Rightarrow> world" where
  "world_of d fs = \<lparr>disk_of = d, visited = [d], faults = fs\<rparr>"

text \<open>The state is written to a temporary file that is renamed over the old one.\<close>

definition write_state :: "update_state \<Rightarrow> disk \<Rightarrow> disk option" where
  "write_state s d = Some (d\<lparr>state_json := Stored s\<rparr>)"

definition restore_previous :: "disk \<Rightarrow> disk option" where
  "restore_previous d = (case previous d of None \<Rightarrow> None
     | Some f \<Rightarrow> Some (d\<lparr>current := Some f, previous := None\<rparr>))"

definition set_aside_current :: "disk \<Rightarrow> disk option" where
  "set_aside_current d = (case current d of None \<Rightarrow> None
     | Some f \<Rightarrow> Some (d\<lparr>current := None, previous := Some f\<rparr>))"

definition promote_next :: "disk \<Rightarrow> disk option" where
  "promote_next d = (case next_file d of None \<Rightarrow> None
     | Some f \<Rightarrow> Some (d\<lparr>current := Some f, next_file := None\<rparr>))"

definition remove_previous :: "disk \<Rightarrow> disk option" where
  "remove_previous d = (case previous d of None \<Rightarrow> None | Some _ \<Rightarrow> Some (d\<lparr>previous := None\<rparr>))"

section \<open>Worker side\<close>

definition Available :: "string \<Rightarrow> string \<Rightarrow> bool" where
  "Available goos supervised = (goos = ''linux'' \<and> supervised = ''1'')"

definition Snapshot :: "bool \<Rightarrow> disk \<Rightarrow> update_state option \<times> bool" where
  "Snapshot available d = (case read_state d of Inl _ \<Rightarrow> (None, available) | Inr s \<Rightarrow> (Some s, available))"

definition in_progress :: "update_state \<Rightarrow> bool" where
  "in_progress s = (Status s = ''staged'' \<or> Status s = ''ready'' \<or> Status s = ''restarting'' \<or> Status s = ''healthy'')"

text \<open>
  \<open>fetch\<close> is \<open>artifact.Fetch\<close> into the file \<open>next\<close>, which has just been removed, applied to the
  checksum and version.
\<close>

definition Stage ::
  "bool \<Rightarrow> (file_node option \<Rightarrow> string \<Rightarrow> string \<Rightarrow> (artifact_error, unit) res \<times> file_node option) \<Rightarrow>
     world \<Rightarrow> string \<Rightarrow> string \<Rightarrow> string \<Rightarrow> (update_error, unit) res \<times> world" where
  "Stage available fetch w task checksum version =
     (if \<not> available then (Inl NotSupervised, w)
      else if state_json (disk_of w) = Corrupt then (Inl Unreadable, w)
      else if (case read_state (disk_of w) of Inl _ \<Rightarrow> False | Inr old \<Rightarrow> in_progress old) then (Inl InProgress, w)
      else case call (\<lambda>d. Some (d\<lparr>next_file := None\<rparr>)) w of (ok, w1) \<Rightarrow>
        if \<not> ok then (Inl CallFailed, w1)
        else case fetch None checksum version of
          (Inl e, _) \<Rightarrow> (Inl (ArtifactFailed e), w1)
        | (Inr _, f) \<Rightarrow>
            (case call (\<lambda>d. Some (d\<lparr>next_file := f\<rparr>)) w1 of (ok2, w2) \<Rightarrow>
              if \<not> ok2 then (Inl CallFailed, w2)
              else case call (write_state \<lparr>TaskID = task, Status = ''staged'', Version = version,
                  SHA256 = checksum, Reason = []\<rparr>) w2 of (ok3, w3) \<Rightarrow>
                if \<not> ok3 then (Inl CallFailed, w3) else (Inr (), w3)))"

definition Acknowledge :: "world \<Rightarrow> string \<Rightarrow> string \<Rightarrow> (update_error, unit) res \<times> world" where
  "Acknowledge w task version =
     (case read_state (disk_of w) of
        Inl NotExist \<Rightarrow> (Inr (), w)
      | Inl e \<Rightarrow> (Inl e, w)
      | Inr s \<Rightarrow>
          if Status s = ''staged'' \<and> TaskID s = task then
            (case call (write_state (s\<lparr>Status := ''ready''\<rparr>)) w of (ok, w1) \<Rightarrow>
               (if ok then Inr () else Inl CallFailed, w1))
          else if Status s = ''restarting'' \<and> Version s = version then
            (case call (write_state (s\<lparr>Status := ''healthy''\<rparr>)) w of (ok, w1) \<Rightarrow>
               (if ok then Inr () else Inl CallFailed, w1))
          else (Inr (), w))"

section \<open>Supervisor\<close>

record supervisor =
  sstate :: update_state
  deadline :: "nat option"
  child :: file_node

text \<open>
  \<open>copyBinary\<close> creates the target and then fills it: when the copy fails, what was written so
  far (\<open>partial\<close>) stays.
\<close>

definition copyBinary :: "file_node \<Rightarrow> file_node \<Rightarrow> world \<Rightarrow> bool \<times> world" where
  "copyBinary source partial w =
     (case call (\<lambda>d. if current d = None then Some (d\<lparr>current := Some partial\<rparr>) else None) w of (ok, w1) \<Rightarrow>
        if \<not> ok then (False, w1) else call (\<lambda>d. Some (d\<lparr>current := Some source\<rparr>)) w1)"

definition start :: "world \<Rightarrow> (update_error, file_node) res \<times> world" where
  "start w = (case current (disk_of w) of
     Some (Regular b) \<Rightarrow> (case take_fault w of (f, w1) \<Rightarrow>
       if f then (Inl StartFailed, w1) else (Inr (Regular b), w1))
   | _ \<Rightarrow> (Inl NotRegularFile, w))"

definition rollback :: "supervisor \<Rightarrow> string \<Rightarrow> world \<Rightarrow> (update_error, supervisor) res \<times> world" where
  "rollback sv reason w =
     (case call restore_previous w of (ok, w1) \<Rightarrow>
        if \<not> ok then (Inl CallFailed, w1)
        else let s = (sstate sv)\<lparr>Status := ''rolled_back'', Reason := reason\<rparr> in
          case call (write_state s) w1 of (ok2, w2) \<Rightarrow>
            if \<not> ok2 then (Inl CallFailed, w2)
            else case start w2 of
              (Inl e, w3) \<Rightarrow> (Inl e, w3)
            | (Inr c, w3) \<Rightarrow> (Inr (sv\<lparr>sstate := s, deadline := None, child := c\<rparr>), w3))"

text \<open>The part of \<open>Supervise\<close> that settles an interrupted update before the worker starts.\<close>

definition settle :: "update_state \<Rightarrow> world \<Rightarrow> (update_error, update_state) res \<times> world" where
  "settle s w =
     (if Status s = ''restarting'' then
        (case (if previous (disk_of w) = None then take_fault w
               else case call restore_previous w of (ok, w1) \<Rightarrow> (\<not> ok, w1)) of (bad, w1) \<Rightarrow>
           if bad then (Inl CallFailed, w1)
           else let s1 = s\<lparr>Status := ''rolled_back'', Reason := ''interrupted''\<rparr> in
             case call (write_state s1) w1 of (ok, w2) \<Rightarrow>
               if \<not> ok then (Inl CallFailed, w2) else (Inr s1, w2))
      else if Status s = ''healthy'' then
        (let s1 = s\<lparr>Status := ''completed''\<rparr> in
         case call (write_state s1) w of (ok, w1) \<Rightarrow>
           if \<not> ok then (Inl CallFailed, w1) else (Inr s1, w1))
      else (Inr s, w))"

text \<open>\<open>Supervise\<close> up to its loop; \<open>self\<close> is the executable of the supervisor.\<close>

definition Supervise ::
  "file_node \<Rightarrow> file_node \<Rightarrow> world \<Rightarrow> (update_error, supervisor) res \<times> world" where
  "Supervise self partial w =
     (case take_fault w of (locked, w1) \<Rightarrow>
        if locked then (Inl Locked, w1)
        else case (if current (disk_of w1) = None then copyBinary self partial w1 else (True, w1)) of (ok, w2) \<Rightarrow>
          if \<not> ok then (Inl CallFailed, w2)
          else case read_state (disk_of w2) of
            Inl Unreadable \<Rightarrow> (Inl Unreadable, w2)
          | r \<Rightarrow>
              (case settle (case r of Inl _ \<Rightarrow> zero_state | Inr s \<Rightarrow> s) w2 of
                 (Inl e, w3) \<Rightarrow> (Inl e, w3)
               | (Inr s, w3) \<Rightarrow>
                   (case start w3 of
                      (Inl e, w4) \<Rightarrow> (Inl e, w4)
                    | (Inr c, w4) \<Rightarrow> (Inr \<lparr>sstate = s, deadline = None, child = c\<rparr>, w4))))"

text \<open>One round of the loop: the worker exited.\<close>

definition child_done :: "supervisor \<Rightarrow> world \<Rightarrow> (update_error, supervisor) res \<times> world" where
  "child_done sv w =
     (if deadline sv \<noteq> None then rollback sv ''exited'' w else (Inl WorkerExited, w))"

text \<open>
  The promotion of the verified file \<open>next\<close>. A failed removal of \<open>previous\<close> is ignored, and so
  is a failed restoration after the second rename failed.
\<close>

definition promote :: "supervisor \<Rightarrow> nat \<Rightarrow> world \<Rightarrow> (update_error, supervisor) res \<times> world" where
  "promote sv now w =
     (let w1 = snd (call remove_previous w); s = (sstate sv)\<lparr>Status := ''restarting''\<rparr> in
      case call (write_state s) w1 of (ok, w2) \<Rightarrow>
        if \<not> ok then (Inl CallFailed, w2)
        else case call set_aside_current w2 of (ok2, w3) \<Rightarrow>
          if \<not> ok2 then (Inl CallFailed, w3)
          else case call promote_next w3 of (ok3, w4) \<Rightarrow>
            if \<not> ok3 then (Inl CallFailed, snd (call restore_previous w4))
            else case start w4 of
              (Inr c, w5) \<Rightarrow> (Inr (sv\<lparr>sstate := s, deadline := Some (now + 90), child := c\<rparr>), w5)
            | (Inl e, w5) \<Rightarrow> rollback (sv\<lparr>sstate := s\<rparr>) ''unstartable'' w5)"

text \<open>One round of the loop: the ticker fired at time \<open>now\<close>.\<close>

definition tick :: "tools \<Rightarrow> supervisor \<Rightarrow> nat \<Rightarrow> world \<Rightarrow> (update_error, supervisor) res \<times> world" where
  "tick t sv0 now w =
     (case read_state (disk_of w) of
        Inl Unreadable \<Rightarrow> (Inl Unreadable, w)
      | r \<Rightarrow>
          (let sv = (case r of Inl _ \<Rightarrow> sv0 | Inr s \<Rightarrow> sv0\<lparr>sstate := s\<rparr>); s = sstate sv in
           if Status s = ''ready'' then
             (case Verify t (next_file (disk_of w)) (SHA256 s) (Version s) of
                Inl e \<Rightarrow> (let s1 = s\<lparr>Status := ''failed'', Reason := ''verify''\<rparr> in
                  (Inr (sv\<lparr>sstate := s1\<rparr>), snd (call (write_state s1) w)))
              | Inr _ \<Rightarrow> promote sv now w)
           else case deadline sv of
             None \<Rightarrow> (Inr sv, w)
           | Some dl \<Rightarrow>
               if Status s = ''healthy'' then
                 (let s1 = s\<lparr>Status := ''completed'', Reason := []\<rparr> in
                  case call (write_state s1) w of (ok, w1) \<Rightarrow>
                    if \<not> ok then (Inl CallFailed, w1) else (Inr (sv\<lparr>sstate := s1, deadline := None\<rparr>), w1))
               else if now > dl then rollback sv ''timeout'' w
               else (Inr sv, w)))"

section \<open>Recoverable directories\<close>

text \<open>
  \<open>T\<close> is the set of trusted binaries: the one installed first and those whose worker the
  Controller has acknowledged. A directory is recoverable when the next start of the supervisor
  ends with a trusted worker.
\<close>

definition status :: "disk \<Rightarrow> string" where
  "status d = (case state_json d of Stored s \<Rightarrow> Status s | _ \<Rightarrow> [])"

definition runs_trusted :: "bytes set \<Rightarrow> disk \<Rightarrow> bool" where
  "runs_trusted T d \<longleftrightarrow> (\<exists>b \<in> T. current d = Some (Regular b))"

definition recoverable :: "bytes set \<Rightarrow> disk \<Rightarrow> bool" where
  "recoverable T d \<longleftrightarrow> (\<forall>f. previous d = Some f \<longrightarrow> f \<in> Regular ` T) \<and> state_json d \<noteq> Corrupt \<and>
     (status d = ''restarting'' \<and> previous d \<noteq> None \<or> runs_trusted T d)"

definition seen :: "(disk \<Rightarrow> bool) \<Rightarrow> world \<Rightarrow> bool" where
  "seen P w \<longleftrightarrow> P (disk_of w) \<and> list_all P (visited w)"

text \<open>While a supervisor is up: outside a trial the trusted current binary runs; during a trial the
  previous one is kept.\<close>

fun is_regular :: "file_node \<Rightarrow> bool" where
  "is_regular (Regular b) = True"
| "is_regular Special = False"

definition up_ok :: "bytes set \<Rightarrow> supervisor \<Rightarrow> disk \<Rightarrow> bool" where
  "up_ok T sv d \<longleftrightarrow> recoverable T d \<and> current d = Some (child sv) \<and> is_regular (child sv) \<and>
     (state_json d = NoState \<longrightarrow> sstate sv = zero_state) \<and>
     (if deadline sv = None then status d \<noteq> ''restarting'' \<and> child sv \<in> Regular ` T
      else previous d \<noteq> None \<and> (status d = ''restarting'' \<or> status d = ''healthy'' \<and> child sv \<in> Regular ` T))"

definition safe :: "bytes set \<Rightarrow> (update_error, supervisor) res \<times> world \<Rightarrow> bool" where
  "safe T rw \<longleftrightarrow> seen (recoverable T) (snd rw) \<and>
     (case fst rw of Inl e \<Rightarrow> True | Inr sv \<Rightarrow> up_ok T sv (disk_of (snd rw)))"

named_theorems disk_ops \<open>effects of the file operations\<close>

lemma take_fault_same:
  "take_fault w = (f, w') \<Longrightarrow> disk_of w' = disk_of w \<and> visited w' = visited w"
  by (auto simp: take_fault_def split: list.splits)

lemma take_fault_seen: "take_fault w = (f, w') \<Longrightarrow> seen P w' = seen P w"
  using take_fault_same [of w f w'] by (simp add: seen_def)

lemma call_cases:
  assumes "call oper w = (ok, w')"
  shows "ok \<and> oper (disk_of w) = Some (disk_of w') \<and> visited w' = disk_of w' # visited w \<or>
    \<not> ok \<and> disk_of w' = disk_of w \<and> visited w' = visited w"
proof -
  obtain f w1 where f: "take_fault w = (f, w1)" by fastforce
  then show ?thesis
    using assms take_fault_same [OF f] by (auto simp: call_def split: if_splits option.splits)
qed

lemma call_seen:
  assumes "call oper w = (ok, w')" and "seen P w" and "\<And>d. oper (disk_of w) = Some d \<Longrightarrow> P d"
  shows "seen P w'"
  using call_cases [OF assms(1)] assms(2,3) by (auto simp: seen_def)

lemma call_disk:
  assumes "call oper w = (ok, w')"
  shows "if ok then oper (disk_of w) = Some (disk_of w') else disk_of w' = disk_of w"
  using call_cases [OF assms] by auto

lemma disk_op_simps [disk_ops]:
  "write_state s d = Some d' \<longleftrightarrow> d' = d\<lparr>state_json := Stored s\<rparr>"
  "restore_previous d = Some d' \<longleftrightarrow> (\<exists>f. previous d = Some f \<and> d' = d\<lparr>current := Some f, previous := None\<rparr>)"
  "set_aside_current d = Some d' \<longleftrightarrow> (\<exists>f. current d = Some f \<and> d' = d\<lparr>current := None, previous := Some f\<rparr>)"
  "promote_next d = Some d' \<longleftrightarrow> (\<exists>f. next_file d = Some f \<and> d' = d\<lparr>current := Some f, next_file := None\<rparr>)"
  "remove_previous d = Some d' \<longleftrightarrow> previous d \<noteq> None \<and> d' = d\<lparr>previous := None\<rparr>"
  by (auto simp: write_state_def restore_previous_def set_aside_current_def promote_next_def
      remove_previous_def split: option.splits)

lemma start_cases:
  assumes "start w = (r, w')"
  shows "disk_of w' = disk_of w" and "seen P w' = seen P w"
    and "r = Inr c \<Longrightarrow> current (disk_of w) = Some c \<and> is_regular c"
proof -
  show "disk_of w' = disk_of w" and "seen P w' = seen P w"
    and "r = Inr c \<Longrightarrow> current (disk_of w) = Some c \<and> is_regular c"
    using assms take_fault_same [of w]
    by (auto simp: start_def seen_def split: option.splits file_node.splits prod.splits if_splits)
qed

lemma up_ok_idle:
  assumes "recoverable T d" and "status d \<noteq> ''restarting''" and "current d = Some (child sv)"
    and "deadline sv = None" and "state_json d = NoState \<Longrightarrow> sstate sv = zero_state"
  shows "up_ok T sv d"
  using assms by (auto simp: up_ok_def recoverable_def runs_trusted_def)

lemma recoverable_stored:
  assumes "recoverable T d" and "runs_trusted T d"
  shows "recoverable T (d\<lparr>state_json := Stored s\<rparr>)"
  using assms by (simp add: recoverable_def runs_trusted_def)

lemma status_stored [simp]: "status (d\<lparr>state_json := Stored s\<rparr>) = Status s"
  by (simp add: status_def)

lemma start_safe:
  assumes "start w = (Inr c, w')" and "seen (recoverable T) w" and "status (disk_of w) \<noteq> ''restarting''"
    and "child sv = c" "deadline sv = None" and "state_json (disk_of w) = NoState \<Longrightarrow> sstate sv = zero_state"
  shows "safe T (Inr sv, w')"
  using assms start_cases [OF assms(1)] up_ok_idle [of T "disk_of w" sv]
  by (simp add: safe_def) (simp add: seen_def)

lemma rollback_safe:
  assumes seen: "seen (recoverable T) w" and prev: "previous (disk_of w) \<noteq> None"
  shows "safe T (rollback sv reason w)"
proof -
  obtain ok w1 where c1: "call restore_previous w = (ok, w1)" by fastforce
  have "recoverable T d" if "restore_previous (disk_of w) = Some d" for d
    using seen that by (auto simp: seen_def recoverable_def runs_trusted_def disk_ops)
  note s1 = call_seen [OF c1 seen this] and r1 = call_disk [OF c1]
  show ?thesis
  proof (cases ok)
    case False
    then show ?thesis using c1 s1 by (simp add: rollback_def safe_def)
  next
    case True
    let ?s = "(sstate sv)\<lparr>Status := ''rolled_back'', Reason := reason\<rparr>"
    obtain ok2 w2 where c2: "call (write_state ?s) w1 = (ok2, w2)" by fastforce
    have d1: "runs_trusted T (disk_of w1)"
      using r1 True seen by (auto simp: disk_ops seen_def recoverable_def runs_trusted_def)
    then have "recoverable T d" if "write_state ?s (disk_of w1) = Some d" for d
      using that s1 recoverable_stored by (auto simp: disk_ops seen_def)
    note s2 = call_seen [OF c2 s1 this] and r2 = call_disk [OF c2]
    obtain r w3 where st: "start w2 = (r, w3)" by fastforce
    show ?thesis
    proof (cases "ok2 \<and> (\<exists>c. r = Inr c)")
      case go: True
      then obtain c where "r = Inr c" by blast
      then have "safe T (Inr (sv\<lparr>sstate := ?s, deadline := None, child := c\<rparr>), w3)"
        using go r2 by (intro start_safe [OF _ s2]) (auto simp: st disk_ops)
      then show ?thesis
        using True go c1 c2 st \<open>r = Inr c\<close> by (simp add: rollback_def Let_def)
    next
      case False
      then show ?thesis
        using True c1 c2 st s2 start_cases(2) [OF st]
        by (auto simp: rollback_def Let_def safe_def split: sum.splits)
    qed
  qed
qed

lemma settle_safe:
  assumes seen: "seen (recoverable T) w" and state: "status (disk_of w) = Status s"
    and none: "state_json (disk_of w) = NoState \<Longrightarrow> s = zero_state"
  shows "seen (recoverable T) (snd (settle s w)) \<and>
    (\<forall>s'. fst (settle s w) = Inr s' \<longrightarrow> status (disk_of (snd (settle s w))) = Status s' \<and>
      Status s' \<noteq> ''restarting'' \<and> (state_json (disk_of (snd (settle s w))) = NoState \<longrightarrow> s' = zero_state))"
proof (cases "Status s = ''restarting''")
  case True
  let ?s1 = "s\<lparr>Status := ''rolled_back'', Reason := ''interrupted''\<rparr>"
  obtain bad w1 where b: "(if previous (disk_of w) = None then take_fault w
      else case call restore_previous w of (ok, w1) \<Rightarrow> (\<not> ok, w1)) = (bad, w1)" by fastforce
  have restored: "recoverable T d \<and> runs_trusted T d" if "restore_previous (disk_of w) = Some d" for d
    using that seen by (auto simp: disk_ops seen_def recoverable_def runs_trusted_def)
  have w1: "seen (recoverable T) w1 \<and> (\<not> bad \<longrightarrow> runs_trusted T (disk_of w1))"
  proof (cases "previous (disk_of w) = None")
    case prev: True
    then have "runs_trusted T (disk_of w)" using seen by (auto simp: seen_def recoverable_def)
    then show ?thesis
      using prev b seen take_fault_same [of w bad w1] take_fault_seen [of w bad w1 "recoverable T"] by simp
  next
    case False
    obtain ok v where c: "call restore_previous w = (ok, v)" by fastforce
    then have "v = w1" "bad = (\<not> ok)" using b False by auto
    then show ?thesis
      using call_seen [OF c seen] call_disk [OF c] restored by (auto split: if_splits)
  qed
  obtain ok w2 where c2: "call (write_state ?s1) w1 = (ok, w2)" by fastforce
  have "seen (recoverable T) w2" if "\<not> bad"
    using call_seen [OF c2, of "recoverable T"] w1 that recoverable_stored by (auto simp: disk_ops seen_def)
  then show ?thesis
    using True b w1 c2 call_disk [OF c2]
    by (cases bad; cases ok) (simp_all add: settle_def Let_def disk_ops)
next
  case False
  let ?s1 = "s\<lparr>Status := ''completed''\<rparr>"
  obtain ok w1 where c: "call (write_state ?s1) w = (ok, w1)" by fastforce
  have "runs_trusted T (disk_of w)"
    using False seen state by (auto simp: seen_def recoverable_def)
  then have "seen (recoverable T) w1"
    using call_seen [OF c seen] recoverable_stored seen by (auto simp: disk_ops seen_def)
  then show ?thesis
    using False c call_disk [OF c] seen state none
    by (cases ok) (auto simp: settle_def Let_def disk_ops)
qed

lemma copyBinary_safe:
  assumes seen: "seen (recoverable T) w" and cur: "current (disk_of w) = None"
    and c: "copyBinary self partial w = (ok, w')"
  shows "seen (recoverable T) w'"
proof -
  let ?create = "\<lambda>d. if current d = None then Some (d\<lparr>current := Some partial\<rparr>) else None"
  have trial: "status (disk_of w) = ''restarting''" "previous (disk_of w) \<noteq> None"
    using seen cur by (auto simp: seen_def recoverable_def runs_trusted_def)
  have free: "recoverable T ((disk_of w)\<lparr>current := f\<rparr>)" for f
    using trial seen by (auto simp: seen_def recoverable_def status_def)
  obtain ok1 w1 where c1: "call ?create w = (ok1, w1)" by fastforce
  have s1: "seen (recoverable T) w1"
    by (rule call_seen [OF c1 seen]) (auto simp: free split: if_splits)
  show ?thesis
  proof (cases ok1)
    case True
    then have "disk_of w1 = (disk_of w)\<lparr>current := Some partial\<rparr>"
      using call_disk [OF c1] cur by simp
    moreover have c2: "call (\<lambda>d. Some (d\<lparr>current := Some self\<rparr>)) w1 = (ok, w')"
      using c c1 True by (simp add: copyBinary_def)
    ultimately show ?thesis
      using call_seen [OF c2 s1] free [of "Some self"] by simp
  next
    case False
    then show ?thesis using c c1 s1 by (simp add: copyBinary_def)
  qed
qed

lemma Supervise_safe:
  assumes seen: "seen (recoverable T) w"
  shows "safe T (Supervise self partial w)"
proof -
  obtain locked w1 where f: "take_fault w = (locked, w1)" by fastforce
  then have s1: "seen (recoverable T) w1"
    using take_fault_seen [OF f] seen by simp
  obtain ok w2 where c: "(if current (disk_of w1) = None then copyBinary self partial w1 else (True, w1)) = (ok, w2)"
    by fastforce
  then have s2: "seen (recoverable T) w2"
    using copyBinary_safe [OF s1] s1 by (auto split: if_splits)
  define s where "s = (case read_state (disk_of w2) of Inl _ \<Rightarrow> zero_state | Inr s \<Rightarrow> s)"
  have read: "read_state (disk_of w2) \<noteq> Inl Unreadable" "status (disk_of w2) = Status s"
    "state_json (disk_of w2) = NoState \<Longrightarrow> s = zero_state"
    using s2 by (auto simp: seen_def recoverable_def read_state_def status_def s_def zero_state_def split: state_file.splits)
  obtain r w3 where st: "settle s w2 = (r, w3)" by fastforce
  note settled = settle_safe [OF s2 read(2,3), unfolded st fst_conv snd_conv]
  obtain r2 w4 where go: "start w3 = (r2, w4)" by fastforce
  have result: "Supervise self partial w =
      (if locked then (Inl Locked, w1) else if \<not> ok then (Inl CallFailed, w2)
       else case r of Inl e \<Rightarrow> (Inl e, w3)
        | Inr s' \<Rightarrow> (case r2 of Inl e \<Rightarrow> (Inl e, w4) | Inr c' \<Rightarrow> (Inr \<lparr>sstate = s', deadline = None, child = c'\<rparr>, w4)))"
    using f c st go read(1) unfolding Supervise_def s_def
    by (auto split: sum.splits update_error.splits)
  have err: "seen (recoverable T) w4" using settled start_cases(2) [OF go] by simp
  show ?thesis
  proof (cases "\<exists>s' c'. r = Inr s' \<and> r2 = Inr c'")
    case True
    then obtain s' c' where rr: "r = Inr s'" "r2 = Inr c'" by blast
    then have "safe T (Inr \<lparr>sstate = s', deadline = None, child = c'\<rparr>, w4)"
      using settled by (intro start_safe [of w3 c']) (auto simp: go)
    then show ?thesis
      using result rr s1 s2 by (simp add: safe_def)
  next
    case False
    then show ?thesis
      using result s1 s2 settled err by (auto simp: safe_def split: sum.splits)
  qed
qed

lemma promote_safe:
  assumes seen: "seen (recoverable T) w" and trusted: "runs_trusted T (disk_of w)"
  shows "safe T (promote sv now w)"
proof -
  let ?s = "(sstate sv)\<lparr>Status := ''restarting''\<rparr>"
  obtain ok0 w1 where c0: "call remove_previous w = (ok0, w1)" by fastforce
  have s1: "seen (recoverable T) w1"
    by (rule call_seen [OF c0 seen]) (use seen trusted in \<open>auto simp: disk_ops seen_def recoverable_def runs_trusted_def\<close>)
  have t1: "runs_trusted T (disk_of w1)"
    using call_disk [OF c0] trusted by (cases ok0) (auto simp: disk_ops runs_trusted_def)
  obtain ok w2 where c1: "call (write_state ?s) w1 = (ok, w2)" by fastforce
  have s2: "seen (recoverable T) w2"
    by (rule call_seen [OF c1 s1]) (use s1 t1 recoverable_stored in \<open>auto simp: disk_ops seen_def\<close>)
  obtain ok2 w3 where c2: "call set_aside_current w2 = (ok2, w3)" by fastforce
  obtain ok3 w4 where c3: "call promote_next w3 = (ok3, w4)" by fastforce
  obtain ok4 w4' where c4: "call restore_previous w4 = (ok4, w4')" by fastforce
  obtain r w5 where st: "start w4 = (r, w5)" by fastforce
  show ?thesis
  proof (cases "ok")
    case False
    then show ?thesis using c0 c1 s2 by (simp add: promote_def Let_def safe_def)
  next
    case True
    then have d2: "status (disk_of w2) = ''restarting''" "runs_trusted T (disk_of w2)"
      "state_json (disk_of w2) = Stored ?s"
      using call_disk [OF c1] t1 by (auto simp: disk_ops runs_trusted_def)
    then have aside: "recoverable T d \<and> status d = ''restarting'' \<and> state_json d = Stored ?s \<and> (\<exists>b \<in> T. previous d = Some (Regular b))"
      if "set_aside_current (disk_of w2) = Some d" for d
      using that s2 by (auto simp: disk_ops seen_def recoverable_def runs_trusted_def status_def)
    have s3: "seen (recoverable T) w3"
      by (rule call_seen [OF c2 s2]) (use aside in blast)
    show ?thesis
    proof (cases ok2)
      case False
      then show ?thesis using True c0 c1 c2 s3 by (simp add: promote_def Let_def safe_def)
    next
      case ok2: True
      then have d3: "status (disk_of w3) = ''restarting''" "\<exists>b \<in> T. previous (disk_of w3) = Some (Regular b)"
        "state_json (disk_of w3) = Stored ?s"
        using call_disk [OF c2] aside by auto
      have promoted: "recoverable T d \<and> status d = ''restarting'' \<and> state_json d = Stored ?s \<and> (\<exists>b \<in> T. previous d = Some (Regular b))"
        if "promote_next (disk_of w3) = Some d" for d
        using that d3 s3 by (auto simp: disk_ops seen_def recoverable_def status_def)
      have s4: "seen (recoverable T) w4"
        by (rule call_seen [OF c3 s3]) (use promoted in blast)
      have d4: "\<exists>b \<in> T. previous (disk_of w4) = Some (Regular b)" "status (disk_of w4) = ''restarting''"
        "state_json (disk_of w4) = Stored ?s"
        using call_disk [OF c3] promoted d3 by (cases ok3; auto)+
      have s4': "seen (recoverable T) w4'"
        by (rule call_seen [OF c4 s4]) (use d4 s4 in \<open>auto simp: disk_ops seen_def recoverable_def runs_trusted_def\<close>)
      have s5: "seen (recoverable T) w5" "disk_of w5 = disk_of w4"
        using start_cases [OF st] s4 by auto
      then have "safe T (rollback (sv\<lparr>sstate := ?s\<rparr>) ''unstartable'' w5)"
        using d4 by (intro rollback_safe) auto
      moreover have "safe T (Inr (sv\<lparr>sstate := ?s, deadline := Some (now + 90), child := c\<rparr>), w5)" if "r = Inr c" for c
        using s5 d4 start_cases(3) [OF st that] by (auto simp: safe_def up_ok_def seen_def)
      ultimately show ?thesis
        using True ok2 c0 c1 c2 c3 c4 st s4'
        by (cases ok3; cases r) (simp_all add: promote_def Let_def safe_def)
    qed
  qed
qed

lemma child_done_safe:
  assumes "up_ok T sv (disk_of w)" and "seen (recoverable T) w"
  shows "safe T (child_done sv w)"
  using assms rollback_safe [OF assms(2)] by (auto simp: child_done_def up_ok_def safe_def split: if_splits)

lemma tick_stored:
  assumes "state_json (disk_of w) = Stored s"
  shows "tick t sv0 now w = (let sv = sv0\<lparr>sstate := s\<rparr> in
     if Status s = ''ready'' then
       (case Verify t (next_file (disk_of w)) (SHA256 s) (Version s) of
          Inl e \<Rightarrow> (Inr (sv\<lparr>sstate := s\<lparr>Status := ''failed'', Reason := ''verify''\<rparr>\<rparr>),
            snd (call (write_state (s\<lparr>Status := ''failed'', Reason := ''verify''\<rparr>)) w))
        | Inr _ \<Rightarrow> promote sv now w)
     else case deadline sv of
       None \<Rightarrow> (Inr sv, w)
     | Some dl \<Rightarrow>
         if Status s = ''healthy'' then
           (case call (write_state (s\<lparr>Status := ''completed'', Reason := []\<rparr>)) w of (ok, w1) \<Rightarrow>
              if \<not> ok then (Inl CallFailed, w1)
              else (Inr (sv\<lparr>sstate := s\<lparr>Status := ''completed'', Reason := []\<rparr>, deadline := None\<rparr>), w1))
         else if now > dl then rollback sv ''timeout'' w
         else (Inr sv, w))"
  unfolding tick_def read_state_def assms Let_def
  by (simp split: sum.splits option.splits prod.splits)

lemma record_state_safe:
  assumes seen: "seen (recoverable T) w" and trusted: "runs_trusted T (disk_of w)"
    and c: "call (write_state s) w = (ok, w')"
  shows "seen (recoverable T) w'"
  by (rule call_seen [OF c seen]) (use recoverable_stored [OF _ trusted] seen in \<open>auto simp: disk_ops seen_def\<close>)

lemma up_ok_trusted:
  "up_ok T sv d \<Longrightarrow> status d \<noteq> ''restarting'' \<Longrightarrow> runs_trusted T d"
  by (auto simp: up_ok_def recoverable_def)

lemma up_ok_sstate: "up_ok T sv d \<Longrightarrow> state_json d = Stored s \<Longrightarrow> up_ok T (sv\<lparr>sstate := s'\<rparr>) d"
  by (simp add: up_ok_def)

lemma tick_safe:
  assumes up: "up_ok T sv (disk_of w)" and seen: "seen (recoverable T) w"
  shows "safe T (tick t sv now w)"
proof (cases "state_json (disk_of w)")
  case NoState
  then have "sstate sv = zero_state" "deadline sv = None"
    using up by (auto simp: up_ok_def status_def split: if_splits)
  then show ?thesis
    using NoState up seen by (simp add: tick_def read_state_def safe_def Let_def zero_state_def)
next
  case Corrupt
  then show ?thesis using up by (simp add: up_ok_def recoverable_def)
next
  case (Stored s)
  note stay = up_ok_sstate [OF up Stored]
  have st: "status (disk_of w) = Status s" using Stored by (simp add: status_def)
  show ?thesis
  proof (cases "Status s = ''ready''")
    case True
    then have trusted: "runs_trusted T (disk_of w)" and idle: "deadline sv = None"
      using up up_ok_trusted [OF up] st by (auto simp: up_ok_def split: if_splits)
    let ?s1 = "s\<lparr>Status := ''failed'', Reason := ''verify''\<rparr>"
    obtain ok w1 where c: "call (write_state ?s1) w = (ok, w1)" by fastforce
    have "up_ok T (sv\<lparr>sstate := ?s1\<rparr>) (disk_of w1)"
      using call_disk [OF c] stay [of ?s1] up_ok_idle [of T "disk_of w1" "sv\<lparr>sstate := ?s1\<rparr>"] idle up
        record_state_safe [OF seen trusted c]
      by (cases ok) (auto simp: disk_ops seen_def up_ok_def)
    then show ?thesis
      using True c record_state_safe [OF seen trusted c]
        promote_safe [OF seen trusted, of "sv\<lparr>sstate := s\<rparr>" now]
      by (cases "Verify t (next_file (disk_of w)) (SHA256 s) (Version s)")
        (simp_all add: tick_stored [OF Stored] Let_def, simp add: safe_def)
  next
    case not_ready: False
    show ?thesis
    proof (cases "deadline sv")
      case None
      then show ?thesis
        using not_ready stay seen by (simp add: tick_stored [OF Stored] Let_def safe_def)
    next
      case (Some dl)
      then have prev: "previous (disk_of w) \<noteq> None" using up by (simp add: up_ok_def)
      let ?s1 = "s\<lparr>Status := ''completed'', Reason := []\<rparr>"
      obtain ok w1 where c: "call (write_state ?s1) w = (ok, w1)" by fastforce
      have "safe T (Inr (sv\<lparr>sstate := ?s1, deadline := None\<rparr>), w1) \<and> seen (recoverable T) w1"
        if "Status s = ''healthy''" "ok"
      proof -
        have "runs_trusted T (disk_of w)" using up_ok_trusted [OF up] st that by simp
        then have "seen (recoverable T) w1" using record_state_safe [OF seen _ c] by simp
        moreover have "up_ok T (sv\<lparr>sstate := ?s1, deadline := None\<rparr>) (disk_of w1)"
          using that calculation call_disk [OF c] up
          by (intro up_ok_idle) (auto simp: seen_def disk_ops up_ok_def)
        ultimately show ?thesis
          by (simp add: safe_def)
      qed
      moreover have "seen (recoverable T) w1" if "Status s = ''healthy''"
        using record_state_safe [OF seen _ c] up_ok_trusted [OF up] st that by simp
      ultimately show ?thesis
        using not_ready Some c stay seen rollback_safe [OF seen prev]
        by (cases ok) (auto simp: tick_stored [OF Stored] Let_def safe_def)
    qed
  qed
qed

section \<open>The system: supervisor, worker, crashes\<close>

text \<open>
  A configuration is a stopped machine with its directory, or a running supervisor. Every action
  ends normally or is cut off after any of its system calls. The first component is the set of
  trusted binaries: a binary joins it when the acknowledgement of the Controller turns its trial
  from restarting to healthy.
\<close>

datatype config = Down disk | Up supervisor disk

definition outcomes :: "(update_error, supervisor) res \<times> world \<Rightarrow> config set" where
  "outcomes rw = insert (case fst rw of Inl e \<Rightarrow> Down (disk_of (snd rw)) | Inr sv \<Rightarrow> Up sv (disk_of (snd rw)))
     (Down ` set (visited (snd rw)))"

definition worker_outcomes :: "supervisor \<Rightarrow> world \<Rightarrow> config set" where
  "worker_outcomes sv w = insert (Up sv (disk_of w)) (Down ` set (visited w))"

definition confirmed :: "supervisor \<Rightarrow> disk \<Rightarrow> world \<Rightarrow> bytes set" where
  "confirmed sv d w = (if status d = ''restarting'' \<and> status (disk_of w) = ''healthy''
     then {b. child sv = Regular b} else {})"

inductive update_step :: "bytes set \<times> config \<Rightarrow> bytes set \<times> config \<Rightarrow> bool" where
  boot: "cfg \<in> outcomes (Supervise self partial (world_of d fs)) \<Longrightarrow> update_step (T, Down d) (T, cfg)"
| ticked: "cfg \<in> outcomes (tick t sv now (world_of d fs)) \<Longrightarrow> update_step (T, Up sv d) (T, cfg)"
| exited: "cfg \<in> outcomes (child_done sv (world_of d fs)) \<Longrightarrow> update_step (T, Up sv d) (T, cfg)"
| stopped: "update_step (T, Up sv d) (T, Down d)"
| staged: "Stage available fetch (world_of d fs) task checksum version = (r, w) \<Longrightarrow>
    cfg \<in> worker_outcomes sv w \<Longrightarrow> update_step (T, Up sv d) (T, cfg)"
| acked: "Acknowledge (world_of d fs) task version = (r, w) \<Longrightarrow>
    cfg \<in> worker_outcomes sv w \<Longrightarrow> update_step (T, Up sv d) (T \<union> confirmed sv d w, cfg)"

inductive_cases update_step_DownE: "update_step (T, Down d) (T', cfg)"
inductive_cases update_step_UpE: "update_step (T, Up sv d) (T', cfg)"

fun config_ok :: "bytes set \<Rightarrow> config \<Rightarrow> bool" where
  "config_ok T (Down d) = recoverable T d"
| "config_ok T (Up sv d) = up_ok T sv d"

lemma seen_world_of: "P d \<Longrightarrow> seen P (world_of d fs)"
  by (simp add: seen_def world_of_def)

lemma disk_of_world_of [simp]: "disk_of (world_of d fs) = d"
  by (simp add: world_of_def)

lemma safe_outcomes: "safe T rw \<Longrightarrow> cfg \<in> outcomes rw \<Longrightarrow> config_ok T cfg"
  by (auto simp: outcomes_def safe_def seen_def list_all_iff split: sum.splits)

lemma worker_outcomes_ok:
  "seen (recoverable T) w \<Longrightarrow> up_ok T sv (disk_of w) \<Longrightarrow> cfg \<in> worker_outcomes sv w \<Longrightarrow> config_ok T cfg"
  by (auto simp: worker_outcomes_def seen_def list_all_iff)

lemma recoverable_mono: "recoverable T d \<Longrightarrow> recoverable (T \<union> U) d"
  by (auto simp: recoverable_def runs_trusted_def)

lemma up_ok_mono: "up_ok T sv d \<Longrightarrow> up_ok (T \<union> U) sv d"
  by (auto simp: up_ok_def recoverable_mono split: if_splits)

lemma recoverable_next: "recoverable T (d\<lparr>next_file := f\<rparr>) = recoverable T d"
  by (simp add: recoverable_def runs_trusted_def status_def)

lemma up_ok_next: "up_ok T sv (d\<lparr>next_file := f\<rparr>) = up_ok T sv d"
  by (simp add: up_ok_def recoverable_next status_def)

lemma call_next:
  assumes c: "call (\<lambda>d. Some (d\<lparr>next_file := f\<rparr>)) w = (ok, w1)" and seen: "seen (recoverable T) w"
  shows "seen (recoverable T) w1 \<and> up_ok T sv (disk_of w1) = up_ok T sv (disk_of w) \<and>
    status (disk_of w1) = status (disk_of w)"
proof -
  have "seen (recoverable T) w1"
    by (rule call_seen [OF c seen]) (use seen in \<open>auto simp: recoverable_next seen_def\<close>)
  moreover have "disk_of w1 = disk_of w \<or> disk_of w1 = (disk_of w)\<lparr>next_file := f\<rparr>"
    using call_disk [OF c] by (auto split: if_splits)
  ultimately show ?thesis
    by (auto simp: up_ok_next status_def)
qed

lemma Stage_safe:
  assumes seen: "seen (recoverable T) w" and up: "up_ok T sv (disk_of w)"
    and st: "Stage available fetch w task checksum version = (r, w')"
  shows "seen (recoverable T) w' \<and> up_ok T sv (disk_of w')"
proof (cases "available \<and> state_json (disk_of w) \<noteq> Corrupt \<and>
    \<not> (case read_state (disk_of w) of Inl _ \<Rightarrow> False | Inr old \<Rightarrow> in_progress old)")
  case True
  then have idle: "deadline sv = None" "status (disk_of w) \<noteq> ''restarting''"
    using up by (auto simp: up_ok_def status_def read_state_def in_progress_def split: state_file.splits if_splits)
  obtain ok w1 where c1: "call (\<lambda>d. Some (d\<lparr>next_file := None\<rparr>)) w = (ok, w1)" by fastforce
  have s1: "seen (recoverable T) w1" "up_ok T sv (disk_of w1)" "status (disk_of w1) \<noteq> ''restarting''"
    using call_next [OF c1 seen, of sv] up idle by simp_all
  obtain fr f where fe: "fetch None checksum version = (fr, f)" by fastforce
  obtain ok2 w2 where c2: "call (\<lambda>d. Some (d\<lparr>next_file := f\<rparr>)) w1 = (ok2, w2)" by fastforce
  have s2: "seen (recoverable T) w2" "up_ok T sv (disk_of w2)" "status (disk_of w2) \<noteq> ''restarting''"
    using call_next [OF c2 s1(1), of sv] s1 by simp_all
  let ?s = "\<lparr>TaskID = task, Status = ''staged'', Version = version, SHA256 = checksum, Reason = []\<rparr>"
  obtain ok3 w3 where c3: "call (write_state ?s) w2 = (ok3, w3)" by fastforce
  have s3: "seen (recoverable T) w3"
    using record_state_safe [OF s2(1) up_ok_trusted [OF s2(2,3)] c3] .
  have u3: "up_ok T sv (disk_of w3)"
    using call_disk [OF c3] s2 s3 idle up_ok_idle [of T "disk_of w3" sv]
    by (cases ok3) (auto simp: disk_ops seen_def up_ok_def)
  show ?thesis
    using True st c1 c2 c3 fe s1 s2 s3 u3
    by (auto simp: Stage_def split: if_splits sum.splits)
next
  case False
  then have "w' = w" using st by (auto simp: Stage_def split: if_splits)
  then show ?thesis using seen up by simp
qed

lemma Acknowledge_safe:
  assumes seen: "seen (recoverable T) w" and up: "up_ok T sv (disk_of w)"
    and ack: "Acknowledge w task version = (r, w')"
  shows "seen (recoverable (T \<union> confirmed sv (disk_of w) w')) w' \<and>
    up_ok (T \<union> confirmed sv (disk_of w) w') sv (disk_of w')"
proof (cases "w' = w")
  case True
  then show ?thesis
    using seen up up_ok_mono recoverable_mono by (auto simp: seen_def list_all_iff)
next
  case False
  then obtain s s' ok where s: "state_json (disk_of w) = Stored s" and c: "call (write_state s') w = (ok, w')"
    and s': "Status s = ''staged'' \<and> s' = s\<lparr>Status := ''ready''\<rparr> \<or> Status s = ''restarting'' \<and> s' = s\<lparr>Status := ''healthy''\<rparr>"
    using ack
    by (auto simp: Acknowledge_def read_state_def split: state_file.splits if_splits prod.splits)
  let ?T = "T \<union> confirmed sv (disk_of w) w'"
  have seen': "seen (recoverable ?T) w" using seen recoverable_mono by (auto simp: seen_def list_all_iff)
  have up': "up_ok ?T sv (disk_of w)" using up by (rule up_ok_mono)
  have st: "status (disk_of w) = Status s" using s by (simp add: status_def)
  show ?thesis
  proof (cases ok)
    case True
    then have d: "disk_of w' = (disk_of w)\<lparr>state_json := Stored s'\<rparr>"
      using call_disk [OF c] by (simp add: disk_ops)
    have trusted: "runs_trusted ?T (disk_of w)"
    proof (cases "Status s = ''staged''")
      case True
      then show ?thesis using up_ok_trusted [OF up'] st by simp
    next
      case False
      then have "confirmed sv (disk_of w) w' = {b. child sv = Regular b}"
        using s' st d by (auto simp: confirmed_def)
      moreover obtain b where "child sv = Regular b"
      proof (cases "child sv")
        case Special
        then show thesis using up by (simp add: up_ok_def)
      qed
      ultimately show ?thesis using up by (auto simp: runs_trusted_def up_ok_def)
    qed
    have "seen (recoverable ?T) w'"
      using record_state_safe [OF seen' trusted c] .
    moreover have "up_ok ?T sv (disk_of w')"
      using up' trusted s' st recoverable_stored [of ?T "disk_of w" s']
      by (auto simp: d up_ok_def runs_trusted_def split: if_splits)
    ultimately show ?thesis ..
  next
    case False
    then show ?thesis
      using call_disk [OF c] seen' up' call_cases [OF c] by (auto simp: seen_def)
  qed
qed

lemma up_seen: "up_ok T sv d \<Longrightarrow> seen (recoverable T) (world_of d fs)"
  by (rule seen_world_of) (simp add: up_ok_def)

lemma update_step_ok:
  assumes "update_step (T, cfg) (T', cfg')" and "config_ok T cfg"
  shows "config_ok T' cfg'"
  using assms
proof (cases rule: update_step.cases)
  case (boot self partial d fs)
  then show ?thesis
    using assms(2) safe_outcomes [OF Supervise_safe [OF seen_world_of]] by auto
next
  case (ticked t sv now d fs)
  then show ?thesis
    using assms(2) safe_outcomes [OF tick_safe [where w = "world_of d fs"]] up_seen by auto
next
  case (exited sv d fs)
  then show ?thesis
    using assms(2) safe_outcomes [OF child_done_safe [where w = "world_of d fs"]] up_seen by auto
next
  case (stopped sv d)
  then show ?thesis using assms(2) by (simp add: up_ok_def)
next
  case (staged available fetch d fs task checksum version r w sv)
  then have "up_ok T sv d" using assms(2) by simp
  moreover note up_seen [OF this, of fs]
  ultimately show ?thesis
    using staged Stage_safe [OF _ _ staged(3), of T sv] worker_outcomes_ok [of T w sv cfg'] by simp
next
  case (acked d fs task version r w sv)
  then have "up_ok T sv d" using assms(2) by simp
  moreover note up_seen [OF this, of fs]
  ultimately show ?thesis
    using acked Acknowledge_safe [OF _ _ acked(3), of T sv] worker_outcomes_ok [of T' w sv cfg'] by simp
qed

definition update_reach :: "bytes set \<times> config \<Rightarrow> bytes set \<times> config \<Rightarrow> bool" where
  "update_reach = update_step\<^sup>*\<^sup>*"

lemma update_reach_ok:
  assumes "update_reach s s'" and "config_ok (fst s) (snd s)"
  shows "config_ok (fst s') (snd s')"
  using assms(1) unfolding update_reach_def
proof (induction rule: rtranclp_induct)
  case (step y z)
  then show ?case using update_step_ok by (metis prod.collapse)
qed (rule assms(2))

section \<open>Starting without faults\<close>

lemma call_ok:
  "faults w = [] \<Longrightarrow> oper (disk_of w) = Some d \<Longrightarrow>
     call oper w = (True, w\<lparr>disk_of := d, visited := d # visited w\<rparr>)"
  by (simp add: call_def take_fault_def)

lemma take_fault_none [simp]: "faults w = [] \<Longrightarrow> take_fault w = (False, w)"
  by (simp add: take_fault_def)

lemma start_ok:
  "faults w = [] \<Longrightarrow> current (disk_of w) = Some (Regular b) \<Longrightarrow> start w = (Inr (Regular b), w)"
  by (simp add: start_def)

lemma rollback_ok:
  assumes "faults w = []" and "previous (disk_of w) = Some (Regular b)"
  shows "\<exists>w'. rollback sv reason w = (Inr (sv\<lparr>sstate := (sstate sv)\<lparr>Status := ''rolled_back'', Reason := reason\<rparr>,
      deadline := None, child := Regular b\<rparr>), w') \<and>
    current (disk_of w') = Some (Regular b) \<and> status (disk_of w') = ''rolled_back''"
proof -
  define s1 where "s1 = (sstate sv)\<lparr>Status := ''rolled_back'', Reason := reason\<rparr>"
  define d1 where "d1 = (disk_of w)\<lparr>current := Some (Regular b), previous := None\<rparr>"
  define w1 where "w1 = w\<lparr>disk_of := d1, visited := d1 # visited w\<rparr>"
  define d2 where "d2 = d1\<lparr>state_json := Stored s1\<rparr>"
  define w2 where "w2 = w1\<lparr>disk_of := d2, visited := d2 # visited w1\<rparr>"
  have "call restore_previous w = (True, w1)"
    using assms by (simp add: call_ok restore_previous_def w1_def d1_def)
  moreover have "call (write_state s1) w1 = (True, w2)"
    using assms by (simp add: call_ok write_state_def w1_def w2_def d2_def)
  moreover have "start w2 = (Inr (Regular b), w2)"
    using assms by (simp add: start_ok w2_def w1_def d2_def d1_def)
  ultimately show ?thesis
    by (simp add: rollback_def Let_def flip: s1_def) (simp add: w2_def d2_def d1_def s1_def)
qed

lemma copyBinary_ok:
  assumes "faults w = []" and "current (disk_of w) = None"
  shows "\<exists>w'. copyBinary self partial w = (True, w') \<and> faults w' = [] \<and>
    disk_of w' = (disk_of w)\<lparr>current := Some self\<rparr>"
  using assms by (simp add: copyBinary_def call_ok)

lemma settle_ok:
  assumes "faults w = []" and "recoverable T (disk_of w)" and "status (disk_of w) = Status s"
  shows "\<exists>s' w'. settle s w = (Inr s', w') \<and> faults w' = [] \<and> runs_trusted T (disk_of w') \<and>
    (current (disk_of w') = current (disk_of w) \<or> current (disk_of w') = previous (disk_of w))"
proof (cases "Status s = ''restarting''")
  case True
  show ?thesis
  proof (cases "previous (disk_of w)")
    case None
    then have "runs_trusted T (disk_of w)" using assms by (simp add: recoverable_def)
    then show ?thesis
      using True None assms by (simp add: settle_def Let_def call_ok write_state_def runs_trusted_def)
  next
    case (Some f)
    then have "f \<in> Regular ` T" using assms by (simp add: recoverable_def)
    then show ?thesis
      using True Some assms
      by (auto simp: settle_def Let_def call_ok write_state_def runs_trusted_def restore_previous_def)
  qed
next
  case False
  then have "runs_trusted T (disk_of w)" using assms by (auto simp: recoverable_def)
  then show ?thesis
    using False assms by (simp add: settle_def Let_def call_ok write_state_def runs_trusted_def)
qed

lemma Supervise_ok:
  assumes rec: "recoverable T d"
  shows "\<exists>sv w. Supervise self partial (world_of d []) = (Inr sv, w) \<and> deadline sv = None"
proof -
  have free: "faults (world_of d []) = []" by (simp add: world_of_def)
  obtain w2 where w2: "(if current d = None then copyBinary self partial (world_of d []) else (True, world_of d [])) = (True, w2)"
    "faults w2 = []" "state_json (disk_of w2) = state_json d"
    using copyBinary_ok [OF free, of self partial] free by (cases "current d = None") auto
  then have "seen (recoverable T) w2"
    using copyBinary_safe [OF seen_world_of, of T d "[]" self partial True w2] rec seen_world_of
    by (cases "current d = None") auto
  then have r2: "recoverable T (disk_of w2)" by (simp add: seen_def)
  define s where "s = (case read_state (disk_of w2) of Inl _ \<Rightarrow> zero_state | Inr s \<Rightarrow> s)"
  have read: "read_state (disk_of w2) \<noteq> Inl Unreadable" "status (disk_of w2) = Status s"
    using r2 by (auto simp: recoverable_def read_state_def status_def s_def zero_state_def split: state_file.splits)
  obtain s' w3 b where st: "settle s w2 = (Inr s', w3)" "faults w3 = []" "current (disk_of w3) = Some (Regular b)"
    using settle_ok [OF w2(2) r2 read(2)] by (auto simp: runs_trusted_def)
  then have "start w3 = (Inr (Regular b), w3)" by (simp add: start_ok)
  then show ?thesis
    using free w2(1) st(1) read(1) unfolding Supervise_def s_def
    by (auto split: sum.splits update_error.splits)
qed

section \<open>Properties\<close>

definition fresh_install :: "bytes \<Rightarrow> disk" where
  "fresh_install b = \<lparr>current = Some (Regular b), previous = None, next_file = None, state_json = NoState\<rparr>"

lemma fresh_install_ok: "config_ok {b} (Down (fresh_install b))"
  by (simp add: recoverable_def fresh_install_def runs_trusted_def)

text \<open>C8: However an installed Agent is updated, whatever calls fail and wherever the machine stops,
  between any two file operations of staging, acknowledgement, promotion, roll back or start,
  the next undisturbed start of the supervisor brings up a worker, that worker is a trusted
  binary (the installed one or one the Controller acknowledged) and no trial is pending; and a
  running supervisor outside a trial is running a trusted binary.\<close>
theorem update_crash_safe:
  assumes "update_reach ({b}, Down (fresh_install b)) (T, cfg)"
  shows "case cfg of
      Down d \<Rightarrow> \<exists>sv w. Supervise self partial (world_of d []) = (Inr sv, w) \<and> child sv \<in> Regular ` T \<and>
        deadline sv = None \<and> status (disk_of w) \<noteq> ''restarting''
    | Up sv d \<Rightarrow> deadline sv = None \<longrightarrow> child sv \<in> Regular ` T \<and> current d = Some (child sv)"
proof -
  have ok: "config_ok T cfg"
    using update_reach_ok [OF assms] fresh_install_ok by simp
  show ?thesis
  proof (cases cfg)
    case (Down d)
    then obtain sv w where sv: "Supervise self partial (world_of d []) = (Inr sv, w)" "deadline sv = None"
      using ok Supervise_ok [of T d self partial] by auto
    then have "up_ok T sv (disk_of w)"
      using ok Down Supervise_safe [OF seen_world_of, of T d self partial "[]"] by (simp add: safe_def)
    then show ?thesis
      using Down sv by (simp add: up_ok_def)
  next
    case (Up sv d)
    then show ?thesis using ok by (simp add: up_ok_def)
  qed
qed

theorem update_crash_safe_witness:
  "\<exists>d. update_reach ({[1]}, Down (fresh_install [1])) ({[1]}, Down d) \<and> current d = Some (Regular [1]) \<and>
    (\<exists>sv w. Supervise Special Special (world_of d []) = (Inr sv, w) \<and> child sv = Regular [1])"
proof -
  have "update_reach ({[1]}, Down (fresh_install [1])) ({[1]}, Down (fresh_install [1]))"
    by (simp add: update_reach_def)
  moreover from update_crash_safe [OF this, of Special Special]
  have "\<exists>sv w. Supervise Special Special (world_of (fresh_install [1]) []) = (Inr sv, w) \<and> child sv = Regular [1]"
    by auto
  ultimately show ?thesis
    by (intro exI [of _ "fresh_install [1]"]) (simp add: fresh_install_def)
qed

text \<open>A trial that the Controller does not acknowledge ends. At the first undisturbed tick after the
  deadline the previous binary is current again and running, the state says rolled back, and the
  supervisor is out of the trial; the deadline is 90 seconds after the promotion, which needs a
  verified file next.\<close>
theorem trial_times_out:
  assumes "faults w = []" and "state_json (disk_of w) = Stored s" and "Status s = ''ready''"
    and "Verify t (next_file (disk_of w)) (SHA256 s) (Version s) = Inr ()"
    and "current (disk_of w) = Some (Regular b)" and "later > now + 90"
  shows "\<exists>sv1 w1 sv2 w2. tick t sv now w = (Inr sv1, w1) \<and> next_file (disk_of w) = Some (child sv1) \<and>
    deadline sv1 = Some (now + 90) \<and> previous (disk_of w1) = Some (Regular b) \<and> status (disk_of w1) = ''restarting'' \<and>
    tick t sv1 later w1 = (Inr sv2, w2) \<and> child sv2 = Regular b \<and> current (disk_of w2) = Some (Regular b) \<and>
    deadline sv2 = None \<and> status (disk_of w2) = ''rolled_back''"
proof -
  obtain c where c: "next_file (disk_of w) = Some (Regular c)"
    using assms(4) by (auto simp: Verify_ok)
  define s1 where "s1 = s\<lparr>Status := ''restarting''\<rparr>"
  define d where "d = (disk_of w)\<lparr>state_json := Stored s1, previous := Some (Regular b),
    current := Some (Regular c), next_file := None\<rparr>"
  obtain w1 where w1: "promote (sv\<lparr>sstate := s\<rparr>) now w =
      (Inr (sv\<lparr>sstate := s1, deadline := Some (now + 90), child := Regular c\<rparr>), w1)"
    "disk_of w1 = d" "faults w1 = []"
  proof (cases "previous (disk_of w)")
    case None
    then show thesis
      using that assms(1,5) c
      by (simp add: promote_def Let_def call_def remove_previous_def write_state_def set_aside_current_def
          promote_next_def start_def s1_def d_def)
  next
    case (Some f)
    then show thesis
      using that assms(1,5) c
      by (simp add: promote_def Let_def call_def remove_previous_def write_state_def set_aside_current_def
          promote_next_def start_def s1_def d_def)
  qed
  have first: "tick t sv now w = (Inr (sv\<lparr>sstate := s1, deadline := Some (now + 90), child := Regular c\<rparr>), w1)"
    using assms w1(1) by (simp add: tick_stored [OF assms(2)] Let_def)
  have st: "state_json (disk_of w1) = Stored s1" by (simp add: w1 d_def)
  have "\<exists>w2. tick t (sv\<lparr>sstate := s1, deadline := Some (now + 90), child := Regular c\<rparr>) later w1 =
      (Inr (sv\<lparr>sstate := s1\<lparr>Status := ''rolled_back'', Reason := ''timeout''\<rparr>, deadline := None, child := Regular b\<rparr>), w2) \<and>
      current (disk_of w2) = Some (Regular b) \<and> status (disk_of w2) = ''rolled_back''"
    using assms(6) rollback_ok [OF w1(3), of b "sv\<lparr>deadline := Some (now + 90), child := Regular c, sstate := s1\<rparr>" "''timeout''"]
    by (simp add: tick_stored [OF st] Let_def w1(2) d_def) (simp add: s1_def)
  then obtain w2 where w2: "tick t (sv\<lparr>sstate := s1, deadline := Some (now + 90), child := Regular c\<rparr>) later w1 =
      (Inr (sv\<lparr>sstate := s1\<lparr>Status := ''rolled_back'', Reason := ''timeout''\<rparr>, deadline := None, child := Regular b\<rparr>), w2)"
    "current (disk_of w2) = Some (Regular b)" "status (disk_of w2) = ''rolled_back''"
    by blast
  moreover have "previous (disk_of w1) = Some (Regular b)" "status (disk_of w1) = ''restarting''"
    by (simp_all add: w1(2) d_def status_def s1_def)
  ultimately show ?thesis
    unfolding first using c by simp
qed

theorem trial_times_out_witness:
  "let t = \<lparr>sha256 = (\<lambda>b. replicate 32 0), version_output = (\<lambda>b. Some ''v1.2.3'')\<rparr>;
     s = \<lparr>TaskID = ''t'', Status = ''ready'', Version = ''v1.2.3'', SHA256 = replicate 64 CHR ''0'', Reason = []\<rparr>;
     d = \<lparr>current = Some (Regular [1]), previous = None, next_file = Some (Regular [2]), state_json = Stored s\<rparr>;
     sv = \<lparr>sstate = s, deadline = None, child = Regular [1]\<rparr> in
   \<exists>sv1 w1 sv2 w2. tick t sv 5 (world_of d []) = (Inr sv1, w1) \<and> child sv1 = Regular [2] \<and>
     tick t sv1 96 w1 = (Inr sv2, w2) \<and> child sv2 = Regular [1]"
proof -
  define t where "t = \<lparr>sha256 = (\<lambda>b. replicate 32 0), version_output = (\<lambda>b. Some ''v1.2.3'')\<rparr>"
  define s where "s = \<lparr>TaskID = ''t'', Status = ''ready'', Version = ''v1.2.3'', SHA256 = replicate 64 CHR ''0'', Reason = []\<rparr>"
  define d where "d = \<lparr>current = Some (Regular [1]), previous = None, next_file = Some (Regular [2]), state_json = Stored s\<rparr>"
  define sv where "sv = \<lparr>sstate = s, deadline = None, child = Regular [1]\<rparr>"
  have "validatePin (replicate 64 CHR ''0'') ''v1.2.3'' = Inr ()"
    by code_simp
  moreover have "equal_fold (hex_encode (replicate 32 0)) (replicate 64 CHR ''0'')"
    by code_simp
  moreover have "trim_space ''v1.2.3'' = ''v1.2.3''"
    by code_simp
  ultimately have "Verify t (Some (Regular [2])) (replicate 64 CHR ''0'') ''v1.2.3'' = Inr ()"
    by (simp add: Verify_ok t_def MaxBytes_def)
  then have "Verify t (next_file (disk_of (world_of d []))) (SHA256 s) (Version s) = Inr ()"
    by (simp add: d_def s_def)
  then show ?thesis
    unfolding Let_def t_def [symmetric] s_def [symmetric] d_def [symmetric] sv_def [symmetric]
    using trial_times_out [of "world_of d []" s t "[1]" 5 96 sv]
    by (auto simp: world_of_def d_def s_def)
qed

text \<open>Staging succeeds only for a supervised worker with no update in progress; then the file next
  passes \<open>Verify\<close> for the pin and the state is staged for the task. When it fails or is
  interrupted the state file is unchanged. Only an acknowledgement for that very task makes it ready.\<close>
theorem stage_needs_verified_artifact:
  assumes "Stage available (Fetch parse_url http t file_ok link True) w task checksum version = (r, w')"
  shows "(\<forall>u. r = Inr u \<longrightarrow> available \<and> (\<forall>old. read_state (disk_of w) = Inr old \<longrightarrow> \<not> in_progress old) \<and>
      Verify t (next_file (disk_of w')) checksum version = Inr () \<and>
      read_state (disk_of w') = Inr \<lparr>TaskID = task, Status = ''staged'', Version = version, SHA256 = checksum, Reason = []\<rparr>) \<and>
    (\<forall>e. r = Inl e \<longrightarrow> state_json (disk_of w') = state_json (disk_of w)) \<and>
    (\<forall>task2 v. r = Inr () \<and> task2 \<noteq> task \<longrightarrow> Acknowledge w' task2 v = (Inr (), w'))"
proof (cases "available \<and> state_json (disk_of w) \<noteq> Corrupt \<and>
    \<not> (case read_state (disk_of w) of Inl _ \<Rightarrow> False | Inr old \<Rightarrow> in_progress old)")
  case True
  let ?s = "\<lparr>TaskID = task, Status = ''staged'', Version = version, SHA256 = checksum, Reason = []\<rparr>"
  obtain ok w1 where c1: "call (\<lambda>d. Some (d\<lparr>next_file := None\<rparr>)) w = (ok, w1)" by fastforce
  obtain fr f where fe: "Fetch parse_url http t file_ok link True None checksum version = (fr, f)" by fastforce
  obtain ok2 w2 where c2: "call (\<lambda>d. Some (d\<lparr>next_file := f\<rparr>)) w1 = (ok2, w2)" by fastforce
  obtain ok3 w3 where c3: "call (write_state ?s) w2 = (ok3, w3)" by fastforce
  have f: "fr = Inr () \<Longrightarrow> Verify t f checksum version = Inr ()"
    using fe by (auto simp: Fetch_def Let_def split: sum.splits prod.splits if_splits)
  have d1: "state_json (disk_of w1) = state_json (disk_of w)"
    using call_disk [OF c1] by (auto split: if_splits dest!: sym [of _ "disk_of w1"])
  have d2: "state_json (disk_of w2) = state_json (disk_of w)" "ok2 \<Longrightarrow> next_file (disk_of w2) = f"
    using call_disk [OF c2] d1 by (auto split: if_splits dest!: sym [of _ "disk_of w2"])
  have d3: "ok3 \<Longrightarrow> disk_of w3 = (disk_of w2)\<lparr>state_json := Stored ?s\<rparr>" "\<not> ok3 \<Longrightarrow> disk_of w3 = disk_of w2"
    using call_disk [OF c3] by (auto simp: disk_ops)
  have r: "(r, w') = (if \<not> ok then (Inl CallFailed, w1) else case fr of Inl e \<Rightarrow> (Inl (ArtifactFailed e), w1)
      | Inr _ \<Rightarrow> if \<not> ok2 then (Inl CallFailed, w2) else if \<not> ok3 then (Inl CallFailed, w3) else (Inr (), w3))"
    using assms True c1 c2 c3 fe by (auto simp: Stage_def split: sum.splits)
  show ?thesis
    using True r f d1 d2 d3
    by (cases fr) (auto simp: read_state_def Acknowledge_def split: if_splits)
next
  case False
  then have "\<exists>e. r = Inl e" "w' = w" using assms by (auto simp: Stage_def split: if_splits)
  then show ?thesis by auto
qed

theorem stage_needs_verified_artifact_witness:
  "let t = \<lparr>sha256 = (\<lambda>b. replicate 32 0), version_output = (\<lambda>b. Some ''v1.2.3'')\<rparr>;
     fetch = Fetch (\<lambda>u. Some \<lparr>u_scheme = ''https'', u_host = u, u_user = None, u_fragment = [], u_hostname = u,
       u_loopback = False, u_path = [], u_query = []\<rparr>) (\<lambda>n u. Response 200 [2]) t True ''host'' True;
     w = world_of (fresh_install [1]) [] in
   \<exists>w'. Stage True fetch w ''task'' (replicate 64 CHR ''0'') ''v1.2.3'' = (Inr (), w') \<and>
     next_file (disk_of w') = Some (Regular [2]) \<and>
     Verify t (next_file (disk_of w')) (replicate 64 CHR ''0'') ''v1.2.3'' = Inr ()"
proof -
  define t where "t = \<lparr>sha256 = (\<lambda>b. replicate 32 0), version_output = (\<lambda>b. Some ''v1.2.3'')\<rparr>"
  define parse_url where "parse_url = (\<lambda>u. Some \<lparr>u_scheme = ''https'', u_host = u, u_user = None, u_fragment = [],
    u_hostname = u, u_loopback = False, u_path = [], u_query = []\<rparr>)"
  define http where "http = (\<lambda>(n :: nat) (u :: string). Response 200 [2])"
  define w where "w = world_of (fresh_install [1]) []"
  have pin: "validatePin (replicate 64 CHR ''0'') ''v1.2.3'' = Inr ()" by code_simp
  moreover have "equal_fold (hex_encode (replicate 32 0)) (replicate 64 CHR ''0'')" by code_simp
  moreover have "trim_space ''v1.2.3'' = ''v1.2.3''" by code_simp
  ultimately have "Verify t (Some (Regular [2])) (replicate 64 CHR ''0'') ''v1.2.3'' = Inr ()"
    by (simp add: Verify_ok t_def MaxBytes_def)
  then have fe: "Fetch parse_url http t True ''host'' True None (replicate 64 CHR ''0'') ''v1.2.3'' = (Inr (), Some (Regular [2]))"
    using pin by (simp add: Fetch_def artifactURL_def parse_url_def http_def do_request.simps Let_def MaxBytes_def)
  have free: "faults w = []" "state_json (disk_of w) = NoState"
    by (simp_all add: w_def world_of_def fresh_install_def)
  obtain w' where st: "Stage True (Fetch parse_url http t True ''host'' True) w ''task'' (replicate 64 CHR ''0'') ''v1.2.3'' = (Inr (), w')"
    "next_file (disk_of w') = Some (Regular [2])"
    using fe free by (simp add: Stage_def read_state_def call_ok write_state_def)
  then show ?thesis
    using stage_needs_verified_artifact [OF st(1)]
    unfolding Let_def t_def [symmetric] parse_url_def [symmetric] http_def [symmetric] w_def [symmetric]
    by auto
qed

text \<open>The first start copies the executable of the supervisor to the file current, which is created
  before it is filled. When that copy fails, the part written so far stays, and the next start
  takes it for an installed binary and runs it.\<close>
theorem interrupted_first_copy_is_run:
  "let d = \<lparr>current = None, previous = None, next_file = None, state_json = NoState\<rparr>;
     (r, w) = Supervise self (Regular part) (world_of d [False, False, True]);
     (r2, w2) = Supervise self (Regular part) (world_of (disk_of w) []) in
   r = Inl CallFailed \<and> current (disk_of w) = Some (Regular part) \<and>
   r2 = Inr \<lparr>sstate = zero_state, deadline = None, child = Regular part\<rparr>"
  by (simp add: Let_def Supervise_def copyBinary_def call_def take_fault_def world_of_def read_state_def
      settle_def start_def zero_state_def)

end
