(* ===== verification/Wire_Channel.thy ===== *)
theory Wire_Channel
  imports Go_Encoding
begin

text \<open>
  The encrypted channel between controller and Agent (internal/wire/wire.go and
  internal/wire/stream.go): key agreement, the numbered JSON packets of the v1 exchange,
  the binary frames of the v2 stream, and the stream negotiation.

  Cryptography, gzip and the JSON codec of a payload type are parameters: an AEAD is a
  record of functions held in the channel exactly where the Go channel holds a
  \<open>cipher.AEAD\<close>; \<open>crypto\<close> collects X25519, SHA-256, HKDF and AES-GCM. A Go
  method on \<open>*Channel\<close> becomes a function that returns the updated channel with its
  result; on an error the channel is unchanged, as in the code.
\<close>

section \<open>Types\<close>

definition Protocol :: string where
  "Protocol = ''aswired-agent-v1''"

definition MaxPacket :: nat where
  "MaxPacket = 16777216"

definition max_u64 :: u64 where
  "max_u64 = - 1"

datatype wire_error = InvalidKey | KeyAgreement | CipherSetup | Marshal | PacketTooLarge
  | ChannelExhausted | InvalidSequence | InvalidCiphertext | AuthenticationFailed
  | InvalidPayload | InvalidBinarySize | UnsupportedEncoding | InvalidCompressed
  | OnlyClientsExport

record aead =
  aead_seal :: "bytes \<Rightarrow> bytes \<Rightarrow> bytes \<Rightarrow> bytes"
  aead_open :: "bytes \<Rightarrow> bytes \<Rightarrow> bytes \<Rightarrow> bytes option"
  Overhead :: nat

record crypto =
  x25519_public :: "bytes \<Rightarrow> bytes"
  x25519_ecdh :: "bytes \<Rightarrow> bytes \<Rightarrow> bytes option"
  sha256 :: "bytes \<Rightarrow> bytes"
  hkdf_key :: "bytes \<Rightarrow> bytes \<Rightarrow> string \<Rightarrow> bytes option"
  new_gcm :: "bytes \<Rightarrow> aead option"

record packet =
  Sequence :: u64
  Ciphertext :: string

record channel =
  tx :: aead
  rx :: aead
  sent :: u64
  received :: u64
  public_key :: string
  private_key :: string

record client_state =
  PrivateKey :: string
  Sent :: u64
  Received :: u64

section \<open>Keys and channel setup\<close>

definition decodeKey :: "string \<Rightarrow> (wire_error, bytes) res" where
  "decodeKey s = (case b64_decode s of
      None \<Rightarrow> Inl InvalidKey
    | Some b \<Rightarrow> if length b \<noteq> 32 then Inl InvalidKey else Inr b)"

definition GenerateKey :: "crypto \<Rightarrow> bytes \<Rightarrow> string \<times> string" where
  "GenerateKey cr random = (b64_encode random, b64_encode (x25519_public cr random))"

definition PublicKey :: "crypto \<Rightarrow> string \<Rightarrow> (wire_error, string) res" where
  "PublicKey cr private =
     bind_res (decodeKey private) (\<lambda>b. Inr (b64_encode (x25519_public cr b)))"

definition makeAEAD :: "crypto \<Rightarrow> bytes \<Rightarrow> bytes \<Rightarrow> string \<Rightarrow> (wire_error, aead) res" where
  "makeAEAD cr secret salt direction =
     bind_res (of_option CipherSetup (hkdf_key cr secret salt (Protocol @ ''/'' @ direction)))
       (\<lambda>key. of_option CipherSetup (new_gcm cr key))"

definition makeChannel ::
  "crypto \<Rightarrow> bytes \<Rightarrow> string \<Rightarrow> string \<Rightarrow> bool \<Rightarrow> (wire_error, channel) res" where
  "makeChannel cr secret master ephemeral client =
     (let salt = sha256 cr (bytes_of (Protocol @ ''|'' @ master @ ''|'' @ ephemeral)) in
      bind_res (makeAEAD cr secret salt ''agent-to-master'') (\<lambda>c2s.
      bind_res (makeAEAD cr secret salt ''master-to-agent'') (\<lambda>s2c.
      Inr \<lparr>tx = (if client then c2s else s2c), rx = (if client then s2c else c2s),
           sent = 0, received = 0, public_key = ephemeral, private_key = []\<rparr>)))"

definition NewClientWithPrivate ::
  "crypto \<Rightarrow> string \<Rightarrow> string \<Rightarrow> (wire_error, channel) res" where
  "NewClientWithPrivate cr masterPublic private =
     bind_res (decodeKey masterPublic) (\<lambda>p.
     bind_res (decodeKey private) (\<lambda>k.
     bind_res (of_option KeyAgreement (x25519_ecdh cr k p)) (\<lambda>secret.
     bind_res (makeChannel cr secret masterPublic (b64_encode (x25519_public cr k)) True) (\<lambda>ch.
     Inr (ch\<lparr>private_key := private\<rparr>)))))"

definition NewClient :: "crypto \<Rightarrow> bytes \<Rightarrow> string \<Rightarrow> (wire_error, channel) res" where
  "NewClient cr random masterPublic = NewClientWithPrivate cr masterPublic (fst (GenerateKey cr random))"

definition NewServer :: "crypto \<Rightarrow> string \<Rightarrow> string \<Rightarrow> (wire_error, channel) res" where
  "NewServer cr masterPrivate ephemeralPublic =
     bind_res (decodeKey masterPrivate) (\<lambda>k.
     bind_res (decodeKey ephemeralPublic) (\<lambda>p.
     bind_res (of_option KeyAgreement (x25519_ecdh cr k p)) (\<lambda>secret.
     makeChannel cr secret (b64_encode (x25519_public cr k)) ephemeralPublic False)))"

definition ClientState :: "channel \<Rightarrow> (wire_error, client_state) res" where
  "ClientState c = (if private_key c = [] then Inl OnlyClientsExport
     else Inr \<lparr>PrivateKey = private_key c, Sent = sent c, Received = received c\<rparr>)"

definition RestoreClient ::
  "crypto \<Rightarrow> string \<Rightarrow> client_state \<Rightarrow> (wire_error, channel) res" where
  "RestoreClient cr masterPublic state =
     bind_res (NewClientWithPrivate cr masterPublic (PrivateKey state)) (\<lambda>c.
     Inr (c\<lparr>sent := Sent state, received := Received state\<rparr>))"

section \<open>The v1 exchange\<close>

definition nonce :: "u64 \<Rightarrow> bytes" where
  "nonce seq = replicate 4 0 @ put_uint64 seq"

definition aad :: "u64 \<Rightarrow> bytes" where
  "aad seq = bytes_of (Protocol @ ''|'') @ nonce seq"

definition Seal ::
  "('v \<Rightarrow> bytes option) \<Rightarrow> channel \<Rightarrow> 'v \<Rightarrow> (wire_error, packet \<times> channel) res" where
  "Seal marshalPayload c value =
     (case marshalPayload value of
        None \<Rightarrow> Inl Marshal
      | Some data \<Rightarrow>
          if length data > MaxPacket then Inl PacketTooLarge
          else if sent c = max_u64 then Inl ChannelExhausted
          else let s = sent c + 1; enc = aead_seal (tx c) (nonce s) data (aad s)
               in Inr (\<lparr>Sequence = s, Ciphertext = b64_encode enc\<rparr>, c\<lparr>sent := s\<rparr>))"

definition Open ::
  "(bytes \<Rightarrow> 'v option) \<Rightarrow> channel \<Rightarrow> packet \<Rightarrow> (wire_error, 'v \<times> channel) res" where
  "Open unmarshal c p =
     (if Sequence p = 0 \<or> Sequence p \<noteq> received c + 1 then Inl InvalidSequence
      else if length (Ciphertext p) > MaxPacket * 2 then Inl PacketTooLarge
      else case b64_decode (Ciphertext p) of
        None \<Rightarrow> Inl InvalidCiphertext
      | Some ct \<Rightarrow>
          (case aead_open (rx c) (nonce (Sequence p)) ct (aad (Sequence p)) of
             None \<Rightarrow> Inl AuthenticationFailed
           | Some data \<Rightarrow>
               if length data > MaxPacket then Inl PacketTooLarge
               else (case unmarshal data of
                       None \<Rightarrow> Inl InvalidPayload
                     | Some v \<Rightarrow> Inr (v, c\<lparr>received := Sequence p\<rparr>))))"

section \<open>The v2 binary stream\<close>

definition binaryHeaderSize :: nat where
  "binaryHeaderSize = 13"

definition compressionThreshold :: nat where
  "compressionThreshold = 1024"

record gzip =
  gzip_write :: "bytes \<Rightarrow> bytes option"
  gzip_read :: "bytes \<Rightarrow> nat \<Rightarrow> bytes option"

definition binaryAAD :: "bytes \<Rightarrow> bytes" where
  "binaryAAD header = bytes_of (Protocol @ ''/binary-v2|'') @ header"

definition binary_header :: "byte \<Rightarrow> u64 \<Rightarrow> bytes" where
  "binary_header flags seq = bytes_of ''ASW2'' @ [flags] @ put_uint64 seq"

definition compress_payload :: "gzip \<Rightarrow> bool \<Rightarrow> bytes \<Rightarrow> (wire_error, bytes \<times> byte) res" where
  "compress_payload gz compress data =
     (if compress \<and> length data \<ge> compressionThreshold
      then (case gzip_write gz data of
              None \<Rightarrow> Inl Marshal
            | Some b \<Rightarrow> if length b < length data then Inr (b, 1) else Inr (data, 0))
      else Inr (data, 0))"

definition SealBinary ::
  "gzip \<Rightarrow> ('v \<Rightarrow> bytes option) \<Rightarrow> channel \<Rightarrow> 'v \<Rightarrow> bool \<Rightarrow> (wire_error, bytes \<times> channel) res" where
  "SealBinary gz marshalPayload c value compress =
     bind_res (of_option Marshal (marshalPayload value)) (\<lambda>payload.
     guard_res (length payload > MaxPacket) PacketTooLarge (
     bind_res (compress_payload gz compress payload) (\<lambda>(data, flags).
     guard_res (sent c = max_u64) ChannelExhausted (
       let s = sent c + 1; header = binary_header flags s in
       Inr (header @ aead_seal (tx c) (nonce s) data (binaryAAD header), c\<lparr>sent := s\<rparr>)))))"

definition frame_seq :: "bytes \<Rightarrow> u64" where
  "frame_seq raw = get_uint64 (drop 5 (take binaryHeaderSize raw))"

definition expand_payload :: "gzip \<Rightarrow> byte \<Rightarrow> bytes \<Rightarrow> (wire_error, bytes) res" where
  "expand_payload gz flags data =
     (if flags = 1 then of_option InvalidCompressed (gzip_read gz data (MaxPacket + 1))
      else Inr data)"

definition OpenBinary ::
  "gzip \<Rightarrow> (bytes \<Rightarrow> 'v option) \<Rightarrow> channel \<Rightarrow> bytes \<Rightarrow> bool \<Rightarrow> (wire_error, 'v \<times> channel) res" where
  "OpenBinary gz unmarshal c raw allowCompression =
     guard_res (length raw < binaryHeaderSize + Overhead (rx c) \<or>
         length raw > binaryHeaderSize + MaxPacket + Overhead (rx c)) InvalidBinarySize (
     let header = take binaryHeaderSize raw; flags = header ! 4; seq = frame_seq raw in
     guard_res (take 4 header \<noteq> bytes_of ''ASW2'' \<or> flags > 1 \<or>
         flags = 1 \<and> \<not> allowCompression) UnsupportedEncoding (
     guard_res (seq = 0 \<or> seq \<noteq> received c + 1) InvalidSequence (
     bind_res (of_option AuthenticationFailed
         (aead_open (rx c) (nonce seq) (drop binaryHeaderSize raw) (binaryAAD header))) (\<lambda>data.
     bind_res (expand_payload gz flags data) (\<lambda>payload.
     guard_res (length payload > MaxPacket) PacketTooLarge (
     bind_res (of_option InvalidPayload (unmarshal payload)) (\<lambda>v.
     Inr (v, c\<lparr>received := seq\<rparr>))))))))"

section \<open>Stream negotiation and update kinds\<close>

definition HeartbeatSeconds :: int where
  "HeartbeatSeconds = 15"

definition TelemetrySeconds :: int where
  "TelemetrySeconds = 5"

record stream_options =
  Version :: int
  Binary :: bool
  Compression :: string
  heartbeat_seconds :: int
  telemetry_seconds :: int
  TelemetryDelta :: bool

definition StreamOffer :: stream_options where
  "StreamOffer = \<lparr>Version = 2, Binary = True, Compression = ''gzip'', heartbeat_seconds = 0,
     telemetry_seconds = 0, TelemetryDelta = True\<rparr>"

definition NegotiateStream :: "stream_options option \<Rightarrow> stream_options option" where
  "NegotiateStream offer = (case offer of
      None \<Rightarrow> None
    | Some off \<Rightarrow>
        if Version off \<noteq> 2 \<or> \<not> Binary off then None
        else Some \<lparr>Version = 2, Binary = True,
          Compression = (if Compression off = ''gzip'' then ''gzip'' else []),
          heartbeat_seconds = HeartbeatSeconds, telemetry_seconds = TelemetrySeconds,
          TelemetryDelta = TelemetryDelta off\<rparr>)"

definition StreamOptions_Valid :: "stream_options option \<Rightarrow> bool" where
  "StreamOptions_Valid opt = (case opt of
      None \<Rightarrow> False
    | Some r \<Rightarrow> Version r = 2 \<and> Binary r \<and> (Compression r = [] \<or> Compression r = ''gzip'') \<and>
        heartbeat_seconds r = HeartbeatSeconds \<and> telemetry_seconds r = TelemetrySeconds)"

section \<open>Sessions\<close>

text \<open>
  A whole session seen from outside: the packets a sender produces for a list of values
  (a value that cannot be sealed is skipped, the caller sees its error), the values a
  receiver obtains from any list of packets, and the nonces used when v1 packets and v2
  frames are sent over one channel.
\<close>

fun seal_all :: "('v \<Rightarrow> bytes option) \<Rightarrow> channel \<Rightarrow> 'v list \<Rightarrow> (packet \<times> 'v) list" where
  "seal_all m c [] = []"
| "seal_all m c (v # vs) =
     (case Seal m c v of Inl e \<Rightarrow> seal_all m c vs | Inr (p, c') \<Rightarrow> (p, v) # seal_all m c' vs)"

fun opened :: "(bytes \<Rightarrow> 'v option) \<Rightarrow> channel \<Rightarrow> packet list \<Rightarrow> 'v list" where
  "opened u c [] = []"
| "opened u c (p # ps) =
     (case Open u c p of Inl e \<Rightarrow> opened u c ps | Inr (v, c') \<Rightarrow> v # opened u c' ps)"

datatype 'v send = V1 'v | V2 'v bool

fun used_nonces :: "gzip \<Rightarrow> ('v \<Rightarrow> bytes option) \<Rightarrow> channel \<Rightarrow> 'v send list \<Rightarrow> bytes list" where
  "used_nonces gz m c [] = []"
| "used_nonces gz m c (V1 v # ops) =
     (case Seal m c v of Inl e \<Rightarrow> used_nonces gz m c ops
      | Inr (p, c') \<Rightarrow> nonce (Sequence p) # used_nonces gz m c' ops)"
| "used_nonces gz m c (V2 v cmp # ops) =
     (case SealBinary gz m c v cmp of Inl e \<Rightarrow> used_nonces gz m c ops
      | Inr (raw, c') \<Rightarrow> nonce (frame_seq raw) # used_nonces gz m c' ops)"

section \<open>Lemmas: nonces and headers\<close>

lemma length_nonce [simp]: "length (nonce q) = 12"
  by (simp add: nonce_def)

lemma nonce_inject [simp]: "nonce q = nonce r \<longleftrightarrow> q = r"
  by (simp add: nonce_def)

lemma aad_inject [simp]: "aad q = aad r \<longleftrightarrow> q = r"
  by (simp add: aad_def)

lemma length_binary_header [simp]: "length (binary_header f q) = binaryHeaderSize"
  by (simp add: binary_header_def binaryHeaderSize_def)

lemma binary_header_fields:
  "take 4 (binary_header f q @ rest) = bytes_of ''ASW2''"
  "(binary_header f q @ rest) ! 4 = f"
  "frame_seq (binary_header f q @ rest) = q"
  by (simp_all add: binary_header_def frame_seq_def binaryHeaderSize_def get_put_uint64
      nth_append)

lemma next_u64: "q \<noteq> 0 \<Longrightarrow> q = r + 1 \<Longrightarrow> unat q = Suc (unat (r :: u64))"
  by (metis add.commute unatSuc)

lemma succ_u64_nonzero: "r \<noteq> max_u64 \<Longrightarrow> (r :: u64) + 1 \<noteq> 0"
  by (metis add_eq_0_iff add.commute max_u64_def)

section \<open>Lemmas: what a successful call says\<close>

lemma Seal_InrD:
  assumes "Seal m c v = Inr (p, c')"
  shows "sent c \<noteq> max_u64" "Sequence p = sent c + 1" "c' = c\<lparr>sent := sent c + 1\<rparr>"
    "\<exists>data. m v = Some data \<and> length data \<le> MaxPacket \<and>
       Ciphertext p = b64_encode (aead_seal (tx c) (nonce (sent c + 1)) data (aad (sent c + 1)))"
  using assms by (auto simp: Seal_def Let_def split: option.splits if_splits)

lemma Open_InrD:
  assumes "Open u c p = Inr (v, c')"
  shows "Sequence p \<noteq> 0" "Sequence p = received c + 1" "c' = c\<lparr>received := Sequence p\<rparr>"
    "\<exists>ct data. b64_decode (Ciphertext p) = Some ct \<and>
       aead_open (rx c) (nonce (Sequence p)) ct (aad (Sequence p)) = Some data \<and> u data = Some v"
  using assms by (auto simp: Open_def split: option.splits if_splits)

lemma SealBinary_InrD:
  assumes "SealBinary gz m c v cmp = Inr (raw, c')"
  shows "sent c \<noteq> max_u64" "c' = c\<lparr>sent := sent c + 1\<rparr>" "frame_seq raw = sent c + 1"
  using assms
  by (auto simp: SealBinary_def bind_res_Inr Let_def binary_header_fields split: prod.splits)

lemma OpenBinary_InrD:
  assumes "OpenBinary gz u c raw allow = Inr (v, c')"
  shows "frame_seq raw \<noteq> 0" "frame_seq raw = received c + 1"
    "c' = c\<lparr>received := frame_seq raw\<rparr>"
  using assms by (auto simp: OpenBinary_def bind_res_Inr Let_def)

section \<open>In-order delivery and replay\<close>

definition open_step :: "(bytes \<Rightarrow> 'v option) \<Rightarrow> channel \<Rightarrow> packet \<Rightarrow> channel option" where
  "open_step u c p = (case Open u c p of Inl e \<Rightarrow> None | Inr (v, c') \<Rightarrow> Some c')"

definition open_binary_step ::
  "gzip \<Rightarrow> (bytes \<Rightarrow> 'v option) \<Rightarrow> bool \<Rightarrow> channel \<Rightarrow> bytes \<Rightarrow> channel option" where
  "open_binary_step gz u allow c raw =
     (case OpenBinary gz u c raw allow of Inl e \<Rightarrow> None | Inr (v, c') \<Rightarrow> Some c')"

lemma Open_next:
  "Open u c p = Inr (v, c') \<Longrightarrow>
     unat (Sequence p) = Suc (unat (received c)) \<and> received c' = Sequence p"
  using Open_InrD [of u c p v c'] next_u64 [of "Sequence p" "received c"] by simp

lemma OpenBinary_next:
  "OpenBinary gz u c raw allow = Inr (v, c') \<Longrightarrow>
     unat (frame_seq raw) = Suc (unat (received c)) \<and> received c' = frame_seq raw"
  using OpenBinary_InrD [of gz u c raw allow v c'] next_u64 [of "frame_seq raw" "received c"]
  by simp

interpretation packets: ordered_receiver "open_step u" "\<lambda>p. unat (Sequence p)"
  "\<lambda>c. unat (received c)"
  for u :: "bytes \<Rightarrow> 'v option"
  by unfold_locales (auto simp: open_step_def split: sum.splits dest: Open_next)

interpretation frames: ordered_receiver "open_binary_step gz u allow"
  "\<lambda>raw. unat (frame_seq raw)" "\<lambda>c. unat (received c)"
  for gz and u :: "bytes \<Rightarrow> 'v option" and allow
  by unfold_locales (auto simp: open_binary_step_def split: sum.splits dest: OpenBinary_next)

section \<open>Sender and receiver together\<close>

text \<open>
  What the code relies on from AES-GCM and the JSON codec: the receiving AEAD opens what
  the sending one sealed, adds a fixed overhead, and the payload codec round-trips.
\<close>

definition paired :: "aead \<Rightarrow> aead \<Rightarrow> bool" where
  "paired s r \<longleftrightarrow> Overhead s = Overhead r \<and>
     (\<forall>n d a. aead_open r n (aead_seal s n d a) a = Some d \<and>
        length (aead_seal s n d a) = length d + Overhead s)"

definition payload_codec :: "('v \<Rightarrow> bytes option) \<Rightarrow> (bytes \<Rightarrow> 'v option) \<Rightarrow> bool" where
  "payload_codec m u \<longleftrightarrow> (\<forall>v d. m v = Some d \<longrightarrow> u d = Some v)"

definition gzip_codec :: "gzip \<Rightarrow> bool" where
  "gzip_codec gz \<longleftrightarrow> (\<forall>d b k. gzip_write gz d = Some b \<longrightarrow> gzip_read gz b k = Some (take k d))"

lemma pairedD:
  assumes "paired s r"
  shows "aead_open r n (aead_seal s n d a) a = Some d"
    "length (aead_seal s n d a) = length d + Overhead s" "Overhead r = Overhead s"
  using assms by (auto simp: paired_def)

lemma b64_sealed_bound: "n \<le> MaxPacket + 16 \<Longrightarrow> (n * 4 + 2) div 3 \<le> MaxPacket * 2"
  by (simp add: MaxPacket_def)

lemma Open_Seal:
  assumes seal: "Seal m s v = Inr (p, s')"
    and pair: "paired (tx s) (rx r)" "Overhead (tx s) \<le> 16"
    and codec: "payload_codec m u"
    and sync: "received r = sent s"
  shows "Open u r p = Inr (v, r\<lparr>received := sent s'\<rparr>)"
proof -
  obtain data where data: "m v = Some data" "length data \<le> MaxPacket"
      "Ciphertext p = b64_encode (aead_seal (tx s) (nonce (sent s + 1)) data (aad (sent s + 1)))"
    using Seal_InrD(4) [OF seal] by blast
  have seq: "Sequence p = sent s + 1" "sent s' = sent s + 1" "sent s + 1 \<noteq> 0"
    using Seal_InrD(1-3) [OF seal] succ_u64_nonzero by auto
  have "length (Ciphertext p) \<le> MaxPacket * 2"
    using data(2) pair b64_sealed_bound [of "length data + Overhead (tx s)"]
    by (simp add: data(3) length_b64_encode pairedD(2))
  then show ?thesis
    using data codec seq sync pair
    by (simp add: Open_def b64_decode_encode pairedD(1) payload_codec_def)
qed

lemma expand_compress:
  assumes "compress_payload gz cmp data = Inr (d, f)" "gzip_codec gz" "length data \<le> MaxPacket"
  shows "expand_payload gz f d = Inr data" "f = 0 \<or> f = 1 \<and> cmp" "length d \<le> length data"
  using assms
  by (auto simp: compress_payload_def expand_payload_def gzip_codec_def
      split: if_splits option.splits)

lemma OpenBinary_SealBinary:
  assumes seal: "SealBinary gz m s v cmp = Inr (raw, s')"
    and pair: "paired (tx s) (rx r)" and gz: "gzip_codec gz" and codec: "payload_codec m u"
    and sync: "received r = sent s" and allow: "cmp \<longrightarrow> allow"
  shows "OpenBinary gz u r raw allow = Inr (v, r\<lparr>received := sent s'\<rparr>)"
proof -
  let ?q = "sent s + 1"
  obtain data d f where data: "m v = Some data" "length data \<le> MaxPacket"
      and comp: "compress_payload gz cmp data = Inr (d, f)"
      and raw: "raw = binary_header f ?q @ aead_seal (tx s) (nonce ?q) d (binaryAAD (binary_header f ?q))"
      and full: "sent s \<noteq> max_u64" "s' = s\<lparr>sent := ?q\<rparr>"
    using seal by (auto simp: SealBinary_def bind_res_Inr Let_def)
  note ec = expand_compress [OF comp gz data(2)]
  have f: "\<not> f > 1" "f = 1 \<Longrightarrow> allow"
    using ec(2) allow by auto
  have hdr: "take binaryHeaderSize raw = binary_header f ?q"
    and body: "drop binaryHeaderSize raw =
      aead_seal (tx s) (nonce ?q) d (binaryAAD (binary_header f ?q))"
    by (simp_all add: raw)
  have fields: "take 4 (binary_header f ?q) = bytes_of ''ASW2''" "binary_header f ?q ! 4 = f"
      "frame_seq raw = ?q"
    using binary_header_fields [of f ?q "[]"] by (simp_all add: raw binary_header_fields)
  have len: "length raw = binaryHeaderSize + length d + Overhead (rx r)"
    using pair by (simp add: raw pairedD)
  show ?thesis
    using data ec f full codec pair sync succ_u64_nonzero [OF full(1)]
    by (simp add: OpenBinary_def len hdr body fields Let_def pairedD(1) payload_codec_def)
qed

section \<open>Lemmas on sessions\<close>

lemma opened_seal_all:
  assumes "paired (tx s) (rx r)" "Overhead (tx s) \<le> 16" "payload_codec m u"
    "received r = sent s"
  shows "opened u r (map fst (seal_all m s vs)) = map snd (seal_all m s vs)"
  using assms
proof (induction vs arbitrary: s r)
  case (Cons v vs)
  show ?case
  proof (cases "Seal m s v")
    case (Inr pc)
    obtain p s' where pc: "pc = (p, s')" by (cases pc)
    have "tx s' = tx s"
      using Seal_InrD(3) [OF Inr [unfolded pc]] by simp
    moreover have "Open u r p = Inr (v, r\<lparr>received := sent s'\<rparr>)"
      using Inr Cons.prems by (intro Open_Seal) (auto simp: pc)
    ultimately show ?thesis
      using Inr pc Cons.prems Cons.IH [of s' "r\<lparr>received := sent s'\<rparr>"] by simp
  qed (use Cons in simp)
qed simp

lemma unat_succ: "q \<noteq> max_u64 \<Longrightarrow> unat (q + 1 :: u64) = Suc (unat q)"
  by (rule next_u64 [OF succ_u64_nonzero]) simp_all

lemma seal_all_sequence:
  assumes "i < length (seal_all m s vs)"
  shows "unat (Sequence (fst (seal_all m s vs ! i))) = unat (sent s) + Suc i"
  using assms
proof (induction vs arbitrary: s i)
  case (Cons v vs)
  show ?case
  proof (cases "Seal m s v")
    case (Inr pc)
    obtain p s' where pc: "pc = (p, s')" by (cases pc)
    note d = Seal_InrD [OF Inr [unfolded pc]]
    show ?thesis
    proof (cases i)
      case 0
      then show ?thesis using Inr pc d(1,2) by (simp add: unat_succ)
    next
      case (Suc j)
      then show ?thesis
        using Inr pc d(1,3) Cons.prems Cons.IH [of j s'] by (simp add: unat_succ)
    qed
  qed (use Cons in simp)
qed simp

lemma seal_all_at:
  assumes "(p, v) \<in> set (seal_all m s vs)"
  shows "unat (Sequence p) - unat (sent s) - 1 < length (seal_all m s vs)"
    "seal_all m s vs ! (unat (Sequence p) - unat (sent s) - 1) = (p, v)"
proof -
  obtain i where "i < length (seal_all m s vs)" "seal_all m s vs ! i = (p, v)"
    using assms by (auto simp: in_set_conv_nth)
  then show "unat (Sequence p) - unat (sent s) - 1 < length (seal_all m s vs)"
    "seal_all m s vs ! (unat (Sequence p) - unat (sent s) - 1) = (p, v)"
    using seal_all_sequence [of i m s vs] by auto
qed

lemma opened_prefix_from:
  assumes auth: "\<And>q ct d. aead_open (rx r) (nonce q) ct (aad q) = Some d \<Longrightarrow>
      \<exists>p v. (p, v) \<in> set (seal_all m s vs) \<and> Sequence p = q \<and> m v = Some d"
    and codec: "payload_codec m u" and k: "unat (received r) = unat (sent s) + k"
  shows "\<exists>n. opened u r ps = take n (drop k (map snd (seal_all m s vs)))"
  using auth k
proof (induction ps arbitrary: r k)
  case (Cons p ps)
  show ?case
  proof (cases "Open u r p")
    case (Inr vc)
    obtain v r' where vc: "vc = (v, r')" by (cases vc)
    note d = Open_InrD [OF Inr [unfolded vc]] and nx = Open_next [OF Inr [unfolded vc]]
    obtain q w data where pw: "(q, w) \<in> set (seal_all m s vs)" "Sequence q = Sequence p"
        "m w = Some data" "u data = Some v"
      using d(4) Cons.prems(1) by blast
    have "w = v"
      using pw(3,4) codec by (simp add: payload_codec_def)
    have "k < length (seal_all m s vs)" "seal_all m s vs ! k = (q, v)"
      using seal_all_at [OF pw(1)] pw(2) nx Cons.prems(2) \<open>w = v\<close> by simp_all
    then have split: "drop k (map snd (seal_all m s vs)) =
        v # drop (Suc k) (map snd (seal_all m s vs))"
      by (simp add: Cons_nth_drop_Suc [symmetric] del: drop_map)
    have "rx r' = rx r" "unat (received r') = unat (sent s) + Suc k"
      using d(3) nx Cons.prems(2) by simp_all
    then obtain n where "opened u r' ps = take n (drop (Suc k) (map snd (seal_all m s vs)))"
      using Cons.IH [of r' "Suc k"] Cons.prems(1) by auto
    then show ?thesis
      using Inr vc split by (intro exI [of _ "Suc n"]) simp
  qed (use Cons in simp)
qed (auto intro: exI [of _ 0])

lemma Seal_counts:
  "Seal m c v = Inr (p, c') \<Longrightarrow> unat (Sequence p) = Suc (unat (sent c)) \<and> sent c' = Sequence p"
  using Seal_InrD(1-3) [of m c v p c'] by (simp add: unat_succ)

lemma SealBinary_counts:
  "SealBinary gz m c v cmp = Inr (raw, c') \<Longrightarrow>
     unat (frame_seq raw) = Suc (unat (sent c)) \<and> sent c' = frame_seq raw"
  using SealBinary_InrD [of gz m c v cmp raw c'] by (simp add: unat_succ)

lemma used_nonces_above:
  "n \<in> set (used_nonces gz m c ops) \<Longrightarrow> \<exists>q. n = nonce q \<and> unat (sent c) < unat q"
proof (induction gz m c ops rule: used_nonces.induct)
  case (2 gz m c v ops)
  then show ?case
    by (fastforce split: sum.splits prod.splits dest: Seal_counts)
next
  case (3 gz m c v cmp ops)
  then show ?case
    by (fastforce split: sum.splits prod.splits dest: SealBinary_counts)
qed simp

lemma distinct_used_nonces: "distinct (used_nonces gz m c ops)"
proof (induction gz m c ops rule: used_nonces.induct)
  case (2 gz m c v ops)
  then show ?case
    by (auto split: sum.splits dest!: Seal_counts used_nonces_above)
next
  case (3 gz m c v cmp ops)
  then show ?case
    by (auto split: sum.splits dest!: SealBinary_counts used_nonces_above)
qed simp

lemma decodeKey_encode: "length b = 32 \<Longrightarrow> decodeKey (b64_encode b) = Inr b"
  by (simp add: decodeKey_def b64_decode_encode)

lemma decodeKey_nonempty: "decodeKey s = Inr b \<Longrightarrow> s \<noteq> []"
  by (auto simp: decodeKey_def b64_decode_def)

lemma makeChannel_roles:
  assumes "makeChannel cr secret master eph True = Inr c"
  shows "makeChannel cr secret master eph False = Inr (c\<lparr>tx := rx c, rx := tx c\<rparr>)"
    "public_key c = eph" "sent c = 0" "received c = 0"
  using assms by (auto simp: makeChannel_def Let_def bind_res_Inr)

section \<open>Properties\<close>

text \<open>Key agreement. The channel a client derives from the controller's public key and the
  channel the controller derives from the client's ephemeral public key use the same two
  AEAD keys in opposite roles, and both start with zero counters. What is used of X25519 is
  that both sides compute the same secret and that public keys have 32 bytes.\<close>

theorem channel_key_agreement:
  assumes client: "NewClientWithPrivate cr (b64_encode (x25519_public cr mk)) private = Inr c"
    and key: "decodeKey private = Inr k" and mkey: "decodeKey masterPrivate = Inr mk"
    and agree: "x25519_ecdh cr mk (x25519_public cr k) = x25519_ecdh cr k (x25519_public cr mk)"
    and size: "\<And>b. length (x25519_public cr b) = 32"
  shows "\<exists>s. NewServer cr masterPrivate (public_key c) = Inr s \<and>
    tx s = rx c \<and> rx s = tx c \<and> sent s = 0 \<and> received s = 0 \<and> sent c = 0 \<and> received c = 0"
proof -
  obtain secret c0 where sec: "x25519_ecdh cr k (x25519_public cr mk) = Some secret"
      and ch: "makeChannel cr secret (b64_encode (x25519_public cr mk))
        (b64_encode (x25519_public cr k)) True = Inr c0" and c: "c = c0\<lparr>private_key := private\<rparr>"
    using client key size
    by (auto simp: NewClientWithPrivate_def bind_res_Inr decodeKey_encode)
  note roles = makeChannel_roles [OF ch]
  show ?thesis
    using roles mkey agree sec size
    by (simp add: NewServer_def c decodeKey_encode)
qed

text \<open>C1: Replay protection of the v1 exchange. Whatever packets arrive, in whatever order and
  however often, the packets a channel accepts carry consecutive sequence numbers that start
  right after the last one accepted before, and no packet is accepted twice.\<close>

theorem packets_consecutive_no_replay:
  "map (\<lambda>p. unat (Sequence p)) (accepted (open_step u) c ps) =
     [Suc (unat (received c)) ..< Suc (unat (received c)) + length (accepted (open_step u) c ps)]
   \<and> distinct (accepted (open_step u) c ps)"
  using packets.accepted_consecutive packets.accepted_no_replay by blast

text \<open>Replay protection of the binary stream: the frames a channel accepts are consecutive
  in their header's sequence number and no frame is accepted twice.\<close>

theorem frames_consecutive_no_replay:
  "map (\<lambda>raw. unat (frame_seq raw)) (accepted (open_binary_step gz u allow) c raws) =
     [Suc (unat (received c)) ..<
        Suc (unat (received c)) + length (accepted (open_binary_step gz u allow) c raws)]
   \<and> distinct (accepted (open_binary_step gz u allow) c raws)"
  using frames.accepted_consecutive frames.accepted_no_replay by blast


text \<open>C3: In-order delivery against an active network. If the receiving AEAD only opens what the
  sending channel sealed under that nonce and header, then from any sequence of packets
  whatsoever the receiver obtains a prefix of the values the sender sealed: nothing forged,
  nothing reordered, nothing skipped, nothing twice.\<close>

theorem channel_delivers_prefix:
  assumes authentic: "\<And>q ct d. aead_open (rx r) (nonce q) ct (aad q) = Some d \<Longrightarrow>
      \<exists>p v. (p, v) \<in> set (seal_all m s vs) \<and> Sequence p = q \<and> m v = Some d"
    and codec: "payload_codec m u" and sync: "received r = sent s"
  shows "\<exists>n. opened u r ps = take n (map snd (seal_all m s vs))"
  using opened_prefix_from [of r m s vs u 0 ps] assms by simp

text \<open>Lossless delivery. Over an honest transport the receiver obtains exactly the values
  that were sealed, in order, when its AEAD is the partner of the sender's (overhead at
  most the 16 bytes of GCM) and the payload codec round-trips.\<close>

theorem channel_delivers_all:
  assumes "paired (tx s) (rx r)" "Overhead (tx s) \<le> 16" "payload_codec m u"
    "received r = sent s"
  shows "opened u r (map fst (seal_all m s vs)) = map snd (seal_all m s vs)"
  using assms by (rule opened_seal_all)

text \<open>C4: Binary round trip. A frame sealed on one end, compressed or not, opens on the other
  end to the same value and moves the receiver to the sender's counter, provided a receiver
  of compressed frames allows them.\<close>

theorem binary_frame_roundtrip:
  assumes "SealBinary gz m s v cmp = Inr (raw, s')"
    and "paired (tx s) (rx r)" and "gzip_codec gz" and "payload_codec m u"
    and "received r = sent s" and "cmp \<longrightarrow> allow"
  shows "OpenBinary gz u r raw allow = Inr (v, r\<lparr>received := sent s'\<rparr>)"
  using assms by (rule OpenBinary_SealBinary)

text \<open>Exported client state. Restoring a client channel from its exported state gives back
  the channel itself, counters included, so a restored channel continues with fresh nonces.\<close>

theorem client_state_roundtrip:
  assumes "NewClientWithPrivate cr masterPublic private = Inr c"
  shows "bind_res (ClientState (c\<lparr>sent := a, received := b\<rparr>)) (RestoreClient cr masterPublic)
    = Inr (c\<lparr>sent := a, received := b\<rparr>)"
proof -
  have "private_key c = private" "private \<noteq> []"
    using assms decodeKey_nonempty by (auto simp: NewClientWithPrivate_def bind_res_Inr)
  then show ?thesis
    using assms by (simp add: ClientState_def RestoreClient_def)
qed

section \<open>Instances at which the hypotheses hold\<close>

text \<open>
  Concrete parameters: an AEAD that appends a zero tag, an AEAD pair that admits exactly one
  sealed message, a commutative key agreement, and gzip replaced by the
  identity code.
\<close>

definition sample_aead :: aead where
  "sample_aead = \<lparr>aead_seal = (\<lambda>n d a. d @ replicate 16 0),
     aead_open = (\<lambda>n c a. if length c < 16 then None else Some (take (length c - 16) c)),
     Overhead = 16\<rparr>"

definition sample_single :: aead where
  "sample_single = \<lparr>aead_seal = (\<lambda>n d a. d),
     aead_open = (\<lambda>n c a. if n = nonce 1 \<and> c = [7] \<and> a = aad 1 then Some [7] else None),
     Overhead = 0\<rparr>"

definition sample_channel :: "aead \<Rightarrow> channel" where
  "sample_channel a = \<lparr>tx = a, rx = a, sent = 0, received = 0, public_key = [], private_key = []\<rparr>"

definition sample_pub :: "bytes \<Rightarrow> bytes" where
  "sample_pub b = take 32 (b @ replicate 32 0)"

definition sample_crypto :: crypto where
  "sample_crypto = \<lparr>x25519_public = sample_pub,
     x25519_ecdh = (\<lambda>k p. Some (map2 (+) (sample_pub k) p)), sha256 = id,
     hkdf_key = (\<lambda>s salt info. Some s), new_gcm = (\<lambda>k. Some sample_aead)\<rparr>"

definition plain_gzip :: gzip where
  "plain_gzip = \<lparr>gzip_write = Some, gzip_read = (\<lambda>b k. Some (take k b))\<rparr>"

definition sample_key :: string where
  "sample_key = b64_encode (replicate 32 1)"

lemma paired_sample: "paired sample_aead sample_aead"
  by (simp add: paired_def sample_aead_def)

lemma length_sample_pub: "length (sample_pub b) = 32"
  by (simp add: sample_pub_def)

lemma sample_decodeKey: "decodeKey sample_key = Inr (replicate 32 1)"
  by (simp add: sample_key_def decodeKey_encode)

lemma sample_client:
  "\<exists>c. NewClientWithPrivate sample_crypto
     (b64_encode (x25519_public sample_crypto (replicate 32 1))) sample_key = Inr c"
  by (simp add: NewClientWithPrivate_def sample_decodeKey decodeKey_encode length_sample_pub
      sample_crypto_def makeChannel_def makeAEAD_def Let_def)

theorem channel_key_agreement_witness:
  "\<exists>c s. NewClientWithPrivate sample_crypto
      (b64_encode (x25519_public sample_crypto (replicate 32 1))) sample_key = Inr c \<and>
    NewServer sample_crypto sample_key (public_key c) = Inr s \<and> tx s = rx c \<and> rx s = tx c"
proof -
  obtain c where c: "NewClientWithPrivate sample_crypto
      (b64_encode (x25519_public sample_crypto (replicate 32 1))) sample_key = Inr c"
    using sample_client by blast
  show ?thesis
    using channel_key_agreement [OF c sample_decodeKey sample_decodeKey refl] c
    by (auto simp: sample_crypto_def length_sample_pub)
qed

theorem channel_delivers_prefix_witness:
  "\<exists>n. opened Some (sample_channel sample_single)
      [\<lparr>Sequence = 3, Ciphertext = ''AA''\<rparr>, \<lparr>Sequence = 1, Ciphertext = b64_encode [7]\<rparr>] =
    take n (map snd (seal_all Some (sample_channel sample_single) [[7]]))"
proof (rule channel_delivers_prefix)
  fix q ct d
  assume "aead_open (rx (sample_channel sample_single)) (nonce q) ct (aad q) = Some d"
  then have "q = 1" "d = [7]"
    by (simp_all add: sample_channel_def sample_single_def split: if_splits)
  then show "\<exists>p v. (p, v) \<in> set (seal_all Some (sample_channel sample_single) [[7]]) \<and>
      Sequence p = q \<and> Some v = Some d"
    by (simp add: sample_channel_def Seal_def MaxPacket_def max_u64_def)
qed (simp_all add: payload_codec_def sample_channel_def)

theorem channel_delivers_all_witness:
  "opened Some (sample_channel sample_aead)
     (map fst (seal_all Some (sample_channel sample_aead) [[1, 2], [3]])) = [[1, 2], [3]]"
proof -
  have "map snd (seal_all Some (sample_channel sample_aead) [[1, 2], [3]]) = [[1, 2], [3]]"
    by (simp add: sample_channel_def Seal_def MaxPacket_def max_u64_def Let_def)
  then show ?thesis
    using channel_delivers_all [of "sample_channel sample_aead" "sample_channel sample_aead"
        Some Some "[[1, 2], [3]]"] paired_sample
    by (simp add: sample_channel_def sample_aead_def payload_codec_def)
qed

theorem binary_frame_roundtrip_witness:
  "\<exists>raw c. SealBinary plain_gzip Some (sample_channel sample_aead) [1, 2] True = Inr (raw, c) \<and>
     OpenBinary plain_gzip Some (sample_channel sample_aead) raw True
       = Inr ([1, 2], (sample_channel sample_aead)\<lparr>received := 1\<rparr>)"
proof -
  obtain raw c where seal:
      "SealBinary plain_gzip Some (sample_channel sample_aead) [1, 2] True = Inr (raw, c)"
    by (simp add: SealBinary_def compress_payload_def compressionThreshold_def MaxPacket_def
        sample_channel_def max_u64_def Let_def)
  have "sent c = 1"
    using SealBinary_InrD(2) [OF seal] by (simp add: sample_channel_def)
  then show ?thesis
    using binary_frame_roundtrip [OF seal, of "sample_channel sample_aead" Some True] seal
      paired_sample
    by (simp add: sample_channel_def gzip_codec_def plain_gzip_def payload_codec_def)
qed

theorem client_state_roundtrip_witness:
  "\<exists>c. NewClientWithPrivate sample_crypto
      (b64_encode (x25519_public sample_crypto (replicate 32 1))) sample_key = Inr c \<and>
    bind_res (ClientState (c\<lparr>sent := 5, received := 3\<rparr>)) (RestoreClient sample_crypto
      (b64_encode (x25519_public sample_crypto (replicate 32 1))))
    = Inr (c\<lparr>sent := 5, received := 3\<rparr>)"
  using sample_client client_state_roundtrip by blast

end
