(* ===== verification/Json_Model.thy ===== *)
theory Json_Model
  imports Go_Text
begin

text \<open>
  JSON trees as encoding/json decodes them into \<open>any\<close> with \<open>UseNumber\<close>: numbers keep
  their literal text, and an object is a Go map, modelled as an association list that is
  strictly sorted by key. The sorted list is the canonical representative of the map, so
  \<open>reflect.DeepEqual\<close> on two decoded values is equality of the trees; a loop over a map,
  whose order Go leaves open, runs in key order. \<open>json_encode\<close> is the output of the
  encoder with HTML escaping switched off (map keys sorted, UTF-8 text unchanged).
\<close>

datatype json = JNull | JBool bool | JNum string | JStr string | JArr "json list"
  | JObj "(string \<times> json) list"

type_synonym jmap = "(string \<times> json) list"

definition sorted_keys :: "(string \<times> 'v) list \<Rightarrow> bool" where
  "sorted_keys kvs = sorted_wrt (<) (map fst kvs)"

fun wf_json :: "json \<Rightarrow> bool" where
  "wf_json (JArr vs) = list_all wf_json vs"
| "wf_json (JObj kvs) = (sorted_keys kvs \<and> list_all (\<lambda>kv. wf_json (snd kv)) kvs)"
| "wf_json _ = True"

fun put_key :: "string \<Rightarrow> 'v \<Rightarrow> (string \<times> 'v) list \<Rightarrow> (string \<times> 'v) list" where
  "put_key k v [] = [(k, v)]"
| "put_key k v ((k', v') # kvs) =
     (if k < k' then (k, v) # (k', v') # kvs
      else if k = k' then (k, v) # kvs
      else (k', v') # put_key k v kvs)"

definition json_escape :: "char \<Rightarrow> string" where
  "json_escape c = (let n = of_char c :: nat in
     if n = 34 then [char_of (92 :: nat), char_of (34 :: nat)]
     else if n = 92 then [char_of (92 :: nat), char_of (92 :: nat)]
     else if n = 8 then char_of (92 :: nat) # ''b''
     else if n = 12 then char_of (92 :: nat) # ''f''
     else if n = 10 then char_of (92 :: nat) # ''n''
     else if n = 13 then char_of (92 :: nat) # ''r''
     else if n = 9 then char_of (92 :: nat) # ''t''
     else if n < 32 then char_of (92 :: nat) # ''u00'' @ [hex_char (n div 16), hex_char (n mod 16)]
     else [c])"

definition json_string :: "string \<Rightarrow> string" where
  "json_string s = [char_of (34 :: nat)] @ concat (map json_escape s) @ [char_of (34 :: nat)]"

fun commas :: "string list \<Rightarrow> string" where
  "commas [] = []"
| "commas [s] = s"
| "commas (s # ss) = s @ '','' @ commas ss"

fun json_encode :: "json \<Rightarrow> string" where
  "json_encode JNull = ''null''"
| "json_encode (JBool b) = (if b then ''true'' else ''false'')"
| "json_encode (JNum s) = s"
| "json_encode (JStr s) = json_string s"
| "json_encode (JArr vs) = ''['' @ commas (map json_encode vs) @ '']''"
| "json_encode (JObj kvs) =
     ''{'' @ commas (map (\<lambda>kv. json_string (fst kv) @ '':'' @ json_encode (snd kv)) kvs) @ ''}''"

text \<open>The Go type assertions \<open>v.(map[string]any)\<close> and \<open>v.(string)\<close>.\<close>

fun as_map :: "json \<Rightarrow> jmap option" where
  "as_map (JObj kvs) = Some kvs"
| "as_map _ = None"

fun as_string :: "json \<Rightarrow> string option" where
  "as_string (JStr s) = Some s"
| "as_string _ = None"

text \<open>A Go map read of a missing key yields the zero value, here \<open>nil\<close>.\<close>

definition get_any :: "jmap \<Rightarrow> string \<Rightarrow> json" where
  "get_any kvs k = (case map_of kvs k of None \<Rightarrow> JNull | Some v \<Rightarrow> v)"

definition get_string :: "jmap \<Rightarrow> string \<Rightarrow> string" where
  "get_string kvs k = (case map_of kvs k of Some (JStr s) \<Rightarrow> s | _ \<Rightarrow> [])"

section \<open>Sorted association lists\<close>

lemma sorted_keys_Cons [simp]:
  "sorted_keys ((k, v) # kvs) \<longleftrightarrow> (\<forall>k' \<in> fst ` set kvs. k < k') \<and> sorted_keys kvs"
  by (simp add: sorted_keys_def)

lemma sorted_keys_Nil [simp]: "sorted_keys []"
  by (simp add: sorted_keys_def)

lemma sorted_keys_distinct: "sorted_keys kvs \<Longrightarrow> distinct (map fst kvs)"
  by (simp add: sorted_keys_def strict_sorted_iff)

lemma map_of_put_key: "map_of (put_key k v kvs) = (map_of kvs)(k \<mapsto> v)"
proof (induction k v kvs rule: put_key.induct)
  case (2 k v k' v' kvs)
  then show ?case
    by (auto simp: fun_eq_iff)
qed simp

lemma keys_put_key: "fst ` set (put_key k v kvs) = insert k (fst ` set kvs)"
  by (induction k v kvs rule: put_key.induct) auto

lemma sorted_put_key: "sorted_keys kvs \<Longrightarrow> sorted_keys (put_key k v kvs)"
proof (induction k v kvs rule: put_key.induct)
  case (2 k v k' v' kvs)
  then show ?case
    by (auto simp: keys_put_key)
qed simp

lemma set_put_key: "set (put_key k v kvs) \<subseteq> insert (k, v) (set kvs)"
  by (induction k v kvs rule: put_key.induct) auto

lemma sorted_delete: "sorted_keys kvs \<Longrightarrow> sorted_keys (AList.delete k kvs)"
  by (induction kvs) (auto simp: AList.delete_eq)

lemma map_of_sorted_eq:
  assumes "sorted_keys xs" "sorted_keys ys" "map_of xs = map_of ys"
  shows "xs = ys"
proof -
  note distinct = assms(1,2) [THEN sorted_keys_distinct]
  then have "set xs = set ys"
    using assms(3) by (simp add: map_of_inject_set)
  then show ?thesis
    using assms(1,2) distinct
    by (intro map_sorted_distinct_set_unique [of fst])
      (auto simp: sorted_keys_def strict_sorted_iff distinct_map)
qed

lemma put_key_same: "sorted_keys kvs \<Longrightarrow> map_of kvs k = Some v \<Longrightarrow> put_key k v kvs = kvs"
  by (rule map_of_sorted_eq) (auto simp: sorted_put_key map_of_put_key)

lemma put_key_twice: "sorted_keys kvs \<Longrightarrow> put_key k w (put_key k v kvs) = put_key k w kvs"
  by (rule map_of_sorted_eq) (auto simp: sorted_put_key map_of_put_key)

lemma wf_json_member: "wf_json (JObj kvs) \<Longrightarrow> map_of kvs k = Some v \<Longrightarrow> wf_json v"
  by (auto simp: list_all_iff dest!: map_of_SomeD)

end
