(* ===== verification/Wire_Messages.thy ===== *)
theory Wire_Messages
  imports Wire_Channel Json_Model
begin

text \<open>
  The messages of package wire (internal/wire/wire.go) and the two proofs of identity that are
  not part of the channel: the signed hello of a direct connection (internal/wire/direct.go) and
  the signed grants and request proofs of federation (internal/wire/federation.go). HMAC-SHA-256,
  Ed25519 and the JSON text of a grant or request are parameters.
\<close>

section \<open>Messages\<close>

record command =
  cmd_ID :: string
  cmd_Action :: string
  cmd_Params :: jmap

record command_result =
  res_ID :: string
  res_Status :: string
  res_Error :: string
  res_Data :: "jmap option"

record hello =
  hello_PublicKey :: string
  hello_Packet :: packet

record direct_request =
  dr_Token :: string
  dr_Timestamp :: int
  dr_Command :: command

section \<open>Direct hello\<close>

definition DirectHelloProtocol :: string where
  "DirectHelloProtocol = ''aswired-direct-hello-v1''"

record direct_hello =
  dh_Protocol :: string
  dh_Nonce :: string
  dh_PublicKey :: string
  dh_ServerID :: string
  dh_MasterPublicKey :: string
  dh_Timestamp :: int
  dh_Proof :: string

datatype hello_error = BadHelloFields | NoHelloToken | BadHelloProof | HelloProofFailed

definition canonicalDirectKey :: "string \<Rightarrow> bool" where
  "canonicalDirectKey s =
     (case b64_decode s of None \<Rightarrow> False | Some b \<Rightarrow> length b = 32 \<and> b64_encode b = s)"

definition ValidDirectNonce :: "string \<Rightarrow> bool" where
  "ValidDirectNonce s = canonicalDirectKey s"

definition directHelloMessage :: "direct_hello \<Rightarrow> (hello_error, bytes) res" where
  "directHelloMessage h =
     (if dh_Protocol h \<noteq> DirectHelloProtocol \<or> \<not> ValidDirectNonce (dh_Nonce h) \<or> \<not> canonicalDirectKey (dh_PublicKey h) \<or>
         \<not> canonicalDirectKey (dh_MasterPublicKey h) \<or> dh_ServerID h = [] \<or> length (dh_ServerID h) > 256 \<or>
         contains_any (dh_ServerID h) [carriage_return, newline] \<or> dh_Timestamp h \<le> 0
      then Inl BadHelloFields
      else Inr (bytes_of (join_with newline [dh_Protocol h, dh_Nonce h, dh_PublicKey h, dh_ServerID h,
        dh_MasterPublicKey h, itoa (dh_Timestamp h)])))"

definition SignDirectHello ::
  "(bytes \<Rightarrow> bytes \<Rightarrow> bytes) \<Rightarrow> string \<Rightarrow> direct_hello \<Rightarrow> (hello_error, direct_hello) res" where
  "SignDirectHello hmac token h =
     bind_res (directHelloMessage h) (\<lambda>message.
     guard_res (token = []) NoHelloToken
     (Inr (h\<lparr>dh_Proof := b64_encode (hmac (bytes_of token) message)\<rparr>)))"

definition VerifyDirectHello ::
  "(bytes \<Rightarrow> bytes \<Rightarrow> bytes) \<Rightarrow> string \<Rightarrow> direct_hello \<Rightarrow> (hello_error, unit) res" where
  "VerifyDirectHello hmac token h =
     (if \<not> canonicalDirectKey (dh_Proof h) then Inl BadHelloProof
      else bind_res (SignDirectHello hmac token h) (\<lambda>signed.
        if b64_decode (dh_Proof h) \<noteq> b64_decode (dh_Proof signed) then Inl HelloProofFailed else Inr ()))"

section \<open>Federation\<close>

definition FederationProtocol :: string where
  "FederationProtocol = ''aswired-agent-share-v1''"

record federation_grant =
  fg_Protocol :: string
  fg_ID :: string
  fg_Revision :: u64
  fg_ServerID :: string
  fg_AgentPublicKey :: string
  fg_ConsumerPublicKey :: string
  fg_Namespace :: string
  fg_Inbounds :: "string smap"
  fg_Actions :: "string list"
  fg_ExpiresAt :: int
  fg_Revoked :: bool

record signed_grant =
  sg_Grant :: federation_grant
  sg_OwnerPublicKey :: string
  sg_Signature :: string

record federation_request =
  fr_GrantRevision :: u64
  fr_Protocol :: string
  fr_ShareID :: string
  fr_Namespace :: string
  fr_AgentPublicKey :: string
  fr_ConsumerPublicKey :: string
  fr_EphemeralPublicKey :: string
  fr_IssuedAt :: int
  fr_Command :: command
  fr_Proof :: string

record federation_envelope =
  fe_RequestID :: string
  fe_ShareID :: string
  fe_ConsumerPublicKey :: string
  fe_Hello :: hello

datatype grant_error = BadOwnerKey | BadGrantSignature | GrantSignatureFailed | ProofSetup | ConsumerAuthFailed

text \<open>The parameters: Ed25519, HMAC-SHA-256 and the JSON encoder on grants and requests.\<close>

record signer =
  ed_public :: "bytes \<Rightarrow> bytes"
  ed_sign :: "bytes \<Rightarrow> bytes \<Rightarrow> bytes"
  ed_verify :: "bytes \<Rightarrow> bytes \<Rightarrow> bytes \<Rightarrow> bool"
  mac :: "bytes \<Rightarrow> bytes \<Rightarrow> bytes"
  grant_text :: "federation_grant \<Rightarrow> bytes"
  request_text :: "federation_request \<Rightarrow> bytes"

definition acl_message :: "signer \<Rightarrow> federation_grant \<Rightarrow> bytes" where
  "acl_message sg grant = bytes_of (FederationProtocol @ ''/acl|'') @ grant_text sg grant"

definition SignFederationGrant :: "signer \<Rightarrow> federation_grant \<Rightarrow> bytes \<Rightarrow> signed_grant" where
  "SignFederationGrant sg grant key =
     \<lparr>sg_Grant = grant, sg_OwnerPublicKey = b64_encode (ed_public sg key),
      sg_Signature = b64_encode (ed_sign sg key (acl_message sg grant))\<rparr>"

definition VerifyFederationGrant :: "signer \<Rightarrow> signed_grant \<Rightarrow> (grant_error, unit) res" where
  "VerifyFederationGrant sg s =
     (case b64_decode (sg_OwnerPublicKey s) of
        None \<Rightarrow> Inl BadOwnerKey
      | Some key \<Rightarrow>
          if length key \<noteq> 32 then Inl BadOwnerKey
          else case b64_decode (sg_Signature s) of
            None \<Rightarrow> Inl BadGrantSignature
          | Some sig \<Rightarrow>
              if length sig \<noteq> 64 then Inl BadGrantSignature
              else if \<not> ed_verify sg key (acl_message sg (sg_Grant s)) sig then Inl GrantSignatureFailed
              else Inr ())"

definition FederationProof ::
  "crypto \<Rightarrow> signer \<Rightarrow> string \<Rightarrow> string \<Rightarrow> federation_request \<Rightarrow> (grant_error, string) res" where
  "FederationProof cr sg private peerPublic request =
     (case (decodeKey private, decodeKey peerPublic) of
        (Inr k, Inr p) \<Rightarrow>
          (case x25519_ecdh cr k p of
             None \<Rightarrow> Inl ProofSetup
           | Some secret \<Rightarrow>
               (case hkdf_key cr secret [] (FederationProtocol @ ''/consumer-proof|'' @ fr_ConsumerPublicKey request @
                   ''|'' @ fr_AgentPublicKey request) of
                  None \<Rightarrow> Inl ProofSetup
                | Some key \<Rightarrow> Inr (b64_encode (mac sg key (request_text sg (request\<lparr>fr_Proof := []\<rparr>))))))
      | _ \<Rightarrow> Inl ProofSetup)"

definition VerifyFederationProof ::
  "crypto \<Rightarrow> signer \<Rightarrow> string \<Rightarrow> federation_request \<Rightarrow> (grant_error, unit) res" where
  "VerifyFederationProof cr sg private request =
     bind_res (FederationProof cr sg private (fr_ConsumerPublicKey request) request) (\<lambda>expected.
     if expected \<noteq> fr_Proof request then Inl ConsumerAuthFailed else Inr ())"

section \<open>Lemmas\<close>

lemma canonical_no_newline:
  assumes "canonicalDirectKey s"
  shows "newline \<notin> set s"
proof -
  obtain b where b: "b64_encode b = s" using assms by (auto simp: canonicalDirectKey_def split: option.splits)
  show ?thesis
  proof
    assume "newline \<in> set s"
    then obtain d where "d \<in> set (b64_sextets b)" "newline = b64_char d"
      using b by (auto simp: b64_encode_sextets)
    then show False using b64_sextets_less b64_char_printable(1) by metis
  qed
qed

lemma itoa_no_newline: "newline \<notin> set (itoa n)"
proof -
  have no: "\<not> is_digit newline" "newline \<noteq> CHR ''-''" by (simp_all add: is_digit_def newline_def char_of_def)
  have "newline \<notin> set (nat_digits k)" for k using no(1) nat_digits_set by blast
  then show ?thesis using no(2) by (simp add: itoa_def)
qed

lemma itoa_inject:
  assumes "0 < m" "0 < n"
  shows "itoa m = itoa n \<longleftrightarrow> m = n"
proof
  assume "itoa m = itoa n"
  then have "parse_nat (nat_digits (nat m)) = parse_nat (nat_digits (nat n))" using assms by (simp add: itoa_def)
  then show "m = n" using assms by (simp add: parse_nat_digits)
qed simp

lemma split_on_first: "c \<notin> set w \<Longrightarrow> split_on c (w @ c # s) = w # split_on c s"
  by (induction w) auto

lemma split_join:
  "ws \<noteq> [] \<Longrightarrow> (\<And>w. w \<in> set ws \<Longrightarrow> c \<notin> set w) \<Longrightarrow> split_on c (join_with c ws) = ws"
proof (induction c ws rule: join_with.induct)
  case (3 c w v vs)
  then show ?case using split_on_first [of c w "join_with c (v # vs)"] by simp
qed (simp_all add: split_on_plain)

definition hello_fields :: "direct_hello \<Rightarrow> string list" where
  "hello_fields h = [dh_Protocol h, dh_Nonce h, dh_PublicKey h, dh_ServerID h, dh_MasterPublicKey h, itoa (dh_Timestamp h)]"

lemma directHelloMessage_Inr:
  assumes "directHelloMessage h = Inr m"
  shows "m = bytes_of (join_with newline (hello_fields h))" "\<forall>w \<in> set (hello_fields h). newline \<notin> set w"
    "0 < dh_Timestamp h" "canonicalDirectKey (dh_Nonce h)"
proof -
  have ok: "dh_Protocol h = DirectHelloProtocol" "canonicalDirectKey (dh_Nonce h)" "canonicalDirectKey (dh_PublicKey h)"
    "canonicalDirectKey (dh_MasterPublicKey h)" "\<not> contains_any (dh_ServerID h) [carriage_return, newline]" "0 < dh_Timestamp h"
    and m: "m = bytes_of (join_with newline (hello_fields h))"
    using assms by (auto simp: directHelloMessage_def ValidDirectNonce_def hello_fields_def split: if_splits)
  have "newline \<notin> set DirectHelloProtocol" by (simp add: DirectHelloProtocol_def newline_def char_of_def)
  then show "\<forall>w \<in> set (hello_fields h). newline \<notin> set w"
    using ok canonical_no_newline itoa_no_newline by (auto simp: hello_fields_def contains_any_iff)
  show "m = bytes_of (join_with newline (hello_fields h))" "0 < dh_Timestamp h" "canonicalDirectKey (dh_Nonce h)"
    using m ok by simp_all
qed

lemma hello_message_inject:
  assumes "directHelloMessage h = Inr m" and "directHelloMessage h' = Inr m"
  shows "h'\<lparr>dh_Proof := dh_Proof h\<rparr> = h"
proof -
  note a = directHelloMessage_Inr [OF assms(1)] and b = directHelloMessage_Inr [OF assms(2)]
  have ne: "hello_fields k \<noteq> []" for k by (simp add: hello_fields_def)
  then have "split_on newline (join_with newline (hello_fields h)) = hello_fields h"
    "split_on newline (join_with newline (hello_fields h')) = hello_fields h'"
    using a(2) b(2) ne by (simp_all add: split_join)
  moreover have "join_with newline (hello_fields h) = join_with newline (hello_fields h')"
    using a(1) b(1) by simp
  ultimately have f: "hello_fields h = hello_fields h'" by metis
  then have "itoa (dh_Timestamp h) = itoa (dh_Timestamp h')" by (simp add: hello_fields_def)
  then have "dh_Timestamp h = dh_Timestamp h'" using itoa_inject [OF a(3) b(3)] by simp
  moreover have "dh_Protocol h = dh_Protocol h'" "dh_Nonce h = dh_Nonce h'" "dh_PublicKey h = dh_PublicKey h'"
    "dh_ServerID h = dh_ServerID h'" "dh_MasterPublicKey h = dh_MasterPublicKey h'"
    using f by (simp_all add: hello_fields_def)
  ultimately show ?thesis
    by (cases h, cases h') simp
qed

lemma hello_message_proof: "directHelloMessage (h\<lparr>dh_Proof := p\<rparr>) = directHelloMessage h"
  by (simp add: directHelloMessage_def)

lemma canonical_encode: "length b = 32 \<Longrightarrow> canonicalDirectKey (b64_encode b)"
  by (simp add: canonicalDirectKey_def b64_decode_encode)

lemma VerifyDirectHello_Inr:
  assumes "VerifyDirectHello hmac token h = Inr ()"
  shows "\<exists>m. directHelloMessage h = Inr m \<and> dh_Proof h = b64_encode (hmac (bytes_of token) m)"
proof -
  obtain m where m: "directHelloMessage h = Inr m" "canonicalDirectKey (dh_Proof h)"
    "b64_decode (dh_Proof h) = b64_decode (b64_encode (hmac (bytes_of token) m))"
  proof (cases "directHelloMessage h")
    case (Inl e)
    then show thesis using assms by (simp add: VerifyDirectHello_def SignDirectHello_def split: if_splits)
  next
    case (Inr m)
    then show thesis
      using assms that [of m] by (simp add: VerifyDirectHello_def SignDirectHello_def guard_res_def split: if_splits)
  qed
  obtain b where b: "b64_decode (dh_Proof h) = Some b" "b64_encode b = dh_Proof h"
    using m(2) by (auto simp: canonicalDirectKey_def split: option.splits)
  have "b = hmac (bytes_of token) m" using m(3) b(1) by (simp add: b64_decode_encode)
  then show ?thesis using m(1) b(2) by metis
qed

text \<open>A direct hello signed with the Agent's token verifies under this token, and the proof binds every
  field: two hellos that verify with the same proof are equal, or HMAC has a collision on their two
  messages; so nonce, keys, server and time cannot be exchanged or shifted between fields.\<close>
theorem direct_hello_binds_fields:
  assumes "\<And>m. length (hmac (bytes_of token) m) = 32"
  shows "(SignDirectHello hmac token h = Inr s \<longrightarrow> VerifyDirectHello hmac token s = Inr ()) \<and>
    (VerifyDirectHello hmac token a = Inr () \<and> VerifyDirectHello hmac token b = Inr () \<and> dh_Proof a = dh_Proof b \<longrightarrow>
       a = b \<or> (\<exists>m n. m \<noteq> n \<and> directHelloMessage a = Inr m \<and> directHelloMessage b = Inr n \<and>
         hmac (bytes_of token) m = hmac (bytes_of token) n))"
proof (intro conjI impI)
  assume "SignDirectHello hmac token h = Inr s"
  then obtain m where m: "directHelloMessage h = Inr m" "token \<noteq> []" "s = h\<lparr>dh_Proof := b64_encode (hmac (bytes_of token) m)\<rparr>"
    by (auto simp: SignDirectHello_def bind_res_Inr)
  then have "directHelloMessage s = Inr m" by (simp add: hello_message_proof)
  then show "VerifyDirectHello hmac token s = Inr ()"
    using m(2,3) canonical_encode [OF assms] by (simp add: VerifyDirectHello_def SignDirectHello_def)
next
  assume v: "VerifyDirectHello hmac token a = Inr () \<and> VerifyDirectHello hmac token b = Inr () \<and> dh_Proof a = dh_Proof b"
  then obtain m n where m: "directHelloMessage a = Inr m" "dh_Proof a = b64_encode (hmac (bytes_of token) m)"
    and n: "directHelloMessage b = Inr n" "dh_Proof b = b64_encode (hmac (bytes_of token) n)"
    using VerifyDirectHello_Inr by metis
  then have eq: "hmac (bytes_of token) m = hmac (bytes_of token) n"
    using v by (metis b64_decode_encode option.inject)
  show "a = b \<or> (\<exists>m n. m \<noteq> n \<and> directHelloMessage a = Inr m \<and> directHelloMessage b = Inr n \<and>
         hmac (bytes_of token) m = hmac (bytes_of token) n)"
  proof (cases "m = n")
    case True
    then have "b\<lparr>dh_Proof := dh_Proof a\<rparr> = a" using hello_message_inject [OF m(1)] n(1) by simp
    then show ?thesis using v by simp
  next
    case False
    then show ?thesis using m(1) n(1) eq by blast
  qed
qed

definition mac_sample :: "bytes \<Rightarrow> bytes \<Rightarrow> bytes" where
  "mac_sample key m = take 32 (rev m @ replicate 32 0)"

definition hello_sample :: direct_hello where
  "hello_sample = \<lparr>dh_Protocol = DirectHelloProtocol, dh_Nonce = b64_encode (replicate 32 1), dh_PublicKey = b64_encode (replicate 32 2),
     dh_ServerID = ''s1'', dh_MasterPublicKey = b64_encode (replicate 32 3), dh_Timestamp = 17, dh_Proof = []\<rparr>"

lemma mac_sample_length: "length (mac_sample key m) = 32"
  by (simp add: mac_sample_def)

theorem direct_hello_binds_fields_witness:
  "\<exists>s. SignDirectHello mac_sample ''secret'' hello_sample = Inr s \<and> VerifyDirectHello mac_sample ''secret'' s = Inr ()"
proof -
  have "\<not> contains_any ''s1'' [carriage_return, newline]" by code_simp
  then obtain s where "SignDirectHello mac_sample ''secret'' hello_sample = Inr s"
    by (simp add: SignDirectHello_def directHelloMessage_def hello_sample_def ValidDirectNonce_def canonical_encode)
  then show ?thesis
    using direct_hello_binds_fields [where hmac = mac_sample and token = "''secret''"] mac_sample_length by blast
qed

text \<open>A federation request that a consumer proves with its own private key and the Agent's public key is
  accepted by the Agent, given that Diffie-Hellman agrees; and a grant signed by an owner key
  verifies.\<close>
theorem federation_proofs_verify:
  assumes "decodeKey consumer = Inr kc" and "decodeKey agent = Inr ka"
    and "\<And>k. length (x25519_public cr k) = 32"
    and "x25519_ecdh cr ka (x25519_public cr kc) = x25519_ecdh cr kc (x25519_public cr ka)"
    and "fr_ConsumerPublicKey request = b64_encode (x25519_public cr kc)"
    and "FederationProof cr sg consumer (b64_encode (x25519_public cr ka)) request = Inr evidence"
    and "\<And>key m. length (ed_public sg key) = 32 \<and> length (ed_sign sg key m) = 64 \<and> ed_verify sg (ed_public sg key) m (ed_sign sg key m)"
  shows "VerifyFederationProof cr sg agent (request\<lparr>fr_Proof := evidence\<rparr>) = Inr () \<and>
    VerifyFederationGrant sg (SignFederationGrant sg grant owner) = Inr ()"
proof -
  have pub: "decodeKey (b64_encode (x25519_public cr k)) = Inr (x25519_public cr k)" for k
    by (simp add: decodeKey_def b64_decode_encode assms(3))
  have "FederationProof cr sg agent (b64_encode (x25519_public cr kc)) (request\<lparr>fr_Proof := evidence\<rparr>) = Inr evidence"
    using assms(1,2,4,6) pub
    by (cases "x25519_ecdh cr kc (x25519_public cr ka)") (simp_all add: FederationProof_def split: option.splits)
  moreover have "fr_Proof (request\<lparr>fr_Proof := evidence\<rparr>) = evidence" by simp
  ultimately show ?thesis
    using assms(5,7) by (simp add: VerifyFederationProof_def VerifyFederationGrant_def SignFederationGrant_def b64_decode_encode)
qed

definition signer_sample :: signer where
  "signer_sample = \<lparr>ed_public = (\<lambda>k. take 32 (k @ replicate 32 0)), ed_sign = (\<lambda>k m. replicate 64 7),
     ed_verify = (\<lambda>k m s. s = replicate 64 7), mac = mac_sample, grant_text = (\<lambda>g. bytes_of (fg_ID g)),
     request_text = (\<lambda>r. bytes_of (fr_ShareID r))\<rparr>"

definition request_blank :: federation_request where
  "request_blank = \<lparr>fr_GrantRevision = 1, fr_Protocol = FederationProtocol, fr_ShareID = ''share'', fr_Namespace = ''team'',
     fr_AgentPublicKey = [], fr_ConsumerPublicKey = b64_encode (sample_pub (replicate 32 1)), fr_EphemeralPublicKey = [],
     fr_IssuedAt = 0, fr_Command = \<lparr>cmd_ID = [], cmd_Action = [], cmd_Params = []\<rparr>, fr_Proof = []\<rparr>"

theorem federation_proofs_verify_witness:
  "\<exists>p. VerifyFederationProof sample_crypto signer_sample sample_key (request_blank\<lparr>fr_Proof := p\<rparr>) = Inr ()"
proof -
  have key: "decodeKey sample_key = Inr (replicate 32 1)"
    by (simp add: decodeKey_def sample_key_def b64_decode_encode)
  have "decodeKey (b64_encode (sample_pub (replicate 32 1))) = Inr (sample_pub (replicate 32 1))"
    by (simp add: decodeKey_def b64_decode_encode length_sample_pub)
  then obtain p where p: "FederationProof sample_crypto signer_sample sample_key
      (b64_encode (x25519_public sample_crypto (replicate 32 1))) request_blank = Inr p"
    using key by (simp add: FederationProof_def sample_crypto_def)
  have "VerifyFederationProof sample_crypto signer_sample sample_key (request_blank\<lparr>fr_Proof := p\<rparr>) = Inr () \<and>
      VerifyFederationGrant signer_sample (SignFederationGrant signer_sample undefined []) = Inr ()"
    by (rule federation_proofs_verify [OF key key _ _ _ p])
      (simp_all add: sample_crypto_def length_sample_pub request_blank_def signer_sample_def)
  then show ?thesis by blast
qed

end
