(* ===== verification/Agent_Config.thy ===== *)
theory Agent_Config
  imports Json_Model
begin

text \<open>
  The configuration of the Agent (internal/config): decoding with defaults, validation, the two
  edits the Controller may cause (new credentials, new connection settings) and pairing of a home
  node. The file is replaced by a rename; every file operation may fail, as told by a list of
  faults. The URL parser, the working directory and the pairing server are parameters. Numbers keep
  their text through an edit; the code passes them through a float64, which is the same below 2^53.
\<close>

section \<open>The configuration\<close>

record agent_config =
  ConfigPath :: string
  Role :: string
  ServerID :: string
  MasterURL :: string
  Token :: string
  AgentToken :: string
  PreviousAgentToken :: string
  PreviousTokenExpires :: int
  MasterPublicKey :: string
  ConnectionMode :: string
  ListenAddress :: string
  XrayMode :: string
  DataDir :: string
  XrayConfig :: string
  NginxBinary :: string
  NginxConfig :: string
  WireGuardQuickBinary :: string
  WireGuardBinary :: string
  IPBinary :: string
  MihomoBinary :: string
  MihomoVersion :: string
  MihomoSHA256 :: string
  ObservationInterval :: int

datatype config_error = NoPath | ConfigNotRegular | ConfigReadFailed | NotJson | NilMap | ConfigWriteFailed | NoWorkingDir
  | NotEmbedded | BadMode | BadListenAddress | NoAgentToken | BadDataDir | BadMasterURL | MissingIdentity
  | BadMasterKey | BadPairURL | NeedsHTTPS | BadPairCode | PairFailed | PairRejected | BadPairResponse
  | OriginChanged

text \<open>\<open>json.Unmarshal\<close> into the struct: a missing or null field keeps its zero value, a field of
  another type is an error. Keys are in the spelling of the tags.\<close>

definition string_keys :: "string list" where
  "string_keys = [''role'', ''server_id'', ''master_url'', ''token'', ''agent_token'', ''previous_agent_token'',
     ''master_public_key'', ''connection_mode'', ''listen_address'', ''xray_mode'', ''data_dir'', ''xray_config'',
     ''nginx_binary'', ''nginx_config'', ''wg_quick_binary'', ''wg_binary'', ''ip_binary'', ''mihomo_binary'',
     ''mihomo_version'', ''mihomo_sha256'']"

definition string_field_ok :: "jmap \<Rightarrow> string \<Rightarrow> bool" where
  "string_field_ok kvs k = (case get_any kvs k of JNull \<Rightarrow> True | JStr s \<Rightarrow> True | _ \<Rightarrow> False)"

definition int_field :: "jmap \<Rightarrow> string \<Rightarrow> int option" where
  "int_field kvs k = (case get_any kvs k of JNull \<Rightarrow> Some 0
     | JNum n \<Rightarrow> (case Atoi n of (i, parsed) \<Rightarrow> if parsed then Some i else None) | _ \<Rightarrow> None)"

definition fields_config :: "jmap \<Rightarrow> int \<Rightarrow> int \<Rightarrow> agent_config" where
  "fields_config kvs expires interval =
     \<lparr>ConfigPath = [], Role = get_string kvs ''role'', ServerID = get_string kvs ''server_id'',
      MasterURL = get_string kvs ''master_url'', Token = get_string kvs ''token'',
      AgentToken = get_string kvs ''agent_token'', PreviousAgentToken = get_string kvs ''previous_agent_token'',
      PreviousTokenExpires = expires, MasterPublicKey = get_string kvs ''master_public_key'',
      ConnectionMode = get_string kvs ''connection_mode'', ListenAddress = get_string kvs ''listen_address'',
      XrayMode = get_string kvs ''xray_mode'', DataDir = get_string kvs ''data_dir'',
      XrayConfig = get_string kvs ''xray_config'', NginxBinary = get_string kvs ''nginx_binary'',
      NginxConfig = get_string kvs ''nginx_config'', WireGuardQuickBinary = get_string kvs ''wg_quick_binary'',
      WireGuardBinary = get_string kvs ''wg_binary'', IPBinary = get_string kvs ''ip_binary'',
      MihomoBinary = get_string kvs ''mihomo_binary'', MihomoVersion = get_string kvs ''mihomo_version'',
      MihomoSHA256 = get_string kvs ''mihomo_sha256'', ObservationInterval = interval\<rparr>"

definition decode_config :: "json \<Rightarrow> (config_error, agent_config) res" where
  "decode_config v =
     (case v of
        JNull \<Rightarrow> Inr (fields_config [] 0 0)
      | JObj kvs \<Rightarrow>
          if \<not> list_all (string_field_ok kvs) string_keys then Inl NotJson
          else (case (int_field kvs ''previous_token_expires_at'', int_field kvs ''observation_interval'') of
             (Some expires, Some interval) \<Rightarrow> Inr (fields_config kvs expires interval)
           | _ \<Rightarrow> Inl NotJson)
      | _ \<Rightarrow> Inl NotJson)"

datatype config_file = NoFile | Unreadable | Irregular | Garbage | Content json

definition read_config :: "config_file \<Rightarrow> (config_error, json) res" where
  "read_config f = (case f of Content v \<Rightarrow> Inr v | Garbage \<Rightarrow> Inl NotJson | _ \<Rightarrow> Inl ConfigReadFailed)"

definition or_else :: "string \<Rightarrow> string \<Rightarrow> string" where
  "or_else s d = (if s = [] then d else s)"

definition config_defaults :: "string option \<Rightarrow> string \<Rightarrow> agent_config \<Rightarrow> (config_error, agent_config) res" where
  "config_defaults wd path c =
     bind_res (of_option NoWorkingDir (abs_path wd path)) (\<lambda>config_path.
     bind_res (of_option NoWorkingDir (abs_path wd (or_else (DataDir c) (join_path [dir_path path, ''data''])))) (\<lambda>data_dir.
     Inr (c\<lparr>ConfigPath := config_path, ConnectionMode := or_else (ConnectionMode c) ''websocket'',
       ListenAddress := or_else (ListenAddress c) ''0.0.0.0:23889'', XrayMode := or_else (XrayMode c) ''embedded'',
       DataDir := data_dir, XrayConfig := or_else (XrayConfig c) (join_path [data_dir, ''xray'', ''config.json'']),
       NginxBinary := or_else (NginxBinary c) ''nginx'',
       WireGuardQuickBinary := or_else (WireGuardQuickBinary c) ''wg-quick'',
       WireGuardBinary := or_else (WireGuardBinary c) ''wg'', IPBinary := or_else (IPBinary c) ''ip''\<rparr>)))"

definition Load :: "string option \<Rightarrow> string \<Rightarrow> config_file \<Rightarrow> (config_error, agent_config) res" where
  "Load wd path f = bind_res (bind_res (read_config f) decode_config) (config_defaults wd path)"

definition ValidConnectionMode :: "string \<Rightarrow> bool" where
  "ValidConnectionMode mode = (mode = ''auto'' \<or> mode = ''websocket'' \<or> mode = ''http'' \<or> mode = ''pull'')"

text \<open>The three base64 decoders are tried in turn.\<close>

definition master_key_bytes :: "string \<Rightarrow> bytes option" where
  "master_key_bytes s = (case std_decode s of Some k \<Rightarrow> Some k
     | None \<Rightarrow> (case raw_std_decode s of Some k \<Rightarrow> Some k | None \<Rightarrow> b64_decode s))"

definition Validate ::
  "(string \<Rightarrow> parsed_url option) \<Rightarrow> agent_config \<Rightarrow> bool \<Rightarrow> (config_error, unit) res" where
  "Validate parse_url c standalone =
     guard_res (XrayMode c \<noteq> ''embedded'') NotEmbedded
     (guard_res (\<not> ValidConnectionMode (ConnectionMode c)) BadMode
     (bind_res
       (if ConnectionMode c = ''http'' \<or> ConnectionMode c = ''auto'' then
          (if SplitHostPort (ListenAddress c) = None then Inl BadListenAddress
           else if AgentToken c = [] \<and> \<not> standalone then Inl NoAgentToken else Inr ())
        else Inr ()) (\<lambda>_.
     guard_res (DataDir c = [] \<or> \<not> is_abs (DataDir c)) BadDataDir
     (if standalone then Inr ()
      else case parse_url (MasterURL c) of
        None \<Rightarrow> Inl BadMasterURL
      | Some u \<Rightarrow>
          if u_host u = [] \<or> (u_scheme u \<noteq> ''https'' \<and> u_scheme u \<noteq> ''http'') then Inl BadMasterURL
          else if u_user u \<noteq> None \<or> u_query u \<noteq> [] \<or> u_fragment u \<noteq> [] then Inl BadMasterURL
          else if ServerID c = [] \<or> Token c = [] then Inl MissingIdentity
          else case master_key_bytes (MasterPublicKey c) of
            None \<Rightarrow> Inl BadMasterKey
          | Some k \<Rightarrow> if length k \<noteq> 32 then Inl BadMasterKey else Inr ()))))"

section \<open>Changing the file\<close>

record config_world =
  config_file :: config_file
  cfg_faults :: "bool list"

definition next_fault :: "config_world \<Rightarrow> bool \<times> config_world" where
  "next_fault w = (case cfg_faults w of [] \<Rightarrow> (False, w) | f # fs \<Rightarrow> (f, w\<lparr>cfg_faults := fs\<rparr>))"

text \<open>The temporary file is created, filled and renamed; until the rename the old file stays.\<close>

definition writeConfig :: "string \<Rightarrow> jmap \<Rightarrow> config_world \<Rightarrow> (config_error, unit) res \<times> config_world" where
  "writeConfig path kvs w =
     (if path = [] then (Inl NoPath, w)
      else if config_file w = Irregular then (Inl ConfigNotRegular, w)
      else case next_fault w of (create_failed, w1) \<Rightarrow>
        if create_failed then (Inl ConfigWriteFailed, w1)
        else case next_fault w1 of (write_failed, w2) \<Rightarrow>
          if write_failed then (Inl ConfigWriteFailed, w2)
          else case next_fault w2 of (rename_failed, w3) \<Rightarrow>
            if rename_failed then (Inl ConfigWriteFailed, w3)
            else (Inr (), w3\<lparr>config_file := Content (JObj kvs)\<rparr>))"

text \<open>An edit reads the file as a map; the text \<open>null\<close> decodes to a nil map, whose update panics.\<close>

definition edit_config ::
  "string \<Rightarrow> (jmap \<Rightarrow> jmap) \<Rightarrow> config_world \<Rightarrow> (config_error, unit) res \<times> config_world" where
  "edit_config path f w =
     (case read_config (config_file w) of
        Inl e \<Rightarrow> (Inl e, w)
      | Inr JNull \<Rightarrow> (Inl NilMap, w)
      | Inr (JObj kvs) \<Rightarrow> writeConfig path (f kvs) w
      | Inr _ \<Rightarrow> (Inl NotJson, w))"

definition RotateCredentials ::
  "string \<Rightarrow> string \<Rightarrow> string \<Rightarrow> string \<Rightarrow> int \<Rightarrow> config_world \<Rightarrow> (config_error, unit) res \<times> config_world" where
  "RotateCredentials path token agentToken previous expires =
     edit_config path (\<lambda>kvs. put_key ''previous_token_expires_at'' (JNum (itoa expires))
       (put_key ''previous_agent_token'' (JStr previous)
         (put_key ''agent_token'' (JStr agentToken) (put_key ''token'' (JStr token) kvs))))"

definition SaveConnection ::
  "string \<Rightarrow> string \<Rightarrow> string \<Rightarrow> config_world \<Rightarrow> (config_error, unit) res \<times> config_world" where
  "SaveConnection path mode listen =
     edit_config path (\<lambda>kvs. put_key ''listen_address'' (JStr listen) (put_key ''connection_mode'' (JStr mode) kvs))"

section \<open>Pairing\<close>

record pair_reply =
  pr_status :: nat
  pr_size :: nat
  pr_body :: "json option"

definition same_origin :: "parsed_url \<Rightarrow> parsed_url \<Rightarrow> bool" where
  "same_origin u m = (u_scheme m = u_scheme u \<and> equal_fold (u_host m) (u_host u) \<and>
     trim_char CHR ''/'' (u_path m) = [] \<and> u_user m = None \<and> u_query m = [] \<and> u_fragment m = [])"

definition identity_keys :: "string list" where
  "identity_keys = [''server_id'', ''token'', ''agent_token'', ''master_public_key'', ''master_url'']"

fun copy_identity :: "jmap \<Rightarrow> string list \<Rightarrow> jmap \<Rightarrow> (config_error, jmap) res" where
  "copy_identity cfg [] kvs = Inr kvs"
| "copy_identity cfg (k # ks) kvs =
     (case get_any cfg k of
        JStr v \<Rightarrow> if v = [] then Inl MissingIdentity else copy_identity cfg ks (put_key k (JStr v) kvs)
      | _ \<Rightarrow> Inl MissingIdentity)"

definition home_fields :: "jmap \<Rightarrow> jmap" where
  "home_fields kvs = AList.delete ''previous_token_expires_at'' (AList.delete ''previous_agent_token''
     (put_key ''xray_mode'' (JStr ''embedded'') (put_key ''connection_mode'' (JStr ''websocket'')
       (put_key ''source_mode'' (JStr ''home'') (put_key ''role'' (JStr ''speedtest'') kvs)))))"

definition with_data_dir :: "string option \<Rightarrow> string \<Rightarrow> jmap \<Rightarrow> (config_error, jmap) res" where
  "with_data_dir wd path kvs =
     (if get_any kvs ''data_dir'' \<noteq> JNull then Inr kvs
      else bind_res (of_option NoWorkingDir (abs_path wd (join_path [dir_path path, ''home-data''])))
        (\<lambda>d. Inr (put_key ''data_dir'' (JStr d) kvs)))"

definition pair_origin :: "(string \<Rightarrow> parsed_url option) \<Rightarrow> string \<Rightarrow> (config_error, parsed_url) res" where
  "pair_origin parse_url origin =
     (case parse_url origin of
        None \<Rightarrow> Inl BadPairURL
      | Some u \<Rightarrow>
          if u_host u = [] \<or> u_user u \<noteq> None \<or> u_query u \<noteq> [] \<or> u_fragment u \<noteq> [] \<or> trim_char CHR ''/'' (u_path u) \<noteq> []
          then Inl BadPairURL
          else if u_scheme u \<noteq> ''https'' \<and> (u_scheme u \<noteq> ''http'' \<or> \<not> u_loopback u) then Inl NeedsHTTPS
          else Inr u)"

definition pair_config :: "pair_reply option \<Rightarrow> (config_error, jmap) res" where
  "pair_config reply =
     (case reply of
        None \<Rightarrow> Inl PairFailed
      | Some r \<Rightarrow>
          if pr_status r \<noteq> 200 then Inl PairRejected
          else if pr_size r > 65536 then Inl BadPairResponse
          else case pr_body r of
            Some (JObj kvs) \<Rightarrow> (case get_any kvs ''config'' of JObj cfg \<Rightarrow> Inr cfg | _ \<Rightarrow> Inl BadPairResponse)
          | _ \<Rightarrow> Inl BadPairResponse)"

text \<open>The existing configuration as a map; \<open>Inr None\<close> is a nil map.\<close>

definition local_config :: "config_file \<Rightarrow> (config_error, jmap option) res" where
  "local_config f =
     (case f of
        NoFile \<Rightarrow> Inr (Some [])
      | _ \<Rightarrow> (case read_config f of
          Inl e \<Rightarrow> Inl e
        | Inr (JObj kvs) \<Rightarrow> Inr (Some kvs)
        | Inr JNull \<Rightarrow> Inr None
        | Inr _ \<Rightarrow> Inl NotJson))"

definition PairHome ::
  "(string \<Rightarrow> parsed_url option) \<Rightarrow> string option \<Rightarrow> (string \<Rightarrow> string \<Rightarrow> pair_reply option) \<Rightarrow> string \<Rightarrow> string \<Rightarrow> string \<Rightarrow>
     config_world \<Rightarrow> (config_error, unit) res \<times> config_world" where
  "PairHome parse_url wd post origin code path w =
     (case
        bind_res (pair_origin parse_url origin) (\<lambda>u.
        guard_res (trim_space code = [] \<or> length code > 256 \<or> contains_any code [carriage_return, newline, tab]) BadPairCode
        (bind_res (local_config (config_file w)) (\<lambda>local.
        bind_res (pair_config (post (trim_right CHR ''/'' origin @ ''/api/home/pair'') code)) (\<lambda>cfg.
        bind_res (case parse_url (get_string cfg ''master_url'') of
            None \<Rightarrow> Inl OriginChanged | Some m \<Rightarrow> if same_origin u m then Inr () else Inl OriginChanged) (\<lambda>_.
        bind_res (of_option NilMap local) (\<lambda>kvs.
        bind_res (copy_identity cfg identity_keys kvs) (\<lambda>kvs.
        bind_res (with_data_dir wd path (home_fields kvs)) (\<lambda>kvs.
        bind_res (decode_config (JObj kvs)) (\<lambda>c.
        bind_res (of_option NoWorkingDir (abs_path wd (DataDir c))) (\<lambda>d.
        bind_res (Validate parse_url (c\<lparr>DataDir := d\<rparr>) False) (\<lambda>_. Inr kvs))))))))))) of
        Inl e \<Rightarrow> (Inl e, w)
      | Inr kvs \<Rightarrow> writeConfig path kvs w)"

section \<open>Lemmas\<close>

lemma get_any_put_key: "get_any (put_key k v kvs) k' = (if k' = k then v else get_any kvs k')"
  by (simp add: get_any_def map_of_put_key)

lemma get_string_any: "get_string kvs k = (case get_any kvs k of JStr s \<Rightarrow> s | _ \<Rightarrow> [])"
  by (auto simp: get_string_def get_any_def split: option.splits json.splits)

lemma get_string_put_key:
  "sorted_keys kvs \<Longrightarrow> get_string (put_key k (JStr v) kvs) k' = (if k' = k then v else get_string kvs k')"
  by (simp add: get_string_any get_any_put_key)

lemma string_field_put_key:
  "sorted_keys kvs \<Longrightarrow> string_field_ok (put_key k (JStr v) kvs) k' = (k' = k \<or> string_field_ok kvs k')"
  by (simp add: string_field_ok_def get_any_put_key)

lemma int_field_put_key: "sorted_keys kvs \<Longrightarrow> k' \<noteq> k \<Longrightarrow> int_field (put_key k v kvs) k' = int_field kvs k'"
  by (simp add: int_field_def get_any_put_key)

lemma writeConfig_file:
  assumes "writeConfig path kvs w = (r, w')"
  shows "if r = Inr () then config_file w' = Content (JObj kvs) else config_file w' = config_file w"
  using assms
  by (auto simp: writeConfig_def next_fault_def split: if_splits list.splits)

lemma edit_config_file:
  assumes "edit_config path f w = (r, w')"
  shows "if r = Inr () then \<exists>kvs. config_file w = Content (JObj kvs) \<and> config_file w' = Content (JObj (f kvs))
    else config_file w' = config_file w"
proof (cases "\<exists>kvs. config_file w = Content (JObj kvs)")
  case True
  then obtain kvs where k: "config_file w = Content (JObj kvs)" by blast
  then have "writeConfig path (f kvs) w = (r, w')" using assms by (simp add: edit_config_def read_config_def)
  from writeConfig_file [OF this] show ?thesis using k by simp
next
  case False
  then have "r \<noteq> Inr () \<and> w' = w"
    using assms by (auto simp: edit_config_def read_config_def split: config_file.splits json.splits)
  then show ?thesis by simp
qed

text \<open>The fields a decoded configuration has when the object decodes.\<close>

lemma decode_object:
  "decode_config (JObj kvs) = Inr c \<longleftrightarrow> list_all (string_field_ok kvs) string_keys \<and>
     (\<exists>expires interval. int_field kvs ''previous_token_expires_at'' = Some expires \<and>
       int_field kvs ''observation_interval'' = Some interval \<and> c = fields_config kvs expires interval)"
  by (auto simp: decode_config_def split: option.splits if_splits)

lemma decode_put_string:
  assumes "sorted_keys kvs" and "decode_config (JObj kvs) = Inr c" and "k \<notin> {''previous_token_expires_at'', ''observation_interval''}"
  shows "decode_config (JObj (put_key k (JStr v) kvs)) = Inr (fields_config (put_key k (JStr v) kvs) (PreviousTokenExpires c) (ObservationInterval c))"
  using assms
  by (auto simp: decode_object list_all_iff string_field_put_key int_field_put_key fields_config_def)

lemma decode_rotated:
  assumes "sorted_keys kvs" and "decode_config (JObj kvs) = Inr c"
    and "- 9223372036854775808 \<le> expires" "expires \<le> 9223372036854775807"
  shows "decode_config (JObj (put_key ''previous_token_expires_at'' (JNum (itoa expires))
       (put_key ''previous_agent_token'' (JStr previous)
         (put_key ''agent_token'' (JStr agentToken) (put_key ''token'' (JStr token) kvs))))) =
    Inr (c\<lparr>Token := token, AgentToken := agentToken, PreviousAgentToken := previous, PreviousTokenExpires := expires\<rparr>)"
proof -
  let ?kvs = "put_key ''previous_agent_token'' (JStr previous)
         (put_key ''agent_token'' (JStr agentToken) (put_key ''token'' (JStr token) kvs))"
  have sorted: "sorted_keys ?kvs" by (intro sorted_put_key assms(1))
  have "\<forall>k \<in> set string_keys. string_field_ok kvs k" using assms(2) by (simp add: decode_object list_all_iff)
  then have "\<forall>k \<in> set string_keys. string_field_ok ?kvs k"
    by (simp add: string_field_put_key sorted_put_key assms(1))
  moreover have "''previous_token_expires_at'' \<notin> set string_keys" by (simp add: string_keys_def)
  ultimately have strings: "list_all (string_field_ok (put_key ''previous_token_expires_at'' (JNum (itoa expires)) ?kvs)) string_keys"
    unfolding list_all_iff string_field_ok_def using sorted by (auto simp: get_any_put_key)
  moreover have "int_field (put_key ''previous_token_expires_at'' (JNum (itoa expires)) ?kvs) ''previous_token_expires_at'' = Some expires"
    using Atoi_itoa [OF assms(3,4)] by (simp add: int_field_def get_any_put_key sorted)
  moreover have "int_field (put_key ''previous_token_expires_at'' (JNum (itoa expires)) ?kvs) ''observation_interval'' =
      int_field kvs ''observation_interval''"
    by (simp add: int_field_put_key sorted_put_key assms(1))
  ultimately show ?thesis
    using assms(2)
    by (auto simp: decode_object fields_config_def get_string_any get_any_put_key sorted_put_key assms(1))
qed

lemma decode_connection:
  assumes "sorted_keys kvs" and "decode_config (JObj kvs) = Inr c"
  shows "decode_config (JObj (put_key ''listen_address'' (JStr listen) (put_key ''connection_mode'' (JStr mode) kvs))) =
    Inr (c\<lparr>ConnectionMode := mode, ListenAddress := listen\<rparr>)"
  using assms
  by (auto simp: decode_object list_all_iff string_field_put_key int_field_put_key sorted_put_key fields_config_def
      get_string_put_key)

lemma Load_object:
  "Load wd path (Content v) = Inr c \<longleftrightarrow> (\<exists>d. decode_config v = Inr d \<and> config_defaults wd path d = Inr c)"
  by (simp add: Load_def read_config_def bind_res_Inr)

lemma defaults_rotated:
  "config_defaults wd path d = Inr c \<Longrightarrow> config_defaults wd path (d\<lparr>Token := t, AgentToken := a, PreviousAgentToken := p,
     PreviousTokenExpires := e\<rparr>) = Inr (c\<lparr>Token := t, AgentToken := a, PreviousAgentToken := p, PreviousTokenExpires := e\<rparr>)"
  by (cases d) (auto simp: config_defaults_def bind_res_Inr)

lemma defaults_connection:
  "config_defaults wd path d = Inr c \<Longrightarrow> mode \<noteq> [] \<Longrightarrow> listen \<noteq> [] \<Longrightarrow>
   config_defaults wd path (d\<lparr>ConnectionMode := mode, ListenAddress := listen\<rparr>) =
     Inr (c\<lparr>ConnectionMode := mode, ListenAddress := listen\<rparr>)"
  by (cases d) (auto simp: config_defaults_def bind_res_Inr or_else_def [of mode] or_else_def [of listen])

definition file_wf :: "config_file \<Rightarrow> bool" where
  "file_wf f = (case f of Content v \<Rightarrow> wf_json v | _ \<Rightarrow> True)"

lemma edit_reload:
  assumes "edit_config target f w = (r, w')"
    and "\<And>kvs. config_file w = Content (JObj kvs) \<Longrightarrow> sorted_keys kvs \<Longrightarrow> Load wd path (Content (JObj (f kvs))) = Inr c'"
    and "file_wf (config_file w)"
  shows "if r = Inr () then Load wd path (config_file w') = Inr c' else config_file w' = config_file w"
  using edit_config_file [OF assms(1)] assms(2,3) by (auto simp: file_wf_def)

lemma rotate_reload:
  assumes "RotateCredentials target token agentToken previous expires w = (r, w')" and "file_wf (config_file w)"
    and "Load wd path (config_file w) = Inr c" and "- 9223372036854775808 \<le> expires" "expires \<le> 9223372036854775807"
  shows "if r = Inr () then Load wd path (config_file w') = Inr (c\<lparr>Token := token, AgentToken := agentToken,
      PreviousAgentToken := previous, PreviousTokenExpires := expires\<rparr>) else config_file w' = config_file w"
proof (rule edit_reload [OF assms(1) [unfolded RotateCredentials_def] _ assms(2)])
  fix kvs assume obj: "config_file w = Content (JObj kvs)" and sorted: "sorted_keys kvs"
  then obtain d where d: "decode_config (JObj kvs) = Inr d" "config_defaults wd path d = Inr c"
    using assms(3) by (auto simp: Load_object)
  show "Load wd path (Content (JObj (put_key ''previous_token_expires_at'' (JNum (itoa expires))
       (put_key ''previous_agent_token'' (JStr previous)
         (put_key ''agent_token'' (JStr agentToken) (put_key ''token'' (JStr token) kvs)))))) = Inr (c\<lparr>Token := token,
        AgentToken := agentToken, PreviousAgentToken := previous, PreviousTokenExpires := expires\<rparr>)"
    using decode_rotated [OF sorted d(1) assms(4,5)] defaults_rotated [OF d(2)] by (simp add: Load_object)
qed

lemma connection_reload:
  assumes "SaveConnection target mode listen w = (r, w')" and "file_wf (config_file w)"
    and "Load wd path (config_file w) = Inr c" and "mode \<noteq> []" "listen \<noteq> []"
  shows "if r = Inr () then Load wd path (config_file w') = Inr (c\<lparr>ConnectionMode := mode, ListenAddress := listen\<rparr>)
    else config_file w' = config_file w"
proof (rule edit_reload [OF assms(1) [unfolded SaveConnection_def] _ assms(2)])
  fix kvs assume obj: "config_file w = Content (JObj kvs)" and sorted: "sorted_keys kvs"
  then obtain d where d: "decode_config (JObj kvs) = Inr d" "config_defaults wd path d = Inr c"
    using assms(3) by (auto simp: Load_object)
  show "Load wd path (Content (JObj (put_key ''listen_address'' (JStr listen) (put_key ''connection_mode'' (JStr mode) kvs)))) =
      Inr (c\<lparr>ConnectionMode := mode, ListenAddress := listen\<rparr>)"
    using decode_connection [OF sorted d(1)] defaults_connection [OF d(2) assms(4,5)] by (simp add: Load_object)
qed

lemma edit_keeps_wf:
  assumes "edit_config target f w = (r, w')" and "file_wf (config_file w)"
    and "\<And>kvs. wf_json (JObj kvs) \<Longrightarrow> wf_json (JObj (f kvs))"
  shows "file_wf (config_file w')"
  using edit_config_file [OF assms(1)] assms(2,3) by (cases "r = Inr ()") (auto simp: file_wf_def)

lemma wf_put_key: "wf_json (JObj kvs) \<Longrightarrow> wf_json v \<Longrightarrow> wf_json (JObj (put_key k v kvs))"
  using set_put_key [of k v kvs] by (auto simp: sorted_put_key list_all_iff)

lemma edits_keep_wf:
  assumes "file_wf (config_file w)"
  shows "RotateCredentials target token agentToken previous expires w = (r, w') \<Longrightarrow> file_wf (config_file w')"
    and "SaveConnection target mode listen w = (r, w') \<Longrightarrow> file_wf (config_file w')"
  unfolding RotateCredentials_def SaveConnection_def
  by (erule edit_keeps_wf [OF _ assms]; intro wf_put_key; simp)+

lemma copy_identity_spec:
  assumes "copy_identity cfg ks kvs = Inr out" and "sorted_keys kvs" and "distinct ks"
  shows "sorted_keys out \<and> (\<forall>k. get_any out k = (if k \<in> set ks then get_any cfg k else get_any kvs k)) \<and>
    (\<forall>k \<in> set ks. \<exists>v. get_any cfg k = JStr v \<and> v \<noteq> [])"
  using assms
proof (induction ks arbitrary: kvs)
  case (Cons k ks)
  then obtain v where v: "get_any cfg k = JStr v" "v \<noteq> []" "copy_identity cfg ks (put_key k (JStr v) kvs) = Inr out"
    by (auto split: json.splits if_splits)
  then show ?case
    using Cons.IH [OF v(3) sorted_put_key [OF Cons.prems(2)]] Cons.prems by (auto simp: get_any_put_key)
qed simp

lemma get_any_delete: "get_any (AList.delete k kvs) k' = (if k' = k then JNull else get_any kvs k')"
  by (simp add: get_any_def delete_conv)

lemma home_fields_spec:
  assumes "sorted_keys kvs"
  shows "sorted_keys (home_fields kvs)"
    and "get_any (home_fields kvs) ''master_url'' = get_any kvs ''master_url''"
    and "get_any (home_fields kvs) ''data_dir'' = get_any kvs ''data_dir''"
  by (simp_all add: home_fields_def sorted_delete sorted_put_key assms get_any_delete get_any_put_key)

lemma with_data_dir_spec:
  assumes "with_data_dir wd path kvs = Inr out" and "sorted_keys kvs"
  shows "get_any out ''master_url'' = get_any kvs ''master_url''"
  using assms by (auto simp: with_data_dir_def bind_res_Inr get_any_put_key split: if_splits)

lemma local_config_sorted: "file_wf f \<Longrightarrow> local_config f = Inr (Some kvs) \<Longrightarrow> sorted_keys kvs"
  by (auto simp: local_config_def read_config_def file_wf_def split: config_file.splits json.splits)

lemma pair_originD:
  "pair_origin parse_url origin = Inr u \<Longrightarrow> parse_url origin = Some u \<and> (u_scheme u = ''https'' \<or> u_scheme u = ''http'' \<and> u_loopback u)"
  by (auto simp: pair_origin_def split: option.splits if_splits)

text \<open>C10: Pairing either leaves the configuration file as it was, or replaces it with a configuration that
  passes validation and whose Controller address has the scheme and host that the user entered,
  which is HTTPS unless the Controller is on the local machine.\<close>
theorem pairing_keeps_origin:
  assumes "file_wf (config_file w)"
  shows "case PairHome parse_url wd post origin code path w of (r, w') \<Rightarrow>
    if r = Inr () then
      \<exists>kvs c d u m. config_file w' = Content (JObj kvs) \<and> decode_config (JObj kvs) = Inr c \<and>
        Validate parse_url (c\<lparr>DataDir := d\<rparr>) False = Inr () \<and> parse_url origin = Some u \<and>
        (u_scheme u = ''https'' \<or> u_scheme u = ''http'' \<and> u_loopback u) \<and>
        parse_url (MasterURL c) = Some m \<and> same_origin u m
    else config_file w' = config_file w"
proof -
  obtain r w' where p: "PairHome parse_url wd post origin code path w = (r, w')" by fastforce
  have "if r = Inr () then
      \<exists>kvs c d u m. config_file w' = Content (JObj kvs) \<and> decode_config (JObj kvs) = Inr c \<and>
        Validate parse_url (c\<lparr>DataDir := d\<rparr>) False = Inr () \<and> parse_url origin = Some u \<and>
        (u_scheme u = ''https'' \<or> u_scheme u = ''http'' \<and> u_loopback u) \<and>
        parse_url (MasterURL c) = Some m \<and> same_origin u m
    else config_file w' = config_file w"
  proof (cases "r = Inr ()")
    case False
    then have "w' = w \<or> (\<exists>kvs. writeConfig path kvs w = (r, w'))"
      using p by (simp add: PairHome_def split: sum.splits) blast
    then show ?thesis using False writeConfig_file by fastforce
  next
    case True
    obtain u local cfg m kvs0 kvs1 kvs2 c d where q: "pair_origin parse_url origin = Inr u"
      "local_config (config_file w) = Inr (Some kvs0)"
      "parse_url (get_string cfg ''master_url'') = Some m" "same_origin u m"
      "copy_identity cfg identity_keys kvs0 = Inr kvs1" "with_data_dir wd path (home_fields kvs1) = Inr kvs2"
      "decode_config (JObj kvs2) = Inr c" "Validate parse_url (c\<lparr>DataDir := d\<rparr>) False = Inr ()"
      "writeConfig path kvs2 w = (r, w')"
      using p True by (auto simp: PairHome_def bind_res_Inr split: sum.splits option.splits if_splits)
    have s0: "sorted_keys kvs0" by (rule local_config_sorted [OF assms q(2)])
    have "distinct identity_keys" by (simp add: identity_keys_def)
    from copy_identity_spec [OF q(5) s0 this]
    have s1: "sorted_keys kvs1" "get_any kvs1 ''master_url'' = get_any cfg ''master_url''"
      by (simp_all add: identity_keys_def)
    have "get_string kvs2 ''master_url'' = get_string cfg ''master_url''"
      using with_data_dir_spec [OF q(6)] home_fields_spec [OF s1(1)] s1(2) by (simp add: get_string_any)
    moreover have "MasterURL c = get_string kvs2 ''master_url''"
      using q(7) by (auto simp: decode_object fields_config_def)
    ultimately have "parse_url (MasterURL c) = Some m" using q(3) by simp
    then show ?thesis
      using True q(4,7,8) pair_originD [OF q(1)] writeConfig_file [OF q(9)] by auto
  qed
  then show ?thesis using p by simp
qed

section \<open>A sample node\<close>

definition url_sample :: "string \<Rightarrow> parsed_url option" where
  "url_sample s = Some \<lparr>u_scheme = ''https'', u_host = ''panel'', u_user = None, u_fragment = [], u_hostname = ''panel'',
     u_loopback = False, u_path = [], u_query = []\<rparr>"

definition identity_sample :: jmap where
  "identity_sample = [(''agent_token'', JStr ''a''), (''master_public_key'', JStr (replicate 43 CHR ''A'')),
     (''master_url'', JStr ''https://panel''), (''server_id'', JStr ''s''), (''token'', JStr ''t'')]"

definition post_sample :: "string \<Rightarrow> string \<Rightarrow> pair_reply option" where
  "post_sample url code = Some \<lparr>pr_status = 200, pr_size = 9, pr_body = Some (JObj [(''config'', JObj identity_sample)])\<rparr>"

definition disk_sample :: config_world where
  "disk_sample = \<lparr>config_file = Content (JObj identity_sample), cfg_faults = []\<rparr>"

definition home_sample :: jmap where
  "home_sample = put_key ''data_dir'' (JStr ''/etc/home-data'') (home_fields identity_sample)"

lemma home_config_sample:
  "\<exists>c. decode_config (JObj home_sample) = Inr c \<and> DataDir c = ''/etc/home-data'' \<and> XrayMode c = ''embedded'' \<and>
     ConnectionMode c = ''websocket'' \<and> ServerID c = ''s'' \<and> Token c = ''t'' \<and> MasterPublicKey c = replicate 43 CHR ''A''"
proof -
  have "list_all (string_field_ok home_sample) string_keys" "int_field home_sample ''previous_token_expires_at'' = Some 0"
    "int_field home_sample ''observation_interval'' = Some 0" by code_simp+
  moreover have "get_string home_sample ''data_dir'' = ''/etc/home-data''" "get_string home_sample ''xray_mode'' = ''embedded''"
    "get_string home_sample ''connection_mode'' = ''websocket''" "get_string home_sample ''server_id'' = ''s''"
    "get_string home_sample ''token'' = ''t''" "get_string home_sample ''master_public_key'' = replicate 43 CHR ''A''"
    by code_simp+
  ultimately show ?thesis by (simp add: decode_object fields_config_def)
qed

lemma b64_zeros:
  "b64_encode (0 # 0 # 0 # bs) = CHR ''A'' # CHR ''A'' # CHR ''A'' # CHR ''A'' # b64_encode bs"
  "b64_encode [0, 0] = ''AAA''"
  by (simp_all add: b64_char_def b64_alphabet_def)

lemma raw_key_sample: "raw_std_decode (replicate 43 CHR ''A'') = Some (replicate 32 0)"
proof -
  have "b64_encode (replicate 32 0) = replicate 43 CHR ''A''"
    by (simp add: numeral_eq_Suc b64_zeros del: b64_encode.simps)
  then have "b64_decode (replicate 43 CHR ''A'') = Some (replicate 32 0)"
    using b64_decode_encode [of "replicate 32 0"] by simp
  then show ?thesis by (simp add: raw_std_decode_def std_to_url_def)
qed

lemma key_sample: "master_key_bytes (replicate 43 CHR ''A'') = Some (replicate 32 0)"
proof -
  have plain: "filter (\<lambda>c. c \<noteq> newline \<and> c \<noteq> carriage_return) (replicate 43 CHR ''A'') = replicate 43 CHR ''A''"
    by (simp add: filter_replicate newline_def carriage_return_def char_of_def)
  then have "std_decode (replicate 43 CHR ''A'') = None" by (simp add: std_decode_def)
  then show ?thesis using raw_key_sample by (simp add: master_key_bytes_def)
qed

theorem pairing_keeps_origin_witness:
  "\<exists>w' kvs. PairHome url_sample (Some ''/etc'') post_sample ''https://panel/'' ''code'' ''/etc/home.json''
     (disk_sample\<lparr>config_file := NoFile\<rparr>) = (Inr (), w') \<and> config_file w' = Content (JObj kvs)"
proof -
  have wf: "file_wf (config_file (disk_sample\<lparr>config_file := NoFile\<rparr>))" by (simp add: file_wf_def)
  obtain c where c: "decode_config (JObj home_sample) = Inr c" "DataDir c = ''/etc/home-data''" "XrayMode c = ''embedded''"
     "ConnectionMode c = ''websocket''" "ServerID c = ''s''" "Token c = ''t''" "MasterPublicKey c = replicate 43 CHR ''A''"
    using home_config_sample by blast
  have "pair_config (post_sample url code) = Inr identity_sample" for url code
    by (simp add: pair_config_def post_sample_def get_any_def)
  moreover have "pair_origin url_sample ''https://panel/'' = Inr (the (url_sample ''https://panel/''))"
    "copy_identity identity_sample identity_keys [] = Inr identity_sample"
    "with_data_dir (Some ''/etc'') ''/etc/home.json'' (home_fields identity_sample) = Inr home_sample"
    "abs_path (Some ''/etc'') ''/etc/home-data'' = Some ''/etc/home-data''" "trim_space ''code'' = ''code''"
    "\<not> contains_any ''code'' [carriage_return, newline, tab]" by code_simp+
  moreover have "Validate url_sample (c\<lparr>DataDir := ''/etc/home-data''\<rparr>) False = Inr ()"
    using c key_sample by (simp add: Validate_def ValidConnectionMode_def url_sample_def is_abs_def)
  ultimately have "fst (PairHome url_sample (Some ''/etc'') post_sample ''https://panel/'' ''code'' ''/etc/home.json''
     (disk_sample\<lparr>config_file := NoFile\<rparr>)) = Inr ()"
    using c by (simp add: PairHome_def local_config_def url_sample_def same_origin_def trim_char_def trim_right_def equal_fold_def
        writeConfig_def next_fault_def disk_sample_def)
  then obtain w' where s: "PairHome url_sample (Some ''/etc'') post_sample ''https://panel/'' ''code'' ''/etc/home.json''
     (disk_sample\<lparr>config_file := NoFile\<rparr>) = (Inr (), w')"
    by (metis prod.collapse)
  from pairing_keeps_origin [OF wf, where parse_url = url_sample and wd = "Some ''/etc''" and post = post_sample and
      origin = "''https://panel/''" and code = "''code''" and path = "''/etc/home.json''"] s
  show ?thesis by auto
qed

end
