(* ===== verification/Control_Client.thy ===== *)
theory Control_Client
  imports Wire_Messages Agent_Config
begin

text \<open>
  The control client (internal/control): the cache of executed commands, the queue of results that
  wait for an acknowledgement, connection settings, identity rotation, the v1 exchange and the
  direct HTTP listener. What runs a command (the \<open>Runner\<close>), the updater and the size of an encoded
  result are parameters; the configuration file is that of \<open>Agent_Config\<close>. Locks are not modelled:
  each operation holds the lock of the state it changes. Times are seconds.
\<close>

section \<open>State\<close>

record command_cache =
  seen :: "string \<Rightarrow> command_result option"
  seenSizes :: "string \<Rightarrow> nat"
  order :: "string list"
  seenBytes :: int

record ('r, 'u) client =
  cfg :: agent_config
  results :: "command_result list"
  sentCount :: nat
  cache :: command_cache
  changed :: bool
  lastDirect :: int
  disk_cfg :: config_world
  runner :: 'r
  updater :: 'u

text \<open>
  \<open>handle\<close>, \<open>snapshot\<close>, \<open>capabilities\<close> and \<open>update_connection\<close> are the methods of the Runner;
  \<open>update_connection\<close> yields the state it has when the settings are persisted, \<open>None\<close> when it refuses
  them. \<open>stage\<close> and \<open>acknowledge_update\<close> are those of the updater for this version of the Agent.
\<close>

record ('r, 'u) client_env =
  handle :: "command \<Rightarrow> 'r \<Rightarrow> command_result \<times> 'r"
  snapshot :: "'r \<Rightarrow> jmap"
  capabilities :: "'r \<Rightarrow> bool smap"
  update_connection :: "string \<Rightarrow> string \<Rightarrow> 'r \<Rightarrow> 'r option"
  stage :: "string \<Rightarrow> string \<Rightarrow> string \<Rightarrow> string \<Rightarrow> 'u \<Rightarrow> (string, jmap) res \<times> 'u"
  acknowledge_update :: "string \<Rightarrow> 'u \<Rightarrow> 'u"
  update_available :: bool
  update_snapshot :: "'u \<Rightarrow> json"
  marshal_size :: "command_result \<Rightarrow> nat option"
  agent_version :: string
  now :: int

definition failed :: "string \<Rightarrow> string \<Rightarrow> command_result" where
  "failed task message = \<lparr>res_ID = task, res_Status = ''failed'', res_Error = message, res_Data = None\<rparr>"

definition succeeded :: "string \<Rightarrow> jmap \<Rightarrow> command_result" where
  "succeeded task data = \<lparr>res_ID = task, res_Status = ''success'', res_Error = [], res_Data = Some data\<rparr>"

text \<open>Messages of the errors below.\<close>

definition bad_mode_text :: string where
  "bad_mode_text = ''controller returned invalid connection mode''"

definition bad_listen_text :: string where
  "bad_listen_text = ''controller returned invalid listen address''"

definition no_agent_token_text :: string where
  "no_agent_token_text = ''agent_token is required for HTTP management''"

definition no_config_text :: string where
  "no_config_text = ''cannot persist connection settings without a configuration file; upgrade or reinstall Agent''"

definition refused_text :: string where
  "refused_text = ''connection settings refused''"

definition unsaved_connection_text :: string where
  "unsaved_connection_text = ''could not persist connection settings; current connection retained''"

definition bad_token_text :: string where
  "bad_token_text = ''new identity tokens must be nonempty, at least 32 characters and free of whitespace''"

definition no_rotation_text :: string where
  "no_rotation_text = ''cannot rotate identity without the current local configuration file''"

definition bad_expiry_text :: string where
  "bad_expiry_text = ''invalid previous token expiry''"

definition long_grace_text :: string where
  "long_grace_text = ''previous token grace period cannot exceed 15 minutes''"

definition unsaved_identity_text :: string where
  "unsaved_identity_text = ''could not persist new identity; current identity retained''"

definition no_ID_text :: string where
  "no_ID_text = ''command ID is required''"

definition oversize_text :: string where
  "oversize_text = ''command result exceeds the encrypted report limit or cannot be encoded''"

definition empty_cache :: command_cache where
  "empty_cache = \<lparr>seen = (\<lambda>_. None), seenSizes = (\<lambda>_. 0), order = [], seenBytes = 0\<rparr>"

definition New :: "agent_config \<Rightarrow> config_world \<Rightarrow> 'r \<Rightarrow> 'u \<Rightarrow> ('r, 'u) client" where
  "New c disk r u = \<lparr>cfg = c\<lparr>ConnectionMode := or_else (ConnectionMode c) ''websocket'',
       ListenAddress := or_else (ListenAddress c) ''0.0.0.0:23889''\<rparr>,
     results = [], sentCount = 0, cache = empty_cache, changed = False, lastDirect = 0, disk_cfg = disk, runner = r, updater = u\<rparr>"

section \<open>Connection settings\<close>

definition connectionSettings :: "('r, 'u) client \<Rightarrow> string \<times> string" where
  "connectionSettings c = (ConnectionMode (cfg c), ListenAddress (cfg c))"

definition setConnectionLocked ::
  "('r, 'u) client_env \<Rightarrow> string \<Rightarrow> string \<Rightarrow> ('r, 'u) client \<Rightarrow> (string, unit) res \<times> ('r, 'u) client" where
  "setConnectionLocked env mode wanted c =
     (if mode = [] then (Inr (), c)
      else if \<not> ValidConnectionMode mode then (Inl bad_mode_text, c)
      else let listen = (if wanted = [] then ListenAddress (cfg c) else wanted) in
        if SplitHostPort listen = None then (Inl bad_listen_text, c)
        else if mode = ConnectionMode (cfg c) \<and> listen = ListenAddress (cfg c) then (Inr (), c)
        else if (mode = ''auto'' \<or> mode = ''http'') \<and> AgentToken (cfg c) = []
          then (Inl no_agent_token_text, c)
        else if ConfigPath (cfg c) = []
          then (Inl no_config_text, c)
        else case update_connection env mode listen (runner c) of
          None \<Rightarrow> (Inl refused_text, c)
        | Some r \<Rightarrow>
            (case SaveConnection (ConfigPath (cfg c)) mode listen (disk_cfg c) of
               (Inl e, d) \<Rightarrow> (Inl unsaved_connection_text, c\<lparr>disk_cfg := d\<rparr>)
             | (Inr _, d) \<Rightarrow> (Inr (), c\<lparr>disk_cfg := d, runner := r, changed := True,
                 cfg := (cfg c)\<lparr>ConnectionMode := mode, ListenAddress := listen\<rparr>\<rparr>)))"

section \<open>Identity\<close>

definition token_ok :: "string \<Rightarrow> bool" where
  "token_ok s = (32 \<le> length s \<and> length s \<le> 4096 \<and> \<not> contains_any s [CHR '' '', tab, carriage_return, newline])"

text \<open>The expiry of the previous token: absent, a JSON number written as an integer, or invalid. Spellings
  of an integer with a fraction or an exponent, which a Go encoder never produces for one, count
  as invalid here.\<close>

definition requested_expiry :: "int \<Rightarrow> jmap \<Rightarrow> int option" where
  "requested_expiry fallback params =
     (case map_of params ''previous_expires_at'' of
        None \<Rightarrow> Some fallback
      | Some (JNum n) \<Rightarrow> (case Atoi n of (i, parsed) \<Rightarrow> if parsed then Some i else None)
      | Some _ \<Rightarrow> None)"

definition rotateIdentity ::
  "('r, 'u) client_env \<Rightarrow> command \<Rightarrow> ('r, 'u) client \<Rightarrow> command_result \<times> ('r, 'u) client" where
  "rotateIdentity env command c =
     (let token = get_string (cmd_Params command) ''token''; agentToken = get_string (cmd_Params command) ''agent_token'';
          fail = failed (cmd_ID command); grace = now env + 900 in
      if \<not> token_ok token \<or> \<not> token_ok agentToken
        then (fail bad_token_text, c)
      else if ConfigPath (cfg c) = [] then (fail no_rotation_text, c)
      else if token = Token (cfg c) \<and> agentToken = AgentToken (cfg c)
        then (succeeded (cmd_ID command) [(''persisted'', JBool True),
          (''previous_expires_at'', JNum (itoa (PreviousTokenExpires (cfg c))))], c)
      else case requested_expiry grace (cmd_Params command) of
        None \<Rightarrow> (fail bad_expiry_text, c)
      | Some expires \<Rightarrow>
          if expires < 0 \<or> expires > grace then (fail long_grace_text, c)
          else case RotateCredentials (ConfigPath (cfg c)) token agentToken (AgentToken (cfg c)) expires (disk_cfg c) of
            (Inl e, d) \<Rightarrow> (fail unsaved_identity_text, c\<lparr>disk_cfg := d\<rparr>)
          | (Inr _, d) \<Rightarrow>
              (succeeded (cmd_ID command) [(''persisted'', JBool True), (''previous_expires_at'', JNum (itoa expires))],
               c\<lparr>disk_cfg := d, cfg := (cfg c)\<lparr>PreviousAgentToken := AgentToken (cfg c), PreviousTokenExpires := expires,
                 Token := token, AgentToken := agentToken\<rparr>\<rparr>))"

definition validAgentToken :: "('r, 'u) client_env \<Rightarrow> ('r, 'u) client \<Rightarrow> string \<Rightarrow> bool" where
  "validAgentToken env c token =
     (if token = [] then False
      else token = AgentToken (cfg c) \<or>
        (now env \<le> PreviousTokenExpires (cfg c) \<and> PreviousAgentToken (cfg c) \<noteq> [] \<and> token = PreviousAgentToken (cfg c)))"

section \<open>Execution\<close>

definition max_order :: nat where
  "max_order = 2048"

definition max_seen :: int where
  "max_seen = 33554432"

text \<open>The eviction loop; \<open>None\<close> is the panic of indexing an empty slice.\<close>

function evict :: "command_cache \<Rightarrow> command_cache option" where
  "evict k =
     (if length (order k) > max_order \<or> seenBytes k > max_seen then
        (case order k of
           [] \<Rightarrow> None
         | i # rest \<Rightarrow> evict (k\<lparr>seenBytes := seenBytes k - int (seenSizes k i), seenSizes := (seenSizes k)(i := 0),
             seen := (seen k)(i := None), order := rest\<rparr>))
      else Some k)"
  by pat_completeness auto

termination
  by (relation "measure (\<lambda>k. length (order k))") auto

declare evict.simps [simp del]

definition remember :: "string \<Rightarrow> command_result \<Rightarrow> nat \<Rightarrow> command_cache \<Rightarrow> command_cache option" where
  "remember i result n k =
     evict (k\<lparr>seen := (seen k)(i \<mapsto> result), seenSizes := (seenSizes k)(i := n),
       seenBytes := seenBytes k + int n, order := order k @ [i]\<rparr>)"

definition reported_mode :: "agent_config \<Rightarrow> jmap \<Rightarrow> string" where
  "reported_mode g observation =
     (if Role g = ''speedtest'' then ''speedtest''
      else case get_any observation ''core'' of
        JObj core \<Rightarrow> (case get_any core ''mode'' of JStr m \<Rightarrow> m | _ \<Rightarrow> XrayMode g)
      | _ \<Rightarrow> XrayMode g)"

definition capability_json :: "bool smap \<Rightarrow> json" where
  "capability_json caps = JObj (map (\<lambda>(k, b). (k, JBool b)) caps)"

definition client_capabilities :: "('r, 'u) client_env \<Rightarrow> ('r, 'u) client \<Rightarrow> bool smap" where
  "client_capabilities env c = put_key ''connection_modes'' True (put_key ''agent_update'' (update_available env)
     (put_key ''identity_rotation'' (ConfigPath (cfg c) \<noteq> []) (capabilities env (runner c))))"

definition client_snapshot :: "('r, 'u) client_env \<Rightarrow> ('r, 'u) client \<Rightarrow> jmap" where
  "client_snapshot env c = put_key ''agent_update'' (update_snapshot env (updater c)) (snapshot env (runner c))"

text \<open>
  \<open>agent.report\<close>: the update is acknowledged and the connection may change; a refused connection is
  answered without being remembered, which is \<open>Inl\<close>.
\<close>

definition report_command ::
  "('r, 'u) client_env \<Rightarrow> command \<Rightarrow> ('r, 'u) client \<Rightarrow> (command_result + command_result) \<times> ('r, 'u) client" where
  "report_command env cmd c =
     (let c0 = c\<lparr>updater := acknowledge_update env (get_string (cmd_Params cmd) ''acknowledged_update'') (updater c)\<rparr>;
          mode = get_string (cmd_Params cmd) ''connection_mode'';
          old = connectionSettings c0 in
      case (if mode = [] then (Inr (), c0)
            else setConnectionLocked env mode (get_string (cmd_Params cmd) ''listen_address'') c0) of
        (Inl e, c1) \<Rightarrow> (Inl (failed (cmd_ID cmd) e), c1)
      | (Inr _, c1) \<Rightarrow>
          (let observation = client_snapshot env c1 in
           (Inr (succeeded (cmd_ID cmd) [(''capabilities'', capability_json (client_capabilities env c1)),
              (''connection_changed'', JBool (connectionSettings c1 \<noteq> old)),
              (''connection_mode'', JStr (ConnectionMode (cfg c1))), (''mode'', JStr (reported_mode (cfg c1) observation)),
              (''observation'', JObj observation), (''version'', JStr (agent_version env))]), c1)))"

definition run_command ::
  "('r, 'u) client_env \<Rightarrow> command \<Rightarrow> ('r, 'u) client \<Rightarrow> (command_result + command_result) \<times> ('r, 'u) client" where
  "run_command env cmd c =
     (if cmd_Action cmd = ''identity.rotate'' then (case rotateIdentity env cmd c of (r, c1) \<Rightarrow> (Inr r, c1))
      else if cmd_Action cmd = ''agent.update'' then
        (case stage env (cmd_ID cmd) (get_string (cmd_Params cmd) ''url'') (get_string (cmd_Params cmd) ''sha256'')
            (get_string (cmd_Params cmd) ''version'') (updater c) of
           (Inl e, u) \<Rightarrow> (Inr (failed (cmd_ID cmd) e), c\<lparr>updater := u\<rparr>)
         | (Inr data, u) \<Rightarrow> (Inr (succeeded (cmd_ID cmd) data), c\<lparr>updater := u\<rparr>))
      else if cmd_Action cmd = ''agent.report'' then report_command env cmd c
      else (case handle env cmd (runner c) of (r, rn) \<Rightarrow> (Inr r, c\<lparr>runner := rn\<rparr>)))"

definition encoded_size :: "('r, 'u) client_env \<Rightarrow> command_result \<Rightarrow> nat" where
  "encoded_size env r = (case marshal_size env r of None \<Rightarrow> 0 | Some n \<Rightarrow> n)"

text \<open>\<open>None\<close> would be the panic of the eviction loop.\<close>

definition execute ::
  "('r, 'u) client_env \<Rightarrow> command \<Rightarrow> ('r, 'u) client \<Rightarrow> (command_result \<times> ('r, 'u) client) option" where
  "execute env cmd c =
     (if cmd_ID cmd = [] then Some (failed [] no_ID_text, c)
      else case seen (cache c) (cmd_ID cmd) of
        Some old \<Rightarrow> Some (old, c)
      | None \<Rightarrow>
          (case run_command env cmd c of
             (Inl r, c1) \<Rightarrow> Some (r, c1)
           | (Inr r, c1) \<Rightarrow>
               (case remember (cmd_ID cmd) r (encoded_size env r) (cache c1) of
                  None \<Rightarrow> None
                | Some k \<Rightarrow> Some (r, c1\<lparr>cache := k\<rparr>))))"

section \<open>The v1 exchange\<close>

record reply =
  rp_TelemetryAck :: u64
  rp_Stream :: "stream_options option"
  rp_AckResults :: "string list"
  rp_ConnectionMode :: string
  rp_ListenAddress :: string
  rp_Commands :: "command list"
  rp_Interval :: int
  rp_Error :: string

definition batch_limit :: nat where
  "batch_limit = MaxPacket - 1048576"

text \<open>A result that cannot be encoded or is too large is replaced in the queue by a failure.\<close>

definition shrink :: "('r, 'u) client_env \<Rightarrow> command_result \<Rightarrow> command_result" where
  "shrink env r =
     (if (case marshal_size env r of None \<Rightarrow> True | Some n \<Rightarrow> n > batch_limit)
      then failed (res_ID r) oversize_text else r)"

text \<open>The loop of \<open>resultBatchLocked\<close>: the batch, and the queue with its replacements.\<close>

fun result_batch ::
  "('r, 'u) client_env \<Rightarrow> nat \<Rightarrow> command_result list \<Rightarrow> command_result list \<times> command_result list" where
  "result_batch env used [] = ([], [])"
| "result_batch env used (r # rs) =
     (let r' = shrink env r; n = encoded_size env r' in
      if used + n > batch_limit then ([], r' # rs)
      else case result_batch env (used + n) rs of (batch, rest) \<Rightarrow> (r' # batch, r' # rest))"

definition resultBatchLocked :: "('r, 'u) client_env \<Rightarrow> ('r, 'u) client \<Rightarrow> command_result list \<times> ('r, 'u) client" where
  "resultBatchLocked env c = (case result_batch env 0 (results c) of (batch, rs) \<Rightarrow> (batch, c\<lparr>results := rs\<rparr>))"

record report =
  rt_ConnectionMode :: string
  rt_ServerID :: string
  rt_Token :: string
  rt_Version :: string
  rt_Mode :: string
  rt_Observation :: jmap
  rt_Capabilities :: "bool smap"
  rt_Results :: "command_result list"
  rt_Timestamp :: int

definition make_report :: "('r, 'u) client_env \<Rightarrow> ('r, 'u) client \<Rightarrow> report \<times> ('r, 'u) client" where
  "make_report env c =
     (case resultBatchLocked env c of (batch, c0) \<Rightarrow>
        let c1 = c0\<lparr>sentCount := length batch\<rparr>; observation = client_snapshot env c1 in
        (\<lparr>rt_ConnectionMode = ConnectionMode (cfg c1), rt_ServerID = ServerID (cfg c1), rt_Token = Token (cfg c1),
          rt_Version = agent_version env, rt_Mode = reported_mode (cfg c1) observation, rt_Observation = observation,
          rt_Capabilities = client_capabilities env c1, rt_Results = batch, rt_Timestamp = now env\<rparr>, c1))"

definition acknowledge ::
  "('r, 'u) client_env \<Rightarrow> reply \<Rightarrow> ('r, 'u) client \<Rightarrow> (string, unit) res \<times> ('r, 'u) client" where
  "acknowledge env reply c =
     (if rp_Error reply \<noteq> [] then (Inl (rp_Error reply), c)
      else
        let c1 = (if sentCount c \<le> length (results c)
              then c\<lparr>updater := foldl (\<lambda>u r. if res_Status r = ''success'' then acknowledge_update env (res_ID r) u else u)
                     (updater c) (take (sentCount c) (results c)),
                   results := drop (sentCount c) (results c)\<rparr>
              else c)\<lparr>sentCount := 0\<rparr> in
        case (if results c1 = [] then setConnectionLocked env (rp_ConnectionMode reply) (rp_ListenAddress reply) c1
              else (Inr (), c1)) of
          (Inl e, c2) \<Rightarrow> (Inl e, c2)
        | (Inr _, c2) \<Rightarrow> (Inr (), c2\<lparr>updater := acknowledge_update env [] (updater c2)\<rparr>))"

fun execute_all :: "('r, 'u) client_env \<Rightarrow> command list \<Rightarrow> ('r, 'u) client \<Rightarrow> ('r, 'u) client option" where
  "execute_all env [] c = Some c"
| "execute_all env (m # ms) c =
     (case execute env m c of
        None \<Rightarrow> None
      | Some (r, c1) \<Rightarrow> execute_all env ms (c1\<lparr>results := results c1 @ [r]\<rparr>))"

definition accept ::
  "('r, 'u) client_env \<Rightarrow> reply \<Rightarrow> ('r, 'u) client \<Rightarrow> ((string, unit) res \<times> ('r, 'u) client) option" where
  "accept env reply c =
     (case acknowledge env reply c of
        (Inl e, c1) \<Rightarrow> Some (Inl e, c1)
      | (Inr _, c1) \<Rightarrow> map_option (\<lambda>c2. (Inr (), c2)) (execute_all env (rp_Commands reply) c1))"

definition reply_interval :: "reply \<Rightarrow> int" where
  "reply_interval reply = (if rp_Interval reply < 1 \<or> rp_Interval reply > 300 then 5 else rp_Interval reply)"

section \<open>The direct listener\<close>

record direct_session =
  ds_channel :: channel
  ds_created :: int

datatype http_error = BadRequest | TooMany | Unauthorized | ServerError

type_synonym sessions = "(string \<times> direct_session) list"

text \<open>\<open>random\<close> is what the new key is made of; the number of \<open>nonce\<close> values of the query is given.\<close>

definition hello_handler ::
  "crypto \<Rightarrow> (bytes \<Rightarrow> bytes \<Rightarrow> bytes) \<Rightarrow> ('r, 'u) client_env \<Rightarrow> bytes \<Rightarrow> string list \<Rightarrow> ('r, 'u) client \<Rightarrow> sessions \<Rightarrow>
     (http_error, direct_hello) res \<times> sessions" where
  "hello_handler cr hmac env random nonces c ss =
     (case nonces of
        [n] \<Rightarrow>
          if \<not> ValidDirectNonce n then (Inl BadRequest, ss)
          else let live = filter (\<lambda>s. now env - ds_created (snd s) \<le> 30) ss in
            if length live \<ge> 128 then (Inl TooMany, live)
            else case NewClient cr random (MasterPublicKey (cfg c)) of
              Inl e \<Rightarrow> (Inl ServerError, live)
            | Inr ch \<Rightarrow>
                (case SignDirectHello hmac (AgentToken (cfg c)) \<lparr>dh_Protocol = DirectHelloProtocol, dh_Nonce = n,
                    dh_PublicKey = public_key ch, dh_ServerID = ServerID (cfg c), dh_MasterPublicKey = MasterPublicKey (cfg c),
                    dh_Timestamp = now env, dh_Proof = []\<rparr> of
                   Inl e \<Rightarrow> (Inl ServerError, live)
                 | Inr h \<Rightarrow> (Inr h, AList.update (public_key ch) \<lparr>ds_channel = ch, ds_created = now env\<rparr> live))
      | _ \<Rightarrow> (Inl BadRequest, ss))"

text \<open>The decoders and encoders of the request and the result are parameters, as in the channel.\<close>

definition rpc_handler ::
  "(bytes \<Rightarrow> direct_request option) \<Rightarrow> (command_result \<Rightarrow> bytes option) \<Rightarrow> ('r, 'u) client_env \<Rightarrow> hello \<Rightarrow>
     ('r, 'u) client \<Rightarrow> sessions \<Rightarrow> ((http_error, packet) res \<times> ('r, 'u) client \<times> sessions) option" where
  "rpc_handler decode encode env h c ss =
     (let rest = AList.delete (hello_PublicKey h) ss in
      case map_of ss (hello_PublicKey h) of
        None \<Rightarrow> Some (Inl Unauthorized, c, rest)
      | Some s \<Rightarrow>
          if now env - ds_created s > 30 then Some (Inl Unauthorized, c, rest)
          else case Open decode (ds_channel s) (hello_Packet h) of
            Inl e \<Rightarrow> Some (Inl Unauthorized, c, rest)
          | Inr (request, ch) \<Rightarrow>
              if \<not> validAgentToken env c (dr_Token request) \<or> now env - dr_Timestamp request > 90 \<or>
                 dr_Timestamp request - now env > 90 then Some (Inl Unauthorized, c, rest)
              else case execute env (dr_Command request) c of
                None \<Rightarrow> None
              | Some (r, c1) \<Rightarrow>
                  (case Seal encode ch r of
                     Inl e \<Rightarrow> Some (Inl ServerError, c1\<lparr>lastDirect := now env\<rparr>, rest)
                   | Inr (p, _) \<Rightarrow> Some (Inr p, c1\<lparr>lastDirect := now env\<rparr>, rest)))"

section \<open>The command cache\<close>

type_synonym cache_entry = "string \<times> command_result \<times> nat"

definition fits :: "cache_entry list \<Rightarrow> bool" where
  "fits h = (length h \<le> max_order \<and> (\<Sum>e\<leftarrow>h. int (snd (snd e))) \<le> max_seen)"

text \<open>The reference: of a history of executed commands, the longest end that respects both limits.\<close>

fun recent :: "cache_entry list \<Rightarrow> cache_entry list" where
  "recent [] = []"
| "recent (e # h) = (if fits (e # h) then e # h else recent h)"

definition entries :: "command_cache \<Rightarrow> cache_entry list" where
  "entries k = map (\<lambda>i. (i, the (seen k i), seenSizes k i)) (order k)"

definition cache_sound :: "command_cache \<Rightarrow> bool" where
  "cache_sound k \<longleftrightarrow> distinct (order k) \<and> (\<forall>i. seen k i \<noteq> None \<longleftrightarrow> i \<in> set (order k)) \<and>
     seenBytes k = (\<Sum>i\<leftarrow>order k. int (seenSizes k i))"

lemma fits_prefix: "fits (h @ h') \<Longrightarrow> fits h"
proof -
  have "0 \<le> (\<Sum>e\<leftarrow>h'. int (snd (snd e)))" by (induction h') auto
  then show "fits (h @ h') \<Longrightarrow> fits h" by (simp add: fits_def)
qed

lemma recent_snoc: "recent (recent h @ [e]) = recent (h @ [e])"
proof (induction h)
  case (Cons a h)
  show ?case
  proof (cases "fits (a # h)")
    case False
    then have "\<not> fits ((a # h) @ [e])" using fits_prefix by blast
    then show ?thesis using Cons False by simp
  qed simp
qed simp

lemma recent_fits: "fits (recent h)"
  by (induction h) (auto simp: fits_def max_order_def max_seen_def)

lemma recent_suffix: "\<exists>n. recent h = drop n h"
proof (induction h)
  case (Cons a h)
  then obtain n where "recent h = drop n h" by blast
  then have "recent (a # h) = drop (if fits (a # h) then 0 else Suc n) (a # h)" by simp
  then show ?case ..
qed simp

lemma entries_fits:
  "cache_sound k \<Longrightarrow> fits (entries k) \<longleftrightarrow> \<not> (length (order k) > max_order \<or> seenBytes k > max_seen)"
  by (auto simp: fits_def entries_def cache_sound_def comp_def)

lemma sum_update:
  "i \<notin> set xs \<Longrightarrow> (\<Sum>j\<leftarrow>xs. int ((f(i := n)) j)) = (\<Sum>j\<leftarrow>xs. int (f j))"
  by (induction xs) auto

lemma evict_spec: "cache_sound k \<Longrightarrow> \<exists>k'. evict k = Some k' \<and> cache_sound k' \<and> entries k' = recent (entries k)"
proof (induction k rule: evict.induct)
  case (1 k)
  show ?case
  proof (cases "length (order k) > max_order \<or> seenBytes k > max_seen")
    case False
    then have "fits (entries k)" using entries_fits [OF "1.prems"] by simp
    then have "recent (entries k) = entries k" by (cases "entries k") auto
    then show ?thesis using False "1.prems" by (simp add: evict.simps [of k])
  next
    case True
    obtain i rest where o: "order k = i # rest"
      using True "1.prems" by (cases "order k") (auto simp: cache_sound_def max_order_def max_seen_def)
    let ?k = "k\<lparr>seenBytes := seenBytes k - int (seenSizes k i), seenSizes := (seenSizes k)(i := 0),
             seen := (seen k)(i := None), order := rest\<rparr>"
    have i: "i \<notin> set rest" using "1.prems" o by (simp add: cache_sound_def)
    have sound: "cache_sound ?k"
      using "1.prems" o i sum_update [OF i, of "seenSizes k" 0] by (auto simp: cache_sound_def)
    have "entries ?k = tl (entries k)" using o i by (auto simp: entries_def)
    moreover have "\<not> fits (entries k)" using True entries_fits [OF "1.prems"] by simp
    then have "recent (entries k) = recent (tl (entries k))" using o by (simp add: entries_def)
    ultimately have "\<exists>k'. evict ?k = Some k' \<and> cache_sound k' \<and> entries k' = recent (entries k)"
      using "1.IH" [OF True o sound] by simp
    then show ?thesis using True o by (simp add: evict.simps [of k])
  qed
qed

lemma remember_spec:
  assumes "cache_sound k" and "seen k i = None"
  shows "\<exists>k'. remember i r n k = Some k' \<and> cache_sound k' \<and> entries k' = recent (entries k @ [(i, r, n)])"
proof -
  let ?k = "k\<lparr>seen := (seen k)(i \<mapsto> r), seenSizes := (seenSizes k)(i := n),
       seenBytes := seenBytes k + int n, order := order k @ [i]\<rparr>"
  have i: "i \<notin> set (order k)" using assms unfolding cache_sound_def by blast
  have "cache_sound ?k"
    using assms i sum_update [OF i, of "seenSizes k" n] by (auto simp: cache_sound_def)
  moreover have "entries ?k = entries k @ [(i, r, n)]" using i by (auto simp: entries_def)
  ultimately show ?thesis using evict_spec [of ?k] by (simp add: remember_def)
qed

lemma entries_seen: "cache_sound k \<Longrightarrow> (i, r, n) \<in> set (entries k) \<Longrightarrow> seen k i = Some r"
  by (auto simp: entries_def cache_sound_def)

lemma seen_entries: "cache_sound k \<Longrightarrow> seen k i = Some r \<Longrightarrow> \<exists>n. (i, r, n) \<in> set (entries k)"
  by (force simp: entries_def cache_sound_def image_iff)

subsection \<open>Operations and the cache\<close>

lemma setConnection_frame:
  assumes "setConnectionLocked env mode listen c = (r, c')"
  shows "cache c' = cache c" "results c' = results c" "sentCount c' = sentCount c"
  using assms by (auto simp: setConnectionLocked_def Let_def split: if_splits option.splits sum.splits prod.splits)

lemma rotateIdentity_frame:
  assumes "rotateIdentity env cmd c = (r, c')"
  shows "cache c' = cache c" "results c' = results c" "sentCount c' = sentCount c"
  using assms by (auto simp: rotateIdentity_def Let_def split: if_splits option.splits sum.splits prod.splits)

lemma report_command_frame:
  assumes "report_command env cmd c = (r, c')"
  shows "cache c' = cache c" "results c' = results c" "sentCount c' = sentCount c"
proof -
  let ?c = "c\<lparr>updater := acknowledge_update env (get_string (cmd_Params cmd) ''acknowledged_update'') (updater c)\<rparr>"
  obtain q c1 where q: "(if get_string (cmd_Params cmd) ''connection_mode'' = [] then (Inr (), ?c)
      else setConnectionLocked env (get_string (cmd_Params cmd) ''connection_mode'')
        (get_string (cmd_Params cmd) ''listen_address'') ?c) = (q, c1)" by fastforce
  then have c1: "cache c1 = cache c" "results c1 = results c" "sentCount c1 = sentCount c"
    using setConnection_frame [of env _ _ ?c q c1] by (auto split: if_splits)
  have "c' = c1" using assms q by (cases q) (auto simp: report_command_def Let_def)
  then show "cache c' = cache c" "results c' = results c" "sentCount c' = sentCount c" using c1 by simp_all
qed

lemma run_command_frame:
  assumes "run_command env cmd c = (r, c')"
  shows "cache c' = cache c" "results c' = results c" "sentCount c' = sentCount c"
  using assms rotateIdentity_frame [of env cmd c _ c'] report_command_frame [of env cmd c r c']
  by (auto simp: run_command_def split: if_splits prod.splits sum.splits)

text \<open>What an execution adds to the history: nothing for a missing ID, a repeated or a refused command.\<close>

definition logged :: "('r, 'u) client_env \<Rightarrow> command \<Rightarrow> ('r, 'u) client \<Rightarrow> cache_entry list" where
  "logged env cmd c =
     (if cmd_ID cmd = [] \<or> seen (cache c) (cmd_ID cmd) \<noteq> None then []
      else case fst (run_command env cmd c) of Inl r \<Rightarrow> [] | Inr r \<Rightarrow> [(cmd_ID cmd, r, encoded_size env r)])"

lemma execute_spec:
  assumes "cache_sound (cache c)" and "entries (cache c) = recent h"
  obtains r c' where "execute env cmd c = Some (r, c')" "cache_sound (cache c')"
    "entries (cache c') = recent (h @ logged env cmd c)" "results c' = results c" "sentCount c' = sentCount c"
proof (cases "cmd_ID cmd = [] \<or> seen (cache c) (cmd_ID cmd) \<noteq> None")
  case True
  then have "\<exists>r. execute env cmd c = Some (r, c)" by (auto simp: execute_def split: option.splits)
  then show thesis using that True assms by (auto simp: logged_def)
next
  case False
  obtain q c1 where q: "run_command env cmd c = (q, c1)" by fastforce
  note frame = run_command_frame [OF q]
  show thesis
  proof (cases q)
    case (Inl r)
    then show thesis using that [of r c1] False q frame assms by (simp add: execute_def logged_def)
  next
    case (Inr r)
    obtain k where k: "remember (cmd_ID cmd) r (encoded_size env r) (cache c1) = Some k" "cache_sound k"
      "entries k = recent (entries (cache c) @ [(cmd_ID cmd, r, encoded_size env r)])"
      using remember_spec [of "cache c" "cmd_ID cmd" r "encoded_size env r"] False assms(1) frame(1) by auto
    then have "entries k = recent (h @ logged env cmd c)"
      using assms(2) False q Inr by (simp add: recent_snoc logged_def)
    then show thesis
      using that [of r "c1\<lparr>cache := k\<rparr>"] False q Inr k frame by (simp add: execute_def)
  qed
qed

fun execute_run ::
  "(('r, 'u) client_env \<times> command) list \<Rightarrow> ('r, 'u) client \<Rightarrow> cache_entry list \<Rightarrow>
     (('r, 'u) client \<times> cache_entry list) option" where
  "execute_run [] c h = Some (c, h)"
| "execute_run ((env, cmd) # steps) c h =
     (case execute env cmd c of None \<Rightarrow> None | Some (r, c') \<Rightarrow> execute_run steps c' (h @ logged env cmd c))"

lemma execute_run_spec:
  "cache_sound (cache c) \<Longrightarrow> entries (cache c) = recent h \<Longrightarrow>
   \<exists>c' h'. execute_run steps c h = Some (c', h') \<and> cache_sound (cache c') \<and> entries (cache c') = recent h'"
proof (induction steps arbitrary: c h)
  case (Cons step steps)
  obtain env cmd where step: "step = (env, cmd)" by fastforce
  obtain r c' where "execute env cmd c = Some (r, c')" "cache_sound (cache c')"
    "entries (cache c') = recent (h @ logged env cmd c)"
    using execute_spec [OF Cons.prems] by metis
  then show ?case using Cons.IH [of c' "h @ logged env cmd c"] step by simp
qed simp

lemma empty_cache_ok: "cache_sound empty_cache" "entries empty_cache = recent []"
  by (simp_all add: empty_cache_def cache_sound_def entries_def)

text \<open>The command cache implements its specification: starting empty, any sequence of commands runs without
  panic, and afterwards the cache holds exactly the longest recent part of the history of executed
  commands with at most 2048 entries and 32 MiB of encoded results; a command whose ID is in that
  part is answered with its stored result and nothing is executed or changed.\<close>
theorem command_cache_is_recent_history:
  assumes "c = New g disk r u"
  shows "\<exists>c' h. execute_run steps c [] = Some (c', h) \<and> entries (cache c') = recent h \<and>
    (\<forall>env cmd r n. cmd_ID cmd \<noteq> [] \<and> (cmd_ID cmd, r, n) \<in> set (recent h) \<longrightarrow> execute env cmd c' = Some (r, c'))"
proof -
  obtain c' h where run: "execute_run steps c [] = Some (c', h)" "cache_sound (cache c')" "entries (cache c') = recent h"
    using execute_run_spec [of c "[]" steps] assms empty_cache_ok by (auto simp: New_def)
  have "execute env cmd c' = Some (r, c')" if "cmd_ID cmd \<noteq> []" "(cmd_ID cmd, r, n) \<in> set (recent h)" for env cmd r n
    using that entries_seen [OF run(2), of "cmd_ID cmd" r n] run(3) by (simp add: execute_def)
  then show ?thesis using run by blast
qed

section \<open>The queue of results\<close>

lemma shrink_ID: "res_ID (shrink env r) = res_ID r"
  by (simp add: shrink_def failed_def)

lemma result_batch_spec:
  assumes "result_batch env used rs = (batch, rs')"
  shows "map res_ID rs' = map res_ID rs \<and> batch = take (length batch) rs' \<and>
    (batch \<noteq> [] \<longrightarrow> used + (\<Sum>r\<leftarrow>batch. encoded_size env r) \<le> batch_limit)"
  using assms
proof (induction env used rs arbitrary: batch rs' rule: result_batch.induct)
  case (2 env used r rs)
  let ?r = "shrink env r"
  show ?case
  proof (cases "used + encoded_size env ?r > batch_limit")
    case True
    then show ?thesis using "2.prems" by (auto simp: Let_def shrink_ID)
  next
    case False
    obtain b rest where b: "result_batch env (used + encoded_size env ?r) rs = (b, rest)" by fastforce
    then have eq: "batch = ?r # b" "rs' = ?r # rest" using "2.prems" False by (auto simp: Let_def)
    note ih = "2.IH" [OF refl refl False b]
    show ?thesis
    proof (cases "b = []")
      case True
      then show ?thesis using eq ih False by (simp add: shrink_ID)
    next
      case False
      then show ?thesis using eq ih by (simp add: shrink_ID)
    qed
  qed
qed simp

lemma result_batch_progress:
  assumes "rs \<noteq> []" and "\<And>i. encoded_size env (failed i oversize_text) \<le> batch_limit"
  shows "fst (result_batch env 0 rs) \<noteq> []"
proof -
  obtain r rest where rs: "rs = r # rest" using assms(1) by (cases rs) auto
  have "encoded_size env (shrink env r) \<le> batch_limit"
  proof (cases "case marshal_size env r of None \<Rightarrow> True | Some n \<Rightarrow> n > batch_limit")
    case True
    then show ?thesis using assms(2) by (simp add: shrink_def)
  next
    case False
    then show ?thesis by (auto simp: shrink_def encoded_size_def split: option.splits)
  qed
  then show ?thesis using rs by (simp add: Let_def split: prod.splits)
qed

fun executed_results :: "('r, 'u) client_env \<Rightarrow> command list \<Rightarrow> ('r, 'u) client \<Rightarrow> command_result list" where
  "executed_results env [] c = []"
| "executed_results env (m # ms) c =
     (case execute env m c of
        None \<Rightarrow> []
      | Some (r, c1) \<Rightarrow> r # executed_results env ms (c1\<lparr>results := results c1 @ [r]\<rparr>))"

lemma execute_all_spec:
  "cache_sound (cache c) \<Longrightarrow> entries (cache c) = recent h \<Longrightarrow>
   \<exists>c' h'. execute_all env ms c = Some c' \<and> cache_sound (cache c') \<and> entries (cache c') = recent h' \<and>
     results c' = results c @ executed_results env ms c \<and> sentCount c' = sentCount c"
proof (induction ms arbitrary: c h)
  case (Cons m ms)
  obtain r c1 where e: "execute env m c = Some (r, c1)" "cache_sound (cache c1)"
    "entries (cache c1) = recent (h @ logged env m c)" "results c1 = results c" "sentCount c1 = sentCount c"
    using execute_spec [OF Cons.prems] by metis
  then show ?case
    using Cons.IH [of "c1\<lparr>results := results c1 @ [r]\<rparr>" "h @ logged env m c"] by auto
qed auto

text \<open>
  The exchange with its history: the batch of the last report that is not answered, the IDs of
  the results that were in an answered report, and those of all results that commands have
  produced. A report may be lost with its connection, then the next event is another report.
\<close>

record ('r, 'u) exchange =
  ex_client :: "('r, 'u) client"
  ex_batch :: "command_result list"
  ex_delivered :: "string list"
  ex_produced :: "string list"

datatype ('r, 'u) exchange_event = SendReport "('r, 'u) client_env" | ReceiveReply "('r, 'u) client_env" reply
  | DirectCommand "('r, 'u) client_env" command

fun exchange_step :: "('r, 'u) exchange option \<Rightarrow> ('r, 'u) exchange_event \<Rightarrow> ('r, 'u) exchange option" where
  "exchange_step None ev = None"
| "exchange_step (Some x) (SendReport env) =
     (case make_report env (ex_client x) of (rt, c) \<Rightarrow> Some (x\<lparr>ex_client := c, ex_batch := rt_Results rt\<rparr>))"
| "exchange_step (Some x) (ReceiveReply env reply) =
     (case accept env reply (ex_client x) of
        None \<Rightarrow> None
      | Some (q, c) \<Rightarrow>
          Some (if rp_Error reply \<noteq> [] then x\<lparr>ex_client := c\<rparr>
            else x\<lparr>ex_client := c, ex_batch := [], ex_delivered := ex_delivered x @ map res_ID (ex_batch x),
              ex_produced := ex_produced x @ (if is_ok q then
                map res_ID (executed_results env (rp_Commands reply) (snd (acknowledge env reply (ex_client x)))) else [])\<rparr>))"
| "exchange_step (Some x) (DirectCommand env cmd) =
     (case execute env cmd (ex_client x) of None \<Rightarrow> None | Some (r, c) \<Rightarrow> Some (x\<lparr>ex_client := c\<lparr>lastDirect := now env\<rparr>\<rparr>))"

definition exchange_inv :: "('r, 'u) exchange option \<Rightarrow> bool" where
  "exchange_inv y \<longleftrightarrow> (\<exists>x h. y = Some x \<and> cache_sound (cache (ex_client x)) \<and> entries (cache (ex_client x)) = recent h \<and>
     ex_batch x = take (sentCount (ex_client x)) (results (ex_client x)) \<and>
     sentCount (ex_client x) \<le> length (results (ex_client x)) \<and>
     ex_produced x = ex_delivered x @ map res_ID (results (ex_client x)))"

lemma acknowledge_spec:
  assumes "acknowledge env reply c = (q, c')" and "sentCount c \<le> length (results c)"
  shows "cache c' = cache c \<and> (if rp_Error reply \<noteq> [] then q = Inl (rp_Error reply) \<and> c' = c
    else results c' = drop (sentCount c) (results c) \<and> sentCount c' = 0)"
proof (cases "rp_Error reply = []")
  case False
  then show ?thesis using assms(1) by (simp add: acknowledge_def)
next
  case True
  define c1 where "c1 = c\<lparr>updater := foldl (\<lambda>u r. if res_Status r = ''success'' then acknowledge_update env (res_ID r) u else u)
      (updater c) (take (sentCount c) (results c)), results := drop (sentCount c) (results c), sentCount := 0\<rparr>"
  obtain p c2 where p: "(if results c1 = [] then setConnectionLocked env (rp_ConnectionMode reply) (rp_ListenAddress reply) c1
      else (Inr (), c1)) = (p, c2)" by fastforce
  then have "cache c2 = cache c1" "results c2 = results c1" "sentCount c2 = sentCount c1"
    using setConnection_frame [of env _ _ c1 p c2] by (auto split: if_splits)
  moreover have "cache c1 = cache c" "results c1 = drop (sentCount c) (results c)" "sentCount c1 = 0"
    by (simp_all add: c1_def)
  moreover have "(q, c') = (case p of Inl e \<Rightarrow> (Inl e, c2) | Inr _ \<Rightarrow> (Inr (), c2\<lparr>updater := acknowledge_update env [] (updater c2)\<rparr>))"
    using assms True p by (simp add: acknowledge_def Let_def flip: c1_def split: sum.splits)
  ultimately show ?thesis using True by (cases p) auto
qed

lemma accept_spec:
  assumes "cache_sound (cache c)" and "entries (cache c) = recent h" and "sentCount c \<le> length (results c)"
  obtains q c' h' where "accept env reply c = Some (q, c')" "cache_sound (cache c')" "entries (cache c') = recent h'"
    "if rp_Error reply \<noteq> [] then c' = c else sentCount c' = 0 \<and> results c' = drop (sentCount c) (results c) @
      (if is_ok q then executed_results env (rp_Commands reply) (snd (acknowledge env reply c)) else [])"
proof -
  obtain p c1 where p: "acknowledge env reply c = (p, c1)" by fastforce
  note spec = acknowledge_spec [OF p assms(3)]
  show thesis
  proof (cases p)
    case (Inl e)
    then show thesis using that [of "Inl e" c1 h] p spec assms by (simp add: accept_def split: if_splits)
  next
    case (Inr u)
    then have ok: "rp_Error reply = []" using spec by (auto split: if_splits)
    obtain c2 h' where "execute_all env (rp_Commands reply) c1 = Some c2" "cache_sound (cache c2)" "entries (cache c2) = recent h'"
      "results c2 = results c1 @ executed_results env (rp_Commands reply) c1" "sentCount c2 = sentCount c1"
      using execute_all_spec [of c1 h env "rp_Commands reply"] spec assms by auto
    then show thesis using that [of "Inr ()" c2 h'] p Inr ok spec by (simp add: accept_def)
  qed
qed

lemma exchange_step_inv: "exchange_inv y \<Longrightarrow> exchange_inv (exchange_step y ev)"
proof -
  assume "exchange_inv y"
  then obtain x h where x: "y = Some x" "cache_sound (cache (ex_client x))" "entries (cache (ex_client x)) = recent h"
    "ex_batch x = take (sentCount (ex_client x)) (results (ex_client x))"
    "sentCount (ex_client x) \<le> length (results (ex_client x))"
    "ex_produced x = ex_delivered x @ map res_ID (results (ex_client x))"
    by (auto simp: exchange_inv_def)
  show ?thesis
  proof (cases ev)
    case (SendReport env)
    obtain b rs where b: "result_batch env 0 (results (ex_client x)) = (b, rs)" by fastforce
    note spec = result_batch_spec [OF b]
    have "length b \<le> length rs" using spec by (metis length_take min.cobounded1 min.commute)
    then show ?thesis
      using SendReport x b spec
      by (auto simp: exchange_inv_def make_report_def resultBatchLocked_def Let_def)
  next
    case (ReceiveReply env reply)
    obtain q c' h' where a: "accept env reply (ex_client x) = Some (q, c')" "cache_sound (cache c')" "entries (cache c') = recent h'"
      "if rp_Error reply \<noteq> [] then c' = ex_client x else sentCount c' = 0 \<and> results c' = drop (sentCount (ex_client x)) (results (ex_client x)) @
      (if is_ok q then executed_results env (rp_Commands reply) (snd (acknowledge env reply (ex_client x))) else [])"
      by (rule accept_spec [OF x(2,3,5)])
    let ?new = "if is_ok q then executed_results env (rp_Commands reply) (snd (acknowledge env reply (ex_client x))) else []"
    have ids: "map res_ID (results (ex_client x)) =
        map res_ID (ex_batch x) @ map res_ID (drop (sentCount (ex_client x)) (results (ex_client x)))"
      using x(4) by (metis append_take_drop_id map_append)
    show ?thesis
    proof (cases "rp_Error reply = []")
      case True
      then have "ex_produced x @ map res_ID ?new = (ex_delivered x @ map res_ID (ex_batch x)) @ map res_ID (results c')"
        using x(6) ids a(4) by simp
      then show ?thesis
        using ReceiveReply x(1) a True unfolding exchange_inv_def
        by (intro exI [of _ "x\<lparr>ex_client := c', ex_batch := [], ex_delivered := ex_delivered x @ map res_ID (ex_batch x),
          ex_produced := ex_produced x @ map res_ID ?new\<rparr>"] exI [of _ h']) simp
    next
      case False
      then show ?thesis using ReceiveReply x a unfolding exchange_inv_def by auto
    qed
  next
    case (DirectCommand env cmd)
    obtain r c' where "execute env cmd (ex_client x) = Some (r, c')" "cache_sound (cache c')"
      "entries (cache c') = recent (h @ logged env cmd (ex_client x))" "results c' = results (ex_client x)"
      "sentCount c' = sentCount (ex_client x)"
      by (rule execute_spec [OF x(2,3)])
    then show ?thesis using DirectCommand x unfolding exchange_inv_def by auto
  qed
qed

interpretation exchange: machine exchange_step exchange_inv
  by unfold_locales (rule exchange_step_inv)

text \<open>C12: The results of commands reach the Controller in order and none is lost: over any run of reports, replies
  and direct commands, however many reports are lost with their connection, all results that were
  produced are those in answered reports followed by those still queued, and the results an
  answer removes are exactly those of the report it answers.\<close>
theorem results_never_lost:
  assumes "x = \<lparr>ex_client = New g disk r u, ex_batch = [], ex_delivered = [], ex_produced = []\<rparr>"
  shows "\<exists>x'. foldl exchange_step (Some x) evs = Some x' \<and>
    ex_produced x' = ex_delivered x' @ map res_ID (results (ex_client x')) \<and>
    ex_batch x' = take (sentCount (ex_client x')) (results (ex_client x'))"
proof -
  have "exchange_inv (Some x)"
    using assms empty_cache_ok unfolding exchange_inv_def by (intro exI [of _ x] exI [of _ "[]"]) (simp add: New_def)
  from exchange.run_inv [OF this, of evs] show ?thesis by (auto simp: exchange_inv_def)
qed

section \<open>Memory and disk\<close>

definition in_sync :: "string option \<Rightarrow> string \<Rightarrow> ('r, 'u) client \<Rightarrow> bool" where
  "in_sync wd path c \<longleftrightarrow> file_wf (config_file (disk_cfg c)) \<and> Load wd path (config_file (disk_cfg c)) = Inr (cfg c)"

lemma in_sync_cong: "cfg c' = cfg c \<Longrightarrow> disk_cfg c' = disk_cfg c \<Longrightarrow> in_sync wd path c' = in_sync wd path c"
  by (simp add: in_sync_def)

lemma SplitHostPort_nonempty: "SplitHostPort s \<noteq> None \<Longrightarrow> s \<noteq> []"
  by (auto simp: SplitHostPort_def)

lemma setConnection_sync:
  assumes "setConnectionLocked env mode wanted c = (r, c')" and "in_sync wd path c"
  shows "in_sync wd path c'"
proof -
  define listen where "listen = (if wanted = [] then ListenAddress (cfg c) else wanted)"
  obtain q d where s: "SaveConnection (ConfigPath (cfg c)) mode listen (disk_cfg c) = (q, d)" by fastforce
  have wf: "file_wf (config_file (disk_cfg c))" and load: "Load wd path (config_file (disk_cfg c)) = Inr (cfg c)"
    using assms(2) by (simp_all add: in_sync_def)
  have "c' = c \<or> (\<exists>rn. mode \<noteq> [] \<and> SplitHostPort listen \<noteq> None \<and> (case (q, d) of
      (Inl e, d) \<Rightarrow> (Inl unsaved_connection_text, c\<lparr>disk_cfg := d\<rparr>)
    | (Inr _, d) \<Rightarrow> (Inr (), c\<lparr>disk_cfg := d, runner := rn, changed := True,
        cfg := (cfg c)\<lparr>ConnectionMode := mode, ListenAddress := listen\<rparr>\<rparr>)) = (r, c'))"
    using assms(1) unfolding setConnectionLocked_def Let_def listen_def [symmetric] s
    by (simp split: if_splits option.splits) blast+
  then show ?thesis
  proof (elim disjE exE conjE)
    assume "c' = c"
    then show ?thesis using assms(2) by simp
  next
    fix rn
    assume mode: "mode \<noteq> []" and "SplitHostPort listen \<noteq> None" and body: "(case (q, d) of
      (Inl e, d) \<Rightarrow> (Inl unsaved_connection_text, c\<lparr>disk_cfg := d\<rparr>)
    | (Inr _, d) \<Rightarrow> (Inr (), c\<lparr>disk_cfg := d, runner := rn, changed := True,
        cfg := (cfg c)\<lparr>ConnectionMode := mode, ListenAddress := listen\<rparr>\<rparr>)) = (r, c')"
    then have "listen \<noteq> []" using SplitHostPort_nonempty by blast
    note reload = connection_reload [OF s wf load mode this]
    show ?thesis
    proof (cases q)
      case (Inl e)
      then have "c' = c\<lparr>disk_cfg := d\<rparr>" "config_file d = config_file (disk_cfg c)" using body reload by simp_all
      then show ?thesis using wf load by (simp add: in_sync_def)
    next
      case (Inr u)
      then have "cfg c' = (cfg c)\<lparr>ConnectionMode := mode, ListenAddress := listen\<rparr>" "disk_cfg c' = d"
        using body by auto
      then show ?thesis using Inr reload edits_keep_wf(2) [OF wf s] by (simp add: in_sync_def)
    qed
  qed
qed

lemma rotateIdentity_cases:
  assumes "rotateIdentity env cmd c = (r, c')"
  obtains (refused) d where "res_Status r = ''failed''" "c' = c\<lparr>disk_cfg := d\<rparr>" "d = disk_cfg c"
  | (unwritten) d expires e where "res_Status r = ''failed''" "c' = c\<lparr>disk_cfg := d\<rparr>" "0 \<le> expires" "expires \<le> now env + 900"
      "RotateCredentials (ConfigPath (cfg c)) (get_string (cmd_Params cmd) ''token'') (get_string (cmd_Params cmd) ''agent_token'')
         (AgentToken (cfg c)) expires (disk_cfg c) = (Inl e, d)"
  | (same) "res_Status r = ''success''" "c' = c" "get_string (cmd_Params cmd) ''token'' = Token (cfg c)"
      "get_string (cmd_Params cmd) ''agent_token'' = AgentToken (cfg c)" "token_ok (AgentToken (cfg c))"
  | (rotated) d expires where "res_Status r = ''success''" "0 \<le> expires" "expires \<le> now env + 900"
      "token_ok (get_string (cmd_Params cmd) ''agent_token'')"
      "RotateCredentials (ConfigPath (cfg c)) (get_string (cmd_Params cmd) ''token'') (get_string (cmd_Params cmd) ''agent_token'')
         (AgentToken (cfg c)) expires (disk_cfg c) = (Inr (), d)"
      "c' = c\<lparr>disk_cfg := d, cfg := (cfg c)\<lparr>PreviousAgentToken := AgentToken (cfg c), PreviousTokenExpires := expires,
         Token := get_string (cmd_Params cmd) ''token'', AgentToken := get_string (cmd_Params cmd) ''agent_token''\<rparr>\<rparr>"
proof -
  let ?t = "get_string (cmd_Params cmd) ''token''" and ?a = "get_string (cmd_Params cmd) ''agent_token''"
  define install where "install expires =
    (case RotateCredentials (ConfigPath (cfg c)) ?t ?a (AgentToken (cfg c)) expires (disk_cfg c) of
       (Inl e, d) \<Rightarrow> (failed (cmd_ID cmd) unsaved_identity_text, c\<lparr>disk_cfg := d\<rparr>)
     | (Inr _, d) \<Rightarrow>
         (succeeded (cmd_ID cmd) [(''persisted'', JBool True), (''previous_expires_at'', JNum (itoa expires))],
          c\<lparr>disk_cfg := d, cfg := (cfg c)\<lparr>PreviousAgentToken := AgentToken (cfg c), PreviousTokenExpires := expires,
            Token := ?t, AgentToken := ?a\<rparr>\<rparr>))" for expires
  show thesis
  proof (cases "token_ok ?t \<and> token_ok ?a \<and> ConfigPath (cfg c) \<noteq> []")
    case False
    then have "(\<exists>m. r = failed (cmd_ID cmd) m) \<and> c' = c"
      using assms by (auto simp: rotateIdentity_def Let_def split: if_splits)
    then show thesis using refused [of "disk_cfg c"] by (auto simp: failed_def)
  next
    case ok: True
    show thesis
    proof (cases "?t = Token (cfg c) \<and> ?a = AgentToken (cfg c)")
      case True
      then show thesis using assms ok same by (auto simp: rotateIdentity_def Let_def succeeded_def)
    next
      case False
      then have body: "(case requested_expiry (now env + 900) (cmd_Params cmd) of
          None \<Rightarrow> (failed (cmd_ID cmd) bad_expiry_text, c)
        | Some expires \<Rightarrow> if expires < 0 \<or> expires > now env + 900 then (failed (cmd_ID cmd) long_grace_text, c)
            else install expires) = (r, c')"
        using assms ok unfolding rotateIdentity_def Let_def install_def if_not_P [OF False] by simp
      then consider "(\<exists>m. r = failed (cmd_ID cmd) m) \<and> c' = c"
        | expires where "0 \<le> expires" "expires \<le> now env + 900" "install expires = (r, c')"
        by (fastforce simp: not_less split: option.splits if_splits)
      then show thesis
      proof cases
        case 1
        then show thesis using refused [of "disk_cfg c"] by (auto simp: failed_def)
      next
        case 2
        obtain q d where q: "RotateCredentials (ConfigPath (cfg c)) ?t ?a (AgentToken (cfg c)) expires (disk_cfg c) = (q, d)"
          by fastforce
        show thesis
        proof (cases q)
          case (Inl e)
          then show thesis using 2 q unwritten [of d expires e] by (auto simp: install_def failed_def)
        next
          case (Inr u)
          then show thesis using 2 q ok rotated [of expires d] by (auto simp: install_def succeeded_def)
        qed
      qed
    qed
  qed
qed

lemma rotateIdentity_sync:
  assumes "rotateIdentity env cmd c = (r, c')" and "in_sync wd path c" and "now env + 900 \<le> 9223372036854775807"
  shows "in_sync wd path c'"
  using assms(1)
proof (cases rule: rotateIdentity_cases)
  case (unwritten d expires e)
  then show ?thesis
    using rotate_reload [OF unwritten(5), of wd path "cfg c"] assms(2,3) by (simp add: in_sync_def)
next
  case (rotated d expires)
  then show ?thesis
    using rotate_reload [OF rotated(5), of wd path "cfg c"] edits_keep_wf(1) [OF _ rotated(5)] assms(2,3)
    by (cases "cfg c") (simp add: in_sync_def)
qed (use assms(2) in \<open>simp_all add: in_sync_def\<close>)

lemma run_command_sync:
  assumes "run_command env cmd c = (r, c')" and "in_sync wd path c" and "now env + 900 \<le> 9223372036854775807"
  shows "in_sync wd path c'"
proof -
  consider q where "rotateIdentity env cmd c = (q, c')" | "cfg c' = cfg c" "disk_cfg c' = disk_cfg c" | "report_command env cmd c = (r, c')"
    using assms(1) by (auto simp: run_command_def split: if_splits prod.splits sum.splits)
  then show ?thesis
  proof cases
    case 1
    then show ?thesis using rotateIdentity_sync assms(2,3) by blast
  next
    case 2
    then show ?thesis using in_sync_cong assms(2) by blast
  next
    case 3
    let ?c = "c\<lparr>updater := acknowledge_update env (get_string (cmd_Params cmd) ''acknowledged_update'') (updater c)\<rparr>"
    have sync: "in_sync wd path ?c" using assms(2) in_sync_cong [of ?c c] by simp
    obtain q c1 where q: "(if get_string (cmd_Params cmd) ''connection_mode'' = [] then (Inr (), ?c)
        else setConnectionLocked env (get_string (cmd_Params cmd) ''connection_mode'')
          (get_string (cmd_Params cmd) ''listen_address'') ?c) = (q, c1)" by fastforce
    then have "in_sync wd path c1"
      using setConnection_sync [of env _ _ ?c q c1] sync by (auto split: if_splits)
    moreover have "c' = c1" using 3 q by (cases q) (auto simp: report_command_def Let_def)
    ultimately show ?thesis by simp
  qed
qed

lemma execute_sync:
  assumes "execute env cmd c = Some (r, c')" and "in_sync wd path c" and "now env + 900 \<le> 9223372036854775807"
  shows "in_sync wd path c'"
proof (cases "c' = c")
  case False
  obtain q c1 where q: "run_command env cmd c = (q, c1)" by fastforce
  then have "cfg c' = cfg c1" "disk_cfg c' = disk_cfg c1"
    using assms(1) False by (auto simp: execute_def split: if_splits option.splits sum.splits)
  then show ?thesis using run_command_sync [OF q assms(2,3)] in_sync_cong by blast
qed (use assms(2) in simp)

lemma execute_all_sync:
  "execute_all env ms c = Some c' \<Longrightarrow> in_sync wd path c \<Longrightarrow> now env + 900 \<le> 9223372036854775807 \<Longrightarrow> in_sync wd path c'"
proof (induction ms arbitrary: c)
  case (Cons m ms)
  then obtain r c1 where e: "execute env m c = Some (r, c1)" "execute_all env ms (c1\<lparr>results := results c1 @ [r]\<rparr>) = Some c'"
    by (auto split: option.splits)
  have "in_sync wd path (c1\<lparr>results := results c1 @ [r]\<rparr>)"
    using execute_sync [OF e(1) Cons.prems(2,3)] in_sync_cong [of "c1\<lparr>results := results c1 @ [r]\<rparr>" c1] by simp
  then show ?case using Cons.IH [OF e(2)] Cons.prems(3) by blast
qed simp

lemma acknowledge_sync:
  assumes "acknowledge env reply c = (q, c')" and "in_sync wd path c"
  shows "in_sync wd path c'"
proof (cases "rp_Error reply = []")
  case False
  then show ?thesis using assms by (simp add: acknowledge_def)
next
  case True
  define c1 where "c1 = (if sentCount c \<le> length (results c)
      then c\<lparr>updater := foldl (\<lambda>u r. if res_Status r = ''success'' then acknowledge_update env (res_ID r) u else u)
             (updater c) (take (sentCount c) (results c)),
           results := drop (sentCount c) (results c)\<rparr>
      else c)\<lparr>sentCount := 0\<rparr>"
  obtain p c2 where p: "(if results c1 = [] then setConnectionLocked env (rp_ConnectionMode reply) (rp_ListenAddress reply) c1
      else (Inr (), c1)) = (p, c2)" by fastforce
  have "in_sync wd path c1" using assms(2) in_sync_cong [of c1 c] by (simp add: c1_def)
  then have "in_sync wd path c2" using p setConnection_sync [of env _ _ c1 p c2] by (auto split: if_splits)
  moreover have "(q, c') = (case p of Inl e \<Rightarrow> (Inl e, c2) | Inr _ \<Rightarrow> (Inr (), c2\<lparr>updater := acknowledge_update env [] (updater c2)\<rparr>))"
    using assms(1) True p by (simp add: acknowledge_def Let_def flip: c1_def split: sum.splits)
  then have "cfg c' = cfg c2" "disk_cfg c' = disk_cfg c2" by (cases p; simp)+
  ultimately show ?thesis using in_sync_cong by blast
qed

lemma accept_sync:
  assumes "accept env reply c = Some (q, c')" and "in_sync wd path c" and "now env + 900 \<le> 9223372036854775807"
  shows "in_sync wd path c'"
proof -
  obtain p c1 where p: "acknowledge env reply c = (p, c1)" by fastforce
  have "in_sync wd path c1" by (rule acknowledge_sync [OF p assms(2)])
  then show ?thesis
    using assms(1,3) p execute_all_sync [of env "rp_Commands reply" c1 c' wd path]
    by (cases p) (auto simp: accept_def)
qed

fun event_env :: "('r, 'u) exchange_event \<Rightarrow> ('r, 'u) client_env" where
  "event_env (SendReport env) = env"
| "event_env (ReceiveReply env reply) = env"
| "event_env (DirectCommand env cmd) = env"

lemma exchange_step_sync:
  assumes "exchange_step (Some x) ev = Some x'" and "in_sync wd path (ex_client x)"
    and "now (event_env ev) + 900 \<le> 9223372036854775807"
  shows "in_sync wd path (ex_client x')"
proof (cases ev)
  case (SendReport env)
  then have "cfg (ex_client x') = cfg (ex_client x)" "disk_cfg (ex_client x') = disk_cfg (ex_client x)"
    using assms(1) by (auto simp: make_report_def resultBatchLocked_def Let_def split: prod.splits)
  then show ?thesis using assms(2) in_sync_cong by blast
next
  case (ReceiveReply env reply)
  then obtain q c where a: "accept env reply (ex_client x) = Some (q, c)" using assms(1) by (auto split: option.splits)
  then have "ex_client x' = c" using assms(1) ReceiveReply by (auto split: if_splits)
  then show ?thesis using accept_sync [OF a assms(2)] assms(3) ReceiveReply by simp
next
  case (DirectCommand env cmd)
  then show ?thesis
    using assms execute_sync [of env cmd "ex_client x" _ _ wd path] by (auto simp: in_sync_def split: option.splits)
qed

lemma exchange_run_sync:
  "foldl exchange_step (Some x) evs = Some x' \<Longrightarrow> in_sync wd path (ex_client x) \<Longrightarrow>
   (\<And>ev. ev \<in> set evs \<Longrightarrow> now (event_env ev) + 900 \<le> 9223372036854775807) \<Longrightarrow> in_sync wd path (ex_client x')"
proof (induction evs arbitrary: x)
  case (Cons ev evs)
  have stuck: "foldl exchange_step None es = None" for es :: "('a, 'b) exchange_event list" by (induction es) simp_all
  obtain x1 where x1: "exchange_step (Some x) ev = Some x1"
    using Cons.prems(1) stuck [of evs] by (cases "exchange_step (Some x) ev") auto
  have "in_sync wd path (ex_client x1)" using exchange_step_sync [OF x1 Cons.prems(2)] Cons.prems(3) by simp
  then show ?case using Cons.IH [of x1] Cons.prems(1,3) x1 by simp
qed simp

text \<open>The configuration in memory and the one on disk never diverge: over any run of reports, replies and direct
  commands, with identities rotated and connections changed on the way and any write of the file
  failing at any point, a restart of the Agent loads exactly the configuration it was running with.\<close>
theorem restart_loads_running_config:
  assumes "file_wf (config_file (disk_cfg (ex_client x)))"
    and "Load wd path (config_file (disk_cfg (ex_client x))) = Inr (cfg (ex_client x))"
    and "foldl exchange_step (Some x) evs = Some x'"
    and "\<And>ev. ev \<in> set evs \<Longrightarrow> now (event_env ev) + 900 \<le> 9223372036854775807"
  shows "Load wd path (config_file (disk_cfg (ex_client x'))) = Inr (cfg (ex_client x'))"
  using exchange_run_sync [OF assms(3) _ assms(4), of wd path] assms(1,2) by (simp add: in_sync_def)

section \<open>Identity rotation\<close>

text \<open>A rotation of the identity is all or nothing: when it fails the identity is the one before; when it
  succeeds both new tokens are in force at once, the former Agent token stays valid until the
  granted time and, however far in the future the request asked, no token but the new one is
  valid 15 minutes later.\<close>
theorem rotation_grace:
  assumes "rotateIdentity env cmd c = (r, c')" and "get_string (cmd_Params cmd) ''agent_token'' \<noteq> AgentToken (cfg c)"
  shows "(res_Status r = ''failed'' \<and> cfg c' = cfg c) \<or>
    (res_Status r = ''success'' \<and> Token (cfg c') = get_string (cmd_Params cmd) ''token'' \<and>
     (\<forall>env'. validAgentToken env' c' (get_string (cmd_Params cmd) ''agent_token'')) \<and>
     (\<forall>env'. now env' \<le> PreviousTokenExpires (cfg c') \<and> AgentToken (cfg c) \<noteq> [] \<longrightarrow> validAgentToken env' c' (AgentToken (cfg c))) \<and>
     (\<forall>env' t. now env' > now env + 900 \<and> validAgentToken env' c' t \<longrightarrow> t = get_string (cmd_Params cmd) ''agent_token''))"
  using assms(1)
proof (cases rule: rotateIdentity_cases)
  case (rotated d expires)
  let ?a = "get_string (cmd_Params cmd) ''agent_token''"
  have f: "Token (cfg c') = get_string (cmd_Params cmd) ''token''" "AgentToken (cfg c') = ?a"
    "PreviousAgentToken (cfg c') = AgentToken (cfg c)" "PreviousTokenExpires (cfg c') = expires"
    by (simp_all add: rotated(6))
  have "?a \<noteq> []" using rotated(4) by (auto simp: token_ok_def)
  then have "validAgentToken env' c' ?a" for env' :: "('a, 'b) client_env" by (simp add: validAgentToken_def f)
  moreover have "validAgentToken env' c' (AgentToken (cfg c))"
    if "now env' \<le> PreviousTokenExpires (cfg c')" "AgentToken (cfg c) \<noteq> []" for env' :: "('a, 'b) client_env"
    using that by (simp add: validAgentToken_def f)
  moreover have "t = ?a" if "now env' > now env + 900" "validAgentToken env' c' t" for env' :: "('a, 'b) client_env" and t
    using that rotated(3) by (auto simp: validAgentToken_def f split: if_splits)
  ultimately show ?thesis using rotated(1) f(1) by blast
qed (use assms(2) in simp_all)

section \<open>Direct calls\<close>

text \<open>Direct calls are guarded and cannot be replayed: whatever arrives, the client changes only when the call
  belongs to a session at most 30 seconds old, its packet is authentic under that session's key,
  its token is valid and its time is within 90 seconds, and then by executing that one command;
  each call consumes its session, so that the same call sent again is refused and changes nothing.\<close>
theorem direct_call_guarded:
  assumes "rpc_handler decode encode env h c ss = Some (q, c', ss')"
  shows "(c' = c \<or> (\<exists>s request ch r c1. map_of ss (hello_PublicKey h) = Some s \<and> now env - ds_created s \<le> 30 \<and>
      Open decode (ds_channel s) (hello_Packet h) = Inr (request, ch) \<and> validAgentToken env c (dr_Token request) \<and>
      \<bar>now env - dr_Timestamp request\<bar> \<le> 90 \<and> execute env (dr_Command request) c = Some (r, c1) \<and>
      c' = c1\<lparr>lastDirect := now env\<rparr>)) \<and>
    (is_ok q \<longrightarrow> lastDirect c' = now env) \<and>
    (\<forall>env'. rpc_handler decode encode env' h c' ss' = Some (Inl Unauthorized, c', ss'))"
proof -
  have rest: "ss' = AList.delete (hello_PublicKey h) ss"
    using assms by (auto simp: rpc_handler_def Let_def split: option.splits sum.splits if_splits prod.splits)
  then have "map_of ss' (hello_PublicKey h) = None" "AList.delete (hello_PublicKey h) ss' = ss'"
    by (simp_all add: AList.delete_conv' AList.delete_idem)
  then have "rpc_handler decode encode env' h c' ss' = Some (Inl Unauthorized, c', ss')" for env' :: "('a, 'b) client_env"
    by (simp add: rpc_handler_def Let_def)
  moreover have "(c' = c \<and> \<not> is_ok q) \<or> (\<exists>s request ch r c1. map_of ss (hello_PublicKey h) = Some s \<and> now env - ds_created s \<le> 30 \<and>
      Open decode (ds_channel s) (hello_Packet h) = Inr (request, ch) \<and> validAgentToken env c (dr_Token request) \<and>
      \<bar>now env - dr_Timestamp request\<bar> \<le> 90 \<and> execute env (dr_Command request) c = Some (r, c1) \<and>
      c' = c1\<lparr>lastDirect := now env\<rparr>)"
    using assms by (fastforce simp: rpc_handler_def Let_def not_less split: option.splits sum.splits if_splits prod.splits)
  ultimately show ?thesis by auto
qed

text \<open>The table of sessions never has more than 128 entries, none older than the last greeting allows.\<close>

lemma hello_handler_bounded:
  assumes "hello_handler cr hmac env random nonces c ss = (q, ss')" and "distinct (map fst ss)" and "length ss \<le> 128"
  shows "distinct (map fst ss') \<and> length ss' \<le> 128 \<and> (is_ok q \<longrightarrow> (\<forall>s\<in>set ss'. now env - ds_created (snd s) \<le> 30))"
proof -
  let ?live = "filter (\<lambda>s. now env - ds_created (snd s) \<le> 30) ss"
  have live: "distinct (map fst ?live)" "length ?live \<le> 128"
    using assms(2,3) by (auto simp: distinct_map_filter intro: order.trans [OF length_filter_le])
  have upd: "distinct (map fst (AList.update k v ?live))"
      "length ?live < 128 \<Longrightarrow> length (AList.update k v ?live) \<le> 128"
      "\<forall>s\<in>set (AList.update k v ?live). s = (k, v) \<or> s \<in> set ?live" for k v
  proof -
    show "distinct (map fst (AList.update k v ?live))" using live(1) by (simp add: distinct_update)
    have "\<forall>s\<in>set (AList.update k v xs). s = (k, v) \<or> s \<in> set xs" for xs by (induction xs) auto
    then show "\<forall>s\<in>set (AList.update k v ?live). s = (k, v) \<or> s \<in> set ?live" .
    have "length (AList.update k v xs) \<le> Suc (length xs)" for xs by (induction xs) auto
    then show "length ?live < 128 \<Longrightarrow> length (AList.update k v ?live) \<le> 128" by (metis Suc_leI order.trans)
  qed
  then show ?thesis
    using assms live by (auto simp: hello_handler_def Let_def split: list.splits if_splits sum.splits) fastforce+
qed

section \<open>A sample client\<close>

definition config_sample :: agent_config where
  "config_sample = (case Load (Some ''/etc'') ''/etc/agent.json'' (config_file disk_sample) of
     Inr c \<Rightarrow> c | Inl _ \<Rightarrow> fields_config [] 0 0)"

definition client_sample :: "(unit, unit) client" where
  "client_sample = New config_sample disk_sample () ()"

lemma client_sample_eq: "client_sample = \<lparr>cfg = config_sample, results = [], sentCount = 0, cache = empty_cache, changed = False,
     lastDirect = 0, disk_cfg = disk_sample, runner = (), updater = ()\<rparr>"
proof -
  have "ConnectionMode config_sample = ''websocket''" "ListenAddress config_sample = ''0.0.0.0:23889''" by code_simp+
  then show ?thesis by (simp add: client_sample_def New_def or_else_def)
qed

definition env_sample :: "(unit, unit) client_env" where
  "env_sample = \<lparr>handle = (\<lambda>cmd r. (succeeded (cmd_ID cmd) [], r)), snapshot = (\<lambda>_. []), capabilities = (\<lambda>_. []),
     update_connection = (\<lambda>mode listen r. Some r), stage = (\<lambda>i u s v x. (Inr [], x)), acknowledge_update = (\<lambda>_ u. u),
     update_available = True, update_snapshot = (\<lambda>_. JNull), marshal_size = (\<lambda>r. Some 40), agent_version = ''1'',
     now = 1000\<rparr>"

definition command_sample :: command where
  "command_sample = \<lparr>cmd_ID = ''1'', cmd_Action = ''core.apply'', cmd_Params = []\<rparr>"

definition rotate_sample :: command where
  "rotate_sample = \<lparr>cmd_ID = ''2'', cmd_Action = ''identity.rotate'',
     cmd_Params = [(''agent_token'', JStr (replicate 32 CHR ''b'')), (''token'', JStr (replicate 32 CHR ''c''))]\<rparr>"

definition reply_sample :: reply where
  "reply_sample = \<lparr>rp_TelemetryAck = 0, rp_Stream = None, rp_AckResults = [], rp_ConnectionMode = [], rp_ListenAddress = [],
     rp_Commands = [command_sample, rotate_sample], rp_Interval = 5, rp_Error = []\<rparr>"

definition exchange_sample :: "(unit, unit) exchange" where
  "exchange_sample = \<lparr>ex_client = client_sample, ex_batch = [], ex_delivered = [], ex_produced = []\<rparr>"

lemma load_sample: "Load (Some ''/etc'') ''/etc/agent.json'' (config_file disk_sample) = Inr config_sample"
proof -
  have "is_ok (Load (Some ''/etc'') ''/etc/agent.json'' (config_file disk_sample))" by code_simp
  then show ?thesis by (auto simp: config_sample_def split: sum.splits)
qed

lemma config_sample_fields: "AgentToken config_sample = ''a''" "ConfigPath config_sample = ''/etc/agent.json''"
  by code_simp+

lemma sample_executes:
  "execute env_sample command_sample client_sample = Some (succeeded ''1'' [], client_sample\<lparr>cache :=
     \<lparr>seen = [''1'' \<mapsto> succeeded ''1'' []], seenSizes = (\<lambda>_. 0)(''1'' := 40), order = [''1''], seenBytes = 40\<rparr>\<rparr>)"
  by (simp add: execute_def command_sample_def client_sample_eq empty_cache_def run_command_def env_sample_def
      encoded_size_def remember_def evict.simps max_order_def max_seen_def)

theorem command_cache_is_recent_history_witness:
  "\<exists>c h. execute_run [(env_sample, command_sample), (env_sample, command_sample)] client_sample [] = Some (c, h) \<and>
     execute env_sample command_sample c = Some (succeeded ''1'' [], c)"
proof -
  obtain c h where run: "execute_run [(env_sample, command_sample), (env_sample, command_sample)] client_sample [] = Some (c, h)"
    and hits: "\<forall>env cmd r n. cmd_ID cmd \<noteq> [] \<and> (cmd_ID cmd, r, n) \<in> set (recent h) \<longrightarrow> execute env cmd c = Some (r, c)"
    using command_cache_is_recent_history [OF client_sample_def, of "[(env_sample, command_sample), (env_sample, command_sample)]"] by auto
  have "logged env_sample command_sample client_sample = [(''1'', succeeded ''1'' [], 40)]"
    by (simp add: logged_def command_sample_def client_sample_eq empty_cache_def run_command_def env_sample_def encoded_size_def)
  then have "h = [(''1'', succeeded ''1'' [], 40)]"
    using run sample_executes by (simp add: execute_def logged_def command_sample_def)
  then have "(cmd_ID command_sample, succeeded ''1'' [], 40) \<in> set (recent h)"
    by (simp add: fits_def max_order_def max_seen_def command_sample_def)
  moreover have "cmd_ID command_sample \<noteq> []" by (simp add: command_sample_def)
  ultimately show ?thesis using run hits by blast
qed

theorem results_never_lost_witness:
  "\<exists>x. foldl exchange_step (Some exchange_sample) [SendReport env_sample, ReceiveReply env_sample reply_sample, SendReport env_sample] = Some x \<and>
     ex_produced x = ex_delivered x @ map res_ID (results (ex_client x)) \<and>
     ex_batch x = take (sentCount (ex_client x)) (results (ex_client x))"
  by (rule results_never_lost [OF exchange_sample_def [unfolded client_sample_def]])

theorem restart_loads_running_config_witness:
  "\<exists>x. foldl exchange_step (Some exchange_sample) [ReceiveReply env_sample reply_sample] = Some x \<and>
     Load (Some ''/etc'') ''/etc/agent.json'' (config_file (disk_cfg (ex_client x))) = Inr (cfg (ex_client x))"
proof -
  have inv: "exchange_inv (Some exchange_sample)"
    using empty_cache_ok unfolding exchange_inv_def exchange_sample_def client_sample_eq
    by (intro exI [of _ exchange_sample] exI [of _ "[]"]) (simp add: exchange_sample_def client_sample_eq)
  obtain x where x: "foldl exchange_step (Some exchange_sample) [ReceiveReply env_sample reply_sample] = Some x"
    using exchange.run_inv [OF inv, of "[ReceiveReply env_sample reply_sample]"] by (auto simp: exchange_inv_def)
  have "file_wf (config_file disk_sample)" by code_simp
  then show ?thesis
    using restart_loads_running_config [OF _ _ x, of "Some ''/etc''" "''/etc/agent.json''"] load_sample x
    by (simp add: exchange_sample_def client_sample_eq env_sample_def)
qed

lemma sample_rotates: "res_Status (fst (rotateIdentity env_sample rotate_sample client_sample)) = ''success''"
proof -
  let ?t = "replicate 32 CHR ''c''" and ?a = "replicate 32 CHR ''b''"
  have p: "get_string (cmd_Params rotate_sample) ''token'' = ?t" "get_string (cmd_Params rotate_sample) ''agent_token'' = ?a"
    "requested_expiry 1900 (cmd_Params rotate_sample) = Some 1900" by code_simp+
  have "\<not> contains_any ?t [CHR '' '', tab, carriage_return, newline]" "\<not> contains_any ?a [CHR '' '', tab, carriage_return, newline]"
    by code_simp+
  then have ok: "token_ok ?t" "token_ok ?a" by (simp_all add: token_ok_def)
  have "?a \<noteq> ''a''" by (simp add: numeral_eq_Suc)
  moreover have "fst (RotateCredentials ''/etc/agent.json'' ?t ?a ''a'' 1900 disk_sample) = Inr ()"
    by (simp add: RotateCredentials_def edit_config_def read_config_def disk_sample_def writeConfig_def next_fault_def)
  ultimately show ?thesis
    using ok by (auto simp: rotateIdentity_def Let_def p client_sample_eq config_sample_fields env_sample_def succeeded_def split: prod.splits)
qed

theorem rotation_grace_witness:
  "validAgentToken env_sample (snd (rotateIdentity env_sample rotate_sample client_sample)) (replicate 32 CHR ''b'') \<and>
   \<not> validAgentToken (env_sample\<lparr>now := 1901\<rparr>) (snd (rotateIdentity env_sample rotate_sample client_sample)) ''a''"
proof -
  obtain r c where r: "rotateIdentity env_sample rotate_sample client_sample = (r, c)" by fastforce
  have a: "get_string (cmd_Params rotate_sample) ''agent_token'' = replicate 32 CHR ''b''" by code_simp
  have "replicate 32 CHR ''b'' \<noteq> ''a''" by (simp add: numeral_eq_Suc)
  moreover have "AgentToken (cfg client_sample) = ''a''" by (simp add: client_sample_eq config_sample_fields)
  moreover have "res_Status r \<noteq> ''failed''" using sample_rotates r by simp
  ultimately have "\<forall>env'. validAgentToken env' c (replicate 32 CHR ''b'')"
    and late: "\<forall>env' t. now env' > now env_sample + 900 \<and> validAgentToken env' c t \<longrightarrow> t = replicate 32 CHR ''b''"
    using rotation_grace [OF r] unfolding a by metis+
  moreover have "\<not> validAgentToken (env_sample\<lparr>now := 1901\<rparr>) c ''a''"
    using spec [OF spec [OF late, of "env_sample\<lparr>now := 1901\<rparr>"], of "''a''"] \<open>replicate 32 CHR ''b'' \<noteq> ''a''\<close>
    by (auto simp: env_sample_def)
  ultimately show ?thesis using r by simp
qed

definition direct_sample :: sessions where
  "direct_sample = [(''k'', \<lparr>ds_channel = sample_channel sample_aead, ds_created = 990\<rparr>)]"

definition request_sample :: direct_request where
  "request_sample = \<lparr>dr_Token = ''a'', dr_Timestamp = 1010, dr_Command = command_sample\<rparr>"

definition call_sample :: hello where
  "call_sample = \<lparr>hello_PublicKey = ''k'', hello_Packet = \<lparr>Sequence = 1, Ciphertext = b64_encode (replicate 16 0)\<rparr>\<rparr>"

theorem direct_call_guarded_witness:
  "\<exists>p c. rpc_handler (\<lambda>_. Some request_sample) (\<lambda>_. Some []) env_sample call_sample client_sample direct_sample = Some (Inr p, c, []) \<and>
     rpc_handler (\<lambda>_. Some request_sample) (\<lambda>_. Some []) env_sample call_sample c [] = Some (Inl Unauthorized, c, [])"
proof -
  have "b64_decode (b64_encode (replicate 16 0)) = Some (replicate 16 0)" by (rule b64_decode_encode)
  then have "Open (\<lambda>_. Some request_sample) (sample_channel sample_aead) (hello_Packet call_sample) =
      Inr (request_sample, (sample_channel sample_aead)\<lparr>received := 1\<rparr>)"
    by (simp add: Open_def call_sample_def sample_channel_def sample_aead_def MaxPacket_def length_b64_encode)
  moreover have "validAgentToken env_sample client_sample ''a''"
    by (simp add: validAgentToken_def client_sample_eq config_sample_fields)
  ultimately obtain p c where rpc: "rpc_handler (\<lambda>_. Some request_sample) (\<lambda>_. Some []) env_sample call_sample client_sample direct_sample =
      Some (Inr p, c, [])"
    using sample_executes
    by (simp add: rpc_handler_def Let_def direct_sample_def call_sample_def request_sample_def env_sample_def Seal_def
        sample_channel_def max_u64_def)
  show ?thesis using direct_call_guarded [OF rpc] rpc by blast
qed

text \<open>
  Validation and the channel disagree on the key of the Controller: \<open>Validate\<close> accepts padded
  standard base64, the channel decodes only the unpadded URL alphabet.
\<close>

theorem padded_key_validates_but_fails:
  "\<exists>c. Validate url_sample c False = Inr () \<and> (\<forall>cr random. \<not> is_ok (NewClient cr random (MasterPublicKey c)))"
proof -
  obtain c where c: "decode_config (JObj home_sample) = Inr c" "DataDir c = ''/etc/home-data''" "XrayMode c = ''embedded''"
     "ConnectionMode c = ''websocket''" "ServerID c = ''s''" "Token c = ''t''"
    using home_config_sample by blast
  let ?key = "replicate 43 CHR ''A'' @ ''=''"
  have "filter (\<lambda>c. c \<noteq> newline \<and> c \<noteq> carriage_return) ?key = ?key"
    by (simp add: filter_replicate newline_def carriage_return_def char_of_def)
  moreover have "\<not> has_prefix (replicate 43 CHR ''A'') ''=''" by (simp add: numeral_eq_Suc)
  ultimately have "std_decode ?key = Some (replicate 32 0)"
    using raw_key_sample by (simp add: std_decode_def Let_def butlast_append)
  then have "Validate url_sample (c\<lparr>MasterPublicKey := ?key\<rparr>) False = Inr ()"
    using c by (simp add: Validate_def ValidConnectionMode_def url_sample_def is_abs_def master_key_bytes_def)
  moreover have "traverse_opt b64_value ?key = None"
    by (rule traverse_opt_None [of "CHR ''=''"]) (simp_all add: b64_value_def b64_alphabet_def)
  then have "b64_decode ?key = None"
    using \<open>filter (\<lambda>c. c \<noteq> newline \<and> c \<noteq> carriage_return) ?key = ?key\<close> by (simp add: b64_decode_def)
  then have "\<not> is_ok (NewClient cr random ?key)" for cr random
    by (auto simp: NewClient_def NewClientWithPrivate_def decodeKey_def bind_res_def split: sum.splits)
  ultimately show ?thesis by (intro exI [of _ "c\<lparr>MasterPublicKey := ?key\<rparr>"]) simp
qed

end
