(* ===== verification/Observation_Delta.thy ===== *)
theory Observation_Delta
  imports Wire_Channel Json_Model
begin

text \<open>
  Telemetry deltas (internal/wire/delta.go): the Agent sends, instead of a full observation,
  the fields that changed since the last acknowledged one and the paths that disappeared;
  the controller applies them to its copy. A nil Go map is \<open>None\<close>. Cloning through JSON
  is the identity on a decoded tree, so \<open>CloneObservation\<close> keeps the checks of the code:
  the encoded size and the nesting depth.
\<close>

section \<open>Definitions\<close>

datatype delta_error = ObservationTooLarge | TooDeeplyNested | InvalidBaseline
  | InvalidFull | MissingBaseline | InvalidRemovalPath | MissingRemovalParent
  | MissingRemovalField

record observation_delta =
  Base :: u64
  Full :: bool
  Set :: "jmap option"
  Removed :: "string list list"

definition entries :: "jmap option \<Rightarrow> jmap" where
  "entries mp = (case mp of None \<Rightarrow> [] | Some kvs \<Rightarrow> kvs)"

fun boundedObservation :: "json \<Rightarrow> nat \<Rightarrow> bool" where
  "boundedObservation (JObj kvs) depth =
     (depth \<le> 64 \<and> list_all (\<lambda>kv. boundedObservation (snd kv) (depth + 1)) kvs)"
| "boundedObservation (JArr vs) depth =
     (depth \<le> 64 \<and> list_all (\<lambda>v. boundedObservation v (depth + 1)) vs)"
| "boundedObservation _ depth = (depth \<le> 64)"

definition CloneObservation :: "jmap option \<Rightarrow> (delta_error, jmap option) res" where
  "CloneObservation value = (case value of
      None \<Rightarrow> Inr None
    | Some kvs \<Rightarrow>
        if length (json_encode (JObj kvs)) > MaxPacket then Inl ObservationTooLarge
        else if \<not> boundedObservation (JObj kvs) 0 then Inl TooDeeplyNested
        else Inr (Some kvs))"

abbreviation map_weight :: "jmap \<Rightarrow> nat" where
  "map_weight \<equiv> size_list (size_prod (\<lambda>_. 0) size)"

function observationDiff :: "jmap \<Rightarrow> jmap \<Rightarrow> string list \<Rightarrow> jmap \<times> string list list"
  and diff_loop :: "jmap \<Rightarrow> jmap \<Rightarrow> string list \<Rightarrow> jmap \<times> string list list" where
  "observationDiff old next path =
     (case diff_loop old next path of (upd, removed) \<Rightarrow>
        (upd, removed @ map (\<lambda>key. path @ [key])
           (filter (\<lambda>key. map_of next key = None) (map fst old))))"
| "diff_loop old [] path = ([], [])"
| "diff_loop old ((key, value) # rest) path =
     (case diff_loop old rest path of (upd, removed) \<Rightarrow>
        (case map_of old key of
           None \<Rightarrow> ((key, value) # upd, removed)
         | Some prior \<Rightarrow>
             if prior = value then (upd, removed)
             else (case (prior, value) of
                (JObj before, JObj after) \<Rightarrow>
                  (case observationDiff before after (path @ [key]) of (patch, gone) \<Rightarrow>
                     ((if patch = [] then upd else (key, JObj patch) # upd), gone @ removed))
              | _ \<Rightarrow> ((key, value) # upd, removed))))"
  by pat_completeness auto
termination
  by (relation "measure (case_sum (\<lambda>(old, next, path). 2 * map_weight next + 1)
     (\<lambda>(old, next, path). 2 * map_weight next))") auto

definition observationGeneration :: "jmap \<Rightarrow> json" where
  "observationGeneration value = (case map_of value ''xray_stats'' of
      Some (JObj stats) \<Rightarrow> get_any stats ''generation'' | _ \<Rightarrow> JNull)"

definition delta_json :: "observation_delta \<Rightarrow> json" where
  "delta_json d = JObj ([(''base'', JNum (nat_digits (unat (Base d))))] @
     (if Full d then [(''full'', JBool True)] else []) @
     (if entries (Set d) = [] then [] else [(''set'', JObj (entries (Set d)))]) @
     (if Removed d = [] then [] else [(''removed'', JArr (map (\<lambda>p. JArr (map JStr p)) (Removed d)))]))"

definition MakeObservationDelta :: "u64 \<Rightarrow> jmap option \<Rightarrow> jmap option \<Rightarrow> observation_delta" where
  "MakeObservationDelta base old next =
     (let full = \<lparr>Base = base, Full = True, Set = next, Removed = []\<rparr> in
      case old of
        None \<Rightarrow> full
      | Some prev \<Rightarrow>
          if observationGeneration prev \<noteq> observationGeneration (entries next) then full
          else (case observationDiff prev (entries next) [] of (upd, removed) \<Rightarrow>
             let delta = \<lparr>Base = base, Full = False, Set = Some upd, Removed = removed\<rparr> in
             if length (json_encode (delta_json delta)) \<ge> length (json_encode (delta_json full))
             then full else delta))"

text \<open>The JSON tags say \<open>omitempty\<close>: an empty \<open>set\<close> arrives as a nil map.\<close>

definition transmit :: "observation_delta \<Rightarrow> observation_delta" where
  "transmit d = d\<lparr>Set := (if entries (Set d) = [] then None else Set d)\<rparr>"

function mergeObservation :: "jmap \<Rightarrow> jmap \<Rightarrow> jmap" where
  "mergeObservation target [] = target"
| "mergeObservation target ((key, value) # upd) =
     mergeObservation
       (put_key key
         (case (map_of target key, value) of
            (Some (JObj before), JObj after) \<Rightarrow> JObj (mergeObservation before after)
          | _ \<Rightarrow> value) target) upd"
  by pat_completeness auto
termination
  by (relation "measure (\<lambda>(target, upd). map_weight upd)") auto

fun removePath :: "string list \<Rightarrow> jmap \<Rightarrow> (delta_error, jmap) res" where
  "removePath [] kvs = Inl InvalidRemovalPath"
| "removePath [key] kvs =
     (if map_of kvs key = None then Inl MissingRemovalField else Inr (AList.delete key kvs))"
| "removePath (key # path) kvs =
     (case map_of kvs key of
        Some (JObj sub) \<Rightarrow> bind_res (removePath path sub) (\<lambda>sub'. Inr (put_key key (JObj sub') kvs))
      | _ \<Rightarrow> Inl MissingRemovalParent)"

fun removeAllPaths :: "string list list \<Rightarrow> jmap \<Rightarrow> (delta_error, jmap) res" where
  "removeAllPaths [] kvs = Inr kvs"
| "removeAllPaths (path # paths) kvs =
     (if path = [] \<or> length path > 64 then Inl InvalidRemovalPath
      else bind_res (removePath path kvs) (removeAllPaths paths))"

definition ApplyObservationDelta ::
  "u64 \<Rightarrow> jmap option \<Rightarrow> observation_delta \<Rightarrow> (delta_error, jmap option) res" where
  "ApplyObservationDelta base old delta =
     (if Base delta \<noteq> base \<or> \<not> boundedObservation (JObj (entries (Set delta))) 0
      then Inl InvalidBaseline
      else if Full delta then
        (if Set delta = None \<or> Removed delta \<noteq> [] then Inl InvalidFull
         else CloneObservation (Set delta))
      else case old of
        None \<Rightarrow> Inl MissingBaseline
      | Some prev \<Rightarrow>
          bind_res (CloneObservation (Some prev)) (\<lambda>copy.
          bind_res (removeAllPaths (Removed delta) (entries copy)) (\<lambda>next.
          CloneObservation (Some (mergeObservation next (entries (Set delta)))))))"

section \<open>Merging\<close>

lemma sorted_mergeObservation: "sorted_keys target \<Longrightarrow> sorted_keys (mergeObservation target upd)"
  by (induction target upd rule: mergeObservation.induct) (simp_all add: sorted_put_key)

definition merged_value :: "json option \<Rightarrow> json \<Rightarrow> json" where
  "merged_value prior v = (case (prior, v) of
      (Some (JObj before), JObj after) \<Rightarrow> JObj (mergeObservation before after) | _ \<Rightarrow> v)"

lemma merged_value_simps [simp]:
  "merged_value None v = v"
  "merged_value (Some (JObj before)) (JObj after) = JObj (mergeObservation before after)"
  "as_map v = None \<Longrightarrow> merged_value prior v = v"
  "as_map p = None \<Longrightarrow> merged_value (Some p) v = v"
  by (auto simp: merged_value_def split: option.splits json.splits)

lemma mergeObservation_Cons:
  "mergeObservation target ((key, v) # upd) =
     mergeObservation (put_key key (merged_value (map_of target key) v) target) upd"
  by (simp add: merged_value_def)

lemma map_of_mergeObservation:
  assumes "sorted_keys target" "distinct (map fst upd)"
  shows "map_of (mergeObservation target upd) k =
    (case map_of upd k of None \<Rightarrow> map_of target k
     | Some v \<Rightarrow> Some (merged_value (map_of target k) v))"
  using assms
proof (induction upd arbitrary: target)
  case (Cons kv upd)
  obtain key w where kv: "kv = (key, w)" by (cases kv)
  have fresh: "map_of upd key = None"
    using Cons.prems(2) kv by (auto simp: map_of_eq_None_iff)
  let ?t = "put_key key (merged_value (map_of target key) w) target"
  have "map_of (mergeObservation ?t upd) k = (case map_of upd k of None \<Rightarrow> map_of ?t k
      | Some v \<Rightarrow> Some (merged_value (map_of ?t k) v))"
    using Cons.prems kv by (intro Cons.IH) (auto simp: sorted_put_key)
  then show ?case
    using Cons.prems(1) kv fresh
    by (cases "map_of upd k"; cases "k = key")
      (auto simp: mergeObservation_Cons map_of_put_key simp del: mergeObservation.simps)
qed simp

section \<open>Removing paths\<close>

fun remove_seq :: "string list list \<Rightarrow> jmap \<Rightarrow> (delta_error, jmap) res" where
  "remove_seq [] kvs = Inr kvs"
| "remove_seq (path # paths) kvs = bind_res (removePath path kvs) (remove_seq paths)"

lemma removeAllPaths_seq:
  assumes "\<And>p. p \<in> set ps \<Longrightarrow> p \<noteq> [] \<and> length p \<le> 64"
  shows "removeAllPaths ps kvs = remove_seq ps kvs"
  using assms
proof (induction ps arbitrary: kvs)
  case (Cons p ps)
  have "removeAllPaths ps = remove_seq ps"
    by (rule ext, rule Cons.IH) (simp add: Cons.prems)
  moreover have "p \<noteq> []" "\<not> length p > 64"
    using Cons.prems [of p] by auto
  ultimately show ?case by simp
qed simp

lemma remove_seq_append:
  "remove_seq (ps @ qs) kvs = bind_res (remove_seq ps kvs) (remove_seq qs)"
proof (induction ps arbitrary: kvs)
  case (Cons p ps)
  then show ?case by (cases "removePath p kvs") simp_all
qed simp

lemma removePath_under:
  "path \<noteq> [] \<Longrightarrow> map_of kvs key = Some (JObj sub) \<Longrightarrow>
     removePath (key # path) kvs =
       bind_res (removePath path sub) (\<lambda>sub'. Inr (put_key key (JObj sub') kvs))"
  by (cases path) simp_all

lemma remove_seq_under:
  assumes "sorted_keys kvs" "map_of kvs key = Some (JObj sub)" "[] \<notin> set ps"
  shows "remove_seq (map (Cons key) ps) kvs =
    bind_res (remove_seq ps sub) (\<lambda>sub'. Inr (put_key key (JObj sub') kvs))"
  using assms
proof (induction ps arbitrary: kvs sub)
  case Nil
  then show ?case by (simp add: put_key_same)
next
  case (Cons p ps)
  have under: "removePath (key # p) kvs =
      bind_res (removePath p sub) (\<lambda>sub'. Inr (put_key key (JObj sub') kvs))"
    using Cons.prems by (intro removePath_under) auto
  show ?case
  proof (cases "removePath p sub")
    case (Inr sub')
    have "remove_seq (map (Cons key) ps) (put_key key (JObj sub') kvs) =
        bind_res (remove_seq ps sub')
          (\<lambda>s. Inr (put_key key (JObj s) (put_key key (JObj sub') kvs)))"
      using Cons.prems by (intro Cons.IH) (auto simp: sorted_put_key map_of_put_key)
    then show ?thesis
      using under Inr Cons.prems(1) by (simp add: put_key_twice)
  qed (use under in simp)
qed

lemma remove_seq_group:
  assumes "sorted_keys cur" "distinct (map fst nx)"
    and "\<And>k v. (k, v) \<in> set nx \<Longrightarrow> G k v \<noteq> [] \<Longrightarrow>
      \<exists>b. map_of cur k = Some (JObj b) \<and> remove_seq (G k v) b = Inr (R k v)"
    and "\<And>k v. (k, v) \<in> set nx \<Longrightarrow> [] \<notin> set (G k v)"
  shows "\<exists>cur'. remove_seq (concat (map (\<lambda>(k, v). map (Cons k) (G k v)) nx)) cur = Inr cur' \<and>
    sorted_keys cur' \<and> (\<forall>k. map_of cur' k = (case map_of nx k of
        Some v \<Rightarrow> if G k v = [] then map_of cur k else Some (JObj (R k v))
      | None \<Rightarrow> map_of cur k))"
  using assms
proof (induction nx arbitrary: cur)
  case (Cons kv nx)
  obtain k v where kv: "kv = (k, v)" by (cases kv)
  have fresh: "map_of nx k = None"
    using Cons.prems(2) kv by (auto simp: map_of_eq_None_iff)
  show ?case
  proof (cases "G k v = []")
    case True
    have "\<exists>cur'. remove_seq (concat (map (\<lambda>(k, v). map (Cons k) (G k v)) nx)) cur = Inr cur' \<and>
        sorted_keys cur' \<and> (\<forall>j. map_of cur' j = (case map_of nx j of
          Some v \<Rightarrow> if G j v = [] then map_of cur j else Some (JObj (R j v))
        | None \<Rightarrow> map_of cur j))"
      by (rule Cons.IH) (use Cons.prems kv in auto)
    then obtain cur' where c: "remove_seq (concat (map (\<lambda>(k, v). map (Cons k) (G k v)) nx)) cur = Inr cur'"
        "sorted_keys cur'" "\<And>j. map_of cur' j = (case map_of nx j of
          Some v \<Rightarrow> if G j v = [] then map_of cur j else Some (JObj (R j v))
        | None \<Rightarrow> map_of cur j)"
      by blast
    show ?thesis
      using c(1,2) True kv fresh by (intro exI [of _ cur']) (simp add: c(3))
  next
    case False
    then obtain b where b: "map_of cur k = Some (JObj b)" "remove_seq (G k v) b = Inr (R k v)"
      using Cons.prems(3) [of k v] kv by auto
    let ?cur = "put_key k (JObj (R k v)) cur"
    have head: "remove_seq (map (Cons k) (G k v)) cur = Inr ?cur"
      using Cons.prems(1,4) kv b remove_seq_under [of cur k b "G k v"] by auto
    have "\<exists>cur'. remove_seq (concat (map (\<lambda>(k, v). map (Cons k) (G k v)) nx)) ?cur = Inr cur' \<and>
        sorted_keys cur' \<and> (\<forall>j. map_of cur' j = (case map_of nx j of
          Some v \<Rightarrow> if G j v = [] then map_of ?cur j else Some (JObj (R j v))
        | None \<Rightarrow> map_of ?cur j))"
    proof (rule Cons.IH)
      fix j w assume "(j, w) \<in> set nx" "G j w \<noteq> []"
      moreover have "j \<noteq> k"
        using Cons.prems(2) kv \<open>(j, w) \<in> set nx\<close> by force
      ultimately show "\<exists>b. map_of ?cur j = Some (JObj b) \<and> remove_seq (G j w) b = Inr (R j w)"
        using Cons.prems(1) Cons.prems(3) [of j w] by (simp add: map_of_put_key)
    qed (use Cons.prems kv in \<open>auto simp: sorted_put_key\<close>)
    then obtain cur' where c: "remove_seq (concat (map (\<lambda>(k, v). map (Cons k) (G k v)) nx)) ?cur = Inr cur'"
        "sorted_keys cur'" "\<And>j. map_of cur' j = (case map_of nx j of
          Some v \<Rightarrow> if G j v = [] then map_of ?cur j else Some (JObj (R j v))
        | None \<Rightarrow> map_of ?cur j)"
      by blast
    show ?thesis
      using c(1,2) head False kv fresh Cons.prems(1)
      by (intro exI [of _ cur']) (simp add: c(3) remove_seq_append map_of_put_key split: option.split)
  qed
qed simp

lemma remove_seq_keys:
  assumes "sorted_keys cur" "distinct ks" "\<And>k. k \<in> set ks \<Longrightarrow> map_of cur k \<noteq> None"
  shows "\<exists>cur'. remove_seq (map (\<lambda>k. [k]) ks) cur = Inr cur' \<and> sorted_keys cur' \<and>
    (\<forall>k. map_of cur' k = (if k \<in> set ks then None else map_of cur k))"
  using assms
proof (induction ks arbitrary: cur)
  case (Cons k ks)
  have present: "map_of cur k \<noteq> None"
    using Cons.prems(3) by simp
  have "map_of (AList.delete k cur) j \<noteq> None" if "j \<in> set ks" for j
    using that Cons.prems by (auto simp: AList.delete_conv')
  then obtain cur' where c: "remove_seq (map (\<lambda>k. [k]) ks) (AList.delete k cur) = Inr cur'"
      "sorted_keys cur'"
      "\<forall>j. map_of cur' j = (if j \<in> set ks then None else map_of (AList.delete k cur) j)"
    using Cons.IH [of "AList.delete k cur"] Cons.prems(1,2) by (auto simp: sorted_delete)
  show ?case
    using c present by (intro exI [of _ cur']) (auto simp: AList.delete_conv')
qed simp

section \<open>What a diff contains\<close>

text \<open>
  The contribution of one entry of the new observation: what it adds to the set, and which
  paths below it disappear.
\<close>

definition entry_set :: "jmap \<Rightarrow> string \<Rightarrow> json \<Rightarrow> json option" where
  "entry_set old k v = (case map_of old k of
      None \<Rightarrow> Some v
    | Some prior \<Rightarrow>
        if prior = v then None
        else (case (prior, v) of
           (JObj before, JObj after) \<Rightarrow>
             (let patch = fst (observationDiff before after []) in
              if patch = [] then None else Some (JObj patch))
         | _ \<Rightarrow> Some v))"

definition entry_gone :: "jmap \<Rightarrow> string \<Rightarrow> json \<Rightarrow> string list list" where
  "entry_gone old k v = (case (map_of old k, v) of
      (Some (JObj before), JObj after) \<Rightarrow>
        (if before = after then [] else snd (observationDiff before after []))
    | _ \<Rightarrow> [])"

definition entry_set_at :: "string list \<Rightarrow> jmap \<Rightarrow> string \<Rightarrow> json \<Rightarrow> json option" where
  "entry_set_at path old k v = (case map_of old k of
      None \<Rightarrow> Some v
    | Some prior \<Rightarrow>
        if prior = v then None
        else (case (prior, v) of
           (JObj before, JObj after) \<Rightarrow>
             (let patch = fst (observationDiff before after (path @ [k])) in
              if patch = [] then None else Some (JObj patch))
         | _ \<Rightarrow> Some v))"

definition entry_gone_at :: "string list \<Rightarrow> jmap \<Rightarrow> string \<Rightarrow> json \<Rightarrow> string list list" where
  "entry_gone_at path old k v = (case (map_of old k, v) of
      (Some (JObj before), JObj after) \<Rightarrow>
        (if before = after then [] else snd (observationDiff before after (path @ [k])))
    | _ \<Rightarrow> [])"

lemma diff_loop_Cons:
  "fst (diff_loop old ((k, v) # rest) path) =
     (case entry_set_at path old k v of None \<Rightarrow> fst (diff_loop old rest path)
      | Some w \<Rightarrow> (k, w) # fst (diff_loop old rest path))"
  "snd (diff_loop old ((k, v) # rest) path) =
     entry_gone_at path old k v @ snd (diff_loop old rest path)"
  by (auto simp: entry_set_at_def entry_gone_at_def Let_def
      split: option.splits json.splits prod.splits)

lemma observationDiff_eq:
  "fst (observationDiff old nx path) = fst (diff_loop old nx path)"
  "snd (observationDiff old nx path) = snd (diff_loop old nx path) @
     map (\<lambda>key. path @ [key]) (filter (\<lambda>key. map_of nx key = None) (map fst old))"
  by (simp_all split: prod.splits)

declare observationDiff.simps [simp del] diff_loop.simps(2) [simp del]

lemma weight_member: "(k, JObj a) \<in> set nx \<Longrightarrow> map_weight a < map_weight nx"
proof (induction nx)
  case (Cons kv nx)
  then show ?case by (cases kv) fastforce
qed simp

definition path_free :: "jmap \<Rightarrow> bool" where
  "path_free a \<longleftrightarrow> (\<forall>b q. fst (observationDiff b a q) = fst (observationDiff b a []) \<and>
     snd (observationDiff b a q) = map ((@) q) (snd (observationDiff b a [])))"

lemma path_freeD:
  assumes "path_free a"
  shows "fst (observationDiff b a q) = fst (observationDiff b a [])"
    "snd (observationDiff b a q) = map ((@) q) (snd (observationDiff b a []))"
  using assms unfolding path_free_def by blast+

lemma entry_at_path:
  assumes "\<And>a. v = JObj a \<Longrightarrow> path_free a"
  shows "entry_set_at path old k v = entry_set old k v"
    "entry_gone_at path old k v = map (\<lambda>p. path @ k # p) (entry_gone old k v)"
proof -
  have nested: "fst (observationDiff b a (path @ [k])) = fst (observationDiff b a [])"
    "snd (observationDiff b a (path @ [k])) = map (\<lambda>p. path @ k # p) (snd (observationDiff b a []))"
    if "v = JObj a" for a b
    using path_freeD [OF assms [OF that], of b "path @ [k]"] by auto
  then show "entry_set_at path old k v = entry_set old k v"
    by (auto simp: entry_set_at_def entry_set_def split: option.splits json.splits)
  show "entry_gone_at path old k v = map (\<lambda>p. path @ k # p) (entry_gone old k v)"
    using nested by (auto simp: entry_gone_at_def entry_gone_def split: option.splits json.splits)
qed

lemma diff_loop_gone:
  assumes "\<forall>a. JObj a \<in> snd ` set nx \<longrightarrow> path_free a"
  shows "snd (diff_loop old nx path) =
      map ((@) path) (concat (map (\<lambda>(k, v). map (Cons k) (entry_gone old k v)) nx))"
  using assms
proof (induction nx)
  case (Cons kv nx)
  then show ?case
    by (cases kv) (auto simp: diff_loop_Cons entry_at_path)
qed simp

lemma diff_loop_keys: "fst ` set (fst (diff_loop old nx path)) \<subseteq> fst ` set nx"
proof (induction nx)
  case (Cons kv nx)
  then show ?case
    by (cases kv) (auto simp: diff_loop_Cons split: option.splits)
qed simp

lemma sorted_diff_loop: "sorted_keys nx \<Longrightarrow> sorted_keys (fst (diff_loop old nx path))"
proof (induction nx)
  case (Cons kv nx)
  then show ?case
    using diff_loop_keys [of old nx path]
    by (cases kv) (fastforce simp: diff_loop_Cons split: option.splits)
qed simp

lemma map_of_diff_loop:
  assumes "\<forall>a. JObj a \<in> snd ` set nx \<longrightarrow> path_free a" "distinct (map fst nx)"
  shows "map_of (fst (diff_loop old nx path)) j =
      (case map_of nx j of None \<Rightarrow> None | Some v \<Rightarrow> entry_set old j v)"
  using assms
proof (induction nx)
  case (Cons kv nx)
  obtain k v where kv: "kv = (k, v)" by (cases kv)
  have "k \<notin> fst ` set (fst (diff_loop old nx path))"
    using diff_loop_keys [of old nx path] Cons.prems(2) kv by auto
  then have "map_of (fst (diff_loop old nx path)) k = None"
    by (simp add: map_of_eq_None_iff)
  then show ?case
    using Cons kv by (auto simp: diff_loop_Cons entry_at_path split: option.splits)
qed simp

lemma diff_loop_fst_path:
  assumes "\<forall>a. JObj a \<in> snd ` set nx \<longrightarrow> path_free a"
  shows "fst (diff_loop old nx path) = fst (diff_loop old nx [])"
  using assms
proof (induction nx)
  case (Cons kv nx)
  then show ?case
    by (cases kv) (auto simp: diff_loop_Cons entry_at_path split: option.splits)
qed simp

lemma diff_path_free: "path_free nx"
proof (induction nx rule: measure_induct_rule [of map_weight])
  case (less nx)
  have nested: "\<forall>a. JObj a \<in> snd ` set nx \<longrightarrow> path_free a"
    using less weight_member by fastforce
  show ?case
    unfolding path_free_def observationDiff_eq
    using diff_loop_gone [OF nested] diff_loop_fst_path [OF nested] by simp
qed

lemmas diff_set = map_of_diff_loop [OF allI [OF impI [OF diff_path_free]]]
lemmas diff_gone = diff_loop_gone [OF allI [OF impI [OF diff_path_free]]]

lemma gone_nonempty: "[] \<notin> set (entry_gone old k v)"
proof -
  have "[] \<notin> set (snd (observationDiff b a []))" for a b
    by (auto simp: observationDiff_eq diff_gone)
  then show ?thesis
    by (auto simp: entry_gone_def split: option.splits json.splits)
qed

lemma map_append_Nil [simp]: "map ((@) []) ps = ps"
  by (simp add: map_idI)

section \<open>Applying a diff gives the new observation\<close>

lemma entry_both_objects:
  assumes "map_of old k = Some (JObj b)" "b \<noteq> a"
  shows "entry_gone old k (JObj a) = snd (observationDiff b a [])"
    "entry_set old k (JObj a) = (let patch = fst (observationDiff b a []) in
       if patch = [] then None else Some (JObj patch))"
  using assms by (simp_all add: entry_gone_def entry_set_def)

lemma entry_other:
  assumes "\<And>a b. v = JObj a \<Longrightarrow> map_of old k = Some (JObj b) \<Longrightarrow> a = b"
  shows "entry_gone old k v = []"
    "entry_set old k v = (if map_of old k = Some v then None else Some v)"
  using assms by (auto simp: entry_gone_def entry_set_def split: option.splits json.splits)

lemma merged_value_other:
  "(\<And>a b. v = JObj a \<Longrightarrow> p = Some (JObj b) \<Longrightarrow> False) \<Longrightarrow> merged_value p v = v"
  by (auto simp: merged_value_def split: option.splits json.splits)

text \<open>One key of the new observation, after the removals: merging restores its value.\<close>

lemma entry_restored:
  assumes nested: "\<And>a b. v = JObj a \<Longrightarrow> map_of old k = Some (JObj b) \<Longrightarrow>
      \<exists>b'. remove_seq (snd (observationDiff b a [])) b = Inr b' \<and>
        mergeObservation b' (fst (observationDiff b a [])) = a"
    and mid: "mid_k = (if entry_gone old k v = [] then map_of old k
      else Some (JObj (projr (remove_seq (entry_gone old k v)
        (case map_of old k of Some (JObj b) \<Rightarrow> b | _ \<Rightarrow> [])))))"
  shows "(case entry_set old k v of None \<Rightarrow> mid_k | Some w \<Rightarrow> Some (merged_value mid_k w)) = Some v"
proof (cases "\<exists>a b. v = JObj a \<and> map_of old k = Some (JObj b) \<and> b \<noteq> a")
  case True
  then obtain a b where ab: "v = JObj a" "map_of old k = Some (JObj b)" "b \<noteq> a" by blast
  then obtain b' where b': "remove_seq (snd (observationDiff b a [])) b = Inr b'"
      "mergeObservation b' (fst (observationDiff b a [])) = a"
    using nested by blast
  note both = entry_both_objects [OF ab(2,3)]
  have "mid_k = Some (JObj b')"
    using b'(1) ab both(1) mid by (cases "snd (observationDiff b a []) = []") auto
  then show ?thesis
    using b'(2) ab both(2) by (auto simp: Let_def)
next
  case False
  then have other: "a = b" if "v = JObj a" "map_of old k = Some (JObj b)" for a b
    using that by blast
  have "mid_k = map_of old k"
    using entry_other(1) [OF other] mid by simp
  moreover have "merged_value (map_of old k) v = v" if "map_of old k \<noteq> Some v"
    by (rule merged_value_other) (use other that in blast)
  ultimately show ?thesis
    using entry_other(2) [OF other] by simp
qed

lemma diff_reconstructs:
  assumes "wf_json (JObj old)" "wf_json (JObj nx)"
  shows "\<exists>mid. remove_seq (snd (observationDiff old nx [])) old = Inr mid \<and>
    mergeObservation mid (fst (observationDiff old nx [])) = nx"
  using assms
proof (induction nx arbitrary: old rule: measure_induct_rule [of map_weight])
  case (less nx)
  have sorted: "sorted_keys old" "sorted_keys nx"
    using less.prems by simp_all
  note dist = sorted [THEN sorted_keys_distinct]
  let ?R = "\<lambda>k v. projr (remove_seq (entry_gone old k v)
      (case map_of old k of Some (JObj b) \<Rightarrow> b | _ \<Rightarrow> []))"
  let ?D = "filter (\<lambda>key. map_of nx key = None) (map fst old)"
  have nested: "\<exists>b'. remove_seq (snd (observationDiff b a [])) b = Inr b' \<and>
      mergeObservation b' (fst (observationDiff b a [])) = a"
    if "map_of nx k = Some (JObj a)" "map_of old k = Some (JObj b)" for k a b
    using less.IH [OF weight_member [OF map_of_SomeD [OF that(1)]], of b]
      wf_json_member [OF less.prems(1) that(2)] wf_json_member [OF less.prems(2) that(1)]
    by blast
  have group: "\<exists>b. map_of old k = Some (JObj b) \<and> remove_seq (entry_gone old k v) b = Inr (?R k v)"
    if mem: "(k, v) \<in> set nx" and gone: "entry_gone old k v \<noteq> []" for k v
  proof -
    obtain a b where ab: "v = JObj a" "map_of old k = Some (JObj b)" "a \<noteq> b"
      using gone entry_other(1) [of v old k] by blast
    have "map_of nx k = Some (JObj a)"
      using mem ab(1) dist(2) by simp
    then show ?thesis
      using nested [of k a b] ab entry_both_objects(1) [of old k b a] by auto
  qed
  obtain mid1 where mid1: "remove_seq (concat (map (\<lambda>(k, v). map (Cons k) (entry_gone old k v)) nx)) old
        = Inr mid1" "sorted_keys mid1" "\<And>k. map_of mid1 k = (case map_of nx k of
        Some v \<Rightarrow> if entry_gone old k v = [] then map_of old k else Some (JObj (?R k v))
      | None \<Rightarrow> map_of old k)"
    using remove_seq_group [of old nx "entry_gone old" ?R, OF sorted(1) dist(2) group gone_nonempty]
    by blast
  have "map_of mid1 k \<noteq> None" if "k \<in> set ?D" for k
  proof -
    have "map_of nx k = None" "map_of old k \<noteq> None"
      using that by (auto simp: weak_map_of_SomeI map_of_eq_None_iff)
    then show ?thesis by (simp add: mid1(3))
  qed
  then obtain mid where mid: "remove_seq (map (\<lambda>k. [k]) ?D) mid1 = Inr mid" "sorted_keys mid"
      "\<And>k. map_of mid k = (if k \<in> set ?D then None else map_of mid1 k)"
    using remove_seq_keys [OF mid1(2), of ?D] dist(1) by auto
  have "map_of (mergeObservation mid (fst (observationDiff old nx []))) k = map_of nx k" for k
  proof (cases "map_of nx k")
    case None
    then have "map_of mid k = None"
      using map_of_eq_None_iff [of old k] by (simp add: mid(3) mid1(3) image_iff)
    with None show ?thesis
      using mid(2) sorted_diff_loop [OF sorted(2), THEN sorted_keys_distinct]
      by (simp add: map_of_mergeObservation observationDiff_eq diff_set dist)
  next
    case (Some v)
    have "map_of mid k = (if entry_gone old k v = [] then map_of old k else Some (JObj (?R k v)))"
      using Some by (simp add: mid(3) mid1(3))
    then have "(case entry_set old k v of None \<Rightarrow> map_of mid k
        | Some w \<Rightarrow> Some (merged_value (map_of mid k) w)) = Some v"
      using nested Some by (intro entry_restored) auto
    with Some show ?thesis
      using mid(2) sorted_diff_loop [OF sorted(2), THEN sorted_keys_distinct]
      by (simp add: map_of_mergeObservation observationDiff_eq diff_set dist)
  qed
  then have "mergeObservation mid (fst (observationDiff old nx [])) = nx"
    using mid(2) sorted(2) by (intro map_of_sorted_eq) (auto simp: sorted_mergeObservation)
  moreover have "remove_seq (snd (observationDiff old nx [])) old = Inr mid"
    using mid1(1) mid(1) by (simp add: observationDiff_eq diff_gone remove_seq_append)
  ultimately show ?case by blast
qed

section \<open>Depth bounds\<close>

lemma bounded_depth: "boundedObservation v d \<Longrightarrow> d \<le> 64"
  by (cases v) simp_all

lemma bounded_member:
  "boundedObservation (JObj kvs) d \<Longrightarrow> map_of kvs k = Some v \<Longrightarrow> boundedObservation v (Suc d)"
  by (auto simp: list_all_iff dest!: map_of_SomeD)

lemma diff_loop_member:
  "(k, w) \<in> set (fst (diff_loop old nx path)) \<Longrightarrow>
     \<exists>v. (k, v) \<in> set nx \<and> (w = v \<or> (\<exists>a b q. v = JObj a \<and> w = JObj (fst (observationDiff b a q))))"
proof (induction nx)
  case (Cons kv nx)
  obtain j v where kv: "kv = (j, v)" by (cases kv)
  have "w = v \<or> (\<exists>a b q. v = JObj a \<and> w = JObj (fst (observationDiff b a q)))"
    if "entry_set_at path old j v = Some w"
    using that by (fastforce simp: entry_set_at_def Let_def split: option.splits json.splits if_splits)
  then show ?case
    using Cons kv by (auto simp: diff_loop_Cons split: option.splits)
qed simp

lemma bounded_diff:
  "boundedObservation (JObj nx) d \<Longrightarrow>
     boundedObservation (JObj (fst (observationDiff old nx path))) d"
proof (induction nx arbitrary: d old path rule: measure_induct_rule [of map_weight])
  case (less nx)
  have "boundedObservation w (Suc d)" if mem: "(k, w) \<in> set (fst (diff_loop old nx path))" for k w
  proof -
    obtain v where v: "(k, v) \<in> set nx"
        "w = v \<or> (\<exists>a b q. v = JObj a \<and> w = JObj (fst (observationDiff b a q)))"
      using diff_loop_member [OF mem] by blast
    have "boundedObservation v (Suc d)"
      using less.prems v(1) by (auto simp: list_all_iff)
    then show ?thesis
      using v less.IH [OF weight_member] by blast
  qed
  then show ?case
    using bounded_depth [OF less.prems] by (auto simp: observationDiff_eq list_all_iff)
qed

lemma gone_member:
  assumes "p \<in> set (snd (observationDiff old nx []))"
  shows "(\<exists>k. p = [k] \<and> map_of old k \<noteq> None) \<or>
    (\<exists>k a b q. p = k # q \<and> (k, JObj a) \<in> set nx \<and> map_of old k = Some (JObj b) \<and>
       q \<in> set (snd (observationDiff b a [])))"
proof -
  have "\<exists>a b. v = JObj a \<and> map_of old k = Some (JObj b) \<and> q \<in> set (snd (observationDiff b a []))"
    if "q \<in> set (entry_gone old k v)" for k v q
    using that by (cases "map_of old k"; cases v)
      (auto simp: entry_gone_def split: json.splits if_splits)
  then show ?thesis
    using assms by (auto simp: observationDiff_eq diff_gone map_of_eq_None_iff image_iff) blast+
qed

lemma gone_length:
  "p \<in> set (snd (observationDiff old nx [])) \<Longrightarrow> boundedObservation (JObj old) d \<Longrightarrow>
     p \<noteq> [] \<and> d + length p \<le> 64"
proof (induction nx arbitrary: p old d rule: measure_induct_rule [of map_weight])
  case (less nx)
  from gone_member [OF less.prems(1)] show ?case
  proof (elim disjE exE conjE)
    fix k assume "p = [k]" "map_of old k \<noteq> None"
    then show ?thesis
      using bounded_member [OF less.prems(2), of k] bounded_depth by fastforce
  next
    fix k a b q
    assume p: "p = k # q" and a: "(k, JObj a) \<in> set nx" and b: "map_of old k = Some (JObj b)"
      and q: "q \<in> set (snd (observationDiff b a []))"
    have "boundedObservation (JObj b) (Suc d)"
      using less.prems(2) b by (rule bounded_member)
    then show ?thesis
      using less.IH [OF weight_member [OF a] q, of "Suc d"] p by simp
  qed
qed

section \<open>Properties\<close>

text \<open>A normalised snapshot, as \<open>CloneObservation\<close> returns it.\<close>

definition normalized :: "jmap \<Rightarrow> bool" where
  "normalized ob \<longleftrightarrow> wf_json (JObj ob) \<and> CloneObservation (Some ob) = Inr (Some ob)"

lemma patch_applies:
  assumes "normalized old" "normalized nx" and nonempty: "nx \<noteq> []"
  shows "ApplyObservationDelta base (Some old)
    (transmit (MakeObservationDelta base (Some old) (Some nx))) = Inr (Some nx)"
proof -
  have wf: "wf_json (JObj old)" "wf_json (JObj nx)"
    and limits: "CloneObservation (Some old) = Inr (Some old)" "CloneObservation (Some nx) = Inr (Some nx)"
    using assms(1,2) by (simp_all add: normalized_def)
  obtain mid where mid: "remove_seq (snd (observationDiff old nx [])) old = Inr mid"
      "mergeObservation mid (fst (observationDiff old nx [])) = nx"
    using diff_reconstructs [OF wf] by blast
  have bounded: "boundedObservation (JObj nx) 0" "boundedObservation (JObj old) 0"
    using limits by (auto simp: CloneObservation_def split: if_splits)
  have paths: "removeAllPaths (snd (observationDiff old nx [])) old = Inr mid"
    using mid(1) gone_length [OF _ bounded(2)] by (subst removeAllPaths_seq) auto
  define patch where "patch = (\<lparr>Base = base, Full = False,
    Set = Some (fst (observationDiff old nx [])), Removed = snd (observationDiff old nx [])\<rparr>)"
  define full where "full = (\<lparr>Base = base, Full = True, Set = Some nx, Removed = []\<rparr>)"
  have "MakeObservationDelta base (Some old) (Some nx) \<in> {full, patch}"
    by (simp add: MakeObservationDelta_def entries_def patch_def full_def Let_def split: prod.splits)
  moreover have "ApplyObservationDelta base (Some old) (transmit full) = Inr (Some nx)"
    using bounded nonempty limits
    by (simp add: ApplyObservationDelta_def transmit_def entries_def full_def)
  moreover have "ApplyObservationDelta base (Some old) (transmit patch) = Inr (Some nx)"
    using bounded_diff [OF bounded(1), of old "[]"] limits paths mid(2) bounded_diff [of "[]" 0]
    by (cases "fst (observationDiff old nx []) = []")
      (simp_all add: ApplyObservationDelta_def transmit_def entries_def patch_def)
  ultimately show ?thesis by auto
qed

lemma delta_applies:
  assumes "\<And>ob. old = Some ob \<Longrightarrow> normalized ob" "normalized nx" "nx \<noteq> []"
  shows "ApplyObservationDelta base old (transmit (MakeObservationDelta base old (Some nx))) = Inr (Some nx)"
proof (cases old)
  case None
  then show ?thesis
    using assms(2,3)
    by (auto simp: normalized_def ApplyObservationDelta_def MakeObservationDelta_def transmit_def entries_def
        CloneObservation_def split: if_splits)
next
  case (Some ob)
  then show ?thesis using patch_applies assms by simp
qed


text \<open>A delta is applied only to the baseline it was computed for, and whatever the
  controller accepts stays within the packet size and depth limits, so a sequence of
  patches cannot grow the retained observation without bound.\<close>

theorem apply_delta_guards:
  assumes "ApplyObservationDelta base old delta = Inr (Some nx)"
  shows "Base delta = base \<and> (\<not> Full delta \<longrightarrow> old \<noteq> None) \<and>
    length (json_encode (JObj nx)) \<le> MaxPacket \<and> boundedObservation (JObj nx) 0"
  using assms
  by (auto simp: ApplyObservationDelta_def CloneObservation_def bind_res_Inr
      split: if_splits option.splits)

section \<open>Instances at which the hypotheses hold\<close>

definition sample_old :: jmap where
  "sample_old = [(''c'', JObj [(''up'', JNum ''1''), (''x'', JNum ''9'')]), (''gone'', JNull)]"

definition sample_new :: jmap where
  "sample_new = [(''c'', JObj [(''up'', JNum ''2'')]), (''new'', JBool True)]"

lemma sample_clones:
  "CloneObservation (Some sample_old) = Inr (Some sample_old)"
  "CloneObservation (Some sample_new) = Inr (Some sample_new)"
  by (simp_all add: CloneObservation_def sample_old_def sample_new_def MaxPacket_def
      json_string_def json_escape_def Let_def)

lemma sample_wf: "wf_json (JObj sample_old)" "wf_json (JObj sample_new)"
  by (simp_all add: sample_old_def sample_new_def less_char_def)


lemma sample_apply:
  "ApplyObservationDelta 4 (Some sample_old)
     \<lparr>Base = 4, Full = False, Set = Some [(''gone'', JBool True)], Removed = [[''c'', ''x'']]\<rparr>
   = Inr (Some [(''c'', JObj [(''up'', JNum ''1'')]), (''gone'', JBool True)])"
  by (simp add: ApplyObservationDelta_def sample_clones entries_def)
    (simp add: sample_old_def CloneObservation_def MaxPacket_def json_string_def json_escape_def
      Let_def less_char_def)

theorem apply_delta_guards_witness:
  "Base \<lparr>Base = 4, Full = False, Set = Some [(''gone'', JBool True)], Removed = [[''c'', ''x'']]\<rparr>
     = (4 :: u64) \<and>
   boundedObservation (JObj [(''c'', JObj [(''up'', JNum ''1'')]), (''gone'', JBool True)]) 0"
  using apply_delta_guards [OF sample_apply] by blast

end
