(* ===== verification/Control_Stream.thy ===== *)
theory Control_Stream
  imports Control_Client Observation_Delta
begin

text \<open>
  The v2 stream (internal/control/stream.go): one WebSocket session after negotiation. Its main
  loop, command worker, sampler, reader and acknowledgement writer share the client and a few
  channels of capacity one; each event below is one iteration of one of them. A session ends with
  a reason; \<open>SettingsChanged\<close> is the return without an error. The codec of updates and replies,
  gzip and the network write are parameters of an event.
\<close>

section \<open>Updates\<close>

record update =
  up_Kind :: string
  up_Timestamp :: int
  up_Token :: string
  up_Busy :: bool
  up_Observation :: "jmap option"
  up_Delta :: "observation_delta option"
  up_TelemetrySeq :: u64
  up_Capabilities :: "bool smap option"
  up_Results :: "command_result list"

definition new_update :: "string \<Rightarrow> update" where
  "new_update kind = \<lparr>up_Kind = kind, up_Timestamp = 0, up_Token = [], up_Busy = False, up_Observation = None, up_Delta = None,
     up_TelemetrySeq = 0, up_Capabilities = None, up_Results = []\<rparr>"

definition Update_Valid :: "update \<Rightarrow> bool" where
  "Update_Valid u =
     (if up_Kind u = ''heartbeat'' then up_Observation u = None \<and> up_Delta u = None \<and> up_TelemetrySeq u = 0 \<and>
          up_Capabilities u = None \<and> up_Results u = []
      else if up_Kind u = ''telemetry'' then up_Results u = [] \<and>
          (up_Observation u \<noteq> None \<and> up_Delta u = None \<and> up_TelemetrySeq u = 0 \<or>
           up_Observation u = None \<and> up_Delta u \<noteq> None \<and> up_TelemetrySeq u > 0)
      else if up_Kind u = ''results'' then up_Observation u = None \<and> up_Delta u = None \<and> up_TelemetrySeq u = 0 \<and>
          up_Capabilities u = None \<and> up_Results u \<noteq> []
      else False)"

text \<open>The reply as the Controller may shorten it: what is left out decodes to its zero value.\<close>

definition CompactReply :: "reply \<Rightarrow> string \<Rightarrow> string \<Rightarrow> reply" where
  "CompactReply reply mode listen =
     (let moved = rp_ConnectionMode reply \<noteq> [] \<and> (rp_ConnectionMode reply \<noteq> mode \<or> rp_ListenAddress reply \<noteq> listen) in
      \<lparr>rp_TelemetryAck = rp_TelemetryAck reply, rp_Stream = None, rp_AckResults = rp_AckResults reply,
       rp_ConnectionMode = (if moved then rp_ConnectionMode reply else []),
       rp_ListenAddress = (if moved then rp_ListenAddress reply else []),
       rp_Commands = rp_Commands reply, rp_Interval = 0, rp_Error = rp_Error reply\<rparr>)"

section \<open>Acknowledged results\<close>

text \<open>The IDs that are confirmed to the updater, and the client without the acknowledged results.\<close>

definition acknowledgeResults :: "string list \<Rightarrow> ('r, 'u) client \<Rightarrow> string list \<times> ('r, 'u) client" where
  "acknowledgeResults ids c =
     (map res_ID (filter (\<lambda>r. res_ID r \<in> set ids \<and> res_Status r = ''success'') (results c)),
      c\<lparr>results := filter (\<lambda>r. res_ID r \<notin> set ids) (results c)\<rparr>)"

section \<open>The session\<close>

datatype stream_end = SettingsChanged | ReadFailed | NotBinary | BadFrame wire_error | BadUpdate wire_error | WriteFailed
  | AckTimeout | BadObservation delta_error | SequenceExhausted | ReplyError string | BadTelemetryAck | TooManyCommands
  | QueueOverflow | ConnectionRefused string

record ('r, 'u) stream =
  st_client :: "('r, 'u) client"
  st_channel :: channel
  st_mode :: string
  st_listen :: string
  st_options :: stream_options
  st_active :: int
  st_commands :: "command list option"
  st_running :: "command list"
  st_ready :: bool
  st_telemetry :: "update option"
  st_pendingAcks :: "string list"
  st_lastToken :: string
  st_lastCaps :: "bool smap"
  st_base :: "jmap option"
  st_pending :: "jmap option"
  st_revision :: u64
  st_sentAt :: int
  st_inFlight :: bool
  st_written :: "update list"

record ('r, 'u) stream_env =
  se_client :: "('r, 'u) client_env"
  se_gzip :: gzip
  se_encode :: "update \<Rightarrow> bytes option"
  se_decode :: "bytes \<Rightarrow> reply option"
  se_write :: bool

type_synonym ('r, 'u) outcome = "stream_end option \<times> ('r, 'u) stream"

definition and_then :: "('r, 'u) outcome \<Rightarrow> (('r, 'u) stream \<Rightarrow> ('r, 'u) outcome) \<Rightarrow> ('r, 'u) outcome" where
  "and_then p f = (case p of (None, s) \<Rightarrow> f s | (Some e, s) \<Rightarrow> (Some e, s))"

definition queue :: "command list \<Rightarrow> ('r, 'u) stream \<Rightarrow> ('r, 'u) outcome" where
  "queue batch s =
     (if batch = [] then (None, s)
      else if length batch > 16 then (Some TooManyCommands, s)
      else let s1 = s\<lparr>st_active := st_active s + int (length batch)\<rparr> in
        case st_commands s of
          None \<Rightarrow> (None, s1\<lparr>st_commands := Some batch\<rparr>)
        | Some waiting \<Rightarrow> (Some QueueOverflow, s1))"

definition stamp :: "('r, 'u) stream_env \<Rightarrow> update \<Rightarrow> ('r, 'u) stream \<Rightarrow> update" where
  "stamp env u s =
     (let token = Token (cfg (st_client s)) in
      u\<lparr>up_Timestamp := now (se_client env), up_Busy := st_active s > 0 \<or> results (st_client s) \<noteq> [],
        up_Token := (if token \<noteq> st_lastToken s then token else up_Token u)\<rparr>)"

definition send_update :: "('r, 'u) stream_env \<Rightarrow> update \<Rightarrow> ('r, 'u) stream \<Rightarrow> ('r, 'u) outcome" where
  "send_update env u s =
     (let u1 = stamp env u s;
          compress = (Compression (st_options s) = ''gzip'' \<and> up_Kind u1 = ''telemetry'' \<and> up_Token u1 = []) in
      case SealBinary (se_gzip env) (se_encode env) (st_channel s) u1 compress of
        Inl e \<Rightarrow> (Some (BadUpdate e), s)
      | Inr (raw, ch) \<Rightarrow>
          (let s1 = s\<lparr>st_channel := ch\<rparr> in
           if se_write env then (None, s1\<lparr>st_lastToken := Token (cfg (st_client s)), st_written := st_written s @ [u1]\<rparr>)
           else (Some WriteFailed, s1)))"

definition sendResults :: "('r, 'u) stream_env \<Rightarrow> ('r, 'u) stream \<Rightarrow> ('r, 'u) outcome" where
  "sendResults env s =
     (if st_inFlight s then (None, s)
      else case resultBatchLocked (se_client env) (st_client s) of (batch, c) \<Rightarrow>
        let s1 = s\<lparr>st_client := c\<rparr> in
        if batch = [] then (None, s1)
        else and_then (send_update env ((new_update ''results'')\<lparr>up_Results := batch\<rparr>) s1) (\<lambda>s2. (None, s2\<lparr>st_inFlight := True\<rparr>)))"

definition fresh_stream ::
  "channel \<Rightarrow> report \<Rightarrow> stream_options \<Rightarrow> string \<Rightarrow> string \<Rightarrow> ('r, 'u) client \<Rightarrow> ('r, 'u) stream" where
  "fresh_stream ch initial options mode listen c =
     \<lparr>st_client = c, st_channel = ch, st_mode = mode, st_listen = listen, st_options = options, st_active = 0,
      st_commands = None, st_running = [], st_ready = False, st_telemetry = None, st_pendingAcks = [],
      st_lastToken = rt_Token initial, st_lastCaps = rt_Capabilities initial, st_base = None, st_pending = None,
      st_revision = 0, st_sentAt = 0, st_inFlight = False, st_written = []\<rparr>"

definition start_stream ::
  "('r, 'u) stream_env \<Rightarrow> channel \<Rightarrow> report \<Rightarrow> reply \<Rightarrow> stream_options \<Rightarrow> string \<Rightarrow> string \<Rightarrow> ('r, 'u) client \<Rightarrow> ('r, 'u) outcome" where
  "start_stream env ch initial first options mode listen c =
     (case acknowledge (se_client env) first c of
        (Inl e, c1) \<Rightarrow> (Some (ReplyError e), fresh_stream ch initial options mode listen c1)
      | (Inr _, c1) \<Rightarrow>
          (let s = fresh_stream ch initial options mode listen c1 in
           if connectionSettings c1 \<noteq> (mode, listen) then (Some SettingsChanged, s)
           else and_then (queue (rp_Commands first) s) (sendResults env)))"

subsection \<open>Workers\<close>

definition flushAcks :: "('r, 'u) stream_env \<Rightarrow> ('r, 'u) stream \<Rightarrow> ('r, 'u) stream" where
  "flushAcks env s = s\<lparr>st_pendingAcks := [], st_client := (st_client s)\<lparr>updater :=
     foldl (\<lambda>u i. acknowledge_update (se_client env) i u) (updater (st_client s)) (st_pendingAcks s)\<rparr>\<rparr>"

definition take_batch :: "('r, 'u) stream \<Rightarrow> ('r, 'u) stream" where
  "take_batch s = (case (st_running s, st_commands s) of
      ([], Some batch) \<Rightarrow> s\<lparr>st_running := batch, st_commands := None\<rparr> | _ \<Rightarrow> s)"

text \<open>One command of the batch; \<open>None\<close> would be the panic of the command cache.\<close>

definition run_one :: "('r, 'u) stream_env \<Rightarrow> ('r, 'u) stream \<Rightarrow> ('r, 'u) stream option" where
  "run_one env s =
     (case st_running s of
        [] \<Rightarrow> Some s
      | command # rest \<Rightarrow>
          map_option (\<lambda>(r, c). s\<lparr>st_client := c\<lparr>results := results c @ [r]\<rparr>, st_running := rest,
            st_active := st_active s - 1, st_ready := True\<rparr>) (execute (se_client env) command (st_client s)))"

definition sample :: "('r, 'u) stream_env \<Rightarrow> ('r, 'u) stream \<Rightarrow> ('r, 'u) stream" where
  "sample env s = (case st_telemetry s of
      Some waiting \<Rightarrow> s
    | None \<Rightarrow> s\<lparr>st_telemetry := Some ((new_update ''telemetry'')
        \<lparr>up_Observation := Some (client_snapshot (se_client env) (st_client s)),
         up_Capabilities := Some (client_capabilities (se_client env) (st_client s))\<rparr>)\<rparr>)"

text \<open>The end of a session: the acknowledgement writer empties its list once more.\<close>

definition close_stream :: "('r, 'u) stream_env \<Rightarrow> ('r, 'u) stream \<Rightarrow> ('r, 'u) client" where
  "close_stream env s = st_client (flushAcks env s)"

subsection \<open>The main loop\<close>

definition heartbeat_step :: "('r, 'u) stream_env \<Rightarrow> ('r, 'u) stream \<Rightarrow> ('r, 'u) outcome" where
  "heartbeat_step env s =
     (if st_pending s \<noteq> None \<and> now (se_client env) - st_sentAt s \<ge> 3 * HeartbeatSeconds then (Some AckTimeout, s)
      else send_update env (new_update ''heartbeat'') s)"

definition send_telemetry :: "('r, 'u) stream_env \<Rightarrow> update \<Rightarrow> ('r, 'u) stream \<Rightarrow> ('r, 'u) outcome" where
  "send_telemetry env u s =
     (if up_Capabilities u = Some (st_lastCaps s) then send_update env (u\<lparr>up_Capabilities := None\<rparr>) s
      else send_update env u (s\<lparr>st_lastCaps := (case up_Capabilities u of None \<Rightarrow> [] | Some caps \<Rightarrow> caps)\<rparr>))"

definition telemetry_step :: "('r, 'u) stream_env \<Rightarrow> ('r, 'u) stream \<Rightarrow> ('r, 'u) outcome" where
  "telemetry_step env s0 =
     (case st_telemetry s0 of
        None \<Rightarrow> (None, s0)
      | Some u \<Rightarrow>
          (let s = s0\<lparr>st_telemetry := None\<rparr> in
           if \<not> TelemetryDelta (st_options s) then send_telemetry env u s
           else if st_pending s \<noteq> None then (None, s)
           else case CloneObservation (up_Observation u) of
             Inl e \<Rightarrow> (Some (BadObservation e), s)
           | Inr nx \<Rightarrow>
               if st_revision s = max_u64 then (Some SequenceExhausted, s)
               else send_telemetry env (u\<lparr>up_Observation := None,
                   up_Delta := Some (MakeObservationDelta (st_revision s) (st_base s) nx), up_TelemetrySeq := st_revision s + 1\<rparr>)
                 (s\<lparr>st_pending := nx, st_sentAt := now (se_client env)\<rparr>)))"

definition ready_step :: "('r, 'u) stream_env \<Rightarrow> ('r, 'u) stream \<Rightarrow> ('r, 'u) outcome" where
  "ready_step env s = (if st_ready s then sendResults env (s\<lparr>st_ready := False\<rparr>) else (None, s))"

definition telemetry_ack :: "reply \<Rightarrow> ('r, 'u) stream \<Rightarrow> ('r, 'u) outcome" where
  "telemetry_ack reply s =
     (if TelemetryDelta (st_options s) \<and> rp_TelemetryAck reply > 0 then
        (if st_pending s = None \<or> rp_TelemetryAck reply \<noteq> st_revision s + 1 then (Some BadTelemetryAck, s)
         else (None, s\<lparr>st_base := st_pending s, st_pending := None, st_revision := rp_TelemetryAck reply\<rparr>))
      else (None, s))"

definition ack_results :: "reply \<Rightarrow> ('r, 'u) stream \<Rightarrow> ('r, 'u) stream" where
  "ack_results reply s =
     (if rp_AckResults reply = [] then s
      else case acknowledgeResults (rp_AckResults reply) (st_client s) of (ids, c) \<Rightarrow>
        s\<lparr>st_client := c, st_pendingAcks := st_pendingAcks s @ ids, st_inFlight := False\<rparr>)"

definition idle_connection :: "('r, 'u) stream_env \<Rightarrow> reply \<Rightarrow> ('r, 'u) stream \<Rightarrow> ('r, 'u) outcome" where
  "idle_connection env reply s =
     (if st_active s = 0 \<and> results (st_client s) = [] then
        (case setConnectionLocked (se_client env) (rp_ConnectionMode reply) (rp_ListenAddress reply) (st_client s) of
           (Inl e, c) \<Rightarrow> (Some (ConnectionRefused e), s\<lparr>st_client := c\<rparr>)
         | (Inr _, c) \<Rightarrow> (None, s\<lparr>st_client := c\<rparr>))
      else (None, s))"

text \<open>What a reply does after its telemetry acknowledgement.\<close>

definition reply_rest :: "('r, 'u) stream_env \<Rightarrow> reply \<Rightarrow> ('r, 'u) stream \<Rightarrow> ('r, 'u) outcome" where
  "reply_rest env reply s =
     and_then (queue (rp_Commands reply) (ack_results reply s)) (\<lambda>s.
     and_then (sendResults env s) (\<lambda>s.
     and_then (idle_connection env reply s) (\<lambda>s.
     if connectionSettings (st_client s) \<noteq> (st_mode s, st_listen s) then (Some SettingsChanged, s) else (None, s))))"

definition reply_step :: "('r, 'u) stream_env \<Rightarrow> reply \<Rightarrow> ('r, 'u) stream \<Rightarrow> ('r, 'u) outcome" where
  "reply_step env reply s =
     (if rp_Error reply \<noteq> [] then (Some (ReplyError (rp_Error reply)), s)
      else and_then (telemetry_ack reply s) (reply_rest env reply))"

datatype stream_event = Flush | TakeBatch | RunOne | Sample | HeartbeatTick | TelemetryReady | ResultReady
  | Frame bool bytes | ReadError

text \<open>The reader opens a frame and hands the reply over; \<open>None\<close> is a panic.\<close>

definition stream_step :: "('r, 'u) stream_env \<Rightarrow> stream_event \<Rightarrow> ('r, 'u) stream \<Rightarrow> ('r, 'u) outcome option" where
  "stream_step env ev s =
     (case ev of
        Flush \<Rightarrow> Some (None, flushAcks env s)
      | TakeBatch \<Rightarrow> Some (None, take_batch s)
      | RunOne \<Rightarrow> map_option (\<lambda>s1. (None, s1)) (run_one env s)
      | Sample \<Rightarrow> Some (None, sample env s)
      | HeartbeatTick \<Rightarrow> Some (heartbeat_step env s)
      | TelemetryReady \<Rightarrow> Some (telemetry_step env s)
      | ResultReady \<Rightarrow> Some (ready_step env s)
      | ReadError \<Rightarrow> Some (Some ReadFailed, s)
      | Frame binary raw \<Rightarrow>
          if \<not> binary then Some (Some NotBinary, s)
          else (case OpenBinary (se_gzip env) (se_decode env) (st_channel s) raw False of
             Inl e \<Rightarrow> Some (Some (BadFrame e), s)
           | Inr (reply, ch) \<Rightarrow> Some (reply_step env reply (s\<lparr>st_channel := ch\<rparr>))))"

section \<open>What the events leave alone\<close>

lemma fst_and_then: "fst (and_then p f) = None \<longleftrightarrow> fst p = None \<and> fst (f (snd p)) = None"
  by (auto simp: and_then_def split: prod.splits option.splits)

lemma snd_and_then: "snd (and_then p f) = (if fst p = None then snd (f (snd p)) else snd p)"
  by (auto simp: and_then_def split: prod.splits option.splits)

text \<open>A sample that waits for the main loop holds a full, well-formed observation.\<close>

definition slot_ok :: "('r, 'u) stream \<Rightarrow> bool" where
  "slot_ok s \<longleftrightarrow> (\<forall>u. st_telemetry s = Some u \<longrightarrow> up_Delta u = None \<and>
     (\<exists>ob. up_Observation u = Some ob \<and> wf_json (JObj ob) \<and> ob \<noteq> []))"

definition quiet :: "('r, 'u) stream \<Rightarrow> ('r, 'u) stream \<Rightarrow> bool" where
  "quiet s s' \<longleftrightarrow> st_options s' = st_options s \<and> st_base s' = st_base s \<and> st_pending s' = st_pending s \<and>
     st_revision s' = st_revision s \<and> (slot_ok s \<longrightarrow> slot_ok s') \<and>
     (\<exists>us. st_written s' = st_written s @ us \<and> list_all (\<lambda>u. up_Delta u = None) us)"

lemma quiet_refl [simp]: "quiet s s"
  by (simp add: quiet_def)

lemma quiet_trans: "quiet s s1 \<Longrightarrow> quiet s1 s2 \<Longrightarrow> quiet s s2"
  by (fastforce simp: quiet_def)

lemma quiet_and_then:
  "quiet s (snd p) \<Longrightarrow> (\<And>s1. quiet s1 (snd (f s1))) \<Longrightarrow> quiet s (snd (and_then p f))"
  using quiet_trans by (fastforce simp: snd_and_then)

text \<open>Fields that telemetry does not read may change.\<close>

lemma quiet_fields [simp]:
  "quiet s (s\<lparr>st_client := a\<rparr>)" "quiet s (s\<lparr>st_channel := b\<rparr>)" "quiet s (s\<lparr>st_active := c\<rparr>)"
  "quiet s (s\<lparr>st_running := d, st_commands := e\<rparr>)" "quiet s (s\<lparr>st_ready := f\<rparr>)" "quiet s (s\<lparr>st_inFlight := g\<rparr>)"
  "quiet s (s\<lparr>st_active := c, st_commands := e\<rparr>)" "quiet s (s\<lparr>st_client := a, st_pendingAcks := h, st_inFlight := g\<rparr>)"
  "quiet s (s\<lparr>st_pendingAcks := h, st_client := a\<rparr>)"
  "quiet s (s\<lparr>st_client := a, st_running := d, st_active := c, st_ready := f\<rparr>)"
  by (simp_all add: quiet_def slot_ok_def)

lemma send_update_cases:
  obtains (sent) ch where "send_update env u s = (None, s\<lparr>st_channel := ch, st_lastToken := Token (cfg (st_client s)),
      st_written := st_written s @ [stamp env u s]\<rparr>)"
    | (failed) e ch where "send_update env u s = (Some e, s\<lparr>st_channel := ch\<rparr>)"
proof -
  have "(\<exists>ch. send_update env u s = (None, s\<lparr>st_channel := ch, st_lastToken := Token (cfg (st_client s)),
      st_written := st_written s @ [stamp env u s]\<rparr>)) \<or> (\<exists>e ch. send_update env u s = (Some e, s\<lparr>st_channel := ch\<rparr>))"
  proof (cases "SealBinary (se_gzip env) (se_encode env) (st_channel s) (stamp env u s)
      (Compression (st_options s) = ''gzip'' \<and> up_Kind (stamp env u s) = ''telemetry'' \<and> up_Token (stamp env u s) = [])")
    case (Inl e)
    then have "send_update env u s = (Some (BadUpdate e), s\<lparr>st_channel := st_channel s\<rparr>)" by (simp add: send_update_def Let_def)
    then show ?thesis by blast
  next
    case (Inr p)
    then show ?thesis by (cases p) (auto simp: send_update_def Let_def)
  qed
  then show thesis using that by blast
qed

lemma up_Delta_stamp [simp]: "up_Delta (stamp env u s) = up_Delta u" "up_TelemetrySeq (stamp env u s) = up_TelemetrySeq u"
  by (simp_all add: stamp_def Let_def)

lemma quiet_send: "up_Delta u = None \<Longrightarrow> quiet s (snd (send_update env u s))"
  by (cases rule: send_update_cases [of env u s]) (simp_all add: quiet_def slot_ok_def)

lemma quiet_sendResults: "quiet s (snd (sendResults env s))"
proof -
  have "quiet s (snd (and_then (send_update env ((new_update ''results'')\<lparr>up_Results := batch\<rparr>) (s\<lparr>st_client := c\<rparr>))
      (\<lambda>s2. (None, s2\<lparr>st_inFlight := True\<rparr>))))" for batch c
    by (rule quiet_and_then [OF quiet_trans [OF _ quiet_send]]) (simp_all add: new_update_def)
  then show ?thesis by (auto simp: sendResults_def Let_def split: prod.splits)
qed

lemma quiet_queue: "quiet s (snd (queue batch s))"
  by (auto simp: queue_def Let_def split: option.splits)

lemma quiet_ack_results: "quiet s (ack_results reply s)"
  by (auto simp: ack_results_def split: prod.splits)

lemma quiet_idle: "quiet s (snd (idle_connection env reply s))"
  by (auto simp: idle_connection_def split: prod.splits sum.splits)

lemma quiet_run_one: "run_one env s = Some s' \<Longrightarrow> quiet s s'"
  by (auto simp: run_one_def split: list.splits)

lemma quiet_sample:
  assumes "wf_json (JObj (client_snapshot (se_client env) (st_client s)))"
  shows "quiet s (sample env s)"
proof -
  have "put_key k v kvs \<noteq> []" for k and v :: json and kvs by (cases kvs) (auto split: if_splits)
  then have "client_snapshot (se_client env) (st_client s) \<noteq> []" by (simp add: client_snapshot_def)
  then show ?thesis
    using assms by (auto simp: sample_def quiet_def slot_ok_def new_update_def split: option.splits)
qed

lemma quiet_ready: "quiet s (snd (ready_step env s))"
  using quiet_trans [OF _ quiet_sendResults [of "s\<lparr>st_ready := False\<rparr>" env], of s] by (simp add: ready_step_def)

lemma quiet_heartbeat: "quiet s (snd (heartbeat_step env s))"
  by (simp add: heartbeat_step_def quiet_send new_update_def)

lemma quiet_reply_rest: "quiet s (snd (reply_rest env reply s))"
  unfolding reply_rest_def
  by (intro quiet_and_then quiet_trans [OF quiet_ack_results quiet_queue] quiet_sendResults quiet_idle) simp

section \<open>Telemetry and the Controller\<close>

text \<open>
  A Controller that keeps the last observation and its revision, reads the updates in the order
  they were written, applies each delta with \<open>ApplyObservationDelta\<close> and acknowledges its number;
  \<open>None\<close> when the delta cannot be applied.
\<close>

record controller =
  ct_revision :: u64
  ct_base :: "jmap option"
  ct_read :: nat
  ct_acks :: "u64 list"

definition controller_step :: "update \<Rightarrow> controller \<Rightarrow> controller option" where
  "controller_step u k =
     (case up_Delta u of
        None \<Rightarrow> Some (k\<lparr>ct_read := Suc (ct_read k)\<rparr>)
      | Some d \<Rightarrow>
          (case ApplyObservationDelta (ct_revision k) (ct_base k) (transmit d) of
             Inl e \<Rightarrow> None
           | Inr ob \<Rightarrow> Some (k\<lparr>ct_read := Suc (ct_read k), ct_revision := up_TelemetrySeq u, ct_base := ob,
               ct_acks := ct_acks k @ [up_TelemetrySeq u]\<rparr>)))"

text \<open>
  The composed system. Replies carry no telemetry acknowledgement or the oldest one the Controller has
  issued; everything else in a reply, and every failure that ends the session, is unrestricted.
\<close>

inductive telemetry_reach :: "('r, 'u) stream \<Rightarrow> controller \<Rightarrow> bool" where
  opened: "start_stream env ch initial first options mode listen c = (None, s) \<Longrightarrow> TelemetryDelta options \<Longrightarrow>
    telemetry_reach s \<lparr>ct_revision = 0, ct_base = None, ct_read = 0, ct_acks = []\<rparr>"
| event: "telemetry_reach s k \<Longrightarrow> (\<And>binary raw. ev \<noteq> Frame binary raw) \<Longrightarrow>
    (\<And>c. wf_json (JObj (client_snapshot (se_client env) c))) \<Longrightarrow> stream_step env ev s = Some (None, s') \<Longrightarrow> telemetry_reach s' k"
| plain: "telemetry_reach s k \<Longrightarrow> rp_TelemetryAck reply = 0 \<Longrightarrow>
    OpenBinary (se_gzip env) (se_decode env) (st_channel s) raw False = Inr (reply, ch) \<Longrightarrow>
    stream_step env (Frame True raw) s = Some (None, s') \<Longrightarrow> telemetry_reach s' k"
| acknowledged: "telemetry_reach s k \<Longrightarrow> ct_acks k = rp_TelemetryAck reply # rest \<Longrightarrow>
    OpenBinary (se_gzip env) (se_decode env) (st_channel s) raw False = Inr (reply, ch) \<Longrightarrow>
    stream_step env (Frame True raw) s = Some (None, s') \<Longrightarrow> telemetry_reach s' (k\<lparr>ct_acks := rest\<rparr>)"
| controller: "telemetry_reach s k \<Longrightarrow> ct_read k < length (st_written s) \<Longrightarrow>
    controller_step (st_written s ! ct_read k) k = Some k' \<Longrightarrow> telemetry_reach s k'"

definition sound_observation :: "jmap option \<Rightarrow> bool" where
  "sound_observation b \<longleftrightarrow> (\<forall>ob. b = Some ob \<longrightarrow> normalized ob \<and> ob \<noteq> [])"

definition deltas :: "('r, 'u) stream \<Rightarrow> controller \<Rightarrow> update list" where
  "deltas s k = filter (\<lambda>u. up_Delta u \<noteq> None) (drop (ct_read k) (st_written s))"

text \<open>Nothing is under way; a delta is under way; or its acknowledgement is.\<close>

definition telemetry_inv :: "('r, 'u) stream \<Rightarrow> controller \<Rightarrow> bool" where
  "telemetry_inv s k \<longleftrightarrow> TelemetryDelta (st_options s) \<and> slot_ok s \<and> sound_observation (st_base s) \<and>
     sound_observation (st_pending s) \<and> ct_read k \<le> length (st_written s) \<and>
     (case st_pending s of
        None \<Rightarrow> deltas s k = [] \<and> ct_acks k = [] \<and> ct_base k = st_base s \<and> ct_revision k = st_revision s
      | Some nx \<Rightarrow> st_revision s \<noteq> max_u64 \<and>
          ((\<exists>u. deltas s k = [u] \<and> up_Delta u = Some (MakeObservationDelta (st_revision s) (st_base s) (Some nx)) \<and>
              up_TelemetrySeq u = st_revision s + 1 \<and> ct_acks k = [] \<and> ct_base k = st_base s \<and> ct_revision k = st_revision s) \<or>
           deltas s k = [] \<and> ct_acks k = [st_revision s + 1] \<and> ct_base k = Some nx \<and> ct_revision k = st_revision s + 1))"

lemma telemetry_inv_quiet:
  assumes "telemetry_inv s k" and "quiet s s'"
  shows "telemetry_inv s' k"
proof -
  obtain us where us: "st_written s' = st_written s @ us" "list_all (\<lambda>u. up_Delta u = None) us"
    using assms(2) by (auto simp: quiet_def)
  have "ct_read k \<le> length (st_written s)" using assms(1) by (simp add: telemetry_inv_def)
  then have "deltas s' k = deltas s k" using us by (simp add: deltas_def filter_False list_all_iff)
  then show ?thesis using assms us(1) by (cases "st_pending s") (auto simp: telemetry_inv_def quiet_def)
qed

lemma clone_normalized: "CloneObservation (Some ob) = Inr nx \<Longrightarrow> wf_json (JObj ob) \<Longrightarrow> nx = Some ob \<and> normalized ob"
  by (auto simp: CloneObservation_def normalized_def split: if_splits)

text \<open>The main loop sends a delta only when none is under way.\<close>

lemma telemetry_inv_sent:
  assumes "telemetry_inv s k" and "telemetry_step env s = (None, s')"
  shows "telemetry_inv s' k"
proof (cases "st_telemetry s")
  case None
  then show ?thesis using assms by (simp add: telemetry_step_def)
next
  case (Some u)
  let ?s = "s\<lparr>st_telemetry := None\<rparr>"
  have inv: "telemetry_inv ?s k"
    by (rule telemetry_inv_quiet [OF assms(1)]) (simp add: quiet_def slot_ok_def)
  have delta: "TelemetryDelta (st_options ?s)" using assms(1) by (simp add: telemetry_inv_def)
  show ?thesis
  proof (cases "st_pending s")
    case (Some nx)
    then show ?thesis using assms(2) inv delta \<open>st_telemetry s = Some u\<close> by (simp add: telemetry_step_def Let_def)
  next
    case None
    obtain ob where ob: "up_Observation u = Some ob" "wf_json (JObj ob)" "ob \<noteq> []"
      using assms(1) Some by (auto simp: telemetry_inv_def slot_ok_def)
    obtain nx where nx: "CloneObservation (Some ob) = Inr nx" and room: "st_revision s \<noteq> max_u64"
      using assms(2) Some None delta ob(1) by (auto simp: telemetry_step_def Let_def split: sum.splits if_splits)
    note clone = clone_normalized [OF nx ob(2)]
    define d where "d = u\<lparr>up_Observation := None, up_Delta := Some (MakeObservationDelta (st_revision s) (st_base s) (Some ob)),
      up_TelemetrySeq := st_revision s + 1\<rparr>"
    define s1 where "s1 = ?s\<lparr>st_pending := Some ob, st_sentAt := now (se_client env)\<rparr>"
    have "send_telemetry env d s1 = (None, s')"
      using assms(2) Some None delta ob(1) nx room clone by (simp add: telemetry_step_def Let_def d_def s1_def)
    then have "\<exists>v caps. send_update env v (s1\<lparr>st_lastCaps := caps\<rparr>) = (None, s') \<and> up_Delta v = up_Delta d \<and>
        up_TelemetrySeq v = up_TelemetrySeq d"
    proof (cases "up_Capabilities d = Some (st_lastCaps s1)")
      case True
      then show ?thesis
        using \<open>send_telemetry env d s1 = (None, s')\<close>
        by (intro exI [of _ "d\<lparr>up_Capabilities := None\<rparr>"] exI [of _ "st_lastCaps s1"]) (simp add: send_telemetry_def)
    next
      case False
      then show ?thesis using \<open>send_telemetry env d s1 = (None, s')\<close> by (auto simp: send_telemetry_def)
    qed
    then obtain v caps where v: "send_update env v (s1\<lparr>st_lastCaps := caps\<rparr>) = (None, s')" "up_Delta v = up_Delta d"
        "up_TelemetrySeq v = up_TelemetrySeq d" by blast
    then obtain w where "st_written s' = st_written s1 @ [w]" "up_Delta w = up_Delta d" "up_TelemetrySeq w = up_TelemetrySeq d"
        "st_options s' = st_options s1" "st_base s' = st_base s1" "st_pending s' = st_pending s1" "st_revision s' = st_revision s1"
        "st_telemetry s' = st_telemetry s1"
      by (cases rule: send_update_cases [of env v "s1\<lparr>st_lastCaps := caps\<rparr>"]) auto
    then show ?thesis
      using inv None room clone ob(3)
      by (auto simp: telemetry_inv_def deltas_def s1_def d_def slot_ok_def sound_observation_def)
  qed
qed

lemma telemetry_inv_acked:
  assumes "telemetry_inv s k" and "telemetry_ack reply s = (None, s1)" and "ct_acks k = rp_TelemetryAck reply # rest"
  shows "telemetry_inv s1 (k\<lparr>ct_acks := rest\<rparr>)"
proof -
  obtain nx where pending: "st_pending s = Some nx" and idle: "deltas s k = []"
    and "rp_TelemetryAck reply = st_revision s + 1" "rest = []" "ct_base k = Some nx" "ct_revision k = st_revision s + 1"
    and room: "st_revision s \<noteq> max_u64"
    using assms(1,3) by (auto simp: telemetry_inv_def split: option.splits)
  moreover have "st_revision s + 1 > 0" using succ_u64_nonzero [OF room] by (simp add: word_gt_0)
  ultimately show ?thesis
    using assms(1,2) by (auto simp: telemetry_ack_def telemetry_inv_def slot_ok_def deltas_def sound_observation_def)
qed

lemma reply_step_cases:
  assumes "reply_step env reply s = (None, s')"
  obtains s1 where "telemetry_ack reply s = (None, s1)" "quiet s1 s'"
proof -
  have ok: "rp_Error reply = []" using assms by (auto simp: reply_step_def split: if_splits)
  have "fst (reply_step env reply s) = None" by (simp add: assms)
  then have n: "fst (telemetry_ack reply s) = None" using ok by (simp add: reply_step_def fst_and_then)
  have "s' = snd (reply_step env reply s)" using assms by simp
  also have "quiet (snd (telemetry_ack reply s)) \<dots>"
    using ok n quiet_reply_rest by (simp add: reply_step_def snd_and_then)
  finally show thesis using that n by (metis prod.collapse)
qed

lemma frame_step:
  assumes "OpenBinary (se_gzip env) (se_decode env) (st_channel s) raw False = Inr (reply, ch)"
    and "stream_step env (Frame True raw) s = Some (None, s')"
  shows "reply_step env reply (s\<lparr>st_channel := ch\<rparr>) = (None, s')"
  using assms by (simp add: stream_step_def)

lemma start_quiet:
  assumes "start_stream env ch initial first options mode listen c = (None, s)"
  shows "st_options s = options \<and> st_base s = None \<and> st_pending s = None \<and> st_revision s = 0 \<and> slot_ok s \<and>
    list_all (\<lambda>u. up_Delta u = None) (st_written s)"
proof -
  obtain c1 where "and_then (queue (rp_Commands first) (fresh_stream ch initial options mode listen c1)) (sendResults env) = (None, s)"
    using assms by (auto simp: start_stream_def Let_def split: prod.splits sum.splits if_splits)
  then have "quiet (fresh_stream ch initial options mode listen c1) s"
    using quiet_and_then [OF quiet_queue, where f = "sendResults env"] quiet_sendResults by (metis snd_conv)
  then show ?thesis by (auto simp: quiet_def slot_ok_def fresh_stream_def)
qed

text \<open>The Controller can read the next update, and reading it keeps the invariant.\<close>

lemma deltas_next:
  "ct_read k < length (st_written s) \<Longrightarrow> deltas s k =
     (if up_Delta (st_written s ! ct_read k) = None then [] else [st_written s ! ct_read k]) @ deltas s (k\<lparr>ct_read := Suc (ct_read k)\<rparr>)"
  unfolding deltas_def by (simp flip: Cons_nth_drop_Suc)

lemma telemetry_inv_reads:
  assumes "telemetry_inv s k" and "ct_read k < length (st_written s)"
  obtains k' where "controller_step (st_written s ! ct_read k) k = Some k'" "telemetry_inv s k'"
proof (cases "up_Delta (st_written s ! ct_read k)")
  case None
  let ?k = "k\<lparr>ct_read := Suc (ct_read k)\<rparr>"
  have "deltas s ?k = deltas s k" using deltas_next [OF assms(2)] None by simp
  then have "telemetry_inv s ?k" using assms by (cases "st_pending s") (auto simp: telemetry_inv_def)
  then show thesis using that None by (simp add: controller_step_def)
next
  case (Some d)
  let ?u = "st_written s ! ct_read k" and ?k = "k\<lparr>ct_read := Suc (ct_read k)\<rparr>"
  have next_delta: "deltas s k = ?u # deltas s ?k" using deltas_next [OF assms(2)] Some by simp
  then obtain nx where nx: "st_pending s = Some nx" "deltas s ?k = []" "d = MakeObservationDelta (st_revision s) (st_base s) (Some nx)"
      "up_TelemetrySeq ?u = st_revision s + 1" "ct_acks k = []" "ct_base k = st_base s" "ct_revision k = st_revision s"
      "st_revision s \<noteq> max_u64"
    using assms(1) Some by (auto simp: telemetry_inv_def split: option.splits)
  have "ApplyObservationDelta (ct_revision k) (ct_base k) (transmit d) = Inr (Some nx)"
    using assms(1) nx delta_applies [of "st_base s" nx "st_revision s"] by (auto simp: telemetry_inv_def sound_observation_def)
  then have "controller_step ?u k = Some (?k\<lparr>ct_revision := st_revision s + 1, ct_base := Some nx, ct_acks := [st_revision s + 1]\<rparr>)"
    using Some nx by (simp add: controller_step_def)
  moreover have "telemetry_inv s (?k\<lparr>ct_revision := st_revision s + 1, ct_base := Some nx, ct_acks := [st_revision s + 1]\<rparr>)"
    using assms nx by (auto simp: telemetry_inv_def deltas_def)
  ultimately show thesis using that by blast
qed

lemma telemetry_inv_controller:
  "telemetry_inv s k \<Longrightarrow> ct_read k < length (st_written s) \<Longrightarrow> controller_step (st_written s ! ct_read k) k = Some k' \<Longrightarrow>
   telemetry_inv s k'"
  by (metis option.inject telemetry_inv_reads)

lemma telemetry_reach_inv: "telemetry_reach s k \<Longrightarrow> telemetry_inv s k"
proof (induction rule: telemetry_reach.induct)
  case (opened env ch initial first options mode listen c s)
  then show ?case
    using start_quiet [OF opened(1)]
    by (simp add: telemetry_inv_def deltas_def sound_observation_def filter_empty_conv list_all_iff)
next
  case (event s k ev env s')
  have "quiet s s' \<or> telemetry_step env s = (None, s')"
    using event(2,3,4) quiet_heartbeat [of s env] quiet_ready [of s env] quiet_run_one [of env s]
      quiet_sample [of env s]
    by (cases ev) (auto simp: stream_step_def flushAcks_def take_batch_def split: list.splits option.splits)
  then show ?case using event.IH telemetry_inv_quiet telemetry_inv_sent by blast
next
  case (plain s k reply env raw ch s')
  obtain s1 where s1: "telemetry_ack reply (s\<lparr>st_channel := ch\<rparr>) = (None, s1)" "quiet s1 s'"
    using reply_step_cases [OF frame_step [OF plain(3,4)]] by blast
  then have "quiet s s1" using plain(2) by (auto simp: telemetry_ack_def)
  then show ?case using plain.IH s1(2) telemetry_inv_quiet by blast
next
  case (acknowledged s k reply rest env raw ch s')
  obtain s1 where s1: "telemetry_ack reply (s\<lparr>st_channel := ch\<rparr>) = (None, s1)" "quiet s1 s'"
    using reply_step_cases [OF frame_step [OF acknowledged(3,4)]] by blast
  have "telemetry_inv (s\<lparr>st_channel := ch\<rparr>) k" using acknowledged.IH telemetry_inv_quiet by (metis quiet_fields(2))
  then show ?case using telemetry_inv_acked [OF _ s1(1) acknowledged(2)] telemetry_inv_quiet [OF _ s1(2)] by blast
next
  case (controller s k k')
  then show ?case using telemetry_inv_controller by blast
qed

text \<open>C11: Telemetry deltas and the Controller never fall out of step: in every reachable state of the stream and a
  Controller that applies deltas in the order they arrive, with any delay of updates and
  acknowledgements, the next update can be applied, the next acknowledgement is the one the Agent
  waits for, and the Controller holds the acknowledged observation, or the sampled one as soon as
  it has read what was written.\<close>
theorem telemetry_in_sync:
  assumes "telemetry_reach s k"
  shows "(ct_read k < length (st_written s) \<longrightarrow> controller_step (st_written s ! ct_read k) k \<noteq> None) \<and>
    (\<forall>reply rest. ct_acks k = rp_TelemetryAck reply # rest \<longrightarrow> fst (telemetry_ack reply s) = None) \<and>
    (case st_pending s of
       None \<Rightarrow> ct_base k = st_base s \<and> ct_revision k = st_revision s
     | Some nx \<Rightarrow> ct_read k = length (st_written s) \<longrightarrow> ct_base k = Some nx)"
proof (intro conjI)
  note inv = telemetry_reach_inv [OF assms]
  show "ct_read k < length (st_written s) \<longrightarrow> controller_step (st_written s ! ct_read k) k \<noteq> None"
    using telemetry_inv_reads [OF inv] by blast
  show "\<forall>reply rest. ct_acks k = rp_TelemetryAck reply # rest \<longrightarrow> fst (telemetry_ack reply s) = None"
    using inv by (auto simp: telemetry_inv_def telemetry_ack_def split: option.splits)
  show "case st_pending s of
       None \<Rightarrow> ct_base k = st_base s \<and> ct_revision k = st_revision s
     | Some nx \<Rightarrow> ct_read k = length (st_written s) \<longrightarrow> ct_base k = Some nx"
    using inv by (cases "st_pending s") (auto simp: telemetry_inv_def deltas_def)
qed

section \<open>Commands and results\<close>

definition waiting :: "('r, 'u) stream \<Rightarrow> nat" where
  "waiting s = length (st_running s) + (case st_commands s of None \<Rightarrow> 0 | Some batch \<Rightarrow> length batch)"

definition stream_inv :: "('r, 'u) stream \<Rightarrow> bool" where
  "stream_inv s \<longleftrightarrow> st_active s = int (waiting s) \<and> length (st_running s) \<le> 16 \<and>
     (case st_commands s of None \<Rightarrow> True | Some batch \<Rightarrow> length batch \<le> 16) \<and>
     cache_sound (cache (st_client s)) \<and> (\<exists>h. Control_Client.entries (cache (st_client s)) = recent h) \<and>
     (results (st_client s) \<noteq> [] \<longrightarrow> st_inFlight s \<or> st_ready s)"

text \<open>The part of the invariant that holds between the actions of one event.\<close>

definition stream_base :: "('r, 'u) stream \<Rightarrow> bool" where
  "stream_base s \<longleftrightarrow> stream_inv (s\<lparr>st_ready := True\<rparr>)"

lemma stream_inv_base: "stream_inv s \<longleftrightarrow> stream_base s \<and> (results (st_client s) \<noteq> [] \<longrightarrow> st_inFlight s \<or> st_ready s)"
  by (auto simp: stream_base_def stream_inv_def waiting_def)

lemma stream_base_cong:
  "st_active s' = st_active s \<Longrightarrow> st_running s' = st_running s \<Longrightarrow> st_commands s' = st_commands s \<Longrightarrow>
   cache (st_client s') = cache (st_client s) \<Longrightarrow> stream_base s' = stream_base s"
  by (simp add: stream_base_def stream_inv_def waiting_def)

lemma send_update_fields:
  assumes "send_update env u s = (e, s')"
  shows "st_client s' = st_client s \<and> st_active s' = st_active s \<and> st_running s' = st_running s \<and> st_commands s' = st_commands s \<and>
    st_inFlight s' = st_inFlight s \<and> st_ready s' = st_ready s \<and> st_mode s' = st_mode s \<and> st_listen s' = st_listen s"
  using assms by (cases rule: send_update_cases [of env u s]) auto

text \<open>A result that is too large is replaced by a short failure, which always fits.\<close>

definition failures_fit :: "('r, 'u) stream_env \<Rightarrow> bool" where
  "failures_fit env \<longleftrightarrow> (\<forall>i. encoded_size (se_client env) (failed i oversize_text) \<le> batch_limit)"

lemma sendResults_spec:
  assumes "sendResults env s = (e, s')"
  shows "map res_ID (results (st_client s')) = map res_ID (results (st_client s)) \<and> connectionSettings (st_client s') = connectionSettings (st_client s) \<and>
    st_active s' = st_active s \<and> stream_base s' = stream_base s \<and> st_mode s' = st_mode s \<and> st_listen s' = st_listen s \<and>
    (e = None \<and> failures_fit env \<and> results (st_client s) \<noteq> [] \<longrightarrow> st_inFlight s')"
proof (cases "st_inFlight s")
  case True
  then show ?thesis using assms by (simp add: sendResults_def)
next
  case False
  obtain b rs where b: "result_batch (se_client env) 0 (results (st_client s)) = (b, rs)" by fastforce
  let ?s = "s\<lparr>st_client := (st_client s)\<lparr>results := rs\<rparr>\<rparr>"
  have ids: "map res_ID rs = map res_ID (results (st_client s))" using result_batch_spec [OF b] by simp
  have base: "stream_base ?s = stream_base s" by (rule stream_base_cong) simp_all
  have fits: "b \<noteq> []" if "failures_fit env" "results (st_client s) \<noteq> []"
    using result_batch_progress [OF that(2), of "se_client env"] that(1) b by (simp add: failures_fit_def)
  show ?thesis
  proof (cases "b = []")
    case True
    then have "s' = ?s" using assms False b by (simp add: sendResults_def resultBatchLocked_def)
    then show ?thesis using ids base fits True by (auto simp: connectionSettings_def)
  next
    case nonempty: False
    obtain d s2 where d: "send_update env ((new_update ''results'')\<lparr>up_Results := b\<rparr>) ?s = (d, s2)" by fastforce
    note fields = send_update_fields [OF d]
    have "(e, s') = and_then (d, s2) (\<lambda>s2. (None, s2\<lparr>st_inFlight := True\<rparr>))"
      using assms False b d nonempty by (simp add: sendResults_def resultBatchLocked_def Let_def)
    then have "s' = (if d = None then s2\<lparr>st_inFlight := True\<rparr> else s2)" "e = d" by (auto simp: and_then_def split: option.splits)
    moreover have "stream_base s2 = stream_base s" "stream_base (s2\<lparr>st_inFlight := True\<rparr>) = stream_base s"
      using fields by (simp_all add: stream_base_def stream_inv_def waiting_def)
    ultimately show ?thesis using fields ids by (auto simp: connectionSettings_def)
  qed
qed

lemma queue_spec:
  assumes "queue batch s = (e, s')"
  shows "st_client s' = st_client s \<and> st_mode s' = st_mode s \<and> st_listen s' = st_listen s \<and> st_inFlight s' = st_inFlight s \<and>
    (e = None \<and> stream_base s \<longrightarrow> stream_base s')"
  using assms
  by (auto simp: queue_def Let_def stream_base_def stream_inv_def waiting_def split: if_splits option.splits)

lemma setConnection_same_cache:
  "setConnectionLocked env mode listen c = (r, c') \<Longrightarrow> cache c' = cache c \<and> results c' = results c"
  using setConnection_frame by blast

lemma idle_spec:
  assumes "idle_connection env reply s = (e, s')"
  shows "results (st_client s') = results (st_client s) \<and> stream_base s' = stream_base s \<and> st_inFlight s' = st_inFlight s \<and>
    st_active s' = st_active s \<and> (connectionSettings (st_client s') \<noteq> connectionSettings (st_client s) \<longrightarrow> st_active s = 0 \<and> results (st_client s) = [])"
proof (cases "st_active s = 0 \<and> results (st_client s) = []")
  case True
  obtain q c where q: "setConnectionLocked (se_client env) (rp_ConnectionMode reply) (rp_ListenAddress reply) (st_client s) = (q, c)" by fastforce
  then have "s' = s\<lparr>st_client := c\<rparr>" using assms True by (cases q) (auto simp: idle_connection_def)
  moreover have "stream_base (s\<lparr>st_client := c\<rparr>) = stream_base s"
    using setConnection_same_cache [OF q] by (intro stream_base_cong) simp_all
  ultimately show ?thesis using True setConnection_same_cache [OF q] by simp
next
  case False
  then have "s' = s" using assms unfolding idle_connection_def if_not_P [OF False] by simp
  then show ?thesis by simp
qed

lemma ack_results_spec:
  "stream_base (ack_results reply s) = stream_base s"
  "st_active (ack_results reply s) = st_active s"
  "results (st_client (ack_results reply s)) = filter (\<lambda>r. res_ID r \<notin> set (rp_AckResults reply)) (results (st_client s))"
  "connectionSettings (st_client (ack_results reply s)) = connectionSettings (st_client s)"
  by (auto simp: ack_results_def acknowledgeResults_def connectionSettings_def stream_base_def stream_inv_def waiting_def)

text \<open>A reply: results whose ID it does not acknowledge stay, and the connection changes only when idle.\<close>

lemma reply_rest_spec:
  assumes "reply_rest env reply s = (e, s')" and "stream_base s"
  shows "res_ID ` set (results (st_client s)) - set (rp_AckResults reply) \<subseteq> res_ID ` set (results (st_client s')) \<and>
    (connectionSettings (st_client s') \<noteq> connectionSettings (st_client s) \<longrightarrow> st_active s' = 0 \<and> results (st_client s') = []) \<and>
    (e = None \<and> failures_fit env \<longrightarrow> stream_inv s')"
proof -
  obtain e1 s1 where q: "queue (rp_Commands reply) (ack_results reply s) = (e1, s1)" by fastforce
  obtain e2 s2 where r: "sendResults env s1 = (e2, s2)" by fastforce
  obtain e3 s3 where i: "idle_connection env reply s2 = (e3, s3)" by fastforce
  note specs = queue_spec [OF q] sendResults_spec [OF r] idle_spec [OF i] ack_results_spec [of reply s]
  have ids: "res_ID ` set (results (st_client s1)) = res_ID ` set (results (st_client s)) - set (rp_AckResults reply)"
    using specs by auto
  have "set (map res_ID (results (st_client s2))) = set (map res_ID (results (st_client s1)))" using specs by simp
  then have ids2: "res_ID ` set (results (st_client s2)) = res_ID ` set (results (st_client s1))" by simp
  have eq: "(e, s') = (if e1 \<noteq> None then (e1, s1) else if e2 \<noteq> None then (e2, s2) else if e3 \<noteq> None then (e3, s3)
      else if connectionSettings (st_client s3) \<noteq> (st_mode s3, st_listen s3) then (Some SettingsChanged, s3) else (None, s3))"
    using assms(1) q r i by (auto simp: reply_rest_def and_then_def split: option.splits)
  consider "s' = s1" "e \<noteq> None" | "s' = s2" "e \<noteq> None" | "s' = s3" "e1 = None" "e2 = None" using eq by (auto split: if_splits)
  then show ?thesis
  proof cases
    case 1
    then show ?thesis using ids specs by auto
  next
    case 2
    then show ?thesis using ids ids2 specs by auto
  next
    case 3
    have "results (st_client s2) = [] \<longleftrightarrow> results (st_client s1) = []" using specs by (metis map_is_Nil_conv)
    then have "failures_fit env \<longrightarrow> stream_inv s3" using 3 specs assms(2) by (auto simp: stream_inv_base)
    moreover have "connectionSettings (st_client s3) \<noteq> connectionSettings (st_client s) \<longrightarrow> st_active s3 = 0 \<and> results (st_client s3) = []"
      using specs by auto
    moreover have "results (st_client s3) = results (st_client s2)" using specs by simp
    ultimately show ?thesis using 3 ids ids2 by auto
  qed
qed

lemma telemetry_ack_fields:
  assumes "telemetry_ack reply s = (e, s')"
  shows "st_client s' = st_client s \<and> stream_base s' = stream_base s"
  using assms by (auto simp: telemetry_ack_def stream_base_def stream_inv_def waiting_def split: if_splits)

lemma reply_step_spec:
  assumes "reply_step env reply s = (e, s')" and "stream_base s"
  shows "res_ID ` set (results (st_client s)) - set (rp_AckResults reply) \<subseteq> res_ID ` set (results (st_client s')) \<and>
    (connectionSettings (st_client s') \<noteq> connectionSettings (st_client s) \<longrightarrow> st_active s' = 0 \<and> results (st_client s') = []) \<and>
    (e = None \<and> failures_fit env \<longrightarrow> stream_inv s')"
proof (cases "rp_Error reply = []")
  case True
  obtain e1 s1 where t: "telemetry_ack reply s = (e1, s1)" by fastforce
  note f = telemetry_ack_fields [OF t]
  show ?thesis
  proof (cases e1)
    case None
    then have "reply_rest env reply s1 = (e, s')" using assms(1) True t by (simp add: reply_step_def and_then_def)
    from reply_rest_spec [OF this] show ?thesis using f assms(2) by simp
  next
    case (Some x)
    then have "s' = s1" "e \<noteq> None" using assms(1) True t by (auto simp: reply_step_def and_then_def)
    then show ?thesis using f by auto
  qed
next
  case False
  then have "s' = s" "e \<noteq> None" using assms(1) by (auto simp: reply_step_def)
  then show ?thesis by auto
qed

lemma run_one_spec:
  assumes "stream_base s"
  obtains s' where "run_one env s = Some s'" "stream_base s'" "st_ready s' \<or> s' = s"
    "set (results (st_client s)) \<subseteq> set (results (st_client s'))"
proof (cases "st_running s")
  case Nil
  then show thesis using that [of s] assms by (simp add: run_one_def)
next
  case (Cons command rest)
  obtain h where h: "Control_Client.entries (cache (st_client s)) = recent h" "cache_sound (cache (st_client s))"
    using assms by (auto simp: stream_base_def stream_inv_def)
  obtain r c where e: "execute (se_client env) command (st_client s) = Some (r, c)" "cache_sound (cache c)"
      "Control_Client.entries (cache c) = recent (h @ logged (se_client env) command (st_client s))" "results c = results (st_client s)"
    by (rule execute_spec [OF h(2,1)]) blast
  let ?s = "s\<lparr>st_client := c\<lparr>results := results c @ [r]\<rparr>, st_running := rest, st_active := st_active s - 1, st_ready := True\<rparr>"
  have "stream_base ?s" using assms e(2,3) Cons by (auto simp: stream_base_def stream_inv_def waiting_def)
  then show thesis using that [of ?s] Cons e(1,4) by (auto simp: run_one_def)
qed

lemma start_base:
  assumes "start_stream env ch initial first options mode listen c = (None, s)" and "failures_fit env"
    and "cache_sound (cache c)" and "Control_Client.entries (cache c) = recent h" and "sentCount c \<le> length (results c)"
  shows "stream_inv s"
proof -
  obtain q c1 where q: "acknowledge (se_client env) first c = (q, c1)" by fastforce
  let ?s = "fresh_stream ch initial options mode listen c1"
  have base: "stream_base ?s"
    using acknowledge_spec [OF q assms(5)] assms(3,4) by (auto simp: stream_base_def stream_inv_def waiting_def fresh_stream_def)
  obtain e1 s1 where s1: "queue (rp_Commands first) ?s = (e1, s1)" by fastforce
  have run: "and_then (e1, s1) (sendResults env) = (None, s)"
    using assms(1) q s1 by (cases q) (auto simp: start_stream_def Let_def split: if_splits)
  then have e1: "e1 = None" "sendResults env s1 = (None, s)" by (auto simp: and_then_def split: option.splits)
  have "stream_base s1" using queue_spec [OF s1] base e1(1) by simp
  moreover have "results (st_client s) = [] \<longleftrightarrow> results (st_client s1) = []" using sendResults_spec [OF e1(2)] by (metis map_is_Nil_conv)
  ultimately show ?thesis using sendResults_spec [OF e1(2)] assms(2) by (simp add: stream_inv_base)
qed

lemma send_telemetry_fields:
  assumes "send_telemetry env u s = (e, s')"
  shows "st_client s' = st_client s \<and> st_active s' = st_active s \<and> st_running s' = st_running s \<and> st_commands s' = st_commands s \<and>
    st_inFlight s' = st_inFlight s \<and> st_ready s' = st_ready s"
proof -
  obtain v caps where "send_update env v (s\<lparr>st_lastCaps := caps\<rparr>) = (e, s')"
  proof (cases "up_Capabilities u = Some (st_lastCaps s)")
    case True
    then show thesis using that [of "u\<lparr>up_Capabilities := None\<rparr>" "st_lastCaps s"] assms by (simp add: send_telemetry_def)
  next
    case False
    then show thesis using that assms by (simp add: send_telemetry_def)
  qed
  from send_update_fields [OF this] show ?thesis by simp
qed

lemma telemetry_step_fields:
  assumes "telemetry_step env s = (e, s')"
  shows "st_client s' = st_client s \<and> st_active s' = st_active s \<and> st_running s' = st_running s \<and> st_commands s' = st_commands s \<and>
    st_inFlight s' = st_inFlight s \<and> st_ready s' = st_ready s"
  using assms send_telemetry_fields [of env _ _ e s']
  by (fastforce simp: telemetry_step_def Let_def split: option.splits if_splits sum.splits)

lemma stream_inv_cong:
  "st_client s' = st_client s \<and> st_active s' = st_active s \<and> st_running s' = st_running s \<and> st_commands s' = st_commands s \<and>
    st_inFlight s' = st_inFlight s \<and> st_ready s' = st_ready s \<Longrightarrow> stream_inv s' = stream_inv s"
  by (simp add: stream_inv_def waiting_def)

lemma heartbeat_fields:
  assumes "heartbeat_step env s = (e, s')"
  shows "st_client s' = st_client s \<and> st_active s' = st_active s \<and> st_running s' = st_running s \<and> st_commands s' = st_commands s \<and>
    st_inFlight s' = st_inFlight s \<and> st_ready s' = st_ready s"
proof (cases "st_pending s \<noteq> None \<and> now (se_client env) - st_sentAt s \<ge> 3 * HeartbeatSeconds")
  case True
  then show ?thesis using assms by (simp add: heartbeat_step_def)
next
  case False
  then have "send_update env (new_update ''heartbeat'') s = (e, s')"
    using assms unfolding heartbeat_step_def if_not_P [OF False] by simp
  from send_update_fields [OF this] show ?thesis by simp
qed

lemma take_batch_inv: "stream_inv s \<Longrightarrow> stream_inv (take_batch s)"
  by (cases "st_running s"; cases "st_commands s") (simp_all add: take_batch_def stream_inv_def waiting_def)

text \<open>One event: nothing panics, and while the session lives its invariant holds.\<close>

lemma stream_step_inv:
  assumes "stream_inv s" and "failures_fit env"
  obtains e s' where "stream_step env ev s = Some (e, s')" "e = None \<longrightarrow> stream_inv s'"
proof (cases ev)
  case RunOne
  obtain s' where s': "run_one env s = Some s'" "stream_base s'" "st_ready s' \<or> s' = s"
    using run_one_spec [of s env] assms(1) by (metis stream_inv_base)
  then have "stream_inv s'" using assms(1) by (auto simp: stream_inv_base)
  then show thesis using that RunOne s'(1) by (simp add: stream_step_def)
next
  case ResultReady
  obtain e s' where r: "sendResults env (s\<lparr>st_ready := False\<rparr>) = (e, s')" by fastforce
  have base: "stream_base (s\<lparr>st_ready := False\<rparr>)" using assms(1) by (simp add: stream_base_def stream_inv_def waiting_def)
  have "results (st_client s') = [] \<longleftrightarrow> results (st_client s) = []" using sendResults_spec [OF r] by (metis map_is_Nil_conv stream.simps(1) stream.surjective stream.update_convs(9))
  then have "e = None \<longrightarrow> stream_inv s'" using sendResults_spec [OF r] base assms(2) by (simp add: stream_inv_base)
  then show thesis using that ResultReady r assms(1) by (cases "st_ready s") (auto simp: stream_step_def ready_step_def)
next
  case (Frame binary raw)
  show thesis
  proof (cases "binary \<and> is_ok (OpenBinary (se_gzip env) (se_decode env) (st_channel s) raw False)")
    case True
    then obtain reply ch where o: "OpenBinary (se_gzip env) (se_decode env) (st_channel s) raw False = Inr (reply, ch)"
      by (cases "OpenBinary (se_gzip env) (se_decode env) (st_channel s) raw False") auto
    obtain e s' where r: "reply_step env reply (s\<lparr>st_channel := ch\<rparr>) = (e, s')" by fastforce
    have "stream_base (s\<lparr>st_channel := ch\<rparr>)" using assms(1) by (simp add: stream_base_def stream_inv_def waiting_def)
    from reply_step_spec [OF r this] show thesis using that Frame True o r assms(2) by (simp add: stream_step_def)
  next
    case False
    then have "\<exists>x. stream_step env ev s = Some (Some x, s)"
      using Frame by (auto simp: stream_step_def split: sum.splits)
    then show thesis using that by auto
  qed
next
  case HeartbeatTick
  obtain e s' where "heartbeat_step env s = (e, s')" by fastforce
  then show thesis using that HeartbeatTick heartbeat_fields [of env s e s'] stream_inv_cong [of s' s] assms(1) by (simp add: stream_step_def)
next
  case TelemetryReady
  obtain e s' where "telemetry_step env s = (e, s')" by fastforce
  then show thesis using that TelemetryReady telemetry_step_fields [of env s e s'] stream_inv_cong [of s' s] assms(1) by (simp add: stream_step_def)
next
  case Flush
  then show thesis using that [of None "flushAcks env s"] assms(1) by (simp add: stream_step_def flushAcks_def stream_inv_def waiting_def)
next
  case TakeBatch
  then show thesis using that [of None "take_batch s"] take_batch_inv [OF assms(1)] by (simp add: stream_step_def)
next
  case Sample
  then show thesis
    using that [of None "sample env s"] assms(1)
    by (auto simp: stream_step_def sample_def stream_inv_def waiting_def split: option.splits)
next
  case ReadError
  then show thesis using that by (simp add: stream_step_def)
qed

text \<open>A session as a machine: once it has ended, nothing happens any more.\<close>

fun session_step :: "('r, 'u) outcome option \<Rightarrow> ('r, 'u) stream_env \<times> stream_event \<Rightarrow> ('r, 'u) outcome option" where
  "session_step (Some (None, s)) (env, ev) = stream_step env ev s"
| "session_step y ev = y"

definition session_inv :: "('r, 'u) outcome option \<Rightarrow> bool" where
  "session_inv y \<longleftrightarrow> (\<exists>e s. y = Some (e, s) \<and> (e = None \<longrightarrow> stream_inv s))"

interpretation session: guarded_machine session_step session_inv "\<lambda>(env, ev). failures_fit env"
proof unfold_locales
  fix y :: "('r, 'u) outcome option" and x :: "('r, 'u) stream_env \<times> stream_event"
  assume "session_inv y" and fits: "case x of (env, ev) \<Rightarrow> failures_fit env"
  then obtain e s where y: "y = Some (e, s)" "e = None \<longrightarrow> stream_inv s" by (auto simp: session_inv_def)
  obtain env ev where x: "x = (env, ev)" by fastforce
  show "session_inv (session_step y x)"
  proof (cases e)
    case None
    then obtain e1 s1 where "stream_step env ev s = Some (e1, s1)" "e1 = None \<longrightarrow> stream_inv s1"
      using y x fits stream_step_inv [of s env ev] by auto
    then show ?thesis using None y x by (simp add: session_inv_def)
  next
    case (Some r)
    then show ?thesis using y by (simp add: session_inv_def)
  qed
qed

text \<open>No result is stranded in a stream and the count of active commands is exact: over any interleaving of the
  main loop, the command worker, the sampler, the acknowledgement writer and the reader, whatever
  the Controller replies, nothing panics, at most 32 commands wait, and while the session lives
  every queued result is under way to the Controller or announced to the main loop.\<close>
theorem stream_never_strands_results:
  assumes "start_stream env ch initial first options mode listen c = (None, s0)"
    and "cache_sound (cache c)" and "Control_Client.entries (cache c) = recent h" and "sentCount c \<le> length (results c)"
    and "failures_fit env" and "\<forall>(env, ev) \<in> set evs. failures_fit env"
  shows "\<exists>e s. foldl session_step (Some (None, s0)) evs = Some (e, s) \<and> (e = None \<longrightarrow>
    st_active s = int (waiting s) \<and> waiting s \<le> 32 \<and> (results (st_client s) \<noteq> [] \<longrightarrow> st_inFlight s \<or> st_ready s))"
proof -
  have "session_inv (Some (None, s0))" using start_base [OF assms(1,5,2,3,4)] by (simp add: session_inv_def)
  then have "session_inv (foldl session_step (Some (None, s0)) evs)"
    by (rule session.guarded_run) (use assms(6) in \<open>auto simp: list_all_iff\<close>)
  then obtain e s where s: "foldl session_step (Some (None, s0)) evs = Some (e, s)" "e = None \<longrightarrow> stream_inv s"
    by (auto simp: session_inv_def)
  have "waiting s \<le> 32" if "stream_inv s" using that by (auto simp: stream_inv_def waiting_def split: option.splits)
  then show ?thesis using s by (auto simp: stream_inv_def)
qed

text \<open>The IDs an event acknowledges.\<close>

definition acknowledged_by :: "('r, 'u) stream_env \<Rightarrow> stream_event \<Rightarrow> ('r, 'u) stream \<Rightarrow> string set" where
  "acknowledged_by env ev s =
     (case ev of
        Frame binary raw \<Rightarrow>
          (case OpenBinary (se_gzip env) (se_decode env) (st_channel s) raw False of
             Inr (reply, ch) \<Rightarrow> set (rp_AckResults reply) | Inl e \<Rightarrow> {})
      | _ \<Rightarrow> {})"

lemma other_event_keeps:
  assumes "stream_step env ev s = Some (e, s')" and "ev \<noteq> RunOne" "ev \<noteq> ResultReady" "\<And>binary raw. ev \<noteq> Frame binary raw"
  shows "results (st_client s') = results (st_client s) \<and> cfg (st_client s') = cfg (st_client s)"
proof (cases ev)
  case TakeBatch
  then have "s' = take_batch s" using assms(1) by (simp add: stream_step_def)
  then show ?thesis by (cases "st_running s"; cases "st_commands s") (simp_all add: take_batch_def)
next
  case Sample
  then have "s' = sample env s" using assms(1) by (simp add: stream_step_def)
  then show ?thesis by (cases "st_telemetry s") (simp_all add: sample_def)
qed (use assms heartbeat_fields [of env s e s'] telemetry_step_fields [of env s e s'] in
    \<open>auto simp: stream_step_def flushAcks_def\<close>)

lemma frame_keeps:
  assumes "stream_base s" and "stream_step env (Frame binary raw) s = Some (e, s')"
  shows "res_ID ` set (results (st_client s)) - acknowledged_by env (Frame binary raw) s \<subseteq> res_ID ` set (results (st_client s')) \<and>
    (connectionSettings (st_client s') \<noteq> connectionSettings (st_client s) \<longrightarrow> st_active s' = 0 \<and> results (st_client s') = [])"
proof (cases "s' = s")
  case False
  then obtain reply ch where o: "OpenBinary (se_gzip env) (se_decode env) (st_channel s) raw False = Inr (reply, ch)"
      "reply_step env reply (s\<lparr>st_channel := ch\<rparr>) = (e, s')"
    using assms(2) by (auto simp: stream_step_def split: if_splits sum.splits)
  have "stream_base (s\<lparr>st_channel := ch\<rparr>)" using assms(1) by (simp add: stream_base_def stream_inv_def waiting_def)
  from reply_step_spec [OF o(2) this] show ?thesis using o(1) by (simp add: acknowledged_by_def)
qed auto

text \<open>Results survive until they are acknowledged: no event of a stream drops a result unless it is a reply that
  acknowledges its ID, and no event but a command changes the connection unless every command has
  finished and every result has been acknowledged.\<close>
theorem unacknowledged_results_survive:
  assumes "stream_inv s" and "stream_step env ev s = Some (e, s')"
  shows "res_ID ` set (results (st_client s)) - acknowledged_by env ev s \<subseteq> res_ID ` set (results (st_client s')) \<and>
    (ev \<noteq> RunOne \<and> connectionSettings (st_client s') \<noteq> connectionSettings (st_client s) \<longrightarrow> st_active s' = 0 \<and> results (st_client s') = [])"
proof -
  have base: "stream_base s" using assms(1) by (simp add: stream_inv_base)
  consider binary raw where "ev = Frame binary raw" | "ev = RunOne" | "ev = ResultReady"
    | "ev \<noteq> RunOne" "ev \<noteq> ResultReady" "\<And>binary raw. ev \<noteq> Frame binary raw" by blast
  then show ?thesis
  proof cases
    case 1
    then show ?thesis using frame_keeps [OF base] assms(2) by simp
  next
    case 2
    then have "set (results (st_client s)) \<subseteq> set (results (st_client s'))"
      using run_one_spec [OF base, of env] assms(2) by (auto simp: stream_step_def)
    then show ?thesis using 2 by auto
  next
    case 3
    then have "map res_ID (results (st_client s')) = map res_ID (results (st_client s)) \<and> connectionSettings (st_client s') = connectionSettings (st_client s)"
      using sendResults_spec [of env "s\<lparr>st_ready := False\<rparr>" e s'] assms(2)
      by (cases "st_ready s") (simp_all add: stream_step_def ready_step_def)
    then have "res_ID ` set (results (st_client s')) = res_ID ` set (results (st_client s))"
      "connectionSettings (st_client s') = connectionSettings (st_client s)" by (metis set_map, simp)
    then show ?thesis by auto
  next
    case 4
    then show ?thesis using other_event_keeps [OF assms(2)] by (auto simp: connectionSettings_def)
  qed
qed

section \<open>A sample session\<close>

definition stream_env_sample :: "(unit, unit) stream_env" where
  "stream_env_sample = \<lparr>se_client = env_sample, se_gzip = plain_gzip, se_encode = (\<lambda>_. Some []), se_decode = (\<lambda>_. Some reply_sample),
     se_write = True\<rparr>"

definition options_sample :: stream_options where
  "options_sample = \<lparr>Version = 2, Binary = True, Compression = ''gzip'', heartbeat_seconds = HeartbeatSeconds,
     telemetry_seconds = TelemetrySeconds, TelemetryDelta = True\<rparr>"

definition stream_sample :: "(unit, unit) stream" where
  "stream_sample = fresh_stream (sample_channel sample_aead) (fst (make_report env_sample client_sample)) options_sample
     ''websocket'' ''0.0.0.0:23889'' client_sample"

lemma client_sample_settings: "connectionSettings client_sample = (''websocket'', ''0.0.0.0:23889'')"
proof -
  have "ConnectionMode config_sample = ''websocket''" "ListenAddress config_sample = ''0.0.0.0:23889''" by code_simp+
  then show ?thesis by (simp add: connectionSettings_def client_sample_eq)
qed

lemma start_sample:
  "start_stream stream_env_sample (sample_channel sample_aead) (fst (make_report env_sample client_sample)) (reply_sample\<lparr>rp_Commands := []\<rparr>)
     options_sample ''websocket'' ''0.0.0.0:23889'' client_sample = (None, stream_sample)"
proof -
  have ack: "acknowledge env_sample (reply_sample\<lparr>rp_Commands := []\<rparr>) client_sample = (Inr (), client_sample)"
    by (simp add: acknowledge_def Let_def setConnectionLocked_def reply_sample_def client_sample_eq env_sample_def)
  have "sendResults stream_env_sample stream_sample = (None, stream_sample)"
    by (simp add: sendResults_def resultBatchLocked_def stream_sample_def fresh_stream_def client_sample_eq Let_def)
  then show ?thesis
    using ack client_sample_settings
    by (simp add: start_stream_def stream_env_sample_def queue_def and_then_def reply_sample_def flip: stream_sample_def)
qed

definition sampled :: update where
  "sampled = (new_update ''telemetry'')\<lparr>up_Observation := Some [(''agent_update'', JNull)],
     up_Capabilities := Some (client_capabilities env_sample client_sample)\<rparr>"

lemma sample_observation: "client_snapshot env_sample c = [(''agent_update'', JNull)]"
  by (simp add: client_snapshot_def env_sample_def)

lemma sample_send:
  "st_channel s = sample_channel sample_aead \<Longrightarrow> \<exists>s'. send_telemetry stream_env_sample u s = (None, s') \<and>
     length (st_written s') = Suc (length (st_written s)) \<and> st_pending s' = st_pending s"
  by (simp add: send_telemetry_def send_update_def Let_def stream_env_sample_def SealBinary_def compress_payload_def
      compressionThreshold_def MaxPacket_def sample_channel_def max_u64_def)

lemma sample_reaches:
  "\<exists>s :: (unit, unit) stream. telemetry_reach s \<lparr>ct_revision = 0, ct_base = None, ct_read = 0, ct_acks = []\<rparr> \<and> length (st_written s) = 1 \<and>
     st_pending s = Some [(''agent_update'', JNull)]"
proof -
  have open_ok: "telemetry_reach stream_sample \<lparr>ct_revision = 0, ct_base = None, ct_read = 0, ct_acks = []\<rparr>"
    by (rule telemetry_reach.opened [OF start_sample]) (simp add: options_sample_def)
  have wf: "\<And>c. wf_json (JObj (client_snapshot (se_client stream_env_sample) c))"
    by (simp add: stream_env_sample_def sample_observation)
  have "stream_step stream_env_sample Sample stream_sample = Some (None, stream_sample\<lparr>st_telemetry := Some sampled\<rparr>)"
    by (simp add: stream_step_def sample_def stream_sample_def fresh_stream_def sampled_def stream_env_sample_def sample_observation)
  from telemetry_reach.event [OF open_ok _ wf this]
  have reach: "telemetry_reach (stream_sample\<lparr>st_telemetry := Some sampled\<rparr>) \<lparr>ct_revision = 0, ct_base = None, ct_read = 0, ct_acks = []\<rparr>"
    by simp
  have clone: "CloneObservation (Some [(''agent_update'', JNull)]) = Inr (Some [(''agent_update'', JNull)])"
    by (simp add: CloneObservation_def MaxPacket_def json_string_def json_escape_def Let_def)
  let ?s = "stream_sample\<lparr>st_telemetry := None, st_pending := Some [(''agent_update'', JNull)], st_sentAt := now env_sample\<rparr>"
  obtain u where "telemetry_step stream_env_sample (stream_sample\<lparr>st_telemetry := Some sampled\<rparr>) = send_telemetry stream_env_sample u ?s"
    using clone
    by (simp add: telemetry_step_def Let_def stream_sample_def fresh_stream_def sampled_def options_sample_def max_u64_def
        stream_env_sample_def)
  moreover have "st_channel ?s = sample_channel sample_aead" "st_written ?s = []" by (simp_all add: stream_sample_def fresh_stream_def)
  ultimately obtain s where s: "stream_step stream_env_sample TelemetryReady (stream_sample\<lparr>st_telemetry := Some sampled\<rparr>) = Some (None, s)"
      "length (st_written s) = 1" "st_pending s = Some [(''agent_update'', JNull)]"
    using sample_send [of ?s u] by (auto simp: stream_step_def)
  from telemetry_reach.event [OF reach _ wf s(1)] show ?thesis using s by auto
qed

theorem telemetry_in_sync_witness:
  "\<exists>s. telemetry_reach (s :: (unit, unit) stream) \<lparr>ct_revision = 0, ct_base = None, ct_read = 0, ct_acks = []\<rparr> \<and>
     controller_step (st_written s ! 0) \<lparr>ct_revision = 0, ct_base = None, ct_read = 0, ct_acks = []\<rparr> \<noteq> None"
proof -
  obtain s :: "(unit, unit) stream" where s: "telemetry_reach s \<lparr>ct_revision = 0, ct_base = None, ct_read = 0, ct_acks = []\<rparr>"
    and "length (st_written s) = 1" using sample_reaches by blast
  then have "controller_step (st_written s ! 0) \<lparr>ct_revision = 0, ct_base = None, ct_read = 0, ct_acks = []\<rparr> \<noteq> None"
    using conjunct1 [OF telemetry_in_sync [OF s]] by simp
  then show ?thesis using s by blast
qed

lemma failures_fit_sample: "failures_fit stream_env_sample"
  by (simp add: failures_fit_def stream_env_sample_def encoded_size_def env_sample_def batch_limit_def MaxPacket_def)

theorem stream_never_strands_results_witness:
  "\<exists>e s. foldl session_step (Some (None, stream_sample)) [(stream_env_sample, Sample), (stream_env_sample, TelemetryReady),
       (stream_env_sample, Frame True []), (stream_env_sample, RunOne)] = Some (e, s) \<and>
     (e = None \<longrightarrow> st_active s = int (waiting s) \<and> waiting s \<le> 32 \<and> (results (st_client s) \<noteq> [] \<longrightarrow> st_inFlight s \<or> st_ready s))"
  by (rule stream_never_strands_results [OF start_sample, where h = "[]"])
    (use empty_cache_ok failures_fit_sample in \<open>simp_all add: client_sample_eq\<close>)

theorem unacknowledged_results_survive_witness:
  "\<exists>e s'. stream_step stream_env_sample HeartbeatTick stream_sample = Some (e, s') \<and>
     res_ID ` set (results (st_client stream_sample)) - acknowledged_by stream_env_sample HeartbeatTick stream_sample
       \<subseteq> res_ID ` set (results (st_client s'))"
proof -
  have inv: "stream_inv stream_sample"
    by (rule start_base [OF start_sample failures_fit_sample, where h = "[]"]) (use empty_cache_ok in \<open>simp_all add: client_sample_eq\<close>)
  obtain e s' where "stream_step stream_env_sample HeartbeatTick stream_sample = Some (e, s')"
    using stream_step_inv [OF inv failures_fit_sample] by blast
  then show ?thesis using unacknowledged_results_survive [OF inv] by blast
qed

end
