(* ===== verification/Control_Dial.thy ===== *)
theory Control_Dial
  imports Control_Stream
begin

text \<open>
  How the control client reaches the Controller (internal/control/client.go and transports.go): one pull over HTTP, the
  pull loop beside the direct listener, and the WebSocket connection with its negotiation and its v1 loop. The stream
  that a negotiation leads to is that of \<open>Control_Stream\<close>.

  The network is a parameter of each step: what the Controller answers, whether a write succeeds, whether the context is
  cancelled. The encoders of a report and a reply are parameters as in the channel. Each operation also yields its log:
  the reports it made and the replies it accepted, as events of the exchange of \<open>Control_Client\<close>.
\<close>

section \<open>A pull\<close>

record dial_env =
  dl_crypto :: crypto
  dl_report :: "stream_options option \<Rightarrow> report \<Rightarrow> bytes option"
  dl_reply :: "bytes \<Rightarrow> reply option"

text \<open>What an HTTP request yields: nothing, or a status and the decoded body.\<close>

datatype pull_answer = NoResponse | Response nat "packet option"

datatype dial_error = WireError wire_error | RequestFailed | BadStatus nat | BadBody | DialFailed | WriteFailed | ReadFailed
  | BadNegotiation | ReplyRefused string | Cancelled

definition pull_url :: "string \<Rightarrow> string" where
  "pull_url master = trim_right CHR ''/'' master @ ''/api/agent/pull''"

definition pull ::
  "dial_env \<Rightarrow> ('r, 'u) client_env \<Rightarrow> bytes \<Rightarrow> (string \<Rightarrow> hello \<Rightarrow> pull_answer) \<Rightarrow> ('r, 'u) client \<Rightarrow>
     (dial_error, reply) res \<times> ('r, 'u) client" where
  "pull dl env random post c =
     (case NewClient (dl_crypto dl) random (MasterPublicKey (cfg c)) of
        Inl e \<Rightarrow> (Inl (WireError e), c)
      | Inr ch \<Rightarrow>
          (case make_report env c of (rep, c1) \<Rightarrow>
             (case Seal (dl_report dl None) ch rep of
                Inl e \<Rightarrow> Inl (WireError e)
              | Inr (p, ch1) \<Rightarrow>
                  (case post (pull_url (MasterURL (cfg c1))) \<lparr>hello_PublicKey = public_key ch1, hello_Packet = p\<rparr> of
                     NoResponse \<Rightarrow> Inl RequestFailed
                   | Response status body \<Rightarrow>
                       if status \<noteq> 200 then Inl (BadStatus status)
                       else case body of
                         None \<Rightarrow> Inl BadBody
                       | Some q \<Rightarrow> (case Open (dl_reply dl) ch1 q of Inl e \<Rightarrow> Inl (WireError e) | Inr (reply, _) \<Rightarrow> Inr reply)), c1)))"

text \<open>The log of a pull whose reply is accepted.\<close>

definition pull_log ::
  "dial_env \<Rightarrow> ('r, 'u) client_env \<Rightarrow> bytes \<Rightarrow> (string \<Rightarrow> hello \<Rightarrow> pull_answer) \<Rightarrow> ('r, 'u) client \<Rightarrow> ('r, 'u) exchange_event list" where
  "pull_log dl env random post c =
     (if is_ok (NewClient (dl_crypto dl) random (MasterPublicKey (cfg c)))
      then SendReport env # (case fst (pull dl env random post c) of Inl _ \<Rightarrow> [] | Inr reply \<Rightarrow> [ReceiveReply env reply])
      else [])"

section \<open>The pull loop\<close>

text \<open>
  The places of the loop between which the direct listener may execute a command: before the first look at the settings,
  before the choice whether to pull, before the exchange (which holds the lock the listener needs), before the second look,
  asleep, and left.
\<close>

datatype pull_place = AtHead | AtChoice | AtExchange | AtTail int | Asleep int | LeftLoop

record ('r, 'u) pull_turn =
  pt_env :: "('r, 'u) client_env"
  pt_random :: bytes
  pt_post :: "string \<Rightarrow> hello \<Rightarrow> pull_answer"
  pt_cancelled :: bool

text \<open>\<open>None\<close> is a panic of the eviction loop.\<close>

fun pullLoop ::
  "dial_env \<Rightarrow> string \<times> string \<Rightarrow> ('r, 'u) pull_turn \<Rightarrow> pull_place \<Rightarrow> ('r, 'u) client \<Rightarrow> (pull_place \<times> ('r, 'u) client) option" where
  "pullLoop dl settings t AtHead c = Some (if pt_cancelled t \<or> connectionSettings c \<noteq> settings then LeftLoop else AtChoice, c)"
| "pullLoop dl settings t AtChoice c =
     Some (if fst settings = ''auto'' \<and> now (pt_env t) - lastDirect c < 15 then Asleep 1 else AtExchange, c)"
| "pullLoop dl settings t AtExchange c =
     (case pull dl (pt_env t) (pt_random t) (pt_post t) c of
        (Inl _, c1) \<Rightarrow> Some (AtTail 5, c1)
      | (Inr reply, c1) \<Rightarrow> map_option (\<lambda>(_, c2). (AtTail (reply_interval reply), c2)) (accept (pt_env t) reply c1))"
| "pullLoop dl settings t (AtTail delay) c = Some (if connectionSettings c \<noteq> settings then LeftLoop else Asleep delay, c)"
| "pullLoop dl settings t (Asleep delay) c = Some (if pt_cancelled t then LeftLoop else AtHead, c)"
| "pullLoop dl settings t LeftLoop c = Some (LeftLoop, c)"

section \<open>The WebSocket connection\<close>

text \<open>\<open>strings.Replace\<close> with count 1.\<close>

fun replace_first :: "string \<Rightarrow> string \<Rightarrow> string \<Rightarrow> string" where
  "replace_first old new [] = (if old = [] then new else [])"
| "replace_first old new (c # s) =
     (if has_prefix (c # s) old then new @ drop (length old) (c # s) else c # replace_first old new s)"

definition socket_url :: "string \<Rightarrow> string" where
  "socket_url master = replace_first ''http://'' ''ws://'' (replace_first ''https://'' ''wss://'' (trim_right CHR ''/'' master @ ''/api/agent/ws''))"

record ws_link =
  ws_channel :: channel
  ws_initial :: report
  ws_negotiating :: bool
  ws_settings :: "string \<times> string"

datatype ws_end = Broken dial_error | SettingsDiffer | ToStream channel reply stream_options

text \<open>Up to the first packet: \<open>dials\<close> and \<open>written\<close> tell whether the connection and the write succeed.\<close>

definition open_socket ::
  "dial_env \<Rightarrow> ('r, 'u) client_env \<Rightarrow> bytes \<Rightarrow> (string \<Rightarrow> bool) \<Rightarrow> (hello \<Rightarrow> bool) \<Rightarrow> ('r, 'u) client \<Rightarrow> (dial_error, ws_link) res \<times> ('r, 'u) client" where
  "open_socket dl env random dials written c =
     (if \<not> dials (socket_url (MasterURL (cfg c))) then (Inl DialFailed, c)
      else case NewClient (dl_crypto dl) random (MasterPublicKey (cfg c)) of
        Inl e \<Rightarrow> (Inl (WireError e), c)
      | Inr ch \<Rightarrow>
          (case make_report env c of (rep, c1) \<Rightarrow>
             (case Seal (dl_report dl (Some StreamOffer)) ch rep of
                Inl e \<Rightarrow> Inl (WireError e)
              | Inr (p, ch1) \<Rightarrow>
                  if \<not> written \<lparr>hello_PublicKey = public_key ch1, hello_Packet = p\<rparr> then Inl WriteFailed
                  else Inr \<lparr>ws_channel = ch1, ws_initial = rep, ws_negotiating = True, ws_settings = connectionSettings c\<rparr>, c1)))"

definition open_log :: "dial_env \<Rightarrow> ('r, 'u) client_env \<Rightarrow> bytes \<Rightarrow> (string \<Rightarrow> bool) \<Rightarrow> ('r, 'u) client \<Rightarrow> ('r, 'u) exchange_event list" where
  "open_log dl env random dials c =
     (if dials (socket_url (MasterURL (cfg c))) \<and> is_ok (NewClient (dl_crypto dl) random (MasterPublicKey (cfg c))) then [SendReport env] else [])"

text \<open>One packet of the Controller, up to the next report; the clock moves from \<open>env\<close> to \<open>later\<close> during the pause.\<close>

record ('r, 'u) ws_turn =
  wt_env :: "('r, 'u) client_env"
  wt_read :: "packet option"
  wt_cancelled :: bool
  wt_later :: "('r, 'u) client_env"
  wt_written :: "packet \<Rightarrow> bool"

definition webSocket ::
  "dial_env \<Rightarrow> ('r, 'u) ws_turn \<Rightarrow> ws_link \<Rightarrow> ('r, 'u) client \<Rightarrow> ((ws_end, ws_link) res \<times> ('r, 'u) client \<times> ('r, 'u) exchange_event list) option" where
  "webSocket dl t l c =
     (case wt_read t of
        None \<Rightarrow> Some (Inl (Broken ReadFailed), c, [])
      | Some q \<Rightarrow>
          (case Open (dl_reply dl) (ws_channel l) q of
             Inl e \<Rightarrow> Some (Inl (Broken (WireError e)), c, [])
           | Inr (reply, ch1) \<Rightarrow>
               (case rp_Stream reply of
                  Some options \<Rightarrow>
                    Some (Inl (if \<not> ws_negotiating l \<or> \<not> StreamOptions_Valid (Some options) then Broken BadNegotiation else ToStream ch1 reply options), c, [])
                | None \<Rightarrow>
                    (case accept (wt_env t) reply c of
                       None \<Rightarrow> None
                     | Some (Inl e, c1) \<Rightarrow> Some (Inl (Broken (ReplyRefused e)), c1, [ReceiveReply (wt_env t) reply])
                     | Some (Inr _, c1) \<Rightarrow>
                         if connectionSettings c1 \<noteq> ws_settings l then Some (Inl SettingsDiffer, c1, [ReceiveReply (wt_env t) reply])
                         else if wt_cancelled t then Some (Inl (Broken Cancelled), c1, [ReceiveReply (wt_env t) reply])
                         else case make_report (wt_later t) c1 of (rep, c2) \<Rightarrow>
                           Some (case Seal (dl_report dl None) ch1 rep of
                               Inl e \<Rightarrow> Inl (Broken (WireError e))
                             | Inr (p, ch2) \<Rightarrow>
                                 if wt_written t p then Inr (l\<lparr>ws_channel := ch2, ws_negotiating := False\<rparr>) else Inl (Broken WriteFailed),
                             c2, [ReceiveReply (wt_env t) reply, SendReport (wt_later t)])))))"

section \<open>All transports together\<close>

text \<open>
  The client with what it is doing: a place in a pull loop, a WebSocket, and the log so far. \<open>None\<close> as the client would be
  a panic.
\<close>

record ('r, 'u) dial =
  di_client :: "('r, 'u) client option"
  di_place :: pull_place
  di_settings :: "string \<times> string"
  di_link :: "ws_link option"
  di_log :: "('r, 'u) exchange_event list"

datatype ('r, 'u) dial_event = EnterLoop | PullStep "('r, 'u) pull_turn" | DirectRpc "('r, 'u) client_env" command
  | OpenSocket "('r, 'u) client_env" bytes "string \<Rightarrow> bool" "hello \<Rightarrow> bool" | SocketTurn "('r, 'u) ws_turn"

definition place_log :: "dial_env \<Rightarrow> ('r, 'u) pull_turn \<Rightarrow> pull_place \<Rightarrow> ('r, 'u) client \<Rightarrow> ('r, 'u) exchange_event list" where
  "place_log dl t place c = (if place = AtExchange then pull_log dl (pt_env t) (pt_random t) (pt_post t) c else [])"

fun dial_client :: "dial_env \<Rightarrow> ('r, 'u) client \<Rightarrow> ('r, 'u) dial \<Rightarrow> ('r, 'u) dial_event \<Rightarrow> ('r, 'u) dial" where
  "dial_client dl c s EnterLoop = s\<lparr>di_place := AtHead, di_settings := connectionSettings c\<rparr>"
| "dial_client dl c s (PullStep t) =
     (case pullLoop dl (di_settings s) t (di_place s) c of
        None \<Rightarrow> s\<lparr>di_client := None\<rparr>
      | Some (place, c1) \<Rightarrow> s\<lparr>di_client := Some c1, di_place := place, di_log := di_log s @ place_log dl t (di_place s) c\<rparr>)"
| "dial_client dl c s (DirectRpc env cmd) =
     s\<lparr>di_client := map_option (\<lambda>(_, c1). c1\<lparr>lastDirect := now env\<rparr>) (execute env cmd c), di_log := di_log s @ [DirectCommand env cmd]\<rparr>"
| "dial_client dl c s (OpenSocket env random dials written) =
     (case open_socket dl env random dials written c of (r, c1) \<Rightarrow>
        s\<lparr>di_client := Some c1, di_link := (case r of Inl _ \<Rightarrow> None | Inr l \<Rightarrow> Some l), di_log := di_log s @ open_log dl env random dials c\<rparr>)"
| "dial_client dl c s (SocketTurn t) =
     (case di_link s of
        None \<Rightarrow> s
      | Some l \<Rightarrow>
          (case webSocket dl t l c of
             None \<Rightarrow> s\<lparr>di_client := None\<rparr>
           | Some (r, c1, log) \<Rightarrow> s\<lparr>di_client := Some c1, di_link := (case r of Inl _ \<Rightarrow> None | Inr l1 \<Rightarrow> Some l1), di_log := di_log s @ log\<rparr>))"

definition dial_step :: "dial_env \<Rightarrow> ('r, 'u) dial \<Rightarrow> ('r, 'u) dial_event \<Rightarrow> ('r, 'u) dial" where
  "dial_step dl s ev = (case di_client s of None \<Rightarrow> s | Some c \<Rightarrow> dial_client dl c s ev)"

section \<open>The transports are runs of the exchange\<close>

text \<open>A log leads the exchange from \<open>x\<close> to a state with the client \<open>c\<close>.\<close>

definition leads :: "('r, 'u) exchange \<Rightarrow> ('r, 'u) exchange_event list \<Rightarrow> ('r, 'u) client option \<Rightarrow> bool" where
  "leads x log c \<longleftrightarrow> map_option ex_client (foldl exchange_step (Some x) log) = c \<and> c \<noteq> None"

lemma leads_Nil: "leads x [] c \<longleftrightarrow> c = Some (ex_client x)"
  by (auto simp: leads_def)

lemma leads_report: "make_report env (ex_client x) = (rep, c1) \<Longrightarrow> leads x [SendReport env] (Some c1)"
  by (simp add: leads_def)

lemma accept_returns: "exchange_inv (Some x) \<Longrightarrow> \<exists>q c'. accept env reply (ex_client x) = Some (q, c')"
proof -
  assume "exchange_inv (Some x)"
  then obtain h where h: "cache_sound (cache (ex_client x))" "Control_Client.entries (cache (ex_client x)) = recent h"
    "sentCount (ex_client x) \<le> length (results (ex_client x))"
    by (auto simp: exchange_inv_def)
  show ?thesis using accept_spec [OF h, of env reply] by blast
qed

lemma leads_reply: "accept env reply (ex_client x) = Some (q, c1) \<Longrightarrow> leads x [ReceiveReply env reply] (Some c1)"
  by (simp add: leads_def)

lemma leads_append:
  assumes "leads x log (Some c1)" "exchange_inv (Some x)"
    "\<And>x1. exchange_inv (Some x1) \<Longrightarrow> ex_client x1 = c1 \<Longrightarrow> leads x1 log' c2"
  shows "leads x (log @ log') c2"
proof -
  obtain x1 where "foldl exchange_step (Some x) log = Some x1" "ex_client x1 = c1" using assms(1) by (auto simp: leads_def)
  moreover have "exchange_inv (Some x1)" using exchange.run_inv [OF assms(2), of log] calculation(1) by simp
  ultimately show ?thesis using assms(3) [of x1] by (simp add: leads_def)
qed

lemma leads_report_then:
  assumes "exchange_inv (Some x)" "make_report env (ex_client x) = (rep, c1)"
    "\<And>x1. exchange_inv (Some x1) \<Longrightarrow> ex_client x1 = c1 \<Longrightarrow> leads x1 log c2"
  shows "leads x (SendReport env # log) c2"
  using leads_append [OF leads_report [OF assms(2)] assms(1,3)] by simp

text \<open>A pull and what the loop makes of it.\<close>

lemma pull_refused: "\<not> is_ok (NewClient (dl_crypto dl) random (MasterPublicKey (cfg c))) \<Longrightarrow> \<exists>e. pull dl env random post c = (Inl e, c)"
  by (cases "NewClient (dl_crypto dl) random (MasterPublicKey (cfg c))") (simp_all add: pull_def)

lemma pull_client:
  assumes "is_ok (NewClient (dl_crypto dl) random (MasterPublicKey (cfg c)))" "make_report env c = (rep, c1)"
  shows "snd (pull dl env random post c) = c1"
  using assms by (cases "NewClient (dl_crypto dl) random (MasterPublicKey (cfg c))") (simp_all add: pull_def)

lemma exchange_leads:
  assumes "exchange_inv (Some x)" "c = ex_client x"
  shows "\<exists>place c2. pullLoop dl settings t AtExchange c = Some (place, c2) \<and>
    leads x (pull_log dl (pt_env t) (pt_random t) (pt_post t) c) (Some c2)"
proof (cases "is_ok (NewClient (dl_crypto dl) (pt_random t) (MasterPublicKey (cfg c)))")
  case False
  then show ?thesis using pull_refused [OF False, of "pt_env t" "pt_post t"] assms(2) by (auto simp: pull_log_def leads_Nil)
next
  case True
  obtain rep c1 where r: "make_report (pt_env t) c = (rep, c1)" by fastforce
  obtain q where q: "pull dl (pt_env t) (pt_random t) (pt_post t) c = (q, c1)"
    using pull_client [OF True r, of "pt_post t"] by (metis prod.collapse)
  show ?thesis
  proof (cases q)
    case (Inl e)
    then show ?thesis using q True r assms(2) leads_report [of "pt_env t" x rep c1] by (simp add: pull_log_def)
  next
    case (Inr reply)
    have mid: "exchange_inv (Some (x\<lparr>ex_client := c1, ex_batch := rt_Results rep\<rparr>))"
      using exchange.step_inv [OF assms(1), of "SendReport (pt_env t)"] r assms(2) by simp
    then obtain p c2 where a: "accept (pt_env t) reply c1 = Some (p, c2)" using accept_returns [OF mid, of "pt_env t" reply] by auto
    have "leads x (SendReport (pt_env t) # [ReceiveReply (pt_env t) reply]) (Some c2)"
      by (rule leads_report_then [OF assms(1)]) (use r assms(2) a in \<open>auto intro: leads_reply\<close>)
    then show ?thesis using q True Inr a by (simp add: pull_log_def)
  qed
qed

lemma pull_step_leads:
  assumes "exchange_inv (Some x)" "c = ex_client x"
  shows "\<exists>place' c2. pullLoop dl settings t place c = Some (place', c2) \<and> leads x (place_log dl t place c) (Some c2)"
  using exchange_leads [OF assms, of dl settings t] assms(2) by (cases place) (auto simp: place_log_def leads_Nil)

lemma open_leads:
  assumes "exchange_inv (Some x)" "open_socket dl env random dials written (ex_client x) = (r, c1)"
  shows "leads x (open_log dl env random dials (ex_client x)) (Some c1)"
proof (cases "dials (socket_url (MasterURL (cfg (ex_client x)))) \<and> is_ok (NewClient (dl_crypto dl) random (MasterPublicKey (cfg (ex_client x))))")
  case True
  obtain rep c' where m: "make_report env (ex_client x) = (rep, c')" by fastforce
  then have "c1 = c'" using assms(2) True
    by (cases "NewClient (dl_crypto dl) random (MasterPublicKey (cfg (ex_client x)))") (auto simp: open_socket_def)
  then show ?thesis using leads_report [OF m] True by (simp add: open_log_def)
next
  case False
  then have "c1 = ex_client x" using assms(2)
    by (cases "NewClient (dl_crypto dl) random (MasterPublicKey (cfg (ex_client x)))") (auto simp: open_socket_def split: if_splits)
  then show ?thesis using False by (auto simp: open_log_def leads_Nil)
qed

lemma socket_leads:
  assumes "exchange_inv (Some x)"
  shows "\<exists>r c2 log. webSocket dl t l (ex_client x) = Some (r, c2, log) \<and> leads x log (Some c2)"
proof (cases "\<exists>q reply ch1. wt_read t = Some q \<and> Open (dl_reply dl) (ws_channel l) q = Inr (reply, ch1) \<and> rp_Stream reply = None")
  case False
  then have "\<exists>e. webSocket dl t l (ex_client x) = Some (Inl e, ex_client x, [])"
    by (auto simp: webSocket_def split: option.splits sum.splits)
  then show ?thesis by (auto simp: leads_Nil)
next
  case True
  then obtain q reply ch1 where q: "wt_read t = Some q" "Open (dl_reply dl) (ws_channel l) q = Inr (reply, ch1)" "rp_Stream reply = None" by blast
  obtain p c1 where a: "accept (wt_env t) reply (ex_client x) = Some (p, c1)" using accept_returns [OF assms] by blast
  note one = leads_reply [OF a]
  obtain rep c2 where m: "make_report (wt_later t) c1 = (rep, c2)" by fastforce
  have two: "leads x ([ReceiveReply (wt_env t) reply] @ [SendReport (wt_later t)]) (Some c2)"
    by (rule leads_append [OF one assms]) (use m in \<open>auto intro: leads_report\<close>)
  note path = webSocket_def [of dl t l "ex_client x", unfolded q option.case sum.case prod.case a]
  show ?thesis
  proof (cases "is_ok p \<and> connectionSettings c1 = ws_settings l \<and> \<not> wt_cancelled t")
    case True
    then show ?thesis using path m two by (cases p) simp_all
  next
    case False
    then show ?thesis using path one by (cases p) auto
  qed
qed

lemma direct_leads:
  assumes "exchange_inv (Some x)"
  shows "leads x [DirectCommand env cmd] (map_option (\<lambda>(_, c1). c1\<lparr>lastDirect := now env\<rparr>) (execute env cmd (ex_client x)))"
  using exchange.step_inv [OF assms, of "DirectCommand env cmd"]
  by (cases "execute env cmd (ex_client x)") (auto simp: leads_def exchange_inv_def)

definition dial_inv :: "('r, 'u) exchange \<Rightarrow> ('r, 'u) dial \<Rightarrow> bool" where
  "dial_inv x s \<longleftrightarrow> exchange_inv (Some x) \<and> leads x (di_log s) (di_client s)"

lemma dial_step_inv:
  assumes "dial_inv x s"
  shows "dial_inv x (dial_step dl s ev)"
proof -
  have inv: "exchange_inv (Some x)" and leads: "leads x (di_log s) (di_client s)" using assms by (simp_all add: dial_inv_def)
  then obtain c where c: "di_client s = Some c" by (auto simp: leads_def)
  have more: "leads x (di_log s @ log) c'" if "\<And>x1. exchange_inv (Some x1) \<Longrightarrow> ex_client x1 = c \<Longrightarrow> leads x1 log c'" for log c'
    using leads_append [OF leads [unfolded c] inv that] .
  have reached: "\<exists>x1. exchange_inv (Some x1) \<and> ex_client x1 = c"
    using exchange.run_inv [OF inv, of "di_log s"] leads c by (auto simp: leads_def)
  show ?thesis
  proof (cases ev)
    case EnterLoop
    then show ?thesis using assms c by (simp add: dial_step_def dial_inv_def)
  next
    case (PullStep t)
    obtain place' c2 where p: "pullLoop dl (di_settings s) t (di_place s) c = Some (place', c2)"
      using reached pull_step_leads [of _ c dl "di_settings s" t "di_place s"] by blast
    have "leads x (di_log s @ place_log dl t (di_place s) c) (Some c2)"
      by (rule more) (use p pull_step_leads [of _ c dl "di_settings s" t "di_place s"] in fastforce)
    then show ?thesis using PullStep p c inv by (simp add: dial_step_def dial_inv_def)
  next
    case (DirectRpc env cmd)
    have "leads x (di_log s @ [DirectCommand env cmd]) (map_option (\<lambda>(_, c1). c1\<lparr>lastDirect := now env\<rparr>) (execute env cmd c))"
      by (rule more) (use direct_leads in fastforce)
    then show ?thesis using DirectRpc c inv by (simp add: dial_step_def dial_inv_def)
  next
    case (OpenSocket env random dials written)
    obtain r c1 where o: "open_socket dl env random dials written c = (r, c1)" by fastforce
    have "leads x (di_log s @ open_log dl env random dials c) (Some c1)"
      by (rule more) (use o open_leads in fastforce)
    then show ?thesis using OpenSocket o c inv by (simp add: dial_step_def dial_inv_def)
  next
    case (SocketTurn t)
    show ?thesis
    proof (cases "di_link s")
      case None
      then show ?thesis using SocketTurn assms c by (simp add: dial_step_def)
    next
      case (Some l)
      obtain r c2 log where w: "webSocket dl t l c = Some (r, c2, log)" using reached socket_leads by blast
      have "leads x (di_log s @ log) (Some c2)" by (rule more) (use w socket_leads [of _ dl t l] in fastforce)
      then show ?thesis using SocketTurn Some w c inv by (simp add: dial_step_def dial_inv_def)
    qed
  qed
qed

interpretation dial: machine "dial_step dl" "dial_inv x" for dl x
  by unfold_locales (rule dial_step_inv)

definition dial_start :: "('r, 'u) client \<Rightarrow> ('r, 'u) dial" where
  "dial_start c = \<lparr>di_client = Some c, di_place = LeftLoop, di_settings = connectionSettings c, di_link = None, di_log = []\<rparr>"

text \<open>C13: Every transport is an exchange. Whatever the network does, a client that pulls, answers direct commands between the
  steps of its pull loop, and opens WebSockets never panics; its state is the one the abstract exchange has after
  the reports it made, the replies it accepted and the commands it executed, in this order; and so every result it
  produced is in an answered report or still queued.\<close>

theorem transports_refine_exchange:
  "\<exists>c x. di_client (foldl (dial_step dl) (dial_start (New g disk r u)) es) = Some c \<and>
    foldl exchange_step (Some \<lparr>ex_client = New g disk r u, ex_batch = [], ex_delivered = [], ex_produced = []\<rparr>)
      (di_log (foldl (dial_step dl) (dial_start (New g disk r u)) es)) = Some x \<and>
    c = ex_client x \<and> ex_produced x = ex_delivered x @ map res_ID (results c)"
proof -
  let ?x = "\<lparr>ex_client = New g disk r u, ex_batch = [], ex_delivered = [], ex_produced = []\<rparr>"
  let ?s = "foldl (dial_step dl) (dial_start (New g disk r u)) es"
  have "exchange_inv (Some ?x)"
    using empty_cache_ok unfolding exchange_inv_def by (intro exI [of _ ?x] exI [of _ "[]"]) (simp add: New_def)
  then have "dial_inv ?x (dial_start (New g disk r u))" by (simp add: dial_inv_def dial_start_def leads_Nil)
  then have inv: "exchange_inv (Some ?x)" "leads ?x (di_log ?s) (di_client ?s)"
    using dial.run_inv [of ?x "dial_start (New g disk r u)" dl es] by (simp_all add: dial_inv_def)
  then obtain x where x: "foldl exchange_step (Some ?x) (di_log ?s) = Some x" "di_client ?s = Some (ex_client x)"
    by (auto simp: leads_def)
  moreover have "exchange_inv (Some x)" using exchange.run_inv [OF inv(1), of "di_log ?s"] x(1) by simp
  ultimately show ?thesis by (auto simp: exchange_inv_def)
qed

end
