(* ===== verification/Firewall_Rules.thy ===== *)
theory Firewall_Rules
  imports Json_Model "HOL-Library.Product_Lexorder"
begin

text \<open>
  Port allowlists (internal/runtime/firewall.go), the stateless part: validation and canonical
  form of a request, the listeners that may be protected, the check that no other process owns a
  protected port, the nftables batch for a policy, and reading a table back. Parsing and printing
  of addresses (net/netip) is a record of parameters; classification of addresses is written out.
\<close>

section \<open>Addresses\<close>

datatype addr = V4 "32 word" | V6 "128 word" string

record netip =
  parse_prefix :: "string \<Rightarrow> (addr \<times> nat) option"
  parse_addr :: "string \<Rightarrow> addr option"
  addr_string :: "addr \<Rightarrow> string"

fun bit_len :: "addr \<Rightarrow> nat" where
  "bit_len (V4 w) = 32"
| "bit_len (V6 w z) = 128"

fun zone :: "addr \<Rightarrow> string" where
  "zone (V4 w) = []"
| "zone (V6 w z) = z"

fun is4 :: "addr \<Rightarrow> bool" where
  "is4 (V4 w) = True"
| "is4 (V6 w z) = False"

fun is4in6 :: "addr \<Rightarrow> bool" where
  "is4in6 (V4 w) = False"
| "is4in6 (V6 w z) = (drop_bit 32 w = 0xffff)"

fun is_unspecified :: "addr \<Rightarrow> bool" where
  "is_unspecified (V4 w) = (w = 0)"
| "is_unspecified (V6 w z) = (w = 0 \<and> z = [])"

fun is_global_unicast :: "addr \<Rightarrow> bool" where
  "is_global_unicast (V4 w) = (w \<noteq> 0 \<and> w \<noteq> -1 \<and> drop_bit 24 w \<noteq> 127 \<and> drop_bit 28 w \<noteq> 14 \<and>
     drop_bit 16 w \<noteq> 0xa9fe)"
| "is_global_unicast (V6 w z) = (\<not> (w = 0 \<and> z = []) \<and> w \<noteq> 1 \<and> drop_bit 120 w \<noteq> 0xff \<and>
     drop_bit 118 w \<noteq> 0x3fa)"

fun masked :: "addr \<times> nat \<Rightarrow> addr \<times> nat" where
  "masked (V4 w, n) = (V4 (push_bit (32 - n) (drop_bit (32 - n) w)), n)"
| "masked (V6 w z, n) = (V6 (push_bit (128 - n) (drop_bit (128 - n) w)) [], n)"

definition prefix_string :: "netip \<Rightarrow> addr \<times> nat \<Rightarrow> string" where
  "prefix_string net p = addr_string net (fst p) @ ''/'' @ nat_digits (snd p)"

section \<open>Requests\<close>

record firewall_rule =
  rule_id :: string
  rule_name :: string
  rule_protocol :: string
  rule_port :: int
  AllowedCIDRs :: "string list"

record firewall_request =
  req_revision :: nat
  req_rules :: "firewall_rule list option"

record firewall_target =
  target_name :: string
  target_protocol :: string
  target_port :: int
  target_listen :: string
  target_kind :: string

record firewall_state =
  st_version :: int
  st_owner :: string
  st_revision :: nat
  st_rules :: "firewall_rule list"
  st_bindings :: "firewall_target list"

datatype firewall_error = BadRevision | BadRuleID | LongName | BadPort | SharedPort | BadCIDRCount
  | BadCIDR | Unsupported | InventoryFailed | ForeignOwner | NotListening | NotTarget
  | ListenerChanged | BadState | ReadFailed | WriteFailed | SyncFailed | NftFailed | BadExpression
  | NotOwned | Stale | Conflict | CoreStopped | NotVerified | RandomFailed | PersistenceFailed
  | RecoveryIncomplete | BadListen | PortProtected

text \<open>The expression \<open>^[A-Za-z0-9][A-Za-z0-9_-]{0,63}$\<close>.\<close>

definition firewallIDPattern :: "string \<Rightarrow> bool" where
  "firewallIDPattern s = (case s of [] \<Rightarrow> False
     | c # cs \<Rightarrow> (is_letter c \<or> is_digit c) \<and> length cs \<le> 63 \<and>
         list_all (\<lambda>d. is_letter d \<or> is_digit d \<or> d = CHR ''_'' \<or> d = CHR ''-'') cs)"

text \<open>\<open>utf8.RuneCountInString\<close> on valid UTF-8: the bytes that do not continue a rune.\<close>

definition rune_count :: "string \<Rightarrow> nat" where
  "rune_count s = length (filter (\<lambda>c. \<not> (128 \<le> (of_char c :: nat) \<and> (of_char c :: nat) < 192)) s)"

definition firewallPrefix :: "netip \<Rightarrow> string \<Rightarrow> (firewall_error, string) res" where
  "firewallPrefix net text =
     (let v = trim_space text;
          p = (case parse_prefix net v of
             Some p \<Rightarrow> Some p
           | None \<Rightarrow> (case parse_addr net v of
               None \<Rightarrow> None
             | Some a \<Rightarrow> if zone a = [] \<and> \<not> is4in6 a then Some (a, bit_len a) else None)) in
      case p of
        None \<Rightarrow> Inl BadCIDR
      | Some (a, n) \<Rightarrow>
          if n > bit_len a \<or> n = 0 \<or> is4in6 a \<or> \<not> is_global_unicast a then Inl BadCIDR
          else if \<not> is_global_unicast (fst (masked (a, n))) then Inl BadCIDR
          else Inr (prefix_string net (masked (a, n))))"

fun canonical_cidrs :: "netip \<Rightarrow> string list \<Rightarrow> string list \<Rightarrow> (firewall_error, string list) res" where
  "canonical_cidrs net acc [] = Inr acc"
| "canonical_cidrs net acc (v # vs) =
     bind_res (firewallPrefix net v) (\<lambda>p.
       canonical_cidrs net (if p \<in> set acc then acc else acc @ [p]) vs)"

fun check_rules ::
  "netip \<Rightarrow> string list \<Rightarrow> (string \<times> int) list \<Rightarrow> firewall_rule list \<Rightarrow>
     (firewall_error, firewall_rule list) res" where
  "check_rules net ids ports [] = Inr []"
| "check_rules net ids ports (r # rs) =
     (if \<not> firewallIDPattern (rule_id r) \<or> rule_id r \<in> set ids then Inl BadRuleID
      else let nm = trim_space (rule_name r) in
      if rune_count nm > 100 then Inl LongName
      else if (rule_protocol r \<noteq> ''tcp'' \<and> rule_protocol r \<noteq> ''udp'') \<or> rule_port r < 1 \<or> rule_port r > 65535
        then Inl BadPort
      else if (rule_protocol r, rule_port r) \<in> set ports then Inl SharedPort
      else if AllowedCIDRs r = [] \<or> length (AllowedCIDRs r) > 128 then Inl BadCIDRCount
      else bind_res (canonical_cidrs net [] (AllowedCIDRs r)) (\<lambda>cidrs.
        bind_res (check_rules net (rule_id r # ids) ((rule_protocol r, rule_port r) # ports) rs) (\<lambda>rest.
          Inr (r\<lparr>rule_name := nm, AllowedCIDRs := sort cidrs\<rparr> # rest))))"

definition rule_key :: "firewall_rule \<Rightarrow> string \<times> int" where
  "rule_key r = (rule_protocol r, rule_port r)"

definition decodeFirewall ::
  "netip \<Rightarrow> firewall_request \<Rightarrow> (firewall_error, nat \<times> firewall_rule list) res" where
  "decodeFirewall net req =
     (case req_rules req of
        None \<Rightarrow> Inl BadRevision
      | Some rules \<Rightarrow>
          if req_revision req = 0 \<or> req_revision req > 9007199254740991 \<or> length rules > 64 then Inl BadRevision
          else bind_res (check_rules net [] [] rules) (\<lambda>rs. Inr (req_revision req, sort_key rule_key rs)))"

section \<open>Listeners\<close>

record inbound =
  in_tag :: string
  in_listen :: string
  in_port :: "int option"
  in_protocol :: string
  in_network :: string

text \<open>Errors of \<open>net.SplitHostPort\<close> and \<open>strconv.Atoi\<close> are ignored.\<close>

definition managementPort :: "string \<Rightarrow> int" where
  "managementPort listen =
     (let port = fst (Atoi (case SplitHostPort listen of None \<Rightarrow> [] | Some (host, text) \<Rightarrow> text)) in
      if port = 0 then 23889 else port)"

definition target_of :: "netip \<Rightarrow> inbound list \<Rightarrow> int set \<Rightarrow> inbound \<Rightarrow> firewall_target option" where
  "target_of net inbounds reserved i =
     (case in_port i of
        None \<Rightarrow> None
      | Some port \<Rightarrow>
          if port < 1 \<or> port > 65535 \<or> length (filter (\<lambda>j. in_port j = Some port) inbounds) \<noteq> 1 \<or>
             port = 22 \<or> port \<in> reserved then None
          else if in_protocol i \<noteq> ''vless'' \<and> in_protocol i \<noteq> ''vmess'' \<and> in_protocol i \<noteq> ''trojan'' then None
          else if in_network i \<noteq> [] \<and> in_network i \<noteq> ''tcp'' \<and> in_network i \<noteq> ''raw'' then None
          else case parse_addr net (if in_listen i = [] then ''0.0.0.0'' else in_listen i) of
            None \<Rightarrow> None
          | Some a \<Rightarrow>
              if \<not> is_unspecified a \<or> zone a \<noteq> [] \<or> is4in6 a \<or> in_tag i = [] then None
              else Some \<lparr>target_name = in_tag i, target_protocol = ''tcp'', target_port = port,
                target_listen = addr_string net a, target_kind = in_protocol i\<rparr>)"

text \<open>\<open>reserved\<close> are the management port in use and all earlier ones of this process; a
  configuration that is not JSON has no targets.\<close>

definition firewallTargets :: "netip \<Rightarrow> int set \<Rightarrow> inbound list option \<Rightarrow> firewall_target list" where
  "firewallTargets net reserved cfg =
     (case cfg of None \<Rightarrow> []
      | Some inbounds \<Rightarrow> sort_key target_port (List.map_filter (target_of net inbounds reserved) inbounds))"

fun firewallBindings ::
  "firewall_target list \<Rightarrow> firewall_rule list \<Rightarrow> (firewall_error, firewall_target list) res" where
  "firewallBindings targets [] = Inr []"
| "firewallBindings targets (r # rs) =
     (case find (\<lambda>t. target_protocol t = rule_protocol r \<and> target_port t = rule_port r) targets of
        None \<Rightarrow> Inl NotTarget
      | Some t \<Rightarrow> bind_res (firewallBindings targets rs) (\<lambda>ts. Inr (t # ts)))"

section \<open>Sockets of other processes\<close>

definition line_fields :: "string \<Rightarrow> string list" where
  "line_fields s = filter (\<lambda>w. w \<noteq> []) (split_on CHR '' '' (map (\<lambda>c. if is_space c then CHR '' '' else c) s))"

text \<open>\<open>strconv.ParseInt(s, 16, 32)\<close>.\<close>

definition parse_hex :: "string \<Rightarrow> int option" where
  "parse_hex s =
     (let (neg, ds) = (case s of c # cs \<Rightarrow> if c = CHR ''-'' then (True, cs) else if c = CHR ''+'' then (False, cs)
            else (False, s) | [] \<Rightarrow> (False, s)) in
      case (if ds = [] then None else traverse_opt hex_value ds) of
        None \<Rightarrow> None
      | Some vs \<Rightarrow> (let n = foldl (\<lambda>n v. n * 16 + int v) 0 vs; k = (if neg then - n else n) in
          if k < - 2147483648 \<or> k > 2147483647 then None else Some k))"

definition owned_sockets :: "string list \<Rightarrow> string list" where
  "owned_sockets links = List.map_filter (\<lambda>l.
     if has_prefix l ''socket:['' \<and> has_prefix (rev l) '']'' then Some (butlast (drop 8 l)) else None) links"

fun scan_sockets ::
  "string list \<Rightarrow> int list \<Rightarrow> string list \<Rightarrow> (firewall_error, int list) res" where
  "scan_sockets owned wanted [] = Inr []"
| "scan_sockets owned wanted (line # rest) =
     (let fs = line_fields line in
      if fs = [] then scan_sockets owned wanted rest
      else if length fs < 10 then Inl InventoryFailed
      else if fs ! 3 \<noteq> ''0A'' then scan_sockets owned wanted rest
      else case split_on CHR '':'' (fs ! 1) of
        [_, port_text] \<Rightarrow>
          (case parse_hex port_text of
             None \<Rightarrow> Inl InventoryFailed
           | Some port \<Rightarrow>
               if port \<notin> set wanted then scan_sockets owned wanted rest
               else if fs ! 9 \<notin> set owned then Inl ForeignOwner
               else bind_res (scan_sockets owned wanted rest) (\<lambda>seen. Inr (port # seen)))
      | _ \<Rightarrow> Inl InventoryFailed)"

text \<open>
  The contents of /proc/self/net/tcp and tcp6, \<open>None\<close> when the file does not exist; \<open>links\<close> are
  the targets of the own file descriptors, \<open>None\<close> when they cannot be listed.
\<close>

definition verifyFirewallPortOwnership ::
  "bool \<Rightarrow> string list option \<Rightarrow> string option \<Rightarrow> string option \<Rightarrow> firewall_rule list \<Rightarrow> bool \<Rightarrow>
     (firewall_error, unit) res" where
  "verifyFirewallPortOwnership linux links tcp tcp6 rules requireOwned =
     (if rules = [] then Inr ()
      else if \<not> linux then Inl Unsupported
      else case links of None \<Rightarrow> Inl InventoryFailed
      | Some ls \<Rightarrow>
          let owned = owned_sockets ls; wanted = map rule_port rules in
          (case tcp of None \<Rightarrow> Inl InventoryFailed
           | Some text4 \<Rightarrow>
               bind_res (scan_sockets owned wanted (tl (split_on newline text4))) (\<lambda>seen4.
               bind_res (case tcp6 of None \<Rightarrow> Inr []
                   | Some text6 \<Rightarrow> scan_sockets owned wanted (tl (split_on newline text6))) (\<lambda>seen6.
               if requireOwned \<and> \<not> set wanted \<subseteq> set (seen4 @ seen6) then Inl NotListening else Inr ()))))"

section \<open>The nftables table\<close>

definition firewallTable :: string where
  "firewallTable = ''aswired_allowlist''"

record firewall_atom =
  atom_protocol :: string
  atom_port :: int
  atom_cidr :: string
  atom_verdict :: string

record firewall_observed =
  obs_exists :: bool
  obs_owner :: string
  obs_atoms :: "firewall_atom list"
  obs_valid :: bool

definition firewallOwner :: "firewall_state \<Rightarrow> string" where
  "firewallOwner s = ''ASWired allowlist v1 '' @ st_owner s"

definition rule_atoms :: "firewall_rule \<Rightarrow> firewall_atom list" where
  "rule_atoms r = map (\<lambda>c. \<lparr>atom_protocol = rule_protocol r, atom_port = rule_port r, atom_cidr = c,
       atom_verdict = ''accept''\<rparr>) (AllowedCIDRs r) @
     [\<lparr>atom_protocol = rule_protocol r, atom_port = rule_port r, atom_cidr = [], atom_verdict = ''drop''\<rparr>]"

definition firewallAtoms :: "firewall_state option \<Rightarrow> firewall_atom list" where
  "firewallAtoms st = (case st of None \<Rightarrow> [] | Some s \<Rightarrow> concat (map rule_atoms (st_rules s)))"

definition firewallMatch :: "json \<Rightarrow> json \<Rightarrow> json" where
  "firewallMatch l r = JObj [(''match'', JObj [(''left'', l), (''op'', JStr ''==''), (''right'', r)])]"

definition firewallMeta :: "string \<Rightarrow> json" where
  "firewallMeta key = JObj [(''meta'', JObj [(''key'', JStr key)])]"

definition firewallPayload :: "string \<Rightarrow> string \<Rightarrow> json" where
  "firewallPayload protocol field =
     JObj [(''payload'', JObj [(''field'', JStr field), (''protocol'', JStr protocol)])]"

text \<open>\<open>netip.ParsePrefix\<close> of a stored prefix; its error is ignored in the source, which then works
  with the zero prefix.\<close>

definition cidr_of :: "netip \<Rightarrow> string \<Rightarrow> (addr \<times> nat) option" where
  "cidr_of net c = parse_prefix net c"

definition atom_expr :: "netip \<Rightarrow> firewall_atom \<Rightarrow> json" where
  "atom_expr net a =
     (let p = cidr_of net (atom_cidr a);
          four = (case p of Some (ad, _) \<Rightarrow> is4 ad | None \<Rightarrow> False);
          addr_text = (case p of Some (ad, _) \<Rightarrow> addr_string net ad | None \<Rightarrow> ''invalid IP'');
          bits = (case p of Some (_, n) \<Rightarrow> int n | None \<Rightarrow> -1) in
      JArr ((if atom_cidr a \<noteq> [] then [firewallMatch (firewallMeta ''nfproto'') (JStr (if four then ''ipv4'' else ''ipv6''))] else []) @
        [firewallMatch (firewallMeta ''l4proto'') (JStr (atom_protocol a)),
         firewallMatch (firewallPayload (atom_protocol a) ''dport'') (JNum (itoa (atom_port a)))] @
        (if atom_cidr a \<noteq> [] then [firewallMatch (firewallPayload (if four then ''ip'' else ''ip6'') ''saddr'')
           (JObj [(''prefix'', JObj [(''addr'', JStr addr_text), (''len'', JNum (itoa bits))])])] else []) @
        [JObj [(atom_verdict a, JNull)]]))"

definition firewallBatch :: "netip \<Rightarrow> firewall_state option \<Rightarrow> bool \<Rightarrow> json" where
  "firewallBatch net st exists =
     JObj [(''nftables'', JArr (
       (if exists then [JObj [(''delete'', JObj [(''table'', JObj [(''family'', JStr ''inet''), (''name'', JStr firewallTable)])])]] else []) @
       (case st of None \<Rightarrow> [] | Some s \<Rightarrow>
         if st_rules s = [] then []
         else [JObj [(''create'', JObj [(''table'', JObj [(''comment'', JStr (firewallOwner s)), (''family'', JStr ''inet''), (''name'', JStr firewallTable)])])],
           JObj [(''add'', JObj [(''chain'', JObj [(''family'', JStr ''inet''), (''name'', JStr (''owner_'' @ st_owner s)), (''table'', JStr firewallTable)])])],
           JObj [(''add'', JObj [(''chain'', JObj [(''family'', JStr ''inet''), (''hook'', JStr ''input''), (''name'', JStr ''input''),
             (''policy'', JStr ''accept''), (''prio'', JNum ''-10''), (''table'', JStr firewallTable), (''type'', JStr ''filter'')])])]] @
           map (\<lambda>a. JObj [(''add'', JObj [(''rule'', JObj [(''chain'', JStr ''input''), (''expr'', atom_expr net a),
             (''family'', JStr ''inet''), (''table'', JStr firewallTable)])])]) (firewallAtoms st))))]"

section \<open>Reading a table back\<close>

text \<open>
  \<open>jsonMap\<close> yields nil for anything but an object; nil has no entries. \<open>jsonInt\<close> reads a decoded
  number when it is integral: an integer literal, possibly with a zero fraction (nft prints
  integers, exponents do not occur).
\<close>

definition jsonMap :: "json \<Rightarrow> jmap option" where
  "jsonMap v = as_map v"

definition entries_of :: "jmap option \<Rightarrow> jmap" where
  "entries_of m = (case m of None \<Rightarrow> [] | Some kvs \<Rightarrow> kvs)"

definition jsonString :: "json \<Rightarrow> string" where
  "jsonString v = (case as_string v of None \<Rightarrow> [] | Some s \<Rightarrow> s)"

definition jsonInt :: "json \<Rightarrow> int" where
  "jsonInt v = (case v of
     JNum text \<Rightarrow>
       (let (neg, ds) = (case text of c # cs \<Rightarrow> if c = CHR ''-'' then (True, cs) else (False, text) | [] \<Rightarrow> (False, text));
            whole = takeWhile (\<lambda>c. c \<noteq> CHR ''.'') ds; frac = dropWhile (\<lambda>c. c \<noteq> CHR ''.'') ds in
        case parse_nat whole of
          None \<Rightarrow> -999999
        | Some n \<Rightarrow> if list_all (\<lambda>c. c = CHR ''0'') (tl frac) then (if neg then - int n else int n) else -999999)
   | _ \<Rightarrow> -999999)"

definition onlyKeys :: "jmap \<Rightarrow> string list \<Rightarrow> bool" where
  "onlyKeys m keys = list_all (\<lambda>kv. fst kv \<in> set keys) m"

record atom_parse =
  ap_atom :: firewall_atom
  ap_family :: string
  ap_explicit :: string
  ap_source :: string
  ap_have_port :: bool
  ap_have_source :: bool

definition parse_family :: "json \<Rightarrow> string option" where
  "parse_family v = (if v = JStr ''ipv4'' then Some ''ip'' else if v = JStr ''ipv6'' then Some ''ip6''
     else if jsonInt v = 2 then Some ''ip'' else if jsonInt v = 10 then Some ''ip6'' else None)"

definition parse_l4proto :: "json \<Rightarrow> string option" where
  "parse_l4proto v = (if v = JStr ''tcp'' then Some ''tcp'' else if v = JStr ''udp'' then Some ''udp''
     else if jsonInt v = 6 then Some ''tcp'' else if jsonInt v = 17 then Some ''udp'' else None)"

definition parse_meta :: "jmap \<Rightarrow> json \<Rightarrow> atom_parse \<Rightarrow> (firewall_error, atom_parse) res" where
  "parse_meta meta right st =
     (if length meta \<noteq> 1 then Inl BadExpression
      else if get_any meta ''key'' = JStr ''nfproto'' then
        (if ap_family st \<noteq> [] then Inl BadExpression
         else bind_res (of_option BadExpression (parse_family right)) (\<lambda>f. Inr (st\<lparr>ap_family := f\<rparr>)))
      else if get_any meta ''key'' = JStr ''l4proto'' then
        (if ap_explicit st \<noteq> [] then Inl BadExpression
         else bind_res (of_option BadExpression (parse_l4proto right)) (\<lambda>f. Inr (st\<lparr>ap_explicit := f\<rparr>)))
      else Inl BadExpression)"

definition source_text :: "json \<Rightarrow> (firewall_error, string) res" where
  "source_text right =
     (case jsonMap right of
        None \<Rightarrow> Inr (jsonString right)
      | Some m \<Rightarrow>
          (let prefix = entries_of (jsonMap (get_any m ''prefix'')) in
           if length m \<noteq> 1 \<or> length prefix \<noteq> 2 \<or> \<not> onlyKeys prefix [''addr'', ''len''] then Inl BadExpression
           else Inr (jsonString (get_any prefix ''addr'') @ ''/'' @ itoa (jsonInt (get_any prefix ''len'')))))"

definition parse_payload :: "netip \<Rightarrow> jmap \<Rightarrow> json \<Rightarrow> atom_parse \<Rightarrow> (firewall_error, atom_parse) res" where
  "parse_payload net payload right st =
     (let proto = get_any payload ''protocol'' in
      if length payload \<noteq> 2 then Inl BadExpression
      else if get_any payload ''field'' = JStr ''dport'' then
        (if ap_have_port st \<or> (proto \<noteq> JStr ''tcp'' \<and> proto \<noteq> JStr ''udp'') then Inl BadExpression
         else Inr (st\<lparr>ap_atom := (ap_atom st)\<lparr>atom_protocol := jsonString proto, atom_port := jsonInt right\<rparr>,
           ap_have_port := True\<rparr>))
      else if get_any payload ''field'' = JStr ''saddr'' then
        (if ap_have_source st \<or> (proto \<noteq> JStr ''ip'' \<and> proto \<noteq> JStr ''ip6'') then Inl BadExpression
         else bind_res (source_text right) (\<lambda>text. bind_res (firewallPrefix net text) (\<lambda>cidr.
           if (jsonString proto = ''ip'') \<noteq> (case cidr_of net cidr of Some (a, _) \<Rightarrow> is4 a | None \<Rightarrow> False)
           then Inl BadExpression
           else Inr (st\<lparr>ap_atom := (ap_atom st)\<lparr>atom_cidr := cidr\<rparr>, ap_source := jsonString proto,
             ap_have_source := True\<rparr>))))
      else Inl BadExpression)"

definition parse_item :: "netip \<Rightarrow> bool \<Rightarrow> json \<Rightarrow> atom_parse \<Rightarrow> (firewall_error, atom_parse) res" where
  "parse_item net last_item item st =
     (let entry = entries_of (jsonMap item) in
      if length entry \<noteq> 1 then Inl BadExpression
      else case map_of entry ''accept'' of
        Some verdict \<Rightarrow> if verdict \<noteq> JNull \<or> \<not> last_item then Inl BadExpression
          else Inr (st\<lparr>ap_atom := (ap_atom st)\<lparr>atom_verdict := ''accept''\<rparr>\<rparr>)
      | None \<Rightarrow>
          (case map_of entry ''drop'' of
             Some verdict \<Rightarrow> if verdict \<noteq> JNull \<or> \<not> last_item then Inl BadExpression
               else Inr (st\<lparr>ap_atom := (ap_atom st)\<lparr>atom_verdict := ''drop''\<rparr>\<rparr>)
           | None \<Rightarrow>
               (let m = entries_of (jsonMap (get_any entry ''match''));
                    left = entries_of (jsonMap (get_any m ''left'')) in
                if length m \<noteq> 3 \<or> get_any m ''op'' \<noteq> JStr ''=='' then Inl BadExpression
                else if length left \<noteq> 1 then Inl BadExpression
                else case jsonMap (get_any left ''meta'') of
                  Some meta \<Rightarrow> parse_meta meta (get_any m ''right'') st
                | None \<Rightarrow> parse_payload net (entries_of (jsonMap (get_any left ''payload''))) (get_any m ''right'') st)))"

fun parse_items :: "netip \<Rightarrow> json list \<Rightarrow> atom_parse \<Rightarrow> (firewall_error, atom_parse) res" where
  "parse_items net [] st = Inr st"
| "parse_items net (item # rest) st =
     bind_res (parse_item net (rest = []) item st) (\<lambda>st'. parse_items net rest st')"

definition empty_parse :: atom_parse where
  "empty_parse = \<lparr>ap_atom = \<lparr>atom_protocol = [], atom_port = 0, atom_cidr = [], atom_verdict = []\<rparr>,
     ap_family = [], ap_explicit = [], ap_source = [], ap_have_port = False, ap_have_source = False\<rparr>"

definition parseFirewallAtom :: "netip \<Rightarrow> json \<Rightarrow> (firewall_error, firewall_atom) res" where
  "parseFirewallAtom net raw =
     (case raw of
        JArr expr \<Rightarrow> bind_res (parse_items net expr empty_parse) (\<lambda>st.
          let a = ap_atom st in
          if (ap_explicit st \<noteq> [] \<and> ap_explicit st \<noteq> atom_protocol a) \<or>
             (ap_family st \<noteq> [] \<and> ap_source st \<noteq> [] \<and> ap_family st \<noteq> ap_source st) then Inl BadExpression
          else if \<not> ap_have_port st \<or> atom_port a < 1 \<or> atom_port a > 65535 \<or>
             (atom_verdict a = ''accept'' \<and> \<not> ap_have_source st) \<or>
             (atom_verdict a = ''drop'' \<and> (ap_have_source st \<or> ap_family st \<noteq> [])) \<or> atom_verdict a = []
            then Inl BadExpression
          else Inr a)
      | _ \<Rightarrow> Inl BadExpression)"

record table_scan =
  sc_tables :: nat
  sc_chains :: nat
  sc_owners :: nat
  sc_owner :: string
  sc_comment :: string
  sc_has_comment :: bool
  sc_owner_rules :: bool
  sc_valid :: bool
  sc_atoms :: "firewall_atom list"

definition scan_table :: "jmap \<Rightarrow> table_scan \<Rightarrow> table_scan" where
  "scan_table table sc = sc\<lparr>sc_tables := Suc (sc_tables sc), sc_comment := get_string table ''comment'',
     sc_has_comment := (map_of table ''comment'' \<noteq> None),
     sc_valid := (sc_valid sc \<and> get_any table ''family'' = JStr ''inet'' \<and> get_any table ''name'' = JStr firewallTable \<and>
       onlyKeys table [''family'', ''name'', ''handle'', ''comment''])\<rparr>"

definition owner_token_ok :: "string \<Rightarrow> bool" where
  "owner_token_ok token = (case hex_decode token of None \<Rightarrow> False
     | Some b \<Rightarrow> length b = 32 \<and> hex_encode b = token)"

definition scan_chain :: "jmap \<Rightarrow> table_scan \<Rightarrow> table_scan" where
  "scan_chain chain sc =
     (let name = get_string chain ''name'' in
      if has_prefix name ''owner_'' then
        (let token = drop 6 name in
         if \<not> owner_token_ok token \<or> get_any chain ''family'' \<noteq> JStr ''inet'' \<or>
            get_any chain ''table'' \<noteq> JStr firewallTable \<or> \<not> onlyKeys chain [''family'', ''table'', ''name'', ''handle'']
         then sc\<lparr>sc_owners := Suc (sc_owners sc), sc_valid := False\<rparr>
         else sc\<lparr>sc_owners := Suc (sc_owners sc), sc_owner := ''ASWired allowlist v1 '' @ token\<rparr>)
      else sc\<lparr>sc_chains := Suc (sc_chains sc),
        sc_valid := (sc_valid sc \<and> get_any chain ''family'' = JStr ''inet'' \<and> get_any chain ''table'' = JStr firewallTable \<and>
          get_any chain ''name'' = JStr ''input'' \<and> get_any chain ''type'' = JStr ''filter'' \<and>
          get_any chain ''hook'' = JStr ''input'' \<and> jsonInt (get_any chain ''prio'') = -10 \<and>
          get_any chain ''policy'' = JStr ''accept'' \<and>
          onlyKeys chain [''family'', ''table'', ''name'', ''handle'', ''type'', ''hook'', ''prio'', ''policy''])\<rparr>)"

definition scan_rule :: "netip \<Rightarrow> jmap \<Rightarrow> table_scan \<Rightarrow> table_scan" where
  "scan_rule net rule sc =
     (let sc1 = sc\<lparr>sc_owner_rules := (sc_owner_rules sc \<or> has_prefix (get_string rule ''chain'') ''owner_''),
            sc_valid := (sc_valid sc \<and> get_any rule ''family'' = JStr ''inet'' \<and>
              get_any rule ''table'' = JStr firewallTable \<and> get_any rule ''chain'' = JStr ''input'' \<and>
              onlyKeys rule [''family'', ''table'', ''chain'', ''handle'', ''expr''])\<rparr> in
      case parseFirewallAtom net (get_any rule ''expr'') of
        Inl e \<Rightarrow> sc1\<lparr>sc_valid := False\<rparr>
      | Inr a \<Rightarrow> sc1\<lparr>sc_atoms := sc_atoms sc1 @ [a]\<rparr>)"

definition scan_entry :: "netip \<Rightarrow> table_scan \<Rightarrow> jmap \<Rightarrow> table_scan" where
  "scan_entry net sc entry =
     (if map_of entry ''metainfo'' \<noteq> None then sc
      else if length entry \<noteq> 1 then sc\<lparr>sc_valid := False\<rparr>
      else case jsonMap (get_any entry ''table'') of
        Some table \<Rightarrow> scan_table table sc
      | None \<Rightarrow> (case jsonMap (get_any entry ''chain'') of
          Some chain \<Rightarrow> scan_chain chain sc
        | None \<Rightarrow> (case jsonMap (get_any entry ''rule'') of
            Some rule \<Rightarrow> scan_rule net rule sc
          | None \<Rightarrow> sc\<lparr>sc_valid := False\<rparr>)))"

definition empty_scan :: table_scan where
  "empty_scan = \<lparr>sc_tables = 0, sc_chains = 0, sc_owners = 0, sc_owner = [], sc_comment = [], sc_has_comment = False,
     sc_owner_rules = False, sc_valid = True, sc_atoms = []\<rparr>"

text \<open>
  The two answers of nft: the inventory of tables and, when it has our table, the content of the
  table; \<open>None\<close> when the command failed or its output is not of that form.
\<close>

definition observeFirewall ::
  "netip \<Rightarrow> jmap list option \<Rightarrow> jmap list option \<Rightarrow> (firewall_error, firewall_observed) res" where
  "observeFirewall net inventory listing =
     (case inventory of
        None \<Rightarrow> Inl NftFailed
      | Some tables \<Rightarrow>
          if \<not> list_ex (\<lambda>e. let t = entries_of (jsonMap (get_any e ''table'')) in
              get_any t ''family'' = JStr ''inet'' \<and> get_any t ''name'' = JStr firewallTable) tables
          then Inr \<lparr>obs_exists = False, obs_owner = [], obs_atoms = [], obs_valid = True\<rparr>
          else case listing of
            None \<Rightarrow> Inl NftFailed
          | Some es \<Rightarrow>
              (let sc = foldl (scan_entry net) empty_scan es;
                   proof = (sc_tables sc = 1 \<and> sc_owners sc = 1 \<and> sc_owner sc \<noteq> [] \<and> \<not> sc_owner_rules sc \<and>
                     (\<not> sc_has_comment sc \<or> sc_comment sc = sc_owner sc)) in
               Inr \<lparr>obs_exists = True, obs_owner = (if proof then sc_owner sc else []), obs_atoms = sc_atoms sc,
                 obs_valid = (sc_valid sc \<and> sc_chains sc = 1 \<and> proof)\<rparr>))"

definition firewallMatches :: "firewall_observed \<Rightarrow> firewall_state option \<Rightarrow> bool" where
  "firewallMatches obs st =
     (case st of
        None \<Rightarrow> \<not> obs_exists obs
      | Some s \<Rightarrow> if st_rules s = [] then \<not> obs_exists obs
          else obs_exists obs \<and> obs_valid obs \<and> obs_owner obs = firewallOwner s \<and> obs_atoms obs = firewallAtoms st)"

definition checkFirewallOwnership ::
  "firewall_observed \<Rightarrow> firewall_state option \<Rightarrow> (firewall_error, unit) res" where
  "checkFirewallOwnership obs st =
     (if obs_exists obs \<and> (case st of None \<Rightarrow> True | Some s \<Rightarrow> obs_owner obs \<noteq> firewallOwner s)
      then Inl NotOwned else Inr ())"

section \<open>Bounded command output\<close>

text \<open>\<open>firewallOutput.Write\<close> keeps at most 8 MiB and remembers that it dropped something.\<close>

definition output_write :: "bytes \<times> bool \<Rightarrow> bytes \<Rightarrow> bytes \<times> bool" where
  "output_write b p =
     (let remaining = 8388608 - length (fst b) in
      if remaining = 0 then (fst b, True)
      else if length p > remaining then (fst b @ take remaining p, True)
      else (fst b @ p, snd b))"

section \<open>Addresses: lemmas\<close>

text \<open>
  What the development relies on of net/netip: a parsed prefix has no zone and a length within
  its family, and a printed prefix without zone parses to itself and has no surrounding space.
\<close>

definition netip_ok :: "netip \<Rightarrow> bool" where
  "netip_ok net \<longleftrightarrow>
     (\<forall>s a n. parse_prefix net s = Some (a, n) \<longrightarrow> zone a = [] \<and> n \<le> bit_len a) \<and>
     (\<forall>a n. zone a = [] \<and> n \<le> bit_len a \<and> \<not> is4in6 a \<longrightarrow>
        parse_prefix net (prefix_string net (a, n)) = Some (a, n) \<and>
        trim_space (prefix_string net (a, n)) = prefix_string net (a, n))"

lemma mask_bits:
  "push_bit k (drop_bit k (push_bit k (drop_bit k w))) = push_bit k (drop_bit k (w :: 'a::len word))"
  by (rule bit_word_eqI) (auto simp: bit_push_bit_iff bit_drop_bit_eq)

lemma masked_masked: "masked (masked p) = masked p"
  by (cases p rule: masked.cases) (simp_all add: mask_bits)

lemma masked_sel: "snd (masked p) = snd p" "zone (fst (masked p)) = []" "bit_len (fst (masked p)) = bit_len (fst p)"
  "is4 (fst (masked p)) = is4 (fst p)"
  by (cases p rule: masked.cases; simp)+

lemma mask_not_4in6:
  fixes w :: "128 word"
  assumes "drop_bit 32 w \<noteq> 0xffff"
  shows "drop_bit 32 (push_bit k (drop_bit k w)) \<noteq> 0xffff"
proof (cases "k \<le> 32")
  case True
  have "drop_bit 32 (push_bit k (drop_bit k w)) = drop_bit 32 w"
    using True by (intro bit_word_eqI) (auto simp: bit_push_bit_iff bit_drop_bit_eq dest: bit_imp_le_length)
  then show ?thesis using assms by simp
next
  case False
  then have "\<not> bit (drop_bit 32 (push_bit k (drop_bit k w))) 0"
    by (simp add: bit_push_bit_iff bit_drop_bit_eq)
  moreover have "bit (0xffff :: 128 word) 0"
    by simp
  ultimately show ?thesis
    by metis
qed

lemma masked_4in6: "\<not> is4in6 (fst p) \<Longrightarrow> \<not> is4in6 (fst (masked p))"
  by (cases p rule: masked.cases) (simp_all add: mask_not_4in6)

text \<open>A stored prefix is one that \<open>firewallPrefix\<close> maps to itself.\<close>

definition canonical_cidr :: "netip \<Rightarrow> string \<Rightarrow> bool" where
  "canonical_cidr net c \<longleftrightarrow> (\<exists>a n. c = prefix_string net (a, n) \<and> parse_prefix net c = Some (a, n) \<and>
     trim_space c = c \<and> masked (a, n) = (a, n) \<and> zone a = [] \<and> 0 < n \<and> n \<le> bit_len a \<and> \<not> is4in6 a \<and>
     is_global_unicast a)"

lemma firewallPrefix_canonical:
  assumes "netip_ok net" and "firewallPrefix net text = Inr c"
  shows "canonical_cidr net c"
proof -
  define q where "q = (case parse_prefix net (trim_space text) of Some p \<Rightarrow> Some p
    | None \<Rightarrow> (case parse_addr net (trim_space text) of None \<Rightarrow> None
        | Some a \<Rightarrow> if zone a = [] \<and> \<not> is4in6 a then Some (a, bit_len a) else None))"
  note eq = assms(2) [unfolded firewallPrefix_def Let_def, folded q_def]
  obtain a n where q: "q = Some (a, n)"
    using eq by (cases q) auto
  then have p: "n \<le> bit_len a" "n \<noteq> 0" "\<not> is4in6 a" "is_global_unicast (fst (masked (a, n)))"
    "c = prefix_string net (masked (a, n))"
    using eq by (auto split: if_splits)
  obtain b where m: "masked (a, n) = (b, n)"
    using masked_sel(1) [of "(a, n)"] by (metis prod.collapse snd_conv)
  then have b: "zone b = []" "n \<le> bit_len b" "\<not> is4in6 b"
    using masked_sel [of "(a, n)"] masked_4in6 [of "(a, n)"] p by auto
  then have "parse_prefix net c = Some (b, n) \<and> trim_space c = c"
    using assms(1) p(5) m by (simp add: netip_ok_def)
  moreover have "masked (b, n) = (b, n)"
    using masked_masked [of "(a, n)"] m by simp
  ultimately show ?thesis
    using p b m by (auto simp: canonical_cidr_def)
qed

lemma firewallPrefix_fixed:
  assumes "canonical_cidr net c"
  shows "firewallPrefix net c = Inr c"
  using assms by (auto simp: canonical_cidr_def firewallPrefix_def Let_def)

lemma canonical_cidr_nonempty: "canonical_cidr net c \<Longrightarrow> c \<noteq> []"
  by (auto simp: canonical_cidr_def prefix_string_def)

section \<open>Canonical requests\<close>

definition canonical_rule :: "netip \<Rightarrow> firewall_rule \<Rightarrow> bool" where
  "canonical_rule net r \<longleftrightarrow> firewallIDPattern (rule_id r) \<and> trim_space (rule_name r) = rule_name r \<and>
     rune_count (rule_name r) \<le> 100 \<and> rule_protocol r \<in> {''tcp'', ''udp''} \<and> 1 \<le> rule_port r \<and> rule_port r \<le> 65535 \<and>
     AllowedCIDRs r \<noteq> [] \<and> length (AllowedCIDRs r) \<le> 128 \<and> distinct (AllowedCIDRs r) \<and>
     sorted (AllowedCIDRs r) \<and> (\<forall>c \<in> set (AllowedCIDRs r). canonical_cidr net c)"

definition canonical_rules :: "netip \<Rightarrow> firewall_rule list \<Rightarrow> bool" where
  "canonical_rules net rs \<longleftrightarrow> (\<forall>r \<in> set rs. canonical_rule net r) \<and> distinct (map rule_id rs) \<and>
     distinct (map rule_key rs) \<and> sorted (map rule_key rs) \<and> length rs \<le> 64"

lemma dropWhile_idem: "dropWhile P (dropWhile P xs) = dropWhile P xs"
  by (induction xs) auto

lemma trim_space_idem: "trim_space (trim_space s) = trim_space s"
proof -
  let ?t = "dropWhile is_space s"
  have "dropWhile is_space (rev (dropWhile is_space (rev ?t))) = rev (dropWhile is_space (rev ?t))"
  proof (cases "rev (dropWhile is_space (rev ?t))")
    case (Cons c cs)
    have "?t = rev (dropWhile is_space (rev ?t)) @ rev (takeWhile is_space (rev ?t))"
      by (metis rev_append rev_rev_ident takeWhile_dropWhile_id)
    then have "hd ?t = c" and "?t \<noteq> []"
      using Cons by (metis append_Cons list.sel(1), metis append_Cons list.distinct(1))
    then have "\<not> is_space c"
      using hd_dropWhile by blast
    then show ?thesis using Cons by simp
  next
    case Nil
    show ?thesis unfolding Nil by simp
  qed
  then show ?thesis
    by (simp add: trim_space_def dropWhile_idem)
qed

lemma canonical_cidrs_ok:
  assumes "netip_ok net" and "canonical_cidrs net acc vs = Inr cs" and "distinct acc" "\<forall>c \<in> set acc. canonical_cidr net c"
  shows "distinct cs \<and> (\<forall>c \<in> set cs. canonical_cidr net c) \<and> length cs \<le> length acc + length vs \<and>
    (vs \<noteq> [] \<or> acc \<noteq> [] \<longrightarrow> cs \<noteq> [])"
  using assms
proof (induction vs arbitrary: acc)
  case (Cons v vs)
  then obtain p where p: "firewallPrefix net v = Inr p"
    "canonical_cidrs net (if p \<in> set acc then acc else acc @ [p]) vs = Inr cs"
    by (auto simp: bind_res_Inr)
  have "canonical_cidr net p" using Cons.prems(1) p(1) by (rule firewallPrefix_canonical)
  then have "distinct (if p \<in> set acc then acc else acc @ [p])"
    "\<forall>c \<in> set (if p \<in> set acc then acc else acc @ [p]). canonical_cidr net c"
    "(if p \<in> set acc then acc else acc @ [p]) \<noteq> []"
    "length (if p \<in> set acc then acc else acc @ [p]) \<le> Suc (length acc)"
    using Cons.prems(3,4) by (cases "p \<in> set acc"; auto)+
  with Cons.IH [OF Cons.prems(1) p(2)] show ?case by simp
qed simp

lemma canonical_cidrs_fixed:
  assumes "\<forall>c \<in> set vs. canonical_cidr net c" and "distinct (acc @ vs)"
  shows "canonical_cidrs net acc vs = Inr (acc @ vs)"
  using assms
proof (induction vs arbitrary: acc)
  case (Cons v vs)
  then show ?case
    using Cons.IH [of "acc @ [v]"] by (auto simp: firewallPrefix_fixed)
qed simp

lemma check_rules_ok:
  assumes "netip_ok net" and "check_rules net ids ports rs = Inr rs'"
  shows "(\<forall>r \<in> set rs'. canonical_rule net r) \<and> distinct (map rule_id rs') \<and> distinct (map rule_key rs') \<and>
    set (map rule_id rs') \<inter> set ids = {} \<and> set (map rule_key rs') \<inter> set ports = {} \<and> length rs' = length rs"
  using assms(2)
proof (induction rs arbitrary: ids ports rs')
  case (Cons r rs)
  from Cons.prems obtain cidrs rest where r: "firewallIDPattern (rule_id r)" "rule_id r \<notin> set ids"
    "rune_count (trim_space (rule_name r)) \<le> 100" "rule_protocol r \<in> {''tcp'', ''udp''}" "1 \<le> rule_port r"
    "rule_port r \<le> 65535" "(rule_protocol r, rule_port r) \<notin> set ports" "AllowedCIDRs r \<noteq> []"
    "length (AllowedCIDRs r) \<le> 128" "canonical_cidrs net [] (AllowedCIDRs r) = Inr cidrs"
    "check_rules net (rule_id r # ids) ((rule_protocol r, rule_port r) # ports) rs = Inr rest"
    "rs' = r\<lparr>rule_name := trim_space (rule_name r), AllowedCIDRs := sort cidrs\<rparr> # rest"
    by (auto simp: bind_res_Inr Let_def split: if_splits)
  note cs = canonical_cidrs_ok [OF assms(1) r(10)]
  have "canonical_rule net (r\<lparr>rule_name := trim_space (rule_name r), AllowedCIDRs := sort cidrs\<rparr>)"
    using r cs unfolding canonical_rule_def by (simp add: trim_space_idem flip: set_empty)
  then show ?case
    using Cons.IH [OF r(11)] r by (auto simp: rule_key_def)
qed simp

lemma check_rules_fixed:
  assumes "\<forall>r \<in> set rs. canonical_rule net r" and "distinct (map rule_id rs)" "distinct (map rule_key rs)"
    and "set (map rule_id rs) \<inter> set ids = {}" "set (map rule_key rs) \<inter> set ports = {}"
  shows "check_rules net ids ports rs = Inr rs"
  using assms
proof (induction rs arbitrary: ids ports)
  case (Cons r rs)
  have r: "canonical_rule net r" using Cons.prems(1) by simp
  then have "canonical_cidrs net [] (AllowedCIDRs r) = Inr (AllowedCIDRs r)"
    using canonical_cidrs_fixed [of "AllowedCIDRs r" net "[]"] by (simp add: canonical_rule_def)
  moreover have "sort (AllowedCIDRs r) = AllowedCIDRs r"
    using r by (simp add: canonical_rule_def sorted_sort_id)
  moreover have "check_rules net (rule_id r # ids) ((rule_protocol r, rule_port r) # ports) rs = Inr rs"
    using Cons.prems by (intro Cons.IH) (auto simp: rule_key_def)
  ultimately show ?case
    using r Cons.prems(4,5) by (auto simp: canonical_rule_def rule_key_def Let_def)
qed simp

lemma decodeFirewall_canonical:
  assumes "netip_ok net" and "decodeFirewall net req = Inr (rv, rs)"
  shows "canonical_rules net rs" and "rv = req_revision req" and "0 < rv" "rv \<le> 9007199254740991"
proof -
  obtain rules rs0 where d: "req_rules req = Some rules" "length rules \<le> 64" "check_rules net [] [] rules = Inr rs0"
    "rs = sort_key rule_key rs0" "rv = req_revision req" "0 < rv" "rv \<le> 9007199254740991"
    using assms(2) by (auto simp: decodeFirewall_def bind_res_Inr split: option.splits if_splits)
  note ok = check_rules_ok [OF assms(1) d(3)]
  have "distinct (map rule_id rs)" "distinct (map rule_key rs)"
    using ok d(4) by (simp_all add: distinct_map)
  then show "canonical_rules net rs"
    using ok d by (simp add: canonical_rules_def)
  show "rv = req_revision req" "0 < rv" "rv \<le> 9007199254740991" using d by simp_all
qed

lemma decodeFirewall_fixed:
  assumes "canonical_rules net rs" and "0 < rv" "rv \<le> 9007199254740991"
  shows "decodeFirewall net \<lparr>req_revision = rv, req_rules = Some rs\<rparr> = Inr (rv, rs)"
  using assms check_rules_fixed [of rs net "[]" "[]"]
  by (simp add: decodeFirewall_def canonical_rules_def sort_key_id_if_sorted)

section \<open>Numbers\<close>

lemma jsonInt_itoa: "jsonInt (JNum (itoa n)) = n"
proof (cases "n < 0")
  case True
  then show ?thesis
    by (simp add: jsonInt_def itoa_def nat_digits_plain parse_nat_digits)
next
  case False
  obtain c cs where c: "nat_digits (nat n) = c # cs"
    using nat_digits_nonempty by (cases "nat_digits (nat n)") auto
  then have "c \<noteq> CHR ''-''" using nat_digits_plain(3) [of c "nat n"] by auto
  then show ?thesis
    using False c nat_digits_plain(1,2) [of "nat n"] parse_nat_digits [of "nat n"]
    by (simp add: jsonInt_def itoa_def)
qed

section \<open>Round trip of rules\<close>

definition canonical_atom :: "netip \<Rightarrow> firewall_atom \<Rightarrow> bool" where
  "canonical_atom net a \<longleftrightarrow> atom_protocol a \<in> {''tcp'', ''udp''} \<and> 1 \<le> atom_port a \<and> atom_port a \<le> 65535 \<and>
     (if atom_cidr a = [] then atom_verdict a = ''drop''
      else atom_verdict a = ''accept'' \<and> canonical_cidr net (atom_cidr a))"

named_theorems nft_simps \<open>evaluation of the table reader on built expressions\<close>

lemma parse_match [nft_simps]:
  "parse_item net fin (firewallMatch (firewallMeta key) right) st = parse_meta [(''key'', JStr key)] right st"
  "parse_item net fin (firewallMatch (firewallPayload proto field) right) st =
     parse_payload net [(''field'', JStr field), (''protocol'', JStr proto)] right st"
  by (simp_all add: parse_item_def firewallMatch_def firewallMeta_def firewallPayload_def jsonMap_def
      entries_of_def get_any_def Let_def)

lemma parse_verdict [nft_simps]:
  "parse_item net True (JObj [(''accept'', JNull)]) st = Inr (st\<lparr>ap_atom := (ap_atom st)\<lparr>atom_verdict := ''accept''\<rparr>\<rparr>)"
  "parse_item net True (JObj [(''drop'', JNull)]) st = Inr (st\<lparr>ap_atom := (ap_atom st)\<lparr>atom_verdict := ''drop''\<rparr>\<rparr>)"
  by (simp_all add: parse_item_def jsonMap_def entries_of_def Let_def)

lemma parse_meta_nfproto [nft_simps]:
  "ap_family st = [] \<Longrightarrow> parse_meta [(''key'', JStr ''nfproto'')] (JStr (if four then ''ipv4'' else ''ipv6'')) st =
     Inr (st\<lparr>ap_family := if four then ''ip'' else ''ip6''\<rparr>)"
  by (simp add: parse_meta_def get_any_def parse_family_def)

lemma parse_meta_l4proto [nft_simps]:
  "ap_explicit st = [] \<Longrightarrow> p \<in> {''tcp'', ''udp''} \<Longrightarrow>
     parse_meta [(''key'', JStr ''l4proto'')] (JStr p) st = Inr (st\<lparr>ap_explicit := p\<rparr>)"
  by (auto simp: parse_meta_def get_any_def parse_l4proto_def)

lemma parse_dport [nft_simps]:
  "\<not> ap_have_port st \<Longrightarrow> p \<in> {''tcp'', ''udp''} \<Longrightarrow>
     parse_payload net [(''field'', JStr ''dport''), (''protocol'', JStr p)] (JNum (itoa port)) st =
     Inr (st\<lparr>ap_atom := (ap_atom st)\<lparr>atom_protocol := p, atom_port := port\<rparr>, ap_have_port := True\<rparr>)"
  by (auto simp: parse_payload_def get_any_def jsonString_def jsonInt_itoa Let_def)

lemma itoa_nat: "itoa (int n) = nat_digits n"
  by (simp add: itoa_def)

lemma parse_saddr [nft_simps]:
  assumes "\<not> ap_have_source st" and "canonical_cidr net c" and "parse_prefix net c = Some (a, n)"
  shows "parse_payload net [(''field'', JStr ''saddr''), (''protocol'', JStr (if is4 a then ''ip'' else ''ip6''))]
      (JObj [(''prefix'', JObj [(''addr'', JStr (addr_string net a)), (''len'', JNum (itoa (int n)))])]) st =
    Inr (st\<lparr>ap_atom := (ap_atom st)\<lparr>atom_cidr := c\<rparr>, ap_source := (if is4 a then ''ip'' else ''ip6''),
      ap_have_source := True\<rparr>)"
proof -
  have c: "c = addr_string net a @ ''/'' @ nat_digits n"
    using assms by (auto simp: canonical_cidr_def prefix_string_def)
  have "source_text (JObj [(''prefix'', JObj [(''addr'', JStr (addr_string net a)), (''len'', JNum (itoa (int n)))])]) = Inr c"
    by (simp add: source_text_def jsonMap_def entries_of_def get_any_def jsonString_def onlyKeys_def jsonInt_itoa c Let_def)
      (simp add: itoa_nat)
  then show ?thesis
    using assms firewallPrefix_fixed [OF assms(2)]
    by (simp add: parse_payload_def get_any_def jsonString_def cidr_of_def Let_def)
qed

lemma parse_atom_expr:
  assumes "canonical_atom net a"
  shows "parseFirewallAtom net (atom_expr net a) = Inr a"
proof (cases "atom_cidr a = []")
  case True
  then show ?thesis
    using assms
    by (cases a) (auto simp: canonical_atom_def parseFirewallAtom_def atom_expr_def nft_simps empty_parse_def Let_def)
next
  case False
  then have c: "canonical_cidr net (atom_cidr a)" "atom_verdict a = ''accept''" "atom_protocol a \<in> {''tcp'', ''udp''}"
    "1 \<le> atom_port a" "atom_port a \<le> 65535"
    using assms by (auto simp: canonical_atom_def)
  then obtain ad n where p: "parse_prefix net (atom_cidr a) = Some (ad, n)"
    by (auto simp: canonical_cidr_def)
  show ?thesis
    using False c p parse_saddr [OF _ c(1) p]
    by (cases a) (simp add: parseFirewallAtom_def atom_expr_def cidr_of_def nft_simps empty_parse_def Let_def)
qed

lemma rule_atoms_canonical:
  "canonical_rule net r \<Longrightarrow> a \<in> set (rule_atoms r) \<Longrightarrow> canonical_atom net a"
  by (auto simp: rule_atoms_def canonical_atom_def canonical_rule_def dest: canonical_cidr_nonempty)

text \<open>
  What nft lists of a table that was created by the batch: the objects of the batch, each with a
  handle number, after a line of meta information; old versions omit the comment of the table.
\<close>

definition listed_rule :: "netip \<Rightarrow> firewall_atom \<Rightarrow> string \<Rightarrow> jmap" where
  "listed_rule net a h = [(''rule'', JObj [(''chain'', JStr ''input''), (''expr'', atom_expr net a), (''family'', JStr ''inet''),
     (''handle'', JNum h), (''table'', JStr firewallTable)])]"

definition listed_table :: "netip \<Rightarrow> firewall_state \<Rightarrow> bool \<Rightarrow> json \<Rightarrow> string \<Rightarrow> string list \<Rightarrow> jmap list" where
  "listed_table net s comments info h hs =
     [[(''metainfo'', info)],
      [(''table'', JObj ((if comments then [(''comment'', JStr (firewallOwner s))] else []) @
        [(''family'', JStr ''inet''), (''handle'', JNum h), (''name'', JStr firewallTable)]))],
      [(''chain'', JObj [(''family'', JStr ''inet''), (''handle'', JNum h), (''name'', JStr (''owner_'' @ st_owner s)),
        (''table'', JStr firewallTable)])],
      [(''chain'', JObj [(''family'', JStr ''inet''), (''handle'', JNum h), (''hook'', JStr ''input''), (''name'', JStr ''input''),
        (''policy'', JStr ''accept''), (''prio'', JNum ''-10''), (''table'', JStr firewallTable), (''type'', JStr ''filter'')])]] @
     map (\<lambda>(a, h). listed_rule net a h) (zip (firewallAtoms (Some s)) hs)"

lemma scan_listed_rules:
  assumes "\<forall>a \<in> set as. canonical_atom net a" and "length hs = length as"
  shows "foldl (scan_entry net) sc (map (\<lambda>(a, h). listed_rule net a h) (zip as hs)) = sc\<lparr>sc_atoms := sc_atoms sc @ as\<rparr>"
  using assms
proof (induction as arbitrary: sc hs)
  case (Cons a as)
  then obtain h hs' where hs: "hs = h # hs'" by (cases hs) auto
  have "scan_entry net sc (listed_rule net a h) = sc\<lparr>sc_atoms := sc_atoms sc @ [a]\<rparr>"
    using Cons.prems(1) parse_atom_expr [of net a]
    by (simp add: scan_entry_def listed_rule_def jsonMap_def get_any_def scan_rule_def get_string_def onlyKeys_def Let_def)
  then show ?case
    using Cons hs by simp
qed simp

section \<open>Packets\<close>

text \<open>The rules of the input chain are tried in order; the first match decides, the policy accepts.\<close>

record packet =
  pk_protocol :: string
  pk_port :: int
  pk_source :: addr

fun in_prefix :: "addr \<Rightarrow> addr \<times> nat \<Rightarrow> bool" where
  "in_prefix (V4 w) (V4 b, n) = (drop_bit (32 - n) w = drop_bit (32 - n) b)"
| "in_prefix (V6 w z) (V6 b z', n) = (drop_bit (128 - n) w = drop_bit (128 - n) b)"
| "in_prefix _ _ = False"

definition in_cidr :: "netip \<Rightarrow> addr \<Rightarrow> string \<Rightarrow> bool" where
  "in_cidr net a c = (case cidr_of net c of None \<Rightarrow> False | Some p \<Rightarrow> in_prefix a p)"

definition atom_hits :: "netip \<Rightarrow> packet \<Rightarrow> firewall_atom \<Rightarrow> bool" where
  "atom_hits net pk a = (atom_protocol a = pk_protocol pk \<and> atom_port a = pk_port pk \<and>
     (atom_cidr a = [] \<or> in_cidr net (pk_source pk) (atom_cidr a)))"

definition chain_verdict :: "netip \<Rightarrow> firewall_atom list \<Rightarrow> packet \<Rightarrow> string" where
  "chain_verdict net as pk = (case find (atom_hits net pk) as of None \<Rightarrow> ''accept'' | Some a \<Rightarrow> atom_verdict a)"

definition allowed :: "netip \<Rightarrow> firewall_rule list \<Rightarrow> packet \<Rightarrow> bool" where
  "allowed net rs pk \<longleftrightarrow> (\<forall>r \<in> set rs. rule_protocol r = pk_protocol pk \<and> rule_port r = pk_port pk \<longrightarrow>
     (\<exists>c \<in> set (AllowedCIDRs r). in_cidr net (pk_source pk) c))"

lemma find_append: "find P (xs @ ys) = (case find P xs of None \<Rightarrow> find P ys | Some x \<Rightarrow> Some x)"
  by (induction xs) auto

lemma find_map_const: "find P (map f xs) = map_option f (find (P \<circ> f) xs)"
  by (induction xs) auto

lemma rule_verdict:
  assumes "canonical_rule net r"
  shows "find (atom_hits net pk) (rule_atoms r) =
    (if rule_protocol r = pk_protocol pk \<and> rule_port r = pk_port pk
     then Some (case find (in_cidr net (pk_source pk)) (AllowedCIDRs r) of
         Some c \<Rightarrow> \<lparr>atom_protocol = rule_protocol r, atom_port = rule_port r, atom_cidr = c, atom_verdict = ''accept''\<rparr>
       | None \<Rightarrow> \<lparr>atom_protocol = rule_protocol r, atom_port = rule_port r, atom_cidr = [], atom_verdict = ''drop''\<rparr>)
     else None)"
proof (cases "rule_protocol r = pk_protocol pk \<and> rule_port r = pk_port pk")
  case True
  have "c \<noteq> []" if "c \<in> set (AllowedCIDRs r)" for c
    using assms that canonical_cidr_nonempty by (auto simp: canonical_rule_def)
  then have "find (atom_hits net pk \<circ> (\<lambda>c. \<lparr>atom_protocol = rule_protocol r, atom_port = rule_port r, atom_cidr = c,
        atom_verdict = ''accept''\<rparr>)) (AllowedCIDRs r) = find (in_cidr net (pk_source pk)) (AllowedCIDRs r)"
    using True by (intro find_cong) (auto simp: atom_hits_def)
  then show ?thesis
    using True by (simp add: rule_atoms_def find_append find_map_const atom_hits_def split: option.splits)
next
  case False
  then have "\<not> atom_hits net pk a" if "a \<in> set (rule_atoms r)" for a
    using that by (auto simp: rule_atoms_def atom_hits_def)
  then have "find (atom_hits net pk) (rule_atoms r) = None"
    by (simp add: find_None_iff)
  then show ?thesis using False by simp
qed

lemma chain_verdict_rules:
  assumes "\<forall>r \<in> set rs. canonical_rule net r" and "distinct (map rule_key rs)"
  shows "chain_verdict net (concat (map rule_atoms rs)) pk = (if allowed net rs pk then ''accept'' else ''drop'')"
  using assms
proof (induction rs)
  case (Cons r rs)
  have r: "canonical_rule net r" using Cons.prems(1) by simp
  show ?case
  proof (cases "rule_protocol r = pk_protocol pk \<and> rule_port r = pk_port pk")
    case True
    have only: "rule_protocol q \<noteq> pk_protocol pk \<or> rule_port q \<noteq> pk_port pk" if "q \<in> set rs" for q
      using True Cons.prems(2) that by (force simp: rule_key_def)
    have "allowed net (r # rs) pk \<longleftrightarrow> (\<exists>c \<in> set (AllowedCIDRs r). in_cidr net (pk_source pk) c)"
      unfolding allowed_def using True only by auto
    moreover have "(find (in_cidr net (pk_source pk)) (AllowedCIDRs r) = None) =
        (\<not> (\<exists>c \<in> set (AllowedCIDRs r). in_cidr net (pk_source pk) c))"
      by (auto simp: find_None_iff)
    ultimately show ?thesis
      using True rule_verdict [OF r, of pk]
      by (auto simp: chain_verdict_def find_append split: option.splits)
  next
    case False
    then have "allowed net (r # rs) pk = allowed net rs pk" by (auto simp: allowed_def)
    moreover have "find (atom_hits net pk) (rule_atoms r) = None"
      using False by (simp only: rule_verdict [OF r]) simp
    ultimately show ?thesis
      using Cons by (simp add: chain_verdict_def find_append)
  qed
qed (simp add: chain_verdict_def allowed_def)

section \<open>Properties\<close>

text \<open>A printer and parser of addresses that has the laws, for concrete instances.\<close>

definition sample_parse :: "string \<Rightarrow> (addr \<times> nat) option" where
  "sample_parse s =
     (let six = (s \<noteq> [] \<and> hd s = CHR ''x''); t = (if six then tl s else s);
          m = parse_nat (takeWhile (\<lambda>c. c \<noteq> CHR ''/'') t); n = parse_nat (drop 1 (dropWhile (\<lambda>c. c \<noteq> CHR ''/'') t)) in
      case (m, n) of
        (Some m', Some n') \<Rightarrow>
          if six then (if n' \<le> 128 then Some (V6 (word_of_nat m') [], n') else None)
          else if n' \<le> 32 then Some (V4 (word_of_nat m'), n') else None
      | _ \<Rightarrow> None)"

fun sample_string :: "addr \<Rightarrow> string" where
  "sample_string (V4 w) = nat_digits (unat w)"
| "sample_string (V6 w z) = CHR ''x'' # nat_digits (unat w)"

definition net_sample :: netip where
  "net_sample = \<lparr>parse_prefix = sample_parse, parse_addr = (\<lambda>s. None), addr_string = sample_string\<rparr>"

lemma trim_space_plain: "(\<And>c. c \<in> set s \<Longrightarrow> \<not> is_space c) \<Longrightarrow> trim_space s = s"
  unfolding trim_space_def
  by (metis dropWhile_eq_self_iff hd_in_set hd_rev last_in_set rev_is_Nil_conv rev_rev_ident)

lemma digits_split:
  "takeWhile (\<lambda>c. c \<noteq> CHR ''/'') (nat_digits m @ CHR ''/'' # t) = nat_digits m"
  "dropWhile (\<lambda>c. c \<noteq> CHR ''/'') (nat_digits m @ CHR ''/'' # t) = CHR ''/'' # t"
proof -
  have "\<not> is_digit CHR ''/''" by (simp add: is_digit_def)
  then have "c \<noteq> CHR ''/''" if "c \<in> set (nat_digits m)" for c
    using nat_digits_set [OF that] by metis
  then show "takeWhile (\<lambda>c. c \<noteq> CHR ''/'') (nat_digits m @ CHR ''/'' # t) = nat_digits m"
    "dropWhile (\<lambda>c. c \<noteq> CHR ''/'') (nat_digits m @ CHR ''/'' # t) = CHR ''/'' # t"
    by (simp_all add: takeWhile_append dropWhile_append)
qed

lemma sample_parse_string:
  assumes "zone a = []" and "n \<le> bit_len a"
  shows "sample_parse (sample_string a @ ''/'' @ nat_digits n) = Some (a, n)"
proof (cases a)
  case (V4 w)
  have "\<not> is_digit CHR ''x''" by (simp add: is_digit_def)
  moreover have "hd (nat_digits (unat w)) \<in> set (nat_digits (unat w))"
    using nat_digits_nonempty by simp
  ultimately have "hd (nat_digits (unat w)) \<noteq> CHR ''x''"
    using nat_digits_set by metis
  then have "hd (nat_digits (unat w) @ CHR ''/'' # nat_digits n) \<noteq> CHR ''x''"
    using nat_digits_nonempty by simp
  then have "sample_parse (nat_digits (unat w) @ CHR ''/'' # nat_digits n) = Some (V4 w, n)"
    using V4 assms unfolding sample_parse_def Let_def
    by (simp add: digits_split parse_nat_digits)
  then show ?thesis using V4 by simp
next
  case (V6 w z)
  then show ?thesis
    using assms by (simp add: sample_parse_def digits_split parse_nat_digits Let_def)
qed

lemma net_sample_ok: "netip_ok net_sample"
proof -
  have sp: "\<not> is_space c" if "is_digit c \<or> c = CHR ''x'' \<or> c = CHR ''/''" for c
    using that by (auto simp: is_space_def is_digit_def)
  have "trim_space (sample_string a @ ''/'' @ nat_digits n) = sample_string a @ ''/'' @ nat_digits n" for a n
    by (rule trim_space_plain) (cases a; auto dest!: nat_digits_set intro!: sp)
  moreover have "zone a = [] \<and> n \<le> bit_len a" if "sample_parse s = Some (a, n)" for s a n
    using that by (auto simp: sample_parse_def Let_def split: option.splits if_splits)
  ultimately show ?thesis
    using sample_parse_string by (simp add: netip_ok_def net_sample_def prefix_string_def)
qed

definition rule_sample :: firewall_rule where
  "rule_sample = \<lparr>rule_id = ''web'', rule_name = '' Web '', rule_protocol = ''tcp'', rule_port = 443,
     AllowedCIDRs = [''272/24'', ''256/24'']\<rparr>"

definition rule_clean :: firewall_rule where
  "rule_clean = \<lparr>rule_id = ''web'', rule_name = ''Web'', rule_protocol = ''tcp'', rule_port = 443,
     AllowedCIDRs = [''256/24'']\<rparr>"

lemma decode_sample:
  "decodeFirewall net_sample \<lparr>req_revision = 3, req_rules = Some [rule_sample]\<rparr> = Inr (3, [rule_clean])"
proof -
  have "check_rules net_sample [] [] [rule_sample] = Inr [rule_clean]"
    by code_simp
  then show ?thesis by (simp add: decodeFirewall_def)
qed

text \<open>C16: Decoding a firewall request yields a canonical policy: at most 64 rules sorted by protocol and
  port, with distinct names and distinct protocol and port, each with 1 to 128 sorted distinct
  unicast prefixes of nonzero length that are masked; and a canonical policy decodes to itself, so
  the policy written to disk is accepted unchanged when it is read.\<close>
theorem decoded_request_is_canonical:
  assumes "netip_ok net" and "decodeFirewall net req = Inr (rv, rs)"
  shows "canonical_rules net rs \<and> decodeFirewall net \<lparr>req_revision = rv, req_rules = Some rs\<rparr> = Inr (rv, rs)"
  using decodeFirewall_canonical [OF assms] decodeFirewall_fixed [of net rs rv] by simp

theorem decoded_request_is_canonical_witness:
  "canonical_rules net_sample [rule_clean] \<and>
   decodeFirewall net_sample \<lparr>req_revision = 3, req_rules = Some [rule_clean]\<rparr> = Inr (3, [rule_clean])"
  using decoded_request_is_canonical [OF net_sample_ok decode_sample] .

lemma listed_table_recognised:
  assumes "netip_ok net" and "decodeFirewall net req = Inr (st_revision s, st_rules s)" and "st_rules s \<noteq> []"
    and "owner_token_ok (st_owner s)" and "length hs = length (firewallAtoms (Some s))"
    and "[(''table'', JObj [(''family'', JStr ''inet''), (''handle'', JNum h), (''name'', JStr firewallTable)])] \<in> set inventory"
  shows "\<exists>obs. observeFirewall net (Some inventory) (Some (listed_table net s comments info h hs)) = Inr obs \<and>
    firewallMatches obs (Some s) \<and> checkFirewallOwnership obs (Some s) = Inr ()"
proof -
  have rules: "canonical_rules net (st_rules s)"
    using decodeFirewall_canonical [OF assms(1,2)] by simp
  have atoms: "\<forall>a \<in> set (firewallAtoms (Some s)). canonical_atom net a"
    using rules rule_atoms_canonical by (auto simp: firewallAtoms_def canonical_rules_def)
  have found: "list_ex (\<lambda>e. let t = entries_of (jsonMap (get_any e ''table'')) in
      get_any t ''family'' = JStr ''inet'' \<and> get_any t ''name'' = JStr firewallTable) inventory"
    unfolding list_ex_iff by (rule bexI [OF _ assms(6)]) (simp add: get_any_def jsonMap_def entries_of_def)
  have "jsonInt (JNum ''-10'') = -10" by code_simp
  then have "foldl (scan_entry net) empty_scan (listed_table net s comments info h hs) =
      \<lparr>sc_tables = 1, sc_chains = 1, sc_owners = 1, sc_owner = firewallOwner s,
       sc_comment = (if comments then firewallOwner s else []), sc_has_comment = comments, sc_owner_rules = False,
       sc_valid = True, sc_atoms = firewallAtoms (Some s)\<rparr>"
    using assms(4) scan_listed_rules [OF atoms assms(5)]
    by (simp add: listed_table_def scan_entry_def scan_table_def scan_chain_def get_any_def get_string_def jsonMap_def
        onlyKeys_def empty_scan_def firewallOwner_def Let_def)
  then show ?thesis
    using found assms(3)
    by (simp add: observeFirewall_def Let_def firewallMatches_def checkFirewallOwnership_def)
      (simp add: firewallOwner_def)
qed

text \<open>A table that nft lists as the batch for a policy created it, with any handles and with or without
  the comment, is recognised: the Agent finds its ownership proof and reads back exactly the rules
  of the policy, so the observation matches the policy.\<close>
theorem own_table_recognised:
  assumes "netip_ok net" and "decodeFirewall net req = Inr (st_revision s, st_rules s)" and "st_rules s \<noteq> []"
    and "owner_token_ok (st_owner s)" and "length hs = length (firewallAtoms (Some s))"
    and "[(''table'', JObj [(''family'', JStr ''inet''), (''handle'', JNum h), (''name'', JStr firewallTable)])] \<in> set inventory"
  shows "\<exists>obs. observeFirewall net (Some inventory) (Some (listed_table net s comments info h hs)) = Inr obs \<and>
    firewallMatches obs (Some s) \<and> checkFirewallOwnership obs (Some s) = Inr ()"
  using assms by (rule listed_table_recognised)

theorem own_table_recognised_witness:
  "let s = \<lparr>st_version = 1, st_owner = replicate 64 CHR ''0'', st_revision = 3, st_rules = [rule_clean], st_bindings = []\<rparr> in
   \<exists>obs. observeFirewall net_sample
       (Some [[(''table'', JObj [(''family'', JStr ''inet''), (''handle'', JNum ''7''), (''name'', JStr firewallTable)])]])
       (Some (listed_table net_sample s False JNull ''7'' [''8'', ''9''])) = Inr obs \<and>
     firewallMatches obs (Some s) \<and> checkFirewallOwnership obs (Some s) = Inr ()"
proof -
  have "owner_token_ok (replicate 64 CHR ''0'')" by code_simp
  then show ?thesis
    unfolding Let_def
    by (intro own_table_recognised [where req = "\<lparr>req_revision = 3, req_rules = Some [rule_sample]\<rparr>"])
      (simp_all add: net_sample_ok decode_sample firewallAtoms_def rule_atoms_def rule_clean_def)
qed

text \<open>C15: With a decoded policy in the input chain, a packet to a protected protocol and port is accepted
  exactly when its source lies in one of the allowed prefixes of that rule and is dropped
  otherwise, and every other packet is accepted.\<close>
theorem allowlist_semantics:
  assumes "netip_ok net" and "decodeFirewall net req = Inr (st_revision s, st_rules s)"
  shows "chain_verdict net (firewallAtoms (Some s)) pk = (if allowed net (st_rules s) pk then ''accept'' else ''drop'')"
  using decodeFirewall_canonical(1) [OF assms] chain_verdict_rules [of "st_rules s" net pk]
  by (simp add: firewallAtoms_def canonical_rules_def)

theorem allowlist_semantics_witness:
  "chain_verdict net_sample (firewallAtoms (Some \<lparr>st_version = 1, st_owner = [], st_revision = 3, st_rules = [rule_clean],
      st_bindings = []\<rparr>)) \<lparr>pk_protocol = ''tcp'', pk_port = 443, pk_source = V4 0x01020304\<rparr> = ''drop''"
proof -
  have "\<not> allowed net_sample [rule_clean] \<lparr>pk_protocol = ''tcp'', pk_port = 443, pk_source = V4 0x01020304\<rparr>"
    by code_simp
  then show ?thesis
    using allowlist_semantics [where s = "\<lparr>st_version = 1, st_owner = [], st_revision = 3, st_rules = [rule_clean],
      st_bindings = []\<rparr>" and net = net_sample and req = "\<lparr>req_revision = 3, req_rules = Some [rule_sample]\<rparr>"]
      net_sample_ok decode_sample by simp
qed

lemma find_sat: "find P xs = Some x \<Longrightarrow> x \<in> set xs \<and> P x"
  by (metis find_Some_iff nth_mem)

lemma target_of_Some:
  assumes "target_of net inbounds reserved i = Some b"
  shows "target_protocol b = ''tcp'' \<and> 1 \<le> target_port b \<and> target_port b \<le> 65535 \<and> target_port b \<noteq> 22 \<and>
    target_port b \<notin> reserved \<and> target_kind b \<in> {''vless'', ''vmess'', ''trojan''} \<and> target_name b \<noteq> [] \<and>
    length (filter (\<lambda>i. in_port i = Some (target_port b)) inbounds) = 1"
proof -
  obtain port where port: "in_port i = Some port"
    using assms by (cases "in_port i") (simp_all add: target_of_def)
  have valid: "\<not> (port < 1 \<or> port > 65535 \<or> length (filter (\<lambda>j. in_port j = Some port) inbounds) \<noteq> 1 \<or>
      port = 22 \<or> port \<in> reserved)"
    by (rule notI) (use assms port in \<open>simp add: target_of_def\<close>)
  have kind: "\<not> (in_protocol i \<noteq> ''vless'' \<and> in_protocol i \<noteq> ''vmess'' \<and> in_protocol i \<noteq> ''trojan'')"
    by (rule notI) (use assms port valid in \<open>simp add: target_of_def\<close>)
  have net: "\<not> (in_network i \<noteq> [] \<and> in_network i \<noteq> ''tcp'' \<and> in_network i \<noteq> ''raw'')"
    by (rule notI) (use assms port valid kind in \<open>auto simp: target_of_def\<close>)
  obtain a where a: "parse_addr net (if in_listen i = [] then ''0.0.0.0'' else in_listen i) = Some a"
    using assms port valid kind net unfolding target_of_def
    by (cases "parse_addr net (if in_listen i = [] then ''0.0.0.0'' else in_listen i)") (auto split: if_splits)
  then have "in_tag i \<noteq> []" "b = \<lparr>target_name = in_tag i, target_protocol = ''tcp'', target_port = port,
      target_listen = addr_string net a, target_kind = in_protocol i\<rparr>"
    using assms port valid kind net unfolding target_of_def by (auto split: if_splits)
  then show ?thesis using valid kind by auto
qed

lemma firewallTargets_spec:
  assumes "b \<in> set (firewallTargets net reserved cfg)"
  shows "\<exists>inbounds. cfg = Some inbounds \<and> target_protocol b = ''tcp'' \<and> 1 \<le> target_port b \<and> target_port b \<le> 65535 \<and>
    target_port b \<noteq> 22 \<and> target_port b \<notin> reserved \<and> target_kind b \<in> {''vless'', ''vmess'', ''trojan''} \<and>
    target_name b \<noteq> [] \<and> length (filter (\<lambda>i. in_port i = Some (target_port b)) inbounds) = 1"
proof (cases cfg)
  case None
  then show ?thesis using assms by (simp add: firewallTargets_def)
next
  case (Some inbounds)
  then obtain i where "target_of net inbounds reserved i = Some b"
    using assms by (auto simp: firewallTargets_def map_filter_def)
  then show ?thesis using Some target_of_Some by blast
qed

lemma firewallBindings_spec:
  assumes "firewallBindings targets rules = Inr bindings"
  shows "map (\<lambda>b. (target_protocol b, target_port b)) bindings = map rule_key rules \<and> set bindings \<subseteq> set targets"
  using assms
proof (induction rules arbitrary: bindings)
  case (Cons r rules)
  then obtain t ts where t: "find (\<lambda>t. target_protocol t = rule_protocol r \<and> target_port t = rule_port r) targets = Some t"
    "firewallBindings targets rules = Inr ts" "bindings = t # ts"
    by (auto simp: bind_res_Inr split: option.splits)
  then show ?case
    using Cons.IH [OF t(2)] find_sat [OF t(1)] by (simp add: rule_key_def)
qed simp

text \<open>A listener is offered for protection only if its port is valid, is neither SSH nor a management
  port, belongs to a single inbound of a native proxy protocol on plain TCP, and the listener has
  a tag; and a policy is bound only to such listeners, one for each rule.\<close>
theorem bindings_are_unreserved_targets:
  assumes "firewallBindings (firewallTargets net reserved (Some inbounds)) rules = Inr bindings"
  shows "map (\<lambda>b. (target_protocol b, target_port b)) bindings = map rule_key rules \<and>
    (\<forall>b \<in> set bindings. 1 \<le> target_port b \<and> target_port b \<le> 65535 \<and> target_port b \<noteq> 22 \<and> target_port b \<notin> reserved \<and>
       target_kind b \<in> {''vless'', ''vmess'', ''trojan''} \<and> target_name b \<noteq> [] \<and>
       length (filter (\<lambda>i. in_port i = Some (target_port b)) inbounds) = 1)"
  using firewallBindings_spec [OF assms] firewallTargets_spec by blast

theorem bindings_are_unreserved_targets_witness:
  "let net = net_sample\<lparr>parse_addr := (\<lambda>s. Some (V4 0))\<rparr>;
     cfg = [\<lparr>in_tag = ''proxy'', in_listen = [], in_port = Some 443, in_protocol = ''vless'', in_network = ''tcp''\<rparr>] in
   \<exists>b. firewallBindings (firewallTargets net {23889} (Some cfg)) [rule_clean] = Inr [b] \<and> target_port b = 443"
proof -
  let ?cfg = "[\<lparr>in_tag = ''proxy'', in_listen = [], in_port = Some 443, in_protocol = ''vless'', in_network = ''tcp''\<rparr>]"
  obtain b where b: "firewallBindings (firewallTargets (net_sample\<lparr>parse_addr := (\<lambda>s. Some (V4 0))\<rparr>) {23889} (Some ?cfg)) [rule_clean] = Inr [b]"
    by (simp add: firewallTargets_def map_filter_def target_of_def rule_clean_def)
  then show ?thesis
    using bindings_are_unreserved_targets [OF b] by (simp add: rule_key_def rule_clean_def)
qed

text \<open>A line of the socket inventory that shows a listening socket.\<close>

definition listens :: "string \<Rightarrow> int \<Rightarrow> string \<Rightarrow> bool" where
  "listens line port inode \<longleftrightarrow> (let fs = line_fields line in length fs \<ge> 10 \<and> fs ! 3 = ''0A'' \<and> fs ! 9 = inode \<and>
     (\<exists>host p. split_on CHR '':'' (fs ! 1) = [host, p] \<and> parse_hex p = Some port))"

lemma scan_sockets_ok:
  assumes "scan_sockets owned wanted lines = Inr seen"
  shows "(\<forall>line port inode. line \<in> set lines \<and> listens line port inode \<and> port \<in> set wanted \<longrightarrow> inode \<in> set owned) \<and>
    (\<forall>port \<in> set seen. \<exists>line \<in> set lines. \<exists>inode \<in> set owned. listens line port inode)"
  using assms
proof (induction lines arbitrary: seen)
  case (Cons line lines)
  let ?fs = "line_fields line"
  consider (skip) "scan_sockets owned wanted lines = Inr seen"
      "\<And>port inode. listens line port inode \<Longrightarrow> port \<notin> set wanted"
    | (hit) host p port seen' where "scan_sockets owned wanted lines = Inr seen'" "seen = port # seen'" "length ?fs \<ge> 10"
      "?fs ! 3 = ''0A''" "split_on CHR '':'' (?fs ! 1) = [host, p]" "parse_hex p = Some port" "?fs ! 9 \<in> set owned"
  proof (cases "?fs = [] \<or> length ?fs \<ge> 10 \<and> ?fs ! 3 \<noteq> ''0A''")
    case True
    then have "scan_sockets owned wanted (line # lines) = scan_sockets owned wanted lines"
      by (cases "?fs = []") (simp_all add: Let_def)
    then show thesis
      using True Cons.prems by (intro that(1)) (auto simp: listens_def Let_def simp del: scan_sockets.simps)
  next
    case False
    then have long: "?fs \<noteq> []" "length ?fs \<ge> 10" "?fs ! 3 = ''0A''"
      using Cons.prems by (auto simp: Let_def split: if_splits)
    then obtain host p where hp: "split_on CHR '':'' (?fs ! 1) = [host, p]"
      using Cons.prems by (auto simp: Let_def split: list.splits)
    then obtain port where port: "parse_hex p = Some port"
      using Cons.prems long by (auto simp: Let_def split: option.splits)
    show thesis
    proof (cases "port \<in> set wanted")
      case True
      then show thesis
        using Cons.prems long hp port that(2) [of _ port host p] by (auto simp: Let_def bind_res_Inr split: if_splits)
    next
      case False
      then show thesis
        using Cons.prems long hp port by (intro that(1)) (auto simp: Let_def listens_def)
    qed
  qed
  then show ?case
  proof cases
    case skip
    then show ?thesis using Cons.IH [OF skip(1)] by auto
  next
    case hit
    then have "listens line port (?fs ! 9)" by (simp add: listens_def Let_def)
    moreover have "inode = ?fs ! 9" if "listens line q inode" for q inode
      using that by (simp add: listens_def Let_def)
    then have "inode \<in> set owned" if "l \<in> set (line # lines)" "listens l q inode" "q \<in> set wanted" for l q inode
      using that Cons.IH [OF hit(1)] hit(7) by (metis set_ConsD)
    moreover have "\<exists>l \<in> set (line # lines). \<exists>inode \<in> set owned. listens l q inode" if "q \<in> set seen" for q
    proof (cases "q = port")
      case True
      then show ?thesis using calculation(1) hit(7) by auto
    next
      case False
      then show ?thesis using that Cons.IH [OF hit(1)] hit(2) by auto
    qed
    ultimately show ?thesis by blast
  qed
qed simp

text \<open>When the port ownership check passes on Linux, every listening TCP socket of the inventory, for
  IPv4 and IPv6, that uses a port of the policy is one of the descriptors of this process; and when
  ownership is required, each of these ports has such a socket.\<close>
theorem port_ownership_sound:
  assumes "verifyFirewallPortOwnership True (Some links) (Some tcp) tcp6 rules requireOwned = Inr ()" and "rules \<noteq> []"
  shows "let inventory = tl (split_on newline tcp) @ (case tcp6 of None \<Rightarrow> [] | Some t \<Rightarrow> tl (split_on newline t)) in
    (\<forall>line \<in> set inventory. \<forall>r \<in> set rules. \<forall>inode. listens line (rule_port r) inode \<longrightarrow> inode \<in> set (owned_sockets links)) \<and>
    (requireOwned \<longrightarrow> (\<forall>r \<in> set rules. \<exists>line \<in> set inventory. \<exists>inode \<in> set (owned_sockets links).
       listens line (rule_port r) inode))"
proof -
  let ?six = "case tcp6 of None \<Rightarrow> [] | Some t \<Rightarrow> tl (split_on newline t)"
  obtain seen4 seen6 where s: "scan_sockets (owned_sockets links) (map rule_port rules) (tl (split_on newline tcp)) = Inr seen4"
    "scan_sockets (owned_sockets links) (map rule_port rules) ?six = Inr seen6"
    "requireOwned \<longrightarrow> set (map rule_port rules) \<subseteq> set (seen4 @ seen6)"
    using assms by (auto simp: verifyFirewallPortOwnership_def bind_res_Inr Let_def split: option.splits if_splits)
  note four = scan_sockets_ok [OF s(1)] and six = scan_sockets_ok [OF s(2)]
  have "inode \<in> set (owned_sockets links)"
    if "line \<in> set (tl (split_on newline tcp)) \<or> line \<in> set ?six" "r \<in> set rules" "listens line (rule_port r) inode"
    for line r inode
  proof -
    have "rule_port r \<in> set (map rule_port rules)" using that(2) by simp
    then show ?thesis using that(1,3) four six by blast
  qed
  moreover have "\<exists>line. (line \<in> set (tl (split_on newline tcp)) \<or> line \<in> set ?six) \<and>
      (\<exists>inode \<in> set (owned_sockets links). listens line (rule_port r) inode)" if "requireOwned" "r \<in> set rules" for r
  proof -
    have "rule_port r \<in> set seen4 \<or> rule_port r \<in> set seen6" using that s(3) by auto
    then show ?thesis using four six by blast
  qed
  ultimately show ?thesis
    unfolding Let_def set_append by blast
qed

theorem port_ownership_sound_witness:
  "let tcp = ''head'' @ [newline] @ ''0: 00000000:01BB 0 0A 0 0 0 0 0 77'' in
   verifyFirewallPortOwnership True (Some [''socket:[77]'']) (Some tcp) None [rule_clean] True = Inr () \<and>
   (\<exists>line \<in> set (tl (split_on newline tcp)). \<exists>inode \<in> set (owned_sockets [''socket:[77]'']). listens line 443 inode)"
proof -
  let ?tcp = "''head'' @ [newline] @ ''0: 00000000:01BB 0 0A 0 0 0 0 0 77''"
  have ok: "verifyFirewallPortOwnership True (Some [''socket:[77]'']) (Some ?tcp) None [rule_clean] True = Inr ()"
    by code_simp
  show ?thesis
    using ok port_ownership_sound [OF ok] unfolding Let_def by (simp add: rule_clean_def)
qed

end
