(* ===== verification/Firewall_Apply.thy ===== *)
theory Firewall_Apply
  imports Firewall_Rules
begin

text \<open>
  Port allowlists, the transaction (internal/runtime/firewall.go and firewall_persistence.go): the
  committed file, the pending journal, the live table, the proxy listeners and the management
  port. nftables is a parameter: what it does with a batch and what it lists. Every call of nft
  and every file operation may fail, as told by a list of faults.
\<close>

section \<open>State\<close>

datatype firewall_file = Absent | Broken | Saved firewall_state

record 'k firewall_env =
  netip_of :: netip
  nft_run :: "json \<Rightarrow> 'k \<Rightarrow> 'k option"
  nft_tables :: "'k \<Rightarrow> jmap list"
  nft_table :: "'k \<Rightarrow> jmap list"
  port_owner :: "firewall_rule list \<Rightarrow> bool \<Rightarrow> (firewall_error, unit) res"
  xray_config :: "(firewall_error, inbound list option) res"
  random_token :: "bytes option"
  nft_supported :: bool

record 'k firewall_world =
  kernel :: 'k
  committed :: firewall_file
  pending :: firewall_file
  firewallReady :: bool
  running :: bool
  listen_port :: int
  managementPorts :: "int set"
  fw_faults :: "bool list"

definition fault :: "'k firewall_world \<Rightarrow> bool \<times> 'k firewall_world" where
  "fault w = (case fw_faults w of [] \<Rightarrow> (False, w) | f # fs \<Rightarrow> (f, w\<lparr>fw_faults := fs\<rparr>))"

section \<open>Files\<close>

definition readFirewallFile :: "netip \<Rightarrow> firewall_file \<Rightarrow> (firewall_error, firewall_state option) res" where
  "readFirewallFile net f =
     (case f of
        Absent \<Rightarrow> Inr None
      | Broken \<Rightarrow> Inl BadState
      | Saved s \<Rightarrow>
          (case hex_decode (st_owner s) of
             None \<Rightarrow> Inl BadState
           | Some owner \<Rightarrow>
               if st_version s \<noteq> 1 \<or> length owner \<noteq> 32 then Inl BadState
               else bind_res (decodeFirewall net \<lparr>req_revision = st_revision s, req_rules = Some (st_rules s)\<rparr>) (\<lambda>(rv, rs).
                 if rs \<noteq> st_rules s then Inl BadState
                 else if length (st_bindings s) \<noteq> length (st_rules s) then Inl BadState
                 else Inr (Some s))))"

definition readFirewallState ::
  "netip \<Rightarrow> 'k firewall_world \<Rightarrow> (firewall_error, firewall_state option) res" where
  "readFirewallState net w =
     (case readFirewallFile net (pending w) of
        Inl e \<Rightarrow> Inl e
      | Inr (Some s) \<Rightarrow> Inr (Some s)
      | Inr None \<Rightarrow> readFirewallFile net (committed w))"

text \<open>\<open>saveFirewallFile\<close>: the write replaces the file atomically; the sync of the directory may
  fail afterwards.\<close>

definition save_with ::
  "(firewall_state \<Rightarrow> 'k firewall_world \<Rightarrow> 'k firewall_world) \<Rightarrow> firewall_state \<Rightarrow> 'k firewall_world \<Rightarrow>
     (firewall_error, unit) res \<times> 'k firewall_world" where
  "save_with put s w =
     (case fault w of (f, w1) \<Rightarrow>
        if f then (Inl WriteFailed, w1)
        else case fault (put s w1) of (g, w2) \<Rightarrow> if g then (Inl SyncFailed, w2) else (Inr (), w2))"

definition saveCommitted :: "firewall_state \<Rightarrow> 'k firewall_world \<Rightarrow> (firewall_error, unit) res \<times> 'k firewall_world" where
  "saveCommitted = save_with (\<lambda>s w. w\<lparr>committed := Saved s\<rparr>)"

definition savePending :: "firewall_state \<Rightarrow> 'k firewall_world \<Rightarrow> (firewall_error, unit) res \<times> 'k firewall_world" where
  "savePending = save_with (\<lambda>s w. w\<lparr>pending := Saved s\<rparr>)"

definition removeFirewallJournal :: "'k firewall_world \<Rightarrow> (firewall_error, unit) res \<times> 'k firewall_world" where
  "removeFirewallJournal w =
     (if pending w = Absent then (Inr (), w)
      else case fault w of (f, w1) \<Rightarrow>
        if f then (Inl ReadFailed, w1)
        else case fault w1 of (g, w2) \<Rightarrow>
          if g then (Inl WriteFailed, w2)
          else case fault (w2\<lparr>pending := Absent\<rparr>) of (h, w3) \<Rightarrow>
            if \<not> h then (Inr (), w3)
            else case fault w3 of (i, w4) \<Rightarrow>
              if i then (Inl SyncFailed, w4) else (Inl SyncFailed, w4\<lparr>pending := pending w\<rparr>))"

section \<open>The live table\<close>

definition observe :: "'k firewall_env \<Rightarrow> 'k firewall_world \<Rightarrow> (firewall_error, firewall_observed) res \<times> 'k firewall_world" where
  "observe env w =
     (case fault w of (f, w1) \<Rightarrow>
        if f then (Inl NftFailed, w1)
        else (observeFirewall (netip_of env) (Some (nft_tables env (kernel w1))) (Some (nft_table env (kernel w1))), w1))"

text \<open>
  A batch is checked with \<open>nft -c\<close> or executed. Execution is atomic, but its answer may be lost
  after it took effect.
\<close>

definition runFirewallBatch ::
  "'k firewall_env \<Rightarrow> firewall_state option \<Rightarrow> firewall_observed \<Rightarrow> bool \<Rightarrow> 'k firewall_world \<Rightarrow>
     (firewall_error, unit) res \<times> 'k firewall_world" where
  "runFirewallBatch env st obs check w =
     (if \<not> obs_exists obs \<and> (case st of None \<Rightarrow> True | Some s \<Rightarrow> st_rules s = []) then (Inr (), w)
      else case fault w of (f, w1) \<Rightarrow>
        if f then (Inl WriteFailed, w1)
        else case nft_run env (firewallBatch (netip_of env) st (obs_exists obs)) (kernel w1) of
          None \<Rightarrow> (Inl NftFailed, w1)
        | Some k \<Rightarrow> (case fault (if check then w1 else w1\<lparr>kernel := k\<rparr>) of (g, w2) \<Rightarrow>
            if g then (Inl NftFailed, w2) else (Inr (), w2)))"

text \<open>\<open>running\<close> is \<open>r.instance != nil\<close>: a stop drops the instance also when closing it reports an error.\<close>

definition stop :: "'k firewall_world \<Rightarrow> 'k firewall_world" where
  "stop w = w\<lparr>running := False\<rparr>"

definition firewallStatus :: "'k firewall_env \<Rightarrow> 'k firewall_world \<Rightarrow> bool \<times> 'k firewall_world" where
  "firewallStatus env w =
     (case readFirewallState (netip_of env) w of
        Inl e \<Rightarrow> (False, w)
      | Inr st \<Rightarrow>
          (let (applied, w1) =
             (if \<not> nft_supported env then (False, w)
              else case observe env w of
                (Inl e, w1) \<Rightarrow> (False, w1)
              | (Inr obs, w1) \<Rightarrow>
                  (is_ok (checkFirewallOwnership obs st) \<and> firewallMatches obs st, w1)) in
           (applied, if \<not> applied \<and> st \<noteq> None then w1\<lparr>firewallReady := False\<rparr> else w1)))"

definition firewallPersistenceFailure ::
  "'k firewall_env \<Rightarrow> 'k firewall_world \<Rightarrow> (firewall_error, bool) res \<times> 'k firewall_world" where
  "firewallPersistenceFailure env w =
     (Inl PersistenceFailed, snd (firewallStatus env (stop (w\<lparr>firewallReady := False\<rparr>))))"

section \<open>Configuration and start\<close>

definition reserved :: "'k firewall_world \<Rightarrow> int set" where
  "reserved w = insert (listen_port w) (managementPorts w)"

definition bind_rules ::
  "'k firewall_env \<Rightarrow> 'k firewall_world \<Rightarrow> inbound list option \<Rightarrow> firewall_rule list \<Rightarrow>
     (firewall_error, firewall_target list) res" where
  "bind_rules env w cfg rules = firewallBindings (firewallTargets (netip_of env) (reserved w) cfg) rules"

definition validateFirewallConfig ::
  "'k firewall_env \<Rightarrow> 'k firewall_world \<Rightarrow> inbound list option \<Rightarrow> (firewall_error, unit) res" where
  "validateFirewallConfig env w cfg =
     bind_res (readFirewallState (netip_of env) w) (\<lambda>st.
       case st of None \<Rightarrow> Inr ()
       | Some s \<Rightarrow> if st_rules s = [] then Inr ()
           else bind_res (bind_rules env w cfg (st_rules s)) (\<lambda>bs.
             if bs \<noteq> st_bindings s then Inl ListenerChanged else Inr ()))"

definition commit_state ::
  "'k firewall_env \<Rightarrow> firewall_state \<Rightarrow> 'k firewall_world \<Rightarrow> (firewall_error, bool) res \<times> 'k firewall_world" where
  "commit_state env s w =
     (case saveCommitted s w of
        (Inl e, w1) \<Rightarrow> firewallPersistenceFailure env w1
      | (Inr _, w1) \<Rightarrow> (case removeFirewallJournal w1 of
          (Inl e, w2) \<Rightarrow> firewallPersistenceFailure env w2
        | (Inr _, w2) \<Rightarrow> (case firewallStatus env (w2\<lparr>firewallReady := True\<rparr>) of (applied, w3) \<Rightarrow> (Inr applied, w3))))"

definition ensureFirewall ::
  "'k firewall_env \<Rightarrow> 'k firewall_world \<Rightarrow> (firewall_error, unit) res \<times> 'k firewall_world" where
  "ensureFirewall env w =
     (if firewallReady w then (Inr (), w)
      else case readFirewallState (netip_of env) w of
        Inl e \<Rightarrow> (Inl e, w)
      | Inr None \<Rightarrow> (Inr (), w\<lparr>firewallReady := True\<rparr>)
      | Inr (Some s) \<Rightarrow>
          (case bind_res (port_owner env (st_rules s) False) (\<lambda>_.
              if st_rules s = [] then Inr () else bind_res (xray_config env) (validateFirewallConfig env w)) of
             Inl e \<Rightarrow> (Inl e, w)
           | Inr _ \<Rightarrow>
               (case observe env w of
                  (Inl e, w1) \<Rightarrow> (Inl e, w1)
                | (Inr obs, w1) \<Rightarrow>
                    (case checkFirewallOwnership obs (Some s) of
                       Inl e \<Rightarrow> (Inl e, w1)
                     | Inr _ \<Rightarrow>
                         (case (if firewallMatches obs (Some s) then (Inr (), w1)
                                else case runFirewallBatch env (Some s) obs True w1 of
                                  (Inl e, w2) \<Rightarrow> (Inl e, w2)
                                | (Inr _, w2) \<Rightarrow> runFirewallBatch env (Some s) obs False w2) of
                            (Inl e, w3) \<Rightarrow> (Inl e, w3)
                          | (Inr _, w3) \<Rightarrow>
                              (case observe env w3 of
                                 (Inl e, w4) \<Rightarrow> (Inl e, w4)
                               | (Inr seen, w4) \<Rightarrow>
                                   if \<not> firewallMatches seen (Some s) then (Inl NotVerified, w4)
                                   else case commit_state env s w4 of
                                     (Inl e, w5) \<Rightarrow> (Inl e, w5)
                                   | (Inr _, w5) \<Rightarrow> (Inr (), w5)))))))"

section \<open>Applying a policy\<close>

text \<open>The loop over the bindings: a binding that was protected before must be the same; a new one
  needs a running core.\<close>

fun check_retained :: "firewall_target list \<Rightarrow> bool \<Rightarrow> firewall_target list \<Rightarrow> (firewall_error, unit) res" where
  "check_retained old run [] = Inr ()"
| "check_retained old run (b # bs) =
     (case find (\<lambda>p. target_protocol p = target_protocol b \<and> target_port p = target_port b) old of
        Some p \<Rightarrow> if p \<noteq> b then Inl ListenerChanged else check_retained old run bs
      | None \<Rightarrow> if \<not> run then Inl CoreStopped else check_retained old run bs)"

text \<open>\<open>rollback\<close> of \<open>applyFirewall\<close>: \<open>old\<close> is put back in the kernel, verified and committed; when
  that fails the listeners are stopped.\<close>

definition restore_old ::
  "'k firewall_env \<Rightarrow> firewall_state option \<Rightarrow> firewall_state \<Rightarrow> 'k firewall_world \<Rightarrow>
     (firewall_error, unit) res \<times> 'k firewall_world" where
  "restore_old env old nxt w =
     (case observe env w of
        (Inl e, w1) \<Rightarrow> (Inl e, w1)
      | (Inr obs, w1) \<Rightarrow>
          (case checkFirewallOwnership obs (Some nxt) of
             Inl e \<Rightarrow> (Inl e, w1)
           | Inr _ \<Rightarrow>
               (case runFirewallBatch env old obs False w1 of
                  (Inl e, w2) \<Rightarrow> (Inl e, w2)
                | (Inr _, w2) \<Rightarrow>
                    (case observe env w2 of
                       (Inl e, w3) \<Rightarrow> (Inl e, w3)
                     | (Inr seen, w3) \<Rightarrow>
                         if \<not> firewallMatches seen old then (Inl NotVerified, w3)
                         else case (case old of None \<Rightarrow> (Inr (), w3) | Some s \<Rightarrow> saveCommitted s w3) of
                           (Inl e, w4) \<Rightarrow> (Inl e, w4)
                         | (Inr _, w4) \<Rightarrow> removeFirewallJournal w4))))"

definition firewall_rollback ::
  "'k firewall_env \<Rightarrow> firewall_state option \<Rightarrow> firewall_state \<Rightarrow> firewall_error \<Rightarrow> 'k firewall_world \<Rightarrow>
     (firewall_error, bool) res \<times> 'k firewall_world" where
  "firewall_rollback env old nxt cause w =
     (case restore_old env old nxt w of (re, w1) \<Rightarrow>
        let w2 = snd (firewallStatus env (w1\<lparr>firewallReady := is_ok re\<rparr>)) in
        if is_ok re then (Inl cause, w2) else (Inl RecoveryIncomplete, stop w2))"

definition execute_policy ::
  "'k firewall_env \<Rightarrow> firewall_state option \<Rightarrow> firewall_state \<Rightarrow> firewall_observed \<Rightarrow> 'k firewall_world \<Rightarrow>
     (firewall_error, bool) res \<times> 'k firewall_world" where
  "execute_policy env old nxt obs w =
     (case runFirewallBatch env (Some nxt) obs True w of
        (Inl e, w1) \<Rightarrow> (Inl e, w1)
      | (Inr _, w1) \<Rightarrow>
          (case savePending nxt w1 of
             (Inl e, w2) \<Rightarrow> firewallPersistenceFailure env w2
           | (Inr _, w2) \<Rightarrow>
               (case runFirewallBatch env (Some nxt) obs False w2 of
                  (Inl e, w3) \<Rightarrow> firewall_rollback env old nxt e w3
                | (Inr _, w3) \<Rightarrow>
                    (case observe env w3 of
                       (Inl e, w4) \<Rightarrow> firewall_rollback env old nxt e w4
                     | (Inr seen, w4) \<Rightarrow>
                         if \<not> firewallMatches seen (Some nxt) then firewall_rollback env old nxt NotVerified w4
                         else case saveCommitted nxt w4 of
                           (Inl e, w5) \<Rightarrow> if e = SyncFailed then firewallPersistenceFailure env w5
                             else firewall_rollback env old nxt e w5
                         | (Inr _, w5) \<Rightarrow>
                             (case removeFirewallJournal w5 of
                                (Inl e, w6) \<Rightarrow> firewallPersistenceFailure env w6
                              | (Inr _, w6) \<Rightarrow>
                                  (case firewallStatus env (w6\<lparr>firewallReady := True\<rparr>) of
                                     (applied, w7) \<Rightarrow> (Inr applied, w7)))))))"

text \<open>The decisions of \<open>applyFirewall\<close> before anything is changed: the policy to install.\<close>

text \<open>\<open>rand.Read\<close> fills a buffer of 32 bytes.\<close>

definition fill_token :: "bytes \<Rightarrow> bytes" where
  "fill_token t = take 32 (t @ replicate 32 0)"

definition plan_policy ::
  "'k firewall_env \<Rightarrow> 'k firewall_world \<Rightarrow> firewall_request \<Rightarrow>
     (firewall_error, firewall_state option \<times> firewall_state) res" where
  "plan_policy env w req =
     bind_res (decodeFirewall (netip_of env) req) (\<lambda>(rv, rules).
     bind_res (readFirewallState (netip_of env) w) (\<lambda>old.
     guard_res (case old of None \<Rightarrow> False | Some s \<Rightarrow> rv < st_revision s) Stale
     (guard_res (case old of None \<Rightarrow> False | Some s \<Rightarrow> rv = st_revision s \<and> rules \<noteq> st_rules s) Conflict
     (bind_res (if rules = [] then Inr [] else bind_res (xray_config env) (\<lambda>cfg. bind_rules env w cfg rules)) (\<lambda>bindings.
     bind_res (check_retained (case old of None \<Rightarrow> [] | Some s \<Rightarrow> st_bindings s) (running w) bindings) (\<lambda>_.
     bind_res (port_owner env rules (running w)) (\<lambda>_.
     bind_res (case old of Some s \<Rightarrow> Inr (st_owner s) | None \<Rightarrow>
        (case random_token env of None \<Rightarrow> Inl RandomFailed | Some t \<Rightarrow> Inr (hex_encode (fill_token t)))) (\<lambda>owner.
     Inr (old, \<lparr>st_version = 1, st_owner = owner, st_revision = rv, st_rules = rules, st_bindings = bindings\<rparr>)))))))))"

definition applyFirewall ::
  "'k firewall_env \<Rightarrow> firewall_request \<Rightarrow> 'k firewall_world \<Rightarrow> (firewall_error, bool) res \<times> 'k firewall_world" where
  "applyFirewall env req w =
     (case plan_policy env w req of
        Inl e \<Rightarrow> (Inl e, w)
      | Inr (old, nxt) \<Rightarrow>
          (case observe env w of
             (Inl e, w1) \<Rightarrow> (Inl e, w1)
           | (Inr obs, w1) \<Rightarrow>
               (case checkFirewallOwnership obs old of
                  Inl e \<Rightarrow> (Inl e, w1)
                | Inr _ \<Rightarrow>
                    (case old of
                       Some s \<Rightarrow> if st_revision nxt = st_revision s \<and> firewallMatches obs old
                         then commit_state env s w1 else execute_policy env old nxt obs w1
                     | None \<Rightarrow> execute_policy env old nxt obs w1))))"

definition firewallStartsListener :: "string \<Rightarrow> bool" where
  "firewallStartsListener action = (action \<in> set [''core.start'', ''core.restart'', ''core.config.apply'',
     ''core.config.restore'', ''core.users.sync'', ''mihomo.start'', ''mihomo.restart'', ''mihomo.config.apply'',
     ''mihomo.users.sync'', ''network.forward.apply''])"

section \<open>Changing the management port\<close>

definition protects :: "firewall_state option \<Rightarrow> int \<Rightarrow> bool" where
  "protects st port = (case st of None \<Rightarrow> False | Some s \<Rightarrow> list_ex (\<lambda>r. rule_port r = port) (st_rules s))"

text \<open>\<open>persisted\<close> is whether the caller's \<open>persist\<close> succeeded; \<open>listen_port\<close> is \<open>managementPort\<close> of the
  listen address in use.\<close>

definition UpdateConnection ::
  "netip \<Rightarrow> string \<Rightarrow> bool \<Rightarrow> 'k firewall_world \<Rightarrow> (firewall_error, unit) res \<times> 'k firewall_world" where
  "UpdateConnection net listen persisted w =
     (case SplitHostPort listen of
        None \<Rightarrow> (Inl BadListen, w)
      | Some (host, text) \<Rightarrow>
          let (p, parsed) = Atoi text in
          if \<not> parsed \<or> p < 1 \<or> p > 65535 then (Inl BadListen, w)
          else case readFirewallFile net (committed w) of
            Inl e \<Rightarrow> (Inl e, w)
          | Inr c \<Rightarrow>
              if protects c p then (Inl PortProtected, w)
              else case readFirewallFile net (pending w) of
                Inl e \<Rightarrow> (Inl e, w)
              | Inr j \<Rightarrow>
                  if protects j p then (Inl PortProtected, w)
                  else if \<not> persisted then (Inl WriteFailed, w)
                  else (Inr (), w\<lparr>managementPorts := insert p (insert (listen_port w) (managementPorts w)),
                    listen_port := managementPort listen\<rparr>))"

section \<open>Frames\<close>

text \<open>Everything of a world but the list of faults.\<close>

definition core :: "'k firewall_world \<Rightarrow> 'k \<times> firewall_file \<times> firewall_file \<times> bool \<times> bool \<times> int \<times> int set" where
  "core w = (kernel w, committed w, pending w, firewallReady w, running w, listen_port w, managementPorts w)"

definition view :: "'k firewall_env \<Rightarrow> 'k \<Rightarrow> (firewall_error, firewall_observed) res" where
  "view env k = observeFirewall (netip_of env) (Some (nft_tables env k)) (Some (nft_table env k))"

definition shows_policy :: "'k firewall_env \<Rightarrow> 'k \<Rightarrow> firewall_state option \<Rightarrow> bool" where
  "shows_policy env k st \<longleftrightarrow> (\<exists>obs. view env k = Inr obs \<and> firewallMatches obs st)"

lemma core_faults [simp]: "core (w\<lparr>fw_faults := fs\<rparr>) = core w"
  by (simp add: core_def)

lemma fault_eq:
  assumes "fault w = (f, w')"
  obtains fs where "w' = w\<lparr>fw_faults := fs\<rparr>"
proof (cases "fw_faults w")
  case Nil
  then have "w' = w\<lparr>fw_faults := fw_faults w\<rparr>" using assms by (simp add: fault_def)
  then show thesis by (rule that)
next
  case (Cons g fs)
  then have "w' = w\<lparr>fw_faults := fs\<rparr>" using assms by (simp add: fault_def)
  then show thesis by (rule that)
qed

lemma fault_core: "fault w = (f, w') \<Longrightarrow> core w' = core w"
  by (erule fault_eq) simp

lemma core_eqD:
  assumes "core w' = core w"
  shows "kernel w' = kernel w" "committed w' = committed w" "pending w' = pending w"
    "firewallReady w' = firewallReady w" "running w' = running w" "listen_port w' = listen_port w"
    "managementPorts w' = managementPorts w"
  using assms by (simp_all add: core_def)

lemma observe_core:
  assumes "observe env w = (r, w')"
  shows "core w' = core w" and "r = Inr obs \<Longrightarrow> view env (kernel w) = Inr obs"
proof -
  obtain f w1 where f: "fault w = (f, w1)" by fastforce
  note same = core_eqD [OF fault_core [OF f]] fault_core [OF f]
  show "core w' = core w" and "r = Inr obs \<Longrightarrow> view env (kernel w) = Inr obs"
    using assms f same by (auto simp: observe_def view_def split: if_splits)
qed

lemma save_core:
  assumes "save_with put s w = (r, w')" and "\<And>v fs. put s (v\<lparr>fw_faults := fs\<rparr>) = (put s v)\<lparr>fw_faults := fs\<rparr>"
  shows "core w' = core w \<and> r = Inl WriteFailed \<or> core w' = core (put s w) \<and> (r = Inr () \<or> r = Inl SyncFailed)"
proof -
  obtain f w1 where f: "fault w = (f, w1)" by fastforce
  then obtain fs where w1: "w1 = w\<lparr>fw_faults := fs\<rparr>" by (rule fault_eq)
  obtain g w2 where g: "fault (put s w1) = (g, w2)" by fastforce
  then have "core w2 = core (put s w)" using fault_core [OF g] by (simp add: w1 assms(2))
  then show ?thesis
    using assms(1) f g by (auto simp: save_with_def w1 split: if_splits)
qed

lemma saveCommitted_core:
  assumes "saveCommitted s w = (r, w')"
  shows "core w' = core w \<and> r = Inl WriteFailed \<or>
    core w' = core (w\<lparr>committed := Saved s\<rparr>) \<and> (r = Inr () \<or> r = Inl SyncFailed)"
  using assms unfolding saveCommitted_def by (rule save_core) (simp_all add: core_def)

lemma savePending_core:
  assumes "savePending s w = (r, w')"
  shows "core w' = core w \<and> r = Inl WriteFailed \<or>
    core w' = core (w\<lparr>pending := Saved s\<rparr>) \<and> (r = Inr () \<or> r = Inl SyncFailed)"
  using assms unfolding savePending_def by (rule save_core) (simp_all add: core_def)

lemma removeFirewallJournal_core:
  assumes "removeFirewallJournal w = (r, w')"
  shows "core w' = core w \<and> r \<noteq> Inr () \<or> core w' = core (w\<lparr>pending := Absent\<rparr>)"
proof (cases "pending w = Absent")
  case True
  then show ?thesis using assms by (simp add: removeFirewallJournal_def core_def)
next
  case False
  obtain f w1 where f: "fault w = (f, w1)" by fastforce
  then obtain fs where w1: "w1 = w\<lparr>fw_faults := fs\<rparr>" by (rule fault_eq)
  obtain g w2 where g: "fault w1 = (g, w2)" by fastforce
  then obtain gs where w2: "w2 = w\<lparr>fw_faults := gs\<rparr>" using w1 by (auto elim: fault_eq)
  obtain h w3 where h: "fault (w2\<lparr>pending := Absent\<rparr>) = (h, w3)" by fastforce
  then obtain hs where w3: "w3 = w\<lparr>pending := Absent, fw_faults := hs\<rparr>" using w2 by (auto elim: fault_eq)
  obtain i w4 where i: "fault w3 = (i, w4)" by fastforce
  then obtain js where w4: "w4 = w\<lparr>pending := Absent, fw_faults := js\<rparr>" using w3 by (auto elim: fault_eq)
  have "(r, w') = (if f then (Inl ReadFailed, w1) else if g then (Inl WriteFailed, w2) else if \<not> h then (Inr (), w3)
      else if i then (Inl SyncFailed, w4) else (Inl SyncFailed, w4\<lparr>pending := pending w\<rparr>))"
    using assms False f g h i by (simp add: removeFirewallJournal_def split: if_splits)
  then show ?thesis
    by (cases f; cases g; cases h; cases i) (simp_all add: w1 w2 w3 w4 core_def)
qed

lemma runFirewallBatch_core:
  assumes "runFirewallBatch env st obs check w = (r, w')"
  shows "\<exists>k. core w' = core (w\<lparr>kernel := k\<rparr>) \<and> (check \<longrightarrow> k = kernel w)"
proof (cases "\<not> obs_exists obs \<and> (case st of None \<Rightarrow> True | Some s \<Rightarrow> st_rules s = [])")
  case True
  then show ?thesis
    using assms by (auto simp: runFirewallBatch_def core_def)
next
  case False
  obtain f w1 where f: "fault w = (f, w1)" by fastforce
  note same = fault_core [OF f]
  show ?thesis
  proof (cases "f \<or> nft_run env (firewallBatch (netip_of env) st (obs_exists obs)) (kernel w1) = None")
    case True
    then have "w' = w1" using assms f False unfolding runFirewallBatch_def by (auto split: if_splits)
    then show ?thesis using same by (auto simp: core_def)
  next
    case good: False
    then obtain k where k: "nft_run env (firewallBatch (netip_of env) st (obs_exists obs)) (kernel w1) = Some k" by auto
    obtain g w2 where g: "fault (if check then w1 else w1\<lparr>kernel := k\<rparr>) = (g, w2)" by fastforce
    then have "w' = w2"
      using assms f k good False unfolding runFirewallBatch_def by (auto split: if_splits)
    then show ?thesis
      using fault_core [OF g] same by (auto simp: core_def split: if_splits)
  qed
qed

lemma observe_eq:
  assumes "observe env w = (r, w')"
  obtains fs where "w' = w\<lparr>fw_faults := fs\<rparr>"
proof -
  obtain f w1 where f: "fault w = (f, w1)" by fastforce
  then have "w' = w1" using assms by (auto simp: observe_def split: if_splits)
  with f show thesis using that by (auto elim: fault_eq)
qed

lemma firewallStatus_eq:
  assumes "firewallStatus env w = (applied, w')"
  obtains b fs where "w' = w\<lparr>firewallReady := b, fw_faults := fs\<rparr>" "b = firewallReady w \<or> \<not> b"
proof (cases "readFirewallState (netip_of env) w")
  case (Inl e)
  then have "w' = w\<lparr>firewallReady := firewallReady w, fw_faults := fw_faults w\<rparr>"
    using assms by (simp add: firewallStatus_def)
  then show thesis by (rule that) simp
next
  case (Inr st)
  define rw where "rw = (if \<not> nft_supported env then (False, w)
      else case observe env w of (Inl e, w1) \<Rightarrow> (False, w1)
        | (Inr obs, w1) \<Rightarrow> (is_ok (checkFirewallOwnership obs st) \<and> firewallMatches obs st, w1))"
  obtain r w1 where o: "observe env w = (r, w1)" by fastforce
  obtain fs where w1: "w1 = w\<lparr>fw_faults := fs\<rparr>" using o by (rule observe_eq)
  have "snd rw = w \<or> snd rw = w1"
    by (cases r) (simp_all add: rw_def o)
  then obtain gs where rw: "snd rw = w\<lparr>fw_faults := gs\<rparr>"
    using w1 that by (metis firewall_world.surjective firewall_world.update_convs(8))
  have "(applied, w') = (fst rw, if \<not> fst rw \<and> st \<noteq> None then (snd rw)\<lparr>firewallReady := False\<rparr> else snd rw)"
    using assms [unfolded firewallStatus_def Inr sum.case, folded rw_def]
    by (cases rw) (auto simp: Let_def)
  then have "w' = w\<lparr>firewallReady := False, fw_faults := gs\<rparr> \<or>
      w' = w\<lparr>firewallReady := firewallReady w, fw_faults := gs\<rparr>"
    by (simp add: rw split: if_splits)
  then show thesis using that by blast
qed

lemma persistence_failure_core:
  assumes "firewallPersistenceFailure env w = (r, w')"
  shows "r = Inl PersistenceFailed \<and> \<not> firewallReady w' \<and> \<not> running w' \<and>
    kernel w' = kernel w \<and> committed w' = committed w \<and> pending w' = pending w \<and>
    listen_port w' = listen_port w \<and> managementPorts w' = managementPorts w"
proof -
  obtain a v where st: "firewallStatus env (stop (w\<lparr>firewallReady := False\<rparr>)) = (a, v)" by fastforce
  then obtain b fs where "v = (stop (w\<lparr>firewallReady := False\<rparr>))\<lparr>firewallReady := b, fw_faults := fs\<rparr>" "\<not> b"
    by (rule firewallStatus_eq) (auto simp: stop_def split: if_splits)
  then show ?thesis
    using assms st by (auto simp: firewallPersistenceFailure_def stop_def)
qed

section \<open>Outcomes of a transaction\<close>

text \<open>
  The parts of a world a transaction may touch: \<open>restored\<close> describes the files after a complete
  return to the old policy, \<open>file_change\<close> all that may happen to the files on the way.
\<close>

definition ports :: "'k firewall_world \<Rightarrow> int \<times> int set" where
  "ports w = (listen_port w, managementPorts w)"

fun restored :: "firewall_state option \<Rightarrow> firewall_file \<Rightarrow> firewall_file \<Rightarrow> bool" where
  "restored None c0 c \<longleftrightarrow> c = c0"
| "restored (Some s) c0 c \<longleftrightarrow> c = Saved s"

definition file_change ::
  "firewall_state option \<Rightarrow> firewall_state \<Rightarrow> 'k firewall_world \<Rightarrow> 'k firewall_world \<Rightarrow> bool" where
  "file_change old nxt w w' \<longleftrightarrow> ports w' = ports w \<and>
     (committed w' = committed w \<or> committed w' = Saved nxt \<or> restored old (committed w) (committed w')) \<and>
     (pending w' = pending w \<or> pending w' = Saved nxt \<or>
      pending w' = Absent \<and> (committed w' = Saved nxt \<or> restored old (committed w) (committed w')))"

lemma core_ports: "core w' = core w \<Longrightarrow> ports w' = ports w"
  by (simp add: core_def ports_def)

lemma restore_old_spec:
  assumes "restore_old env old nxt w = (r, w')"
  shows "ports w' = ports w \<and> running w' = running w \<and>
    (committed w' = committed w \<or> restored old (committed w) (committed w')) \<and>
    (pending w' = pending w \<or> pending w' = Absent \<and> restored old (committed w) (committed w')) \<and>
    (r = Inr () \<longrightarrow> pending w' = Absent \<and> restored old (committed w) (committed w') \<and> shows_policy env (kernel w') old)"
proof -
  obtain r1 w1 where o1: "observe env w = (r1, w1)" by fastforce
  note c1 = core_eqD [OF observe_core(1) [OF o1]]
  show ?thesis
  proof (cases "\<exists>obs. r1 = Inr obs \<and> checkFirewallOwnership obs (Some nxt) = Inr ()")
    case False
    then have "w' = w1" "r \<noteq> Inr ()" using assms o1
      by (auto simp: restore_old_def split: sum.splits)
    then show ?thesis using c1 by (simp add: ports_def)
  next
    case True
    then obtain obs where obs: "r1 = Inr obs" "checkFirewallOwnership obs (Some nxt) = Inr ()" by blast
    obtain r2 w2 where b2: "runFirewallBatch env old obs False w1 = (r2, w2)" by fastforce
    obtain k where "core w2 = core (w1\<lparr>kernel := k\<rparr>)" using runFirewallBatch_core [OF b2] by blast
    then have c2: "ports w2 = ports w" "running w2 = running w" "committed w2 = committed w" "pending w2 = pending w"
      using c1 by (simp_all add: core_def ports_def)
    obtain r3 w3 where o3: "observe env w2 = (r3, w3)" by fastforce
    note c3 = core_eqD [OF observe_core(1) [OF o3]]
    show ?thesis
    proof (cases "r2 = Inr () \<and> (\<exists>seen. r3 = Inr seen \<and> firewallMatches seen old)")
      case False
      then have "(w' = w2 \<or> w' = w3) \<and> r \<noteq> Inr ()" using assms o1 obs b2 o3
        by (auto simp: restore_old_def split: sum.splits if_splits)
      then show ?thesis using c2 c3 by (auto simp: ports_def)
    next
      case True
      then have shown: "shows_policy env (kernel w3) old"
        using observe_core(2) [OF o3] c3(1) by (auto simp: shows_policy_def)
      obtain r4 w4 where s4: "(case old of None \<Rightarrow> (Inr (), w3) | Some s \<Rightarrow> saveCommitted s w3) = (r4, w4)" by fastforce
      have c4: "ports w4 = ports w" "running w4 = running w" "pending w4 = pending w" "kernel w4 = kernel w3"
        "committed w4 = committed w \<or> restored old (committed w) (committed w4)"
        "r4 = Inr () \<longrightarrow> restored old (committed w) (committed w4)"
        using s4 c2 c3 saveCommitted_core [of _ w3 r4 w4]
        by (cases old; auto simp: core_def ports_def)+
      obtain r5 w5 where r5: "removeFirewallJournal w4 = (r5, w5)" by fastforce
      have c5: "ports w5 = ports w" "running w5 = running w" "kernel w5 = kernel w3" "committed w5 = committed w4"
        "pending w5 = pending w \<or> pending w5 = Absent" "r5 = Inr () \<longrightarrow> pending w5 = Absent"
        using removeFirewallJournal_core [OF r5] c4(1-4) by (auto simp: core_def ports_def)
      have "(r, w') = (case r4 of Inl e \<Rightarrow> (Inl e, w4) | Inr _ \<Rightarrow> (r5, w5))"
        using assms o1 obs b2 o3 True s4 r5 by (auto simp: restore_old_def split: sum.splits)
      then show ?thesis
        using c4 c5 shown by (cases r4) auto
    qed
  qed
qed

definition blocked :: "'k firewall_world \<Rightarrow> bool" where
  "blocked w \<longleftrightarrow> \<not> firewallReady w \<and> \<not> running w"

definition recovered ::
  "'k firewall_env \<Rightarrow> firewall_state option \<Rightarrow> 'k firewall_world \<Rightarrow> 'k firewall_world \<Rightarrow> bool" where
  "recovered env old w w' \<longleftrightarrow> pending w' = Absent \<and> restored old (committed w) (committed w') \<and>
     shows_policy env (kernel w') old \<and> running w' = running w"

lemma firewall_rollback_spec:
  assumes "firewall_rollback env old nxt cause w = (r, w')"
  shows "ports w' = ports w \<and> (committed w' = committed w \<or> restored old (committed w) (committed w')) \<and>
    (pending w' = pending w \<or> pending w' = Absent \<and> restored old (committed w) (committed w')) \<and>
    r \<noteq> Inr b \<and> (recovered env old w w' \<or> blocked w')"
proof -
  obtain re w1 where re: "restore_old env old nxt w = (re, w1)" by fastforce
  note spec = restore_old_spec [OF re]
  obtain a w2 where st: "firewallStatus env (w1\<lparr>firewallReady := is_ok re\<rparr>) = (a, w2)" by fastforce
  then obtain rd fs where w2: "w2 = w1\<lparr>firewallReady := rd, fw_faults := fs\<rparr>" "rd \<longrightarrow> is_ok re"
    by (rule firewallStatus_eq) auto
  show ?thesis
  proof (cases re)
    case (Inl e)
    then have "w' = stop w2" "r = Inl RecoveryIncomplete" "\<not> rd"
      using assms re st w2 by (simp_all add: firewall_rollback_def)
    then show ?thesis
      using spec w2 by (auto simp: stop_def ports_def blocked_def)
  next
    case (Inr u)
    then have "w' = w2" "r = Inl cause"
      using assms re st by (simp_all add: firewall_rollback_def)
    then show ?thesis
      using spec w2 Inr by (auto simp: ports_def recovered_def)
  qed
qed

lemma commit_state_spec:
  assumes "commit_state env s w = (r, w')"
  shows "ports w' = ports w \<and> (committed w' = committed w \<or> committed w' = Saved s) \<and>
    (pending w' = pending w \<or> pending w' = Absent \<and> committed w' = Saved s) \<and> kernel w' = kernel w \<and>
    (case r of Inl e \<Rightarrow> blocked w' | Inr b \<Rightarrow> committed w' = Saved s \<and> pending w' = Absent \<and> running w' = running w)"
proof -
  obtain r1 w1 where s1: "saveCommitted s w = (r1, w1)" by fastforce
  have c1: "ports w1 = ports w" "pending w1 = pending w" "kernel w1 = kernel w" "running w1 = running w"
    "committed w1 = committed w \<or> committed w1 = Saved s" "r1 = Inr () \<longrightarrow> committed w1 = Saved s"
    using saveCommitted_core [OF s1] by (auto simp: core_def ports_def)
  obtain q1 v1 where p1: "firewallPersistenceFailure env w1 = (q1, v1)" by fastforce
  note f1 = persistence_failure_core [OF p1]
  obtain r2 w2 where s2: "removeFirewallJournal w1 = (r2, w2)" by fastforce
  have c2: "ports w2 = ports w" "kernel w2 = kernel w" "running w2 = running w" "committed w2 = committed w1"
    "pending w2 = pending w \<or> pending w2 = Absent" "r2 = Inr () \<longrightarrow> pending w2 = Absent"
    using removeFirewallJournal_core [OF s2] c1(1-4) by (auto simp: core_def ports_def)
  obtain q2 v2 where p2: "firewallPersistenceFailure env w2 = (q2, v2)" by fastforce
  note f2 = persistence_failure_core [OF p2]
  obtain a w3 where st: "firewallStatus env (w2\<lparr>firewallReady := True\<rparr>) = (a, w3)" by fastforce
  then obtain rd fs where w3: "w3 = w2\<lparr>firewallReady := rd, fw_faults := fs\<rparr>"
    by (rule firewallStatus_eq) auto
  have "(r, w') = (case r1 of Inl e \<Rightarrow> (q1, v1) | Inr _ \<Rightarrow> (case r2 of Inl e \<Rightarrow> (q2, v2) | Inr _ \<Rightarrow> (Inr a, w3)))"
    using assms s1 p1 s2 p2 st by (simp add: commit_state_def split: sum.splits)
  then show ?thesis
    using c1 c2 f1 f2 w3
    by (cases r1; cases r2) (auto simp: blocked_def ports_def)
qed

lemma execute_policy_spec:
  assumes "execute_policy env old nxt obs w = (r, w')"
  shows "file_change old nxt w w' \<and>
    (case r of Inl e \<Rightarrow> core w' = core w \<or> recovered env old w w' \<or> blocked w'
     | Inr b \<Rightarrow> committed w' = Saved nxt \<and> pending w' = Absent \<and> shows_policy env (kernel w') (Some nxt) \<and>
         running w' = running w)"
proof -
  obtain r1 w1 where b1: "runFirewallBatch env (Some nxt) obs True w = (r1, w1)" by fastforce
  have c1: "core w1 = core w" using runFirewallBatch_core [OF b1] by (auto simp: core_def)
  obtain r2 w2 where s2: "savePending nxt w1 = (r2, w2)" by fastforce
  have c2: "ports w2 = ports w" "running w2 = running w" "committed w2 = committed w" "kernel w2 = kernel w"
    "pending w2 = pending w \<or> pending w2 = Saved nxt" "r2 = Inr () \<longrightarrow> pending w2 = Saved nxt"
    using savePending_core [OF s2] c1 by (auto simp: core_def ports_def)
  obtain q2 v2 where p2: "firewallPersistenceFailure env w2 = (q2, v2)" by fastforce
  note f2 = persistence_failure_core [OF p2]
  obtain r3 w3 where b3: "runFirewallBatch env (Some nxt) obs False w2 = (r3, w3)" by fastforce
  have c3: "ports w3 = ports w" "running w3 = running w" "committed w3 = committed w" "pending w3 = pending w2"
    using runFirewallBatch_core [OF b3] c2(1-3) by (auto simp: core_def ports_def)
  obtain r4 w4 where o4: "observe env w3 = (r4, w4)" by fastforce
  note e4 = core_eqD [OF observe_core(1) [OF o4]]
  have c4: "ports w4 = ports w" "running w4 = running w" "committed w4 = committed w" "pending w4 = pending w2"
    using c3 e4 by (simp_all add: ports_def)
  obtain r5 w5 where s5: "saveCommitted nxt w4 = (r5, w5)" by fastforce
  have c5: "ports w5 = ports w" "running w5 = running w" "pending w5 = pending w2" "kernel w5 = kernel w4"
    "committed w5 = committed w \<or> committed w5 = Saved nxt" "r5 = Inr () \<longrightarrow> committed w5 = Saved nxt"
    "r5 = Inl e \<Longrightarrow> e \<noteq> SyncFailed \<Longrightarrow> committed w5 = committed w" for e
    using saveCommitted_core [OF s5] c4 by (auto simp: core_def ports_def)
  obtain q5 v5 where p5: "firewallPersistenceFailure env w5 = (q5, v5)" by fastforce
  note f5 = persistence_failure_core [OF p5]
  obtain r6 w6 where s6: "removeFirewallJournal w5 = (r6, w6)" by fastforce
  have c6: "ports w6 = ports w" "kernel w6 = kernel w4" "running w6 = running w" "committed w6 = committed w5"
    "pending w6 = pending w2 \<or> pending w6 = Absent" "r6 = Inr () \<longrightarrow> pending w6 = Absent"
    using removeFirewallJournal_core [OF s6] c5(1-4) by (auto simp: core_def ports_def)
  obtain q6 v6 where p6: "firewallPersistenceFailure env w6 = (q6, v6)" by fastforce
  note f6 = persistence_failure_core [OF p6]
  obtain a w7 where st: "firewallStatus env (w6\<lparr>firewallReady := True\<rparr>) = (a, w7)" by fastforce
  then obtain rd fs where w7: "w7 = w6\<lparr>firewallReady := rd, fw_faults := fs\<rparr>"
    by (rule firewallStatus_eq) auto
  have rb: "file_change old nxt w w' \<and> (\<exists>e. r = Inl e) \<and> (recovered env old w w' \<or> blocked w')"
    if roll: "firewall_rollback env old nxt cause v = (r, w')" and v: "ports v = ports w" "running v = running w"
      "committed v = committed w" "pending v = Saved nxt" for cause v
    using firewall_rollback_spec [OF roll] v by (cases r) (auto simp: file_change_def recovered_def)
  show ?thesis
  proof (cases "r1 = Inr () \<and> r2 = Inr ()")
    case False
    then have "(r, w') = (q2, v2) \<or> (\<exists>e. r = Inl e) \<and> w' = w1"
      using assms b1 s2 p2 by (auto simp: execute_policy_def split: sum.splits)
    then show ?thesis
      using c1 c2 f2 core_eqD [OF c1] by (auto simp: file_change_def ports_def blocked_def)
  next
    case planned: True
    then have pend: "pending w2 = Saved nxt" using c2(6) by simp
    show ?thesis
    proof (cases "r3 = Inr () \<and> (\<exists>seen. r4 = Inr seen \<and> firewallMatches seen (Some nxt))")
      case False
      then have "(\<exists>cause. firewall_rollback env old nxt cause w3 = (r, w')) \<or>
          (\<exists>cause. firewall_rollback env old nxt cause w4 = (r, w'))"
        using assms planned b1 s2 b3 o4 by (auto simp: execute_policy_def split: sum.splits if_splits)
      then have "file_change old nxt w w' \<and> (\<exists>e. r = Inl e) \<and> (recovered env old w w' \<or> blocked w')"
        using rb c3 c4 pend by metis
      then show ?thesis by auto
    next
      case True
      then have shown: "shows_policy env (kernel w4) (Some nxt)"
        using observe_core(2) [OF o4] e4(1) by (auto simp: shows_policy_def)
      show ?thesis
      proof (cases r5)
        case (Inl e)
        show ?thesis
        proof (cases "e = SyncFailed")
          case True
          then have "(r, w') = (q5, v5)"
            using assms planned \<open>r3 = Inr () \<and> _\<close> Inl b1 s2 b3 o4 s5 p5 by (auto simp: execute_policy_def)
          then show ?thesis
            using f5 c5 pend by (auto simp: file_change_def ports_def blocked_def)
        next
          case False
          then have "firewall_rollback env old nxt e w5 = (r, w')"
            using assms planned \<open>r3 = Inr () \<and> _\<close> Inl b1 s2 b3 o4 s5 by (auto simp: execute_policy_def)
          then have "file_change old nxt w w' \<and> (\<exists>e. r = Inl e) \<and> (recovered env old w w' \<or> blocked w')"
            using rb c5(1-3) c5(7) [OF Inl False] pend by metis
          then show ?thesis by auto
        qed
      next
        case (Inr u)
        then have "(r, w') = (case r6 of Inl e \<Rightarrow> (q6, v6) | Inr _ \<Rightarrow> (Inr a, w7))"
          using assms planned \<open>r3 = Inr () \<and> _\<close> b1 s2 b3 o4 s5 s6 p6 st
          by (auto simp: execute_policy_def split: sum.splits)
        then show ?thesis
          using Inr f6 c5 c6 w7 pend shown
          by (cases r6) (auto simp: file_change_def ports_def blocked_def)
      qed
    qed
  qed
qed

section \<open>Readable policies\<close>

definition state_ok :: "netip \<Rightarrow> firewall_state \<Rightarrow> bool" where
  "state_ok net s \<longleftrightarrow> readFirewallFile net (Saved s) = Inr (Some s)"

fun file_ok :: "netip \<Rightarrow> int set \<Rightarrow> firewall_file \<Rightarrow> bool" where
  "file_ok net P Absent = True"
| "file_ok net P Broken = False"
| "file_ok net P (Saved s) = (state_ok net s \<and> (\<forall>r \<in> set (st_rules s). rule_port r \<notin> P))"

definition firewall_inv :: "netip \<Rightarrow> 'k firewall_world \<Rightarrow> bool" where
  "firewall_inv net w \<longleftrightarrow> file_ok net (reserved w) (committed w) \<and> file_ok net (reserved w) (pending w)"

fun file_state :: "firewall_file \<Rightarrow> firewall_state option" where
  "file_state (Saved s) = Some s"
| "file_state _ = None"

definition intent :: "'k firewall_world \<Rightarrow> firewall_state option" where
  "intent w = (case file_state (pending w) of Some s \<Rightarrow> Some s | None \<Rightarrow> file_state (committed w))"

definition intent_revision :: "'k firewall_world \<Rightarrow> nat" where
  "intent_revision w = (case intent w of None \<Rightarrow> 0 | Some s \<Rightarrow> st_revision s)"

lemma read_file_ok: "file_ok net P f \<Longrightarrow> readFirewallFile net f = Inr (file_state f)"
  by (cases f) (simp_all add: state_ok_def readFirewallFile_def)

lemma read_state_ok: "firewall_inv net w \<Longrightarrow> readFirewallState net w = Inr (intent w)"
  by (auto simp: firewall_inv_def readFirewallState_def read_file_ok intent_def split: option.splits)

lemma reserved_ports: "reserved w = (case ports w of (l, m) \<Rightarrow> insert l m)"
  by (simp add: reserved_def ports_def)

lemma hex_token_ok: "hex_decode (hex_encode bs) = Some bs"
  using hex.dec_enc by simp

lemma fill_token_length: "length (fill_token t) = 32"
  by (simp add: fill_token_def)

lemma plan_policy_ok:
  assumes net: "netip_ok net" "netip_of env = net" and inv: "firewall_inv net w"
    and plan: "plan_policy env w req = Inr (old, nxt)"
  shows "old = intent w \<and> file_ok net (reserved w) (Saved nxt) \<and>
    decodeFirewall net req = Inr (st_revision nxt, st_rules nxt) \<and>
    (\<forall>s. old = Some s \<longrightarrow> st_revision s \<le> st_revision nxt \<and>
      (st_revision s = st_revision nxt \<longrightarrow> st_rules s = st_rules nxt) \<and> st_owner nxt = st_owner s)"
proof -
  obtain rv rules bindings owner where p: "decodeFirewall net req = Inr (rv, rules)" "old = intent w"
    "\<forall>s. old = Some s \<longrightarrow> st_revision s \<le> rv \<and> (st_revision s = rv \<longrightarrow> st_rules s = rules)"
    "(if rules = [] then Inr [] else bind_res (xray_config env) (\<lambda>cfg. bind_rules env w cfg rules)) = Inr bindings"
    "(case old of Some s \<Rightarrow> Inr (st_owner s) | None \<Rightarrow>
        (case random_token env of None \<Rightarrow> Inl RandomFailed | Some t \<Rightarrow> Inr (hex_encode (fill_token t)))) = Inr owner"
    "nxt = \<lparr>st_version = 1, st_owner = owner, st_revision = rv, st_rules = rules, st_bindings = bindings\<rparr>"
    using plan read_state_ok [OF inv] net(2)
    by (auto simp: plan_policy_def bind_res_Inr split: option.splits)
  have b: "length bindings = length rules \<and> (\<forall>r \<in> set rules. rule_port r \<notin> reserved w)"
  proof (cases "rules = []")
    case True
    then show ?thesis using p(4) by simp
  next
    case False
    then obtain cfg where cfg: "bind_rules env w cfg rules = Inr bindings"
      using p(4) by (auto simp: bind_res_Inr)
    note spec = firewallBindings_spec [OF cfg [unfolded bind_rules_def]]
    have "rule_port r \<notin> reserved w" if "r \<in> set rules" for r
    proof -
      have "rule_key r \<in> set (map (\<lambda>b. (target_protocol b, target_port b)) bindings)"
        using that spec by (metis image_eqI set_map)
      then obtain b where "b \<in> set bindings" "target_port b = rule_port r"
        by (auto simp: rule_key_def)
      then show ?thesis using spec firewallTargets_spec by fastforce
    qed
    then show ?thesis using spec by (metis length_map)
  qed
  have o: "\<exists>b. hex_decode owner = Some b \<and> length b = 32" "\<forall>s. old = Some s \<longrightarrow> owner = st_owner s"
  proof -
    show "\<exists>b. hex_decode owner = Some b \<and> length b = 32"
    proof (cases old)
      case None
      then show ?thesis using p(5) fill_token_length hex_token_ok by (auto split: option.splits)
    next
      case (Some s)
      have "state_ok net s"
        using Some p(2) inv by (cases "pending w"; cases "committed w") (auto simp: intent_def firewall_inv_def)
      then show ?thesis
        using Some p(5) by (auto simp: state_ok_def readFirewallFile_def split: option.splits if_splits)
    qed
    show "\<forall>s. old = Some s \<longrightarrow> owner = st_owner s" using p(5) by auto
  qed
  note canon = decodeFirewall_canonical [OF net(1) p(1)]
  have "decodeFirewall net \<lparr>req_revision = rv, req_rules = Some rules\<rparr> = Inr (rv, rules)"
    using canon by (intro decodeFirewall_fixed) auto
  then have "state_ok net nxt"
    using o(1) b by (auto simp: state_ok_def readFirewallFile_def p(6))
  then show ?thesis
    using p b o(2) by auto
qed

lemma applyFirewall_cases:
  assumes "applyFirewall env req w = (r, w')"
  obtains (refused) e where "r = Inl e" "core w' = core w"
  | (again) old nxt w1 where "plan_policy env w req = Inr (Some old, nxt)" "core w1 = core w"
      "shows_policy env (kernel w) (Some old)" "st_revision nxt = st_revision old" "commit_state env old w1 = (r, w')"
  | (changed) old nxt obs w1 where "plan_policy env w req = Inr (old, nxt)" "core w1 = core w"
      "execute_policy env old nxt obs w1 = (r, w')"
proof (cases "plan_policy env w req")
  case (Inl e)
  then show thesis using assms refused by (auto simp: applyFirewall_def)
next
  case (Inr on)
  obtain old nxt where on: "on = (old, nxt)" by fastforce
  obtain r1 w1 where o: "observe env w = (r1, w1)" by fastforce
  note c = observe_core(1) [OF o]
  show thesis
  proof (cases "\<exists>obs. r1 = Inr obs \<and> checkFirewallOwnership obs old = Inr ()")
    case False
    then have "\<exists>e. r = Inl e" "w' = w1"
      using assms Inr on o by (auto simp: applyFirewall_def split: sum.splits)
    then show thesis using refused c by blast
  next
    case True
    then obtain obs where obs: "r1 = Inr obs" "checkFirewallOwnership obs old = Inr ()" by blast
    then have v: "view env (kernel w) = Inr obs" using observe_core(2) [OF o] by blast
    show thesis
    proof (cases "\<exists>s. old = Some s \<and> st_revision nxt = st_revision s \<and> firewallMatches obs old")
      case True
      then obtain s where s: "old = Some s" "st_revision nxt = st_revision s" "firewallMatches obs (Some s)" by auto
      then have "commit_state env s w1 = (r, w')"
        using assms Inr on o obs by (simp add: applyFirewall_def)
      then show thesis
        using again [of s nxt w1] Inr on s v c by (auto simp: shows_policy_def)
    next
      case False
      then have "execute_policy env old nxt obs w1 = (r, w')"
        using assms Inr on o obs by (auto simp: applyFirewall_def split: option.splits if_splits)
      then show thesis using changed [of old nxt w1 obs] Inr on c by auto
    qed
  qed
qed

lemma firewall_inv_core: "core w' = core w \<Longrightarrow> firewall_inv net w' = firewall_inv net w \<and> intent w' = intent w"
  by (simp add: core_def firewall_inv_def reserved_def intent_def split: option.splits)

lemma same_files_inv:
  assumes "committed w' = committed w" "pending w' = pending w" "ports w' = ports w"
  shows "firewall_inv net w' = firewall_inv net w" "intent w' = intent w"
  using assms by (simp_all add: firewall_inv_def reserved_ports intent_def split: option.splits)

lemma intent_ok: "firewall_inv net w \<Longrightarrow> intent w = Some s \<Longrightarrow> file_ok net (reserved w) (Saved s)"
  by (cases "pending w"; cases "committed w") (auto simp: intent_def firewall_inv_def)

lemma file_change_inv:
  assumes inv: "firewall_inv net w" and nxt: "file_ok net (reserved w) (Saved nxt)" and fc: "file_change (intent w) nxt w w'"
    and le: "\<And>s. intent w = Some s \<Longrightarrow> st_revision s \<le> st_revision nxt"
  shows "firewall_inv net w' \<and> intent_revision w \<le> intent_revision w'"
proof -
  have res: "reserved w' = reserved w" using fc by (simp add: file_change_def reserved_ports)
  have old: "file_ok net (reserved w) f" if "restored (intent w) (committed w) f" for f
    using that inv intent_ok [OF inv] by (cases "intent w") (auto simp: firewall_inv_def)
  have "firewall_inv net w'"
    using fc inv nxt old res by (auto simp: firewall_inv_def file_change_def)
  moreover have "intent_revision w \<le> intent_revision w'"
  proof (cases "intent w")
    case None
    then show ?thesis by (simp add: intent_revision_def)
  next
    case (Some s)
    note le = le [OF Some]
    consider "pending w' = Saved nxt" | "pending w' = Absent" "committed w' = Saved nxt \<or> committed w' = Saved s"
      | "pending w' = pending w" "pending w' \<noteq> Absent"
      | "pending w' = pending w" "pending w' = Absent" "committed w' = committed w"
      using fc Some by (cases "pending w = Absent") (auto simp: file_change_def)
    then show ?thesis
      using Some le inv
      by cases (cases "pending w"; auto simp: intent_revision_def intent_def firewall_inv_def split: option.splits)+
  qed
  ultimately show ?thesis ..
qed

lemma applyFirewall_inv:
  assumes net: "netip_ok net" "netip_of env = net" and inv: "firewall_inv net w" and ap: "applyFirewall env req w = (r, w')"
  shows "firewall_inv net w' \<and> intent_revision w \<le> intent_revision w'"
  using ap
proof (cases rule: applyFirewall_cases)
  case (refused e)
  then show ?thesis using firewall_inv_core [of w' w net] inv by (simp add: intent_revision_def)
next
  case (again old nxt w1)
  note plan = plan_policy_ok [OF net inv again(1)]
  have c: "committed w1 = committed w" "pending w1 = pending w" "ports w1 = ports w"
    using core_eqD [OF again(2)] by (simp_all add: ports_def)
  have "file_change (intent w) old w w'"
    using commit_state_spec [OF again(5)] plan c by (auto simp: file_change_def)
  moreover have "intent w = Some old" using plan by simp
  ultimately show ?thesis
    using file_change_inv [OF inv intent_ok [OF inv]] by simp
next
  case (changed old nxt obs w1)
  note plan = plan_policy_ok [OF net inv changed(1)]
  have c: "committed w1 = committed w" "pending w1 = pending w" "ports w1 = ports w"
    using core_eqD [OF changed(2)] by (simp_all add: ports_def)
  have "file_change (intent w) nxt w w'"
    using execute_policy_spec [OF changed(3)] plan c by (simp add: file_change_def)
  then show ?thesis
    using file_change_inv [OF inv, of nxt w'] plan by auto
qed

lemma ensureFirewall_cases:
  assumes "ensureFirewall env w = (r, w')" and net: "netip_of env = net" "firewall_inv net w"
  obtains (same) k where "core w' = core (w\<lparr>kernel := k\<rparr>)" "r = Inr () \<longrightarrow> firewallReady w"
  | (idle) "intent w = None" "w' = w\<lparr>firewallReady := True\<rparr>" "r = Inr ()"
  | (restored) s k w4 q where "intent w = Some s" "core w4 = core (w\<lparr>kernel := k\<rparr>)" "shows_policy env (kernel w4) (Some s)"
      "commit_state env s w4 = (q, w')" "is_ok r = is_ok q"
proof (cases "firewallReady w")
  case True
  then show thesis using assms(1) same [of "kernel w"] by (simp add: ensureFirewall_def)
next
  case not_ready: False
  note rd = read_state_ok [OF net(2)]
  show thesis
  proof (cases "intent w")
    case None
    then have "r = Inr () \<and> w' = w\<lparr>firewallReady := True\<rparr>"
      using assms(1) not_ready rd net(1) by (simp add: ensureFirewall_def)
    then show thesis using idle None by blast
  next
    case (Some s)
    define pre where "pre = bind_res (port_owner env (st_rules s) False) (\<lambda>_.
        if st_rules s = [] then Inr () else bind_res (xray_config env) (validateFirewallConfig env w))"
    obtain r1 w1 where o1: "observe env w = (r1, w1)" by fastforce
    have c1: "core w1 = core w" by (rule observe_core(1) [OF o1])
    have unfolded: "(r, w') = (case pre of Inl e \<Rightarrow> (Inl e, w) | Inr _ \<Rightarrow> (case r1 of Inl e \<Rightarrow> (Inl e, w1)
        | Inr obs \<Rightarrow> (case checkFirewallOwnership obs (Some s) of Inl e \<Rightarrow> (Inl e, w1) | Inr _ \<Rightarrow>
          (case (if firewallMatches obs (Some s) then (Inr (), w1)
                 else case runFirewallBatch env (Some s) obs True w1 of (Inl e, w2) \<Rightarrow> (Inl e, w2)
                   | (Inr _, w2) \<Rightarrow> runFirewallBatch env (Some s) obs False w2) of
             (Inl e, w3) \<Rightarrow> (Inl e, w3)
           | (Inr _, w3) \<Rightarrow> (case observe env w3 of (Inl e, w4) \<Rightarrow> (Inl e, w4)
               | (Inr seen, w4) \<Rightarrow> if \<not> firewallMatches seen (Some s) then (Inl NotVerified, w4)
                   else case commit_state env s w4 of (Inl e, w5) \<Rightarrow> (Inl e, w5) | (Inr _, w5) \<Rightarrow> (Inr (), w5))))))"
      unfolding assms(1) [symmetric] using not_ready rd net(1) Some o1 by (cases pre) (simp_all add: ensureFirewall_def flip: pre_def)
    show thesis
    proof (cases "\<exists>obs. pre = Inr () \<and> r1 = Inr obs \<and> checkFirewallOwnership obs (Some s) = Inr ()")
      case False
      then have "(w' = w \<or> w' = w1) \<and> r \<noteq> Inr ()"
        using unfolded by (auto split: sum.splits)
      then show thesis using same [of "kernel w"] c1 by (auto simp: core_def)
    next
      case True
      then obtain obs where obs: "pre = Inr ()" "r1 = Inr obs" "checkFirewallOwnership obs (Some s) = Inr ()" by blast
      obtain r3 w3 where b3: "(if firewallMatches obs (Some s) then (Inr (), w1)
          else case runFirewallBatch env (Some s) obs True w1 of (Inl e, w2) \<Rightarrow> (Inl e, w2)
            | (Inr _, w2) \<Rightarrow> runFirewallBatch env (Some s) obs False w2) = (r3, w3)" by fastforce
      have "\<exists>k. core w3 = core (w\<lparr>kernel := k\<rparr>)"
      proof (cases "firewallMatches obs (Some s)")
        case True
        then show ?thesis using b3 c1 by (auto simp: core_def)
      next
        case False
        obtain q2 w2 where b2: "runFirewallBatch env (Some s) obs True w1 = (q2, w2)" by fastforce
        have c2: "core w2 = core w" using runFirewallBatch_core [OF b2] c1 by (auto simp: core_def)
        show ?thesis
        proof (cases q2)
          case (Inl e)
          then show ?thesis using b3 b2 c2 False by (auto simp: core_def)
        next
          case (Inr u)
          then have "runFirewallBatch env (Some s) obs False w2 = (r3, w3)" using b3 b2 False by simp
          then show ?thesis using runFirewallBatch_core [of env "Some s" obs False w2 r3 w3] c2 by (auto simp: core_def)
        qed
      qed
      then obtain k where c3: "core w3 = core (w\<lparr>kernel := k\<rparr>)" by blast
      obtain r4 w4 where o4: "observe env w3 = (r4, w4)" by fastforce
      have c4: "core w4 = core (w\<lparr>kernel := k\<rparr>)" using observe_core(1) [OF o4] c3 by simp
      obtain q w5 where cs: "commit_state env s w4 = (q, w5)" by fastforce
      show thesis
      proof (cases "r3 = Inr () \<and> (\<exists>seen. r4 = Inr seen \<and> firewallMatches seen (Some s))")
        case False
        then have "(w' = w3 \<or> w' = w4) \<and> r \<noteq> Inr ()"
          using unfolded obs b3 o4 by (auto split: sum.splits if_splits)
        then show thesis using same [of k] c3 c4 by auto
      next
        case True
        then have "shows_policy env (kernel w4) (Some s)"
          using observe_core(2) [OF o4] core_eqD(1) [OF observe_core(1) [OF o4]] by (auto simp: shows_policy_def)
        moreover have "w' = w5 \<and> is_ok r = is_ok q"
          using True unfolded obs b3 o4 cs by (cases q) (auto split: if_splits)
        ultimately show thesis using Some c4 cs restored by blast
      qed
    qed
  qed
qed

lemma ensureFirewall_inv:
  assumes "netip_of env = net" and inv: "firewall_inv net w" and en: "ensureFirewall env w = (r, w')"
  shows "firewall_inv net w' \<and> intent_revision w \<le> intent_revision w'"
  using en assms(1,2)
proof (cases rule: ensureFirewall_cases)
  case (same k)
  then have "committed w' = committed w" "pending w' = pending w" "ports w' = ports w"
    by (simp_all add: core_def ports_def)
  from same_files_inv [OF this] show ?thesis using inv by (simp add: intent_revision_def)
next
  case idle
  then have "committed w' = committed w" "pending w' = pending w" "ports w' = ports w"
    by (simp_all add: ports_def)
  from same_files_inv [OF this] show ?thesis using inv by (simp add: intent_revision_def)
next
  case (restored s k w4 q)
  have c: "committed w4 = committed w" "pending w4 = pending w" "ports w4 = ports w"
    using restored(2) by (simp_all add: core_def ports_def)
  have "file_change (intent w) s w w'"
    using commit_state_spec [OF restored(4)] restored(1) c by (auto simp: file_change_def)
  then show ?thesis
    using file_change_inv [OF inv intent_ok [OF inv restored(1)]] restored(1) by simp
qed

section \<open>The firewall as a machine\<close>

text \<open>
  The steps of one process: a policy from the Controller, the restoration of the saved policy, a
  start of the proxy core, which runs only after the policy is ensured, a stop, a change of the
  management address, and changes of the kernel by others. Every step has its own environment and
  faults; only address parsing stays the same.
\<close>

datatype 'k firewall_event = ApplyPolicy "'k firewall_env" firewall_request "bool list"
  | EnsurePolicy "'k firewall_env" "bool list" | StartCore "'k firewall_env" "bool list" | StopCore
  | Listen string bool | OtherKernel 'k

fun firewall_step :: "netip \<Rightarrow> 'k firewall_world \<Rightarrow> 'k firewall_event \<Rightarrow> 'k firewall_world" where
  "firewall_step net w (ApplyPolicy env req fs) =
     snd (applyFirewall (env\<lparr>netip_of := net\<rparr>) req (w\<lparr>fw_faults := fs\<rparr>))"
| "firewall_step net w (EnsurePolicy env fs) = snd (ensureFirewall (env\<lparr>netip_of := net\<rparr>) (w\<lparr>fw_faults := fs\<rparr>))"
| "firewall_step net w (StartCore env fs) =
     (case ensureFirewall (env\<lparr>netip_of := net\<rparr>) (w\<lparr>fw_faults := fs\<rparr>) of
        (Inl e, w') \<Rightarrow> w'
      | (Inr _, w') \<Rightarrow> w'\<lparr>running := True\<rparr>)"
| "firewall_step net w StopCore = w\<lparr>running := False\<rparr>"
| "firewall_step net w (Listen listen persisted) = snd (UpdateConnection net listen persisted w)"
| "firewall_step net w (OtherKernel k) = w\<lparr>kernel := k\<rparr>"

definition machine_inv :: "netip \<Rightarrow> 'k firewall_world \<Rightarrow> bool" where
  "machine_inv net w \<longleftrightarrow> netip_ok net \<and> firewall_inv net w"

lemma same_world_inv:
  assumes "committed w' = committed w" "pending w' = pending w" "ports w' = ports w" and "firewall_inv net w"
  shows "firewall_inv net w' \<and> intent_revision w \<le> intent_revision w'"
  using same_files_inv [OF assms(1-3)] assms(4) by (simp add: intent_revision_def)

lemma file_ok_more:
  "file_ok net P f \<Longrightarrow> readFirewallFile net f = Inr st \<Longrightarrow> \<not> protects st p \<Longrightarrow> file_ok net (insert p P) f"
  by (cases f) (auto simp: protects_def state_ok_def list_ex_iff readFirewallFile_def)

lemma UpdateConnection_inv:
  assumes "firewall_inv net w" and "UpdateConnection net listen persisted w = (r, w')"
  shows "firewall_inv net w' \<and> intent_revision w \<le> intent_revision w'"
proof (cases "r = Inr ()")
  case False
  then have "w' = w"
    using assms(2) by (auto simp: UpdateConnection_def split: option.splits if_splits sum.splits prod.splits)
  then show ?thesis using assms(1) by simp
next
  case True
  then obtain host v p c j where u: "SplitHostPort listen = Some (host, v)" "Atoi v = (p, True)" "1 \<le> p"
    "readFirewallFile net (committed w) = Inr c" "\<not> protects c p"
    "readFirewallFile net (pending w) = Inr j" "\<not> protects j p"
    "w' = w\<lparr>managementPorts := insert p (insert (listen_port w) (managementPorts w)), listen_port := managementPort listen\<rparr>"
    using assms(2) by (auto simp: UpdateConnection_def split: option.splits if_splits sum.splits prod.splits)
  have "managementPort listen = p" using u(1-3) by (simp add: managementPort_def)
  then have "reserved w' = insert p (reserved w)" using u(8) by (auto simp: reserved_def)
  then show ?thesis
    using u assms(1) file_ok_more [OF _ u(4,5)] file_ok_more [OF _ u(6,7)]
    by (simp add: firewall_inv_def intent_revision_def intent_def split: option.splits)
qed

lemma firewall_step_ok:
  assumes "machine_inv net w"
  shows "machine_inv net (firewall_step net w ev) \<and> intent_revision w \<le> intent_revision (firewall_step net w ev)"
proof -
  have net: "netip_ok net" and inv: "firewall_inv net w" using assms by (simp_all add: machine_inv_def)
  have inv': "firewall_inv net (w\<lparr>fw_faults := fs\<rparr>)" "intent_revision (w\<lparr>fw_faults := fs\<rparr>) = intent_revision w" for fs
    using same_files_inv [of "w\<lparr>fw_faults := fs\<rparr>" w] inv by (simp_all add: ports_def intent_revision_def)
  have "firewall_inv net (firewall_step net w ev) \<and> intent_revision w \<le> intent_revision (firewall_step net w ev)"
  proof (cases ev)
    case (ApplyPolicy env req fs)
    obtain r w' where a: "applyFirewall (env\<lparr>netip_of := net\<rparr>) req (w\<lparr>fw_faults := fs\<rparr>) = (r, w')" by fastforce
    then show ?thesis
      using applyFirewall_inv [OF net _ inv'(1) a] inv'(2) [of fs] ApplyPolicy by simp
  next
    case (EnsurePolicy env fs)
    obtain r w' where e: "ensureFirewall (env\<lparr>netip_of := net\<rparr>) (w\<lparr>fw_faults := fs\<rparr>) = (r, w')" by fastforce
    then show ?thesis
      using ensureFirewall_inv [OF _ inv'(1) e] inv'(2) [of fs] EnsurePolicy by simp
  next
    case (StartCore env fs)
    obtain r w' where e: "ensureFirewall (env\<lparr>netip_of := net\<rparr>) (w\<lparr>fw_faults := fs\<rparr>) = (r, w')" by fastforce
    have ok: "firewall_inv net w' \<and> intent_revision w \<le> intent_revision w'"
      using ensureFirewall_inv [OF _ inv'(1) e] inv'(2) [of fs] by simp
    moreover have "firewall_inv net (w'\<lparr>running := True\<rparr>) \<and> intent_revision (w'\<lparr>running := True\<rparr>) = intent_revision w'"
      using same_files_inv [of "w'\<lparr>running := True\<rparr>" w'] ok by (simp add: ports_def intent_revision_def)
    ultimately show ?thesis using StartCore e by (cases r) simp_all
  next
    case StopCore
    then show ?thesis using same_world_inv [of "w\<lparr>running := False\<rparr>" w net] inv by (simp add: ports_def)
  next
    case (Listen listen persisted)
    obtain r w' where u: "UpdateConnection net listen persisted w = (r, w')" by fastforce
    then show ?thesis using UpdateConnection_inv [OF inv u] Listen by simp
  next
    case (OtherKernel k)
    then show ?thesis using same_world_inv [of "w\<lparr>kernel := k\<rparr>" w net] inv by (simp add: ports_def)
  qed
  then show ?thesis using net by (simp add: machine_inv_def)
qed

interpretation firewall: monotone_machine "firewall_step net" "machine_inv net" intent_revision
  for net
  by unfold_locales (simp_all add: firewall_step_ok)

section \<open>The transaction\<close>

lemma no_fault: "fw_faults w = [] \<Longrightarrow> fault w = (False, w)"
  by (simp add: fault_def)

lemma firewallStatus_quiet: "fw_faults w = [] \<Longrightarrow> \<exists>b rd. firewallStatus env w = (b, w\<lparr>firewallReady := rd\<rparr>)"
proof (cases "readFirewallState (netip_of env) w")
  case (Inl e)
  then show ?thesis by (intro exI [of _ False] exI [of _ "firewallReady w"]) (simp add: firewallStatus_def)
next
  case (Inr st)
  assume "fw_faults w = []"
  then have o: "observe env w = (view env (kernel w), w)"
    by (simp add: observe_def no_fault view_def)
  have "\<exists>a. firewallStatus env w = (a, if \<not> a \<and> st \<noteq> None then w\<lparr>firewallReady := False\<rparr> else w)"
    using Inr o by (cases "view env (kernel w)") (auto simp: firewallStatus_def)
  then obtain a where "firewallStatus env w = (a, if \<not> a \<and> st \<noteq> None then w\<lparr>firewallReady := False\<rparr> else w)" ..
  then show ?thesis
    by (intro exI [of _ a] exI [of _ "if \<not> a \<and> st \<noteq> None then False else firewallReady w"]) simp
qed

lemma quiet_commit:
  assumes "fw_faults w = []"
  shows "saveCommitted s w = (Inr (), w\<lparr>committed := Saved s\<rparr>)" "savePending s w = (Inr (), w\<lparr>pending := Saved s\<rparr>)"
    "removeFirewallJournal w = (Inr (), w\<lparr>pending := Absent\<rparr>)"
  using assms
  by (simp_all add: saveCommitted_def savePending_def save_with_def removeFirewallJournal_def no_fault)

text \<open>What \<open>nft\<close> promises for one batch: it is accepted, and the table it leaves is listed as the policy.\<close>

definition nft_obeys :: "'k firewall_env \<Rightarrow> 'k \<Rightarrow> firewall_observed \<Rightarrow> firewall_state \<Rightarrow> bool" where
  "nft_obeys env k obs s \<longleftrightarrow> (\<not> obs_exists obs \<and> st_rules s = []) \<or>
     (case nft_run env (firewallBatch (netip_of env) (Some s) (obs_exists obs)) k of
        None \<Rightarrow> False
      | Some k' \<Rightarrow> (case view env k' of Inl e \<Rightarrow> False | Inr seen \<Rightarrow> firewallMatches seen (Some s)))"

lemma quiet_batch:
  assumes "fw_faults w = []" and "nft_obeys env (kernel w) obs s" and "view env (kernel w) = Inr obs"
  obtains k where "runFirewallBatch env (Some s) obs False w = (Inr (), w\<lparr>kernel := k\<rparr>)"
    "runFirewallBatch env (Some s) obs True w = (Inr (), w)" "shows_policy env k (Some s)"
proof (cases "\<not> obs_exists obs \<and> st_rules s = []")
  case True
  then have "shows_policy env (kernel w) (Some s)"
    using assms(3) by (simp add: shows_policy_def firewallMatches_def)
  then show thesis
    using True that [of "kernel w"] by (simp add: runFirewallBatch_def)
next
  case False
  then obtain k seen where k: "nft_run env (firewallBatch (netip_of env) (Some s) (obs_exists obs)) (kernel w) = Some k"
    "view env k = Inr seen" "firewallMatches seen (Some s)"
    using assms(2) by (auto simp: nft_obeys_def split: option.splits sum.splits)
  then show thesis
    using assms(1) False that [of k] by (auto simp: runFirewallBatch_def no_fault shows_policy_def)
qed

lemma quiet_execute:
  assumes "fw_faults w = []" and "nft_obeys env (kernel w) obs nxt" and "view env (kernel w) = Inr obs"
  shows "\<exists>b w'. execute_policy env old nxt obs w = (Inr b, w')"
proof -
  obtain k where k: "\<And>p. runFirewallBatch env (Some nxt) obs False (w\<lparr>pending := p\<rparr>) = (Inr (), w\<lparr>pending := p, kernel := k\<rparr>)"
    "runFirewallBatch env (Some nxt) obs True w = (Inr (), w)" "shows_policy env k (Some nxt)"
  proof -
    obtain k where k: "runFirewallBatch env (Some nxt) obs False w = (Inr (), w\<lparr>kernel := k\<rparr>)"
      "runFirewallBatch env (Some nxt) obs True w = (Inr (), w)" "shows_policy env k (Some nxt)"
      using quiet_batch [OF assms] by metis
    have "runFirewallBatch env (Some nxt) obs False (w\<lparr>pending := p\<rparr>) = (Inr (), w\<lparr>pending := p, kernel := k\<rparr>)" for p
      using k(1) assms(1)
      by (cases w) (auto simp: runFirewallBatch_def no_fault split: option.splits if_splits)
    then show thesis using that k(2,3) by blast
  qed
  obtain seen where seen: "view env k = Inr seen" "firewallMatches seen (Some nxt)"
    using k(3) by (auto simp: shows_policy_def)
  define w3 where "w3 = w\<lparr>pending := Saved nxt, kernel := k\<rparr>"
  have q: "fw_faults w3 = []" "kernel w3 = k" by (simp_all add: w3_def assms(1))
  have "observe env w3 = (Inr seen, w3)"
    using q seen by (simp add: observe_def no_fault view_def)
  moreover have "removeFirewallJournal (w3\<lparr>committed := Saved nxt\<rparr>) =
      (Inr (), w3\<lparr>committed := Saved nxt, pending := Absent\<rparr>)"
    using quiet_commit(3) [of "w3\<lparr>committed := Saved nxt\<rparr>"] q by simp
  moreover obtain a rd where "firewallStatus env (w3\<lparr>committed := Saved nxt, pending := Absent, firewallReady := True\<rparr>) =
      (a, w3\<lparr>committed := Saved nxt, pending := Absent, firewallReady := True, firewallReady := rd\<rparr>)"
    using firewallStatus_quiet [of "w3\<lparr>committed := Saved nxt, pending := Absent, firewallReady := True\<rparr>" env] q by auto
  ultimately show ?thesis
    using k(1,2) seen quiet_commit(2) [OF assms(1)] quiet_commit(1) [OF q(1)]
    by (simp add: execute_policy_def flip: w3_def)
qed

section \<open>A sample node\<close>

text \<open>A kernel is whether the table of the sample policy is installed; a batch installs it.\<close>

definition net_node :: netip where
  "net_node = net_sample\<lparr>parse_addr := (\<lambda>s. Some (V4 0))\<rparr>"

definition policy_sample :: firewall_state where
  "policy_sample = \<lparr>st_version = 1, st_owner = hex_encode (fill_token []), st_revision = 3, st_rules = [rule_clean],
     st_bindings = [\<lparr>target_name = ''proxy'', target_protocol = ''tcp'', target_port = 443, target_listen = ''0'',
       target_kind = ''vless''\<rparr>]\<rparr>"

definition env_sample :: "bool firewall_env" where
  "env_sample = \<lparr>netip_of = net_node, nft_run = (\<lambda>b k. Some True),
     nft_tables = (\<lambda>k. if k then [[(''table'', JObj [(''family'', JStr ''inet''), (''handle'', JNum ''7''),
       (''name'', JStr firewallTable)])]] else []),
     nft_table = (\<lambda>k. listed_table net_node policy_sample False JNull ''7'' [''8'', ''9'']),
     port_owner = (\<lambda>rs b. Inr ()),
     xray_config = Inr (Some [\<lparr>in_tag = ''proxy'', in_listen = [], in_port = Some 443, in_protocol = ''vless'',
       in_network = ''tcp''\<rparr>]),
     random_token = Some [], nft_supported = True\<rparr>"

definition world_sample :: "bool firewall_world" where
  "world_sample = \<lparr>kernel = False, committed = Absent, pending = Absent, firewallReady = True, running = True,
     listen_port = 23889, managementPorts = {}, fw_faults = []\<rparr>"

definition request_sample :: firewall_request where
  "request_sample = \<lparr>req_revision = 3, req_rules = Some [rule_sample]\<rparr>"

lemma net_node_ok: "netip_ok net_node"
  using net_sample_ok by (simp add: netip_ok_def net_node_def prefix_string_def)

lemma decode_node: "decodeFirewall net_node request_sample = Inr (3, [rule_clean])"
proof -
  have "check_rules net_node [] [] [rule_sample] = Inr [rule_clean]"
    by code_simp
  then show ?thesis by (simp add: decodeFirewall_def request_sample_def)
qed

lemma policy_sample_rules: "st_revision policy_sample = 3" "st_rules policy_sample = [rule_clean]"
  by (simp_all add: policy_sample_def)

lemma sample_shows: "view env_sample True = Inr obs \<Longrightarrow> firewallMatches obs (Some policy_sample)"
  and sample_view: "\<exists>obs. view env_sample True = Inr obs"
proof -
  have "owner_token_ok (st_owner policy_sample)" by code_simp
  then have "\<exists>obs. view env_sample True = Inr obs \<and> firewallMatches obs (Some policy_sample) \<and>
      checkFirewallOwnership obs (Some policy_sample) = Inr ()"
    unfolding view_def
    using listed_table_recognised [OF net_node_ok, of request_sample policy_sample "[''8'', ''9'']" "''7''"] decode_node
    by (simp add: env_sample_def policy_sample_rules firewallAtoms_def rule_atoms_def rule_clean_def)
  then obtain obs' where "view env_sample True = Inr obs'" "firewallMatches obs' (Some policy_sample)"
    by blast
  then show "view env_sample True = Inr obs \<Longrightarrow> firewallMatches obs (Some policy_sample)"
    "\<exists>obs. view env_sample True = Inr obs" by auto
qed

lemma bind_sample:
  "bind_rules env_sample world_sample (Some [\<lparr>in_tag = ''proxy'', in_listen = [], in_port = Some 443,
      in_protocol = ''vless'', in_network = ''tcp''\<rparr>]) [rule_clean] = Inr (st_bindings policy_sample)"
  by code_simp

lemma plan_sample:
  "plan_policy env_sample (world_sample\<lparr>fw_faults := fs\<rparr>) request_sample = Inr (None, policy_sample)"
proof -
  have "readFirewallState net_node (world_sample\<lparr>fw_faults := fs\<rparr>) = Inr None"
    by (simp add: readFirewallState_def readFirewallFile_def world_sample_def)
  moreover have "bind_rules env_sample (world_sample\<lparr>fw_faults := fs\<rparr>) = bind_rules env_sample world_sample"
    by (intro ext) (simp add: bind_rules_def reserved_def)
  ultimately show ?thesis
    using decode_node bind_sample
    by (simp add: plan_policy_def env_sample_def policy_sample_def world_sample_def)
qed

lemmas plan_sample_quiet = plan_sample [of "fw_faults world_sample", simplified]

lemma quiet_commit_state:
  assumes "fw_faults w = []"
  shows "\<exists>b w'. commit_state env s w = (Inr b, w')"
  using firewallStatus_quiet [of "w\<lparr>committed := Saved s, pending := Absent, firewallReady := True\<rparr>" env]
    quiet_commit(1) [OF assms, of s] quiet_commit(3) [of "w\<lparr>committed := Saved s\<rparr>"] assms
  by (auto simp: commit_state_def)

text \<open>When the policy passes every check, \<open>nft\<close> obeys and no file operation fails, a firewall policy is
  applied: the operation returns a result and not an error.\<close>
theorem apply_succeeds:
  assumes "plan_policy env w req = Inr (old, nxt)" and "view env (kernel w) = Inr obs"
    and "checkFirewallOwnership obs old = Inr ()" and "nft_obeys env (kernel w) obs nxt" and "fw_faults w = []"
  shows "\<exists>b w'. applyFirewall env req w = (Inr b, w')"
proof -
  have "observe env w = (Inr obs, w)" using assms(2,5) by (simp add: observe_def view_def no_fault)
  then show ?thesis
    using assms(1,3) quiet_execute [OF assms(5,4,2)] quiet_commit_state [OF assms(5)]
    by (cases old) (auto simp: applyFirewall_def)
qed

lemma world_sample_inv: "firewall_inv net_node world_sample" "machine_inv net_node world_sample"
  by (simp_all add: firewall_inv_def machine_inv_def world_sample_def net_node_ok)

lemma sample_ready:
  "\<exists>obs. view env_sample (kernel world_sample) = Inr obs \<and> checkFirewallOwnership obs None = Inr () \<and>
    nft_obeys env_sample (kernel world_sample) obs policy_sample"
proof -
  have v: "view env_sample (kernel world_sample) =
      Inr \<lparr>obs_exists = False, obs_owner = [], obs_atoms = [], obs_valid = True\<rparr>"
    by (simp add: view_def env_sample_def world_sample_def observeFirewall_def)
  obtain obs where "view env_sample True = Inr obs" using sample_view by blast
  then have "nft_obeys env_sample (kernel world_sample) \<lparr>obs_exists = False, obs_owner = [], obs_atoms = [], obs_valid = True\<rparr>
      policy_sample"
    using sample_shows [of obs] by (simp add: nft_obeys_def) (simp add: env_sample_def)
  then show ?thesis using v by (simp add: checkFirewallOwnership_def)
qed

lemma sample_applied: "\<exists>b w'. applyFirewall env_sample request_sample world_sample = (Inr b, w')"
proof -
  obtain obs where obs: "view env_sample (kernel world_sample) = Inr obs" "nft_obeys env_sample (kernel world_sample) obs policy_sample"
    "checkFirewallOwnership obs None = Inr ()" using sample_ready by blast
  have q: "fw_faults world_sample = []" by (simp add: world_sample_def)
  have "observe env_sample world_sample = (Inr obs, world_sample)"
    using obs(1) q by (simp add: observe_def view_def no_fault)
  then show ?thesis
    using quiet_execute [OF q obs(2,1)] plan_sample_quiet obs(3) by (simp add: applyFirewall_def)
qed

theorem apply_succeeds_witness: "\<exists>b w'. applyFirewall env_sample request_sample world_sample = (Inr b, w')"
proof -
  have "fw_faults world_sample = []" by (simp add: world_sample_def)
  then show ?thesis using sample_ready apply_succeeds [OF plan_sample_quiet] by blast
qed

text \<open>A firewall policy that is reported as applied is the policy that was requested: it is the committed
  file, no journal is left, the kernel's table reads back as exactly this policy, and the
  listeners run as before.\<close>
theorem applied_policy_is_committed:
  assumes "netip_ok (netip_of env)" and "firewall_inv (netip_of env) w" and "applyFirewall env req w = (Inr b, w')"
  shows "\<exists>s. decodeFirewall (netip_of env) req = Inr (st_revision s, st_rules s) \<and> committed w' = Saved s \<and>
    pending w' = Absent \<and> shows_policy env (kernel w') (Some s) \<and> running w' = running w"
  using assms(3)
proof (cases rule: applyFirewall_cases)
  case (again old nxt w1)
  note plan = plan_policy_ok [OF assms(1) refl assms(2) again(1)]
  have "decodeFirewall (netip_of env) req = Inr (st_revision old, st_rules old)"
    using plan again(4) by simp
  then show ?thesis
    using commit_state_spec [OF again(5)] core_eqD [OF again(2)] again(3) by auto
next
  case (changed old nxt obs w1)
  note plan = plan_policy_ok [OF assms(1) refl assms(2) changed(1)]
  then show ?thesis
    using execute_policy_spec [OF changed(3)] core_eqD [OF changed(2)] by auto
qed simp

theorem applied_policy_is_committed_witness:
  "\<exists>b w' s. applyFirewall env_sample request_sample world_sample = (Inr b, w') \<and> committed w' = Saved s \<and>
     st_rules s = [rule_clean]"
proof -
  obtain b w' where a: "applyFirewall env_sample request_sample world_sample = (Inr b, w')"
    using sample_applied by blast
  have "netip_of env_sample = net_node" by (simp add: env_sample_def)
  then show ?thesis
    using applied_policy_is_committed [OF _ _ a] a net_node_ok world_sample_inv decode_node by auto
qed

text \<open>C14: A failed firewall change fails closed: either nothing of the node changed; or the previous policy was
  verified in the kernel and committed again, with no journal left and the listeners as before; or
  the node is not ready, which blocks every start of a listener, and the core instance was closed
  and dropped.\<close>
theorem failed_policy_fails_closed:
  assumes "netip_ok (netip_of env)" and "firewall_inv (netip_of env) w" and "applyFirewall env req w = (Inl e, w')"
  shows "core w' = core w \<or> recovered env (intent w) w w' \<or> blocked w'"
  using assms(3)
proof (cases rule: applyFirewall_cases)
  case (again old nxt w1)
  then show ?thesis using commit_state_spec [OF again(5)] by simp
next
  case (changed old nxt obs w1)
  have "old = intent w" using plan_policy_ok [OF assms(1) refl assms(2) changed(1)] by simp
  then show ?thesis
    using execute_policy_spec [OF changed(3)] changed(2) core_eqD [OF changed(2)] by (auto simp: recovered_def)
qed simp

theorem failed_policy_fails_closed_witness:
  "let w = world_sample\<lparr>fw_faults := [False, False, False, True]\<rparr> in
   \<exists>w'. applyFirewall env_sample request_sample w = (Inl PersistenceFailed, w') \<and>
     (core w' = core w \<or> recovered env_sample (intent w) w w' \<or> blocked w')"
proof -
  let ?w = "world_sample\<lparr>fw_faults := [False, False, False, True]\<rparr>"
  have "observe env_sample ?w = (Inr \<lparr>obs_exists = False, obs_owner = [], obs_atoms = [], obs_valid = True\<rparr>,
      world_sample\<lparr>fw_faults := [False, False, True]\<rparr>)"
    by (simp add: observe_def fault_def env_sample_def world_sample_def observeFirewall_def)
  moreover have "execute_policy env_sample None policy_sample \<lparr>obs_exists = False, obs_owner = [], obs_atoms = [], obs_valid = True\<rparr>
      (world_sample\<lparr>fw_faults := [False, False, True]\<rparr>) =
    firewallPersistenceFailure env_sample (world_sample\<lparr>fw_faults := []\<rparr>)"
  proof -
    have "nft_run env_sample b k = Some True" for b k by (simp add: env_sample_def)
    then show ?thesis
      by (simp add: execute_policy_def runFirewallBatch_def fault_def savePending_def save_with_def policy_sample_rules)
  qed
  ultimately obtain w' where a: "applyFirewall env_sample request_sample ?w = (Inl PersistenceFailed, w')"
    using plan_sample by (simp add: applyFirewall_def checkFirewallOwnership_def firewallPersistenceFailure_def)
  have "firewall_inv net_node ?w" by (simp add: firewall_inv_def world_sample_def)
  moreover have "netip_of env_sample = net_node" by (simp add: env_sample_def)
  ultimately show ?thesis
    using failed_policy_fails_closed [OF _ _ a] a net_node_ok by (simp add: Let_def)
qed

text \<open>When the saved policy is restored at start, the start is allowed only if no policy is saved, or the
  saved policy (the journal's if there is one) is read back from the kernel, is committed, and the
  journal is gone; so listeners never start without their allowlist.\<close>
theorem start_needs_restored_policy:
  assumes "firewall_inv (netip_of env) w" and "\<not> firewallReady w" and "ensureFirewall env w = (Inr (), w')"
  shows "case intent w of None \<Rightarrow> w' = w\<lparr>firewallReady := True\<rparr>
    | Some s \<Rightarrow> committed w' = Saved s \<and> pending w' = Absent \<and> shows_policy env (kernel w') (Some s) \<and> running w' = running w"
  using assms(3) refl assms(1)
proof (cases rule: ensureFirewall_cases)
  case (same k)
  then show ?thesis using assms(2) by simp
next
  case idle
  then show ?thesis by simp
next
  case (restored s k w4 q)
  obtain b where "q = Inr b" using restored(5) by (cases q) simp_all
  moreover have "running w4 = running w" using restored(2) by (simp add: core_def)
  ultimately show ?thesis using commit_state_spec [OF restored(4)] restored(1,3) by simp
qed

lemma policy_sample_ok: "state_ok net_node policy_sample"
proof -
  obtain b where "hex_decode (st_owner policy_sample) = Some b" "length b = 32"
    using hex_token_ok fill_token_length by (simp add: policy_sample_def)
  moreover have "decodeFirewall net_node \<lparr>req_revision = 3, req_rules = Some [rule_clean]\<rparr> = Inr (3, [rule_clean])"
    using decodeFirewall_canonical [OF net_node_ok decode_node] by (intro decodeFirewall_fixed) auto
  ultimately show ?thesis
    by (simp add: state_ok_def readFirewallFile_def policy_sample_def)
qed

theorem start_needs_restored_policy_witness:
  "let w = world_sample\<lparr>committed := Saved policy_sample, firewallReady := False, kernel := True\<rparr> in
   \<exists>w'. ensureFirewall env_sample w = (Inr (), w') \<and> pending w' = Absent \<and>
     shows_policy env_sample (kernel w') (Some policy_sample)"
proof -
  let ?w = "world_sample\<lparr>committed := Saved policy_sample, firewallReady := False, kernel := True\<rparr>"
  have n: "netip_of env_sample = net_node" by (simp add: env_sample_def)
  have inv: "firewall_inv (netip_of env_sample) ?w" and i: "intent ?w = Some policy_sample"
    using policy_sample_ok
    by (simp_all add: n firewall_inv_def reserved_def policy_sample_rules rule_clean_def intent_def world_sample_def)
  have q: "fw_faults ?w = []" by (simp add: world_sample_def)
  obtain obs where v: "view env_sample True = Inr obs" using sample_view by blast
  note m = sample_shows [OF v]
  have o: "observe env_sample ?w = (Inr obs, ?w)"
    using v q by (simp add: observe_def view_def no_fault)
  have own: "checkFirewallOwnership obs (Some policy_sample) = Inr ()"
    using m by (simp add: checkFirewallOwnership_def firewallMatches_def policy_sample_rules)
  have "validateFirewallConfig env_sample ?w (Some [\<lparr>in_tag = ''proxy'', in_listen = [], in_port = Some 443,
      in_protocol = ''vless'', in_network = ''tcp''\<rparr>]) = Inr ()"
    using bind_sample read_state_ok [OF inv] i
    by (simp add: validateFirewallConfig_def policy_sample_rules bind_rules_def reserved_def)
  then have pre: "bind_res (port_owner env_sample (st_rules policy_sample) False) (\<lambda>_. if st_rules policy_sample = [] then Inr ()
      else bind_res (xray_config env_sample) (validateFirewallConfig env_sample ?w)) = Inr ()"
    by (simp add: env_sample_def policy_sample_rules)
  have "\<exists>b w'. commit_state env_sample policy_sample ?w = (Inr b, w')"
    by (rule quiet_commit_state [OF q])
  then obtain w' where en: "ensureFirewall env_sample ?w = (Inr (), w')"
    using read_state_ok [OF inv] i pre o own m by (auto simp: ensureFirewall_def)
  then show ?thesis
    using start_needs_restored_policy [OF inv _ en] en i by (simp add: Let_def)
qed

text \<open>Over any run of firewall operations, restarts of listeners, changes of the management address and
  changes of the kernel by others, with any failures, the saved policy stays readable and never
  covers the port the Agent is managed on.\<close>
theorem management_port_never_covered:
  assumes "machine_inv net w"
  shows "let w' = foldl (firewall_step net) w es in
    \<exists>st. readFirewallState net w' = Inr st \<and> \<not> protects st (listen_port w')"
proof -
  have "firewall_inv net (foldl (firewall_step net) w es)"
    using firewall.run_inv [OF assms] by (simp add: machine_inv_def)
  moreover have "\<not> protects (intent v) (listen_port v)" if inv: "firewall_inv net v" for v :: "'a firewall_world"
  proof (cases "intent v")
    case (Some s)
    then show ?thesis
      using intent_ok [OF inv Some] by (auto simp: protects_def list_ex_iff reserved_def)
  qed (simp add: protects_def)
  ultimately show ?thesis using read_state_ok by (auto simp: Let_def)
qed

theorem management_port_never_covered_witness:
  "let w' = foldl (firewall_step net_node) world_sample [ApplyPolicy env_sample request_sample [], Listen '':443'' True] in
    \<exists>st. readFirewallState net_node w' = Inr st \<and> \<not> protects st (listen_port w')"
  using management_port_never_covered [OF world_sample_inv(2)] .

text \<open>The revision of the saved policy never decreases over any run of the node, whatever fails: a stale
  policy cannot replace a newer one.\<close>
theorem policy_revision_monotone:
  assumes "machine_inv net w"
  shows "intent_revision w \<le> intent_revision (foldl (firewall_step net) w es)"
  using assms by (rule firewall.run_level)

theorem policy_revision_monotone_witness:
  "intent_revision world_sample \<le>
    intent_revision (foldl (firewall_step net_node) world_sample [ApplyPolicy env_sample request_sample [True]])"
  using policy_revision_monotone [OF world_sample_inv(2)] .

end
