(* ===== verification/Federation_Grants.thy ===== *)
theory Federation_Grants
  imports Wire_Messages Json_Model
begin

text \<open>
  Shared access (internal/runtime/federation.go): the Agent's own federation key, the grants an owner
  installs, and how the namespaces of the grants keep the users of different consumers apart when the
  owner replaces the users or the configuration. Files may fail at any operation, as told by a list
  of faults.
\<close>

section \<open>Names\<close>

definition name_char :: "char \<Rightarrow> bool" where
  "name_char c = (is_letter c \<or> is_digit c \<or> c = CHR ''-'' \<or> c = CHR ''_'' \<or> c = CHR ''.'')"

fun has_dots :: "string \<Rightarrow> bool" where
  "has_dots (a # b # s) = (a = CHR ''.'' \<and> b = CHR ''.'' \<or> has_dots (b # s))"
| "has_dots _ = False"

definition safeName :: "string \<Rightarrow> bool" where
  "safeName s = (s \<noteq> [] \<and> length s \<le> 120 \<and> list_all name_char s \<and> \<not> has_dots s \<and> s \<noteq> ''.'')"

definition federationActionAllowed :: "string \<Rightarrow> bool" where
  "federationActionAllowed action =
     (action = ''status.get'' \<or> action = ''inbound.users.get'' \<or> action = ''inbound.users.sync'' \<or> action = ''stats.get'')"

section \<open>The federation directory\<close>

datatype federation_error = BadEnvelope | FedVerify grant_error | FedRead | FedWrite | FedIdentity | ScopeMismatch | BadConsumerKey
  | BadMapping | ActionForbidden | OwnerMismatch | NamespaceOverlap | StaleRevision | NamespaceImmutable | RevisionConflict
  | BadShare | GrantUnavailable | OwnerChanged | PermissionDenied | AgentChanged | FedChannel | CiphertextFailed | BindingFailed
  | ActionOutsideGrant | BadCommandID | IDReused | RequestExpired | ResultNotPersisted | OutsideScope | NotConfigured
  | UsersRequired | BadUser | BadEmail | ProtocolChanged | NotAnObject | NilMapWrite

datatype grant_entry = Directory | UnreadableGrant | BadGrant | Stored signed_grant

record federation_world =
  fed_identity :: "string option"
  fed_owner :: "string option"
  fed_grants :: "(string \<times> grant_entry) list"
  fed_listing :: bool
  fed_faults :: "bool list"

definition fed_fault :: "federation_world \<Rightarrow> bool \<times> federation_world" where
  "fed_fault w = (case fed_faults w of [] \<Rightarrow> (False, w) | f # fs \<Rightarrow> (f, w\<lparr>fed_faults := fs\<rparr>))"

text \<open>The key is created when it is missing; \<open>random\<close> is what it is made of.\<close>

definition federationIdentity ::
  "crypto \<Rightarrow> bytes \<Rightarrow> federation_world \<Rightarrow> (federation_error, string \<times> string) res \<times> federation_world" where
  "federationIdentity cr random w =
     (case fed_fault w of (failed, w1) \<Rightarrow>
        if failed then (Inl FedRead, w1)
        else case fed_identity w1 of
          None \<Rightarrow>
            (case GenerateKey cr random of (private, public) \<Rightarrow>
               case fed_fault w1 of (unwritten, w2) \<Rightarrow>
                 if unwritten then (Inl FedWrite, w2)
                 else (Inr (private, public), w2\<lparr>fed_identity := Some private\<rparr>))
        | Some text \<Rightarrow>
            (case PublicKey cr (trim_space text) of
               Inl e \<Rightarrow> (Inl FedIdentity, w1)
             | Inr public \<Rightarrow> (Inr (trim_space text, public), w1)))"

definition overlaps :: "string \<Rightarrow> string \<Rightarrow> bool" where
  "overlaps other mine = (other = mine \<or> has_prefix other (mine @ ''.'') \<or> has_prefix mine (other @ ''.''))"

definition grant_file :: "string \<Rightarrow> string" where
  "grant_file i = i @ ''.json''"

text \<open>The loop over the other grants.\<close>

fun check_overlap :: "federation_grant \<Rightarrow> (string \<times> grant_entry) list \<Rightarrow> (federation_error, unit) res" where
  "check_overlap grant [] = Inr ()"
| "check_overlap grant ((name, entry) # entries) =
     (if entry = Directory \<or> name = grant_file (fg_ID grant) then check_overlap grant entries
      else case entry of
        Stored other \<Rightarrow>
          if overlaps (fg_Namespace (sg_Grant other)) (fg_Namespace grant) then Inl NamespaceOverlap
          else check_overlap grant entries
      | _ \<Rightarrow> Inl FedRead)"

definition grant_scope_ok :: "crypto \<Rightarrow> bytes \<Rightarrow> string \<Rightarrow> string \<Rightarrow> federation_grant \<Rightarrow> (federation_error, unit) res" where
  "grant_scope_ok cr random server_id public grant =
     (if fg_Protocol grant \<noteq> FederationProtocol \<or> fg_ServerID grant \<noteq> server_id \<or> fg_AgentPublicKey grant \<noteq> public \<or>
         \<not> safeName (fg_ID grant) \<or> \<not> safeName (fg_Namespace grant) \<or> fg_Revision grant = 0 \<or> fg_Inbounds grant = []
      then Inl ScopeMismatch
      else if \<not> is_ok (NewClient cr random (fg_ConsumerPublicKey grant)) then Inl BadConsumerKey
      else if list_ex (\<lambda>(alias, tag). \<not> safeName alias \<or> tag = [] \<or> length tag > 200) (fg_Inbounds grant) then Inl BadMapping
      else if list_ex (\<lambda>action. \<not> federationActionAllowed action) (fg_Actions grant) then Inl ActionForbidden
      else Inr ())"

text \<open>The key of the first owner is pinned.\<close>

definition pin_owner :: "string \<Rightarrow> federation_world \<Rightarrow> (federation_error, unit) res \<times> federation_world" where
  "pin_owner key w =
     (case fed_fault w of (failed, w1) \<Rightarrow>
        if failed then (Inl FedRead, w1)
        else case fed_owner w1 of
          Some (c # cs) \<Rightarrow> if c # cs \<noteq> key then (Inl OwnerMismatch, w1) else (Inr (), w1)
        | _ \<Rightarrow>
            (case fed_fault w1 of (unwritten, w2) \<Rightarrow>
               if unwritten then (Inl FedWrite, w2) else (Inr (), w2\<lparr>fed_owner := Some key\<rparr>)))"

text \<open>Whether the directory can be listed; the code ignores an error here and sees no grants.\<close>

definition list_grants :: "federation_world \<Rightarrow> (string \<times> grant_entry) list" where
  "list_grants w = (if fed_listing w then fed_grants w else [])"

definition store_grant :: "signed_grant \<Rightarrow> federation_world \<Rightarrow> (federation_error, bool) res \<times> federation_world" where
  "store_grant sgr w =
     (let grant = sg_Grant sgr; name = grant_file (fg_ID grant);
          write = (case fed_fault w of (unwritten, w1) \<Rightarrow>
            if unwritten then (Inl FedWrite, w1)
            else (Inr (fg_Revoked grant), w1\<lparr>fed_grants := put_key name (Stored sgr) (fed_grants w1)\<rparr>)) in
      case map_of (fed_grants w) name of
        None \<Rightarrow> write
      | Some (Stored prior) \<Rightarrow>
          if fg_Revision grant < fg_Revision (sg_Grant prior) then (Inl StaleRevision, w)
          else if fg_Namespace grant \<noteq> fg_Namespace (sg_Grant prior) then (Inl NamespaceImmutable, w)
          else if fg_Revision grant = fg_Revision (sg_Grant prior) then
            (if sg_Signature sgr \<noteq> sg_Signature prior then (Inl RevisionConflict, w) else (Inr (fg_Revoked grant), w))
          else write
      | Some _ \<Rightarrow> (Inl FedRead, w))"

text \<open>\<open>decoded\<close> is the decoded parameter; the random bytes serve a new identity and the trial channel.\<close>

definition installFederationGrant ::
  "crypto \<Rightarrow> signer \<Rightarrow> bytes \<Rightarrow> string \<Rightarrow> signed_grant option \<Rightarrow> federation_world \<Rightarrow> (federation_error, bool) res \<times> federation_world" where
  "installFederationGrant cr sg random server_id decoded w =
     (case decoded of
        None \<Rightarrow> (Inl BadEnvelope, w)
      | Some sgr \<Rightarrow>
          (case VerifyFederationGrant sg sgr of
             Inl e \<Rightarrow> (Inl (FedVerify e), w)
           | Inr _ \<Rightarrow>
               (case federationIdentity cr random w of
                  (Inl e, w1) \<Rightarrow> (Inl e, w1)
                | (Inr (private, public), w1) \<Rightarrow>
                    (case grant_scope_ok cr random server_id public (sg_Grant sgr) of
                       Inl e \<Rightarrow> (Inl e, w1)
                     | Inr _ \<Rightarrow>
                         (case pin_owner (sg_OwnerPublicKey sgr) w1 of
                            (Inl e, w2) \<Rightarrow> (Inl e, w2)
                          | (Inr _, w2) \<Rightarrow>
                              (case check_overlap (sg_Grant sgr) (list_grants w2) of
                                 Inl e \<Rightarrow> (Inl e, w2)
                               | Inr _ \<Rightarrow> store_grant sgr w2))))))"

section \<open>Keeping the users of consumers\<close>

fun grant_prefixes :: "signer \<Rightarrow> string \<Rightarrow> (string \<times> grant_entry) list \<Rightarrow> (federation_error, string list) res" where
  "grant_prefixes sg tag [] = Inr []"
| "grant_prefixes sg tag ((name, entry) # entries) =
     (case entry of
        Directory \<Rightarrow> grant_prefixes sg tag entries
      | Stored sgr \<Rightarrow>
          (case VerifyFederationGrant sg sgr of
             Inl e \<Rightarrow> Inl (FedVerify e)
           | Inr _ \<Rightarrow> bind_res (grant_prefixes sg tag entries) (\<lambda>rest.
               Inr (if tag \<in> snd ` set (fg_Inbounds (sg_Grant sgr)) then (fg_Namespace (sg_Grant sgr) @ ''.'') # rest else rest)))
      | _ \<Rightarrow> Inl FedRead)"

definition federationPrefixes :: "signer \<Rightarrow> string \<Rightarrow> federation_world \<Rightarrow> (federation_error, string list) res" where
  "federationPrefixes sg tag w = (if fed_listing w then grant_prefixes sg tag (fed_grants w) else Inl FedRead)"

fun email_of :: "json \<Rightarrow> string" where
  "email_of (JObj user) = get_string user ''email''"
| "email_of _ = []"

definition belongs :: "string list \<Rightarrow> json \<Rightarrow> bool" where
  "belongs prefixes user = list_ex (has_prefix (email_of user)) prefixes"

text \<open>A nil slice is \<open>None\<close>.\<close>

definition the_list :: "json list option \<Rightarrow> json list" where
  "the_list xs = (case xs of None \<Rightarrow> [] | Some ys \<Rightarrow> ys)"

definition preserveFederationUsers ::
  "signer \<Rightarrow> federation_world \<Rightarrow> string \<Rightarrow> json list option \<Rightarrow> json list option \<Rightarrow> (federation_error, json list option) res" where
  "preserveFederationUsers sg w tag desired existing =
     bind_res (federationPrefixes sg tag w) (\<lambda>prefixes.
     if prefixes = [] then Inr desired
     else Inr (Some (filter (\<lambda>u. \<not> belongs prefixes u) (the_list desired) @ filter (belongs prefixes) (the_list existing))))"

fun as_array :: "json \<Rightarrow> json list option" where
  "as_array (JArr vs) = Some vs"
| "as_array _ = None"

definition json_slice :: "json list option \<Rightarrow> json" where
  "json_slice xs = (case xs of None \<Rightarrow> JNull | Some vs \<Rightarrow> JArr vs)"

fun object :: "json \<Rightarrow> jmap" where
  "object (JObj kvs) = kvs"
| "object _ = []"

text \<open>One inbound of the new configuration against the first old one with its tag.\<close>

definition merge_inbound ::
  "signer \<Rightarrow> federation_world \<Rightarrow> json list \<Rightarrow> json \<Rightarrow> (federation_error, json) res" where
  "merge_inbound sg w olds item =
     (let inn = object item; tag = get_string inn ''tag'' in
      case find (\<lambda>prior. get_any (object prior) ''tag'' = JStr tag) olds of
        None \<Rightarrow> Inr item
      | Some prior \<Rightarrow>
          (let previous = object prior; settings = get_any inn ''settings'';
               clients = get_any (object settings) ''clients'' in
           bind_res (preserveFederationUsers sg w tag (as_array clients)
               (as_array (get_any (object (get_any previous ''settings'')) ''clients''))) (\<lambda>merged.
           if length (the_list merged) > length (the_list (as_array clients)) \<and> get_any previous ''protocol'' \<noteq> get_any inn ''protocol''
           then Inl ProtocolChanged
           else if the_list merged \<noteq> [] \<or> clients \<noteq> JNull then
             (if as_map item = None then Inl NilMapWrite
              else Inr (JObj (put_key ''settings'' (JObj (put_key ''clients'' (json_slice merged) (object settings))) inn)))
           else Inr item)))"

fun merge_inbounds ::
  "signer \<Rightarrow> federation_world \<Rightarrow> json list \<Rightarrow> json list \<Rightarrow> (federation_error, json list) res" where
  "merge_inbounds sg w olds [] = Inr []"
| "merge_inbounds sg w olds (item # items) =
     bind_res (merge_inbound sg w olds item) (\<lambda>merged.
     bind_res (merge_inbounds sg w olds items) (\<lambda>rest. Inr (merged # rest)))"

text \<open>
  The texts are given by what they decode to (\<open>None\<close> when they are not JSON); \<open>existing\<close> is missing when
  there is no text. JSON \<open>null\<close> decodes to a nil map.
\<close>

definition as_object :: "json option \<Rightarrow> jmap option" where
  "as_object d = (case d of Some (JObj kvs) \<Rightarrow> Some kvs | Some JNull \<Rightarrow> Some [] | _ \<Rightarrow> None)"

definition preserveFederationConfig ::
  "signer \<Rightarrow> federation_world \<Rightarrow> json option \<Rightarrow> json option option \<Rightarrow> (federation_error, json option) res" where
  "preserveFederationConfig sg w desired existing =
     (case existing of
        None \<Rightarrow> Inr desired
      | Some old_text \<Rightarrow>
          (case (as_object desired, as_object old_text) of
             (Some next_cfg, Some old) \<Rightarrow>
               (case get_any next_cfg ''inbounds'' of
                  JArr items \<Rightarrow>
                    bind_res (merge_inbounds sg w (the_list (as_array (get_any old ''inbounds''))) items)
                      (\<lambda>merged. Inr (Some (JObj (put_key ''inbounds'' (JArr merged) next_cfg))))
                | _ \<Rightarrow> Inr (if desired = Some JNull then Some JNull else Some (JObj next_cfg)))
           | _ \<Rightarrow> Inl NotAnObject))"

section \<open>Namespaces\<close>

definition user_prefix :: "signed_grant \<Rightarrow> string" where
  "user_prefix s = fg_Namespace (sg_Grant s) @ ''.''"

lemma prefixes_overlap:
  assumes "has_prefix e (a @ ''.'')" and "has_prefix e (b @ ''.'')"
  shows "overlaps a b"
proof -
  obtain s t where "e = (a @ ''.'') @ s" "e = (b @ ''.'') @ t" using assms unfolding has_prefix_iff by blast
  then have e: "e = a @ CHR ''.'' # s" "e = b @ CHR ''.'' # t" by simp_all
  consider "length a = length b" | "length a < length b" | "length b < length a" by linarith
  then show ?thesis
  proof cases
    case 1
    then show ?thesis using e by (simp add: overlaps_def)
  next
    case 2
    have "take (Suc (length a)) e = a @ ''.''" by (simp add: e(1))
    moreover have "take (Suc (length a)) e = take (Suc (length a)) b" using 2 by (simp add: e(2))
    ultimately have "b = (a @ ''.'') @ drop (Suc (length a)) b" by (metis append_take_drop_id)
    then show ?thesis unfolding overlaps_def has_prefix_iff by blast
  next
    case 3
    have "take (Suc (length b)) e = b @ ''.''" by (simp add: e(2))
    moreover have "take (Suc (length b)) e = take (Suc (length b)) a" using 3 by (simp add: e(1))
    ultimately have "a = (b @ ''.'') @ drop (Suc (length b)) a" by (metis append_take_drop_id)
    then show ?thesis unfolding overlaps_def has_prefix_iff by blast
  qed
qed

lemma overlaps_sym: "overlaps a b = overlaps b a"
  by (auto simp: overlaps_def)

definition stored :: "federation_world \<Rightarrow> signed_grant \<Rightarrow> bool" where
  "stored w s \<longleftrightarrow> (\<exists>name. map_of (fed_grants w) name = Some (Stored s))"

definition grants_inv :: "signer \<Rightarrow> federation_world \<Rightarrow> bool" where
  "grants_inv sg w \<longleftrightarrow> fed_listing w \<and> sorted_keys (fed_grants w) \<and>
     (\<forall>name s. map_of (fed_grants w) name = Some (Stored s) \<longrightarrow> name = grant_file (fg_ID (sg_Grant s)) \<and>
        VerifyFederationGrant sg s = Inr () \<and> fed_owner w = Some (sg_OwnerPublicKey s)) \<and>
     (\<forall>s t. stored w s \<and> stored w t \<and> s \<noteq> t \<longrightarrow> \<not> overlaps (fg_Namespace (sg_Grant s)) (fg_Namespace (sg_Grant t)))"

lemma fed_fault_frame:
  assumes "fed_fault w = (b, w')"
  shows "fed_grants w' = fed_grants w \<and> fed_owner w' = fed_owner w \<and> fed_identity w' = fed_identity w \<and> fed_listing w' = fed_listing w"
  using assms by (auto simp: fed_fault_def split: list.splits)

lemma federationIdentity_frame:
  assumes "federationIdentity cr random w = (r, w')"
  shows "fed_grants w' = fed_grants w \<and> fed_owner w' = fed_owner w \<and> fed_listing w' = fed_listing w"
  using assms fed_fault_frame
  by (fastforce simp: federationIdentity_def split: prod.splits if_splits option.splits sum.splits)

lemma pin_owner_spec:
  assumes "pin_owner key w = (r, w')"
  shows "fed_grants w' = fed_grants w \<and> fed_listing w' = fed_listing w \<and>
    (fed_owner w' = fed_owner w \<or> (\<forall>c cs. fed_owner w \<noteq> Some (c # cs))) \<and> (is_ok r \<longrightarrow> fed_owner w' = Some key)"
  using assms fed_fault_frame
  by (fastforce simp: pin_owner_def split: prod.splits if_splits option.splits list.splits)

lemma check_overlap_spec:
  assumes "check_overlap grant entries = Inr ()" and "(name, Stored s) \<in> set entries" and "name \<noteq> grant_file (fg_ID grant)"
  shows "\<not> overlaps (fg_Namespace (sg_Grant s)) (fg_Namespace grant)"
  using assms
  by (induction grant entries rule: check_overlap.induct) (auto split: if_splits grant_entry.splits)

lemma store_grant_cases:
  assumes "store_grant sgr w = (r, w')"
  obtains (kept) "fed_grants w' = fed_grants w" "fed_owner w' = fed_owner w" "fed_listing w' = fed_listing w"
  | (written) "fed_grants w' = put_key (grant_file (fg_ID (sg_Grant sgr))) (Stored sgr) (fed_grants w)"
      "fed_owner w' = fed_owner w" "fed_listing w' = fed_listing w"
      "\<And>prior. map_of (fed_grants w) (grant_file (fg_ID (sg_Grant sgr))) = Some (Stored prior) \<Longrightarrow>
         fg_Namespace (sg_Grant sgr) = fg_Namespace (sg_Grant prior) \<and> fg_Revision (sg_Grant prior) < fg_Revision (sg_Grant sgr)"
proof -
  obtain b w1 where f: "fed_fault w = (b, w1)" by fastforce
  note frame = fed_fault_frame [OF f]
  consider "w' = w" | "w' = w1" | "w' = w1\<lparr>fed_grants := put_key (grant_file (fg_ID (sg_Grant sgr))) (Stored sgr) (fed_grants w1)\<rparr>"
      "\<And>prior. map_of (fed_grants w) (grant_file (fg_ID (sg_Grant sgr))) = Some (Stored prior) \<Longrightarrow>
         fg_Namespace (sg_Grant sgr) = fg_Namespace (sg_Grant prior) \<and> fg_Revision (sg_Grant prior) < fg_Revision (sg_Grant sgr)"
    using assms f
    by (fastforce simp: store_grant_def Let_def not_less order_le_less split: option.splits grant_entry.splits if_splits)
  then show thesis
  proof cases
    case 1
    then show thesis using kept by simp
  next
    case 2
    then show thesis using kept frame by simp
  next
    case 3
    then show thesis using written frame by simp
  qed
qed

lemma install_cases:
  assumes "installFederationGrant cr sg random server_id decoded w = (r, w')"
  obtains (nothing) "fed_grants w' = fed_grants w" "fed_listing w' = fed_listing w"
      "fed_owner w' = fed_owner w \<or> (\<forall>c cs. fed_owner w \<noteq> Some (c # cs))"
  | (stored) sgr w2 where "decoded = Some sgr" "VerifyFederationGrant sg sgr = Inr ()" "fed_grants w2 = fed_grants w"
      "fed_listing w2 = fed_listing w" "fed_owner w2 = Some (sg_OwnerPublicKey sgr)"
      "fed_owner w2 = fed_owner w \<or> (\<forall>c cs. fed_owner w \<noteq> Some (c # cs))"
      "check_overlap (sg_Grant sgr) (list_grants w2) = Inr ()" "store_grant sgr w2 = (r, w')"
proof (cases "\<exists>sgr. decoded = Some sgr \<and> VerifyFederationGrant sg sgr = Inr ()")
  case False
  then have "w' = w" using assms by (auto simp: installFederationGrant_def split: option.splits sum.splits)
  show thesis by (rule nothing) (simp_all add: \<open>w' = w\<close>)
next
  case True
  then obtain sgr where sgr: "decoded = Some sgr" "VerifyFederationGrant sg sgr = Inr ()" by blast
  obtain q w1 where q: "federationIdentity cr random w = (q, w1)" by fastforce
  note f1 = federationIdentity_frame [OF q]
  obtain p w2 where p: "pin_owner (sg_OwnerPublicKey sgr) w1 = (p, w2)" by fastforce
  note f2 = pin_owner_spec [OF p]
  show thesis
  proof (cases "\<exists>private public. q = Inr (private, public) \<and> grant_scope_ok cr random server_id public (sg_Grant sgr) = Inr ()")
    case False
    then have "w' = w1" using assms sgr q by (cases q) (auto simp: installFederationGrant_def split: sum.splits)
    show thesis by (rule nothing) (use \<open>w' = w1\<close> f1 in simp_all)
  next
    case True
    show thesis
    proof (cases "is_ok p \<and> check_overlap (sg_Grant sgr) (list_grants w2) = Inr ()")
      case False
      then have "w' = w2" using assms sgr q p True by (cases p) (auto simp: installFederationGrant_def split: sum.splits)
      show thesis by (rule nothing) (use \<open>w' = w2\<close> f1 f2 in simp_all)
    next
      case ok: True
      then have "store_grant sgr w2 = (r, w')" using assms sgr q p True by (cases p) (auto simp: installFederationGrant_def)
      show thesis by (rule stored [of sgr w2]) (use \<open>store_grant sgr w2 = (r, w')\<close> sgr ok f1 f2 in auto)
    qed
  qed
qed

lemma owner_fixed:
  assumes "grants_inv sg w" and "fed_owner w' = fed_owner w \<or> (\<forall>c cs. fed_owner w \<noteq> Some (c # cs))"
    and "fed_grants w' = fed_grants w" and "fed_listing w' = fed_listing w"
  shows "grants_inv sg w'"
proof -
  have "VerifyFederationGrant sg s = Inr () \<Longrightarrow> sg_OwnerPublicKey s \<noteq> []" for s
    by (auto simp: VerifyFederationGrant_def b64_decode_def split: option.splits if_splits)
  then have "fed_owner w' = fed_owner w \<or> (\<forall>name s. map_of (fed_grants w) name \<noteq> Some (Stored s))"
    using assms(1,2) unfolding grants_inv_def by (metis list.exhaust)
  then show ?thesis using assms by (auto simp: grants_inv_def stored_def)
qed

lemma install_inv:
  assumes "grants_inv sg w"
  shows "grants_inv sg (snd (installFederationGrant cr sg random server_id decoded w))"
proof -
  obtain r w' where i: "installFederationGrant cr sg random server_id decoded w = (r, w')" by fastforce
  then have "grants_inv sg w'"
  proof (cases rule: install_cases)
    case nothing
    then show ?thesis using owner_fixed [OF assms] by blast
  next
    case (stored sgr w2)
    have inv2: "grants_inv sg w2" using owner_fixed [OF assms] stored by blast
    let ?name = "grant_file (fg_ID (sg_Grant sgr))"
    from stored(8) show ?thesis
    proof (cases rule: store_grant_cases)
      case kept
      then show ?thesis using inv2 by (simp add: grants_inv_def stored_def)
    next
      case written
      have sorted: "sorted_keys (fed_grants w2)" and listing: "fed_listing w2"
        and each: "\<And>name s. map_of (fed_grants w2) name = Some (Stored s) \<Longrightarrow> name = grant_file (fg_ID (sg_Grant s)) \<and>
          VerifyFederationGrant sg s = Inr () \<and> fed_owner w2 = Some (sg_OwnerPublicKey s)"
        and apart: "\<And>s t. stored w2 s \<Longrightarrow> stored w2 t \<Longrightarrow> s \<noteq> t \<Longrightarrow> \<not> overlaps (fg_Namespace (sg_Grant s)) (fg_Namespace (sg_Grant t))"
        using inv2 by (auto simp: grants_inv_def)
      have lookup: "map_of (fed_grants w') = (map_of (fed_grants w2))(?name \<mapsto> Stored sgr)"
        using written(1) sorted by (simp add: map_of_put_key)
      have fresh: "\<not> overlaps (fg_Namespace (sg_Grant s)) (fg_Namespace (sg_Grant sgr))"
        if "map_of (fed_grants w2) name = Some (Stored s)" "name \<noteq> ?name" for name s
        using check_overlap_spec [OF stored(7), of name s] that listing by (simp add: list_grants_def map_of_SomeD)
      have "\<not> overlaps (fg_Namespace (sg_Grant s)) (fg_Namespace (sg_Grant t))" if "stored w' s" "stored w' t" "s \<noteq> t" for s t
      proof -
        have cases: "x = sgr \<or> (stored w2 x \<and> \<not> overlaps (fg_Namespace (sg_Grant x)) (fg_Namespace (sg_Grant sgr)))" if "stored w' x" for x
          using that fresh unfolding stored_def lookup by (auto split: if_splits)
        show ?thesis using cases [OF that(1)] cases [OF that(2)] that(3) apart overlaps_sym by blast
      qed
      moreover have "name = grant_file (fg_ID (sg_Grant s)) \<and> VerifyFederationGrant sg s = Inr () \<and> fed_owner w' = Some (sg_OwnerPublicKey s)"
        if "map_of (fed_grants w') name = Some (Stored s)" for name s
        using that each stored(2,5) written(2) unfolding lookup by (auto split: if_splits)
      moreover have "fed_listing w'" "sorted_keys (fed_grants w')"
        using written(1,3) listing sorted_put_key [OF sorted] by simp_all
      ultimately show ?thesis unfolding grants_inv_def by blast
    qed
  qed
  then show ?thesis using i by simp
qed

definition install_step ::
  "crypto \<Rightarrow> signer \<Rightarrow> string \<Rightarrow> federation_world \<Rightarrow> bytes \<times> bool list \<times> signed_grant option \<Rightarrow> federation_world" where
  "install_step cr sg server_id w ev = (case ev of (random, faults, decoded) \<Rightarrow>
     snd (installFederationGrant cr sg random server_id decoded (w\<lparr>fed_faults := faults\<rparr>)))"

interpretation grants: machine "install_step cr sg server_id" "grants_inv sg" for cr sg server_id
proof unfold_locales
  fix w and ev :: "bytes \<times> bool list \<times> signed_grant option"
  assume "grants_inv sg w"
  then have "grants_inv sg (w\<lparr>fed_faults := faults\<rparr>)" for faults by (simp add: grants_inv_def stored_def)
  then show "grants_inv sg (install_step cr sg server_id w ev)"
    using install_inv by (simp add: install_step_def split: prod.splits)
qed


section \<open>The owner and the consumers\<close>

lemma grant_prefixes_spec:
  "grant_prefixes sg tag entries = Inr prefixes \<Longrightarrow> (name, Stored s) \<in> set entries \<Longrightarrow>
   tag \<in> snd ` set (fg_Inbounds (sg_Grant s)) \<Longrightarrow> user_prefix s \<in> set prefixes"
  by (induction sg tag entries arbitrary: prefixes rule: grant_prefixes.induct)
    (auto simp: user_prefix_def bind_res_Inr split: grant_entry.splits sum.splits if_splits)

text \<open>The owner cannot add, change or remove a user of a consumer: when the owner replaces the users of an
  inbound, the users whose email lies in the namespace of a grant on this inbound are exactly
  those that were configured before, in their order, and all the others are exactly those the
  owner asks for that lie in no such namespace.\<close>
theorem owner_keeps_consumer_users:
  assumes "preserveFederationUsers sg w tag desired existing = Inr users" and "federationPrefixes sg tag w = Inr prefixes"
  shows "(\<forall>s. (\<exists>name. (name, Stored s) \<in> set (fed_grants w)) \<and> tag \<in> snd ` set (fg_Inbounds (sg_Grant s)) \<longrightarrow>
      filter (\<lambda>u. has_prefix (email_of u) (user_prefix s)) (the_list users) =
      filter (\<lambda>u. has_prefix (email_of u) (user_prefix s)) (the_list existing)) \<and>
    filter (\<lambda>u. \<not> belongs prefixes u) (the_list users) = filter (\<lambda>u. \<not> belongs prefixes u) (the_list desired)"
proof (cases "prefixes = []")
  case True
  have "\<not> ((\<exists>name. (name, Stored s) \<in> set (fed_grants w)) \<and> tag \<in> snd ` set (fg_Inbounds (sg_Grant s)))" for s
    using assms(2) True grant_prefixes_spec [of sg tag "fed_grants w" prefixes _ s]
    by (auto simp: federationPrefixes_def split: if_splits)
  then show ?thesis using assms True by (auto simp: preserveFederationUsers_def belongs_def)
next
  case False
  then have users: "the_list users = filter (\<lambda>u. \<not> belongs prefixes u) (the_list desired) @ filter (belongs prefixes) (the_list existing)"
    using assms by (auto simp: preserveFederationUsers_def the_list_def)
  have "filter (\<lambda>u. has_prefix (email_of u) (user_prefix s)) (the_list users) =
      filter (\<lambda>u. has_prefix (email_of u) (user_prefix s)) (the_list existing)"
    if "(name, Stored s) \<in> set (fed_grants w)" "tag \<in> snd ` set (fg_Inbounds (sg_Grant s))" for name s
  proof -
    have "user_prefix s \<in> set prefixes"
      using grant_prefixes_spec that assms(2) by (auto simp: federationPrefixes_def split: if_splits)
    then have "has_prefix (email_of u) (user_prefix s) \<Longrightarrow> belongs prefixes u" for u by (auto simp: belongs_def list_ex_iff)
    then have "(\<lambda>u. \<not> belongs prefixes u \<and> has_prefix (email_of u) (user_prefix s)) = (\<lambda>_. False)"
      "(\<lambda>u. belongs prefixes u \<and> has_prefix (email_of u) (user_prefix s)) = (\<lambda>u. has_prefix (email_of u) (user_prefix s))"
      by auto
    then show ?thesis unfolding users by simp
  qed
  then show ?thesis unfolding users by (auto simp: filter_empty_conv)
qed

section \<open>A sample Agent with one grant\<close>

definition grant_sample :: signed_grant where
  "grant_sample = SignFederationGrant signer_sample \<lparr>fg_Protocol = FederationProtocol, fg_ID = ''share'', fg_Revision = 1,
     fg_ServerID = ''s1'', fg_AgentPublicKey = b64_encode (sample_pub (replicate 32 1)), fg_ConsumerPublicKey = sample_key,
     fg_Namespace = ''team'', fg_Inbounds = [(''main'', ''in-1'')], fg_Actions = [''inbound.users.sync''], fg_ExpiresAt = 0,
     fg_Revoked = False\<rparr> []"

definition federation_sample :: federation_world where
  "federation_sample = \<lparr>fed_identity = None, fed_owner = None, fed_grants = [], fed_listing = True, fed_faults = []\<rparr>"

lemma grant_sample_verifies: "VerifyFederationGrant signer_sample grant_sample = Inr ()"
  by (simp add: grant_sample_def VerifyFederationGrant_def SignFederationGrant_def b64_decode_encode signer_sample_def)

lemma install_sample:
  "snd (installFederationGrant sample_crypto signer_sample (replicate 32 1) ''s1'' (Some grant_sample) federation_sample) =
   \<lparr>fed_identity = Some (b64_encode (replicate 32 1)), fed_owner = Some (sg_OwnerPublicKey grant_sample),
    fed_grants = [(''share.json'', Stored grant_sample)], fed_listing = True, fed_faults = []\<rparr>"
proof -
  have names: "safeName ''share''" "safeName ''team''" "safeName ''main''" "federationActionAllowed ''inbound.users.sync''" by code_simp+
  have "is_ok (NewClient sample_crypto (replicate 32 1) sample_key)"
    by (simp add: NewClient_def GenerateKey_def NewClientWithPrivate_def sample_decodeKey decodeKey_encode sample_crypto_def
        makeChannel_def makeAEAD_def Let_def)
  then have scope: "grant_scope_ok sample_crypto (replicate 32 1) ''s1'' (b64_encode (sample_pub (replicate 32 1))) (sg_Grant grant_sample) = Inr ()"
    using names by (simp add: grant_scope_ok_def grant_sample_def SignFederationGrant_def)
  have id: "federationIdentity sample_crypto (replicate 32 1) federation_sample =
      (Inr (b64_encode (replicate 32 1), b64_encode (sample_pub (replicate 32 1))),
       federation_sample\<lparr>fed_identity := Some (b64_encode (replicate 32 1))\<rparr>)"
    by (simp add: federationIdentity_def fed_fault_def federation_sample_def GenerateKey_def sample_crypto_def)
  have "fg_ID (sg_Grant grant_sample) = ''share''" by (simp add: grant_sample_def SignFederationGrant_def)
  then show ?thesis
    unfolding installFederationGrant_def
    using scope id grant_sample_verifies
    by (simp add: pin_owner_def fed_fault_def federation_sample_def list_grants_def store_grant_def Let_def grant_file_def)
qed


definition user_sample :: "string \<Rightarrow> json" where
  "user_sample e = JObj [(''email'', JStr e)]"

theorem owner_keeps_consumer_users_witness:
  "\<exists>users. preserveFederationUsers signer_sample (federation_sample\<lparr>fed_grants := [(''share.json'', Stored grant_sample)]\<rparr>) ''in-1''
      (Some [user_sample ''a'', user_sample ''team.forged'']) (Some [user_sample ''team.x'', user_sample ''b'']) = Inr users \<and>
    filter (\<lambda>u. has_prefix (email_of u) (user_prefix grant_sample)) (the_list users) = [user_sample ''team.x'']"
proof -
  let ?w = "federation_sample\<lparr>fed_grants := [(''share.json'', Stored grant_sample)]\<rparr>"
  have prefixes: "federationPrefixes signer_sample ''in-1'' ?w = Inr [''team.'']"
    using grant_sample_verifies by (simp add: federationPrefixes_def federation_sample_def) (simp add: grant_sample_def SignFederationGrant_def)
  obtain users where users: "preserveFederationUsers signer_sample ?w ''in-1''
      (Some [user_sample ''a'', user_sample ''team.forged'']) (Some [user_sample ''team.x'', user_sample ''b'']) = Inr users"
    using prefixes by (simp add: preserveFederationUsers_def)
  have "''in-1'' \<in> snd ` set (fg_Inbounds (sg_Grant grant_sample))" "user_prefix grant_sample = ''team.''"
    by (simp_all add: grant_sample_def SignFederationGrant_def user_prefix_def)
  then have "filter (\<lambda>u. has_prefix (email_of u) (user_prefix grant_sample)) (the_list users) =
      filter (\<lambda>u. has_prefix (email_of u) ''team.'') [user_sample ''team.x'', user_sample ''b'']"
    using owner_keeps_consumer_users [OF users prefixes] by (auto simp: the_list_def)
  then show ?thesis using users by (auto simp: user_sample_def get_string_def)
qed

end
