(* ===== verification/Geo_Assets.thy ===== *)
theory Geo_Assets
  imports Federation_Grants
begin

text \<open>
  Geographic datasets (internal/runtime/geodata.go): a configuration that mentions one needs its file,
  which is downloaded once, checked against the published checksum and never replaced. The HTTP
  client, SHA-256 and the dataset parser are parameters. A text is given by what it decodes to.
\<close>

datatype geo_error = ConfigTooLarge | GeoNotJson | BadGeoFile | GeoStat | GeoHTTP | GeoTooLarge | BadChecksum | ChecksumMismatch
  | BadDataset | GeoWrite

datatype asset = NotRegular | AssetStatError | Dataset string

record geo_env =
  http_get :: "string \<Rightarrow> (nat \<times> string) option"
  geo_sha256 :: "bytes \<Rightarrow> bytes"
  dataset_ok :: "string \<Rightarrow> string \<Rightarrow> bool"
  text_size :: "json option \<Rightarrow> nat"

record geo_world =
  assets :: "string \<Rightarrow> asset option"
  geo_faults :: "bool list"

definition geoReleaseURL :: string where
  "geoReleaseURL = ''https://github.com/Loyalsoldier/v2ray-rules-dat/releases/latest/download/''"

definition max_config :: nat where
  "max_config = 8388608"

fun mentions :: "string \<Rightarrow> json \<Rightarrow> bool" where
  "mentions p (JStr s) = has_prefix s p"
| "mentions p (JArr vs) = list_ex (mentions p) vs"
| "mentions p (JObj kvs) = list_ex (\<lambda>kv. mentions p (snd kv)) kvs"
| "mentions p _ = False"

definition needed :: "jmap \<Rightarrow> string \<Rightarrow> bool" where
  "needed cfg name =
     (let p = (if name = ''geoip.dat'' then ''geoip:'' else ''geosite:'') in
      mentions p (get_any cfg ''routing'') \<or> mentions p (get_any cfg ''dns''))"

definition geo_fetch :: "geo_env \<Rightarrow> string \<Rightarrow> nat \<Rightarrow> (geo_error, string) res" where
  "geo_fetch env url limit =
     (case http_get env url of
        None \<Rightarrow> Inl GeoHTTP
      | Some (status, body) \<Rightarrow>
          if status \<noteq> 200 then Inl GeoHTTP
          else let data = take (limit + 1) body in
            if length data > limit then Inl GeoTooLarge else Inr data)"

definition first_field :: "string \<Rightarrow> string" where
  "first_field s = takeWhile (\<lambda>c. \<not> is_space c) (dropWhile is_space s)"

definition downloadGeoAsset :: "geo_env \<Rightarrow> string \<Rightarrow> string \<Rightarrow> geo_world \<Rightarrow> (geo_error, unit) res \<times> geo_world" where
  "downloadGeoAsset env base name w =
     (case
        bind_res (geo_fetch env (base @ name @ ''.sha256sum'') 4096) (\<lambda>checksum.
        guard_res (length (first_field checksum) \<noteq> 64) BadChecksum
        (bind_res (geo_fetch env (base @ name) 67108864) (\<lambda>data.
        guard_res (\<not> equal_fold (first_field checksum) (hex_encode (geo_sha256 env (bytes_of data)))) ChecksumMismatch
        (guard_res (\<not> dataset_ok env name data) BadDataset (Inr data))))) of
        Inl e \<Rightarrow> (Inl e, w)
      | Inr data \<Rightarrow>
          (case geo_faults w of
             True # fs \<Rightarrow> (Inl GeoWrite, w\<lparr>geo_faults := fs\<rparr>)
           | False # fs \<Rightarrow> (Inr (), w\<lparr>assets := (assets w)(name \<mapsto> Dataset data), geo_faults := fs\<rparr>)
           | [] \<Rightarrow> (Inr (), w\<lparr>assets := (assets w)(name \<mapsto> Dataset data)\<rparr>)))"

definition ensure_asset :: "geo_env \<Rightarrow> jmap \<Rightarrow> string \<Rightarrow> geo_world \<Rightarrow> (geo_error, unit) res \<times> geo_world" where
  "ensure_asset env cfg name w =
     (if \<not> needed cfg name then (Inr (), w)
      else case assets w name of
        Some (Dataset s) \<Rightarrow> if s = [] then (Inl BadGeoFile, w) else (Inr (), w)
      | Some NotRegular \<Rightarrow> (Inl BadGeoFile, w)
      | Some AssetStatError \<Rightarrow> (Inl GeoStat, w)
      | None \<Rightarrow> downloadGeoAsset env geoReleaseURL name w)"

definition ensureGeoAssets :: "geo_env \<Rightarrow> json option \<Rightarrow> geo_world \<Rightarrow> (geo_error, unit) res \<times> geo_world" where
  "ensureGeoAssets env raw w =
     (if text_size env raw > max_config then (Inl ConfigTooLarge, w)
      else case as_object raw of
        None \<Rightarrow> (Inl GeoNotJson, w)
      | Some cfg \<Rightarrow>
          (case ensure_asset env cfg ''geoip.dat'' w of
             (Inl e, w1) \<Rightarrow> (Inl e, w1)
           | (Inr _, w1) \<Rightarrow> ensure_asset env cfg ''geosite.dat'' w1))"

section \<open>Properties\<close>

text \<open>A dataset as the download accepts it.\<close>

definition genuine :: "geo_env \<Rightarrow> string \<Rightarrow> string \<Rightarrow> bool" where
  "genuine env name data \<longleftrightarrow> length data \<le> 67108864 \<and> dataset_ok env name data \<and>
     (\<exists>checksum. geo_fetch env (geoReleaseURL @ name @ ''.sha256sum'') 4096 = Inr checksum \<and>
        equal_fold (first_field checksum) (hex_encode (geo_sha256 env (bytes_of data))))"

lemma geo_fetch_length: "geo_fetch env url limit = Inr data \<Longrightarrow> length data \<le> limit"
  by (auto simp: geo_fetch_def Let_def split: option.splits if_splits)

lemma download_spec:
  assumes "downloadGeoAsset env geoReleaseURL name w = (r, w')"
  shows "if is_ok r then \<exists>data. assets w' = (assets w)(name \<mapsto> Dataset data) \<and> genuine env name data else assets w' = assets w"
  using assms geo_fetch_length [of env "geoReleaseURL @ name" 67108864]
  by (auto simp: downloadGeoAsset_def genuine_def bind_res_Inr split: sum.splits list.splits bool.splits)

lemma ensure_asset_spec:
  assumes "ensure_asset env cfg name w = (r, w')"
  shows "(\<forall>n. assets w' n \<noteq> assets w n \<longrightarrow> n = name \<and> assets w name = None \<and> (\<exists>data. assets w' name = Some (Dataset data) \<and> genuine env name data)) \<and>
    (is_ok r \<and> needed cfg name \<longrightarrow> (\<exists>data. assets w' name = Some (Dataset data) \<and> (data \<noteq> [] \<or> genuine env name data)))"
proof (cases "needed cfg name \<and> assets w name = None")
  case True
  then have "downloadGeoAsset env geoReleaseURL name w = (r, w')" using assms by (simp add: ensure_asset_def)
  from download_spec [OF this] show ?thesis using True by (cases "is_ok r") (auto split: if_splits)
next
  case False
  then have "w' = w \<and> (is_ok r \<and> needed cfg name \<longrightarrow> (\<exists>data. assets w name = Some (Dataset data) \<and> data \<noteq> []))"
    using assms by (auto simp: ensure_asset_def split: if_splits option.splits asset.splits)
  then show ?thesis by auto
qed

text \<open>Geographic datasets are fetched only when missing and only with a matching checksum: preparing a
  configuration never changes a dataset that exists, every file it adds is within the size limit,
  has the published SHA-256 and parses, and when it succeeds each dataset the routing or DNS
  section mentions is there.\<close>
theorem geo_assets_verified:
  assumes "ensureGeoAssets env (Some (JObj cfg)) w = (r, w')"
  shows "(\<forall>name. assets w' name \<noteq> assets w name \<longrightarrow> assets w name = None \<and>
      (\<exists>data. assets w' name = Some (Dataset data) \<and> genuine env name data)) \<and>
    (is_ok r \<longrightarrow> (\<forall>name \<in> {''geoip.dat'', ''geosite.dat''}. needed cfg name \<longrightarrow> (\<exists>data. assets w' name = Some (Dataset data))))"
proof (cases "text_size env (Some (JObj cfg)) > max_config")
  case True
  then show ?thesis using assms by (auto simp: ensureGeoAssets_def)
next
  case False
  obtain q w1 where q: "ensure_asset env cfg ''geoip.dat'' w = (q, w1)" by fastforce
  note first = ensure_asset_spec [OF q]
  show ?thesis
  proof (cases q)
    case (Inl e)
    then have "w' = w1 \<and> \<not> is_ok r" using assms False q by (auto simp: ensureGeoAssets_def as_object_def)
    then show ?thesis using first by blast
  next
    case (Inr u)
    then have s: "ensure_asset env cfg ''geosite.dat'' w1 = (r, w')" using assms False q by (simp add: ensureGeoAssets_def as_object_def)
    note second = ensure_asset_spec [OF s]
    have other: "assets w' ''geoip.dat'' = assets w1 ''geoip.dat''" "assets w1 ''geosite.dat'' = assets w ''geosite.dat''"
      using first second by auto
    have "assets w' name \<noteq> assets w name \<longrightarrow> assets w name = None \<and>
      (\<exists>data. assets w' name = Some (Dataset data) \<and> genuine env name data)" for name
      using first second other by metis
    moreover have "is_ok r \<longrightarrow> (\<forall>name \<in> {''geoip.dat'', ''geosite.dat''}. needed cfg name \<longrightarrow> (\<exists>data. assets w' name = Some (Dataset data)))"
      using first second other(1) Inr by auto
    ultimately show ?thesis by blast
  qed
qed

section \<open>A sample\<close>

definition geo_sample :: geo_env where
  "geo_sample = \<lparr>http_get = (\<lambda>url. Some (200, if has_prefix (rev url) ''mus'' then replicate 64 CHR ''0'' else ''data'')),
     geo_sha256 = (\<lambda>_. replicate 32 0), dataset_ok = (\<lambda>_ _. True), text_size = (\<lambda>_. 9)\<rparr>"

definition routing_sample :: jmap where
  "routing_sample = [(''routing'', JObj [(''rules'', JArr [JStr ''geoip:private''])])]"

theorem geo_assets_verified_witness:
  "\<exists>w'. ensureGeoAssets geo_sample (Some (JObj routing_sample)) \<lparr>assets = (\<lambda>_. None), geo_faults = []\<rparr> = (Inr (), w') \<and>
     (\<exists>data. assets w' ''geoip.dat'' = Some (Dataset data))"
proof -
  have needs: "needed routing_sample ''geoip.dat''" "\<not> needed routing_sample ''geosite.dat''"
    by (simp_all add: needed_def routing_sample_def get_any_def)
  have "\<not> is_space CHR ''0''" by code_simp
  then have field: "first_field (replicate 64 CHR ''0'') = replicate 64 CHR ''0''" by (simp add: first_field_def)
  have hex: "hex_encode (replicate 32 0) = replicate 64 CHR ''0''"
    by (simp add: hex_encode_def hex_char_def map_replicate_const) (simp add: numeral_eq_Suc)
  have sums: "geo_fetch geo_sample (geoReleaseURL @ ''geoip.dat'' @ ''.sha256sum'') 4096 = Inr (replicate 64 CHR ''0'')"
    by (simp add: geo_fetch_def geo_sample_def geoReleaseURL_def)
  have data: "geo_fetch geo_sample (geoReleaseURL @ ''geoip.dat'') 67108864 = Inr ''data''"
    by (simp add: geo_fetch_def geo_sample_def geoReleaseURL_def)
  have "ensureGeoAssets geo_sample (Some (JObj routing_sample)) \<lparr>assets = (\<lambda>_. None), geo_faults = []\<rparr> =
      (Inr (), \<lparr>assets = (\<lambda>_. None)(''geoip.dat'' \<mapsto> Dataset ''data''), geo_faults = []\<rparr>)"
    using needs field hex sums data
    by (simp add: ensureGeoAssets_def as_object_def ensure_asset_def downloadGeoAsset_def max_config_def)
      (simp add: geo_sample_def equal_fold_def ensure_asset_def)
  then obtain w' where w': "ensureGeoAssets geo_sample (Some (JObj routing_sample)) \<lparr>assets = (\<lambda>_. None), geo_faults = []\<rparr> = (Inr (), w')"
    by blast
  from geo_assets_verified [OF this] show ?thesis using needs(1) w' by auto
qed

end
