(* ===== verification/Core_Runtime.thy ===== *)
theory Core_Runtime
  imports Firewall_Apply Geo_Assets
begin

text \<open>
  The embedded core (internal/runtime/core.go, proxy_network.go, bootstrap.go and parts of runtime.go):
  applying a configuration with its history and rollback, starting and stopping, the persisted
  generation and the IPv6 guard, on top of the firewall, the grants and the datasets. Xray itself is
  a record of parameters: which documents it accepts, starts and closes. Texts are given by what
  they decode to; file operations may fail as told by a list of faults.
\<close>

section \<open>State\<close>

datatype cipher = AES_128_GCM | AES_256_GCM | CHACHA20_POLY1305 | XCHACHA20_POLY1305

datatype account = Vless string string | Vmess string | Trojan string | Hysteria string | Shadowsocks string cipher

record xuser =
  xu_email :: string
  xu_level :: nat
  xu_account :: account

text \<open>A running instance: its document, the inbounds behind the IPv6 guard, the users of the inbounds
  that have a user manager.\<close>

record xray =
  xi_doc :: json
  xi_guard :: "string list option"
  xi_users :: "(string \<times> xuser list) list"

record 'k core_env =
  ce_fw :: "'k firewall_env"
  ce_geo :: geo_env
  ce_sign :: signer
  core_accepts :: "json option \<Rightarrow> bool"
  core_new :: "json \<Rightarrow> bool"
  core_starts :: "json \<Rightarrow> bool"
  core_closes :: bool
  core_guards :: bool
  core_users :: "json \<Rightarrow> (string \<times> xuser list) list"
  core_add :: "xuser \<Rightarrow> xuser list \<Rightarrow> xuser list option"
  core_remove :: "string \<Rightarrow> xuser list \<Rightarrow> xuser list option"
  core_stats :: "xray \<Rightarrow> (string \<times> int) list option"
  uuid_ok :: "string \<Rightarrow> bool"
  uuid_pair :: string
  map_order :: "xuser list \<Rightarrow> xuser list"

datatype core_file = NoConfig | UnreadableConfig | EmptyConfig | ConfigText "json option"

datatype recovery = NoPrevious | RestoreFailed | RecoverFailed | Restored

datatype core_error = CoreFirewall firewall_error | CoreRead | CoreFederation federation_error | CoreGeo geo_error | CoreInvalid
  | HistoryFailed | CoreWrite | CloseFailed | GenerationExhausted | GenerationWrite | NewFailed | BadGuardConfig | NoGuard
  | StartFailed | ApplyFailed recovery bool | NoTag | NoInbound | NotUsers | BadAccounts | LongCredentials | SS2022 | BadUserRecord
  | NoEmail | BadUUID | NoPassword | NoAuth | BadCipher | NoDynamicUsers | DuplicateEmail | CoreNotRunning | NoUserManager | SyncFailed
  | BadProxyOption | NotConfigObject | InvalidGeneration | LegacyMode | NoStats

text \<open>A stored answer to a federated command: the digest of the request and the sealed result.\<close>

datatype cached_result = BadCache | Cached string Wire_Channel.packet

record 'k node =
  nd_fw :: "'k firewall_world"
  nd_fed :: federation_world
  nd_geo :: geo_world
  nd_file :: core_file
  nd_history :: "json option list"
  nd_instance :: "xray option"
  nd_generation :: nat
  nd_stored :: "string option"
  nd_lastError :: "core_error option"
  nd_results :: "(string \<times> cached_result) list"
  nd_faults :: "bool list"

definition node_fault :: "'k node \<Rightarrow> bool \<times> 'k node" where
  "node_fault n = (case nd_faults n of [] \<Rightarrow> (False, n) | f # fs \<Rightarrow> (f, n\<lparr>nd_faults := fs\<rparr>))"

definition set_instance :: "xray option \<Rightarrow> 'k node \<Rightarrow> 'k node" where
  "set_instance x n = n\<lparr>nd_instance := x, nd_fw := (nd_fw n)\<lparr>running := (x \<noteq> None)\<rparr>\<rparr>"

text \<open>\<open>None\<close> when there is no text.\<close>

definition read_core :: "core_file \<Rightarrow> (core_error, json option option) res" where
  "read_core f = (case f of UnreadableConfig \<Rightarrow> Inl CoreRead | ConfigText d \<Rightarrow> Inr (Some d) | _ \<Rightarrow> Inr None)"

section \<open>Decoding\<close>

text \<open>Decoding into a struct: null and a missing field give the zero value.\<close>

definition str_field :: "jmap \<Rightarrow> string \<Rightarrow> string option" where
  "str_field kvs k = (case get_any kvs k of JNull \<Rightarrow> Some [] | JStr s \<Rightarrow> Some s | _ \<Rightarrow> None)"

definition obj_field :: "jmap \<Rightarrow> string \<Rightarrow> jmap option" where
  "obj_field kvs k = (case get_any kvs k of JNull \<Rightarrow> Some [] | JObj ob \<Rightarrow> Some ob | _ \<Rightarrow> None)"

definition raw_port :: "jmap \<Rightarrow> int option" where
  "raw_port kvs = (case map_of kvs ''port'' of
      Some JNull \<Rightarrow> Some 0
    | Some (JNum n) \<Rightarrow> (case Atoi n of (i, parsed) \<Rightarrow> if parsed then Some i else None)
    | _ \<Rightarrow> None)"

definition decode_inbound :: "json \<Rightarrow> inbound option" where
  "decode_inbound v =
     (case as_object (Some v) of
        None \<Rightarrow> None
      | Some kvs \<Rightarrow>
          (case (str_field kvs ''tag'', str_field kvs ''listen'', str_field kvs ''protocol'', obj_field kvs ''streamSettings'') of
             (Some tag, Some listen, Some protocol, Some stream) \<Rightarrow>
               map_option (\<lambda>network. \<lparr>in_tag = tag, in_listen = listen, in_port = raw_port kvs, in_protocol = protocol,
                 in_network = network\<rparr>) (str_field stream ''network'')
           | _ \<Rightarrow> None))"

definition decode_inbounds :: "json option \<Rightarrow> inbound list option" where
  "decode_inbounds d =
     (case as_object d of
        None \<Rightarrow> None
      | Some cfg \<Rightarrow>
          (case get_any cfg ''inbounds'' of
             JNull \<Rightarrow> Some [] | JArr vs \<Rightarrow> traverse_opt decode_inbound vs | _ \<Rightarrow> None))"

section \<open>The IPv6 guard\<close>

definition kept_items :: "(jmap \<Rightarrow> bool) \<Rightarrow> json list \<Rightarrow> json list" where
  "kept_items drop_item items = filter (\<lambda>item. \<not> drop_item (object item)) items"

definition unblock :: "jmap \<Rightarrow> jmap" where
  "unblock config =
     (let routed = (case get_any config ''routing'' of
            JObj route \<Rightarrow>
              (case get_any route ''rules'' of
                 JArr rules \<Rightarrow> put_key ''routing'' (JObj (put_key ''rules''
                   (JArr (kept_items (\<lambda>r. get_any r ''ruleTag'' = JStr ''aswired-block-ipv6'') rules)) route)) config
               | _ \<Rightarrow> config)
          | _ \<Rightarrow> config) in
      case get_any routed ''outbounds'' of
        JArr outs \<Rightarrow> put_key ''outbounds'' (JArr (kept_items (\<lambda>x. get_any x ''tag'' = JStr ''aswired-block-ipv6'' \<and>
          get_any x ''protocol'' = JStr ''blackhole'') outs)) routed
      | _ \<Rightarrow> routed)"

definition proxyNetworkConfig :: "(json option \<Rightarrow> nat) \<Rightarrow> json option \<Rightarrow> jmap \<Rightarrow> (core_error, json option) res" where
  "proxyNetworkConfig size_of raw params =
     (if size_of raw > max_config then Inl CoreInvalid
      else bind_res (case map_of params ''blockProxyIPv6'' of
          None \<Rightarrow> Inr True | Some (JBool b) \<Rightarrow> Inr b | Some _ \<Rightarrow> Inl BadProxyOption) (\<lambda>blocked.
      case raw of
        Some (JObj config) \<Rightarrow>
          (let marked = put_key ''aswired'' (JObj (put_key ''blockProxyIPv6'' (JBool blocked) (object (get_any config ''aswired'')))) config in
           Inr (Some (JObj (if blocked then marked else unblock marked))))
      | _ \<Rightarrow> Inl NotConfigObject))"

text \<open>The tags to guard, \<open>None\<close> when the configuration does not ask for it.\<close>

definition guard_tags :: "json \<Rightarrow> string list option option" where
  "guard_tags d =
     (case as_object (Some d) of
        None \<Rightarrow> None
      | Some cfg \<Rightarrow>
          (case (obj_field cfg ''aswired'', obj_field cfg ''api'') of
             (Some meta, Some api) \<Rightarrow>
               (case (get_any meta ''blockProxyIPv6'', str_field api ''tag'', get_any cfg ''inbounds'') of
                  (block, Some api_tag, inbounds) \<Rightarrow>
                    (case (if inbounds = JNull then Some [] else
                        Option.bind (as_array inbounds) (traverse_opt (\<lambda>v. Option.bind (as_object (Some v)) (\<lambda>k. str_field k ''tag'')))) of
                       None \<Rightarrow> None
                     | Some tags \<Rightarrow>
                         (case block of
                            JNull \<Rightarrow> Some None
                          | JBool b \<Rightarrow> Some (if b then Some (filter (\<lambda>t. api_tag = [] \<or> t \<noteq> api_tag) tags) else None)
                          | _ \<Rightarrow> None))
                | _ \<Rightarrow> None)
           | _ \<Rightarrow> None))"

definition configureProxyNetwork :: "'k core_env \<Rightarrow> json \<Rightarrow> (core_error, string list option) res" where
  "configureProxyNetwork env d =
     (case guard_tags d of
        None \<Rightarrow> Inl BadGuardConfig
      | Some None \<Rightarrow> Inr None
      | Some (Some tags) \<Rightarrow> if core_guards env then Inr (Some tags) else Inl NoGuard)"

section \<open>Starting and stopping\<close>

definition parseConfig :: "'k core_env \<Rightarrow> json option \<Rightarrow> bool" where
  "parseConfig env b = (text_size (ce_geo env) b \<le> max_config \<and> core_accepts env b)"

definition max_generation :: nat where
  "max_generation = 9007199254740990"

definition advanceGeneration :: "'k node \<Rightarrow> (core_error, unit) res \<times> 'k node" where
  "advanceGeneration n =
     (if nd_generation n \<ge> max_generation then (Inl GenerationExhausted, n)
      else case node_fault n of (failed, n1) \<Rightarrow>
        if failed then (Inl GenerationWrite, n1)
        else (Inr (), n1\<lparr>nd_stored := Some (nat_digits (Suc (nd_generation n))), nd_generation := Suc (nd_generation n)\<rparr>))"

text \<open>The firewall reads the configuration file of the node.\<close>

definition fw_env_of :: "'k core_env \<Rightarrow> 'k node \<Rightarrow> 'k firewall_env" where
  "fw_env_of env n = (ce_fw env)\<lparr>xray_config :=
     (case nd_file n of ConfigText d \<Rightarrow> Inr (decode_inbounds d) | EmptyConfig \<Rightarrow> Inr None | _ \<Rightarrow> Inl ReadFailed)\<rparr>"

text \<open>When the firewall stops the core, the instance is gone.\<close>

definition ensure_fw :: "'k core_env \<Rightarrow> 'k node \<Rightarrow> (core_error, unit) res \<times> 'k node" where
  "ensure_fw env n =
     (case ensureFirewall (fw_env_of env n) (nd_fw n) of (r, w) \<Rightarrow>
        (case r of Inl e \<Rightarrow> Inl (CoreFirewall e) | Inr u \<Rightarrow> Inr u,
         n\<lparr>nd_fw := w, nd_instance := (if running w then nd_instance n else None)\<rparr>))"

definition ensure_geo :: "'k core_env \<Rightarrow> json option \<Rightarrow> 'k node \<Rightarrow> (core_error, unit) res \<times> 'k node" where
  "ensure_geo env b n =
     (case ensureGeoAssets (ce_geo env) b (nd_geo n) of (r, g) \<Rightarrow>
        (case r of Inl e \<Rightarrow> Inl (CoreGeo e) | Inr u \<Rightarrow> Inr u, n\<lparr>nd_geo := g\<rparr>))"

text \<open>A new generation, then the instance with its guard, then its listeners.\<close>

definition boot :: "'k core_env \<Rightarrow> json option \<Rightarrow> 'k node \<Rightarrow> (core_error, xray) res \<times> 'k node" where
  "boot env b n =
     (case advanceGeneration n of
        (Inl e, n1) \<Rightarrow> (Inl e, n1)
      | (Inr _, n1) \<Rightarrow>
          (case b of
             None \<Rightarrow> (Inl NewFailed, n1)
           | Some d \<Rightarrow>
               if \<not> core_new env d then (Inl NewFailed, n1)
               else case configureProxyNetwork env d of
                 Inl e \<Rightarrow> (Inl e, n1)
               | Inr tags \<Rightarrow>
                   if core_starts env d then (Inr \<lparr>xi_doc = d, xi_guard = tags, xi_users = core_users env d\<rparr>, n1)
                   else (Inl StartFailed, n1)))"

definition start_core :: "'k core_env \<Rightarrow> 'k node \<Rightarrow> (core_error, unit) res \<times> 'k node" where
  "start_core env n =
     (case ensure_fw env n of
        (Inl e, n1) \<Rightarrow> (Inl e, n1)
      | (Inr _, n1) \<Rightarrow>
          if nd_instance n1 \<noteq> None then (Inr (), n1)
          else case nd_file n1 of
            ConfigText b \<Rightarrow>
              (case validateFirewallConfig (fw_env_of env n1) (nd_fw n1) (decode_inbounds b) of
                 Inl e \<Rightarrow> (Inl (CoreFirewall e), n1)
               | Inr _ \<Rightarrow>
                   (case ensure_geo env b n1 of
                      (Inl e, n2) \<Rightarrow> (Inl e, n2)
                    | (Inr _, n2) \<Rightarrow>
                        if \<not> parseConfig env b then (Inl CoreInvalid, n2)
                        else case boot env b n2 of
                          (Inl e, n3) \<Rightarrow> (Inl e, n3)
                        | (Inr x, n3) \<Rightarrow> (Inr (), set_instance (Some x) n3)))
          | EmptyConfig \<Rightarrow> (Inl CoreInvalid, n1)
          | _ \<Rightarrow> (Inl CoreRead, n1))"

definition stop_core :: "'k core_env \<Rightarrow> 'k node \<Rightarrow> (core_error, unit) res \<times> 'k node" where
  "stop_core env n =
     (if nd_instance n = None then (Inr (), n)
      else (if core_closes env then Inr () else Inl CloseFailed, set_instance None n))"

definition restart :: "'k core_env \<Rightarrow> 'k node \<Rightarrow> (core_error, unit) res \<times> 'k node" where
  "restart env n = (case stop_core env n of (Inl e, n1) \<Rightarrow> (Inl e, n1) | (Inr _, n1) \<Rightarrow> start_core env n1)"

section \<open>Applying a configuration\<close>

text \<open>Everything before the file is touched: the document that will be saved and the old text.\<close>

definition plan_config ::
  "'k core_env \<Rightarrow> json option \<Rightarrow> 'k node \<Rightarrow> (core_error, json option \<times> json option option) res" where
  "plan_config env b n =
     bind_res (read_core (nd_file n)) (\<lambda>old.
       case preserveFederationConfig (ce_sign env) (nd_fed n) b old of
         Inl e \<Rightarrow> Inl (CoreFederation e)
       | Inr merged \<Rightarrow>
           (case validateFirewallConfig (fw_env_of env n) (nd_fw n) (decode_inbounds merged) of
              Inl e \<Rightarrow> Inl (CoreFirewall e) | Inr _ \<Rightarrow> Inr (merged, old)))"

definition prepare ::
  "'k core_env \<Rightarrow> json option \<Rightarrow> 'k node \<Rightarrow> (core_error, json option \<times> json option option) res \<times> 'k node" where
  "prepare env b n =
     (case ensure_fw env n of
        (Inl e, n1) \<Rightarrow> (Inl e, n1)
      | (Inr _, n1) \<Rightarrow>
          (case plan_config env b n1 of
             Inl e \<Rightarrow> (Inl e, n1)
           | Inr (merged, old) \<Rightarrow>
               (case ensure_geo env merged n1 of
                  (Inl e, n2) \<Rightarrow> (Inl e, n2)
                | (Inr _, n2) \<Rightarrow>
                    if \<not> parseConfig env merged then (Inl CoreInvalid, n2) else (Inr (merged, old), n2))))"

definition save :: "json option \<Rightarrow> json option option \<Rightarrow> 'k node \<Rightarrow> (core_error, unit) res \<times> 'k node" where
  "save merged old n =
     (case (case old of
          None \<Rightarrow> (Inr (), n)
        | Some text \<Rightarrow> (case node_fault n of (failed, n1) \<Rightarrow>
            if failed then (Inl HistoryFailed, n1) else (Inr (), n1\<lparr>nd_history := nd_history n1 @ [text]\<rparr>))) of
        (Inl e, n1) \<Rightarrow> (Inl e, n1)
      | (Inr _, n1) \<Rightarrow>
          (case node_fault n1 of (failed, n2) \<Rightarrow>
             if failed then (Inl CoreWrite, n2) else (Inr (), n2\<lparr>nd_file := ConfigText merged\<rparr>)))"

definition rollback_core :: "'k core_env \<Rightarrow> json option option \<Rightarrow> 'k node \<Rightarrow> recovery \<times> 'k node" where
  "rollback_core env old n =
     (case old of
        Some text \<Rightarrow>
          (case node_fault n of (failed, n1) \<Rightarrow>
             if failed then (RestoreFailed, n1)
             else case start_core env (n1\<lparr>nd_file := ConfigText text\<rparr>) of
               (Inl e, n2) \<Rightarrow> (RecoverFailed, n2)
             | (Inr _, n2) \<Rightarrow> (Restored, n2))
      | None \<Rightarrow>
          (case node_fault n of (failed, n1) \<Rightarrow>
             if failed then (RestoreFailed, n1) else (NoPrevious, n1\<lparr>nd_file := NoConfig\<rparr>)))"

definition applyConfig :: "'k core_env \<Rightarrow> json option \<Rightarrow> 'k node \<Rightarrow> (core_error, unit) res \<times> 'k node" where
  "applyConfig env b n =
     (case prepare env b n of
        (Inl e, n1) \<Rightarrow> (Inl e, n1)
      | (Inr (merged, old), n1) \<Rightarrow>
          (case save merged old n1 of
             (Inl e, n2) \<Rightarrow> (Inl e, n2)
           | (Inr _, n2) \<Rightarrow>
               if nd_instance n2 \<noteq> None \<and> \<not> core_closes env then (Inl CloseFailed, set_instance None n2)
               else case boot env merged (set_instance None n2) of
                 (Inr x, n3) \<Rightarrow> (Inr (), (set_instance (Some x) n3)\<lparr>nd_lastError := None\<rparr>)
               | (Inl e, n3) \<Rightarrow>
                   (case rollback_core env old (n3\<lparr>nd_lastError := Some e\<rparr>) of (how, n4) \<Rightarrow>
                      (Inl (ApplyFailed how (nd_file n4 = ConfigText merged)), n4))))"

section \<open>Loading\<close>

definition initialCoreConfig :: json where
  "initialCoreConfig = JObj [(''aswired'', JObj [(''blockProxyIPv6'', JBool True)]), (''inbounds'', JArr []),
     (''log'', JObj [(''loglevel'', JStr ''warning'')]),
     (''outbounds'', JArr [JObj [(''protocol'', JStr ''freedom''), (''tag'', JStr ''direct'')],
        JObj [(''protocol'', JStr ''blackhole''), (''tag'', JStr ''block'')]]),
     (''policy'', JObj [(''levels'', JObj [(''0'', JObj [(''statsUserDownlink'', JBool True), (''statsUserUplink'', JBool True)])]),
        (''system'', JObj [(''statsInboundDownlink'', JBool True), (''statsInboundUplink'', JBool True),
           (''statsOutboundDownlink'', JBool True), (''statsOutboundUplink'', JBool True)])]),
     (''routing'', JObj [(''domainStrategy'', JStr ''AsIs''), (''rules'', JArr [])]), (''stats'', JObj [])]"

text \<open>A file that appears between the check and the creation is left alone.\<close>

definition initializeCoreConfig :: "'k node \<Rightarrow> (core_error, unit) res \<times> 'k node" where
  "initializeCoreConfig n =
     (case nd_file n of
        NoConfig \<Rightarrow>
          (case node_fault n of (failed, n1) \<Rightarrow>
             if failed then (Inl CoreWrite, n1) else (Inr (), n1\<lparr>nd_file := ConfigText (Some initialCoreConfig)\<rparr>))
      | UnreadableConfig \<Rightarrow> (Inl CoreRead, n)
      | _ \<Rightarrow> (Inr (), n))"

text \<open>The text of \<open>runtime-mode.json\<close>.\<close>

definition validateLegacyMode :: "core_file \<Rightarrow> (core_error, unit) res" where
  "validateLegacyMode f =
     (case f of
        NoConfig \<Rightarrow> Inr ()
      | ConfigText d \<Rightarrow>
          (case Option.bind (as_object d) (\<lambda>state. str_field state ''mode'') of
             None \<Rightarrow> Inl CoreRead
           | Some mode \<Rightarrow> if mode \<noteq> ''embedded'' then Inl LegacyMode else Inr ())
      | _ \<Rightarrow> Inl CoreRead)"

text \<open>\<open>strconv.ParseUint\<close> of the trimmed text, 64 bits.\<close>

definition load_generation :: "string option \<Rightarrow> (core_error, nat) res" where
  "load_generation saved =
     (case saved of
        None \<Rightarrow> Inr 0
      | Some t \<Rightarrow> (case parse_nat (trim_space t) of
          Some g \<Rightarrow> if g < 2 ^ 64 then Inr g else Inl InvalidGeneration
        | None \<Rightarrow> Inl InvalidGeneration))"

text \<open>A new process on the files of the old one; only what concerns the core.\<close>

definition New_runtime :: "core_file \<Rightarrow> 'k node \<Rightarrow> (core_error, unit) res \<times> 'k node" where
  "New_runtime mode n =
     (let fresh = (set_instance None n)\<lparr>nd_fw := (nd_fw n)\<lparr>running := False, firewallReady := False, managementPorts := {}\<rparr>,
        nd_lastError := None\<rparr> in
      case bind_res (validateLegacyMode mode) (\<lambda>_. load_generation (nd_stored n)) of
        Inl e \<Rightarrow> (Inl e, fresh)
      | Inr g \<Rightarrow> initializeCoreConfig (fresh\<lparr>nd_generation := g\<rparr>))"

section \<open>The firewall of a node\<close>

definition apply_fw :: "'k core_env \<Rightarrow> firewall_request \<Rightarrow> 'k node \<Rightarrow> (core_error, bool) res \<times> 'k node" where
  "apply_fw env req n =
     (case applyFirewall (fw_env_of env n) req (nd_fw n) of (r, w) \<Rightarrow>
        (case r of Inl e \<Rightarrow> Inl (CoreFirewall e) | Inr b \<Rightarrow> Inr b,
         n\<lparr>nd_fw := w, nd_instance := (if running w then nd_instance n else None)\<rparr>))"

end
