(* ===== verification/User_Sync.thy ===== *)
theory User_Sync
  imports Core_Runtime
begin

text \<open>
  Users of the running core (internal/runtime/users.go) and shared access to them
  (internal/runtime/federation.go): the synchronisation of an inbound with a list of users, by the
  owner and by the consumers of grants, and the execution of federated commands. The user manager
  of an inbound, the order in which Go walks a map and the JSON text of messages are parameters.
\<close>

section \<open>Accounts\<close>

text \<open>A JSON number that lies between 0 and 4294967295, truncated; 0 otherwise. Decimal arithmetic is exact
  here.\<close>

definition level_of :: "string \<Rightarrow> nat" where
  "level_of t =
     (let (neg, u) = (case t of c # cs \<Rightarrow> if c = CHR ''-'' then (True, cs) else (False, t) | [] \<Rightarrow> (False, t));
          mantissa = takeWhile (\<lambda>c. c \<noteq> CHR ''e'' \<and> c \<noteq> CHR ''E'') u;
          whole = takeWhile is_digit mantissa; frac = drop (Suc (length whole)) mantissa;
          x = fst (Atoi (drop (Suc (length mantissa)) u)) - int (length frac);
          m = (case parse_nat (whole @ frac) of None \<Rightarrow> 0 | Some k \<Rightarrow> k) in
      if neg then 0
      else if x \<ge> 0 then (if m * 10 ^ nat x \<le> 4294967295 then m * 10 ^ nat x else 0)
      else if m \<le> 4294967295 * 10 ^ nat (- x) then m div 10 ^ nat (- x) else 0)"

definition cipher_of :: "string \<Rightarrow> cipher option" where
  "cipher_of method =
     (let t = to_lower method in
      if t \<in> set [''aes-128-gcm'', ''aead_aes_128_gcm''] then Some AES_128_GCM
      else if t \<in> set [''aes-256-gcm'', ''aead_aes_256_gcm''] then Some AES_256_GCM
      else if t \<in> set [''chacha20-poly1305'', ''aead_chacha20_poly1305'', ''chacha20-ietf-poly1305''] then Some CHACHA20_POLY1305
      else if t \<in> set [''xchacha20-poly1305'', ''aead_xchacha20_poly1305'', ''xchacha20-ietf-poly1305''] then Some XCHACHA20_POLY1305
      else None)"

definition makeUser :: "'k core_env \<Rightarrow> string \<Rightarrow> jmap \<Rightarrow> (core_error, xuser) res" where
  "makeUser env kind raw =
     (let email = get_string raw ''email'';
          level = (case get_any raw ''level'' of JNum t \<Rightarrow> level_of t | _ \<Rightarrow> 0);
          password = get_string raw ''password'';
          user = (\<lambda>account. Inr \<lparr>xu_email = email, xu_level = level, xu_account = account\<rparr>) in
      if email = [] then Inl NoEmail
      else if kind = ''vless'' \<or> kind = ''vmess'' then
        (if \<not> uuid_ok env (get_string raw ''id'') then Inl BadUUID
         else if kind = ''vless'' then user (Vless (get_string raw ''id'') (get_string raw ''flow''))
         else user (Vmess (get_string raw ''id'')))
      else if kind = ''trojan'' then (if password = [] then Inl NoPassword else user (Trojan password))
      else if kind = ''hysteria'' then
        (if get_string raw ''auth'' = [] then Inl NoAuth else user (Hysteria (get_string raw ''auth'')))
      else if kind = ''shadowsocks'' then
        (case cipher_of (get_string raw ''method'') of
           None \<Rightarrow> Inl BadCipher
         | Some c \<Rightarrow> if password = [] then Inl BadCipher else user (Shadowsocks password c))
      else Inl NoDynamicUsers)"

text \<open>Accounts of a socks or http inbound.\<close>

fun make_accounts :: "string \<Rightarrow> string list \<Rightarrow> json list \<Rightarrow> (core_error, json list) res" where
  "make_accounts kind seen [] = Inr []"
| "make_accounts kind seen (v # vs) =
     (let email = get_string (object v) ''email''; password = get_string (object v) ''password'' in
      if as_map v = None \<or> email = [] \<or> password = [] \<or> email \<in> set seen then Inl BadAccounts
      else if kind = ''socks'' \<and> (length email > 255 \<or> length password > 255) then Inl LongCredentials
      else bind_res (make_accounts kind (email # seen) vs) (\<lambda>rest.
        Inr (JObj [(''pass'', JStr password), (''user'', JStr email)] # rest)))"

text \<open>The map of the users wanted, by email.\<close>

fun make_users :: "'k core_env \<Rightarrow> string \<Rightarrow> string list \<Rightarrow> json list \<Rightarrow> (core_error, xuser list) res" where
  "make_users env kind seen [] = Inr []"
| "make_users env kind seen (v # vs) =
     (case as_map v of
        None \<Rightarrow> Inl BadUserRecord
      | Some m \<Rightarrow>
          bind_res (makeUser env kind m) (\<lambda>u.
          if xu_email u \<in> set seen then Inl DuplicateEmail
          else bind_res (make_users env kind (xu_email u # seen) vs) (\<lambda>us. Inr (u # us))))"

section \<open>Synchronisation\<close>

definition has_tag :: "string \<Rightarrow> json \<Rightarrow> bool" where
  "has_tag tag v = (get_any (object v) ''tag'' = JStr tag)"

fun replace_first :: "('a \<Rightarrow> bool) \<Rightarrow> ('a \<Rightarrow> 'a) \<Rightarrow> 'a list \<Rightarrow> 'a list" where
  "replace_first P f [] = []"
| "replace_first P f (x # xs) = (if P x then f x # xs else x # replace_first P f xs)"

text \<open>\<open>entry\<close> is a reference into \<open>cfg\<close>: its settings are changed in place.\<close>

definition with_settings :: "(jmap \<Rightarrow> jmap) \<Rightarrow> json \<Rightarrow> json" where
  "with_settings f v = JObj (put_key ''settings'' (JObj (f (object (get_any (object v) ''settings'')))) (object v))"

definition update_inbound :: "string \<Rightarrow> (jmap \<Rightarrow> jmap) \<Rightarrow> jmap \<Rightarrow> json list \<Rightarrow> json" where
  "update_inbound tag f cfg inbounds =
     JObj (put_key ''inbounds'' (JArr (replace_first (has_tag tag) (with_settings f) inbounds)) cfg)"

text \<open>First the users that are not wanted as they are, then the wanted ones that are missing.\<close>

fun remove_stale :: "'k core_env \<Rightarrow> xuser list \<Rightarrow> xuser list \<Rightarrow> xuser list \<Rightarrow> (xuser list \<times> xuser list) option" where
  "remove_stale env [] desired live = Some (desired, live)"
| "remove_stale env (u # us) desired live =
     (if u \<in> set desired then remove_stale env us (filter (\<lambda>d. xu_email d \<noteq> xu_email u) desired) live
      else case core_remove env (xu_email u) live of
        None \<Rightarrow> None
      | Some live' \<Rightarrow> remove_stale env us desired live')"

fun add_missing :: "'k core_env \<Rightarrow> xuser list \<Rightarrow> xuser list \<Rightarrow> xuser list option" where
  "add_missing env [] live = Some live"
| "add_missing env (u # us) live =
     (case core_add env u live of None \<Rightarrow> None | Some live' \<Rightarrow> add_missing env us live')"

definition sync_live :: "'k core_env \<Rightarrow> xuser list \<Rightarrow> xuser list \<Rightarrow> xuser list option" where
  "sync_live env desired live =
     (case remove_stale env live desired live of
        None \<Rightarrow> None
      | Some (missing, kept) \<Rightarrow> add_missing env (map_order env missing) kept)"

definition fail_sync :: "'k core_env \<Rightarrow> 'k node \<Rightarrow> (core_error, unit) res \<times> 'k node" where
  "fail_sync env n = (Inl SyncFailed, snd (start_core env (snd (stop_core env n))))"

text \<open>\<open>updated\<close> is the configuration with the wanted users.\<close>

definition apply_users ::
  "'k core_env \<Rightarrow> string \<Rightarrow> xuser list \<Rightarrow> json \<Rightarrow> 'k node \<Rightarrow> (core_error, unit) res \<times> 'k node" where
  "apply_users env tag desired updated n =
     (if \<not> parseConfig env (Some updated) then (Inl CoreInvalid, n)
      else case nd_instance n of
        None \<Rightarrow> (Inl CoreNotRunning, n)
      | Some x \<Rightarrow>
          (case map_of (xi_users x) tag of
             None \<Rightarrow> (Inl NoUserManager, n)
           | Some live \<Rightarrow>
               (case sync_live env desired live of
                  None \<Rightarrow> fail_sync env n
                | Some live' \<Rightarrow>
                    (case node_fault (n\<lparr>nd_instance := Some (x\<lparr>xi_users := AList.update tag live' (xi_users x)\<rparr>)\<rparr>) of (failed, n1) \<Rightarrow>
                       if failed then fail_sync env n1
                       else (Inr (), n1\<lparr>nd_file := ConfigText (Some updated)\<rparr>)))))"

definition syncUsers :: "'k core_env \<Rightarrow> string \<Rightarrow> json \<Rightarrow> 'k node \<Rightarrow> (core_error, unit) res \<times> 'k node" where
  "syncUsers env tag raw n =
     (if tag = [] then (Inl NoTag, n)
      else case (case nd_file n of ConfigText d \<Rightarrow> as_object d | _ \<Rightarrow> None) of
        None \<Rightarrow> (Inl CoreRead, n)
      | Some cfg \<Rightarrow>
          (let inbounds = the_list (as_array (get_any cfg ''inbounds'')) in
           case find (has_tag tag) inbounds of
             None \<Rightarrow> (Inl NoInbound, n)
           | Some entry \<Rightarrow>
               (case raw of
                  JArr users \<Rightarrow>
                    (let kind = get_string (object entry) ''protocol'' in
                     if kind = ''socks'' \<or> kind = ''http'' then
                       (case make_accounts kind [] users of
                          Inl e \<Rightarrow> (Inl e, n)
                        | Inr accounts \<Rightarrow>
                            applyConfig env (Some (update_inbound tag (\<lambda>settings.
                              let secured = AList.delete ''clients'' (put_key ''accounts'' (JArr (if accounts = []
                                    then [JObj [(''pass'', JStr (uuid_pair env)), (''user'', JStr ''aswired-disabled'')]] else accounts)) settings)
                              in if kind = ''socks'' then put_key ''auth'' (JStr ''password'') secured else secured) cfg inbounds)) n)
                     else if kind = ''shadowsocks'' \<and>
                         has_prefix (get_string (object (get_any (object entry) ''settings'')) ''method'') ''2022-'' then (Inl SS2022, n)
                     else case make_users env kind [] users of
                       Inl e \<Rightarrow> (Inl e, n)
                     | Inr desired \<Rightarrow> apply_users env tag desired (update_inbound tag (put_key ''clients'' (JArr users)) cfg inbounds) n)
                | _ \<Rightarrow> (Inl NotUsers, n))))"

definition syncOwnerUsers :: "'k core_env \<Rightarrow> string \<Rightarrow> json \<Rightarrow> 'k node \<Rightarrow> (core_error, unit) res \<times> 'k node" where
  "syncOwnerUsers env tag raw n =
     (case raw of
        JArr desired \<Rightarrow>
          (case (case nd_file n of ConfigText d \<Rightarrow> as_object d | _ \<Rightarrow> None) of
             None \<Rightarrow> (Inl CoreRead, n)
           | Some cfg \<Rightarrow>
               (case find (has_tag tag) (the_list (as_array (get_any cfg ''inbounds''))) of
                  None \<Rightarrow> syncUsers env tag raw n
                | Some entry \<Rightarrow>
                    (case preserveFederationUsers (ce_sign env) (nd_fed n) tag (Some desired)
                        (as_array (get_any (object (get_any (object entry) ''settings'')) ''clients'')) of
                       Inl e \<Rightarrow> (Inl (CoreFederation e), n)
                     | Inr merged \<Rightarrow> syncUsers env tag (JArr (the_list merged)) n)))
      | _ \<Rightarrow> (Inl (CoreFederation UsersRequired), n))"

end
