(* ===== verification/Federation_Exec.thy ===== *)
theory Federation_Exec
  imports User_Sync
begin

text \<open>
  Federated commands (internal/runtime/federation.go): what a consumer may do with its part of the
  node, and the encrypted envelope it arrives in. An answer is stored before it is sent, so a command
  that is delivered again is answered and not executed again. Data that accompanies an error is left
  out.
\<close>

section \<open>Statistics\<close>

definition readStats :: "'k core_env \<Rightarrow> 'k node \<Rightarrow> (core_error, (string \<times> int) list) res" where
  "readStats env n =
     (case nd_instance n of
        None \<Rightarrow> Inl CoreNotRunning
      | Some x \<Rightarrow> (case core_stats env x of
          None \<Rightarrow> Inl NoStats
        | Some stat \<Rightarrow> Inr (foldl (\<lambda>values (name, v). put_key name v values) [] stat)))"

definition stats_data :: "(string \<times> int) list \<Rightarrow> nat \<Rightarrow> int \<Rightarrow> jmap" where
  "stats_data counters generation now = [(''counters'', JObj (map (\<lambda>(name, v). (name, JNum (itoa v))) counters)),
     (''generation'', JNum (nat_digits generation)), (''reset'', JBool False), (''timestamp'', JNum (itoa now))]"

section \<open>Scoped operations\<close>

definition federationInbound :: "federation_grant \<Rightarrow> string \<Rightarrow> 'k node \<Rightarrow> (core_error, json) res" where
  "federationInbound grant alias n =
     (case map_of (fg_Inbounds grant) alias of
        None \<Rightarrow> Inl (CoreFederation OutsideScope)
      | Some tag \<Rightarrow>
          if tag = [] then Inl (CoreFederation OutsideScope)
          else case (case nd_file n of ConfigText d \<Rightarrow> as_object d | _ \<Rightarrow> None) of
            None \<Rightarrow> Inl CoreRead
          | Some cfg \<Rightarrow>
              (case find (has_tag tag) (the_list (as_array (get_any cfg ''inbounds''))) of
                 None \<Rightarrow> Inl (CoreFederation NotConfigured)
               | Some item \<Rightarrow> Inr item))"

text \<open>The users a consumer sends, moved into its namespace.\<close>

fun scoped_users :: "string \<Rightarrow> json list \<Rightarrow> (core_error, json list) res" where
  "scoped_users prefix [] = Inr []"
| "scoped_users prefix (v # vs) =
     (case as_map v of
        None \<Rightarrow> Inl (CoreFederation BadUser)
      | Some user \<Rightarrow>
          (let email = get_string user ''email'' in
           if email = [] \<or> length email > 150 then Inl (CoreFederation BadEmail)
           else bind_res (scoped_users prefix vs) (\<lambda>rest.
             Inr (JObj (put_key ''email'' (JStr (if has_prefix email prefix then email else prefix @ email)) user) # rest))))"

text \<open>Existing users that are not objects are kept as empty ones.\<close>

definition existing_users :: "json \<Rightarrow> json list" where
  "existing_users inbound = map (\<lambda>v. JObj (object v))
     (the_list (as_array (get_any (object (get_any (object inbound) ''settings'')) ''clients'')))"

definition handleFederationOperation ::
  "'k core_env \<Rightarrow> int \<Rightarrow> federation_grant \<Rightarrow> command \<Rightarrow> 'k node \<Rightarrow> (core_error, jmap) res \<times> 'k node" where
  "handleFederationOperation env now grant cmd n =
     (let prefix = fg_Namespace grant @ ''.''; action = cmd_Action cmd in
      if action = ''status.get'' then
        (Inr [(''generation'', JNum (nat_digits (nd_generation n))),
           (''inbounds'', JObj (map (\<lambda>(alias, tag). (alias, JStr tag)) (fg_Inbounds grant))), (''mode'', JStr ''embedded''),
           (''namespace'', JStr (fg_Namespace grant)), (''running'', JBool (nd_instance n \<noteq> None))], n)
      else if action = ''stats.get'' then
        (case readStats env n of
           Inl e \<Rightarrow> (Inl e, n)
         | Inr counters \<Rightarrow>
             (Inr (stats_data (filter (\<lambda>kv. has_prefix (fst kv) (''user>>>'' @ prefix)) counters) (nd_generation n) now), n))
      else if action = ''inbound.users.get'' \<or> action = ''inbound.users.sync'' then
        (let alias = get_string (cmd_Params cmd) ''inbound'' in
         case federationInbound grant alias n of
           Inl e \<Rightarrow> (Inl e, n)
         | Inr inbound \<Rightarrow>
             (let existing = existing_users inbound;
                  mine = filter (\<lambda>u. has_prefix (email_of u) prefix) existing;
                  others = filter (\<lambda>u. \<not> has_prefix (email_of u) prefix) existing in
              if action = ''inbound.users.get'' then
                (Inr [(''inbound'', JStr alias), (''protocol'', get_any (object inbound) ''protocol''), (''users'', JArr mine)], n)
              else case get_any (cmd_Params cmd) ''users'' of
                JArr desired \<Rightarrow>
                  (case scoped_users prefix desired of
                     Inl e \<Rightarrow> (Inl e, n)
                   | Inr scoped \<Rightarrow>
                       (case syncUsers env (the (map_of (fg_Inbounds grant) alias)) (JArr (others @ scoped)) n of
                          (Inl e, n1) \<Rightarrow> (Inl e, n1)
                        | (Inr _, n1) \<Rightarrow>
                            (Inr [(''applied'', JBool True), (''inbound'', JStr alias), (''namespace'', JStr (fg_Namespace grant)),
                               (''persisted'', JBool True), (''users'', JNum (nat_digits (length desired)))], n1)))
              | _ \<Rightarrow> (Inl (CoreFederation UsersRequired), n)))
      else (Inl (CoreFederation ActionForbidden), n))"

section \<open>Envelopes\<close>

text \<open>The JSON texts, the clock (in seconds and milliseconds) and fresh randomness.\<close>

record federation_env =
  fx_crypto :: crypto
  fx_random :: bytes
  fx_server :: string
  fx_now :: int
  fx_millis :: int
  envelope_text :: "federation_envelope \<Rightarrow> bytes"
  request_of :: "bytes \<Rightarrow> federation_request option"
  result_bytes :: "command_result \<Rightarrow> bytes option"
  error_text :: "core_error \<Rightarrow> string"

definition digest :: "federation_env \<Rightarrow> bytes \<Rightarrow> string" where
  "digest fx b = hex_encode (sha256 (fx_crypto fx) b)"

text \<open>The grant of an envelope, checked against the pinned owner, the clock and the sender.\<close>

definition envelope_grant ::
  "signer \<Rightarrow> federation_env \<Rightarrow> federation_envelope \<Rightarrow> federation_world \<Rightarrow> (federation_error, federation_grant) res" where
  "envelope_grant sg fx envelope w =
     (if \<not> safeName (fe_ShareID envelope) then Inl BadShare
      else case map_of (fed_grants w) (grant_file (fe_ShareID envelope)) of
        Some (Stored sgr) \<Rightarrow>
          (case VerifyFederationGrant sg sgr of
             Inl e \<Rightarrow> Inl (FedVerify e)
           | Inr _ \<Rightarrow>
               if fed_owner w \<noteq> Some (sg_OwnerPublicKey sgr) then Inl OwnerChanged
               else let grant = sg_Grant sgr in
                 if fg_Revoked grant \<or> fg_ExpiresAt grant > 0 \<and> fg_ExpiresAt grant \<le> fx_now fx \<or>
                    fg_ConsumerPublicKey grant \<noteq> fe_ConsumerPublicKey envelope then Inl PermissionDenied
                 else Inr grant)
      | Some BadGrant \<Rightarrow> Inl FedRead
      | _ \<Rightarrow> Inl GrantUnavailable)"

text \<open>The request inside, bound to the grant, the Agent and the channel it came through.\<close>

definition request_binds :: "federation_grant \<Rightarrow> string \<Rightarrow> federation_envelope \<Rightarrow> federation_request \<Rightarrow> bool" where
  "request_binds grant public envelope request =
     (fr_Protocol request = FederationProtocol \<and> fr_ShareID request = fg_ID grant \<and> fr_Namespace request = fg_Namespace grant \<and>
      fr_ConsumerPublicKey request = fg_ConsumerPublicKey grant \<and> fr_AgentPublicKey request = public \<and>
      fr_EphemeralPublicKey request = hello_PublicKey (fe_Hello envelope) \<and> fr_GrantRevision request = fg_Revision grant)"

definition open_envelope ::
  "signer \<Rightarrow> federation_env \<Rightarrow> federation_grant \<Rightarrow> string \<Rightarrow> string \<Rightarrow> federation_envelope \<Rightarrow>
     (federation_error, federation_request \<times> channel) res" where
  "open_envelope sg fx grant private public envelope =
     (if fg_AgentPublicKey grant \<noteq> public \<or> fg_ServerID grant \<noteq> fx_server fx then Inl AgentChanged
      else case NewServer (fx_crypto fx) private (hello_PublicKey (fe_Hello envelope)) of
        Inl e \<Rightarrow> Inl FedChannel
      | Inr channel \<Rightarrow>
          (case Open (request_of fx) channel (hello_Packet (fe_Hello envelope)) of
             Inl e \<Rightarrow> Inl CiphertextFailed
           | Inr (request, ch) \<Rightarrow>
               if \<not> request_binds grant public envelope request then Inl BindingFailed
               else case VerifyFederationProof (fx_crypto fx) sg private request of
                 Inl e \<Rightarrow> Inl (FedVerify e)
               | Inr _ \<Rightarrow>
                   (let cmd = fr_Command request in
                    if cmd_Action cmd \<notin> set (fg_Actions grant) \<or> \<not> federationActionAllowed (cmd_Action cmd) then Inl ActionOutsideGrant
                    else if cmd_ID cmd = [] \<or> length (cmd_ID cmd) > 200 \<or> cmd_ID cmd \<noteq> fe_RequestID envelope then Inl BadCommandID
                    else Inr (request, ch))))"

text \<open>The name of the stored answer.\<close>

definition cache_key :: "federation_env \<Rightarrow> federation_grant \<Rightarrow> command \<Rightarrow> string" where
  "cache_key fx grant cmd = digest fx (bytes_of (fg_ID grant @ ''/'' @ cmd_ID cmd))"

definition run_federated ::
  "'k core_env \<Rightarrow> federation_env \<Rightarrow> federation_grant \<Rightarrow> federation_request \<Rightarrow> channel \<Rightarrow> string \<Rightarrow> 'k node \<Rightarrow>
     (federation_error, packet \<times> bool) res \<times> 'k node" where
  "run_federated env fx grant request channel hash n =
     (case handleFederationOperation env (fx_millis fx) grant (fr_Command request) n of (r, n1) \<Rightarrow>
        (case Seal (result_bytes fx) channel (case r of
            Inl e \<Rightarrow> \<lparr>res_ID = cmd_ID (fr_Command request), res_Status = ''failed'', res_Error = error_text fx e, res_Data = None\<rparr>
          | Inr data \<Rightarrow> \<lparr>res_ID = cmd_ID (fr_Command request), res_Status = ''success'', res_Error = [], res_Data = Some data\<rparr>) of
           Inl e \<Rightarrow> (Inl FedChannel, n1)
         | Inr (sealed, _) \<Rightarrow>
             (case node_fault n1 of (failed, n2) \<Rightarrow>
                if failed then (Inl ResultNotPersisted, n2)
                else (Inr (sealed, False),
                  n2\<lparr>nd_results := put_key (cache_key fx grant (fr_Command request)) (Cached hash sealed) (nd_results n2)\<rparr>))))"

definition executeFederation ::
  "'k core_env \<Rightarrow> federation_env \<Rightarrow> federation_envelope option \<Rightarrow> 'k node \<Rightarrow> (federation_error, packet \<times> bool) res \<times> 'k node" where
  "executeFederation env fx raw n =
     (case raw of
        None \<Rightarrow> (Inl BadEnvelope, n)
      | Some envelope \<Rightarrow>
          (case envelope_grant (ce_sign env) fx envelope (nd_fed n) of
             Inl e \<Rightarrow> (Inl e, n)
           | Inr grant \<Rightarrow>
               (case federationIdentity (fx_crypto fx) (fx_random fx) (nd_fed n) of
                  (Inl e, w) \<Rightarrow> (Inl e, n\<lparr>nd_fed := w\<rparr>)
                | (Inr (private, public), w) \<Rightarrow>
                    (let n1 = n\<lparr>nd_fed := w\<rparr> in
                     case open_envelope (ce_sign env) fx grant private public envelope of
                       Inl e \<Rightarrow> (Inl e, n1)
                     | Inr (request, channel) \<Rightarrow>
                         (let hash = digest fx (envelope_text fx envelope) in
                          case map_of (nd_results n1) (cache_key fx grant (fr_Command request)) of
                            Some BadCache \<Rightarrow> (Inl FedRead, n1)
                          | Some (Cached old sealed) \<Rightarrow> if old \<noteq> hash then (Inl IDReused, n1) else (Inr (sealed, True), n1)
                          | None \<Rightarrow>
                              if fr_IssuedAt request < fx_now fx - 300 \<or> fr_IssuedAt request > fx_now fx + 90 then (Inl RequestExpired, n1)
                              else run_federated env fx grant request channel hash n1)))))"

end
