(* ===== verification/Core_Machine.thy ===== *)
theory Core_Machine
  imports Federation_Exec
begin

text \<open>
  Runs of a node: the core, its firewall and its files under any sequence of commands and failures.
  The invariant ties them together: the listeners of a running core are those of the configuration
  on disk, and a saved port policy protects exactly the listeners it was bound to.
\<close>

section \<open>Bindings\<close>

definition bound :: "netip \<Rightarrow> 'k firewall_world \<Rightarrow> inbound list option \<Rightarrow> bool" where
  "bound net w cfg \<longleftrightarrow>
     (case intent w of None \<Rightarrow> True
      | Some s \<Rightarrow> st_rules s = [] \<or>
          firewallBindings (firewallTargets net (reserved w) cfg) (st_rules s) = Inr (st_bindings s))"

lemma bound_cong: "intent w' = intent w \<Longrightarrow> reserved w' = reserved w \<Longrightarrow> bound net w' cfg = bound net w cfg"
  by (simp add: bound_def split: option.splits)

lemma validate_bound:
  assumes "firewall_inv net w" "netip_of env = net"
  shows "validateFirewallConfig env w cfg = Inr () \<longleftrightarrow> bound net w cfg"
  using read_state_ok [OF assms(1)] assms(2)
  by (auto simp: validateFirewallConfig_def bound_def bind_rules_def bind_res_def split: option.splits sum.splits)

lemma commit_keeps:
  assumes "commit_state env s w = (r, w')" "intent w = Some s"
  shows "intent w' = Some s" "reserved w' = reserved w" "running w' \<Longrightarrow> running w" "is_ok r \<Longrightarrow> running w' = running w"
proof -
  note spec = commit_state_spec [OF assms(1)]
  show "intent w' = Some s"
    using spec assms(2) by (cases "pending w"; cases "pending w'") (auto simp: intent_def)
  show "reserved w' = reserved w" using spec by (simp add: reserved_ports)
  show "running w' \<Longrightarrow> running w" "is_ok r \<Longrightarrow> running w' = running w"
    using spec by (cases r; simp add: blocked_def)+
qed

lemma ensure_keeps:
  assumes "ensureFirewall env w = (r, w')" and "netip_of env = net" "firewall_inv net w"
  shows "intent w' = intent w \<and> reserved w' = reserved w \<and> (running w' \<longrightarrow> running w) \<and> (is_ok r \<longrightarrow> running w' = running w)"
  using assms
proof (cases rule: ensureFirewall_cases)
  case (same k)
  then show ?thesis by (simp add: core_def intent_def reserved_def split: option.splits)
next
  case idle
  then show ?thesis by (simp add: intent_def reserved_def split: option.splits)
next
  case (restored s k w4 q)
  have w4: "intent w4 = Some s" "reserved w4 = reserved w" "running w4 = running w"
    using restored(1,2) by (simp_all add: core_def intent_def reserved_def split: option.splits)
  show ?thesis using commit_keeps [OF restored(4) w4(1)] w4 restored(1,5) by simp
qed

lemma plan_bound:
  assumes "plan_policy env w req = Inr (old, nxt)" "netip_of env = net" "st_rules nxt \<noteq> []"
  obtains cfg where "xray_config env = Inr cfg"
    "firewallBindings (firewallTargets net (reserved w) cfg) (st_rules nxt) = Inr (st_bindings nxt)"
proof -
  have "bind_res (xray_config env) (\<lambda>cfg. bind_rules env w cfg (st_rules nxt)) = Inr (st_bindings nxt)"
    using assms(1,3) by (auto simp: plan_policy_def bind_res_Inr split: if_splits)
  then show thesis using that assms(2) by (auto simp: bind_res_Inr bind_rules_def)
qed

lemma recovered_intent:
  assumes "recovered env (intent w) w1 w'" "committed w1 = committed w"
  shows "intent w' = intent w" "running w' = running w1"
proof -
  have "pending w' = Absent" "restored (intent w) (committed w) (committed w')" "running w' = running w1"
    using assms by (simp_all add: recovered_def)
  then show "intent w' = intent w" "running w' = running w1"
    by (cases "intent w"; cases "file_state (pending w)"; simp add: intent_def)+
qed

text \<open>A policy change keeps the core bound: the new policy is bound to the configuration the running
  core has, a failed one leaves the old policy, and where neither is certain the core is stopped.\<close>

lemma applyFirewall_bound:
  assumes net: "netip_ok net" "netip_of env = net" and inv: "firewall_inv net w"
    and ap: "applyFirewall env req w = (r, w')" and cfg: "xray_config env = Inr cfg"
  shows "reserved w' = reserved w \<and> (running w' \<longrightarrow> running w) \<and> (running w' \<and> bound net w cfg \<longrightarrow> bound net w' cfg)"
  using ap
proof (cases rule: applyFirewall_cases)
  case (refused e)
  then show ?thesis
    using firewall_inv_core [of w' w net] bound_cong [of w' w net cfg] by (simp add: core_def reserved_def)
next
  case (again old nxt w1)
  have w1: "intent w1 = Some old" "reserved w1 = reserved w" "running w1 = running w" "intent w = Some old"
    using plan_policy_ok [OF net inv again(1)] firewall_inv_core [OF again(2)] again(2) by (simp_all add: core_def reserved_def)
  show ?thesis
    using commit_keeps [OF again(5) w1(1)] w1 bound_cong [of w' w net cfg] by simp
next
  case (changed old nxt obs w1)
  note plan = plan_policy_ok [OF net inv changed(1)]
  have w1: "committed w1 = committed w" "pending w1 = pending w" "reserved w1 = reserved w" "running w1 = running w"
    using changed(2) by (simp_all add: core_def reserved_def)
  note spec = execute_policy_spec [OF changed(3)]
  have res: "reserved w' = reserved w" using spec w1(3) by (simp add: file_change_def reserved_ports)
  show ?thesis
  proof (cases r)
    case (Inr b)
    then have i: "intent w' = Some nxt" "running w' = running w" using spec w1 by (simp_all add: intent_def)
    have "st_rules nxt \<noteq> [] \<Longrightarrow> firewallBindings (firewallTargets net (reserved w) cfg) (st_rules nxt) = Inr (st_bindings nxt)"
      by (rule plan_bound [OF changed(1) net(2)]) (simp_all add: cfg)
    then show ?thesis using i res by (auto simp: bound_def)
  next
    case (Inl e)
    then consider "core w' = core w1" | "recovered env old w1 w'" | "blocked w'" using spec by auto
    then show ?thesis
    proof cases
      case 1
      then have "intent w' = intent w" "running w' = running w"
        using firewall_inv_core [of w' w net] changed(2) by (simp_all add: core_def)
      then show ?thesis using bound_cong [of w' w net cfg] res by simp
    next
      case 2
      then have "intent w' = intent w" "running w' = running w"
        using recovered_intent [of env w w1 w'] plan w1 by simp_all
      then show ?thesis using bound_cong [of w' w net cfg] res by simp
    next
      case 3
      then show ?thesis using res by (simp add: blocked_def)
    qed
  qed
qed

text \<open>A new management port that no rule protects changes no binding.\<close>

lemma target_of_insert:
  "target_of net ins (insert p R) i = (case target_of net ins R i of None \<Rightarrow> None
     | Some t \<Rightarrow> if target_port t = p then None else Some t)"
  by (auto simp: target_of_def split: option.splits if_splits)

lemma targets_insert:
  "firewallTargets net (insert p R) cfg = filter (\<lambda>t. target_port t \<noteq> p) (firewallTargets net R cfg)"
proof (cases cfg)
  case (Some ins)
  have "List.map_filter (target_of net ins (insert p R)) xs =
      filter (\<lambda>t. target_port t \<noteq> p) (List.map_filter (target_of net ins R) xs)" for xs
    by (induction xs) (auto simp: map_filter_simps target_of_insert split: option.splits)
  then show ?thesis by (simp add: firewallTargets_def Some filter_sort)
qed (simp add: firewallTargets_def)

lemma find_filter: "(\<And>x. P x \<Longrightarrow> Q x) \<Longrightarrow> find P (filter Q xs) = find P xs"
  by (induction xs) auto

lemma bindings_insert:
  "\<forall>r \<in> set rs. rule_port r \<noteq> p \<Longrightarrow>
    firewallBindings (filter (\<lambda>t. target_port t \<noteq> p) ts) rs = firewallBindings ts rs"
proof (induction rs)
  case (Cons r rs)
  have "find (\<lambda>t. target_protocol t = rule_protocol r \<and> target_port t = rule_port r) (filter (\<lambda>t. target_port t \<noteq> p) ts) =
      find (\<lambda>t. target_protocol t = rule_protocol r \<and> target_port t = rule_port r) ts"
    using Cons.prems by (intro find_filter) auto
  then show ?case using Cons by (simp split: option.split)
qed simp

lemma UpdateConnection_bound:
  assumes "firewall_inv net w" "UpdateConnection net listen persisted w = (r, w')"
  shows "running w' = running w \<and> bound net w' cfg = bound net w cfg"
proof (cases "r = Inr ()")
  case False
  then have "w' = w"
    using assms(2) by (auto simp: UpdateConnection_def split: option.splits if_splits sum.splits prod.splits)
  then show ?thesis by simp
next
  case True
  then obtain host v p c j where u: "SplitHostPort listen = Some (host, v)" "Atoi v = (p, True)" "1 \<le> p"
    "readFirewallFile net (committed w) = Inr c" "\<not> protects c p" "readFirewallFile net (pending w) = Inr j" "\<not> protects j p"
    "w' = w\<lparr>managementPorts := insert p (insert (listen_port w) (managementPorts w)), listen_port := managementPort listen\<rparr>"
    using assms(2) by (auto simp: UpdateConnection_def split: option.splits if_splits sum.splits prod.splits)
  have "managementPort listen = p" using u(1-3) by (simp add: managementPort_def)
  then have res: "reserved w' = insert p (reserved w)" using u(8) by (auto simp: reserved_def)
  have same: "intent w' = intent w" "running w' = running w" using u(8) by (simp_all add: intent_def split: option.splits)
  have files: "c = file_state (committed w)" "j = file_state (pending w)"
    using u(4,6) assms(1) read_file_ok by (auto simp: firewall_inv_def)
  have "\<forall>r \<in> set (st_rules s). rule_port r \<noteq> p" if "intent w = Some s" for s
    using that u(5,7) files by (auto simp: intent_def protects_def list_ex_iff split: option.splits)
  then show ?thesis
    using same res by (auto simp: bound_def targets_insert bindings_insert split: option.splits)
qed

section \<open>The invariant of a node\<close>

text \<open>The running core has the listeners and the IPv6 guard of a configuration; its users may be newer.\<close>

definition agrees :: "xray \<Rightarrow> json \<Rightarrow> bool" where
  "agrees x d \<longleftrightarrow> decode_inbounds (Some (xi_doc x)) = decode_inbounds (Some d) \<and> guard_tags d = Some (xi_guard x)"

definition instance_ok :: "netip \<Rightarrow> 'k node \<Rightarrow> xray \<Rightarrow> bool" where
  "instance_ok net n x \<longleftrightarrow> (\<exists>d. nd_file n = ConfigText (Some d) \<and> agrees x d) \<and>
     bound net (nd_fw n) (decode_inbounds (Some (xi_doc x)))"

definition core_inv :: "netip \<Rightarrow> 'k node \<Rightarrow> bool" where
  "core_inv net n \<longleftrightarrow> machine_inv net (nd_fw n) \<and> running (nd_fw n) = (nd_instance n \<noteq> None) \<and>
     load_generation (nd_stored n) = Inr (nd_generation n) \<and> (\<forall>x. nd_instance n = Some x \<longrightarrow> instance_ok net n x)"

text \<open>What every operation of a node does: the invariant is kept, the generation grows, and strictly so when a
  core is started.\<close>

definition advances :: "netip \<Rightarrow> 'k node \<Rightarrow> 'k node \<Rightarrow> bool" where
  "advances net n n' \<longleftrightarrow> core_inv net n' \<and> nd_generation n \<le> nd_generation n' \<and>
     (nd_instance n = None \<and> nd_instance n' \<noteq> None \<longrightarrow> nd_generation n < nd_generation n')"

definition at_net :: "netip \<Rightarrow> 'k core_env \<Rightarrow> bool" where
  "at_net net env \<longleftrightarrow> netip_of (ce_fw env) = net"

lemma fw_env_of_net [simp]: "netip_of (fw_env_of env n) = netip_of (ce_fw env)"
  by (simp add: fw_env_of_def)

lemma node_fault_eq:
  assumes "node_fault n = (f, n')"
  obtains fs where "n' = n\<lparr>nd_faults := fs\<rparr>"
  using assms by (cases "nd_faults n") (auto simp: node_fault_def intro: that [of "nd_faults n"])

lemma core_inv_frame:
  assumes "core_inv net n" "nd_fw n' = nd_fw n" "nd_instance n' = nd_instance n" "nd_file n' = nd_file n"
    "nd_stored n' = nd_stored n" "nd_generation n' = nd_generation n"
  shows "core_inv net n'"
  using assms by (simp add: core_inv_def instance_ok_def)

lemma advances_frame:
  assumes "core_inv net n" "nd_fw n' = nd_fw n" "nd_instance n' = nd_instance n" "nd_file n' = nd_file n"
    "nd_stored n' = nd_stored n" "nd_generation n' = nd_generation n"
  shows "advances net n n'"
  using core_inv_frame [OF assms] assms(3,6) by (auto simp: advances_def)

lemma advances_refl: "core_inv net n \<Longrightarrow> advances net n n"
  by (rule advances_frame) simp_all

lemma advances_trans:
  assumes "advances net n n1" "advances net n1 n2"
  shows "advances net n n2"
proof (cases "nd_instance n1 = None")
  case True
  then show ?thesis using assms by (auto simp: advances_def)
next
  case False
  then show ?thesis using assms by (auto simp: advances_def)
qed

lemma trim_digits: "trim_space (nat_digits g) = nat_digits g"
proof (rule trim_space_plain)
  fix c assume "c \<in> set (nat_digits g)"
  then have "is_digit c" by (rule nat_digits_set)
  then show "\<not> is_space c" by (auto simp: is_digit_def is_space_def)
qed

lemma load_stored: "g < 2 ^ 64 \<Longrightarrow> load_generation (Some (nat_digits g)) = Inr g"
  by (simp add: load_generation_def trim_digits parse_nat_digits)

lemma advanceGeneration_spec:
  assumes "advanceGeneration n = (r, n')"
  obtains (failed) e fs where "r = Inl e" "n' = n\<lparr>nd_faults := fs\<rparr>"
  | (advanced) fs where "r = Inr ()" "nd_generation n < max_generation"
      "n' = n\<lparr>nd_faults := fs, nd_stored := Some (nat_digits (Suc (nd_generation n))), nd_generation := Suc (nd_generation n)\<rparr>"
proof (cases "nd_generation n \<ge> max_generation")
  case True
  then have "r = Inl GenerationExhausted" "n' = n\<lparr>nd_faults := nd_faults n\<rparr>"
    using assms by (simp_all add: advanceGeneration_def)
  then show thesis by (rule failed)
next
  case False
  obtain f n1 where f: "node_fault n = (f, n1)" by fastforce
  then obtain fs where n1: "n1 = n\<lparr>nd_faults := fs\<rparr>" by (rule node_fault_eq)
  show thesis
  proof (cases f)
    case True
    then have "r = Inl GenerationWrite" "n' = n\<lparr>nd_faults := fs\<rparr>"
      using assms f n1 False by (simp_all add: advanceGeneration_def)
    then show thesis by (rule failed)
  next
    case ok: False
    show thesis
      by (rule advanced [of fs]) (use assms f n1 False ok in \<open>simp_all add: advanceGeneration_def\<close>)
  qed
qed

lemma configure_guard: "configureProxyNetwork env d = Inr tags \<Longrightarrow> guard_tags d = Some tags"
  by (auto simp: configureProxyNetwork_def split: option.splits if_splits)

text \<open>A start uses a generation that was never used, also when it fails later.\<close>

lemma boot_spec:
  assumes "boot env b n = (r, n')" "core_inv net n" "nd_instance n = None"
  shows "core_inv net n' \<and> nd_fw n' = nd_fw n \<and> nd_instance n' = None \<and> nd_file n' = nd_file n \<and> nd_fed n' = nd_fed n \<and>
    nd_history n' = nd_history n \<and> nd_generation n \<le> nd_generation n' \<and>
    (\<forall>x. r = Inr x \<longrightarrow> nd_generation n < nd_generation n' \<and> b = Some (xi_doc x) \<and> guard_tags (xi_doc x) = Some (xi_guard x))"
proof -
  obtain q n1 where a: "advanceGeneration n = (q, n1)" by fastforce
  then show ?thesis
  proof (cases rule: advanceGeneration_spec)
    case (failed e fs)
    then have "r = Inl e" "n' = n1" using assms(1) a by (simp_all add: boot_def)
    then show ?thesis using failed assms(2,3) core_inv_frame [OF assms(2), of n'] by simp
  next
    case (advanced fs)
    have n': "n' = n1"
      using assms(1) a advanced(1) by (auto simp: boot_def split: option.splits if_splits sum.splits)
    have good: "b = Some (xi_doc x) \<and> guard_tags (xi_doc x) = Some (xi_guard x)" if "r = Inr x" for x
      using assms(1) a advanced(1) that
      by (auto simp: boot_def dest: configure_guard split: option.splits if_splits sum.splits)
    have "load_generation (nd_stored n1) = Inr (nd_generation n1)"
      using advanced(2,3) by (simp add: load_stored max_generation_def)
    then have "core_inv net n1"
      using assms(2,3) advanced(3) by (simp add: core_inv_def)
    then show ?thesis using n' good advanced(3) assms(3) by simp
  qed
qed

lemma ensure_fw_spec:
  assumes "ensure_fw env n = (r, n')" "core_inv net n" "at_net net env"
  shows "core_inv net n' \<and> nd_generation n' = nd_generation n \<and> nd_file n' = nd_file n \<and> nd_fed n' = nd_fed n \<and>
    nd_history n' = nd_history n \<and> (nd_instance n' = nd_instance n \<or> nd_instance n' = None \<and> r \<noteq> Inr ())"
proof -
  obtain q w where e: "ensureFirewall (fw_env_of env n) (nd_fw n) = (q, w)" by fastforce
  have fw: "firewall_inv net (nd_fw n)" "netip_ok net" using assms(2) by (simp_all add: core_inv_def machine_inv_def)
  have net: "netip_of (fw_env_of env n) = net" using assms(3) by (simp add: at_net_def)
  note keeps = ensure_keeps [OF e net fw(1)]
  have inv: "machine_inv net w" using ensureFirewall_inv [OF net fw(1) e] fw(2) by (simp add: machine_inv_def)
  have n': "n' = n\<lparr>nd_fw := w, nd_instance := (if running w then nd_instance n else None)\<rparr>" and r: "is_ok r = is_ok q"
    using assms(1) e by (cases q; auto simp: ensure_fw_def)+
  have "bound net w cfg = bound net (nd_fw n) cfg" for cfg using keeps bound_cong [of w "nd_fw n"] by simp
  then have "core_inv net n'"
    using assms(2) keeps inv by (auto simp: core_inv_def n' instance_ok_def)
  moreover have "running w = running (nd_fw n) \<or> r \<noteq> Inr ()" using keeps r by (cases r) auto
  ultimately show ?thesis using assms(2) keeps by (auto simp: n' core_inv_def)
qed

lemma ensure_geo_eq:
  assumes "ensure_geo env b n = (r, n')"
  obtains g where "n' = n\<lparr>nd_geo := g\<rparr>"
  using assms by (auto simp: ensure_geo_def split: prod.splits intro: that)

lemma set_instance_None:
  assumes "core_inv net n"
  shows "core_inv net (set_instance None n)"
proof -
  have "machine_inv net ((nd_fw n)\<lparr>running := False\<rparr>)"
    using assms same_world_inv [of "(nd_fw n)\<lparr>running := False\<rparr>" "nd_fw n" net]
    by (simp add: core_inv_def machine_inv_def ports_def)
  then show ?thesis using assms by (simp add: core_inv_def set_instance_def)
qed

lemma bound_running [simp]: "bound net (w\<lparr>running := b\<rparr>) cfg = bound net w cfg"
  by (rule bound_cong) (simp_all add: intent_def reserved_def split: option.splits)

text \<open>An instance of a validated configuration that is on disk may be put in place.\<close>

lemma set_instance_Some:
  assumes "core_inv net n" "nd_file n = ConfigText (Some (xi_doc x))" "guard_tags (xi_doc x) = Some (xi_guard x)"
    "bound net (nd_fw n) (decode_inbounds (Some (xi_doc x)))"
  shows "core_inv net (set_instance (Some x) n)"
proof -
  have "machine_inv net ((nd_fw n)\<lparr>running := True\<rparr>)"
    using assms same_world_inv [of "(nd_fw n)\<lparr>running := True\<rparr>" "nd_fw n" net]
    by (simp add: core_inv_def machine_inv_def ports_def)
  then show ?thesis using assms by (simp add: core_inv_def set_instance_def instance_ok_def agrees_def)
qed

lemma start_core_cases:
  assumes "start_core env n = (r, n')" "ensure_fw env n = (q, n1)"
  obtains (stays) "n' = n1" "r = Inr () \<longrightarrow> q = Inr () \<and> nd_instance n1 \<noteq> None"
  | (tries) b where "q = Inr ()" "nd_instance n1 = None" "nd_file n1 = ConfigText b"
      "validateFirewallConfig (fw_env_of env n1) (nd_fw n1) (decode_inbounds b) = Inr ()"
proof (cases q)
  case (Inl e)
  then show thesis using assms by (intro stays) (auto simp: start_core_def)
next
  case q: (Inr u)
  show thesis
  proof (cases "nd_instance n1")
    case (Some x)
    then show thesis using assms q stays by (simp add: start_core_def)
  next
    case None
    show thesis
    proof (cases "\<exists>b. nd_file n1 = ConfigText b")
      case False
      then have "n' = n1 \<and> r \<noteq> Inr ()"
        using assms q None by (cases "nd_file n1") (auto simp: start_core_def)
      then show thesis using stays by simp
    next
      case True
      then obtain b where ConfigText: "nd_file n1 = ConfigText b" by blast
      show thesis
      proof (cases "validateFirewallConfig (fw_env_of env n1) (nd_fw n1) (decode_inbounds b)")
        case (Inl e)
        then show thesis using assms q None ConfigText by (intro stays) (auto simp: start_core_def)
      next
        case (Inr v)
        then show thesis using tries [of b] q None ConfigText by simp
      qed
    qed
  qed
qed

lemma start_core_spec:
  assumes "start_core env n = (r, n')" "core_inv net n" "at_net net env"
  shows "advances net n n' \<and> nd_file n' = nd_file n \<and> nd_fed n' = nd_fed n \<and> nd_history n' = nd_history n \<and>
    (r = Inr () \<longrightarrow> nd_instance n' \<noteq> None \<and>
      (nd_instance n = None \<longrightarrow> (\<exists>x. nd_instance n' = Some x \<and> nd_file n = ConfigText (Some (xi_doc x)))))"
proof -
  obtain q n1 where e: "ensure_fw env n = (q, n1)" by fastforce
  note spec = ensure_fw_spec [OF e assms(2,3)]
  have same: "nd_file n1 = nd_file n" "nd_fed n1 = nd_fed n" "nd_history n1 = nd_history n" "nd_generation n1 = nd_generation n"
    and inv1: "core_inv net n1" using spec by simp_all
  have done_n1: "advances net n n1" using spec by (auto simp: advances_def)
  show ?thesis
    using assms(1) e
  proof (cases rule: start_core_cases)
    case stays
    then show ?thesis using done_n1 same spec by auto
  next
    case (tries b)
    note b = tries(3,4)
    have bnd: "bound net (nd_fw n1) (decode_inbounds b)"
      using b(2) validate_bound [of net "nd_fw n1" "fw_env_of env n1"] inv1 assms(3)
      by (simp add: core_inv_def machine_inv_def at_net_def)
    obtain g n2 where g: "ensure_geo env b n1 = (g, n2)" by fastforce
    then obtain geo where n2: "n2 = n1\<lparr>nd_geo := geo\<rparr>" by (rule ensure_geo_eq)
    have inv2: "core_inv net n2" using core_inv_frame [OF inv1, of n2] by (simp add: n2)
    obtain v n3 where v: "boot env b n2 = (v, n3)" by fastforce
    have "nd_instance n2 = None" using tries by (simp add: n2)
    note boot = boot_spec [OF v inv2 this]
    have "start_core env n = (case g of Inl e \<Rightarrow> (Inl e, n2) | Inr _ \<Rightarrow>
        if \<not> parseConfig env b then (Inl CoreInvalid, n2)
        else case v of Inl e \<Rightarrow> (Inl e, n3) | Inr x \<Rightarrow> (Inr (), set_instance (Some x) n3))"
      using e tries g v by (cases g; cases v) (simp_all add: start_core_def)
    note unfolded = this [unfolded assms(1)]
    show ?thesis
    proof (cases "\<exists>x. g = Inr () \<and> parseConfig env b \<and> v = Inr x")
      case False
      then have "(n' = n2 \<or> n' = n3) \<and> r \<noteq> Inr ()"
        using unfolded by (cases g; cases v) (auto split: if_splits)
      then show ?thesis
        using inv2 boot same tries spec by (auto simp: advances_def n2)
    next
      case booted: True
      then obtain x where x: "v = Inr x" by blast
      then have n': "r = Inr ()" "n' = set_instance (Some x) n3" using unfolded booted by simp_all
      have "core_inv net n'"
        unfolding n'(2) using boot x b(1) bnd by (intro set_instance_Some) (auto simp: n2)
      then show ?thesis
        using n' boot x same tries spec b(1) by (auto simp: advances_def n2 set_instance_def)
    qed
  qed
qed

lemma stop_spec:
  assumes "stop_core env n = (r, n')" "core_inv net n"
  shows "advances net n n' \<and> nd_instance n' = None \<and> nd_file n' = nd_file n \<and> nd_generation n' = nd_generation n"
proof (cases "nd_instance n = None")
  case True
  then show ?thesis using assms advances_refl [OF assms(2)] by (simp add: stop_core_def)
next
  case False
  then have "n' = set_instance None n" using assms(1) by (auto simp: stop_core_def)
  then show ?thesis using set_instance_None [OF assms(2)] by (simp add: advances_def set_instance_def)
qed

lemma restart_spec:
  assumes "restart env n = (r, n')" "core_inv net n" "at_net net env"
  shows "advances net n n'"
proof -
  obtain q n1 where s: "stop_core env n = (q, n1)" by fastforce
  note stop = stop_spec [OF s assms(2)]
  then have inv: "core_inv net n1" by (simp add: advances_def)
  obtain v n2 where t: "start_core env n1 = (v, n2)" by fastforce
  have "advances net n1 n2" using start_core_spec [OF t inv assms(3)] by simp
  then have "advances net n n2" using stop by (auto intro: advances_trans)
  moreover have "n' = n1 \<or> n' = n2" using assms(1) s t by (auto simp: restart_def split: sum.splits)
  ultimately show ?thesis using stop by auto
qed

section \<open>Applying a configuration\<close>

lemma prepare_cases:
  assumes "prepare env b n = (r, n')" "ensure_fw env n = (q, n1)"
  obtains (refused) e where "r = Inl e" "n' = n1" "q = Inl e \<or> q = Inr () \<and> plan_config env b n1 = Inl e"
  | (planned) merged old g where "q = Inr ()" "plan_config env b n1 = Inr (merged, old)" "ensure_geo env merged n1 = (g, n')"
      "r = (case g of Inl e \<Rightarrow> Inl e | Inr _ \<Rightarrow> if parseConfig env merged then Inr (merged, old) else Inl CoreInvalid)"
proof (cases q)
  case (Inl e)
  show thesis by (rule refused [of e]) (use assms Inl in \<open>auto simp: prepare_def\<close>)
next
  case (Inr u)
  show thesis
  proof (cases "plan_config env b n1")
    case (Inl e)
    show thesis by (rule refused [of e]) (use assms Inl Inr in \<open>auto simp: prepare_def\<close>)
  next
    case (Inr mo)
    obtain merged old where mo: "mo = (merged, old)" by fastforce
    obtain g n2 where g: "ensure_geo env merged n1 = (g, n2)" by fastforce
    have "n2 = n'" and "r = (case g of Inl e \<Rightarrow> Inl e | Inr _ \<Rightarrow>
        if parseConfig env merged then Inr (merged, old) else Inl CoreInvalid)"
      using assms \<open>q = Inr u\<close> Inr mo g by (cases g; cases "parseConfig env merged"; simp add: prepare_def)+
    then show thesis using planned [of merged old g] \<open>q = Inr u\<close> Inr mo g by simp
  qed
qed

lemma prepare_spec:
  assumes "prepare env b n = (r, n')" "core_inv net n" "at_net net env"
  shows "core_inv net n' \<and> nd_generation n' = nd_generation n \<and> nd_file n' = nd_file n \<and> nd_history n' = nd_history n \<and>
    (nd_instance n' = nd_instance n \<or> nd_instance n' = None \<and> \<not> is_ok r) \<and>
    (\<forall>merged old. r = Inr (merged, old) \<longrightarrow> bound net (nd_fw n') (decode_inbounds merged) \<and> read_core (nd_file n) = Inr old)"
proof -
  obtain q n1 where e: "ensure_fw env n = (q, n1)" by fastforce
  note spec = ensure_fw_spec [OF e assms(2,3)]
  show ?thesis
    using assms(1) e
  proof (cases rule: prepare_cases)
    case (refused x)
    then show ?thesis using spec by auto
  next
    case (planned merged old g)
    let ?check = "\<lambda>m. validateFirewallConfig (fw_env_of env n1) (nd_fw n1) (decode_inbounds m)"
    obtain t where t: "read_core (nd_file n1) = Inr t"
      "(case preserveFederationConfig (ce_sign env) (nd_fed n1) b t of Inl e \<Rightarrow> Inl (CoreFederation e)
        | Inr m \<Rightarrow> (case ?check m of Inl e \<Rightarrow> Inl (CoreFirewall e) | Inr _ \<Rightarrow> Inr (m, t))) = Inr (merged, old)"
      using planned(2) unfolding plan_config_def bind_res_Inr by blast
    obtain m where m: "preserveFederationConfig (ce_sign env) (nd_fed n1) b t = Inr m"
      using t(2) by (cases "preserveFederationConfig (ce_sign env) (nd_fed n1) b t") simp_all
    have old: "read_core (nd_file n) = Inr old" and ok: "?check merged = Inr ()"
      using t m spec by (cases "?check m"; simp)+
    have bnd: "bound net (nd_fw n1) (decode_inbounds merged)"
      using ok validate_bound [of net "nd_fw n1" "fw_env_of env n1"] spec assms(3)
      by (simp add: core_inv_def machine_inv_def at_net_def)
    obtain geo where n': "n' = n1\<lparr>nd_geo := geo\<rparr>" using planned(3) by (rule ensure_geo_eq)
    have "is_ok r \<longrightarrow> r = Inr (merged, old)" using planned(4) by (auto split: sum.splits if_splits)
    then show ?thesis
      using core_inv_frame [of net n1 n'] spec bnd old planned(1) by (auto simp: n')
  qed
qed

lemma save_spec:
  assumes "save merged old n = (r, n')"
  obtains (unsaved) e hs fs where "r = Inl e" "n' = n\<lparr>nd_history := hs, nd_faults := fs\<rparr>"
  | (saved) hs fs where "r = Inr ()" "n' = n\<lparr>nd_history := hs, nd_faults := fs, nd_file := ConfigText merged\<rparr>"
      "hs = nd_history n @ (case old of None \<Rightarrow> [] | Some t \<Rightarrow> [t])"
proof -
  define keep where "keep = (case old of None \<Rightarrow> (Inr (), n)
      | Some t \<Rightarrow> (case node_fault n of (failed, n1) \<Rightarrow>
          if failed then (Inl HistoryFailed, n1) else (Inr (), n1\<lparr>nd_history := nd_history n1 @ [t]\<rparr>)))"
  obtain q n1 where k: "keep = (q, n1)" by fastforce
  have "\<exists>hs fs. n1 = n\<lparr>nd_history := hs, nd_faults := fs\<rparr> \<and>
      (q = Inr () \<longrightarrow> hs = nd_history n @ (case old of None \<Rightarrow> [] | Some t \<Rightarrow> [t]))"
  proof (cases old)
    case None
    then show ?thesis using k by (intro exI [of _ "nd_history n"] exI [of _ "nd_faults n"]) (simp add: keep_def)
  next
    case (Some t)
    obtain f m where f: "node_fault n = (f, m)" by fastforce
    then obtain fs where "m = n\<lparr>nd_faults := fs\<rparr>" by (rule node_fault_eq)
    then show ?thesis using k Some f
      by (cases f; intro exI [of _ "nd_history n1"] exI [of _ fs]) (auto simp: keep_def)
  qed
  then obtain hs fs where n1: "n1 = n\<lparr>nd_history := hs, nd_faults := fs\<rparr>"
    "q = Inr () \<longrightarrow> hs = nd_history n @ (case old of None \<Rightarrow> [] | Some t \<Rightarrow> [t])" by blast
  obtain f n2 where f: "node_fault n1 = (f, n2)" by fastforce
  then obtain gs where n2: "n2 = n1\<lparr>nd_faults := gs\<rparr>" by (rule node_fault_eq)
  have un: "save merged old n = (case q of Inl e \<Rightarrow> (Inl e, n1) | Inr _ \<Rightarrow>
      if f then (Inl CoreWrite, n2) else (Inr (), n2\<lparr>nd_file := ConfigText merged\<rparr>))"
    using k f unfolding save_def keep_def [symmetric] by (cases q) simp_all
  show thesis
  proof (cases "q = Inr () \<and> \<not> f")
    case True
    show thesis
      by (rule saved [of gs hs]) (use True un assms n1 n2 in simp_all)
  next
    case False
    then have "(\<exists>e. r = Inl e) \<and> (n' = n\<lparr>nd_history := hs, nd_faults := fs\<rparr> \<or> n' = n\<lparr>nd_history := hs, nd_faults := gs\<rparr>)"
      using un assms n1(1) n2 by (cases q) (auto split: if_splits)
    then show thesis using unsaved by blast
  qed
qed

lemma rollback_core_spec:
  assumes "rollback_core env old n = (how, n')" "core_inv net n" "at_net net env" "nd_instance n = None"
  shows "advances net n n' \<and>
    (how = Restored \<longrightarrow> (\<exists>x. nd_instance n' = Some x \<and> old = Some (Some (xi_doc x)) \<and> nd_file n' = ConfigText (Some (xi_doc x))))"
proof -
  obtain f n1 where f: "node_fault n = (f, n1)" by fastforce
  then obtain fs where n1: "n1 = n\<lparr>nd_faults := fs\<rparr>" by (rule node_fault_eq)
  have inv: "core_inv net (n1\<lparr>nd_file := fl\<rparr>)" "core_inv net n1" for fl
    using assms(2,4) by (simp_all add: core_inv_def n1)
  have same: "advances net n n1" using advances_frame [OF assms(2), of n1] by (simp add: n1)
  show ?thesis
  proof (cases old)
    case None
    then have "n' = n1 \<or> n' = n1\<lparr>nd_file := NoConfig\<rparr>" "how \<noteq> Restored"
      using assms(1) f by (auto simp: rollback_core_def split: if_splits)
    then show ?thesis using same inv(1) [of NoConfig] assms(4) by (auto simp: advances_def n1)
  next
    case (Some t)
    obtain q n2 where s: "start_core env (n1\<lparr>nd_file := ConfigText t\<rparr>) = (q, n2)" by fastforce
    note start = start_core_spec [OF s inv(1) assms(3)]
    have "rollback_core env old n = (if f then (RestoreFailed, n1) else case q of Inl e \<Rightarrow> (RecoverFailed, n2) | Inr _ \<Rightarrow> (Restored, n2))"
      using Some f s by (cases q) (simp_all add: rollback_core_def)
    then have "f \<and> n' = n1 \<and> how \<noteq> Restored \<or> \<not> f \<and> n' = n2 \<and> (how = Restored \<longrightarrow> q = Inr ())"
      using assms(1) by (cases q) (auto split: if_splits)
    then show ?thesis
    proof
      assume "f \<and> n' = n1 \<and> how \<noteq> Restored"
      then show ?thesis using same by simp
    next
      assume *: "\<not> f \<and> n' = n2 \<and> (how = Restored \<longrightarrow> q = Inr ())"
      have "advances net n n2"
        using start assms(4) by (simp add: advances_def n1)
      then show ?thesis using * start assms(4) Some by (auto simp: n1)
    qed
  qed
qed

text \<open>The outcomes of \<open>applyConfig\<close>.\<close>

lemma applyConfig_cases:
  assumes "applyConfig env b n = (r, n')" "core_inv net n" "at_net net env"
  obtains (refused) e where "r = Inl e" "advances net n n'" "nd_file n' = nd_file n"
      "nd_instance n' = nd_instance n \<or> nd_instance n' = None"
  | (unclosed) "r = Inl CloseFailed" "advances net n n'" "nd_instance n' = None"
  | (started) x old where "r = Inr ()" "advances net n n'" "nd_instance n' = Some x" "nd_file n' = ConfigText (Some (xi_doc x))"
      "nd_generation n < nd_generation n'" "read_core (nd_file n) = Inr old"
      "nd_history n' = nd_history n @ (case old of None \<Rightarrow> [] | Some t \<Rightarrow> [t])"
  | (undone) how sv old n3 where "r = Inl (ApplyFailed how sv)" "advances net n n'" "read_core (nd_file n) = Inr old"
      "rollback_core env old n3 = (how, n')" "core_inv net n3" "nd_instance n3 = None"
proof -
  obtain p n1 where p: "prepare env b n = (p, n1)" by fastforce
  note prep = prepare_spec [OF p assms(2,3)]
  have adv1: "advances net n n1" using prep by (auto simp: advances_def)
  show thesis
  proof (cases p)
    case (Inl e)
    then have "r = Inl e" "n' = n1" using assms(1) p by (auto simp: applyConfig_def)
    then show thesis using prep adv1 by (intro refused) auto
  next
    case (Inr mo)
    then obtain merged old where mo: "p = Inr (merged, old)" by (cases mo) simp
    have keep: "nd_instance n1 = nd_instance n" "bound net (nd_fw n1) (decode_inbounds merged)" "read_core (nd_file n) = Inr old"
      using prep mo by auto
    obtain q n2 where s: "save merged old n1 = (q, n2)" by fastforce
    then show thesis
    proof (cases rule: save_spec)
      case (unsaved e hs fs)
      then have n': "r = Inl e" "n' = n2" using assms(1) p mo s by (auto simp: applyConfig_def)
      have "advances net n1 n2" using advances_frame [of net n1 n2] prep unsaved by simp
      then show thesis using n' prep keep unsaved adv1 by (intro refused) (auto intro: advances_trans)
    next
      case (saved hs fs)
      have inv2: "core_inv net (set_instance None n2)"
        using set_instance_None [of net n1] prep saved(2) by (simp add: core_inv_def set_instance_def)
      have none2: "nd_instance (set_instance None n2) = None" by (simp add: set_instance_def)
      obtain v n3 where v: "boot env merged (set_instance None n2) = (v, n3)" by fastforce
      note boot = boot_spec [OF v inv2 none2]
      have n2: "nd_generation n2 = nd_generation n" "nd_file n2 = ConfigText merged" "nd_fw n2 = nd_fw n1" "nd_instance n2 = nd_instance n"
        "nd_history n2 = nd_history n @ (case old of None \<Rightarrow> [] | Some t \<Rightarrow> [t])"
        using saved prep keep by simp_all
      have gen: "nd_generation n \<le> nd_generation n3" using boot n2(1) by (simp add: set_instance_def)
      show thesis
      proof (cases "nd_instance n2 \<noteq> None \<and> \<not> core_closes env")
        case True
        then have "r = Inl CloseFailed" "n' = set_instance None n2"
          using assms(1) p mo s saved(1) by (auto simp: applyConfig_def)
        then show thesis using unclosed inv2 n2 by (simp add: advances_def set_instance_def)
      next
        case closed: False
        have un: "applyConfig env b n = (case boot env merged (set_instance None n2) of
            (Inr x, n3) \<Rightarrow> (Inr (), (set_instance (Some x) n3)\<lparr>nd_lastError := None\<rparr>)
          | (Inl e, n3) \<Rightarrow> (case rollback_core env old (n3\<lparr>nd_lastError := Some e\<rparr>) of (how, n4) \<Rightarrow>
              (Inl (ApplyFailed how (nd_file n4 = ConfigText merged)), n4)))"
          unfolding applyConfig_def p mo s saved(1) prod.case sum.case if_not_P [OF closed] ..
        show thesis
        proof (cases v)
          case (Inr x)
          then have n': "r = Inr ()" "n' = (set_instance (Some x) n3)\<lparr>nd_lastError := None\<rparr>"
            using assms(1) v un by simp_all
          have x: "merged = Some (xi_doc x)" "nd_file n3 = ConfigText (Some (xi_doc x))" "nd_generation n < nd_generation n3"
            using boot Inr n2 by (auto simp: set_instance_def)
          have "bound net (nd_fw n3) (decode_inbounds (Some (xi_doc x)))"
            using boot keep(2) n2(3) x(1) by (simp add: set_instance_def)
          then have "core_inv net (set_instance (Some x) n3)"
            using boot Inr x by (intro set_instance_Some) auto
          then have "core_inv net n'" by (rule core_inv_frame) (simp_all add: n')
          then show thesis
            using n' x keep(3) boot n2(5) by (intro started [of x old]) (simp_all add: advances_def set_instance_def)
        next
          case (Inl e)
          have inv3: "core_inv net (n3\<lparr>nd_lastError := Some e\<rparr>)"
            using core_inv_frame [of net n3 "n3\<lparr>nd_lastError := Some e\<rparr>"] boot by simp
          obtain how n4 where rb: "rollback_core env old (n3\<lparr>nd_lastError := Some e\<rparr>) = (how, n4)" by fastforce
          have n': "r = Inl (ApplyFailed how (nd_file n4 = ConfigText merged))" "n' = n4"
            using assms(1) v Inl rb un by auto
          have "advances net (n3\<lparr>nd_lastError := Some e\<rparr>) n4"
            using rollback_core_spec [OF rb inv3 assms(3)] boot by simp
          then have "advances net n n'"
            using gen n'(2) boot by (auto simp: advances_def)
          then show thesis
            using n' keep(3) rb inv3 boot by (intro undone [of how _ old "n3\<lparr>nd_lastError := Some e\<rparr>"]) simp_all
        qed
      qed
    qed
  qed
qed

section \<open>Users\<close>

lemma get_any_put [simp]: "get_any (put_key k v kvs) k' = (if k' = k then v else get_any kvs k')"
  by (simp add: get_any_def map_of_put_key split: option.split)

lemma field_put:
  "k' \<noteq> k \<Longrightarrow> str_field (put_key k w kvs) k' = str_field kvs k'" "k' \<noteq> k \<Longrightarrow> obj_field (put_key k w kvs) k' = obj_field kvs k'"
  "k \<noteq> ''port'' \<Longrightarrow> raw_port (put_key k w kvs) = raw_port kvs"
  by (simp_all add: str_field_def obj_field_def raw_port_def map_of_put_key)

lemma decode_with_settings: "v = JObj kvs \<Longrightarrow> decode_inbound (with_settings f v) = decode_inbound v"
  by (simp add: decode_inbound_def with_settings_def as_object_def field_put cong: option.case_cong)

lemma has_tag_object: "has_tag tag v \<Longrightarrow> \<exists>kvs. v = JObj kvs"
  by (cases v) (auto simp: has_tag_def get_any_def)

lemma traverse_replace:
  assumes "\<And>x. P x \<Longrightarrow> g (f x) = g x"
  shows "traverse_opt g (replace_first P f xs) = traverse_opt g xs"
  using assms by (induction xs) (auto split: option.split)

lemma decode_update_inbound:
  assumes "get_any cfg ''inbounds'' = JArr ins"
  shows "decode_inbounds (Some (update_inbound tag f cfg ins)) = decode_inbounds (Some (JObj cfg))"
proof -
  have "traverse_opt decode_inbound (replace_first (has_tag tag) (with_settings f) ins) = traverse_opt decode_inbound ins"
    by (rule traverse_replace) (auto dest: has_tag_object simp: decode_with_settings)
  then show ?thesis using assms by (simp add: decode_inbounds_def update_inbound_def as_object_def)
qed

lemma guard_update_inbound:
  assumes "get_any cfg ''inbounds'' = JArr ins"
  shows "guard_tags (update_inbound tag f cfg ins) = guard_tags (JObj cfg)"
proof -
  let ?g = "\<lambda>v. Option.bind (as_object (Some v)) (\<lambda>k. str_field k ''tag'')"
  have "traverse_opt ?g (replace_first (has_tag tag) (with_settings f) ins) = traverse_opt ?g ins"
    by (rule traverse_replace) (auto dest!: has_tag_object simp: with_settings_def as_object_def str_field_def)
  then show ?thesis
    using assms by (cases "obj_field cfg ''aswired''"; cases "obj_field cfg ''api''")
      (simp_all add: guard_tags_def update_inbound_def as_object_def field_put cong: option.case_cong)
qed

lemma fail_sync_spec:
  assumes "fail_sync env n = (r, n')" "core_inv net n" "at_net net env"
  shows "advances net n n' \<and> r = Inl SyncFailed \<and> nd_file n' = nd_file n"
proof -
  obtain q n1 where s: "stop_core env n = (q, n1)" by fastforce
  note stop = stop_spec [OF s assms(2)]
  obtain v n2 where t: "start_core env n1 = (v, n2)" by fastforce
  have "core_inv net n1" using stop by (simp add: advances_def)
  note start = start_core_spec [OF t this assms(3)]
  have "advances net n n2" using stop start by (auto intro: advances_trans)
  then show ?thesis using assms(1) s t stop start by (auto simp: fail_sync_def)
qed

lemma users_inv:
  assumes "core_inv net n" "nd_instance n = Some x"
  shows "core_inv net (n\<lparr>nd_instance := Some (x\<lparr>xi_users := us\<rparr>)\<rparr>)"
  using assms by (simp add: core_inv_def instance_ok_def agrees_def)

lemma apply_users_spec:
  assumes "apply_users env tag desired updated n = (r, n')" "core_inv net n" "at_net net env"
    and up: "nd_file n = ConfigText (Some d)" "decode_inbounds (Some updated) = decode_inbounds (Some d)" "guard_tags updated = guard_tags d"
  shows "advances net n n' \<and> (case r of Inl _ \<Rightarrow> nd_file n' = nd_file n
    | Inr _ \<Rightarrow> nd_file n' = ConfigText (Some updated) \<and> (\<exists>x x' live live'. nd_instance n = Some x \<and> nd_instance n' = Some x' \<and>
        map_of (xi_users x) tag = Some live \<and> sync_live env desired live = Some live' \<and>
        x' = x\<lparr>xi_users := AList.update tag live' (xi_users x)\<rparr>))"
proof (cases "\<exists>x live live'. parseConfig env (Some updated) \<and> nd_instance n = Some x \<and> map_of (xi_users x) tag = Some live \<and>
    sync_live env desired live = Some live'")
  case False
  then have "n' = n \<and> (\<exists>e. r = Inl e) \<or> fail_sync env n = (r, n')"
    using assms(1) by (auto simp: apply_users_def split: if_splits option.splits)
  then show ?thesis
    using advances_refl [OF assms(2)] fail_sync_spec [OF _ assms(2,3), of r n'] by auto
next
  case True
  then obtain x live live' where x: "parseConfig env (Some updated)" "nd_instance n = Some x" "map_of (xi_users x) tag = Some live"
    "sync_live env desired live = Some live'" by blast
  let ?n = "n\<lparr>nd_instance := Some (x\<lparr>xi_users := AList.update tag live' (xi_users x)\<rparr>)\<rparr>"
  obtain f n1 where f: "node_fault ?n = (f, n1)" by fastforce
  then obtain fs where n1: "n1 = ?n\<lparr>nd_faults := fs\<rparr>" by (rule node_fault_eq)
  have inv: "core_inv net n1"
    using core_inv_frame [OF users_inv [OF assms(2) x(2), of "AList.update tag live' (xi_users x)"], of n1] by (simp add: n1)
  have adv: "advances net n n1" using inv x(2) by (simp add: advances_def n1)
  have un: "apply_users env tag desired updated n =
      (if f then fail_sync env n1 else (Inr (), n1\<lparr>nd_file := ConfigText (Some updated)\<rparr>))"
    using x f by (simp add: apply_users_def)
  show ?thesis
  proof (cases f)
    case True
    then show ?thesis
      using un assms(1) fail_sync_spec [OF _ inv assms(3), of r n'] adv advances_trans [of net n n1 n'] by (auto simp: n1)
  next
    case False
    then have n': "r = Inr ()" "n' = n1\<lparr>nd_file := ConfigText (Some updated)\<rparr>" using un assms(1) by simp_all
    have "core_inv net n'"
      using inv up by (auto simp: core_inv_def instance_ok_def agrees_def n'(2) n1)
    then show ?thesis using n' x by (auto simp: advances_def n1)
  qed
qed

lemma applyConfig_advances:
  assumes "applyConfig env b n = (r, n')" "core_inv net n" "at_net net env"
  shows "advances net n n'"
  using assms by (cases rule: applyConfig_cases) auto

text \<open>The configuration on disk, when it has an inbound with the tag.\<close>

definition disk_inbound :: "string \<Rightarrow> 'k node \<Rightarrow> jmap \<Rightarrow> json list \<Rightarrow> json \<Rightarrow> bool" where
  "disk_inbound tag n cfg ins entry \<longleftrightarrow> nd_file n = ConfigText (Some (JObj cfg)) \<and> get_any cfg ''inbounds'' = JArr ins \<and>
     find (has_tag tag) ins = Some entry"

lemma disk_inboundI:
  assumes "(case nd_file n of ConfigText d \<Rightarrow> as_object d | _ \<Rightarrow> None) = Some cfg"
    "find (has_tag tag) (the_list (as_array (get_any cfg ''inbounds''))) = Some entry"
  obtains ins where "disk_inbound tag n cfg ins entry" "the_list (as_array (get_any cfg ''inbounds'')) = ins"
proof -
  obtain ins where ins: "get_any cfg ''inbounds'' = JArr ins"
    using assms(2) by (cases "get_any cfg ''inbounds''") (auto simp: the_list_def)
  then have "cfg \<noteq> []" by (auto simp: get_any_def)
  then have "nd_file n = ConfigText (Some (JObj cfg))"
    using assms(1) by (auto simp: as_object_def split: core_file.splits option.splits json.splits)
  then show thesis using that [of ins] ins assms(2) by (simp add: disk_inbound_def the_list_def)
qed

lemma syncUsers_cases:
  assumes "syncUsers env tag raw n = (r, n')"
  obtains (refused) e where "r = Inl e" "n' = n"
  | (accounts) cfg ins entry new where "disk_inbound tag n cfg ins entry" "get_string (object entry) ''protocol'' \<in> {''socks'', ''http''}"
      "applyConfig env new n = (r, n')"
  | (users) cfg ins entry us desired where "disk_inbound tag n cfg ins entry" "raw = JArr us"
      "get_string (object entry) ''protocol'' \<notin> {''socks'', ''http''}"
      "make_users env (get_string (object entry) ''protocol'') [] us = Inr desired"
      "apply_users env tag desired (update_inbound tag (put_key ''clients'' (JArr us)) cfg ins) n = (r, n')"
proof -
  define disk where "disk = (case nd_file n of ConfigText d \<Rightarrow> as_object d | _ \<Rightarrow> None)"
  note assms = assms [unfolded syncUsers_def, folded disk_def]
  show thesis
  proof (cases "\<exists>cfg entry us. tag \<noteq> [] \<and> disk = Some cfg \<and>
      find (has_tag tag) (the_list (as_array (get_any cfg ''inbounds''))) = Some entry \<and> raw = JArr us")
    case False
    then have "n' = n \<and> (\<exists>e. r = Inl e)"
      using assms by (cases "tag = []"; cases disk; cases raw) (auto simp: Let_def split: option.splits)
    then show thesis using refused by blast
  next
    case True
    then obtain cfg entry us where t: "tag \<noteq> []" "disk = Some cfg" "raw = JArr us"
      and f: "find (has_tag tag) (the_list (as_array (get_any cfg ''inbounds''))) = Some entry" by blast
    obtain ins where d: "disk_inbound tag n cfg ins entry" and ins: "the_list (as_array (get_any cfg ''inbounds'')) = ins"
      using t(2) f unfolding disk_def by (rule disk_inboundI)
    let ?kind = "get_string (object entry) ''protocol''"
    show thesis
    proof (cases "?kind \<in> {''socks'', ''http''}")
      case True
      then have "n' = n \<and> (\<exists>e. r = Inl e) \<or> (\<exists>new. applyConfig env new n = (r, n'))"
        using assms t f by (cases "make_accounts ?kind [] us") (auto simp: Let_def)
      then show thesis using refused accounts [OF d True] by blast
    next
      case False
      then have "n' = n \<and> (\<exists>e. r = Inl e) \<or> (\<exists>desired. make_users env ?kind [] us = Inr desired \<and>
          apply_users env tag desired (update_inbound tag (put_key ''clients'' (JArr us)) cfg ins) n = (r, n'))"
        using assms t f ins by (cases "make_users env ?kind [] us") (auto simp: Let_def split: if_splits)
      then show thesis using refused users [OF d t(3) False] by blast
    qed
  qed
qed

lemma syncUsers_advances:
  assumes "syncUsers env tag raw n = (r, n')" "core_inv net n" "at_net net env"
  shows "advances net n n'"
  using assms(1)
proof (cases rule: syncUsers_cases)
  case (refused e)
  then show ?thesis using advances_refl [OF assms(2)] by simp
next
  case (accounts cfg ins entry new)
  then show ?thesis using applyConfig_advances [OF _ assms(2,3)] by blast
next
  case (users cfg ins entry us desired)
  then show ?thesis
    using apply_users_spec [OF users(5) assms(2,3)] decode_update_inbound guard_update_inbound by (simp add: disk_inbound_def)
qed

lemma syncOwnerUsers_advances:
  assumes "syncOwnerUsers env tag raw n = (r, n')" "core_inv net n" "at_net net env"
  shows "advances net n n'"
proof -
  define disk where "disk = (case nd_file n of ConfigText d \<Rightarrow> as_object d | _ \<Rightarrow> None)"
  have "n' = n \<or> (\<exists>q. syncUsers env tag q n = (r, n'))"
    using assms(1) unfolding syncOwnerUsers_def disk_def [symmetric]
    by (cases raw; cases disk) (auto split: option.splits sum.splits)
  then show ?thesis using advances_refl [OF assms(2)] syncUsers_advances [OF _ assms(2,3)] by blast
qed

section \<open>Federated commands\<close>

text \<open>A federated command changes the node only by a synchronisation of users of an inbound of the grant.\<close>

lemma handle_cases:
  assumes "handleFederationOperation env now grant cmd n = (r, n')"
  obtains (unchanged) "n' = n"
  | (synced) al inb desired scoped q where "cmd_Action cmd = ''inbound.users.sync''" "al = get_string (cmd_Params cmd) ''inbound''"
      "federationInbound grant al n = Inr inb" "get_any (cmd_Params cmd) ''users'' = JArr desired"
      "scoped_users (fg_Namespace grant @ ''.'') desired = Inr scoped" "is_ok q = is_ok r"
      "syncUsers env (the (map_of (fg_Inbounds grant) al))
        (JArr (filter (\<lambda>u. \<not> has_prefix (email_of u) (fg_Namespace grant @ ''.'')) (existing_users inb) @ scoped)) n = (q, n')"
proof (cases "cmd_Action cmd = ''inbound.users.sync''")
  case False
  then have "n' = n"
    using assms by (auto simp: handleFederationOperation_def Let_def split: if_splits sum.splits)
  then show thesis by (rule unchanged)
next
  case True
  define al where "al = get_string (cmd_Params cmd) ''inbound''"
  show thesis
  proof (cases "federationInbound grant al n")
    case (Inl e)
    then have "n' = n" using assms True by (auto simp: handleFederationOperation_def Let_def al_def)
    then show thesis by (rule unchanged)
  next
    case inb: (Inr inb)
    show thesis
    proof (cases "\<exists>desired scoped. get_any (cmd_Params cmd) ''users'' = JArr desired \<and>
        scoped_users (fg_Namespace grant @ ''.'') desired = Inr scoped")
      case False
      then have "n' = n"
        using assms True inb by (cases "get_any (cmd_Params cmd) ''users''")
          (auto simp: handleFederationOperation_def Let_def al_def split: sum.splits)
      then show thesis by (rule unchanged)
    next
      case good: True
      then obtain desired scoped where d: "get_any (cmd_Params cmd) ''users'' = JArr desired"
        "scoped_users (fg_Namespace grant @ ''.'') desired = Inr scoped" by blast
      obtain q n1 where q: "syncUsers env (the (map_of (fg_Inbounds grant) al))
          (JArr (filter (\<lambda>u. \<not> has_prefix (email_of u) (fg_Namespace grant @ ''.'')) (existing_users inb) @ scoped)) n = (q, n1)"
        by fastforce
      then have "n1 = n'" "is_ok q = is_ok r"
        using assms True inb d by (cases q; auto simp: handleFederationOperation_def Let_def al_def)+
      then show thesis using synced [OF True al_def inb d] q by simp
    qed
  qed
qed

lemma handle_advances:
  assumes "handleFederationOperation env now grant cmd n = (r, n')" "core_inv net n" "at_net net env"
  shows "advances net n n'"
  using assms(1)
proof (cases rule: handle_cases)
  case unchanged
  then show ?thesis using advances_refl [OF assms(2)] by simp
next
  case (synced al inb desired scoped q)
  show ?thesis by (rule syncUsers_advances [OF synced(7) assms(2,3)])
qed

lemma run_federated_cases:
  assumes "run_federated env fx grant request ch hash n = (r, n')"
  obtains q n1 rs fs where "handleFederationOperation env (fx_millis fx) grant (fr_Command request) n = (q, n1)"
    "n' = n1\<lparr>nd_results := rs, nd_faults := fs\<rparr>"
    "case r of Inl _ \<Rightarrow> rs = nd_results n1
     | Inr (p, _) \<Rightarrow> rs = put_key (cache_key fx grant (fr_Command request)) (Cached hash p) (nd_results n1)"
proof -
  obtain q n1 where h: "handleFederationOperation env (fx_millis fx) grant (fr_Command request) n = (q, n1)" by fastforce
  let ?answer = "case q of
      Inl e \<Rightarrow> \<lparr>res_ID = cmd_ID (fr_Command request), res_Status = ''failed'', res_Error = error_text fx e, res_Data = None\<rparr>
    | Inr data \<Rightarrow> \<lparr>res_ID = cmd_ID (fr_Command request), res_Status = ''success'', res_Error = [], res_Data = Some data\<rparr>"
  obtain f n2 where f: "node_fault n1 = (f, n2)" by fastforce
  then obtain fs where n2: "n2 = n1\<lparr>nd_faults := fs\<rparr>" by (rule node_fault_eq)
  show thesis
  proof (cases "Seal (result_bytes fx) ch ?answer")
    case (Inl e)
    then have "r = Inl FedChannel" "n' = n1" using assms h by (simp_all add: run_federated_def)
    then show thesis using that [OF h, of "nd_faults n1" "nd_results n1"] by simp
  next
    case (Inr pc)
    obtain p c where pc: "pc = (p, c)" by fastforce
    have un: "run_federated env fx grant request ch hash n = (if f then (Inl ResultNotPersisted, n2)
        else (Inr (p, False), n2\<lparr>nd_results := put_key (cache_key fx grant (fr_Command request)) (Cached hash p) (nd_results n2)\<rparr>))"
      using h Inr pc f by (simp add: run_federated_def)
    show thesis
    proof (cases f)
      case True
      then show thesis using that [OF h, of fs "nd_results n1"] un assms n2 by auto
    next
      case False
      then show thesis using that [OF h, of fs] un assms n2 by auto
    qed
  qed
qed

lemma execute_cases:
  assumes "executeFederation env fx raw n = (r, n')"
  obtains (refused) e w where "r = Inl e" "n' = n\<lparr>nd_fed := w\<rparr>"
  | (cached) envelope grant w priv pub request ch p where "r = Inr (p, True)" "n' = n\<lparr>nd_fed := w\<rparr>" "raw = Some envelope"
      "envelope_grant (ce_sign env) fx envelope (nd_fed n) = Inr grant"
      "open_envelope (ce_sign env) fx grant priv pub envelope = Inr (request, ch)"
      "map_of (nd_results n) (cache_key fx grant (fr_Command request)) = Some (Cached (digest fx (envelope_text fx envelope)) p)"
  | (executed) envelope grant w priv pub request ch where "raw = Some envelope"
      "envelope_grant (ce_sign env) fx envelope (nd_fed n) = Inr grant"
      "federationIdentity (fx_crypto fx) (fx_random fx) (nd_fed n) = (Inr (priv, pub), w)"
      "open_envelope (ce_sign env) fx grant priv pub envelope = Inr (request, ch)"
      "map_of (nd_results n) (cache_key fx grant (fr_Command request)) = None"
      "fx_now fx - 300 \<le> fr_IssuedAt request \<and> fr_IssuedAt request \<le> fx_now fx + 90"
      "run_federated env fx grant request ch (digest fx (envelope_text fx envelope)) (n\<lparr>nd_fed := w\<rparr>) = (r, n')"
proof -
  have same: "n = n\<lparr>nd_fed := nd_fed n\<rparr>" by simp
  show thesis
  proof (cases "\<exists>envelope grant. raw = Some envelope \<and> envelope_grant (ce_sign env) fx envelope (nd_fed n) = Inr grant")
    case False
    then have "(\<exists>e. r = Inl e) \<and> n' = n"
      using assms by (auto simp: executeFederation_def split: option.splits sum.splits)
    then show thesis using refused same by metis
  next
    case True
    then obtain envelope grant where g: "raw = Some envelope" "envelope_grant (ce_sign env) fx envelope (nd_fed n) = Inr grant" by blast
    obtain i w where i: "federationIdentity (fx_crypto fx) (fx_random fx) (nd_fed n) = (i, w)" by fastforce
    show thesis
    proof (cases "\<exists>priv pub request ch. i = Inr (priv, pub) \<and>
        open_envelope (ce_sign env) fx grant priv pub envelope = Inr (request, ch)")
      case False
      then have "(\<exists>e. r = Inl e) \<and> n' = n\<lparr>nd_fed := w\<rparr>"
        using assms g i by (auto simp: executeFederation_def Let_def split: sum.splits)
      then show thesis using refused by blast
    next
      case True
      then obtain priv pub request ch where o: "i = Inr (priv, pub)"
        "open_envelope (ce_sign env) fx grant priv pub envelope = Inr (request, ch)" by blast
      let ?hit = "map_of (nd_results n) (cache_key fx grant (fr_Command request))"
      let ?hash = "digest fx (envelope_text fx envelope)"
      have un: "executeFederation env fx raw n = (case ?hit of
          Some BadCache \<Rightarrow> (Inl FedRead, n\<lparr>nd_fed := w\<rparr>)
        | Some (Cached old p) \<Rightarrow> if old \<noteq> ?hash then (Inl IDReused, n\<lparr>nd_fed := w\<rparr>) else (Inr (p, True), n\<lparr>nd_fed := w\<rparr>)
        | None \<Rightarrow> if fr_IssuedAt request < fx_now fx - 300 \<or> fr_IssuedAt request > fx_now fx + 90 then (Inl RequestExpired, n\<lparr>nd_fed := w\<rparr>)
            else run_federated env fx grant request ch ?hash (n\<lparr>nd_fed := w\<rparr>))"
        using g i o by (simp add: executeFederation_def Let_def)
      show thesis
      proof (cases ?hit)
        case None
        then show thesis
          using un assms refused executed [OF g i [unfolded o(1)] o(2) None] by (auto split: if_splits)
      next
        case (Some c)
        then show thesis
          using un assms refused cached [OF _ _ g o(2)] by (cases c) (auto split: if_splits)
      qed
    qed
  qed
qed

lemma execute_advances:
  assumes "executeFederation env fx raw n = (r, n')" "core_inv net n" "at_net net env"
  shows "advances net n n'"
  using assms(1)
proof (cases rule: execute_cases)
  case (executed envelope grant w priv pub request ch)
  have inv: "core_inv net (n\<lparr>nd_fed := w\<rparr>)" using core_inv_frame [OF assms(2), of "n\<lparr>nd_fed := w\<rparr>"] by simp
  obtain q n1 rs fs where h: "handleFederationOperation env (fx_millis fx) grant (fr_Command request) (n\<lparr>nd_fed := w\<rparr>) = (q, n1)"
    "n' = n1\<lparr>nd_results := rs, nd_faults := fs\<rparr>" using executed(7) by (rule run_federated_cases)
  have "advances net (n\<lparr>nd_fed := w\<rparr>) n1" by (rule handle_advances [OF h(1) inv assms(3)])
  moreover from this have "core_inv net n'"
    unfolding advances_def using core_inv_frame [of net n1 n'] by (simp add: h(2))
  ultimately show ?thesis by (simp add: advances_def h(2))
qed (use advances_frame [OF assms(2)] in simp_all)

section \<open>Runs\<close>

text \<open>
  One process after another on the same files: commands, restarts of the process, changes by others
  (the kernel, the grants, the datasets) and new failures. Every command has its own environment;
  only address parsing stays the same.
\<close>

datatype 'k node_event = ApplyCore "'k core_env" "json option" | StartNode "'k core_env" | StopNode "'k core_env" | RestartNode "'k core_env"
  | SyncOwner "'k core_env" string json | Federated "'k core_env" federation_env "federation_envelope option"
  | ApplyPorts "'k core_env" firewall_request | EnsurePorts "'k core_env" | ListenOn string bool | Reopen core_file
  | Kernel 'k | Grants federation_world | Datasets geo_world | Faults "bool list" "bool list"

definition with_net :: "netip \<Rightarrow> 'k core_env \<Rightarrow> 'k core_env" where
  "with_net net env = env\<lparr>ce_fw := (ce_fw env)\<lparr>netip_of := net\<rparr>\<rparr>"

definition listen_on :: "netip \<Rightarrow> string \<Rightarrow> bool \<Rightarrow> 'k node \<Rightarrow> 'k node" where
  "listen_on net listen persisted n = n\<lparr>nd_fw := snd (UpdateConnection net listen persisted (nd_fw n))\<rparr>"

fun node_step :: "netip \<Rightarrow> 'k node \<Rightarrow> 'k node_event \<Rightarrow> 'k node" where
  "node_step net n (ApplyCore env b) = snd (applyConfig (with_net net env) b n)"
| "node_step net n (StartNode env) = snd (start_core (with_net net env) n)"
| "node_step net n (StopNode env) = snd (stop_core env n)"
| "node_step net n (RestartNode env) = snd (restart (with_net net env) n)"
| "node_step net n (SyncOwner env tag raw) = snd (syncOwnerUsers (with_net net env) tag raw n)"
| "node_step net n (Federated env fx raw) = snd (executeFederation (with_net net env) fx raw n)"
| "node_step net n (ApplyPorts env req) = snd (apply_fw (with_net net env) req n)"
| "node_step net n (EnsurePorts env) = snd (ensure_fw (with_net net env) n)"
| "node_step net n (ListenOn listen persisted) = listen_on net listen persisted n"
| "node_step net n (Reopen mode) = snd (New_runtime mode n)"
| "node_step net n (Kernel k) = n\<lparr>nd_fw := (nd_fw n)\<lparr>kernel := k\<rparr>\<rparr>"
| "node_step net n (Grants w) = n\<lparr>nd_fed := w\<rparr>"
| "node_step net n (Datasets g) = n\<lparr>nd_geo := g\<rparr>"
| "node_step net n (Faults fs gs) = n\<lparr>nd_faults := fs, nd_fw := (nd_fw n)\<lparr>fw_faults := gs\<rparr>\<rparr>"

lemma with_net_at [simp]: "at_net net (with_net net env)"
  by (simp add: at_net_def with_net_def)

lemma apply_fw_advances:
  assumes "apply_fw env req n = (r, n')" "core_inv net n" "at_net net env"
  shows "advances net n n'"
proof -
  obtain q w where a: "applyFirewall (fw_env_of env n) req (nd_fw n) = (q, w)" by fastforce
  have fw: "netip_ok net" "firewall_inv net (nd_fw n)" using assms(2) by (simp_all add: core_inv_def machine_inv_def)
  have net: "netip_of (fw_env_of env n) = net" using assms(3) by (simp add: at_net_def)
  have inv: "machine_inv net w" using applyFirewall_inv [OF fw(1) net fw(2) a] fw(1) by (simp add: machine_inv_def)
  have n': "n' = n\<lparr>nd_fw := w, nd_instance := (if running w then nd_instance n else None)\<rparr>"
    using assms(1) a by (simp add: apply_fw_def)
  have "core_inv net n'"
  proof (cases "nd_instance n")
    case None
    then have "\<not> running (nd_fw n)" using assms(2) by (simp add: core_inv_def)
    have "running w \<longrightarrow> running (nd_fw n)"
      using a
    proof (cases rule: applyFirewall_cases)
      case (refused e)
      then show ?thesis by (simp add: core_def)
    next
      case (again old nxt w1)
      then show ?thesis using commit_state_spec [OF again(5)] by (cases q) (auto simp: blocked_def core_def)
    next
      case (changed old nxt obs w1)
      then show ?thesis using execute_policy_spec [OF changed(3)] by (cases q) (auto simp: blocked_def core_def recovered_def)
    qed
    then show ?thesis using None assms(2) inv \<open>\<not> running (nd_fw n)\<close> by (simp add: core_inv_def n')
  next
    case (Some x)
    then obtain d where d: "nd_file n = ConfigText (Some d)" "agrees x d" "bound net (nd_fw n) (decode_inbounds (Some (xi_doc x)))"
      using assms(2) by (auto simp: core_inv_def instance_ok_def)
    have "xray_config (fw_env_of env n) = Inr (decode_inbounds (Some (xi_doc x)))"
      using d by (simp add: fw_env_of_def agrees_def)
    note b = applyFirewall_bound [OF fw(1) net fw(2) a this]
    then show ?thesis
      using inv d Some assms(2) by (auto simp: core_inv_def n' instance_ok_def)
  qed
  then show ?thesis by (auto simp: advances_def n')
qed

lemma initialize_spec:
  assumes "initializeCoreConfig n = (r, n')" "core_inv net n" "nd_instance n = None"
  shows "core_inv net n' \<and> nd_generation n' = nd_generation n \<and> nd_instance n' = None"
proof -
  obtain f n1 where f: "node_fault n = (f, n1)" by fastforce
  then obtain fs where n1: "n1 = n\<lparr>nd_faults := fs\<rparr>" by (rule node_fault_eq)
  have "n' = n \<or> n' = n1 \<or> n' = n1\<lparr>nd_file := ConfigText (Some initialCoreConfig)\<rparr>"
    using assms(1) f by (cases "nd_file n") (auto simp: initializeCoreConfig_def split: if_splits)
  then show ?thesis using assms(2,3) by (auto simp: core_inv_def n1)
qed

lemma New_runtime_advances:
  assumes "New_runtime mode n = (r, n')" "core_inv net n"
  shows "advances net n n'"
proof -
  define fresh where "fresh = (set_instance None n)\<lparr>nd_fw := (nd_fw n)\<lparr>running := False, firewallReady := False, managementPorts := {}\<rparr>,
        nd_lastError := None\<rparr>"
  have fl: "file_ok net P f \<Longrightarrow> Q \<subseteq> P \<Longrightarrow> file_ok net Q f" for P Q f by (cases f) auto
  have "machine_inv net (nd_fw fresh)"
    using assms(2) fl [of "reserved (nd_fw n)" _ "reserved (nd_fw fresh)"]
    by (auto simp: core_inv_def machine_inv_def firewall_inv_def fresh_def reserved_def)
  then have inv: "core_inv net fresh" using assms(2) by (simp add: core_inv_def fresh_def set_instance_def)
  have none: "nd_instance fresh = None" and gen: "nd_generation fresh = nd_generation n"
    by (simp_all add: fresh_def set_instance_def)
  have same: "fresh\<lparr>nd_generation := nd_generation n\<rparr> = fresh" by (simp add: fresh_def set_instance_def)
  have load: "load_generation (nd_stored n) = Inr (nd_generation n)" using assms(2) by (simp add: core_inv_def)
  have "New_runtime mode n = (case validateLegacyMode mode of Inl e \<Rightarrow> (Inl e, fresh) | Inr _ \<Rightarrow> initializeCoreConfig fresh)"
    unfolding New_runtime_def Let_def fresh_def [symmetric] by (cases "validateLegacyMode mode") (simp_all add: load same)
  then have "n' = fresh \<or> initializeCoreConfig fresh = (r, n')"
    using assms(1) by (cases "validateLegacyMode mode") auto
  then show ?thesis
    using inv none gen initialize_spec [OF _ inv none, of r n'] by (auto simp: advances_def)
qed

lemma snd_advances: "(\<And>r n'. p = (r, n') \<Longrightarrow> advances net n n') \<Longrightarrow> advances net n (snd p)"
  by (cases p) simp

lemma node_step_advances:
  assumes "core_inv net n"
  shows "advances net n (node_step net n ev)"
proof -
  have fw: "machine_inv net (nd_fw n)" "firewall_inv net (nd_fw n)" using assms by (simp_all add: core_inv_def machine_inv_def)
  have small: "advances net n (n\<lparr>nd_faults := fs, nd_fw := w\<rparr>)"
    if "machine_inv net w" "running w = running (nd_fw n)" "\<And>cfg. bound net w cfg = bound net (nd_fw n) cfg" for w fs
    using that assms by (auto simp: advances_def core_inv_def instance_ok_def)
  show ?thesis
  proof (cases ev)
    case (EnsurePorts env)
    have "advances net n n'" if "ensure_fw (with_net net env) n = (r, n')" for r n'
      using ensure_fw_spec [OF that assms] by (auto simp: advances_def)
    then show ?thesis using EnsurePorts by (simp add: snd_advances)
  next
    case (ListenOn listen persisted)
    obtain r w where u: "UpdateConnection net listen persisted (nd_fw n) = (r, w)" by fastforce
    have "machine_inv net w" using UpdateConnection_inv [OF fw(2) u] fw(1) by (simp add: machine_inv_def)
    then show ?thesis
      using small [of w "nd_faults n"] UpdateConnection_bound [OF fw(2) u] ListenOn u by (simp add: listen_on_def)
  next
    case (Kernel k)
    have "bound net ((nd_fw n)\<lparr>kernel := k\<rparr>) cfg = bound net (nd_fw n) cfg" for cfg
      by (rule bound_cong) (simp_all add: intent_def reserved_def split: option.splits)
    then show ?thesis
      using small [of "(nd_fw n)\<lparr>kernel := k\<rparr>" "nd_faults n"] Kernel fw same_world_inv [of "(nd_fw n)\<lparr>kernel := k\<rparr>" "nd_fw n" net]
      by (simp add: machine_inv_def ports_def)
  next
    case (Faults fs gs)
    have "bound net ((nd_fw n)\<lparr>fw_faults := gs\<rparr>) cfg = bound net (nd_fw n) cfg" for cfg
      by (rule bound_cong) (simp_all add: intent_def reserved_def split: option.splits)
    then show ?thesis
      using small [of "(nd_fw n)\<lparr>fw_faults := gs\<rparr>" fs] Faults fw same_world_inv [of "(nd_fw n)\<lparr>fw_faults := gs\<rparr>" "nd_fw n" net]
      by (simp add: machine_inv_def ports_def)
  next
    case (StartNode env)
    then show ?thesis using start_core_spec [OF _ assms with_net_at] by (auto intro!: snd_advances)
  next
    case (StopNode env)
    then show ?thesis using stop_spec [OF _ assms] by (auto intro!: snd_advances)
  next
    case (ApplyCore env b)
    then show ?thesis by (simp, intro snd_advances) (erule applyConfig_advances [OF _ assms with_net_at])
  next
    case (RestartNode env)
    then show ?thesis by (simp, intro snd_advances) (erule restart_spec [OF _ assms with_net_at])
  next
    case (SyncOwner env tag raw)
    then show ?thesis by (simp, intro snd_advances) (erule syncOwnerUsers_advances [OF _ assms with_net_at])
  next
    case (Federated env fx raw)
    then show ?thesis by (simp, intro snd_advances) (erule execute_advances [OF _ assms with_net_at])
  next
    case (ApplyPorts env req)
    then show ?thesis by (simp, intro snd_advances) (erule apply_fw_advances [OF _ assms with_net_at])
  next
    case (Reopen mode)
    then show ?thesis by (simp, intro snd_advances) (erule New_runtime_advances [OF _ assms])
  qed (simp_all add: advances_frame [OF assms])
qed

interpretation node: monotone_machine "node_step net" "core_inv net" nd_generation
  for net
  by unfold_locales (use node_step_advances in \<open>auto simp: advances_def\<close>)

end
