(* ===== verification/Node_Properties.thy ===== *)
theory Node_Properties
  imports Core_Machine
begin

text \<open>
  What the machine of a node guarantees: the running core and the configuration on disk, the saved
  port policy and the listeners it protects, generations, and the outcome of a configuration that
  cannot be started.
\<close>

section \<open>A sample node\<close>

definition core_sample :: "bool core_env" where
  "core_sample = \<lparr>ce_fw = env_sample, ce_geo = geo_sample, ce_sign = signer_sample, core_accepts = (\<lambda>b. b \<noteq> None),
     core_new = (\<lambda>_. True), core_starts = (\<lambda>d. d \<noteq> JObj []), core_closes = True, core_guards = True,
     core_users = (\<lambda>_. [(''proxy'', [])]), core_add = (\<lambda>u us. Some (us @ [u])),
     core_remove = (\<lambda>e us. Some (filter (\<lambda>u. xu_email u \<noteq> e) us)), core_stats = (\<lambda>_. Some []), uuid_ok = (\<lambda>_. True),
     uuid_pair = ''secret'', map_order = (\<lambda>us. us)\<rparr>"

definition doc_sample :: json where
  "doc_sample = JObj [(''inbounds'', JArr [JObj [(''port'', JNum ''443''), (''protocol'', JStr ''vless''), (''tag'', JStr ''proxy'')]])]"

definition node_sample :: "bool node" where
  "node_sample = \<lparr>nd_fw = world_sample\<lparr>running := False\<rparr>,
     nd_fed = \<lparr>fed_identity = None, fed_owner = None, fed_grants = [], fed_listing = True, fed_faults = []\<rparr>,
     nd_geo = \<lparr>assets = (\<lambda>_. None), geo_faults = []\<rparr>, nd_file = NoConfig, nd_history = [], nd_instance = None,
     nd_generation = 0, nd_stored = None, nd_lastError = None, nd_results = [], nd_faults = []\<rparr>"

lemma node_sample_inv: "core_inv net_node node_sample"
  using world_sample_inv(2)
  by (simp add: core_inv_def node_sample_def machine_inv_def firewall_inv_def reserved_def load_generation_def)

lemma core_sample_net: "with_net net_node core_sample = core_sample"
  by (simp add: with_net_def core_sample_def env_sample_def)

lemma sample_guard: "guard_tags doc_sample = Some None"
  by (simp add: guard_tags_def doc_sample_def as_object_def obj_field_def str_field_def get_any_def)

lemma sample_ensure: "firewallReady (nd_fw n) \<Longrightarrow> ensure_fw env n = (Inr (), n\<lparr>nd_instance := (if running (nd_fw n) then nd_instance n else None)\<rparr>)"
  by (simp add: ensure_fw_def ensureFirewall_def)

lemma sample_validate: "committed (nd_fw n) = Absent \<Longrightarrow> pending (nd_fw n) = Absent \<Longrightarrow>
    validateFirewallConfig env (nd_fw n) cfg = Inr ()"
  by (simp add: validateFirewallConfig_def readFirewallState_def readFirewallFile_def)

lemma sample_geo: "ensure_geo core_sample (Some doc_sample) n = (Inr (), n)"
  by (simp add: ensure_geo_def ensureGeoAssets_def ensure_asset_def needed_def core_sample_def geo_sample_def doc_sample_def
      as_object_def get_any_def max_config_def)

lemma sample_parse: "parseConfig core_sample (Some d)"
  by (simp add: parseConfig_def core_sample_def geo_sample_def max_config_def)

definition instance_sample :: xray where
  "instance_sample = \<lparr>xi_doc = doc_sample, xi_guard = None, xi_users = [(''proxy'', [])]\<rparr>"

lemma sample_boot:
  assumes "nd_faults n = []" "nd_generation n < max_generation"
  shows "boot core_sample (Some doc_sample) n = (Inr instance_sample,
    n\<lparr>nd_stored := Some (nat_digits (Suc (nd_generation n))), nd_generation := Suc (nd_generation n)\<rparr>)"
proof -
  have "core_new core_sample doc_sample" "core_starts core_sample doc_sample" "core_users core_sample doc_sample = [(''proxy'', [])]"
    by (simp_all add: core_sample_def doc_sample_def)
  then show ?thesis
    using assms by (simp add: boot_def advanceGeneration_def node_fault_def configureProxyNetwork_def sample_guard instance_sample_def)
qed

lemma node_sample_sel:
  "nd_fw node_sample = world_sample\<lparr>running := False\<rparr>" "nd_file node_sample = NoConfig" "nd_instance node_sample = None"
  "nd_generation node_sample = 0" "nd_results node_sample = []" "nd_faults node_sample = []"
  by (simp_all add: node_sample_def)

definition running_sample :: "bool node" where
  "running_sample = snd (applyConfig core_sample (Some doc_sample) node_sample)"

lemma apply_sample:
  "applyConfig core_sample (Some doc_sample) node_sample = (Inr (), running_sample) \<and>
   nd_instance running_sample = Some instance_sample \<and>
   nd_file running_sample = ConfigText (Some doc_sample) \<and> nd_generation running_sample = 1 \<and> nd_faults running_sample = [] \<and>
   nd_fw running_sample = world_sample \<and> nd_fed running_sample = nd_fed node_sample \<and> nd_results running_sample = []"
proof -
  have ready: "firewallReady (nd_fw node_sample)" by (simp add: node_sample_def world_sample_def)
  have "ensure_fw core_sample node_sample = (Inr (), node_sample)"
    using sample_ensure [OF ready] by (simp add: node_sample_def world_sample_def)
  moreover have "validateFirewallConfig env (nd_fw node_sample) cfg = Inr ()" for env :: "bool firewall_env" and cfg
    by (rule sample_validate) (simp_all add: node_sample_def world_sample_def)
  moreover have "nd_file node_sample = NoConfig" by (simp add: node_sample_def)
  ultimately have "prepare core_sample (Some doc_sample) node_sample = (Inr (Some doc_sample, None), node_sample)"
    by (simp add: prepare_def plan_config_def sample_geo sample_parse read_core_def preserveFederationConfig_def)
  then show ?thesis
    unfolding running_sample_def
    by (simp add: applyConfig_def save_def node_fault_def set_instance_def sample_boot node_sample_sel max_generation_def)
      (simp add: instance_sample_def world_sample_def)
qed

lemma running_sample_inv: "core_inv net_node running_sample"
  using applyConfig_advances [of core_sample "Some doc_sample" node_sample _ running_sample net_node] apply_sample node_sample_inv
  by (simp add: advances_def at_net_def core_sample_def env_sample_def)

lemma sample_run: "foldl (node_step net_node) node_sample [ApplyCore core_sample (Some doc_sample)] = running_sample"
  by (simp add: core_sample_net running_sample_def)

section \<open>Runs\<close>

text \<open>A running core is the one the configuration file describes: after any run of a node (configurations
  applied, restored and refused, starts, stops, restarts, synchronised users, federated commands,
  port policies, new processes, failing file operations) the core that runs has exactly the
  listeners of the configuration on disk and the IPv6 guard that configuration asks for.\<close>
theorem running_core_matches_disk:
  assumes "core_inv net n" and "nd_instance (foldl (node_step net) n es) = Some x"
  shows "\<exists>d. nd_file (foldl (node_step net) n es) = ConfigText (Some d) \<and>
    decode_inbounds (Some (xi_doc x)) = decode_inbounds (Some d) \<and> guard_tags d = Some (xi_guard x)"
  using node.run_inv [OF assms(1), of es] assms(2) by (auto simp: core_inv_def instance_ok_def agrees_def)

theorem running_core_matches_disk_witness:
  "\<exists>d. nd_file (foldl (node_step net_node) node_sample [ApplyCore core_sample (Some doc_sample)]) = ConfigText (Some d) \<and>
    decode_inbounds (Some doc_sample) = decode_inbounds (Some d)"
proof -
  have "nd_instance (foldl (node_step net_node) node_sample [ApplyCore core_sample (Some doc_sample)]) = Some instance_sample"
    unfolding sample_run using apply_sample by blast
  from running_core_matches_disk [OF node_sample_inv this] show ?thesis by (auto simp: instance_sample_def)
qed

text \<open>C18: An allowlist keeps protecting the listener it was made for: whenever the core runs and the saved port
  policy (the journal's, if there is one) has rules, the listeners of the running core give exactly
  the bindings the policy was saved with, so no rule silently covers another listener; also
  after changes of the configuration, of the policy and of the management address.\<close>
theorem protected_ports_stay_bound:
  assumes "core_inv net n" and "n' = foldl (node_step net) n es" and "nd_instance n' = Some x"
    and "readFirewallState net (nd_fw n') = Inr (Some s)" and "st_rules s \<noteq> []"
  shows "firewallBindings (firewallTargets net (reserved (nd_fw n')) (decode_inbounds (Some (xi_doc x)))) (st_rules s) =
    Inr (st_bindings s)"
proof -
  have inv: "core_inv net n'" unfolding assms(2) by (rule node.run_inv [OF assms(1)])
  then have "intent (nd_fw n') = Some s"
    using assms(4) read_state_ok [of net "nd_fw n'"] by (simp add: core_inv_def machine_inv_def)
  then show ?thesis using inv assms(3,5) by (simp add: core_inv_def instance_ok_def bound_def)
qed

definition listed_sample :: "bool node" where
  "listed_sample = running_sample\<lparr>nd_fw := world_sample\<lparr>committed := Saved policy_sample\<rparr>\<rparr>"

lemma decode_doc_sample: "decode_inbounds (Some doc_sample) =
    Some [\<lparr>in_tag = ''proxy'', in_listen = [], in_port = Some 443, in_protocol = ''vless'', in_network = []\<rparr>]"
  by (simp add: decode_inbounds_def doc_sample_def as_object_def decode_inbound_def str_field_def obj_field_def get_any_def raw_port_def)
    code_simp

lemma listed_bound: "bound net_node (nd_fw listed_sample) (decode_inbounds (Some doc_sample))"
proof -
  have "firewallBindings (firewallTargets net_node {23889} (Some [\<lparr>in_tag = ''proxy'', in_listen = [], in_port = Some 443,
      in_protocol = ''vless'', in_network = []\<rparr>])) [rule_clean] = Inr (st_bindings policy_sample)" by code_simp
  then show ?thesis
    by (simp add: bound_def listed_sample_def intent_def world_sample_def decode_doc_sample policy_sample_rules reserved_def)
qed

lemma listed_sample_inv: "core_inv net_node listed_sample"
proof -
  have fw: "machine_inv net_node (nd_fw listed_sample)"
    using policy_sample_ok net_node_ok
    by (simp add: machine_inv_def firewall_inv_def listed_sample_def world_sample_def reserved_def policy_sample_rules rule_clean_def)
  then show ?thesis
    using running_sample_inv apply_sample listed_bound
    by (auto simp: core_inv_def instance_ok_def instance_sample_def) (auto simp: listed_sample_def world_sample_def)
qed

theorem protected_ports_stay_bound_witness:
  "firewallBindings (firewallTargets net_node (reserved (nd_fw listed_sample)) (decode_inbounds (Some doc_sample))) (st_rules policy_sample) =
    Inr (st_bindings policy_sample)"
proof -
  have run: "listed_sample = foldl (node_step net_node) listed_sample []" by simp
  have x: "nd_instance listed_sample = Some instance_sample" using apply_sample by (simp add: listed_sample_def)
  have s: "readFirewallState net_node (nd_fw listed_sample) = Inr (Some policy_sample)"
    using policy_sample_ok by (simp add: readFirewallState_def readFirewallFile_def listed_sample_def world_sample_def state_ok_def)
  have "st_rules policy_sample \<noteq> []" by (simp add: policy_sample_rules)
  from protected_ports_stay_bound [OF listed_sample_inv run x s this] show ?thesis by (simp add: instance_sample_def)
qed

text \<open>A generation of the core is never used twice, over restarts of the process and failed starts too: the
  generation never decreases, a core that appears or is replaced has a generation no earlier core
  of this node had, and what the next process loads from disk is the generation in use.\<close>
theorem generation_never_reused:
  assumes "core_inv net n" and "n1 = foldl (node_step net) n es" and "n2 = node_step net n1 ev"
  shows "nd_generation n \<le> nd_generation n1 \<and> nd_generation n1 \<le> nd_generation n2 \<and>
    (nd_instance n1 = None \<and> nd_instance n2 \<noteq> None \<longrightarrow> nd_generation n1 < nd_generation n2) \<and>
    (\<forall>env b. ev = ApplyCore env b \<and> is_ok (fst (applyConfig (with_net net env) b n1)) \<longrightarrow> nd_generation n1 < nd_generation n2) \<and>
    load_generation (nd_stored n2) = Inr (nd_generation n2)"
proof -
  have inv: "core_inv net n1" unfolding assms(2) by (rule node.run_inv [OF assms(1)])
  have "nd_generation n \<le> nd_generation n1" unfolding assms(2) by (rule node.run_level [OF assms(1)])
  moreover have adv: "advances net n1 n2" unfolding assms(3) by (rule node_step_advances [OF inv])
  moreover have "nd_generation n1 < nd_generation n2"
    if ev: "ev = ApplyCore env b" and ok: "is_ok (fst (applyConfig (with_net net env) b n1))" for env b
  proof -
    obtain r where a: "applyConfig (with_net net env) b n1 = (r, n2)" using assms(3) ev by (cases "applyConfig (with_net net env) b n1") simp
    then show ?thesis using inv with_net_at
    proof (cases rule: applyConfig_cases)
      case (started x old)
      then show ?thesis by simp
    qed (use ok a in simp_all)
  qed
  ultimately show ?thesis by (auto simp: advances_def core_inv_def)
qed

theorem generation_never_reused_witness:
  "nd_generation node_sample < nd_generation (node_step net_node node_sample (ApplyCore core_sample (Some doc_sample)))"
proof -
  have "is_ok (fst (applyConfig (with_net net_node core_sample) (Some doc_sample) node_sample))"
    using apply_sample by (simp add: core_sample_net)
  then show ?thesis
    using generation_never_reused [OF node_sample_inv, of node_sample "[]" _ "ApplyCore core_sample (Some doc_sample)"] by simp
qed

section \<open>Configurations that fail\<close>

lemma rollback_no_previous:
  assumes "rollback_core env old n = (NoPrevious, n')"
  shows "old = None \<and> nd_file n' = NoConfig"
  using assms by (auto simp: rollback_core_def split: option.splits prod.splits if_splits sum.splits)


text \<open>A document the core accepts and starts, with its datasets at hand.\<close>

definition startable :: "'k core_env \<Rightarrow> json \<Rightarrow> bool" where
  "startable env d \<longleftrightarrow> parseConfig env (Some d) \<and> core_new env d \<and> is_ok (configureProxyNetwork env d) \<and> core_starts env d \<and>
     (\<forall>g. is_ok (fst (ensureGeoAssets (ce_geo env) (Some d) g)))"

lemma ensure_ready:
  assumes "firewallReady (nd_fw n)" "running (nd_fw n) = (nd_instance n \<noteq> None)"
  shows "ensure_fw env n = (Inr (), n)"
  using assms by (simp add: ensure_fw_def ensureFirewall_def)

lemma boot_succeeds:
  assumes "startable env d" "nd_faults n = []" "nd_generation n < max_generation"
  obtains x n' where "boot env (Some d) n = (Inr x, n')" "xi_doc x = d"
  using assms by (auto simp: boot_def startable_def advanceGeneration_def node_fault_def is_ok_iff)

text \<open>With no failing file operation a start with a ready firewall succeeds.\<close>

lemma start_succeeds:
  assumes "startable env d" "firewallReady (nd_fw n)" "nd_faults n = []" "nd_generation n < max_generation"
    and "nd_file n = ConfigText (Some d)" "nd_instance n = None" "core_inv net n" "at_net net env"
    and "bound net (nd_fw n) (decode_inbounds (Some d))"
  shows "\<exists>x n'. start_core env n = (Inr (), n') \<and> nd_instance n' = Some x \<and> xi_doc x = d"
proof -
  have e: "ensure_fw env n = (Inr (), n)" using assms(2,6,7) by (intro ensure_ready) (simp_all add: core_inv_def)
  have v: "validateFirewallConfig (fw_env_of env n) (nd_fw n) (decode_inbounds (Some d)) = Inr ()"
    using assms(7-9) validate_bound [of net "nd_fw n" "fw_env_of env n"] by (simp add: core_inv_def machine_inv_def at_net_def)
  obtain g geo where g: "ensureGeoAssets (ce_geo env) (Some d) (nd_geo n) = (Inr g, geo)"
    using assms(1) unfolding startable_def is_ok_iff by (metis prod.collapse)
  have geo: "ensure_geo env (Some d) n = (Inr (), n\<lparr>nd_geo := geo\<rparr>)" using g by (simp add: ensure_geo_def)
  obtain x n' where b: "boot env (Some d) (n\<lparr>nd_geo := geo\<rparr>) = (Inr x, n')" "xi_doc x = d"
    using boot_succeeds [of env d "n\<lparr>nd_geo := geo\<rparr>"] assms(1,3,4) by auto
  have "start_core env n = (Inr (), set_instance (Some x) n')"
    using e v geo b assms(1,5,6) by (simp add: start_core_def startable_def)
  then show ?thesis using b(2) by (auto simp: set_instance_def)
qed

lemma prepare_errors: "fst (prepare env b n) \<noteq> Inl (ApplyFailed how sv)"
proof -
  obtain q n1 where q: "ensure_fw env n = (q, n1)" by fastforce
  have e: "q \<noteq> Inl (ApplyFailed how sv)"
    using q by (auto simp: ensure_fw_def split: prod.splits sum.splits)
  have p: "plan_config env b n1 \<noteq> Inl (ApplyFailed how sv)"
    by (cases "nd_file n1") (auto simp: plan_config_def read_core_def split: sum.splits)
  have g: "fst (ensure_geo env m k) \<noteq> Inl (ApplyFailed how sv)" for m k
    by (auto simp: ensure_geo_def split: prod.splits sum.splits)
  obtain r n' where r: "prepare env b n = (r, n')" by fastforce
  have "r \<noteq> Inl (ApplyFailed how sv)"
    using r q
  proof (cases rule: prepare_cases)
    case (refused x)
    then show ?thesis using e p by auto
  next
    case (planned merged old x)
    then show ?thesis using g [of merged n1] by (auto split: sum.splits if_splits)
  qed
  then show ?thesis using r by simp
qed

lemma save_errors: "fst (save merged old n) \<noteq> Inl (ApplyFailed how sv)"
  by (auto simp: save_def split: option.splits prod.splits if_splits)

lemma undone_path:
  assumes "applyConfig env b n = (Inl (ApplyFailed how sv), n')"
  obtains merged old n1 n2 e n3 where "prepare env b n = (Inr (merged, old), n1)" "save merged old n1 = (Inr (), n2)"
    "boot env merged (set_instance None n2) = (Inl e, n3)" "rollback_core env old (n3\<lparr>nd_lastError := Some e\<rparr>) = (how, n')"
proof -
  obtain p n1 where p: "prepare env b n = (p, n1)" by fastforce
  obtain merged old where mo: "p = Inr (merged, old)"
    using assms p prepare_errors [of env b n how sv] by (cases p) (auto simp: applyConfig_def)
  obtain q n2 where q: "save merged old n1 = (q, n2)" by fastforce
  have "q = Inr ()"
    using assms p mo q save_errors [of merged old n1 how sv] by (cases q) (auto simp: applyConfig_def)
  note path = assms [unfolded applyConfig_def p mo q \<open>q = Inr ()\<close> prod.case sum.case]
  then have "\<not> (nd_instance n2 \<noteq> None \<and> \<not> core_closes env)" by (auto split: if_splits)
  note path = path [unfolded if_not_P [OF this]]
  obtain v n3 where v: "boot env merged (set_instance None n2) = (v, n3)" by fastforce
  obtain e where e: "v = Inl e" using path v by (cases v) auto
  have "rollback_core env old (n3\<lparr>nd_lastError := Some e\<rparr>) = (how, n')"
    using path v e by (auto split: prod.splits)
  then show thesis using that p mo q \<open>q = Inr ()\<close> v e by blast
qed

lemma ready_path:
  assumes "prepare env b n = (Inr (merged, old), n1)" "save merged old n1 = (Inr (), n2)" "ensure_fw env n = (Inr (), n)" "nd_faults n = []"
  shows "\<exists>g hs. n2 = n\<lparr>nd_geo := g, nd_history := hs, nd_file := ConfigText merged\<rparr>"
proof -
  obtain g where n1: "n1 = n\<lparr>nd_geo := g\<rparr>"
  proof -
    obtain q k where k: "ensure_geo env merged n = (q, k)" by fastforce
    have "n1 = k" using assms(1,3)
      by (cases rule: prepare_cases) (use k in \<open>auto split: sum.splits if_splits\<close>)
    then show thesis using that k by (auto elim: ensure_geo_eq)
  qed
  have "n2 = n1\<lparr>nd_history := nd_history n2, nd_file := ConfigText merged\<rparr>"
    using assms(2,4) by (cases old) (auto simp: save_def n1 node_fault_def)
  then show ?thesis unfolding n1 by (intro exI [of _ g] exI [of _ "nd_history n2"]) simp
qed

text \<open>The rollback of a failed configuration works: when the old configuration can be started, the firewall
  is ready, no file operation fails, and two generations are left, then a configuration whose core
  does not start ends with the old file in place and a core with exactly the old configuration
  running.\<close>
theorem rollback_recovers:
  assumes "core_inv (netip_of (ce_fw env)) n" and "nd_file n = ConfigText (Some d)" and "startable env d"
    and "bound (netip_of (ce_fw env)) (nd_fw n) (decode_inbounds (Some d))"
    and "firewallReady (nd_fw n)" and "nd_faults n = []" and "nd_generation n + 2 \<le> max_generation"
    and "applyConfig env b n = (Inl (ApplyFailed how saved), n')"
  shows "how = Restored \<and> nd_file n' = nd_file n \<and> (\<exists>x. nd_instance n' = Some x \<and> xi_doc x = d)"
proof -
  let ?net = "netip_of (ce_fw env)"
  have at: "at_net ?net env" by (simp add: at_net_def)
  have ready: "ensure_fw env n = (Inr (), n)" using assms(1,5) by (intro ensure_ready) (simp_all add: core_inv_def)
  obtain merged old n1 n2 e n3 where path: "prepare env b n = (Inr (merged, old), n1)" "save merged old n1 = (Inr (), n2)"
    "boot env merged (set_instance None n2) = (Inl e, n3)" "rollback_core env old (n3\<lparr>nd_lastError := Some e\<rparr>) = (how, n')"
    using assms(8) by (rule undone_path)
  have old: "old = Some (Some d)" using prepare_spec [OF path(1) assms(1) at] assms(2) by (simp add: read_core_def)
  obtain g hs where n2: "n2 = n\<lparr>nd_geo := g, nd_history := hs, nd_file := ConfigText merged\<rparr>"
    using ready_path [OF path(1,2) ready assms(6)] by blast
  have inv2: "core_inv ?net (set_instance None n2)"
    using set_instance_None [OF assms(1)] by (simp add: core_inv_def set_instance_def n2)
  have "nd_instance (set_instance None n2) = None" by (simp add: set_instance_def)
  note boot = boot_spec [OF path(3) inv2 this]
  obtain k3 where adv: "advanceGeneration (set_instance None n2) = (Inr (), k3)" and k3: "nd_faults k3 = []"
    "nd_generation k3 = Suc (nd_generation n)" "nd_fw k3 = (nd_fw n)\<lparr>running := False\<rparr>"
    using assms(6,7) by (simp add: advanceGeneration_def node_fault_def set_instance_def n2)
  have "n3 = k3" using path(3) by (auto simp: boot_def adv split: option.splits if_splits sum.splits)
  note n3 = k3 [folded this]
  define m where "m = n3\<lparr>nd_lastError := Some e, nd_file := ConfigText (Some d)\<rparr>"
  have "core_inv ?net n3" "nd_instance n3 = None" using boot by simp_all
  then have "core_inv ?net m" by (simp add: core_inv_def m_def)
  then have "\<exists>x k. start_core env m = (Inr (), k) \<and> nd_instance k = Some x \<and> xi_doc x = d"
    using assms(3-7) n3 boot at by (intro start_succeeds) (simp_all add: m_def)
  then obtain x k where k: "start_core env m = (Inr (), k)" "nd_instance k = Some x" "xi_doc x = d" by blast
  have "rollback_core env old (n3\<lparr>nd_lastError := Some e\<rparr>) = (Restored, k)"
    using k(1) n3(1) by (simp add: rollback_core_def old node_fault_def m_def)
  moreover have "nd_file k = ConfigText (Some d)"
    using start_core_spec [OF k(1) \<open>core_inv ?net m\<close> at] by (simp add: m_def)
  ultimately show ?thesis using path(4) k assms(2) by simp
qed

lemma refused_sample:
  "\<exists>how sv n'. applyConfig core_sample (Some (JObj [])) running_sample = (Inl (ApplyFailed how sv), n')"
proof -
  have fw: "nd_fw running_sample = world_sample" and f: "nd_file running_sample = ConfigText (Some doc_sample)"
    and i: "nd_instance running_sample = Some instance_sample" and g: "nd_generation running_sample = 1" "nd_faults running_sample = []"
    using apply_sample by simp_all
  have e: "ensure_fw core_sample running_sample = (Inr (), running_sample)"
    by (rule ensure_ready) (simp_all add: fw i world_sample_def)
  have v: "validateFirewallConfig env (nd_fw running_sample) cfg = Inr ()" for env :: "bool firewall_env" and cfg
    by (rule sample_validate) (simp_all add: fw world_sample_def)
  have m: "preserveFederationConfig sg w (Some (JObj [])) (Some (Some doc_sample)) = Inr (Some (JObj []))" for sg w
    by (simp add: preserveFederationConfig_def as_object_def doc_sample_def get_any_def)
  have geo: "ensure_geo core_sample (Some (JObj [])) n = (Inr (), n)" for n :: "bool node"
    by (simp add: ensure_geo_def ensureGeoAssets_def ensure_asset_def needed_def core_sample_def geo_sample_def
        as_object_def get_any_def max_config_def)
  have p: "prepare core_sample (Some (JObj [])) running_sample = (Inr (Some (JObj []), Some (Some doc_sample)), running_sample)"
    using e v m geo sample_parse by (simp add: prepare_def plan_config_def f read_core_def)
  obtain n2 where n2: "save (Some (JObj [])) (Some (Some doc_sample)) running_sample = (Inr (), n2)" "nd_faults n2 = []"
    "nd_generation n2 = 1" using g by (simp add: save_def node_fault_def)
  have c: "core_closes core_sample" "core_new core_sample (JObj [])" "\<not> core_starts core_sample (JObj [])"
    by (simp_all add: core_sample_def)
  have "guard_tags (JObj []) = Some None"
    by (simp add: guard_tags_def as_object_def obj_field_def str_field_def get_any_def)
  then obtain n3 where b: "boot core_sample (Some (JObj [])) (set_instance None n2) = (Inl StartFailed, n3)"
    using n2 c by (simp add: boot_def advanceGeneration_def node_fault_def set_instance_def max_generation_def configureProxyNetwork_def)
  show ?thesis
    using p n2(1) b c(1) by (simp add: applyConfig_def split: prod.splits)
qed

lemma startable_sample: "startable core_sample doc_sample"
proof -
  have "ensureGeoAssets (ce_geo core_sample) (Some doc_sample) g = (Inr (), g)" for g
    by (simp add: ensureGeoAssets_def ensure_asset_def needed_def core_sample_def geo_sample_def doc_sample_def
      as_object_def get_any_def max_config_def)
  then show ?thesis
    using sample_parse by (simp add: startable_def configureProxyNetwork_def sample_guard) (simp add: core_sample_def doc_sample_def)
qed

theorem rollback_recovers_witness:
  "\<exists>saved n' x. applyConfig core_sample (Some (JObj [])) running_sample = (Inl (ApplyFailed Restored saved), n') \<and>
     nd_instance n' = Some x \<and> xi_doc x = doc_sample"
proof -
  obtain how sv n' where a: "applyConfig core_sample (Some (JObj [])) running_sample = (Inl (ApplyFailed how sv), n')"
    using refused_sample by blast
  have net: "netip_of (ce_fw core_sample) = net_node" by (simp add: core_sample_def env_sample_def)
  have fields: "nd_file running_sample = ConfigText (Some doc_sample)" "nd_fw running_sample = world_sample"
    "nd_faults running_sample = []" "nd_generation running_sample = 1" using apply_sample by simp_all
  have b: "bound net_node (nd_fw running_sample) (decode_inbounds (Some doc_sample))"
    by (simp add: fields bound_def intent_def world_sample_def)
  have "firewallReady (nd_fw running_sample)" "nd_generation running_sample + 2 \<le> max_generation"
    by (simp_all add: fields world_sample_def max_generation_def)
  then show ?thesis
    using rollback_recovers [OF _ fields(1) startable_sample _ _ fields(3) _ a] running_sample_inv b a by (auto simp: net)
qed


end
