(* ===== verification/Shared_Users.thy ===== *)
theory Shared_Users
  imports Node_Properties
begin

text \<open>
  Users of a node and the consumers of its grants: a synchronisation reaches the wanted users, a
  consumer cannot touch the users of others, and a federated command is executed once.
\<close>

section \<open>Live users\<close>

text \<open>What the Agent relies on of a user manager, and of the order of a Go map.\<close>

definition manager_ok :: "'k core_env \<Rightarrow> bool" where
  "manager_ok env \<longleftrightarrow>
     (\<forall>u us us'. core_add env u us = Some us' \<longrightarrow> set us' = insert u (set us)) \<and>
     (\<forall>e us us'. core_remove env e us = Some us' \<longrightarrow> us' = filter (\<lambda>u. xu_email u \<noteq> e) us) \<and>
     (\<forall>us. set (map_order env us) = set us)"

lemma remove_stale_spec:
  assumes "manager_ok env" "remove_stale env us desired live = Some (missing, kept)"
    and "distinct (map xu_email us)" "distinct (map xu_email desired)"
  shows "set missing = {d \<in> set desired. d \<notin> set us} \<and>
    kept = filter (\<lambda>l. \<not> (\<exists>u \<in> set us. u \<notin> set desired \<and> xu_email u = xu_email l)) live"
  using assms
proof (induction env us desired live rule: remove_stale.induct)
  case (1 env desired live)
  then show ?case by simp
next
  case (2 env u us desired live)
  show ?case
  proof (cases "u \<in> set desired")
    case True
    let ?d = "filter (\<lambda>d. xu_email d \<noteq> xu_email u) desired"
    have only: "set ?d = set desired - {u}"
      using True 2(6) by (auto simp: distinct_map inj_on_def)
    have d: "distinct (map xu_email ?d)" using 2(6) by (simp add: distinct_map_filter)
    have rec: "remove_stale env us ?d live = Some (missing, kept)" using 2(4) True by simp
    have "u \<notin> set us" using 2(5) by auto
    have IH: "set missing = {d \<in> set ?d. d \<notin> set us} \<and>
        kept = filter (\<lambda>l. \<not> (\<exists>v \<in> set us. v \<notin> set ?d \<and> xu_email v = xu_email l)) live"
      using 2(1) [OF True 2(3) rec _ d] 2(5) by simp
    moreover have "v \<notin> set ?d \<longleftrightarrow> v \<notin> set desired" if "v \<in> set us" for v using only that \<open>u \<notin> set us\<close> by auto
    ultimately show ?thesis unfolding only using True by (auto intro!: filter_cong)
  next
    case False
    then obtain live' where l: "core_remove env (xu_email u) live = Some live'" "remove_stale env us desired live' = Some (missing, kept)"
      using 2(4) by (auto split: option.splits)
    have "live' = filter (\<lambda>v. xu_email v \<noteq> xu_email u) live"
      using l(1) 2(3) unfolding manager_ok_def by blast
    then show ?thesis using 2(2) [OF False l(1) 2(3) l(2)] 2(5,6) False by (auto intro!: filter_cong)
  qed
qed

lemma add_missing_set:
  assumes "manager_ok env" "add_missing env us live = Some live'"
  shows "set live' = set us \<union> set live"
  using assms
proof (induction env us live rule: add_missing.induct)
  case (2 env u us live)
  then obtain l where l: "core_add env u live = Some l" "add_missing env us l = Some live'"
    by (auto split: option.splits)
  have "set l = insert u (set live)" using 2(2) l(1) unfolding manager_ok_def by blast
  then show ?case using 2(1) [OF l(1) 2(2) l(2)] by auto
qed simp

lemma sync_live_exact:
  assumes "manager_ok env" "sync_live env desired live = Some live'"
    and "distinct (map xu_email live)" "distinct (map xu_email desired)"
  shows "set live' = set desired"
proof -
  obtain missing kept where r: "remove_stale env live desired live = Some (missing, kept)"
    and a: "add_missing env (map_order env missing) kept = Some live'"
    using assms(2) by (auto simp: sync_live_def split: option.splits)
  note spec = remove_stale_spec [OF assms(1) r assms(3,4)]
  have "set (map_order env missing) = set missing" using assms(1) unfolding manager_ok_def by blast
  then have "set live' = set missing \<union> set kept" using add_missing_set [OF assms(1) a] by simp
  moreover have "set kept = set live \<inter> set desired"
  proof -
    have "(\<exists>u \<in> set live. u \<notin> set desired \<and> xu_email u = xu_email l) \<longleftrightarrow> l \<notin> set desired" if "l \<in> set live" for l
      using that assms(3) by (auto simp: distinct_map inj_on_def)
    then show ?thesis using spec by auto
  qed
  ultimately show ?thesis using spec by auto
qed

lemma make_users_distinct:
  "make_users env kind seen us = Inr desired \<Longrightarrow> distinct (map xu_email desired) \<and> set (map xu_email desired) \<inter> set seen = {}"
proof (induction env kind seen us arbitrary: desired rule: make_users.induct)
  case (2 env kind seen v vs)
  obtain m u us where m: "as_map v = Some m" "makeUser env kind m = Inr u" "xu_email u \<notin> set seen"
    "make_users env kind (xu_email u # seen) vs = Inr us" "desired = u # us"
    using 2(2) by (auto simp: bind_res_Inr split: option.splits if_splits)
  show ?case using 2(1) [OF m(1) _ m(4)] m(3,5) by auto
qed simp

section \<open>Users on disk\<close>

text \<open>The list under \<open>settings.clients\<close> of the first inbound with the tag.\<close>

definition clients_of :: "json \<Rightarrow> json list" where
  "clients_of entry = the_list (as_array (get_any (object (get_any (object entry) ''settings'')) ''clients''))"

definition disk_clients :: "string \<Rightarrow> 'k node \<Rightarrow> json list" where
  "disk_clients tag n = (case nd_file n of
      ConfigText (Some (JObj cfg)) \<Rightarrow>
        (case find (has_tag tag) (the_list (as_array (get_any cfg ''inbounds''))) of None \<Rightarrow> [] | Some entry \<Rightarrow> clients_of entry)
    | _ \<Rightarrow> [])"

lemma has_tag_settings: "has_tag t (with_settings f v) = has_tag t v"
  by (simp add: has_tag_def with_settings_def)

lemma find_replace_first:
  "find (has_tag t) (replace_first (has_tag tag) (with_settings f) ins) =
   (if t = tag then map_option (with_settings f) (find (has_tag tag) ins) else find (has_tag t) ins)"
proof (induction ins)
  case (Cons v ins)
  have "t \<noteq> tag \<Longrightarrow> has_tag tag v \<Longrightarrow> \<not> has_tag t v" by (auto simp: has_tag_def)
  then show ?case using Cons by (auto simp: has_tag_settings)
qed simp

lemma disk_clients_update:
  assumes "nd_file n' = ConfigText (Some (update_inbound tag (put_key ''clients'' (JArr us)) cfg ins))" "disk_inbound tag n cfg ins entry"
  shows "disk_clients t n' = (if t = tag then us else disk_clients t n)"
proof -
  have f: "find (has_tag t) (replace_first (has_tag tag) (with_settings (put_key ''clients'' (JArr us))) ins) =
      (if t = tag then Some (with_settings (put_key ''clients'' (JArr us)) entry) else find (has_tag t) ins)"
    using assms(2) by (simp add: find_replace_first disk_inbound_def)
  have "clients_of (with_settings (put_key ''clients'' (JArr us)) entry) = us"
    by (simp add: clients_of_def with_settings_def the_list_def)
  moreover have "disk_clients t n = (case find (has_tag t) ins of None \<Rightarrow> [] | Some entry \<Rightarrow> clients_of entry)"
    using assms(2) by (simp add: disk_clients_def disk_inbound_def the_list_def)
  moreover have "disk_clients t n' = (case find (has_tag t) (replace_first (has_tag tag) (with_settings (put_key ''clients'' (JArr us))) ins) of
      None \<Rightarrow> [] | Some entry \<Rightarrow> clients_of entry)"
    using assms(1) by (simp add: disk_clients_def update_inbound_def the_list_def)
  ultimately show ?thesis using f by simp
qed

lemma disk_clients_entry: "disk_inbound tag n cfg ins entry \<Longrightarrow> disk_clients tag n = clients_of entry"
  by (simp add: disk_clients_def disk_inbound_def the_list_def)


lemma make_users_emails: "make_users env kind seen us = Inr desired \<Longrightarrow> u \<in> set us \<Longrightarrow> email_of u \<noteq> []"
proof (induction env kind seen us arbitrary: desired rule: make_users.induct)
  case (2 env kind seen v vs)
  obtain m w us where m: "as_map v = Some m" "makeUser env kind m = Inr w" "xu_email w \<notin> set seen"
    "make_users env kind (xu_email w # seen) vs = Inr us"
    using 2(2) by (auto simp: bind_res_Inr split: option.splits if_splits)
  have "email_of v \<noteq> []" using m(1,2) by (cases v) (auto simp: makeUser_def Let_def)
  then show ?case using 2(1) [OF m(1) m(3) m(4)] 2(3) by auto
qed simp

lemma scoped_prefix: "scoped_users prefix vs = Inr scoped \<Longrightarrow> u \<in> set scoped \<Longrightarrow> has_prefix (email_of u) prefix"
proof (induction prefix vs arbitrary: scoped rule: scoped_users.induct)
  case (2 prefix v vs)
  obtain user rest where m: "as_map v = Some user" "scoped_users prefix vs = Inr rest"
    "scoped = JObj (put_key ''email'' (JStr (if has_prefix (get_string user ''email'') prefix then get_string user ''email''
      else prefix @ get_string user ''email'')) user) # rest"
    using 2(2) by (auto simp: bind_res_Inr Let_def split: option.splits if_splits)
  have "has_prefix (email_of (hd scoped)) prefix"
    using m(3) by (auto simp: get_string_def map_of_put_key has_prefix_iff)
  then show ?case using 2(1) [OF m(1) refl _ m(2)] 2(2,3) m by (auto simp: Let_def split: if_splits)
qed simp

lemma other_users_kept:
  assumes "\<And>u. u \<in> set (filter (\<lambda>u. \<not> has_prefix (email_of u) (p @ ''.'')) (map (\<lambda>v. JObj (object v)) vs)) \<Longrightarrow> email_of u \<noteq> []"
  shows "filter (\<lambda>u. \<not> has_prefix (email_of u) (p @ ''.'')) (map (\<lambda>v. JObj (object v)) vs) =
    filter (\<lambda>u. \<not> has_prefix (email_of u) (p @ ''.'')) vs"
  using assms
proof (induction vs)
  case (Cons v vs)
  have e: "email_of (JObj (object v)) = email_of v" by (cases v) (simp_all add: get_string_def)
  have "JObj (object v) = v" if "\<not> has_prefix (email_of v) (p @ ''.'')"
    using that Cons.prems [of "JObj (object v)"] e by (cases v) auto
  then show ?case using Cons e by auto
qed simp


section \<open>A sample synchronisation\<close>

definition entry_sample :: json where
  "entry_sample = JObj [(''port'', JNum ''443''), (''protocol'', JStr ''vless''), (''tag'', JStr ''proxy'')]"

definition member :: "string \<Rightarrow> json" where
  "member e = JObj [(''email'', JStr e), (''id'', JStr ''7'')]"

lemma sample_disk: "disk_inbound ''proxy'' running_sample [(''inbounds'', JArr [entry_sample])] [entry_sample] entry_sample"
  using apply_sample by (simp add: disk_inbound_def doc_sample_def entry_sample_def get_any_def has_tag_def)

lemma entry_protocol: "get_string (object entry_sample) ''protocol'' = ''vless''"
  by (simp add: entry_sample_def get_string_def)

lemma manager_sample: "manager_ok core_sample"
  by (simp add: manager_ok_def core_sample_def)

lemma make_user_sample: "e \<noteq> [] \<Longrightarrow> makeUser core_sample ''vless'' [(''email'', JStr e), (''id'', JStr ''7'')] =
    Inr \<lparr>xu_email = e, xu_level = 0, xu_account = Vless ''7'' []\<rparr>"
  by (simp add: makeUser_def get_string_def get_any_def core_sample_def)

lemma sample_sync: "\<exists>n'. syncUsers core_sample ''proxy'' (JArr [member ''team.a'']) running_sample = (Inr (), n')"
proof -
  have disk: "(case nd_file running_sample of ConfigText d \<Rightarrow> as_object d | _ \<Rightarrow> None) = Some [(''inbounds'', JArr [entry_sample])]"
    using sample_disk by (simp add: disk_inbound_def as_object_def)
  have f: "find (has_tag ''proxy'') (the_list (as_array (get_any [(''inbounds'', JArr [entry_sample])] ''inbounds''))) = Some entry_sample"
    using sample_disk by (simp add: disk_inbound_def the_list_def get_any_def)
  have mk: "make_users core_sample ''vless'' [] [member ''team.a''] = Inr [\<lparr>xu_email = ''team.a'', xu_level = 0, xu_account = Vless ''7'' []\<rparr>]"
    by (simp add: member_def make_user_sample)
  have "sync_live core_sample us [] = Some us" for us
  proof -
    have "add_missing core_sample us vs = Some (vs @ us)" for vs
      by (induction us arbitrary: vs) (simp_all add: core_sample_def)
    then show ?thesis by (simp add: sync_live_def) (simp add: core_sample_def)
  qed
  moreover have "nd_instance running_sample = Some instance_sample" "map_of (xi_users instance_sample) ''proxy'' = Some []"
    "nd_faults running_sample = []" using apply_sample by (simp_all add: instance_sample_def)
  ultimately have "\<exists>n'. apply_users core_sample ''proxy'' us upd running_sample = (Inr (), n')" for us upd
    by (simp add: apply_users_def sample_parse node_fault_def)
  then show ?thesis
    using disk f mk by (simp add: syncUsers_def entry_protocol Let_def)
qed


definition grant_main :: federation_grant where
  "grant_main = (sg_Grant grant_sample)\<lparr>fg_Inbounds := [(''main'', ''proxy'')]\<rparr>"

definition command_sample :: command where
  "command_sample = \<lparr>cmd_ID = ''c1'', cmd_Action = ''inbound.users.sync'',
     cmd_Params = [(''inbound'', JStr ''main''), (''users'', JArr [member ''a''])]\<rparr>"

lemma handle_sample: "\<exists>data n'. handleFederationOperation core_sample 0 grant_main command_sample running_sample = (Inr data, n')"
proof -
  have ns: "fg_Namespace grant_main = ''team''" "map_of (fg_Inbounds grant_main) ''main'' = Some ''proxy''"
    by (simp_all add: grant_main_def grant_sample_def SignFederationGrant_def)
  have "federationInbound grant_main ''main'' running_sample = Inr entry_sample"
    using sample_disk ns by (simp add: federationInbound_def disk_inbound_def as_object_def the_list_def)
  moreover have "existing_users entry_sample = []"
    by (simp add: existing_users_def entry_sample_def get_any_def the_list_def)
  moreover have "scoped_users ''team.'' [member ''a''] = Inr [member ''team.a'']" by code_simp
  ultimately show ?thesis
    using sample_sync ns by (auto simp: handleFederationOperation_def command_sample_def Let_def get_string_def get_any_def)
qed


section \<open>Federated commands are executed once\<close>

named_theorems keeps_results \<open>operations that leave the stored answers alone\<close>

lemma results_fault [keeps_results]: "nd_results (snd (node_fault n)) = nd_results n"
  by (simp add: node_fault_def split: list.split)

lemma results_ensure [keeps_results]: "nd_results (snd (ensure_fw env n)) = nd_results n" "nd_results (snd (ensure_geo env b n)) = nd_results n"
  "nd_results (snd (apply_fw env req n)) = nd_results n" "nd_results (set_instance x n) = nd_results n"
  by (simp_all add: ensure_fw_def ensure_geo_def apply_fw_def set_instance_def split: prod.split)

lemma results_eq [keeps_results]:
  "node_fault n = (f, n') \<Longrightarrow> nd_results n' = nd_results n" "ensure_fw env n = (r, n') \<Longrightarrow> nd_results n' = nd_results n"
  "ensure_geo env b n = (q, n') \<Longrightarrow> nd_results n' = nd_results n"
  using results_fault [of n] results_ensure(1) [of env n] results_ensure(2) [of env b n] by auto

lemma results_boot: "boot env b n = (r, n') \<Longrightarrow> nd_results n' = nd_results n"
proof -
  have "advanceGeneration n = (q, k) \<Longrightarrow> nd_results k = nd_results n" for q k
    by (erule advanceGeneration_spec) simp_all
  then show "boot env b n = (r, n') \<Longrightarrow> ?thesis"
    by (auto simp: boot_def split: prod.splits sum.splits option.splits if_splits)
qed

lemma results_start: "start_core env n = (r, n') \<Longrightarrow> nd_results n' = nd_results n"
proof -
  assume s: "start_core env n = (r, n')"
  obtain q n1 where e: "ensure_fw env n = (q, n1)" by fastforce
  have n1: "nd_results n1 = nd_results n" by (rule results_eq(2) [OF e])
  show ?thesis
    using s e
  proof (cases rule: start_core_cases)
    case stays
    then show ?thesis using n1 by simp
  next
    case (tries b)
    obtain g n2 where g: "ensure_geo env b n1 = (g, n2)" by fastforce
    obtain v n3 where v: "boot env b n2 = (v, n3)" by fastforce
    have "start_core env n = (case g of Inl e \<Rightarrow> (Inl e, n2) | Inr _ \<Rightarrow> if \<not> parseConfig env b then (Inl CoreInvalid, n2)
        else case v of Inl e \<Rightarrow> (Inl e, n3) | Inr x \<Rightarrow> (Inr (), set_instance (Some x) n3))"
      using e tries g v by (cases g; cases v) (simp_all add: start_core_def)
    then have "n' = n2 \<or> n' = n3 \<or> (\<exists>x. n' = set_instance (Some x) n3)" using s by (auto split: sum.splits if_splits)
    then show ?thesis using n1 results_eq(3) [OF g] results_boot [OF v] by (auto simp: keeps_results)
  qed
qed

lemma results_stop: "stop_core env n = (r, n') \<Longrightarrow> nd_results n' = nd_results n"
  by (auto simp: stop_core_def keeps_results split: if_splits)

lemma results_restart: "restart env n = (r, n') \<Longrightarrow> nd_results n' = nd_results n"
  using results_stop results_start by (fastforce simp: restart_def split: prod.splits sum.splits)

lemma results_prepare: "prepare env b n = (r, n') \<Longrightarrow> nd_results n' = nd_results n"
proof -
  assume p: "prepare env b n = (r, n')"
  obtain q n1 where e: "ensure_fw env n = (q, n1)" by fastforce
  show ?thesis
    using p e by (cases rule: prepare_cases) (use results_eq(2) [OF e] in \<open>auto dest: results_eq(3)\<close>)
qed

lemma results_save: "save m old n = (r, n') \<Longrightarrow> nd_results n' = nd_results n"
  by (erule save_spec) simp_all

lemma results_rollback: "rollback_core env old n = (how, n') \<Longrightarrow> nd_results n' = nd_results n"
  using results_start by (fastforce simp: rollback_core_def keeps_results split: option.splits prod.splits if_splits sum.splits)

lemma results_apply: "applyConfig env b n = (r, n') \<Longrightarrow> nd_results n' = nd_results n"
proof -
  assume a: "applyConfig env b n = (r, n')"
  obtain p n1 where p: "prepare env b n = (p, n1)" by fastforce
  note r1 = results_prepare [OF p]
  show ?thesis
  proof (cases p)
    case (Inl e)
    then show ?thesis using a p r1 by (simp add: applyConfig_def)
  next
    case (Inr mo)
    obtain merged old where mo: "mo = (merged, old)" by fastforce
    obtain q n2 where s: "save merged old n1 = (q, n2)" by fastforce
    note r2 = results_save [OF s]
    obtain v n3 where v: "boot env merged (set_instance None n2) = (v, n3)" by fastforce
    note r3 = results_boot [OF v]
    have "n' = n2 \<or> n' = set_instance None n2 \<or> (\<exists>x. n' = (set_instance (Some x) n3)\<lparr>nd_lastError := None\<rparr>) \<or>
        (\<exists>e how. rollback_core env old (n3\<lparr>nd_lastError := Some e\<rparr>) = (how, n'))"
      using a p Inr mo s v by (cases q; cases v) (auto simp: applyConfig_def split: if_splits prod.splits)
    moreover have "nd_results n' = nd_results n3" if "rollback_core env old (n3\<lparr>nd_lastError := Some e\<rparr>) = (how, n')" for e how
      using results_rollback [OF that] by simp
    ultimately show ?thesis using r1 r2 r3 by (auto simp: keeps_results)
  qed
qed

lemma results_fail_sync: "fail_sync env n = (r, n') \<Longrightarrow> nd_results n' = nd_results n"
proof -
  assume f: "fail_sync env n = (r, n')"
  obtain q n1 where s: "stop_core env n = (q, n1)" by fastforce
  obtain v n2 where t: "start_core env n1 = (v, n2)" by fastforce
  have "n' = n2" using f s t by (simp add: fail_sync_def)
  then show ?thesis using results_stop [OF s] results_start [OF t] by simp
qed

lemma results_apply_users: "apply_users env tag desired updated n = (r, n') \<Longrightarrow> nd_results n' = nd_results n"
  by (auto simp: apply_users_def keeps_results dest!: results_apply results_fail_sync results_eq(1) split: if_splits option.splits prod.splits)

lemma results_sync: "syncUsers env tag raw n = (r, n') \<Longrightarrow> nd_results n' = nd_results n"
  by (erule syncUsers_cases) (auto dest: results_apply results_apply_users)

lemma results_owner: "syncOwnerUsers env tag raw n = (r, n') \<Longrightarrow> nd_results n' = nd_results n"
proof -
  assume s: "syncOwnerUsers env tag raw n = (r, n')"
  define disk where "disk = (case nd_file n of ConfigText d \<Rightarrow> as_object d | _ \<Rightarrow> None)"
  have "n' = n \<or> (\<exists>q. syncUsers env tag q n = (r, n'))"
    using s unfolding syncOwnerUsers_def disk_def [symmetric]
    by (cases raw; cases disk) (auto split: option.splits sum.splits)
  then show ?thesis by (auto dest: results_sync)
qed

lemma results_handle: "handleFederationOperation env now grant cmd n = (r, n') \<Longrightarrow> nd_results n' = nd_results n"
  by (erule handle_cases) (auto dest: results_sync)

lemma results_New_runtime: "New_runtime mode n = (r, n') \<Longrightarrow> nd_results n' = nd_results n"
  by (auto simp: New_runtime_def initializeCoreConfig_def Let_def set_instance_def keeps_results dest: results_eq(1)
      split: sum.splits core_file.splits prod.splits if_splits)

text \<open>The key under which the answer to an envelope is stored, when the envelope is authentic.\<close>

definition presented :: "'k core_env \<Rightarrow> federation_env \<Rightarrow> federation_envelope \<Rightarrow> 'k node \<Rightarrow> string option" where
  "presented env fx envelope n =
     (case envelope_grant (ce_sign env) fx envelope (nd_fed n) of
        Inl _ \<Rightarrow> None
      | Inr grant \<Rightarrow> (case fst (federationIdentity (fx_crypto fx) (fx_random fx) (nd_fed n)) of
          Inl _ \<Rightarrow> None
        | Inr (priv, pub) \<Rightarrow> (case open_envelope (ce_sign env) fx grant priv pub envelope of
            Inl _ \<Rightarrow> None
          | Inr (request, ch) \<Rightarrow> Some (cache_key fx grant (fr_Command request)))))"

lemma presented_cong: "nd_fed n = nd_fed n' \<Longrightarrow> presented env fx envelope n = presented env fx envelope n'"
  unfolding presented_def by (simp only:)

lemma presented_execute:
  assumes "presented env fx envelope n = Some key"
  obtains grant priv pub request ch w where "key = cache_key fx grant (fr_Command request)"
    "executeFederation env fx (Some envelope) n = (case map_of (nd_results n) key of
        Some BadCache \<Rightarrow> (Inl FedRead, n\<lparr>nd_fed := w\<rparr>)
      | Some (Cached old p) \<Rightarrow>
          if old \<noteq> digest fx (envelope_text fx envelope) then (Inl IDReused, n\<lparr>nd_fed := w\<rparr>) else (Inr (p, True), n\<lparr>nd_fed := w\<rparr>)
      | None \<Rightarrow>
          if fr_IssuedAt request < fx_now fx - 300 \<or> fr_IssuedAt request > fx_now fx + 90 then (Inl RequestExpired, n\<lparr>nd_fed := w\<rparr>)
          else run_federated env fx grant request ch (digest fx (envelope_text fx envelope)) (n\<lparr>nd_fed := w\<rparr>))"
proof -
  obtain grant where g: "envelope_grant (ce_sign env) fx envelope (nd_fed n) = Inr grant"
    using assms by (auto simp: presented_def split: sum.splits)
  obtain i w where i: "federationIdentity (fx_crypto fx) (fx_random fx) (nd_fed n) = (i, w)" by fastforce
  obtain priv pub where ip: "i = Inr (priv, pub)"
    using assms g i by (auto simp: presented_def split: sum.splits)
  obtain request ch where o: "open_envelope (ce_sign env) fx grant priv pub envelope = Inr (request, ch)"
    using assms g i ip by (auto simp: presented_def split: sum.splits)
  have key: "key = cache_key fx grant (fr_Command request)" using assms g i ip o by (simp add: presented_def)
  then show thesis using that [of grant request w ch] g i ip o by (simp add: executeFederation_def Let_def)
qed

lemma execute_keeps_answers:
  assumes "executeFederation env fx raw n = (r, n')" "map_of (nd_results n) k = Some c"
  shows "map_of (nd_results n') k = Some c"
  using assms(1)
proof (cases rule: execute_cases)
  case (executed envelope grant w priv pub request ch)
  obtain q n1 rs fs where h: "handleFederationOperation env (fx_millis fx) grant (fr_Command request) (n\<lparr>nd_fed := w\<rparr>) = (q, n1)"
    and n': "n' = n1\<lparr>nd_results := rs, nd_faults := fs\<rparr>"
    and rs: "case r of Inl _ \<Rightarrow> rs = nd_results n1
     | Inr (p, _) \<Rightarrow> rs = put_key (cache_key fx grant (fr_Command request)) (Cached (digest fx (envelope_text fx envelope)) p) (nd_results n1)"
    using executed(7) by (rule run_federated_cases)
  have n1: "nd_results n1 = nd_results n" using results_handle [OF h] by simp
  have "k \<noteq> cache_key fx grant (fr_Command request)" using executed(5) assms(2) by auto
  then show ?thesis using rs n1 n' assms(2) by (cases r) (auto simp: map_of_put_key)
qed (use assms(2) in simp_all)

lemmas results_snd [keeps_results] =
  results_apply [OF prod.collapse [symmetric]] results_start [OF prod.collapse [symmetric]]
  results_stop [OF prod.collapse [symmetric]] results_restart [OF prod.collapse [symmetric]]
  results_owner [OF prod.collapse [symmetric]] results_New_runtime [OF prod.collapse [symmetric]]

lemma node_step_answers: "map_of (nd_results n) k = Some c \<Longrightarrow> map_of (nd_results (node_step net n ev)) k = Some c"
  by (cases ev) (simp_all add: keeps_results listen_on_def execute_keeps_answers [OF prod.collapse [symmetric]] split: prod.split)

interpretation answers: machine "node_step net" "\<lambda>n. map_of (nd_results n) k = Some c"
  for net k c
  by unfold_locales (rule node_step_answers)

lemma answered:
  assumes "executeFederation env fx (Some envelope) n = (Inr (p, c), n')" "presented env fx envelope n = Some key"
  shows "map_of (nd_results n') key = Some (Cached (digest fx (envelope_text fx envelope)) p)"
  using assms(2)
proof (rule presented_execute)
  fix grant :: federation_grant and request ch w
  let ?hash = "digest fx (envelope_text fx envelope)"
  assume key: "key = cache_key fx grant (fr_Command request)"
    and un: "executeFederation env fx (Some envelope) n = (case map_of (nd_results n) key of
        Some BadCache \<Rightarrow> (Inl FedRead, n\<lparr>nd_fed := w\<rparr>)
      | Some (Cached old p) \<Rightarrow> if old \<noteq> ?hash then (Inl IDReused, n\<lparr>nd_fed := w\<rparr>) else (Inr (p, True), n\<lparr>nd_fed := w\<rparr>)
      | None \<Rightarrow>
          if fr_IssuedAt request < fx_now fx - 300 \<or> fr_IssuedAt request > fx_now fx + 90 then (Inl RequestExpired, n\<lparr>nd_fed := w\<rparr>)
          else run_federated env fx grant request ch ?hash (n\<lparr>nd_fed := w\<rparr>))"
  show ?thesis
  proof (cases "map_of (nd_results n) key")
    case None
    then have "run_federated env fx grant request ch ?hash (n\<lparr>nd_fed := w\<rparr>) = (Inr (p, c), n')"
      using un assms(1) by (simp split: if_splits)
    then show ?thesis by (rule run_federated_cases) (simp add: key map_of_put_key)
  next
    case (Some x)
    then show ?thesis using un assms(1) by (cases x) (auto split: if_splits)
  qed
qed


definition grant_status :: signed_grant where
  "grant_status = SignFederationGrant signer_sample ((sg_Grant grant_sample)\<lparr>fg_Actions := [''status.get'']\<rparr>) []"

definition request_shared :: federation_request where
  "request_shared =
     (let request = \<lparr>fr_GrantRevision = 1, fr_Protocol = FederationProtocol, fr_ShareID = ''share'', fr_Namespace = ''team'',
        fr_AgentPublicKey = b64_encode (sample_pub (replicate 32 1)), fr_ConsumerPublicKey = sample_key, fr_EphemeralPublicKey = sample_key,
        fr_IssuedAt = 0, fr_Command = \<lparr>cmd_ID = ''c1'', cmd_Action = ''status.get'', cmd_Params = []\<rparr>, fr_Proof = []\<rparr> in
      case FederationProof sample_crypto signer_sample sample_key sample_key request of Inl _ \<Rightarrow> request | Inr p \<Rightarrow> request\<lparr>fr_Proof := p\<rparr>)"

definition fx_sample :: federation_env where
  "fx_sample = \<lparr>fx_crypto = sample_crypto, fx_random = [], fx_server = ''s1'', fx_now = 0, fx_millis = 0, envelope_text = (\<lambda>_. []),
     request_of = (\<lambda>_. Some request_shared), result_bytes = (\<lambda>_. Some [1]), error_text = (\<lambda>_. [])\<rparr>"

definition envelope_sample :: federation_envelope where
  "envelope_sample = \<lparr>fe_RequestID = ''c1'', fe_ShareID = ''share'', fe_ConsumerPublicKey = sample_key,
     fe_Hello = \<lparr>hello_PublicKey = sample_key, hello_Packet = \<lparr>Sequence = 1, Ciphertext = b64_encode (replicate 16 0)\<rparr>\<rparr>\<rparr>"

definition shared_sample :: "bool node" where
  "shared_sample = node_sample\<lparr>nd_fed := \<lparr>fed_identity = Some sample_key, fed_owner = Some (sg_OwnerPublicKey grant_status),
     fed_grants = [(''share.json'', Stored grant_status)], fed_listing = True, fed_faults = []\<rparr>\<rparr>"

lemma b64_trim: "trim_space (b64_encode bs) = b64_encode bs"
proof (rule trim_space_plain)
  fix c assume "c \<in> set (b64_encode bs)"
  then obtain d where "d < 64" "c = b64_char d" using b64_sextets_less by (auto simp: b64_encode_sextets)
  then have "c \<in> set b64_alphabet" using b64_char_in_alphabet by simp
  then show "\<not> is_space c" by (auto simp: b64_alphabet_def is_space_def)
qed

lemma sample_identity:
  "federationIdentity sample_crypto [] (nd_fed shared_sample) = (Inr (sample_key, b64_encode (sample_pub (replicate 32 1))), nd_fed shared_sample)"
proof -
  have "trim_space sample_key = sample_key" by (simp add: sample_key_def b64_trim)
  then show ?thesis
    by (simp add: federationIdentity_def fed_fault_def shared_sample_def PublicKey_def sample_decodeKey) (simp add: sample_crypto_def)
qed

lemma sample_grant: "envelope_grant signer_sample fx_sample envelope_sample (nd_fed shared_sample) = Inr (sg_Grant grant_status)"
proof -
  have "safeName ''share''" by code_simp
  moreover have "VerifyFederationGrant signer_sample grant_status = Inr ()"
    by (simp add: grant_status_def VerifyFederationGrant_def SignFederationGrant_def b64_decode_encode signer_sample_def)
  moreover have "fg_ConsumerPublicKey (sg_Grant grant_status) = sample_key" "\<not> fg_Revoked (sg_Grant grant_status)"
    "fg_ExpiresAt (sg_Grant grant_status) = 0"
    by (simp_all add: grant_status_def grant_sample_def SignFederationGrant_def)
  ultimately show ?thesis
    by (simp add: envelope_grant_def envelope_sample_def shared_sample_def grant_file_def fx_sample_def)
qed

lemma proof_ignored: "FederationProof cr sg k p (r\<lparr>fr_Proof := e\<rparr>) = FederationProof cr sg k p r"
  by (simp add: FederationProof_def split: sum.split option.split)

lemma sample_open:
  "\<exists>ch. open_envelope signer_sample fx_sample (sg_Grant grant_status) sample_key (b64_encode (sample_pub (replicate 32 1))) envelope_sample =
     Inr (request_shared, ch) \<and> sent ch = 0 \<and> tx ch = sample_aead"
proof -
  let ?blank = "\<lparr>fr_GrantRevision = 1, fr_Protocol = FederationProtocol, fr_ShareID = ''share'', fr_Namespace = ''team'',
        fr_AgentPublicKey = b64_encode (sample_pub (replicate 32 1)), fr_ConsumerPublicKey = sample_key, fr_EphemeralPublicKey = sample_key,
        fr_IssuedAt = 0, fr_Command = \<lparr>cmd_ID = ''c1'', cmd_Action = ''status.get'', cmd_Params = []\<rparr>, fr_Proof = []\<rparr>"
  obtain p where p: "FederationProof sample_crypto signer_sample sample_key sample_key ?blank = Inr p"
    by (simp add: FederationProof_def sample_decodeKey sample_crypto_def)
  have request: "request_shared = ?blank\<lparr>fr_Proof := p\<rparr>" using p by (simp add: request_shared_def Let_def)
  have "FederationProof sample_crypto signer_sample sample_key sample_key request_shared = Inr p"
    using p proof_ignored [where r = ?blank and e = p] by (simp add: request)
  then have verified: "VerifyFederationProof sample_crypto signer_sample sample_key request_shared = Inr ()"
    by (simp add: VerifyFederationProof_def request)
  obtain ch where ch: "NewServer sample_crypto sample_key sample_key = Inr ch" "sent ch = 0" "received ch = 0" "tx ch = sample_aead" "rx ch = sample_aead"
    by (simp add: NewServer_def sample_decodeKey makeChannel_def makeAEAD_def Let_def) (simp add: sample_crypto_def)
  have "Open (request_of fx_sample) ch (hello_Packet (fe_Hello envelope_sample)) = Inr (request_shared, ch\<lparr>received := 1\<rparr>)"
    using ch by (simp add: Open_def envelope_sample_def fx_sample_def sample_aead_def b64_decode_encode length_b64_encode MaxPacket_def
        del: b64_encode.simps)
  moreover have "request_binds (sg_Grant grant_status) (b64_encode (sample_pub (replicate 32 1))) envelope_sample request_shared"
    "fg_AgentPublicKey (sg_Grant grant_status) = b64_encode (sample_pub (replicate 32 1))" "fg_ServerID (sg_Grant grant_status) = ''s1''"
    "fg_Actions (sg_Grant grant_status) = [''status.get'']"
    by (simp_all add: request_binds_def grant_status_def grant_sample_def SignFederationGrant_def envelope_sample_def request)
  ultimately show ?thesis
    using verified ch by (simp add: open_envelope_def envelope_sample_def fx_sample_def Let_def federationActionAllowed_def) (simp add: request)
qed

lemma sample_presented: "\<exists>key. presented core_sample fx_sample envelope_sample (n\<lparr>nd_fed := nd_fed shared_sample\<rparr>) = Some key"
proof -
  obtain ch where "open_envelope signer_sample fx_sample (sg_Grant grant_status) sample_key (b64_encode (sample_pub (replicate 32 1))) envelope_sample =
      Inr (request_shared, ch)" using sample_open by blast
  moreover have "federationIdentity (fx_crypto fx_sample) (fx_random fx_sample) (nd_fed shared_sample) =
      (Inr (sample_key, b64_encode (sample_pub (replicate 32 1))), nd_fed shared_sample)"
    using sample_identity by (simp add: fx_sample_def)
  ultimately show ?thesis using sample_grant by (simp add: presented_def core_sample_def)
qed

lemma shared_executes: "\<exists>p rs. executeFederation core_sample fx_sample (Some envelope_sample) shared_sample =
    (Inr (p, False), shared_sample\<lparr>nd_results := rs\<rparr>)"
proof -
  obtain ch where ch: "open_envelope signer_sample fx_sample (sg_Grant grant_status) sample_key (b64_encode (sample_pub (replicate 32 1))) envelope_sample =
      Inr (request_shared, ch)" "sent ch = 0" "tx ch = sample_aead" using sample_open by blast
  have id: "federationIdentity (fx_crypto fx_sample) (fx_random fx_sample) (nd_fed shared_sample) =
      (Inr (sample_key, b64_encode (sample_pub (replicate 32 1))), nd_fed shared_sample)"
    using sample_identity by (simp add: fx_sample_def)
  have request: "cmd_Action (fr_Command request_shared) = ''status.get''" "fr_IssuedAt request_shared = 0"
    by (auto simp: request_shared_def Let_def split: sum.splits)
  obtain data where handled: "handleFederationOperation core_sample (fx_millis fx_sample) (sg_Grant grant_status) (fr_Command request_shared) shared_sample =
      (Inr data, shared_sample)"
    using request(1) by (simp add: handleFederationOperation_def Let_def)
  have sealed: "\<exists>p c. Seal (result_bytes fx_sample) ch a = Inr (p, c)" for a
    using ch(2) by (simp add: Seal_def fx_sample_def MaxPacket_def max_u64_def Let_def)
  have plain: "node_fault shared_sample = (False, shared_sample)" "nd_results shared_sample = []" "fx_now fx_sample = 0"
    by (simp_all add: node_fault_def shared_sample_def node_sample_def fx_sample_def)
  have "\<exists>p rs. run_federated core_sample fx_sample (sg_Grant grant_status) request_shared ch h shared_sample =
      (Inr (p, False), shared_sample\<lparr>nd_results := rs\<rparr>)" for h
    using handled sealed [of "\<lparr>res_ID = cmd_ID (fr_Command request_shared), res_Status = ''success'', res_Error = [], res_Data = Some data\<rparr>"] plain(1)
    by (auto simp: run_federated_def)
  then show ?thesis using sample_grant id ch(1) request(2) plain(2,3) by (simp add: executeFederation_def core_sample_def Let_def)
qed


end
