(* ===== verification/Port_Forwards.thy ===== *)
theory Port_Forwards
  imports Core_Runtime Agent_Config
begin

text \<open>
  Port forwards (\<^verbatim>\<open>internal/runtime/forward.go\<close>): the decoding of rules, the manager that replaces a set of
  listeners by another one in one transaction, and the goroutines of a listener as steps on its
  state. A listener is an object other goroutines keep a pointer to, so the listeners are in a heap
  (a list, a pointer is an index) and the manager holds pointers; a listener that was removed is
  still there, stopped. A socket is a number; \<open>pf_closed\<close> collects the sockets closed by the
  manager or by a goroutine. Each critical section of the code is one step.

  Parameters: which texts are IP literals (\<open>net.ParseIP\<close>), whether the system lets an address
  be opened given the ones this process holds, and the random identities of listeners.
\<close>

section \<open>Rules\<close>

record forward_rule =
  fwd_ID :: string
  fwd_Protocol :: string
  fwd_Listen :: string
  fwd_Target :: string
  fwd_UDPIdleSeconds :: int

datatype forward_error = RulesRequired | RulesJson | RuleCount | RuleID | RuleProtocol | NotHostPort | BadForwardPort
  | ListenLiteral | BadTargetHost | OwnListener | DuplicateListen | IdleTimeout | IdentityFailed | AddressInUse
  | BindFailed string forward_error | PersistFailed | ForwardsRead

text \<open>The characters a target host must not have: blank, tab, line ends, slashes, comment and
  assignment marks, quotes.\<close>

definition host_marks :: string where
  "host_marks = [CHR '' '', tab, carriage_return, newline, CHR ''/'', char_of (92 :: nat), CHR ''#'', CHR '';'', CHR ''='',
     char_of (34 :: nat), char_of (39 :: nat)]"

definition validNetworkAddress :: "(string \<Rightarrow> bool) \<Rightarrow> string \<Rightarrow> bool \<Rightarrow> (forward_error, unit) res" where
  "validNetworkAddress literal address local =
     (case SplitHostPort address of
        None \<Rightarrow> Inl NotHostPort
      | Some (host, port) \<Rightarrow>
          (case Atoi port of (n, parsed) \<Rightarrow>
             if \<not> parsed \<or> n < 1 \<or> n > 65535 then Inl BadForwardPort
             else if local then (if literal host then Inr () else Inl ListenLiteral)
             else if host = [] \<or> length host > 253 \<or> contains_any host host_marks then Inl BadTargetHost
             else Inr ()))"

definition decode_rule :: "json \<Rightarrow> forward_rule option" where
  "decode_rule v =
     (case as_object (Some v) of
        None \<Rightarrow> None
      | Some kvs \<Rightarrow>
          (case (str_field kvs ''id'', str_field kvs ''protocol'', str_field kvs ''listen'', str_field kvs ''target'',
              int_field kvs ''udp_idle_seconds'') of
             (Some i, Some p, Some l, Some t, Some u) \<Rightarrow>
               Some \<lparr>fwd_ID = i, fwd_Protocol = p, fwd_Listen = l, fwd_Target = t, fwd_UDPIdleSeconds = u\<rparr>
           | _ \<Rightarrow> None))"

definition dashed :: "string \<Rightarrow> string" where
  "dashed s = map (\<lambda>c. if c = CHR '':'' then CHR ''-'' else c) s"

fun check_forwards ::
  "(string \<Rightarrow> bool) \<Rightarrow> string list \<Rightarrow> string list \<Rightarrow> forward_rule list \<Rightarrow> (forward_error, forward_rule list) res" where
  "check_forwards literal ids addresses [] = Inr []"
| "check_forwards literal ids addresses (r # rs) =
     guard_res (\<not> safeName (dashed (fwd_ID r)) \<or> fwd_ID r \<in> set ids) RuleID (
     guard_res (fwd_Protocol r \<noteq> ''tcp'' \<and> fwd_Protocol r \<noteq> ''udp'') RuleProtocol (
     bind_res (validNetworkAddress literal (fwd_Listen r) True) (\<lambda>_.
     bind_res (validNetworkAddress literal (fwd_Target r) False) (\<lambda>_.
     guard_res (fwd_Listen r = fwd_Target r) OwnListener (
     let key = fwd_Protocol r @ ''/'' @ fwd_Listen r in
     guard_res (key \<in> set addresses) DuplicateListen (
     let idle = (if fwd_UDPIdleSeconds r = 0 then 60 else fwd_UDPIdleSeconds r) in
     guard_res (idle < 5 \<or> idle > 600) IdleTimeout (
     bind_res (check_forwards literal (fwd_ID r # ids) (key # addresses) rs) (\<lambda>rest.
     Inr (r\<lparr>fwd_UDPIdleSeconds := idle\<rparr> # rest)))))))))"

definition decodeForwardRules :: "(string \<Rightarrow> bool) \<Rightarrow> json \<Rightarrow> (forward_error, forward_rule list) res" where
  "decodeForwardRules literal raw =
     (case raw of
        JNull \<Rightarrow> Inl RulesRequired
      | JArr vs \<Rightarrow>
          bind_res (of_option RulesJson (traverse_opt decode_rule vs)) (\<lambda>rules.
          guard_res (length rules > 256) RuleCount (check_forwards literal [] [] rules))
      | _ \<Rightarrow> Inl RulesJson)"

text \<open>The rules as they are written to \<^verbatim>\<open>forwards.json\<close>; the idle timeout is left out when it is 0.\<close>

definition encode_rule :: "forward_rule \<Rightarrow> json" where
  "encode_rule r = JObj ([(''id'', JStr (fwd_ID r)), (''listen'', JStr (fwd_Listen r)), (''protocol'', JStr (fwd_Protocol r)),
     (''target'', JStr (fwd_Target r))] @
     (if fwd_UDPIdleSeconds r = 0 then [] else [(''udp_idle_seconds'', JNum (itoa (fwd_UDPIdleSeconds r)))]))"

section \<open>Listeners and their goroutines\<close>

record forward_listener =
  fl_generation :: string
  fl_socket :: "string \<times> string"
  fl_rule :: forward_rule
  fl_stopped :: bool
  fl_connections :: "nat set"
  fl_sessions :: "(string \<times> nat \<times> string) list"
  fl_pipes :: "(nat \<times> string \<times> nat option) list"
  fl_readers :: "(string \<times> nat) list"
  fl_received :: u64
  fl_sent :: u64
  fl_errors :: u64

datatype forwards_file = NoForwards | UnreadableForwards | ForwardsText "json option"

record forward_world =
  pf_heap :: "forward_listener list"
  pf_managed :: "(string \<times> nat) list"
  pf_sockets :: nat
  pf_closed :: "nat set"
  pf_file :: forwards_file

record forward_env =
  literal :: "string \<Rightarrow> bool"
  can_open :: "(string \<times> string) list \<Rightarrow> string \<times> string \<Rightarrow> bool"
  identity :: "nat \<Rightarrow> bytes option"

definition count_error :: "forward_listener \<Rightarrow> forward_listener" where
  "count_error f = f\<lparr>fl_errors := fl_errors f + 1\<rparr>"

text \<open>The steps give the listener and the sockets they close. \<open>serveTCP\<close>: one accepted connection \<open>c\<close>.\<close>

definition serveTCP :: "nat \<Rightarrow> forward_listener \<Rightarrow> forward_listener \<times> nat set" where
  "serveTCP c f =
     (if fl_stopped f then (f, {c})
      else if card (fl_connections f) \<ge> 4096 then (count_error f, {c})
      else (f\<lparr>fl_connections := insert c (fl_connections f), fl_pipes := (c, fwd_Target (fl_rule f), None) # fl_pipes f\<rparr>, {}))"

text \<open>\<open>pipeTCP\<close>: the target of client \<open>c\<close> was dialled, with socket \<open>remote\<close> or with an error; then the
  copies end, with the given number of copy errors.\<close>

definition end_pipe :: "nat \<Rightarrow> forward_listener \<Rightarrow> forward_listener \<times> nat set" where
  "end_pipe c f =
     (let gone = (case map_of (fl_pipes f) c of Some (_, Some remote) \<Rightarrow> {c, remote} | _ \<Rightarrow> {c}) in
      (f\<lparr>fl_connections := fl_connections f - gone, fl_pipes := filter (\<lambda>p. fst p \<noteq> c) (fl_pipes f)\<rparr>, gone))"

definition pipe_dialled :: "nat \<Rightarrow> nat option \<Rightarrow> forward_listener \<Rightarrow> forward_listener \<times> nat set" where
  "pipe_dialled c dialled f =
     (case map_of (fl_pipes f) c of
        Some (target, None) \<Rightarrow>
          (case dialled of
             None \<Rightarrow> end_pipe c (count_error f)
           | Some remote \<Rightarrow>
               if fl_stopped f then (case end_pipe c f of (f1, gone) \<Rightarrow> (f1, insert remote gone))
               else (f\<lparr>fl_connections := insert remote (fl_connections f),
                  fl_pipes := AList.update c (target, Some remote) (fl_pipes f)\<rparr>, {}))
      | _ \<Rightarrow> (f, {}))"

definition pipe_ended :: "nat \<Rightarrow> nat \<Rightarrow> forward_listener \<Rightarrow> forward_listener \<times> nat set" where
  "pipe_ended c failed f =
     (case map_of (fl_pipes f) c of
        Some (_, Some _) \<Rightarrow> end_pipe c (f\<lparr>fl_errors := fl_errors f + of_nat failed\<rparr>)
      | _ \<Rightarrow> (f, {}))"

text \<open>The counting writers of the two directions.\<close>

definition forwardCount :: "u64 \<Rightarrow> u64 \<Rightarrow> forward_listener \<Rightarrow> forward_listener" where
  "forwardCount up down f = f\<lparr>fl_received := fl_received f + up, fl_sent := fl_sent f + down\<rparr>"

text \<open>\<open>serveUDP\<close>: a datagram of client \<open>key\<close>; \<open>c\<close> is the socket a dial gives, if it succeeds;
  \<open>written\<close> and \<open>failed\<close> are the result of the write.\<close>

definition relay :: "u64 \<Rightarrow> bool \<Rightarrow> forward_listener \<Rightarrow> forward_listener" where
  "relay written failed f =
     (let f1 = f\<lparr>fl_received := fl_received f + written\<rparr> in if failed then count_error f1 else f1)"

definition serveUDP :: "string \<Rightarrow> nat option \<Rightarrow> u64 \<Rightarrow> bool \<Rightarrow> forward_listener \<Rightarrow> forward_listener" where
  "serveUDP key dialled written failed f =
     (if fl_stopped f then f
      else case map_of (fl_sessions f) key of
        Some _ \<Rightarrow> relay written failed f
      | None \<Rightarrow>
          if length (fl_sessions f) \<ge> 1024 then count_error f
          else (case dialled of
                  None \<Rightarrow> count_error f
                | Some c \<Rightarrow> relay written failed (f\<lparr>fl_sessions := (key, c, fwd_Target (fl_rule f)) # fl_sessions f,
                    fl_readers := (key, c) # fl_readers f\<rparr>)))"

text \<open>\<open>readUDP\<close>: an answer was read and sent back (or not), or the read failed.\<close>

datatype udp_read = Answered u64 bool | TimedOut | ReadFailed

definition end_reader :: "string \<Rightarrow> nat \<Rightarrow> forward_listener \<Rightarrow> forward_listener \<times> nat set" where
  "end_reader key c f =
     (f\<lparr>fl_readers := removeAll (key, c) (fl_readers f),
        fl_sessions := (case map_of (fl_sessions f) key of
            Some (d, _) \<Rightarrow> if d = c then AList.delete key (fl_sessions f) else fl_sessions f
          | None \<Rightarrow> fl_sessions f)\<rparr>, {c})"

definition readUDP :: "string \<Rightarrow> nat \<Rightarrow> udp_read \<Rightarrow> forward_listener \<Rightarrow> forward_listener \<times> nat set" where
  "readUDP key c result f =
     (if (key, c) \<notin> set (fl_readers f) then (f, {})
      else case result of
        Answered n failed \<Rightarrow>
          (let f1 = f\<lparr>fl_sent := fl_sent f + n\<rparr> in if failed then end_reader key c (count_error f1) else (f1, {}))
      | TimedOut \<Rightarrow> end_reader key c f
      | ReadFailed \<Rightarrow> end_reader key c (count_error f))"

section \<open>The manager\<close>

definition held_addresses :: "forward_world \<Rightarrow> (string \<times> string) list" where
  "held_addresses w = map fl_socket (filter (\<lambda>f. \<not> fl_stopped f) (pf_heap w))"

definition createForward :: "forward_env \<Rightarrow> forward_rule \<Rightarrow> forward_world \<Rightarrow> (forward_error, nat) res \<times> forward_world" where
  "createForward env rule w =
     (case identity env (length (pf_heap w)) of
        None \<Rightarrow> (Inl IdentityFailed, w)
      | Some b \<Rightarrow>
          (let address = (fwd_Protocol rule, fwd_Listen rule) in
           if \<not> can_open env (held_addresses w) address then (Inl AddressInUse, w)
           else (Inr (length (pf_heap w)), w\<lparr>pf_heap := pf_heap w @ [\<lparr>fl_generation = hex_encode b, fl_socket = address,
             fl_rule = rule, fl_stopped = False, fl_connections = {}, fl_sessions = [], fl_pipes = [], fl_readers = [],
             fl_received = 0, fl_sent = 0, fl_errors = 0\<rparr>]\<rparr>)))"

text \<open>\<open>close\<close> of a listener: its connections and sessions are closed, and removed by their goroutines.\<close>

definition session_sockets :: "forward_listener \<Rightarrow> nat set" where
  "session_sockets f = (fst \<circ> snd) ` set (fl_sessions f)"

definition stop_listener :: "forward_listener \<Rightarrow> forward_listener \<times> nat set" where
  "stop_listener f =
     (if fl_stopped f then (f, {}) else (f\<lparr>fl_stopped := True\<rparr>, fl_connections f \<union> session_sockets f))"

definition on_listener ::
  "(forward_listener \<Rightarrow> forward_listener \<times> nat set) \<Rightarrow> nat \<Rightarrow> forward_world \<Rightarrow> forward_world" where
  "on_listener g p w =
     (if p < length (pf_heap w) then
        (case g (pf_heap w ! p) of (f, gone) \<Rightarrow> w\<lparr>pf_heap := (pf_heap w)[p := f], pf_closed := pf_closed w \<union> gone\<rparr>)
      else w)"

definition close_all :: "nat list \<Rightarrow> forward_world \<Rightarrow> forward_world" where
  "close_all ps w = foldl (\<lambda>w p. on_listener stop_listener p w) w ps"

fun open_rules ::
  "forward_env \<Rightarrow> forward_rule list \<Rightarrow> (string \<times> nat) list \<Rightarrow> nat list \<Rightarrow> forward_world \<Rightarrow>
     (forward_error, (string \<times> nat) list) res \<times> nat list \<times> forward_world" where
  "open_rules env [] nxt created w = (Inr nxt, created, w)"
| "open_rules env (rule # rules) nxt created w =
     (let fresh = (case createForward env rule w of
          (Inl e, w1) \<Rightarrow> (Inl (BindFailed (fwd_ID rule) e), created, w1)
        | (Inr p, w1) \<Rightarrow> open_rules env rules (AList.update (fwd_ID rule) p nxt) (created @ [p]) w1) in
      case map_of (pf_managed w) (fwd_ID rule) of
        None \<Rightarrow> fresh
      | Some p \<Rightarrow>
          (let previous = fl_rule (pf_heap w ! p) in
           if fwd_Protocol previous = fwd_Protocol rule \<and> fwd_Listen previous = fwd_Listen rule
           then open_rules env rules (AList.update (fwd_ID rule) p nxt) created w
           else fresh))"

definition set_rule :: "forward_rule \<Rightarrow> forward_listener \<Rightarrow> forward_listener \<times> nat set" where
  "set_rule rule f =
     (if fwd_Target (fl_rule f) \<noteq> fwd_Target rule then (f\<lparr>fl_sessions := [], fl_rule := rule\<rparr>, session_sockets f)
      else (f\<lparr>fl_rule := rule\<rparr>, {}))"

definition set_rules :: "(string \<times> nat) list \<Rightarrow> forward_rule list \<Rightarrow> forward_world \<Rightarrow> forward_world" where
  "set_rules nxt rules w =
     foldl (\<lambda>w rule. on_listener (set_rule rule) (the (map_of nxt (fwd_ID rule))) w) w rules"

definition apply_rules ::
  "forward_env \<Rightarrow> forward_rule list \<Rightarrow> (forward_world \<Rightarrow> (forward_error, unit) res \<times> forward_world) option \<Rightarrow> forward_world \<Rightarrow>
     (forward_error, unit) res \<times> forward_world" where
  "apply_rules env rules persist w =
     (case open_rules env rules [] [] w of
        (Inl e, created, w1) \<Rightarrow> (Inl e, close_all created w1)
      | (Inr nxt, created, w1) \<Rightarrow>
          (case (case persist of None \<Rightarrow> (Inr (), w1) | Some write_file \<Rightarrow> write_file w1) of
             (Inl e, w2) \<Rightarrow> (Inl e, close_all created w2)
           | (Inr _, w2) \<Rightarrow>
               (let w3 = set_rules nxt rules w2;
                    w4 = close_all (map snd (filter (\<lambda>ip. map_of nxt (fst ip) \<noteq> Some (snd ip)) (pf_managed w3))) w3 in
                (Inr (), w4\<lparr>pf_managed := nxt\<rparr>))))"

definition close_manager :: "forward_world \<Rightarrow> forward_world" where
  "close_manager w = (close_all (map snd (pf_managed w)) w)\<lparr>pf_managed := []\<rparr>"

record forward_item =
  fi_rule :: forward_rule
  fi_generation :: string
  fi_listening :: bool
  fi_sockets :: nat
  fi_sessions :: nat
  fi_received :: u64
  fi_sent :: u64
  fi_errors :: u64

definition forward_status :: "forward_world \<Rightarrow> forward_item list" where
  "forward_status w = sort_key (\<lambda>i. fwd_ID (fi_rule i)) (map (\<lambda>ip. let f = pf_heap w ! snd ip in
     \<lparr>fi_rule = fl_rule f, fi_generation = fl_generation f, fi_listening = (\<not> fl_stopped f), fi_sockets = card (fl_connections f),
      fi_sessions = length (fl_sessions f), fi_received = fl_received f, fi_sent = fl_sent f, fi_errors = fl_errors f\<rparr>)
     (pf_managed w))"

text \<open>\<open>fails\<close>: whether the write of the file fails.\<close>

definition write_forwards :: "bool \<Rightarrow> forward_rule list \<Rightarrow> forward_world \<Rightarrow> (forward_error, unit) res \<times> forward_world" where
  "write_forwards fails rules w =
     (if fails then (Inl PersistFailed, w) else (Inr (), w\<lparr>pf_file := ForwardsText (Some (JArr (map encode_rule rules)))\<rparr>))"

definition applyForwards ::
  "forward_env \<Rightarrow> bool \<Rightarrow> json \<Rightarrow> forward_world \<Rightarrow> (forward_error, forward_item list) res \<times> forward_world" where
  "applyForwards env fails raw w =
     (case decodeForwardRules (literal env) raw of
        Inl e \<Rightarrow> (Inl e, w)
      | Inr rules \<Rightarrow>
          (case apply_rules env rules (Some (write_forwards fails rules)) w of
             (Inl e, w1) \<Rightarrow> (Inl e, w1)
           | (Inr _, w1) \<Rightarrow> (Inr (forward_status w1), w1)))"

definition restoreForwards :: "forward_env \<Rightarrow> forward_world \<Rightarrow> (forward_error, unit) res \<times> forward_world" where
  "restoreForwards env w =
     (case pf_file w of
        NoForwards \<Rightarrow> (Inr (), w)
      | UnreadableForwards \<Rightarrow> (Inl ForwardsRead, w)
      | ForwardsText None \<Rightarrow> (Inl ForwardsRead, w)
      | ForwardsText (Some raw) \<Rightarrow>
          (case decodeForwardRules (literal env) raw of
             Inl e \<Rightarrow> (Inl e, w)
           | Inr rules \<Rightarrow> apply_rules env rules None w))"

text \<open>A new process: no listeners, the file as it is.\<close>

definition newForwardManager :: "forward_world \<Rightarrow> forward_world" where
  "newForwardManager w = w\<lparr>pf_heap := [], pf_managed := [], pf_closed := {}\<rparr>"

text \<open>The runs: every step of a goroutine and every operation of the manager, in any order. A fresh
  socket is numbered by \<open>pf_sockets\<close>.\<close>

datatype forward_event = Accepted nat | Dialled nat nat bool | PipeEnded nat nat nat | Copied nat u64 u64
  | Datagram nat string bool u64 bool | UDPRead nat string nat udp_read
  | ApplyRules forward_env bool json | RestoreRules forward_env | CloseManager | NewManager

definition fresh_socket :: "(nat \<Rightarrow> forward_world \<Rightarrow> forward_world) \<Rightarrow> forward_world \<Rightarrow> forward_world" where
  "fresh_socket g w = g (pf_sockets w) (w\<lparr>pf_sockets := Suc (pf_sockets w)\<rparr>)"

fun forward_step :: "forward_world \<Rightarrow> forward_event \<Rightarrow> forward_world" where
  "forward_step w (Accepted p) = fresh_socket (\<lambda>c. on_listener (serveTCP c) p) w"
| "forward_step w (Dialled p c ok) = fresh_socket (\<lambda>r. on_listener (pipe_dialled c (if ok then Some r else None)) p) w"
| "forward_step w (PipeEnded p c failed) = on_listener (pipe_ended c failed) p w"
| "forward_step w (Copied p up down) = on_listener (\<lambda>f. (forwardCount up down f, {})) p w"
| "forward_step w (Datagram p key ok written failed) =
     fresh_socket (\<lambda>c. on_listener (\<lambda>f. (serveUDP key (if ok then Some c else None) written failed f, {})) p) w"
| "forward_step w (UDPRead p key c result) = on_listener (readUDP key c result) p w"
| "forward_step w (ApplyRules env fails raw) = snd (applyForwards env fails raw w)"
| "forward_step w (RestoreRules env) = snd (restoreForwards env w)"
| "forward_step w CloseManager = close_manager w"
| "forward_step w NewManager = newForwardManager w"

section \<open>The invariant of a listener\<close>

definition pipe_ids :: "nat \<times> string \<times> nat option \<Rightarrow> nat list" where
  "pipe_ids p = fst p # (case snd (snd p) of None \<Rightarrow> [] | Some remote \<Rightarrow> [remote])"

fun all_ids :: "(nat \<times> string \<times> nat option) list \<Rightarrow> nat list" where
  "all_ids [] = []"
| "all_ids (p # ps) = pipe_ids p @ all_ids ps"

definition listener_ok :: "nat \<Rightarrow> nat set \<Rightarrow> forward_listener \<Rightarrow> bool" where
  "listener_ok k closed f \<longleftrightarrow>
     fl_connections f = set (all_ids (fl_pipes f)) \<and> distinct (all_ids (fl_pipes f)) \<and>
     (\<forall>i \<in> set (all_ids (fl_pipes f)). i < k) \<and> length (fl_pipes f) \<le> 4096 \<and>
     distinct (map fst (fl_sessions f)) \<and> length (fl_sessions f) \<le> 1024 \<and>
     (\<forall>key c t. (key, c, t) \<in> set (fl_sessions f) \<longrightarrow> t = fwd_Target (fl_rule f) \<and> (key, c) \<in> set (fl_readers f)) \<and>
     (fl_stopped f \<longrightarrow> fl_connections f \<union> session_sockets f \<subseteq> closed) \<and>
     fl_socket f = (fwd_Protocol (fl_rule f), fwd_Listen (fl_rule f))"

lemma listener_ok_mono: "listener_ok k closed f \<Longrightarrow> k \<le> k' \<Longrightarrow> closed \<subseteq> closed' \<Longrightarrow> listener_ok k' closed' f"
  unfolding listener_ok_def by (auto dest: less_le_trans)

lemma ids_member: "p \<in> set ps \<Longrightarrow> set (pipe_ids p) \<subseteq> set (all_ids ps)"
  by (induction ps) auto

lemma clients_ids: "set (map fst ps) \<subseteq> set (all_ids ps)" "distinct (all_ids ps) \<Longrightarrow> distinct (map fst ps)"
  by (induction ps) (auto simp: pipe_ids_def split: option.splits)

lemma length_ids: "length ps \<le> length (all_ids ps)" "length (all_ids ps) \<le> 2 * length ps"
  by (induction ps) (auto simp: pipe_ids_def split: option.splits)

lemma ids_without:
  assumes "distinct (all_ids ps)" "map_of ps c = Some v"
  shows "set (all_ids (filter (\<lambda>p. fst p \<noteq> c) ps)) = set (all_ids ps) - set (pipe_ids (c, v))"
  using assms
proof (induction ps)
  case (Cons p ps)
  show ?case
  proof (cases "fst p = c")
    case True
    then have "map_of ps c = None"
      using Cons.prems(1) clients_ids(1) [of ps] by (auto simp: pipe_ids_def map_of_eq_None_iff)
    then have "filter (\<lambda>p. fst p \<noteq> c) ps = ps" by (auto simp: filter_id_conv map_of_eq_None_iff)
    then show ?thesis using True Cons.prems by (cases p) auto
  next
    case False
    then have "set (pipe_ids (c, v)) \<subseteq> set (all_ids ps)"
      using Cons.prems(2) map_of_SomeD [of ps c v] ids_member by (auto split: if_splits)
    then show ?thesis using Cons False by auto
  qed
qed simp

lemma ids_filter: "set (all_ids (filter P ps)) \<subseteq> set (all_ids ps)"
  by (induction ps) auto

lemma distinct_ids_filter: "distinct (all_ids ps) \<Longrightarrow> distinct (all_ids (filter P ps))"
  by (induction ps) (use ids_filter [of P] in auto)

lemma ids_with:
  assumes "distinct (all_ids ps)" "map_of ps c = Some (t, None)" "r \<notin> set (all_ids ps)"
  shows "set (all_ids (AList.update c (t, Some r) ps)) = insert r (set (all_ids ps)) \<and>
    distinct (all_ids (AList.update c (t, Some r) ps)) \<and> length (AList.update c (t, Some r) ps) = length ps"
  using assms
proof (induction ps)
  case (Cons p ps)
  show ?case
  proof (cases "fst p = c")
    case True
    then show ?thesis using Cons.prems by (cases p) (auto simp: pipe_ids_def)
  next
    case False
    then show ?thesis using Cons by (cases p) auto
  qed
qed simp

lemma end_pipe_ok:
  assumes "listener_ok k closed f" "map_of (fl_pipes f) c = Some v" "end_pipe c f = (f', gone)"
  shows "listener_ok k (closed \<union> gone) f'"
proof -
  have gone: "gone = set (pipe_ids (c, v))" "f' = f\<lparr>fl_connections := fl_connections f - gone, fl_pipes := filter (\<lambda>p. fst p \<noteq> c) (fl_pipes f)\<rparr>"
    using assms(2,3) by (auto simp: end_pipe_def pipe_ids_def Let_def split: option.splits prod.splits)
  have ids: "distinct (all_ids (fl_pipes f))" using assms(1) by (simp add: listener_ok_def)
  note without = ids_without [OF ids assms(2)] distinct_ids_filter [OF ids]
  have "length (filter (\<lambda>p. fst p \<noteq> c) (fl_pipes f)) \<le> 4096"
    using assms(1) le_trans [OF length_filter_le] unfolding listener_ok_def by blast
  then show ?thesis
    using assms(1) without unfolding listener_ok_def gone by (auto simp: session_sockets_def)
qed

lemma serveTCP_ok:
  assumes "listener_ok k closed f" "serveTCP k f = (f', gone)"
  shows "listener_ok (Suc k) (closed \<union> gone) f'"
proof -
  note ok = assms(1) [unfolded listener_ok_def]
  have fresh: "k \<notin> set (all_ids (fl_pipes f))" using ok by auto
  have "card (set (all_ids (fl_pipes f))) = length (all_ids (fl_pipes f))" using ok by (intro distinct_card) simp
  then have "length (fl_pipes f) \<le> card (fl_connections f)"
    using ok length_ids(1) [of "fl_pipes f"] by simp
  then show ?thesis
    using assms(2) fresh ok unfolding serveTCP_def listener_ok_def
    by (auto simp: count_error_def pipe_ids_def session_sockets_def less_Suc_eq split: if_splits)
qed

lemma pipe_dialled_ok:
  assumes "listener_ok k closed f" "pipe_dialled c (if ok then Some k else None) f = (f', gone)"
  shows "listener_ok (Suc k) (closed \<union> gone) f'"
proof -
  have same: "listener_ok k closed (count_error f)"
    using assms(1) by (auto simp: listener_ok_def count_error_def session_sockets_def)
  show ?thesis
  proof (cases "\<exists>target. map_of (fl_pipes f) c = Some (target, None)")
    case False
    then have "f' = f" "gone = {}" using assms(2) by (auto simp: pipe_dialled_def split: option.splits prod.splits)
    then show ?thesis using listener_ok_mono [OF assms(1)] by simp
  next
    case True
    then obtain target where t: "map_of (fl_pipes f) c = Some (target, None)" by blast
    consider (failed) "\<not> ok" | (stopped) "ok" "fl_stopped f" | (added) "ok" "\<not> fl_stopped f" by blast
    then show ?thesis
    proof cases
      case failed
      then have "end_pipe c (count_error f) = (f', gone)" using assms(2) t by (simp add: pipe_dialled_def)
      then show ?thesis using end_pipe_ok [OF same, of c "(target, None)"] t listener_ok_mono by (force simp: count_error_def)
    next
      case stopped
      obtain f1 g where e: "end_pipe c f = (f1, g)" by fastforce
      then have "f' = f1" "gone = insert k g" using assms(2) t stopped by (simp_all add: pipe_dialled_def)
      then show ?thesis using end_pipe_ok [OF assms(1) t e] listener_ok_mono by (metis Un_insert_right lessI less_imp_le subset_insertI)
    next
      case added
      note ok = assms(1) [unfolded listener_ok_def]
      have fresh: "k \<notin> set (all_ids (fl_pipes f))" using ok by auto
      note ids_with [OF _ t fresh]
      moreover have "f' = f\<lparr>fl_connections := insert k (fl_connections f), fl_pipes := AList.update c (target, Some k) (fl_pipes f)\<rparr>" "gone = {}"
        using assms(2) t added by (simp_all add: pipe_dialled_def)
      ultimately show ?thesis
        using ok added by (auto simp: listener_ok_def session_sockets_def less_Suc_eq)
    qed
  qed
qed

lemma pipe_ended_ok:
  assumes "listener_ok k closed f" "pipe_ended c failed f = (f', gone)"
  shows "listener_ok k (closed \<union> gone) f'"
proof (cases "\<exists>t r. map_of (fl_pipes f) c = Some (t, Some r)")
  case False
  then have "f' = f" "gone = {}" using assms(2) by (auto simp: pipe_ended_def split: option.splits prod.splits)
  then show ?thesis using assms(1) by simp
next
  case True
  let ?f = "f\<lparr>fl_errors := fl_errors f + of_nat failed\<rparr>"
  have "listener_ok k closed ?f" using assms(1) by (auto simp: listener_ok_def session_sockets_def)
  moreover have "end_pipe c ?f = (f', gone)" using assms(2) True by (auto simp: pipe_ended_def)
  ultimately show ?thesis using True end_pipe_ok [of k closed ?f] by fastforce
qed

lemma serveUDP_ok:
  assumes "listener_ok k closed f"
  shows "listener_ok (Suc k) closed (serveUDP key (if ok then Some k else None) written failed f)"
proof -
  have relayed: "listener_ok j closed (relay written failed g)" if "listener_ok j closed g" for j g
    using that by (auto simp: listener_ok_def relay_def count_error_def session_sockets_def Let_def)
  have counted: "listener_ok (Suc k) closed (count_error f)"
    using listener_ok_mono [OF assms, of "Suc k" closed] by (auto simp: listener_ok_def count_error_def session_sockets_def)
  have added: "listener_ok (Suc k) closed (f\<lparr>fl_sessions := (key, k, fwd_Target (fl_rule f)) # fl_sessions f, fl_readers := (key, k) # fl_readers f\<rparr>)"
    if "\<not> fl_stopped f" "map_of (fl_sessions f) key = None" "\<not> length (fl_sessions f) \<ge> 1024"
    using that listener_ok_mono [OF assms, of "Suc k" closed] by (auto simp: listener_ok_def map_of_eq_None_iff)
  show ?thesis
    using listener_ok_mono [OF assms, of "Suc k" closed] counted relayed [OF added] relayed [of "Suc k" f]
    by (auto simp: serveUDP_def split: option.split)
qed

lemma set_delete: "set (AList.delete k kvs) \<subseteq> set kvs"
  by (induction kvs) auto

lemma delete_gone: "(k, v) \<notin> set (AList.delete k kvs)"
  by (induction kvs) auto

lemma end_reader_ok:
  assumes "listener_ok k closed f" "end_reader key c f = (f', gone)"
  shows "listener_ok k (closed \<union> gone) f'"
proof -
  define ss where "ss = (case map_of (fl_sessions f) key of
      Some (d, _) \<Rightarrow> if d = c then AList.delete key (fl_sessions f) else fl_sessions f | None \<Rightarrow> fl_sessions f)"
  have f': "f' = f\<lparr>fl_readers := removeAll (key, c) (fl_readers f), fl_sessions := ss\<rparr>"
    using assms(2) by (simp add: end_reader_def ss_def)
  have dist: "distinct (map fst (fl_sessions f))" using assms(1) by (simp add: listener_ok_def)
  have ss: "distinct (map fst ss)" "set ss \<subseteq> set (fl_sessions f)" "length ss \<le> length (fl_sessions f)"
    using dist by (auto simp: ss_def AList.distinct_delete set_delete split: option.split intro: AList.length_delete_le)
  have sub: "session_sockets (f\<lparr>fl_readers := removeAll (key, c) (fl_readers f), fl_sessions := ss\<rparr>) \<subseteq> session_sockets f"
    using ss(2) by (auto simp: session_sockets_def)
  have "(i, d) \<noteq> (key, c)" if "(i, d, t) \<in> set ss" for i d t
  proof
    assume "(i, d) = (key, c)"
    moreover have "map_of (fl_sessions f) i = Some (d, t)" using that ss(2) dist by auto
    ultimately show False using that delete_gone [of key "(c, t)" "fl_sessions f"] by (auto simp: ss_def)
  qed
  then show ?thesis
    using assms(1) ss sub unfolding listener_ok_def f' by (auto; meson subsetD)
qed

lemma readUDP_ok:
  assumes "listener_ok k closed f" "readUDP key c result f = (f', gone)"
  shows "listener_ok k (closed \<union> gone) f'"
proof -
  have counted: "listener_ok k closed (count_error g)" if "listener_ok k closed g" for g
    using that by (auto simp: listener_ok_def count_error_def session_sockets_def)
  have sent: "listener_ok k closed (f\<lparr>fl_sent := n\<rparr>)" for n
    using assms(1) by (auto simp: listener_ok_def session_sockets_def)
  show ?thesis
    using assms sent counted [OF sent] counted [OF assms(1)]
    by (auto simp: readUDP_def Let_def split: if_splits udp_read.splits elim: end_reader_ok [rotated])
qed

lemma stop_listener_ok:
  assumes "listener_ok k closed f" "stop_listener f = (f', gone)"
  shows "listener_ok k (closed \<union> gone) f' \<and> f' = f\<lparr>fl_stopped := True\<rparr>"
  using assms by (auto simp: stop_listener_def listener_ok_def session_sockets_def split: if_splits)

lemma set_rule_ok:
  assumes "listener_ok k closed f" "set_rule rule f = (f', gone)" "fl_socket f = (fwd_Protocol rule, fwd_Listen rule)"
  shows "listener_ok k (closed \<union> gone) f'"
proof (cases "fwd_Target (fl_rule f) = fwd_Target rule")
  case True
  then have "f' = f\<lparr>fl_rule := rule\<rparr>" "gone = {}" using assms(2) by (simp_all add: set_rule_def)
  moreover have "session_sockets (f\<lparr>fl_rule := rule\<rparr>) = session_sockets f" by (simp add: session_sockets_def)
  ultimately show ?thesis using assms(1,3) True by (auto simp: listener_ok_def)
next
  case False
  then have "f' = f\<lparr>fl_sessions := [], fl_rule := rule\<rparr>" "gone = session_sockets f" using assms(2) by (simp_all add: set_rule_def)
  then show ?thesis using assms(1,3) by (auto simp: listener_ok_def session_sockets_def)
qed

section \<open>The invariant of the manager\<close>

definition managed_ok :: "forward_listener list \<Rightarrow> (string \<times> nat) list \<Rightarrow> bool" where
  "managed_ok hp man \<longleftrightarrow> distinct (map fst man) \<and> distinct (map snd man) \<and>
     (\<forall>i p. (i, p) \<in> set man \<longrightarrow> p < length hp \<and> \<not> fl_stopped (hp ! p) \<and> fwd_ID (fl_rule (hp ! p)) = i) \<and>
     (\<forall>p < length hp. \<not> fl_stopped (hp ! p) \<longrightarrow> p \<in> snd ` set man)"

definition forward_inv :: "forward_world \<Rightarrow> bool" where
  "forward_inv w \<longleftrightarrow> (\<forall>f \<in> set (pf_heap w). listener_ok (pf_sockets w) (pf_closed w) f) \<and> managed_ok (pf_heap w) (pf_managed w)"

text \<open>A step of a goroutine changes neither the rule nor the socket of its listener.\<close>

definition goroutine :: "(forward_listener \<Rightarrow> forward_listener \<times> nat set) \<Rightarrow> bool" where
  "goroutine g \<longleftrightarrow> (\<forall>f. fl_rule (fst (g f)) = fl_rule f \<and> fl_stopped (fst (g f)) = fl_stopped f \<and> fl_socket (fst (g f)) = fl_socket f)"

lemma goroutines:
  "goroutine (serveTCP c)" "goroutine (pipe_dialled c d)" "goroutine (pipe_ended c n)" "goroutine (\<lambda>f. (forwardCount up down f, {}))"
  "goroutine (\<lambda>f. (serveUDP key d written failed f, {}))" "goroutine (readUDP key c result)"
  by (auto simp: goroutine_def serveTCP_def pipe_dialled_def pipe_ended_def forwardCount_def serveUDP_def readUDP_def end_pipe_def
      end_reader_def count_error_def relay_def Let_def split: option.split prod.split udp_read.split)

lemma on_listener_inv:
  assumes "forward_inv w" "goroutine g"
    and "\<And>f f' gone. listener_ok (pf_sockets w) (pf_closed w) f \<Longrightarrow> g f = (f', gone) \<Longrightarrow> listener_ok k (pf_closed w \<union> gone) f'"
    and "pf_sockets w \<le> k"
  shows "forward_inv (on_listener g p (w\<lparr>pf_sockets := k\<rparr>))"
proof (cases "p < length (pf_heap w)")
  case False
  then show ?thesis
    using assms(1,4) listener_ok_mono [of "pf_sockets w" "pf_closed w" _ k "pf_closed w"] by (auto simp: on_listener_def forward_inv_def)
next
  case True
  obtain f gone where g: "g (pf_heap w ! p) = (f, gone)" by fastforce
  have same: "fl_rule f = fl_rule (pf_heap w ! p)" "fl_stopped f = fl_stopped (pf_heap w ! p)"
    using assms(2) [unfolded goroutine_def, rule_format, of "pf_heap w ! p"] g by simp_all
  have old: "listener_ok (pf_sockets w) (pf_closed w) f'" if "f' \<in> set (pf_heap w)" for f'
    using that assms(1) by (simp add: forward_inv_def)
  have "listener_ok k (pf_closed w \<union> gone) f" by (rule assms(3) [OF old g]) (simp add: True)
  then have "listener_ok k (pf_closed w \<union> gone) f'" if "f' \<in> set ((pf_heap w)[p := f])" for f'
    using that set_update_subset_insert [of "pf_heap w" p f] listener_ok_mono [OF old assms(4), of f' "pf_closed w \<union> gone"] by blast
  moreover have "fl_stopped ((pf_heap w)[p := f] ! q) = fl_stopped (pf_heap w ! q)" "fl_rule ((pf_heap w)[p := f] ! q) = fl_rule (pf_heap w ! q)" for q
    by (cases "q = p"; simp add: True same)+
  then have "managed_ok ((pf_heap w)[p := f]) (pf_managed w)"
    using assms(1) by (simp add: forward_inv_def managed_ok_def)
  ultimately show ?thesis using True g by (simp add: on_listener_def forward_inv_def)
qed

section \<open>Replacing the rules\<close>

text \<open>Steps on several different listeners.\<close>

definition on_all :: "(nat \<times> (forward_listener \<Rightarrow> forward_listener \<times> nat set)) list \<Rightarrow> forward_world \<Rightarrow> forward_world" where
  "on_all pgs w = foldl (\<lambda>w pg. on_listener (snd pg) (fst pg) w) w pgs"

definition updated :: "(nat \<times> (forward_listener \<Rightarrow> forward_listener \<times> nat set)) list \<Rightarrow> nat \<Rightarrow> forward_listener \<Rightarrow> forward_listener" where
  "updated pgs p f = (case map_of pgs p of None \<Rightarrow> f | Some g \<Rightarrow> fst (g f))"

lemma on_all_heap:
  assumes "distinct (map fst pgs)"
  shows "pf_heap (on_all pgs w) = map (\<lambda>p. updated pgs p (pf_heap w ! p)) [0..<length (pf_heap w)]"
  using assms
proof (induction pgs arbitrary: w)
  case Nil
  then show ?case by (simp add: on_all_def updated_def map_nth)
next
  case (Cons pg pgs)
  obtain p g where pg: "pg = (p, g)" by fastforce
  have "map_of pgs p = None" using Cons.prems by (simp add: pg map_of_eq_None_iff)
  moreover have "pf_heap (on_listener g p w) ! q = (if q = p then fst (g (pf_heap w ! q)) else pf_heap w ! q)"
    if "q < length (pf_heap w)" for q
    using that by (auto simp: on_listener_def split: prod.split)
  ultimately have "updated pgs q (pf_heap (on_listener g p w) ! q) = updated (pg # pgs) q (pf_heap w ! q)"
    if "q < length (pf_heap w)" for q
    using that by (simp add: updated_def pg)
  moreover have "length (pf_heap (on_listener g p w)) = length (pf_heap w)" by (simp add: on_listener_def split: prod.split)
  ultimately show ?case using Cons by (simp add: on_all_def pg)
qed

lemma on_all_frame:
  "pf_managed (on_all pgs w) = pf_managed w" "pf_sockets (on_all pgs w) = pf_sockets w" "pf_file (on_all pgs w) = pf_file w"
  by (induction pgs arbitrary: w) (simp_all add: on_all_def on_listener_def split: prod.split)

lemma on_all_closed:
  assumes "distinct (map fst pgs)"
  shows "pf_closed w \<subseteq> pf_closed (on_all pgs w) \<and>
    (\<forall>p g. (p, g) \<in> set pgs \<longrightarrow> p < length (pf_heap w) \<longrightarrow> snd (g (pf_heap w ! p)) \<subseteq> pf_closed (on_all pgs w))"
  using assms
proof (induction pgs arbitrary: w)
  case Nil
  then show ?case by (simp add: on_all_def)
next
  case (Cons pg pgs)
  obtain p g where pg: "pg = (p, g)" by fastforce
  let ?w = "on_listener g p w"
  note IH = Cons.IH [of ?w] Cons.prems
  have len: "length (pf_heap ?w) = length (pf_heap w)" by (simp add: on_listener_def split: prod.split)
  have other: "pf_heap ?w ! q = pf_heap w ! q" if "q \<noteq> p" for q using that by (simp add: on_listener_def split: prod.split)
  have one: "pf_closed w \<subseteq> pf_closed ?w" "p < length (pf_heap w) \<Longrightarrow> snd (g (pf_heap w ! p)) \<subseteq> pf_closed ?w"
    by (auto simp: on_listener_def split: prod.split)
  have run: "on_all ((p, g) # pgs) w = on_all pgs ?w" by (simp add: on_all_def)
  have "snd (h (pf_heap w ! q)) \<subseteq> pf_closed (on_all pgs ?w)" if "(q, h) \<in> set (pg # pgs)" "q < length (pf_heap w)" for q h
  proof (cases "(q, h) = pg")
    case True
    then have "snd (h (pf_heap w ! q)) \<subseteq> pf_closed ?w" using one(2) that(2) pg by simp
    then show ?thesis using IH pg by auto
  next
    case False
    then have "(q, h) \<in> set pgs" using that by simp
    moreover have "q \<noteq> p" using calculation Cons.prems by (force simp: pg)
    ultimately have "snd (h (pf_heap ?w ! q)) \<subseteq> pf_closed (on_all pgs ?w)" using IH that(2) len by simp
    then show ?thesis using other [OF \<open>q \<noteq> p\<close>] by simp
  qed
  then show ?case using IH one(1) unfolding pg run by auto
qed

lemma close_all_eq: "close_all ps w = on_all (map (\<lambda>p. (p, stop_listener)) ps) w"
  by (simp add: close_all_def on_all_def foldl_map)

lemma updated_stop: "updated (map (\<lambda>p. (p, stop_listener)) qs) p f = (if p \<in> set qs then fst (stop_listener f) else f)"
  by (auto simp: updated_def map_of_map_restrict comp_def restrict_map_def)

lemma set_rules_eq: "set_rules nxt rules w = on_all (map (\<lambda>r. (the (map_of nxt (fwd_ID r)), set_rule r)) rules) w"
  by (simp add: set_rules_def on_all_def foldl_map)

definition is_new :: "forward_listener \<Rightarrow> bool" where
  "is_new f \<longleftrightarrow> \<not> fl_stopped f \<and> fl_connections f = {} \<and> fl_sessions f = [] \<and> fl_pipes f = [] \<and> fl_readers f = [] \<and>
     fl_socket f = (fwd_Protocol (fl_rule f), fwd_Listen (fl_rule f))"

lemma is_new_ok: "is_new f \<Longrightarrow> listener_ok k closed f"
  by (simp add: is_new_def listener_ok_def session_sockets_def)

lemma createForward_cases:
  assumes "createForward env rule w = (r, w1)"
  obtains (failed) e where "r = Inl e" "w1 = w"
  | (created) f where "r = Inr (length (pf_heap w))" "w1 = w\<lparr>pf_heap := pf_heap w @ [f]\<rparr>" "is_new f" "fl_rule f = rule"
      "can_open env (held_addresses w) (fl_socket f)"
proof (cases "identity env (length (pf_heap w))")
  case None
  then show thesis using assms by (intro failed [of IdentityFailed]) (auto simp: createForward_def)
next
  case (Some b)
  let ?address = "(fwd_Protocol rule, fwd_Listen rule)"
  let ?f = "\<lparr>fl_generation = hex_encode b, fl_socket = ?address, fl_rule = rule, fl_stopped = False, fl_connections = {}, fl_sessions = [],
    fl_pipes = [], fl_readers = [], fl_received = 0, fl_sent = 0, fl_errors = 0\<rparr>"
  show thesis
  proof (cases "can_open env (held_addresses w) ?address")
    case True
    show thesis by (rule created [of ?f]) (use assms Some True in \<open>simp_all add: createForward_def is_new_def\<close>)
  next
    case False
    then show thesis using assms Some by (intro failed [of AddressInUse]) (auto simp: createForward_def)
  qed
qed

lemma update_absent: "k \<notin> fst ` set kvs \<Longrightarrow> AList.update k v kvs = kvs @ [(k, v)]"
  by (induction kvs) auto

text \<open>The listener of a rule: the managed one, or one opened for it.\<close>

definition slot :: "forward_world \<Rightarrow> forward_listener list \<Rightarrow> forward_rule \<Rightarrow> nat \<Rightarrow> bool" where
  "slot w hp rule p \<longleftrightarrow> p < length hp \<and> fl_socket (hp ! p) = (fwd_Protocol rule, fwd_Listen rule) \<and>
     (map_of (pf_managed w) (fwd_ID rule) = Some p \<or> length (pf_heap w) \<le> p \<and> fl_rule (hp ! p) = rule)"

definition pointers_ok :: "forward_world \<Rightarrow> bool" where
  "pointers_ok w \<longleftrightarrow> (\<forall>i p. (i, p) \<in> set (pf_managed w) \<longrightarrow> p < length (pf_heap w) \<and>
     fl_socket (pf_heap w ! p) = (fwd_Protocol (fl_rule (pf_heap w ! p)), fwd_Listen (fl_rule (pf_heap w ! p))))"

lemma open_rules_spec:
  assumes "open_rules env rules nxt created w = (r, created', w1)" "pointers_ok w"
    "distinct (map fst nxt @ map fwd_ID rules)"
  shows "\<exists>new. w1 = w\<lparr>pf_heap := pf_heap w @ new\<rparr> \<and> created' = created @ [length (pf_heap w) ..< length (pf_heap w) + length new] \<and>
    list_all is_new new \<and> (\<forall>nxt'. r = Inr nxt' \<longrightarrow> (\<exists>ps. nxt' = nxt @ zip (map fwd_ID rules) ps \<and>
      list_all2 (slot w (pf_heap w @ new)) rules ps \<and> {length (pf_heap w) ..< length (pf_heap w) + length new} \<subseteq> set ps))"
  using assms
proof (induction rules arbitrary: nxt created w)
  case Nil
  then show ?case by (intro exI [of _ "[]"]) auto
next
  case (Cons rule rules)
  let ?len = "length (pf_heap w)" and ?id = "fwd_ID rule"
  have fresh: "AList.update ?id p nxt = nxt @ [(?id, p)]" for p
    using Cons.prems(3) by (intro update_absent) (auto simp: image_image)
  have dist: "distinct (map fst (nxt @ [(?id, p)]) @ map fwd_ID rules)" for p :: nat using Cons.prems(3) by auto
  show ?case
  proof (cases "\<exists>p. map_of (pf_managed w) ?id = Some p \<and> fwd_Protocol (fl_rule (pf_heap w ! p)) = fwd_Protocol rule \<and>
      fwd_Listen (fl_rule (pf_heap w ! p)) = fwd_Listen rule")
    case True
    then obtain p where p: "map_of (pf_managed w) ?id = Some p" "fwd_Protocol (fl_rule (pf_heap w ! p)) = fwd_Protocol rule"
      "fwd_Listen (fl_rule (pf_heap w ! p)) = fwd_Listen rule" by blast
    have "open_rules env rules (nxt @ [(?id, p)]) created w = (r, created', w1)" using Cons.prems(1) p fresh by simp
    from Cons.IH [OF this Cons.prems(2) dist] obtain new where new: "w1 = w\<lparr>pf_heap := pf_heap w @ new\<rparr>"
      "created' = created @ [?len ..< ?len + length new]" "list_all is_new new"
      and ps: "\<And>nxt'. r = Inr nxt' \<Longrightarrow> \<exists>ps. nxt' = (nxt @ [(?id, p)]) @ zip (map fwd_ID rules) ps \<and>
        list_all2 (slot w (pf_heap w @ new)) rules ps \<and> {?len ..< ?len + length new} \<subseteq> set ps" by blast
    have "slot w (pf_heap w @ new) rule p"
    proof -
      have "p < ?len" "fl_socket (pf_heap w ! p) = (fwd_Protocol rule, fwd_Listen rule)"
        using p map_of_SomeD [OF p(1)] Cons.prems(2) by (simp_all add: pointers_ok_def)
      then show ?thesis using p(1) by (simp add: slot_def nth_append)
    qed
    then have "\<exists>ps. nxt' = nxt @ zip (map fwd_ID (rule # rules)) ps \<and> list_all2 (slot w (pf_heap w @ new)) (rule # rules) ps \<and>
        {?len ..< ?len + length new} \<subseteq> set ps" if ok: "r = Inr nxt'" for nxt'
    proof -
      obtain ps where "nxt' = (nxt @ [(?id, p)]) @ zip (map fwd_ID rules) ps" "list_all2 (slot w (pf_heap w @ new)) rules ps"
        "{?len ..< ?len + length new} \<subseteq> set ps" using ps [OF ok] by blast
      then show ?thesis using \<open>slot w (pf_heap w @ new) rule p\<close> by (intro exI [of _ "p # ps"]) auto
    qed
    then show ?thesis using new by blast
  next
    case False
    obtain q w2 where c: "createForward env rule w = (q, w2)" by fastforce
    have "open_rules env (rule # rules) nxt created w = (case (q, w2) of
          (Inl e, w1) \<Rightarrow> (Inl (BindFailed ?id e), created, w1)
        | (Inr p, w1) \<Rightarrow> open_rules env rules (AList.update ?id p nxt) (created @ [p]) w1)"
      using False c by (auto simp: Let_def split: option.split)
    note un = this [unfolded Cons.prems(1) fresh]
    show ?thesis
      using c
    proof (cases rule: createForward_cases)
      case (failed e)
      then show ?thesis using un by (intro exI [of _ "[]"]) auto
    next
      case (created f)
      have run: "open_rules env rules (nxt @ [(?id, ?len)]) (created @ [?len]) w2 = (r, created', w1)" using un created by simp
      have "pointers_ok w2" using Cons.prems(2) created by (auto simp: pointers_ok_def nth_append intro: less_SucI)
      from Cons.IH [OF run this dist] obtain new where new: "w1 = w2\<lparr>pf_heap := pf_heap w2 @ new\<rparr>"
        "created' = (created @ [?len]) @ [length (pf_heap w2) ..< length (pf_heap w2) + length new]" "list_all is_new new"
        and ps: "\<And>nxt'. r = Inr nxt' \<Longrightarrow> \<exists>ps. nxt' = (nxt @ [(?id, ?len)]) @ zip (map fwd_ID rules) ps \<and>
          list_all2 (slot w2 (pf_heap w2 @ new)) rules ps \<and> {length (pf_heap w2) ..< length (pf_heap w2) + length new} \<subseteq> set ps" by blast
      let ?hp = "pf_heap w @ f # new"
      have hp: "pf_heap w2 @ new = ?hp" "length (pf_heap w2) = Suc ?len" using created by simp_all
      have weaker: "slot w2 ?hp x p \<Longrightarrow> slot w ?hp x p" for x p using created by (auto simp: slot_def)
      have here: "slot w ?hp rule ?len" using created by (simp add: slot_def is_new_def)
      have "\<exists>ps. nxt' = nxt @ zip (map fwd_ID (rule # rules)) ps \<and> list_all2 (slot w ?hp) (rule # rules) ps \<and>
          {?len ..< ?len + length (f # new)} \<subseteq> set ps" if ok: "r = Inr nxt'" for nxt'
      proof -
        obtain ps where "nxt' = (nxt @ [(?id, ?len)]) @ zip (map fwd_ID rules) ps" "list_all2 (slot w2 ?hp) rules ps"
          "{Suc ?len ..< Suc ?len + length new} \<subseteq> set ps" using ps [OF ok] unfolding hp by blast
        moreover have "{?len ..< ?len + length (f # new)} = insert ?len {Suc ?len ..< Suc ?len + length new}" by auto
        ultimately show ?thesis using here weaker by (intro exI [of _ "?len # ps"]) (auto elim: list_all2_mono)
      qed
      moreover have "w1 = w\<lparr>pf_heap := ?hp\<rparr>" using new(1) created(2) by simp
      moreover have "created' = created @ [?len ..< ?len + length (f # new)]" using new(2) hp by (simp add: upt_conv_Cons del: upt_Suc)
      moreover have "list_all is_new (f # new)" using new(3) created(3) by simp
      ultimately show ?thesis by blast
    qed
  qed
qed

lemma snd_inject: "distinct (map snd xs) \<Longrightarrow> (a, p) \<in> set xs \<Longrightarrow> (b, p) \<in> set xs \<Longrightarrow> a = b"
  by (induction xs) force+

lemma slots_distinct:
  assumes "list_all2 (slot w hp) rules ps" "distinct (map fwd_ID rules)" "managed_ok (pf_heap w) (pf_managed w)"
  shows "distinct ps"
proof -
  have "ps ! i \<noteq> ps ! j" if "i < length ps" "j < length ps" "i \<noteq> j" for i j
  proof
    assume eq: "ps ! i = ps ! j"
    have s: "slot w hp (rules ! i) (ps ! i)" "slot w hp (rules ! j) (ps ! i)"
      using that assms(1) eq by (auto simp: list_all2_conv_all_nth)
    have diff: "fwd_ID (rules ! i) \<noteq> fwd_ID (rules ! j)"
      using that assms(1,2) by (auto simp: list_all2_conv_all_nth distinct_conv_nth)
    have man: "distinct (map snd (pf_managed w))" "\<And>k p. (k, p) \<in> set (pf_managed w) \<Longrightarrow> p < length (pf_heap w)"
      using assms(3) by (auto simp: managed_ok_def)
    show False
    proof (cases "ps ! i < length (pf_heap w)")
      case True
      then have "(fwd_ID (rules ! i), ps ! i) \<in> set (pf_managed w)" "(fwd_ID (rules ! j), ps ! i) \<in> set (pf_managed w)"
        using s by (auto simp: slot_def dest: map_of_SomeD)
      then show False using snd_inject [OF man(1)] diff by blast
    next
      case False
      have "fl_rule (hp ! (ps ! i)) = rules ! k"
        if "slot w hp (rules ! k) (ps ! i)" for k
        using that False man(2) [of "fwd_ID (rules ! k)" "ps ! i"] by (auto simp: slot_def dest: map_of_SomeD)
      then show False using s diff by metis
    qed
  qed
  then show ?thesis by (simp add: distinct_conv_nth)
qed

lemma map_of_zip_pointers:
  assumes "length ps = length rules" "distinct (map fwd_ID rules)"
  shows "map (\<lambda>r. (the (map_of (zip (map fwd_ID rules) ps) (fwd_ID r)), set_rule r)) rules = zip ps (map set_rule rules)"
proof (rule nth_equalityI)
  fix i assume "i < length (map (\<lambda>r. (the (map_of (zip (map fwd_ID rules) ps) (fwd_ID r)), set_rule r)) rules)"
  then have i: "i < length rules" by simp
  then have "map_of (zip (map fwd_ID rules) ps) (map fwd_ID rules ! i) = Some (ps ! i)"
    using assms by (intro map_of_zip_nth) simp_all
  then show "map (\<lambda>r. (the (map_of (zip (map fwd_ID rules) ps) (fwd_ID r)), set_rule r)) rules ! i = zip ps (map set_rule rules) ! i"
    using i assms by simp
qed (use assms in simp)

text \<open>What is left of a failed attempt: the listeners opened for it, stopped and unused.\<close>

definition left_over :: "forward_listener \<Rightarrow> bool" where
  "left_over f \<longleftrightarrow> fl_stopped f \<and> is_new (f\<lparr>fl_stopped := False\<rparr>)"

definition undone_from :: "forward_world \<Rightarrow> forward_world \<Rightarrow> bool" where
  "undone_from w w' \<longleftrightarrow> (\<exists>left. pf_heap w' = pf_heap w @ left \<and>
     list_all left_over left) \<and>
     pf_managed w' = pf_managed w \<and> pf_file w' = pf_file w \<and> pf_sockets w' = pf_sockets w \<and> pf_closed w \<subseteq> pf_closed w'"

definition file_writer :: "(forward_world \<Rightarrow> (forward_error, unit) res \<times> forward_world) option \<Rightarrow> bool" where
  "file_writer persist \<longleftrightarrow> (\<forall>put w r w'. persist = Some put \<longrightarrow> put w = (r, w') \<longrightarrow>
     (\<exists>t. w' = w\<lparr>pf_file := t\<rparr> \<and> (\<not> is_ok r \<longrightarrow> t = pf_file w)))"

lemma file_writerD:
  "file_writer (Some put) \<Longrightarrow> put w = (r, w') \<Longrightarrow> \<exists>t. w' = w\<lparr>pf_file := t\<rparr> \<and> (\<not> is_ok r \<longrightarrow> t = pf_file w)"
  unfolding file_writer_def by blast

lemma close_created:
  assumes "list_all is_new new" "pf_heap w1 = pf_heap w @ new" "pf_managed w1 = pf_managed w" "pf_file w1 = pf_file w"
    "pf_sockets w1 = pf_sockets w" "pf_closed w1 = pf_closed w"
  shows "undone_from w (close_all [length (pf_heap w) ..< length (pf_heap w) + length new] w1)"
proof -
  let ?len = "length (pf_heap w)"
  let ?pgs = "map (\<lambda>p. (p, stop_listener)) [?len ..< ?len + length new]"
  have dist: "distinct (map fst ?pgs)" by (simp add: comp_def)
  have "pf_heap (on_all ?pgs w1) = pf_heap w @ map (\<lambda>f. fst (stop_listener f)) new"
    unfolding on_all_heap [OF dist] assms(2)
    by (rule nth_equalityI) (auto simp: updated_stop nth_append)
  moreover have "list_all left_over (map (\<lambda>f. fst (stop_listener f)) new)"
    using assms(1) by (auto simp: list_all_iff left_over_def is_new_def stop_listener_def)
  ultimately show ?thesis
    using on_all_frame [of ?pgs w1] on_all_closed [OF dist, of w1] assms by (auto simp: undone_from_def close_all_eq)
qed

lemma apply_rules_failed:
  assumes "apply_rules env rules persist w = (Inl e, w')" "forward_inv w" "distinct (map fwd_ID rules)" "file_writer persist"
  shows "undone_from w w'"
proof -
  obtain r created w1 where o: "open_rules env rules [] [] w = (r, created, w1)" by (metis prod_cases3)
  have "pointers_ok w" using assms(2) by (auto simp: forward_inv_def managed_ok_def pointers_ok_def listener_ok_def)
  from open_rules_spec [OF o this] assms(3) obtain new where w1: "w1 = w\<lparr>pf_heap := pf_heap w @ new\<rparr>"
    "created = [length (pf_heap w) ..< length (pf_heap w) + length new]" "list_all is_new new" by auto
  show ?thesis
  proof (cases r)
    case (Inl e')
    then have "w' = close_all created w1" using assms(1) o by (simp add: apply_rules_def)
    then show ?thesis using close_created [OF w1(3), of w1 w] w1 by simp
  next
    case (Inr nxt)
    obtain q w2 where q: "(case persist of None \<Rightarrow> (Inr (), w1) | Some write_file \<Rightarrow> write_file w1) = (q, w2)" by fastforce
    have "w' = close_all created w2" "\<not> is_ok q"
      using assms(1) o Inr q by (cases q; simp add: apply_rules_def Let_def)+
    moreover have "w2 = w1"
      using q calculation(2) assms(4) file_writerD [of _ w1 q w2] by (cases persist) auto
    ultimately show ?thesis using close_created [OF w1(3), of w1 w] w1 by simp
  qed
qed

lemma updated_zip:
  assumes "length ps = length gs" "distinct ps" "i < length ps"
  shows "updated (zip ps gs) (ps ! i) f = fst ((gs ! i) f)"
  using assms by (simp add: updated_def map_of_zip_nth)

text \<open>After a successful attempt: the managed listeners are those of the rules, in order.\<close>

definition serves :: "forward_world \<Rightarrow> forward_rule list \<Rightarrow> bool" where
  "serves w rules \<longleftrightarrow> map fst (pf_managed w) = map fwd_ID rules \<and>
     map (\<lambda>ip. fl_rule (pf_heap w ! snd ip)) (pf_managed w) = rules"

lemma on_all_ok:
  assumes "distinct (map fst pgs)" "\<forall>f \<in> set (pf_heap w). listener_ok k (pf_closed w) f"
    and "\<And>p g f gone. (p, g) \<in> set pgs \<Longrightarrow> p < length (pf_heap w) \<Longrightarrow> g (pf_heap w ! p) = (f, gone) \<Longrightarrow> listener_ok k (pf_closed w \<union> gone) f"
  shows "\<forall>f \<in> set (pf_heap (on_all pgs w)). listener_ok k (pf_closed (on_all pgs w)) f"
proof -
  note closed = on_all_closed [OF assms(1), of w]
  have "listener_ok k (pf_closed (on_all pgs w)) (updated pgs p (pf_heap w ! p))" if p: "p < length (pf_heap w)" for p
  proof (cases "map_of pgs p")
    case None
    then show ?thesis using listener_ok_mono [of k "pf_closed w"] assms(2) p closed by (simp add: updated_def)
  next
    case (Some g)
    obtain f gone where f: "g (pf_heap w ! p) = (f, gone)" by fastforce
    have g: "(p, g) \<in> set pgs" using Some by (rule map_of_SomeD)
    have "gone \<subseteq> pf_closed (on_all pgs w)" using closed [THEN conjunct2, rule_format, OF g p] f by simp
    then show ?thesis
      using listener_ok_mono [OF assms(3) [OF g p f]] closed Some f by (simp add: updated_def)
  qed
  then show ?thesis by (auto simp: on_all_heap [OF assms(1)])
qed

lemma close_all_ok:
  assumes "distinct ps" "\<forall>f \<in> set (pf_heap w). listener_ok k (pf_closed w) f"
  shows "\<forall>f \<in> set (pf_heap (close_all ps w)). listener_ok k (pf_closed (close_all ps w)) f"
  unfolding close_all_eq
proof (rule on_all_ok [OF _ assms(2)])
  fix p g f gone
  assume "(p, g) \<in> set (map (\<lambda>p. (p, stop_listener)) ps)" "p < length (pf_heap w)" and f: "g (pf_heap w ! p) = (f, gone)"
  then have "listener_ok k (pf_closed w) (pf_heap w ! p)" "g = stop_listener" using assms(2) by auto
  then show "listener_ok k (pf_closed w \<union> gone) f" using stop_listener_ok f by blast
qed (use assms(1) in \<open>simp add: comp_def\<close>)

text \<open>The two loops over the listeners: \<open>ps\<close> are the listeners of the rules, \<open>qs\<close> those that go.\<close>

lemma replace_heap:
  assumes "distinct (map fwd_ID rules)" "length ps = length rules" "distinct ps" "distinct qs" "set ps \<inter> set qs = {}"
    and w3: "w3 = set_rules (zip (map fwd_ID rules) ps) rules w2"
  shows "w3 = on_all (zip ps (map set_rule rules)) w2"
    and "\<And>p. p < length (pf_heap w2) \<Longrightarrow> p \<notin> set ps \<Longrightarrow> pf_heap w3 ! p = pf_heap w2 ! p"
    and "\<And>i. i < length rules \<Longrightarrow> ps ! i < length (pf_heap w2) \<Longrightarrow>
      pf_heap (close_all qs w3) ! (ps ! i) = fst (set_rule (rules ! i) (pf_heap w2 ! (ps ! i)))"
    and "\<And>p. p < length (pf_heap w2) \<Longrightarrow> p \<notin> set ps \<Longrightarrow>
      pf_heap (close_all qs w3) ! p = (if p \<in> set qs then fst (stop_listener (pf_heap w2 ! p)) else pf_heap w2 ! p)"
    and "length (pf_heap (close_all qs w3)) = length (pf_heap w2)"
proof -
  let ?pgs1 = "zip ps (map set_rule rules)" and ?pgs2 = "map (\<lambda>p. (p, stop_listener)) qs"
  have dist: "distinct (map fst ?pgs1)" "distinct (map fst ?pgs2)" using assms(2,3,4) by (simp_all add: comp_def)
  show w3': "w3 = on_all ?pgs1 w2" unfolding w3 set_rules_eq map_of_zip_pointers [OF assms(2,1)] ..
  have heap3: "pf_heap w3 = map (\<lambda>p. updated ?pgs1 p (pf_heap w2 ! p)) [0..<length (pf_heap w2)]"
    unfolding w3' by (rule on_all_heap [OF dist(1)])
  have heap4: "pf_heap (close_all qs w3) = map (\<lambda>p. updated ?pgs2 p (updated ?pgs1 p (pf_heap w2 ! p))) [0..<length (pf_heap w2)]"
    by (simp add: close_all_eq on_all_heap [OF dist(2)] heap3)
  then show "length (pf_heap (close_all qs w3)) = length (pf_heap w2)" by simp
  have upd1: "updated ?pgs1 p f = f" if "p \<notin> set ps" for p f
  proof -
    have "map_of ?pgs1 p = None" using that by (auto simp: map_of_eq_None_iff dest: set_zip_leftD)
    then show ?thesis by (simp add: updated_def)
  qed
  show "pf_heap w3 ! p = pf_heap w2 ! p" if "p < length (pf_heap w2)" "p \<notin> set ps" for p
    using that by (simp add: heap3 upd1)
  show "pf_heap (close_all qs w3) ! p = (if p \<in> set qs then fst (stop_listener (pf_heap w2 ! p)) else pf_heap w2 ! p)"
    if "p < length (pf_heap w2)" "p \<notin> set ps" for p
    using that by (simp add: heap4 upd1 updated_stop)
  show "pf_heap (close_all qs w3) ! (ps ! i) = fst (set_rule (rules ! i) (pf_heap w2 ! (ps ! i)))"
    if "i < length rules" "ps ! i < length (pf_heap w2)" for i
  proof -
    have "ps ! i \<notin> set qs" using that(1) assms(2,5) nth_mem [of i ps] disjoint_iff by metis
    then show ?thesis using that assms(2,3) by (simp add: heap4 updated_stop updated_zip)
  qed
qed

lemma replace_listeners:
  assumes "distinct (map fwd_ID rules)" "length ps = length rules" "distinct ps" "distinct qs"
    and w3: "w3 = set_rules (zip (map fwd_ID rules) ps) rules w2"
    and ok: "\<forall>f \<in> set (pf_heap w2). listener_ok k (pf_closed w2) f"
    and socket: "\<And>i. i < length rules \<Longrightarrow> fl_socket (pf_heap w2 ! (ps ! i)) = (fwd_Protocol (rules ! i), fwd_Listen (rules ! i))"
  shows "\<forall>f \<in> set (pf_heap (close_all qs w3)). listener_ok k (pf_closed (close_all qs w3)) f"
proof -
  have "\<forall>f \<in> set (pf_heap w3). listener_ok k (pf_closed w3) f"
    unfolding w3 set_rules_eq map_of_zip_pointers [OF assms(2,1)]
  proof (rule on_all_ok)
    fix p g f gone
    assume pg: "(p, g) \<in> set (zip ps (map set_rule rules))" and p: "p < length (pf_heap w2)" and f: "g (pf_heap w2 ! p) = (f, gone)"
    obtain i where i: "i < length rules" "p = ps ! i" "g = set_rule (rules ! i)" using pg assms(2) by (auto simp: set_zip)
    have "listener_ok k (pf_closed w2) (pf_heap w2 ! p)" using ok p by simp
    then show "listener_ok k (pf_closed w2 \<union> gone) f" by (rule set_rule_ok) (use f i socket in auto)
  qed (use assms(2,3) ok in simp_all)
  then show ?thesis by (rule close_all_ok [OF assms(4)])
qed

lemma replace_ok:
  assumes "forward_inv w" "distinct (map fwd_ID rules)" "list_all is_new new" "list_all2 (slot w (pf_heap w @ new)) rules ps"
    "{length (pf_heap w) ..< length (pf_heap w) + length new} \<subseteq> set ps"
    and w2: "pf_heap w2 = pf_heap w @ new" "pf_managed w2 = pf_managed w" "pf_sockets w2 = pf_sockets w" "pf_closed w2 = pf_closed w"
    and nxt: "nxt = zip (map fwd_ID rules) ps" and w3: "w3 = set_rules nxt rules w2"
    and qs: "qs = map snd (filter (\<lambda>ip. map_of nxt (fst ip) \<noteq> Some (snd ip)) (pf_managed w))"
  shows "forward_inv ((close_all qs w3)\<lparr>pf_managed := nxt\<rparr>) \<and> serves ((close_all qs w3)\<lparr>pf_managed := nxt\<rparr>) rules"
proof -
  let ?hp = "pf_heap w @ new" and ?w = "close_all qs w3"
  have man: "managed_ok (pf_heap w) (pf_managed w)" using assms(1) by (simp add: forward_inv_def)
  have len: "length ps = length rules" using assms(4) by (simp add: list_all2_lengthD)
  have dist: "distinct ps" by (rule slots_distinct [OF assms(4,2) man])
  have dist2: "distinct qs" using man by (auto simp: qs managed_ok_def distinct_map intro: inj_on_subset)
  have slot: "slot w ?hp (rules ! i) (ps ! i)" if "i < length rules" for i
    using that assms(4) by (simp add: list_all2_conv_all_nth)
  have managed: "p < length (pf_heap w) \<and> \<not> fl_stopped (pf_heap w ! p)" if "(j, p) \<in> set (pf_managed w)" for j p
    using that man by (simp add: managed_ok_def)
  have "ps ! i \<notin> set qs" if i: "i < length rules" for i
  proof
    assume "ps ! i \<in> set qs"
    then obtain j where j: "(j, ps ! i) \<in> set (pf_managed w)" "map_of nxt j \<noteq> Some (ps ! i)" by (auto simp: qs)
    then have "map_of (pf_managed w) (fwd_ID (rules ! i)) = Some (ps ! i)" using slot [OF i] managed [OF j(1)] by (auto simp: slot_def)
    then have "j = fwd_ID (rules ! i)" using j(1) man snd_inject [of "pf_managed w"] by (auto simp: managed_ok_def dest: map_of_SomeD)
    then show False using j(2) i assms(2) len map_of_zip_nth [of "map fwd_ID rules" ps i] by (simp add: nxt)
  qed
  then have apart: "set ps \<inter> set qs = {}" using len by (auto simp: in_set_conv_nth)
  note heap = replace_heap [OF assms(2) len dist dist2 apart w3 [unfolded nxt], unfolded w2(1)]
  have new_at: "is_new (?hp ! p)" if "length (pf_heap w) \<le> p" "p < length ?hp" for p
    using that assms(3) by (simp add: nth_append list_all_iff)
  have at: "\<not> fl_stopped (pf_heap ?w ! (ps ! i))" "fl_rule (pf_heap ?w ! (ps ! i)) = rules ! i" "ps ! i < length ?hp"
    if i: "i < length rules" for i
  proof -
    show s: "ps ! i < length ?hp" using slot [OF i] by (simp add: slot_def)
    have "\<not> fl_stopped (?hp ! (ps ! i))"
      using slot [OF i] managed [of "fwd_ID (rules ! i)" "ps ! i"] new_at [OF _ s]
      by (auto simp: slot_def nth_append is_new_def dest: map_of_SomeD)
    then show "\<not> fl_stopped (pf_heap ?w ! (ps ! i))" "fl_rule (pf_heap ?w ! (ps ! i)) = rules ! i"
      using heap(3) [OF i s] by (simp_all add: set_rule_def)
  qed
  have all: "p \<in> set ps" if p: "p < length ?hp" "\<not> fl_stopped (pf_heap ?w ! p)" for p
  proof (rule ccontr)
    assume out: "p \<notin> set ps"
    then have old: "p < length (pf_heap w)" using assms(5) p(1) by (auto simp: subset_iff not_less)
    have "p \<notin> set qs" "\<not> fl_stopped (pf_heap w ! p)"
      using heap(4) [OF p(1) out] p(2) old by (auto simp: stop_listener_def nth_append split: if_splits)
    then obtain j where "(j, p) \<in> set (pf_managed w)" using man old by (auto simp: managed_ok_def)
    then have "map_of nxt j = Some p" using \<open>p \<notin> set qs\<close> by (force simp: qs)
    then show False using out by (auto simp: nxt dest: map_of_SomeD set_zip_rightD)
  qed
  have entry: "\<exists>i < length rules. j = fwd_ID (rules ! i) \<and> p = ps ! i" if "(j, p) \<in> set nxt" for j p
    using that len by (auto simp: nxt set_zip)
  have "p < length ?hp \<and> \<not> fl_stopped (pf_heap ?w ! p) \<and> fwd_ID (fl_rule (pf_heap ?w ! p)) = j" if "(j, p) \<in> set nxt" for j p
    using entry [OF that] at by auto
  moreover have "p \<in> snd ` set nxt" if "p < length ?hp" "\<not> fl_stopped (pf_heap ?w ! p)" for p
    using all [OF that] len by (simp flip: set_map add: nxt)
  moreover have "distinct (map fst nxt)" "distinct (map snd nxt)" using assms(2) dist len by (simp_all add: nxt)
  ultimately have "managed_ok (pf_heap ?w) nxt" by (simp add: managed_ok_def heap(5))
  moreover have "serves (?w\<lparr>pf_managed := nxt\<rparr>) rules"
    using at len by (auto simp: serves_def nxt intro!: nth_equalityI)
  moreover have sockets: "pf_sockets ?w = pf_sockets w" by (simp add: close_all_eq on_all_frame heap(1) w2)
  have "\<forall>f \<in> set (pf_heap ?w). listener_ok (pf_sockets ?w) (pf_closed ?w) f"
    unfolding sockets
  proof (rule replace_listeners [OF assms(2) len dist dist2 w3 [unfolded nxt]])
    show "\<forall>f \<in> set (pf_heap w2). listener_ok (pf_sockets w) (pf_closed w2) f"
      using assms(1,3) is_new_ok by (auto simp: w2 forward_inv_def list_all_iff)
  qed (use slot in \<open>simp add: slot_def w2\<close>)
  ultimately show ?thesis by (simp add: forward_inv_def)
qed

lemma apply_rules_ok:
  assumes "apply_rules env rules persist w = (Inr u, w')" "forward_inv w" "distinct (map fwd_ID rules)" "file_writer persist"
  shows "forward_inv w' \<and> serves w' rules"
proof -
  obtain r created w1 where o: "open_rules env rules [] [] w = (r, created, w1)" by (metis prod_cases3)
  obtain nxt where r: "r = Inr nxt" using assms(1) o by (cases r) (simp_all add: apply_rules_def)
  have "pointers_ok w" using assms(2) by (auto simp: forward_inv_def managed_ok_def pointers_ok_def listener_ok_def)
  from open_rules_spec [OF o this] assms(3) r obtain new ps where w1: "w1 = w\<lparr>pf_heap := pf_heap w @ new\<rparr>"
    "list_all is_new new" and nxt: "nxt = zip (map fwd_ID rules) ps" and slots: "list_all2 (slot w (pf_heap w @ new)) rules ps"
    and all_new: "{length (pf_heap w) ..< length (pf_heap w) + length new} \<subseteq> set ps" by auto
  obtain q w2 where q: "(case persist of None \<Rightarrow> (Inr (), w1) | Some write_file \<Rightarrow> write_file w1) = (q, w2)" by fastforce
  have "\<exists>t. w2 = w1\<lparr>pf_file := t\<rparr>"
    using q assms(4) file_writerD [of _ w1 q w2] by (cases persist) (auto intro: exI [of _ "pf_file w1"])
  then have w2: "pf_heap w2 = pf_heap w @ new" "pf_managed w2 = pf_managed w" "pf_sockets w2 = pf_sockets w" "pf_closed w2 = pf_closed w"
    using w1(1) by auto
  have "w' = (close_all (map snd (filter (\<lambda>ip. map_of nxt (fst ip) \<noteq> Some (snd ip)) (pf_managed (set_rules nxt rules w2))))
      (set_rules nxt rules w2))\<lparr>pf_managed := nxt\<rparr>"
    using assms(1) o r q by (cases q; simp add: apply_rules_def Let_def)
  moreover have "pf_managed (set_rules nxt rules w2) = pf_managed w" by (simp add: set_rules_eq on_all_frame w2)
  ultimately show ?thesis using replace_ok [OF assms(2,3) w1(2) slots all_new w2 nxt refl refl] by simp
qed

section \<open>Decoded rules\<close>

lemma check_forwards_spec:
  assumes "check_forwards lit ids addrs rules = Inr rs"
  shows "check_forwards lit ids addrs rs = Inr rs \<and> distinct (map fwd_ID rs) \<and> set ids \<inter> fwd_ID ` set rs = {} \<and>
    distinct (map (\<lambda>r. fwd_Protocol r @ ''/'' @ fwd_Listen r) rs) \<and> set addrs \<inter> (\<lambda>r. fwd_Protocol r @ ''/'' @ fwd_Listen r) ` set rs = {} \<and>
    length rs = length rules \<and> list_all (\<lambda>r. 5 \<le> fwd_UDPIdleSeconds r \<and> fwd_UDPIdleSeconds r \<le> 600) rs"
  using assms
proof (induction lit ids addrs rules arbitrary: rs rule: check_forwards.induct)
  case (2 lit ids addrs r rules)
  let ?key = "fwd_Protocol r @ ''/'' @ fwd_Listen r"
  let ?idle = "if fwd_UDPIdleSeconds r = 0 then 60 else fwd_UDPIdleSeconds r"
  obtain rest where rest: "check_forwards lit (fwd_ID r # ids) (?key # addrs) rules = Inr rest" "rs = r\<lparr>fwd_UDPIdleSeconds := ?idle\<rparr> # rest"
    using "2.prems" by (auto simp: Let_def bind_res_Inr)
  have "safeName (dashed (fwd_ID r))" "fwd_ID r \<notin> set ids" "fwd_Protocol r = ''tcp'' \<or> fwd_Protocol r = ''udp''"
    "validNetworkAddress lit (fwd_Listen r) True = Inr ()" "validNetworkAddress lit (fwd_Target r) False = Inr ()"
    "fwd_Listen r \<noteq> fwd_Target r" "?key \<notin> set addrs" "5 \<le> ?idle" "?idle \<le> 600"
    using "2.prems" by (auto simp: Let_def bind_res_Inr)
  moreover have IH: "check_forwards lit (fwd_ID r # ids) (?key # addrs) rest = Inr rest \<and> distinct (map fwd_ID rest) \<and>
      set (fwd_ID r # ids) \<inter> fwd_ID ` set rest = {} \<and> distinct (map (\<lambda>r. fwd_Protocol r @ ''/'' @ fwd_Listen r) rest) \<and>
      set (?key # addrs) \<inter> (\<lambda>r. fwd_Protocol r @ ''/'' @ fwd_Listen r) ` set rest = {} \<and>
      length rest = length rules \<and> list_all (\<lambda>r. 5 \<le> fwd_UDPIdleSeconds r \<and> fwd_UDPIdleSeconds r \<le> 600) rest"
    using calculation by (intro "2.IH" [OF refl refl rest(1)])
  ultimately show ?case unfolding rest(2) by (auto simp: Let_def)
qed simp

lemma decode_encode_rule: "5 \<le> fwd_UDPIdleSeconds r \<Longrightarrow> fwd_UDPIdleSeconds r \<le> 600 \<Longrightarrow> decode_rule (encode_rule r) = Some r"
  by (simp add: decode_rule_def encode_rule_def as_object_def str_field_def int_field_def get_any_def Atoi_itoa)

lemma decodeForwardRules_spec:
  assumes "decodeForwardRules lit raw = Inr rules"
  shows "decodeForwardRules lit (JArr (map encode_rule rules)) = Inr rules" "distinct (map fwd_ID rules)"
    "distinct (map (\<lambda>r. (fwd_Protocol r, fwd_Listen r)) rules)"
proof -
  obtain vs rs where rs: "raw = JArr vs" "traverse_opt decode_rule vs = Some rs" "length rs \<le> 256" "check_forwards lit [] [] rs = Inr rules"
    using assms by (cases raw) (auto simp: decodeForwardRules_def bind_res_Inr)
  note spec = check_forwards_spec [OF rs(4)]
  then show "distinct (map fwd_ID rules)" by simp
  show "distinct (map (\<lambda>r. (fwd_Protocol r, fwd_Listen r)) rules)" using spec by (auto simp: distinct_map inj_on_def)
  have "traverse_opt decode_rule (map encode_rule rules) = Some rules"
    using spec by (intro traverse_opt_map) (auto simp: list_all_iff decode_encode_rule)
  then show "decodeForwardRules lit (JArr (map encode_rule rules)) = Inr rules" using spec rs(3) by (simp add: decodeForwardRules_def)
qed

lemma write_forwards_writer: "file_writer (Some (write_forwards fails rules))"
  by (auto simp: file_writer_def write_forwards_def intro: exI [of _ "pf_file _"])

lemma undone_inv:
  assumes "undone_from w w'" "forward_inv w"
  shows "forward_inv w'"
proof -
  obtain left where w': "pf_heap w' = pf_heap w @ left" "list_all left_over left"
    "pf_managed w' = pf_managed w" "pf_sockets w' = pf_sockets w" "pf_closed w \<subseteq> pf_closed w'" using assms(1) by (auto simp: undone_from_def)
  have "listener_ok (pf_sockets w) (pf_closed w') f" if "f \<in> set (pf_heap w)" for f
    using that assms(2) w'(5) listener_ok_mono [of "pf_sockets w" "pf_closed w" f] by (simp add: forward_inv_def)
  moreover have "listener_ok (pf_sockets w) (pf_closed w') f" if "f \<in> set left" for f
    using that w'(2) by (auto simp: list_all_iff left_over_def is_new_def listener_ok_def session_sockets_def)
  moreover have "managed_ok (pf_heap w @ left) (pf_managed w)"
  proof -
    have man: "managed_ok (pf_heap w) (pf_managed w)" using assms(2) by (simp add: forward_inv_def)
    have "p < length (pf_heap w @ left) \<and> \<not> fl_stopped ((pf_heap w @ left) ! p) \<and> fwd_ID (fl_rule ((pf_heap w @ left) ! p)) = j"
      if "(j, p) \<in> set (pf_managed w)" for j p
    proof -
      have "p < length (pf_heap w)" "\<not> fl_stopped (pf_heap w ! p)" "fwd_ID (fl_rule (pf_heap w ! p)) = j"
        using man that by (simp_all add: managed_ok_def)
      then show ?thesis by (simp add: nth_append)
    qed
    moreover have "p \<in> snd ` set (pf_managed w)" if "p < length (pf_heap w @ left)" "\<not> fl_stopped ((pf_heap w @ left) ! p)" for p
    proof (cases "p < length (pf_heap w)")
      case True
      then show ?thesis using that man by (simp add: nth_append managed_ok_def)
    next
      case False
      then have "(pf_heap w @ left) ! p \<in> set left" using that(1) by (simp add: nth_append)
      then show ?thesis using that(2) w'(2) by (auto simp: list_all_iff left_over_def)
    qed
    ultimately show ?thesis using man by (simp add: managed_ok_def)
  qed
  ultimately show ?thesis by (auto simp: forward_inv_def w')
qed

section \<open>Runs\<close>

lemma applyForwards_inv: "forward_inv w \<Longrightarrow> applyForwards env fails raw w = (r, w') \<Longrightarrow> forward_inv w'"
proof -
  assume inv: "forward_inv w" and a: "applyForwards env fails raw w = (r, w')"
  show ?thesis
  proof (cases "decodeForwardRules (literal env) raw")
    case (Inl e)
    then show ?thesis using inv a by (simp add: applyForwards_def)
  next
    case (Inr rules)
    obtain q w1 where q: "apply_rules env rules (Some (write_forwards fails rules)) w = (q, w1)" by fastforce
    have "w' = w1" using a Inr q by (cases q) (simp_all add: applyForwards_def)
    then show ?thesis
      using apply_rules_failed [OF _ inv decodeForwardRules_spec(2) [OF Inr] write_forwards_writer]
        apply_rules_ok [OF _ inv decodeForwardRules_spec(2) [OF Inr] write_forwards_writer] undone_inv [OF _ inv] q
      by (cases q) auto
  qed
qed

lemma restoreForwards_inv: "forward_inv w \<Longrightarrow> restoreForwards env w = (r, w') \<Longrightarrow> forward_inv w'"
proof -
  assume inv: "forward_inv w" and a: "restoreForwards env w = (r, w')"
  have "w' = w \<or> (\<exists>raw rules. decodeForwardRules (literal env) raw = Inr rules \<and> apply_rules env rules None w = (r, w'))"
    using a by (auto simp: restoreForwards_def split: forwards_file.splits option.splits sum.splits)
  moreover have "file_writer None" by (simp add: file_writer_def)
  ultimately show ?thesis
    using inv apply_rules_failed [OF _ inv] apply_rules_ok [OF _ inv] undone_inv [OF _ inv] decodeForwardRules_spec(2) by (cases r) blast+
qed

lemma close_manager_inv:
  assumes "forward_inv w"
  shows "forward_inv (close_manager w)"
proof -
  let ?ps = "map snd (pf_managed w)" and ?w = "close_all (map snd (pf_managed w)) w"
  let ?pgs = "map (\<lambda>p. (p, stop_listener)) ?ps"
  have man: "managed_ok (pf_heap w) (pf_managed w)" using assms by (simp add: forward_inv_def)
  then have dist: "distinct (map fst ?pgs)" by (simp add: comp_def managed_ok_def)
  have "\<forall>f \<in> set (pf_heap ?w). listener_ok (pf_sockets w) (pf_closed ?w) f"
    using man assms by (intro close_all_ok) (simp_all add: managed_ok_def forward_inv_def)
  moreover have "fl_stopped (pf_heap ?w ! p)" if "p < length (pf_heap w)" for p
    using that man unfolding close_all_eq on_all_heap [OF dist] updated_stop
    by (auto simp: managed_ok_def stop_listener_def)
  moreover have "length (pf_heap ?w) = length (pf_heap w)" unfolding close_all_eq on_all_heap [OF dist] by simp
  ultimately show ?thesis by (simp add: close_manager_def forward_inv_def managed_ok_def close_all_eq on_all_frame)
qed

lemma forward_step_inv: "forward_inv w \<Longrightarrow> forward_inv (forward_step w e)"
proof -
  assume inv: "forward_inv w"
  let ?k = "pf_sockets w"
  have same: "w = w\<lparr>pf_sockets := ?k\<rparr>" by simp
  note fresh = on_listener_inv [OF inv, of _ "Suc ?k"] and old = on_listener_inv [OF inv _ _ order_refl, folded same]
  show ?thesis
  proof (cases e)
    case (Accepted p)
    then show ?thesis using fresh [OF goroutines(1) serveTCP_ok] by (simp add: fresh_socket_def)
  next
    case (Dialled p c ok)
    then show ?thesis using fresh [OF goroutines(2) pipe_dialled_ok] by (simp add: fresh_socket_def)
  next
    case (PipeEnded p c failed)
    then show ?thesis using old [OF goroutines(3) pipe_ended_ok] by simp
  next
    case (Copied p up down)
    have "listener_ok ?k (pf_closed w \<union> gone) f'" if "listener_ok ?k (pf_closed w) f" "(forwardCount up down f, {}) = (f', gone)" for f f' gone
    proof -
      have "session_sockets f' = session_sockets f" using that(2) by (auto simp: forwardCount_def session_sockets_def)
      then show ?thesis using that by (auto simp: listener_ok_def forwardCount_def)
    qed
    then show ?thesis using Copied old [OF goroutines(4)] by simp
  next
    case (Datagram p key ok written failed)
    have "listener_ok (Suc ?k) (pf_closed w \<union> gone) f'"
      if "listener_ok ?k (pf_closed w) f" "(serveUDP key (if ok then Some ?k else None) written failed f, {}) = (f', gone)" for f f' gone
      using serveUDP_ok [OF that(1)] that(2) by auto
    then show ?thesis using Datagram fresh [OF goroutines(5)] by (simp add: fresh_socket_def)
  next
    case (UDPRead p key c result)
    then show ?thesis using old [OF goroutines(6) readUDP_ok] by simp
  next
    case (ApplyRules env fails raw)
    then show ?thesis using applyForwards_inv [OF inv] by (cases "applyForwards env fails raw w") auto
  next
    case (RestoreRules env)
    then show ?thesis using restoreForwards_inv [OF inv] by (cases "restoreForwards env w") auto
  next
    case CloseManager
    then show ?thesis using close_manager_inv [OF inv] by simp
  next
    case NewManager
    then show ?thesis by (simp add: newForwardManager_def forward_inv_def managed_ok_def)
  qed
qed

interpretation forwards: machine forward_step forward_inv
  by unfold_locales (rule forward_step_inv)

lemma served_addresses:
  assumes "forward_inv w" "serves w rules"
  shows "set (held_addresses w) = (\<lambda>r. (fwd_Protocol r, fwd_Listen r)) ` set rules"
proof -
  have man: "managed_ok (pf_heap w) (pf_managed w)" using assms(1) by (simp add: forward_inv_def)
  have sock: "fl_socket f = (fwd_Protocol (fl_rule f), fwd_Listen (fl_rule f))" if "f \<in> set (pf_heap w)" for f
    using that assms(1) by (simp add: forward_inv_def listener_ok_def)
  have "{f \<in> set (pf_heap w). \<not> fl_stopped f} = (\<lambda>ip. pf_heap w ! snd ip) ` set (pf_managed w)"
  proof (intro set_eqI iffI)
    fix f assume "f \<in> {f \<in> set (pf_heap w). \<not> fl_stopped f}"
    then obtain p where p: "p < length (pf_heap w)" "f = pf_heap w ! p" "\<not> fl_stopped (pf_heap w ! p)" by (auto simp: in_set_conv_nth)
    then have "p \<in> snd ` set (pf_managed w)" using man by (simp add: managed_ok_def)
    then show "f \<in> (\<lambda>ip. pf_heap w ! snd ip) ` set (pf_managed w)" using p(2) by auto
  next
    fix f assume "f \<in> (\<lambda>ip. pf_heap w ! snd ip) ` set (pf_managed w)"
    then show "f \<in> {f \<in> set (pf_heap w). \<not> fl_stopped f}" using man by (auto simp: managed_ok_def)
  qed
  then have "set (held_addresses w) = fl_socket ` (\<lambda>ip. pf_heap w ! snd ip) ` set (pf_managed w)" by (simp add: held_addresses_def)
  also have "\<dots> = (\<lambda>f. (fwd_Protocol (fl_rule f), fwd_Listen (fl_rule f))) ` (\<lambda>ip. pf_heap w ! snd ip) ` set (pf_managed w)"
    by (rule image_cong [OF refl]) (use man sock in \<open>auto simp: managed_ok_def\<close>)
  also have "\<dots> = (\<lambda>r. (fwd_Protocol r, fwd_Listen r)) ` (\<lambda>ip. fl_rule (pf_heap w ! snd ip)) ` set (pf_managed w)" by (simp add: image_image)
  also have "(\<lambda>ip. fl_rule (pf_heap w ! snd ip)) ` set (pf_managed w) = set rules"
    using assms(2) by (auto simp: serves_def simp flip: set_map)
  finally show ?thesis .
qed

lemma apply_rules_file:
  assumes "apply_rules env rules (Some (write_forwards fails rules)) w = (Inr u, w')"
  shows "pf_file w' = ForwardsText (Some (JArr (map encode_rule rules)))"
proof -
  obtain r created w1 where o: "open_rules env rules [] [] w = (r, created, w1)" by (metis prod_cases3)
  obtain nxt where r: "r = Inr nxt" using assms o by (cases r) (simp_all add: apply_rules_def)
  have "\<not> fails" using assms o r by (auto simp: apply_rules_def write_forwards_def)
  then show ?thesis
    using assms o r by (auto simp: apply_rules_def write_forwards_def Let_def close_all_eq set_rules_eq on_all_frame)
qed

section \<open>Properties\<close>

text \<open>C23: A set of forwards is applied as a whole: after a successful \<open>applyForwards\<close> the listeners that are
  open are exactly those of the rules, each with its rule, on the addresses the rules name, and
  exactly these rules are on disk.\<close>
theorem forwards_match_rules:
  assumes "forward_inv w" and "applyForwards env fails raw w = (Inr items, w')"
  shows "\<exists>rules. decodeForwardRules (literal env) raw = Inr rules \<and> serves w' rules \<and>
    set (held_addresses w') = (\<lambda>r. (fwd_Protocol r, fwd_Listen r)) ` set rules \<and>
    pf_file w' = ForwardsText (Some (JArr (map encode_rule rules)))"
proof -
  obtain rules where rules: "decodeForwardRules (literal env) raw = Inr rules"
    using assms(2) by (cases "decodeForwardRules (literal env) raw") (simp_all add: applyForwards_def)
  obtain q where q: "apply_rules env rules (Some (write_forwards fails rules)) w = (q, w')"
    using assms(2) rules by (auto simp: applyForwards_def split: prod.splits sum.splits)
  then have ok: "q = Inr ()" using assms(2) rules by (cases q) (auto simp: applyForwards_def)
  note spec = apply_rules_ok [OF q [unfolded ok] assms(1) decodeForwardRules_spec(2) [OF rules] write_forwards_writer]
  have "set (held_addresses w') = (\<lambda>r. (fwd_Protocol r, fwd_Listen r)) ` set rules"
    using spec by (intro served_addresses) simp_all
  moreover have "pf_file w' = ForwardsText (Some (JArr (map encode_rule rules)))"
    using apply_rules_file [OF q [unfolded ok]] .
  ultimately show ?thesis using rules spec by blast
qed

text \<open>A set of forwards that cannot be applied changes nothing: when \<open>applyForwards\<close> fails (a bad rule, an
  address in use, a file that cannot be written), every listener that was there is untouched, the
  managed listeners, the open addresses and the file are the old ones, and what was opened meanwhile is
  closed and unused.\<close>
theorem failed_forwards_change_nothing:
  assumes "forward_inv w" and "applyForwards env fails raw w = (Inl e, w')"
  shows "take (length (pf_heap w)) (pf_heap w') = pf_heap w \<and> list_all left_over (drop (length (pf_heap w)) (pf_heap w')) \<and>
    pf_managed w' = pf_managed w \<and> held_addresses w' = held_addresses w \<and> pf_file w' = pf_file w"
proof -
  have "undone_from w w'"
  proof (cases "decodeForwardRules (literal env) raw")
    case (Inl x)
    then show ?thesis using assms(2) by (auto simp: applyForwards_def undone_from_def)
  next
    case (Inr rules)
    then have "apply_rules env rules (Some (write_forwards fails rules)) w = (Inl e, w')"
      using assms(2) by (auto simp: applyForwards_def split: prod.splits sum.splits)
    then show ?thesis by (rule apply_rules_failed [OF _ assms(1) decodeForwardRules_spec(2) [OF Inr] write_forwards_writer])
  qed
  then obtain left where "pf_heap w' = pf_heap w @ left" "list_all left_over left" "pf_managed w' = pf_managed w" "pf_file w' = pf_file w"
    by (auto simp: undone_from_def)
  moreover from this have "filter (\<lambda>f. \<not> fl_stopped f) left = []" by (auto simp: filter_empty_conv list_all_iff left_over_def)
  ultimately show ?thesis by (simp add: held_addresses_def)
qed

text \<open>C24: Over any run of the forwards (connections and datagrams of clients, answers, errors, changes of the
  rules, restarts) a listener has at most 1024 UDP sessions and 8192 TCP sockets, every UDP session
  goes to the target of the current rule and has a goroutine that ends it, and all sockets of
  a stopped listener are closed.\<close>
theorem forward_limits:
  assumes "forward_inv w" and "f \<in> set (pf_heap (foldl forward_step w es))"
  shows "length (fl_sessions f) \<le> 1024 \<and> card (fl_connections f) \<le> 8192 \<and>
    (\<forall>key c t. (key, c, t) \<in> set (fl_sessions f) \<longrightarrow> t = fwd_Target (fl_rule f) \<and> (key, c) \<in> set (fl_readers f)) \<and>
    (fl_stopped f \<longrightarrow> fl_connections f \<union> session_sockets f \<subseteq> pf_closed (foldl forward_step w es))"
proof -
  let ?w = "foldl forward_step w es"
  have ok: "listener_ok (pf_sockets ?w) (pf_closed ?w) f"
    using forwards.run_inv [OF assms(1)] assms(2) by (simp add: forward_inv_def)
  have "card (fl_connections f) \<le> length (all_ids (fl_pipes f))" using ok card_length by (simp add: listener_ok_def)
  also have "\<dots> \<le> 8192" using length_ids(2) [of "fl_pipes f"] ok by (simp add: listener_ok_def)
  finally show ?thesis using ok by (auto simp: listener_ok_def)
qed

text \<open>A system that opens every address that is not in use, and has random numbers.\<close>

definition opens :: "forward_env \<Rightarrow> bool" where
  "opens env \<longleftrightarrow> (\<forall>n. identity env n \<noteq> None) \<and> (\<forall>used a. a \<notin> set used \<longrightarrow> can_open env used a)"

lemma open_rules_succeeds:
  assumes "opens env" "pf_managed w = []" "distinct (map (\<lambda>r. (fwd_Protocol r, fwd_Listen r)) rules)"
    "set (held_addresses w) \<inter> (\<lambda>r. (fwd_Protocol r, fwd_Listen r)) ` set rules = {}"
  shows "\<exists>nxt' created' w1. open_rules env rules nxt created w = (Inr nxt', created', w1)"
  using assms
proof (induction rules arbitrary: nxt created w)
  case (Cons rule rules)
  obtain q w1 where c: "createForward env rule w = (q, w1)" by fastforce
  obtain b where b: "identity env (length (pf_heap w)) = Some b" using Cons.prems(1) unfolding opens_def by blast
  have "can_open env (held_addresses w) (fwd_Protocol rule, fwd_Listen rule)" using Cons.prems by (auto simp: opens_def)
  then have q: "is_ok q" "held_addresses w1 = held_addresses w @ [(fwd_Protocol rule, fwd_Listen rule)]" "pf_managed w1 = []"
    using c b Cons.prems(2) by (auto simp: createForward_def held_addresses_def)
  have "set (held_addresses w1) \<inter> (\<lambda>r. (fwd_Protocol r, fwd_Listen r)) ` set rules = {}"
    using Cons.prems(3,4) q(2) by (auto simp: image_iff)
  then show ?case using Cons.IH [OF Cons.prems(1) q(3)] Cons.prems(2,3) q(1) c by (cases q) (simp_all add: Let_def)
qed simp

text \<open>Forwards survive a restart: after a successful \<open>applyForwards\<close>, and as long as the file is not changed,
  a new process that restores them serves exactly the same rules, if the system lets it open
  addresses that are not in use.\<close>
theorem forwards_survive_restart:
  assumes "forward_inv w" and "applyForwards env fails raw w = (Inr items, w1)" and "decodeForwardRules (literal env) raw = Inr rules"
    and "pf_file w2 = pf_file w1" and "opens env'" and "literal env' = literal env"
  shows "\<exists>w3. restoreForwards env' (newForwardManager w2) = (Inr (), w3) \<and> serves w3 rules \<and> forward_inv w3"
proof -
  have saved: "pf_file w2 = ForwardsText (Some (JArr (map encode_rule rules)))"
    using assms(2-4) apply_rules_file [of env rules fails w _ w1] by (auto simp: applyForwards_def split: prod.splits sum.splits)
  let ?w = "newForwardManager w2"
  have inv: "forward_inv ?w" by (simp add: newForwardManager_def forward_inv_def managed_ok_def)
  note spec = decodeForwardRules_spec [OF assms(3)]
  have new: "pf_managed ?w = []" "held_addresses ?w = []" by (simp_all add: newForwardManager_def held_addresses_def)
  obtain nxt created w1' where "open_rules env' rules [] [] ?w = (Inr nxt, created, w1')"
    using open_rules_succeeds [OF assms(5) new(1) spec(3), of "[]" "[]"] new(2) by auto
  then obtain w3 where a: "apply_rules env' rules None ?w = (Inr (), w3)" by (auto simp: apply_rules_def Let_def)
  moreover have "restoreForwards env' ?w = apply_rules env' rules None ?w"
    using saved spec(1) assms(6) by (simp add: restoreForwards_def newForwardManager_def)
  moreover have "file_writer None" by (simp add: file_writer_def)
  ultimately show ?thesis using apply_rules_ok [OF a inv spec(2)] by auto
qed

section \<open>Samples\<close>

definition forwards_sample :: forward_world where
  "forwards_sample = \<lparr>pf_heap = [], pf_managed = [], pf_sockets = 0, pf_closed = {}, pf_file = NoForwards\<rparr>"

definition rules_sample :: json where
  "rules_sample = JArr [encode_rule \<lparr>fwd_ID = ''a'', fwd_Protocol = ''udp'', fwd_Listen = ''0.0.0.0:53'', fwd_Target = ''ns:53'',
     fwd_UDPIdleSeconds = 30\<rparr>]"

definition ports_sample :: forward_env where
  "ports_sample = \<lparr>literal = (\<lambda>h. h = ''0.0.0.0''), can_open = (\<lambda>used a. a \<notin> set used), identity = (\<lambda>_. Some [1])\<rparr>"

definition rule_udp :: forward_rule where
  "rule_udp = \<lparr>fwd_ID = ''a'', fwd_Protocol = ''udp'', fwd_Listen = ''0.0.0.0:53'', fwd_Target = ''ns:53'', fwd_UDPIdleSeconds = 30\<rparr>"

lemma rules_sample_decoded: "decodeForwardRules (literal ports_sample) rules_sample = Inr [rule_udp]"
proof -
  have "check_forwards (literal ports_sample) [] [] [rule_udp] = Inr [rule_udp]" by code_simp
  then show ?thesis
    using decode_encode_rule [of rule_udp] by (simp add: decodeForwardRules_def rules_sample_def rule_udp_def)
qed

lemma forwards_sample_inv: "forward_inv forwards_sample"
  by (simp add: forward_inv_def managed_ok_def forwards_sample_def)

lemma ports_sample_opens: "opens ports_sample"
  by (simp add: opens_def ports_sample_def)

lemma forwards_sample_applied: "\<exists>items w'. applyForwards ports_sample False rules_sample forwards_sample = (Inr items, w')"
proof -
  have "pf_managed forwards_sample = []" "held_addresses forwards_sample = []" by (simp_all add: forwards_sample_def held_addresses_def)
  then obtain nxt created w1 where "open_rules ports_sample [rule_udp] [] [] forwards_sample = (Inr nxt, created, w1)"
    using open_rules_succeeds [OF ports_sample_opens, of forwards_sample "[rule_udp]" "[]" "[]"] by auto
  then show ?thesis
    using rules_sample_decoded by (simp add: applyForwards_def apply_rules_def write_forwards_def Let_def)
qed

theorem forwards_match_rules_witness:
  "\<exists>items w'. applyForwards ports_sample False rules_sample forwards_sample = (Inr items, w') \<and>
     serves w' [rule_udp] \<and> set (held_addresses w') = {(''udp'', ''0.0.0.0:53'')}"
proof -
  obtain items w' where a: "applyForwards ports_sample False rules_sample forwards_sample = (Inr items, w')"
    using forwards_sample_applied by blast
  then show ?thesis
    using forwards_match_rules [OF forwards_sample_inv a] rules_sample_decoded by (auto simp: rule_udp_def)
qed

theorem failed_forwards_change_nothing_witness:
  "\<exists>e w'. applyForwards ports_sample True rules_sample forwards_sample = (Inl e, w') \<and> held_addresses w' = [] \<and>
     list_all left_over (pf_heap w') \<and> pf_file w' = NoForwards"
proof -
  obtain q w' where a: "applyForwards ports_sample True rules_sample forwards_sample = (q, w')" by fastforce
  have "\<not> is_ok q"
    using a by (auto simp: applyForwards_def apply_rules_def write_forwards_def Let_def split: sum.splits prod.splits)
  then obtain e where e: "q = Inl e" by (cases q) auto
  have "held_addresses forwards_sample = []" "pf_heap forwards_sample = []" "pf_file forwards_sample = NoForwards"
    by (simp_all add: held_addresses_def forwards_sample_def)
  then show ?thesis using failed_forwards_change_nothing [OF forwards_sample_inv a [unfolded e]] a e by auto
qed

theorem forward_limits_witness:
  "\<exists>f \<in> set (pf_heap (foldl forward_step forwards_sample [ApplyRules ports_sample False rules_sample])).
     length (fl_sessions f) \<le> 1024 \<and> card (fl_connections f) \<le> 8192"
proof -
  obtain items w' where a: "applyForwards ports_sample False rules_sample forwards_sample = (Inr items, w')"
    using forwards_sample_applied by blast
  have inv: "forward_inv w'" by (rule applyForwards_inv [OF forwards_sample_inv a])
  have "serves w' [rule_udp]"
    using a rules_sample_decoded apply_rules_ok [OF _ forwards_sample_inv decodeForwardRules_spec(2) [OF rules_sample_decoded] write_forwards_writer]
    by (auto simp: applyForwards_def split: sum.splits prod.splits)
  then obtain ip where "pf_managed w' = [ip]" by (auto simp: serves_def)
  then have "(fst ip, snd ip) \<in> set (pf_managed w')" by simp
  then have "snd ip < length (pf_heap w')" using inv unfolding forward_inv_def managed_ok_def by blast
  moreover have "foldl forward_step forwards_sample [ApplyRules ports_sample False rules_sample] = w'" using a by simp
  ultimately show ?thesis using forward_limits [OF forwards_sample_inv] nth_mem by metis
qed

theorem forwards_survive_restart_witness:
  "\<exists>items w1 w3. applyForwards ports_sample False rules_sample forwards_sample = (Inr items, w1) \<and>
     restoreForwards ports_sample (newForwardManager w1) = (Inr (), w3) \<and> serves w3 [rule_udp]"
proof -
  obtain items w1 where a: "applyForwards ports_sample False rules_sample forwards_sample = (Inr items, w1)"
    using forwards_sample_applied by blast
  then show ?thesis
    using forwards_survive_restart [OF forwards_sample_inv a rules_sample_decoded refl ports_sample_opens refl] by blast
qed

end
