(* ===== verification/Tunnels.thy ===== *)
theory Tunnels
  imports Port_Forwards
begin

text \<open>
  WireGuard tunnels (\<^verbatim>\<open>internal/runtime/wireguard.go\<close>): the decoding of a tunnel, its configuration text, and the
  operations that bring interfaces up and down through \<open>wg\<close>, \<open>wg-quick\<close> and \<open>ip\<close>. Those
  programs are a parameter that answers a command from the state \<open>'k\<close> of the system; every command that
  is run is logged, with the configuration file it was given. A configuration file and a state file
  belong to a tunnel ID. Writes and removals of files take their faults from a list.
\<close>

section \<open>Tunnels as data\<close>

record wg_peer =
  wp_PublicKey :: string
  wp_PresharedKey :: string
  wp_Endpoint :: string
  wp_AllowedIPs :: "string list"
  wp_PersistentKeepalive :: int

record wg_spec =
  ws_ID :: string
  ws_PrivateKey :: string
  ws_Addresses :: "string list"
  ws_ListenPort :: int
  ws_MTU :: int
  ws_RouteTable :: int
  ws_Peers :: "wg_peer list"

record wg_state =
  wst_Config :: wg_spec
  wst_Enabled :: bool
  wst_WARP :: bool

datatype tunnel_error = TunnelJson | TunnelIdentity | TunnelSize | TunnelAddress | TunnelPort | TunnelMTU | TunnelTable | PeerKey
  | PeerEndpoint forward_error | PeerKeepalive | PeerAddresses | PeerCIDR | TunnelRead | KindChanged | CommandFailed | ForeignInterface
  | VerifyFailed | IdentityDiffers | DownFailed | UpFailed | TunnelWrite | TunnelRemove | TunnelID

definition wgKey :: "string \<Rightarrow> bool" where
  "wgKey s = (case std_decode s of None \<Rightarrow> False | Some b \<Rightarrow> length b = 32 \<and> list_ex (\<lambda>v. v \<noteq> 0) b)"

text \<open>\<open>json.Unmarshal\<close> into the struct: a missing or null field has its zero value.\<close>

definition strings_field :: "jmap \<Rightarrow> string \<Rightarrow> string list option" where
  "strings_field kvs k = (case get_any kvs k of
      JNull \<Rightarrow> Some []
    | JArr vs \<Rightarrow> traverse_opt (\<lambda>v. case v of JNull \<Rightarrow> Some [] | JStr s \<Rightarrow> Some s | _ \<Rightarrow> None) vs
    | _ \<Rightarrow> None)"

definition decode_peer :: "json \<Rightarrow> wg_peer option" where
  "decode_peer v =
     (case as_object (Some v) of
        None \<Rightarrow> None
      | Some kvs \<Rightarrow>
          (case (str_field kvs ''public_key'', str_field kvs ''preshared_key'', str_field kvs ''endpoint'',
              strings_field kvs ''allowed_ips'', int_field kvs ''persistent_keepalive'') of
             (Some pk, Some psk, Some ep, Some ips, Some ka) \<Rightarrow>
               Some \<lparr>wp_PublicKey = pk, wp_PresharedKey = psk, wp_Endpoint = ep, wp_AllowedIPs = ips, wp_PersistentKeepalive = ka\<rparr>
           | _ \<Rightarrow> None))"

definition decode_peers :: "jmap \<Rightarrow> wg_peer list option" where
  "decode_peers kvs = (case get_any kvs ''peers'' of
      JNull \<Rightarrow> Some [] | JArr vs \<Rightarrow> traverse_opt decode_peer vs | _ \<Rightarrow> None)"

definition decode_spec :: "jmap \<Rightarrow> wg_spec option" where
  "decode_spec kvs =
     (case (str_field kvs ''id'', str_field kvs ''private_key'', strings_field kvs ''addresses'', decode_peers kvs) of
        (Some i, Some pk, Some addrs, Some peers) \<Rightarrow>
          (case (int_field kvs ''listen_port'', int_field kvs ''mtu'', int_field kvs ''route_table'') of
             (Some port, Some mtu, Some table) \<Rightarrow>
               Some \<lparr>ws_ID = i, ws_PrivateKey = pk, ws_Addresses = addrs, ws_ListenPort = port, ws_MTU = mtu,
                 ws_RouteTable = table, ws_Peers = peers\<rparr>
           | _ \<Rightarrow> None)
      | _ \<Rightarrow> None)"

fun check_peers :: "(string \<Rightarrow> bool) \<Rightarrow> string list \<Rightarrow> wg_peer list \<Rightarrow> (tunnel_error, unit) res" where
  "check_peers prefix_ok seen [] = Inr ()"
| "check_peers prefix_ok seen (p # ps) =
     guard_res (\<not> wgKey (wp_PublicKey p) \<or> wp_PublicKey p \<in> set seen \<or> wp_PresharedKey p \<noteq> [] \<and> \<not> wgKey (wp_PresharedKey p)) PeerKey (
     case validNetworkAddress (\<lambda>_. False) (wp_Endpoint p) False of
       Inl e \<Rightarrow> Inl (PeerEndpoint e)
     | Inr _ \<Rightarrow>
         guard_res (wp_PersistentKeepalive p < 0 \<or> wp_PersistentKeepalive p > 65535) PeerKeepalive (
         guard_res (wp_AllowedIPs p = [] \<or> length (wp_AllowedIPs p) > 256) PeerAddresses (
         guard_res (\<not> list_all prefix_ok (wp_AllowedIPs p)) PeerCIDR (
         check_peers prefix_ok (wp_PublicKey p # seen) ps))))"

definition check_spec :: "(string \<Rightarrow> bool) \<Rightarrow> wg_spec \<Rightarrow> (tunnel_error, wg_spec) res" where
  "check_spec prefix_ok c0 =
     guard_res (\<not> safeName (ws_ID c0) \<or> \<not> wgKey (ws_PrivateKey c0)) TunnelIdentity (
     guard_res (ws_Addresses c0 = [] \<or> length (ws_Addresses c0) > 8 \<or> ws_Peers c0 = [] \<or> length (ws_Peers c0) > 64) TunnelSize (
     guard_res (\<not> list_all prefix_ok (ws_Addresses c0)) TunnelAddress (
     guard_res (ws_ListenPort c0 < 0 \<or> ws_ListenPort c0 > 65535) TunnelPort (
     let mtu = (if ws_MTU c0 = 0 then 1420 else ws_MTU c0) in
     guard_res (mtu < 1280 \<or> mtu > 9000) TunnelMTU (
     let table = (if ws_RouteTable c0 = 0 then 51820 else ws_RouteTable c0) in
     guard_res (table < 10000 \<or> table > 2147483647) TunnelTable (
     bind_res (check_peers prefix_ok [] (ws_Peers c0)) (\<lambda>_. Inr (c0\<lparr>ws_MTU := mtu, ws_RouteTable := table\<rparr>))))))))"

definition decodeWireGuard :: "(string \<Rightarrow> bool) \<Rightarrow> jmap \<Rightarrow> (tunnel_error, wg_spec) res" where
  "decodeWireGuard prefix_ok raw = bind_res (of_option TunnelJson (decode_spec raw)) (check_spec prefix_ok)"

text \<open>The configuration that \<open>wg-quick\<close> reads.\<close>

definition comma_list :: "string list \<Rightarrow> string" where
  "comma_list ws = (case ws of [] \<Rightarrow> [] | v # vs \<Rightarrow> v @ concat (map (\<lambda>u. '', '' @ u) vs))"

definition peer_lines :: "wg_peer \<Rightarrow> string list" where
  "peer_lines p =
     [[], ''[Peer]'', ''PublicKey = '' @ wp_PublicKey p, ''Endpoint = '' @ wp_Endpoint p,
      ''AllowedIPs = '' @ comma_list (wp_AllowedIPs p), ''PersistentKeepalive = '' @ itoa (wp_PersistentKeepalive p)] @
     (if wp_PresharedKey p = [] then [] else [''PresharedKey = '' @ wp_PresharedKey p])"

definition config_lines :: "wg_spec \<Rightarrow> string list" where
  "config_lines c =
     [''[Interface]'', ''PrivateKey = '' @ ws_PrivateKey c, ''Address = '' @ comma_list (ws_Addresses c),
      ''MTU = '' @ itoa (ws_MTU c), ''Table = '' @ itoa (ws_RouteTable c)] @
     (if ws_ListenPort c > 0 then [''ListenPort = '' @ itoa (ws_ListenPort c)] else []) @
     concat (map peer_lines (ws_Peers c))"

definition wgConfig :: "wg_spec \<Rightarrow> string" where
  "wgConfig c = concat (map (\<lambda>l. l @ [newline]) (config_lines c))"

section \<open>The system\<close>

datatype net_command = ShowInterfaces | ShowField string string | QuickUp string | QuickDown string | LinkShow string

datatype conf_file = ConfText string | UnreadableConf

datatype tunnel_state_file = StateText "wg_state option" | EmptyState | UnreadableState

record 'k tunnel_world =
  tw_conf :: "string \<Rightarrow> conf_file option"
  tw_state :: "string \<Rightarrow> tunnel_state_file option"
  tw_dirs :: "(string \<times> bool) list"
  tw_listing :: bool
  tw_kernel :: 'k
  tw_log :: "(net_command \<times> string option) list"
  tw_faults :: "bool list"

record 'k tunnel_env =
  prefix_text :: "string \<Rightarrow> bool"
  te_sha256 :: "bytes \<Rightarrow> bytes"
  te_public :: "bytes \<Rightarrow> bytes"
  te_linux :: bool
  run_net :: "net_command \<Rightarrow> string option \<Rightarrow> 'k \<Rightarrow> string option \<times> 'k"

definition wgInterface :: "'k tunnel_env \<Rightarrow> string \<Rightarrow> string" where
  "wgInterface env i = ''asw'' @ take 11 (hex_encode (te_sha256 env (bytes_of i)))"

definition tunnel_fault :: "'k tunnel_world \<Rightarrow> bool \<times> 'k tunnel_world" where
  "tunnel_fault w = (case tw_faults w of [] \<Rightarrow> (False, w) | f # fs \<Rightarrow> (f, w\<lparr>tw_faults := fs\<rparr>))"

definition networkExec :: "'k tunnel_env \<Rightarrow> net_command \<Rightarrow> string option \<Rightarrow> 'k tunnel_world \<Rightarrow> string option \<times> 'k tunnel_world" where
  "networkExec env cmd conf w =
     (if \<not> te_linux env then (None, w)
      else case run_net env cmd conf (tw_kernel w) of (out, k) \<Rightarrow> (out, w\<lparr>tw_kernel := k, tw_log := tw_log w @ [(cmd, conf)]\<rparr>))"

definition conf_text :: "string \<Rightarrow> 'k tunnel_world \<Rightarrow> string option" where
  "conf_text i w = (case tw_conf w i of Some (ConfText t) \<Rightarrow> Some t | _ \<Rightarrow> None)"

definition wgQuick :: "'k tunnel_env \<Rightarrow> (string \<Rightarrow> net_command) \<Rightarrow> string \<Rightarrow> 'k tunnel_world \<Rightarrow> bool \<times> 'k tunnel_world" where
  "wgQuick env cmd i w = (case networkExec env (cmd i) (conf_text i w) w of (out, w1) \<Rightarrow> (out \<noteq> None, w1))"

text \<open>\<open>strings.Fields\<close>.\<close>

fun fields_acc :: "string \<Rightarrow> string \<Rightarrow> string list" where
  "fields_acc acc [] = (if acc = [] then [] else [rev acc])"
| "fields_acc acc (c # cs) =
     (if is_space c then (if acc = [] then fields_acc [] cs else rev acc # fields_acc [] cs) else fields_acc (c # acc) cs)"

definition Fields :: "string \<Rightarrow> string list" where
  "Fields s = fields_acc [] s"

definition wgExists :: "'k tunnel_env \<Rightarrow> string \<Rightarrow> 'k tunnel_world \<Rightarrow> bool option \<times> 'k tunnel_world" where
  "wgExists env name w =
     (case networkExec env ShowInterfaces None w of (out, w1) \<Rightarrow> (map_option (\<lambda>t. name \<in> set (Fields t)) out, w1))"

text \<open>Padded standard base64, and the public key of a configuration (none for a key that is not 32 bytes).\<close>

definition url_to_std :: "char \<Rightarrow> char" where
  "url_to_std c = (if c = CHR ''-'' then CHR ''+'' else if c = CHR ''_'' then CHR ''/'' else c)"

definition std_encode :: "bytes \<Rightarrow> string" where
  "std_encode b = (let t = map url_to_std (b64_encode b) in t @ replicate ((4 - length t mod 4) mod 4) (CHR ''=''))"

definition wgExpectedPublic :: "'k tunnel_env \<Rightarrow> wg_spec \<Rightarrow> string" where
  "wgExpectedPublic env c =
     (case std_decode (ws_PrivateKey c) of
        None \<Rightarrow> []
      | Some b \<Rightarrow> if length b \<noteq> 32 then [] else std_encode (te_public env b))"

definition verifyWireGuard :: "'k tunnel_env \<Rightarrow> wg_spec \<Rightarrow> 'k tunnel_world \<Rightarrow> (tunnel_error, unit) res \<times> 'k tunnel_world" where
  "verifyWireGuard env c w =
     (case networkExec env (ShowField (wgInterface env (ws_ID c)) ''public-key'') None w of
        (None, w1) \<Rightarrow> (Inl VerifyFailed, w1)
      | (Some t, w1) \<Rightarrow> if trim_space t \<noteq> wgExpectedPublic env c then (Inl IdentityDiffers, w1) else (Inr (), w1))"

text \<open>The entries of the directory are sorted; a flag says which are directories.\<close>

definition add_dir :: "string \<Rightarrow> (string \<times> bool) list \<Rightarrow> (string \<times> bool) list" where
  "add_dir i dirs = (if i \<in> fst ` set dirs then dirs else put_key i True dirs)"

definition write_conf :: "string \<Rightarrow> string \<Rightarrow> 'k tunnel_world \<Rightarrow> bool \<times> 'k tunnel_world" where
  "write_conf i t w = (case tunnel_fault w of (failed, w1) \<Rightarrow>
     if failed then (False, w1) else (True, w1\<lparr>tw_conf := (tw_conf w1)(i \<mapsto> ConfText t), tw_dirs := add_dir i (tw_dirs w1)\<rparr>))"

definition write_tunnel_state :: "string \<Rightarrow> wg_state \<Rightarrow> 'k tunnel_world \<Rightarrow> bool \<times> 'k tunnel_world" where
  "write_tunnel_state i st w = (case tunnel_fault w of (failed, w1) \<Rightarrow>
     if failed then (False, w1) else (True, w1\<lparr>tw_state := (tw_state w1)(i \<mapsto> StateText (Some st)), tw_dirs := add_dir i (tw_dirs w1)\<rparr>))"

definition remove_conf :: "string \<Rightarrow> 'k tunnel_world \<Rightarrow> bool \<times> 'k tunnel_world" where
  "remove_conf i w = (if tw_conf w i = None then (True, w)
     else case tunnel_fault w of (failed, w1) \<Rightarrow> if failed then (False, w1) else (True, w1\<lparr>tw_conf := (tw_conf w1)(i := None)\<rparr>))"

section \<open>Operations\<close>

text \<open>The report of an undone change: whether everything was undone, and whether the old interface is back.\<close>

record rollback_report =
  rr_clean :: bool
  rr_restored :: bool

definition undo_interface :: "'k tunnel_env \<Rightarrow> string \<Rightarrow> 'k tunnel_world \<Rightarrow> bool \<times> 'k tunnel_world" where
  "undo_interface env i w =
     (case wgExists env (wgInterface env i) w of
        (None, w1) \<Rightarrow> (False, w1)
      | (Some up, w1) \<Rightarrow> if up then wgQuick env QuickDown i w1 else (True, w1))"

definition undo_conf :: "string \<Rightarrow> string option \<Rightarrow> 'k tunnel_world \<Rightarrow> bool \<times> 'k tunnel_world" where
  "undo_conf i oldConfig w = (case oldConfig of
      Some (c # cs) \<Rightarrow> write_conf i (c # cs) w
    | _ \<Rightarrow> remove_conf i w)"

definition undo_up :: "'k tunnel_env \<Rightarrow> string \<Rightarrow> wg_spec \<Rightarrow> 'k tunnel_world \<Rightarrow> bool \<times> 'k tunnel_world" where
  "undo_up env i old w =
     (case wgQuick env QuickUp i w of
        (False, w1) \<Rightarrow> (False, w1)
      | (True, w1) \<Rightarrow> (case verifyWireGuard env old w1 of (q, w2) \<Rightarrow> (is_ok q, w2)))"

definition rollback_tunnel ::
  "'k tunnel_env \<Rightarrow> string \<Rightarrow> string option \<Rightarrow> bool \<Rightarrow> wg_spec \<Rightarrow> 'k tunnel_world \<Rightarrow> rollback_report \<times> 'k tunnel_world" where
  "rollback_tunnel env i oldConfig exists old w =
     (case undo_interface env i w of (c1, w1) \<Rightarrow>
        case undo_conf i oldConfig w1 of (c2, w2) \<Rightarrow>
          case (if exists \<and> c1 \<and> c2 then undo_up env i old w2 else (c1 \<and> c2, w2)) of (c3, w3) \<Rightarrow>
            (\<lparr>rr_clean = c3, rr_restored = (exists \<and> c3)\<rparr>, w3))"

definition old_state :: "bool \<Rightarrow> string \<Rightarrow> 'k tunnel_world \<Rightarrow> (tunnel_error, wg_state option) res" where
  "old_state warp i w =
     (case tw_state w i of
        None \<Rightarrow> Inr None
      | Some EmptyState \<Rightarrow> Inr None
      | Some UnreadableState \<Rightarrow> Inl TunnelRead
      | Some (StateText None) \<Rightarrow> Inl TunnelJson
      | Some (StateText (Some st)) \<Rightarrow> if wst_WARP st \<noteq> warp then Inl KindChanged else Inr (Some st))"

text \<open>The checks before anything changes: an interface of that name must be ours.\<close>

definition own_interface ::
  "'k tunnel_env \<Rightarrow> string \<Rightarrow> wg_state option \<Rightarrow> 'k tunnel_world \<Rightarrow> (tunnel_error, bool) res \<times> 'k tunnel_world" where
  "own_interface env i old w =
     (case wgExists env (wgInterface env i) w of
        (None, w1) \<Rightarrow> (Inl CommandFailed, w1)
      | (Some False, w1) \<Rightarrow> (Inr False, w1)
      | (Some True, w1) \<Rightarrow>
          (case old of
             None \<Rightarrow> (Inl ForeignInterface, w1)
           | Some st \<Rightarrow>
               (case verifyWireGuard env (wst_Config st) w1 of
                  (Inl e, w2) \<Rightarrow> (Inl e, w2)
                | (Inr _, w2) \<Rightarrow> (Inr True, w2))))"

definition replace_tunnel ::
  "'k tunnel_env \<Rightarrow> wg_spec \<Rightarrow> bool \<Rightarrow> 'k tunnel_world \<Rightarrow> (tunnel_error, unit) res \<times> 'k tunnel_world" where
  "replace_tunnel env c warp w =
     (case write_conf (ws_ID c) (wgConfig c) w of
        (False, w1) \<Rightarrow> (Inl TunnelWrite, w1)
      | (True, w1) \<Rightarrow>
          (case wgQuick env QuickUp (ws_ID c) w1 of
             (False, w2) \<Rightarrow> (Inl UpFailed, w2)
           | (True, w2) \<Rightarrow>
               (case verifyWireGuard env c w2 of
                  (Inl e, w3) \<Rightarrow> (Inl e, w3)
                | (Inr _, w3) \<Rightarrow>
                    (case write_tunnel_state (ws_ID c) \<lparr>wst_Config = c, wst_Enabled = True, wst_WARP = warp\<rparr> w3 of
                       (False, w4) \<Rightarrow> (Inl TunnelWrite, w4)
                     | (True, w4) \<Rightarrow> (Inr (), w4)))))"

definition blank_spec :: wg_spec where
  "blank_spec = \<lparr>ws_ID = [], ws_PrivateKey = [], ws_Addresses = [], ws_ListenPort = 0, ws_MTU = 0, ws_RouteTable = 0, ws_Peers = []\<rparr>"

definition applyWireGuard ::
  "'k tunnel_env \<Rightarrow> jmap \<Rightarrow> bool \<Rightarrow> 'k tunnel_world \<Rightarrow> (tunnel_error \<times> rollback_report option, wg_spec) res \<times> 'k tunnel_world" where
  "applyWireGuard env p warp w =
     (case decodeWireGuard (prefix_text env) p of
        Inl e \<Rightarrow> (Inl (e, None), w)
      | Inr c \<Rightarrow>
          (case old_state warp (ws_ID c) w of
             Inl e \<Rightarrow> (Inl (e, None), w)
           | Inr old \<Rightarrow>
               (case own_interface env (ws_ID c) old w of
                  (Inl e, w1) \<Rightarrow> (Inl (e, None), w1)
                | (Inr exists, w1) \<Rightarrow>
                    if tw_conf w1 (ws_ID c) = Some UnreadableConf then (Inl (TunnelRead, None), w1)
                    else let oldConfig = conf_text (ws_ID c) w1 in
                      (case (if exists then wgQuick env QuickDown (ws_ID c) w1 else (True, w1)) of
                         (False, w2) \<Rightarrow> (Inl (DownFailed, None), w2)
                       | (True, w2) \<Rightarrow>
                           (case replace_tunnel env c warp w2 of
                              (Inr _, w3) \<Rightarrow> (Inr c, w3)
                            | (Inl e, w3) \<Rightarrow>
                                (case rollback_tunnel env (ws_ID c) oldConfig exists
                                    (case old of None \<Rightarrow> blank_spec | Some st \<Rightarrow> wst_Config st) w3 of
                                   (report, w4) \<Rightarrow> (Inl (e, Some report), w4)))))))"

definition removeWireGuard :: "'k tunnel_env \<Rightarrow> jmap \<Rightarrow> 'k tunnel_world \<Rightarrow> (tunnel_error, string) res \<times> 'k tunnel_world" where
  "removeWireGuard env p w =
     (let i = get_string p ''id'' in
      if \<not> safeName i then (Inl TunnelID, w)
      else case tw_state w i of
        Some (StateText (Some st)) \<Rightarrow>
          (case wgExists env (wgInterface env i) w of
             (None, w1) \<Rightarrow> (Inl CommandFailed, w1)
           | (Some up, w1) \<Rightarrow>
               (case (if \<not> up then (Inr (), w1)
                   else case verifyWireGuard env (wst_Config st) w1 of
                     (Inl e, w2) \<Rightarrow> (Inl e, w2)
                   | (Inr _, w2) \<Rightarrow> (case wgQuick env QuickDown i w2 of
                       (False, w3) \<Rightarrow> (Inl DownFailed, w3) | (True, w3) \<Rightarrow> (Inr (), w3))) of
                  (Inl e, w4) \<Rightarrow> (Inl e, w4)
                | (Inr _, w4) \<Rightarrow>
                    (case write_tunnel_state i (st\<lparr>wst_Enabled := False\<rparr>) w4 of
                       (False, w5) \<Rightarrow> (Inl TunnelWrite, w5)
                     | (True, w5) \<Rightarrow>
                         (case remove_conf i w5 of
                            (False, w6) \<Rightarrow> (Inl TunnelRemove, w6)
                          | (True, w6) \<Rightarrow>
                              (case tunnel_fault w6 of (failed, w7) \<Rightarrow>
                                 if failed then (Inl TunnelRemove, w7) else (Inr i, w7\<lparr>tw_state := (tw_state w7)(i := None)\<rparr>))))))
      | Some (StateText None) \<Rightarrow> (Inl TunnelJson, w)
      | Some EmptyState \<Rightarrow> (Inl TunnelJson, w)
      | _ \<Rightarrow> (Inl TunnelRead, w))"

text \<open>The configuration of a state, checked as if it had come from the controller again.\<close>

definition restore_one :: "'k tunnel_env \<Rightarrow> wg_spec \<Rightarrow> string \<Rightarrow> 'k tunnel_world \<Rightarrow> (tunnel_error, unit) res \<times> 'k tunnel_world" where
  "restore_one env c i w =
     (case check_spec (prefix_text env) c of
        Inl e \<Rightarrow> (Inl e, w)
      | Inr _ \<Rightarrow>
          (case wgExists env (wgInterface env (ws_ID c)) w of
             (None, w1) \<Rightarrow> (Inl CommandFailed, w1)
           | (Some exists, w1) \<Rightarrow>
               (case (if exists then (Inr (), w1)
                   else case write_conf i (wgConfig c) w1 of
                     (False, w2) \<Rightarrow> (Inl TunnelWrite, w2)
                   | (True, w2) \<Rightarrow> (case wgQuick env QuickUp i w2 of
                       (False, w3) \<Rightarrow> (Inl UpFailed, w3) | (True, w3) \<Rightarrow> (Inr (), w3))) of
                  (Inl e, w4) \<Rightarrow> (Inl e, w4)
                | (Inr _, w4) \<Rightarrow> verifyWireGuard env c w4)))"

fun restore_all :: "'k tunnel_env \<Rightarrow> (string \<times> bool) list \<Rightarrow> 'k tunnel_world \<Rightarrow> (tunnel_error, unit) res \<times> 'k tunnel_world" where
  "restore_all env [] w = (Inr (), w)"
| "restore_all env ((i, dir) # rest) w =
     (if \<not> dir \<or> \<not> safeName i then restore_all env rest w
      else case tw_state w i of
        None \<Rightarrow> restore_all env rest w
      | Some (StateText (Some st)) \<Rightarrow>
          if \<not> wst_Enabled st then restore_all env rest w
          else (case restore_one env (wst_Config st) i w of
                  (Inl e, w1) \<Rightarrow> (Inl e, w1)
                | (Inr _, w1) \<Rightarrow> restore_all env rest w1)
      | Some UnreadableState \<Rightarrow> (Inl TunnelRead, w)
      | _ \<Rightarrow> (Inl TunnelJson, w))"

definition restoreWireGuard :: "'k tunnel_env \<Rightarrow> 'k tunnel_world \<Rightarrow> (tunnel_error, unit) res \<times> 'k tunnel_world" where
  "restoreWireGuard env w = (if \<not> tw_listing w then (Inl TunnelRead, w) else restore_all env (tw_dirs w) w)"

section \<open>Status\<close>

text \<open>\<open>strconv.ParseUint\<close> with its error ignored: 0 for a text that is no number, the largest value beyond 64 bits.\<close>

definition ParseUint :: "string \<Rightarrow> nat" where
  "ParseUint s = (case parse_nat s of None \<Rightarrow> 0 | Some n \<Rightarrow> min n (2 ^ 64 - 1))"

definition peer_columns :: "string \<Rightarrow> string \<Rightarrow> string list \<Rightarrow> jmap \<Rightarrow> jmap" where
  "peer_columns name field columns peer =
     (if field = ''latest-handshakes'' then
        (case Atoi (columns ! 1) of (n, parsed) \<Rightarrow>
           if parsed then put_key ''has_handshake'' (JBool (n > 0)) (put_key name (JNum (itoa n)) peer) else peer)
      else if field = ''transfer'' then
        (if length columns \<ge> 3 then
           put_key ''sent_bytes'' (JNum (nat_digits (ParseUint (columns ! 2))))
             (put_key ''received_bytes'' (JNum (nat_digits (ParseUint (columns ! 1)))) peer)
         else peer)
      else put_key name (JStr (join_with (CHR '' '') (tl columns))) peer)"

fun peer_rows :: "string \<Rightarrow> string \<Rightarrow> string list \<Rightarrow> (string \<times> jmap) list \<Rightarrow> (string \<times> jmap) list" where
  "peer_rows name field [] peers = peers"
| "peer_rows name field (l # ls) peers =
     (let columns = Fields l in
      if length columns < 2 then peer_rows name field ls peers
      else let k = columns ! 0;
               peer = (case map_of peers k of None \<Rightarrow> [(''public_key'', JStr k)] | Some kvs \<Rightarrow> kvs) in
        peer_rows name field ls (put_key k (peer_columns name field columns peer) peers))"

definition status_fields :: "(string \<times> string) list" where
  "status_fields = [(''endpoints'', ''endpoints''), (''latest_handshakes'', ''latest-handshakes''), (''transfer'', ''transfer''),
     (''allowed_ips'', ''allowed-ips'')]"

fun query_fields ::
  "'k tunnel_env \<Rightarrow> string \<Rightarrow> (string \<times> string) list \<Rightarrow> (string \<times> jmap) list \<Rightarrow> 'k tunnel_world \<Rightarrow>
     (string \<times> jmap) list option \<times> 'k tunnel_world" where
  "query_fields env iface [] peers w = (Some peers, w)"
| "query_fields env iface ((name, field) # rest) peers w =
     (case networkExec env (ShowField iface field) None w of
        (None, w1) \<Rightarrow> (None, w1)
      | (Some out, w1) \<Rightarrow> query_fields env iface rest (peer_rows name field (split_on newline (trim_space out)) peers) w1)"

record tunnel_status =
  ts_id :: string
  ts_interface :: string
  ts_configured :: bool
  ts_running :: bool
  ts_warp :: bool
  ts_addresses :: "string list"
  ts_route_table :: int
  ts_peers :: "(string \<times> jmap) list option"
  ts_link :: "json option"

text \<open>\<open>link_json\<close>: \<open>json.Unmarshal\<close>. The fields are asked in one of the orders Go may take.\<close>

definition wireGuardStatus ::
  "'k tunnel_env \<Rightarrow> (string \<Rightarrow> json option) \<Rightarrow> jmap \<Rightarrow> 'k tunnel_world \<Rightarrow> (tunnel_error, tunnel_status) res \<times> 'k tunnel_world" where
  "wireGuardStatus env link_json p w =
     (let i = get_string p ''id''; iface = wgInterface env i in
      if \<not> safeName i then (Inl TunnelID, w)
      else case tw_state w i of
        Some (StateText (Some st)) \<Rightarrow>
          (let base = \<lparr>ts_id = i, ts_interface = iface, ts_configured = wst_Enabled st, ts_running = False, ts_warp = wst_WARP st,
             ts_addresses = ws_Addresses (wst_Config st), ts_route_table = ws_RouteTable (wst_Config st), ts_peers = None, ts_link = None\<rparr> in
           case wgExists env iface w of
             (None, w1) \<Rightarrow> (Inl CommandFailed, w1)
           | (Some False, w1) \<Rightarrow> (Inr base, w1)
           | (Some True, w1) \<Rightarrow>
               (case verifyWireGuard env (wst_Config st) w1 of
                  (Inl e, w2) \<Rightarrow> (Inl e, w2)
                | (Inr _, w2) \<Rightarrow>
                    (case query_fields env iface status_fields [] w2 of
                       (None, w3) \<Rightarrow> (Inl CommandFailed, w3)
                     | (Some peers, w3) \<Rightarrow>
                         (case networkExec env (LinkShow iface) None w3 of
                            (None, w4) \<Rightarrow> (Inl CommandFailed, w4)
                          | (Some out, w4) \<Rightarrow>
                              (case link_json out of
                                 None \<Rightarrow> (Inl TunnelJson, w4)
                               | Some v \<Rightarrow> (Inr (base\<lparr>ts_running := True, ts_peers := Some peers, ts_link := Some v\<rparr>), w4))))))
      | Some (StateText None) \<Rightarrow> (Inl TunnelJson, w)
      | Some EmptyState \<Rightarrow> (Inl TunnelJson, w)
      | _ \<Rightarrow> (Inl TunnelRead, w))"

section \<open>What an operation leaves alone\<close>

text \<open>The commands a run added to the log, and those of them that change interfaces.\<close>

definition changing :: "net_command \<times> string option \<Rightarrow> bool" where
  "changing e = (case fst e of QuickUp _ \<Rightarrow> True | QuickDown _ \<Rightarrow> True | _ \<Rightarrow> False)"

text \<open>Only queries were run, no file was touched.\<close>

definition only_asked :: "'k tunnel_world \<Rightarrow> 'k tunnel_world \<Rightarrow> bool" where
  "only_asked w w' \<longleftrightarrow> tw_conf w' = tw_conf w \<and> tw_state w' = tw_state w \<and> tw_dirs w' = tw_dirs w \<and> tw_faults w' = tw_faults w \<and>
     (\<exists>new. tw_log w' = tw_log w @ new \<and> list_all (\<lambda>e. \<not> changing e) new)"

lemma only_asked_refl: "only_asked w w"
  by (simp add: only_asked_def)

lemma only_asked_trans: "only_asked w w1 \<Longrightarrow> only_asked w1 w2 \<Longrightarrow> only_asked w w2"
  by (auto simp: only_asked_def)

lemma networkExec_asked: "networkExec env cmd conf w = (out, w1) \<Longrightarrow> \<not> changing (cmd, conf) \<Longrightarrow> only_asked w w1"
  by (auto simp: networkExec_def only_asked_def split: if_splits prod.splits)

lemma wgExists_asked: "wgExists env name w = (r, w1) \<Longrightarrow> only_asked w w1"
  by (auto simp: wgExists_def changing_def split: prod.splits dest: networkExec_asked)

lemma verify_asked: "verifyWireGuard env c w = (r, w1) \<Longrightarrow> only_asked w w1"
  by (auto simp: verifyWireGuard_def changing_def split: prod.splits option.splits if_splits dest: networkExec_asked)

lemma own_interface_asked: "own_interface env i old w = (r, w1) \<Longrightarrow> only_asked w w1"
  by (auto simp: own_interface_def split: prod.splits option.splits bool.splits sum.splits
      dest: wgExists_asked verify_asked intro: only_asked_trans)

lemma query_fields_asked: "query_fields env iface fs peers w = (r, w1) \<Longrightarrow> only_asked w w1"
proof (induction env iface fs peers w rule: query_fields.induct)
  case (2 env iface name field rest peers w)
  obtain out w2 where e: "networkExec env (ShowField iface field) None w = (out, w2)" by fastforce
  have a: "only_asked w w2" by (rule networkExec_asked [OF e]) (simp add: changing_def)
  show ?case
  proof (cases out)
    case None
    then show ?thesis using "2.prems" e a by simp
  next
    case (Some t)
    then show ?thesis using "2.prems" "2.IH" [OF e [symmetric] Some] e a by (auto intro: only_asked_trans)
  qed
qed (simp add: only_asked_refl)

section \<open>Interfaces of others\<close>

text \<open>An interface with the name of tunnel \<open>i\<close> that is not the one the state of the tunnel describes.\<close>

definition foreign :: "'k tunnel_env \<Rightarrow> string \<Rightarrow> 'k tunnel_world \<Rightarrow> bool" where
  "foreign env i w \<longleftrightarrow> (\<exists>w1. wgExists env (wgInterface env i) w = (Some True, w1) \<and>
     (\<forall>st. tw_state w i = Some (StateText (Some st)) \<longrightarrow> \<not> is_ok (fst (verifyWireGuard env (wst_Config st) w1))))"

lemma foreign_refused:
  assumes "foreign env i w" "old_state warp i w = Inr old"
  shows "\<exists>e w1. own_interface env i old w = (Inl e, w1) \<and> only_asked w w1"
proof -
  obtain w1 where w1: "wgExists env (wgInterface env i) w = (Some True, w1)"
    and bad: "\<And>st. tw_state w i = Some (StateText (Some st)) \<Longrightarrow> \<not> is_ok (fst (verifyWireGuard env (wst_Config st) w1))"
    using assms(1) by (auto simp: foreign_def)
  obtain r w2 where o: "own_interface env i old w = (r, w2)" by fastforce
  have "\<not> is_ok r"
  proof (cases old)
    case None
    then show ?thesis using o w1 by (auto simp: own_interface_def)
  next
    case (Some st)
    then have "tw_state w i = Some (StateText (Some st))"
      using assms(2) by (auto simp: old_state_def split: option.splits tunnel_state_file.splits if_splits)
    from bad [OF this] obtain e w3 where "verifyWireGuard env (wst_Config st) w1 = (Inl e, w3)"
      by (cases "verifyWireGuard env (wst_Config st) w1"; cases "fst (verifyWireGuard env (wst_Config st) w1)") auto
    then show ?thesis using o w1 Some by (auto simp: own_interface_def)
  qed
  then show ?thesis using o own_interface_asked [OF o] by (cases r) auto
qed

text \<open>C25: The Agent never touches an interface it does not own: when an interface with the name of a tunnel exists
  and there is no state of the tunnel, or the key of the interface is not the key of the state, then
  applying, removing and restoring the tunnel fail after queries alone; no interface is brought up or
  down and no file changes.\<close>
theorem foreign_interface_untouched:
  assumes "foreign env i w"
  shows "(decodeWireGuard (prefix_text env) p = Inr c \<and> ws_ID c = i \<longrightarrow>
      (\<exists>e w'. applyWireGuard env p warp w = (Inl (e, None), w') \<and> only_asked w w')) \<and>
    (get_string q ''id'' = i \<longrightarrow> (\<exists>e w'. removeWireGuard env q w = (Inl e, w') \<and> only_asked w w')) \<and>
    (tw_state w i = Some (StateText (Some st)) \<and> ws_ID (wst_Config st) = i \<longrightarrow>
      (\<exists>e w'. restore_one env (wst_Config st) i w = (Inl e, w') \<and> only_asked w w'))"
proof -
  obtain w1 where w1: "wgExists env (wgInterface env i) w = (Some True, w1)"
    and bad: "\<And>st. tw_state w i = Some (StateText (Some st)) \<Longrightarrow> \<exists>e w2. verifyWireGuard env (wst_Config st) w1 = (Inl e, w2)"
    using assms unfolding foreign_def by (metis is_ok.elims(3) prod.collapse)
  have asked: "only_asked w w1" by (rule wgExists_asked [OF w1])
  have apply_case: "\<exists>e w'. applyWireGuard env p warp w = (Inl (e, None), w') \<and> only_asked w w'"
    if d: "decodeWireGuard (prefix_text env) p = Inr c" "ws_ID c = i"
  proof (cases "old_state warp i w")
    case (Inl e)
    then show ?thesis using d by (simp add: applyWireGuard_def only_asked_refl)
  next
    case (Inr old)
    then show ?thesis using d foreign_refused [OF assms Inr] by (auto simp: applyWireGuard_def)
  qed
  have "\<exists>e w'. removeWireGuard env q w = (Inl e, w') \<and> only_asked w w'" if i: "get_string q ''id'' = i"
  proof (cases "safeName i \<and> (\<exists>st. tw_state w i = Some (StateText (Some st)))")
    case False
    then show ?thesis using i only_asked_refl [of w]
      by (auto simp: removeWireGuard_def Let_def split: option.split tunnel_state_file.split)
  next
    case True
    then obtain st where st: "safeName i" "tw_state w i = Some (StateText (Some st))" by blast
    obtain e w2 where v: "verifyWireGuard env (wst_Config st) w1 = (Inl e, w2)" using bad [OF st(2)] by blast
    then have "removeWireGuard env q w = (Inl e, w2)" using st w1 by (simp add: removeWireGuard_def Let_def i)
    then show ?thesis using only_asked_trans [OF asked verify_asked [OF v]] by blast
  qed
  moreover have "\<exists>e w'. restore_one env (wst_Config st) i w = (Inl e, w') \<and> only_asked w w'"
    if st: "tw_state w i = Some (StateText (Some st))" "ws_ID (wst_Config st) = i"
  proof -
    obtain e w2 where v: "verifyWireGuard env (wst_Config st) w1 = (Inl e, w2)" using bad [OF st(1)] by blast
    then show ?thesis
      using st(2) w1 only_asked_trans [OF asked verify_asked [OF v]] only_asked_refl [of w]
      by (cases "check_spec (prefix_text env) (wst_Config st)") (simp_all add: restore_one_def)
  qed
  ultimately show ?thesis using apply_case by blast
qed

section \<open>The outcome of a change\<close>

lemma tunnel_fault_eq:
  assumes "tunnel_fault w = (f, w1)"
  obtains fs where "w1 = w\<lparr>tw_faults := fs\<rparr>"
  using assms by (cases "tw_faults w") (auto simp: tunnel_fault_def intro: that [of "tw_faults w"])

lemma write_conf_spec:
  assumes "write_conf i t w = (ok, w')"
  shows "tw_state w' = tw_state w \<and> tw_log w' = tw_log w \<and> tw_kernel w' = tw_kernel w \<and>
    tw_conf w' = (if ok then (tw_conf w)(i \<mapsto> ConfText t) else tw_conf w)"
proof -
  obtain f w1 where f: "tunnel_fault w = (f, w1)" by fastforce
  then obtain fs where "w1 = w\<lparr>tw_faults := fs\<rparr>" by (rule tunnel_fault_eq)
  then show ?thesis using assms f by (auto simp: write_conf_def split: if_splits)
qed

lemma write_state_spec:
  assumes "write_tunnel_state i st w = (ok, w')"
  shows "tw_conf w' = tw_conf w \<and> tw_log w' = tw_log w \<and> tw_kernel w' = tw_kernel w \<and>
    tw_state w' = (if ok then (tw_state w)(i \<mapsto> StateText (Some st)) else tw_state w)"
proof -
  obtain f w1 where f: "tunnel_fault w = (f, w1)" by fastforce
  then obtain fs where "w1 = w\<lparr>tw_faults := fs\<rparr>" by (rule tunnel_fault_eq)
  then show ?thesis using assms f by (auto simp: write_tunnel_state_def split: if_splits)
qed

lemma remove_conf_spec:
  assumes "remove_conf i w = (ok, w')"
  shows "tw_state w' = tw_state w \<and> tw_log w' = tw_log w \<and> tw_conf w' = (if ok then (tw_conf w)(i := None) else tw_conf w)"
proof -
  obtain f w1 where f: "tunnel_fault w = (f, w1)" by fastforce
  then obtain fs where "w1 = w\<lparr>tw_faults := fs\<rparr>" by (rule tunnel_fault_eq)
  then show ?thesis using assms f by (auto simp: remove_conf_def split: if_splits)
qed

lemma wgQuick_spec:
  assumes "wgQuick env cmd i w = (ok, w')"
  shows "tw_state w' = tw_state w \<and> tw_conf w' = tw_conf w \<and>
    (tw_log w' = tw_log w @ [(cmd i, conf_text i w)] \<or> \<not> ok \<and> tw_log w' = tw_log w)"
  using assms by (auto simp: wgQuick_def networkExec_def split: prod.splits if_splits)

lemma verify_log:
  assumes "verifyWireGuard env c w = (Inr (), w')"
  shows "tw_log w' = tw_log w @ [(ShowField (wgInterface env (ws_ID c)) ''public-key'', None)]"
  using assms by (auto simp: verifyWireGuard_def networkExec_def split: prod.splits option.splits if_splits)

text \<open>The end of a run: the interface was brought up from this text and has the key of this configuration.\<close>

definition came_up :: "'k tunnel_env \<Rightarrow> string \<Rightarrow> wg_spec \<Rightarrow> string option \<Rightarrow> 'k tunnel_world \<Rightarrow> bool" where
  "came_up env i c t w \<longleftrightarrow> (\<exists>w1 w2 pre. verifyWireGuard env c w1 = (Inr (), w2) \<and> tw_kernel w = tw_kernel w2 \<and>
     tw_log w = pre @ [(QuickUp i, t), (ShowField (wgInterface env (ws_ID c)) ''public-key'', None)])"

lemma up_and_verified:
  assumes "wgQuick env QuickUp i w = (True, w1)" "verifyWireGuard env c w1 = (Inr (), w2)"
  shows "came_up env i c (conf_text i w) w2"
proof -
  have "tw_log w1 = tw_log w @ [(QuickUp i, conf_text i w)]" using wgQuick_spec [OF assms(1)] by simp
  then have "tw_log w2 = tw_log w @ [(QuickUp i, conf_text i w), (ShowField (wgInterface env (ws_ID c)) ''public-key'', None)]"
    using verify_log [OF assms(2)] by simp
  then show ?thesis unfolding came_up_def using assms(2) by blast
qed

lemma replace_spec:
  assumes "replace_tunnel env c warp w = (r, w')"
  shows "\<forall>j. j \<noteq> ws_ID c \<longrightarrow> tw_conf w' j = tw_conf w j"
    and "r = Inl e \<Longrightarrow> tw_state w' = tw_state w"
    and "r = Inr u \<Longrightarrow> tw_conf w' = (tw_conf w)(ws_ID c \<mapsto> ConfText (wgConfig c)) \<and>
      tw_state w' = (tw_state w)(ws_ID c \<mapsto> StateText (Some \<lparr>wst_Config = c, wst_Enabled = True, wst_WARP = warp\<rparr>)) \<and>
      came_up env (ws_ID c) c (Some (wgConfig c)) w'"
proof -
  let ?i = "ws_ID c" and ?st = "\<lparr>wst_Config = c, wst_Enabled = True, wst_WARP = warp\<rparr>"
  obtain b1 w1 where w1: "write_conf ?i (wgConfig c) w = (b1, w1)" by fastforce
  obtain b2 w2 where w2: "wgQuick env QuickUp ?i w1 = (b2, w2)" by fastforce
  obtain v w3 where w3: "verifyWireGuard env c w2 = (v, w3)" by fastforce
  obtain b4 w4 where w4: "write_tunnel_state ?i ?st w3 = (b4, w4)" by fastforce
  note specs = write_conf_spec [OF w1] wgQuick_spec [OF w2] write_state_spec [OF w4]
  have asked: "tw_conf w3 = tw_conf w2" "tw_state w3 = tw_state w2" using verify_asked [OF w3] by (simp_all add: only_asked_def)
  have un: "replace_tunnel env c warp w = (if \<not> b1 then (Inl TunnelWrite, w1) else if \<not> b2 then (Inl UpFailed, w2) else
      case v of Inl e \<Rightarrow> (Inl e, w3) | Inr _ \<Rightarrow> if \<not> b4 then (Inl TunnelWrite, w4) else (Inr (), w4))"
    using w1 w2 w3 w4 by (cases b1; cases b2; cases v; cases b4) (simp_all add: replace_tunnel_def)
  show "\<forall>j. j \<noteq> ?i \<longrightarrow> tw_conf w' j = tw_conf w j"
    using assms specs asked unfolding un by (auto split: if_splits sum.splits)
  show "r = Inl e \<Longrightarrow> tw_state w' = tw_state w"
    using assms specs asked unfolding un by (auto split: if_splits sum.splits)
  assume "r = Inr u"
  then have ok: "b1" "b2" "v = Inr ()" "b4" "w' = w4" using assms unfolding un by (auto split: if_splits sum.splits)
  have "came_up env ?i c (conf_text ?i w1) w3" by (rule up_and_verified [OF w2 [unfolded eqTrueI [OF ok(2)]] w3 [unfolded ok(3)]])
  moreover have "conf_text ?i w1 = Some (wgConfig c)" using specs(1) ok(1) by (simp add: conf_text_def)
  moreover have "tw_kernel w4 = tw_kernel w3" "tw_log w4 = tw_log w3" using specs(3) by simp_all
  ultimately have "came_up env ?i c (Some (wgConfig c)) w4" by (simp add: came_up_def)
  then show "tw_conf w' = (tw_conf w)(?i \<mapsto> ConfText (wgConfig c)) \<and> tw_state w' = (tw_state w)(?i \<mapsto> StateText (Some ?st)) \<and>
      came_up env ?i c (Some (wgConfig c)) w'"
    using specs asked ok by simp
qed

definition kept_text :: "string option \<Rightarrow> string option" where
  "kept_text t = (case t of Some (c # cs) \<Rightarrow> Some (c # cs) | _ \<Rightarrow> None)"

lemma undo_conf_spec:
  assumes "undo_conf i t w = (ok, w')"
  shows "tw_state w' = tw_state w \<and> (\<forall>j. j \<noteq> i \<longrightarrow> tw_conf w' j = tw_conf w j) \<and>
    (ok \<longrightarrow> tw_conf w' i = map_option ConfText (kept_text t))"
  using assms write_conf_spec remove_conf_spec
  by (fastforce simp: undo_conf_def kept_text_def split: option.splits list.splits)

lemma undo_interface_spec: "undo_interface env i w = (ok, w') \<Longrightarrow> tw_state w' = tw_state w \<and> tw_conf w' = tw_conf w"
proof -
  assume u: "undo_interface env i w = (ok, w')"
  obtain r w1 where e: "wgExists env (wgInterface env i) w = (r, w1)" by fastforce
  have a: "tw_conf w1 = tw_conf w" "tw_state w1 = tw_state w" using wgExists_asked [OF e] by (simp_all add: only_asked_def)
  have "w' = w1 \<or> wgQuick env QuickDown i w1 = (ok, w')" using u e by (auto simp: undo_interface_def split: option.splits if_splits)
  then show ?thesis using a wgQuick_spec by metis
qed

lemma undo_up_spec:
  assumes "undo_up env i c w = (ok, w')"
  shows "tw_state w' = tw_state w \<and> tw_conf w' = tw_conf w \<and> (ok \<longrightarrow> came_up env i c (conf_text i w) w')"
proof -
  obtain b w1 where b: "wgQuick env QuickUp i w = (b, w1)" by fastforce
  obtain v w2 where v: "verifyWireGuard env c w1 = (v, w2)" by fastforce
  have a: "tw_conf w2 = tw_conf w1" "tw_state w2 = tw_state w1" using verify_asked [OF v] by (simp_all add: only_asked_def)
  have "(ok, w') = (if b then (is_ok v, w2) else (False, w1))" using assms b v by (cases b) (simp_all add: undo_up_def)
  moreover have "came_up env i c (conf_text i w) w2" if "b" "is_ok v"
    using that up_and_verified [of env i w w1 c w2] b v by (cases v) auto
  ultimately show ?thesis using a wgQuick_spec [OF b] by (auto split: if_splits)
qed

lemma rollback_tunnel_spec:
  assumes "rollback_tunnel env i t exists old w = (rep, w')"
  shows "tw_state w' = tw_state w \<and> (\<forall>j. j \<noteq> i \<longrightarrow> tw_conf w' j = tw_conf w j) \<and>
    (rr_clean rep \<longrightarrow> tw_conf w' i = map_option ConfText (kept_text t) \<and> (exists \<longrightarrow> rr_restored rep)) \<and>
    (rr_restored rep \<longrightarrow> exists \<and> came_up env i old (kept_text t) w')"
proof -
  obtain c1 w1 where u1: "undo_interface env i w = (c1, w1)" by fastforce
  obtain c2 w2 where u2: "undo_conf i t w1 = (c2, w2)" by fastforce
  obtain c3 w3 where u3: "(if exists \<and> c1 \<and> c2 then undo_up env i old w2 else (c1 \<and> c2, w2)) = (c3, w3)" by fastforce
  have r: "rep = \<lparr>rr_clean = c3, rr_restored = (exists \<and> c3)\<rparr>" "w' = w3"
    using assms u1 u2 u3 by (auto simp: rollback_tunnel_def split: prod.splits)
  note specs = undo_interface_spec [OF u1] undo_conf_spec [OF u2]
  show ?thesis
  proof (cases "exists \<and> c1 \<and> c2")
    case True
    then have up: "undo_up env i old w2 = (c3, w3)" using u3 by simp
    have "conf_text i w2 = kept_text t" using specs(2) True by (cases "kept_text t") (simp_all add: conf_text_def)
    then show ?thesis using undo_up_spec [OF up] specs r True by auto
  next
    case False
    then show ?thesis using u3 specs r by auto
  qed
qed

lemma apply_cases:
  assumes "applyWireGuard env p warp w = (r, w')"
  obtains (refused) e where "r = Inl (e, None)" "tw_conf w' = tw_conf w" "tw_state w' = tw_state w"
  | (replaced) c exists old w1 w2 q w3 where "decodeWireGuard (prefix_text env) p = Inr c" "old_state warp (ws_ID c) w = Inr old"
      "own_interface env (ws_ID c) old w = (Inr exists, w1)" "tw_conf w2 = tw_conf w" "tw_state w2 = tw_state w"
      "replace_tunnel env c warp w2 = (q, w3)"
      "(r, w') = (case q of Inr _ \<Rightarrow> (Inr c, w3) | Inl e \<Rightarrow> (case rollback_tunnel env (ws_ID c) (conf_text (ws_ID c) w) exists
          (case old of None \<Rightarrow> blank_spec | Some st \<Rightarrow> wst_Config st) w3 of (report, w4) \<Rightarrow> (Inl (e, Some report), w4)))"
proof (cases "\<exists>c old. decodeWireGuard (prefix_text env) p = Inr c \<and> old_state warp (ws_ID c) w = Inr old")
  case False
  then have "w' = w \<and> (\<exists>e. r = Inl (e, None))"
    using assms by (cases "decodeWireGuard (prefix_text env) p") (auto simp: applyWireGuard_def split: sum.splits)
  then show thesis using refused by blast
next
  case True
  then obtain c old where c: "decodeWireGuard (prefix_text env) p = Inr c" "old_state warp (ws_ID c) w = Inr old" by blast
  obtain o1 w1 where o: "own_interface env (ws_ID c) old w = (o1, w1)" by fastforce
  have same: "tw_conf w1 = tw_conf w" "tw_state w1 = tw_state w" using own_interface_asked [OF o] by (simp_all add: only_asked_def)
  then have conf: "conf_text (ws_ID c) w1 = conf_text (ws_ID c) w" by (simp add: conf_text_def)
  show thesis
  proof (cases "is_ok o1 \<and> tw_conf w (ws_ID c) \<noteq> Some UnreadableConf")
    case False
    then have "w' = w1 \<and> (\<exists>e. r = Inl (e, None))" using assms c o same by (cases o1) (auto simp: applyWireGuard_def)
    then show thesis using refused same by auto
  next
    case True
    then obtain exists where ex: "o1 = Inr exists" "tw_conf w (ws_ID c) \<noteq> Some UnreadableConf" by (cases o1) auto
    obtain b w2 where b: "(if exists then wgQuick env QuickDown (ws_ID c) w1 else (True, w1)) = (b, w2)" by fastforce
    have same2: "tw_conf w2 = tw_conf w" "tw_state w2 = tw_state w"
      using b same wgQuick_spec [of env QuickDown "ws_ID c" w1 b w2] by (auto split: if_splits)
    obtain q w3 where q: "replace_tunnel env c warp w2 = (q, w3)" by fastforce
    have un: "(r, w') = (if \<not> b then (Inl (DownFailed, None), w2) else case q of Inr _ \<Rightarrow> (Inr c, w3) | Inl e \<Rightarrow>
        (case rollback_tunnel env (ws_ID c) (conf_text (ws_ID c) w) exists (case old of None \<Rightarrow> blank_spec | Some st \<Rightarrow> wst_Config st) w3 of
          (report, w4) \<Rightarrow> (Inl (e, Some report), w4)))"
      using assms c o ex b q same conf by (cases b; cases q) (simp_all add: applyWireGuard_def Let_def)
    show thesis
    proof (cases b)
      case False
      then show thesis using refused un same2 by auto
    next
      case True
      then show thesis using replaced [OF c o [unfolded ex(1)] same2 q] un by simp
    qed
  qed
qed

text \<open>A tunnel that was applied is up with its configuration: the file given to \<open>wg-quick\<close> was exactly the
  text of the decoded tunnel, the interface then had the public key of that configuration, and the
  state on disk is the tunnel, enabled; the files of other tunnels are untouched.\<close>
theorem applied_tunnel_is_up:
  assumes "applyWireGuard env p warp w = (Inr c, w')"
  shows "decodeWireGuard (prefix_text env) p = Inr c \<and> came_up env (ws_ID c) c (Some (wgConfig c)) w' \<and>
    tw_conf w' = (tw_conf w)(ws_ID c \<mapsto> ConfText (wgConfig c)) \<and>
    tw_state w' = (tw_state w)(ws_ID c \<mapsto> StateText (Some \<lparr>wst_Config = c, wst_Enabled = True, wst_WARP = warp\<rparr>))"
  using assms
proof (cases rule: apply_cases)
  case (replaced d exists old w1 w2 q w3)
  obtain u where "q = Inr u" "d = c" "w' = w3" using replaced(7) by (auto split: sum.splits prod.splits)
  then show ?thesis using replace_spec(3) [OF replaced(6)] replaced by simp
qed simp

text \<open>C26: A tunnel that could not be applied leaves what was there: the states of all tunnels and the files of other
  tunnels are unchanged; without a report of a rollback the files are unchanged altogether; a report of a
  clean rollback means that the old configuration file is back (or gone, if there was none), and that a
  former interface came up again from the old file with the old key.\<close>
theorem failed_tunnel_is_rolled_back:
  assumes "applyWireGuard env p warp w = (Inl (e, report), w')"
  shows "tw_state w' = tw_state w \<and> (report = None \<longrightarrow> tw_conf w' = tw_conf w) \<and>
    (\<forall>rep. report = Some rep \<longrightarrow> (\<exists>c old exists w1. decodeWireGuard (prefix_text env) p = Inr c \<and>
      own_interface env (ws_ID c) old w = (Inr exists, w1) \<and> (\<forall>j. j \<noteq> ws_ID c \<longrightarrow> tw_conf w' j = tw_conf w j) \<and>
      (rr_clean rep \<longrightarrow> tw_conf w' (ws_ID c) = map_option ConfText (kept_text (conf_text (ws_ID c) w)) \<and>
        (exists \<longrightarrow> came_up env (ws_ID c) (case old of None \<Rightarrow> blank_spec | Some st \<Rightarrow> wst_Config st)
          (kept_text (conf_text (ws_ID c) w)) w'))))"
  using assms
proof (cases rule: apply_cases)
  case (replaced c exists old w1 w2 q w3)
  obtain x where q: "q = Inl x" using replaced(7) by (cases q) auto
  obtain rep w4 where r: "rollback_tunnel env (ws_ID c) (conf_text (ws_ID c) w) exists
      (case old of None \<Rightarrow> blank_spec | Some st \<Rightarrow> wst_Config st) w3 = (rep, w4)" by fastforce
  then have eq: "report = Some rep" "w' = w4" using replaced(7) q by simp_all
  note spec = rollback_tunnel_spec [OF r] and old_files = replace_spec(1,2) [OF replaced(6)]
  have "tw_state w' = tw_state w" "\<forall>j. j \<noteq> ws_ID c \<longrightarrow> tw_conf w' j = tw_conf w j"
    using spec old_files(1) old_files(2) [OF q] replaced(4,5) eq by simp_all
  then show ?thesis using spec replaced(1,3) eq by blast
qed simp

section \<open>The configuration text\<close>

lemma split_host_chars:
  assumes "SplitHostPort s = Some (host, port)"
  shows "set s \<subseteq> set host \<union> set port \<union> {CHR ''['', CHR '']'', CHR '':''}"
proof (cases s)
  case (Cons c cs)
  show ?thesis
  proof (cases "c = CHR ''[''")
    case True
    let ?h = "takeWhile (\<lambda>d. d \<noteq> CHR '']'') cs"
    obtain d where d: "CHR '']'' \<in> set cs" "drop (Suc (length ?h)) cs = d # port" "host = ?h" "d = CHR '':''"
      using assms Cons True by (auto simp: SplitHostPort_def Let_def split: if_splits list.splits)
    have "cs = ?h @ CHR '']'' # drop (Suc (length ?h)) cs"
    proof -
      have "dropWhile (\<lambda>d. d \<noteq> CHR '']'') cs = CHR '']'' # drop (Suc (length ?h)) cs"
        using d(1) by (induction cs) auto
      then show ?thesis by (metis takeWhile_dropWhile_id)
    qed
    then have "set cs = set ?h \<union> {CHR '']''} \<union> set (d # port)" using d(2) by (metis Un_insert_right list.simps(15) set_append sup_bot.right_neutral insert_is_Un sup_assoc)
    then show ?thesis using Cons True d by auto
  next
    case False
    then have "host = before_last_colon s" "port = after_last_colon s" "CHR '':'' \<in> set s"
      using assms Cons by (auto simp: SplitHostPort_def split: if_splits)
    moreover have "set s \<subseteq> set (before_last_colon s) \<union> set (after_last_colon s) \<union> {CHR '':''}"
    proof -
      have "set s = set (takeWhile (\<lambda>c. c \<noteq> CHR '':'') (rev s)) \<union> set (dropWhile (\<lambda>c. c \<noteq> CHR '':'') (rev s))"
        by (metis set_append set_rev takeWhile_dropWhile_id)
      moreover have "set xs \<subseteq> insert (hd xs) (set (drop 1 xs))" for xs :: string by (cases xs) auto
      moreover have "dropWhile (\<lambda>c. c \<noteq> CHR '':'') (rev s) \<noteq> [] \<Longrightarrow> hd (dropWhile (\<lambda>c. c \<noteq> CHR '':'') (rev s)) = CHR '':''"
        by (metis (mono_tags, lifting) hd_dropWhile)
      ultimately show ?thesis by (cases "dropWhile (\<lambda>c. c \<noteq> CHR '':'') (rev s) = []") (auto simp: before_last_colon_def after_last_colon_def)
    qed
    ultimately show ?thesis by auto
  qed
qed simp

lemma Atoi_chars:
  assumes "Atoi s = (n, True)" "c \<in> set s"
  shows "is_digit c \<or> c = CHR ''-'' \<or> c = CHR ''+''"
proof -
  have digit: "is_digit d" if t: "parse_nat t = Some k" "d \<in> set t" for t k d
  proof -
    obtain vs where "traverse_opt digit_value t = Some vs" using t(1) by (auto simp: parse_nat_def split: if_splits)
    then have "\<exists>v. digit_value d = Some v" using t(2) by (induction t arbitrary: vs) (auto split: option.splits)
    then show ?thesis by (auto simp: digit_value_def is_digit_def split: if_splits)
  qed
  show ?thesis
    using assms digit by (cases s) (auto simp: Atoi_def Let_def split: if_splits option.splits)
qed

lemma endpoint_line: "validNetworkAddress lit s False = Inr () \<Longrightarrow> newline \<notin> set s"
proof
  assume v: "validNetworkAddress lit s False = Inr ()" and nl: "newline \<in> set s"
  obtain host port n where h: "SplitHostPort s = Some (host, port)" "Atoi port = (n, True)" "\<not> contains_any host host_marks"
    using v by (auto simp: validNetworkAddress_def split: option.splits prod.splits if_splits)
  have marks: "newline \<noteq> CHR ''[''" "newline \<noteq> CHR '']''" "newline \<noteq> CHR '':''" "\<not> is_digit newline" "newline \<noteq> CHR ''-''" "newline \<noteq> CHR ''+''"
    by (simp_all add: newline_def char_of_def is_digit_def)
  then have "newline \<in> set host \<or> newline \<in> set port" using split_host_chars [OF h(1)] nl by auto
  moreover have "newline \<notin> set port" using Atoi_chars [OF h(2)] marks by blast
  moreover have "newline \<notin> set host" using h(3) by (auto simp: contains_any_iff host_marks_def)
  ultimately show False by blast
qed

lemma check_peers_endpoints:
  "check_peers prefix_ok seen ps = Inr () \<Longrightarrow> p \<in> set ps \<Longrightarrow>
     newline \<notin> set (wp_Endpoint p) \<and> list_all prefix_ok (wp_AllowedIPs p)"
  by (induction prefix_ok seen ps rule: check_peers.induct) (auto split: sum.splits dest: endpoint_line)

lemma comma_line: "(\<And>t. t \<in> set ts \<Longrightarrow> newline \<notin> set t) \<Longrightarrow> newline \<notin> set (comma_list ts)"
  by (cases ts) (auto simp: comma_list_def newline_def char_of_def)

lemma split_lines: "(\<And>l. l \<in> set ls \<Longrightarrow> newline \<notin> set l) \<Longrightarrow> split_on newline (concat (map (\<lambda>l. l @ [newline]) ls)) = ls @ [[]]"
  by (induction ls) (simp_all add: split_on_append split_on_plain)

text \<open>The configuration text has exactly the lines of the tunnel: no address or endpoint that passed the checks
  adds a line of its own (an option of \<open>wg-quick\<close>, such as a command to run) to the file, provided
  that accepted prefixes and the keys have no line breaks.\<close>
theorem tunnel_text_has_its_lines:
  assumes "decodeWireGuard prefix_ok raw = Inr c" and "\<And>s. prefix_ok s \<Longrightarrow> newline \<notin> set s"
    and "newline \<notin> set (ws_PrivateKey c)"
    and "\<And>p. p \<in> set (ws_Peers c) \<Longrightarrow> newline \<notin> set (wp_PublicKey p) \<and> newline \<notin> set (wp_PresharedKey p)"
  shows "split_on newline (wgConfig c) = config_lines c @ [[]]"
proof -
  obtain c0 where c0: "check_spec prefix_ok c0 = Inr c" using assms(1) by (auto simp: decodeWireGuard_def bind_res_Inr)
  then have peers: "check_peers prefix_ok [] (ws_Peers c) = Inr ()" and addrs: "list_all prefix_ok (ws_Addresses c)"
    by (auto simp: check_spec_def Let_def bind_res_Inr)
  have peer: "newline \<notin> set l" if "p \<in> set (ws_Peers c)" "l \<in> set (peer_lines p)" for p l
    using that check_peers_endpoints [OF peers that(1)] assms(2,4) comma_line [of "wp_AllowedIPs p"] itoa_no_newline
    by (auto simp: peer_lines_def list_all_iff newline_def char_of_def split: if_splits)
  have "newline \<notin> set l" if "l \<in> set (config_lines c)" for l
    using that peer addrs assms(2,3) comma_line [of "ws_Addresses c"] itoa_no_newline
    by (auto simp: config_lines_def list_all_iff newline_def char_of_def split: if_splits)
  then show ?thesis by (simp add: wgConfig_def split_lines)
qed

text \<open>The keys need the proviso: the base64 decoder skips line breaks, so the check of a key accepts them, and the
  check for duplicate keys compares the texts.\<close>

lemma line_break_in_key_accepted: "wgKey (u @ v) \<Longrightarrow> wgKey (u @ newline # v)"
  by (simp add: wgKey_def std_decode_def)

section \<open>Samples\<close>

lemma std_decode_encode: "length b = 32 \<Longrightarrow> std_decode (std_encode b) = Some b"
proof -
  assume len: "length b = 32"
  let ?t = "map url_to_std (b64_encode b)"
  have chars: "c \<noteq> newline \<and> c \<noteq> carriage_return \<and> std_to_url (url_to_std c) = c \<and> url_to_std c \<noteq> newline \<and>
      url_to_std c \<noteq> carriage_return \<and> url_to_std c \<noteq> CHR ''=''" if c: "c \<in> set (b64_encode b)" for c
  proof -
    obtain d where "d < 64" "c = b64_char d" using c b64_sextets_less by (auto simp: b64_encode_sextets)
    then have "c \<in> set b64_alphabet" using b64_char_in_alphabet by simp
    then show ?thesis by (auto simp: b64_alphabet_def url_to_std_def std_to_url_def newline_def carriage_return_def char_of_def)
  qed
  have "length ?t = 43" using len by (simp add: length_b64_encode)
  then have enc: "std_encode b = ?t @ [CHR ''='']" by (simp add: std_encode_def Let_def)
  have keep: "filter (\<lambda>c. c \<noteq> newline \<and> c \<noteq> carriage_return) (std_encode b) = std_encode b"
    unfolding enc using chars by (auto simp: filter_id_conv newline_def carriage_return_def char_of_def)
  have last: "\<not> has_prefix (rev (std_encode b)) ''==''"
  proof -
    obtain x xs where x: "rev ?t = x # xs" using \<open>length ?t = 43\<close> by (cases "rev ?t") auto
    then have "x \<in> set ?t" by (metis in_set_conv_decomp rev_eq_Cons_iff)
    then show ?thesis using chars x unfolding enc by auto
  qed
  have "map std_to_url ?t = b64_encode b" using chars by (auto intro: map_idI)
  then have "raw_std_decode ?t = Some b" by (simp add: raw_std_decode_def b64_decode_encode)
  then show ?thesis
    using keep last \<open>length ?t = 43\<close> unfolding std_decode_def Let_def keep by (simp add: enc)
qed

definition key_text :: string where
  "key_text = std_encode (replicate 32 1)"

lemma key_text_ok: "wgKey key_text" "std_decode key_text = Some (replicate 32 1)"
  by (simp_all add: key_text_def wgKey_def std_decode_encode list_ex_iff)

definition tunnel_peer :: wg_peer where
  "tunnel_peer = \<lparr>wp_PublicKey = key_text, wp_PresharedKey = [], wp_Endpoint = ''h:53'', wp_AllowedIPs = [''::/0''], wp_PersistentKeepalive = 0\<rparr>"

definition tunnel_spec :: wg_spec where
  "tunnel_spec = \<lparr>ws_ID = ''t'', ws_PrivateKey = key_text, ws_Addresses = [''::/0''], ws_ListenPort = 0, ws_MTU = 1420, ws_RouteTable = 51820,
     ws_Peers = [tunnel_peer]\<rparr>"

definition tunnel_json :: jmap where
  "tunnel_json = [(''addresses'', JArr [JStr ''::/0'']), (''id'', JStr ''t''), (''peers'', JArr [JObj [(''allowed_ips'', JArr [JStr ''::/0'']),
     (''endpoint'', JStr ''h:53''), (''public_key'', JStr key_text)]]), (''private_key'', JStr key_text)]"

text \<open>A system without interfaces (or with the one of the tunnel), in which every interface has the sample key.\<close>

definition tunnel_sys :: "bool \<Rightarrow> bool \<Rightarrow> unit tunnel_env" where
  "tunnel_sys up listed = \<lparr>prefix_text = (\<lambda>s. s = ''::/0''), te_sha256 = (\<lambda>_. []), te_public = (\<lambda>b. b), te_linux = True,
     run_net = (\<lambda>cmd conf k. (case cmd of ShowInterfaces \<Rightarrow> Some (if listed then ''asw'' else []) | ShowField _ _ \<Rightarrow> Some key_text
       | QuickUp _ \<Rightarrow> if up then Some [] else None | _ \<Rightarrow> Some [], k))\<rparr>"

definition tunnel_none :: "unit tunnel_world" where
  "tunnel_none = \<lparr>tw_conf = (\<lambda>_. None), tw_state = (\<lambda>_. None), tw_dirs = [], tw_listing = True, tw_kernel = (), tw_log = [], tw_faults = []\<rparr>"

lemma tunnel_json_decoded: "decodeWireGuard (\<lambda>s. s = ''::/0'') tunnel_json = Inr tunnel_spec"
proof -
  have "decode_spec tunnel_json = Some (tunnel_spec\<lparr>ws_MTU := 0, ws_RouteTable := 0\<rparr>)"
    by (simp add: decode_spec_def decode_peers_def decode_peer_def tunnel_json_def tunnel_spec_def tunnel_peer_def str_field_def
        strings_field_def int_field_def get_any_def as_object_def)
  moreover have "safeName ''t''" "validNetworkAddress (\<lambda>_. False) ''h:53'' False = Inr ()" by code_simp+
  ultimately show ?thesis
    by (simp add: decodeWireGuard_def check_spec_def tunnel_spec_def tunnel_peer_def key_text_ok Let_def)
qed

lemma key_text_chars: "c \<in> set key_text \<Longrightarrow> c \<in> url_to_std ` set b64_alphabet \<or> c = CHR ''=''"
  using b64_sextets_less b64_char_in_alphabet by (auto simp: key_text_def std_encode_def Let_def b64_encode_sextets)

lemma trim_key: "trim_space key_text = key_text"
proof (rule trim_space_plain)
  fix c assume "c \<in> set key_text"
  then have "c \<in> url_to_std ` set b64_alphabet \<or> c = CHR ''=''" by (rule key_text_chars)
  then show "\<not> is_space c" by (auto simp: b64_alphabet_def url_to_std_def is_space_def)
qed

lemma sample_verified: "verifyWireGuard (tunnel_sys up listed) tunnel_spec w = (Inr (), w\<lparr>tw_log := tw_log w @ [(ShowField ''asw'' ''public-key'', None)]\<rparr>)"
  by (simp add: verifyWireGuard_def networkExec_def tunnel_sys_def wgInterface_def wgExpectedPublic_def tunnel_spec_def key_text_ok trim_key
      hex_encode_def) (simp add: key_text_def)

lemma sample_exists: "wgExists (tunnel_sys up listed) ''asw'' w = (Some listed, w\<lparr>tw_log := tw_log w @ [(ShowInterfaces, None)]\<rparr>)"
  by (simp add: wgExists_def networkExec_def tunnel_sys_def Fields_def is_space_def)

lemma sample_quick:
  "wgQuick (tunnel_sys up listed) QuickUp i w = (up, w\<lparr>tw_log := tw_log w @ [(QuickUp i, conf_text i w)]\<rparr>)"
  "wgQuick (tunnel_sys up listed) QuickDown i w = (True, w\<lparr>tw_log := tw_log w @ [(QuickDown i, conf_text i w)]\<rparr>)"
  by (simp_all add: wgQuick_def networkExec_def tunnel_sys_def)

lemma sample_interface: "wgInterface (tunnel_sys up listed) i = ''asw''"
  by (simp add: wgInterface_def tunnel_sys_def hex_encode_def)

lemma sample_prefix: "prefix_text (tunnel_sys up listed) = (\<lambda>s. s = ''::/0'')"
  by (simp add: tunnel_sys_def)

lemma spec_id: "ws_ID tunnel_spec = ''t''"
  by (simp add: tunnel_spec_def)

lemmas tunnel_runs = sample_exists sample_quick sample_interface sample_prefix sample_verified spec_id tunnel_json_decoded

lemma sample_result:
  "fst (applyWireGuard (tunnel_sys up False) tunnel_json warp tunnel_none) =
     (if up then Inr tunnel_spec else Inl (UpFailed, Some \<lparr>rr_clean = True, rr_restored = False\<rparr>))"
  by (simp add: applyWireGuard_def tunnel_runs own_interface_def old_state_def tunnel_none_def conf_text_def replace_tunnel_def
      write_conf_def write_tunnel_state_def tunnel_fault_def rollback_tunnel_def undo_interface_def undo_conf_def remove_conf_def Let_def)

lemma sample_tunnel:
  "applyWireGuard (tunnel_sys True False) tunnel_json warp tunnel_none =
     (Inr tunnel_spec, snd (applyWireGuard (tunnel_sys True False) tunnel_json warp tunnel_none))"
  "applyWireGuard (tunnel_sys False False) tunnel_json warp tunnel_none =
     (Inl (UpFailed, Some \<lparr>rr_clean = True, rr_restored = False\<rparr>), snd (applyWireGuard (tunnel_sys False False) tunnel_json warp tunnel_none))"
  by (rule prod_eqI; simp add: sample_result)+

theorem applied_tunnel_is_up_witness:
  "fst (applyWireGuard (tunnel_sys True False) tunnel_json False tunnel_none) = Inr tunnel_spec \<and>
   came_up (tunnel_sys True False) ''t'' tunnel_spec (Some (wgConfig tunnel_spec))
     (snd (applyWireGuard (tunnel_sys True False) tunnel_json False tunnel_none))"
  using applied_tunnel_is_up [OF sample_tunnel(1)] by (simp only: spec_id sample_result) simp

theorem failed_tunnel_is_rolled_back_witness:
  "fst (applyWireGuard (tunnel_sys False False) tunnel_json False tunnel_none) =
     Inl (UpFailed, Some \<lparr>rr_clean = True, rr_restored = False\<rparr>) \<and>
   tw_state (snd (applyWireGuard (tunnel_sys False False) tunnel_json False tunnel_none)) ''t'' = None \<and>
   tw_conf (snd (applyWireGuard (tunnel_sys False False) tunnel_json False tunnel_none)) ''t'' = None"
proof -
  let ?w = "snd (applyWireGuard (tunnel_sys False False) tunnel_json False tunnel_none)"
  have none: "tw_state tunnel_none = (\<lambda>_. None)" "conf_text i tunnel_none = None" for i
    by (simp_all add: tunnel_none_def conf_text_def)
  have "tw_state ?w ''t'' = None \<and> tw_conf ?w ''t'' = None"
    using failed_tunnel_is_rolled_back [OF sample_tunnel(2), of False] by (auto simp: tunnel_runs none kept_text_def)
  then show ?thesis by (simp add: sample_result)
qed

theorem foreign_interface_untouched_witness:
  "\<exists>e w'. applyWireGuard (tunnel_sys True True) tunnel_json False tunnel_none = (Inl (e, None), w') \<and> only_asked tunnel_none w'"
proof -
  have "foreign (tunnel_sys True True) ''t'' tunnel_none"
    by (simp add: foreign_def tunnel_runs) (simp add: tunnel_none_def)
  from foreign_interface_untouched [OF this, of tunnel_json tunnel_spec] show ?thesis by (simp add: tunnel_runs)
qed

lemma key_has_no_break: "newline \<notin> set key_text"
proof
  assume "newline \<in> set key_text"
  from key_text_chars [OF this] show False
    by (auto simp: b64_alphabet_def url_to_std_def newline_def char_of_def)
qed

theorem tunnel_text_has_its_lines_witness: "split_on newline (wgConfig tunnel_spec) = config_lines tunnel_spec @ [[]]"
  by (rule tunnel_text_has_its_lines [OF tunnel_json_decoded])
    (use key_has_no_break in \<open>auto simp: newline_def char_of_def tunnel_spec_def tunnel_peer_def\<close>)

end
