(* ===== verification/Mihomo.thy ===== *)
theory Mihomo
  imports Tunnels
begin

text \<open>
  The auxiliary proxy process (internal/auxiliary/mihomo.go, internal/mihomoapi/ready.go): listeners
  and their checks, the configuration handed to the process, the process itself with its start,
  readiness and stop, and the operations of the manager with their rollback.

  The environment is a parameter: what the binary, the random source, the ports and the process do
  in each turn, and what the process answers in each poll of the readiness loop. Process ids are
  numbers that are never used again; a file operation fails as a list of faults tells. The clock
  counts milliseconds and advances by what a poll takes and by the pause after it.
\<close>

record aux_bridge =
  br_Port :: int
  br_ID :: string

record aux_user =
  au_Email :: string
  au_Password :: string
  au_Bridge :: aux_bridge

record aux_listener =
  al_Name :: string
  al_Type :: string
  al_Listen :: string
  al_Port :: int
  al_Users :: "aux_user list"
  al_Certificate :: string
  al_PrivateKey :: string
  al_Version :: int
  al_UDP :: bool
  al_PaddingScheme :: string

record aux_state =
  as_Enabled :: bool
  as_Listeners :: "aux_listener list"

datatype aux_error = NotConfigured | BinaryMissing | BinaryDigest | VersionUnknown | VersionMismatch
  | NotManaged | BadMaterial | MaterialRead | TooManyListeners | BadListenerName | BadListenerType | BadListenerAddress
  | DuplicateAddress | TooManyUsers | BadSnell | UDPUnsupported | PaddingTooLarge | ForeignUser | BadUser | BadBridgePort
  | BadBridgeID | KeyMismatch | AuxWrite | CandidateRejected | PortTaken string | NoApiPort | NoStart | NoOwner
  | ExitedEarly | Cancelled | NotReady | NoBarrier | BarrierFailed | BarrierIncomplete | ListTooLarge | ListRequired
  | UsersRequired | NoAuxInbound | BadAuxState | AuxRead

text \<open>What the world does in one turn of the manager and in one poll of the readiness loop.\<close>

record aux_turn =
  at_binary :: "bytes option"
  at_version :: "string option"
  at_random :: bytes
  at_accepts :: "jmap \<Rightarrow> bool"
  at_port_free :: "string \<Rightarrow> bool"
  at_api :: "string option"
  at_starts :: bool
  at_owned :: bool

record aux_poll =
  ap_spent :: nat
  ap_exited :: bool
  ap_cancelled :: bool
  ap_get :: "string \<Rightarrow> nat option"
  ap_dial :: "string \<Rightarrow> bool"
  ap_barrier :: "nat option"

record aux_env =
  ae_Binary :: string
  ae_Version :: string
  ae_SHA256 :: string
  ae_DataDir :: string
  ae_cwd :: "string option"
  ae_ValidateUser :: "(string \<Rightarrow> bool) option"
  ae_parse_ip :: "string \<Rightarrow> bool"
  ae_loopback :: "string \<Rightarrow> bool"
  ae_uuid :: "string \<Rightarrow> string option"
  ae_key_pair :: "string \<Rightarrow> string \<Rightarrow> bool"
  ae_sha256 :: "bytes \<Rightarrow> bytes"
  ae_turn :: "nat \<Rightarrow> aux_turn"
  ae_poll :: "nat \<Rightarrow> aux_poll"

datatype material_file = PlainFile string | UnreadableFile | SpecialEntry

datatype aux_state_file = NoAux | AuxText "aux_state option" | UnreadableAux

record aux_world =
  aw_state :: aux_state_file
  aw_config :: "jmap option"
  aw_material :: "string \<Rightarrow> material_file option"
  aw_live :: "nat list"
  aw_runs :: "(nat \<times> jmap) list"
  aw_next :: nat
  aw_clock :: nat
  aw_turns :: nat
  aw_polls :: nat
  aw_faults :: "bool list"

record aux_manager =
  mg_desired :: aux_state
  mg_process :: "nat option"
  mg_api :: string
  mg_secret :: string
  mg_generation :: string
  mg_invalid :: "aux_error option"

definition aux_fault :: "aux_world \<Rightarrow> bool \<times> aux_world" where
  "aux_fault w = (case aw_faults w of [] \<Rightarrow> (False, w) | f # fs \<Rightarrow> (f, w\<lparr>aw_faults := fs\<rparr>))"

definition next_turn :: "aux_env \<Rightarrow> aux_world \<Rightarrow> aux_turn \<times> aux_world" where
  "next_turn env w = (ae_turn env (aw_turns w), w\<lparr>aw_turns := Suc (aw_turns w)\<rparr>)"

section \<open>Checks\<close>

definition verify_binary :: "aux_env \<Rightarrow> aux_turn \<Rightarrow> (aux_error, unit) res" where
  "verify_binary env t =
     (if ae_Binary env = [] \<or> ae_Version env = [] \<or> length (ae_SHA256 env) \<noteq> 64 then Inl NotConfigured
      else case at_binary t of
        None \<Rightarrow> Inl BinaryMissing
      | Some b \<Rightarrow>
          if \<not> equal_fold (hex_encode (ae_sha256 env b)) (ae_SHA256 env) then Inl BinaryDigest
          else case at_version t of
            None \<Rightarrow> Inl VersionUnknown
          | Some out \<Rightarrow> if ae_Version env \<in> set (Fields out) then Inr () else Inl VersionMismatch)"

definition token_char :: "char \<Rightarrow> bool" where
  "token_char c = (let n = of_char c :: nat in 33 \<le> n \<and> n \<le> 126 \<and> c \<notin> set '',()'' \<and> n \<noteq> 34 \<and> n \<noteq> 39 \<and> n \<noteq> 92)"

definition safeToken :: "string \<Rightarrow> bool" where
  "safeToken s = (s \<noteq> [] \<and> length s \<le> 180 \<and> list_all token_char s)"

fun contains_text :: "string \<Rightarrow> string \<Rightarrow> bool" where
  "contains_text [] p = (p = [])"
| "contains_text (c # s) p = (has_prefix (c # s) p \<or> contains_text s p)"

text \<open>\<open>filepath.Rel\<close> between absolute clean paths leaves the base exactly when it starts with two dots.\<close>

definition inside_dir :: "string \<Rightarrow> string \<Rightarrow> bool" where
  "inside_dir base p = (is_abs base \<and> (p = base \<or> has_prefix p (base @ ''/'')))"

definition material :: "aux_env \<Rightarrow> aux_world \<Rightarrow> string \<Rightarrow> (aux_error, string) res" where
  "material env w s =
     (if contains_text s ''-----BEGIN '' then Inr s
      else case abs_path (ae_cwd env) s of
        None \<Rightarrow> Inl NotManaged
      | Some p \<Rightarrow>
          if s = [] \<or> \<not> inside_dir (join_path [ae_DataDir env, ''certificates'']) p then Inl NotManaged
          else case aw_material w p of
            Some (PlainFile t) \<Rightarrow> if length t > 1048576 then Inl BadMaterial else Inr t
          | Some UnreadableFile \<Rightarrow> Inl MaterialRead
          | _ \<Rightarrow> Inl BadMaterial)"

definition listener_address :: "aux_listener \<Rightarrow> string" where
  "listener_address l = JoinHostPort (al_Listen l) (itoa (al_Port l))"

fun check_users :: "aux_env \<Rightarrow> string list \<Rightarrow> aux_user list \<Rightarrow> (aux_error, string list) res" where
  "check_users env seen [] = Inr seen"
| "check_users env seen (u # us) =
     (if (case ae_ValidateUser env of None \<Rightarrow> False | Some ok \<Rightarrow> \<not> ok (au_Email u)) then Inl ForeignUser
      else if \<not> safeToken (au_Email u) \<or> au_Email u \<in> set seen \<or> au_Password u = [] \<or> length (au_Password u) > 4096 then Inl BadUser
      else if br_Port (au_Bridge u) < 1 \<or> br_Port (au_Bridge u) > 65535 then Inl BadBridgePort
      else if ae_uuid env (br_ID (au_Bridge u)) \<noteq> Some (to_lower (br_ID (au_Bridge u))) \<or> length (br_ID (au_Bridge u)) \<noteq> 36 then Inl BadBridgeID
      else check_users env (au_Email u # seen) us)"

definition check_keys :: "aux_env \<Rightarrow> aux_world \<Rightarrow> aux_listener \<Rightarrow> (aux_error, unit) res" where
  "check_keys env w l =
     (if al_Type l = ''anytls'' \<and> al_Users l \<noteq> [] then
        bind_res (material env w (al_Certificate l)) (\<lambda>cert.
          bind_res (material env w (al_PrivateKey l)) (\<lambda>key.
            if ae_key_pair env cert key then Inr () else Inl KeyMismatch))
      else Inr ())"

definition check_listener ::
  "aux_env \<Rightarrow> string list \<Rightarrow> string list \<Rightarrow> aux_listener \<Rightarrow> (aux_error, unit) res" where
  "check_listener env names addresses l =
     (if \<not> safeToken (al_Name l) \<or> al_Name l \<in> set names then Inl BadListenerName
      else if al_Type l \<noteq> ''anytls'' \<and> al_Type l \<noteq> ''snell'' then Inl BadListenerType
      else if \<not> ae_parse_ip env (al_Listen l) \<or> al_Port l < 1 \<or> al_Port l > 65535 then Inl BadListenerAddress
      else if listener_address l \<in> set addresses then Inl DuplicateAddress
      else if length (al_Users l) > 10000 then Inl TooManyUsers
      else if al_Type l = ''snell'' \<and> (length (al_Users l) > 1 \<or> (al_Version l \<noteq> 3 \<and> al_Version l \<noteq> 4)) then Inl BadSnell
      else if al_UDP l then Inl UDPUnsupported
      else if length (al_PaddingScheme l) > 16384 then Inl PaddingTooLarge
      else Inr ())"

fun check_listeners ::
  "aux_env \<Rightarrow> aux_world \<Rightarrow> string list \<Rightarrow> string list \<Rightarrow> string list \<Rightarrow> aux_listener list \<Rightarrow> (aux_error, unit) res" where
  "check_listeners env w names users addresses [] = Inr ()"
| "check_listeners env w names users addresses (l # ls) =
     bind_res (check_listener env names addresses l) (\<lambda>_.
       bind_res (check_users env users (al_Users l)) (\<lambda>users'.
         bind_res (check_keys env w l) (\<lambda>_.
           check_listeners env w (al_Name l # names) users' (listener_address l # addresses) ls)))"

definition validate :: "aux_env \<Rightarrow> aux_world \<Rightarrow> aux_listener list \<Rightarrow> (aux_error, unit) res" where
  "validate env w ls = (if length ls > 256 then Inl TooManyListeners else check_listeners env w [] [] [] ls)"

section \<open>Configuration\<close>

definition bridge_name :: "aux_env \<Rightarrow> string \<Rightarrow> string" where
  "bridge_name env email = ''aswired-bridge-'' @ hex_encode (take 12 (ae_sha256 env (bytes_of email)))"

definition bridge_proxy :: "aux_env \<Rightarrow> aux_user \<Rightarrow> jmap" where
  "bridge_proxy env u =
     [(''name'', JStr (bridge_name env (au_Email u))), (''network'', JStr ''tcp''), (''port'', JNum (itoa (br_Port (au_Bridge u)))),
      (''server'', JStr ''127.0.0.1''), (''tls'', JBool False), (''type'', JStr ''vless''), (''udp'', JBool False),
      (''uuid'', JStr (br_ID (au_Bridge u)))]"

definition user_rule :: "aux_env \<Rightarrow> aux_user \<Rightarrow> string" where
  "user_rule env u = ''IN-USER,'' @ au_Email u @ '','' @ bridge_name env (au_Email u)"

text \<open>The loop over the users: the item, the passwords, the proxies and the rules.\<close>

fun config_users ::
  "aux_env \<Rightarrow> string \<Rightarrow> aux_user list \<Rightarrow> jmap \<Rightarrow> jmap \<Rightarrow> jmap list \<Rightarrow> string list \<Rightarrow> jmap \<times> jmap \<times> jmap list \<times> string list" where
  "config_users env kind [] item users proxies rules = (item, users, proxies, rules)"
| "config_users env kind (u # us) item users proxies rules =
     (let proxies' = proxies @ [bridge_proxy env u]; users' = put_key (au_Email u) (JStr (au_Password u)) users in
      if kind = ''snell'' then config_users env kind us (put_key ''proxy'' (JStr (bridge_name env (au_Email u))) item) users' proxies' rules
      else config_users env kind us item users' proxies' (rules @ [user_rule env u]))"

definition config_item :: "aux_env \<Rightarrow> aux_world \<Rightarrow> aux_listener \<Rightarrow> jmap \<Rightarrow> jmap \<Rightarrow> (aux_error, jmap) res" where
  "config_item env w l item users =
     (if al_Type l = ''anytls'' then
        bind_res (material env w (al_Certificate l)) (\<lambda>cert.
          bind_res (material env w (al_PrivateKey l)) (\<lambda>key.
            let item' = put_key ''private-key'' (JStr key) (put_key ''certificate'' (JStr cert) (put_key ''users'' (JObj users) item)) in
            Inr (if al_PaddingScheme l \<noteq> [] then put_key ''padding-scheme'' (JStr (al_PaddingScheme l)) item' else item')))
      else Inr (put_key ''udp'' (JBool False) (put_key ''version'' (JNum (itoa (al_Version l)))
        (put_key ''psk'' (JStr (au_Password (hd (al_Users l)))) item))))"

fun config_listeners ::
  "aux_env \<Rightarrow> aux_world \<Rightarrow> aux_listener list \<Rightarrow> jmap list \<Rightarrow> jmap list \<Rightarrow> string list \<Rightarrow> (aux_error, jmap list \<times> jmap list \<times> string list) res" where
  "config_listeners env w [] items proxies rules = Inr (items, proxies, rules)"
| "config_listeners env w (l # ls) items proxies rules =
     (if al_Users l = [] then config_listeners env w ls items proxies rules
      else case config_users env (al_Type l) (al_Users l)
          [(''listen'', JStr (al_Listen l)), (''name'', JStr (al_Name l)), (''port'', JNum (itoa (al_Port l))), (''type'', JStr (al_Type l))]
          [] proxies rules of
        (item, users, proxies', rules') \<Rightarrow>
          bind_res (config_item env w l item users) (\<lambda>item'. config_listeners env w ls (items @ [item']) proxies' rules'))"

definition configuration :: "aux_env \<Rightarrow> aux_world \<Rightarrow> aux_listener list \<Rightarrow> string \<Rightarrow> string \<Rightarrow> (aux_error, jmap) res" where
  "configuration env w ls api secret =
     bind_res (config_listeners env w ls [] [] []) (\<lambda>(items, proxies, rules).
       Inr [(''allow-lan'', JBool True), (''bind-address'', JStr ''127.0.0.1''), (''dns'', JObj [(''enable'', JBool False)]),
         (''external-controller'', JStr api), (''external-controller-cors'', JObj [(''allow-origins'', JArr [])]),
         (''ipv6'', JBool True), (''listeners'', JArr (map JObj items)), (''log-level'', JStr ''error''), (''mode'', JStr ''rule''),
         (''proxies'', JArr (map JObj proxies)), (''rules'', JArr (map JStr (rules @ [''MATCH,REJECT'']))), (''secret'', JStr secret)])"

section \<open>The process\<close>

definition running_process :: "aux_manager \<Rightarrow> aux_world \<Rightarrow> bool" where
  "running_process m w = (case mg_process m of None \<Rightarrow> False | Some pid \<Rightarrow> pid \<in> set (aw_live w))"

definition kill_process :: "nat \<Rightarrow> aux_world \<Rightarrow> aux_world" where
  "kill_process pid w = w\<lparr>aw_live := removeAll pid (aw_live w)\<rparr>"

definition stop_process :: "aux_manager \<Rightarrow> aux_world \<Rightarrow> aux_manager \<times> aux_world" where
  "stop_process m w =
     (m\<lparr>mg_process := None, mg_api := [], mg_secret := []\<rparr>,
      case mg_process m of None \<Rightarrow> w | Some pid \<Rightarrow> if running_process m w then kill_process pid w else w)"

definition random_id :: "aux_env \<Rightarrow> aux_world \<Rightarrow> string \<times> aux_world" where
  "random_id env w = (case next_turn env w of (t, w1) \<Rightarrow> (hex_encode (at_random t), w1))"

definition check_addresses :: "aux_turn \<Rightarrow> string list \<Rightarrow> aux_listener list \<Rightarrow> (aux_error, unit) res" where
  "check_addresses t current ls =
     (case List.find (\<lambda>l. al_Users l \<noteq> [] \<and> listener_address l \<notin> set current \<and> \<not> at_port_free t (listener_address l)) ls of
        None \<Rightarrow> Inr ()
      | Some l \<Rightarrow> Inl (PortTaken (al_Name l)))"

definition current_addresses :: "aux_manager \<Rightarrow> aux_world \<Rightarrow> string list" where
  "current_addresses m w =
     (if running_process m w then map listener_address (filter (\<lambda>l. al_Users l \<noteq> []) (as_Listeners (mg_desired m))) else [])"

text \<open>The candidate file is written, tried by the binary, and removed.\<close>

definition preflight :: "aux_env \<Rightarrow> aux_listener list \<Rightarrow> aux_manager \<Rightarrow> aux_world \<Rightarrow> (aux_error, unit) res \<times> aux_manager \<times> aux_world" where
  "preflight env ls m w =
     (case next_turn env w of (t, w1) \<Rightarrow>
        case verify_binary env t of
          Inl e \<Rightarrow> (Inl e, m\<lparr>mg_invalid := Some e\<rparr>, w1)
        | Inr _ \<Rightarrow>
            let m1 = m\<lparr>mg_invalid := None\<rparr> in
            (case validate env w1 ls of
               Inl e \<Rightarrow> (Inl e, m1, w1)
             | Inr _ \<Rightarrow>
                 (case random_id env w1 of (secret, w2) \<Rightarrow>
                    case configuration env w2 ls ''127.0.0.1:1'' secret of
                      Inl e \<Rightarrow> (Inl e, m1, w2)
                    | Inr config \<Rightarrow>
                        (case aux_fault w2 of (failed, w3) \<Rightarrow>
                           if failed then (Inl AuxWrite, m1, w3)
                           else if \<not> at_accepts t config then (Inl CandidateRejected, m1, w3)
                           else (check_addresses t (current_addresses m1 w3) ls, m1, w3)))))"

text \<open>The barrier of the private API: a loopback address, a secret, and the answer 204.\<close>

definition AwaitConfiguration :: "(string \<Rightarrow> bool) \<Rightarrow> string \<Rightarrow> string \<Rightarrow> nat option \<Rightarrow> (aux_error, unit) res" where
  "AwaitConfiguration loopback address secret answer =
     (case SplitHostPort address of
        None \<Rightarrow> Inl NoBarrier
      | Some (host, _) \<Rightarrow>
          if \<not> loopback host \<or> secret = [] then Inl NoBarrier
          else case answer of None \<Rightarrow> Inl BarrierFailed | Some code \<Rightarrow> if code \<noteq> 204 then Inl BarrierIncomplete else Inr ())"

definition dial_host :: "aux_listener \<Rightarrow> string" where
  "dial_host l = (let host = (if al_Listen l = ''0.0.0.0'' then ''127.0.0.1'' else al_Listen l) in if host = ''::'' then ''::1'' else host)"

definition listeners_ready :: "aux_env \<Rightarrow> aux_poll \<Rightarrow> aux_listener list \<Rightarrow> bool" where
  "listeners_ready env p ls =
     list_all (\<lambda>l. al_Users l = [] \<or>
       (list_all (\<lambda>u. ap_get p (''/proxies/'' @ bridge_name env (au_Email u)) = Some 200) (al_Users l) \<and>
        ap_dial p (JoinHostPort (dial_host l) (itoa (al_Port l))))) ls"

text \<open>A poll is used up, and may find that the process has exited.\<close>

definition see_poll :: "aux_manager \<Rightarrow> aux_poll \<Rightarrow> aux_world \<Rightarrow> aux_world" where
  "see_poll m p w =
     (let w1 = w\<lparr>aw_polls := Suc (aw_polls w)\<rparr> in
      case mg_process m of Some pid \<Rightarrow> if ap_exited p then kill_process pid w1 else w1 | None \<Rightarrow> w1)"

text \<open>
  The readiness loop. A poll that is not the last takes its time and is followed by a pause of 50 ms,
  so the deadline comes nearer in every turn. \<open>cx\<close> says whether the context can be cancelled at all.
\<close>

function await_ready ::
  "aux_env \<Rightarrow> bool \<Rightarrow> aux_listener list \<Rightarrow> nat \<Rightarrow> aux_manager \<Rightarrow> aux_world \<Rightarrow> (aux_error, unit) res \<times> aux_manager \<times> aux_world" where
  "await_ready env cx ls deadline m w =
     (if aw_clock w < deadline then
        let p = ae_poll env (aw_polls w);
            w1 = see_poll m p w in
        if \<not> running_process m w1 then (Inl ExitedEarly, stop_process m w1)
        else if cx \<and> ap_cancelled p then (Inl Cancelled, stop_process m w1)
        else if ap_get p ''/version'' = Some 200 \<and> listeners_ready env p ls then
          (case AwaitConfiguration (ae_loopback env) (mg_api m) (mg_secret m) (ap_barrier p) of
             Inl e \<Rightarrow> (Inl e, stop_process m w1)
           | Inr _ \<Rightarrow> (Inr (), m, w1))
        else await_ready env cx ls deadline m (w1\<lparr>aw_clock := aw_clock w + ap_spent p + 50\<rparr>)
      else (Inl NotReady, stop_process m w))"
  by auto
termination by (relation "measure (\<lambda>(env, cx, ls, deadline, m, w). deadline - aw_clock w)") auto

declare await_ready.simps [simp del]

definition launch :: "aux_env \<Rightarrow> bool \<Rightarrow> aux_listener list \<Rightarrow> aux_manager \<Rightarrow> aux_world \<Rightarrow> (aux_error, unit) res \<times> aux_manager \<times> aux_world" where
  "launch env cx ls m w =
     (case next_turn env w of (t, w1) \<Rightarrow>
        case at_api t of
          None \<Rightarrow> (Inl NoApiPort, m, w1)
        | Some api \<Rightarrow>
            (case random_id env w1 of (secret, w2) \<Rightarrow>
               case configuration env w2 ls api secret of
                 Inl e \<Rightarrow> (Inl e, m, w2)
               | Inr config \<Rightarrow>
                   (case aux_fault w2 of (failed, w3) \<Rightarrow>
                      if failed then (Inl AuxWrite, m, w3)
                      else let w4 = w3\<lparr>aw_config := Some config\<rparr> in
                        if \<not> at_starts t then (Inl NoStart, m, w4)
                        else let pid = aw_next w4; w5 = w4\<lparr>aw_next := Suc pid, aw_live := pid # aw_live w4, aw_runs := (pid, config) # aw_runs w4\<rparr> in
                          if \<not> at_owned t then (Inl NoOwner, m, kill_process pid w5)
                          else (case random_id env w5 of (generation, w6) \<Rightarrow>
                            await_ready env cx ls (aw_clock w6 + 8000)
                              (m\<lparr>mg_process := Some pid, mg_api := api, mg_secret := secret, mg_generation := generation\<rparr>) w6))))"

definition save_state :: "aux_state \<Rightarrow> aux_world \<Rightarrow> (aux_error, unit) res \<times> aux_world" where
  "save_state st w = (case aux_fault w of (failed, w1) \<Rightarrow>
     if failed then (Inl AuxWrite, w1) else (Inr (), w1\<lparr>aw_state := AuxText (Some st)\<rparr>))"

section \<open>Operations\<close>

text \<open>The report of an undone change is whether the old process is back.\<close>

definition recover_aux ::
  "aux_env \<Rightarrow> aux_state \<Rightarrow> bool \<Rightarrow> aux_manager \<Rightarrow> aux_world \<Rightarrow> bool \<times> aux_manager \<times> aux_world" where
  "recover_aux env old wasRunning m w =
     (case stop_process m w of (m1, w1) \<Rightarrow>
        if wasRunning then (case launch env False (as_Listeners old) m1 w1 of (r, m2, w2) \<Rightarrow> (is_ok r, m2, w2))
        else (True, m1, w1))"

definition apply_aux ::
  "aux_env \<Rightarrow> aux_listener list \<Rightarrow> aux_manager \<Rightarrow> aux_world \<Rightarrow> (aux_error \<times> bool option, unit) res \<times> aux_manager \<times> aux_world" where
  "apply_aux env ls m w =
     (if ls = [] then
        let st = \<lparr>as_Enabled = False, as_Listeners = []\<rparr> in
        (case save_state st w of
           (Inl e, w1) \<Rightarrow> (Inl (e, None), m, w1)
         | (Inr _, w1) \<Rightarrow> (case stop_process m w1 of (m2, w2) \<Rightarrow> (Inr (), m2\<lparr>mg_desired := st\<rparr>, w2)))
      else case preflight env ls m w of
        (Inl e, m1, w1) \<Rightarrow> (Inl (e, None), m1, w1)
      | (Inr _, m1, w1) \<Rightarrow>
          (case stop_process m1 w1 of (m2, w2) \<Rightarrow>
             case launch env True ls m2 w2 of
               (Inl e, m3, w3) \<Rightarrow>
                 (case recover_aux env (mg_desired m1) (running_process m1 w1) m3 w3 of (back, m4, w4) \<Rightarrow> (Inl (e, Some back), m4, w4))
             | (Inr _, m3, w3) \<Rightarrow>
                 let st = \<lparr>as_Enabled = True, as_Listeners = ls\<rparr> in
                 (case save_state st w3 of
                    (Inl e, w4) \<Rightarrow>
                      (case recover_aux env (mg_desired m1) (running_process m1 w1) m3 w4 of (back, m5, w5) \<Rightarrow> (Inl (e, Some back), m5, w5))
                  | (Inr _, w4) \<Rightarrow> (Inr (), m3\<lparr>mg_desired := st\<rparr>, w4))))"

definition bool_field :: "jmap \<Rightarrow> string \<Rightarrow> bool option" where
  "bool_field kvs k = (case get_any kvs k of JNull \<Rightarrow> Some False | JBool b \<Rightarrow> Some b | _ \<Rightarrow> None)"

definition decode_user :: "json \<Rightarrow> aux_user option" where
  "decode_user v =
     (case as_object (Some v) of
        None \<Rightarrow> None
      | Some kvs \<Rightarrow>
          (case (str_field kvs ''email'', str_field kvs ''password'', as_object (Some (get_any kvs ''bridge''))) of
             (Some email, Some password, Some b) \<Rightarrow>
               (case (int_field b ''port'', str_field b ''id'') of
                  (Some port, Some i) \<Rightarrow> Some \<lparr>au_Email = email, au_Password = password, au_Bridge = \<lparr>br_Port = port, br_ID = i\<rparr>\<rparr>
                | _ \<Rightarrow> None)
           | _ \<Rightarrow> None))"

definition decode_users :: "json \<Rightarrow> aux_user list option" where
  "decode_users v = (case v of JNull \<Rightarrow> Some [] | JArr vs \<Rightarrow> traverse_opt decode_user vs | _ \<Rightarrow> None)"

definition decode_listener :: "json \<Rightarrow> aux_listener option" where
  "decode_listener v =
     (case as_object (Some v) of
        None \<Rightarrow> None
      | Some kvs \<Rightarrow>
          (case (str_field kvs ''name'', str_field kvs ''type'', str_field kvs ''listen'', int_field kvs ''port'', decode_users (get_any kvs ''users'')) of
             (Some name, Some kind, Some listen, Some port, Some users) \<Rightarrow>
               (case (str_field kvs ''certificate'', str_field kvs ''private_key'', int_field kvs ''version'', bool_field kvs ''udp'', str_field kvs ''padding_scheme'') of
                  (Some cert, Some key, Some version, Some udp, Some padding) \<Rightarrow>
                    Some \<lparr>al_Name = name, al_Type = kind, al_Listen = listen, al_Port = port, al_Users = users, al_Certificate = cert,
                      al_PrivateKey = key, al_Version = version, al_UDP = udp, al_PaddingScheme = padding\<rparr>
                | _ \<Rightarrow> None)
           | _ \<Rightarrow> None))"

text \<open>\<open>size\<close>: the length of the text \<open>json.Marshal\<close> makes of the value.\<close>

definition Apply_aux ::
  "aux_env \<Rightarrow> (json \<Rightarrow> nat) \<Rightarrow> json \<Rightarrow> aux_manager \<Rightarrow> aux_world \<Rightarrow> (aux_error \<times> bool option, unit) res \<times> aux_manager \<times> aux_world" where
  "Apply_aux env json_size raw m w =
     (if json_size raw > 8388608 then (Inl (ListTooLarge, None), m, w)
      else case raw of
        JArr vs \<Rightarrow> (case traverse_opt decode_listener vs of None \<Rightarrow> (Inl (ListRequired, None), m, w) | Some ls \<Rightarrow> apply_aux env ls m w)
      | _ \<Rightarrow> (Inl (ListRequired, None), m, w))"

fun set_users :: "string \<Rightarrow> aux_user list \<Rightarrow> aux_listener list \<Rightarrow> aux_listener list option" where
  "set_users name users [] = None"
| "set_users name users (l # ls) =
     (if al_Name l = name then Some (l\<lparr>al_Users := users\<rparr> # ls) else map_option (Cons l) (set_users name users ls))"

definition Sync_aux ::
  "aux_env \<Rightarrow> string \<Rightarrow> json \<Rightarrow> aux_manager \<Rightarrow> aux_world \<Rightarrow> (aux_error \<times> bool option, unit) res \<times> aux_manager \<times> aux_world" where
  "Sync_aux env name raw m w =
     (case raw of
        JArr vs \<Rightarrow>
          (case traverse_opt decode_user vs of
             None \<Rightarrow> (Inl (UsersRequired, None), m, w)
           | Some users \<Rightarrow>
               (case set_users name users (as_Listeners (mg_desired m)) of
                  None \<Rightarrow> (Inl (NoAuxInbound, None), m, w)
                | Some ls \<Rightarrow> apply_aux env ls m w))
      | _ \<Rightarrow> (Inl (UsersRequired, None), m, w))"

definition Start_aux :: "aux_env \<Rightarrow> aux_manager \<Rightarrow> aux_world \<Rightarrow> (aux_error, unit) res \<times> aux_manager \<times> aux_world" where
  "Start_aux env m w =
     (if running_process m w \<or> \<not> as_Enabled (mg_desired m) then (Inr (), m, w)
      else case preflight env (as_Listeners (mg_desired m)) m w of
        (Inl e, m1, w1) \<Rightarrow> (Inl e, m1, w1)
      | (Inr _, m1, w1) \<Rightarrow> launch env True (as_Listeners (mg_desired m)) m1 w1)"

definition Activate_aux ::
  "aux_env \<Rightarrow> aux_manager \<Rightarrow> aux_world \<Rightarrow> (aux_error \<times> bool option, unit) res \<times> aux_manager \<times> aux_world" where
  "Activate_aux env m w = apply_aux env (as_Listeners (mg_desired m)) m w"

definition Stop_aux :: "aux_manager \<Rightarrow> aux_world \<Rightarrow> (aux_error, unit) res \<times> aux_manager \<times> aux_world" where
  "Stop_aux m w =
     (let st = (mg_desired m)\<lparr>as_Enabled := False\<rparr> in
      case save_state st w of
        (Inl e, w1) \<Rightarrow> (Inl e, m, w1)
      | (Inr _, w1) \<Rightarrow> (case stop_process m w1 of (m2, w2) \<Rightarrow> (Inr (), m2\<lparr>mg_desired := st\<rparr>, w2)))"

definition Close_aux :: "aux_manager \<Rightarrow> aux_world \<Rightarrow> aux_manager \<times> aux_world" where
  "Close_aux m w = stop_process m w"

definition New_aux :: "aux_env \<Rightarrow> aux_world \<Rightarrow> (aux_error, aux_manager) res \<times> aux_world" where
  "New_aux env w =
     (case aux_fault w of (failed, w1) \<Rightarrow>
        if failed then (Inl AuxWrite, w1)
        else case aw_state w1 of
          UnreadableAux \<Rightarrow> (Inl AuxRead, w1)
        | AuxText None \<Rightarrow> (Inl BadAuxState, w1)
        | f \<Rightarrow>
            (case next_turn env w1 of (t, w2) \<Rightarrow>
               (Inr \<lparr>mg_desired = (case f of AuxText (Some st) \<Rightarrow> st | _ \<Rightarrow> \<lparr>as_Enabled = False, as_Listeners = []\<rparr>), mg_process = None,
                  mg_api = [], mg_secret = [], mg_generation = [],
                  mg_invalid = (case verify_binary env t of Inl e \<Rightarrow> Some e | Inr _ \<Rightarrow> None)\<rparr>, w2)))"

section \<open>Reports\<close>

definition Available_aux :: "aux_manager \<Rightarrow> bool" where
  "Available_aux m = (mg_invalid m = None)"

record listener_report =
  lr_name :: string
  lr_type :: string
  lr_listen :: string
  lr_port :: int
  lr_users :: nat
  lr_enabled :: bool
  lr_version :: int

record aux_snapshot =
  sn_running :: bool
  sn_enabled :: bool
  sn_pid :: nat
  sn_generation :: string
  sn_version :: string
  sn_listeners :: "listener_report list"
  sn_available :: bool
  sn_error :: "aux_error option"

definition snapshot_aux :: "aux_env \<Rightarrow> aux_manager \<Rightarrow> aux_world \<Rightarrow> aux_snapshot" where
  "snapshot_aux env m w =
     \<lparr>sn_running = running_process m w, sn_enabled = as_Enabled (mg_desired m),
      sn_pid = (case mg_process m of Some pid \<Rightarrow> if running_process m w then pid else 0 | None \<Rightarrow> 0),
      sn_generation = mg_generation m, sn_version = ae_Version env,
      sn_listeners = map (\<lambda>l. \<lparr>lr_name = al_Name l, lr_type = al_Type l, lr_listen = al_Listen l, lr_port = al_Port l,
        lr_users = length (al_Users l), lr_enabled = (al_Users l \<noteq> []), lr_version = al_Version l\<rparr>) (as_Listeners (mg_desired m)),
      sn_available = Available_aux m, sn_error = mg_invalid m\<rparr>"

definition BridgeEmails :: "aux_manager \<Rightarrow> string list" where
  "BridgeEmails m =
     (if as_Enabled (mg_desired m) then concat (map (\<lambda>l. map au_Email (al_Users l)) (as_Listeners (mg_desired m))) else [])"

section \<open>Starting the process\<close>

lemma stop_process_simps:
  "mg_process (fst (stop_process m w)) = None" "mg_desired (fst (stop_process m w)) = mg_desired m"
  "aw_live (snd (stop_process m w)) = (case mg_process m of None \<Rightarrow> aw_live w | Some pid \<Rightarrow> removeAll pid (aw_live w))"
  "aw_state (snd (stop_process m w)) = aw_state w" "aw_runs (snd (stop_process m w)) = aw_runs w" "aw_next (snd (stop_process m w)) = aw_next w"
  "aw_polls (snd (stop_process m w)) = aw_polls w" "aw_config (snd (stop_process m w)) = aw_config w"
  "aw_material (snd (stop_process m w)) = aw_material w"
  by (auto simp: stop_process_def kill_process_def running_process_def split: option.splits)

lemma one_poll: "0 < (x :: nat) \<Longrightarrow> 1 \<le> (x + 49) div 50"
  using div_le_mono [of 50 "x + 49" 50] by simp

lemma polls_left: "0 < (x :: nat) \<Longrightarrow> Suc ((x - (s + 50) + 49) div 50) \<le> (x + 49) div 50"
proof (cases "x \<le> s + 50")
  case False
  then have "x - (s + 50) + 49 + 50 \<le> x + 49" by simp
  from div_le_mono [OF this, of 50] show ?thesis by simp
qed (simp add: one_poll)

text \<open>
  What the readiness loop does: it ends after one poll per 50 ms until the deadline, and either the process
  is up, or it is gone. The files and the records of started processes are not touched.
\<close>

lemma await_ready_spec:
  assumes "await_ready env cx ls deadline m w = (r, m', w')" "mg_process m = Some pid"
  shows "aw_polls w' \<le> aw_polls w + (deadline - aw_clock w + 49) div 50 \<and> mg_desired m' = mg_desired m \<and>
    aw_state w' = aw_state w \<and> aw_runs w' = aw_runs w \<and> aw_next w' = aw_next w \<and> aw_config w' = aw_config w \<and>
    (is_ok r \<longrightarrow> m' = m \<and> pid \<in> set (aw_live w') \<and> aw_live w' = aw_live w) \<and>
    (\<not> is_ok r \<longrightarrow> mg_process m' = None \<and> aw_live w' = removeAll pid (aw_live w))"
  using assms
proof (induction env cx ls deadline m w rule: await_ready.induct)
  case (1 env cx ls deadline m w)
  define p where "p = ae_poll env (aw_polls w)"
  define w1 where "w1 = see_poll m p w"
  have w1: "aw_polls w1 = Suc (aw_polls w)" "aw_live w1 = (if ap_exited p then removeAll pid (aw_live w) else aw_live w)"
    "aw_state w1 = aw_state w" "aw_runs w1 = aw_runs w" "aw_next w1 = aw_next w" "aw_config w1 = aw_config w"
    using "1.prems"(2) by (simp_all add: w1_def see_poll_def kill_process_def Let_def)
  have stopped: "(r, m', w') = (Inl e, stop_process m w1) \<Longrightarrow> aw_clock w < deadline \<Longrightarrow> ?case" for e
  proof -
    assume a: "(r, m', w') = (Inl e, stop_process m w1)" "aw_clock w < deadline"
    have "1 \<le> (deadline - aw_clock w + 49) div 50" using a(2) by (intro one_poll) simp
    then show ?case using a(1) "1.prems"(2) stop_process_simps [of m w1] by (cases "stop_process m w1") (auto simp: w1)
  qed
  show ?case
  proof (cases "aw_clock w < deadline")
    case False
    then have "(r, m', w') = (Inl NotReady, stop_process m w)" using "1.prems"(1) by (simp add: await_ready.simps)
    then show ?thesis using "1.prems"(2) stop_process_simps [of m w] by (cases "stop_process m w") simp
  next
    case before: True
    have step: "await_ready env cx ls deadline m w =
       (if \<not> running_process m w1 then (Inl ExitedEarly, stop_process m w1)
        else if cx \<and> ap_cancelled p then (Inl Cancelled, stop_process m w1)
        else if ap_get p ''/version'' = Some 200 \<and> listeners_ready env p ls then
          (case AwaitConfiguration (ae_loopback env) (mg_api m) (mg_secret m) (ap_barrier p) of
             Inl e \<Rightarrow> (Inl e, stop_process m w1)
           | Inr _ \<Rightarrow> (Inr (), m, w1))
        else await_ready env cx ls deadline m (w1\<lparr>aw_clock := aw_clock w + ap_spent p + 50\<rparr>))"
      by (subst await_ready.simps) (simp only: Let_def before if_True p_def [symmetric] w1_def [symmetric])
    show ?thesis
    proof (cases "\<not> running_process m w1 \<or> (cx \<and> ap_cancelled p) \<or> (ap_get p ''/version'' = Some 200 \<and> listeners_ready env p ls)")
      case True
      show ?thesis
      proof (cases "\<exists>e. (r, m', w') = (Inl e, stop_process m w1)")
        case True
        then show ?thesis using stopped before by blast
      next
        case False
        then have "(r, m', w') = (Inr (), m, w1)" "running_process m w1"
          using True step "1.prems"(1) by (auto split: if_splits sum.splits)
        moreover have "1 \<le> (deadline - aw_clock w + 49) div 50" using before by (intro one_poll) simp
        ultimately show ?thesis using "1.prems"(2) by (auto simp: w1 running_process_def split: if_splits)
      qed
    next
      case False
      let ?w = "w1\<lparr>aw_clock := aw_clock w + ap_spent p + 50\<rparr>"
      have live: "aw_live w1 = aw_live w" using False "1.prems"(2) by (auto simp: w1 running_process_def split: if_splits)
      have neg: "running_process m w1" "\<not> (cx \<and> ap_cancelled p)" "\<not> (ap_get p ''/version'' = Some 200 \<and> listeners_ready env p ls)"
        using False by blast+
      have run: "await_ready env cx ls deadline m ?w = (r, m', w')"
        using "1.prems"(1) unfolding step by (simp only: neg if_False simp_thms)
      have less: "Suc ((deadline - (aw_clock w + ap_spent p + 50) + 49) div 50) \<le> (deadline - aw_clock w + 49) div 50"
        using polls_left [of "deadline - aw_clock w" "ap_spent p"] before by (simp add: diff_diff_add)
      have "aw_polls w' \<le> aw_polls ?w + (deadline - aw_clock ?w + 49) div 50 \<and> mg_desired m' = mg_desired m \<and>
          aw_state w' = aw_state ?w \<and> aw_runs w' = aw_runs ?w \<and> aw_next w' = aw_next ?w \<and> aw_config w' = aw_config ?w \<and>
          (is_ok r \<longrightarrow> m' = m \<and> pid \<in> set (aw_live w') \<and> aw_live w' = aw_live ?w) \<and>
          (\<not> is_ok r \<longrightarrow> mg_process m' = None \<and> aw_live w' = removeAll pid (aw_live ?w))"
        by (rule "1.IH" [OF before p_def w1_def _ neg(2,3) run "1.prems"(2)]) (simp add: neg(1))
      then show ?thesis using less live by (auto simp: w1)
    qed
  qed
qed

text \<open>What started process \<open>pid\<close>: a configuration of these listeners, made with some state of the certificates.\<close>

definition started_with :: "aux_env \<Rightarrow> aux_world \<Rightarrow> nat \<Rightarrow> aux_listener list \<Rightarrow> bool" where
  "started_with env w pid ls \<longleftrightarrow> (\<exists>config w0 api secret. (pid, config) \<in> set (aw_runs w) \<and> configuration env w0 ls api secret = Inr config)"

definition fresh_ids :: "aux_manager \<Rightarrow> aux_world \<Rightarrow> bool" where
  "fresh_ids m w \<longleftrightarrow> (\<forall>pid. pid \<in> set (aw_live w) \<or> mg_process m = Some pid \<longrightarrow> pid < aw_next w)"

lemma aux_fault_same: "aux_fault w = (f, w1) \<Longrightarrow> w1 = w\<lparr>aw_faults := aw_faults w1\<rparr>"
  by (auto simp: aux_fault_def split: list.splits)

lemma launch_spec:
  assumes "launch env cx ls m w = (r, m', w')" "fresh_ids m w"
  shows "mg_desired m' = mg_desired m \<and> aw_state w' = aw_state w \<and> set (aw_runs w) \<subseteq> set (aw_runs w') \<and> aw_polls w' \<le> aw_polls w + 160 \<and>
    aw_next w \<le> aw_next w' \<and>
    (is_ok r \<longrightarrow> mg_process m' = Some (aw_next w) \<and> aw_live w' = aw_next w # aw_live w \<and> aw_next w' = Suc (aw_next w) \<and>
       started_with env w' (aw_next w) ls) \<and>
    (\<not> is_ok r \<longrightarrow> (mg_process m' = None \<or> mg_process m' = mg_process m) \<and> aw_live w' = aw_live w)"
proof -
  obtain t w1 where t: "next_turn env w = (t, w1)" by fastforce
  obtain secret w2 where s: "random_id env w1 = (secret, w2)" by fastforce
  have same: "aw_state w2 = aw_state w" "aw_runs w2 = aw_runs w" "aw_polls w2 = aw_polls w" "aw_next w2 = aw_next w" "aw_live w2 = aw_live w"
    using t s by (auto simp: next_turn_def random_id_def)
  have w1: "aw_state w1 = aw_state w" "aw_runs w1 = aw_runs w" "aw_polls w1 = aw_polls w" "aw_next w1 = aw_next w" "aw_live w1 = aw_live w"
    using t by (auto simp: next_turn_def)
  have fresh: "aw_next w \<notin> set (aw_live w)" using assms(2) by (auto simp: fresh_ids_def)
  show ?thesis
  proof (cases "\<exists>api config. at_api t = Some api \<and> configuration env w2 ls api secret = Inr config")
    case False
    then show ?thesis using assms(1) t s same w1 by (auto simp: launch_def split: option.splits sum.splits)
  next
    case True
    then obtain api config where c: "at_api t = Some api" "configuration env w2 ls api secret = Inr config" by blast
    obtain failed w3 where f: "aux_fault w2 = (failed, w3)" by fastforce
    have w3: "aw_state w3 = aw_state w" "aw_runs w3 = aw_runs w" "aw_polls w3 = aw_polls w" "aw_next w3 = aw_next w" "aw_live w3 = aw_live w"
      using aux_fault_same [OF f] same by (metis aux_world.select_convs aux_world.surjective aux_world.update_convs(10))+
    define pid where "pid = aw_next w"
    define w5 where "w5 = w3\<lparr>aw_config := Some config, aw_next := Suc pid, aw_live := pid # aw_live w, aw_runs := (pid, config) # aw_runs w\<rparr>"
    obtain generation w6 where g: "random_id env w5 = (generation, w6)" by fastforce
    let ?m = "m\<lparr>mg_process := Some pid, mg_api := api, mg_secret := secret, mg_generation := generation\<rparr>"
    have w6: "aw_state w6 = aw_state w" "aw_runs w6 = (pid, config) # aw_runs w" "aw_polls w6 = aw_polls w" "aw_next w6 = Suc pid"
      "aw_live w6 = pid # aw_live w"
      using g w3 by (auto simp: random_id_def next_turn_def w5_def)
    have run: "launch env cx ls m w = (if failed then (Inl AuxWrite, m, w3)
        else if \<not> at_starts t then (Inl NoStart, m, w3\<lparr>aw_config := Some config\<rparr>)
        else if \<not> at_owned t then (Inl NoOwner, m, kill_process pid w5)
        else await_ready env cx ls (aw_clock w6 + 8000) ?m w6)"
      using t s c f g w3 by (simp add: launch_def Let_def w5_def pid_def)
    show ?thesis
    proof (cases "failed \<or> \<not> at_starts t \<or> \<not> at_owned t")
      case True
      then show ?thesis using assms(1) run w3 fresh by (auto simp: w5_def kill_process_def pid_def split: if_splits)
    next
      case False
      then have "await_ready env cx ls (aw_clock w6 + 8000) ?m w6 = (r, m', w')" using assms(1) run by simp
      from await_ready_spec [OF this, of pid] show ?thesis
        using w6 fresh c(2) by (auto simp: pid_def started_with_def)
    qed
  qed
qed

section \<open>The state of the manager\<close>

text \<open>What the operations before a start leave alone.\<close>

definition aux_same :: "aux_manager \<Rightarrow> aux_world \<Rightarrow> aux_manager \<Rightarrow> aux_world \<Rightarrow> bool" where
  "aux_same m w m' w' \<longleftrightarrow> mg_desired m' = mg_desired m \<and> mg_process m' = mg_process m \<and> aw_state w' = aw_state w \<and>
     aw_live w' = aw_live w \<and> aw_runs w' = aw_runs w \<and> aw_next w' = aw_next w"

lemma aux_same_running: "aux_same m w m' w' \<Longrightarrow> running_process m' w' = running_process m w"
  by (cases "mg_process m") (auto simp: aux_same_def running_process_def)

lemma aux_same_fresh: "aux_same m w m' w' \<Longrightarrow> fresh_ids m w \<Longrightarrow> fresh_ids m' w'"
  by (simp add: aux_same_def fresh_ids_def)

lemma aux_same_fault: "aux_fault w = (f, w1) \<Longrightarrow> aux_same m w m w1"
  by (auto simp: aux_fault_def aux_same_def split: list.splits)

lemma aux_same_trans: "aux_same m w m1 w1 \<Longrightarrow> aux_same m1 w1 m2 w2 \<Longrightarrow> aux_same m w m2 w2"
  by (simp add: aux_same_def)

lemma preflight_same:
  assumes "preflight env ls m w = (r, m', w')"
  shows "aux_same m w m' w' \<and> (is_ok r \<longrightarrow> (\<exists>w0. validate env w0 ls = Inr ()))"
proof -
  obtain t w1 where t: "next_turn env w = (t, w1)" by fastforce
  obtain secret w2 where s: "random_id env w1 = (secret, w2)" by fastforce
  obtain failed w3 where f: "aux_fault w2 = (failed, w3)" by fastforce
  have w1: "aux_same m w (m\<lparr>mg_invalid := v\<rparr>) w1" for v using t by (auto simp: next_turn_def aux_same_def)
  have w2: "aux_same m w (m\<lparr>mg_invalid := v\<rparr>) w2" for v using t s by (auto simp: next_turn_def random_id_def aux_same_def)
  have w3: "aux_same m w (m\<lparr>mg_invalid := v\<rparr>) w3" for v using w2 aux_same_fault [OF f] aux_same_trans by blast
  show ?thesis
  proof (cases "verify_binary env t")
    case (Inl e)
    then have "r = Inl e" "m' = m\<lparr>mg_invalid := Some e\<rparr>" "w' = w1" using assms t by (simp_all add: preflight_def)
    then show ?thesis using w1 by simp
  next
    case v: (Inr u)
    show ?thesis
    proof (cases "validate env w1 ls")
      case (Inl e)
      then have "r = Inl e" "m' = m\<lparr>mg_invalid := None\<rparr>" "w' = w1" using assms t v by (simp_all add: preflight_def Let_def)
      then show ?thesis using w1 by simp
    next
      case ok: (Inr u')
      show ?thesis
      proof (cases "configuration env w2 ls ''127.0.0.1:1'' secret")
        case (Inl e)
        then have "r = Inl e" "m' = m\<lparr>mg_invalid := None\<rparr>" "w' = w2" using assms t v ok s by (simp_all add: preflight_def Let_def)
        then show ?thesis using w2 by simp
      next
        case (Inr config)
        have "m' = m\<lparr>mg_invalid := None\<rparr>" "w' = w3" using assms t v ok s f Inr by (auto simp: preflight_def Let_def split: if_splits)
        then show ?thesis using ok w3 by auto
      qed
    qed
  qed
qed

text \<open>At most one process is alive, it is the one the manager knows, and it was started with these listeners.\<close>

definition aux_up :: "aux_env \<Rightarrow> aux_listener list \<Rightarrow> aux_manager \<Rightarrow> aux_world \<Rightarrow> bool" where
  "aux_up env ls m w \<longleftrightarrow> fresh_ids m w \<and> distinct (aw_live w) \<and>
     (\<forall>pid. pid \<in> set (aw_live w) \<longrightarrow> mg_process m = Some pid \<and> started_with env w pid ls)"

text \<open>The manager between two operations: the process runs the wanted listeners, and the wanted state is the one on disk.\<close>

definition aux_inv :: "aux_env \<Rightarrow> aux_manager \<times> aux_world \<Rightarrow> bool" where
  "aux_inv env s \<longleftrightarrow> (case s of (m, w) \<Rightarrow>
     aux_up env (as_Listeners (mg_desired m)) m w \<and> (running_process m w \<longrightarrow> as_Enabled (mg_desired m)) \<and>
     (aw_state w = AuxText (Some (mg_desired m)) \<or> aw_state w = NoAux \<and> mg_desired m = \<lparr>as_Enabled = False, as_Listeners = []\<rparr>))"

lemma aux_up_same: "aux_up env ls m w \<Longrightarrow> aux_same m w m' w' \<Longrightarrow> aux_up env ls m' w'"
  by (simp add: aux_up_def aux_same_def fresh_ids_def started_with_def)

lemma aux_inv_same: "aux_inv env (m, w) \<Longrightarrow> aux_same m w m' w' \<Longrightarrow> aux_inv env (m', w')"
  using aux_up_same [of env _ m w m' w'] aux_same_running [of m w m' w'] by (simp add: aux_inv_def) (simp add: aux_same_def)

lemma aux_up_not_running: "aux_up env ls m w \<Longrightarrow> running_process m w \<longleftrightarrow> aw_live w \<noteq> []"
  by (cases "aw_live w") (auto simp: aux_up_def running_process_def split: option.splits)

lemma aux_up_nothing: "fresh_ids m w \<Longrightarrow> aw_live w = [] \<Longrightarrow> aux_up env ls m w \<and> \<not> running_process m w"
  by (auto simp: aux_up_def running_process_def split: option.splits)

lemma aux_stop_spec:
  assumes "stop_process m w = (m', w')" "aux_up env ls m w"
  shows "aw_live w' = [] \<and> fresh_ids m' w' \<and> mg_process m' = None \<and> mg_desired m' = mg_desired m \<and> aw_state w' = aw_state w \<and> aw_runs w' = aw_runs w"
proof -
  have w': "aw_live w' = (case mg_process m of None \<Rightarrow> aw_live w | Some pid \<Rightarrow> removeAll pid (aw_live w))" "mg_process m' = None"
    "mg_desired m' = mg_desired m" "aw_state w' = aw_state w" "aw_runs w' = aw_runs w"
    using stop_process_simps [of m w] assms(1) by simp_all
  have "pid \<notin> set (aw_live w')" for pid using assms(2) w'(1) by (auto simp: aux_up_def split: option.splits)
  then have "aw_live w' = []" by (metis list.set_intros(1) neq_Nil_conv)
  then show ?thesis using w'(2-) by (simp add: fresh_ids_def)
qed

lemma launch_up:
  assumes "launch env cx ls m w = (r, m', w')" "fresh_ids m w" "aw_live w = []"
  shows "aux_up env ls m' w' \<and> mg_desired m' = mg_desired m \<and> aw_state w' = aw_state w \<and> (is_ok r \<longleftrightarrow> running_process m' w')"
  using launch_spec [OF assms(1,2)] assms(2,3)
  by (cases "is_ok r") (auto simp: aux_up_def fresh_ids_def running_process_def split: option.splits)

lemma aux_save_spec:
  assumes "save_state st w = (r, w')"
  shows "aw_live w' = aw_live w \<and> aw_runs w' = aw_runs w \<and> aw_next w' = aw_next w \<and>
    aw_state w' = (if is_ok r then AuxText (Some st) else aw_state w)"
  using assms by (auto simp: save_state_def aux_fault_def split: list.splits prod.splits if_splits)

lemma aux_up_fields:
  "aux_up env ls m w \<Longrightarrow> mg_process m' = mg_process m \<Longrightarrow> aw_live w' = aw_live w \<Longrightarrow> aw_runs w' = aw_runs w \<Longrightarrow> aw_next w' = aw_next w
    \<Longrightarrow> aux_up env ls m' w' \<and> running_process m' w' = running_process m w"
  by (auto simp: aux_up_def fresh_ids_def started_with_def running_process_def split: option.splits)

text \<open>Taking a change back: either nothing ran before, or the old listeners are started again.\<close>

lemma recover_spec:
  assumes "recover_aux env old wasRunning m w = (back, m', w')" "aux_up env ls m w"
  shows "aux_up env (as_Listeners old) m' w' \<and> mg_desired m' = mg_desired m \<and> aw_state w' = aw_state w \<and>
    (running_process m' w' \<longleftrightarrow> wasRunning \<and> back) \<and> (\<not> wasRunning \<longrightarrow> back)"
proof -
  obtain m1 w1 where s: "stop_process m w = (m1, w1)" by fastforce
  note st = aux_stop_spec [OF s assms(2)]
  show ?thesis
  proof (cases wasRunning)
    case True
    obtain r m2 w2 where l: "launch env False (as_Listeners old) m1 w1 = (r, m2, w2)" by (metis prod_cases3)
    then have "back = is_ok r" "m' = m2" "w' = w2" using assms(1) s True by (simp_all add: recover_aux_def)
    then show ?thesis using launch_up [OF l] st True by simp
  next
    case False
    then have "back" "m' = m1" "w' = w1" using assms(1) s by (simp_all add: recover_aux_def)
    then show ?thesis using st False aux_up_nothing [of m1 w1] by simp
  qed
qed

text \<open>
  The branches of a change: it is refused with nothing done, it is undone, or it is done.
\<close>

lemma apply_aux_cases:
  assumes "apply_aux env ls m w = (r, m', w')"
  obtains (refused) e where "r = Inl (e, None)" "aux_same m w m' w'"
  | (emptied) w1 m2 where "ls = []" "r = Inr ()" "save_state \<lparr>as_Enabled = False, as_Listeners = []\<rparr> w = (Inr (), w1)"
      "stop_process m w1 = (m2, w')" "m' = m2\<lparr>mg_desired := \<lparr>as_Enabled = False, as_Listeners = []\<rparr>\<rparr>"
  | (started) m1 w1 m2 w2 rl m3 w3 where "ls \<noteq> []" "preflight env ls m w = (Inr (), m1, w1)" "stop_process m1 w1 = (m2, w2)" "launch env True ls m2 w2 = (rl, m3, w3)"
      "(\<exists>e back. r = Inl (e, Some back) \<and>
          (\<not> is_ok rl \<and> recover_aux env (mg_desired m1) (running_process m1 w1) m3 w3 = (back, m', w') \<or>
           is_ok rl \<and> (\<exists>w4. save_state \<lparr>as_Enabled = True, as_Listeners = ls\<rparr> w3 = (Inl e, w4) \<and>
             recover_aux env (mg_desired m1) (running_process m1 w1) m3 w4 = (back, m', w')))) \<or>
       r = Inr () \<and> is_ok rl \<and> save_state \<lparr>as_Enabled = True, as_Listeners = ls\<rparr> w3 = (Inr (), w') \<and>
         m' = m3\<lparr>mg_desired := \<lparr>as_Enabled = True, as_Listeners = ls\<rparr>\<rparr>"
proof (cases "ls = []")
  case True
  obtain rs w1 where s: "save_state \<lparr>as_Enabled = False, as_Listeners = []\<rparr> w = (rs, w1)" by fastforce
  obtain m2 w2 where st: "stop_process m w1 = (m2, w2)" by fastforce
  show thesis
  proof (cases rs)
    case (Inl e)
    have "r = Inl (e, None)" "m' = m" "w' = w1" using assms True s Inl by (simp_all add: apply_aux_def)
    moreover have "aux_same m w m w1" using aux_save_spec [OF s] Inl by (simp add: aux_same_def)
    ultimately show thesis using refused by simp
  next
    case (Inr u)
    then show thesis using assms True s st emptied by (simp add: apply_aux_def)
  qed
next
  case False
  obtain rp m1 w1 where p: "preflight env ls m w = (rp, m1, w1)" by (metis prod_cases3)
  show thesis
  proof (cases rp)
    case (Inl e)
    then have "r = Inl (e, None)" "m' = m1" "w' = w1" using assms False p by (simp_all add: apply_aux_def)
    then show thesis using refused preflight_same [OF p] by simp
  next
    case up: (Inr u)
    obtain m2 w2 where st: "stop_process m1 w1 = (m2, w2)" by fastforce
    obtain rl m3 w3 where l: "launch env True ls m2 w2 = (rl, m3, w3)" by (metis prod_cases3)
    obtain rs w4 where s: "save_state \<lparr>as_Enabled = True, as_Listeners = ls\<rparr> w3 = (rs, w4)" by fastforce
    have run: "apply_aux env ls m w = (case rl of
        Inl e \<Rightarrow> (case recover_aux env (mg_desired m1) (running_process m1 w1) m3 w3 of (back, m4, w4) \<Rightarrow> (Inl (e, Some back), m4, w4))
      | Inr _ \<Rightarrow> (case rs of
          Inl e \<Rightarrow> (case recover_aux env (mg_desired m1) (running_process m1 w1) m3 w4 of (back, m5, w5) \<Rightarrow> (Inl (e, Some back), m5, w5))
        | Inr _ \<Rightarrow> (Inr (), m3\<lparr>mg_desired := \<lparr>as_Enabled = True, as_Listeners = ls\<rparr>\<rparr>, w4)))"
      using False p up st l s by (simp add: apply_aux_def Let_def split: sum.split)
    have pre: "preflight env ls m w = (Inr (), m1, w1)" using p up by simp
    show thesis
      by (rule started [OF False pre st l]) (use run assms s in \<open>auto split: sum.splits prod.splits\<close>)
  qed
qed

lemma aux_inv_saved:
  assumes "aux_up env (as_Listeners st) m w" "running_process m w \<longrightarrow> as_Enabled st" "aw_state w = AuxText (Some st)"
  shows "aux_inv env (m\<lparr>mg_desired := st\<rparr>, w)"
  using aux_up_fields [OF assms(1), of "m\<lparr>mg_desired := st\<rparr>" w] assms(2,3) by (simp add: aux_inv_def)

lemma apply_aux_spec:
  assumes "apply_aux env ls m w = (r, m', w')" "aux_inv env (m, w)"
  shows "aux_inv env (m', w') \<and>
    (case r of
       Inl (e, back) \<Rightarrow> mg_desired m' = mg_desired m \<and> aw_state w' = aw_state w \<and>
         (case back of None \<Rightarrow> aux_same m w m' w' | Some b \<Rightarrow> running_process m' w' = (running_process m w \<and> b) \<and> (running_process m w \<or> b))
     | Inr _ \<Rightarrow> mg_desired m' = \<lparr>as_Enabled = (ls \<noteq> []), as_Listeners = ls\<rparr> \<and> aw_state w' = AuxText (Some (mg_desired m')) \<and>
         running_process m' w' = (ls \<noteq> []))"
proof -
  have up: "aux_up env (as_Listeners (mg_desired m)) m w" "running_process m w \<longrightarrow> as_Enabled (mg_desired m)"
    and disk: "aw_state w = AuxText (Some (mg_desired m)) \<or> aw_state w = NoAux \<and> mg_desired m = \<lparr>as_Enabled = False, as_Listeners = []\<rparr>"
    using assms(2) by (simp_all add: aux_inv_def)
  show ?thesis
    using assms(1)
  proof (cases rule: apply_aux_cases)
    case (refused e)
    then show ?thesis using aux_inv_same [OF assms(2) refused(2)] by (simp add: aux_same_def)
  next
    case (emptied w1 m2)
    note sv = aux_save_spec [OF emptied(3)]
    have "aux_up env (as_Listeners (mg_desired m)) m w1" using aux_up_fields [OF up(1), of m w1] sv by simp
    note st = aux_stop_spec [OF emptied(4) this]
    have none: "aux_up env [] m2 w' \<and> \<not> running_process m2 w'" using aux_up_nothing st by blast
    have "aux_inv env (m', w')" unfolding emptied(5) using none st sv by (intro aux_inv_saved) simp_all
    moreover have "\<not> running_process m' w'" using none emptied(5) by (simp add: running_process_def)
    ultimately show ?thesis using emptied st sv by simp
  next
    case (started m1 w1 m2 w2 rl m3 w3)
    have same: "aux_same m w m1 w1" using preflight_same [OF started(2)] by blast
    note st = aux_stop_spec [OF started(3) aux_up_same [OF up(1) same]]
    note lu = launch_up [OF started(4)]
    have up3: "aux_up env ls m3 w3" "mg_desired m3 = mg_desired m" "aw_state w3 = aw_state w" "is_ok rl = running_process m3 w3"
      using lu st same by (simp_all add: aux_same_def)
    have old: "mg_desired m1 = mg_desired m" "running_process m1 w1 = running_process m w"
      using same aux_same_running [OF same] by (simp_all add: aux_same_def)
    have undone: "?thesis" if "r = Inl (e, Some b)" "recover_aux env (mg_desired m) (running_process m w) m3 w4 = (b, m', w')"
      "aux_up env ls m3 w4" "aw_state w4 = aw_state w" for e b w4
    proof -
      note rec = recover_spec [OF that(2,3)]
      have "aux_inv env (m', w')" using rec up3(2) that(4) up(2) disk by (simp add: aux_inv_def)
      then show ?thesis using rec up3(2) that(1,4) by auto
    qed
    from started(5) consider
        (launch) e b where "r = Inl (e, Some b)" "recover_aux env (mg_desired m) (running_process m w) m3 w3 = (b, m', w')"
      | (save) e b w4 where "r = Inl (e, Some b)" "save_state \<lparr>as_Enabled = True, as_Listeners = ls\<rparr> w3 = (Inl e, w4)"
          "recover_aux env (mg_desired m) (running_process m w) m3 w4 = (b, m', w')"
      | (kept) "r = Inr ()" "is_ok rl" "save_state \<lparr>as_Enabled = True, as_Listeners = ls\<rparr> w3 = (Inr (), w')"
          "m' = m3\<lparr>mg_desired := \<lparr>as_Enabled = True, as_Listeners = ls\<rparr>\<rparr>"
      using old by auto
    then show ?thesis
    proof cases
      case launch
      then show ?thesis using undone up3 by blast
    next
      case save
      have "aux_up env ls m3 w4" "aw_state w4 = aw_state w" using aux_save_spec [OF save(2)] aux_up_fields [OF up3(1), of m3 w4] up3(3) by simp_all
      then show ?thesis using undone save by blast
    next
      case kept
      note sv = aux_save_spec [OF kept(3)]
      have up4: "aux_up env ls m3 w'" "running_process m3 w'" using aux_up_fields [OF up3(1), of m3 w'] sv up3(4) kept(2) by simp_all
      have "aux_inv env (m', w')" unfolding kept(4) using up4 sv by (intro aux_inv_saved) simp_all
      moreover have "running_process m' w'" using up4(2) kept(4) by (simp add: running_process_def)
      ultimately show ?thesis using kept(1,4) sv started(1) by simp
    qed
  qed
qed

section \<open>Interleavings\<close>

text \<open>What can happen to a manager, in any order: the commands, the end of the Agent, and the process ending by itself.\<close>

datatype aux_event = AuxApply "json \<Rightarrow> nat" json | AuxSync string json | AuxStart | AuxActivate | AuxStop | AuxClose | AuxExited

fun aux_step :: "aux_env \<Rightarrow> aux_manager \<times> aux_world \<Rightarrow> aux_event \<Rightarrow> aux_manager \<times> aux_world" where
  "aux_step env (m, w) (AuxApply json_size raw) = snd (Apply_aux env json_size raw m w)"
| "aux_step env (m, w) (AuxSync name raw) = snd (Sync_aux env name raw m w)"
| "aux_step env (m, w) AuxStart = snd (Start_aux env m w)"
| "aux_step env (m, w) AuxActivate = snd (Activate_aux env m w)"
| "aux_step env (m, w) AuxStop = snd (Stop_aux m w)"
| "aux_step env (m, w) AuxClose = Close_aux m w"
| "aux_step env (m, w) AuxExited = (m, case mg_process m of None \<Rightarrow> w | Some pid \<Rightarrow> kill_process pid w)"

lemma apply_aux_inv: "aux_inv env (m, w) \<Longrightarrow> aux_inv env (snd (apply_aux env ls m w))"
  by (cases "apply_aux env ls m w") (use apply_aux_spec in auto)

lemma Start_aux_inv:
  assumes "aux_inv env (m, w)"
  shows "aux_inv env (snd (Start_aux env m w))"
proof (cases "running_process m w \<or> \<not> as_Enabled (mg_desired m)")
  case True
  then show ?thesis using assms by (simp add: Start_aux_def)
next
  case False
  obtain r m1 w1 where p: "preflight env (as_Listeners (mg_desired m)) m w = (r, m1, w1)" by (metis prod_cases3)
  have same: "aux_same m w m1 w1" using preflight_same [OF p] by blast
  have inv1: "aux_inv env (m1, w1)" by (rule aux_inv_same [OF assms same])
  obtain rl m2 w2 where l: "launch env True (as_Listeners (mg_desired m)) m1 w1 = (rl, m2, w2)" by (metis prod_cases3)
  have d: "mg_desired m1 = mg_desired m" "\<not> running_process m1 w1" using same aux_same_running [OF same] False by (simp_all add: aux_same_def)
  have "fresh_ids m1 w1" "aw_live w1 = []"
    using inv1 d aux_up_not_running by (auto simp: aux_inv_def aux_up_def)
  from launch_up [OF l this] have "aux_inv env (m2, w2)" using inv1 d False by (simp add: aux_inv_def)
  then show ?thesis using inv1 False p l by (cases r) (simp_all add: Start_aux_def)
qed

lemma Stop_aux_inv:
  assumes "aux_inv env (m, w)"
  shows "aux_inv env (snd (Stop_aux m w))"
proof -
  let ?st = "(mg_desired m)\<lparr>as_Enabled := False\<rparr>"
  obtain r w1 where s: "save_state ?st w = (r, w1)" by fastforce
  obtain m2 w2 where t: "stop_process m w1 = (m2, w2)" by fastforce
  have up: "aux_up env (as_Listeners (mg_desired m)) m w1"
    using assms aux_save_spec [OF s] aux_up_fields [of env _ m w m w1] by (simp add: aux_inv_def)
  note st = aux_stop_spec [OF t up]
  show ?thesis
  proof (cases r)
    case (Inl e)
    have "aux_same m w m w1" using aux_save_spec [OF s] Inl by (simp add: aux_same_def)
    from aux_inv_same [OF assms this] show ?thesis using Inl s by (simp add: Stop_aux_def Let_def)
  next
    case (Inr u)
    have "aux_inv env (m2\<lparr>mg_desired := ?st\<rparr>, w2)"
      using st aux_save_spec [OF s] Inr aux_up_nothing [of m2 w2 env "as_Listeners ?st"] by (intro aux_inv_saved) simp_all
    then show ?thesis using Inr s t by (simp add: Stop_aux_def Let_def)
  qed
qed

lemma Close_aux_inv:
  assumes "aux_inv env (m, w)"
  shows "aux_inv env (Close_aux m w)"
proof -
  obtain m2 w2 where t: "stop_process m w = (m2, w2)" by fastforce
  note st = aux_stop_spec [OF t, of env "as_Listeners (mg_desired m)"]
  show ?thesis
    using st assms aux_up_nothing [of m2 w2 env "as_Listeners (mg_desired m)"] t by (simp add: aux_inv_def Close_aux_def)
qed

lemma aux_inv_exited:
  assumes "aux_inv env (m, w)"
  shows "aux_inv env (m, kill_process pid w)"
proof -
  have "aux_up env (as_Listeners (mg_desired m)) m (kill_process pid w)"
    using assms by (auto simp: aux_inv_def aux_up_def kill_process_def fresh_ids_def started_with_def distinct_removeAll)
  moreover have "running_process m (kill_process pid w) \<longrightarrow> running_process m w"
    by (auto simp: running_process_def kill_process_def split: option.splits)
  ultimately show ?thesis using assms by (simp add: aux_inv_def) (simp add: kill_process_def)
qed

interpretation aux: machine "aux_step env" "aux_inv env" for env
proof
  fix s e
  assume inv: "aux_inv env s"
  show "aux_inv env (aux_step env s e)"
  proof (cases s)
    case s: (Pair m w)
    show ?thesis
      using inv unfolding s
      by (cases e) (auto simp: Apply_aux_def Sync_aux_def Activate_aux_def Start_aux_inv Stop_aux_inv Close_aux_inv apply_aux_inv aux_inv_exited
        split: json.splits option.splits)
  qed
qed

lemma New_aux_inv:
  assumes "New_aux env w = (Inr m, w')" "aw_live w = []"
  shows "aux_inv env (m, w') \<and> aw_live w' = [] \<and> aw_state w' = aw_state w"
proof -
  obtain failed w1 where f: "aux_fault w = (failed, w1)" by fastforce
  obtain t w2 where t: "next_turn env w1 = (t, w2)" by fastforce
  have w1: "aw_live w1 = []" "aw_state w1 = aw_state w" using aux_same_fault [OF f, of m] assms(2) by (simp_all add: aux_same_def)
  have w2: "aw_live w2 = []" "aw_state w2 = aw_state w" using t w1 by (auto simp: next_turn_def)
  have ok: "\<not> failed" "aw_state w1 \<noteq> UnreadableAux" "aw_state w1 \<noteq> AuxText None"
    using assms(1) f by (auto simp: New_aux_def split: if_splits)
  have m: "w' = w2" "mg_process m = None"
      "mg_desired m = (case aw_state w1 of AuxText (Some st) \<Rightarrow> st | _ \<Rightarrow> \<lparr>as_Enabled = False, as_Listeners = []\<rparr>)"
    using assms(1) f t ok by (auto simp: New_aux_def split: aux_state_file.splits option.splits)
  have "fresh_ids m w'" using m w2 by (simp add: fresh_ids_def)
  from aux_up_nothing [OF this] show ?thesis
    using m w1 w2 ok by (auto simp: aux_inv_def split: aux_state_file.splits option.splits)
qed

section \<open>The configuration\<close>

lemma hex_encode_plain: "c \<in> set (hex_encode bs) \<Longrightarrow> c \<in> set ''0123456789abcdef''"
proof -
  have digit: "hex_char n \<in> set ''0123456789abcdef''" if "n < 16" for n
    unfolding hex_char_def by (rule nth_mem) (use that in simp)
  assume "c \<in> set (hex_encode bs)"
  then obtain b :: "8 word" where "c = hex_char (unat b div 16) \<or> c = hex_char (unat b mod 16)" unfolding hex_encode_def by fastforce
  moreover have "unat b div 16 < 16" using unsigned_less [of b] by (simp add: less_mult_imp_div_less)
  ultimately show ?thesis using digit by (metis mod_less_divisor zero_less_numeral)
qed

lemma bridge_name_plain: "CHR '','' \<notin> set (bridge_name env email)"
  using hex_encode_plain [of "CHR '',''"] by (auto simp: bridge_name_def)

text \<open>A checked email has no comma, so a rule is cut exactly where it was joined.\<close>

lemma user_rule_split:
  assumes "safeToken (au_Email u)"
  shows "split_on (CHR '','') (user_rule env u) = [''IN-USER'', au_Email u, bridge_name env (au_Email u)]"
proof -
  have "CHR '','' \<notin> set (au_Email u)" using assms by (auto simp: safeToken_def list_all_iff token_char_def Let_def)
  moreover have "user_rule env u = ''IN-USER'' @ CHR '','' # au_Email u @ CHR '','' # bridge_name env (au_Email u)" by (simp add: user_rule_def)
  ultimately show ?thesis by (simp only: split_on_append) (simp add: split_on_plain bridge_name_plain)
qed

lemma check_users_spec:
  "check_users env seen us = Inr users' \<Longrightarrow> distinct seen \<Longrightarrow>
    users' = rev (map au_Email us) @ seen \<and> distinct users' \<and> list_all (\<lambda>u. safeToken (au_Email u)) us"
proof (induction env seen us rule: check_users.induct)
  case (2 env seen u us)
  have rest: "check_users env (au_Email u # seen) us = Inr users'" "safeToken (au_Email u)" "au_Email u \<notin> set seen"
    using "2.prems"(1) by (auto split: if_splits)
  have "users' = rev (map au_Email us) @ au_Email u # seen \<and> distinct users' \<and> list_all (\<lambda>u. safeToken (au_Email u)) us"
    by (rule "2.IH") (use "2.prems" rest in \<open>auto split: if_splits\<close>)
  then show ?case using rest(2) by (metis append.assoc append_Cons append_Nil list.pred_inject(2) list.simps(9) rev.simps(2))
qed auto

text \<open>All users of all listeners, and those of one kind of listener.\<close>

definition all_users :: "aux_listener list \<Rightarrow> aux_user list" where
  "all_users ls = concat (map al_Users ls)"

lemma check_listeners_spec:
  "check_listeners env w names users addresses ls = Inr () \<Longrightarrow> distinct users \<Longrightarrow>
    distinct (rev (map au_Email (all_users ls)) @ users) \<and> list_all (\<lambda>u. safeToken (au_Email u)) (all_users ls) \<and>
    list_all (\<lambda>l. al_Type l = ''anytls'' \<or> al_Type l = ''snell'' \<and> length (al_Users l) \<le> 1) ls"
proof (induction ls arbitrary: names users addresses)
  case (Cons l ls)
  obtain users' where u: "check_users env users (al_Users l) = Inr users'" and rest: "check_listeners env w (al_Name l # names) users' (listener_address l # addresses) ls = Inr ()"
    and l: "check_listener env names addresses l = Inr ()"
    using Cons.prems(1) by (auto simp: bind_res_def split: sum.splits)
  note us = check_users_spec [OF u Cons.prems(2)]
  have kind: "al_Type l = ''anytls'' \<or> al_Type l = ''snell'' \<and> length (al_Users l) \<le> 1"
    using l by (simp add: check_listener_def split: if_splits) linarith
  have emails: "rev (map au_Email (all_users (l # ls))) @ users = rev (map au_Email (all_users ls)) @ users'" using us by (simp add: all_users_def)
  have "distinct users'" using us by blast
  note ih = Cons.IH [OF rest this]
  have "list_all (\<lambda>u. safeToken (au_Email u)) (all_users (l # ls))" using us ih by (simp add: all_users_def)
  then show ?case unfolding emails using ih kind by simp
qed (simp add: all_users_def)

lemma config_users_spec:
  "config_users env kind us item users proxies rules = (item', users', proxies', rules') \<Longrightarrow>
    proxies' = proxies @ map (bridge_proxy env) us \<and> rules' = rules @ (if kind = ''snell'' then [] else map (user_rule env) us) \<and>
    item' = (if kind = ''snell'' \<and> us \<noteq> [] then foldl (\<lambda>i u. put_key ''proxy'' (JStr (bridge_name env (au_Email u))) i) item us else item)"
  by (induction env kind us item users proxies rules rule: config_users.induct) (auto simp: Let_def split: if_splits)

text \<open>The entry of a listener in the configuration.\<close>

definition listens_as :: "aux_env \<Rightarrow> aux_listener \<Rightarrow> jmap \<Rightarrow> bool" where
  "listens_as env l item \<longleftrightarrow> get_any item ''name'' = JStr (al_Name l) \<and> get_any item ''listen'' = JStr (al_Listen l) \<and>
     get_any item ''port'' = JNum (itoa (al_Port l)) \<and> get_any item ''type'' = JStr (al_Type l) \<and>
     (al_Type l = ''snell'' \<longrightarrow> get_any item ''proxy'' = JStr (bridge_name env (au_Email (hd (al_Users l)))) \<and>
        get_any item ''psk'' = JStr (au_Password (hd (al_Users l))))"

lemma config_item_listens:
  assumes "config_users env (al_Type l) (al_Users l)
      [(''listen'', JStr (al_Listen l)), (''name'', JStr (al_Name l)), (''port'', JNum (itoa (al_Port l))), (''type'', JStr (al_Type l))] [] ps rs
      = (item, users, ps', rs')"
    "config_item env w l item users = Inr item'" "al_Users l \<noteq> []"
    "al_Type l = ''anytls'' \<or> al_Type l = ''snell'' \<and> length (al_Users l) \<le> 1"
  shows "listens_as env l item'"
proof (cases "al_Type l = ''snell''")
  case True
  then obtain u where u: "al_Users l = [u]" using assms(3,4) by (cases "al_Users l") auto
  show ?thesis using assms(1,2) True u by (auto simp: config_item_def listens_as_def get_any_def map_of_put_key)
next
  case False
  then have kind: "al_Type l = ''anytls''" using assms(4) by blast
  have "item = [(''listen'', JStr (al_Listen l)), (''name'', JStr (al_Name l)), (''port'', JNum (itoa (al_Port l))), (''type'', JStr (al_Type l))]"
    using config_users_spec [OF assms(1)] kind by simp
  then show ?thesis using assms(2) kind
    by (auto simp: config_item_def listens_as_def get_any_def map_of_put_key bind_res_def Let_def split: sum.splits)
qed

lemma config_listeners_spec:
  "config_listeners env w ls items proxies rules = Inr (items', proxies', rules') \<Longrightarrow>
    list_all (\<lambda>l. al_Type l = ''anytls'' \<or> al_Type l = ''snell'' \<and> length (al_Users l) \<le> 1) ls \<Longrightarrow>
    proxies' = proxies @ map (bridge_proxy env) (all_users ls) \<and>
    rules' = rules @ map (user_rule env) (all_users (filter (\<lambda>l. al_Type l = ''anytls'') ls)) \<and>
    (\<exists>new. items' = items @ new \<and> list_all2 (listens_as env) (filter (\<lambda>l. al_Users l \<noteq> []) ls) new)"
proof (induction ls arbitrary: items proxies rules)
  case (Cons l ls)
  show ?case
  proof (cases "al_Users l = []")
    case True
    then show ?thesis using Cons.IH [of items proxies rules] Cons.prems by (simp add: all_users_def)
  next
    case False
    obtain item users ps rs where u: "config_users env (al_Type l) (al_Users l)
      [(''listen'', JStr (al_Listen l)), (''name'', JStr (al_Name l)), (''port'', JNum (itoa (al_Port l))), (''type'', JStr (al_Type l))] [] proxies rules
      = (item, users, ps, rs)" by (metis prod_cases4)
    obtain item' where i: "config_item env w l item users = Inr item'" and rest: "config_listeners env w ls (items @ [item']) ps rs = Inr (items', proxies', rules')"
      using Cons.prems(1) False u by (auto simp: bind_res_def split: sum.splits)
    have kind: "al_Type l = ''anytls'' \<or> al_Type l = ''snell'' \<and> length (al_Users l) \<le> 1" using Cons.prems(2) by simp
    note us = config_users_spec [OF u]
    have "listens_as env l item'" by (rule config_item_listens [OF u i False kind])
    moreover obtain new where "items' = (items @ [item']) @ new" "list_all2 (listens_as env) (filter (\<lambda>l. al_Users l \<noteq> []) ls) new"
      and "proxies' = ps @ map (bridge_proxy env) (all_users ls)"
        "rules' = rs @ map (user_rule env) (all_users (filter (\<lambda>l. al_Type l = ''anytls'') ls))"
      using Cons.IH [OF rest] Cons.prems(2) by auto
    ultimately show ?thesis using us False kind by (auto simp: all_users_def)
  qed
qed (simp add: all_users_def)

section \<open>Properties\<close>

text \<open>A poll that finds everything in place.\<close>

definition poll_ready :: "aux_env \<Rightarrow> aux_listener list \<Rightarrow> aux_poll \<Rightarrow> bool" where
  "poll_ready env ls p = (ap_get p ''/version'' = Some 200 \<and> listeners_ready env p ls)"

text \<open>A poll that does not end the loop with an error: the process lives, nobody cancels, and the barrier would be passed.\<close>

definition poll_calm :: "aux_env \<Rightarrow> string \<Rightarrow> string \<Rightarrow> aux_poll \<Rightarrow> bool" where
  "poll_calm env api secret p = (\<not> ap_exited p \<and> \<not> ap_cancelled p \<and> AwaitConfiguration (ae_loopback env) api secret (ap_barrier p) = Inr ())"

lemma await_ready_accepts:
  assumes "mg_process m = Some pid" "pid \<in> set (aw_live w)"
    "\<forall>i \<le> k. poll_calm env (mg_api m) (mg_secret m) (ae_poll env (aw_polls w + i))" "poll_ready env ls (ae_poll env (aw_polls w + k))"
    "aw_clock w + (\<Sum>i < k. ap_spent (ae_poll env (aw_polls w + i)) + 50) < deadline"
  shows "is_ok (fst (await_ready env cx ls deadline m w))"
  using assms
proof (induction k arbitrary: w)
  case 0
  let ?p = "ae_poll env (aw_polls w)"
  have "running_process m (see_poll m ?p w)" using 0 by (simp add: see_poll_def running_process_def poll_calm_def Let_def)
  then show ?case using 0 by (subst await_ready.simps) (simp add: poll_calm_def poll_ready_def Let_def)
next
  case (Suc k)
  let ?p = "ae_poll env (aw_polls w)"
  let ?w = "(see_poll m ?p w)\<lparr>aw_clock := aw_clock w + ap_spent ?p + 50\<rparr>"
  have calm: "poll_calm env (mg_api m) (mg_secret m) ?p" using Suc.prems(3) [rule_format, of 0] by simp
  then have w: "aw_polls ?w = Suc (aw_polls w)" "aw_live ?w = aw_live w" using Suc.prems(1) by (simp_all add: see_poll_def poll_calm_def Let_def)
  have up: "running_process m (see_poll m ?p w)" using w(2) Suc.prems(1,2) by (simp add: running_process_def)
  have before: "aw_clock w < deadline" using Suc.prems(5) by simp
  have sum: "(\<Sum>i < Suc k. ap_spent (ae_poll env (aw_polls w + i)) + 50) = ap_spent ?p + 50 + (\<Sum>i < k. ap_spent (ae_poll env (aw_polls ?w + i)) + 50)"
    by (subst sum.lessThan_Suc_shift) (simp add: w(1))
  have rest: "is_ok (fst (await_ready env cx ls deadline m ?w))"
  proof (rule Suc.IH)
    show "\<forall>i \<le> k. poll_calm env (mg_api m) (mg_secret m) (ae_poll env (aw_polls ?w + i))" using Suc.prems(3) w(1) by auto
    show "poll_ready env ls (ae_poll env (aw_polls ?w + k))" using Suc.prems(4) w(1) by simp
    show "aw_clock ?w + (\<Sum>i < k. ap_spent (ae_poll env (aw_polls ?w + i)) + 50) < deadline" using Suc.prems(5) unfolding sum by simp
  qed (use Suc.prems(1,2) w(2) in auto)
  show ?case using rest before up calm by (subst await_ready.simps) (simp add: poll_calm_def Let_def)
qed

lemma config_listeners_material:
  "aw_material w = aw_material w' \<Longrightarrow> config_listeners env w ls items proxies rules = config_listeners env w' ls items proxies rules"
proof (induction ls arbitrary: items proxies rules)
  case (Cons l ls)
  have "material env w = material env w'" using Cons.prems by (intro ext) (simp only: material_def)
  then have "config_item env w l = config_item env w' l" by (intro ext) (simp only: config_item_def)
  then show ?case using Cons by simp
qed simp

lemma configuration_material: "aw_material w = aw_material w' \<Longrightarrow> configuration env w = configuration env w'"
  by (intro ext) (simp add: configuration_def config_listeners_material [of w w'])

text \<open>C30: Starting the auxiliary process comes to an end: the readiness loop asks at most 160 times, whatever the process and
  the clock do. It ends with exactly one more process, which was given a configuration of the listeners, or with an
  error and no more processes than before.
\<close>

theorem launch_terminates:
  assumes "fresh_ids m w"
  shows "\<exists>r m' w'. launch env cx ls m w = (r, m', w') \<and> aw_polls w' \<le> aw_polls w + 160 \<and>
    (is_ok r \<longrightarrow> mg_process m' = Some (aw_next w) \<and> aw_live w' = aw_next w # aw_live w \<and> started_with env w' (aw_next w) ls) \<and>
    (\<not> is_ok r \<longrightarrow> aw_live w' = aw_live w) \<and> mg_desired m' = mg_desired m \<and> aw_state w' = aw_state w"
proof -
  obtain r m' w' where l: "launch env cx ls m w = (r, m', w')" by (metis prod_cases3)
  then show ?thesis using launch_spec [OF l assms] by auto
qed


text \<open>C29: Through any sequence of commands and exits of the process after a start of the Agent, at most one auxiliary process is
  alive. It is the one the manager knows, it was started with the listeners that are wanted, and only while they are
  enabled. Loading the state again, as a new Agent does, gives the wanted listeners.
\<close>

theorem aux_process_matches_state:
  assumes "New_aux env w = (Inr m0, w0)" "aw_live w = []" "foldl (aux_step env) (m0, w0) es = (m, w')"
  shows "aw_live w' = (if running_process m w' then [the (mg_process m)] else []) \<and>
    (running_process m w' \<longrightarrow> as_Enabled (mg_desired m) \<and> started_with env w' (the (mg_process m)) (as_Listeners (mg_desired m))) \<and>
    (\<forall>m2 w2. New_aux env w' = (Inr m2, w2) \<longrightarrow> mg_desired m2 = mg_desired m)"
proof -
  have "aux_inv env (m, w')"
    using aux.run_inv [of env "(m0, w0)" es] New_aux_inv [OF assms(1,2)] assms(3) by simp
  then have up: "aux_up env (as_Listeners (mg_desired m)) m w'" "running_process m w' \<longrightarrow> as_Enabled (mg_desired m)"
    and disk: "aw_state w' = AuxText (Some (mg_desired m)) \<or> aw_state w' = NoAux \<and> mg_desired m = \<lparr>as_Enabled = False, as_Listeners = []\<rparr>"
    by (simp_all add: aux_inv_def)
  have all: "pid = the (mg_process m) \<and> started_with env w' pid (as_Listeners (mg_desired m))" if "pid \<in> set (aw_live w')" for pid
    using up(1) that by (auto simp: aux_up_def)
  have dist: "distinct (aw_live w')" using up(1) by (simp add: aux_up_def)
  have live: "aw_live w' = (if running_process m w' then [the (mg_process m)] else [])"
  proof (cases "aw_live w'")
    case (Cons pid pids)
    then have "pids = []" using all dist by (cases pids) auto
    then show ?thesis using Cons all aux_up_not_running [OF up(1)] by simp
  qed (use aux_up_not_running [OF up(1)] in simp)
  have "mg_desired m2 = mg_desired m" if "New_aux env w' = (Inr m2, w2)" for m2 w2
  proof -
    obtain failed w1 where f: "aux_fault w' = (failed, w1)" by fastforce
    have "aw_state w1 = aw_state w'" using aux_same_fault [OF f, of m] by (simp add: aux_same_def)
    then show ?thesis using that disk f by (auto simp: New_aux_def split: if_splits prod.splits)
  qed
  moreover have "started_with env w' (the (mg_process m)) (as_Listeners (mg_desired m))" if "running_process m w'"
    using all [of "the (mg_process m)"] live that by simp
  ultimately show ?thesis using live up(2) by blast
qed

text \<open>C32: A change of the listeners that fails changes neither the wanted listeners nor the state on disk. Without a rollback
  report nothing was stopped or started; a report of a successful rollback means that a process runs exactly when one
  ran before, started with the old listeners; a report of a failed one that the process is gone.
\<close>

theorem failed_aux_apply_is_undone:
  assumes "apply_aux env ls m w = (Inl (e, report), m', w')" "aux_inv env (m, w)"
  shows "mg_desired m' = mg_desired m \<and> aw_state w' = aw_state w \<and>
    (report = None \<longrightarrow> mg_process m' = mg_process m \<and> aw_live w' = aw_live w) \<and>
    (report = Some True \<longrightarrow> running_process m' w' = running_process m w) \<and>
    (report = Some False \<longrightarrow> running_process m w \<and> \<not> running_process m' w') \<and>
    (running_process m' w' \<longrightarrow> started_with env w' (the (mg_process m')) (as_Listeners (mg_desired m)))"
proof -
  note spec = apply_aux_spec [OF assms]
  have "started_with env w' (the (mg_process m')) (as_Listeners (mg_desired m'))" if up: "running_process m' w'"
  proof -
    obtain pid where "mg_process m' = Some pid" "pid \<in> set (aw_live w')" using up by (auto simp: running_process_def split: option.splits)
    moreover have "aux_up env (as_Listeners (mg_desired m')) m' w'" using spec unfolding aux_inv_def by blast
    ultimately show ?thesis unfolding aux_up_def by (metis option.sel)
  qed
  moreover have d: "mg_desired m' = mg_desired m" "aw_state w' = aw_state w" using spec by simp_all
  moreover have "mg_process m' = mg_process m \<and> aw_live w' = aw_live w" if "report = None" using spec that by (simp add: aux_same_def)
  moreover have "running_process m' w' = (running_process m w \<and> b) \<and> (running_process m w \<or> b)" if "report = Some b" for b
    using spec that by simp
  ultimately show ?thesis by (metis (full_types))
qed


section \<open>Examples\<close>

text \<open>One Snell listener with one user; the process answers every poll, or ends at once.\<close>

definition aux_sample_user :: aux_user where
  "aux_sample_user = \<lparr>au_Email = ''a@b'', au_Password = ''p'', au_Bridge = \<lparr>br_Port = 9, br_ID = replicate 36 CHR ''a''\<rparr>\<rparr>"

definition aux_sample_listener :: aux_listener where
  "aux_sample_listener = \<lparr>al_Name = ''s'', al_Type = ''snell'', al_Listen = ''0.0.0.0'', al_Port = 7, al_Users = [aux_sample_user],
     al_Certificate = [], al_PrivateKey = [], al_Version = 4, al_UDP = False, al_PaddingScheme = []\<rparr>"

definition aux_sample_env :: "bool \<Rightarrow> aux_env" where
  "aux_sample_env exits =
     \<lparr>ae_Binary = ''m'', ae_Version = ''1'', ae_SHA256 = replicate 64 CHR ''0'', ae_DataDir = ''/d'', ae_cwd = Some ''/'', ae_ValidateUser = None,
      ae_parse_ip = (\<lambda>_. True), ae_loopback = (\<lambda>_. True), ae_uuid = (\<lambda>s. Some (to_lower s)), ae_key_pair = (\<lambda>_ _. True),
      ae_sha256 = (\<lambda>_. replicate 32 0),
      ae_turn = (\<lambda>_. \<lparr>at_binary = Some [], at_version = Some ''v 1'', at_random = [1], at_accepts = (\<lambda>_. True), at_port_free = (\<lambda>_. True),
        at_api = Some ''127.0.0.1:9'', at_starts = True, at_owned = True\<rparr>),
      ae_poll = (\<lambda>_. \<lparr>ap_spent = 0, ap_exited = exits, ap_cancelled = False, ap_get = (\<lambda>_. Some 200), ap_dial = (\<lambda>_. True), ap_barrier = Some 204\<rparr>)\<rparr>"

definition aux_sample_world :: aux_world where
  "aux_sample_world = \<lparr>aw_state = NoAux, aw_config = None, aw_material = (\<lambda>_. None), aw_live = [], aw_runs = [], aw_next = 0, aw_clock = 0,
     aw_turns = 0, aw_polls = 0, aw_faults = []\<rparr>"

definition aux_sample_manager :: aux_manager where
  "aux_sample_manager = \<lparr>mg_desired = \<lparr>as_Enabled = False, as_Listeners = []\<rparr>, mg_process = None, mg_api = [], mg_secret = [],
     mg_generation = [], mg_invalid = None\<rparr>"


lemma aux_sample_valid: "validate (aux_sample_env e) w [aux_sample_listener] = Inr ()"
  by (simp add: validate_def aux_sample_listener_def aux_sample_user_def aux_sample_env_def check_listener_def check_keys_def bind_res_def
      safeToken_def token_char_def to_lower_def)

lemma aux_sample_configuration: "is_ok (configuration (aux_sample_env e) aux_sample_world [aux_sample_listener] api secret)"
  by (simp add: configuration_def aux_sample_listener_def aux_sample_user_def config_item_def bind_res_def Let_def)

lemma aux_sample_verified: "verify_binary (aux_sample_env e) (ae_turn (aux_sample_env e) n) = Inr ()"
proof -
  have "equal_fold (hex_encode (replicate 32 0)) (replicate 64 CHR ''0'') \<and> ''1'' \<in> set (Fields ''v 1'')" by code_simp
  then show ?thesis by (simp add: verify_binary_def aux_sample_env_def)
qed

text \<open>The world after the state was loaded, and after the candidate was tried.\<close>

definition aux_sample_loaded :: aux_world where
  "aux_sample_loaded = aux_sample_world\<lparr>aw_turns := 1\<rparr>"

definition aux_sample_tried :: aux_world where
  "aux_sample_tried = aux_sample_world\<lparr>aw_turns := 3\<rparr>"

lemma aux_sample_inv: "aux_inv env (aux_sample_manager, aux_sample_loaded)"
  by (simp add: aux_inv_def aux_up_def fresh_ids_def running_process_def aux_sample_manager_def aux_sample_loaded_def aux_sample_world_def)

lemma aux_sample_preflight:
  "preflight (aux_sample_env e) [aux_sample_listener] aux_sample_manager aux_sample_loaded = (Inr (), aux_sample_manager, aux_sample_tried)"
proof -
  let ?w = "aux_sample_loaded\<lparr>aw_turns := Suc (Suc (aw_turns aux_sample_loaded))\<rparr>"
  have tried: "?w = aux_sample_tried" by (simp add: aux_sample_tried_def aux_sample_loaded_def aux_sample_world_def)
  have "configuration (aux_sample_env e) ?w = configuration (aux_sample_env e) aux_sample_world"
    by (rule configuration_material) (simp add: aux_sample_loaded_def)
  then obtain config where c: "configuration (aux_sample_env e) ?w [aux_sample_listener] ''127.0.0.1:1'' (hex_encode [1]) = Inr config"
    using aux_sample_configuration [of e "''127.0.0.1:1''" "hex_encode [1]"]
    by (cases "configuration (aux_sample_env e) ?w [aux_sample_listener] ''127.0.0.1:1'' (hex_encode [1])") auto
  have turn: "at_random (ae_turn (aux_sample_env e) n) = [1]" "at_accepts (ae_turn (aux_sample_env e) n) x"
    "at_port_free (ae_turn (aux_sample_env e) n) a" for n x a
    by (simp_all add: aux_sample_env_def)
  have none: "aux_sample_manager\<lparr>mg_invalid := None\<rparr> = aux_sample_manager" "aw_faults ?w = []"
    by (simp_all add: aux_sample_manager_def aux_sample_loaded_def aux_sample_world_def)
  show ?thesis
    using c none by (simp add: preflight_def next_turn_def random_id_def aux_sample_verified aux_sample_valid turn aux_fault_def check_addresses_def tried Let_def)
qed

lemma aux_sample_launch:
  "is_ok (fst (launch (aux_sample_env False) True [aux_sample_listener] aux_sample_manager aux_sample_tried))"
  "aw_faults (snd (snd (launch (aux_sample_env False) True [aux_sample_listener] aux_sample_manager aux_sample_tried))) = []"
  "fst (launch (aux_sample_env True) True [aux_sample_listener] aux_sample_manager aux_sample_tried) = Inl ExitedEarly"
  by code_simp+

lemma aux_sample_apply:
  "fst (apply_aux (aux_sample_env False) [aux_sample_listener] aux_sample_manager aux_sample_loaded) = Inr ()"
  "fst (apply_aux (aux_sample_env True) [aux_sample_listener] aux_sample_manager aux_sample_loaded) = Inl (ExitedEarly, Some True)"
proof -
  have s: "stop_process aux_sample_manager aux_sample_tried = (aux_sample_manager, aux_sample_tried)" "\<not> running_process aux_sample_manager aux_sample_tried"
    by (simp_all add: stop_process_def running_process_def aux_sample_manager_def)
  show "fst (apply_aux (aux_sample_env False) [aux_sample_listener] aux_sample_manager aux_sample_loaded) = Inr ()"
    using aux_sample_launch(1,2) s
    by (cases "launch (aux_sample_env False) True [aux_sample_listener] aux_sample_manager aux_sample_tried")
      (auto simp: apply_aux_def aux_sample_preflight save_state_def aux_fault_def Let_def split: sum.splits)
  show "fst (apply_aux (aux_sample_env True) [aux_sample_listener] aux_sample_manager aux_sample_loaded) = Inl (ExitedEarly, Some True)"
    using aux_sample_launch(3) s
    by (cases "launch (aux_sample_env True) True [aux_sample_listener] aux_sample_manager aux_sample_tried")
      (auto simp: apply_aux_def aux_sample_preflight recover_aux_def split: prod.splits)
qed

text \<open>The listener as the command has it.\<close>

definition aux_sample_json :: json where
  "aux_sample_json = JArr [JObj [(''listen'', JStr ''0.0.0.0''), (''name'', JStr ''s''), (''port'', JNum ''7''), (''type'', JStr ''snell''),
     (''users'', JArr [JObj [(''bridge'', JObj [(''id'', JStr (replicate 36 CHR ''a'')), (''port'', JNum ''9'')]), (''email'', JStr ''a@b''),
       (''password'', JStr ''p'')]]), (''version'', JNum ''4'')]]"

lemma aux_sample_decoded: "traverse_opt decode_listener (case aux_sample_json of JArr vs \<Rightarrow> vs) = Some [aux_sample_listener]"
  by code_simp

lemma aux_sample_new: "New_aux (aux_sample_env e) aux_sample_world = (Inr aux_sample_manager, aux_sample_loaded)"
proof -
  have "aw_faults aux_sample_world = []" "aw_state aux_sample_world = NoAux" "aw_turns aux_sample_world = 0" by (simp_all add: aux_sample_world_def)
  then show ?thesis
    by (simp add: New_aux_def aux_fault_def next_turn_def aux_sample_verified) (simp add: aux_sample_manager_def aux_sample_loaded_def aux_sample_world_def)
qed

theorem launch_terminates_witness:
  "\<exists>r m' w'. launch (aux_sample_env False) True [aux_sample_listener] aux_sample_manager aux_sample_world = (r, m', w') \<and>
     is_ok r \<and> aw_polls w' \<le> 160 \<and> mg_process m' = Some 0 \<and> aw_live w' = [0] \<and> started_with (aux_sample_env False) w' 0 [aux_sample_listener]"
proof -
  have "fresh_ids aux_sample_manager aux_sample_world" by (simp add: fresh_ids_def aux_sample_manager_def aux_sample_world_def)
  note run = launch_terminates [OF this, of "aux_sample_env False" True "[aux_sample_listener]"]
  have ok: "is_ok (fst (launch (aux_sample_env False) True [aux_sample_listener] aux_sample_manager aux_sample_world))" by code_simp
  have w: "aw_polls aux_sample_world = 0" "aw_next aux_sample_world = 0" "aw_live aux_sample_world = []" by (simp_all add: aux_sample_world_def)
  show ?thesis using run ok unfolding w by auto
qed


theorem failed_aux_apply_is_undone_witness:
  "\<exists>m' w'. apply_aux (aux_sample_env True) [aux_sample_listener] aux_sample_manager aux_sample_loaded = (Inl (ExitedEarly, Some True), m', w') \<and>
     mg_desired m' = mg_desired aux_sample_manager \<and> aw_state w' = NoAux \<and> \<not> running_process m' w'"
proof -
  obtain m' w' where run: "apply_aux (aux_sample_env True) [aux_sample_listener] aux_sample_manager aux_sample_loaded = (Inl (ExitedEarly, Some True), m', w')"
    using aux_sample_apply(2) by (metis prod.collapse)
  have "\<not> running_process aux_sample_manager aux_sample_loaded" "aw_state aux_sample_loaded = NoAux"
    by (simp_all add: running_process_def aux_sample_manager_def aux_sample_loaded_def aux_sample_world_def)
  then show ?thesis using run failed_aux_apply_is_undone [OF run aux_sample_inv] by auto
qed


theorem aux_process_matches_state_witness:
  "\<exists>m w'. foldl (aux_step (aux_sample_env False)) (aux_sample_manager, aux_sample_loaded) [AuxApply (\<lambda>_. 0) aux_sample_json] = (m, w') \<and>
     running_process m w' \<and> aw_live w' = [the (mg_process m)] \<and>
     started_with (aux_sample_env False) w' (the (mg_process m)) (as_Listeners (mg_desired m)) \<and> as_Listeners (mg_desired m) = [aux_sample_listener]"
proof -
  obtain m w' where run: "apply_aux (aux_sample_env False) [aux_sample_listener] aux_sample_manager aux_sample_loaded = (Inr (), m, w')"
    using aux_sample_apply(1) by (metis prod.collapse)
  have "aux_step (aux_sample_env False) (aux_sample_manager, aux_sample_loaded) (AuxApply (\<lambda>_. 0) aux_sample_json) = (m, w')"
    using run aux_sample_decoded by (simp add: Apply_aux_def aux_sample_json_def)
  then have es: "foldl (aux_step (aux_sample_env False)) (aux_sample_manager, aux_sample_loaded) [AuxApply (\<lambda>_. 0) aux_sample_json] = (m, w')" by simp
  have ran: "mg_desired m = \<lparr>as_Enabled = True, as_Listeners = [aux_sample_listener]\<rparr>" "running_process m w'"
    using apply_aux_spec [OF run aux_sample_inv] by simp_all
  have "aw_live aux_sample_world = []" by (simp add: aux_sample_world_def)
  from aux_process_matches_state [OF aux_sample_new this es] show ?thesis using es ran by simp
qed

end
