(* ===== verification/Log_Files.thy ===== *)
theory Log_Files
  imports Json_Model "HOL-Library.Multiset"
begin

text \<open>
  Bounded log files (internal/logfiles): the manager of one stream in a directory, rotation, pruning,
  deletion and the reader of the newest lines. The directory is an association list sorted by name,
  shared by the managers of several streams; only managers write to it, so the open descriptor of
  the active file and the entry with its name are the same file. Every system call may fail, as
  told by a list of faults: \<open>None\<close> lets a call pass, \<open>Some k\<close> makes it fail (a failing write has
  written \<open>k\<close> bytes before). After a failed \<open>Close\<close> the manager keeps a descriptor that is of no use,
  \<open>lm_stale\<close>. Modification times are left out.
\<close>

datatype log_entry = LogText string | SpecialFile

datatype log_error = ErrName | InvalidLimits | ErrClosed | TooLarge | LogSystem | LogNotExist

record log_file =
  lf_Name :: string
  lf_Size :: nat
  lf_Active :: bool

record log_inventory =
  li_Files :: "log_file list"
  li_TotalSize :: nat
  li_MaxSize :: nat
  li_MaxArchives :: nat

record log_manager =
  lm_name :: string
  lm_maxSize :: nat
  lm_archives :: nat
  lm_file :: bool
  lm_stale :: bool
  lm_closed :: bool

record log_dir =
  ld_files :: "(string \<times> log_entry) list"
  ld_faults :: "nat option list"

definition log_call :: "log_dir \<Rightarrow> nat option \<times> log_dir" where
  "log_call d = (case ld_faults d of [] \<Rightarrow> (None, d) | f # fs \<Rightarrow> (f, d\<lparr>ld_faults := fs\<rparr>))"

text \<open>The names: \<open>[a-z][a-z0-9-]*.log\<close> for an active file, its stem, a dash and 20 digits for an archive.\<close>

definition is_lower :: "char \<Rightarrow> bool" where
  "is_lower c = (CHR ''a'' \<le> c \<and> c \<le> CHR ''z'')"

definition log_stem :: "string \<Rightarrow> string" where
  "log_stem name = take (length name - 4) name"

definition valid_log_name :: "string \<Rightarrow> bool" where
  "valid_log_name name =
     (5 \<le> length name \<and> name = log_stem name @ ''.log'' \<and> is_lower (hd name) \<and>
      list_all (\<lambda>c. is_lower c \<or> is_digit c \<or> c = CHR ''-'') (log_stem name))"

definition is_archive :: "string \<Rightarrow> string \<Rightarrow> bool" where
  "is_archive name s =
     (let n = length (log_stem name) in
      length s = n + 25 \<and> take (n + 1) s = log_stem name @ ''-'' \<and> list_all is_digit (take 20 (drop (n + 1) s)) \<and>
      drop (n + 21) s = ''.log'')"

definition owned_name :: "log_manager \<Rightarrow> string \<Rightarrow> bool" where
  "owned_name m s = (s = lm_name m \<or> is_archive (lm_name m) s)"

definition pad20 :: "string \<Rightarrow> string" where
  "pad20 s = replicate (20 - length s) (CHR ''0'') @ s"

definition archive_name :: "string \<Rightarrow> nat \<Rightarrow> string" where
  "archive_name name nano = log_stem name @ ''-'' @ pad20 (nat_digits nano) @ ''.log''"

definition log_text :: "string \<Rightarrow> log_dir \<Rightarrow> string" where
  "log_text name d = (case map_of (ld_files d) name of Some (LogText t) \<Rightarrow> t | _ \<Rightarrow> [])"

section \<open>Operations\<close>

definition regular :: "log_manager \<Rightarrow> string \<Rightarrow> log_dir \<Rightarrow> (log_error, unit) res \<times> log_dir" where
  "regular m name d =
     (if \<not> owned_name m name then (Inl ErrName, d)
      else case log_call d of
        (Some _, d1) \<Rightarrow> (Inl LogSystem, d1)
      | (None, d1) \<Rightarrow>
          (case map_of (ld_files d1) name of
             None \<Rightarrow> (Inl LogNotExist, d1)
           | Some SpecialFile \<Rightarrow> (Inl ErrName, d1)
           | Some (LogText _) \<Rightarrow> (Inr (), d1)))"

definition openActive :: "log_manager \<Rightarrow> log_dir \<Rightarrow> (log_error, unit) res \<times> log_manager \<times> log_dir" where
  "openActive m d =
     (case regular m (lm_name m) d of (r, d1) \<Rightarrow>
        if r \<noteq> Inr () \<and> r \<noteq> Inl LogNotExist then (r, m, d1)
        else case log_call d1 of
          (Some _, d2) \<Rightarrow> (Inl LogSystem, m, d2)
        | (None, d2) \<Rightarrow>
            (Inr (), m\<lparr>lm_file := True, lm_stale := False\<rparr>,
             if map_of (ld_files d2) (lm_name m) = None then d2\<lparr>ld_files := put_key (lm_name m) (LogText []) (ld_files d2)\<rparr> else d2))"

fun collect_files :: "log_manager \<Rightarrow> (string \<times> log_entry) list \<Rightarrow> log_dir \<Rightarrow> (log_error, log_file list) res \<times> log_dir" where
  "collect_files m [] d = (Inr [], d)"
| "collect_files m ((name, entry) # rest) d =
     (if \<not> owned_name m name then collect_files m rest d
      else case log_call d of
        (Some _, d1) \<Rightarrow> (Inl LogSystem, d1)
      | (None, d1) \<Rightarrow>
          if name = lm_name m \<and> lm_file m \<and> lm_stale m then (Inl LogSystem, d1)
          else (case entry of
             SpecialFile \<Rightarrow> collect_files m rest d1
           | LogText t \<Rightarrow>
               (case collect_files m rest d1 of
                  (Inl e, d2) \<Rightarrow> (Inl e, d2)
                | (Inr files, d2) \<Rightarrow> (Inr (\<lparr>lf_Name = name, lf_Size = length t, lf_Active = (name = lm_name m)\<rparr> # files), d2))))"

text \<open>\<open>sort.Slice\<close>: the active file first, then the names from the largest to the smallest.\<close>

definition order_files :: "log_file list \<Rightarrow> log_file list" where
  "order_files files = filter lf_Active files @ rev (sort_key lf_Name (filter (\<lambda>f. \<not> lf_Active f) files))"

text \<open>Two system calls: opening the directory and reading it.\<close>

definition inventory :: "log_manager \<Rightarrow> log_dir \<Rightarrow> (log_error, log_inventory) res \<times> log_dir" where
  "inventory m d =
     (if lm_closed m then (Inl ErrClosed, d)
      else case log_call d of
        (Some _, d1) \<Rightarrow> (Inl LogSystem, d1)
      | (None, d1) \<Rightarrow>
          (case log_call d1 of
             (Some _, d2) \<Rightarrow> (Inl LogSystem, d2)
           | (None, d2) \<Rightarrow>
               (case collect_files m (ld_files d2) d2 of
                  (Inl e, d3) \<Rightarrow> (Inl e, d3)
                | (Inr files, d3) \<Rightarrow>
                    (Inr \<lparr>li_Files = order_files files, li_TotalSize = sum_list (map lf_Size files),
                       li_MaxSize = lm_maxSize m, li_MaxArchives = lm_archives m\<rparr>, d3))))"

definition remove_file :: "string \<Rightarrow> log_dir \<Rightarrow> (log_error, unit) res \<times> log_dir" where
  "remove_file name d =
     (case log_call d of
        (Some _, d1) \<Rightarrow> (Inl LogSystem, d1)
      | (None, d1) \<Rightarrow> (Inr (), d1\<lparr>ld_files := AList.delete name (ld_files d1)\<rparr>))"

text \<open>The loop of \<open>prune\<close>; \<open>keep\<close> is what the limit leaves to the archives seen so far.\<close>

fun remove_surplus :: "nat \<Rightarrow> log_file list \<Rightarrow> log_dir \<Rightarrow> (log_error, unit) res \<times> log_dir" where
  "remove_surplus keep [] d = (Inr (), d)"
| "remove_surplus keep (f # files) d =
     (if lf_Active f then remove_surplus keep files d
      else if keep > 0 then remove_surplus (keep - 1) files d
      else case remove_file (lf_Name f) d of
        (Inl e, d1) \<Rightarrow> (Inl e, d1)
      | (Inr _, d1) \<Rightarrow> remove_surplus 0 files d1)"

definition prune :: "log_manager \<Rightarrow> log_dir \<Rightarrow> (log_error, unit) res \<times> log_dir" where
  "prune m d =
     (case inventory m d of
        (Inl e, d1) \<Rightarrow> (Inl e, d1)
      | (Inr out, d1) \<Rightarrow> remove_surplus (lm_archives m) (li_Files out) d1)"

definition Close :: "log_manager \<Rightarrow> log_dir \<Rightarrow> (log_error, unit) res \<times> log_manager \<times> log_dir" where
  "Close m d =
     (if lm_closed m then (Inr (), m, d)
      else case (if lm_file m then log_call d else (None, d)) of (e1, d1) \<Rightarrow>
        case log_call d1 of (e2, d2) \<Rightarrow>
          (if e1 = None \<and> e2 = None \<and> \<not> (lm_file m \<and> lm_stale m) then Inr () else Inl LogSystem, m\<lparr>lm_closed := True\<rparr>, d2))"

text \<open>Three system calls prepare the directory: \<open>MkdirAll\<close>, \<open>Lstat\<close> and \<open>OpenRoot\<close>.\<close>

fun pass_calls :: "nat \<Rightarrow> log_dir \<Rightarrow> bool \<times> log_dir" where
  "pass_calls 0 d = (True, d)"
| "pass_calls (Suc n) d = (case log_call d of (None, d1) \<Rightarrow> pass_calls n d1 | (Some _, d1) \<Rightarrow> (False, d1))"

definition OpenNamed :: "string \<Rightarrow> int \<Rightarrow> int \<Rightarrow> log_dir \<Rightarrow> (log_error, log_manager) res \<times> log_dir" where
  "OpenNamed name maxSize archives d =
     (if \<not> valid_log_name name then (Inl ErrName, d)
      else if maxSize \<le> 0 \<or> archives < 1 then (Inl InvalidLimits, d)
      else case pass_calls 3 d of
        (False, d1) \<Rightarrow> (Inl LogSystem, d1)
      | (True, d1) \<Rightarrow>
          (case openActive \<lparr>lm_name = name, lm_maxSize = nat maxSize, lm_archives = nat archives, lm_file = False,
               lm_stale = False, lm_closed = False\<rparr> d1 of
             (Inl e, m, d2) \<Rightarrow> (Inl e, d2)
           | (Inr _, m, d2) \<Rightarrow>
               (case prune m d2 of
                  (Inl e, d3) \<Rightarrow> (case Close m d3 of (_, _, d4) \<Rightarrow> (Inl e, d4))
                | (Inr _, d3) \<Rightarrow> (Inr m, d3))))"

definition OpenLog :: "int \<Rightarrow> int \<Rightarrow> log_dir \<Rightarrow> (log_error, log_manager) res \<times> log_dir" where
  "OpenLog maxSize archives = OpenNamed ''aswired.log'' maxSize archives"

text \<open>The active file becomes an archive named after the time in nanoseconds.\<close>

definition rotate_log :: "log_manager \<Rightarrow> nat \<Rightarrow> log_dir \<Rightarrow> (log_error, unit) res \<times> log_manager \<times> log_dir" where
  "rotate_log m nano d =
     (case log_call d of
        (Some _, d1) \<Rightarrow> (Inl LogSystem, m\<lparr>lm_stale := True\<rparr>, d1)
      | (None, d1) \<Rightarrow>
          let m1 = m\<lparr>lm_file := False\<rparr> in
          (case log_call d1 of
             (Some _, d2) \<Rightarrow> (case openActive m1 d2 of (_, m2, d3) \<Rightarrow> (Inl LogSystem, m2, d3))
           | (None, d2) \<Rightarrow>
               (case openActive m1 (d2\<lparr>ld_files := put_key (archive_name (lm_name m) nano) (LogText (log_text (lm_name m) d2))
                    (AList.delete (lm_name m) (ld_files d2))\<rparr>) of
                  (Inl e, m2, d3) \<Rightarrow> (Inl e, m2, d3)
                | (Inr _, m2, d3) \<Rightarrow> (case prune m2 d3 of (r, d4) \<Rightarrow> (r, m2, d4)))))"

definition append_log :: "log_manager \<Rightarrow> string \<Rightarrow> log_dir \<Rightarrow> (log_error, nat) res \<times> log_dir" where
  "append_log m p d =
     (let t = log_text (lm_name m) d in
      case log_call d of
        (Some _, d1) \<Rightarrow> (Inl LogSystem, d1)
      | (None, d1) \<Rightarrow>
          (case log_call d1 of
             (Some k, d2) \<Rightarrow> (Inl LogSystem, d2\<lparr>ld_files := put_key (lm_name m) (LogText (t @ take k p)) (ld_files d2)\<rparr>)
           | (None, d2) \<Rightarrow> (Inr (length p), d2\<lparr>ld_files := put_key (lm_name m) (LogText (t @ p)) (ld_files d2)\<rparr>)))"

definition Write :: "log_manager \<Rightarrow> string \<Rightarrow> nat \<Rightarrow> log_dir \<Rightarrow> (log_error, nat) res \<times> log_manager \<times> log_dir" where
  "Write m p nano d =
     (if lm_closed m \<or> \<not> lm_file m then (Inl ErrClosed, m, d)
      else if length p > lm_maxSize m then (Inl TooLarge, m, d)
      else case log_call d of
        (Some _, d1) \<Rightarrow> (Inl LogSystem, m, d1)
      | (None, d1) \<Rightarrow>
          if lm_stale m then (Inl LogSystem, m, d1)
          else let used = length (log_text (lm_name m) d1) in
          (case (if used > 0 \<and> used + length p > lm_maxSize m then rotate_log m nano d1 else (Inr (), m, d1)) of
             (Inl e, m1, d2) \<Rightarrow> (Inl e, m1, d2)
           | (Inr _, m1, d2) \<Rightarrow> (case append_log m1 p d2 of (r, d3) \<Rightarrow> (r, m1, d3))))"

definition remove_log :: "log_manager \<Rightarrow> string \<Rightarrow> log_dir \<Rightarrow> (log_error, unit) res \<times> log_dir" where
  "remove_log m name d =
     (case regular m name d of
        (Inl e, d1) \<Rightarrow> (Inl e, d1)
      | (Inr _, d1) \<Rightarrow>
          if name = lm_name m then
            (if \<not> lm_file m then (Inl ErrClosed, d1)
             else case log_call d1 of
               (Some _, d2) \<Rightarrow> (Inl LogSystem, d2)
             | (None, d2) \<Rightarrow> if lm_stale m then (Inl LogSystem, d2)
                 else (Inr (), d2\<lparr>ld_files := put_key name (LogText []) (ld_files d2)\<rparr>))
          else remove_file name d1)"

definition Delete :: "log_manager \<Rightarrow> string \<Rightarrow> log_dir \<Rightarrow> (log_error, unit) res \<times> log_dir" where
  "Delete m name d = (if lm_closed m then (Inl ErrClosed, d) else remove_log m name d)"

fun remove_logs :: "log_manager \<Rightarrow> log_file list \<Rightarrow> log_dir \<Rightarrow> (log_error, unit) res \<times> log_dir" where
  "remove_logs m [] d = (Inr (), d)"
| "remove_logs m (f # files) d =
     (case remove_log m (lf_Name f) d of
        (Inl e, d1) \<Rightarrow> (Inl e, d1)
      | (Inr _, d1) \<Rightarrow> remove_logs m files d1)"

definition Clear :: "log_manager \<Rightarrow> log_dir \<Rightarrow> (log_error, unit) res \<times> log_dir" where
  "Clear m d =
     (case inventory m d of
        (Inl e, d1) \<Rightarrow> (Inl e, d1)
      | (Inr out, d1) \<Rightarrow> remove_logs m (li_Files out) d1)"

definition Sync :: "log_manager \<Rightarrow> log_dir \<Rightarrow> (log_error, unit) res \<times> log_dir" where
  "Sync m d =
     (if lm_closed m \<or> \<not> lm_file m then (Inl ErrClosed, d)
      else case log_call d of
        (Some _, d1) \<Rightarrow> (Inl LogSystem, d1)
      | (None, d1) \<Rightarrow> if lm_stale m then (Inl LogSystem, d1) else (Inr (), d1))"

text \<open>\<open>json.Marshal\<close> escapes HTML characters, which occur in JSON strings only.\<close>

definition html_escape :: "char \<Rightarrow> string" where
  "html_escape c = (if c = CHR ''<'' then char_of (92 :: nat) # ''u003c'' else if c = CHR ''>'' then char_of (92 :: nat) # ''u003e''
     else if c = CHR ''&'' then char_of (92 :: nat) # ''u0026'' else [c])"

definition Marshal :: "jmap \<Rightarrow> string" where
  "Marshal event = concat (map html_escape (json_encode (JObj event)))"

definition Append :: "log_manager \<Rightarrow> jmap \<Rightarrow> nat \<Rightarrow> log_dir \<Rightarrow> (log_error, nat) res \<times> log_manager \<times> log_dir" where
  "Append m event nano d = Write m (Marshal event @ [newline]) nano d"

section \<open>Reading\<close>

record log_line =
  ll_File :: string
  ll_Offset :: nat
  ll_Text :: string

record log_tail =
  lt_Lines :: "log_line list"
  lt_Truncated :: bool

definition read_budget :: nat where
  "read_budget = 2 * 1024 * 1024"

definition clamp_limit :: "int \<Rightarrow> nat" where
  "clamp_limit limit = (if limit < 1 then 200 else if limit > 2000 then 2000 else nat limit)"

text \<open>\<open>bytes.LastIndexByte(data[:end], '\n') + 1\<close>.\<close>

definition line_begin :: "string \<Rightarrow> nat" where
  "line_begin data = length data - length (takeWhile (\<lambda>c. c \<noteq> newline) (rev data))"

lemma line_begin_le: "line_begin data \<le> length data"
  by (simp add: line_begin_def)

lemma line_begin_less: "data \<noteq> [] \<Longrightarrow> last data \<noteq> newline \<Longrightarrow> line_begin data < length data"
  by (cases data rule: rev_cases) (auto simp: line_begin_def)

text \<open>
  The inner loop, from the end of the data backwards. The argument is what is left of the data,
  \<open>data[:end]\<close>. The result: the lines, where the loop stopped, and whether the limit stopped it.
\<close>

function scan_lines :: "string \<Rightarrow> nat \<Rightarrow> nat \<Rightarrow> string \<Rightarrow> log_line list \<Rightarrow> log_line list \<times> nat \<times> bool" where
  "scan_lines name start limit data acc =
     (if data = [] then (acc, 0, False)
      else let left = (if last data = newline then butlast data else data) in
        if left = [] then (acc, 0, False)
        else let n = line_begin left;
                 acc' = (if length left > n then acc @ [\<lparr>ll_File = name, ll_Offset = start + n, ll_Text = drop n left\<rparr>] else acc) in
          if length acc' = limit then (acc', n, True) else scan_lines name start limit (take n left) acc')"
  by auto
termination
proof (relation "measure (\<lambda>(_, _, _, data, _). length data)", goal_cases)
  case (2 name start limit data acc left n acc')
  then have "n \<le> length left" "length left \<le> length data" using line_begin_le by (auto split: if_splits)
  moreover have "n < length data"
  proof (cases "last data = newline")
    case True
    then have "length left < length data" using 2 by (cases data rule: rev_cases) auto
    then show ?thesis using \<open>n \<le> length left\<close> by simp
  next
    case False
    then show ?thesis using 2 line_begin_less by simp
  qed
  ultimately show ?case by auto
qed simp

declare scan_lines.simps [simp del]

text \<open>The part of a file the budget allows, without the line it cuts; where it starts.\<close>

definition read_part :: "string \<Rightarrow> nat \<Rightarrow> nat \<times> string" where
  "read_part t budget =
     (let start = length t - budget; data = drop start t in
      if start > 0 then
        (let cut = length (takeWhile (\<lambda>c. c \<noteq> newline) data) in
         if cut < length data then (start + cut + 1, drop (cut + 1) data) else (start, []))
      else (start, data))"

text \<open>The outer loop. Opening and reading a file are system calls.\<close>

fun read_files :: "log_manager \<Rightarrow> nat \<Rightarrow> nat \<Rightarrow> log_file list \<Rightarrow> log_line list \<Rightarrow> log_dir \<Rightarrow> (log_error, log_tail) res \<times> log_dir" where
  "read_files m limit budget [] acc d = (Inr \<lparr>lt_Lines = acc, lt_Truncated = False\<rparr>, d)"
| "read_files m limit budget (f # files) acc d =
     (case regular m (lf_Name f) d of
        (Inl e, d1) \<Rightarrow> (Inl e, d1)
      | (Inr _, d1) \<Rightarrow>
          (case pass_calls 2 d1 of
             (False, d2) \<Rightarrow> (Inl LogSystem, d2)
           | (True, d2) \<Rightarrow>
               let t = log_text (lf_Name f) d2 in
               (case read_part t budget of (start, data) \<Rightarrow>
                  case scan_lines (lf_Name f) start limit data acc of (acc', n, full) \<Rightarrow>
                    if full then (Inr \<lparr>lt_Lines = acc', lt_Truncated = (n > 0 \<or> start > 0 \<or> files \<noteq> [])\<rparr>, d2)
                    else let budget' = budget - min budget (length t) in
                      if budget' = 0 then (Inr \<lparr>lt_Lines = acc', lt_Truncated = True\<rparr>, d2)
                      else read_files m limit budget' files acc' d2)))"

definition Read :: "log_manager \<Rightarrow> int \<Rightarrow> log_dir \<Rightarrow> (log_error, log_tail) res \<times> log_dir" where
  "Read m limit d =
     (case inventory m d of
        (Inl e, d1) \<Rightarrow> (Inl e, d1)
      | (Inr out, d1) \<Rightarrow> read_files m (clamp_limit limit) read_budget (li_Files out) [] d1)"

section \<open>The newest lines\<close>

text \<open>The reference: the lines of a text with their offsets, without the empty ones.\<close>

fun offsets :: "nat \<Rightarrow> string list \<Rightarrow> (nat \<times> string) list" where
  "offsets k [] = []"
| "offsets k (l # ls) = (k, l) # offsets (k + length l + 1) ls"

definition lines_at :: "string \<Rightarrow> nat \<Rightarrow> string \<Rightarrow> log_line list" where
  "lines_at name start s =
     map (\<lambda>(k, l). \<lparr>ll_File = name, ll_Offset = k, ll_Text = l\<rparr>) (filter (\<lambda>(k, l). l \<noteq> []) (offsets start (split_on newline s)))"

lemma offsets_append: "offsets k (xs @ ys) = offsets k xs @ offsets (k + sum_list (map (\<lambda>l. Suc (length l)) xs)) ys"
  by (induction xs arbitrary: k) (auto simp: algebra_simps)

lemma split_on_lengths: "sum_list (map (\<lambda>l. Suc (length l)) (split_on c s)) = Suc (length s)"
  by (induction c s rule: split_on.induct) (auto split: list.splits)

lemma lines_at_append: "lines_at name start (a @ newline # b) = lines_at name start a @ lines_at name (start + length a + 1) b"
  by (simp add: lines_at_def split_on_append offsets_append split_on_lengths)

lemma lines_at_plain:
  "newline \<notin> set a \<Longrightarrow> lines_at name start a = (if a = [] then [] else [\<lparr>ll_File = name, ll_Offset = start, ll_Text = a\<rparr>])"
  by (simp add: lines_at_def split_on_plain)

lemma lines_at_Nil [simp]: "lines_at name start [] = []"
  by (simp add: lines_at_plain)

lemma lines_at_snoc: "lines_at name start (a @ [newline]) = lines_at name start a"
  using lines_at_append [of name start a "[]"] by simp

lemma last_break:
  obtains (none) "newline \<notin> set data" "line_begin data = 0"
  | (break) a x where "data = a @ newline # x" "newline \<notin> set x" "line_begin data = length a + 1"
proof (cases "newline \<in> set data")
  case True
  then obtain a x where "data = a @ newline # x" "newline \<notin> set x" by (meson split_list_last)
  moreover from this have "takeWhile (\<lambda>c. c \<noteq> newline) (rev data) = rev x"
    using takeWhile_append2 [of "rev x" "\<lambda>c. c \<noteq> newline" "newline # rev a"] by auto
  ultimately have "line_begin data = length a + 1" by (simp add: line_begin_def)
  with \<open>data = a @ newline # x\<close> \<open>newline \<notin> set x\<close> show ?thesis by (rule break)
next
  case False
  then have "takeWhile (\<lambda>c. c \<noteq> newline) (rev data) = rev data"
    by (auto simp: takeWhile_eq_all_conv)
  then have "line_begin data = 0" unfolding line_begin_def by (simp only: length_rev)
  with False show ?thesis by (rule none)
qed

lemma lines_at_last:
  "lines_at name start data = lines_at name start (take (line_begin data) data) @
     (if length data > line_begin data then [\<lparr>ll_File = name, ll_Offset = start + line_begin data, ll_Text = drop (line_begin data) data\<rparr>] else [])"
  by (cases data rule: last_break) (auto simp: lines_at_plain lines_at_append lines_at_snoc)

text \<open>The backward loop yields the lines of the data, newest first, up to the limit.\<close>

lemma scan_lines_spec:
  assumes "scan_lines name start limit data acc = (acc', n, full)" "length acc < limit"
  shows "acc' = take limit (acc @ rev (lines_at name start data)) \<and> (full \<longleftrightarrow> length acc' = limit) \<and>
    (full \<and> n = 0 \<longrightarrow> acc' = acc @ rev (lines_at name start data))"
  using assms
proof (induction name start limit data acc rule: scan_lines.induct)
  case (1 name start limit data acc)
  show ?case
  proof (cases "data = []")
    case True
    then show ?thesis using "1.prems" by (simp add: scan_lines.simps)
  next
    case nonempty: False
    define left where "left = (if last data = newline then butlast data else data)"
    define k where "k = line_begin left"
    define line where "line = (if length left > k then [\<lparr>ll_File = name, ll_Offset = start + k, ll_Text = drop k left\<rparr>] else [])"
    have "lines_at name start data = lines_at name start left"
    proof (cases "last data = newline")
      case True
      then have "data = left @ [newline]" using nonempty append_butlast_last_id [of data] by (simp add: left_def)
      then show ?thesis by (simp add: lines_at_snoc)
    qed (simp add: left_def)
    also have "\<dots> = lines_at name start (take k left) @ line"
      unfolding k_def line_def by (rule lines_at_last)
    finally have lines: "rev (lines_at name start data) = line @ rev (lines_at name start (take k left))"
      by (simp add: line_def)
    show ?thesis
    proof (cases "left = []")
      case True
      then have "lines_at name start data = []" "scan_lines name start limit data acc = (acc, 0, False)"
        using lines nonempty by (simp_all add: line_def scan_lines.simps left_def [symmetric] Let_def)
      then show ?thesis using "1.prems" by simp
    next
      case False
      have acc': "(if length left > k then acc @ [\<lparr>ll_File = name, ll_Offset = start + k, ll_Text = drop k left\<rparr>] else acc) = acc @ line"
        by (simp add: line_def)
      have step: "scan_lines name start limit data acc =
          (if length (acc @ line) = limit then (acc @ line, k, True) else scan_lines name start limit (take k left) (acc @ line))"
        using nonempty False
        by (subst scan_lines.simps) (simp only: Let_def left_def [symmetric] k_def [symmetric] acc' if_False)
      show ?thesis
      proof (cases "length (acc @ line) = limit")
        case True
        then show ?thesis using step "1.prems" lines by auto
      next
        case ne: False
        then have "length (acc @ line) < limit" using "1.prems"(2) by (auto simp: line_def)
        with "1.IH" [OF nonempty left_def False k_def acc' [symmetric] ne]
        show ?thesis using step ne "1.prems" lines by (auto simp: line_def)
      qed
    qed
  qed
qed

lemma read_part_whole: "length t \<le> budget \<Longrightarrow> read_part t budget = (0, t)"
  by (simp add: read_part_def)

lemma read_part_spec:
  assumes "read_part t budget = (start, data)"
  obtains earlier where "lines_at name 0 t = earlier @ lines_at name start data" "start = 0 \<Longrightarrow> earlier = []"
proof (cases "length t \<le> budget")
  case True
  then show ?thesis using assms that [of "[]"] by (simp add: read_part_whole)
next
  case False
  define k where "k = length t - budget"
  define cut where "cut = length (takeWhile (\<lambda>c. c \<noteq> newline) (drop k t))"
  have part: "(start, data) = (if cut < length (drop k t) then (k + cut + 1, drop (cut + 1) (drop k t)) else (k, []))" and "k > 0"
    using assms False by (auto simp: read_part_def Let_def k_def cut_def)
  show ?thesis
  proof (cases "cut < length (drop k t)")
    case True
    have "drop k t ! cut = newline" using nth_length_takeWhile [of "\<lambda>c. c \<noteq> newline" "drop k t"] True by (simp add: cut_def)
    then have "drop cut (drop k t) = newline # drop (cut + 1) (drop k t)"
      using True Cons_nth_drop_Suc [of cut "drop k t"] by simp
    then have "t = take (k + cut) t @ newline # drop (cut + 1) (drop k t)"
      by (metis append_take_drop_id add.commute drop_drop)
    moreover have "length (take (k + cut) t) = k + cut" using True by simp
    ultimately have "lines_at name 0 t = lines_at name 0 (take (k + cut) t) @ lines_at name (k + cut + 1) (drop (cut + 1) (drop k t))"
      using lines_at_append [of name 0 "take (k + cut) t"] by (metis add_0)
    then show ?thesis using that part True by auto
  next
    case False
    then show ?thesis using that part \<open>k > 0\<close> by auto
  qed
qed

text \<open>The lines of a list of files, newest first.\<close>

definition newest_lines :: "log_dir \<Rightarrow> log_file list \<Rightarrow> log_line list" where
  "newest_lines d files = concat (map (\<lambda>f. rev (lines_at (lf_Name f) 0 (log_text (lf_Name f) d))) files)"

lemma log_call_files: "log_call d = (f, d1) \<Longrightarrow> ld_files d1 = ld_files d"
  by (auto simp: log_call_def split: list.splits)

lemma pass_calls_files: "pass_calls n d = (r, d1) \<Longrightarrow> ld_files d1 = ld_files d"
proof (induction n arbitrary: d)
  case (Suc n)
  obtain f d2 where c: "log_call d = (f, d2)" by fastforce
  show ?case using Suc.prems Suc.IH [of d2] log_call_files [OF c] by (auto simp: c split: option.splits)
qed simp

lemma regular_files: "regular m name d = (r, d1) \<Longrightarrow> ld_files d1 = ld_files d"
proof -
  assume r: "regular m name d = (r, d1)"
  obtain f d2 where c: "log_call d = (f, d2)" by fastforce
  show ?thesis using r log_call_files [OF c]
    by (auto simp: regular_def c split: if_splits option.splits log_entry.splits)
qed

lemma log_text_files: "ld_files d1 = ld_files d \<Longrightarrow> log_text name d1 = log_text name d"
  by (simp add: log_text_def)

lemma newest_lines_files: "ld_files d1 = ld_files d \<Longrightarrow> newest_lines d1 files = newest_lines d files"
  by (simp add: newest_lines_def log_text_def)

lemma newest_lines_Cons:
  "newest_lines d (f # files) = rev (lines_at (lf_Name f) 0 (log_text (lf_Name f) d)) @ newest_lines d files"
  by (simp add: newest_lines_def)

lemma newest_lines_empty: "sum_list (map (\<lambda>f. length (log_text (lf_Name f) d)) files) = 0 \<Longrightarrow> newest_lines d files = []"
  by (induction files) (auto simp: newest_lines_def)

text \<open>One turn of the outer loop.\<close>

lemma read_files_cases:
  assumes "read_files m limit budget (f # files) acc d = (Inr tail, d')"
  obtains d2 start data acc' n full where "ld_files d2 = ld_files d" "read_part (log_text (lf_Name f) d) budget = (start, data)"
    "scan_lines (lf_Name f) start limit data acc = (acc', n, full)"
    "full \<Longrightarrow> tail = \<lparr>lt_Lines = acc', lt_Truncated = (n > 0 \<or> start > 0 \<or> files \<noteq> [])\<rparr> \<and> d' = d2"
    "\<not> full \<Longrightarrow> length (log_text (lf_Name f) d) \<ge> budget \<Longrightarrow> tail = \<lparr>lt_Lines = acc', lt_Truncated = True\<rparr> \<and> d' = d2"
    "\<not> full \<Longrightarrow> length (log_text (lf_Name f) d) < budget \<Longrightarrow>
       read_files m limit (budget - length (log_text (lf_Name f) d)) files acc' d2 = (Inr tail, d')"
proof -
  obtain d1 where r: "regular m (lf_Name f) d = (Inr (), d1)"
    using assms by (auto split: prod.splits sum.splits)
  then obtain d2 where c: "pass_calls 2 d1 = (True, d2)"
    using assms by (auto split: prod.splits bool.splits)
  have files: "ld_files d2 = ld_files d" using regular_files [OF r] pass_calls_files [OF c] by simp
  note same = log_text_files [OF files]
  obtain start data where p: "read_part (log_text (lf_Name f) d) budget = (start, data)" by fastforce
  obtain acc' n full where s: "scan_lines (lf_Name f) start limit data acc = (acc', n, full)" by (metis prod_cases3)
  have "min budget (length (log_text (lf_Name f) d)) = (if length (log_text (lf_Name f) d) < budget then length (log_text (lf_Name f) d) else budget)"
    by simp
  then show ?thesis using assms r c p s
    by (intro that [OF files p s]) (auto simp: same Let_def split: if_splits)
qed

lemma read_files_spec:
  assumes "read_files m limit budget files acc d = (Inr tail, d')" "length acc < limit" "0 < budget"
  shows "ld_files d' = ld_files d \<and> length acc \<le> length (lt_Lines tail) \<and> length (lt_Lines tail) \<le> limit \<and>
    (\<exists>rest. acc @ newest_lines d files = lt_Lines tail @ rest \<and> (lt_Truncated tail \<or> rest = [])) \<and>
    (sum_list (map (\<lambda>f. length (log_text (lf_Name f) d)) files) \<le> budget \<longrightarrow> lt_Lines tail = take limit (acc @ newest_lines d files))"
  using assms
proof (induction files arbitrary: budget acc d)
  case Nil
  then show ?case by (auto simp: newest_lines_def)
next
  case (Cons f files)
  let ?t = "log_text (lf_Name f) d"
  show ?case using Cons.prems(1)
  proof (cases rule: read_files_cases)
    case (1 d2 start data acc' n full)
    note scan = scan_lines_spec [OF 1(3) Cons.prems(2)]
    note same = newest_lines_files [OF 1(1)] log_text_files [OF 1(1)]
    obtain earlier where e: "lines_at (lf_Name f) 0 ?t = earlier @ lines_at (lf_Name f) start data" "start = 0 \<Longrightarrow> earlier = []"
      using read_part_spec [OF 1(2)] by metis
    let ?L = "rev (lines_at (lf_Name f) start data)"
    have all: "acc @ newest_lines d (f # files) = (acc @ ?L) @ rev earlier @ newest_lines d files"
      by (simp add: newest_lines_Cons e(1))
    show ?thesis
    proof (cases full)
      case True
      obtain more where more: "acc @ ?L = acc' @ more" "n = 0 \<Longrightarrow> more = []"
        using scan True by (metis append_Nil2 append_take_drop_id)
      have tail: "tail = \<lparr>lt_Lines = acc', lt_Truncated = (n > 0 \<or> start > 0 \<or> files \<noteq> [])\<rparr>" "d' = d2" using 1(4) True by simp_all
      have len: "length acc' = limit" using scan True by blast
      have rest: "acc @ newest_lines d (f # files) = acc' @ more @ rev earlier @ newest_lines d files" using all more(1) by simp
      have "lt_Truncated tail \<or> more @ rev earlier @ newest_lines d files = []"
        using more(2) e(2) by (auto simp: tail newest_lines_def)
      then have "\<exists>rest. acc @ newest_lines d (f # files) = acc' @ rest \<and> (lt_Truncated tail \<or> rest = [])" using rest by blast
      moreover have "acc' = take limit (acc @ newest_lines d (f # files))" unfolding rest using len by simp
      ultimately show ?thesis using 1(1) len Cons.prems(2) by (simp add: tail)
    next
      case False
      have acc': "acc' = acc @ ?L" "length acc' < limit" using scan False by (auto simp: min_def split: if_splits)
      show ?thesis
      proof (cases "length ?t < budget")
        case True
        then have whole: "start = 0" "data = ?t" using 1(2) by (auto simp: read_part_whole)
        have "ld_files d' = ld_files d \<and> length acc' \<le> length (lt_Lines tail) \<and> length (lt_Lines tail) \<le> limit \<and>
          (\<exists>rest. acc' @ newest_lines d files = lt_Lines tail @ rest \<and> (lt_Truncated tail \<or> rest = [])) \<and>
          (sum_list (map (\<lambda>f. length (log_text (lf_Name f) d)) files) \<le> budget - length ?t \<longrightarrow>
             lt_Lines tail = take limit (acc' @ newest_lines d files))"
          using Cons.IH [OF 1(6) [OF False True] acc'(2)] True unfolding same 1(1) by simp
        moreover have "acc @ newest_lines d (f # files) = acc' @ newest_lines d files" unfolding all using acc'(1) e(2) whole(1) by simp
        moreover have "length acc \<le> length acc'" using acc'(1) by simp
        moreover have "sum_list (map (\<lambda>f. length (log_text (lf_Name f) d)) (f # files)) \<le> budget \<longleftrightarrow>
            sum_list (map (\<lambda>f. length (log_text (lf_Name f) d)) files) \<le> budget - length ?t" using True by auto
        ultimately show ?thesis by (metis (no_types, lifting) order_trans)
      next
        case big: False
        then have tail: "tail = \<lparr>lt_Lines = acc', lt_Truncated = True\<rparr>" "d' = d2" using 1(5) False by simp_all
        have "sum_list (map (\<lambda>f. length (log_text (lf_Name f) d)) (f # files)) \<le> budget \<Longrightarrow>
            rev earlier @ newest_lines d files = []"
        proof -
          assume "sum_list (map (\<lambda>f. length (log_text (lf_Name f) d)) (f # files)) \<le> budget"
          then have "sum_list (map (\<lambda>f. length (log_text (lf_Name f) d)) files) = 0" "length ?t \<le> budget" using big
            unfolding list.map sum_list.Cons by linarith+
          then show ?thesis using newest_lines_empty [of d files] 1(2) e(2) by (auto simp: read_part_whole)
        qed
        then show ?thesis using tail 1(1) acc' all by auto
      qed
    qed
  qed
qed

text \<open>The files of a stream: its entries that are regular files.\<close>

fun entry_text :: "log_entry \<Rightarrow> string" where
  "entry_text (LogText t) = t"
| "entry_text SpecialFile = []"

definition file_of :: "log_manager \<Rightarrow> string \<times> log_entry \<Rightarrow> log_file" where
  "file_of m e = \<lparr>lf_Name = fst e, lf_Size = length (entry_text (snd e)), lf_Active = (fst e = lm_name m)\<rparr>"

definition stream_files :: "log_manager \<Rightarrow> log_dir \<Rightarrow> log_file list" where
  "stream_files m d = order_files (map (file_of m) (filter (\<lambda>e. owned_name m (fst e) \<and> snd e \<noteq> SpecialFile) (ld_files d)))"

lemma collect_files_spec:
  "collect_files m es d = (Inr files, d') \<Longrightarrow> ld_files d' = ld_files d \<and>
     files = map (file_of m) (filter (\<lambda>e. owned_name m (fst e) \<and> snd e \<noteq> SpecialFile) es)"
proof (induction es arbitrary: d files)
  case (Cons p es)
  obtain name entry where p: "p = (name, entry)" by fastforce
  obtain f d1 where c: "log_call d = (f, d1)" by fastforce
  show ?case using Cons.prems Cons.IH log_call_files [OF c]
    by (auto simp: p c file_of_def split: if_splits option.splits log_entry.splits sum.splits prod.splits)
qed simp

lemma collect_files_failed: "collect_files m es d = (Inl e, d') \<Longrightarrow> ld_files d' = ld_files d"
proof (induction es arbitrary: d)
  case (Cons p es)
  obtain name entry where p: "p = (name, entry)" by fastforce
  obtain f d1 where c: "log_call d = (f, d1)" by fastforce
  show ?case using Cons.prems Cons.IH log_call_files [OF c]
    by (auto simp: p c split: if_splits option.splits log_entry.splits sum.splits prod.splits)
qed simp

lemma inventory_cases:
  assumes "inventory m d = (r, d')"
  obtains (failed) e where "r = Inl e" "ld_files d' = ld_files d"
  | (listed) out where "r = Inr out" "ld_files d' = ld_files d" "li_Files out = stream_files m d" "\<not> lm_closed m"
      "li_TotalSize out = sum_list (map lf_Size (stream_files m d))"
proof -
  obtain f d1 where c1: "log_call d = (f, d1)" by fastforce
  obtain g d2 where c2: "log_call d1 = (g, d2)" by fastforce
  note files = log_call_files [OF c1] log_call_files [OF c2]
  have total: "sum_list (map lf_Size (order_files fs)) = sum_list (map lf_Size fs)" for fs
  proof -
    have "mset (order_files fs) = mset fs" by (simp add: order_files_def multiset_partition [symmetric])
    then show ?thesis by (metis mset_map sum_mset_sum_list)
  qed
  show ?thesis
  proof (cases r)
    case (Inl e)
    then show ?thesis using assms files
      by (intro failed) (auto simp: inventory_def c1 c2 split: if_splits option.splits prod.splits sum.splits dest: collect_files_failed)
  next
    case (Inr out)
    then obtain fs where fs: "collect_files m (ld_files d2) d2 = (Inr fs, d')" "li_Files out = order_files fs" "\<not> lm_closed m"
      "li_TotalSize out = sum_list (map lf_Size fs)"
      using assms by (auto simp: inventory_def c1 c2 split: if_splits option.splits prod.splits sum.splits)
    show ?thesis using Inr collect_files_spec [OF fs(1)] fs(2-4) files
      by (intro listed) (auto simp: stream_files_def total)
  qed
qed

definition stream_lines :: "log_manager \<Rightarrow> log_dir \<Rightarrow> log_line list" where
  "stream_lines m d = newest_lines d (stream_files m d)"

lemma clamp_limit_bounds: "0 < clamp_limit limit" "clamp_limit limit \<le> 2000"
  by (auto simp: clamp_limit_def)

lemma Read_spec:
  assumes "Read m limit d = (Inr tail, d')"
  shows "ld_files d' = ld_files d \<and> length (lt_Lines tail) \<le> clamp_limit limit \<and>
    lt_Lines tail = take (length (lt_Lines tail)) (stream_lines m d) \<and>
    (\<not> lt_Truncated tail \<longrightarrow> lt_Lines tail = stream_lines m d) \<and>
    (sum_list (map (\<lambda>f. length (log_text (lf_Name f) d)) (stream_files m d)) \<le> read_budget \<longrightarrow>
       lt_Lines tail = take (clamp_limit limit) (stream_lines m d))"
proof -
  obtain r d1 where i: "inventory m d = (r, d1)" by fastforce
  then show ?thesis
  proof (cases rule: inventory_cases)
    case (listed out)
    have "read_files m (clamp_limit limit) read_budget (stream_files m d) [] d1 = (Inr tail, d')"
      using assms i listed by (simp add: Read_def)
    from read_files_spec [OF this] have spec: "ld_files d' = ld_files d \<and> length (lt_Lines tail) \<le> clamp_limit limit \<and>
      (\<exists>rest. stream_lines m d = lt_Lines tail @ rest \<and> (lt_Truncated tail \<or> rest = [])) \<and>
      (sum_list (map (\<lambda>f. length (log_text (lf_Name f) d)) (stream_files m d)) \<le> read_budget \<longrightarrow>
         lt_Lines tail = take (clamp_limit limit) (stream_lines m d))"
      unfolding newest_lines_files [OF listed(2)] log_text_files [OF listed(2)] listed(2) stream_lines_def
      using clamp_limit_bounds(1) by (simp add: read_budget_def)
    then obtain rest where "stream_lines m d = lt_Lines tail @ rest" "lt_Truncated tail \<or> rest = []" by blast
    then have "lt_Lines tail = take (length (lt_Lines tail)) (stream_lines m d)" "\<not> lt_Truncated tail \<Longrightarrow> lt_Lines tail = stream_lines m d"
      by simp_all
    with spec show ?thesis by blast
  qed (use assms i in \<open>simp add: Read_def\<close>)
qed

lemma read_prefix: "Read m limit d = (Inr tail, d') \<Longrightarrow> lt_Lines tail = take (length (lt_Lines tail)) (stream_lines m d)"
  using Read_spec by blast


section \<open>Space\<close>

definition fails :: "log_dir \<Rightarrow> nat" where
  "fails d = length (filter (\<lambda>f. f \<noteq> None) (ld_faults d))"

definition archives_in :: "log_manager \<Rightarrow> log_dir \<Rightarrow> string set" where
  "archives_in m d = {k. is_archive (lm_name m) k \<and> (\<exists>t. map_of (ld_files d) k = Some (LogText t))}"

definition sizes_ok :: "log_manager \<Rightarrow> log_dir \<Rightarrow> bool" where
  "sizes_ok m d \<longleftrightarrow> (\<forall>k t. owned_name m k \<longrightarrow> map_of (ld_files d) k = Some (LogText t) \<longrightarrow> length t \<le> lm_maxSize m)"

text \<open>
  What every step of a manager but a rotation does to the directory: foreign files stay, files do not
  outgrow the limit, and an archive more is an injected failure less.
\<close>

definition log_le :: "log_manager \<Rightarrow> log_dir \<Rightarrow> log_dir \<Rightarrow> bool" where
  "log_le m d d' \<longleftrightarrow>
     (sorted_keys (ld_files d) \<longrightarrow> sorted_keys (ld_files d')) \<and>
     (\<forall>k. \<not> owned_name m k \<longrightarrow> map_of (ld_files d') k = map_of (ld_files d) k) \<and>
     ((\<exists>t. map_of (ld_files d) (lm_name m) = Some (LogText t)) \<longrightarrow> (\<exists>t. map_of (ld_files d') (lm_name m) = Some (LogText t))) \<and>
     (sizes_ok m d \<longrightarrow> sizes_ok m d') \<and> archives_in m d' \<subseteq> archives_in m d \<and> fails d' \<le> fails d"

lemma log_le_refl [simp]: "log_le m d d"
  by (simp add: log_le_def)

lemma log_le_trans: "log_le m d d1 \<Longrightarrow> log_le m d1 d2 \<Longrightarrow> log_le m d d2"
  unfolding log_le_def by (intro conjI impI allI) (simp_all, blast, linarith?)

lemma manager_flags [simp]:
  "owned_name (m\<lparr>lm_file := b\<rparr>) = owned_name m" "owned_name (m\<lparr>lm_closed := b\<rparr>) = owned_name m"
  "sizes_ok (m\<lparr>lm_file := b\<rparr>) = sizes_ok m" "sizes_ok (m\<lparr>lm_closed := b\<rparr>) = sizes_ok m"
  "archives_in (m\<lparr>lm_file := b\<rparr>) = archives_in m" "archives_in (m\<lparr>lm_closed := b\<rparr>) = archives_in m"
  "owned_name (m\<lparr>lm_stale := b\<rparr>) = owned_name m" "sizes_ok (m\<lparr>lm_stale := b\<rparr>) = sizes_ok m" "archives_in (m\<lparr>lm_stale := b\<rparr>) = archives_in m"
  by (simp_all add: fun_eq_iff sizes_ok_def archives_in_def owned_name_def)

lemma log_le_file [simp]: "log_le (m\<lparr>lm_file := b\<rparr>) = log_le m" "log_le (m\<lparr>lm_stale := b\<rparr>) = log_le m"
  by (simp_all add: fun_eq_iff log_le_def)

lemma finite_archives [simp]: "finite (archives_in m d)"
  by (rule finite_subset [of _ "dom (map_of (ld_files d))"]) (auto simp: archives_in_def finite_dom_map_of)

lemma own_name [simp]: "owned_name m (lm_name m)"
  by (simp add: owned_name_def)

lemma not_own_archive [simp]: "\<not> is_archive name name"
  by (simp add: is_archive_def log_stem_def Let_def)

lemma own_not_archive: "lm_name m \<notin> archives_in m d"
  by (simp add: archives_in_def)

lemma same_files_le: "ld_files d' = ld_files d \<Longrightarrow> fails d' \<le> fails d \<Longrightarrow> log_le m d d'"
  by (simp add: log_le_def sizes_ok_def archives_in_def)

lemma log_call_cases:
  obtains (passed) d1 where "log_call d = (None, d1)" "ld_files d1 = ld_files d" "fails d1 = fails d"
  | (failed) k d1 where "log_call d = (Some k, d1)" "ld_files d1 = ld_files d" "fails d1 < fails d"
proof (cases "ld_faults d")
  case Nil
  then show ?thesis by (intro passed [of d]) (simp_all add: log_call_def)
next
  case (Cons f fs)
  then show ?thesis
    using passed [of "d\<lparr>ld_faults := fs\<rparr>"] failed [of _ "d\<lparr>ld_faults := fs\<rparr>"] by (cases f) (auto simp: log_call_def fails_def)
qed

lemma regular_cases:
  obtains (ok) d1 t where "regular m name d = (Inr (), d1)" "ld_files d1 = ld_files d" "fails d1 = fails d" "owned_name m name"
      "map_of (ld_files d) name = Some (LogText t)"
  | (missing) d1 where "regular m name d = (Inl LogNotExist, d1)" "ld_files d1 = ld_files d" "fails d1 = fails d"
      "map_of (ld_files d) name = None" "owned_name m name"
  | (bad) d1 where "regular m name d = (Inl ErrName, d1)" "ld_files d1 = ld_files d" "fails d1 = fails d"
      "\<not> owned_name m name \<or> map_of (ld_files d) name = Some SpecialFile"
  | (failed) d1 where "regular m name d = (Inl LogSystem, d1)" "ld_files d1 = ld_files d" "fails d1 < fails d"
proof (cases "owned_name m name")
  case True
  show ?thesis
  proof (cases d rule: log_call_cases)
    case (passed d1)
    then show ?thesis using True ok [of d1] missing [of d1] bad [of d1]
      by (cases "map_of (ld_files d) name"; simp add: regular_def split: log_entry.splits) (metis log_entry.exhaust)
  next
    case (failed k d1)
    then show ?thesis using True by (intro that(4) [of d1]) (simp_all add: regular_def)
  qed
qed (use bad in \<open>simp add: regular_def\<close>)

lemma put_empty_le:
  assumes "ld_files d' = put_key (lm_name m) (LogText t) (ld_files d)" "fails d' \<le> fails d" "length t \<le> lm_maxSize m"
  shows "log_le m d d'"
  using assms by (auto simp: log_le_def sizes_ok_def archives_in_def map_of_put_key sorted_put_key)

lemma delete_le: "ld_files d' = AList.delete k (ld_files d) \<Longrightarrow> fails d' \<le> fails d \<Longrightarrow> owned_name m k \<Longrightarrow> k \<noteq> lm_name m \<Longrightarrow> log_le m d d'"
  by (auto simp: log_le_def sizes_ok_def archives_in_def sorted_delete AList.delete_conv' split: if_splits)

lemma openActive_cases:
  obtains (opened) d' where "openActive m d = (Inr (), m\<lparr>lm_file := True, lm_stale := False\<rparr>, d')" "log_le m d d'" "fails d' = fails d"
      "map_of (ld_files d') = (map_of (ld_files d))(lm_name m \<mapsto> LogText (log_text (lm_name m) d))"
  | (refused) d' where "openActive m d = (Inl ErrName, m, d')" "log_le m d d'" "map_of (ld_files d) (lm_name m) = Some SpecialFile"
  | (broken) d' where "openActive m d = (Inl LogSystem, m, d')" "log_le m d d'" "fails d' < fails d"
proof -
  have proceed: ?thesis if r: "regular m (lm_name m) d = (r, d1)" "ld_files d1 = ld_files d" "fails d1 = fails d" "r = Inr () \<or> r = Inl LogNotExist"
    and present: "map_of (ld_files d) (lm_name m) = None \<or> map_of (ld_files d) (lm_name m) = Some (LogText (log_text (lm_name m) d))" for r d1
  proof (cases d1 rule: log_call_cases)
    case (passed d2)
    define d' where "d' = (if map_of (ld_files d2) (lm_name m) = None then d2\<lparr>ld_files := put_key (lm_name m) (LogText []) (ld_files d2)\<rparr> else d2)"
    have "openActive m d = (Inr (), m\<lparr>lm_file := True, lm_stale := False\<rparr>, d')" using r passed by (auto simp: openActive_def d'_def)
    moreover have "fails d' = fails d" using r passed by (simp add: d'_def fails_def)
    moreover have "log_le m d d'"
      using r passed \<open>fails d' = fails d\<close> by (auto simp: d'_def intro: put_empty_le same_files_le)
    moreover have "map_of (ld_files d') = (map_of (ld_files d))(lm_name m \<mapsto> LogText (log_text (lm_name m) d))"
      using r passed present by (auto simp: d'_def map_of_put_key log_text_def)
    ultimately show ?thesis by (intro opened)
  next
    case (failed k d2)
    then show ?thesis using r by (intro broken [of d2]) (auto simp: openActive_def intro: same_files_le)
  qed
  show ?thesis
  proof (cases rule: regular_cases [where m = m and name = "lm_name m" and d = d, case_names ok missing bad failed])
    case (ok d1 t)
    then show ?thesis by (intro proceed [of "Inr ()" d1]) (simp_all add: log_text_def)
  next
    case (missing d1)
    then show ?thesis by (intro proceed [of "Inl LogNotExist" d1]) simp_all
  next
    case (bad d1)
    then show ?thesis by (intro refused [of d1]) (auto simp: openActive_def intro: same_files_le)
  next
    case (failed d1)
    then show ?thesis by (intro broken [of d1]) (auto simp: openActive_def intro: same_files_le)
  qed
qed

lemma collect_files_fails:
  "collect_files m es d = (r, d') \<Longrightarrow> fails d' \<le> fails d \<and> (\<not> is_ok r \<and> \<not> lm_stale m \<longrightarrow> fails d' < fails d)"
proof (induction es arbitrary: d d' r)
  case (Cons p es)
  obtain name entry where p: "p = (name, entry)" by fastforce
  show ?case
  proof (cases "owned_name m name")
    case False
    then show ?thesis using Cons by (simp add: p)
  next
    case True
    show ?thesis
    proof (cases d rule: log_call_cases)
      case (passed d1)
      obtain r1 d2 where c: "collect_files m es d1 = (r1, d2)" by fastforce
      show ?thesis using Cons.prems Cons.IH [OF c] passed True c
        by (auto simp: p split: log_entry.splits sum.splits if_splits)
    next
      case (failed k d1)
      then show ?thesis using Cons.prems True by (auto simp: p)
    qed
  qed
qed simp

lemma inventory_fails: "inventory m d = (r, d') \<Longrightarrow> \<not> lm_closed m \<Longrightarrow> fails d' \<le> fails d \<and> (\<not> is_ok r \<and> \<not> lm_stale m \<longrightarrow> fails d' < fails d)"
proof -
  assume i: "inventory m d = (r, d')" "\<not> lm_closed m"
  show ?thesis
  proof (cases d rule: log_call_cases)
    case p1: (passed d1)
    show ?thesis
    proof (cases d1 rule: log_call_cases)
      case (passed d2)
      obtain r1 d3 where c: "collect_files m (ld_files d2) d2 = (r1, d3)" by fastforce
      show ?thesis using i p1 passed c collect_files_fails [OF c] by (auto simp: inventory_def split: sum.splits)
    next
      case (failed k d2)
      then show ?thesis using i p1 by (auto simp: inventory_def)
    qed
  next
    case (failed k d1)
    then show ?thesis using i by (auto simp: inventory_def)
  qed
qed

lemma inventory_le: "inventory m d = (r, d') \<Longrightarrow> log_le m d d'"
proof -
  assume i: "inventory m d = (r, d')"
  have "ld_files d' = ld_files d" using i by (cases rule: inventory_cases)
  moreover have "fails d' \<le> fails d" using i inventory_fails [OF i] by (cases "lm_closed m") (auto simp: inventory_def)
  ultimately show ?thesis by (rule same_files_le)
qed

lemma stream_files_iff:
  assumes "distinct (map fst (ld_files d))"
  shows "f \<in> set (stream_files m d) \<longleftrightarrow> owned_name m (lf_Name f) \<and> lf_Active f = (lf_Name f = lm_name m) \<and>
    (\<exists>t. map_of (ld_files d) (lf_Name f) = Some (LogText t) \<and> lf_Size f = length t)"
  using assms
proof -
  have "(\<exists>t. map_of (ld_files d) n = Some (LogText t) \<and> s = length t) \<longleftrightarrow>
      (\<exists>e. (n, e) \<in> set (ld_files d) \<and> e \<noteq> SpecialFile \<and> s = length (entry_text e))" for n s
    using assms by (auto simp: map_of_eq_Some_iff) (metis entry_text.simps(1) log_entry.exhaust)+
  then show ?thesis
    by (cases f) (auto simp: stream_files_def order_files_def file_of_def image_iff)
qed

lemma stream_files_distinct:
  assumes "distinct (map fst (ld_files d))"
  shows "distinct (map lf_Name (stream_files m d))"
proof -
  have perm: "mset (map lf_Name (order_files fs)) = mset (map lf_Name fs)" for fs
  proof -
    have "mset (order_files fs) = mset fs" by (simp add: order_files_def multiset_partition [symmetric])
    then show ?thesis by (metis mset_map)
  qed
  show ?thesis unfolding stream_files_def
    by (subst mset_eq_imp_distinct_iff [OF perm]) (simp add: comp_def file_of_def distinct_fst_filter assms)
qed

lemma remove_surplus_spec:
  assumes "remove_surplus keep files d = (r, d')" "list_all (\<lambda>f. owned_name m (lf_Name f) \<and> lf_Active f = (lf_Name f = lm_name m)) files"
  shows "log_le m d d' \<and> (is_ok r \<longrightarrow> fails d' = fails d \<and>
      map_of (ld_files d') = map_of (ld_files d) |` (- set (drop keep (map lf_Name (filter (\<lambda>f. \<not> lf_Active f) files))))) \<and>
    (\<not> is_ok r \<longrightarrow> fails d' < fails d) \<and>
    (\<forall>k. k \<notin> lf_Name ` set (filter (\<lambda>f. \<not> lf_Active f) files) \<longrightarrow> map_of (ld_files d') k = map_of (ld_files d) k)"
  using assms
proof (induction keep files d rule: remove_surplus.induct)
  case (2 keep f files d)
  show ?case
  proof (cases "lf_Active f")
    case True
    then show ?thesis using "2.IH"(1) "2.prems" by auto
  next
    case na: False
    show ?thesis
    proof (cases "keep > 0")
      case True
      then show ?thesis using "2.IH"(2) "2.prems" na by (cases keep) auto
    next
      case False
      show ?thesis
      proof (cases d rule: log_call_cases)
        case (passed d1)
        define d2 where "d2 = d1\<lparr>ld_files := AList.delete (lf_Name f) (ld_files d1)\<rparr>"
        have rm: "remove_file (lf_Name f) d = (Inr (), d2)" using passed by (simp add: remove_file_def d2_def)
        have le: "log_le m d d2" using passed "2.prems"(2) na by (intro delete_le [of _ "lf_Name f"]) (simp_all add: d2_def fails_def)
        have m2: "map_of (ld_files d2) = (map_of (ld_files d))(lf_Name f := None)" "fails d2 = fails d"
          using passed by (simp_all add: d2_def AList.delete_conv' fails_def)
        have run: "remove_surplus 0 files d2 = (r, d')" using "2.prems"(1) na False rm by simp
        show ?thesis
          using "2.IH"(3) [OF na False rm [symmetric] refl run] "2.prems"(2) log_le_trans [OF le] na False
          by (auto simp: m2 restrict_map_def fun_eq_iff)
      next
        case (failed k d1)
        then show ?thesis using "2.prems" na False by (auto simp: remove_file_def intro: same_files_le)
      qed
    qed
  qed
qed auto

lemma prune_spec:
  assumes "prune m d = (r, d')" "\<not> lm_closed m" "sorted_keys (ld_files d)"
  shows "log_le m d d' \<and> map_of (ld_files d') (lm_name m) = map_of (ld_files d) (lm_name m) \<and>
    (is_ok r \<longrightarrow> card (archives_in m d') \<le> lm_archives m) \<and> (\<not> is_ok r \<and> \<not> lm_stale m \<longrightarrow> fails d' < fails d)"
proof -
  obtain q d1 where i: "inventory m d = (q, d1)" by fastforce
  note le = inventory_le [OF i] and fl = inventory_fails [OF i assms(2)]
  show ?thesis using i
  proof (cases rule: inventory_cases)
    case (failed e)
    then show ?thesis using assms(1) i le fl by (auto simp: prune_def)
  next
    case (listed out)
    let ?files = "stream_files m d"
    let ?names = "map lf_Name (filter (\<lambda>f. \<not> lf_Active f) ?files)"
    note iff = stream_files_iff [OF sorted_keys_distinct [OF assms(3)]]
    have run: "remove_surplus (lm_archives m) ?files d1 = (r, d')" using assms(1) i listed by (simp add: prune_def)
    have "list_all (\<lambda>f. owned_name m (lf_Name f) \<and> lf_Active f = (lf_Name f = lm_name m)) ?files" by (simp add: list_all_iff iff)
    note rem = remove_surplus_spec [OF run this]
    have keep: "lm_name m \<notin> lf_Name ` set (filter (\<lambda>f. \<not> lf_Active f) ?files)" using iff by auto
    have "card (archives_in m d') \<le> lm_archives m" if ok: "is_ok r"
    proof -
      have "archives_in m d' \<subseteq> set (take (lm_archives m) ?names)"
      proof
        fix k assume "k \<in> archives_in m d'"
        then obtain t where k: "is_archive (lm_name m) k" "map_of (ld_files d) k = Some (LogText t)" "k \<notin> set (drop (lm_archives m) ?names)"
          using rem ok listed(2) by (auto simp: archives_in_def restrict_map_def split: if_splits)
        then have "\<lparr>lf_Name = k, lf_Size = length t, lf_Active = False\<rparr> \<in> set ?files" by (auto simp: iff owned_name_def)
        then have "k \<in> set ?names" by force
        then show "k \<in> set (take (lm_archives m) ?names)" using k(3) by (metis append_take_drop_id set_append Un_iff)
      qed
      from card_mono [OF _ this] show ?thesis by (rule order_trans) (auto intro: order_trans [OF card_length])
    qed
    moreover have "map_of (ld_files d') (lm_name m) = map_of (ld_files d) (lm_name m)" using rem keep listed(2) by simp
    ultimately show ?thesis using rem fl log_le_trans [OF le, of d'] by auto
  qed
qed

lemma length_nat_digits: "0 < k \<Longrightarrow> n < 10 ^ k \<Longrightarrow> length (nat_digits n) \<le> k"
proof (induction k arbitrary: n)
  case (Suc k)
  show ?case
  proof (cases "n < 10")
    case False
    then have "0 < k" using Suc.prems by (cases k) auto
    then have "length (nat_digits (n div 10)) \<le> k" using Suc by (intro Suc.IH) (auto simp: less_mult_imp_div_less mult.commute)
    then show ?thesis using False by (subst nat_digits.simps) simp
  qed (subst nat_digits.simps, simp)
qed simp

lemma archive_name_owned: "n < 10 ^ 20 \<Longrightarrow> is_archive name (archive_name name n)"
proof -
  assume "n < 10 ^ 20"
  then have "length (pad20 (nat_digits n)) = 20" using length_nat_digits [of 20 n] by (simp add: pad20_def)
  moreover have "list_all is_digit (pad20 (nat_digits n))" using nat_digits_set by (auto simp: pad20_def list_all_iff is_digit_def)
  ultimately show ?thesis by (simp add: is_archive_def archive_name_def Let_def)
qed

text \<open>The state of a manager: \<open>C\<close> bounds the archives together with the failures still to come.\<close>

definition log_inv :: "nat \<Rightarrow> log_manager \<times> log_dir \<Rightarrow> bool" where
  "log_inv C s \<longleftrightarrow> (case s of (m, d) \<Rightarrow>
     sorted_keys (ld_files d) \<and> sizes_ok m d \<and> card (archives_in m d) + fails d \<le> C \<and> lm_archives m + fails d \<le> C \<and>
     (lm_file m \<longrightarrow> (\<exists>t. map_of (ld_files d) (lm_name m) = Some (LogText t))))"

lemma log_inv_le:
  assumes "log_inv C (m, d)" "log_le m d d'"
  shows "log_inv C (m, d')"
proof -
  have "card (archives_in m d') \<le> card (archives_in m d)" "fails d' \<le> fails d" using assms(2) by (auto simp: log_le_def card_mono)
  then show ?thesis using assms by (auto simp: log_inv_def log_le_def)
qed

lemma rename_arch:
  assumes "ld_files d' = put_key a (LogText t) (AList.delete (lm_name m) (ld_files d))" "is_archive (lm_name m) a"
  shows "archives_in m d' \<subseteq> insert a (archives_in m d)"
    and "\<not> owned_name m k \<Longrightarrow> map_of (ld_files d') k = map_of (ld_files d) k"
    and "sorted_keys (ld_files d) \<Longrightarrow> sorted_keys (ld_files d')"
    and "map_of (ld_files d') (lm_name m) = None"
    and "sizes_ok m d \<Longrightarrow> length t \<le> lm_maxSize m \<Longrightarrow> sizes_ok m d'"
proof -
  have f: "map_of (ld_files d') = ((map_of (ld_files d))(lm_name m := None))(a \<mapsto> LogText t)"
    using assms(1) by (simp add: map_of_put_key AList.delete_conv')
  show "archives_in m d' \<subseteq> insert a (archives_in m d)" by (auto simp: f archives_in_def split: if_splits)
  show "map_of (ld_files d') k = map_of (ld_files d) k" if "\<not> owned_name m k" using that assms(2) by (auto simp: f owned_name_def)
  show "sorted_keys (ld_files d')" if "sorted_keys (ld_files d)" using that assms(1) by (simp add: sorted_put_key sorted_delete)
  show "map_of (ld_files d') (lm_name m) = None" using assms(2) by (auto simp: f)
  show "sizes_ok m d'" if "sizes_ok m d" "length t \<le> lm_maxSize m" using that by (auto simp: f sizes_ok_def split: if_splits)
qed

text \<open>What foreign files see of a run of one manager.\<close>

definition foreign_same :: "log_manager \<Rightarrow> log_dir \<Rightarrow> log_dir \<Rightarrow> bool" where
  "foreign_same m d d' \<longleftrightarrow> (\<forall>k. \<not> owned_name m k \<longrightarrow> map_of (ld_files d') k = map_of (ld_files d) k)"

lemma log_le_foreign: "log_le m d d' \<Longrightarrow> foreign_same m d d'"
  by (simp add: log_le_def foreign_same_def)

lemma foreign_same_trans: "foreign_same m d d1 \<Longrightarrow> foreign_same m d1 d2 \<Longrightarrow> foreign_same m d d2"
  by (simp add: foreign_same_def)

lemma openActive_inv:
  assumes "openActive m d = (r, m', d')" "log_inv C (m, d)" "\<not> lm_file m"
  shows "log_inv C (m', d') \<and> foreign_same m d d' \<and> (m' = m \<or> m' = m\<lparr>lm_file := True, lm_stale := False\<rparr>)"
proof (cases m d rule: openActive_cases)
  case (opened d1)
  have "log_inv C (m, d1)" using log_inv_le [OF assms(2) opened(2)] assms(3) by simp
  then show ?thesis using assms(1) opened log_le_foreign [OF opened(2)] by (auto simp: log_inv_def)
next
  case (refused d1)
  then show ?thesis using assms(1,3) log_inv_le [OF assms(2) refused(2)] log_le_foreign [OF refused(2)] by simp
next
  case (broken d1)
  then show ?thesis using assms(1,3) log_inv_le [OF assms(2) broken(2)] log_le_foreign [OF broken(2)] by simp
qed

definition same_limits :: "log_manager \<Rightarrow> log_manager \<Rightarrow> bool" where
  "same_limits m m' \<longleftrightarrow> lm_name m' = lm_name m \<and> lm_maxSize m' = lm_maxSize m \<and> lm_archives m' = lm_archives m"

lemma reopen_inv:
  assumes "sorted_keys (ld_files d)" "sizes_ok m d" "card (archives_in m d) + fails d \<le> Suc C" "lm_archives m + fails d \<le> C"
    "map_of (ld_files d) (lm_name m) = None" "\<not> lm_closed m" "lm_file m" "\<not> lm_stale m"
    "(case openActive (m\<lparr>lm_file := False\<rparr>) d of
        (Inl e, m2, d1) \<Rightarrow> (Inl e, m2, d1) | (Inr _, m2, d1) \<Rightarrow> (case prune m2 d1 of (r, d2) \<Rightarrow> (r, m2, d2))) = (r, m', d')"
  shows "log_inv C (m', d') \<and> foreign_same m d d' \<and> same_limits m m' \<and> (is_ok r \<longrightarrow> m' = m \<and> log_text (lm_name m) d' = [])"
proof (cases "m\<lparr>lm_file := False\<rparr>" d rule: openActive_cases)
  case (opened d1)
  then have d1: "log_le m d d1" "log_text (lm_name m) d1 = []" "map_of (ld_files d1) (lm_name m) = Some (LogText [])"
    using assms(5) by (simp_all add: log_text_def)
  have m2: "m\<lparr>lm_file := False, lm_file := True, lm_stale := False\<rparr> = m" using assms(7,8) by simp
  obtain q d2 where p: "prune m d1 = (q, d2)" by fastforce
  have "sorted_keys (ld_files d1)" using d1(1) assms(1) by (simp add: log_le_def)
  note pr = prune_spec [OF p assms(6) this]
  have le: "log_le m d d2" using pr log_le_trans [OF d1(1)] by blast
  have out: "r = q" "m' = m" "d' = d2" using assms(9) opened p m2 by simp_all
  have "card (archives_in m d2) + fails d2 \<le> C"
  proof (cases "is_ok q")
    case True
    then show ?thesis using pr assms(4) le by (auto simp: log_le_def)
  next
    case False
    have "card (archives_in m d2) \<le> card (archives_in m d)" using le by (auto simp: log_le_def card_mono)
    moreover have "fails d2 < fails d" using False pr d1(1) assms(8) by (auto simp: log_le_def)
    ultimately show ?thesis using assms(3) by linarith
  qed
  moreover have "lm_archives m + fails d2 \<le> C" using assms(4) le by (auto simp: log_le_def)
  moreover have "map_of (ld_files d2) (lm_name m) = Some (LogText [])" using pr d1 by simp
  ultimately show ?thesis using le assms(1,2) out log_le_foreign [OF le]
    by (auto simp: log_inv_def log_le_def log_text_def same_limits_def)
next
  case (refused d1)
  then show ?thesis using assms(5) by simp
next
  case (broken d1)
  have le: "log_le m d d1" "fails d1 < fails d" using broken by simp_all
  then have "card (archives_in m d1) + fails d1 \<le> C"
    using assms(3) card_mono [of "archives_in m d" "archives_in m d1"] by (auto simp: log_le_def)
  then show ?thesis using assms(9) broken le assms(1,2,4) log_le_foreign [OF le(1)]
    by (auto simp: log_inv_def log_le_def same_limits_def)
qed

lemma rotate_inv:
  assumes "rotate_log m nano d = (r, m', d')" "log_inv C (m, d)" "lm_file m" "\<not> lm_closed m" "nano < 10 ^ 20" "\<not> lm_stale m"
  shows "log_inv C (m', d') \<and> foreign_same m d d' \<and> same_limits m m' \<and> (is_ok r \<longrightarrow> m' = m \<and> log_text (lm_name m) d' = [])"
proof (cases d rule: log_call_cases)
  case (failed k d1)
  then have "log_le m d d1" by (intro same_files_le) simp_all
  then show ?thesis using failed assms log_inv_le [OF assms(2), of d1] log_le_foreign
    by (auto simp: rotate_log_def log_inv_def same_limits_def)
next
  case p1: (passed d1)
  let ?m = "m\<lparr>lm_file := False\<rparr>"
  show ?thesis
  proof (cases d1 rule: log_call_cases)
    case (failed k d2)
    have "log_le m d d2" using p1 failed by (intro same_files_le) simp_all
    then have inv: "log_inv C (?m, d2)" "foreign_same m d d2"
      using log_inv_le [OF assms(2), of d2] p1 failed log_le_foreign by (auto simp: log_inv_def)
    obtain q m2 d3 where o: "openActive ?m d2 = (q, m2, d3)" by (metis prod_cases3)
    have "log_inv C (m2, d3) \<and> foreign_same m d2 d3 \<and> (m2 = ?m \<or> m2 = ?m\<lparr>lm_file := True, lm_stale := False\<rparr>)"
      using openActive_inv [OF o inv(1)] by (simp add: foreign_same_def)
    then show ?thesis using assms(1) p1 failed o inv(2) foreign_same_trans
      by (auto simp: rotate_log_def Let_def same_limits_def)
  next
    case (passed d2)
    define a where "a = archive_name (lm_name m) nano"
    define d3 where "d3 = d2\<lparr>ld_files := put_key a (LogText (log_text (lm_name m) d2)) (AList.delete (lm_name m) (ld_files d2))\<rparr>"
    have arch: "is_archive (lm_name m) a" using archive_name_owned [OF assms(5)] by (simp add: a_def)
    obtain t where t: "map_of (ld_files d) (lm_name m) = Some (LogText t)" using assms(2,3) by (auto simp: log_inv_def)
    have same: "ld_files d2 = ld_files d" "fails d2 = fails d" using p1 passed by simp_all
    have files3: "ld_files d3 = put_key a (LogText t) (AList.delete (lm_name m) (ld_files d))"
      using t by (simp add: d3_def same log_text_def)
    note ren = rename_arch [OF files3 arch]
    have "length t \<le> lm_maxSize m" using t assms(2) own_name [of m] unfolding log_inv_def sizes_ok_def by blast
    then have d3: "sorted_keys (ld_files d3)" "sizes_ok m d3" "foreign_same m d d3" "fails d3 = fails d"
      using ren assms(2) same by (auto simp: log_inv_def foreign_same_def d3_def fails_def)
    have "card (archives_in m d3) \<le> Suc (card (archives_in m d))"
      using card_mono [OF _ ren(1)] by (simp add: card_insert_if split: if_splits)
    then have C3: "card (archives_in m d3) + fails d3 \<le> Suc C" "lm_archives m + fails d3 \<le> C"
      using assms(2) d3(4) by (auto simp: log_inv_def)
    have run: "rotate_log m nano d = (case openActive ?m d3 of
        (Inl e, m2, d4) \<Rightarrow> (Inl e, m2, d4) | (Inr _, m2, d4) \<Rightarrow> (case prune m2 d4 of (r, d5) \<Rightarrow> (r, m2, d5)))"
      using p1 passed by (simp add: rotate_log_def Let_def d3_def a_def)
    have "(case openActive ?m d3 of
        (Inl e, m2, d4) \<Rightarrow> (Inl e, m2, d4) | (Inr _, m2, d4) \<Rightarrow> (case prune m2 d4 of (r, d5) \<Rightarrow> (r, m2, d5))) = (r, m', d')"
      using assms(1) run by simp
    from reopen_inv [OF d3(1,2) C3 ren(4) assms(4,3,6) this] show ?thesis using foreign_same_trans [OF d3(3)] by blast
  qed
qed

lemma append_log_spec:
  assumes "append_log m p d = (r, d')" "length (log_text (lm_name m) d) + length p \<le> lm_maxSize m"
  shows "log_le m d d' \<and> (is_ok r \<longrightarrow> map_of (ld_files d') = (map_of (ld_files d))(lm_name m \<mapsto> LogText (log_text (lm_name m) d @ p)))"
proof (cases d rule: log_call_cases)
  case (failed k d1)
  then show ?thesis using assms by (auto simp: append_log_def Let_def intro: same_files_le)
next
  case p1: (passed d1)
  show ?thesis
  proof (cases d1 rule: log_call_cases)
    case (failed k d2)
    then have d': "d' = d2\<lparr>ld_files := put_key (lm_name m) (LogText (log_text (lm_name m) d @ take k p)) (ld_files d2)\<rparr>" "r = Inl LogSystem"
      using assms(1) p1 by (simp_all add: append_log_def Let_def)
    have "length (log_text (lm_name m) d @ take k p) \<le> lm_maxSize m" using assms(2) by (simp add: min_def)
    then show ?thesis using p1 failed d' by (auto simp: map_of_put_key fails_def intro!: put_empty_le)
  next
    case (passed d2)
    then have d': "d' = d2\<lparr>ld_files := put_key (lm_name m) (LogText (log_text (lm_name m) d @ p)) (ld_files d2)\<rparr>"
      using assms(1) p1 by (simp add: append_log_def Let_def)
    show ?thesis using p1 passed d' assms(2) by (auto simp: map_of_put_key fails_def intro!: put_empty_le)
  qed
qed

text \<open>Before a record is written the active file has room for it.\<close>

lemma make_room:
  assumes "(if used > 0 \<and> used + length p > lm_maxSize m then rotate_log m nano d else (Inr (), m, d)) = (q, m1, d1)"
    "used = length (log_text (lm_name m) d)" "log_inv C (m, d)" "nano < 10 ^ 20" "lm_file m" "\<not> lm_closed m" "\<not> lm_stale m" "length p \<le> lm_maxSize m"
  shows "log_inv C (m1, d1) \<and> foreign_same m d d1 \<and> same_limits m m1 \<and>
    (is_ok q \<longrightarrow> m1 = m \<and> length (log_text (lm_name m) d1) + length p \<le> lm_maxSize m \<and>
      (log_text (lm_name m) d1 = [] \<or> log_text (lm_name m) d1 = log_text (lm_name m) d))"
proof (cases "used > 0 \<and> used + length p > lm_maxSize m")
  case True
  then have "rotate_log m nano d = (q, m1, d1)" using assms(1) by simp
  from rotate_inv [OF this assms(3,5,6,4,7)] show ?thesis using assms(8) by auto
next
  case False
  then have "q = Inr ()" "m1 = m" "d1 = d" using assms(1) by (auto split: if_splits)
  then show ?thesis using False assms(2,3,8) by (auto simp: foreign_same_def same_limits_def)
qed

lemma Write_inv:
  assumes "Write m p nano d = (r, m', d')" "log_inv C (m, d)" "nano < 10 ^ 20"
  shows "log_inv C (m', d') \<and> foreign_same m d d' \<and> same_limits m m' \<and>
    (is_ok r \<longrightarrow> m' = m \<and> \<not> lm_closed m \<and>
       (\<exists>t. (t = [] \<or> t = log_text (lm_name m) d) \<and> map_of (ld_files d') (lm_name m) = Some (LogText (t @ p))))"
proof -
  have self: "same_limits m m" by (simp add: same_limits_def)
  have quiet: ?thesis if "Write m p nano d = (Inl e, m, d1)" "ld_files d1 = ld_files d" "fails d1 \<le> fails d" for e d1
    using that assms(1) self log_inv_le [OF assms(2) same_files_le [OF that(2,3)]] log_le_foreign [OF same_files_le [OF that(2,3)]] by auto
  show ?thesis
  proof (cases "lm_closed m \<or> \<not> lm_file m \<or> length p > lm_maxSize m")
    case True
    then have "\<exists>e. Write m p nano d = (Inl e, m, d)"
      by (cases "lm_closed m \<or> \<not> lm_file m") (simp_all add: Write_def)
    then show ?thesis using quiet by auto
  next
    case open': False
    show ?thesis
    proof (cases d rule: log_call_cases)
      case (failed k d1)
      then show ?thesis using open' by (intro quiet [of LogSystem d1]) (simp_all add: Write_def)
    next
      case (passed d1)
      show ?thesis
      proof (cases "lm_stale m")
        case True
        then show ?thesis using open' passed by (intro quiet [of LogSystem d1]) (simp_all add: Write_def)
      next
        case False
        have inv: "log_inv C (m, d1)" "foreign_same m d d1"
          using passed log_inv_le [OF assms(2) same_files_le [OF passed(2)]] log_le_foreign [OF same_files_le [OF passed(2)]] by auto
        obtain q m1 d2 where rot: "(if length (log_text (lm_name m) d1) > 0 \<and> length (log_text (lm_name m) d1) + length p > lm_maxSize m
            then rotate_log m nano d1 else (Inr (), m, d1)) = (q, m1, d2)" by (metis prod_cases3)
        have R: "log_inv C (m1, d2) \<and> foreign_same m d1 d2 \<and> same_limits m m1 \<and>
            (is_ok q \<longrightarrow> m1 = m \<and> length (log_text (lm_name m) d2) + length p \<le> lm_maxSize m \<and>
              (log_text (lm_name m) d2 = [] \<or> log_text (lm_name m) d2 = log_text (lm_name m) d))"
          using make_room [OF rot refl inv(1) assms(3)] open' False log_text_files [OF passed(2)] by auto
        have run: "Write m p nano d = (case q of Inl e \<Rightarrow> (Inl e, m1, d2) | Inr _ \<Rightarrow> (case append_log m1 p d2 of (r, d3) \<Rightarrow> (r, m1, d3)))"
          using open' False passed rot by (simp add: Write_def Let_def split: sum.splits)
        show ?thesis
        proof (cases q)
          case (Inl e)
          then have "r = Inl e" "m' = m1" "d' = d2" using run assms(1) by simp_all
          then show ?thesis using R foreign_same_trans [OF inv(2)] by auto
        next
          case (Inr u)
          obtain q2 d3 where a: "append_log m p d2 = (q2, d3)" by fastforce
          have m1: "m1 = m" "length (log_text (lm_name m) d2) + length p \<le> lm_maxSize m" using R Inr by simp_all
          note sp = append_log_spec [OF a m1(2)]
          have "log_inv C (m, d2)" using R m1(1) by simp
          then have "log_inv C (m, d3)" by (rule log_inv_le) (use sp in simp_all)
          moreover have "foreign_same m d d3" using R sp inv(2) foreign_same_trans log_le_foreign by metis
          moreover have out: "r = q2" "m' = m" "d' = d3" using run assms(1) Inr a m1(1) by simp_all
          moreover have "\<exists>t. (t = [] \<or> t = log_text (lm_name m) d) \<and> map_of (ld_files d3) (lm_name m) = Some (LogText (t @ p))" if "is_ok q2"
            using that R Inr sp by (intro exI [of _ "log_text (lm_name m) d2"]) simp
          ultimately show ?thesis using self open' by blast
        qed
      qed
    qed
  qed
qed

lemma remove_log_le:
  assumes "remove_log m name d = (r, d')"
  shows "log_le m d d' \<and>
    (is_ok r \<longrightarrow> log_text name d' = [] \<and> (\<forall>k. k \<noteq> name \<longrightarrow> map_of (ld_files d') k = map_of (ld_files d) k))"
proof (cases rule: regular_cases [where m = m and name = name and d = d, case_names ok missing bad failed])
  case (ok d1 t)
  have reg: "remove_log m name d = (if name = lm_name m then
      (if \<not> lm_file m then (Inl ErrClosed, d1) else case log_call d1 of
         (Some _, d2) \<Rightarrow> (Inl LogSystem, d2) | (None, d2) \<Rightarrow> if lm_stale m then (Inl LogSystem, d2)
           else (Inr (), d2\<lparr>ld_files := put_key name (LogText []) (ld_files d2)\<rparr>))
      else remove_file name d1)"
    using ok(1) by (simp add: remove_log_def)
  show ?thesis
  proof (cases d1 rule: log_call_cases)
    case (passed d2)
    then show ?thesis
      using assms ok reg
      by (auto simp: remove_file_def map_of_put_key AList.delete_conv' log_text_def fails_def
          intro: put_empty_le same_files_le delete_le split: if_splits)
  next
    case (failed k d2)
    then show ?thesis
      using assms ok reg by (auto simp: remove_file_def intro: same_files_le split: if_splits)
  qed
qed (use assms in \<open>auto simp: remove_log_def intro: same_files_le\<close>)

lemma remove_logs_le:
  assumes "remove_logs m files d = (r, d')"
  shows "log_le m d d' \<and>
    (is_ok r \<longrightarrow> (\<forall>k. k \<in> lf_Name ` set files \<longrightarrow> log_text k d' = []) \<and>
       (\<forall>k. k \<notin> lf_Name ` set files \<longrightarrow> map_of (ld_files d') k = map_of (ld_files d) k))"
  using assms
proof (induction files arbitrary: d)
  case (Cons f files)
  obtain q d1 where q: "remove_log m (lf_Name f) d = (q, d1)" by fastforce
  note rm = remove_log_le [OF q]
  show ?case
  proof (cases q)
    case (Inl e)
    then show ?thesis using Cons.prems q rm by auto
  next
    case (Inr u)
    then have "remove_logs m files d1 = (r, d')" using Cons.prems q by simp
    note IH = Cons.IH [OF this]
    have "log_text (lf_Name f) d' = []" if "is_ok r"
      using IH rm Inr that by (cases "lf_Name f \<in> lf_Name ` set files") (auto simp: log_text_def)
    moreover have "log_le m d d'" using IH rm log_le_trans by blast
    ultimately show ?thesis using IH rm Inr by auto
  qed
qed simp

lemma read_files_same: "read_files m limit budget files acc d = (r, d') \<Longrightarrow> log_le m d d' \<and> ld_files d' = ld_files d"
proof (induction files arbitrary: budget acc d)
  case (Cons f files)
  have calls: "pass_calls n d1 = (b, d2) \<Longrightarrow> fails d2 \<le> fails d1 \<and> ld_files d2 = ld_files d1" for n d1 b d2
  proof (induction n arbitrary: d1)
    case (Suc n)
    then show ?case by (cases d1 rule: log_call_cases) fastforce+
  qed simp
  show ?case
  proof (cases rule: regular_cases [where m = m and name = "lf_Name f" and d = d, case_names ok missing bad failed])
    case (ok d1 t)
    obtain b d2 where c: "pass_calls 2 d1 = (b, d2)" by fastforce
    have le: "log_le m d d2" "ld_files d2 = ld_files d" using calls [OF c] ok by (auto intro: same_files_le)
    obtain start data where p: "read_part (log_text (lf_Name f) d2) budget = (start, data)" by fastforce
    obtain acc' n full where s: "scan_lines (lf_Name f) start limit data acc = (acc', n, full)" by (metis prod_cases3)
    have "d' = d2 \<or> (\<exists>budget' acc'. read_files m limit budget' files acc' d2 = (r, d'))"
      using Cons.prems ok(1) c p s by (auto simp: Let_def split: if_splits bool.splits)
    then show ?thesis
    proof
      assume "\<exists>budget' acc'. read_files m limit budget' files acc' d2 = (r, d')"
      then have "log_le m d2 d'" "ld_files d' = ld_files d2" using Cons.IH by blast+
      then show ?thesis using le log_le_trans by metis
    qed (use le in simp)
  qed (use Cons.prems in \<open>auto intro: same_files_le\<close>)
qed simp

datatype log_event = EvWrite string nat | EvAppend jmap nat | EvDelete string | EvClear | EvRead int | EvList | EvSync | EvClose

fun log_step :: "log_manager \<times> log_dir \<Rightarrow> log_event \<Rightarrow> log_manager \<times> log_dir" where
  "log_step (m, d) (EvWrite p nano) = snd (Write m p nano d)"
| "log_step (m, d) (EvAppend event nano) = snd (Append m event nano d)"
| "log_step (m, d) (EvDelete name) = (m, snd (Delete m name d))"
| "log_step (m, d) EvClear = (m, snd (Clear m d))"
| "log_step (m, d) (EvRead limit) = (m, snd (Read m limit d))"
| "log_step (m, d) EvList = (m, snd (inventory m d))"
| "log_step (m, d) EvSync = (m, snd (Sync m d))"
| "log_step (m, d) EvClose = snd (Close m d)"

text \<open>The clock shows a time after 1970 in 63 bits.\<close>

fun clock_ok :: "log_event \<Rightarrow> bool" where
  "clock_ok (EvWrite p nano) = (nano < 2 ^ 63)"
| "clock_ok (EvAppend event nano) = (nano < 2 ^ 63)"
| "clock_ok _ = True"

text \<open>Operations that only read or remove.\<close>

lemma quiet_steps:
  "log_le m d (snd (inventory m d))" "log_le m d (snd (Sync m d))" "log_le m d (snd (Read m limit d))"
  "log_le m d (snd (Delete m name d))" "log_le m d (snd (Clear m d))" "log_le m d (snd (snd (Close m d)))"
proof -
  show inv: "log_le m d (snd (inventory m d))" by (rule inventory_le [where r = "fst (inventory m d)"]) simp
  show "log_le m d (snd (Sync m d))" by (cases d rule: log_call_cases) (auto simp: Sync_def intro: same_files_le)
  obtain q d1 where q: "inventory m d = (q, d1)" by fastforce
  have le: "log_le m d d1" using inv q by simp
  show "log_le m d (snd (Read m limit d))"
  proof (cases q)
    case (Inr out)
    obtain r d2 where "read_files m (clamp_limit limit) read_budget (li_Files out) [] d1 = (r, d2)" by fastforce
    with read_files_same [OF this] Inr q show ?thesis using log_le_trans [OF le] by (simp add: Read_def)
  qed (use q le in \<open>simp add: Read_def\<close>)
  show "log_le m d (snd (Delete m name d))" using remove_log_le by (cases "remove_log m name d") (auto simp: Delete_def)
  show "log_le m d (snd (Clear m d))"
  proof (cases q)
    case (Inr out)
    obtain r d2 where "remove_logs m (li_Files out) d1 = (r, d2)" by fastforce
    with remove_logs_le [OF this] Inr q show ?thesis using log_le_trans [OF le] by (simp add: Clear_def)
  qed (use q le in \<open>simp add: Clear_def\<close>)
  have two: "log_le m d1 (snd (log_call d1))" for d1 by (cases d1 rule: log_call_cases) (auto intro: same_files_le)
  show "log_le m d (snd (snd (Close m d)))"
    using two [of d] two [of "snd (log_call d)"] log_le_trans by (auto simp: Close_def split: prod.splits)
qed

lemma Close_manager: "fst (snd (Close m d)) = m \<or> fst (snd (Close m d)) = m\<lparr>lm_closed := True\<rparr>"
  by (auto simp: Close_def split: prod.splits)

lemma log_step_spec:
  assumes "log_inv C (m, d)" "clock_ok ev" "log_step (m, d) ev = (m', d')"
  shows "log_inv C (m', d') \<and> foreign_same m d d' \<and> lm_name m' = lm_name m \<and> lm_maxSize m' = lm_maxSize m \<and> lm_archives m' = lm_archives m"
proof -
  have quiet: ?thesis if "log_le m d d'" "m' = m \<or> m' = m\<lparr>lm_closed := True\<rparr>"
    using log_inv_le [OF assms(1) that(1)] log_le_foreign [OF that(1)] that(2) by (auto simp: log_inv_def)
  have written: ?thesis if "Write m p nano d = (r, m', d')" "nano < 2 ^ 63" for p nano r
    using Write_inv [OF that(1) assms(1)] that(2) by (auto simp: same_limits_def)
  show ?thesis
  proof (cases ev)
    case (EvWrite p nano)
    then show ?thesis using assms written [of p nano] by (cases "Write m p nano d") auto
  next
    case (EvAppend event nano)
    then show ?thesis using assms written [of "Marshal event @ [newline]" nano] by (cases "Append m event nano d") (auto simp: Append_def)
  next
    case EvClose
    then show ?thesis using assms(3) quiet_steps(6) [of m d] Close_manager [of m d] by (intro quiet) (metis fst_conv snd_conv log_step.simps(8))+
  qed (rule quiet; use assms(3) in \<open>auto intro: quiet_steps\<close>)+
qed

text \<open>The invariant of a manager with fixed limits; foreign files as they were in \<open>d0\<close>.\<close>

definition log_run_inv :: "nat \<Rightarrow> log_manager \<Rightarrow> log_dir \<Rightarrow> log_manager \<times> log_dir \<Rightarrow> bool" where
  "log_run_inv C m0 d0 s \<longleftrightarrow> log_inv C s \<and> foreign_same m0 d0 (snd s) \<and> lm_name (fst s) = lm_name m0 \<and>
     lm_maxSize (fst s) = lm_maxSize m0 \<and> lm_archives (fst s) = lm_archives m0"

lemma foreign_same_name: "lm_name m = lm_name m0 \<Longrightarrow> foreign_same m = foreign_same m0"
  by (simp add: fun_eq_iff foreign_same_def owned_name_def)

interpretation logs: guarded_machine log_step "log_run_inv C m0 d0" clock_ok for C m0 d0
proof
  fix s e assume s: "log_run_inv C m0 d0 s" "clock_ok e"
  obtain m d m' d' where p: "s = (m, d)" "log_step (m, d) e = (m', d')" by (metis surj_pair)
  show "log_run_inv C m0 d0 (log_step s e)"
    using log_step_spec [OF _ s(2) p(2)] s(1) foreign_same_name [of m m0] foreign_same_trans
    by (auto simp: p log_run_inv_def)
qed

lemma sum_list_bounded: "(\<And>x. x \<in> set xs \<Longrightarrow> g x \<le> c) \<Longrightarrow> sum_list (map g xs) \<le> length xs * (c :: nat)"
  by (induction xs) (auto intro: add_mono)

lemma stream_files_size:
  assumes "log_inv C (m, d)"
  shows "sum_list (map lf_Size (stream_files m d)) \<le> (card (archives_in m d) + 1) * lm_maxSize m"
proof -
  have sorted: "distinct (map fst (ld_files d))" using assms by (auto simp: log_inv_def sorted_keys_distinct)
  note iff = stream_files_iff [OF sorted, of _ m]
  have small: "lf_Size f \<le> lm_maxSize m" if "f \<in> set (stream_files m d)" for f
    using that assms by (auto simp: iff log_inv_def sizes_ok_def)
  have "sum_list (map lf_Size (stream_files m d)) \<le> length (stream_files m d) * lm_maxSize m"
    using small by (rule sum_list_bounded)
  moreover have "length (stream_files m d) = card (lf_Name ` set (stream_files m d))"
    using stream_files_distinct [OF sorted, of m] by (metis distinct_card length_map set_map)
  moreover have "lf_Name ` set (stream_files m d) \<subseteq> insert (lm_name m) (archives_in m d)"
    by (auto simp: iff owned_name_def archives_in_def)
  then have "card (lf_Name ` set (stream_files m d)) \<le> card (insert (lm_name m) (archives_in m d))" by (intro card_mono) simp_all
  then have "card (lf_Name ` set (stream_files m d)) \<le> card (archives_in m d) + 1" using own_not_archive [of m d] by simp
  ultimately show ?thesis by (metis (no_types) mult_le_mono1 order_trans)
qed

lemma pass_calls_le: "pass_calls n d = (b, d') \<Longrightarrow> fails d' \<le> fails d \<and> ld_files d' = ld_files d"
proof (induction n arbitrary: d)
  case (Suc n)
  then show ?case by (cases d rule: log_call_cases) fastforce+
qed simp

lemma OpenNamed_inv:
  assumes "OpenNamed name maxSize archives d = (Inr m, d')" "sorted_keys (ld_files d)"
    "\<And>k t. owned_name m k \<Longrightarrow> map_of (ld_files d) k = Some (LogText t) \<Longrightarrow> int (length t) \<le> maxSize"
  shows "log_run_inv (nat archives + fails d') m d (m, d') \<and> lm_name m = name \<and> int (lm_maxSize m) = maxSize \<and>
    int (lm_archives m) = archives \<and> lm_file m \<and> \<not> lm_closed m"
proof -
  let ?m = "\<lparr>lm_name = name, lm_maxSize = nat maxSize, lm_archives = nat archives, lm_file = False, lm_stale = False, lm_closed = False\<rparr>"
  have limits: "valid_log_name name" "maxSize > 0" "archives \<ge> 1" using assms(1) by (auto simp: OpenNamed_def split: if_splits)
  obtain d1 where c: "pass_calls 3 d = (True, d1)"
    using assms(1) by (auto simp: OpenNamed_def split: if_splits prod.splits bool.splits)
  obtain d2 where o: "openActive ?m d1 = (Inr (), ?m\<lparr>lm_file := True, lm_stale := False\<rparr>, d2)" "log_le ?m d1 d2"
      "map_of (ld_files d2) (lm_name ?m) = Some (LogText (log_text (lm_name ?m) d1))"
    using assms(1) c by (cases ?m d1 rule: openActive_cases) (auto simp: OpenNamed_def split: if_splits prod.splits)
  obtain r d3 where p: "prune (?m\<lparr>lm_file := True, lm_stale := False\<rparr>) d2 = (r, d3)" by fastforce
  have "OpenNamed name maxSize archives d =
      (case r of Inl e \<Rightarrow> (case Close (?m\<lparr>lm_file := True, lm_stale := False\<rparr>) d3 of (_, _, d4) \<Rightarrow> (Inl e, d4)) | Inr _ \<Rightarrow> (Inr (?m\<lparr>lm_file := True, lm_stale := False\<rparr>), d3))"
    using limits c o(1) p by (cases r) (simp_all add: OpenNamed_def)
  then have out: "m = ?m\<lparr>lm_file := True, lm_stale := False\<rparr>" "d' = d3" "is_ok r"
    using assms(1) by (simp_all split: prod.splits sum.splits)
  have "ld_files d1 = ld_files d" using pass_calls_le [OF c] by simp
  then have d1: "sorted_keys (ld_files d1)" "sizes_ok m d1" "foreign_same m d d1"
    using assms(2,3) out limits by (auto simp: sizes_ok_def foreign_same_def nat_le_iff le_nat_iff)
  have le: "log_le m d1 d2" using o(2) unfolding out(1) log_le_file .
  then have "sorted_keys (ld_files d2)" using d1 by (simp add: log_le_def)
  then have pr: "log_le m d2 d'" "card (archives_in m d') \<le> lm_archives m" "map_of (ld_files d') (lm_name m) = map_of (ld_files d2) (lm_name m)"
    using prune_spec [OF p] out by (simp_all flip: out(1))
  note le2 = log_le_trans [OF le pr(1)]
  have "log_inv (nat archives + fails d') (m, d')"
    using le2 pr d1 o(3) by (auto simp: log_inv_def log_le_def out)
  moreover have "foreign_same m d d'" using foreign_same_trans [OF d1(3) log_le_foreign [OF le2]] .
  ultimately show ?thesis using limits by (simp add: log_run_inv_def out)
qed

text \<open>C27: The space of a stream is bounded: when its files fit the limit at the start, then after any sequence of
  operations the files of the stream take at most the space of the active file and the allowed archives,
  plus one file for every system call that failed meanwhile; files of other streams in the same
  directory are as they were.\<close>
theorem log_space_bounded:
  assumes "OpenNamed name maxSize archives d = (Inr m, d1)" "sorted_keys (ld_files d)"
    "\<And>k t. owned_name m k \<Longrightarrow> map_of (ld_files d) k = Some (LogText t) \<Longrightarrow> int (length t) \<le> maxSize"
    "list_all clock_ok evs" "foldl log_step (m, d1) evs = (m', d')"
  shows "int (sum_list (map lf_Size (stream_files m' d'))) \<le> (archives + 1 + int (fails d1 - fails d')) * maxSize \<and>
    (\<forall>k. \<not> owned_name m k \<longrightarrow> map_of (ld_files d') k = map_of (ld_files d) k)"
proof -
  have op: "log_run_inv (nat archives + fails d1) m d (m, d1)" "int (lm_maxSize m) = maxSize" "int (lm_archives m) = archives"
    using OpenNamed_inv [OF assms(1,2)] assms(3) by blast+
  from logs.guarded_run [OF op(1) assms(4)] have "log_run_inv (nat archives + fails d1) m d (m', d')"
    by (simp add: assms(5))
  then have run: "log_inv (nat archives + fails d1) (m', d')" "foreign_same m d d'" "lm_maxSize m' = lm_maxSize m"
    by (simp_all add: log_run_inv_def)
  have "card (archives_in m' d') \<le> nat archives + (fails d1 - fails d')" using run(1) by (auto simp: log_inv_def)
  then have "int (card (archives_in m' d') + 1) \<le> archives + 1 + int (fails d1 - fails d')" using op by linarith
  then have "int (card (archives_in m' d') + 1) * int (lm_maxSize m) \<le> (archives + 1 + int (fails d1 - fails d')) * maxSize"
    using op by (intro mult_mono) auto
  moreover have "int (sum_list (map lf_Size (stream_files m' d'))) \<le> int ((card (archives_in m' d') + 1) * lm_maxSize m)"
    using stream_files_size [OF run(1)] run(3) by (metis of_nat_mono)
  ultimately have "int (sum_list (map lf_Size (stream_files m' d'))) \<le> (archives + 1 + int (fails d1 - fails d')) * maxSize"
    unfolding of_nat_mult by (rule order_trans [rotated])
  then show ?thesis using run(2) by (simp add: foreign_same_def)
qed

text \<open>After a successful removal of everything no file of the stream has any text left.\<close>

lemma Clear_spec:
  assumes "Clear m d = (Inr (), d')" "sorted_keys (ld_files d)"
  shows "stream_lines m d' = [] \<and> (\<forall>k. \<not> owned_name m k \<longrightarrow> map_of (ld_files d') k = map_of (ld_files d) k)"
proof -
  obtain q d1 where i: "inventory m d = (q, d1)" by fastforce
  then show ?thesis
  proof (cases rule: inventory_cases)
    case (listed out)
    have run: "remove_logs m (stream_files m d) d1 = (Inr (), d')" using assms(1) i listed by (simp add: Clear_def)
    note rm = remove_logs_le [OF run]
    note le = log_le_trans [OF inventory_le [OF i]]
    have "log_le m d d'" using le rm by blast
    then have keeps: "sorted_keys (ld_files d')" "\<forall>k. \<not> owned_name m k \<longrightarrow> map_of (ld_files d') k = map_of (ld_files d) k"
      using assms(2) unfolding log_le_def by blast+
    note sorted = sorted_keys_distinct [OF assms(2)] sorted_keys_distinct [OF keeps(1)]
    have "log_text (lf_Name f) d' = []" if f: "f \<in> set (stream_files m d')" for f
    proof (cases "lf_Name f \<in> lf_Name ` set (stream_files m d)")
      case False
      obtain t where t: "owned_name m (lf_Name f)" "map_of (ld_files d') (lf_Name f) = Some (LogText t)"
        using f stream_files_iff [OF sorted(2)] by blast
      then have "map_of (ld_files d) (lf_Name f) = Some (LogText t)" using rm False listed(2) by auto
      then have "\<lparr>lf_Name = lf_Name f, lf_Size = length t, lf_Active = (lf_Name f = lm_name m)\<rparr> \<in> set (stream_files m d)"
        using t(1) by (simp add: stream_files_iff [OF sorted(1)])
      from imageI [OF this, of lf_Name] show ?thesis using False by simp
    qed (use rm in simp)
    then have "stream_lines m d' = []" by (simp add: stream_lines_def newest_lines_def)
    then show ?thesis using keeps(2) by blast
  qed (use assms i in \<open>simp add: Clear_def\<close>)
qed

lemma cleared_lines: "Clear m d = (Inr (), d') \<Longrightarrow> sorted_keys (ld_files d) \<Longrightarrow> stream_lines m d' = []"
  using Clear_spec by blast

section \<open>Written records are read back\<close>

lemma newline_code: "of_char newline = (10 :: nat)" "newline \<noteq> char_of (92 :: nat)" "newline \<noteq> char_of (34 :: nat)"
  by (simp_all add: newline_def char_of_eq_iff)

lemma newline_literal: "newline = CHR 0x0A"
  by (simp add: newline_def char_of_def bit_0)

lemma hex_char_plain: "n < 16 \<Longrightarrow> hex_char n \<noteq> newline"
proof -
  assume "n < 16"
  then have "hex_char n \<in> set ''0123456789abcdef''" unfolding hex_char_def by (intro nth_mem) simp
  then show ?thesis by (auto simp: newline_literal)
qed

lemma json_escape_plain: "newline \<notin> set (json_escape c)"
proof -
  have "newline \<in> {c} \<Longrightarrow> of_char c = (10 :: nat)" using newline_code(1) by auto
  moreover have "of_char c < (32 :: nat) \<Longrightarrow> of_char c div 16 < (16 :: nat)" by simp
  ultimately show ?thesis
    using newline_code(2,3) hex_char_plain [of "of_char c div 16"] hex_char_plain [of "of_char c mod 16"]
    by (auto simp: json_escape_def Let_def) (auto simp: newline_literal)
qed

text \<open>The text of an event is one line.\<close>

definition text_event :: "jmap \<Rightarrow> bool" where
  "text_event event = list_all (\<lambda>kv. as_string (snd kv) \<noteq> None) event"

lemma json_string_plain: "newline \<notin> set (json_string s)"
  using json_escape_plain newline_code(3) by (auto simp: json_string_def)

lemma commas_plain: "(\<And>s. s \<in> set ss \<Longrightarrow> newline \<notin> set s) \<Longrightarrow> newline \<notin> set (commas ss)"
  by (induction ss rule: commas.induct) (auto simp: newline_def char_of_def)

lemma Marshal_plain: "text_event event \<Longrightarrow> newline \<notin> set (Marshal event)"
proof -
  assume ev: "text_event event"
  have "newline \<notin> set (json_string (fst kv) @ '':'' @ json_encode (snd kv))" if "kv \<in> set event" for kv
  proof -
    have "as_string (snd kv) \<noteq> None" using ev that by (auto simp: text_event_def list_all_iff)
    then obtain s where "snd kv = JStr s" by (cases "snd kv") simp_all
    then show ?thesis using json_string_plain by (auto simp: newline_def char_of_def)
  qed
  then have "newline \<notin> set (commas (map (\<lambda>kv. json_string (fst kv) @ '':'' @ json_encode (snd kv)) event))"
    by (intro commas_plain) auto
  then have "newline \<notin> set (json_encode (JObj event))" by (auto simp: newline_literal)
  moreover have "newline \<in> set (html_escape c) \<Longrightarrow> c = newline" for c
    by (auto simp: html_escape_def newline_def char_of_def split: if_splits)
  ultimately show ?thesis unfolding Marshal_def set_concat set_map by blast
qed

lemma Marshal_nonempty: "Marshal event \<noteq> []"
  by (simp add: Marshal_def html_escape_def)

lemma lines_at_end:
  assumes "newline \<notin> set x" "x \<noteq> []"
  shows "lines_at name start (a @ newline # x @ [newline]) =
    lines_at name start a @ [\<lparr>ll_File = name, ll_Offset = start + length a + 1, ll_Text = x\<rparr>]"
  using assms lines_at_snoc [of name _ x] by (simp add: lines_at_append lines_at_plain)

lemma read_part_cut:
  assumes "budget < length t" "drop (length t - budget) t = u @ newline # v" "newline \<notin> set u"
  shows "read_part t budget = (length t - budget + length u + 1, v)"
proof -
  have "takeWhile (\<lambda>c. c \<noteq> newline) (drop (length t - budget) t) = u"
    unfolding assms(2) using assms(3) by (subst takeWhile_append2) auto
  then show ?thesis using assms(1,2) by (simp add: read_part_def Let_def)
qed

lemma read_part_last:
  assumes "read_part (t @ x @ [newline]) budget = (start, data)" "newline \<notin> set x" "x \<noteq> []" "t = [] \<or> last t = newline"
    "length x + 2 \<le> budget"
  shows "\<exists>ls. lines_at name start data = ls @ [\<lparr>ll_File = name, ll_Offset = length t, ll_Text = x\<rparr>]"
proof (cases "t = []")
  case True
  then have "start = 0" "data = x @ [newline]" using assms by (auto simp: read_part_whole)
  then show ?thesis using True assms lines_at_snoc [of name 0 x] by (simp add: lines_at_plain)
next
  case False
  then obtain a where a: "t = a @ [newline]" using assms(4) by (metis append_butlast_last_id)
  let ?t = "a @ newline # x @ [newline]"
  show ?thesis
  proof (cases "length ?t \<le> budget")
    case True
    then have "start = 0" "data = ?t" using assms(1) a by (auto simp: read_part_whole)
    then show ?thesis using lines_at_end [OF assms(2,3), of name 0 a] by (simp add: a)
  next
    case big: False
    define k where "k = length ?t - budget"
    define b where "b = drop k a"
    have k: "0 < k" "k \<le> length a" using big assms(5) by (auto simp: k_def)
    have d: "drop k ?t = b @ newline # x @ [newline]" "length a = k + length b" using k by (simp_all add: b_def)
    have cut: "(start, data) = (k + length u + 1, v)" if "drop k ?t = u @ newline # v" "newline \<notin> set u" for u v
      using read_part_cut [of budget ?t u v] that big assms(1) by (simp add: a k_def)
    show ?thesis
    proof (cases "newline \<in> set b")
      case True
      then obtain c r where b: "b = c @ newline # r" "newline \<notin> set c" by (meson split_list_first)
      have "drop k ?t = c @ newline # (r @ newline # x @ [newline])" unfolding d(1) b(1) by simp
      from cut [OF this b(2)] show ?thesis using lines_at_end [OF assms(2,3), of name start r] d(2) b by (simp add: a)
    next
      case False
      from cut [OF d(1) this] show ?thesis using lines_at_snoc [of name start x] assms(2,3) d(2) by (simp add: lines_at_plain a)
    qed
  qed
qed

text \<open>The active file comes first.\<close>

lemma stream_files_active:
  assumes "distinct (map fst (ld_files d))" "map_of (ld_files d) (lm_name m) = Some (LogText t)"
  shows "\<exists>files. stream_files m d = \<lparr>lf_Name = lm_name m, lf_Size = length t, lf_Active = True\<rparr> # files"
proof -
  let ?f = "\<lparr>lf_Name = lm_name m, lf_Size = length t, lf_Active = True\<rparr>"
  define fs where "fs = map (file_of m) (filter (\<lambda>e. owned_name m (fst e) \<and> snd e \<noteq> SpecialFile) (ld_files d))"
  have split: "stream_files m d = filter lf_Active fs @ rev (sort_key lf_Name (filter (\<lambda>f. \<not> lf_Active f) fs))"
    by (simp add: stream_files_def order_files_def fs_def)
  have act: "f = ?f" if "f \<in> set (stream_files m d)" "lf_Active f" for f
  proof -
    have "lf_Name f = lm_name m" "lf_Size f = length t" using that assms(2) by (auto simp: stream_files_iff [OF assms(1)])
    then show ?thesis using that(2) by (intro log_file.equality) simp_all
  qed
  have "?f \<in> set (stream_files m d)" using assms(2) by (simp add: stream_files_iff [OF assms(1)])
  then have "?f \<in> set (filter lf_Active fs)" by (auto simp: split)
  then obtain g gs where g: "filter lf_Active fs = g # gs" by (cases "filter lf_Active fs") auto
  then have "g \<in> set (filter lf_Active fs)" by simp
  then have "g = ?f" by (intro act) (auto simp: split)
  then show ?thesis using split g by simp
qed

lemma read_files_first:
  assumes "read_files m limit budget (f # files) [] d = (Inr tail, d')" "0 < limit" "0 < budget"
    "\<And>start data. read_part (log_text (lf_Name f) d) budget = (start, data) \<Longrightarrow> \<exists>ls. lines_at (lf_Name f) start data = ls @ [line]"
  shows "\<exists>rest. lt_Lines tail = line # rest"
  using assms(1)
proof (cases rule: read_files_cases)
  case (1 d2 start data acc' n full)
  obtain ls where ls: "lines_at (lf_Name f) start data = ls @ [line]" using assms(4) [OF 1(2)] by blast
  have "acc' = take limit (line # rev ls)" and fl: "full \<longleftrightarrow> length acc' = limit"
    using scan_lines_spec [OF 1(3)] assms(2) ls by simp_all
  then obtain more where acc': "acc' = line # more" using assms(2) by (cases limit) auto
  show ?thesis
  proof (cases "full \<or> length (log_text (lf_Name f) d) \<ge> budget")
    case True
    then show ?thesis using 1(4,5) acc' by (cases full) simp_all
  next
    case False
    have "length acc' \<le> limit" using \<open>acc' = take limit (line # rev ls)\<close> by simp
    then have "length acc' < limit" using False fl by linarith
    moreover have "read_files m limit (budget - length (log_text (lf_Name f) d)) files acc' d2 = (Inr tail, d')" using 1(6) False by simp
    ultimately obtain rest where "acc' @ newest_lines d2 files = lt_Lines tail @ rest" "length acc' \<le> length (lt_Lines tail)"
      using read_files_spec False by (metis not_le zero_less_diff)
    then show ?thesis using acc' by (cases "lt_Lines tail") auto
  qed
qed

text \<open>What is logged is read back: after an event was appended to a stream whose active file is empty or ends with a
  complete line, the reader returns the text of the event as the first line, whatever the limit and
  however large the file, as long as the event itself fits the read budget.\<close>
theorem appended_event_is_read_first:
  assumes "log_inv C (m, d)" "nano < 2 ^ 63" "text_event event" "length (Marshal event) + 2 \<le> read_budget"
    "log_text (lm_name m) d = [] \<or> last (log_text (lm_name m) d) = newline"
    "Append m event nano d = (Inr n, m', d')" "Read m' limit d' = (Inr tail, d'')"
  shows "\<exists>k rest. lt_Lines tail = \<lparr>ll_File = lm_name m, ll_Offset = k, ll_Text = Marshal event\<rparr> # rest"
proof -
  let ?x = "Marshal event"
  have W: "Write m (?x @ [newline]) nano d = (Inr n, m', d')" "nano < 10 ^ 20" using assms(2,6) by (simp_all add: Append_def)
  obtain t where t: "t = [] \<or> t = log_text (lm_name m) d" "map_of (ld_files d') (lm_name m) = Some (LogText (t @ ?x @ [newline]))"
    and m': "m' = m" and inv: "log_inv C (m, d')"
    using Write_inv [OF W(1) assms(1) W(2)] by auto
  have sorted: "distinct (map fst (ld_files d'))" using inv by (auto simp: log_inv_def sorted_keys_distinct)
  obtain files where files: "stream_files m d' = \<lparr>lf_Name = lm_name m, lf_Size = length (t @ ?x @ [newline]), lf_Active = True\<rparr> # files"
    using stream_files_active [OF sorted t(2)] by blast
  obtain q d1 where i: "inventory m d' = (q, d1)" by fastforce
  then show ?thesis
  proof (cases rule: inventory_cases)
    case (listed out)
    have run: "read_files m (clamp_limit limit) read_budget (stream_files m d') [] d1 = (Inr tail, d'')"
      using assms(7) i listed by (simp add: Read_def m')
    have content: "log_text (lm_name m) d1 = t @ ?x @ [newline]" using t(2) listed(2) by (simp add: log_text_def)
    have ends: "t = [] \<or> last t = newline" using t(1) assms(5) by auto
    have line: "\<exists>ls. lines_at (lm_name m) start data = ls @ [\<lparr>ll_File = lm_name m, ll_Offset = length t, ll_Text = ?x\<rparr>]"
      if "read_part (log_text (lm_name m) d1) read_budget = (start, data)" for start data
      using read_part_last [of t ?x read_budget start data] that Marshal_plain [OF assms(3)] Marshal_nonempty assms(4) content ends by simp
    have "\<exists>rest. lt_Lines tail = \<lparr>ll_File = lm_name m, ll_Offset = length t, ll_Text = ?x\<rparr> # rest"
      by (rule read_files_first [OF run [unfolded files]]) (use clamp_limit_bounds(1) line in \<open>simp_all add: read_budget_def\<close>)
    then show ?thesis by blast
  qed (use assms(7) i in \<open>simp add: Read_def m'\<close>)
qed

section \<open>Samples\<close>

text \<open>Without failing calls the reader returns a result.\<close>

lemma collect_files_succeeds: "ld_faults d = [] \<Longrightarrow> \<not> lm_stale m \<Longrightarrow> \<exists>files. collect_files m es d = (Inr files, d)"
proof (induction es)
  case (Cons p es)
  then obtain files where "collect_files m es d = (Inr files, d)" by blast
  then show ?case using Cons.prems by (cases p) (auto simp: log_call_def split: log_entry.splits)
qed simp

lemma read_files_succeeds:
  assumes "ld_faults d = []" "\<And>f. f \<in> set files \<Longrightarrow> owned_name m (lf_Name f) \<and> (\<exists>t. map_of (ld_files d) (lf_Name f) = Some (LogText t))"
  shows "\<exists>tail. read_files m limit budget files acc d = (Inr tail, d)"
  using assms(2)
proof (induction files arbitrary: budget acc)
  case (Cons f files)
  have call: "log_call d = (None, d)" using assms(1) by (simp add: log_call_def)
  have "regular m (lf_Name f) d = (Inr (), d)" using Cons.prems [of f] by (auto simp: regular_def call)
  moreover have "pass_calls 2 d = (True, d)" by (simp add: numeral_2_eq_2 call)
  ultimately show ?case using Cons by (auto simp: Let_def split: prod.splits)
qed simp

lemma Read_succeeds:
  assumes "ld_faults d = []" "\<not> lm_closed m" "\<not> lm_stale m" "sorted_keys (ld_files d)"
  shows "\<exists>tail. Read m limit d = (Inr tail, d)"
proof -
  have call: "log_call d = (None, d)" using assms(1) by (simp add: log_call_def)
  obtain files where "collect_files m (ld_files d) d = (Inr files, d)" using collect_files_succeeds [OF assms(1,3)] by blast
  then obtain out where i: "inventory m d = (Inr out, d)" using assms(2) by (simp add: inventory_def call)
  then have "li_Files out = stream_files m d" by (cases rule: inventory_cases) auto
  moreover have "\<exists>tail. read_files m (clamp_limit limit) read_budget (stream_files m d) [] d = (Inr tail, d)"
    by (rule read_files_succeeds [OF assms(1)]) (auto simp: stream_files_iff [OF sorted_keys_distinct [OF assms(4)]])
  ultimately show ?thesis using i by (auto simp: Read_def)
qed

definition log_start :: log_dir where
  "log_start = \<lparr>ld_files = [(''b.log'', LogText ''x'')], ld_faults = []\<rparr>"

definition log_sample :: log_manager where
  "log_sample = \<lparr>lm_name = ''a.log'', lm_maxSize = 20, lm_archives = 1, lm_file = True, lm_stale = False, lm_closed = False\<rparr>"

definition log_opened :: log_dir where
  "log_opened = \<lparr>ld_files = [(''a.log'', LogText []), (''b.log'', LogText ''x'')], ld_faults = []\<rparr>"

definition log_events :: "log_event list" where
  "log_events = [EvWrite ''0123456789ab'' 1, EvWrite ''0123456789ab'' 2, EvWrite ''0123456789ab'' 3]"

definition log_record :: jmap where
  "log_record = [(''msg'', JStr ''a'')]"

lemma log_sample_opened: "OpenNamed ''a.log'' 20 1 log_start = (Inr log_sample, log_opened)"
  by code_simp

lemma log_start_ok: "sorted_keys (ld_files log_start)"
  "map_of (ld_files log_start) k = Some (LogText t) \<Longrightarrow> int (length t) \<le> 20"
  by (auto simp: log_start_def split: if_splits)

lemma log_opened_inv: "log_inv 1 (log_sample, log_opened)"
  using OpenNamed_inv [OF log_sample_opened log_start_ok(1)] log_start_ok(2)
  by (auto simp: log_run_inv_def fails_def log_opened_def)

theorem log_space_bounded_witness:
  "int (sum_list (map lf_Size (stream_files (fst (foldl log_step (log_sample, log_opened) log_events))
     (snd (foldl log_step (log_sample, log_opened) log_events))))) \<le> 40"
proof -
  have "list_all clock_ok log_events" by (simp add: log_events_def)
  moreover have "fails log_opened = 0" by (simp add: fails_def log_opened_def)
  ultimately show ?thesis
    using log_space_bounded [OF log_sample_opened log_start_ok(1) log_start_ok(2) \<open>list_all clock_ok log_events\<close> prod.collapse [symmetric]] by simp
qed


definition log_appended :: log_dir where
  "log_appended = \<lparr>ld_files = [(''a.log'', LogText (Marshal log_record @ [newline])), (''b.log'', LogText ''x'')], ld_faults = []\<rparr>"

lemma log_sample_appended: "Append log_sample log_record 1 log_opened = (Inr 12, log_sample, log_appended)"
  by code_simp

theorem appended_event_is_read_first_witness:
  "\<exists>tail k rest. Read log_sample 5 log_appended = (Inr tail, log_appended) \<and>
     lt_Lines tail = \<lparr>ll_File = ''a.log'', ll_Offset = k, ll_Text = Marshal log_record\<rparr> # rest"
proof -
  have "ld_faults log_appended = []" "\<not> lm_closed log_sample" "\<not> lm_stale log_sample" "sorted_keys (ld_files log_appended)"
    by (simp_all add: log_appended_def log_sample_def)
  from Read_succeeds [OF this] obtain tail where r: "Read log_sample 5 log_appended = (Inr tail, log_appended)" by blast
  have "length (Marshal log_record) = 11" "text_event log_record" by code_simp+
  then have "\<exists>k rest. lt_Lines tail = \<lparr>ll_File = lm_name log_sample, ll_Offset = k, ll_Text = Marshal log_record\<rparr> # rest"
    by (intro appended_event_is_read_first [OF log_opened_inv _ _ _ _ log_sample_appended r])
      (simp_all add: read_budget_def log_opened_def log_sample_def log_text_def)
  then show ?thesis using r by (auto simp: log_sample_def)
qed

end
