(* ===== verification/Log_Streams.thy ===== *)
theory Log_Streams
  imports Log_Files
begin

text \<open>
  The log streams of the Agent (internal/runtime/logs.go): three managers in one directory, the
  handler the core writes through, the log settings of a core configuration, and the commands that
  read and remove logs. The registry of writers is the list of the registered paths, by the name of
  the file. \<open>whole\<close> is \<open>int\<close> of the \<open>float64\<close> a number literal denotes.
\<close>

record log_streams =
  sr_logs :: "(string \<times> log_manager) list"
  sr_writers :: "string list"
  sr_dir :: log_dir

definition stream_names :: "string list" where
  "stream_names = [''agent'', ''xray-access'', ''xray-error'']"

fun close_streams :: "(string \<times> log_manager) list \<Rightarrow> log_streams \<Rightarrow> log_streams" where
  "close_streams [] s = s"
| "close_streams ((name, m) # rest) s =
     (case Close m (sr_dir s) of (_, m1, d1) \<Rightarrow>
        close_streams rest (s\<lparr>sr_logs := put_key name m1 (sr_logs s), sr_writers := removeAll (name @ ''.log'') (sr_writers s), sr_dir := d1\<rparr>))"

definition closeLogs :: "log_streams \<Rightarrow> log_streams" where
  "closeLogs s = close_streams (sr_logs s) s"

fun open_streams :: "string list \<Rightarrow> log_streams \<Rightarrow> (log_error, unit) res \<times> log_streams" where
  "open_streams [] s = (Inr (), s)"
| "open_streams (name # rest) s =
     (case OpenNamed (name @ ''.log'') (50 * 1048576) 5 (sr_dir s) of
        (Inl e, d1) \<Rightarrow> (Inl e, closeLogs (s\<lparr>sr_dir := d1\<rparr>))
      | (Inr m, d1) \<Rightarrow> open_streams rest (s\<lparr>sr_logs := put_key name m (sr_logs s), sr_writers := (name @ ''.log'') # sr_writers s, sr_dir := d1\<rparr>))"

definition initLogs :: "log_streams \<Rightarrow> (log_error, unit) res \<times> log_streams" where
  "initLogs s = open_streams stream_names (s\<lparr>sr_logs := []\<rparr>)"

text \<open>A message of the core, with the severity of a general message; the clock gives the time and its text.\<close>

definition managed_handle :: "string \<Rightarrow> string option \<Rightarrow> string \<Rightarrow> string \<Rightarrow> nat \<Rightarrow> log_streams \<Rightarrow> log_streams" where
  "managed_handle name severity message now nano s =
     (case map_of (sr_logs s) name of
        None \<Rightarrow> s
      | Some m \<Rightarrow>
          (case Append m [(''level'', JStr (case severity of None \<Rightarrow> ''INFO'' | Some v \<Rightarrow> v)), (''msg'', JStr message), (''time'', JStr now)] nano (sr_dir s) of
             (_, m1, d1) \<Rightarrow> s\<lparr>sr_logs := put_key name m1 (sr_logs s), sr_dir := d1\<rparr>))"

text \<open>The log settings of a core configuration: applications are settings, others, or broken.\<close>

record log_settings =
  ls_AccessPath :: string
  ls_ErrorPath :: string
  ls_Managed :: bool
  ls_ErrorLevel :: string

datatype 'a core_app = LoggingApp log_settings | OtherApp 'a | BrokenApp

fun managedCoreLogs :: "'a core_app list \<Rightarrow> 'a core_app list" where
  "managedCoreLogs [] = [LoggingApp \<lparr>ls_AccessPath = ''xray-access.log'', ls_ErrorPath = ''xray-error.log'', ls_Managed = True, ls_ErrorLevel = ''warning''\<rparr>]"
| "managedCoreLogs (LoggingApp l # apps) =
     LoggingApp (l\<lparr>ls_AccessPath := ''xray-access.log'', ls_ErrorPath := ''xray-error.log'', ls_Managed := True\<rparr>) # apps"
| "managedCoreLogs (app # apps) = app # managedCoreLogs apps"

section \<open>Commands\<close>

datatype log_command_error = UnknownStream | UnconfirmedScope | LogFailed log_error

record log_answer =
  la_Tail :: log_tail
  la_Inventory :: log_inventory

definition get_bool :: "jmap \<Rightarrow> string \<Rightarrow> bool" where
  "get_bool kvs k = (map_of kvs k = Some (JBool True))"

definition log_scope :: "jmap \<Rightarrow> bool" where
  "log_scope params =
     (let everything = get_bool params ''all''; name = get_string params ''name'' in
      get_bool params ''confirm'' \<and> \<not> (everything \<and> name \<noteq> []) \<and> \<not> (\<not> everything \<and> name = []))"

definition remove_scope :: "log_manager \<Rightarrow> jmap \<Rightarrow> log_dir \<Rightarrow> (log_command_error, unit) res \<times> log_dir" where
  "remove_scope m params d =
     (if \<not> log_scope params then (Inl UnconfirmedScope, d)
      else case (if get_bool params ''all'' then Clear m d else Delete m (get_string params ''name'') d) of
        (Inl e, d1) \<Rightarrow> (Inl (LogFailed e), d1)
      | (Inr _, d1) \<Rightarrow> (Inr (), d1))"

definition line_limit :: "(string \<Rightarrow> int) \<Rightarrow> jmap \<Rightarrow> int" where
  "line_limit whole params = (case map_of params ''limit'' of Some (JNum n) \<Rightarrow> whole n | _ \<Rightarrow> 200)"

definition stream_of :: "jmap \<Rightarrow> string" where
  "stream_of params = (let stream = get_string params ''stream'' in if stream = [] then ''agent'' else stream)"

definition logCommand ::
  "(string \<Rightarrow> int) \<Rightarrow> string \<Rightarrow> jmap \<Rightarrow> log_streams \<Rightarrow> (log_command_error, log_answer) res \<times> log_streams" where
  "logCommand whole action params s =
     (case map_of (sr_logs s) (stream_of params) of
        None \<Rightarrow> (Inl UnknownStream, s)
      | Some m \<Rightarrow>
          (case (if action = ''logs.remove'' then remove_scope m params (sr_dir s) else (Inr (), sr_dir s)) of
             (Inl e, d1) \<Rightarrow> (Inl e, s\<lparr>sr_dir := d1\<rparr>)
           | (Inr _, d1) \<Rightarrow>
               (case Read m (line_limit whole params) d1 of
                  (Inl e, d2) \<Rightarrow> (Inl (LogFailed e), s\<lparr>sr_dir := d2\<rparr>)
                | (Inr tail, d2) \<Rightarrow>
                    (case inventory m d2 of
                       (Inl e, d3) \<Rightarrow> (Inl (LogFailed e), s\<lparr>sr_dir := d3\<rparr>)
                     | (Inr out, d3) \<Rightarrow> (Inr \<lparr>la_Tail = tail, la_Inventory = out\<rparr>, s\<lparr>sr_dir := d3\<rparr>)))))"

section \<open>Properties\<close>

text \<open>The names of different streams do not overlap.\<close>

lemma archive_stem: "is_archive name s \<Longrightarrow> take (length s - 24) s = log_stem name @ ''-''"
  by (auto simp: is_archive_def Let_def)

definition streams_ok :: "log_streams \<Rightarrow> bool" where
  "streams_ok s = list_all (\<lambda>(name, m). name \<in> set stream_names \<and> lm_name m = name @ ''.log'') (sr_logs s)"

lemma streams_ok_name: "streams_ok s \<Longrightarrow> map_of (sr_logs s) name = Some m \<Longrightarrow> name \<in> set stream_names \<and> lm_name m = name @ ''.log''"
  by (auto simp: streams_ok_def list_all_iff dest: map_of_SomeD)

lemma streams_disjoint:
  assumes "lm_name m = a @ ''.log''" "lm_name n = b @ ''.log''" "a \<in> set stream_names" "b \<in> set stream_names" "a \<noteq> b" "owned_name m k"
  shows "\<not> owned_name n k"
proof
  assume "owned_name n k"
  have stem: "log_stem (x @ ''.log'') = x" for x by (simp add: log_stem_def)
  have len: "owned_name p k \<Longrightarrow> lm_name p = x @ ''.log'' \<Longrightarrow> k = x @ ''.log'' \<or> (length k = length x + 25 \<and> take (length x + 1) k = x @ ''-'')" for p x
    by (auto simp: owned_name_def is_archive_def stem Let_def)
  note ks = len [OF assms(6,1)] len [OF \<open>owned_name n k\<close> assms(2)]
  show False using assms(3-5) ks by (auto simp: stream_names_def)
qed

lemma logCommand_cases:
  assumes "logCommand whole action params s = (r, s')"
  obtains (unknown) "r = Inl UnknownStream" "s' = s"
  | (run) m q d1 where "map_of (sr_logs s) (stream_of params) = Some m"
      "(if action = ''logs.remove'' then remove_scope m params (sr_dir s) else (Inr (), sr_dir s)) = (q, d1)"
      "log_le m d1 (sr_dir s')" "ld_files (sr_dir s') = ld_files d1" "sr_logs s' = sr_logs s"
      "\<And>answer. r = Inr answer \<Longrightarrow> q = Inr () \<and> (\<exists>d2. Read m (line_limit whole params) d1 = (Inr (la_Tail answer), d2))"
proof (cases "map_of (sr_logs s) (stream_of params)")
  case None
  then show ?thesis using assms by (intro unknown) (simp_all add: logCommand_def)
next
  case (Some m)
  obtain q d1 where q: "(if action = ''logs.remove'' then remove_scope m params (sr_dir s) else (Inr (), sr_dir s)) = (q, d1)" by fastforce
  obtain t d2 where t: "Read m (line_limit whole params) d1 = (t, d2)" by fastforce
  obtain i d3 where i: "inventory m d2 = (i, d3)" by fastforce
  have "log_le m d1 d2" using quiet_steps(3) [of m d1 "line_limit whole params"] t by simp
  moreover have "ld_files d2 = ld_files d1"
  proof -
    obtain o' d0 where o: "inventory m d1 = (o', d0)" by fastforce
    then have "ld_files d0 = ld_files d1" by (cases rule: inventory_cases) simp_all
    then show ?thesis using t o read_files_same by (fastforce simp: Read_def split: sum.splits)
  qed
  moreover have "log_le m d2 d3" "ld_files d3 = ld_files d2"
    using inventory_le [OF i] i by (auto elim: inventory_cases)
  ultimately have quiet: "log_le m d1 d2" "log_le m d1 d3" "ld_files d2 = ld_files d1" "ld_files d3 = ld_files d1"
    using log_le_trans by (blast, blast, simp_all)
  have "logCommand whole action params s = (case q of Inl e \<Rightarrow> (Inl e, s\<lparr>sr_dir := d1\<rparr>) | Inr _ \<Rightarrow>
      (case t of Inl e \<Rightarrow> (Inl (LogFailed e), s\<lparr>sr_dir := d2\<rparr>) | Inr tail \<Rightarrow>
        (case i of Inl e \<Rightarrow> (Inl (LogFailed e), s\<lparr>sr_dir := d3\<rparr>) | Inr out \<Rightarrow> (Inr \<lparr>la_Tail = tail, la_Inventory = out\<rparr>, s\<lparr>sr_dir := d3\<rparr>))))"
    unfolding logCommand_def Some option.case q prod.case t i by (simp split: sum.splits)
  then show ?thesis using assms t quiet by (intro run [OF Some q]) (auto split: sum.splits)
qed

text \<open>Log commands stay in their scope: without a confirmed and unambiguous removal no file changes; a command
  on one stream never touches the files of another stream; and the answer to a removal of a whole stream
  contains no line of it any more.\<close>
theorem log_commands_stay_in_scope:
  assumes "logCommand whole action params s = (r, s')" "streams_ok s" "sorted_keys (ld_files (sr_dir s))"
  shows "(\<not> (action = ''logs.remove'' \<and> log_scope params) \<longrightarrow> ld_files (sr_dir s') = ld_files (sr_dir s)) \<and>
    (\<forall>name n k. name \<noteq> stream_of params \<longrightarrow> map_of (sr_logs s) name = Some n \<longrightarrow> owned_name n k \<longrightarrow>
       map_of (ld_files (sr_dir s')) k = map_of (ld_files (sr_dir s)) k) \<and>
    (\<forall>answer. r = Inr answer \<longrightarrow> action = ''logs.remove'' \<longrightarrow> get_bool params ''all'' \<longrightarrow> lt_Lines (la_Tail answer) = [])"
  using assms(1)
proof (cases rule: logCommand_cases)
  case unknown
  then show ?thesis by simp
next
  case (run m q d1)
  let ?d = "sr_dir s" and ?d' = "sr_dir s'"
  have m: "stream_of params \<in> set stream_names" "lm_name m = stream_of params @ ''.log''"
    using streams_ok_name [OF assms(2) run(1)] by simp_all
  have rm: "log_le m ?d d1 \<and> (\<not> (action = ''logs.remove'' \<and> log_scope params) \<longrightarrow> d1 = ?d) \<and>
      (q = Inr () \<and> action = ''logs.remove'' \<and> get_bool params ''all'' \<longrightarrow> Clear m ?d = (Inr (), d1))"
    using run(2) quiet_steps(4) [of m ?d "get_string params ''name''"] quiet_steps(5) [of m ?d]
    by (auto simp: remove_scope_def split: if_splits prod.splits sum.splits)
  then have same: "\<not> (action = ''logs.remove'' \<and> log_scope params) \<longrightarrow> ld_files ?d' = ld_files ?d" using run(4) by simp
  have "log_le m ?d ?d'" using rm run(3) log_le_trans by blast
  then have kept: "\<not> owned_name m k \<Longrightarrow> map_of (ld_files ?d') k = map_of (ld_files ?d) k" for k by (simp add: log_le_def)
  have others: "map_of (ld_files ?d') k = map_of (ld_files ?d) k"
    if "name \<noteq> stream_of params" "map_of (sr_logs s) name = Some n" "owned_name n k" for name n k
    using streams_disjoint [of n name m "stream_of params" k] streams_ok_name [OF assms(2) that(2)] m that by (intro kept) simp
  have "lt_Lines (la_Tail answer) = []" if r: "r = Inr answer" "action = ''logs.remove''" "get_bool params ''all''" for answer
  proof -
    obtain d2 where read: "q = Inr ()" "Read m (line_limit whole params) d1 = (Inr (la_Tail answer), d2)" using run(6) [OF r(1)] by blast
    then have "Clear m ?d = (Inr (), d1)" using rm r by blast
    then have "stream_lines m d1 = []" by (rule cleared_lines [OF _ assms(3)])
    then show ?thesis using read_prefix [OF read(2)] by simp
  qed
  then show ?thesis using same others by blast
qed

definition streams_sample :: log_streams where
  "streams_sample = \<lparr>sr_logs = [(''agent'', log_sample\<lparr>lm_name := ''agent.log''\<rparr>)], sr_writers = [''agent.log''],
     sr_dir = \<lparr>ld_files = [(''agent.log'', LogText []), (''xray-error.log'', LogText ''x'')], ld_faults = []\<rparr>\<rparr>"

theorem log_commands_stay_in_scope_witness:
  "ld_files (sr_dir (snd (logCommand (\<lambda>_. 5) ''logs.remove'' [(''all'', JBool True)] streams_sample))) = ld_files (sr_dir streams_sample)"
proof -
  have "streams_ok streams_sample" "sorted_keys (ld_files (sr_dir streams_sample))" "\<not> log_scope [(''all'', JBool True)]"
    by (simp_all add: streams_ok_def streams_sample_def log_sample_def stream_names_def log_scope_def get_bool_def)
  then show ?thesis
    using log_commands_stay_in_scope [OF prod.collapse [symmetric], where s = streams_sample and whole = "\<lambda>_. 5"
        and action = "''logs.remove''" and params = "[(''all'', JBool True)]"] by blast
qed

end
