(* ===== verification/Node_Tools.thy ===== *)
theory Node_Tools
  imports Complex_Main "HOL-Library.Multiset" Port_Forwards
begin

text \<open>
  The tools of a node that stand beside the proxy (internal/runtime/operations.go and quality.go): the check of
  local ports, certificates, the web server's configuration with its restoration, and the measurements of
  latency and network quality over TCP and ICMP.

  Sockets, the web server and the certificate library are parameters. Arithmetic on float64 is exact arithmetic followed
  by rounding (\<open>rnd\<close>), as IEEE 754 defines it; a number of a request is the rational value of its float64.
  Names, messages and times that are only reported are left out.
\<close>

datatype tool_error = BadPorts | BadHost | BadProtocol | BadPortNumber | BadCertName | BadKeyPair | BadCertificate | NotInValidity | ToolWrite
  | NoNginx | BadSite | SiteRead | SiteTest | SiteReload | BadLatencyTarget | BadCount | NotInteger | BadAddress forward_error | BadMethod
  | NoResolve | IcmpUnsupported | NoRandom | QualityCancelled

section \<open>Ports\<close>

text \<open>\<open>int\<close> of a float64 cuts off the fraction.\<close>

definition whole_part :: "rat \<Rightarrow> int" where
  "whole_part q = (if q \<ge> 0 then \<lfloor>q\<rfloor> else \<lceil>q\<rceil>)"

record port_item =
  pi_port :: int
  pi_protocol :: string
  pi_available :: bool

fun check_port_list ::
  "(string \<Rightarrow> rat) \<Rightarrow> (string \<Rightarrow> string \<Rightarrow> bool) \<Rightarrow> string \<Rightarrow> string \<Rightarrow> json list \<Rightarrow> (tool_error, port_item list) res" where
  "check_port_list number can_listen host protocol [] = Inr []"
| "check_port_list number can_listen host protocol (v # vs) =
     (case v of
        JNum s \<Rightarrow>
          let n = number s in
          if n < 1 \<or> n > 65535 \<or> n \<noteq> of_int (whole_part n) then Inl BadPortNumber
          else bind_res (check_port_list number can_listen host protocol vs) (\<lambda>items.
            Inr (\<lparr>pi_port = whole_part n, pi_protocol = protocol,
              pi_available = can_listen protocol (JoinHostPort host (itoa (whole_part n)))\<rparr> # items))
      | _ \<Rightarrow> Inl BadPortNumber)"

definition checkPorts ::
  "(string \<Rightarrow> rat) \<Rightarrow> (string \<Rightarrow> bool) \<Rightarrow> (string \<Rightarrow> string \<Rightarrow> bool) \<Rightarrow> jmap \<Rightarrow> (tool_error, port_item list) res" where
  "checkPorts number parse_ip can_listen p =
     (case map_of p ''ports'' of
        Some (JArr vs) \<Rightarrow>
          if length vs > 128 then Inl BadPorts
          else let host = (if get_string p ''host'' = [] then ''0.0.0.0'' else get_string p ''host'');
                   protocol = (if get_string p ''protocol'' = [] then ''tcp'' else get_string p ''protocol'') in
            if \<not> parse_ip host then Inl BadHost
            else if protocol \<noteq> ''tcp'' \<and> protocol \<noteq> ''udp'' then Inl BadProtocol
            else check_port_list number can_listen host protocol vs
      | _ \<Rightarrow> Inl BadPorts)"

section \<open>Certificates and the web server\<close>

record tool_files =
  tf_text :: "string \<Rightarrow> string option"
  tf_unreadable :: "string \<Rightarrow> bool"
  tf_faults :: "bool list"

definition tool_fault :: "tool_files \<Rightarrow> bool \<times> tool_files" where
  "tool_fault d = (case tf_faults d of [] \<Rightarrow> (False, d) | f # fs \<Rightarrow> (f, d\<lparr>tf_faults := fs\<rparr>))"

text \<open>\<open>atomicWrite\<close>: the file is replaced, or nothing happens.\<close>

definition write_tool :: "string \<Rightarrow> string \<Rightarrow> tool_files \<Rightarrow> bool \<times> tool_files" where
  "write_tool path t d = (case tool_fault d of (failed, d1) \<Rightarrow>
     if failed then (False, d1) else (True, d1\<lparr>tf_text := (tf_text d1)(path \<mapsto> t)\<rparr>))"

definition remove_tool :: "string \<Rightarrow> tool_files \<Rightarrow> tool_files" where
  "remove_tool path d = (case tool_fault d of (failed, d1) \<Rightarrow> if failed then d1 else d1\<lparr>tf_text := (tf_text d1)(path := None)\<rparr>)"

text \<open>The first certificate of a matching pair, and the validity period of a certificate.\<close>

record cert_tools =
  ct_pair :: "string \<Rightarrow> string \<Rightarrow> bytes option"
  ct_period :: "bytes \<Rightarrow> (int \<times> int) option"
  ct_sha256 :: "bytes \<Rightarrow> bytes"

record cert_report =
  cr_fingerprint :: string
  cr_certificate :: string
  cr_private_key :: string

definition cert_dir :: "string \<Rightarrow> string \<Rightarrow> string \<Rightarrow> string" where
  "cert_dir dataDir name fingerprint = join_path [dataDir, ''certificates'', name, fingerprint]"

text \<open>The clock is read twice.\<close>

definition deployCertificate ::
  "cert_tools \<Rightarrow> string \<Rightarrow> int \<Rightarrow> int \<Rightarrow> jmap \<Rightarrow> tool_files \<Rightarrow> (tool_error, cert_report) res \<times> tool_files" where
  "deployCertificate ct dataDir now later p d =
     (let name = get_string p ''name''; cert = get_string p ''certificate''; key = get_string p ''private_key'' in
      if \<not> safeName name then (Inl BadCertName, d)
      else case ct_pair ct cert key of
        None \<Rightarrow> (Inl BadKeyPair, d)
      | Some leaf \<Rightarrow>
          (case ct_period ct leaf of
             None \<Rightarrow> (Inl BadCertificate, d)
           | Some (notBefore, notAfter) \<Rightarrow>
               if now > notAfter \<or> later < notBefore then (Inl NotInValidity, d)
               else let fingerprint = hex_encode (ct_sha256 ct leaf); dir = cert_dir dataDir name fingerprint;
                        certPath = join_path [dir, ''fullchain.pem'']; keyPath = join_path [dir, ''privkey.pem''] in
                 (case write_tool certPath cert d of
                    (False, d1) \<Rightarrow> (Inl ToolWrite, d1)
                  | (True, d1) \<Rightarrow>
                      (case write_tool keyPath key d1 of
                         (False, d2) \<Rightarrow> (Inl ToolWrite, d2)
                       | (True, d2) \<Rightarrow> (Inr \<lparr>cr_fingerprint = fingerprint, cr_certificate = certPath, cr_private_key = keyPath\<rparr>, d2)))))"

definition restore_site :: "string \<Rightarrow> string option \<Rightarrow> tool_files \<Rightarrow> tool_files" where
  "restore_site path old d =
     (case old of
        Some (c # cs) \<Rightarrow> snd (write_tool path (c # cs) d)
      | _ \<Rightarrow> remove_tool path d)"

text \<open>\<open>tests\<close> and \<open>reloads\<close>: what the web server says of a text, and whether it then takes it.\<close>

definition applySite ::
  "string \<Rightarrow> (string \<Rightarrow> bool) \<Rightarrow> (string \<Rightarrow> bool) \<Rightarrow> jmap \<Rightarrow> tool_files \<Rightarrow> (tool_error, string) res \<times> tool_files" where
  "applySite path tests reloads p d =
     (if path = [] then (Inl NoNginx, d)
      else case map_of p ''config'' of
        Some (JStr content) \<Rightarrow>
          if length content > 1048576 then (Inl BadSite, d)
          else if tf_unreadable d path then (Inl SiteRead, d)
          else let old = tf_text d path in
            (case write_tool path content d of
               (False, d1) \<Rightarrow> (Inl ToolWrite, d1)
             | (True, d1) \<Rightarrow>
                 if \<not> tests content then (Inl SiteTest, restore_site path old d1)
                 else if \<not> reloads content then (Inl SiteReload, restore_site path old d1)
                 else (Inr content, d1))
      | _ \<Rightarrow> (Inl BadSite, d))"

section \<open>Latency\<close>

definition float_ms :: "(rat \<Rightarrow> rat) \<Rightarrow> nat \<Rightarrow> rat" where
  "float_ms rnd us = rnd (rnd (of_nat us) / 1000)"

record latency_report =
  la_samples :: "rat option list"
  la_failure_percent :: rat
  la_average :: "rat option"

definition failure_percent :: "(rat \<Rightarrow> rat) \<Rightarrow> nat \<Rightarrow> nat \<Rightarrow> rat" where
  "failure_percent rnd failed probes = rnd (rnd (of_nat failed * 100) / of_nat probes)"

fun add_latencies :: "(rat \<Rightarrow> rat) \<Rightarrow> rat \<Rightarrow> rat option list \<Rightarrow> rat" where
  "add_latencies rnd acc [] = acc"
| "add_latencies rnd acc (None # xs) = add_latencies rnd acc xs"
| "add_latencies rnd acc (Some ms # xs) = add_latencies rnd (rnd (acc + ms)) xs"

text \<open>\<open>connects i\<close>: the microseconds of the i-th connection, if it succeeds.\<close>

definition latency ::
  "(rat \<Rightarrow> rat) \<Rightarrow> (string \<Rightarrow> rat) \<Rightarrow> (nat \<Rightarrow> nat option) \<Rightarrow> jmap \<Rightarrow> (tool_error, latency_report) res" where
  "latency rnd number connects p =
     (if SplitHostPort (get_string p ''target'') = None then Inl BadLatencyTarget
      else let probes = (case map_of p ''count'' of Some (JNum n) \<Rightarrow> whole_part (number n) | _ \<Rightarrow> 3) in
        if probes < 1 \<or> probes > 10 then Inl BadCount
        else let samples = map (\<lambda>i. map_option (float_ms rnd) (connects i)) [0..<nat probes];
                 success = length (filter (\<lambda>s. s \<noteq> None) samples) in
          Inr \<lparr>la_samples = samples, la_failure_percent = failure_percent rnd (nat probes - success) (nat probes),
            la_average = (if success > 0 then Some (rnd (add_latencies rnd 0 samples / of_nat success)) else None)\<rparr>)"

section \<open>Quality\<close>

record quality_stats =
  qs_average :: rat
  qs_minimum :: rat
  qs_maximum :: rat
  qs_median :: rat
  qs_jitter :: "rat option"

record quality_report =
  qr_samples :: "rat option list"
  qr_count :: nat
  qr_successful :: nat
  qr_failure_percent :: rat
  qr_packet_loss :: "rat option"
  qr_stats :: "quality_stats option"

text \<open>The sum of the latencies and of their steps, in the order of the probes.\<close>

fun quality_sums :: "(rat \<Rightarrow> rat) \<Rightarrow> rat \<Rightarrow> rat \<Rightarrow> rat option \<Rightarrow> rat list \<Rightarrow> rat \<times> rat" where
  "quality_sums rnd acc jitter prev [] = (acc, jitter)"
| "quality_sums rnd acc jitter prev (ms # xs) =
     quality_sums rnd (rnd (acc + ms)) (case prev of None \<Rightarrow> jitter | Some q \<Rightarrow> rnd (jitter + \<bar>rnd (ms - q)\<bar>)) (Some ms) xs"

definition quality_statistics :: "(rat \<Rightarrow> rat) \<Rightarrow> rat list \<Rightarrow> quality_stats option" where
  "quality_statistics rnd latencies =
     (case quality_sums rnd 0 0 None latencies of (acc, jitter) \<Rightarrow>
        let sorted_ms = sort latencies; k = length latencies in
        if k = 0 then None
        else Some \<lparr>qs_average = rnd (acc / of_nat k), qs_minimum = sorted_ms ! 0, qs_maximum = sorted_ms ! (k - 1),
          qs_median = sorted_ms ! (k div 2), qs_jitter = (if k > 1 then Some (rnd (jitter / of_nat (k - 1))) else None)\<rparr>)"

text \<open>The probes; \<open>cancelled i\<close> is the state of the context before the i-th one.\<close>

fun run_probes :: "(rat \<Rightarrow> rat) \<Rightarrow> (nat \<Rightarrow> bool) \<Rightarrow> (nat \<Rightarrow> nat option) \<Rightarrow> nat \<Rightarrow> nat \<Rightarrow> (tool_error, rat option list) res" where
  "run_probes rnd cancelled probe i 0 = Inr []"
| "run_probes rnd cancelled probe i (Suc left) =
     (if cancelled i then Inl QualityCancelled
      else bind_res (run_probes rnd cancelled probe (Suc i) left) (\<lambda>rest. Inr (map_option (float_ms rnd) (probe (Suc i)) # rest)))"

definition whole_param :: "(string \<Rightarrow> rat) \<Rightarrow> jmap \<Rightarrow> string \<Rightarrow> int \<Rightarrow> (tool_error, int) res" where
  "whole_param number p k d =
     (case map_of p k of
        Some (JNum s) \<Rightarrow> if number s \<noteq> of_int (whole_part (number s)) then Inl NotInteger else Inr (whole_part (number s))
      | _ \<Rightarrow> Inr d)"

text \<open>\<open>probe timeout\<close> makes the probes of the method, or fails.\<close>

definition networkQuality ::
  "(rat \<Rightarrow> rat) \<Rightarrow> (string \<Rightarrow> rat) \<Rightarrow> (nat \<Rightarrow> bool) \<Rightarrow> (int \<Rightarrow> nat \<Rightarrow> nat option) \<Rightarrow> (int \<Rightarrow> (tool_error, nat \<Rightarrow> nat option) res) \<Rightarrow>
    jmap \<Rightarrow> (tool_error, quality_report) res" where
  "networkQuality rnd number cancelled tcp icmp p =
     (let method = (if get_string p ''method'' = [] then ''tcp'' else get_string p ''method''); target = get_string p ''target'' in
      bind_res (whole_param number p ''count'' 3) (\<lambda>probes.
        bind_res (whole_param number p ''timeout_ms'' 1000) (\<lambda>timeout.
          if probes < 1 \<or> probes > 10 \<or> timeout < 100 \<or> timeout > 5000 then Inl BadCount
          else bind_res
            (if method = ''tcp'' then
               (case validNetworkAddress (\<lambda>_. False) target False of Inl e \<Rightarrow> Inl (BadAddress e) | Inr _ \<Rightarrow> Inr (tcp timeout))
             else if method = ''icmp'' then icmp timeout
             else Inl BadMethod)
            (\<lambda>probe. bind_res (run_probes rnd cancelled probe 0 (nat probes)) (\<lambda>samples.
              let latencies = List.map_filter (\<lambda>s. s) samples; failed = failure_percent rnd (nat probes - length latencies) (nat probes) in
              Inr \<lparr>qr_samples = samples, qr_count = nat probes, qr_successful = length latencies, qr_failure_percent = failed,
                qr_packet_loss = (if method = ''icmp'' then Some failed else None), qr_stats = quality_statistics rnd latencies\<rparr>)))))"

section \<open>ICMP\<close>

record icmp_packet =
  ic_source :: string
  ic_reply :: bool
  ic_echo :: "(nat \<times> nat \<times> bytes) option"

text \<open>What a read gives: an error (the deadline above all), or a packet; a packet that cannot be parsed has no echo.\<close>

datatype icmp_read = ReadFailed | Packet icmp_packet

text \<open>The loop of a probe over what arrives; the list ends with the deadline. The result is the number of packets read.\<close>

fun await_echo :: "string \<Rightarrow> bool \<Rightarrow> nat \<Rightarrow> nat \<Rightarrow> bytes \<Rightarrow> icmp_read list \<Rightarrow> nat option" where
  "await_echo ip datagram ident seq payload [] = None"
| "await_echo ip datagram ident seq payload (ReadFailed # rs) = None"
| "await_echo ip datagram ident seq payload (Packet k # rs) =
     (if ic_source k = ip \<and> ic_reply k \<and>
         (case ic_echo k of Some (i, s, b) \<Rightarrow> (datagram \<or> i = ident) \<and> s = seq \<and> b = payload | None \<Rightarrow> False)
      then Some 1
      else map_option Suc (await_echo ip datagram ident seq payload rs))"

record icmp_world =
  iw_lookup :: "string \<Rightarrow> string list option"
  iw_is4 :: "string \<Rightarrow> bool"
  iw_opens :: "string \<Rightarrow> bool"
  iw_random :: "bytes option"
  iw_deadline_ok :: "nat \<Rightarrow> bool"
  iw_written :: "nat \<Rightarrow> bool"
  iw_reads :: "nat \<Rightarrow> icmp_read list"
  iw_elapsed :: "nat \<Rightarrow> nat"

text \<open>The first socket that opens: a raw one, or a ping socket.\<close>

definition icmp_socket :: "icmp_world \<Rightarrow> string \<Rightarrow> (tool_error, bool) res" where
  "icmp_socket iw ip =
     (if iw_opens iw (if iw_is4 iw ip then ''ip4:icmp'' else ''ip6:ipv6-icmp'') then Inr False
      else if iw_opens iw (if iw_is4 iw ip then ''udp4'' else ''udp6'') then Inr True
      else Inl IcmpUnsupported)"

definition be16 :: "bytes \<Rightarrow> nat" where
  "be16 b = unat (b ! 0) * 256 + unat (b ! 1)"

definition icmpProbeWith :: "icmp_world \<Rightarrow> string \<Rightarrow> (tool_error, nat \<Rightarrow> nat option) res" where
  "icmpProbeWith iw target =
     (case iw_lookup iw target of
        None \<Rightarrow> Inl NoResolve
      | Some [] \<Rightarrow> Inl NoResolve
      | Some (ip # _) \<Rightarrow>
          bind_res (icmp_socket iw ip) (\<lambda>datagram.
            case iw_random iw of
              None \<Rightarrow> Inl NoRandom
            | Some random \<Rightarrow>
                Inr (\<lambda>seq.
                  if \<not> iw_deadline_ok iw seq \<or> \<not> iw_written iw seq then None
                  else case await_echo ip datagram (be16 random) seq (drop 2 random) (iw_reads iw seq) of
                    None \<Rightarrow> None
                  | Some _ \<Rightarrow> Some (iw_elapsed iw seq))))"

section \<open>Restoration of the web server's configuration\<close>

lemma tool_fault_same: "tool_fault d = (f, d1) \<Longrightarrow> tf_text d1 = tf_text d \<and> tf_unreadable d1 = tf_unreadable d"
  by (auto simp: tool_fault_def split: list.splits)

lemma tool_fault_none: "tf_faults d = [] \<Longrightarrow> tool_fault d = (False, d)"
  by (simp add: tool_fault_def)

lemma write_tool_spec:
  "write_tool path t d = (r, d1) \<Longrightarrow> tf_text d1 = (if r then (tf_text d)(path \<mapsto> t) else tf_text d) \<and> (tf_faults d = [] \<longrightarrow> r \<and> tf_faults d1 = [])"
  using tool_fault_same [of d] by (cases "tool_fault d") (auto simp: write_tool_def tool_fault_def split: if_splits list.splits)

lemma restore_site_spec:
  assumes "d' = restore_site path old d"
  shows "\<forall>q. q \<noteq> path \<longrightarrow> tf_text d' q = tf_text d q"
    and "tf_faults d = [] \<Longrightarrow> tf_text d' path = (if old = Some [] then None else old)"
proof -
  obtain f d1 where f: "tool_fault d = (f, d1)" by fastforce
  note same = tool_fault_same [OF f]
  show "\<forall>q. q \<noteq> path \<longrightarrow> tf_text d' q = tf_text d q"
    using assms f same by (auto simp: restore_site_def write_tool_def remove_tool_def split: option.splits list.splits)
  show "tf_text d' path = (if old = Some [] then None else old)" if "tf_faults d = []"
    using assms f that by (auto simp: restore_site_def write_tool_def remove_tool_def tool_fault_none split: option.splits list.splits)
qed

text \<open>A web server configuration is in place only if the server tested it and took it. When it does not, every other file is
  as before, and the old configuration is back if the disk still works: its text, or no file where there was none or an
  empty one.\<close>

theorem site_is_tested_or_restored:
  assumes "applySite path tests reloads p d = (r, d')"
  shows "(\<forall>content. r = Inr content \<longrightarrow> map_of p ''config'' = Some (JStr content) \<and> tests content \<and> reloads content \<and>
      tf_text d' = (tf_text d)(path \<mapsto> content)) \<and>
    (\<not> is_ok r \<longrightarrow> (\<forall>q. q \<noteq> path \<longrightarrow> tf_text d' q = tf_text d q)) \<and>
    (\<not> is_ok r \<and> tf_faults d = [] \<longrightarrow> tf_text d' path = tf_text d path \<or> tf_text d path = Some [] \<and> tf_text d' path = None)"
proof (cases "path = [] \<or> (\<nexists>content. map_of p ''config'' = Some (JStr content) \<and> length content \<le> 1048576) \<or> tf_unreadable d path")
  case True
  then have "\<not> is_ok r \<and> d' = d"
    using assms by (auto simp: applySite_def split: option.splits json.splits if_splits)
  then show ?thesis by auto
next
  case False
  then obtain content where c: "map_of p ''config'' = Some (JStr content)" "length content \<le> 1048576" by auto
  obtain ok d1 where w: "write_tool path content d = (ok, d1)" by fastforce
  note ws = write_tool_spec [OF w]
  define d2 where "d2 = restore_site path (tf_text d path) d1"
  note rs = restore_site_spec [OF d2_def]
  have run: "applySite path tests reloads p d =
      (if \<not> ok then (Inl ToolWrite, d1) else if \<not> tests content then (Inl SiteTest, d2)
       else if \<not> reloads content then (Inl SiteReload, d2) else (Inr content, d1))"
    using False c w by (simp add: applySite_def d2_def Let_def)
  show ?thesis
  proof (cases "ok \<and> tests content \<and> reloads content")
    case True
    then show ?thesis using assms run c ws by auto
  next
    case False
    then have r: "\<not> is_ok r" "d' = (if ok then d2 else d1)" using assms run by (auto split: if_splits)
    have others: "\<forall>q. q \<noteq> path \<longrightarrow> tf_text d' q = tf_text d q" using r ws rs(1) by auto
    have "tf_text d' path = tf_text d path \<or> tf_text d path = Some [] \<and> tf_text d' path = None" if "tf_faults d = []"
      using r ws rs(2) that by auto
    then show ?thesis using r others by (cases r) auto
  qed
qed

section \<open>Statistics\<close>

text \<open>Rounding keeps the order, as every IEEE rounding does.\<close>

lemma float_ms_mono: "mono rnd \<Longrightarrow> mono (float_ms rnd)"
  by (intro monoI) (simp add: float_ms_def monoD divide_right_mono)

lemma sort_map_mono: "mono f \<Longrightarrow> sort (map f xs) = map f (sort xs)" for f :: "'a :: linorder \<Rightarrow> 'b :: linorder"
proof (rule properties_for_sort)
  assume "mono f"
  then show "sorted (map f (sort xs))" by (simp add: sorted_map sorted_wrt_mono_rel [OF _ sorted_sort] monoD)
qed simp

lemma sort_ends: "us \<noteq> [] \<Longrightarrow> sort us ! 0 = Min (set us) \<and> sort us ! (length us - 1) = Max (set us)"
proof -
  assume some: "us \<noteq> []"
  have mem: "sort us ! i \<in> set us" if "i < length us" for i using nth_mem [of i "sort us"] that by simp
  have idx: "\<exists>i. i < length us \<and> x = sort us ! i" if "x \<in> set us" for x using that by (metis in_set_conv_nth length_sort set_sort)
  have order: "sort us ! i \<le> sort us ! j" if "i \<le> j" "j < length us" for i j by (rule sorted_nth_mono) (use that in simp_all)
  have "Min (set us) = sort us ! 0"
    by (rule Min_eqI) (use some mem [of 0] idx order in \<open>fastforce+\<close>)
  moreover have "Max (set us) = sort us ! (length us - 1)"
  proof (rule Max_eqI)
    fix x
    assume "x \<in> set us"
    then obtain i where "i < length us" "x = sort us ! i" using idx by blast
    then show "x \<le> sort us ! (length us - 1)" using order [of i "length us - 1"] by simp
  qed (use some mem [of "length us - 1"] in simp_all)
  ultimately show ?thesis by simp
qed

text \<open>The figures of a measurement are those of the samples: the successful probes are counted, and the minimum, the median and
  the maximum are the smallest, the middle and the largest of the measured times, although the code sorts rounded
  values; they stand in this order.\<close>

theorem quality_figures_are_samples:
  assumes "mono rnd" "latencies = map (float_ms rnd) us" "quality_statistics rnd latencies = Some st"
  shows "us \<noteq> [] \<and> qs_minimum st = float_ms rnd (Min (set us)) \<and> qs_maximum st = float_ms rnd (Max (set us)) \<and>
    qs_median st = float_ms rnd (sort us ! (length us div 2)) \<and> qs_minimum st \<le> qs_median st \<and> qs_median st \<le> qs_maximum st"
proof -
  have f: "mono (float_ms rnd)" by (rule float_ms_mono [OF assms(1)])
  have some: "us \<noteq> []" using assms(2,3) by (auto simp: quality_statistics_def split: prod.splits)
  let ?k = "length us"
  have sorted: "sort latencies = map (float_ms rnd) (sort us)" unfolding assms(2) by (rule sort_map_mono [OF f])
  have st: "qs_minimum st = float_ms rnd (sort us ! 0)" "qs_maximum st = float_ms rnd (sort us ! (?k - 1))"
    "qs_median st = float_ms rnd (sort us ! (?k div 2))"
    using assms(2,3) some sorted by (auto simp: quality_statistics_def Let_def split: prod.splits if_splits)
  have order: "i \<le> j \<Longrightarrow> j < ?k \<Longrightarrow> sort us ! i \<le> sort us ! j" for i j by (rule sorted_nth_mono) simp_all
  have "sort us ! 0 = Min (set us)" "sort us ! (?k - 1) = Max (set us)"
    using sort_ends [OF some] by simp_all
  moreover have "?k div 2 \<le> ?k - 1" using some by (cases us) auto
  then have "sort us ! 0 \<le> sort us ! (?k div 2)" "sort us ! (?k div 2) \<le> sort us ! (?k - 1)"
    using order some by (auto simp: le_less_trans)
  ultimately show ?thesis using st some monoD [OF f] by simp
qed

section \<open>Replies and certificates\<close>

text \<open>The packet a probe takes as its reply.\<close>

definition own_reply :: "string \<Rightarrow> bool \<Rightarrow> nat \<Rightarrow> nat \<Rightarrow> bytes \<Rightarrow> icmp_packet \<Rightarrow> bool" where
  "own_reply ip datagram ident seq payload k \<longleftrightarrow> ic_source k = ip \<and> ic_reply k \<and>
     (\<exists>i. ic_echo k = Some (i, seq, payload) \<and> (datagram \<or> i = ident))"

lemma await_echo_spec:
  "await_echo ip datagram ident seq payload rs = Some n \<longleftrightarrow>
    (\<exists>before k after. rs = map Packet before @ Packet k # after \<and> n = Suc (length before) \<and>
       own_reply ip datagram ident seq payload k \<and> list_all (\<lambda>j. \<not> own_reply ip datagram ident seq payload j) before)"
proof (induction rs arbitrary: n)
  case (Cons r rs)
  show ?case
  proof (cases r)
    case ReadFailed
    have "\<not> (\<exists>before k after. ReadFailed # rs = map Packet before @ Packet k # after)" by (auto simp: Cons_eq_append_conv)
    then show ?thesis using ReadFailed by auto
  next
    case (Packet k)
    have own: "own_reply ip datagram ident seq payload k \<longleftrightarrow> ic_source k = ip \<and> ic_reply k \<and>
         (case ic_echo k of Some (i, s, b) \<Rightarrow> (datagram \<or> i = ident) \<and> s = seq \<and> b = payload | None \<Rightarrow> False)"
      by (auto simp: own_reply_def split: option.splits)
    show ?thesis
    proof (cases "own_reply ip datagram ident seq payload k")
      case True
      then show ?thesis using Packet own
        by (auto simp: Cons_eq_append_conv intro!: exI [of _ "[]"])
    next
      case False
      then have step: "await_echo ip datagram ident seq payload (r # rs) = map_option Suc (await_echo ip datagram ident seq payload rs)"
        unfolding Packet await_echo.simps own by (simp only: if_False)
      show ?thesis
      proof
        assume "await_echo ip datagram ident seq payload (r # rs) = Some n"
        then obtain m where m: "n = Suc m" "await_echo ip datagram ident seq payload rs = Some m" unfolding step by auto
        then obtain before j after where b: "rs = map Packet before @ Packet j # after" "m = Suc (length before)"
          "own_reply ip datagram ident seq payload j" "list_all (\<lambda>j. \<not> own_reply ip datagram ident seq payload j) before"
          using Cons.IH by blast
        then show "\<exists>before k after. r # rs = map Packet before @ Packet k # after \<and> n = Suc (length before) \<and>
            own_reply ip datagram ident seq payload k \<and> list_all (\<lambda>j. \<not> own_reply ip datagram ident seq payload j) before"
          using m(1) Packet False by (intro exI [of _ "k # before"] exI [of _ j] exI [of _ after]) simp
      next
        assume "\<exists>before k after. r # rs = map Packet before @ Packet k # after \<and> n = Suc (length before) \<and>
            own_reply ip datagram ident seq payload k \<and> list_all (\<lambda>j. \<not> own_reply ip datagram ident seq payload j) before"
        then obtain before j after where b: "r # rs = map Packet before @ Packet j # after" "n = Suc (length before)"
          "own_reply ip datagram ident seq payload j" "list_all (\<lambda>j. \<not> own_reply ip datagram ident seq payload j) before" by blast
        then obtain before' where "before = k # before'" using False Packet by (cases before) auto
        then show "await_echo ip datagram ident seq payload (r # rs) = Some n" unfolding step using b Cons.IH [of "length before"] by auto
      qed
    qed
  qed
qed simp

text \<open>A probe that succeeds read a reply of the target with its own sequence number and random payload, and on a raw socket its own
  identifier; packets of others are passed over.\<close>

theorem icmp_takes_only_its_reply:
  assumes "icmpProbeWith iw target = Inr probe" "probe seq = Some us"
  shows "\<exists>ip ips random datagram before k after. iw_lookup iw target = Some (ip # ips) \<and> iw_random iw = Some random \<and>
    icmp_socket iw ip = Inr datagram \<and> iw_reads iw seq = map Packet before @ Packet k # after \<and>
    own_reply ip datagram (be16 random) seq (drop 2 random) k \<and> us = iw_elapsed iw seq"
proof -
  obtain ip ips where l: "iw_lookup iw target = Some (ip # ips)"
    using assms(1) by (auto simp: icmpProbeWith_def split: option.splits list.splits)
  obtain datagram where s: "icmp_socket iw ip = Inr datagram"
    using assms(1) l by (auto simp: icmpProbeWith_def bind_res_def split: sum.splits)
  obtain random where r: "iw_random iw = Some random"
    using assms(1) l s by (auto simp: icmpProbeWith_def bind_res_def split: option.splits)
  have "probe = (\<lambda>seq. if \<not> iw_deadline_ok iw seq \<or> \<not> iw_written iw seq then None
      else case await_echo ip datagram (be16 random) seq (drop 2 random) (iw_reads iw seq) of None \<Rightarrow> None | Some _ \<Rightarrow> Some (iw_elapsed iw seq))"
    using assms(1) l s r by (simp add: icmpProbeWith_def bind_res_def)
  then obtain n where "await_echo ip datagram (be16 random) seq (drop 2 random) (iw_reads iw seq) = Some n" "us = iw_elapsed iw seq"
    using assms(2) by (auto split: if_splits option.splits)
  moreover obtain before k after where "iw_reads iw seq = map Packet before @ Packet k # after"
      "own_reply ip datagram (be16 random) seq (drop 2 random) k"
    using calculation(1) unfolding await_echo_spec by blast
  ultimately show ?thesis using l s r by blast
qed

text \<open>A deployed certificate was valid and matched its key; its two files are written, and no other file changes.\<close>

lemma deployed_certificate:
  assumes "deployCertificate ct dataDir now later p d = (Inr report, d')"
  shows "\<exists>leaf notBefore notAfter. ct_pair ct (get_string p ''certificate'') (get_string p ''private_key'') = Some leaf \<and>
    ct_period ct leaf = Some (notBefore, notAfter) \<and> now \<le> notAfter \<and> notBefore \<le> later \<and> safeName (get_string p ''name'') \<and>
    cr_fingerprint report = hex_encode (ct_sha256 ct leaf) \<and>
    tf_text d' = (tf_text d)(cr_certificate report \<mapsto> get_string p ''certificate'', cr_private_key report \<mapsto> get_string p ''private_key'')"
  using assms write_tool_spec
  by (fastforce simp: deployCertificate_def Let_def split: if_splits option.splits prod.splits bool.splits)

section \<open>Examples\<close>

definition sample_tool_files :: tool_files where
  "sample_tool_files = \<lparr>tf_text = (\<lambda>q. if q = ''/n'' then Some ''old'' else None), tf_unreadable = (\<lambda>_. False), tf_faults = []\<rparr>"

theorem site_is_tested_or_restored_witness:
  "tf_text (snd (applySite ''/n'' (\<lambda>_. False) (\<lambda>_. True) [(''config'', JStr ''new'')] sample_tool_files)) ''/n'' = Some ''old'' \<and>
   fst (applySite ''/n'' (\<lambda>_. False) (\<lambda>_. True) [(''config'', JStr ''new'')] sample_tool_files) = Inl SiteTest"
proof -
  obtain r d' where run: "applySite ''/n'' (\<lambda>_. False) (\<lambda>_. True) [(''config'', JStr ''new'')] sample_tool_files = (r, d')" by fastforce
  have r: "r = Inl SiteTest"
    using arg_cong [OF run, of fst] by (simp add: applySite_def write_tool_def tool_fault_def sample_tool_files_def)
  have old: "tf_faults sample_tool_files = []" "tf_text sample_tool_files ''/n'' = Some ''old''" by (simp_all add: sample_tool_files_def)
  show ?thesis using site_is_tested_or_restored [OF run] r old run by simp
qed

end
