(* ===== verification/User_Policy.thy ===== *)
theory User_Policy
  imports Go_Encoding "HOL-Library.Multiset"
begin

text \<open>
  Shared user policies (internal/runtime/policy.go): which user an e-mail belongs to, the
  sessions that are counted against a user, admission, release, rate accounting, and the
  replacement of the whole policy set while sessions are live. Go maps that are iterated over
  are association lists; the mutex makes every method one step. A terminate callback is a
  number, \<open>None\<close> when the caller passed nil. The rate limiter is third-party code: only its
  configured limit is kept, and waiting on it is a parameter.
\<close>

section \<open>State\<close>

record user_policy =
  UserID :: string
  Emails :: "string list"
  BytesPerSecond :: int
  ConnectionLimit :: int
  IPLimit :: int
  Disabled :: bool
  Direction :: string

datatype rate = RateInf | RateLimit int

record policy_state =
  pvalue :: user_policy
  limiter :: rate
  connections :: int
  ips :: "(string \<times> int) list"

record admission =
  adm_email :: string
  adm_ip :: string
  terminate :: "nat option"

record policies =
  spliceLimitedBytes :: u64
  spliceUnboundedBytes :: u64
  byUser :: "(string \<times> policy_state) list"
  byEmail :: "(string \<times> string) list"
  active :: "(u64 \<times> admission) list"
  unbounded :: "(u64 \<times> admission) list"
  sequence :: u64

datatype policy_error = UserDisabled | ConnectionLimitReached | IPLimitReached
  | DisabledDuringTransfer | WaitFailed | BadDirection | BadUserID | NegativeLimit | BadEmail
  | PoliciesRequired | NotEmbedded | DecodeFailed | BridgeUnsupported | WriteFailed | ReadFailed

definition zero_policy :: "string \<Rightarrow> user_policy" where
  "zero_policy uid = \<lparr>UserID = uid, Emails = [], BytesPerSecond = 0, ConnectionLimit = 0,
     IPLimit = 0, Disabled = False, Direction = []\<rparr>"

definition newPolicies :: policies where
  "newPolicies = \<lparr>spliceLimitedBytes = 0, spliceUnboundedBytes = 0, byUser = [], byEmail = [],
     active = [], unbounded = [], sequence = 0\<rparr>"

section \<open>Lookups\<close>

definition boundedPolicy :: "user_policy \<Rightarrow> bool" where
  "boundedPolicy v = (Disabled v \<or> BytesPerSecond v > 0 \<or> ConnectionLimit v > 0 \<or> IPLimit v > 0)"

definition resolve :: "(string \<times> string) list \<Rightarrow> string \<Rightarrow> string" where
  "resolve em email = (let uid = (case map_of em email of None \<Rightarrow> [] | Some u \<Rightarrow> u) in
     if uid = [] then email else uid)"

definition fresh_state :: "string \<Rightarrow> policy_state" where
  "fresh_state uid = \<lparr>pvalue = zero_policy uid, limiter = RateInf, connections = 0, ips = []\<rparr>"

text \<open>The Go method \<open>state\<close> creates a missing entry: it returns the state and the updated map.\<close>

definition state_of :: "policies \<Rightarrow> string \<Rightarrow> policy_state" where
  "state_of p email = (let uid = resolve (byEmail p) email in
     case map_of (byUser p) uid of None \<Rightarrow> fresh_state uid | Some s \<Rightarrow> s)"

definition put_state :: "policies \<Rightarrow> string \<Rightarrow> policy_state \<Rightarrow> policies" where
  "put_state p email s = p\<lparr>byUser := AList.update (resolve (byEmail p) email) s (byUser p)\<rparr>"

definition state :: "policies \<Rightarrow> string \<Rightarrow> policy_state \<times> policies" where
  "state p email = (state_of p email, put_state p email (state_of p email))"

definition count_of :: "(string \<times> int) list \<Rightarrow> string \<Rightarrow> int" where
  "count_of m ip = (case map_of m ip of None \<Rightarrow> 0 | Some c \<Rightarrow> c)"

section \<open>Admission and release\<close>

definition ObserveSplice :: "policies \<Rightarrow> string \<Rightarrow> bool \<Rightarrow> u64 \<Rightarrow> policies" where
  "ObserveSplice p direction limited bytes =
     (if direction \<noteq> ''download'' then p
      else if limited then p\<lparr>spliceLimitedBytes := spliceLimitedBytes p + bytes\<rparr>
      else p\<lparr>spliceUnboundedBytes := spliceUnboundedBytes p + bytes\<rparr>)"

definition BeginUnboundedSplice ::
  "policies \<Rightarrow> bool \<Rightarrow> string \<Rightarrow> nat option \<Rightarrow> u64 option \<times> policies" where
  "BeginUnboundedSplice p ctx_err email cb =
     (if ctx_err then (None, p)
      else case state p email of (s, p1) \<Rightarrow>
        if boundedPolicy (pvalue s) then (None, p1)
        else let uid = sequence p1 + 1 in
          (Some uid, p1\<lparr>sequence := uid,
             unbounded := AList.update uid \<lparr>adm_email = email, adm_ip = [], terminate = cb\<rparr> (unbounded p1)\<rparr>))"

definition EndUnboundedSplice :: "policies \<Rightarrow> u64 \<Rightarrow> policies" where
  "EndUnboundedSplice p uid = p\<lparr>unbounded := AList.delete uid (unbounded p)\<rparr>"

text \<open>One session more for a state, as in \<open>AdmitSession\<close> and in the recount of \<open>apply\<close>.\<close>

definition add_session :: "policy_state \<Rightarrow> string \<Rightarrow> policy_state" where
  "add_session s ip = s\<lparr>connections := connections s + 1,
     ips := AList.update ip (count_of (ips s) ip + 1) (ips s)\<rparr>"

definition drop_session :: "policy_state \<Rightarrow> string \<Rightarrow> policy_state" where
  "drop_session s ip = (let c = count_of (ips s) ip - 1 in
     s\<lparr>connections := connections s - 1,
       ips := (if c \<le> 0 then AList.delete ip (AList.update ip c (ips s))
               else AList.update ip c (ips s))\<rparr>)"

definition AdmitSession ::
  "(string \<Rightarrow> string) \<Rightarrow> policies \<Rightarrow> string \<Rightarrow> string \<Rightarrow> nat option \<Rightarrow>
     (policy_error, u64) res \<times> policies" where
  "AdmitSession canonical p email ip0 cb =
     (let ip = canonical ip0 in
      case state p email of (s, p1) \<Rightarrow>
        if Disabled (pvalue s) then (Inl UserDisabled, p1)
        else if ConnectionLimit (pvalue s) > 0 \<and> connections s \<ge> ConnectionLimit (pvalue s)
          then (Inl ConnectionLimitReached, p1)
        else if IPLimit (pvalue s) > 0 \<and> count_of (ips s) ip = 0 \<and>
            int (length (ips s)) \<ge> IPLimit (pvalue s)
          then (Inl IPLimitReached, p1)
        else let p2 = put_state p1 email (add_session s ip); uid = sequence p2 + 1 in
          (Inr uid, p2\<lparr>sequence := uid,
             active := AList.update uid \<lparr>adm_email = email, adm_ip = ip, terminate = cb\<rparr> (active p2)\<rparr>))"

definition Acquire ::
  "(string \<Rightarrow> string) \<Rightarrow> policies \<Rightarrow> string \<Rightarrow> string \<Rightarrow> (policy_error, u64) res \<times> policies" where
  "Acquire canonical p email ip = AdmitSession canonical p email ip None"

text \<open>
  The closure \<open>AdmitSession\<close> returns: it captured e-mail, address and number, and its
  \<open>sync.Once\<close> lets only the first call through.
\<close>

record handle =
  h_email :: string
  h_ip :: string
  h_id :: u64
  h_done :: bool

definition release :: "handle \<Rightarrow> policies \<Rightarrow> handle \<times> policies" where
  "release h p = (if h_done h then (h, p)
     else case state p (h_email h) of (s, p1) \<Rightarrow>
       (h\<lparr>h_done := True\<rparr>,
        put_state (p1\<lparr>active := AList.delete (h_id h) (active p1)\<rparr>) (h_email h) (drop_session s (h_ip h))))"

section \<open>Transfer accounting\<close>

definition burst :: int where
  "burst = 65536"

text \<open>
  The loop of \<open>TransferDirection\<close>. Other goroutines may change the policies between two
  rounds (\<open>other i\<close>); \<open>wait i limit n\<close> is whether the limiter granted \<open>n\<close> bytes. The
  result lists the amounts charged.
\<close>

function TransferDirection ::
  "(nat \<Rightarrow> policies \<Rightarrow> policies) \<Rightarrow> (nat \<Rightarrow> rate \<Rightarrow> int \<Rightarrow> bool) \<Rightarrow> nat \<Rightarrow> policies \<Rightarrow> string \<Rightarrow>
     int \<Rightarrow> string \<Rightarrow> (policy_error, int list) res \<times> policies" where
  "TransferDirection other wait i p email n direction =
     (if n > 0 then
        (case state (other i p) email of (s, p1) \<Rightarrow>
           if Disabled (pvalue s) then (Inl DisabledDuringTransfer, p1)
           else if Direction (pvalue s) = ''download'' \<and> direction = ''upload'' then (Inr [], p1)
           else let chunk = (if n > burst then burst else n) in
             if \<not> wait i (limiter s) chunk then (Inl WaitFailed, p1)
             else (case TransferDirection other wait (Suc i) p1 email (n - chunk) direction of
                     (r, p2) \<Rightarrow> (bind_res r (\<lambda>cs. Inr (chunk # cs)), p2)))
      else (Inr [], p))"
  by pat_completeness auto
termination
  by (relation "measure (\<lambda>(other, wait, i, p, email, n, direction). nat n)")
    (auto simp: burst_def)

declare TransferDirection.simps [simp del]

definition Transfer ::
  "(nat \<Rightarrow> policies \<Rightarrow> policies) \<Rightarrow> (nat \<Rightarrow> rate \<Rightarrow> int \<Rightarrow> bool) \<Rightarrow> policies \<Rightarrow> string \<Rightarrow> int \<Rightarrow>
     (policy_error, int list) res \<times> policies" where
  "Transfer other wait p email n = TransferDirection other wait 0 p email n ''both''"

section \<open>Replacing the policy set\<close>

fun check_emails :: "string list \<Rightarrow> string list \<Rightarrow> (policy_error, string list) res" where
  "check_emails emails [] = Inr emails"
| "check_emails emails (e # es) =
     (if e = [] \<or> e \<in> set emails then Inl BadEmail else check_emails (e # emails) es)"

fun validate_loop ::
  "string list \<Rightarrow> string list \<Rightarrow> user_policy list \<Rightarrow> (policy_error, unit) res" where
  "validate_loop emails users [] = Inr ()"
| "validate_loop emails users (v # vs) =
     (if Direction v \<noteq> [] \<and> Direction v \<noteq> ''both'' \<and> Direction v \<noteq> ''download'' then Inl BadDirection
      else if UserID v = [] \<or> UserID v \<in> set users then Inl BadUserID
      else if BytesPerSecond v < 0 \<or> ConnectionLimit v < 0 \<or> IPLimit v < 0 then Inl NegativeLimit
      else bind_res (check_emails emails (Emails v)) (\<lambda>emails'.
        validate_loop emails' (UserID v # users) vs))"

definition validatePolicies :: "user_policy list \<Rightarrow> (policy_error, unit) res" where
  "validatePolicies ps = validate_loop [] [] ps"

definition reset_state :: "user_policy list \<Rightarrow> policy_state \<Rightarrow> policy_state" where
  "reset_state ps s = (let s1 = (if UserID (pvalue s) \<in> UserID ` set ps then s
       else s\<lparr>pvalue := zero_policy (UserID (pvalue s)), limiter := RateInf\<rparr>) in
     s1\<lparr>connections := 0, ips := []\<rparr>)"

definition limit_of :: "user_policy \<Rightarrow> rate" where
  "limit_of v = (if BytesPerSecond v > 0 then RateLimit (BytesPerSecond v) else RateInf)"

definition install :: "policies \<Rightarrow> user_policy \<Rightarrow> policies" where
  "install p v =
     (let s = (case map_of (byUser p) (UserID v) of
          None \<Rightarrow> \<lparr>pvalue = zero_policy [], limiter = RateInf, connections = 0, ips = []\<rparr>
        | Some s \<Rightarrow> s) in
      p\<lparr>byUser := AList.update (UserID v) (s\<lparr>pvalue := v, limiter := limit_of v\<rparr>) (byUser p),
        byEmail := foldl (\<lambda>em e. AList.update e (UserID v) em) (byEmail p) (Emails v)\<rparr>)"

text \<open>
  The two final loops of \<open>apply\<close> carry the policies and the callbacks collected so far: every
  live session is counted again, and sessions the new policies forbid are noted.
\<close>

definition recount :: "policies \<times> nat list \<Rightarrow> admission \<Rightarrow> policies \<times> nat list" where
  "recount pt a = (case pt of (p, ts) \<Rightarrow> case state p (adm_email a) of (s, p1) \<Rightarrow>
     (put_state p1 (adm_email a) (add_session s (adm_ip a)),
      case terminate a of
        None \<Rightarrow> ts
      | Some c \<Rightarrow> if Disabled (pvalue s) then ts @ [c] else ts))"

definition recheck :: "policies \<times> nat list \<Rightarrow> admission \<Rightarrow> policies \<times> nat list" where
  "recheck pt a = (case pt of (p, ts) \<Rightarrow> case state p (adm_email a) of (s, p1) \<Rightarrow>
     (p1,
      case terminate a of
        None \<Rightarrow> ts
      | Some c \<Rightarrow> if boundedPolicy (pvalue s) then ts @ [c] else ts))"

definition apply_policies :: "policies \<Rightarrow> user_policy list \<Rightarrow> policies \<times> nat list" where
  "apply_policies p ps =
     (let p1 = p\<lparr>byUser := map (\<lambda>(uid, s). (uid, reset_state ps s)) (byUser p), byEmail := []\<rparr>;
          p2 = foldl install p1 ps;
          pt = foldl recount (p2, []) (map snd (active p)) in
      foldl recheck pt (map snd (unbounded p)))"

definition snapshot :: "policies \<Rightarrow> (string \<times> int \<times> string list \<times> user_policy) list" where
  "snapshot p = map (\<lambda>(uid, s). (uid, connections s, map fst (ips s), pvalue s)) (byUser p)"

text \<open>
  The runtime entry points. \<open>raw\<close> is what the Controller sent and \<open>decode\<close> the JSON conversion
  to a policy list; the stored file is its canonical text. \<open>written\<close> is whether the atomic
  write succeeded, \<open>bridged\<close> the e-mails of active auxiliary bridges.
\<close>

record policy_runtime =
  XrayMode :: string
  pol :: policies
  policy_file :: "string option"

definition bridge_conflict :: "(string \<Rightarrow> bool) \<Rightarrow> user_policy list \<Rightarrow> bool" where
  "bridge_conflict bridged ps = list_ex (\<lambda>v. IPLimit v > 0 \<and> list_ex bridged (Emails v)) ps"

definition applyPolicies ::
  "(string \<Rightarrow> user_policy list option) \<Rightarrow> (string \<Rightarrow> bool) \<Rightarrow> bool \<Rightarrow> policy_runtime \<Rightarrow> string option \<Rightarrow>
     (policy_error, nat) res \<times> policy_runtime \<times> nat list" where
  "applyPolicies decode bridged written r raw =
     (case raw of
        None \<Rightarrow> (Inl PoliciesRequired, r, [])
      | Some b \<Rightarrow>
          if XrayMode r \<noteq> ''embedded'' then (Inl NotEmbedded, r, [])
          else case decode b of
            None \<Rightarrow> (Inl DecodeFailed, r, [])
          | Some ps \<Rightarrow>
              (case validatePolicies ps of
                 Inl e \<Rightarrow> (Inl e, r, [])
               | Inr _ \<Rightarrow>
                   if bridge_conflict bridged ps then (Inl BridgeUnsupported, r, [])
                   else if \<not> written then (Inl WriteFailed, r, [])
                   else case apply_policies (pol r) ps of (p', ts) \<Rightarrow>
                     (Inr (length ps), r\<lparr>pol := p', policy_file := Some b\<rparr>, ts)))"

definition loadPolicies ::
  "(string \<Rightarrow> user_policy list option) \<Rightarrow> bool \<Rightarrow> policy_runtime \<Rightarrow>
     (policy_error, unit) res \<times> policy_runtime" where
  "loadPolicies decode read_error r =
     (case policy_file r of
        None \<Rightarrow> (Inr (), r)
      | Some b \<Rightarrow>
          if read_error then (Inl ReadFailed, r)
          else case decode b of
            None \<Rightarrow> (Inl DecodeFailed, r)
          | Some ps \<Rightarrow>
              (case validatePolicies ps of
                 Inl e \<Rightarrow> (Inl e, r)
               | Inr _ \<Rightarrow> (Inr (), r\<lparr>pol := fst (apply_policies (pol r) ps)\<rparr>)))"

section \<open>Sessions and their counts\<close>

text \<open>
  The state of a user whether or not the map has an entry, and the live sessions that belong
  to that user under the present e-mail table. \<open>counted s M\<close> says that a state counts exactly
  the sessions \<open>M\<close>: their number, and how many come from each address.
\<close>

definition user_state :: "policies \<Rightarrow> string \<Rightarrow> policy_state" where
  "user_state p uid = (case map_of (byUser p) uid of None \<Rightarrow> fresh_state uid | Some s \<Rightarrow> s)"

definition live :: "policies \<Rightarrow> admission multiset" where
  "live p = mset (map snd (active p))"

definition sessions_in :: "(string \<times> string) list \<Rightarrow> admission multiset \<Rightarrow> string \<Rightarrow> admission multiset" where
  "sessions_in em M uid = filter_mset (\<lambda>a. resolve em (adm_email a) = uid) M"

definition sessions :: "policies \<Rightarrow> string \<Rightarrow> admission multiset" where
  "sessions p uid = sessions_in (byEmail p) (live p) uid"

definition from_ip :: "admission multiset \<Rightarrow> string \<Rightarrow> nat" where
  "from_ip M ip = count (image_mset adm_ip M) ip"

definition counted :: "policy_state \<Rightarrow> admission multiset \<Rightarrow> bool" where
  "counted s M \<longleftrightarrow> connections s = int (size M) \<and> distinct (map fst (ips s)) \<and>
     (\<forall>ip. map_of (ips s) ip =
        (if from_ip M ip = 0 then None else Some (int (from_ip M ip))))"

lemma from_ip_simps [simp]:
  "from_ip {#} ip = 0"
  "from_ip (add_mset a M) ip = (if adm_ip a = ip then Suc (from_ip M ip) else from_ip M ip)"
  by (simp_all add: from_ip_def)

lemma from_ip_zero: "from_ip M ip = 0 \<longleftrightarrow> ip \<notin> adm_ip ` set_mset M"
  by (simp add: from_ip_def count_eq_zero_iff)

lemma counted_count:
  "counted s M \<Longrightarrow> count_of (ips s) ip = int (from_ip M ip)"
  by (auto simp: counted_def count_of_def)

lemma counted_ips:
  assumes "counted s M"
  shows "length (ips s) = card (adm_ip ` set_mset M)"
proof -
  have "set (map fst (ips s)) = {ip. map_of (ips s) ip \<noteq> None}"
    by (auto simp: map_of_eq_None_iff image_iff)
  also have "\<dots> = {ip. from_ip M ip \<noteq> 0}"
    using assms by (simp add: counted_def)
  also have "\<dots> = adm_ip ` set_mset M"
    by (simp add: from_ip_zero)
  finally have "set (map fst (ips s)) = adm_ip ` set_mset M" .
  then show ?thesis
    using assms distinct_card [of "map fst (ips s)"] by (simp add: counted_def)
qed

lemma counted_fresh: "counted (fresh_state uid) {#}"
  by (simp add: counted_def fresh_state_def)

lemma counted_add:
  assumes "counted s M"
  shows "counted (add_session s (adm_ip a)) (add_mset a M)"
  using assms counted_count [OF assms]
  by (auto simp: counted_def add_session_def update_conv' distinct_update)

lemma counted_drop:
  assumes "counted s (add_mset a M)"
  shows "counted (drop_session s (adm_ip a)) M"
  using assms counted_count [OF assms, of "adm_ip a"]
  by (auto simp: counted_def drop_session_def update_conv' delete_conv' distinct_update
      distinct_delete Let_def restrict_map_def)

lemma counted_value: "counted (s\<lparr>pvalue := v\<rparr>) M = counted s M" "counted (s\<lparr>limiter := l\<rparr>) M = counted s M"
  by (simp_all add: counted_def)

lemma state_eq:
  "state p email = (user_state p (resolve (byEmail p) email),
     put_state p email (user_state p (resolve (byEmail p) email)))"
  by (simp add: state_def state_of_def user_state_def Let_def)

lemma put_state_sel [simp]:
  "byEmail (put_state p email s) = byEmail p"
  "active (put_state p email s) = active p"
  "unbounded (put_state p email s) = unbounded p"
  "sequence (put_state p email s) = sequence p"
  "live (put_state p email s) = live p"
  "sessions (put_state p email s) = sessions p"
  by (simp_all add: put_state_def live_def sessions_def fun_eq_iff)

lemma user_state_put:
  "user_state (put_state p email s) uid =
     (if uid = resolve (byEmail p) email then s else user_state p uid)"
  by (simp add: user_state_def put_state_def update_conv')

lemma distinct_put: "distinct (map fst (byUser p)) \<Longrightarrow> distinct (map fst (byUser (put_state p email s)))"
  by (simp add: put_state_def distinct_update)

lemma user_state_put_self [simp]:
  "user_state (put_state p email (user_state p (resolve (byEmail p) email))) = user_state p"
  by (simp add: fun_eq_iff user_state_put)

section \<open>Invariant\<close>

definition ids :: "policies \<Rightarrow> u64 set" where
  "ids p = fst ` set (active p) \<union> fst ` set (unbounded p)"

definition keys_ok :: "policies \<Rightarrow> bool" where
  "keys_ok p \<longleftrightarrow> distinct (map fst (byUser p)) \<and> distinct (map fst (active p)) \<and>
     distinct (map fst (unbounded p)) \<and> (\<forall>i \<in> ids p. i \<le> sequence p)"

definition policies_inv :: "policies \<Rightarrow> bool" where
  "policies_inv p \<longleftrightarrow> keys_ok p \<and>
     (\<forall>uid. counted (user_state p uid) (sessions p uid) \<and> UserID (pvalue (user_state p uid)) = uid)"

lemma keys_ok_shrink:
  assumes "keys_ok p" and "distinct (map fst (byUser q))" and "distinct (map fst (active q))"
    and "distinct (map fst (unbounded q))" and "ids q \<subseteq> ids p" and "sequence q = sequence p"
  shows "keys_ok q"
  using assms by (auto simp: keys_ok_def)

lemma keys_ok_grow:
  assumes "keys_ok p" and "distinct (map fst (byUser q))" and "distinct (map fst (active q))"
    and "distinct (map fst (unbounded q))" and "ids q \<subseteq> insert (sequence q) (ids p)"
    and "sequence p < sequence q"
  shows "keys_ok q"
proof -
  have "i \<le> sequence q" if "i \<in> ids q" for i
  proof (cases "i = sequence q")
    case False
    with that assms(5) have "i \<in> ids p" by auto
    then have "i \<le> sequence p" using assms(1) by (simp add: keys_ok_def)
    then show ?thesis using assms(6) by simp
  qed simp
  then show ?thesis
    using assms by (simp add: keys_ok_def)
qed

lemma keys_delete: "fst ` set (AList.delete k al) = fst ` set al - {k}"
  by (induction al) auto

lemma keys_update: "fst ` set (AList.update k v al) = insert k (fst ` set al)"
  by (induction al) auto

lemma update_fresh: "k \<notin> fst ` set al \<Longrightarrow> AList.update k v al = al @ [(k, v)]"
  by (induction al) auto

lemma mset_delete:
  assumes "distinct (map fst al)" and "map_of al k = Some v"
  shows "mset (map snd al) = add_mset v (mset (map snd (AList.delete k al)))"
  using assms
proof (induction al)
  case (Cons kv al)
  show ?case
  proof (cases "fst kv = k")
    case True
    with Cons.prems have "k \<notin> set (map fst al)" and "snd kv = v" by auto
    then show ?thesis using True by (cases kv) simp
  next
    case False
    with Cons show ?thesis by (cases kv) auto
  qed
qed simp

lemma next_fresh:
  fixes i :: u64
  assumes "unat i < 2 ^ 64 - 1"
  shows "i < i + 1" and "unat (i + 1) = Suc (unat i)"
proof -
  show "unat (i + 1) = Suc (unat i)"
    using assms by (simp add: unat_word_ariths)
  then show "i < i + 1"
    by (simp add: word_less_nat_alt)
qed

lemma policies_invD:
  assumes "policies_inv p"
  shows "counted (user_state p uid) (sessions p uid)" and "UserID (pvalue (user_state p uid)) = uid"
  using assms by (simp_all add: policies_inv_def)

lemma policies_inv_state: "policies_inv p \<Longrightarrow> policies_inv (snd (state p email))"
  by (simp add: policies_inv_def keys_ok_def ids_def state_eq distinct_put)

lemma sessions_add:
  "sessions (p\<lparr>sequence := i, active := active p @ [(j, a)]\<rparr>) uid =
     (if resolve (byEmail p) (adm_email a) = uid then add_mset a (sessions p uid) else sessions p uid)"
  by (simp add: sessions_def sessions_in_def live_def)

lemma user_state_upd [simp]:
  "user_state (p\<lparr>sequence := i\<rparr>) = user_state p"
  "user_state (p\<lparr>active := ac\<rparr>) = user_state p"
  "user_state (p\<lparr>unbounded := un\<rparr>) = user_state p"
  "user_state (p\<lparr>spliceLimitedBytes := i\<rparr>) = user_state p"
  "user_state (p\<lparr>spliceUnboundedBytes := i\<rparr>) = user_state p"
  by (simp_all add: user_state_def fun_eq_iff)

lemma sessions_upd [simp]:
  "sessions (p\<lparr>sequence := i\<rparr>) = sessions p"
  "sessions (p\<lparr>unbounded := un\<rparr>) = sessions p"
  "sessions (p\<lparr>spliceLimitedBytes := i\<rparr>) = sessions p"
  "sessions (p\<lparr>spliceUnboundedBytes := i\<rparr>) = sessions p"
  by (simp_all add: sessions_def live_def fun_eq_iff)

text \<open>
  What \<open>AdmitSession\<close> does, over the state the lookup returns: exactly one of four branches.
\<close>

definition admitted :: "policies \<Rightarrow> string \<Rightarrow> string \<Rightarrow> nat option \<Rightarrow> policies" where
  "admitted p email ip cb =
     (let uid = resolve (byEmail p) email; q = put_state p email (add_session (user_state p uid) ip) in
      q\<lparr>sequence := sequence p + 1,
        active := AList.update (sequence p + 1) \<lparr>adm_email = email, adm_ip = ip, terminate = cb\<rparr> (active p)\<rparr>)"

lemma put_state_twice: "put_state (put_state p email s) email t = put_state p email t"
  by (simp add: put_state_def)

lemma AdmitSession_eq:
  "AdmitSession canonical p email ip cb =
     (let s = user_state p (resolve (byEmail p) email); v = pvalue s in
      if Disabled v then (Inl UserDisabled, put_state p email s)
      else if ConnectionLimit v > 0 \<and> connections s \<ge> ConnectionLimit v
        then (Inl ConnectionLimitReached, put_state p email s)
      else if IPLimit v > 0 \<and> count_of (ips s) (canonical ip) = 0 \<and> int (length (ips s)) \<ge> IPLimit v
        then (Inl IPLimitReached, put_state p email s)
      else (Inr (sequence p + 1), admitted p email (canonical ip) cb))"
  by (simp add: AdmitSession_def state_eq admitted_def Let_def put_state_twice)

lemma fresh_id: "policies_inv p \<Longrightarrow> unat (sequence p) < 2 ^ 64 - 1 \<Longrightarrow> sequence p + 1 \<notin> ids p"
  using next_fresh(1) [of "sequence p"] by (auto simp: policies_inv_def keys_ok_def)

lemma admitted_sel:
  assumes "policies_inv p" and "unat (sequence p) < 2 ^ 64 - 1"
  shows "active (admitted p email ip cb) =
      active p @ [(sequence p + 1, \<lparr>adm_email = email, adm_ip = ip, terminate = cb\<rparr>)]"
  using fresh_id [OF assms] by (simp add: admitted_def Let_def ids_def update_fresh)

lemma admitted_fields [simp]:
  "sequence (admitted p email ip cb) = sequence p + 1"
  "unbounded (admitted p email ip cb) = unbounded p"
  "byEmail (admitted p email ip cb) = byEmail p"
  by (simp_all add: admitted_def Let_def)

lemma admitted_sessions:
  assumes "policies_inv p" and "unat (sequence p) < 2 ^ 64 - 1"
  shows "sessions (admitted p email ip cb) uid =
    (if uid = resolve (byEmail p) email
     then add_mset \<lparr>adm_email = email, adm_ip = ip, terminate = cb\<rparr> (sessions p uid)
     else sessions p uid)"
  using admitted_sel [OF assms, of email ip cb]
  by (auto simp: sessions_def sessions_in_def live_def)

lemma admitted_user_state:
  "user_state (admitted p email ip cb) uid =
    (if uid = resolve (byEmail p) email then add_session (user_state p uid) ip else user_state p uid)"
  by (simp add: admitted_def Let_def user_state_put)

lemma add_session_pvalue [simp]: "pvalue (add_session s ip) = pvalue s"
  by (simp add: add_session_def)

lemma drop_session_pvalue [simp]: "pvalue (drop_session s ip) = pvalue s"
  by (simp add: drop_session_def Let_def)

lemma admitted_keys:
  assumes inv: "policies_inv p" and room: "unat (sequence p) < 2 ^ 64 - 1"
  shows "keys_ok (admitted p email ip cb)"
proof (rule keys_ok_grow)
  show "keys_ok p"
    using inv by (simp add: policies_inv_def)
  then show "distinct (map fst (byUser (admitted p email ip cb)))"
    by (simp add: keys_ok_def admitted_def Let_def distinct_put)
  show "distinct (map fst (active (admitted p email ip cb)))"
    using \<open>keys_ok p\<close> fresh_id [OF inv room] by (simp add: admitted_sel [OF inv room] keys_ok_def ids_def)
  show "distinct (map fst (unbounded (admitted p email ip cb)))"
    using \<open>keys_ok p\<close> by (simp add: keys_ok_def)
  show "ids (admitted p email ip cb) \<subseteq> insert (sequence (admitted p email ip cb)) (ids p)"
    by (auto simp: admitted_sel [OF inv room] ids_def)
  show "sequence p < sequence (admitted p email ip cb)"
    using next_fresh(1) [OF room] by simp
qed

lemma admitted_inv:
  assumes inv: "policies_inv p" and room: "unat (sequence p) < 2 ^ 64 - 1"
  shows "policies_inv (admitted p email ip cb)"
proof -
  let ?q = "admitted p email ip cb"
  have "counted (user_state ?q uid) (sessions ?q uid)" for uid
    using policies_invD(1) [OF inv, of uid]
      counted_add [of "user_state p uid" "sessions p uid"
        "\<lparr>adm_email = email, adm_ip = ip, terminate = cb\<rparr>"]
    by (auto simp: admitted_user_state admitted_sessions [OF inv room])
  moreover have "UserID (pvalue (user_state ?q uid)) = uid" for uid
    using policies_invD(2) [OF inv] by (simp add: admitted_user_state)
  ultimately show ?thesis
    using admitted_keys [OF inv room] by (simp add: policies_inv_def)
qed

lemma splice_inv:
  assumes inv: "policies_inv p" and room: "unat (sequence p) < 2 ^ 64 - 1"
  shows "policies_inv (p\<lparr>sequence := sequence p + 1, unbounded := AList.update (sequence p + 1) a (unbounded p)\<rparr>)"
    (is "policies_inv ?q")
proof -
  have "keys_ok p"
    using inv by (simp add: policies_inv_def)
  then have "keys_ok ?q"
  proof (rule keys_ok_grow)
    show "distinct (map fst (byUser ?q))" "distinct (map fst (active ?q))" "distinct (map fst (unbounded ?q))"
      using \<open>keys_ok p\<close> by (simp_all add: keys_ok_def distinct_update)
    show "ids ?q \<subseteq> insert (sequence ?q) (ids p)"
      by (auto simp: ids_def keys_update)
    show "sequence p < sequence ?q"
      using next_fresh(1) [OF room] by simp
  qed
  then show ?thesis
    using inv by (simp add: policies_inv_def)
qed

lemma BeginUnboundedSplice_inv:
  assumes inv: "policies_inv p" and room: "unat (sequence p) < 2 ^ 64 - 1"
  shows "policies_inv (snd (BeginUnboundedSplice p err email cb))"
  using inv room policies_inv_state [OF inv, of email]
    splice_inv [OF policies_inv_state [OF inv, of email]]
  by (simp add: BeginUnboundedSplice_def state_eq Let_def)

lemma EndUnboundedSplice_inv:
  assumes "policies_inv p"
  shows "policies_inv (EndUnboundedSplice p i)"
proof -
  let ?q = "EndUnboundedSplice p i"
  have "keys_ok p"
    using assms by (simp add: policies_inv_def)
  then have "keys_ok ?q"
  proof (rule keys_ok_shrink)
    show "distinct (map fst (byUser ?q))" "distinct (map fst (active ?q))"
      using \<open>keys_ok p\<close> by (simp_all add: keys_ok_def EndUnboundedSplice_def)
    show "distinct (map fst (unbounded ?q))"
      using \<open>keys_ok p\<close> by (simp add: keys_ok_def EndUnboundedSplice_def distinct_delete del: delete_keys)
    show "ids ?q \<subseteq> ids p" "sequence ?q = sequence p"
      by (auto simp: ids_def EndUnboundedSplice_def keys_delete)
  qed
  then show ?thesis
    using assms by (simp add: policies_inv_def EndUnboundedSplice_def)
qed

lemma ObserveSplice_inv: "policies_inv p \<Longrightarrow> policies_inv (ObserveSplice p d l b)"
  by (simp add: policies_inv_def keys_ok_def ids_def ObserveSplice_def)

lemma release_inv:
  assumes inv: "policies_inv p" and todo: "\<not> h_done h"
    and held: "map_of (active p) (h_id h) = Some \<lparr>adm_email = h_email h, adm_ip = h_ip h, terminate = cb\<rparr>"
  shows "policies_inv (snd (release h p))"
proof -
  let ?a = "\<lparr>adm_email = h_email h, adm_ip = h_ip h, terminate = cb\<rparr>"
  let ?uid = "resolve (byEmail p) (h_email h)"
  let ?q = "snd (release h p)"
  have q: "?q = put_state (p\<lparr>active := AList.delete (h_id h) (active p)\<rparr>) (h_email h)
      (drop_session (user_state p ?uid) (h_ip h))"
    using todo by (simp add: release_def state_eq put_state_def)
  have us: "user_state ?q uid = (if uid = ?uid then drop_session (user_state p uid) (h_ip h)
      else user_state p uid)" for uid
    by (simp add: q user_state_put)
  have "live p = add_mset ?a (live ?q)"
    using mset_delete [OF _ held] inv by (simp add: policies_inv_def keys_ok_def live_def q)
  then have ses: "sessions p uid = (if uid = ?uid then add_mset ?a (sessions ?q uid) else sessions ?q uid)" for uid
    by (simp add: sessions_def sessions_in_def q)
  have "counted (user_state ?q uid) (sessions ?q uid)" for uid
    using policies_invD(1) [OF inv, of uid] counted_drop [of "user_state p uid" ?a]
    by (simp add: us ses split: if_splits)
  moreover have "UserID (pvalue (user_state ?q uid)) = uid" for uid
    using policies_invD(2) [OF inv] by (simp add: us)
  moreover have "keys_ok ?q"
  proof (rule keys_ok_shrink)
    show "keys_ok p" using inv by (simp add: policies_inv_def)
    then show "distinct (map fst (byUser ?q))" "distinct (map fst (unbounded ?q))"
      unfolding q by (auto simp: keys_ok_def intro!: distinct_put)
    show "distinct (map fst (active ?q))"
      using \<open>keys_ok p\<close> by (simp add: q keys_ok_def distinct_delete del: delete_keys)
    show "ids ?q \<subseteq> ids p" "sequence ?q = sequence p"
      by (auto simp: ids_def q keys_delete)
  qed
  ultimately show ?thesis
    by (simp add: policies_inv_def)
qed

section \<open>Replacing the policies\<close>

text \<open>What a policy list says of a user and of an e-mail.\<close>

definition policy_for :: "user_policy list \<Rightarrow> string \<Rightarrow> user_policy" where
  "policy_for ps uid = (case find (\<lambda>v. UserID v = uid) (rev ps) of None \<Rightarrow> zero_policy uid | Some v \<Rightarrow> v)"

definition owner :: "user_policy list \<Rightarrow> string \<Rightarrow> string option" where
  "owner ps e = map_option UserID (find (\<lambda>v. e \<in> set (Emails v)) (rev ps))"

definition closing :: "(admission \<Rightarrow> bool) \<Rightarrow> admission list \<Rightarrow> nat list" where
  "closing P as = List.map_filter (\<lambda>a. if P a then terminate a else None) as"

lemma closing_simps [simp]:
  "closing P [] = []"
  "closing P (as @ bs) = closing P as @ closing P bs"
  "closing P [a] = (case terminate a of None \<Rightarrow> [] | Some c \<Rightarrow> if P a then [c] else [])"
  by (auto simp: closing_def map_filter_def split: option.splits)

lemma set_closing: "set (closing P as) = {c. \<exists>a \<in> set as. P a \<and> terminate a = Some c}"
  by (auto simp: closing_def map_filter_def split: if_splits) force

lemma reset_user_state:
  assumes "\<And>uid. UserID (pvalue (user_state p uid)) = uid"
  shows "user_state (p\<lparr>byUser := map (\<lambda>(uid, s). (uid, reset_state ps s)) (byUser p), byEmail := em\<rparr>) uid =
    reset_state ps (user_state p uid)"
proof -
  have "map_of (map (\<lambda>(uid, s). (uid, reset_state ps s)) (byUser p)) uid =
      map_option (reset_state ps) (map_of (byUser p) uid)"
    by (rule map_of_map_value)
  then show ?thesis
    by (auto simp: user_state_def reset_state_def fresh_state_def zero_policy_def Let_def split: option.splits)
qed

lemma install_user_state:
  "user_state (install p v) uid =
     (if uid = UserID v then (user_state p uid)\<lparr>pvalue := v, limiter := limit_of v\<rparr> else user_state p uid)"
  by (auto simp: install_def user_state_def update_conv' Let_def fresh_state_def split: option.splits)

lemma install_sel [simp]:
  "active (install p v) = active p" "unbounded (install p v) = unbounded p"
  "sequence (install p v) = sequence p"
  by (simp_all add: install_def Let_def)

lemma foldl_install_sel [simp]:
  "active (foldl install p ps) = active p" "unbounded (foldl install p ps) = unbounded p"
  "sequence (foldl install p ps) = sequence p"
  by (induction ps arbitrary: p) simp_all

lemma foldl_update_emails:
  "map_of (foldl (\<lambda>em e. AList.update e u em) em es) e = (if e \<in> set es then Some u else map_of em e)"
  by (induction es arbitrary: em) (auto simp: update_conv')

lemma foldl_install_emails:
  "map_of (byEmail (foldl install p ps)) e =
     (case owner ps e of None \<Rightarrow> map_of (byEmail p) e | Some u \<Rightarrow> Some u)"
  by (induction ps rule: rev_induct)
    (auto simp: owner_def install_def Let_def foldl_update_emails split: option.splits)

lemma foldl_install_user_state:
  "user_state (foldl install p ps) uid =
     (case find (\<lambda>v. UserID v = uid) (rev ps) of
        None \<Rightarrow> user_state p uid
      | Some v \<Rightarrow> (user_state p uid)\<lparr>pvalue := v, limiter := limit_of v\<rparr>)"
  by (induction ps rule: rev_induct) (auto simp: install_user_state split: option.splits)

lemma foldl_install_distinct:
  "distinct (map fst (byUser p)) \<Longrightarrow> distinct (map fst (byUser (foldl install p ps)))"
  by (induction ps arbitrary: p) (simp_all add: install_def Let_def distinct_update)

lemma find_rev_None: "find P (rev xs) = None \<longleftrightarrow> (\<forall>x \<in> set xs. \<not> P x)"
  by (auto simp: find_None_iff)

text \<open>After the reset and the installation every state has its policy and counts nothing.\<close>

lemma installed_user_state:
  fixes ps :: "user_policy list"
  assumes "\<And>uid. UserID (pvalue (user_state p uid)) = uid"
  defines "q \<equiv> foldl install (p\<lparr>byUser := map (\<lambda>(uid, s). (uid, reset_state ps s)) (byUser p), byEmail := []\<rparr>) ps"
  shows "user_state q uid = \<lparr>pvalue = policy_for ps uid, limiter = limit_of (policy_for ps uid),
    connections = 0, ips = []\<rparr>"
proof (cases "find (\<lambda>v. UserID v = uid) (rev ps)")
  case None
  then have "uid \<notin> UserID ` set ps"
    by (auto simp: find_rev_None)
  with None show ?thesis
    using assms(1)
    unfolding q_def foldl_install_user_state reset_user_state [OF assms(1)]
    by (simp add: reset_state_def policy_for_def Let_def limit_of_def zero_policy_def)
next
  case (Some v)
  then show ?thesis
    using assms(1)
    unfolding q_def foldl_install_user_state reset_user_state [OF assms(1)]
    by (simp add: reset_state_def policy_for_def Let_def)
qed

lemma recount_eq:
  "recount (p, ts) a =
     (put_state p (adm_email a) (add_session (user_state p (resolve (byEmail p) (adm_email a))) (adm_ip a)),
      ts @ closing (\<lambda>a. Disabled (pvalue (user_state p (resolve (byEmail p) (adm_email a))))) [a])"
  by (simp add: recount_def state_eq put_state_twice split: option.splits)

lemma recheck_eq:
  "recheck (p, ts) a =
     (put_state p (adm_email a) (user_state p (resolve (byEmail p) (adm_email a))),
      ts @ closing (\<lambda>a. boundedPolicy (pvalue (user_state p (resolve (byEmail p) (adm_email a))))) [a])"
  by (simp add: recheck_def state_eq split: option.splits)

lemma add_session_limiter [simp]: "limiter (add_session s ip) = limiter s"
  by (simp add: add_session_def)

lemma recount_run:
  assumes "\<And>uid. counted (user_state q uid) {#}"
  shows "byEmail (fst (foldl recount (q, ts) as)) = byEmail q \<and>
    active (fst (foldl recount (q, ts) as)) = active q \<and>
    unbounded (fst (foldl recount (q, ts) as)) = unbounded q \<and>
    sequence (fst (foldl recount (q, ts) as)) = sequence q \<and>
    (\<forall>uid. pvalue (user_state (fst (foldl recount (q, ts) as)) uid) = pvalue (user_state q uid) \<and>
      limiter (user_state (fst (foldl recount (q, ts) as)) uid) = limiter (user_state q uid) \<and>
      counted (user_state (fst (foldl recount (q, ts) as)) uid) (sessions_in (byEmail q) (mset as) uid)) \<and>
    (distinct (map fst (byUser q)) \<longrightarrow> distinct (map fst (byUser (fst (foldl recount (q, ts) as))))) \<and>
    snd (foldl recount (q, ts) as) =
      ts @ closing (\<lambda>a. Disabled (pvalue (user_state q (resolve (byEmail q) (adm_email a))))) as"
proof (induction as rule: rev_induct)
  case Nil
  then show ?case using assms by (simp add: sessions_in_def)
next
  case (snoc a as)
  obtain p us where f: "foldl recount (q, ts) as = (p, us)" by fastforce
  note IH = snoc [unfolded f fst_conv snd_conv]
  have "counted (user_state (fst (recount (p, us) a)) uid) (sessions_in (byEmail q) (mset (as @ [a])) uid)" for uid
  proof (cases "resolve (byEmail q) (adm_email a) = uid")
    case True
    moreover have "counted (add_session (user_state p uid) (adm_ip a)) (add_mset a (sessions_in (byEmail q) (mset as) uid))"
      using IH by (intro counted_add) simp
    ultimately show ?thesis
      using IH by (simp add: recount_eq user_state_put sessions_in_def)
  next
    case False
    then show ?thesis
      using IH by (simp add: recount_eq user_state_put sessions_in_def)
  qed
  then show ?case
    using IH by (simp add: f recount_eq user_state_put distinct_put)
qed

lemma recheck_run:
  "byEmail (fst (foldl recheck (q, ts) as)) = byEmail q \<and>
    active (fst (foldl recheck (q, ts) as)) = active q \<and>
    unbounded (fst (foldl recheck (q, ts) as)) = unbounded q \<and>
    sequence (fst (foldl recheck (q, ts) as)) = sequence q \<and>
    user_state (fst (foldl recheck (q, ts) as)) = user_state q \<and>
    (distinct (map fst (byUser q)) \<longrightarrow> distinct (map fst (byUser (fst (foldl recheck (q, ts) as))))) \<and>
    snd (foldl recheck (q, ts) as) =
      ts @ closing (\<lambda>a. boundedPolicy (pvalue (user_state q (resolve (byEmail q) (adm_email a))))) as"
proof (induction as rule: rev_induct)
  case (snoc a as)
  obtain p us where f: "foldl recheck (q, ts) as = (p, us)" by fastforce
  note IH = snoc [unfolded f fst_conv snd_conv]
  have "user_state (put_state p (adm_email a) (user_state q (resolve (byEmail q) (adm_email a)))) = user_state q"
    using user_state_put_self [of p "adm_email a"] IH by simp
  then show ?case
    using IH by (simp add: f recheck_eq distinct_put)
qed simp

definition resolve_in :: "user_policy list \<Rightarrow> string \<Rightarrow> string" where
  "resolve_in ps e = (case owner ps e of None \<Rightarrow> e | Some u \<Rightarrow> if u = [] then e else u)"

lemma apply_policies_spec:
  fixes ps :: "user_policy list"
  assumes inv: "policies_inv p"
  defines "q \<equiv> fst (apply_policies p ps)"
  shows "active q = active p \<and> unbounded q = unbounded p \<and> sequence q = sequence p \<and>
    distinct (map fst (byUser q)) \<and> (\<forall>e. resolve (byEmail q) e = resolve_in ps e) \<and>
    (\<forall>uid. pvalue (user_state q uid) = policy_for ps uid \<and>
      limiter (user_state q uid) = limit_of (policy_for ps uid) \<and>
      counted (user_state q uid) (sessions q uid)) \<and>
    snd (apply_policies p ps) =
      closing (\<lambda>a. Disabled (policy_for ps (resolve_in ps (adm_email a)))) (map snd (active p)) @
      closing (\<lambda>a. boundedPolicy (policy_for ps (resolve_in ps (adm_email a)))) (map snd (unbounded p))"
proof -
  define p1 where "p1 = p\<lparr>byUser := map (\<lambda>(uid, s). (uid, reset_state ps s)) (byUser p), byEmail := []\<rparr>"
  define p2 where "p2 = foldl install p1 ps"
  obtain p3 ts where p3: "foldl recount (p2, []) (map snd (active p)) = (p3, ts)" by fastforce
  have us2: "user_state p2 uid = \<lparr>pvalue = policy_for ps uid, limiter = limit_of (policy_for ps uid),
      connections = 0, ips = []\<rparr>" for uid
    unfolding p2_def p1_def using policies_invD(2) [OF inv] by (rule installed_user_state)
  have em: "resolve (byEmail p2) e = resolve_in ps e" for e
    by (simp add: p2_def p1_def resolve_def resolve_in_def foldl_install_emails split: option.splits)
  have d2: "distinct (map fst (byUser p2))"
    using inv unfolding p2_def p1_def
    by (intro foldl_install_distinct) (simp add: policies_inv_def keys_ok_def del: map_map)
  have sel2: "active p2 = active p" "unbounded p2 = unbounded p" "sequence p2 = sequence p"
    by (simp_all add: p2_def p1_def)
  have "counted (user_state p2 uid) {#}" for uid
    by (simp add: us2 counted_def)
  note run3 = recount_run [of p2 "[]" "map snd (active p)", OF this, unfolded p3 fst_conv snd_conv]
  note run4 = recheck_run [of p3 ts "map snd (unbounded p)"]
  have q: "q = fst (foldl recheck (p3, ts) (map snd (unbounded p)))"
    by (simp add: q_def apply_policies_def Let_def p3 flip: p1_def p2_def)
  have "sessions q uid = sessions_in (byEmail p2) (mset (map snd (active p))) uid" for uid
    using run3 run4 sel2 by (simp add: q sessions_def live_def)
  then show ?thesis
    using run3 run4 sel2 us2 em d2
    by (simp add: q apply_policies_def Let_def p3 flip: p1_def p2_def)
qed

lemma zero_policy_sel [simp]: "UserID (zero_policy u) = u"
  by (simp add: zero_policy_def)

lemma find_rev_sat: "find P (rev xs) = Some x \<Longrightarrow> x \<in> set xs \<and> P x"
  by (metis find_Some_iff nth_mem set_rev)

lemma policy_for_id: "UserID (policy_for ps uid) = uid"
  by (auto simp: policy_for_def dest: find_rev_sat split: option.splits)

lemma apply_policies_inv:
  assumes "policies_inv p"
  shows "policies_inv (fst (apply_policies p ps))"
  using assms apply_policies_spec [OF assms, of ps]
  by (simp add: policies_inv_def keys_ok_def ids_def policy_for_id)

section \<open>Validation\<close>

definition valid_policies :: "user_policy list \<Rightarrow> bool" where
  "valid_policies ps \<longleftrightarrow>
     (\<forall>v \<in> set ps. Direction v \<in> {[], ''both'', ''download''} \<and> UserID v \<noteq> [] \<and>
        0 \<le> BytesPerSecond v \<and> 0 \<le> ConnectionLimit v \<and> 0 \<le> IPLimit v) \<and>
     distinct (map UserID ps) \<and> distinct (concat (map Emails ps)) \<and> [] \<notin> set (concat (map Emails ps))"

lemma check_emails_ok:
  "check_emails emails es = Inr emails' \<longleftrightarrow>
     [] \<notin> set es \<and> distinct es \<and> set es \<inter> set emails = {} \<and> emails' = rev es @ emails"
  by (induction es arbitrary: emails) auto

lemma validate_loop_ok:
  "validate_loop emails users ps = Inr () \<longleftrightarrow>
     valid_policies ps \<and> UserID ` set ps \<inter> set users = {} \<and> set (concat (map Emails ps)) \<inter> set emails = {}"
proof (induction ps arbitrary: emails users)
  case (Cons v ps)
  show ?case
    unfolding validate_loop.simps
    by (auto simp: valid_policies_def bind_res_Inr check_emails_ok Cons.IH)
qed (simp add: valid_policies_def)

lemma validatePolicies_ok: "validatePolicies ps = Inr () \<longleftrightarrow> valid_policies ps"
  by (simp add: validatePolicies_def validate_loop_ok)

lemma policy_for_member:
  assumes "distinct (map UserID ps)" and "v \<in> set ps"
  shows "policy_for ps (UserID v) = v"
proof (cases "find (\<lambda>w. UserID w = UserID v) (rev ps)")
  case None
  with assms(2) show ?thesis by (auto simp: find_rev_None)
next
  case (Some w)
  then have "w \<in> set ps" "UserID w = UserID v" by (auto dest: find_rev_sat)
  then have "w = v" using assms by (auto simp: distinct_map dest: inj_onD)
  with Some show ?thesis by (simp add: policy_for_def)
qed

lemma distinct_concat_owner:
  assumes "distinct (concat (map f xs))" and "x \<in> set xs" "y \<in> set xs" and "e \<in> set (f x)" "e \<in> set (f y)"
  shows "x = y"
  using assms by (induction xs) auto

lemma resolve_in_member:
  assumes "valid_policies ps" and "v \<in> set ps" and "e \<in> set (Emails v)"
  shows "resolve_in ps e = UserID v"
proof (cases "find (\<lambda>w. e \<in> set (Emails w)) (rev ps)")
  case None
  with assms show ?thesis by (auto simp: find_rev_None)
next
  case (Some w)
  then have "w \<in> set ps" "e \<in> set (Emails w)" by (auto dest: find_rev_sat)
  then have "w = v"
    using assms distinct_concat_owner [of Emails ps w v e] by (simp add: valid_policies_def)
  with Some assms show ?thesis
    by (auto simp: resolve_in_def owner_def valid_policies_def)
qed

lemma resolve_in_other: "(\<And>v. v \<in> set ps \<Longrightarrow> e \<notin> set (Emails v)) \<Longrightarrow> resolve_in ps e = e"
  by (simp add: resolve_in_def owner_def find_rev_None [THEN iffD2])

section \<open>The system of policies and sessions\<close>

text \<open>
  One event is one critical section: an admission, the call of a release closure (possibly for
  the second time), the begin or end of an unbounded splice, a splice observation, one round of
  a transfer, or a new policy list from the Controller, which is applied only when it is valid.
\<close>

datatype policy_event = Admit string string "nat option" | Release nat
  | BeginSplice bool string "nat option" | EndSplice u64 | Observe string bool u64
  | Charge string | Replace "user_policy list"

record policy_system =
  pols :: policies
  handles :: "handle list"

definition admit_step :: "(string \<Rightarrow> string) \<Rightarrow> policy_system \<Rightarrow> string \<Rightarrow> string \<Rightarrow> nat option \<Rightarrow> policy_system" where
  "admit_step canonical sys email ip cb =
     (case AdmitSession canonical (pols sys) email ip cb of
        (Inl e, p) \<Rightarrow> sys\<lparr>pols := p\<rparr>
      | (Inr i, p) \<Rightarrow> sys\<lparr>pols := p, handles := handles sys @
          [\<lparr>h_email = email, h_ip = canonical ip, h_id = i, h_done = False\<rparr>]\<rparr>)"

definition release_step :: "policy_system \<Rightarrow> nat \<Rightarrow> policy_system" where
  "release_step sys k =
     (if k < length (handles sys) then
        (case release (handles sys ! k) (pols sys) of (h, p) \<Rightarrow>
           sys\<lparr>pols := p, handles := (handles sys)[k := h]\<rparr>)
      else sys)"

fun policy_step :: "(string \<Rightarrow> string) \<Rightarrow> policy_system \<Rightarrow> policy_event \<Rightarrow> policy_system" where
  "policy_step canonical sys (Admit email ip cb) = admit_step canonical sys email ip cb"
| "policy_step canonical sys (Release k) = release_step sys k"
| "policy_step canonical sys (BeginSplice err email cb) =
     sys\<lparr>pols := snd (BeginUnboundedSplice (pols sys) err email cb)\<rparr>"
| "policy_step canonical sys (EndSplice i) = sys\<lparr>pols := EndUnboundedSplice (pols sys) i\<rparr>"
| "policy_step canonical sys (Observe d l b) = sys\<lparr>pols := ObserveSplice (pols sys) d l b\<rparr>"
| "policy_step canonical sys (Charge email) = sys\<lparr>pols := snd (state (pols sys) email)\<rparr>"
| "policy_step canonical sys (Replace ps) =
     (if is_ok (validatePolicies ps) then sys\<lparr>pols := fst (apply_policies (pols sys) ps)\<rparr> else sys)"

definition policy_start :: policy_system where
  "policy_start = \<lparr>pols = newPolicies, handles = []\<rparr>"

text \<open>Every closure that was not called yet belongs to exactly one counted session.\<close>

definition held :: "policies \<Rightarrow> handle \<Rightarrow> bool" where
  "held p h \<longleftrightarrow> (\<exists>cb. map_of (active p) (h_id h) =
     Some \<lparr>adm_email = h_email h, adm_ip = h_ip h, terminate = cb\<rparr>)"

definition handles_ok :: "policy_system \<Rightarrow> bool" where
  "handles_ok sys \<longleftrightarrow> distinct (map h_id (handles sys)) \<and>
     (\<forall>h \<in> set (handles sys). h_id h \<le> sequence (pols sys) \<and> (h_done h \<or> held (pols sys) h)) \<and>
     fst ` set (active (pols sys)) \<subseteq> h_id ` {h \<in> set (handles sys). \<not> h_done h}"

definition system_inv :: "nat \<Rightarrow> policy_system \<Rightarrow> bool" where
  "system_inv n sys \<longleftrightarrow> policies_inv (pols sys) \<and> handles_ok sys \<and> unat (sequence (pols sys)) \<le> n"

lemma handles_ok_same:
  assumes "handles_ok sys" and "active p = active (pols sys)" and "sequence (pols sys) \<le> sequence p"
  shows "handles_ok (sys\<lparr>pols := p\<rparr>)"
  using assms by (fastforce simp: handles_ok_def held_def)

lemma handles_ok_grow:
  assumes "handles_ok sys" and "\<And>h. h \<in> set (handles sys) \<Longrightarrow> h_id h \<noteq> h_id g \<and> h_id h \<le> sequence p"
    and "\<And>h. held (pols sys) h \<Longrightarrow> held p h" and "held p g" "\<not> h_done g" "h_id g \<le> sequence p"
    and "fst ` set (active p) = insert (h_id g) (fst ` set (active (pols sys)))"
  shows "handles_ok (sys\<lparr>pols := p, handles := handles sys @ [g]\<rparr>)"
proof -
  have "h_id g \<notin> h_id ` set (handles sys)"
    using assms(2) by force
  moreover have "h_done h \<or> held p h" if "h \<in> set (handles sys)" for h
    using assms(1,3) that by (auto simp: handles_ok_def)
  moreover have "fst ` set (active p) \<subseteq> h_id ` {h \<in> set (handles sys @ [g]). \<not> h_done h}"
    using assms(1,5,7) unfolding handles_ok_def by auto
  ultimately show ?thesis
    using assms by (auto simp: handles_ok_def)
qed

lemma admit_step_inv:
  assumes "system_inv n sys" and "n < 2 ^ 64 - 1"
  shows "system_inv (Suc n) (admit_step canonical sys email ip cb)"
proof -
  let ?p = "pols sys" and ?i = "sequence (pols sys) + 1"
  have inv: "policies_inv ?p" and hok: "handles_ok sys" and n: "unat (sequence ?p) \<le> n"
    using assms by (simp_all add: system_inv_def)
  then have room: "unat (sequence ?p) < 2 ^ 64 - 1" using assms(2) by simp
  note fresh = next_fresh [OF room] and act = admitted_sel [OF inv room, of email "canonical ip" cb]
  have less: "h_id h \<noteq> ?i \<and> h_id h \<le> ?i" if "h \<in> set (handles sys)" for h
    using hok that fresh(1) by (fastforce simp: handles_ok_def)
  have new: "?i \<notin> fst ` set (active ?p)"
    using fresh_id [OF inv room] by (simp add: ids_def)
  have keep: "held (admitted ?p email (canonical ip) cb) h" if "held ?p h" for h
    using that new by (auto simp: held_def act map_add_def split: option.splits)
  have "held (admitted ?p email (canonical ip) cb)
      \<lparr>h_email = email, h_ip = canonical ip, h_id = ?i, h_done = False\<rparr>"
    using new map_of_eq_None_iff [of "active ?p" ?i] by (simp add: held_def act map_add_def)
  then have "handles_ok (sys\<lparr>pols := admitted ?p email (canonical ip) cb, handles := handles sys @
      [\<lparr>h_email = email, h_ip = canonical ip, h_id = ?i, h_done = False\<rparr>]\<rparr>)"
    using hok less keep by (intro handles_ok_grow) (auto simp: act)
  then have ok: "system_inv (Suc n) (sys\<lparr>pols := admitted ?p email (canonical ip) cb, handles := handles sys @
      [\<lparr>h_email = email, h_ip = canonical ip, h_id = ?i, h_done = False\<rparr>]\<rparr>)"
    using admitted_inv [OF inv room] n fresh(2) by (simp add: system_inv_def)
  have "system_inv (Suc n) (sys\<lparr>pols := snd (state ?p email)\<rparr>)"
    using policies_inv_state [OF inv, of email] handles_ok_same [OF hok] n
    by (simp add: system_inv_def state_eq)
  with ok show ?thesis
    by (simp add: admit_step_def AdmitSession_eq state_eq Let_def)
qed

lemma release_sel:
  "\<not> h_done h \<Longrightarrow> active (snd (release h p)) = AList.delete (h_id h) (active p)"
  "sequence (snd (release h p)) = sequence p"
  "fst (release h p) = h\<lparr>h_done := True\<rparr>"
  by (simp_all add: release_def state_eq put_state_def)

lemma release_done: "h_done h \<Longrightarrow> release h p = (h, p)"
  by (simp add: release_def)

lemma release_step_inv:
  assumes "system_inv n sys"
  shows "system_inv n (release_step sys k)"
proof (cases "k < length (handles sys) \<and> \<not> h_done (handles sys ! k)")
  case True
  let ?h = "handles sys ! k" and ?p = "pols sys"
  let ?q = "snd (release ?h ?p)"
  have inv: "policies_inv ?p" and hok: "handles_ok sys" using assms by (simp_all add: system_inv_def)
  have h: "?h \<in> set (handles sys)" and todo: "\<not> h_done ?h" using True by simp_all
  then have "held ?p ?h" using hok by (auto simp: handles_ok_def)
  then have q: "policies_inv ?q"
    unfolding held_def using release_inv [OF inv todo] by blast
  have step: "release_step sys k = sys\<lparr>pols := ?q, handles := (handles sys)[k := ?h\<lparr>h_done := True\<rparr>]\<rparr>"
    using True release_sel(3) [of ?h ?p] by (cases "release ?h ?p") (simp add: release_step_def)
  have other: "j = k" if "j < length (handles sys)" "h_id (handles sys ! j) = h_id ?h" for j
    using that True hok nth_eq_iff_index_eq [of "map h_id (handles sys)" j k] by (simp add: handles_ok_def)
  have "map h_id ((handles sys)[k := ?h\<lparr>h_done := True\<rparr>]) = map h_id (handles sys)"
    using True by (simp add: map_update list_update_same_conv)
  moreover have "h_id g \<le> sequence ?q \<and> (h_done g \<or> held ?q g)"
    if member: "g \<in> set ((handles sys)[k := ?h\<lparr>h_done := True\<rparr>])" for g
  proof -
    obtain j where j: "j < length (handles sys)" "g = (handles sys)[k := ?h\<lparr>h_done := True\<rparr>] ! j"
      using member [unfolded in_set_conv_nth] by auto
    then have mem: "handles sys ! j \<in> set (handles sys)" by simp
    show ?thesis
    proof (cases "j = k")
      case True
      then show ?thesis
        using j h hok release_sel(2) [of ?h ?p] by (auto simp: handles_ok_def)
    next
      case False
      then have "g = handles sys ! j" "h_id g \<noteq> h_id ?h" using j other [of j] by auto
      moreover have "held ?q g = held ?p g"
        using \<open>h_id g \<noteq> h_id ?h\<close> release_sel(1) [OF todo, of ?p]
        by (simp add: held_def delete_conv' restrict_map_def)
      ultimately show ?thesis
        using hok mem release_sel(2) [of ?h ?p] by (simp add: handles_ok_def)
    qed
  qed
  moreover have "fst ` set (active ?q) \<subseteq> h_id ` {g \<in> set ((handles sys)[k := ?h\<lparr>h_done := True\<rparr>]). \<not> h_done g}"
  proof
    fix i assume "i \<in> fst ` set (active ?q)"
    then have i: "i \<in> fst ` set (active ?p)" "i \<noteq> h_id ?h"
      using release_sel(1) [OF todo, of ?p] by (auto simp: keys_delete)
    then obtain g where g: "g \<in> set (handles sys)" "\<not> h_done g" "h_id g = i"
      using hok by (auto simp: handles_ok_def)
    then obtain j where "j < length (handles sys)" "handles sys ! j = g" by (metis in_set_conv_nth)
    then have "g \<in> set ((handles sys)[k := ?h\<lparr>h_done := True\<rparr>])"
      using i g by (metis length_list_update nth_list_update_neq nth_mem)
    with g show "i \<in> h_id ` {g \<in> set ((handles sys)[k := ?h\<lparr>h_done := True\<rparr>]). \<not> h_done g}" by blast
  qed
  ultimately have "handles_ok (release_step sys k)"
    using hok by (simp add: step handles_ok_def)
  then show ?thesis
    using q assms release_sel(2) [of ?h ?p] by (simp add: step system_inv_def)
next
  case False
  then have "release_step sys k = sys"
    by (auto simp: release_step_def release_done)
  then show ?thesis using assms by simp
qed

lemma policy_step_inv:
  assumes "system_inv n sys" and "n < 2 ^ 64 - 1"
  shows "system_inv (Suc n) (policy_step canonical sys ev)"
proof -
  have inv: "policies_inv (pols sys)" and hok: "handles_ok sys"
    and n: "unat (sequence (pols sys)) \<le> n" "unat (sequence (pols sys)) < 2 ^ 64 - 1"
    using assms by (simp_all add: system_inv_def)
  note same = handles_ok_same [OF hok]
  show ?thesis
  proof (cases ev)
    case (Admit email ip cb)
    then show ?thesis using admit_step_inv [OF assms] by simp
  next
    case (Release k)
    then show ?thesis
      using release_step_inv [OF assms(1), of k] by (simp add: system_inv_def)
  next
    case (BeginSplice err email cb)
    have "active (snd (BeginUnboundedSplice (pols sys) err email cb)) = active (pols sys)"
      and "sequence (snd (BeginUnboundedSplice (pols sys) err email cb)) = sequence (pols sys) \<or>
        sequence (snd (BeginUnboundedSplice (pols sys) err email cb)) = sequence (pols sys) + 1"
      by (simp_all add: BeginUnboundedSplice_def state_eq Let_def)
    then show ?thesis
      using BeginSplice BeginUnboundedSplice_inv [OF inv n(2)] same next_fresh [OF n(2)] n(1)
      by (auto simp: system_inv_def)
  next
    case (EndSplice i)
    then show ?thesis
      using EndUnboundedSplice_inv [OF inv] same n by (simp add: system_inv_def EndUnboundedSplice_def)
  next
    case (Observe d l b)
    then show ?thesis
      using ObserveSplice_inv [OF inv] same n by (simp add: system_inv_def ObserveSplice_def)
  next
    case (Charge email)
    then show ?thesis
      using policies_inv_state [OF inv, of email] same n by (simp add: system_inv_def state_eq)
  next
    case (Replace ps)
    then show ?thesis
      using apply_policies_inv [OF inv] apply_policies_spec [OF inv, of ps] same n inv hok
      by (simp add: system_inv_def)
  qed
qed

interpretation users: bounded_machine "policy_step canonical" system_inv "2 ^ 64 - 1"
  for canonical
  by unfold_locales (rule policy_step_inv)

lemma user_state_new [simp]: "user_state newPolicies uid = fresh_state uid"
  by (simp add: user_state_def newPolicies_def)

lemma policy_start_inv: "system_inv 0 policy_start"
proof -
  have "sessions newPolicies uid = {#}" for uid
    by (simp add: sessions_def sessions_in_def live_def newPolicies_def)
  moreover have "UserID (pvalue (fresh_state uid)) = uid" for uid
    by (simp add: fresh_state_def)
  ultimately have "policies_inv newPolicies"
    by (simp add: policies_inv_def counted_fresh) (simp add: keys_ok_def ids_def newPolicies_def)
  then show ?thesis
    by (simp add: system_inv_def policy_start_def handles_ok_def) (simp add: newPolicies_def)
qed

section \<open>Properties\<close>

abbreviation policy_run :: "(string \<Rightarrow> string) \<Rightarrow> policy_event list \<Rightarrow> policy_system" where
  "policy_run canonical es \<equiv> foldl (policy_step canonical) policy_start es"

lemma run_system_inv:
  "length es < 2 ^ 64 \<Longrightarrow> system_inv (length es) (policy_run canonical es)"
  using users.run_inv [OF policy_start_inv, of es canonical] by simp

lemma pending_handles:
  assumes "system_inv n sys"
  shows "size (live (pols sys)) = length (filter (\<lambda>h. \<not> h_done h) (handles sys))"
proof -
  let ?hs = "filter (\<lambda>h. \<not> h_done h) (handles sys)"
  have ok: "handles_ok sys" "distinct (map fst (active (pols sys)))"
    using assms by (simp_all add: system_inv_def policies_inv_def keys_ok_def)
  have "h_id h \<in> fst ` set (active (pols sys))" if "h \<in> set ?hs" for h
  proof -
    have "held (pols sys) h" using ok(1) that by (auto simp: handles_ok_def)
    then show ?thesis by (auto simp: held_def dest!: map_of_SomeD intro: rev_image_eqI)
  qed
  then have "set (map h_id ?hs) = set (map fst (active (pols sys)))"
    using ok(1) by (auto simp: handles_ok_def)
  moreover have "distinct (map h_id ?hs)"
    using ok(1) by (simp add: handles_ok_def distinct_map_filter)
  ultimately have "length (map h_id ?hs) = length (map fst (active (pols sys)))"
    using ok(2) by (metis distinct_card)
  then show ?thesis by (simp add: live_def)
qed

text \<open>C6: After any sequence of fewer than \<open>2^64\<close> admissions, releases (also repeated ones), splices,
  transfers and policy replacements, the counters of every user are exact: the connection counter
  is the number of live sessions whose e-mail belongs to the user under the present policies, the
  address table has exactly the addresses of those sessions with their multiplicities, and the
  live sessions are as many as the release closures not called yet.\<close>
theorem session_accounting:
  assumes "length es < 2 ^ 64"
  shows "let sys = policy_run canonical es; p = pols sys in
    (\<forall>uid. connections (user_state p uid) = int (size (sessions p uid)) \<and>
       (\<forall>ip. count_of (ips (user_state p uid)) ip = int (from_ip (sessions p uid) ip)) \<and>
       length (ips (user_state p uid)) = card (adm_ip ` set_mset (sessions p uid))) \<and>
    size (live p) = length (filter (\<lambda>h. \<not> h_done h) (handles sys))"
proof -
  let ?sys = "policy_run canonical es"
  have inv: "system_inv (length es) ?sys"
    using assms by (rule run_system_inv)
  then have c: "counted (user_state (pols ?sys) uid) (sessions (pols ?sys) uid)" for uid
    by (simp add: system_inv_def policies_inv_def)
  then show ?thesis
    using counted_count [OF c] counted_ips [OF c] pending_handles [OF inv]
    by (simp add: Let_def counted_def)
qed

theorem session_accounting_witness:
  "let sys = policy_run (\<lambda>ip. ip) [Admit ''a'' ''1'' None, Admit ''a'' ''2'' None,
       Replace [(zero_policy ''u'')\<lparr>Emails := [''a''], ConnectionLimit := 5\<rparr>], Release 0, Release 0];
     p = pols sys in
   connections (user_state p ''u'') = int (size (sessions p ''u'')) \<and> connections (user_state p ''u'') = 1"
proof -
  have "connections (user_state (pols (policy_run (\<lambda>ip. ip) [Admit ''a'' ''1'' None, Admit ''a'' ''2'' None,
       Replace [(zero_policy ''u'')\<lparr>Emails := [''a''], ConnectionLimit := 5\<rparr>], Release 0, Release 0])) ''u'') = 1"
    by code_simp
  then show ?thesis
    using session_accounting [of "[Admit ''a'' ''1'' None, Admit ''a'' ''2'' None,
       Replace [(zero_policy ''u'')\<lparr>Emails := [''a''], ConnectionLimit := 5\<rparr>], Release 0, Release 0]" "\<lambda>ip. ip"]
    unfolding Let_def by simp
qed

text \<open>The decision of \<open>AdmitSession\<close> in terms of the live sessions.\<close>

definition admission_spec :: "policies \<Rightarrow> string \<Rightarrow> string \<Rightarrow> policy_error option" where
  "admission_spec p email ip =
     (let uid = resolve (byEmail p) email; v = pvalue (user_state p uid); M = sessions p uid in
      if Disabled v then Some UserDisabled
      else if ConnectionLimit v > 0 \<and> int (size M) \<ge> ConnectionLimit v then Some ConnectionLimitReached
      else if IPLimit v > 0 \<and> ip \<notin> adm_ip ` set_mset M \<and> int (card (adm_ip ` set_mset M)) \<ge> IPLimit v
        then Some IPLimitReached
      else None)"

lemma AdmitSession_spec:
  assumes "policies_inv p"
  shows "AdmitSession canonical p email ip cb =
    (case admission_spec p email (canonical ip) of
       Some e \<Rightarrow> (Inl e, snd (state p email))
     | None \<Rightarrow> (Inr (sequence p + 1), admitted p email (canonical ip) cb))"
  using policies_invD(1) [OF assms, of "resolve (byEmail p) email"]
  by (simp add: AdmitSession_eq admission_spec_def Let_def counted_count counted_ips from_ip_zero
      state_eq counted_def [THEN iffD1, THEN conjunct1])

text \<open>\<open>AdmitSession\<close> decides over the live sessions of the user. It refuses exactly when the user is
  disabled, has as many live sessions as the connection limit, or comes from a new address while
  the addresses in use reach the address limit; a refusal changes no session. An admission adds
  one session to that user only, and afterwards the connection limit holds and a new address has
  not pushed the addresses above their limit.\<close>
theorem admission_enforces_limits:
  assumes "length es < 2 ^ 64 - 1"
  shows "let p = pols (policy_run canonical es); uid = resolve (byEmail p) email;
      v = pvalue (user_state p uid) in
    case AdmitSession canonical p email ip cb of
      (Inl e, q) \<Rightarrow> admission_spec p email (canonical ip) = Some e \<and> sessions q = sessions p
    | (Inr i, q) \<Rightarrow> admission_spec p email (canonical ip) = None \<and>
        sessions q = (sessions p)(uid := add_mset \<lparr>adm_email = email, adm_ip = canonical ip, terminate = cb\<rparr>
          (sessions p uid)) \<and>
        (ConnectionLimit v > 0 \<longrightarrow> int (size (sessions q uid)) \<le> ConnectionLimit v) \<and>
        (IPLimit v > 0 \<and> canonical ip \<notin> adm_ip ` set_mset (sessions p uid) \<longrightarrow>
           int (card (adm_ip ` set_mset (sessions q uid))) \<le> IPLimit v)"
proof -
  define p where "p = pols (policy_run canonical es)"
  have "system_inv (length es) (policy_run canonical es)"
    using assms by (intro run_system_inv) simp
  then have inv: "policies_inv p" and room: "unat (sequence p) < 2 ^ 64 - 1"
    using assms by (simp_all add: system_inv_def p_def)
  have ses: "sessions (admitted p email (canonical ip) cb) =
      (sessions p)(resolve (byEmail p) email := add_mset \<lparr>adm_email = email, adm_ip = canonical ip, terminate = cb\<rparr>
        (sessions p (resolve (byEmail p) email)))"
    by (auto simp: fun_eq_iff admitted_sessions [OF inv room])
  show ?thesis
    unfolding p_def [symmetric] Let_def AdmitSession_spec [OF inv]
    by (auto simp: ses admission_spec_def Let_def state_eq card_insert_if split: option.splits if_splits)
qed

theorem admission_enforces_limits_witness:
  "let p = pols (policy_run (\<lambda>ip. ip) [Replace [(zero_policy ''u'')\<lparr>Emails := [''a''], ConnectionLimit := 1\<rparr>],
       Admit ''a'' ''1'' None]) in
   fst (AdmitSession (\<lambda>ip. ip) p ''a'' ''2'' None) = Inl ConnectionLimitReached \<and>
   admission_spec p ''a'' ''2'' = Some ConnectionLimitReached"
proof -
  define es where "es = [Replace [(zero_policy ''u'')\<lparr>Emails := [''a''], ConnectionLimit := 1\<rparr>],
       Admit ''a'' ''1'' None]"
  have "fst (AdmitSession (\<lambda>ip. ip) (pols (policy_run (\<lambda>ip. ip) es)) ''a'' ''2'' None) = Inl ConnectionLimitReached"
    unfolding es_def by code_simp
  then show ?thesis
    using admission_enforces_limits [of es "\<lambda>ip. ip" "''a''" "''2''" None]
    unfolding es_def [symmetric] Let_def by (auto simp: es_def split: prod.splits sum.splits)
qed

definition within_limits :: "policies \<Rightarrow> bool" where
  "within_limits p \<longleftrightarrow> (\<forall>uid. let v = pvalue (user_state p uid); M = sessions p uid in
     (ConnectionLimit v > 0 \<longrightarrow> int (size M) \<le> ConnectionLimit v) \<and>
     (IPLimit v > 0 \<longrightarrow> int (card (adm_ip ` set_mset M)) \<le> IPLimit v))"

lemma within_shrink:
  assumes "within_limits p" and "\<And>uid. sessions q uid \<subseteq># sessions p uid"
    and "\<And>uid. pvalue (user_state q uid) = pvalue (user_state p uid)"
  shows "within_limits q"
proof -
  have "size (sessions q uid) \<le> size (sessions p uid)" for uid
    using assms(2) by (rule size_mset_mono)
  moreover have "card (adm_ip ` set_mset (sessions q uid)) \<le> card (adm_ip ` set_mset (sessions p uid))" for uid
    using assms(2) by (intro card_mono image_mono set_mset_mono) auto
  ultimately show ?thesis
    using assms(1) unfolding within_limits_def Let_def assms(3)
    by (meson of_nat_le_iff order_trans)
qed

lemma within_admitted:
  assumes inv: "policies_inv p" and room: "unat (sequence p) < 2 ^ 64 - 1"
    and "within_limits p" and "admission_spec p email ip = None"
  shows "within_limits (admitted p email ip cb)"
proof -
  have "(ConnectionLimit v > 0 \<longrightarrow> int (size M) \<le> ConnectionLimit v) \<and>
      (IPLimit v > 0 \<longrightarrow> int (card (adm_ip ` set_mset M)) \<le> IPLimit v)"
    if "v = pvalue (user_state (admitted p email ip cb) uid)" "M = sessions (admitted p email ip cb) uid"
    for uid v M
  proof (cases "uid = resolve (byEmail p) email")
    case True
    then show ?thesis
      using that assms(3) [unfolded within_limits_def Let_def, rule_format, of uid] assms(4)
      by (auto simp: admitted_user_state admitted_sessions [OF inv room] admission_spec_def Let_def
          card_insert_if split: if_splits)
  next
    case False
    then show ?thesis
      using that assms(3) [unfolded within_limits_def Let_def, rule_format, of uid]
      by (simp add: admitted_user_state admitted_sessions [OF inv room])
  qed
  then show ?thesis by (simp add: within_limits_def Let_def)
qed

lemma sessions_release: "sessions (snd (release h p)) uid \<subseteq># sessions p uid"
proof -
  have "mset (map snd (AList.delete k al)) \<subseteq># mset (map snd al)" for k and al :: "(u64 \<times> admission) list"
    by (induction al) (auto intro: subset_mset.order_trans)
  then show ?thesis
    by (simp add: release_def state_eq sessions_def sessions_in_def live_def multiset_filter_mono put_state_def)
qed

lemma pvalue_release: "pvalue (user_state (snd (release h p)) uid) = pvalue (user_state p uid)"
  by (simp add: release_def state_eq user_state_put)

lemma policy_step_within:
  assumes "system_inv n sys" and "n < 2 ^ 64 - 1" and within: "within_limits (pols sys)"
    and "\<And>ps. ev \<noteq> Replace ps"
  shows "within_limits (pols (policy_step canonical sys ev))"
proof -
  have inv: "policies_inv (pols sys)" and room: "unat (sequence (pols sys)) < 2 ^ 64 - 1"
    using assms by (simp_all add: system_inv_def)
  note shrink = within_shrink [OF within]
  show ?thesis
  proof (cases ev)
    case (Admit email ip cb)
    have "within_limits (snd (state (pols sys) email))"
      by (rule shrink) (simp_all add: state_eq)
    then show ?thesis
      using Admit within_admitted [OF inv room within]
      by (simp add: admit_step_def AdmitSession_spec [OF inv] split: option.splits)
  next
    case (Release k)
    have "within_limits (snd (release (handles sys ! k) (pols sys)))"
      by (rule shrink) (simp_all add: sessions_release pvalue_release)
    then show ?thesis
      using Release within by (cases "release (handles sys ! k) (pols sys)") (simp add: release_step_def)
  next
    case (BeginSplice err email cb)
    have "within_limits (snd (BeginUnboundedSplice (pols sys) err email cb))"
      by (rule shrink) (simp_all add: BeginUnboundedSplice_def state_eq Let_def)
    then show ?thesis using BeginSplice by simp
  next
    case (EndSplice i)
    have "within_limits (EndUnboundedSplice (pols sys) i)"
      by (rule shrink) (simp_all add: EndUnboundedSplice_def)
    then show ?thesis using EndSplice by simp
  next
    case (Observe d l b)
    have "within_limits (ObserveSplice (pols sys) d l b)"
      by (rule shrink) (simp_all add: ObserveSplice_def)
    then show ?thesis using Observe by simp
  next
    case (Charge email)
    have "within_limits (snd (state (pols sys) email))"
      by (rule shrink) (simp_all add: state_eq)
    then show ?thesis using Charge by simp
  next
    case (Replace ps)
    then show ?thesis using assms(4) by simp
  qed
qed

lemma run_within:
  assumes "system_inv n sys" and "within_limits (pols sys)" and "n + length es < 2 ^ 64"
    and "\<And>ps. Replace ps \<notin> set es"
  shows "within_limits (pols (foldl (policy_step canonical) sys es))"
  using assms
proof (induction es arbitrary: n sys)
  case (Cons ev es)
  have "system_inv (Suc n) (policy_step canonical sys ev)"
    using Cons.prems by (intro policy_step_inv) simp_all
  moreover have "within_limits (pols (policy_step canonical sys ev))"
    using Cons.prems by (intro policy_step_within [of n]) auto
  ultimately show ?case
    using Cons.prems Cons.IH [of "Suc n" "policy_step canonical sys ev"] by auto
qed simp

text \<open>C7: Once a policy list is in force before the first session, no sequence of admissions, releases,
  splices and transfers brings a user over the connection limit or over the limit of
  simultaneous addresses.\<close>
theorem limits_never_exceeded:
  assumes "\<And>ps'. Replace ps' \<notin> set es" and "length es < 2 ^ 64 - 1"
  shows "within_limits (pols (policy_run canonical (Replace ps # es)))"
proof -
  let ?s = "policy_step canonical policy_start (Replace ps)"
  have one: "system_inv 1 ?s"
    using policy_step_inv [OF policy_start_inv, of canonical "Replace ps"]
    by (simp del: policy_step.simps)
  have "active (pols ?s) = []"
    using apply_policies_spec [of newPolicies ps] policy_start_inv
    by (simp add: policy_start_def system_inv_def) (simp add: newPolicies_def)
  then have "sessions (pols ?s) uid = {#}" for uid
    by (simp add: sessions_def sessions_in_def live_def del: policy_step.simps)
  then have "within_limits (pols ?s)"
    by (simp add: within_limits_def Let_def del: policy_step.simps)
  then show ?thesis
    using run_within [OF one, of es canonical] assms by (simp del: policy_step.simps)
qed

theorem limits_never_exceeded_witness:
  "within_limits (pols (policy_run (\<lambda>ip. ip) (Replace [(zero_policy ''u'')\<lparr>Emails := [''a''], IPLimit := 1\<rparr>] #
     [Admit ''a'' ''1'' None, Admit ''a'' ''2'' None, Admit ''a'' ''1'' (Some 7)])))"
  by (rule limits_never_exceeded) simp_all

text \<open>Replacing the policies at any reachable state with a valid list puts every listed policy in force
  for its user and its e-mails, gives every other user the unlimited policy, keeps all sessions,
  and calls exactly the terminate callbacks of the sessions whose user is now disabled and of the
  unbounded splices whose user now has a bounded policy.\<close>
theorem replace_policies_effect:
  assumes "length es < 2 ^ 64" and "validatePolicies ps = Inr ()"
  shows "let p = pols (policy_run canonical es); (q, calls) = apply_policies p ps in
    (\<forall>v \<in> set ps. pvalue (user_state q (UserID v)) = v \<and> limiter (user_state q (UserID v)) = limit_of v \<and>
       (\<forall>e \<in> set (Emails v). resolve (byEmail q) e = UserID v)) \<and>
    (\<forall>uid. uid \<notin> UserID ` set ps \<longrightarrow> \<not> boundedPolicy (pvalue (user_state q uid)) \<and>
       limiter (user_state q uid) = RateInf) \<and>
    live q = live p \<and>
    set calls =
      {c. \<exists>a \<in> snd ` set (active p). terminate a = Some c \<and>
         Disabled (pvalue (user_state q (resolve (byEmail q) (adm_email a))))} \<union>
      {c. \<exists>a \<in> snd ` set (unbounded p). terminate a = Some c \<and>
         boundedPolicy (pvalue (user_state q (resolve (byEmail q) (adm_email a))))}"
proof -
  define p where "p = pols (policy_run canonical es)"
  have inv: "policies_inv p"
    using run_system_inv [OF assms(1)] by (simp add: system_inv_def p_def)
  obtain q calls where q: "apply_policies p ps = (q, calls)" by fastforce
  note spec = apply_policies_spec [OF inv, of ps, unfolded q fst_conv snd_conv]
  have valid: "valid_policies ps" using assms(2) by (simp add: validatePolicies_ok)
  then have "distinct (map UserID ps)" by (simp add: valid_policies_def)
  then have "policy_for ps (UserID v) = v" if "v \<in> set ps" for v
    using that by (rule policy_for_member)
  moreover have "policy_for ps uid = zero_policy uid" if "uid \<notin> UserID ` set ps" for uid
    using that find_rev_None [of "\<lambda>v. UserID v = uid" ps] by (auto simp: policy_for_def)
  ultimately show ?thesis
    unfolding p_def [symmetric] Let_def q prod.case
    using spec resolve_in_member [OF valid]
    by (auto simp: set_closing live_def boundedPolicy_def limit_of_def zero_policy_def)
qed

theorem replace_policies_effect_witness:
  "snd (apply_policies (pols (policy_run (\<lambda>ip. ip) [Admit ''a'' ''1'' (Some 7), Admit ''b'' ''1'' (Some 8)]))
      [(zero_policy ''u'')\<lparr>Emails := [''a''], Disabled := True\<rparr>]) = [7] \<and>
   Disabled (pvalue (user_state (fst (apply_policies (pols (policy_run (\<lambda>ip. ip)
      [Admit ''a'' ''1'' (Some 7), Admit ''b'' ''1'' (Some 8)]))
      [(zero_policy ''u'')\<lparr>Emails := [''a''], Disabled := True\<rparr>])) ''u''))"
proof
  show "snd (apply_policies (pols (policy_run (\<lambda>ip. ip) [Admit ''a'' ''1'' (Some 7), Admit ''b'' ''1'' (Some 8)]))
      [(zero_policy ''u'')\<lparr>Emails := [''a''], Disabled := True\<rparr>]) = [7]"
    by code_simp
  have ok: "validatePolicies [(zero_policy ''u'')\<lparr>Emails := [''a''], Disabled := True\<rparr>] = Inr ()"
    by code_simp
  show "Disabled (pvalue (user_state (fst (apply_policies (pols (policy_run (\<lambda>ip. ip)
      [Admit ''a'' ''1'' (Some 7), Admit ''b'' ''1'' (Some 8)]))
      [(zero_policy ''u'')\<lparr>Emails := [''a''], Disabled := True\<rparr>])) ''u''))"
    using replace_policies_effect [OF _ ok, of "[Admit ''a'' ''1'' (Some 7), Admit ''b'' ''1'' (Some 8)]" "\<lambda>ip. ip"]
    unfolding Let_def by (auto simp del: policy_step.simps split: prod.splits)
qed

text \<open>\<open>validatePolicies\<close> accepts exactly the lists in which every direction is empty, both or
  download, user ids are nonempty and distinct, limits are not negative, and e-mails are nonempty
  and belong to one user.\<close>
theorem validatePolicies_exact:
  "is_ok (validatePolicies ps) \<longleftrightarrow>
     (\<forall>v \<in> set ps. Direction v \<in> {[], ''both'', ''download''} \<and> UserID v \<noteq> [] \<and>
        0 \<le> BytesPerSecond v \<and> 0 \<le> ConnectionLimit v \<and> 0 \<le> IPLimit v) \<and>
     distinct (map UserID ps) \<and> distinct (concat (map Emails ps)) \<and> [] \<notin> set (concat (map Emails ps))"
  using validatePolicies_ok [of ps] by (auto simp: is_ok_iff valid_policies_def)

theorem validatePolicies_exact_witness:
  "is_ok (validatePolicies [(zero_policy ''u'')\<lparr>Emails := [''a'', ''b'']\<rparr>, (zero_policy ''w'')\<lparr>Direction := ''download''\<rparr>])"
  unfolding validatePolicies_exact by (simp add: zero_policy_def)

section \<open>Transfers\<close>

lemma TransferDirection_chunks:
  assumes "fst (TransferDirection other wait i p email n direction) = Inr cs"
  shows "(\<forall>c \<in> set cs. 0 < c \<and> c \<le> burst) \<and> (sum_list cs = max 0 n \<or> direction = ''upload'' \<and> sum_list cs \<le> max 0 n)"
  using assms
proof (induction other wait i p email n direction arbitrary: cs rule: TransferDirection.induct)
  case (1 other wait i p email n direction)
  show ?case
  proof (cases "n > 0")
    case True
    obtain s p1 where st: "state (other i p) email = (s, p1)" by fastforce
    let ?chunk = "if n > burst then burst else n"
    have chunk: "0 < ?chunk" "?chunk \<le> burst" "?chunk \<le> n" using True by (simp_all add: burst_def)
    show ?thesis
    proof (cases "Direction (pvalue s) = ''download'' \<and> direction = ''upload''")
      case skip: True
      then show ?thesis
        using "1.prems" True st by (simp add: TransferDirection.simps [of _ _ _ _ _ n] split: if_splits)
    next
      case False
      then obtain ds where ds: "\<not> Disabled (pvalue s)" "wait i (limiter s) ?chunk" "cs = ?chunk # ds"
        "fst (TransferDirection other wait (Suc i) p1 email (n - ?chunk) direction) = Inr ds"
        using "1.prems" True st
        by (auto simp: TransferDirection.simps [of _ _ _ _ _ n] Let_def bind_res_Inr split: if_splits prod.splits)
      have "(\<forall>c \<in> set ds. 0 < c \<and> c \<le> burst) \<and>
          (sum_list ds = max 0 (n - ?chunk) \<or> direction = ''upload'' \<and> sum_list ds \<le> max 0 (n - ?chunk))"
        using "1.IH" [OF True st [symmetric] ds(1) False refl _ ds(4)] ds(2) by simp
      then show ?thesis
        using chunk ds(3) by auto
    qed
  next
    case False
    then show ?thesis using "1.prems" by (simp add: TransferDirection.simps)
  qed
qed

lemma TransferDirection_finishes:
  assumes "\<And>i p. \<not> Disabled (pvalue (fst (state (other i p) email)))" and "\<And>i l c. wait i l c"
  shows "\<exists>cs. fst (TransferDirection other wait i p email n direction) = Inr cs"
  using assms
proof (induction other wait i p email n direction rule: TransferDirection.induct)
  case (1 other wait i p email n direction)
  show ?case
  proof (cases "n > 0")
    case True
    obtain s p1 where st: "state (other i p) email = (s, p1)" by fastforce
    then have en: "\<not> Disabled (pvalue s)" using "1.prems"(1) [of i p] by simp
    then show ?thesis
      using "1.IH" [OF True st [symmetric] en _ refl] "1.prems" True st
      by (cases "Direction (pvalue s) = ''download'' \<and> direction = ''upload''")
        (force simp: TransferDirection.simps [of _ _ _ _ _ n] Let_def split: prod.splits)+
  qed (simp add: TransferDirection.simps)
qed

text \<open>A transfer that returns without error has been charged in chunks of at most 64 KiB that add up
  to the transferred bytes, whatever other goroutines do to the policies between two chunks; only
  an upload of a user limited for downloads may be charged less. It returns without error when the
  user is enabled in every round and every wait is granted.\<close>
theorem transfer_charges:
  "(fst (TransferDirection other wait i p email n direction) = Inr cs \<longrightarrow>
      (\<forall>c \<in> set cs. 0 < c \<and> c \<le> 65536) \<and> sum_list cs \<le> max 0 n \<and>
      (direction \<noteq> ''upload'' \<longrightarrow> sum_list cs = max 0 n)) \<and>
   ((\<forall>i p. \<not> Disabled (pvalue (fst (state (other i p) email)))) \<and> (\<forall>i l c. wait i l c) \<longrightarrow>
      is_ok (fst (TransferDirection other wait i p email n direction)))"
  using TransferDirection_chunks [of other wait i p email n direction cs]
    TransferDirection_finishes [of other email wait i p n direction]
  by (auto simp: burst_def is_ok_iff)

theorem transfer_charges_witness:
  "is_ok (fst (TransferDirection (\<lambda>i p. newPolicies) (\<lambda>i l c. True) 0 newPolicies ''a'' 100000 ''download''))"
proof -
  have "\<not> Disabled (pvalue (fst (state newPolicies ''a'')))" by code_simp
  then show ?thesis
    using transfer_charges [of "\<lambda>i p. newPolicies" "\<lambda>i l c. True" 0 newPolicies "''a''" 100000 "''download''" "[]"]
    by simp
qed

section \<open>Persistence\<close>

lemma applyPolicies_cases:
  obtains (failed) e where "applyPolicies decode bridged written r raw = (Inl e, r, [])"
  | (stored) b ps where "raw = Some b" "decode b = Some ps" "validatePolicies ps = Inr ()"
      "applyPolicies decode bridged written r raw =
        (Inr (length ps), r\<lparr>pol := fst (apply_policies (pol r) ps), policy_file := Some b\<rparr>,
         snd (apply_policies (pol r) ps))"
proof (cases "\<exists>e. applyPolicies decode bridged written r raw = (Inl e, r, [])")
  case True
  then show thesis using failed by blast
next
  case False
  then obtain b where b: "raw = Some b" "XrayMode r = ''embedded''"
    by (cases raw) (auto simp: applyPolicies_def split: if_splits)
  then obtain ps where ps: "decode b = Some ps"
    using False by (cases "decode b") (auto simp: applyPolicies_def)
  then have v: "validatePolicies ps = Inr ()"
    using False b by (cases "validatePolicies ps") (auto simp: applyPolicies_def)
  then show thesis
    using False b ps by (intro stored [of b ps]) (auto simp: applyPolicies_def split: if_splits prod.splits)
qed

lemma loadPolicies_stored:
  assumes "policy_file r = Some b" "decode b = Some ps" "validatePolicies ps = Inr ()"
  shows "loadPolicies decode False r = (Inr (), r\<lparr>pol := fst (apply_policies (pol r) ps)\<rparr>)"
  using assms by (simp add: loadPolicies_def)

text \<open>A policy command either fails and changes neither the policies in force nor the file, or it
  stores the list and puts it in force; and the next start of the process, which begins with empty
  policies and loads the file, puts the same policies in force for every user and every e-mail.\<close>
theorem policies_survive_restart:
  assumes "length es < 2 ^ 64"
    and "pol r = pols (policy_run canonical es)"
  shows "case applyPolicies decode bridged written r raw of
      (Inl e, r', calls) \<Rightarrow> r' = r \<and> calls = []
    | (Inr n, r', calls) \<Rightarrow>
        (let (ok, r2) = loadPolicies decode False (r'\<lparr>pol := newPolicies\<rparr>) in
          ok = Inr () \<and> policy_file r' = raw \<and>
          (\<forall>e. resolve (byEmail (pol r2)) e = resolve (byEmail (pol r')) e) \<and>
          (\<forall>uid. pvalue (user_state (pol r2) uid) = pvalue (user_state (pol r') uid) \<and>
                 limiter (user_state (pol r2) uid) = limiter (user_state (pol r') uid)))"
proof -
  have inv: "policies_inv (pol r)" "policies_inv newPolicies"
    using run_system_inv [OF assms(1), of canonical] policy_start_inv
    by (simp_all add: system_inv_def policy_start_def assms(2))
  show ?thesis
  proof (rule applyPolicies_cases [of decode bridged written r raw])
    fix b ps
    assume stored: "raw = Some b" "decode b = Some ps" "validatePolicies ps = Inr ()"
      "applyPolicies decode bridged written r raw =
        (Inr (length ps), r\<lparr>pol := fst (apply_policies (pol r) ps), policy_file := Some b\<rparr>,
         snd (apply_policies (pol r) ps))"
    define q where "q = r\<lparr>pol := fst (apply_policies (pol r) ps), policy_file := Some b\<rparr>"
    have q: "policy_file q = Some b" "pol q = fst (apply_policies (pol r) ps)"
      by (simp_all add: q_def)
    then have "loadPolicies decode False (q\<lparr>pol := newPolicies\<rparr>) =
        (Inr (), q\<lparr>pol := fst (apply_policies newPolicies ps)\<rparr>)"
      using stored by (subst loadPolicies_stored) simp_all
    then show ?thesis
      using stored(1) q apply_policies_spec [OF inv(1), of ps] apply_policies_spec [OF inv(2), of ps]
      unfolding stored(4) q_def [symmetric] by simp
  qed simp
qed

theorem policies_survive_restart_witness:
  "let ps = [(zero_policy ''u'')\<lparr>Emails := [''a''], ConnectionLimit := 2\<rparr>];
     r = \<lparr>XrayMode = ''embedded'', pol = pols (policy_run (\<lambda>ip. ip) [Admit ''a'' ''1'' None]), policy_file = None\<rparr> in
   \<exists>r' calls. applyPolicies (\<lambda>b. Some ps) (\<lambda>e. False) True r (Some ''x'') = (Inr 1, r', calls) \<and>
     pvalue (user_state (pol (snd (loadPolicies (\<lambda>b. Some ps) False (r'\<lparr>pol := newPolicies\<rparr>)))) ''u'') =
     pvalue (user_state (pol r') ''u'')"
proof -
  define ps where "ps = [(zero_policy ''u'')\<lparr>Emails := [''a''], ConnectionLimit := 2\<rparr>]"
  define r where "r = \<lparr>XrayMode = ''embedded'', pol = pols (policy_run (\<lambda>ip. ip) [Admit ''a'' ''1'' None]), policy_file = None\<rparr>"
  have "validatePolicies ps = Inr ()" unfolding ps_def by code_simp
  then obtain r' calls where e: "applyPolicies (\<lambda>b. Some ps) (\<lambda>e. False) True r (Some ''x'') = (Inr 1, r', calls)"
    by (cases "apply_policies (pol r) ps")
      (simp add: applyPolicies_def r_def bridge_conflict_def list_ex_iff, simp add: ps_def)
  then show ?thesis
    using policies_survive_restart [where es = "[Admit ''a'' ''1'' None]" and r = r and canonical = "\<lambda>ip. ip"
      and decode = "\<lambda>b. Some ps" and bridged = "\<lambda>e. False" and written = True and raw = "Some ''x''"]
    unfolding Let_def ps_def [symmetric] r_def [symmetric]
    by (auto simp: r_def simp del: policy_step.simps split: prod.splits)
qed

end
