(* ===== verification/Reality_Scan.thy ===== *)
theory Reality_Scan
  imports Firewall_Rules
begin

text \<open>
  The scanner for REALITY targets (internal/realityscan/scanner.go): the list of targets with its
  ranges, the check of a domain, the dial that only reaches public addresses, one probe of a target,
  and the scan of all targets.

  Parsing and printing of addresses is the record of net/netip as elsewhere; the resolver, the
  connections and the checks of certificates are parameters, given for the n-th probe of a target.
  The slots of the results are written by one worker each, so the order in which the workers run does not
  matter and is not modelled; texts are ASCII. Times, printed names of the certificate and the random id
  of a result are left out.
\<close>

section \<open>Targets\<close>

datatype scan_error = ZoneUnsupported | BadHostPort | BadScanPort | BadDomain | BadLabel | NotAscii | InputTooLong | TooManyTargets
  | TooManyExpanded | BadPrefix | PrefixTooWide | NoAddressSplit | LookupFailed | NoAddresses | PrivateAddress | ReservedAddress
  | ConnectFailed | ScanExpired

record scan_target =
  ta_address :: string
  ta_host :: string
  ta_port :: int
  ta_isIP :: bool

definition realityScanLimit :: nat where
  "realityScanLimit = 128"

definition realityScanDefaults :: "string list" where
  "realityScanDefaults = [''www.microsoft.com'', ''www.apple.com'', ''www.cloudflare.com'', ''www.amazon.com'', ''www.mozilla.org'']"

text \<open>\<open>netip.Addr.Unmap\<close>; \<open>net.ParseIP\<close> takes no zones.\<close>

fun unmap_addr :: "addr \<Rightarrow> addr" where
  "unmap_addr (V4 w) = V4 w"
| "unmap_addr (V6 w z) = (if is4in6 (V6 w z) then V4 (ucast w) else V6 w z)"

text \<open>A \<open>net.IP\<close>: it has no zone, and an IPv4 address in IPv6 form counts as IPv4.\<close>

fun plain_ip :: "addr \<Rightarrow> addr" where
  "plain_ip (V4 w) = V4 w"
| "plain_ip (V6 w z) = (if is4in6 (V6 w z) then V4 (ucast w) else V6 w [])"

definition ParseIP :: "netip \<Rightarrow> string \<Rightarrow> addr option" where
  "ParseIP net s = (case parse_addr net s of None \<Rightarrow> None | Some a \<Rightarrow> if zone a = [] then Some a else None)"

definition label_char :: "char \<Rightarrow> bool" where
  "label_char c = (let n = of_char c :: nat in 97 \<le> n \<and> n \<le> 122 \<or> is_digit c \<or> c = CHR ''-'')"

fun check_labels :: "string list \<Rightarrow> (scan_error, unit) res" where
  "check_labels [] = Inr ()"
| "check_labels (l # ls) =
     (if l = [] \<or> length l > 63 \<or> hd l = CHR ''-'' \<or> last l = CHR ''-'' then Inl BadLabel
      else if \<not> list_all label_char l then Inl NotAscii
      else check_labels ls)"

definition forbidden_in_domain :: string where
  "forbidden_in_domain = ''/:@?# *'' @ map char_of [92 :: nat, 9, 13, 10]"

definition realityDomain :: "netip \<Rightarrow> string \<Rightarrow> (scan_error, string) res" where
  "realityDomain net raw =
     (let domain = to_lower (trim_space raw) in
      if length domain > 253 \<or> length domain < 4 \<or> CHR ''.'' \<notin> set domain \<or> ParseIP net domain \<noteq> None \<or>
         last domain = CHR ''.'' \<or> list_ex (\<lambda>c. c \<in> set forbidden_in_domain) domain then Inl BadDomain
      else bind_res (check_labels (split_on (CHR ''.'') domain)) (\<lambda>_. Inr domain))"

definition scan_target_of :: "string \<Rightarrow> int \<Rightarrow> bool \<Rightarrow> scan_target" where
  "scan_target_of host port ip = \<lparr>ta_address = JoinHostPort host (itoa port), ta_host = host, ta_port = port, ta_isIP = ip\<rparr>"

text \<open>The first half of the function: the host and the port of the text.\<close>

definition host_and_port :: "netip \<Rightarrow> string \<Rightarrow> (scan_error, string \<times> int) res" where
  "host_and_port net raw =
     (case parse_addr net raw of
        Some a \<Rightarrow> if zone a \<noteq> [] then Inl ZoneUnsupported else Inr (addr_string net (unmap_addr a), 443)
      | None \<Rightarrow>
          if list_ex (\<lambda>c. c \<in> set '':[]'') raw then
            (case SplitHostPort raw of
               None \<Rightarrow> Inl BadHostPort
             | Some (host, portText) \<Rightarrow>
                 (case Atoi portText of (port, parsed) \<Rightarrow>
                    if \<not> parsed \<or> port < 1 \<or> port > 65535 \<or> portText \<noteq> itoa port then Inl BadScanPort else Inr (host, port)))
          else Inr (raw, 443))"

definition parseRealityScanTarget :: "netip \<Rightarrow> string \<Rightarrow> (scan_error, scan_target) res" where
  "parseRealityScanTarget net raw =
     bind_res (host_and_port net raw) (\<lambda>(host, port).
       case parse_addr net host of
         Some a \<Rightarrow> if zone a \<noteq> [] then Inl ZoneUnsupported else Inr (scan_target_of (addr_string net (unmap_addr a)) port True)
       | None \<Rightarrow> bind_res (realityDomain net host) (\<lambda>domain. Inr (scan_target_of domain port False)))"

text \<open>\<open>Next\<close>, \<open>Contains\<close>, and the loop over the addresses of a prefix.\<close>

fun next_addr :: "addr \<Rightarrow> addr option" where
  "next_addr (V4 w) = (if w = -1 then None else Some (V4 (w + 1)))"
| "next_addr (V6 w z) = (if w = -1 then None else Some (V6 (w + 1) z))"

fun prefix_contains :: "addr \<times> nat \<Rightarrow> addr \<Rightarrow> bool" where
  "prefix_contains (V4 p, n) (V4 w) = (drop_bit (32 - n) w = drop_bit (32 - n) p)"
| "prefix_contains (V6 p zp, n) (V6 w z) = (z = [] \<and> drop_bit (128 - n) w = drop_bit (128 - n) p)"
| "prefix_contains _ _ = False"

fun addrs_left :: "addr \<Rightarrow> nat" where
  "addrs_left (V4 w) = 2 ^ 32 - unat w"
| "addrs_left (V6 w z) = 2 ^ 128 - unat w"

lemma unat_next: "w \<noteq> -1 \<Longrightarrow> unat (w + 1) = Suc (unat w)" for w :: "'a :: len word"
  using unatSuc [of w] by (simp add: add.commute add_eq_0_iff)

lemma next_addr_left: "next_addr a = Some b \<Longrightarrow> addrs_left b < addrs_left a"
proof (cases a)
  case (V4 w)
  assume a: "next_addr a = Some b"
  then have b: "unat (w + 1) = Suc (unat w)" "b = V4 (w + 1)" using V4 unat_next [of w] by (auto split: if_splits)
  moreover have "unat w < 2 ^ 32" using unsigned_less [of w] by simp
  ultimately show ?thesis using V4 by simp
next
  case (V6 w z)
  assume a: "next_addr a = Some b"
  then have b: "unat (w + 1) = Suc (unat w)" "b = V6 (w + 1) z" using V6 unat_next [of w] by (auto split: if_splits)
  moreover have "unat w < 2 ^ 128" using unsigned_less [of w] by simp
  ultimately show ?thesis using V6 by simp
qed

function prefix_addrs :: "addr \<times> nat \<Rightarrow> addr \<Rightarrow> addr list" where
  "prefix_addrs p a =
     (if prefix_contains p a then a # (case next_addr a of None \<Rightarrow> [] | Some b \<Rightarrow> prefix_addrs p b) else [])"
  by auto
termination by (relation "measure (\<lambda>(p, a). addrs_left a)") (auto simp: next_addr_left)

declare prefix_addrs.simps [simp del]

record target_list =
  tl_targets :: "scan_target list"
  tl_seen :: "string list"
  tl_expanded :: nat

definition appendTarget :: "netip \<Rightarrow> string \<Rightarrow> target_list \<Rightarrow> (scan_error, target_list) res" where
  "appendTarget net raw s =
     (let expanded = tl_expanded s + 1 in
      if expanded > realityScanLimit then Inl TooManyExpanded
      else bind_res (parseRealityScanTarget net raw) (\<lambda>t.
        let s1 = s\<lparr>tl_expanded := expanded\<rparr> in
        Inr (if ta_address t \<in> set (tl_seen s) then s1
             else s1\<lparr>tl_seen := ta_address t # tl_seen s, tl_targets := tl_targets s @ [t]\<rparr>)))"

fun append_all :: "netip \<Rightarrow> string list \<Rightarrow> target_list \<Rightarrow> (scan_error, target_list) res" where
  "append_all net [] s = Inr s"
| "append_all net (r # rs) s = bind_res (appendTarget net r s) (append_all net rs)"

definition append_part :: "netip \<Rightarrow> string \<Rightarrow> target_list \<Rightarrow> (scan_error, target_list) res" where
  "append_part net part s =
     (if CHR ''/'' \<in> set part then
        (case parse_prefix net part of
           None \<Rightarrow> Inl BadPrefix
         | Some (a, n) \<Rightarrow>
             if is4in6 a then Inl BadPrefix
             else if bit_len a - n > 7 then Inl PrefixTooWide
             else append_all net (map (addr_string net) (prefix_addrs (masked (a, n)) (fst (masked (a, n))))) s)
      else appendTarget net part s)"

fun append_parts :: "netip \<Rightarrow> string list \<Rightarrow> target_list \<Rightarrow> (scan_error, target_list) res" where
  "append_parts net [] s = Inr s"
| "append_parts net (p # ps) s = bind_res (append_part net p s) (append_parts net ps)"

fun fields_by :: "(char \<Rightarrow> bool) \<Rightarrow> string \<Rightarrow> string \<Rightarrow> string list" where
  "fields_by p acc [] = (if acc = [] then [] else [rev acc])"
| "fields_by p acc (c # cs) = (if p c then (if acc = [] then fields_by p [] cs else rev acc # fields_by p [] cs) else fields_by p (c # acc) cs)"

definition parseRealityScanTargets :: "netip \<Rightarrow> string \<Rightarrow> (scan_error, scan_target list) res" where
  "parseRealityScanTargets net raw =
     (if length raw > 65536 then Inl InputTooLong
      else let given = fields_by (\<lambda>c. c = CHR '','' \<or> is_space c) [] raw;
               parts = (if given = [] then realityScanDefaults else given) in
        if length parts > realityScanLimit then Inl TooManyTargets
        else bind_res (append_parts net parts \<lparr>tl_targets = [], tl_seen = [], tl_expanded = 0\<rparr>) (\<lambda>s. Inr (tl_targets s)))"

section \<open>Connections\<close>

text \<open>The classes of \<open>net.IP\<close>, on an address without its IPv4 form in IPv6.\<close>

fun ip_private :: "addr \<Rightarrow> bool" where
  "ip_private (V4 w) = (drop_bit 24 w = 10 \<or> drop_bit 20 w = 0xac1 \<or> drop_bit 16 w = 0xc0a8)"
| "ip_private (V6 w z) = (drop_bit 121 w = 0x7e)"

fun ip_loopback :: "addr \<Rightarrow> bool" where
  "ip_loopback (V4 w) = (drop_bit 24 w = 127)"
| "ip_loopback (V6 w z) = (w = 1)"

fun ip_link_local :: "addr \<Rightarrow> bool" where
  "ip_link_local (V4 w) = (drop_bit 16 w = 0xa9fe)"
| "ip_link_local (V6 w z) = (drop_bit 118 w = 0x3fa)"

fun ip_multicast :: "addr \<Rightarrow> bool" where
  "ip_multicast (V4 w) = (drop_bit 28 w = 14)"
| "ip_multicast (V6 w z) = (drop_bit 120 w = 0xff)"

fun ip_unspecified :: "addr \<Rightarrow> bool" where
  "ip_unspecified (V4 w) = (w = 0)"
| "ip_unspecified (V6 w z) = (w = 0)"

definition ip_global_unicast :: "addr \<Rightarrow> bool" where
  "ip_global_unicast a = (a \<noteq> V4 (-1) \<and> \<not> ip_unspecified a \<and> \<not> ip_loopback a \<and> \<not> ip_multicast a \<and> \<not> ip_link_local a)"

text \<open>The reserved blocks, in the order of the code.\<close>

definition reserved_blocks :: "(addr \<times> nat) list" where
  "reserved_blocks =
     [(V4 0, 8), (V4 0xf0000000, 4), (V4 0x64400000, 10), (V4 0xc0000000, 24), (V4 0xc6120000, 15), (V4 0xc0000200, 24),
      (V4 0xc6336400, 24), (V4 0xcb007100, 24), (V6 (push_bit 96 0x20010db8) [], 32)]"

fun block_contains :: "addr \<times> nat \<Rightarrow> addr \<Rightarrow> bool" where
  "block_contains (V4 p, n) (V4 w) = (drop_bit (32 - n) w = drop_bit (32 - n) p)"
| "block_contains (V6 p zp, n) (V6 w z) = (drop_bit (128 - n) w = drop_bit (128 - n) p)"
| "block_contains _ _ = False"

definition check_ip :: "addr \<Rightarrow> (scan_error, unit) res" where
  "check_ip ip =
     (let a = plain_ip ip in
      if \<not> ip_global_unicast a \<or> ip_private a \<or> ip_loopback a \<or> ip_link_local a \<or> ip_unspecified a \<or> ip_multicast a then Inl PrivateAddress
      else if list_ex (\<lambda>b. block_contains b a) reserved_blocks then Inl ReservedAddress
      else Inr ())"

fun check_ips :: "addr list \<Rightarrow> (scan_error, unit) res" where
  "check_ips [] = Inr ()"
| "check_ips (ip # ips) = bind_res (check_ip ip) (\<lambda>_. check_ips ips)"

text \<open>The first address that answers; the second part of the result are the addresses that were tried.\<close>

fun dial_first :: "(string \<Rightarrow> 'c option) \<Rightarrow> string list \<Rightarrow> (scan_error, 'c) res \<times> string list" where
  "dial_first connect [] = (Inl ConnectFailed, [])"
| "dial_first connect (a # as) =
     (case connect a of
        Some c \<Rightarrow> (Inr c, [a])
      | None \<Rightarrow> (case dial_first connect as of (r, tried) \<Rightarrow> (r, a # tried)))"

definition publicDial ::
  "netip \<Rightarrow> (string \<Rightarrow> addr list option) \<Rightarrow> (string \<Rightarrow> 'c option) \<Rightarrow> string \<Rightarrow> (scan_error, 'c) res \<times> string list" where
  "publicDial net lookup connect address =
     (case SplitHostPort address of
        None \<Rightarrow> (Inl NoAddressSplit, [])
      | Some (host, port) \<Rightarrow>
          if \<not> snd (Atoi port) then (Inl BadScanPort, [])
          else case lookup host of
            None \<Rightarrow> (Inl LookupFailed, [])
          | Some ips \<Rightarrow>
              if ips = [] then (Inl NoAddresses, [])
              else case check_ips ips of
                Inl e \<Rightarrow> (Inl e, [])
              | Inr _ \<Rightarrow> dial_first connect (map (\<lambda>ip. JoinHostPort (addr_string net (plain_ip ip)) port) ips))"

section \<open>Probes\<close>

record scan_cert =
  ce_size :: nat
  ce_names :: "string list"

record tls_state =
  ts_version :: nat
  ts_alpn :: string
  ts_curve :: nat
  ts_certs :: "scan_cert list"

text \<open>A connection: the address at the other end and what a handshake for a server name gives.\<close>

record scan_conn =
  sc_remote :: string
  sc_handshake :: "string \<Rightarrow> tls_state option"

text \<open>The checks of crypto/x509: the chain of certificates, and a name against the first one.\<close>

record x509 =
  x_chain :: "scan_cert list \<Rightarrow> bool"
  x_hostname :: "scan_cert \<Rightarrow> string \<Rightarrow> bool"

datatype scan_reason = DialError scan_error | HandshakeError | NoTLS13 | NoH2 | NoX25519 | NoCertificate | BadChain | BadHostname
  | NameUnknown | NotConfirmed

record scan_result =
  re_Target :: string
  re_Host :: string
  re_IP :: string
  re_Port :: int
  re_Feasible :: bool
  re_TLS13 :: bool
  re_H2 :: bool
  re_X25519 :: bool
  re_CertValid :: bool
  re_CertChainValid :: bool
  re_CertChainBytes :: nat
  re_ServerNames :: "string list"
  re_ALPN :: string
  re_CurveID :: nat
  re_Reason :: "scan_reason list"

fun certificate_names :: "netip \<Rightarrow> string list \<Rightarrow> string list \<Rightarrow> string list" where
  "certificate_names net names [] = names"
| "certificate_names net names (raw # rest) =
     (case realityDomain net raw of
        Inr name \<Rightarrow> certificate_names net (if name \<in> set names then names else names @ [name]) rest
      | Inl _ \<Rightarrow> certificate_names net names rest)"

definition realityCertificateNames :: "netip \<Rightarrow> scan_cert \<Rightarrow> string list" where
  "realityCertificateNames net c = certificate_names net [] (ce_names c)"

definition empty_result :: "scan_target \<Rightarrow> string \<Rightarrow> scan_result" where
  "empty_result t serverName =
     \<lparr>re_Target = ta_address t, re_Host = serverName, re_IP = [], re_Port = ta_port t, re_Feasible = False, re_TLS13 = False, re_H2 = False,
      re_X25519 = False, re_CertValid = False, re_CertChainValid = False, re_CertChainBytes = 0, re_ServerNames = [], re_ALPN = [],
      re_CurveID = 0, re_Reason = []\<rparr>"

text \<open>What the certificates add to the result.\<close>

definition judge_certs :: "netip \<Rightarrow> x509 \<Rightarrow> string \<Rightarrow> scan_cert list \<Rightarrow> scan_result \<Rightarrow> scan_result" where
  "judge_certs net x serverName certs r =
     (case certs of
        [] \<Rightarrow> r\<lparr>re_Reason := re_Reason r @ [NoCertificate]\<rparr>
      | leaf # _ \<Rightarrow>
          let chain = x_chain x certs; host = x_hostname x leaf serverName in
          r\<lparr>re_ServerNames := realityCertificateNames net leaf, re_CertChainBytes := sum_list (map ce_size certs), re_CertChainValid := chain,
            re_CertValid := (serverName \<noteq> [] \<and> chain \<and> host),
            re_Reason := re_Reason r @ (if chain then [] else [BadChain]) @
              (if serverName \<noteq> [] then (if host then [] else [BadHostname]) else [NameUnknown])\<rparr>)"

definition judge_state :: "netip \<Rightarrow> x509 \<Rightarrow> string \<Rightarrow> tls_state \<Rightarrow> scan_result \<Rightarrow> scan_result" where
  "judge_state net x serverName st r =
     (let r1 = r\<lparr>re_TLS13 := (ts_version st = 0x304), re_ALPN := ts_alpn st, re_H2 := (ts_alpn st = ''h2''), re_CurveID := ts_curve st,
            re_X25519 := (ts_curve st = 29)\<rparr>;
          r2 = r1\<lparr>re_Reason := (if re_TLS13 r1 then [] else [NoTLS13]) @ (if re_H2 r1 then [] else [NoH2]) @ (if re_X25519 r1 then [] else [NoX25519])\<rparr>;
          r3 = judge_certs net x serverName (ts_certs st) r2 in
      r3\<lparr>re_Feasible := (re_TLS13 r3 \<and> re_H2 r3 \<and> re_X25519 r3 \<and> re_CertValid r3)\<rparr>)"

text \<open>The dial of one probe gives a connection or an error, and the addresses tried.\<close>

type_synonym scan_dial = "string \<Rightarrow> (scan_error, scan_conn) res \<times> string list"

definition probeRealityConnection :: "netip \<Rightarrow> x509 \<Rightarrow> scan_dial \<Rightarrow> scan_target \<Rightarrow> string \<Rightarrow> scan_result \<times> string list" where
  "probeRealityConnection net x dial t serverName =
     (let r = empty_result t serverName in
      case dial (ta_address t) of
        (Inl e, tried) \<Rightarrow> (r\<lparr>re_Reason := [DialError e]\<rparr>, tried)
      | (Inr c, tried) \<Rightarrow>
          let r1 = r\<lparr>re_IP := (case SplitHostPort (sc_remote c) of Some (host, _) \<Rightarrow> host | None \<Rightarrow> [])\<rparr> in
          (case sc_handshake c serverName of
             None \<Rightarrow> (r1\<lparr>re_Reason := [HandshakeError]\<rparr>, tried)
           | Some st \<Rightarrow> (judge_state net x serverName st r1, tried)))"

text \<open>The names of the certificate are tried until one is confirmed; \<open>n\<close> counts the probes.\<close>

fun confirm_names ::
  "netip \<Rightarrow> x509 \<Rightarrow> (nat \<Rightarrow> scan_dial) \<Rightarrow> (nat \<Rightarrow> bool) \<Rightarrow> scan_target \<Rightarrow> nat \<Rightarrow> string list \<Rightarrow> scan_result \<Rightarrow> scan_result \<times> string list" where
  "confirm_names net x dial expired t n [] result = (result, [])"
| "confirm_names net x dial expired t n (name # names) result =
     (if expired n then (result, [])
      else case probeRealityConnection net x (dial n) t name of
        (confirmed, tried) \<Rightarrow>
          if re_Feasible confirmed then (confirmed, tried)
          else (case confirm_names net x dial expired t (Suc n) names result of (r, later) \<Rightarrow> (r, tried @ later)))"

definition scanRealityTarget ::
  "netip \<Rightarrow> x509 \<Rightarrow> (nat \<Rightarrow> scan_dial) \<Rightarrow> (nat \<Rightarrow> bool) \<Rightarrow> scan_target \<Rightarrow> scan_result \<times> string list" where
  "scanRealityTarget net x dial expired t =
     (case probeRealityConnection net x (dial 0) t (if ta_isIP t then [] else ta_host t) of
        (result, tried) \<Rightarrow>
          if ta_isIP t then
            (case confirm_names net x dial expired t 1 (re_ServerNames result) result of
               (r, later) \<Rightarrow>
                 (if re_Feasible r then r else r\<lparr>re_Host := [], re_Reason := NotConfirmed # re_Reason r\<rparr>, tried @ later))
          else (result, tried))"

record scan_report =
  sr_results :: "scan_result list"
  sr_total :: nat
  sr_feasible :: nat

text \<open>
  The scan: \<open>dial i n\<close> and \<open>expired i n\<close> are those of the n-th probe of target i. A worker that takes target i
  after the deadline (\<open>late i\<close>) leaves its slot as it was made; \<open>over\<close> is the deadline seen at the end.
\<close>

definition zero_result :: scan_result where
  "zero_result = empty_result \<lparr>ta_address = [], ta_host = [], ta_port = 0, ta_isIP = False\<rparr> []"

definition scan_slot ::
  "netip \<Rightarrow> x509 \<Rightarrow> (nat \<Rightarrow> nat \<Rightarrow> scan_dial) \<Rightarrow> (nat \<Rightarrow> nat \<Rightarrow> bool) \<Rightarrow> (nat \<Rightarrow> bool) \<Rightarrow> nat \<times> scan_target \<Rightarrow> scan_result \<times> string list" where
  "scan_slot net x dial expired late it =
     (case it of (i, t) \<Rightarrow> if late i then (zero_result, []) else scanRealityTarget net x (dial i) (expired i) t)"

definition scan_all ::
  "netip \<Rightarrow> x509 \<Rightarrow> (nat \<Rightarrow> nat \<Rightarrow> scan_dial) \<Rightarrow> (nat \<Rightarrow> nat \<Rightarrow> bool) \<Rightarrow> (nat \<Rightarrow> bool) \<Rightarrow> bool \<Rightarrow> string \<Rightarrow> (scan_error, scan_report) res \<times> string list" where
  "scan_all net x dial expired late over raw =
     (case parseRealityScanTargets net raw of
        Inl e \<Rightarrow> (Inl e, [])
      | Inr targets \<Rightarrow>
          let runs = map (scan_slot net x dial expired late) (zip [0..<length targets] targets);
              tried = concat (map snd runs);
              results = map fst runs in
          if over then (Inl ScanExpired, tried)
          else (Inr \<lparr>sr_results = results, sr_total = length results, sr_feasible = length (filter re_Feasible results)\<rparr>, tried))"

definition Scan ::
  "netip \<Rightarrow> x509 \<Rightarrow> (nat \<Rightarrow> nat \<Rightarrow> string \<Rightarrow> addr list option) \<Rightarrow> (nat \<Rightarrow> nat \<Rightarrow> string \<Rightarrow> scan_conn option) \<Rightarrow> (nat \<Rightarrow> nat \<Rightarrow> bool) \<Rightarrow>
    (nat \<Rightarrow> bool) \<Rightarrow> bool \<Rightarrow> string \<Rightarrow> (scan_error, scan_report) res \<times> string list" where
  "Scan net x lookup connect = scan_all net x (\<lambda>i n. publicDial net (lookup i n) (connect i n))"

section \<open>Public addresses\<close>

text \<open>The special blocks as ranges of numbers, from the registries; everything else is public.\<close>

definition special_v4 :: "(nat \<times> nat) list" where
  "special_v4 =
     [(0x00000000, 0x00ffffff), (0x0a000000, 0x0affffff), (0x64400000, 0x647fffff), (0x7f000000, 0x7fffffff), (0xa9fe0000, 0xa9feffff),
      (0xac100000, 0xac1fffff), (0xc0000000, 0xc00000ff), (0xc0000200, 0xc00002ff), (0xc0a80000, 0xc0a8ffff), (0xc6120000, 0xc613ffff),
      (0xc6336400, 0xc63364ff), (0xcb007100, 0xcb0071ff), (0xe0000000, 0xffffffff)]"

definition special_v6 :: "(nat \<times> nat) list" where
  "special_v6 =
     [(0, 1), (0x20010db8 * 2 ^ 96, 0x20010db9 * 2 ^ 96 - 1), (0x7e * 2 ^ 121, 0x7f * 2 ^ 121 - 1), (0x3fa * 2 ^ 118, 0x3fb * 2 ^ 118 - 1),
      (0xff * 2 ^ 120, 2 ^ 128 - 1)]"

fun public_ip :: "addr \<Rightarrow> bool" where
  "public_ip (V4 w) = list_all (\<lambda>(lo, hi). unat w < lo \<or> hi < unat w) special_v4"
| "public_ip (V6 w z) = (\<not> is4in6 (V6 w z) \<and> list_all (\<lambda>(lo, hi). unat w < lo \<or> hi < unat w) special_v6)"

lemma drop_bit_range:
  "drop_bit k w = c \<longleftrightarrow> unat c * 2 ^ k \<le> unat w \<and> unat w < Suc (unat c) * 2 ^ k" for w c :: "'a :: len word"
proof -
  have "unat (drop_bit k w) = unat w div 2 ^ k" by (simp add: unat_drop_bit_eq drop_bit_eq_div [where ?'a = nat])
  then have "drop_bit k w = c \<longleftrightarrow> unat w div 2 ^ k = unat c" by (metis unsigned_word_eqI)
  also have "\<dots> \<longleftrightarrow> unat c * 2 ^ k \<le> unat w \<and> unat w < Suc (unat c) * 2 ^ k"
    by (metis div_nat_eqI div_times_less_eq_dividend dividend_less_div_times less_Suc_eq_le mult.commute mult_Suc zero_less_numeral zero_less_power)
  finally show ?thesis .
qed

lemma outside_block: "drop_bit k w \<noteq> c \<Longrightarrow> lo = unat c * 2 ^ k \<Longrightarrow> Suc hi = Suc (unat c) * 2 ^ k \<Longrightarrow> unat w < lo \<or> hi < unat w"
  for w c :: "'a :: len word"
  unfolding drop_bit_range by linarith

lemma checked_v4: "check_ip (V4 w) = Inr () \<Longrightarrow> public_ip (V4 w)"
proof -
  assume ok: "check_ip (V4 w) = Inr ()"
  then have classes: "\<not> ip_loopback (V4 w)" "\<not> ip_multicast (V4 w)" "\<not> ip_link_local (V4 w)" "\<not> ip_private (V4 w)"
    and blocks: "\<not> list_ex (\<lambda>b. block_contains b (V4 w)) reserved_blocks"
    by (auto simp: check_ip_def Let_def ip_global_unicast_def split: if_splits)
  have "drop_bit 24 w \<noteq> 0" "drop_bit 28 w \<noteq> 15" "drop_bit 22 w \<noteq> 0x191" "drop_bit 8 w \<noteq> 0xc00000" "drop_bit 17 w \<noteq> 0x6309"
      "drop_bit 8 w \<noteq> 0xc00002" "drop_bit 8 w \<noteq> 0xc63364" "drop_bit 8 w \<noteq> 0xcb0071"
    using blocks by (simp_all add: reserved_blocks_def)
  moreover have "drop_bit 24 w \<noteq> 127" "drop_bit 28 w \<noteq> 14" "drop_bit 16 w \<noteq> 0xa9fe" "drop_bit 24 w \<noteq> 10" "drop_bit 20 w \<noteq> 0xac1" "drop_bit 16 w \<noteq> 0xc0a8"
    using classes by simp_all
  moreover have "unat w < 0xe0000000 \<or> 0xffffffff < unat w"
    using outside_block [OF \<open>drop_bit 28 w \<noteq> 14\<close>, where lo = "0xe0000000" and hi = "0xefffffff"] outside_block [OF \<open>drop_bit 28 w \<noteq> 15\<close>, where lo = "0xf0000000" and hi = "0xffffffff"] by simp linarith
  ultimately show ?thesis unfolding public_ip.simps special_v4_def list.pred_inject split
    by (intro conjI) (assumption | erule outside_block, simp, simp | simp)+
qed

lemma checked_v6: "check_ip (V6 w z) = Inr () \<Longrightarrow> \<not> is4in6 (V6 w z) \<Longrightarrow> public_ip (V6 w z)"
proof -
  assume ok: "check_ip (V6 w z) = Inr ()" and plain: "\<not> is4in6 (V6 w z)"
  then have classes: "\<not> ip_unspecified (V6 w z)" "\<not> ip_loopback (V6 w z)" "\<not> ip_multicast (V6 w z)" "\<not> ip_link_local (V6 w z)" "\<not> ip_private (V6 w z)"
    and blocks: "\<not> list_ex (\<lambda>b. block_contains b (V6 w [])) reserved_blocks"
    by (auto simp: check_ip_def Let_def ip_global_unicast_def split: if_splits)
  have "drop_bit 96 w \<noteq> 0x20010db8" using blocks by (simp add: reserved_blocks_def)
  moreover have "drop_bit 120 w \<noteq> 0xff" "drop_bit 118 w \<noteq> 0x3fa" "drop_bit 121 w \<noteq> 0x7e" using classes by simp_all
  moreover have "unat w \<noteq> 0" "unat w \<noteq> 1" using classes by (simp_all add: word_unat_eq_iff)
  then have "unat w < 0 \<or> 1 < unat w" by linarith
  ultimately show ?thesis using plain unfolding public_ip.simps special_v6_def list.pred_inject split
    by (intro conjI) (assumption | erule outside_block, simp, simp | simp)+
qed

lemma checked_public: "check_ip ip = Inr () \<Longrightarrow> public_ip (plain_ip ip)"
proof (cases ip)
  case (V4 w)
  then show "check_ip ip = Inr () \<Longrightarrow> ?thesis" using checked_v4 [of w] by simp
next
  case (V6 w z)
  assume ok: "check_ip ip = Inr ()"
  show ?thesis
  proof (cases "is4in6 ip")
    case True
    then have "plain_ip ip = V4 (ucast w)" using V6 by simp
    moreover have "check_ip (V4 (ucast w)) = Inr ()" using ok True V6 by (simp add: check_ip_def)
    ultimately show ?thesis using checked_v4 by simp
  next
    case False
    then have "plain_ip ip = V6 w []" using V6 by simp
    moreover have "check_ip (V6 w []) = Inr ()" using ok False V6 by (simp add: check_ip_def)
    ultimately show ?thesis using checked_v6 [of w "[]"] False V6 by simp
  qed
qed

lemma check_ips_public: "check_ips ips = Inr () \<Longrightarrow> ip \<in> set ips \<Longrightarrow> public_ip (plain_ip ip)"
  by (induction ips) (auto simp: bind_res_def checked_public split: sum.splits)

lemma dial_first_tried: "dial_first connect as = (r, tried) \<Longrightarrow> set tried \<subseteq> set as"
  by (induction as arbitrary: r tried) (fastforce split: option.splits prod.splits)+

text \<open>An address that may be connected to: the text of a public address and a port.\<close>

definition public_address :: "netip \<Rightarrow> string \<Rightarrow> bool" where
  "public_address net a \<longleftrightarrow> (\<exists>ip port. public_ip ip \<and> a = JoinHostPort (addr_string net ip) port)"

lemma publicDial_tried: "publicDial net lookup connect address = (r, tried) \<Longrightarrow> list_all (public_address net) tried"
  using check_ips_public dial_first_tried
  by (fastforce simp: publicDial_def list_all_iff public_address_def split: option.splits if_splits sum.splits)

lemma probe_tried: "probeRealityConnection net x dial t name = (r, tried) \<Longrightarrow> tried = snd (dial (ta_address t))"
  by (auto simp: probeRealityConnection_def Let_def split: prod.splits sum.splits option.splits)

lemma confirm_tried:
  assumes "\<And>n a. list_all p (snd (dial n a))"
  shows "list_all p (snd (confirm_names net x dial expired t n names result))"
proof (induction names arbitrary: n)
  case (Cons name names)
  obtain c tried where c: "probeRealityConnection net x (dial n) t name = (c, tried)" by fastforce
  have "list_all p tried" using probe_tried [OF c] assms by simp
  then show ?case using Cons.IH [of "Suc n"] c by (cases "confirm_names net x dial expired t (Suc n) names result") simp
qed simp

lemma target_tried:
  assumes "\<And>n a. list_all p (snd (dial n a))"
  shows "list_all p (snd (scanRealityTarget net x dial expired t))"
proof -
  obtain c tried where c: "probeRealityConnection net x (dial 0) t (if ta_isIP t then [] else ta_host t) = (c, tried)" by fastforce
  have "list_all p tried" using probe_tried [OF c] assms by simp
  moreover have "list_all p (snd (confirm_names net x dial expired t 1 (re_ServerNames c) c))" using assms by (rule confirm_tried)
  ultimately show ?thesis using c by (cases "confirm_names net x dial expired t 1 (re_ServerNames c) c") (simp add: scanRealityTarget_def)
qed

lemma scan_tried:
  assumes "\<And>i n a. list_all p (snd (dial i n a))"
  shows "list_all p (snd (scan_all net x dial expired late over raw))"
proof -
  have "list_all p (snd (scan_slot net x dial expired late it))" for it
    using target_tried [of p "dial (fst it)", OF assms] by (cases it) (simp add: scan_slot_def)
  then show ?thesis by (auto simp: scan_all_def Let_def list_all_iff split: sum.splits)
qed

section \<open>Confirmed targets\<close>

text \<open>A handshake for a server name that meets every requirement.\<close>

definition confirms :: "x509 \<Rightarrow> string \<Rightarrow> tls_state \<Rightarrow> bool" where
  "confirms x name st \<longleftrightarrow> name \<noteq> [] \<and> ts_version st = 0x304 \<and> ts_alpn st = ''h2'' \<and> ts_curve st = 29 \<and>
     (\<exists>leaf rest. ts_certs st = leaf # rest \<and> x_chain x (leaf # rest) \<and> x_hostname x leaf name)"

lemma judge_state_feasible:
  "re_Feasible (judge_state net x name st r) \<longleftrightarrow> (re_CertValid r \<and> ts_certs st = [] \<and> ts_version st = 0x304 \<and> ts_alpn st = ''h2'' \<and> ts_curve st = 29)
     \<or> confirms x name st"
  by (cases "ts_certs st") (auto simp: judge_state_def judge_certs_def confirms_def Let_def)

lemma judge_state_host: "re_Host (judge_state net x name st r) = re_Host r"
  by (simp add: judge_state_def judge_certs_def Let_def split: list.splits)

text \<open>A feasible result of a probe: a connection whose handshake for the reported name meets the requirements.\<close>

lemma probe_feasible:
  assumes "probeRealityConnection net x dial t name = (r, tried)" "re_Feasible r"
  shows "re_Host r = name \<and> (\<exists>c st. fst (dial (ta_address t)) = Inr c \<and> sc_handshake c name = Some st \<and> confirms x name st)"
proof -
  obtain d tried' where d: "dial (ta_address t) = (d, tried')" by fastforce
  show ?thesis
  proof (cases d)
    case (Inl e)
    then show ?thesis using assms d by (auto simp: probeRealityConnection_def empty_result_def Let_def)
  next
    case (Inr c)
    show ?thesis
    proof (cases "sc_handshake c name")
      case None
      then show ?thesis using assms d Inr by (auto simp: probeRealityConnection_def empty_result_def Let_def)
    next
      case (Some st)
      then show ?thesis using assms d Inr
        by (auto simp: probeRealityConnection_def Let_def judge_state_feasible judge_state_host) (auto simp: empty_result_def)
    qed
  qed
qed

lemma confirm_feasible:
  assumes "confirm_names net x dial expired t n names result = (r, tried)" "re_Feasible r" "\<not> re_Feasible result"
  shows "re_Host r \<in> set names \<and> (\<exists>k c st. fst (dial k (ta_address t)) = Inr c \<and> sc_handshake c (re_Host r) = Some st \<and> confirms x (re_Host r) st)"
  using assms
proof (induction names arbitrary: n tried)
  case (Cons name names)
  obtain c tried1 where c: "probeRealityConnection net x (dial n) t name = (c, tried1)" by fastforce
  obtain r2 tried2 where r2: "confirm_names net x dial expired t (Suc n) names result = (r2, tried2)" by fastforce
  have live: "\<not> expired n" using Cons.prems by (auto split: if_splits)
  show ?case
  proof (cases "re_Feasible c")
    case True
    then have "r = c" using Cons.prems(1) c live by simp
    then show ?thesis using probe_feasible [OF c True] by auto
  next
    case False
    then have "confirm_names net x dial expired t (Suc n) names result = (r, tried2)" using Cons.prems(1) c r2 live by simp
    from Cons.IH [OF this Cons.prems(2,3)] show ?thesis by auto
  qed
qed simp

lemma probe_names:
  assumes "probeRealityConnection net x dial t name = (r, tried)" "host \<in> set (re_ServerNames r)"
  shows "\<exists>c st leaf rest. fst (dial (ta_address t)) = Inr c \<and> sc_handshake c name = Some st \<and> ts_certs st = leaf # rest \<and>
    host \<in> set (realityCertificateNames net leaf)"
proof -
  obtain d tried' where d: "dial (ta_address t) = (d, tried')" by fastforce
  show ?thesis
  proof (cases d)
    case (Inl e)
    then show ?thesis using assms d by (auto simp: probeRealityConnection_def empty_result_def Let_def)
  next
    case (Inr c)
    show ?thesis
    proof (cases "sc_handshake c name")
      case None
      then show ?thesis using assms d Inr by (auto simp: probeRealityConnection_def empty_result_def Let_def)
    next
      case (Some st)
      then have r: "host \<in> set (re_ServerNames (judge_state net x name st ((empty_result t name)
          \<lparr>re_IP := (case SplitHostPort (sc_remote c) of Some (host, _) \<Rightarrow> host | None \<Rightarrow> [])\<rparr>)))"
        using assms d Inr by (auto simp: probeRealityConnection_def Let_def)
      then show ?thesis using Some d Inr
        by (cases "ts_certs st") (auto simp: judge_state_def judge_certs_def empty_result_def Let_def)
    qed
  qed
qed

text \<open>What a feasible result of a target says.\<close>

definition target_confirmed :: "netip \<Rightarrow> x509 \<Rightarrow> (nat \<Rightarrow> scan_dial) \<Rightarrow> scan_target \<Rightarrow> string \<Rightarrow> bool" where
  "target_confirmed net x dial t host \<longleftrightarrow>
     (\<exists>k c st. fst (dial k (ta_address t)) = Inr c \<and> sc_handshake c host = Some st \<and> confirms x host st) \<and>
     (if ta_isIP t then \<exists>c st leaf rest. fst (dial 0 (ta_address t)) = Inr c \<and> sc_handshake c [] = Some st \<and> ts_certs st = leaf # rest \<and>
        host \<in> set (realityCertificateNames net leaf)
      else host = ta_host t)"

lemma target_feasible:
  assumes "scanRealityTarget net x dial expired t = (r, tried)" "re_Feasible r"
  shows "target_confirmed net x dial t (re_Host r)"
proof (cases "ta_isIP t")
  case False
  then have p: "probeRealityConnection net x (dial 0) t (ta_host t) = (r, tried)"
    using assms(1) by (auto simp: scanRealityTarget_def split: prod.splits)
  show ?thesis using probe_feasible [OF p assms(2)] False by (auto simp: target_confirmed_def)
next
  case True
  obtain first tried0 where p: "probeRealityConnection net x (dial 0) t [] = (first, tried0)" by fastforce
  obtain r1 tried1 where c: "confirm_names net x dial expired t 1 (re_ServerNames first) first = (r1, tried1)" by fastforce
  have no: "\<not> re_Feasible first" using probe_feasible [OF p] by (auto simp: confirms_def)
  have r: "r = r1" "re_Feasible r1"
    using assms True p c by (auto simp: scanRealityTarget_def split: if_splits)
  note cf = confirm_feasible [OF c r(2) no]
  show ?thesis using cf probe_names [OF p, of "re_Host r1"] True r(1) by (auto simp: target_confirmed_def)
qed

text \<open>C34: The scanner never connects to an address that is not public: whatever the input resolves to, every address that a
  scan tries to connect to is the text of an address outside all private, loopback, link-local, multicast and
  reserved blocks, IPv4 addresses in IPv6 form included.\<close>

theorem scan_dials_public_only:
  "list_all (public_address net) (snd (Scan net x lookup connect expired late over raw))"
proof -
  have "list_all (public_address net) (snd (publicDial net (lookup i n) (connect i n) a))" for i n a
    by (cases "publicDial net (lookup i n) (connect i n) a") (simp add: publicDial_tried)
  then show ?thesis unfolding Scan_def by (rule scan_tried)
qed

text \<open>C35: A target that a scan reports as feasible was confirmed: some handshake with it, for exactly the host that is reported,
  gave TLS 1.3, h2 and X25519 with a valid chain for that name. For a domain the host is the domain; for an address it is a
  name of the certificate the address showed. The results stand in the order of the targets and are counted.\<close>

theorem feasible_targets_are_confirmed:
  assumes "fst (scan_all net x dial expired late over raw) = Inr report"
  shows "\<exists>targets. parseRealityScanTargets net raw = Inr targets \<and> length (sr_results report) = length targets \<and>
    sr_total report = length targets \<and> sr_feasible report = length (filter re_Feasible (sr_results report)) \<and>
    (\<forall>i < length targets. re_Feasible (sr_results report ! i) \<longrightarrow>
       target_confirmed net x (dial i) (targets ! i) (re_Host (sr_results report ! i)))"
proof -
  obtain targets where t: "parseRealityScanTargets net raw = Inr targets"
    using assms by (auto simp: scan_all_def Let_def split: sum.splits)
  define runs where "runs = map (scan_slot net x dial expired late) (zip [0..<length targets] targets)"
  have report: "sr_results report = map fst runs" "sr_total report = length targets" "sr_feasible report = length (filter re_Feasible (map fst runs))"
    using assms t by (auto simp: scan_all_def Let_def runs_def split: if_splits)
  have "target_confirmed net x (dial i) (targets ! i) (re_Host (map fst runs ! i))" if "i < length targets" "re_Feasible (map fst runs ! i)" for i
  proof -
    have slot: "runs ! i = scan_slot net x dial expired late (i, targets ! i)" using that(1) by (simp add: runs_def)
    have "\<not> late i" using that slot by (auto simp: runs_def scan_slot_def zero_result_def empty_result_def)
    then have "runs ! i = scanRealityTarget net x (dial i) (expired i) (targets ! i)" using slot by (simp add: scan_slot_def)
    moreover have "map fst runs ! i = fst (runs ! i)" using that(1) by (simp add: runs_def)
    ultimately show ?thesis using that(2) target_feasible [of net x "dial i" "expired i" "targets ! i"] by (metis prod.collapse)
  qed
  then show ?thesis using t report by (simp add: runs_def)
qed

section \<open>The list of targets\<close>

definition good_label :: "string \<Rightarrow> bool" where
  "good_label l \<longleftrightarrow> l \<noteq> [] \<and> length l \<le> 63 \<and> hd l \<noteq> CHR ''-'' \<and> last l \<noteq> CHR ''-'' \<and> list_all label_char l"

definition good_domain :: "string \<Rightarrow> bool" where
  "good_domain d \<longleftrightarrow> length d \<le> 253 \<and> 2 \<le> length (split_on (CHR ''.'') d) \<and> list_all good_label (split_on (CHR ''.'') d)"

definition good_target :: "netip \<Rightarrow> scan_target \<Rightarrow> bool" where
  "good_target net t \<longleftrightarrow> 1 \<le> ta_port t \<and> ta_port t \<le> 65535 \<and> ta_address t = JoinHostPort (ta_host t) (itoa (ta_port t)) \<and>
     (if ta_isIP t then \<exists>a. zone a = [] \<and> ta_host t = addr_string net (unmap_addr a) else good_domain (ta_host t))"

lemma check_labels_good: "check_labels ls = Inr () \<Longrightarrow> list_all good_label ls"
  by (induction ls) (auto simp: good_label_def split: if_splits)

lemma split_on_two: "c \<in> set s \<Longrightarrow> 2 \<le> length (split_on c s)"
proof -
  assume "c \<in> set s"
  then obtain a b where "s = a @ c # b" by (meson split_list)
  moreover have "0 < length (split_on c a)" "0 < length (split_on c b)" by simp_all
  ultimately show ?thesis by (simp only: split_on_append length_append)
qed

lemma realityDomain_good: "realityDomain net raw = Inr d \<Longrightarrow> good_domain d"
  using check_labels_good [of "split_on (CHR ''.'') (to_lower (trim_space raw))"] split_on_two [of "CHR ''.''" "to_lower (trim_space raw)"]
  by (auto simp: realityDomain_def good_domain_def bind_res_def Let_def split: if_splits sum.splits)

lemma parse_target_good:
  assumes "parseRealityScanTarget net raw = Inr t"
  shows "good_target net t"
proof -
  obtain host port where hp: "host_and_port net raw = Inr (host, port)"
    using assms by (auto simp: parseRealityScanTarget_def bind_res_def split: sum.splits)
  have "1 \<le> port \<and> port \<le> 65535" using hp by (auto simp: host_and_port_def split: option.splits if_splits prod.splits)
  then show ?thesis using assms hp realityDomain_good [of net host]
    by (auto simp: parseRealityScanTarget_def bind_res_def good_target_def scan_target_of_def split: option.splits if_splits sum.splits)
qed

definition targets_ok :: "netip \<Rightarrow> target_list \<Rightarrow> bool" where
  "targets_ok net s \<longleftrightarrow> length (tl_targets s) \<le> tl_expanded s \<and> tl_expanded s \<le> 128 \<and> map ta_address (tl_targets s) = rev (tl_seen s) \<and>
     distinct (tl_seen s) \<and> list_all (good_target net) (tl_targets s)"

text \<open>Adding keeps the list in order and never removes a target; the target of the text is in it afterwards.\<close>

definition has_target :: "netip \<Rightarrow> target_list \<Rightarrow> string \<Rightarrow> bool" where
  "has_target net s raw \<longleftrightarrow> (\<exists>t. parseRealityScanTarget net raw = Inr t \<and> ta_address t \<in> set (tl_seen s))"

lemma appendTarget_spec:
  assumes "appendTarget net raw s = Inr s'" "targets_ok net s"
  shows "targets_ok net s' \<and> set (tl_seen s) \<subseteq> set (tl_seen s') \<and> has_target net s' raw"
proof -
  obtain t where t: "parseRealityScanTarget net raw = Inr t" and lim: "tl_expanded s + 1 \<le> 128"
    and s': "s' = (if ta_address t \<in> set (tl_seen s) then s\<lparr>tl_expanded := tl_expanded s + 1\<rparr>
      else s\<lparr>tl_expanded := tl_expanded s + 1, tl_seen := ta_address t # tl_seen s, tl_targets := tl_targets s @ [t]\<rparr>)"
    using assms(1) by (auto simp: appendTarget_def bind_res_def realityScanLimit_def Let_def split: if_splits sum.splits)
  have ok: "targets_ok net s'"
    using assms(2) lim s' parse_target_good [OF t] by (cases "ta_address t \<in> set (tl_seen s)") (simp_all add: targets_ok_def)
  show ?thesis using ok t s' by (auto simp: has_target_def)
qed

lemma has_target_mono: "has_target net s raw \<Longrightarrow> set (tl_seen s) \<subseteq> set (tl_seen s') \<Longrightarrow> has_target net s' raw"
  by (auto simp: has_target_def)

lemma append_all_spec:
  "append_all net rs s = Inr s' \<Longrightarrow> targets_ok net s \<Longrightarrow>
    targets_ok net s' \<and> set (tl_seen s) \<subseteq> set (tl_seen s') \<and> (\<forall>r \<in> set rs. has_target net s' r)"
proof (induction rs arbitrary: s)
  case (Cons r rs)
  obtain s1 where s1: "appendTarget net r s = Inr s1" "append_all net rs s1 = Inr s'"
    using Cons.prems(1) by (auto simp: bind_res_def split: sum.splits)
  note a = appendTarget_spec [OF s1(1) Cons.prems(2)]
  note b = Cons.IH [OF s1(2) conjunct1 [OF a]]
  show ?case using a b has_target_mono [of net s1 r s'] by auto
qed simp

text \<open>
  The loop over a range visits every address of it once. It is shown for any embedding of words
  as addresses, so that it serves both families.
\<close>

lemma unat_drop_mono: "unat v \<le> unat w \<Longrightarrow> unat (drop_bit k v) \<le> unat (drop_bit k w)" for v w :: "'a :: len word"
  by (simp add: unat_drop_bit_eq drop_bit_eq_div [where ?'a = nat] div_le_mono)

lemma prefix_addrs_words:
  fixes f :: "'a :: len word \<Rightarrow> addr"
  assumes "\<And>w. next_addr (f w) = (if w = -1 then None else Some (f (w + 1)))" "\<And>w. prefix_contains p (f w) \<longleftrightarrow> drop_bit k w = d"
  shows "drop_bit k w = d \<Longrightarrow> set (prefix_addrs p (f w)) = f ` {v. unat w \<le> unat v \<and> drop_bit k v = d}"
proof (induction "2 ^ LENGTH('a) - unat w" arbitrary: w rule: less_induct)
  case less
  have above: "{v. unat w \<le> unat v \<and> drop_bit k v = d} = insert w {v. unat w < unat v \<and> drop_bit k v = d}"
    using less.prems by (auto simp: le_less word_unat_eq_iff)
  show ?case
  proof (cases "w = -1")
    case True
    have "\<not> unat w < unat v" for v :: "'a word" using True word_n1_ge [of v] by (simp add: word_le_nat_alt not_less)
    then have one: "{v. unat w < unat v \<and> drop_bit k v = d} = {}" by blast
    have "prefix_contains p (f w)" "next_addr (f w) = None" using assms less.prems True by blast (simp add: assms(1) True)
    then have "prefix_addrs p (f w) = [f w]" by (subst prefix_addrs.simps) simp
    then show ?thesis unfolding above one by simp
  next
    case False
    have up: "unat (w + 1) = Suc (unat w)" by (rule unat_next [OF False])
    have step: "prefix_addrs p (f w) = f w # prefix_addrs p (f (w + 1))"
      using False less.prems assms by (subst prefix_addrs.simps) simp
    have greater: "{v. unat w < unat v \<and> drop_bit k v = d} = {v. unat (w + 1) \<le> unat v \<and> drop_bit k v = d}" by (simp add: up Suc_le_eq)
    show ?thesis
    proof (cases "drop_bit k (w + 1) = d")
      case True
      have "2 ^ LENGTH('a) - unat (w + 1) < 2 ^ LENGTH('a) - unat w" unfolding up using unsigned_less [of w, where ?'a = nat] by linarith
      from less.hyps [OF this True] show ?thesis by (simp add: step above greater)
    next
      case no: False
      have "drop_bit k v \<noteq> d" if "unat (w + 1) \<le> unat v" for v
      proof
        assume "drop_bit k v = d"
        then have "unat (drop_bit k (w + 1)) = unat d"
          using unat_drop_mono [OF that, of k] unat_drop_mono [of w "w + 1" k] less.prems up by simp
        then show False using no by (simp add: unsigned_word_eqI)
      qed
      then have none: "{v. unat (w + 1) \<le> unat v \<and> drop_bit k v = d} = {}" by blast
      have "prefix_addrs p (f (w + 1)) = []" using no assms(2) by (subst prefix_addrs.simps) simp
      then show ?thesis by (simp add: step above greater none)
    qed
  qed
qed

lemma block_start: "drop_bit k v = drop_bit k w \<Longrightarrow> unat (push_bit k (drop_bit k w)) \<le> unat v" for v w :: "'a :: len word"
proof -
  assume same: "drop_bit k v = drop_bit k w"
  have "unat (push_bit k (drop_bit k v)) \<le> unat (drop_bit k v) * 2 ^ k"
    by (simp add: unsigned_push_bit_eq push_bit_eq_mult [where ?'a = nat] take_bit_nat_less_eq_self)
  also have "\<dots> \<le> unat v" by (simp add: unat_drop_bit_eq drop_bit_eq_div [where ?'a = nat])
  finally show ?thesis using same by simp
qed

lemma block_itself: "drop_bit k (push_bit k (drop_bit k w)) = drop_bit k w" for w :: "'a :: len word"
  by (simp add: bit_eq_iff bit_drop_bit_eq bit_push_bit_iff) (metis bit_imp_le_length)

text \<open>A range is the prefix of net/netip; it contains an address when the leading bits agree.\<close>

lemma masked_range:
  assumes "\<not> is4in6 a" "zone b = []" "prefix_contains (a, n) b"
  shows "b \<in> set (prefix_addrs (masked (a, n)) (fst (masked (a, n))))"
proof (cases a)
  case (V4 p)
  then obtain v where b: "b = V4 v" "drop_bit (32 - n) v = drop_bit (32 - n) p" using assms(3) by (cases b) auto
  let ?p = "push_bit (32 - n) (drop_bit (32 - n) p)"
  have "set (prefix_addrs (V4 ?p, n) (V4 ?p)) = V4 ` {v. unat ?p \<le> unat v \<and> drop_bit (32 - n) v = drop_bit (32 - n) ?p}"
    by (rule prefix_addrs_words) simp_all
  then show ?thesis using V4 b block_start [OF b(2)] by (simp add: block_itself)
next
  case (V6 p z)
  then obtain v where b: "b = V6 v []" "drop_bit (128 - n) v = drop_bit (128 - n) p" using assms(2,3) by (cases b) auto
  let ?p = "push_bit (128 - n) (drop_bit (128 - n) p)"
  have "set (prefix_addrs (V6 ?p [], n) (V6 ?p [])) = (\<lambda>v. V6 v []) ` {v. unat ?p \<le> unat v \<and> drop_bit (128 - n) v = drop_bit (128 - n) ?p}"
    by (rule prefix_addrs_words [where f = "\<lambda>v. V6 v []"]) simp_all
  then show ?thesis using V6 b block_start [OF b(2)] by (simp add: block_itself)
qed

lemma append_part_spec:
  assumes "append_part net part s = Inr s'" "targets_ok net s"
  shows "targets_ok net s' \<and> set (tl_seen s) \<subseteq> set (tl_seen s') \<and> tl_seen s' \<noteq> [] \<and>
    (CHR ''/'' \<notin> set part \<longrightarrow> has_target net s' part) \<and>
    (\<forall>a n b. CHR ''/'' \<in> set part \<longrightarrow> parse_prefix net part = Some (a, n) \<longrightarrow> zone b = [] \<longrightarrow> prefix_contains (a, n) b
       \<longrightarrow> has_target net s' (addr_string net b))"
proof (cases "CHR ''/'' \<in> set part")
  case False
  then have "appendTarget net part s = Inr s'" using assms(1) by (simp add: append_part_def)
  from appendTarget_spec [OF this assms(2)] show ?thesis using False by (auto simp: has_target_def)
next
  case True
  obtain a n where p: "parse_prefix net part = Some (a, n)" "\<not> is4in6 a"
    and all: "append_all net (map (addr_string net) (prefix_addrs (masked (a, n)) (fst (masked (a, n))))) s = Inr s'"
    using assms(1) True by (auto simp: append_part_def split: option.splits if_splits)
  note spec = append_all_spec [OF all assms(2)]
  have every: "has_target net s' (addr_string net b)" if "zone b = []" "prefix_contains (a, n) b" for b
    using spec masked_range [OF p(2) that] by auto
  obtain b where "zone b = []" "prefix_contains (a, n) b"
  proof (cases a)
    case (V4 w)
    then show thesis using that [of "V4 w"] by simp
  next
    case (V6 w z)
    then show thesis using that [of "V6 w []"] by simp
  qed
  then have "tl_seen s' \<noteq> []" using every by (auto simp: has_target_def)
  then show ?thesis using spec every p(1) True by auto
qed

lemma append_parts_spec:
  "append_parts net ps s = Inr s' \<Longrightarrow> targets_ok net s \<Longrightarrow>
    targets_ok net s' \<and> set (tl_seen s) \<subseteq> set (tl_seen s') \<and> (ps \<noteq> [] \<longrightarrow> tl_seen s' \<noteq> []) \<and>
    (\<forall>part a n b. part \<in> set ps \<longrightarrow> CHR ''/'' \<in> set part \<longrightarrow> parse_prefix net part = Some (a, n) \<longrightarrow> zone b = [] \<longrightarrow> prefix_contains (a, n) b
       \<longrightarrow> has_target net s' (addr_string net b)) \<and>
    (\<forall>part. part \<in> set ps \<longrightarrow> CHR ''/'' \<notin> set part \<longrightarrow> has_target net s' part)"
proof (induction ps arbitrary: s)
  case (Cons p ps)
  obtain s1 where s1: "append_part net p s = Inr s1" "append_parts net ps s1 = Inr s'"
    using Cons.prems(1) by (auto simp: bind_res_def split: sum.splits)
  note a = append_part_spec [OF s1(1) Cons.prems(2)]
  note b = Cons.IH [OF s1(2) conjunct1 [OF a]]
  have le: "set (tl_seen s1) \<subseteq> set (tl_seen s')" using b by blast
  have here: "has_target net s' (addr_string net c)"
    if "CHR ''/'' \<in> set p" "parse_prefix net p = Some (v, n)" "zone c = []" "prefix_contains (v, n) c" for v n c
    using a that has_target_mono [OF _ le] by blast
  have plain: "CHR ''/'' \<notin> set p \<longrightarrow> has_target net s' p" using a has_target_mono [OF _ le] by blast
  have "tl_seen s' \<noteq> []" using a le by auto
  then show ?case using a b here plain by auto
qed simp

text \<open>The parts of the input: what stands between commas and spaces, or the defaults.\<close>

definition scan_parts :: "string \<Rightarrow> string list" where
  "scan_parts raw = (let given = fields_by (\<lambda>c. c = CHR '','' \<or> is_space c) [] raw in if given = [] then realityScanDefaults else given)"

lemma parse_targets_spec:
  assumes "parseRealityScanTargets net raw = Inr ts"
  obtains s where "append_parts net (scan_parts raw) \<lparr>tl_targets = [], tl_seen = [], tl_expanded = 0\<rparr> = Inr s" "ts = tl_targets s"
    "targets_ok net \<lparr>tl_targets = [], tl_seen = [], tl_expanded = 0\<rparr>" "scan_parts raw \<noteq> []"
  using assms
  by (auto simp: parseRealityScanTargets_def scan_parts_def targets_ok_def realityScanDefaults_def bind_res_def Let_def split: if_splits sum.splits)

text \<open>An accepted scan has between 1 and 128 targets with different addresses. Each has a port in range and is an address
  without a zone, or a domain of at least two well-formed labels.\<close>

theorem scan_targets_bounded:
  assumes "parseRealityScanTargets net raw = Inr ts"
  shows "1 \<le> length ts \<and> length ts \<le> 128 \<and> distinct (map ta_address ts) \<and> list_all (good_target net) ts"
  using assms
proof (rule parse_targets_spec)
  fix s
  assume s: "append_parts net (scan_parts raw) \<lparr>tl_targets = [], tl_seen = [], tl_expanded = 0\<rparr> = Inr s" "ts = tl_targets s"
    and ok: "targets_ok net \<lparr>tl_targets = [], tl_seen = [], tl_expanded = 0\<rparr>" and parts: "scan_parts raw \<noteq> []"
  note spec = append_parts_spec [OF s(1) ok]
  have kept: "targets_ok net s" "tl_seen s \<noteq> []" using spec parts by blast+
  have eq: "map ta_address ts = rev (tl_seen s)" using kept(1) s(2) by (simp add: targets_ok_def)
  then have "ts \<noteq> []" using kept(2) by auto
  then have "1 \<le> length ts" by (simp add: Suc_le_eq)
  moreover have "length ts \<le> 128" "list_all (good_target net) ts" using kept(1) s(2) by (simp_all add: targets_ok_def)
  moreover have "distinct (map ta_address ts)" unfolding eq using kept(1) by (simp add: targets_ok_def)
  ultimately show ?thesis by blast
qed

text \<open>Every address of an accepted range is scanned: for each address of a prefix in the input, the list of targets has one
  with the address that the text of it names.\<close>

theorem ranges_are_scanned:
  assumes "parseRealityScanTargets net raw = Inr ts" "part \<in> set (scan_parts raw)" "CHR ''/'' \<in> set part"
    "parse_prefix net part = Some (a, n)" "zone b = []" "prefix_contains (a, n) b"
  shows "\<exists>t t'. t \<in> set ts \<and> parseRealityScanTarget net (addr_string net b) = Inr t' \<and> ta_address t = ta_address t'"
  using assms(1)
proof (rule parse_targets_spec)
  fix s
  assume s: "append_parts net (scan_parts raw) \<lparr>tl_targets = [], tl_seen = [], tl_expanded = 0\<rparr> = Inr s" "ts = tl_targets s"
    and ok: "targets_ok net \<lparr>tl_targets = [], tl_seen = [], tl_expanded = 0\<rparr>"
  note spec = append_parts_spec [OF s(1) ok]
  have "has_target net s (addr_string net b)" using spec assms(2-6) by blast
  then obtain t' where t': "parseRealityScanTarget net (addr_string net b) = Inr t'" "ta_address t' \<in> set (tl_seen s)"
    by (auto simp: has_target_def)
  have "map ta_address ts = rev (tl_seen s)" using spec s(2) by (simp add: targets_ok_def)
  then have "ta_address t' \<in> set (map ta_address ts)" using t'(2) by simp
  then show ?thesis using t'(1) by auto
qed

section \<open>Examples\<close>

text \<open>IPv4 addresses written as one number; \<open>2/31\<close> is the range of the addresses 2 and 3.\<close>

definition sample_netip :: netip where
  "sample_netip = \<lparr>parse_prefix = (\<lambda>s. if s = ''2/31'' then Some (V4 2, 31) else None),
     parse_addr = (\<lambda>s. if s = ''2'' then Some (V4 2) else if s = ''3'' then Some (V4 3) else None),
     addr_string = (\<lambda>a. if a = V4 2 then ''2'' else if a = V4 3 then ''3'' else ''x'')\<rparr>"

lemma sample_append:
  "append_parts sample_netip (scan_parts ''2/31,ab.cd'') \<lparr>tl_targets = [], tl_seen = [], tl_expanded = 0\<rparr> =
     Inr \<lparr>tl_targets = [scan_target_of ''2'' 443 True, scan_target_of ''3'' 443 True, scan_target_of ''ab.cd'' 443 False],
       tl_seen = [''ab.cd:443'', ''3:443'', ''2:443''], tl_expanded = 3\<rparr>"
  by code_simp

lemma sample_parsed:
  "parseRealityScanTargets sample_netip ''2/31,ab.cd'' = Inr [scan_target_of ''2'' 443 True, scan_target_of ''3'' 443 True, scan_target_of ''ab.cd'' 443 False]"
proof -
  have "length (scan_parts ''2/31,ab.cd'') \<le> realityScanLimit" by code_simp
  then show ?thesis using sample_append by (simp add: parseRealityScanTargets_def scan_parts_def bind_res_def Let_def)
qed

theorem scan_targets_bounded_witness:
  "let ts = [scan_target_of ''2'' 443 True, scan_target_of ''3'' 443 True, scan_target_of ''ab.cd'' 443 False] in
   parseRealityScanTargets sample_netip ''2/31,ab.cd'' = Inr ts \<and> 1 \<le> length ts \<and> length ts \<le> 128 \<and> distinct (map ta_address ts) \<and>
   list_all (good_target sample_netip) ts"
  using sample_parsed scan_targets_bounded [OF sample_parsed] by (simp only: Let_def)

theorem ranges_are_scanned_witness:
  "\<exists>t t'. t \<in> set [scan_target_of ''2'' 443 True, scan_target_of ''3'' 443 True, scan_target_of ''ab.cd'' 443 False] \<and>
     parseRealityScanTarget sample_netip ''3'' = Inr t' \<and> ta_address t = ta_address t'"
proof -
  have three: "addr_string sample_netip (V4 3) = ''3''" by (simp add: sample_netip_def)
  have part: "''2/31'' \<in> set (scan_parts ''2/31,ab.cd'')" "CHR ''/'' \<in> set ''2/31''" "parse_prefix sample_netip ''2/31'' = Some (V4 2, 31)" by code_simp+
  have inside: "zone (V4 3) = []" "prefix_contains (V4 2, 31) (V4 3)" by code_simp+
  show ?thesis using ranges_are_scanned [OF sample_parsed part inside] unfolding three .
qed

text \<open>A target that fulfils everything.\<close>

definition sample_dial :: "nat \<Rightarrow> nat \<Rightarrow> scan_dial" where
  "sample_dial i n a = (Inr \<lparr>sc_remote = ''9:443'', sc_handshake = (\<lambda>_. Some \<lparr>ts_version = 772, ts_alpn = ''h2'', ts_curve = 29,
     ts_certs = [\<lparr>ce_size = 1, ce_names = [''ab.cd'']\<rparr>]\<rparr>)\<rparr>, [a])"

definition sample_x509 :: x509 where
  "sample_x509 = \<lparr>x_chain = (\<lambda>_. True), x_hostname = (\<lambda>c name. name \<in> set (ce_names c))\<rparr>"

theorem feasible_targets_are_confirmed_witness:
  "\<exists>report. fst (scan_all sample_netip sample_x509 sample_dial (\<lambda>_ _. False) (\<lambda>_. False) False ''2/31,ab.cd'') = Inr report \<and>
     sr_feasible report = 3 \<and> target_confirmed sample_netip sample_x509 (sample_dial 0) (scan_target_of ''2'' 443 True) ''ab.cd''"
proof -
  define targets where "targets = [scan_target_of ''2'' 443 True, scan_target_of ''3'' 443 True, scan_target_of ''ab.cd'' 443 False]"
  define runs where "runs = map (scan_slot sample_netip sample_x509 sample_dial (\<lambda>_ _. False) (\<lambda>_. False)) (zip [0..<length targets] targets)"
  define report where "report = \<lparr>sr_results = map fst runs, sr_total = length runs, sr_feasible = length (filter re_Feasible (map fst runs))\<rparr>"
  have run: "fst (scan_all sample_netip sample_x509 sample_dial (\<lambda>_ _. False) (\<lambda>_. False) False ''2/31,ab.cd'') = Inr report"
    using sample_parsed by (simp add: scan_all_def Let_def report_def runs_def targets_def)
  have all: "length runs = 3" "re_Feasible (map fst runs ! 0)" "re_Host (map fst runs ! 0) = ''ab.cd''" "length (filter re_Feasible (map fst runs)) = 3"
    unfolding runs_def targets_def by code_simp+
  from feasible_targets_are_confirmed [OF run] have "target_confirmed sample_netip sample_x509 (sample_dial 0) (targets ! 0) ''ab.cd''"
    using all sample_parsed by (auto simp: report_def targets_def)
  then show ?thesis using run all by (auto simp: report_def targets_def)
qed

end
