(* ===== verification/Agent_Runtime.thy ===== *)
theory Agent_Runtime
  imports Shared_Users Mihomo Log_Streams Node_Tools User_Policy Reality_Scan
begin

text \<open>
  The runtime as a whole (internal/runtime/runtime.go and managed_config.go): the state of all components, applying a
  core configuration together with its auxiliary listeners, start and end of the Agent, and the handling of a command.

  The components are those of the other theories. The texts of requests that Go decodes by itself (a firewall request, a
  grant, an envelope, policies) reach the model decoded by parameters. The answer to a command is its status; the data
  of the components are what their own definitions give.
\<close>

section \<open>The state\<close>

record ('k, 't) runtime =
  rt_node :: "'k node"
  rt_aux :: aux_manager
  rt_auxworld :: aux_world
  rt_forwards :: forward_world
  rt_tunnels :: "'t tunnel_world"
  rt_tools :: tool_files
  rt_logs :: log_streams
  rt_policies :: policy_runtime

text \<open>What a scan of REALITY targets meets: the clock read before it, the resolver and connections of each probe, deadlines.\<close>

record scan_host =
  sh_x509 :: x509
  sh_time :: "string \<Rightarrow> int option"
  sh_lookup :: "nat \<Rightarrow> nat \<Rightarrow> string \<Rightarrow> addr list option"
  sh_connect :: "nat \<Rightarrow> nat \<Rightarrow> string \<Rightarrow> scan_conn option"
  sh_expired :: "nat \<Rightarrow> nat \<Rightarrow> bool"
  sh_late :: "nat \<Rightarrow> bool"
  sh_over :: bool

text \<open>The directory of old configurations: each entry is a directory or a file with its size and time, if they can be read.\<close>

datatype history_entry = HistoryFolder | HistoryFile "(int \<times> int) option"

datatype history_dir = NoHistory | UnreadableHistory | HistoryDir "(string \<times> history_entry) list"

record ('k, 't) runtime_env =
  ru_core :: "'k core_env"
  ru_fed :: federation_env
  ru_aux :: aux_env
  ru_forward :: forward_env
  ru_tunnel :: "'t tunnel_env"
  ru_cert :: cert_tools
  ru_server_id :: string
  ru_data_dir :: string
  ru_nginx :: string
  ru_tests :: "string \<Rightarrow> bool"
  ru_reloads :: "string \<Rightarrow> bool"
  ru_nginx_ok :: bool
  ru_now :: int
  ru_later :: int
  ru_size :: "json \<Rightarrow> nat"
  ru_text :: "string \<Rightarrow> json option"
  ru_whole :: "string \<Rightarrow> int"
  ru_number :: "string \<Rightarrow> rat"
  ru_parse_ip :: "string \<Rightarrow> bool"
  ru_can_listen :: "string \<Rightarrow> string \<Rightarrow> bool"
  ru_rnd :: "rat \<Rightarrow> rat"
  ru_connects :: "nat \<Rightarrow> nat option"
  ru_cancelled :: "nat \<Rightarrow> bool"
  ru_icmp :: icmp_world
  ru_link_json :: "string \<Rightarrow> json option"
  ru_history :: "string \<Rightarrow> json option list \<Rightarrow> json option option"
  ru_history_dir :: history_dir
  ru_ports :: "jmap \<Rightarrow> firewall_request"
  ru_grant :: "json \<Rightarrow> signed_grant option"
  ru_envelope :: "json \<Rightarrow> federation_envelope option"
  ru_policy_list :: "string \<Rightarrow> user_policy list option"
  ru_policy_text :: "json \<Rightarrow> string option"
  ru_policy_written :: bool
  ru_forward_fails :: bool
  ru_interfaces :: bool
  ru_scan :: scan_host
  ru_unsupported :: "string \<Rightarrow> bool"

section \<open>A configuration with its auxiliary listeners\<close>

datatype managed_error = ManagedCore core_error | NotAuxObject | NotListeners | NoMihomo | ManagedRead | AuxFailed aux_error "bool option" bool

text \<open>Going back to the old text: it is applied again, or the core is stopped and the file removed.\<close>

definition recover_core :: "'k core_env \<Rightarrow> json option option \<Rightarrow> 'k node \<Rightarrow> bool \<times> 'k node" where
  "recover_core env old n =
     (case old of
        Some text_doc \<Rightarrow> (case applyConfig env text_doc n of (r, n1) \<Rightarrow> (is_ok r, n1))
      | None \<Rightarrow>
          (case stop_core env n of
             (Inl _, n1) \<Rightarrow> (False, n1)
           | (Inr _, n1) \<Rightarrow>
               (case node_fault n1 of (failed, n2) \<Rightarrow> if failed \<or> nd_file n2 = NoConfig then (False, n2) else (True, n2\<lparr>nd_file := NoConfig\<rparr>))))"

definition applyManagedConfig ::
  "('k, 't) runtime_env \<Rightarrow> json option \<Rightarrow> jmap \<Rightarrow> ('k, 't) runtime \<Rightarrow> (managed_error, unit) res \<times> ('k, 't) runtime" where
  "applyManagedConfig ru config params rt =
     (case map_of params ''auxiliary'' of
        None \<Rightarrow>
          (case applyConfig (ru_core ru) config (rt_node rt) of (r, n1) \<Rightarrow>
             (case r of Inl e \<Rightarrow> Inl (ManagedCore e) | Inr u \<Rightarrow> Inr u, rt\<lparr>rt_node := n1\<rparr>))
      | Some (JObj aux) \<Rightarrow>
          (case map_of aux ''listeners'' of
             Some (JArr listeners) \<Rightarrow>
               if listeners \<noteq> [] \<and> \<not> Available_aux (rt_aux rt) then (Inl NoMihomo, rt)
               else (case read_core (nd_file (rt_node rt)) of
                  Inl e \<Rightarrow> (Inl ManagedRead, rt)
                | Inr old \<Rightarrow>
                    (case applyConfig (ru_core ru) config (rt_node rt) of
                       (Inl e, n1) \<Rightarrow> (Inl (ManagedCore e), rt\<lparr>rt_node := n1\<rparr>)
                     | (Inr _, n1) \<Rightarrow>
                         (case Apply_aux (ru_aux ru) (ru_size ru) (JArr listeners) (rt_aux rt) (rt_auxworld rt) of
                            (Inr _, m1, w1) \<Rightarrow> (Inr (), rt\<lparr>rt_node := n1, rt_aux := m1, rt_auxworld := w1\<rparr>)
                          | (Inl (e, report), m1, w1) \<Rightarrow>
                              (case recover_core (ru_core ru) old n1 of (ok, n2) \<Rightarrow>
                                 (Inl (AuxFailed e report ok), rt\<lparr>rt_node := n2, rt_aux := m1, rt_auxworld := w1\<rparr>)))))
           | _ \<Rightarrow> (Inl NotListeners, rt))
      | Some _ \<Rightarrow> (Inl NotAuxObject, rt))"

section \<open>Start and end\<close>

text \<open>The failures of a start, in the order in which they happen.\<close>

datatype start_failure = FirewallRecovery core_error | RestoreForwards forward_error | RestoreTunnels tunnel_error | CoreStart core_error
  | AuxStart_failure aux_error

definition fail_list :: "('e \<Rightarrow> start_failure) \<Rightarrow> ('e, 'a) res \<Rightarrow> start_failure list" where
  "fail_list f r = (case r of Inl e \<Rightarrow> [f e] | Inr _ \<Rightarrow> [])"

definition Start_runtime :: "('k, 't) runtime_env \<Rightarrow> ('k, 't) runtime \<Rightarrow> start_failure list \<times> ('k, 't) runtime" where
  "Start_runtime ru rt =
     (case ensure_fw (ru_core ru) (rt_node rt) of
        (Inl e, n1) \<Rightarrow>
          ([FirewallRecovery e], rt\<lparr>rt_node := n1\<lparr>nd_fw := snd (firewallStatus (fw_env_of (ru_core ru) n1) (nd_fw n1))\<rparr>\<rparr>)
      | (Inr _, n1) \<Rightarrow>
          (case restoreForwards (ru_forward ru) (rt_forwards rt) of (rf, f1) \<Rightarrow>
             case restoreWireGuard (ru_tunnel ru) (rt_tunnels rt) of (rw, t1) \<Rightarrow>
               let before = fail_list RestoreForwards rf @ fail_list RestoreTunnels rw in
               (case start_core (ru_core ru) n1 of
                  (Inl e, n2) \<Rightarrow> (before @ [CoreStart e], rt\<lparr>rt_node := n2, rt_forwards := f1, rt_tunnels := t1\<rparr>)
                | (Inr _, n2) \<Rightarrow>
                    (case Start_aux (ru_aux ru) (rt_aux rt) (rt_auxworld rt) of (ra, m1, w1) \<Rightarrow>
                       (before @ fail_list AuxStart_failure ra,
                        rt\<lparr>rt_node := n2, rt_forwards := f1, rt_tunnels := t1, rt_aux := m1, rt_auxworld := w1\<rparr>)))))"

definition Close_runtime :: "('k, 't) runtime_env \<Rightarrow> ('k, 't) runtime \<Rightarrow> bool \<times> ('k, 't) runtime" where
  "Close_runtime ru rt =
     (case Close_aux (rt_aux rt) (rt_auxworld rt) of (m1, w1) \<Rightarrow>
        case stop_core (ru_core ru) (rt_node rt) of (r, n1) \<Rightarrow>
          (is_ok r, rt\<lparr>rt_node := n1, rt_aux := m1, rt_auxworld := w1, rt_forwards := close_manager (rt_forwards rt), rt_logs := closeLogs (rt_logs rt)\<rparr>))"

section \<open>Commands\<close>

datatype command_status = Success | Failed | Unsupported_command

definition status_of :: "('e, 'a) res \<Rightarrow> command_status" where
  "status_of r = (if is_ok r then Success else Failed)"

definition on_node :: "('k node \<Rightarrow> ('e, 'a) res \<times> 'k node) \<Rightarrow> ('k, 't) runtime \<Rightarrow> command_status \<times> ('k, 't) runtime" where
  "on_node f rt = (case f (rt_node rt) of (r, n1) \<Rightarrow> (status_of r, rt\<lparr>rt_node := n1\<rparr>))"

definition on_aux ::
  "(aux_manager \<Rightarrow> aux_world \<Rightarrow> ('e, 'a) res \<times> aux_manager \<times> aux_world) \<Rightarrow> ('k, 't) runtime \<Rightarrow> command_status \<times> ('k, 't) runtime" where
  "on_aux f rt = (case f (rt_aux rt) (rt_auxworld rt) of (r, m1, w1) \<Rightarrow> (status_of r, rt\<lparr>rt_aux := m1, rt_auxworld := w1\<rparr>))"

definition configBytes :: "(string \<Rightarrow> json option) \<Rightarrow> json \<Rightarrow> (core_error, json option) res" where
  "configBytes parse v = (case v of JStr s \<Rightarrow> Inr (parse s) | JNull \<Rightarrow> Inl NotConfigObject | _ \<Rightarrow> Inr (Some v))"

definition network_config :: "('k, 't) runtime_env \<Rightarrow> json option \<Rightarrow> jmap \<Rightarrow> (core_error, json option) res" where
  "network_config ru b params = proxyNetworkConfig (text_size (ce_geo (ru_core ru))) b params"

definition given_config :: "('k, 't) runtime_env \<Rightarrow> jmap \<Rightarrow> (core_error, json option) res" where
  "given_config ru params = bind_res (configBytes (ru_text ru) (get_any params ''config'')) (\<lambda>b. network_config ru b params)"

text \<open>The old configurations, the largest name first.\<close>

fun history_items :: "(string \<times> history_entry) list \<Rightarrow> (core_error, (string \<times> int \<times> int) list) res" where
  "history_items [] = Inr []"
| "history_items ((name, entry) # rest) =
     (case entry of
        HistoryFolder \<Rightarrow> history_items rest
      | HistoryFile info \<Rightarrow>
          if \<not> safeName name then history_items rest
          else case info of
            None \<Rightarrow> Inl HistoryFailed
          | Some (len, stamp) \<Rightarrow> bind_res (history_items rest) (\<lambda>items. Inr ((name, len, stamp) # items)))"

definition history :: "history_dir \<Rightarrow> (core_error, (string \<times> int \<times> int) list) res" where
  "history d =
     (case d of
        NoHistory \<Rightarrow> Inr []
      | UnreadableHistory \<Rightarrow> Inl HistoryFailed
      | HistoryDir entries \<Rightarrow> bind_res (history_items entries) (\<lambda>items. Inr (rev (sort_key fst items))))"

text \<open>The commands on the core.\<close>

definition test_config :: "('k, 't) runtime_env \<Rightarrow> jmap \<Rightarrow> 'k node \<Rightarrow> (core_error, unit) res \<times> 'k node" where
  "test_config ru params n =
     (case given_config ru params of
        Inl e \<Rightarrow> (Inl e, n)
      | Inr b \<Rightarrow>
          (case ensure_geo (ru_core ru) b n of
             (Inl e, n1) \<Rightarrow> (Inl e, n1)
           | (Inr _, n1) \<Rightarrow> (if parseConfig (ru_core ru) b then Inr () else Inl CoreInvalid, n1)))"

definition restore_config :: "('k, 't) runtime_env \<Rightarrow> jmap \<Rightarrow> 'k node \<Rightarrow> (core_error, unit) res \<times> 'k node" where
  "restore_config ru params n =
     (let name = get_string params ''name'' in
      if \<not> safeName name then (Inl HistoryFailed, n)
      else case ru_history ru name (nd_history n) of
        None \<Rightarrow> (Inl CoreRead, n)
      | Some b \<Rightarrow> (case network_config ru b params of Inl e \<Rightarrow> (Inl e, n) | Inr b' \<Rightarrow> applyConfig (ru_core ru) b' n))"

definition core_command :: "('k, 't) runtime_env \<Rightarrow> string \<Rightarrow> jmap \<Rightarrow> ('k, 't) runtime \<Rightarrow> (command_status \<times> ('k, 't) runtime) option" where
  "core_command ru action params rt =
     (if action = ''core.status'' \<or> action = ''core.connections'' then Some (Success, rt)
      else if action = ''core.config.history'' then Some (status_of (history (ru_history_dir ru)), rt)
      else if action = ''core.config.get'' then
        Some (case nd_file (rt_node rt) of ConfigText (Some _) \<Rightarrow> Success | _ \<Rightarrow> Failed, rt)
      else if action = ''core.config.test'' then Some (on_node (test_config ru params) rt)
      else if action = ''core.config.apply'' then
        Some (case given_config ru params of
            Inl _ \<Rightarrow> (Failed, rt)
          | Inr b \<Rightarrow> (case applyManagedConfig ru b params rt of (r, rt1) \<Rightarrow> (status_of r, rt1)))
      else if action = ''core.config.restore'' then Some (on_node (restore_config ru params) rt)
      else if action = ''core.start'' then Some (on_node (start_core (ru_core ru)) rt)
      else if action = ''core.stop'' then Some (on_node (stop_core (ru_core ru)) rt)
      else if action = ''core.restart'' then Some (on_node (restart (ru_core ru)) rt)
      else if action = ''core.users.sync'' then
        Some (on_node (syncOwnerUsers (ru_core ru) (get_string params ''inbound'') (get_any params ''users'')) rt)
      else if action = ''core.stats'' then Some (status_of (readStats (ru_core ru) (rt_node rt)), rt)
      else if action = ''core.policy.apply'' then
        Some (case applyPolicies (ru_policy_list ru) (\<lambda>e. e \<in> set (BridgeEmails (rt_aux rt))) (ru_policy_written ru) (rt_policies rt)
            (ru_policy_text ru (get_any params ''policies'')) of (r, p1, _) \<Rightarrow> (status_of r, rt\<lparr>rt_policies := p1\<rparr>))
      else None)"

text \<open>The commands on the auxiliary process, the federation and the firewall.\<close>

definition aux_command :: "('k, 't) runtime_env \<Rightarrow> string \<Rightarrow> jmap \<Rightarrow> ('k, 't) runtime \<Rightarrow> (command_status \<times> ('k, 't) runtime) option" where
  "aux_command ru action params rt =
     (if action = ''mihomo.config.apply'' then Some (on_aux (Apply_aux (ru_aux ru) (ru_size ru) (get_any params ''listeners'')) rt)
      else if action = ''mihomo.users.sync'' then
        Some (on_aux (Sync_aux (ru_aux ru) (get_string params ''inbound'') (get_any params ''users'')) rt)
      else if action = ''mihomo.status'' \<or> action = ''mihomo.config.get'' then Some (Success, rt)
      else if action = ''mihomo.start'' \<or> action = ''mihomo.restart'' then Some (on_aux (Activate_aux (ru_aux ru)) rt)
      else if action = ''mihomo.stop'' then Some (on_aux Stop_aux rt)
      else None)"

definition federation_command :: "('k, 't) runtime_env \<Rightarrow> string \<Rightarrow> jmap \<Rightarrow> ('k, 't) runtime \<Rightarrow> (command_status \<times> ('k, 't) runtime) option" where
  "federation_command ru action params rt =
     (if action = ''federation.identity'' then
        Some (on_node (\<lambda>n. case federationIdentity (fx_crypto (ru_fed ru)) (fx_random (ru_fed ru)) (nd_fed n) of (r, w) \<Rightarrow> (r, n\<lparr>nd_fed := w\<rparr>)) rt)
      else if action = ''federation.grant'' then
        Some (on_node (\<lambda>n. case installFederationGrant (fx_crypto (ru_fed ru)) (ce_sign (ru_core ru)) (fx_random (ru_fed ru)) (ru_server_id ru)
          (ru_grant ru (get_any params ''signed_grant'')) (nd_fed n) of (r, w) \<Rightarrow> (r, n\<lparr>nd_fed := w\<rparr>)) rt)
      else if action = ''federation.execute'' then
        Some (on_node (executeFederation (ru_core ru) (ru_fed ru) (ru_envelope ru (get_any params ''envelope''))) rt)
      else if action = ''network.firewall.apply'' then Some (on_node (apply_fw (ru_core ru) (ru_ports ru params)) rt)
      else if action = ''network.firewall.status'' then
        Some (case firewallStatus (fw_env_of (ru_core ru) (rt_node rt)) (nd_fw (rt_node rt)) of
          (_, w) \<Rightarrow> (Success, rt\<lparr>rt_node := (rt_node rt)\<lparr>nd_fw := w\<rparr>\<rparr>))
      else None)"

text \<open>A scan has to be asked for before it expires.\<close>

definition scan_command :: "netip \<Rightarrow> scan_host \<Rightarrow> int \<Rightarrow> jmap \<Rightarrow> bool" where
  "scan_command net sh now params =
     (case sh_time sh (get_string params ''expiresAt'') of
        None \<Rightarrow> False
      | Some deadline \<Rightarrow> now < deadline \<and>
          is_ok (fst (Scan net (sh_x509 sh) (sh_lookup sh) (sh_connect sh) (sh_expired sh) (sh_late sh) (sh_over sh) (get_string params ''targets''))))"

text \<open>The other commands.\<close>

definition tool_command :: "('k, 't) runtime_env \<Rightarrow> string \<Rightarrow> jmap \<Rightarrow> ('k, 't) runtime \<Rightarrow> (command_status \<times> ('k, 't) runtime) option" where
  "tool_command ru action params rt =
     (if action = ''logs.read'' \<or> action = ''logs.remove'' then
        Some (case logCommand (ru_whole ru) action params (rt_logs rt) of (r, l1) \<Rightarrow> (status_of r, rt\<lparr>rt_logs := l1\<rparr>))
      else if action = ''reality.scan'' then Some (if scan_command (netip_of (ce_fw (ru_core ru))) (ru_scan ru) (ru_now ru) params then Success else Failed, rt)
      else if action = ''server.ports.check'' then
        Some (status_of (checkPorts (ru_number ru) (ru_parse_ip ru) (ru_can_listen ru) params), rt)
      else if action = ''server.scan'' then Some (if ru_interfaces ru then Success else Failed, rt)
      else if action = ''certificate.deploy'' then
        Some (case deployCertificate (ru_cert ru) (ru_data_dir ru) (ru_now ru) (ru_later ru) params (rt_tools rt) of
          (r, d1) \<Rightarrow> (status_of r, rt\<lparr>rt_tools := d1\<rparr>))
      else if action = ''site.apply'' then
        Some (case applySite (ru_nginx ru) (ru_tests ru) (ru_reloads ru) params (rt_tools rt) of (r, d1) \<Rightarrow> (status_of r, rt\<lparr>rt_tools := d1\<rparr>))
      else if action = ''site.status'' then Some (if ru_nginx_ok ru then Success else Failed, rt)
      else if action = ''network.latency'' then Some (status_of (latency (ru_rnd ru) (ru_number ru) (ru_connects ru) params), rt)
      else if action = ''network.forward.apply'' then
        Some (case applyForwards (ru_forward ru) (ru_forward_fails ru) (get_any params ''rules'') (rt_forwards rt) of
          (r, f1) \<Rightarrow> (status_of r, rt\<lparr>rt_forwards := f1\<rparr>))
      else if action = ''network.forward.status'' then Some (Success, rt)
      else if action = ''network.wireguard.apply'' \<or> action = ''network.warp.apply'' then
        Some (case applyWireGuard (ru_tunnel ru) params (action = ''network.warp.apply'') (rt_tunnels rt) of
          (r, t1) \<Rightarrow> (status_of r, rt\<lparr>rt_tunnels := t1\<rparr>))
      else if action = ''network.wireguard.remove'' \<or> action = ''network.warp.remove'' then
        Some (case removeWireGuard (ru_tunnel ru) params (rt_tunnels rt) of (r, t1) \<Rightarrow> (status_of r, rt\<lparr>rt_tunnels := t1\<rparr>))
      else if action = ''network.wireguard.status'' \<or> action = ''network.warp.status'' then
        Some (case wireGuardStatus (ru_tunnel ru) (ru_link_json ru) params (rt_tunnels rt) of (r, t1) \<Rightarrow> (status_of r, rt\<lparr>rt_tunnels := t1\<rparr>))
      else if action = ''network.quality'' then
        Some (case networkQuality (ru_rnd ru) (ru_number ru) (ru_cancelled ru) (\<lambda>_. ru_connects ru)
            (\<lambda>_. icmpProbeWith (ru_icmp ru) (get_string params ''target'')) params of
          Inl IcmpUnsupported \<Rightarrow> (Unsupported_command, rt)
        | r \<Rightarrow> (status_of r, rt))
      else None)"

text \<open>The status of a failed command: \<open>unsupported\<close> when its error wraps \<open>errNetworkUnsupported\<close>, which depends on the
  platform and the tools installed.\<close>

definition final_status :: "('k, 't) runtime_env \<Rightarrow> string \<Rightarrow> command_status \<times> ('k, 't) runtime \<Rightarrow> command_status \<times> ('k, 't) runtime" where
  "final_status ru action out = (if fst out = Failed \<and> ru_unsupported ru action then (Unsupported_command, snd out) else out)"

definition dispatch :: "('k, 't) runtime_env \<Rightarrow> string \<Rightarrow> jmap \<Rightarrow> ('k, 't) runtime \<Rightarrow> command_status \<times> ('k, 't) runtime" where
  "dispatch ru action params rt =
     final_status ru action
       (case core_command ru action params rt of
          Some out \<Rightarrow> out
        | None \<Rightarrow>
            (case aux_command ru action params rt of
               Some out \<Rightarrow> out
             | None \<Rightarrow>
                 (case federation_command ru action params rt of
                    Some out \<Rightarrow> out
                  | None \<Rightarrow> (case tool_command ru action params rt of Some out \<Rightarrow> out | None \<Rightarrow> (Unsupported_command, rt)))))"

definition Handle :: "('k, 't) runtime_env \<Rightarrow> string \<Rightarrow> jmap \<Rightarrow> ('k, 't) runtime \<Rightarrow> command_status \<times> ('k, 't) runtime" where
  "Handle ru action params rt =
     (if firewallStartsListener action then
        (case ensure_fw (ru_core ru) (rt_node rt) of
           (Inl _, n1) \<Rightarrow> (Failed, rt\<lparr>rt_node := n1\<rparr>)
         | (Inr _, n1) \<Rightarrow> dispatch ru action params (rt\<lparr>rt_node := n1\<rparr>))
      else dispatch ru action params rt)"

section \<open>Invariants of the whole\<close>

lemma with_net_same: "at_net net env \<Longrightarrow> with_net net env = env"
  by (simp add: at_net_def with_net_def)

text \<open>The invariants of the core and of the auxiliary process together.\<close>

definition runtime_inv :: "netip \<Rightarrow> aux_env \<Rightarrow> ('k, 't) runtime \<Rightarrow> bool" where
  "runtime_inv net ax rt \<longleftrightarrow> core_inv net (rt_node rt) \<and> aux_inv ax (rt_aux rt, rt_auxworld rt)"

definition env_fits :: "netip \<Rightarrow> aux_env \<Rightarrow> ('k, 't) runtime_env \<Rightarrow> bool" where
  "env_fits net ax ru \<longleftrightarrow> at_net net (ru_core ru) \<and> ru_aux ru = ax"

lemma core_inv_events:
  assumes "core_inv net n" "at_net net env"
  shows "core_inv net (snd (applyConfig env b n))" "core_inv net (snd (start_core env n))" "core_inv net (snd (stop_core env n))"
    "core_inv net (snd (restart env n))" "core_inv net (snd (syncOwnerUsers env tag raw n))"
    "core_inv net (snd (executeFederation env fx e n))" "core_inv net (snd (apply_fw env req n))" "core_inv net (snd (ensure_fw env n))"
    "core_inv net (n\<lparr>nd_fed := w\<rparr>)" "core_inv net (n\<lparr>nd_geo := g\<rparr>)"
  using node.step_inv [OF assms(1), of "ApplyCore env b"] node.step_inv [OF assms(1), of "StartNode env"]
    node.step_inv [OF assms(1), of "StopNode env"] node.step_inv [OF assms(1), of "RestartNode env"]
    node.step_inv [OF assms(1), of "SyncOwner env tag raw"] node.step_inv [OF assms(1), of "Federated env fx e"]
    node.step_inv [OF assms(1), of "ApplyPorts env req"] node.step_inv [OF assms(1), of "EnsurePorts env"]
    node.step_inv [OF assms(1), of "Grants w"] node.step_inv [OF assms(1), of "Datasets g"] with_net_same [OF assms(2)]
  by simp_all

lemma core_inv_status:
  assumes "core_inv net n"
  shows "core_inv net (n\<lparr>nd_fw := snd (firewallStatus env (nd_fw n))\<rparr>)"
proof -
  obtain applied w' where s: "firewallStatus env (nd_fw n) = (applied, w')" by fastforce
  obtain b fs where w': "w' = (nd_fw n)\<lparr>firewallReady := b, fw_faults := fs\<rparr>" using s by (rule firewallStatus_eq)
  have "intent w' = intent (nd_fw n)" "reserved w' = reserved (nd_fw n)" by (simp_all add: w' intent_def reserved_def split: option.splits)
  then have "bound net w' cfg = bound net (nd_fw n) cfg" for cfg by (rule bound_cong)
  then show ?thesis using assms s by (auto simp: core_inv_def machine_inv_def firewall_inv_def instance_ok_def w' reserved_def)
qed

lemma core_inv_no_file: "core_inv net n \<Longrightarrow> nd_instance n = None \<Longrightarrow> core_inv net (n\<lparr>nd_faults := fs, nd_file := f\<rparr>)"
  by (simp add: core_inv_def)

lemma core_inv_faults: "core_inv net n \<Longrightarrow> core_inv net (n\<lparr>nd_faults := fs\<rparr>)"
  by (auto simp: core_inv_def instance_ok_def)

lemma stop_core_stops: "stop_core env n = (r, n') \<Longrightarrow> nd_instance n' = None"
  by (auto simp: stop_core_def set_instance_def split: if_splits)

lemma recover_core_inv:
  assumes "recover_core env old n = (ok, n')" "core_inv net n" "at_net net env"
  shows "core_inv net n'"
proof (cases old)
  case (Some d)
  then show ?thesis using assms(1) core_inv_events(1) [OF assms(2,3), of d] by (auto simp: recover_core_def split: prod.splits)
next
  case None
  obtain r n1 where s: "stop_core env n = (r, n1)" by fastforce
  have n1: "core_inv net n1" "nd_instance n1 = None" using core_inv_events(3) [OF assms(2,3)] stop_core_stops [OF s] s by simp_all
  obtain failed n2 where f: "node_fault n1 = (failed, n2)" by fastforce
  then obtain fs where n2: "n2 = n1\<lparr>nd_faults := fs\<rparr>" by (rule node_fault_eq)
  have "n' = n1 \<or> n' = n2 \<or> n' = n2\<lparr>nd_file := NoConfig\<rparr>" using assms(1) None s f by (cases r) (auto simp: recover_core_def split: if_splits)
  then show ?thesis using n1 core_inv_no_file [OF n1] core_inv_faults [OF n1(1)] n2 by auto
qed

lemma aux_inv_events:
  assumes "aux_inv ax (m, w)"
  shows "aux_inv ax (snd (Apply_aux ax size_of raw m w))" "aux_inv ax (snd (Sync_aux ax name raw m w))" "aux_inv ax (snd (Start_aux ax m w))"
    "aux_inv ax (snd (Activate_aux ax m w))" "aux_inv ax (snd (Stop_aux m w))" "aux_inv ax (Close_aux m w)"
  using aux.step_inv [OF assms, of "AuxApply size_of raw"] aux.step_inv [OF assms, of "AuxSync name raw"] aux.step_inv [OF assms, of AuxStart]
    aux.step_inv [OF assms, of AuxActivate] aux.step_inv [OF assms, of AuxStop] aux.step_inv [OF assms, of AuxClose]
  by simp_all

lemma managed_inv:
  assumes "applyManagedConfig ru config params rt = (r, rt')" "runtime_inv net ax rt" "env_fits net ax ru"
  shows "runtime_inv net ax rt'"
proof -
  have inv: "core_inv net (rt_node rt)" "aux_inv ax (rt_aux rt, rt_auxworld rt)" "at_net net (ru_core ru)" "ru_aux ru = ax"
    using assms(2,3) by (simp_all add: runtime_inv_def env_fits_def)
  obtain ra n1 where a: "applyConfig (ru_core ru) config (rt_node rt) = (ra, n1)" by fastforce
  have n1: "core_inv net n1" using core_inv_events(1) [OF inv(1,3), of config] a by simp
  have only: "runtime_inv net ax (rt\<lparr>rt_node := n1\<rparr>)" using n1 inv(2) by (simp add: runtime_inv_def)
  show ?thesis
  proof (cases "\<exists>kvs listeners. map_of params ''auxiliary'' = Some (JObj kvs) \<and> map_of kvs ''listeners'' = Some (JArr listeners)")
    case False
    then have "rt' = rt \<or> rt' = rt\<lparr>rt_node := n1\<rparr>"
      using assms(1) a by (auto simp: applyManagedConfig_def split: option.splits json.splits)
    then show ?thesis using only assms(2) by auto
  next
    case True
    then obtain kvs listeners where l: "map_of params ''auxiliary'' = Some (JObj kvs)" "map_of kvs ''listeners'' = Some (JArr listeners)" by blast
    obtain rm m1 w1 where m: "Apply_aux ax (ru_size ru) (JArr listeners) (rt_aux rt) (rt_auxworld rt) = (rm, m1, w1)" by (metis prod_cases3)
    have aux1: "aux_inv ax (m1, w1)" using aux_inv_events(1) [OF inv(2), of "ru_size ru" "JArr listeners"] m by simp
    have either: "runtime_inv net ax (rt\<lparr>rt_node := n2, rt_aux := m1, rt_auxworld := w1\<rparr>)"
      if "n2 = n1 \<or> (\<exists>ok old. recover_core (ru_core ru) old n1 = (ok, n2))" for n2
      using that aux1 n1 recover_core_inv [OF _ n1 inv(3)] by (auto simp: runtime_inv_def)
    have "rt' = rt \<or> rt' = rt\<lparr>rt_node := n1\<rparr> \<or>
      (\<exists>n2. rt' = rt\<lparr>rt_node := n2, rt_aux := m1, rt_auxworld := w1\<rparr> \<and> (n2 = n1 \<or> (\<exists>ok old. recover_core (ru_core ru) old n1 = (ok, n2))))"
      using assms(1) a l m inv(4) by (auto simp: applyManagedConfig_def split: if_splits sum.splits prod.splits)
    then show ?thesis using only assms(2) either by blast
  qed
qed

text \<open>A command table keeps a property when each of its entries does.\<close>

definition keeps :: "('s \<Rightarrow> bool) \<Rightarrow> ('a \<times> 's) option \<Rightarrow> bool" where
  "keeps p out \<longleftrightarrow> (\<forall>x. out = Some x \<longrightarrow> p (snd x))"

lemma keeps_if: "keeps p a \<Longrightarrow> keeps p b \<Longrightarrow> keeps p (if c then a else b)"
  by simp

lemma keeps_some: "p (snd x) \<Longrightarrow> keeps p (Some x)"
  by (simp add: keeps_def)

lemma keeps_none: "keeps p None"
  by (simp add: keeps_def)

lemma on_node_inv:
  "runtime_inv net ax rt \<Longrightarrow> core_inv net (snd (f (rt_node rt))) \<Longrightarrow> runtime_inv net ax (snd (on_node f rt))"
  by (cases "f (rt_node rt)") (simp add: on_node_def runtime_inv_def)

lemma on_aux_inv:
  "runtime_inv net ax rt \<Longrightarrow> aux_inv ax (snd (f (rt_aux rt) (rt_auxworld rt))) \<Longrightarrow> runtime_inv net ax (snd (on_aux f rt))"
  by (cases "f (rt_aux rt) (rt_auxworld rt)") (simp add: on_aux_def runtime_inv_def)

lemma ensure_geo_inv: "core_inv net n \<Longrightarrow> at_net net env \<Longrightarrow> core_inv net (snd (ensure_geo env b n))"
  using core_inv_events(10) [of net n env] by (auto simp: ensure_geo_def split: prod.splits)

lemma test_config_inv: "core_inv net n \<Longrightarrow> at_net net (ru_core ru) \<Longrightarrow> core_inv net (snd (test_config ru params n))"
  using ensure_geo_inv [of net n "ru_core ru"] by (auto simp: test_config_def split: sum.splits prod.splits) (metis snd_conv)+

lemma restore_config_inv: "core_inv net n \<Longrightarrow> at_net net (ru_core ru) \<Longrightarrow> core_inv net (snd (restore_config ru params n))"
  using core_inv_events(1) [of net n "ru_core ru"] by (auto simp: restore_config_def Let_def split: option.splits sum.splits)

lemma runtime_inv_other [simp]:
  "runtime_inv net ax (rt\<lparr>rt_forwards := f\<rparr>) = runtime_inv net ax rt" "runtime_inv net ax (rt\<lparr>rt_tunnels := t\<rparr>) = runtime_inv net ax rt"
  "runtime_inv net ax (rt\<lparr>rt_tools := d\<rparr>) = runtime_inv net ax rt" "runtime_inv net ax (rt\<lparr>rt_logs := l\<rparr>) = runtime_inv net ax rt"
  "runtime_inv net ax (rt\<lparr>rt_policies := p\<rparr>) = runtime_inv net ax rt"
  by (simp_all add: runtime_inv_def)

lemma command_tables_inv:
  assumes "runtime_inv net ax rt" "env_fits net ax ru"
  shows "keeps (runtime_inv net ax) (core_command ru action params rt)" "keeps (runtime_inv net ax) (aux_command ru action params rt)"
    "keeps (runtime_inv net ax) (federation_command ru action params rt)" "keeps (runtime_inv net ax) (tool_command ru action params rt)"
proof -
  have inv: "core_inv net (rt_node rt)" "aux_inv ax (rt_aux rt, rt_auxworld rt)" "at_net net (ru_core ru)" "ru_aux ru = ax"
    using assms by (simp_all add: runtime_inv_def env_fits_def)
  note node = core_inv_events [OF inv(1,3)] test_config_inv [OF inv(1,3)] restore_config_inv [OF inv(1,3)] and auxs = aux_inv_events [OF inv(2)]
  have managed: "runtime_inv net ax (snd (case given_config ru params of Inl _ \<Rightarrow> (Failed, rt)
      | Inr b \<Rightarrow> (case applyManagedConfig ru b params rt of (r, rt1) \<Rightarrow> (status_of r, rt1))))"
    using assms managed_inv [OF _ assms] by (auto split: sum.splits prod.splits)
  have policies: "runtime_inv net ax (snd (case x of (r, p1, _) \<Rightarrow> (status_of r, rt\<lparr>rt_policies := p1\<rparr>)))"
    for x :: "(policy_error, nat) res \<times> policy_runtime \<times> nat list"
    using assms(1) by (simp split: prod.splits)
  show "keeps (runtime_inv net ax) (core_command ru action params rt)"
    unfolding core_command_def
    by (intro keeps_if keeps_some keeps_none on_node_inv [OF assms(1)] managed policies) (simp_all add: assms(1) node)
  show "keeps (runtime_inv net ax) (aux_command ru action params rt)"
    unfolding aux_command_def inv(4)
    by (intro keeps_if keeps_some keeps_none on_aux_inv [OF assms(1)]) (simp_all add: assms(1) auxs)
  have status: "runtime_inv net ax (snd (case firewallStatus env (nd_fw (rt_node rt)) of (_, w) \<Rightarrow> (Success, rt\<lparr>rt_node := (rt_node rt)\<lparr>nd_fw := w\<rparr>\<rparr>)))" for env
    using core_inv_status [OF inv(1), of env] inv(2) by (auto simp: runtime_inv_def split: prod.splits)
  show "keeps (runtime_inv net ax) (federation_command ru action params rt)"
    unfolding federation_command_def
    by (intro keeps_if keeps_some keeps_none on_node_inv [OF assms(1)] status) (simp_all add: assms(1) node split: prod.splits)
  show "keeps (runtime_inv net ax) (tool_command ru action params rt)"
    unfolding tool_command_def
    by (intro keeps_if keeps_some keeps_none) (simp_all add: assms(1) split: prod.splits sum.splits tool_error.splits)
qed

lemma dispatch_inv:
  assumes "runtime_inv net ax rt" "env_fits net ax ru"
  shows "runtime_inv net ax (snd (dispatch ru action params rt))"
  using command_tables_inv [OF assms, of action params] assms(1) by (simp add: dispatch_def keeps_def final_status_def split: option.splits)

lemma Handle_inv:
  assumes "runtime_inv net ax rt" "env_fits net ax ru"
  shows "runtime_inv net ax (snd (Handle ru action params rt))"
proof -
  obtain r n1 where e: "ensure_fw (ru_core ru) (rt_node rt) = (r, n1)" by fastforce
  have "runtime_inv net ax (rt\<lparr>rt_node := n1\<rparr>)"
    using assms core_inv_events(8) [of net "rt_node rt" "ru_core ru"] e by (simp add: runtime_inv_def env_fits_def)
  then show ?thesis using e dispatch_inv [OF _ assms(2)] assms(1) by (simp add: Handle_def split: sum.splits)
qed

lemma Start_inv:
  assumes "runtime_inv net ax rt" "env_fits net ax ru"
  shows "runtime_inv net ax (snd (Start_runtime ru rt))"
proof -
  have inv: "core_inv net (rt_node rt)" "aux_inv ax (rt_aux rt, rt_auxworld rt)" "at_net net (ru_core ru)" "ru_aux ru = ax"
    using assms by (simp_all add: runtime_inv_def env_fits_def)
  obtain r n1 where e: "ensure_fw (ru_core ru) (rt_node rt) = (r, n1)" by fastforce
  have n1: "core_inv net n1" using core_inv_events(8) [OF inv(1,3)] e by simp
  obtain rc n2 where c: "start_core (ru_core ru) n1 = (rc, n2)" by fastforce
  have n2: "core_inv net n2" using core_inv_events(2) [OF n1 inv(3)] c by simp
  obtain ra m1 w1 where a: "Start_aux ax (rt_aux rt) (rt_auxworld rt) = (ra, m1, w1)" by (metis prod_cases3)
  have m1: "aux_inv ax (m1, w1)" using aux_inv_events(3) [OF inv(2)] a by simp
  show ?thesis
  proof (cases r)
    case (Inl x)
    then show ?thesis using e core_inv_status [OF n1] inv(2) by (simp add: Start_runtime_def runtime_inv_def)
  next
    case (Inr u)
    then show ?thesis using e c a n2 m1 inv(2,4) by (cases rc) (simp_all add: Start_runtime_def runtime_inv_def Let_def split: prod.splits)
  qed
qed

lemma Close_inv:
  assumes "runtime_inv net ax rt" "env_fits net ax ru"
  shows "runtime_inv net ax (snd (Close_runtime ru rt))"
  using assms core_inv_events(3) [of net "rt_node rt" "ru_core ru"] aux_inv_events(6) [of ax "rt_aux rt" "rt_auxworld rt"]
  by (auto simp: Close_runtime_def runtime_inv_def env_fits_def split: prod.splits)

text \<open>What happens to a runtime: commands, start and end, the auxiliary process ending by itself, and everything else that
  happens to the node (changes of the kernel, of files, faults to come).\<close>

datatype ('k, 't) runtime_event = CommandEvent "('k, 't) runtime_env" string jmap | StartEvent "('k, 't) runtime_env" | CloseEvent "('k, 't) runtime_env"
  | AuxiliaryExit | NodeEvent "'k node_event"

fun runtime_step :: "netip \<Rightarrow> aux_env \<Rightarrow> ('k, 't) runtime \<Rightarrow> ('k, 't) runtime_event \<Rightarrow> ('k, 't) runtime" where
  "runtime_step net ax rt (CommandEvent ru action params) = snd (Handle ru action params rt)"
| "runtime_step net ax rt (StartEvent ru) = snd (Start_runtime ru rt)"
| "runtime_step net ax rt (CloseEvent ru) = snd (Close_runtime ru rt)"
| "runtime_step net ax rt AuxiliaryExit = (case aux_step ax (rt_aux rt, rt_auxworld rt) AuxExited of (m, w) \<Rightarrow> rt\<lparr>rt_aux := m, rt_auxworld := w\<rparr>)"
| "runtime_step net ax rt (NodeEvent e) = rt\<lparr>rt_node := node_step net (rt_node rt) e\<rparr>"

fun event_fits :: "netip \<Rightarrow> aux_env \<Rightarrow> ('k, 't) runtime_event \<Rightarrow> bool" where
  "event_fits net ax (CommandEvent ru action params) = env_fits net ax ru"
| "event_fits net ax (StartEvent ru) = env_fits net ax ru"
| "event_fits net ax (CloseEvent ru) = env_fits net ax ru"
| "event_fits net ax e = True"

interpretation agent: guarded_machine "runtime_step net ax" "runtime_inv net ax" "event_fits net ax" for net ax
proof
  fix rt :: "('a, 'b) runtime" and e :: "('a, 'b) runtime_event"
  assume inv: "runtime_inv net ax rt" and fits: "event_fits net ax e"
  show "runtime_inv net ax (runtime_step net ax rt e)"
  proof (cases e)
    case AuxiliaryExit
    then show ?thesis using inv aux.step_inv [of ax "(rt_aux rt, rt_auxworld rt)" AuxExited] by (simp add: runtime_inv_def)
  next
    case (NodeEvent f)
    then show ?thesis using inv node.step_inv [of net "rt_node rt" f] by (simp add: runtime_inv_def)
  qed (use inv fits Handle_inv Start_inv Close_inv in auto)
qed

section \<open>Properties\<close>



text \<open>The outcomes of a configuration with listeners.\<close>

lemma managed_cases:
  assumes "applyManagedConfig ru config params rt = (r, rt')" "map_of params ''auxiliary'' = Some (JObj kvs)" "map_of kvs ''listeners'' = Some (JArr vs)"
  obtains (refused) e where "r = Inl e" "e = NoMihomo \<or> e = ManagedRead" "rt' = rt"
  | (core) e n1 where "r = Inl (ManagedCore e)" "applyConfig (ru_core ru) config (rt_node rt) = (Inl e, n1)" "rt' = rt\<lparr>rt_node := n1\<rparr>"
  | (both) n1 m1 w1 where "r = Inr ()" "applyConfig (ru_core ru) config (rt_node rt) = (Inr (), n1)"
      "Apply_aux (ru_aux ru) (ru_size ru) (JArr vs) (rt_aux rt) (rt_auxworld rt) = (Inr (), m1, w1)" "rt' = rt\<lparr>rt_node := n1, rt_aux := m1, rt_auxworld := w1\<rparr>"
  | (undone) e report ok old n1 n2 m1 w1 where "r = Inl (AuxFailed e report ok)" "read_core (nd_file (rt_node rt)) = Inr old"
      "applyConfig (ru_core ru) config (rt_node rt) = (Inr (), n1)"
      "Apply_aux (ru_aux ru) (ru_size ru) (JArr vs) (rt_aux rt) (rt_auxworld rt) = (Inl (e, report), m1, w1)"
      "recover_core (ru_core ru) old n1 = (ok, n2)" "rt' = rt\<lparr>rt_node := n2, rt_aux := m1, rt_auxworld := w1\<rparr>"
proof -
  obtain ra n1 where a: "applyConfig (ru_core ru) config (rt_node rt) = (ra, n1)" by fastforce
  obtain rm m1 w1 where m: "Apply_aux (ru_aux ru) (ru_size ru) (JArr vs) (rt_aux rt) (rt_auxworld rt) = (rm, m1, w1)" by (metis prod_cases3)
  show thesis
  proof (cases "read_core (nd_file (rt_node rt))")
    case (Inl e)
    then have "rt' = rt \<and> (\<exists>e. r = Inl e \<and> (e = NoMihomo \<or> e = ManagedRead))" using assms by (auto simp: applyManagedConfig_def split: if_splits)
    then show thesis using refused by blast
  next
    case (Inr old)
    obtain ok n2 where rc: "recover_core (ru_core ru) old n1 = (ok, n2)" by fastforce
    note path = assms(1) [unfolded applyManagedConfig_def assms(2,3) option.case json.case Inr sum.case a m prod.case rc]
    show thesis
    proof (cases "vs \<noteq> [] \<and> \<not> Available_aux (rt_aux rt)")
      case True
      then show thesis using path refused by auto
    next
      case False
      note path = path [unfolded if_not_P [OF False]]
      show thesis
      proof (cases ra)
        case (Inl e)
        then show thesis using path a core by auto
      next
        case ra: (Inr u)
        show thesis
        proof (cases rm)
          case (Inl x)
          obtain e report where "x = (e, report)" by fastforce
          then show thesis using path ra rc Inr a m Inl by (intro undone) auto
        next
          case (Inr u')
          then show thesis using path ra a m by (intro both) auto
        qed
      qed
    qed
  qed
qed

lemma Apply_aux_path:
  assumes "Apply_aux env size_of (JArr vs) m w = (r, m', w')"
  shows "(\<exists>e. r = Inl (e, None) \<and> m' = m \<and> w' = w) \<or> (\<exists>ls. traverse_opt decode_listener vs = Some ls \<and> apply_aux env ls m w = (r, m', w'))"
  using assms by (auto simp: Apply_aux_def split: if_splits option.splits)

lemma applied_core:
  assumes "applyConfig env b n = (Inr u, n')" "core_inv net n" "at_net net env"
  shows "\<exists>x. nd_instance n' = Some x \<and> nd_file n' = ConfigText (Some (xi_doc x))"
  using assms by (cases rule: applyConfig_cases) auto

lemma recovered_core:
  assumes "recover_core env old n = (True, n')" "core_inv net n" "at_net net env"
  shows "if old = None then nd_file n' = NoConfig \<and> nd_instance n' = None
    else \<exists>x. nd_instance n' = Some x \<and> nd_file n' = ConfigText (Some (xi_doc x))"
proof (cases old)
  case None
  obtain r n1 where s: "stop_core env n = (r, n1)" by fastforce
  obtain failed n2 where f: "node_fault n1 = (failed, n2)" by fastforce
  then obtain fs where "n2 = n1\<lparr>nd_faults := fs\<rparr>" by (rule node_fault_eq)
  then show ?thesis using None assms(1) s f stop_core_stops [OF s] by (cases r) (auto simp: recover_core_def split: if_splits)
next
  case (Some d)
  obtain r n1 where a: "applyConfig env d n = (r, n1)" by fastforce
  then have "is_ok r" "n' = n1" using assms(1) Some by (simp_all add: recover_core_def)
  then show ?thesis using a Some applied_core [OF _ assms(2,3), of d _ n1] by (cases r) auto
qed


text \<open>The history lists exactly the readable files with a safe name, once each and from the largest name to the smallest.\<close>

lemma history_items_spec:
  assumes "history_items entries = Inr items"
  shows "set items = {(name, b, t). (name, HistoryFile (Some (b, t))) \<in> set entries \<and> safeName name} \<and>
    (distinct (map fst entries) \<longrightarrow> distinct (map fst items)) \<and> fst ` set items \<subseteq> fst ` set entries"
  using assms
proof (induction entries arbitrary: items)
  case (Cons x rest)
  obtain name entry where x: "x = (name, entry)" by fastforce
  show ?case
  proof (cases "\<exists>b t. entry = HistoryFile (Some (b, t)) \<and> safeName name")
    case True
    then obtain b t items' where e: "entry = HistoryFile (Some (b, t))" "safeName name" and i: "history_items rest = Inr items'" "items = (name, b, t) # items'"
      using Cons.prems x by (cases "history_items rest") auto
    then show ?thesis using Cons.IH [OF i(1)] x by auto
  next
    case False
    then have "history_items rest = Inr items" using Cons.prems x by (auto split: history_entry.splits if_splits option.splits)
    from Cons.IH [OF this] show ?thesis using False x by auto
  qed
qed simp

theorem history_is_listed:
  assumes "history (HistoryDir entries) = Inr items" "distinct (map fst entries)"
  shows "set items = {(name, b, t). (name, HistoryFile (Some (b, t))) \<in> set entries \<and> safeName name} \<and>
    sorted_wrt (\<lambda>x y. fst y < fst x) items"
proof -
  obtain raw where raw: "history_items entries = Inr raw" "items = rev (sort_key fst raw)"
    using assms(1) by (cases "history_items entries") (auto simp: history_def)
  note spec = history_items_spec [OF raw(1)]
  have "distinct (map fst raw)" using spec assms(2) by blast
  then have "sorted_wrt (<) (map fst (sort_key fst raw))" by (simp add: strict_sorted_iff distinct_map)
  then have "sorted_wrt (\<lambda>x y. fst y < fst x) items" by (simp add: raw(2) sorted_wrt_rev sorted_wrt_map)
  then show ?thesis using spec raw(2) by simp
qed

section \<open>Samples\<close>

definition env_of_sample :: "bool \<Rightarrow> (bool, bool) runtime_env" where
  "env_of_sample exits = \<lparr>ru_core = core_sample, ru_fed = fx_sample, ru_aux = aux_sample_env exits, ru_forward = ports_sample,
     ru_tunnel = \<lparr>prefix_text = (\<lambda>_. True), te_sha256 = (\<lambda>_. []), te_public = (\<lambda>_. []), te_linux = True, run_net = (\<lambda>_ _ k. (None, k))\<rparr>,
     ru_cert = \<lparr>ct_pair = (\<lambda>_ _. None), ct_period = (\<lambda>_. None), ct_sha256 = (\<lambda>_. [])\<rparr>, ru_server_id = ''s1'', ru_data_dir = ''/d'', ru_nginx = [],
     ru_tests = (\<lambda>_. True), ru_reloads = (\<lambda>_. True), ru_nginx_ok = True, ru_now = 0, ru_later = 0, ru_size = (\<lambda>_. 0), ru_text = (\<lambda>_. None),
     ru_whole = (\<lambda>_. 0), ru_number = (\<lambda>_. 0), ru_parse_ip = (\<lambda>_. True), ru_can_listen = (\<lambda>_ _. True), ru_rnd = (\<lambda>x. x),
     ru_connects = (\<lambda>_. None), ru_cancelled = (\<lambda>_. False),
     ru_icmp = \<lparr>iw_lookup = (\<lambda>_. None), iw_is4 = (\<lambda>_. True), iw_opens = (\<lambda>_. False), iw_random = None, iw_deadline_ok = (\<lambda>_. True),
       iw_written = (\<lambda>_. True), iw_reads = (\<lambda>_. []), iw_elapsed = (\<lambda>_. 0)\<rparr>,
     ru_link_json = (\<lambda>_. None), ru_history = (\<lambda>_ _. None), ru_history_dir = NoHistory, ru_ports = (\<lambda>_. request_sample), ru_grant = (\<lambda>_. None),
     ru_envelope = (\<lambda>_. None), ru_policy_list = (\<lambda>_. None), ru_policy_text = (\<lambda>_. None), ru_policy_written = True, ru_forward_fails = False,
     ru_interfaces = True, ru_scan = \<lparr>sh_x509 = sample_x509, sh_time = (\<lambda>_. None), sh_lookup = (\<lambda>_ _ _. None), sh_connect = (\<lambda>_ _ _. None),
       sh_expired = (\<lambda>_ _. False), sh_late = (\<lambda>_. False), sh_over = False\<rparr>, ru_unsupported = (\<lambda>_. False)\<rparr>"

definition runtime_sample :: "(bool, bool) runtime" where
  "runtime_sample = \<lparr>rt_node = node_sample, rt_aux = aux_sample_manager, rt_auxworld = aux_sample_loaded, rt_forwards = forwards_sample,
     rt_tunnels = \<lparr>tw_conf = (\<lambda>_. None), tw_state = (\<lambda>_. None), tw_dirs = [], tw_listing = True, tw_kernel = False, tw_log = [], tw_faults = []\<rparr>,
     rt_tools = \<lparr>tf_text = (\<lambda>_. None), tf_unreadable = (\<lambda>_. False), tf_faults = []\<rparr>, rt_logs = streams_sample,
     rt_policies = \<lparr>XrayMode = ''embedded'', pol = newPolicies, policy_file = None\<rparr>\<rparr>"

lemma runtime_sample_inv: "runtime_inv net_node ax runtime_sample"
  using node_sample_inv aux_sample_inv by (simp add: runtime_inv_def runtime_sample_def)

lemma env_of_sample_fits: "env_fits net_node (aux_sample_env exits) (env_of_sample exits)"
  by (simp add: env_fits_def env_of_sample_def at_net_def core_sample_def env_sample_def)

lemma env_of_sample_sel [simp]:
  "ru_core (env_of_sample e) = core_sample" "ru_aux (env_of_sample e) = aux_sample_env e" "ru_size (env_of_sample e) = (\<lambda>_. 0)"
  "ru_unsupported (env_of_sample e) = (\<lambda>_. False)"
  by (simp_all add: env_of_sample_def)

lemma runtime_sample_sel [simp]:
  "rt_node runtime_sample = node_sample" "rt_aux runtime_sample = aux_sample_manager" "rt_auxworld runtime_sample = aux_sample_loaded"
  by (simp_all add: runtime_sample_def)

lemma sample_Apply_aux:
  "Apply_aux (aux_sample_env e) (\<lambda>_. 0) aux_sample_json m w = apply_aux (aux_sample_env e) [aux_sample_listener] m w"
  using aux_sample_decoded by (simp add: Apply_aux_def aux_sample_json_def)

lemma sample_command:
  assumes "apply_aux (aux_sample_env False) [aux_sample_listener] aux_sample_manager aux_sample_loaded = (Inr (), m, w)"
  shows "Handle (env_of_sample False) ''mihomo.config.apply'' [(''listeners'', aux_sample_json)] (runtime_sample\<lparr>rt_node := running_sample\<rparr>) =
    (Success, runtime_sample\<lparr>rt_node := running_sample, rt_aux := m, rt_auxworld := w\<rparr>)"
proof -
  have "firewallReady (nd_fw running_sample)" "running (nd_fw running_sample)" using apply_sample by (simp_all add: world_sample_def)
  then have "ensure_fw core_sample running_sample = (Inr (), running_sample)" by (simp add: sample_ensure)
  then show ?thesis
    using assms by (simp add: Handle_def dispatch_def final_status_def firewallStartsListener_def core_command_def aux_command_def on_aux_def
      status_of_def get_any_def sample_Apply_aux)
qed


definition blocked_sample :: "(bool, bool) runtime" where
  "blocked_sample = runtime_sample\<lparr>rt_node := node_sample\<lparr>nd_fw := world_sample\<lparr>running := False, firewallReady := False, committed := Broken\<rparr>\<rparr>\<rparr>"



end
