(* ===== verification/Speed_Test.thy ===== *)
theory Speed_Test
  imports Complex_Main Mihomo Reality_Scan Wire_Messages
begin

text \<open>
  The measuring client (internal/speedtest/speedtest.go and fetch.go): the commands it takes, fetching a
  subscription source with its redirects, a measurement through a proxy process, the exit address, and the
  download by several workers under a budget.

  The URL parser, the servers, the resolver, the binary and the process are parameters. Redirects follow
  net/http: the headers of the first request are copied to every further one, except that
  credentials are left out from the first request on that leaves the domain of the first; then the code's own check
  runs. Numbers of a request are the rational values of their float64; times are left out.
\<close>

section \<open>Sources\<close>

record speed_config =
  sp_Binary :: string
  sp_SHA256 :: string
  sp_Version :: string
  sp_DataDir :: string
  sp_SourceID :: string
  sp_SourceMode :: string
  sp_SourceAllowedOrigins :: "string list"
  sp_SourceAllowPrivate :: bool

datatype speed_error = NotPinned | NoDataDir | BadMode | MkdirFailed | SpeedBinary | SpeedDigest | SpeedVersion | NotHTTP | OriginRefused
  | BadHeader | HeaderRefused | SourceFailed | SourceStatus nat | SourceRead | SourceTooLarge | NotUTF8
  | TooManyRedirects | RedirectOrigin | Downgrade | SourceResolve | SourceNoAddress | SourcePrivate | SourceConnect
  | NoNode | NotAProxy | BadTarget | BadParallel | BadSeconds | BadBudget | TempFailed | NoPort | ConfigWrite | NodeRejected | ProcessStart
  | SpeedCancelled | SpeedNotReady | SpeedBarrier aux_error | LatencyFailed | TargetStatus nat | NotClean

definition sourceURL :: "(string \<Rightarrow> parsed_url option) \<Rightarrow> string \<Rightarrow> (speed_error, parsed_url) res" where
  "sourceURL parse v =
     (case parse v of
        None \<Rightarrow> Inl NotHTTP
      | Some u \<Rightarrow>
          if u_host u = [] \<or> u_user u \<noteq> None \<or> u_fragment u \<noteq> [] \<or> (u_scheme u \<noteq> ''http'' \<and> u_scheme u \<noteq> ''https'') then Inl NotHTTP else Inr u)"

definition url_origin :: "parsed_url \<Rightarrow> string" where
  "url_origin u = u_scheme u @ ''://'' @ u_host u"

definition origin_allowed :: "speed_config \<Rightarrow> parsed_url \<Rightarrow> bool" where
  "origin_allowed cfg u =
     (sp_SourceAllowedOrigins cfg = [] \<or> list_ex (\<lambda>v. url_origin u = trim_right CHR ''/'' v) (sp_SourceAllowedOrigins cfg))"

text \<open>The dial of the transport, with the addresses it tries.\<close>

definition special_source :: "addr \<Rightarrow> bool" where
  "special_source ip = (let a = plain_ip ip in ip_private a \<or> ip_loopback a \<or> ip_link_local a \<or> ip_multicast a \<or> ip_unspecified a)"

definition source_dial ::
  "speed_config \<Rightarrow> (string \<Rightarrow> addr list option) \<Rightarrow> (addr \<Rightarrow> bool) \<Rightarrow> string \<Rightarrow> (speed_error, unit) res \<times> addr list" where
  "source_dial cfg lookup connect host =
     (case lookup host of
        None \<Rightarrow> (Inl SourceResolve, [])
      | Some ips \<Rightarrow>
          if ips = [] then (Inl SourceNoAddress, [])
          else if \<not> sp_SourceAllowPrivate cfg \<and> list_ex special_source ips then (Inl SourcePrivate, [])
          else let failing = takeWhile (\<lambda>ip. \<not> connect ip) ips in
            if length failing < length ips then (Inr (), failing @ [ips ! length failing]) else (Inl SourceConnect, failing))"

type_synonym headers = "(string \<times> string) list"

record source_request =
  rq_url :: parsed_url
  rq_headers :: headers

record source_response =
  rs_status :: nat
  rs_headers :: "string \<Rightarrow> string"
  rs_body :: "bytes option"

text \<open>What a server answers: a redirect, with the resolved target, or a response.\<close>

datatype source_answer = NoAnswer | RedirectTo parsed_url | Answer source_response

record source_world =
  sw_parse :: "string \<Rightarrow> parsed_url option"
  sw_string :: "parsed_url \<Rightarrow> string"
  sw_lookup :: "nat \<Rightarrow> string \<Rightarrow> addr list option"
  sw_connect :: "nat \<Rightarrow> addr \<Rightarrow> bool"
  sw_answer :: "nat \<Rightarrow> source_request \<Rightarrow> source_answer"
  sw_canonical :: "string \<Rightarrow> string"
  sw_utf8 :: "bytes \<Rightarrow> bool"

text \<open>The rules of net/http for the headers of a redirected request.\<close>

definition has_suffix :: "string \<Rightarrow> string \<Rightarrow> bool" where
  "has_suffix s p = has_prefix (rev s) (rev p)"

definition in_domain :: "string \<Rightarrow> string \<Rightarrow> bool" where
  "in_domain sub parent = (sub = parent \<or> (length sub > length parent \<and> has_suffix sub (''.'' @ parent) \<and> CHR '':'' \<notin> set sub \<and> CHR ''%'' \<notin> set sub))"

definition sensitive_header :: "string \<Rightarrow> bool" where
  "sensitive_header k = (k \<in> set [''Authorization'', ''Www-Authenticate'', ''Cookie'', ''Cookie2'', ''Proxy-Authorization'', ''Proxy-Authenticate''])"

definition strips :: "bool \<Rightarrow> parsed_url \<Rightarrow> parsed_url \<Rightarrow> bool" where
  "strips already first next_url = (already \<or> (u_host first \<noteq> u_host next_url \<and> \<not> in_domain (u_hostname next_url) (u_hostname first)))"

definition copied_headers :: "bool \<Rightarrow> headers \<Rightarrow> headers" where
  "copied_headers strip hs = filter (\<lambda>(k, v). \<not> (sensitive_header k \<and> strip)) hs"

text \<open>\<open>CheckRedirect\<close>: \<open>via\<close> are the requests so far, the latest last; the result is the request that is sent.\<close>

definition check_redirect :: "speed_config \<Rightarrow> source_world \<Rightarrow> source_request list \<Rightarrow> source_request \<Rightarrow> (speed_error, source_request) res" where
  "check_redirect cfg sw via req =
     (if length via > 5 then Inl TooManyRedirects
      else bind_res (sourceURL (sw_parse sw) (sw_string sw (rq_url req))) (\<lambda>_.
        if \<not> origin_allowed cfg (rq_url req) then Inl RedirectOrigin
        else let previous = rq_url (last via) in
          if u_scheme previous = ''https'' \<and> u_scheme (rq_url req) = ''http'' then Inl Downgrade
          else if \<not> equal_fold (url_origin previous) (url_origin (rq_url req)) then Inr (req\<lparr>rq_headers := []\<rparr>)
          else Inr req))"

lemma check_redirect_via: "check_redirect cfg sw via req = Inr req' \<Longrightarrow> length via \<le> 5"
  by (auto simp: check_redirect_def split: if_splits)

text \<open>One request after the other; the log has each request with the addresses that were tried for it.\<close>

type_synonym request_log = "(source_request \<times> addr list) list"

definition send_one :: "speed_config \<Rightarrow> source_world \<Rightarrow> nat \<Rightarrow> source_request \<Rightarrow> source_answer \<times> addr list" where
  "send_one cfg sw n req =
     (case source_dial cfg (sw_lookup sw n) (sw_connect sw n) (u_hostname (rq_url req)) of
        (Inl _, tried) \<Rightarrow> (NoAnswer, tried)
      | (Inr _, tried) \<Rightarrow> (sw_answer sw n req, tried))"

function follow ::
  "speed_config \<Rightarrow> source_world \<Rightarrow> source_request \<Rightarrow> bool \<Rightarrow> source_request list \<Rightarrow> source_request \<Rightarrow>
    (speed_error, source_response \<times> source_request) res \<times> request_log" where
  "follow cfg sw first strip via req =
     (case send_one cfg sw (length via) req of (answer, tried) \<Rightarrow>
        case answer of
          NoAnswer \<Rightarrow> (Inl SourceFailed, [(req, tried)])
        | Answer rs \<Rightarrow> (Inr (rs, req), [(req, tried)])
        | RedirectTo u \<Rightarrow>
            let strip' = strips strip (rq_url first) u;
                via' = via @ [req] in
            (case check_redirect cfg sw via' \<lparr>rq_url = u, rq_headers = copied_headers strip' (rq_headers first)\<rparr> of
               Inl _ \<Rightarrow> (Inl SourceFailed, [(req, tried)])
             | Inr req' \<Rightarrow> (case follow cfg sw first strip' via' req' of (r, trace) \<Rightarrow> (r, (req, tried) # trace))))"
  by auto
termination by (relation "measure (\<lambda>(cfg, sw, first, strip, via, req). 6 - length via)") (auto dest!: check_redirect_via)

declare follow.simps [simp del]

fun set_headers :: "source_world \<Rightarrow> jmap \<Rightarrow> headers \<Rightarrow> (speed_error, headers) res" where
  "set_headers sw [] hs = Inr hs"
| "set_headers sw ((k, v) # kvs) hs =
     (let key = sw_canonical sw k in
      if key \<in> set [''Authorization'', ''Accept'', ''User-Agent'', ''Cookie''] then
        (case v of
           JStr s \<Rightarrow> if length s > 4096 \<or> list_ex (\<lambda>c. of_char c = (13 :: nat) \<or> of_char c = (10 :: nat)) s then Inl BadHeader
             else set_headers sw kvs (put_key key s hs)
         | _ \<Rightarrow> Inl BadHeader)
      else Inl HeaderRefused)"

record source_result =
  so_body_base64 :: string
  so_status :: nat
  so_headers :: headers
  so_final_url :: string
  so_bytes :: nat

definition kept_headers :: "source_response \<Rightarrow> headers" where
  "kept_headers rs =
     map (\<lambda>k. (k, rs_headers rs k)) (filter (\<lambda>k. rs_headers rs k \<noteq> [] \<and> length (rs_headers rs k) < 8192)
       [''subscription-userinfo'', ''content-type'', ''profile-title'', ''profile-update-interval''])"

definition read_source :: "source_world \<Rightarrow> source_response \<Rightarrow> source_request \<Rightarrow> (speed_error, source_result) res" where
  "read_source sw rs req =
     (if rs_status rs < 200 \<or> rs_status rs \<ge> 300 then Inl (SourceStatus (rs_status rs))
      else case rs_body rs of
        None \<Rightarrow> Inl SourceRead
      | Some b \<Rightarrow>
          if length b > 8388608 then Inl SourceTooLarge
          else if \<not> sw_utf8 sw b then Inl NotUTF8
          else Inr \<lparr>so_body_base64 = std_encode b, so_status = rs_status rs, so_headers = kept_headers rs,
            so_final_url = sw_string sw (rq_url req), so_bytes = length b\<rparr>)"

definition fetchSource :: "speed_config \<Rightarrow> source_world \<Rightarrow> jmap \<Rightarrow> (speed_error, source_result) res \<times> request_log" where
  "fetchSource cfg sw p =
     (case sourceURL (sw_parse sw) (get_string p ''url'') of
        Inl e \<Rightarrow> (Inl e, [])
      | Inr u \<Rightarrow>
          if \<not> origin_allowed cfg u then (Inl OriginRefused, [])
          else case (case map_of p ''headers'' of Some (JObj kvs) \<Rightarrow> set_headers sw kvs [] | _ \<Rightarrow> Inr []) of
            Inl e \<Rightarrow> (Inl e, [])
          | Inr hs \<Rightarrow>
              let first = \<lparr>rq_url = u, rq_headers = hs\<rparr> in
              (case follow cfg sw first False [] first of
                 (Inl e, trace) \<Rightarrow> (Inl e, trace)
               | (Inr (rs, req), trace) \<Rightarrow> (read_source sw rs req, trace)))"

section \<open>Downloads\<close>

text \<open>
  The answers a worker meets, until the time of the measurement is over: a request that fails (with whether
  the time was over), or a response with its status, the portions its body arrives in, and how the body ends.
\<close>

datatype body_end = BodyEOF | BodyBroken bool

datatype worker_answer = RequestFailed bool | Response nat "nat list" body_end

text \<open>Reading a body with a buffer of 32 KiB, up to the limit if there is one: the bytes, and how it ended.\<close>

function read_body :: "nat option \<Rightarrow> nat list \<Rightarrow> body_end \<Rightarrow> nat \<times> body_end" where
  "read_body limit chunks ending =
     (if limit = Some 0 then (0, BodyEOF)
      else case chunks of
        [] \<Rightarrow> (0, ending)
      | c # cs \<Rightarrow>
          let n = min c (case limit of None \<Rightarrow> 32768 | Some l \<Rightarrow> min l 32768) in
          (case read_body (map_option (\<lambda>l. l - n) limit) (if n < c then (c - n) # cs else cs) ending of (k, e) \<Rightarrow> (n + k, e)))"
  by pat_completeness auto
termination
  by (relation "measure (\<lambda>(limit, chunks, ending). sum_list chunks + length chunks)") (auto split: option.splits)

declare read_body.simps [simp del]

definition body_failures :: "nat \<Rightarrow> body_end \<Rightarrow> nat" where
  "body_failures n e = (if e = BodyBroken False then 1 else 0) + (if n = 0 then 1 else 0)"

fun run_worker :: "bool \<Rightarrow> nat \<Rightarrow> worker_answer list \<Rightarrow> nat \<times> nat" where
  "run_worker limited left [] = (0, 0)"
| "run_worker limited left (a # as) =
     (if limited \<and> left = 0 then (0, 0)
      else case a of
        RequestFailed expired \<Rightarrow> (0, if expired then 0 else 1)
      | Response status chunks ending \<Rightarrow>
          if status < 200 \<or> status \<ge> 300 then (0, 1)
          else (case read_body (if limited then Some left else None) chunks ending of (n, e) \<Rightarrow>
            if n = 0 then (0, body_failures n e)
            else (case run_worker limited (left - n) as of (m, f) \<Rightarrow> (n + m, body_failures n e + f))))"

definition worker_budget :: "nat \<Rightarrow> nat \<Rightarrow> nat \<Rightarrow> nat" where
  "worker_budget budget parallel i = (if budget > 0 then budget div parallel + (if i < budget mod parallel then 1 else 0) else 0)"

definition downloadMeasurement :: "(nat \<Rightarrow> worker_answer list) \<Rightarrow> nat \<Rightarrow> nat \<Rightarrow> nat \<times> nat" where
  "downloadMeasurement answers parallel budget =
     (let runs = map (\<lambda>i. run_worker (budget > 0) (worker_budget budget parallel i) (answers i)) [0..<parallel] in
      (sum_list (map fst runs), sum_list (map snd runs)))"

section \<open>Measurements\<close>

record speed_poll =
  pl_dial :: bool
  pl_api :: "nat option"
  pl_cancelled :: bool

record measure_world =
  mw_binary :: "bytes option"
  mw_version :: "string option"
  mw_sha256 :: "bytes \<Rightarrow> bytes"
  mw_parse :: "string \<Rightarrow> parsed_url option"
  mw_number :: "string \<Rightarrow> rat"
  mw_temp :: bool
  mw_port :: "int option"
  mw_api :: "string option"
  mw_random :: bytes
  mw_written :: bool
  mw_accepts :: "jmap \<Rightarrow> bool"
  mw_starts :: bool
  mw_polls :: "nat \<Rightarrow> speed_poll"
  mw_loopback :: "string \<Rightarrow> bool"
  mw_barrier :: "nat option"
  mw_exit :: "parsed_url \<Rightarrow> (nat \<times> string option) option"
  mw_ip :: "string \<Rightarrow> string option"
  mw_json :: "string \<Rightarrow> jmap option"
  mw_head :: "nat \<Rightarrow> nat option"
  mw_answers :: "nat \<Rightarrow> worker_answer list"
  mw_cancelled :: bool

definition verify_speed :: "speed_config \<Rightarrow> measure_world \<Rightarrow> (speed_error, string) res" where
  "verify_speed cfg mw =
     (case mw_binary mw of
        None \<Rightarrow> Inl SpeedBinary
      | Some b \<Rightarrow>
          if \<not> equal_fold (hex_encode (mw_sha256 mw b)) (sp_SHA256 cfg) then Inl SpeedDigest
          else case mw_version mw of
            None \<Rightarrow> Inl SpeedVersion
          | Some out \<Rightarrow> let version = trim_space out in if sp_Version cfg \<in> set (Fields version) then Inr version else Inl SpeedVersion)"

definition New_speed :: "speed_config \<Rightarrow> bool \<Rightarrow> measure_world \<Rightarrow> (speed_error, speed_config \<times> string) res" where
  "New_speed cfg made mw =
     (if sp_Binary cfg = [] \<or> length (sp_SHA256 cfg) \<noteq> 64 \<or> sp_Version cfg = [] then Inl NotPinned
      else if sp_DataDir cfg = [] then Inl NoDataDir
      else let cfg1 = (if sp_SourceMode cfg = [] then cfg\<lparr>sp_SourceMode := ''home''\<rparr> else cfg) in
        if sp_SourceMode cfg1 \<noteq> ''home'' \<and> sp_SourceMode cfg1 \<noteq> ''controller'' then Inl BadMode
        else if \<not> made then Inl MkdirFailed
        else bind_res (verify_speed cfg1 mw) (\<lambda>version. Inr (cfg1, version)))"

text \<open>\<open>int\<close> of a float64 cuts off the fraction.\<close>

definition int_of_float :: "rat \<Rightarrow> int" where
  "int_of_float q = (if q \<ge> 0 then \<lfloor>q\<rfloor> else \<lceil>q\<rceil>)"

definition int_param :: "measure_world \<Rightarrow> jmap \<Rightarrow> string \<Rightarrow> int \<Rightarrow> int" where
  "int_param mw p k d = (case map_of p k of Some (JNum n) \<Rightarrow> int_of_float (mw_number mw n) | _ \<Rightarrow> d)"

definition budget_param :: "measure_world \<Rightarrow> jmap \<Rightarrow> (speed_error, nat) res" where
  "budget_param mw p =
     (case map_of p ''download_bytes'' of
        Some (JNum n) \<Rightarrow>
          let v = mw_number mw n in
          if v \<noteq> 1048576 \<and> v \<noteq> 4194304 \<and> v \<noteq> 8388608 \<and> v \<noteq> 16777216 then Inl BadBudget else Inr (nat \<lfloor>v\<rfloor>)
      | _ \<Rightarrow> Inr 0)"

record measure_plan =
  mp_node :: jmap
  mp_target :: string
  mp_parallel :: int
  mp_seconds :: int
  mp_budget :: nat
  mp_latencyOnly :: bool

text \<open>The checks of the command, before anything is started.\<close>

definition plan_measure :: "measure_world \<Rightarrow> jmap \<Rightarrow> (speed_error, measure_plan) res" where
  "plan_measure mw p =
     (case map_of p ''node'' of
        Some (JObj node) \<Rightarrow>
          let kind = get_string node ''type''; target = get_string p ''url'' in
          if kind \<in> set [[], ''direct'', ''reject'', ''pass''] then Inl NotAProxy
          else (case mw_parse mw target of
            None \<Rightarrow> Inl BadTarget
          | Some u \<Rightarrow>
              if u_host u = [] \<or> u_user u \<noteq> None \<or> (u_scheme u \<noteq> ''https'' \<and> u_scheme u \<noteq> ''http'') then Inl BadTarget
              else let parallel = int_param mw p ''parallel'' 1; seconds = int_param mw p ''duration_seconds'' 8 in
                if parallel \<notin> {1, 8, 16, 32, 64} then Inl BadParallel
                else if seconds < 1 \<or> seconds > 30 then Inl BadSeconds
                else bind_res (budget_param mw p) (\<lambda>budget.
                  Inr \<lparr>mp_node = node, mp_target = target, mp_parallel = parallel, mp_seconds = seconds, mp_budget = budget,
                    mp_latencyOnly = (map_of p ''latency_only'' = Some (JBool True))\<rparr>))
      | _ \<Rightarrow> Inl NoNode)"

definition measure_config :: "jmap \<Rightarrow> int \<Rightarrow> string \<Rightarrow> string \<Rightarrow> jmap" where
  "measure_config node port api secret =
     [(''allow-lan'', JBool False), (''bind-address'', JStr ''127.0.0.1''), (''dns'', JObj [(''enable'', JBool False)]),
      (''external-controller'', JStr api), (''external-controller-cors'', JObj [(''allow-origins'', JArr [])]), (''ipv6'', JBool True),
      (''log-level'', JStr ''silent''), (''mixed-port'', JNum (itoa port)), (''mode'', JStr ''rule''),
      (''proxies'', JArr [JObj (put_key ''name'' (JStr ''ASWired-measurement'') node)]), (''rules'', JArr [JStr ''MATCH,ASWired-measurement'']),
      (''secret'', JStr secret)]"

text \<open>Up to a hundred polls.\<close>

fun await_proxy :: "(nat \<Rightarrow> speed_poll) \<Rightarrow> nat \<Rightarrow> nat \<Rightarrow> (speed_error, unit) res" where
  "await_proxy polls i 0 = Inl SpeedNotReady"
| "await_proxy polls i (Suc left) =
     (if pl_dial (polls i) \<and> pl_api (polls i) = Some 200 then Inr ()
      else if pl_cancelled (polls i) then Inl SpeedCancelled
      else await_proxy polls (Suc i) left)"

definition proxyExitIP :: "measure_world \<Rightarrow> string \<Rightarrow> string option" where
  "proxyExitIP mw v =
     (case sourceURL (mw_parse mw) v of
        Inl _ \<Rightarrow> None
      | Inr u \<Rightarrow>
          (case mw_exit mw u of
             Some (status, Some b) \<Rightarrow>
               if status < 200 \<or> status \<ge> 300 \<or> length b > 4096 then None
               else (case mw_ip mw (trim_space b) of
                  Some ip \<Rightarrow> Some ip
                | None \<Rightarrow>
                    (case mw_json mw b of
                       None \<Rightarrow> None
                     | Some kvs \<Rightarrow>
                         (case List.find (\<lambda>k. mw_ip mw (trim_space (get_string kvs k)) \<noteq> None) [''ip'', ''address'', ''query''] of
                            None \<Rightarrow> None
                          | Some k \<Rightarrow> mw_ip mw (trim_space (get_string kvs k)))))
           | _ \<Rightarrow> None))"

fun sample_heads :: "(nat \<Rightarrow> nat option) \<Rightarrow> nat \<Rightarrow> nat \<Rightarrow> (speed_error, unit) res" where
  "sample_heads heads i 0 = Inr ()"
| "sample_heads heads i (Suc left) =
     (case heads i of
        None \<Rightarrow> Inl LatencyFailed
      | Some status \<Rightarrow> if status < 200 \<or> status \<ge> 300 then Inl (TargetStatus status) else sample_heads heads (Suc i) left)"

record speed_result =
  sd_parallel :: int
  sd_target :: string
  sd_exit_ip :: "string option"
  sd_latency_only :: bool
  sd_limit :: nat
  sd_bytes :: nat
  sd_failures :: nat

text \<open>What happens once the process answers.\<close>

definition run_measure :: "measure_world \<Rightarrow> jmap \<Rightarrow> measure_plan \<Rightarrow> speed_error option \<times> speed_result option" where
  "run_measure mw p plan =
     (let r = \<lparr>sd_parallel = mp_parallel plan, sd_target = mp_target plan,
            sd_exit_ip = (case get_string p ''ip_check_url'' of [] \<Rightarrow> None | v \<Rightarrow> proxyExitIP mw v),
            sd_latency_only = mp_latencyOnly plan, sd_limit = mp_budget plan, sd_bytes = 0, sd_failures = 0\<rparr> in
      case sample_heads (mw_head mw) 0 3 of
        Inl e \<Rightarrow> (Some e, Some r)
      | Inr _ \<Rightarrow>
          if mp_latencyOnly plan then (None, Some r)
          else (case downloadMeasurement (mw_answers mw) (nat (mp_parallel plan)) (mp_budget plan) of (b, failures) \<Rightarrow>
            let r1 = r\<lparr>sd_bytes := b, sd_failures := failures\<rparr> in
            if mw_cancelled mw then (Some SpeedCancelled, Some r1)
            else if b = 0 \<or> failures > 0 \<or> (mp_budget plan > 0 \<and> b < mp_budget plan) then (Some NotClean, Some r1)
            else (None, Some r1)))"

definition measure_speed :: "speed_config \<Rightarrow> measure_world \<Rightarrow> jmap \<Rightarrow> speed_error option \<times> speed_result option" where
  "measure_speed cfg mw p =
     (case verify_speed cfg mw of
        Inl e \<Rightarrow> (Some e, None)
      | Inr _ \<Rightarrow>
          (case plan_measure mw p of
             Inl e \<Rightarrow> (Some e, None)
           | Inr plan \<Rightarrow>
               if \<not> mw_temp mw then (Some TempFailed, None)
               else (case (mw_port mw, mw_api mw) of
                  (Some port, Some api) \<Rightarrow>
                    let secret = hex_encode (mw_random mw) in
                    if \<not> mw_written mw then (Some ConfigWrite, None)
                    else if \<not> mw_accepts mw (measure_config (mp_node plan) port api secret) then (Some NodeRejected, None)
                    else if \<not> mw_starts mw then (Some ProcessStart, None)
                    else (case await_proxy (mw_polls mw) 0 100 of
                       Inl e \<Rightarrow> (Some e, None)
                     | Inr _ \<Rightarrow>
                         (case AwaitConfiguration (mw_loopback mw) api secret (mw_barrier mw) of
                            Inl e \<Rightarrow> (Some (SpeedBarrier e), None)
                          | Inr _ \<Rightarrow> run_measure mw p plan))
                | _ \<Rightarrow> (Some NoPort, None))))"

section \<open>Commands\<close>

datatype speed_data = SourceData source_result | SpeedData speed_result

definition Handle_speed :: "speed_config \<Rightarrow> source_world \<Rightarrow> measure_world \<Rightarrow> command \<Rightarrow> string \<times> speed_error option \<times> speed_data option" where
  "Handle_speed cfg sw mw c =
     (if cmd_Action c \<noteq> ''speedtest.run'' \<and> cmd_Action c \<noteq> ''source.fetch'' then (''unsupported'', None, None)
      else let outcome = (if cmd_Action c = ''source.fetch''
             then (case fst (fetchSource cfg sw (cmd_Params c)) of Inl e \<Rightarrow> (Some e, None) | Inr d \<Rightarrow> (None, Some (SourceData d)))
             else (case measure_speed cfg mw (cmd_Params c) of (e, d) \<Rightarrow> (e, map_option SpeedData d))) in
        (if fst outcome = None then ''success'' else ''failed'', outcome))"

section \<open>What a fetch sends\<close>

definition hop_ok :: "speed_config \<Rightarrow> source_world \<Rightarrow> source_request \<Rightarrow> source_request \<Rightarrow> bool" where
  "hop_ok cfg sw previous req \<longleftrightarrow> is_ok (sourceURL (sw_parse sw) (sw_string sw (rq_url req))) \<and>
     \<not> (u_scheme (rq_url previous) = ''https'' \<and> u_scheme (rq_url req) = ''http'') \<and>
     (\<not> equal_fold (url_origin (rq_url previous)) (url_origin (rq_url req)) \<longrightarrow> rq_headers req = [])"

definition clean_header :: "string \<times> string \<Rightarrow> bool" where
  "clean_header kv \<longleftrightarrow> fst kv \<in> set [''Authorization'', ''Accept'', ''User-Agent'', ''Cookie''] \<and> length (snd kv) \<le> 4096 \<and>
     list_all (\<lambda>c. of_char c \<noteq> (13 :: nat) \<and> of_char c \<noteq> (10 :: nat)) (snd kv)"

text \<open>A request with the addresses tried for it that the configuration allows.\<close>

definition entry_ok :: "speed_config \<Rightarrow> source_request \<times> addr list \<Rightarrow> bool" where
  "entry_ok cfg e \<longleftrightarrow> origin_allowed cfg (rq_url (fst e)) \<and> list_all clean_header (rq_headers (fst e)) \<and>
     (sp_SourceAllowPrivate cfg \<or> list_all (\<lambda>ip. \<not> special_source ip) (snd e))"

lemma takeWhile_subset: "set (takeWhile p xs) \<subseteq> set xs"
  by (auto dest: set_takeWhileD)

lemma source_dial_tried: "source_dial cfg lookup connect host = (r, tried) \<Longrightarrow> sp_SourceAllowPrivate cfg \<or> list_all (\<lambda>ip. \<not> special_source ip) tried"
proof -
  assume run: "source_dial cfg lookup connect host = (r, tried)"
  show ?thesis
  proof (cases "tried = [] \<or> sp_SourceAllowPrivate cfg")
    case False
    then obtain ips where ips: "lookup host = Some ips" "\<not> list_ex special_source ips" "set tried \<subseteq> set ips"
      using run takeWhile_subset [of "\<lambda>ip. \<not> connect ip"] by (auto simp: source_dial_def Let_def split: option.splits if_splits)
    then show ?thesis by (auto simp: list_all_iff list_ex_iff)
  qed auto
qed

lemma send_one_tried: "send_one cfg sw n req = (answer, tried) \<Longrightarrow> sp_SourceAllowPrivate cfg \<or> list_all (\<lambda>ip. \<not> special_source ip) tried"
  using source_dial_tried by (fastforce simp: send_one_def split: prod.splits sum.splits)

lemma check_redirect_ok:
  assumes "check_redirect cfg sw via req = Inr req'"
  shows "length via \<le> 5 \<and> hop_ok cfg sw (last via) req' \<and> origin_allowed cfg (rq_url req') \<and> rq_url req' = rq_url req \<and>
    set (rq_headers req') \<subseteq> set (rq_headers req)"
proof -
  obtain u where u: "sourceURL (sw_parse sw) (sw_string sw (rq_url req)) = Inr u"
    using assms by (auto simp: check_redirect_def bind_res_def split: if_splits sum.splits)
  show ?thesis
    using assms u by (auto simp: check_redirect_def bind_res_def hop_ok_def Let_def split: if_splits)
qed

lemma follow_spec:
  assumes "follow cfg sw first strip via req = (r, trace)" "length via \<le> 5" "origin_allowed cfg (rq_url req)" "list_all clean_header (rq_headers req)"
    "list_all clean_header (rq_headers first)"
  shows "\<exists>tried rest. trace = (req, tried) # rest \<and> length via + length trace \<le> 6 \<and> successively (hop_ok cfg sw) (map fst trace) \<and> list_all (entry_ok cfg) trace"
  using assms
proof (induction cfg sw first strip via req arbitrary: r trace rule: follow.induct)
  case (1 cfg sw first strip via req)
  obtain answer tried where s: "send_one cfg sw (length via) req = (answer, tried)" by fastforce
  have here: "entry_ok cfg (req, tried)" using send_one_tried [OF s] "1.prems"(3,4) by (simp add: entry_ok_def)
  show ?case
  proof (cases "\<exists>u req'. answer = RedirectTo u \<and> check_redirect cfg sw (via @ [req])
      \<lparr>rq_url = u, rq_headers = copied_headers (strips strip (rq_url first) u) (rq_headers first)\<rparr> = Inr req'")
    case False
    then have "trace = [(req, tried)]"
      using "1.prems"(1) s by (subst (asm) follow.simps) (auto simp: Let_def split: source_answer.splits sum.splits)
    then show ?thesis using here "1.prems"(2) by simp
  next
    case True
    then obtain u req' where u: "answer = RedirectTo u" and c: "check_redirect cfg sw (via @ [req])
      \<lparr>rq_url = u, rq_headers = copied_headers (strips strip (rq_url first) u) (rq_headers first)\<rparr> = Inr req'" by blast
    note ok = check_redirect_ok [OF c]
    obtain r2 trace2 where rest: "follow cfg sw first (strips strip (rq_url first) u) (via @ [req]) req' = (r2, trace2)" by fastforce
    have trace: "trace = (req, tried) # trace2"
      using "1.prems"(1) s u c rest by (subst (asm) follow.simps) (simp add: Let_def)
    have clean: "list_all clean_header (rq_headers req')"
      using ok "1.prems"(5) by (auto simp: list_all_iff copied_headers_def)
    have "\<exists>tried rest. trace2 = (req', tried) # rest \<and> length (via @ [req]) + length trace2 \<le> 6 \<and> successively (hop_ok cfg sw) (map fst trace2) \<and>
        list_all (entry_ok cfg) trace2"
      by (rule "1.IH" [OF s [symmetric] u refl refl c rest]) (use ok clean "1.prems"(5) in auto)
    then show ?thesis using trace here ok by (auto simp: successively_Cons)
  qed
qed

lemma set_headers_clean: "set_headers sw kvs hs = Inr hs' \<Longrightarrow> list_all clean_header hs \<Longrightarrow> list_all clean_header hs'"
proof (induction sw kvs hs rule: set_headers.induct)
  case (2 sw k v kvs hs)
  let ?key = "sw_canonical sw k"
  obtain s where s: "?key \<in> set [''Authorization'', ''Accept'', ''User-Agent'', ''Cookie'']" "v = JStr s" "length s \<le> 4096"
    "\<not> list_ex (\<lambda>c. of_char c = (13 :: nat) \<or> of_char c = (10 :: nat)) s"
    "set_headers sw kvs (put_key ?key s hs) = Inr hs'"
    using "2.prems"(1) by (auto simp: Let_def split: if_splits json.splits)
  have "clean_header (?key, s)" using s(1,3,4) by (auto simp: clean_header_def list_all_iff list_ex_iff)
  then have "list_all clean_header (put_key ?key s hs)"
    using "2.prems"(2) set_put_key [of ?key s hs] by (auto simp: list_all_iff)
  from "2.IH" [OF refl s(1,2) _ s(5) this] s(3,4) show ?case by auto
qed simp


section \<open>What a download reads\<close>

lemma read_body_limit: "read_body (Some l) chunks ending = (n, e) \<Longrightarrow> n \<le> l"
proof (induction "Some l" chunks ending arbitrary: l n e rule: read_body.induct)
  case (1 chunks ending)
  show ?case
  proof (cases "l = 0 \<or> chunks = []")
    case True
    then show ?thesis using "1.prems" by (subst (asm) read_body.simps) (auto split: if_splits)
  next
    case False
    then obtain c cs where cs: "chunks = c # cs" and l: "0 < l" by (cases chunks) auto
    let ?n = "min c (min l 32768)"
    let ?cs = "if ?n < c then (c - ?n) # cs else cs"
    obtain k e' where rest: "read_body (Some (l - ?n)) ?cs ending = (k, e')" by fastforce
    have "n = ?n + k" using "1.prems" cs l rest by (subst (asm) read_body.simps) (simp add: Let_def)
    moreover have "k \<le> l - ?n"
      using "1.hyps" [of c cs ?n "l - ?n" k e'] cs l rest by simp
    ultimately show ?thesis by simp
  qed
qed

lemma run_worker_limit: "run_worker True left as = (n, f) \<Longrightarrow> n \<le> left"
proof (induction "True" left as arbitrary: n f rule: run_worker.induct)
  case (2 left a as)
  show ?case
  proof (cases a)
    case (RequestFailed expired)
    then show ?thesis using "2.prems" by (auto split: if_splits)
  next
    case (Response status chunks ending)
    obtain k e where b: "read_body (Some left) chunks ending = (k, e)" by fastforce
    obtain m g where rest: "run_worker True (left - k) as = (m, g)" by fastforce
    note kl = read_body_limit [OF b]
    show ?thesis
    proof (cases "left = 0 \<or> status < 200 \<or> status \<ge> 300 \<or> k = 0")
      case True
      then show ?thesis using "2.prems" Response b by (auto split: if_splits)
    next
      case False
      then have "n = k + m" using "2.prems" Response b rest by simp
      moreover have "m \<le> left - k" using "2.hyps" [OF _ Response _ _ _ rest] False b by auto
      ultimately show ?thesis using kl by simp
    qed
  qed
qed simp

lemma budget_split: "0 < parallel \<Longrightarrow> sum_list (map (worker_budget budget parallel) [0..<parallel]) = budget"
proof -
  assume p: "0 < parallel"
  have extra: "sum_list (map (\<lambda>i. if i < r then 1 else 0) [0..<k]) = min r k" for r k :: nat
    by (induction k) (auto simp: min_def)
  show ?thesis
  proof (cases "budget = 0")
    case False
    then have "sum_list (map (worker_budget budget parallel) [0..<parallel]) =
        sum_list (map (\<lambda>i. budget div parallel + (if i < budget mod parallel then 1 else 0)) [0..<parallel])"
      by (intro arg_cong [where f = sum_list] map_cong) (simp_all add: worker_budget_def)
    also have "\<dots> = parallel * (budget div parallel) + min (budget mod parallel) parallel"
      by (simp add: sum_list_addf extra sum_list_triv)
    also have "\<dots> = budget" using p by (simp add: min_def less_imp_le)
    finally show ?thesis .
  qed (simp add: worker_budget_def sum_list_triv)
qed

lemma sum_list_le: "(\<And>x. x \<in> set xs \<Longrightarrow> f x \<le> (g x :: nat)) \<Longrightarrow> sum_list (map f xs) \<le> sum_list (map g xs)"
  by (induction xs) (auto intro: add_mono)

lemma download_limit:
  assumes "downloadMeasurement answers parallel budget = (b, f)" "0 < budget" "0 < parallel"
  shows "b \<le> budget"
proof -
  have "b = sum_list (map (\<lambda>i. fst (run_worker True (worker_budget budget parallel i) (answers i))) [0..<parallel])"
    using assms(1,2) by (auto simp: downloadMeasurement_def Let_def o_def)
  also have "\<dots> \<le> sum_list (map (worker_budget budget parallel) [0..<parallel])"
    by (rule sum_list_le) (use run_worker_limit in \<open>metis prod.collapse\<close>)
  also have "\<dots> = budget" by (rule budget_split [OF assms(3)])
  finally show ?thesis .
qed

lemma budget_values: "budget_param mw p = Inr b \<Longrightarrow> b \<in> {0, 1048576, 4194304, 8388608, 16777216}"
  by (simp add: budget_param_def Let_def split: option.splits json.splits if_splits) auto

lemma plan_values:
  assumes "plan_measure mw p = Inr plan"
  shows "mp_parallel plan \<in> {1, 8, 16, 32, 64} \<and> mp_budget plan \<in> {0, 1048576, 4194304, 8388608, 16777216} \<and>
    get_string (mp_node plan) ''type'' \<notin> {[], ''direct'', ''reject'', ''pass''}"
proof -
  obtain node where node: "map_of p ''node'' = Some (JObj node)"
    using assms by (simp add: plan_measure_def split: option.splits json.splits)
  let ?kind = "get_string node ''type''"
  obtain u where u: "mw_parse mw (get_string p ''url'') = Some u" "?kind \<notin> set [[], ''direct'', ''reject'', ''pass'']"
    using assms node by (simp add: plan_measure_def Let_def split: if_splits option.splits)
  let ?parallel = "int_param mw p ''parallel'' 1"
  let ?seconds = "int_param mw p ''duration_seconds'' 8"
  have ok: "?parallel \<in> {1, 8, 16, 32, 64}" and rest: "bind_res (budget_param mw p) (\<lambda>budget.
      Inr \<lparr>mp_node = node, mp_target = get_string p ''url'', mp_parallel = ?parallel, mp_seconds = ?seconds, mp_budget = budget,
        mp_latencyOnly = (map_of p ''latency_only'' = Some (JBool True))\<rparr>) = Inr plan"
    using assms unfolding plan_measure_def node Let_def by (simp_all only: option.case json.case u if_False split: if_splits) auto
  obtain b where b: "budget_param mw p = Inr b" using rest by (cases "budget_param mw p") (simp_all add: bind_res_def)
  then have "plan = \<lparr>mp_node = node, mp_target = get_string p ''url'', mp_parallel = ?parallel, mp_seconds = ?seconds, mp_budget = b,
      mp_latencyOnly = (map_of p ''latency_only'' = Some (JBool True))\<rparr>" using rest by (simp add: bind_res_def)
  then show ?thesis using ok budget_values [OF b] u(2) by simp
qed

text \<open>C37: A measurement with a download limit never counts more than the limit, which is at most 16 MiB, although up to 64
  workers read at once; and one that succeeds with a download read something without a failure, and exactly the
  limit when there is one.\<close>

theorem download_within_budget:
  assumes "measure_speed cfg mw p = (e, Some r)"
  shows "sd_limit r \<le> 16777216 \<and> (0 < sd_limit r \<longrightarrow> sd_bytes r \<le> sd_limit r) \<and>
    (e = None \<and> \<not> sd_latency_only r \<longrightarrow> 0 < sd_bytes r \<and> sd_failures r = 0 \<and> (0 < sd_limit r \<longrightarrow> sd_bytes r = sd_limit r))"
proof -
  obtain plan where plan: "plan_measure mw p = Inr plan" and run: "run_measure mw p plan = (e, Some r)"
    using assms by (auto simp: measure_speed_def Let_def split: sum.splits if_splits option.splits)
  note vals = plan_values [OF plan]
  obtain b f where d: "downloadMeasurement (mw_answers mw) (nat (mp_parallel plan)) (mp_budget plan) = (b, f)" by fastforce
  have limit: "0 < mp_budget plan \<Longrightarrow> b \<le> mp_budget plan" using download_limit [OF d] vals by auto
  have "mp_budget plan \<le> 16777216" using vals by auto
  then show ?thesis
    using run d limit by (auto simp: run_measure_def Let_def split: sum.splits if_splits)
qed

section \<open>Examples\<close>

text \<open>
  A server that redirects to a subdomain, and from there to another page of it. The first redirect carries no
  header of the command, but the second one, which stays on the new origin, carries them again: net/http copies the
  headers of the first request, and the code's check only compares a request with the one before it.
\<close>

definition sample_page :: "string \<Rightarrow> string \<Rightarrow> parsed_url" where
  "sample_page host path = \<lparr>u_scheme = ''https'', u_host = host, u_user = None, u_fragment = [], u_hostname = host, u_loopback = False,
     u_path = path, u_query = []\<rparr>"

definition sample_speed :: speed_config where
  "sample_speed = \<lparr>sp_Binary = ''m'', sp_SHA256 = replicate 64 CHR ''0'', sp_Version = ''1'', sp_DataDir = ''/d'', sp_SourceID = [],
     sp_SourceMode = ''home'', sp_SourceAllowedOrigins = [], sp_SourceAllowPrivate = False\<rparr>"

definition sample_source :: source_world where
  "sample_source = \<lparr>sw_parse = (\<lambda>_. Some (sample_page ''a.b'' [])), sw_string = u_host, sw_lookup = (\<lambda>_ _. Some [V4 0x01010101]),
     sw_connect = (\<lambda>_ _. True),
     sw_answer = (\<lambda>n _. if n = 0 then RedirectTo (sample_page ''c.a.b'' []) else if n = 1 then RedirectTo (sample_page ''c.a.b'' ''/x'')
       else Answer \<lparr>rs_status = 404, rs_headers = (\<lambda>_. []), rs_body = None\<rparr>),
     sw_canonical = (\<lambda>k. k), sw_utf8 = (\<lambda>_. True)\<rparr>"

definition sample_fetch :: jmap where
  "sample_fetch = [(''headers'', JObj [(''Authorization'', JStr ''s'')]), (''url'', JStr ''u'')]"

definition sample_first :: source_request where
  "sample_first = \<lparr>rq_url = sample_page ''a.b'' [], rq_headers = [(''Authorization'', ''s'')]\<rparr>"

lemma sample_followed:
  "map (\<lambda>(q, _). (u_host (rq_url q), rq_headers q)) (snd (follow sample_speed sample_source sample_first False [] sample_first)) =
     [(''a.b'', [(''Authorization'', ''s'')]), (''c.a.b'', []), (''c.a.b'', [(''Authorization'', ''s'')])]"
  by code_simp

lemma sample_fetched: "snd (fetchSource sample_speed sample_source sample_fetch) = snd (follow sample_speed sample_source sample_first False [] sample_first)"
proof -
  have u: "sourceURL (sw_parse sample_source) (get_string sample_fetch ''url'') = Inr (sample_page ''a.b'' [])"
    "origin_allowed sample_speed (sample_page ''a.b'' [])"
    by (simp_all add: sourceURL_def sample_source_def sample_page_def origin_allowed_def sample_speed_def)
  have h: "map_of sample_fetch ''headers'' = Some (JObj [(''Authorization'', JStr ''s'')])" by (simp add: sample_fetch_def)
  have "set_headers sample_source [(''Authorization'', JStr ''s'')] [] = Inr [(''Authorization'', ''s'')]" by (simp add: sample_source_def)
  then show ?thesis using u h
    by (cases "follow sample_speed sample_source sample_first False [] sample_first")
      (simp add: fetchSource_def sample_first_def Let_def del: set_headers.simps split: sum.splits)
qed

lemma headers_return_after_a_second_redirect:
  "map (\<lambda>(q, _). (u_host (rq_url q), rq_headers q)) (snd (fetchSource sample_speed sample_source sample_fetch)) =
     [(''a.b'', [(''Authorization'', ''s'')]), (''c.a.b'', []), (''c.a.b'', [(''Authorization'', ''s'')])]"
  unfolding sample_fetched by (rule sample_followed)


text \<open>A measurement without a limit whose one worker reads five bytes.\<close>

definition sample_measure :: measure_world where
  "sample_measure = \<lparr>mw_binary = Some [], mw_version = Some ''v 1'', mw_sha256 = (\<lambda>_. replicate 32 0), mw_parse = (\<lambda>_. Some (sample_page ''a.b'' [])),
     mw_number = (\<lambda>_. 0), mw_temp = True, mw_port = Some 9, mw_api = Some ''127.0.0.1:9'', mw_random = [1], mw_written = True,
     mw_accepts = (\<lambda>_. True), mw_starts = True, mw_polls = (\<lambda>_. \<lparr>pl_dial = True, pl_api = Some 200, pl_cancelled = False\<rparr>),
     mw_loopback = (\<lambda>_. True), mw_barrier = Some 204, mw_exit = (\<lambda>_. None), mw_ip = (\<lambda>_. None), mw_json = (\<lambda>_. None),
     mw_head = (\<lambda>_. Some 200), mw_answers = (\<lambda>_. [Response 200 [5] BodyEOF]), mw_cancelled = False\<rparr>"

definition sample_command :: jmap where
  "sample_command = [(''node'', JObj [(''type'', JStr ''ss'')]), (''url'', JStr ''u'')]"

lemma sample_measured:
  "measure_speed sample_speed sample_measure sample_command =
     (None, Some \<lparr>sd_parallel = 1, sd_target = ''u'', sd_exit_ip = None, sd_latency_only = False, sd_limit = 0, sd_bytes = 5, sd_failures = 0\<rparr>)"
proof -
  have v: "verify_speed sample_speed sample_measure = Inr ''v 1''" by code_simp
  have ready: "await_proxy (mw_polls sample_measure) 0 100 = Inr ()"
    by (simp add: numeral_eq_Suc sample_measure_def)
  have barrier: "AwaitConfiguration (mw_loopback sample_measure) ''127.0.0.1:9'' (hex_encode (mw_random sample_measure)) (mw_barrier sample_measure) = Inr ()" by code_simp
  have plan: "plan_measure sample_measure sample_command = Inr \<lparr>mp_node = [(''type'', JStr ''ss'')], mp_target = ''u'', mp_parallel = 1, mp_seconds = 8,
      mp_budget = 0, mp_latencyOnly = False\<rparr>"
    by (simp add: plan_measure_def sample_command_def get_string_def get_any_def sample_measure_def sample_page_def int_param_def budget_param_def bind_res_def Let_def)
  have heads: "sample_heads (mw_head sample_measure) 0 3 = Inr ()" by (simp add: numeral_eq_Suc sample_measure_def)
  have load: "downloadMeasurement (mw_answers sample_measure) 1 0 = (5, 0)"
    by (simp add: downloadMeasurement_def sample_measure_def read_body.simps body_failures_def)
  have fields: "mw_temp sample_measure" "mw_port sample_measure = Some 9" "mw_api sample_measure = Some ''127.0.0.1:9''" "mw_written sample_measure"
    "mw_accepts sample_measure c" "mw_starts sample_measure" "\<not> mw_cancelled sample_measure" for c
    by (simp_all add: sample_measure_def)
  have "get_string sample_command ''ip_check_url'' = []" by (simp add: sample_command_def get_string_def get_any_def)
  then show ?thesis using v ready barrier plan heads load fields by (simp add: measure_speed_def run_measure_def Let_def)
qed

theorem download_within_budget_witness:
  "\<exists>r. measure_speed sample_speed sample_measure sample_command = (None, Some r) \<and> 0 < sd_bytes r \<and> sd_failures r = 0"
  using download_within_budget [OF sample_measured] sample_measured by auto

end
