(* ===== verification/Spec2Isabelle.thy ===== *)
theory Spec2Isabelle
  imports Agent_Updater Control_Dial Agent_Runtime Speed_Test
begin

text \<open>
  Verification of the ASWired Agent, the Go program under \<^verbatim>\<open>src/internal\<close> and \<^verbatim>\<open>src/cmd\<close>.

  \<^bold>\<open>The program.\<close> The Agent runs on a proxy node. A Controller gives it commands over an encrypted channel (package
  \<^verbatim>\<open>wire\<close>), either in v1 exchanges or over a v2 stream (package \<^verbatim>\<open>control\<close>), and receives results and observations of the
  node. The runtime (package \<^verbatim>\<open>runtime\<close>) executes the commands: it keeps an embedded Xray core with its configuration,
  users and per-user policies, a port allowlist in nftables, port forwards, WireGuard tunnels, an auxiliary Mihomo
  process (package \<^verbatim>\<open>auxiliary\<close>), grants by which an owner shares the node with other consumers, log files (package
  \<^verbatim>\<open>logfiles\<close>), and some tools (certificates, a web server's configuration, measurements, the REALITY scanner). An
  updater replaces the program's own binary (packages \<^verbatim>\<open>artifact\<close> and \<^verbatim>\<open>updater\<close>); package \<^verbatim>\<open>config\<close> holds the
  configuration file and pairing. A second program, the speed test client (package \<^verbatim>\<open>speedtest\<close>), takes its commands over
  the same channel.

  \<^bold>\<open>How the model reads.\<close> Every Go function that carries logic is one definition, with the name of the function where
  HOL allows it; a struct is a \<open>record\<close>, a failure a value of the sum type \<open>res\<close> with an error datatype per
  component (the text of an error message is its constructor), mutable state a record that is passed and returned. A Go
  map that is iterated over or encoded is an association list. Integers with a width that matters are words or have their
  bound written out. A mutex makes a method one step; goroutines that interleave (the stream, forwards, sessions of
  users) are machines whose events are the iterations of their loops, in any order. All definitions are total and can be
  evaluated; loops that need it have a termination proof.

  What is not under \<^verbatim>\<open>src/internal\<close> is a parameter: cryptography, gzip, Xray, Mihomo, nftables, \<^verbatim>\<open>wg\<close>, the resolver and the
  network, clocks and random sources, \<^verbatim>\<open>net/url\<close>, \<^verbatim>\<open>net/netip\<close> parsing and printing, and the JSON text of typed messages.
  Laws assumed about them (an AEAD opens what it sealed and nothing else, printing an address and parsing it back) are
  hypotheses of the theorem that needs them and hold of the samples its witness uses. File operations and system calls
  fail as a list of faults in the state tells, so a theorem over all states is a theorem over all failures.

  \<^bold>\<open>The theories.\<close>
  \<^item> \<open>Agent_Prelude\<close>: results, byte strings, association lists with \<open>put_key\<close>, and the interfaces as locales:
    \<open>codec\<close> (decoding undoes encoding), \<open>guarded_machine\<close>, \<open>machine\<close>, \<open>bounded_machine\<close>, \<open>monotone_machine\<close> (a step
    function that keeps an invariant, for events that meet a guard, for all events, for a number of steps, with a value that
    never falls), \<open>ordered_receiver\<close> (numbered messages are taken once and in order). \<open>Go_Encoding\<close>, \<open>Go_Text\<close>
    and \<open>Json_Model\<close>: base64, hexadecimal and big-endian integers (each interpreted as a \<open>codec\<close>), functions of
    \<^verbatim>\<open>strings\<close>, \<^verbatim>\<open>strconv\<close>, \<^verbatim>\<open>path/filepath\<close> and \<^verbatim>\<open>net\<close>, and JSON documents.
  \<^item> \<open>Wire_Channel\<close> (\<^verbatim>\<open>wire/wire.go\<close>, \<^verbatim>\<open>wire/stream.go\<close>): key agreement, \<open>Seal\<close> and \<open>Open\<close>, binary frames. Packets and
    frames are interpretations of \<open>ordered_receiver\<close>. No packet is accepted twice or out of order, no nonce is used
    twice, what is delivered is a prefix of what was sent, frames round-trip.
  \<^item> \<open>Wire_Messages\<close> (\<^verbatim>\<open>wire/direct.go\<close>, \<^verbatim>\<open>wire/federation.go\<close>): signed hellos, grants and request proofs.
    \<open>Observation_Delta\<close> (\<^verbatim>\<open>wire/delta.go\<close>): applying a delta to the old observation gives the new one.
  \<^item> \<open>Agent_Config\<close> (\<^verbatim>\<open>config\<close>): decoding, validation, edits, pairing. \<open>Control_Client\<close> (\<^verbatim>\<open>control/client.go\<close>,
    \<^verbatim>\<open>connection.go\<close>, \<^verbatim>\<open>identity.go\<close>, \<^verbatim>\<open>transports.go\<close>): the command cache, the queue of results, the v1 exchange as a
    \<open>machine\<close>, the direct listener. \<open>Control_Stream\<close> (\<^verbatim>\<open>control/stream.go\<close>): the v2 session as a \<open>guarded_machine\<close>; the
    Controller's copy of the observation is the one the Agent diffs against, and no result is lost. \<open>Control_Dial\<close>
    (\<^verbatim>\<open>control/client.go\<close>, \<^verbatim>\<open>transports.go\<close>): pulls, the pull loop beside the direct listener and the WebSocket; all of
    them are runs of the exchange machine (a simulation), so its properties hold of every transport.
  \<^item> \<open>Artifact_Fetch\<close>, \<open>Agent_Updater\<close>: a download is installed only when verified; a crash between any two
    file operations of an update leaves a binary that can be run.
  \<^item> \<open>User_Policy\<close> (\<^verbatim>\<open>runtime/policy.go\<close>): the sessions of users as a \<open>bounded_machine\<close>; counters equal live
    sessions and limits hold through replacement of the policies.
  \<^item> \<open>Firewall_Rules\<close>, \<open>Firewall_Apply\<close> (\<^verbatim>\<open>runtime/firewall.go\<close>, \<^verbatim>\<open>firewall_persistence.go\<close>): the batch means the allowlist
    (an evaluation of packets is compared with the rules), and the transaction over journal, file and kernel, a
    \<open>monotone_machine\<close> in the revision, which fails closed.
  \<^item> \<open>Geo_Assets\<close>, \<open>Core_Runtime\<close>, \<open>Federation_Grants\<close>, \<open>User_Sync\<close>, \<open>Federation_Exec\<close>, \<open>Core_Machine\<close>,
    \<open>Node_Properties\<close>, \<open>Shared_Users\<close> (\<^verbatim>\<open>runtime/geodata.go\<close>, \<^verbatim>\<open>core.go\<close>, \<^verbatim>\<open>proxy_network.go\<close>, \<^verbatim>\<open>bootstrap.go\<close>, \<^verbatim>\<open>embedded_mode.go\<close>,
    \<^verbatim>\<open>federation.go\<close>, \<^verbatim>\<open>users.go\<close>): the node, a \<open>monotone_machine\<close> in the generation of the core. The running core is the
    one on disk, protected ports stay bound, a failed configuration is undone, a synchronisation reaches the wanted
    users, namespaces of consumers are disjoint, a consumer cannot touch others' users, a federated command runs once.
  \<^item> \<open>Port_Forwards\<close>, \<open>Tunnels\<close> (\<^verbatim>\<open>runtime/forward.go\<close>, \<^verbatim>\<open>wireguard.go\<close>): replacement of all forwards in one step, limits of
    connections and sessions as a \<open>machine\<close>; tunnels with rollback, which never touch an interface of others.
  \<^item> \<open>Log_Files\<close>, \<open>Log_Streams\<close> (\<^verbatim>\<open>logfiles\<close>, \<^verbatim>\<open>runtime/logs.go\<close>): rotation and pruning as a \<open>guarded_machine\<close> within
    a space bound, the reader of the newest lines against a reference, and the log commands.
  \<^item> \<open>Mihomo\<close> (\<^verbatim>\<open>auxiliary/mihomo.go\<close>, \<^verbatim>\<open>mihomoapi/ready.go\<close>): the auxiliary process as a \<open>machine\<close>. The launch ends within
    its polls, a process that becomes ready is accepted, a failed change is undone, users go through their own bridge.
  \<^item> \<open>Reality_Scan\<close> (\<^verbatim>\<open>realityscan\<close>), \<open>Node_Tools\<close> (\<^verbatim>\<open>runtime/operations.go\<close>, \<^verbatim>\<open>quality.go\<close>), \<open>Speed_Test\<close> (\<^verbatim>\<open>speedtest\<close>): the scanner
    connects to public addresses only and confirms what it calls feasible; a web server configuration is tested or
    restored; the speed test client stays within allowed origins and its download budget.
  \<^item> \<open>Agent_Runtime\<close> (\<^verbatim>\<open>runtime/runtime.go\<close>, \<^verbatim>\<open>managed_config.go\<close>): all of it together: start, end and every command on the
    state of all components, a \<open>guarded_machine\<close> whose invariant joins that of the node and that of the auxiliary
    process. It is used through their interpretations \<open>node\<close> and \<open>aux\<close>; a core configuration and its listeners are applied
    jointly, and no listener starts before the port policy is in force.

  \<^bold>\<open>Bounds.\<close> No definition has fuel of its own: the readiness loops of Mihomo and of the speed test run at most the 160 and
  100 polls the code's clock and counter allow, redirects at most the six requests of the code, and every other loop
  recurs on its data. Claims that something returns are claims on these total functions. The counters of channels and
  sessions stay below 2^64 by their own checks or within the stated number of steps.

  \<^bold>\<open>Not modelled.\<close> The main programs (flags, signals, wiring); the loop \<^verbatim>\<open>Run\<close> that chooses a transport, and the HTTP
  server around its handlers; canonical paths, symbolic links and file modes of \<^verbatim>\<open>runtime/files.go\<close> and the platform files; attributes of child
  processes; documents that only report (\<^verbatim>\<open>Snapshot\<close>, \<^verbatim>\<open>Capabilities\<close>, \<^verbatim>\<open>status\<close>, \<^verbatim>\<open>scan\<close>). All of this is input and output or
  wiring without a decision of its own. Time stamps and the texts of errors are left out where no decision depends on
  them. A panic is not modelled: the branches that would cause one cannot be reached from decoded inputs.
\<close>

end
